(* ===== verification/Prelude.thy ===== *)
theory Prelude
  imports Main "HOL-Library.Word" "HOL-Library.Tree" "HOL-Library.Monad_Syntax"
begin

text \<open>
  Shared ground of the development: error codes, page arithmetic as the C macros
  define it on a 64-bit machine, neighbours in a kernel list, and the collections of
  facts that the component theories add to.
\<close>

named_theorems page_simps \<open>unfolding rules for the page and alignment macros\<close>
named_theorems run_defs \<open>definitions to unfold when the model is run on concrete values\<close>
named_theorems list_walk \<open>successor and predecessor of an element of a list\<close>

type_synonym addr = nat
type_synonym byte = "8 word"
type_synonym u16 = "16 word"
type_synonym u32 = "32 word"
type_synonym u64 = "64 word"

section \<open>Signed counters\<close>

text \<open>A C \<open>int\<close> after an addition: 32 bits, two's complement.\<close>

definition int32 :: "int \<Rightarrow> int" where
  "int32 n = (n + 2 ^ 31) mod 2 ^ 32 - 2 ^ 31"

abbreviation INT_MAX :: int where "INT_MAX \<equiv> 2 ^ 31 - 1"

lemma int32_id: "- (2 ^ 31) \<le> n \<Longrightarrow> n < 2 ^ 31 \<Longrightarrow> int32 n = n"
  by (simp add: int32_def)

section \<open>Error codes\<close>

abbreviation EPERM :: int where "EPERM \<equiv> 1"
abbreviation ESRCH :: int where "ESRCH \<equiv> 3"
abbreviation EINTR :: int where "EINTR \<equiv> 4"
abbreviation EBADF :: int where "EBADF \<equiv> 9"
abbreviation EAGAIN :: int where "EAGAIN \<equiv> 11"
abbreviation ENOMEM :: int where "ENOMEM \<equiv> 12"
abbreviation EFAULT :: int where "EFAULT \<equiv> 14"
abbreviation EBUSY :: int where "EBUSY \<equiv> 16"
abbreviation EINVAL :: int where "EINVAL \<equiv> 22"
abbreviation EMFILE :: int where "EMFILE \<equiv> 24"
abbreviation ENOTTY :: int where "ENOTTY \<equiv> 25"

section \<open>Ioctl numbers\<close>

text \<open>\<open>_IOC\<close>: direction, type character, number and size of the argument.\<close>

definition ioc :: "nat \<Rightarrow> nat \<Rightarrow> nat \<Rightarrow> nat \<Rightarrow> u32" where
  "ioc dir ty nr sz = word_of_nat (dir * 2 ^ 30 + sz * 2 ^ 16 + ty * 2 ^ 8 + nr)"

section \<open>Pages and alignment\<close>

text \<open>
  Addresses are naturals below \<open>2 ^ 64\<close>. \<open>x & PAGE_MASK\<close> is \<open>page_floor x\<close>, and
  \<open>PAGE_ALIGN(x)\<close> rounds up. \<open>align_ptr\<close> is \<open>ALIGN(x, sizeof(void *))\<close> on a
  \<open>size_t\<close>, with the wrap-around of its addition written out.
\<close>

abbreviation PAGE_SIZE :: nat where "PAGE_SIZE \<equiv> 4096"

definition page_floor :: "nat \<Rightarrow> nat" where
  "page_floor x = x div 4096 * 4096"

definition PAGE_ALIGN :: "nat \<Rightarrow> nat" where
  "PAGE_ALIGN x = (x + 4095) div 4096 * 4096"

abbreviation size_t_range :: nat where "size_t_range \<equiv> 2 ^ 64"

definition align_ptr :: "nat \<Rightarrow> nat" where
  "align_ptr x = ((x + 7) mod 2 ^ 64) div 8 * 8"

declare page_floor_def [page_simps] PAGE_ALIGN_def [page_simps]

lemma page_floor_le: "page_floor x \<le> x"
  by (simp add: page_floor_def)

text \<open>
  The two bounds that characterise a page index: they let linear arithmetic treat
  \<open>x div 4096\<close> as an atom.
\<close>

lemma page_index_bounds: "4096 * (x div 4096) \<le> x \<and> x < 4096 * (x div 4096) + (4096::nat)"
  using div_mult_mod_eq [of x 4096] mod_less_divisor [of 4096 x] by linarith

lemma PAGE_ALIGN_ge: "x \<le> PAGE_ALIGN x"
  unfolding PAGE_ALIGN_def using page_index_bounds [of "x + 4095"] by linarith

lemma PAGE_ALIGN_lt: "PAGE_ALIGN x < x + 4096"
  unfolding PAGE_ALIGN_def using page_index_bounds [of "x + 4095"] by linarith

lemma align_ptr_mod [simp]: "align_ptr x mod 8 = 0"
  by (simp add: align_ptr_def)

lemma align_ptr_small: "x + 7 < 2 ^ 64 \<Longrightarrow> x \<le> align_ptr x \<and> align_ptr x < x + 8"
  unfolding align_ptr_def by simp presburger

lemma align_ptr_wrap: "x < 2 ^ 64 \<Longrightarrow> 2 ^ 64 \<le> x + 7 \<Longrightarrow> align_ptr x = 0"
proof -
  assume "x < 2 ^ 64" and "2 ^ 64 \<le> x + 7"
  then have "(x + 7) mod 2 ^ 64 = x + 7 - 2 ^ 64"
    by (simp add: mod_if)
  then show ?thesis using \<open>x < 2 ^ 64\<close> by (simp add: align_ptr_def)
qed

lemma align_ptr_less: "align_ptr x \<le> 2 ^ 64 - 8"
proof -
  have "(x + 7) mod 2 ^ 64 < (2::nat) ^ 64" by simp
  then show ?thesis unfolding align_ptr_def by simp
qed

section \<open>Walking a kernel list\<close>

text \<open>
  \<open>list_entry(x->entry.next)\<close> and \<open>list_entry(x->entry.prev)\<close>; \<open>None\<close> is the list
  head (\<open>list_is_last\<close>, or \<open>head->next == &x->entry\<close>).
\<close>

fun list_next :: "'a list \<Rightarrow> 'a \<Rightarrow> 'a option" where
  "list_next [] x = None"
| "list_next (y # ys) x =
     (if x = y then (case ys of [] \<Rightarrow> None | z # _ \<Rightarrow> Some z) else list_next ys x)"

fun list_prev :: "'a list \<Rightarrow> 'a \<Rightarrow> 'a option" where
  "list_prev (y # z # zs) x = (if x = z then Some y else list_prev (z # zs) x)"
| "list_prev _ x = None"

text \<open>\<open>list_add(new, at)\<close>: insert \<open>new\<close> right after \<open>at\<close>.\<close>

fun list_insert_after :: "'a \<Rightarrow> 'a \<Rightarrow> 'a list \<Rightarrow> 'a list" where
  "list_insert_after pos v [] = []"
| "list_insert_after pos v (y # ys) =
     (if y = pos then y # v # ys else y # list_insert_after pos v ys)"

lemma list_next_mid [list_walk]:
  "x \<notin> set xs \<Longrightarrow> list_next (xs @ x # ys) x = (case ys of [] \<Rightarrow> None | z # _ \<Rightarrow> Some z)"
  by (induction xs) auto

lemma list_prev_absent: "x \<notin> set (tl xs) \<Longrightarrow> list_prev xs x = None"
  by (induction xs x rule: list_prev.induct) auto

lemma list_prev_mid [list_walk]:
  "x \<notin> set xs \<Longrightarrow> x \<notin> set ys \<Longrightarrow>
    list_prev (xs @ x # ys) x = (if xs = [] then None else Some (last xs))"
proof (induction xs)
  case Nil
  then show ?case by (simp add: list_prev_absent)
next
  case (Cons y xs)
  then show ?case by (cases xs) auto
qed

lemma list_insert_after_mid [list_walk]:
  "x \<notin> set xs \<Longrightarrow> list_insert_after x v (xs @ x # ys) = xs @ x # v # ys"
  by (induction xs) auto

lemma remove1_mid [list_walk]: "x \<notin> set xs \<Longrightarrow> remove1 x (xs @ x # ys) = xs @ ys"
  by (induction xs) auto

lemma option_bind_eq_SomeE:
  assumes "Option.bind m f = Some y"
  obtains x where "m = Some x" and "f x = Some y"
  using assms by (cases m) auto

end
