(* ===== verification/Binder_Alloc.thy ===== *)
theory Binder_Alloc
  imports Prelude
begin

text \<open>
  The transaction-buffer allocator of \<open>driver/binder/binder.c\<close>: the buffers of one
  process' mapping, the two red-black trees that index them, and the pages that back
  them. Every function is total; \<open>None\<close> stands for a \<open>BUG()\<close> or for an access the
  kernel would fault on.

  The allocator's part of \<open>struct binder_proc\<close> is the record \<open>binder_alloc\<close>. A
  buffer header lives in the mapping at its own address, so a buffer is named by that
  address and \<open>bufs\<close> is the memory that holds the headers. The trees hold addresses.
  Rebalancing is the kernel's (\<open>rb_insert_color\<close>, \<open>rb_erase\<close>): it is a parameter,
  like page allocation and the task's address space.
\<close>

section \<open>Data\<close>

text \<open>\<open>sizeof(struct binder_buffer)\<close>, which is also the offset of its \<open>data\<close>.\<close>

abbreviation sizeof_binder_buffer :: nat where "sizeof_binder_buffer \<equiv> 80"

record binder_buffer =
  buf_free :: bool
  allow_user_free :: bool
  async_transaction :: bool
  buf_debug_id :: int
  buf_transaction :: "nat option"
  buf_target_node :: "nat option"
  buf_data_size :: nat
  buf_offsets_size :: nat
  buf_data :: "byte list"

text \<open>The first header of a new mapping: \<open>free\<close> is set in a page of zeroes.\<close>

definition fresh_buffer :: binder_buffer where
  "fresh_buffer = \<lparr>buf_free = True, allow_user_free = False, async_transaction = False,
     buf_debug_id = 0, buf_transaction = None, buf_target_node = None,
     buf_data_size = 0, buf_offsets_size = 0, buf_data = []\<rparr>"

record binder_alloc =
  buffer :: addr
  user_buffer_offset :: int
  buffers :: "addr list"
  bufs :: "addr \<rightharpoonup> binder_buffer"
  free_buffers :: "addr tree"
  allocated_buffers :: "addr tree"
  free_async_space :: nat
  pages :: "bool list"
  buffer_size :: nat
  vma :: "nat option"
  vma_vm_mm :: "nat option"
  tsk :: nat

text \<open>
  What the kernel decides when a page is to be mapped: the three points at which
  \<open>binder_update_page_range\<close> can fail. \<open>stale_header\<close> is what the bytes under a header
  that is carved out of a free buffer happen to hold: the code only sets its \<open>free\<close>.
\<close>

datatype page_outcome = Page_Ok | Alloc_Page_Failed | Map_Kernel_Failed | Vm_Insert_Failed

record kernel_mm =
  get_task_mm :: "nat \<Rightarrow> nat option"
  page_outcome_at :: "addr \<Rightarrow> page_outcome"
  rb_insert_color :: "addr \<Rightarrow> addr tree \<Rightarrow> addr tree"
  rb_erase :: "addr \<Rightarrow> addr tree \<Rightarrow> addr tree"
  stale_header :: "addr \<Rightarrow> binder_buffer"

definition is_free :: "binder_alloc \<Rightarrow> addr \<Rightarrow> bool" where
  "is_free a b = (case bufs a b of None \<Rightarrow> False | Some h \<Rightarrow> buf_free h)"

definition upd_buffer :: "addr \<Rightarrow> (binder_buffer \<Rightarrow> binder_buffer) \<Rightarrow> binder_alloc \<Rightarrow> binder_alloc" where
  "upd_buffer b f a =
     (case bufs a b of None \<Rightarrow> a | Some h \<Rightarrow> a\<lparr>bufs := (bufs a)(b \<mapsto> f h)\<rparr>)"

section \<open>Operations\<close>

abbreviation data_of :: "addr \<Rightarrow> addr" where "data_of b \<equiv> b + sizeof_binder_buffer"

text \<open>The address at which buffer \<open>b\<close> ends: the next header, or the end of the mapping.\<close>

definition buffer_end :: "binder_alloc \<Rightarrow> addr \<Rightarrow> addr" where
  "buffer_end a b =
     (case list_next (buffers a) b of None \<Rightarrow> buffer a + buffer_size a | Some n \<Rightarrow> n)"

definition binder_buffer_size :: "binder_alloc \<Rightarrow> addr \<Rightarrow> nat" where
  "binder_buffer_size a b = buffer_end a b - data_of b"

fun free_tree_link :: "binder_alloc \<Rightarrow> addr \<Rightarrow> addr tree \<Rightarrow> addr tree option" where
  "free_tree_link a new Leaf = Some (Node Leaf new Leaf)"
| "free_tree_link a new (Node l x r) =
     (if \<not> is_free a x then None
      else if binder_buffer_size a new < binder_buffer_size a x
      then do { l' \<leftarrow> free_tree_link a new l; Some (Node l' x r) }
      else do { r' \<leftarrow> free_tree_link a new r; Some (Node l x r') })"

definition binder_insert_free_buffer ::
  "'k kernel_mm_scheme \<Rightarrow> binder_alloc \<Rightarrow> addr \<Rightarrow> binder_alloc option" where
  "binder_insert_free_buffer k a new =
     (if \<not> is_free a new then None
      else do {
        t \<leftarrow> free_tree_link a new (free_buffers a);
        Some (a\<lparr>free_buffers := rb_insert_color k new t\<rparr>) })"

fun allocated_tree_link :: "binder_alloc \<Rightarrow> addr \<Rightarrow> addr tree \<Rightarrow> addr tree option" where
  "allocated_tree_link a new Leaf = Some (Node Leaf new Leaf)"
| "allocated_tree_link a new (Node l x r) =
     (if is_free a x then None
      else if new < x then do { l' \<leftarrow> allocated_tree_link a new l; Some (Node l' x r) }
      else if new > x then do { r' \<leftarrow> allocated_tree_link a new r; Some (Node l x r') }
      else None)"

definition binder_insert_allocated_buffer ::
  "'k kernel_mm_scheme \<Rightarrow> binder_alloc \<Rightarrow> addr \<Rightarrow> binder_alloc option" where
  "binder_insert_allocated_buffer k a new =
     (if is_free a new then None
      else do {
        t \<leftarrow> allocated_tree_link a new (allocated_buffers a);
        Some (a\<lparr>allocated_buffers := rb_insert_color k new t\<rparr>) })"

fun allocated_tree_find :: "binder_alloc \<Rightarrow> int \<Rightarrow> addr tree \<Rightarrow> addr option option" where
  "allocated_tree_find a p Leaf = Some None"
| "allocated_tree_find a p (Node l x r) =
     (if is_free a x then None
      else if p < int x then allocated_tree_find a p l
      else if p > int x then allocated_tree_find a p r
      else Some (Some x))"

definition binder_buffer_lookup :: "binder_alloc \<Rightarrow> nat \<Rightarrow> addr option option" where
  "binder_buffer_lookup a user_ptr =
     allocated_tree_find a
       ((int user_ptr - user_buffer_offset a - int sizeof_binder_buffer) mod 2 ^ 64)
       (allocated_buffers a)"

definition page_slot :: "binder_alloc \<Rightarrow> addr \<Rightarrow> nat option" where
  "page_slot a p =
     (let i = (p - buffer a) div PAGE_SIZE
      in if buffer a \<le> p \<and> i < length (pages a) then Some i else None)"

text \<open>The allocating loop: \<open>Some (p, f)\<close> is the page at which it left, and why.\<close>

function update_range_map ::
  "'k kernel_mm_scheme \<Rightarrow> binder_alloc \<Rightarrow> addr \<Rightarrow> addr
    \<Rightarrow> (binder_alloc \<times> (addr \<times> page_outcome) option) option" where
  "update_range_map k a page_addr stop =
     (if stop \<le> page_addr then Some (a, None)
      else case page_slot a page_addr of
        None \<Rightarrow> None
      | Some i \<Rightarrow>
          if pages a ! i then None
          else case page_outcome_at k page_addr of
            Page_Ok \<Rightarrow>
              update_range_map k (a\<lparr>pages := (pages a)[i := True]\<rparr>) (page_addr + PAGE_SIZE) stop
          | Alloc_Page_Failed \<Rightarrow> Some (a, Some (page_addr, Alloc_Page_Failed))
          | f \<Rightarrow> Some (a\<lparr>pages := (pages a)[i := True]\<rparr>, Some (page_addr, f)))"
  by pat_completeness auto
termination
  by (relation "measure (\<lambda>(k, a, p, e). e - p)") auto

text \<open>\<open>__free_page(*page); *page = NULL\<close>: faults when the page is not there.\<close>

definition update_range_free_page :: "binder_alloc \<Rightarrow> addr \<Rightarrow> binder_alloc option" where
  "update_range_free_page a page_addr =
     (case page_slot a page_addr of
        None \<Rightarrow> None
      | Some i \<Rightarrow> if pages a ! i then Some (a\<lparr>pages := (pages a)[i := False]\<rparr>) else None)"

function update_range_free :: "binder_alloc \<Rightarrow> addr \<Rightarrow> addr \<Rightarrow> binder_alloc option" where
  "update_range_free a page_addr start =
     (if page_addr < start then Some a
      else do {
        a' \<leftarrow> update_range_free_page a page_addr;
        if page_addr < PAGE_SIZE then Some a'
        else update_range_free a' (page_addr - PAGE_SIZE) start })"
  by pat_completeness auto
termination
  by (relation "measure (\<lambda>(a, p, s). p)") auto

declare update_range_map.simps [simp del] update_range_free.simps [simp del]

text \<open>
  Leaving the allocating loop at page \<open>p\<close>: the jump into the freeing loop's body undoes
  what was done for \<open>p\<close> itself, and the loop goes on below it.
\<close>

definition update_range_fail ::
  "binder_alloc \<Rightarrow> addr \<Rightarrow> page_outcome \<Rightarrow> addr \<Rightarrow> binder_alloc option" where
  "update_range_fail a p f start =
     do { a' \<leftarrow> (if f = Alloc_Page_Failed then Some a else update_range_free_page a p);
          if p < PAGE_SIZE then Some a' else update_range_free a' (p - PAGE_SIZE) start }"

definition binder_update_page_range ::
  "'k kernel_mm_scheme \<Rightarrow> binder_alloc \<Rightarrow> bool \<Rightarrow> addr \<Rightarrow> addr \<Rightarrow> nat option
    \<Rightarrow> (int \<times> binder_alloc) option" where
  "binder_update_page_range k a allocate start stop given_vma =
     (if stop \<le> start then Some (0, a)
      else
        let mm = (if given_vma \<noteq> None then None else get_task_mm k (tsk a));
            v = (case mm of
                   None \<Rightarrow> given_vma
                 | Some m \<Rightarrow>
                     if vma a \<noteq> None \<and> vma_vm_mm a \<noteq> Some m then None else vma a)
        in if \<not> allocate
           then do { a' \<leftarrow> update_range_free a (stop - PAGE_SIZE) start; Some (- ENOMEM, a') }
           else if v = None then Some (- ENOMEM, a)
           else do {
             (a', left_at) \<leftarrow> update_range_map k a start stop;
             (case left_at of
                None \<Rightarrow> Some (0, a')
              | Some (p, f) \<Rightarrow>
                  do { a'' \<leftarrow> update_range_fail a' p f start; Some (- ENOMEM, a'') }) })"

text \<open>
  \<open>size\<close> of a request: both parts rounded up, added as \<open>size_t\<close>.
\<close>

definition buffer_request :: "nat \<Rightarrow> nat \<Rightarrow> nat" where
  "buffer_request data_sz offsets_sz = (align_ptr data_sz + align_ptr offsets_sz) mod 2 ^ 64"

text \<open>
  The descent for the best fit; the result is \<open>best_fit\<close> and the final \<open>n\<close>, which is not
  null exactly when a buffer of the requested size was met.
\<close>

fun best_fit_search ::
  "binder_alloc \<Rightarrow> nat \<Rightarrow> addr option \<Rightarrow> addr tree \<Rightarrow> (addr option \<times> bool) option" where
  "best_fit_search a sz best Leaf = Some (best, False)"
| "best_fit_search a sz best (Node l x r) =
     (if \<not> is_free a x then None
      else if sz < binder_buffer_size a x then best_fit_search a sz (Some x) l
      else if sz > binder_buffer_size a x then best_fit_search a sz best r
      else Some (Some x, True))"

text \<open>Carving the request out of the chosen free buffer, once its pages are there.\<close>

definition take_free_buffer ::
  "'k kernel_mm_scheme \<Rightarrow> binder_alloc \<Rightarrow> addr \<Rightarrow> nat \<Rightarrow> bool \<Rightarrow> binder_alloc option" where
  "take_free_buffer k a b sz split =
     do {
       let a1 = a\<lparr>free_buffers := rb_erase k b (free_buffers a)\<rparr>;
       let a2 = upd_buffer b (\<lambda>h. h\<lparr>buf_free := False\<rparr>) a1;
       a3 \<leftarrow> binder_insert_allocated_buffer k a2 b;
       if split
       then let new = data_of b + sz;
                a4 = a3\<lparr>buffers := list_insert_after b new (buffers a3),
                        bufs := (bufs a3)(new \<mapsto> (stale_header k new)\<lparr>buf_free := True\<rparr>)\<rparr>
            in binder_insert_free_buffer k a4 new
       else Some a3 }"

definition binder_alloc_buf ::
  "'k kernel_mm_scheme \<Rightarrow> binder_alloc \<Rightarrow> nat \<Rightarrow> nat \<Rightarrow> bool
    \<Rightarrow> (addr option \<times> binder_alloc) option" where
  "binder_alloc_buf k a data_sz offsets_sz is_async =
     (let sz = buffer_request data_sz offsets_sz in
      if vma a = None then Some (None, a)
      else if sz < data_sz \<or> sz < offsets_sz then Some (None, a)
      else if is_async \<and> free_async_space a < (sz + sizeof_binder_buffer) mod 2 ^ 64
      then Some (None, a)
      else do {
        (best_fit, exact) \<leftarrow> best_fit_search a sz None (free_buffers a);
        (case best_fit of
           None \<Rightarrow> Some (None, a)
         | Some b \<Rightarrow>
             let bsz = binder_buffer_size a b;
                 has_page_addr = page_floor (data_of b + bsz);
                 bsz' = (if exact then bsz
                         else if sz + sizeof_binder_buffer + 4 \<ge> bsz then sz
                         else sz + sizeof_binder_buffer);
                 end_page_addr = min (PAGE_ALIGN (data_of b + bsz')) has_page_addr
             in do {
               (err, a1) \<leftarrow> binder_update_page_range k a True (PAGE_ALIGN (data_of b))
                              end_page_addr None;
               if err \<noteq> 0 then Some (None, a1)
               else do {
                 a2 \<leftarrow> take_free_buffer k a1 b sz (bsz' \<noteq> sz);
                 let a3 = upd_buffer b (\<lambda>h. h\<lparr>buf_data_size := data_sz,
                                               buf_offsets_size := offsets_sz,
                                               async_transaction := is_async\<rparr>) a2;
                 Some (Some b,
                       if is_async
                       then a3\<lparr>free_async_space := free_async_space a3
                                 - (sz + sizeof_binder_buffer)\<rparr>
                       else a3) } }) })"

definition buffer_start_page :: "addr \<Rightarrow> addr" where
  "buffer_start_page b = page_floor b"

definition buffer_end_page :: "addr \<Rightarrow> addr" where
  "buffer_end_page b = page_floor (b + sizeof_binder_buffer - 1)"

definition binder_delete_free_buffer ::
  "'k kernel_mm_scheme \<Rightarrow> binder_alloc \<Rightarrow> addr \<Rightarrow> binder_alloc option" where
  "binder_delete_free_buffer k a b =
     (case list_prev (buffers a) b of
        None \<Rightarrow> None
      | Some prev \<Rightarrow>
          if \<not> is_free a prev then None
          else
            let share_prev = (buffer_end_page prev = buffer_start_page b);
                start1 = \<not> share_prev;
                end1 = \<not> (share_prev \<and> buffer_end_page prev = buffer_end_page b);
                nxt = list_next (buffers a) b;
                share_next = (case nxt of None \<Rightarrow> False
                              | Some n \<Rightarrow> buffer_start_page n = buffer_end_page b);
                free_page_end = (end1 \<and> \<not> share_next);
                free_page_start = (start1 \<and> \<not> (share_next \<and>
                  (case nxt of None \<Rightarrow> False
                   | Some n \<Rightarrow> buffer_start_page n = buffer_start_page b)));
                a1 = a\<lparr>buffers := remove1 b (buffers a), bufs := (bufs a)(b := None)\<rparr>
            in if free_page_start \<or> free_page_end
               then do {
                 (err, a2) \<leftarrow> binder_update_page_range k a1 False
                   (if free_page_start then buffer_start_page b else buffer_end_page b)
                   ((if free_page_end then buffer_end_page b else buffer_start_page b)
                      + PAGE_SIZE) None;
                 Some a2 }
               else Some a1)"

text \<open>The second half of \<open>binder_free_buf\<close>: merging with free neighbours.\<close>

definition merge_next_free ::
  "'k kernel_mm_scheme \<Rightarrow> binder_alloc \<Rightarrow> addr \<Rightarrow> binder_alloc option" where
  "merge_next_free k a b =
     (case list_next (buffers a) b of
        None \<Rightarrow> Some a
      | Some n \<Rightarrow>
          if is_free a n
          then binder_delete_free_buffer k
                 (a\<lparr>free_buffers := rb_erase k n (free_buffers a)\<rparr>) n
          else Some a)"

definition merge_prev_free ::
  "'k kernel_mm_scheme \<Rightarrow> binder_alloc \<Rightarrow> addr \<Rightarrow> (addr \<times> binder_alloc) option" where
  "merge_prev_free k a b =
     (case list_prev (buffers a) b of
        None \<Rightarrow> Some (b, a)
      | Some p \<Rightarrow>
          if is_free a p
          then do {
            a1 \<leftarrow> binder_delete_free_buffer k a b;
            Some (p, a1\<lparr>free_buffers := rb_erase k p (free_buffers a1)\<rparr>) }
          else Some (b, a))"

definition binder_free_buf ::
  "'k kernel_mm_scheme \<Rightarrow> binder_alloc \<Rightarrow> addr \<Rightarrow> binder_alloc option" where
  "binder_free_buf k a b =
     (case bufs a b of
        None \<Rightarrow> None
      | Some h \<Rightarrow>
          let bsz = binder_buffer_size a b;
              sz = buffer_request (buf_data_size h) (buf_offsets_size h)
          in if buf_free h \<or> sz > bsz \<or> buf_transaction h \<noteq> None
                \<or> b < buffer a \<or> b > buffer a + buffer_size a
             then None
             else do {
               let a1 = (if async_transaction h
                         then a\<lparr>free_async_space := free_async_space a
                                  + (sz + sizeof_binder_buffer)\<rparr>
                         else a);
               (err, a2) \<leftarrow> binder_update_page_range k a1 False (PAGE_ALIGN (data_of b))
                              (page_floor (data_of b + bsz)) None;
               let a3 = a2\<lparr>allocated_buffers := rb_erase k b (allocated_buffers a2)\<rparr>;
               let a4 = upd_buffer b (\<lambda>h. h\<lparr>buf_free := True\<rparr>) a3;
               a5 \<leftarrow> merge_next_free k a4 b;
               (b', a6) \<leftarrow> merge_prev_free k a5 b;
               binder_insert_free_buffer k a6 b' })"

section \<open>Pages of a range\<close>

text \<open>
  A range of the page array set to one value, and the two loops of
  \<open>binder_update_page_range\<close> in terms of it. Ranges are given by page indices
  relative to the start of the mapping.
\<close>

definition set_range :: "bool list \<Rightarrow> nat \<Rightarrow> nat \<Rightarrow> bool \<Rightarrow> bool list" where
  "set_range ps s e v = map (\<lambda>i. if s \<le> i \<and> i < e then v else ps ! i) [0..<length ps]"

lemma length_set_range [simp]: "length (set_range ps s e v) = length ps"
  by (simp add: set_range_def)

lemma nth_set_range [simp]:
  "i < length ps \<Longrightarrow> set_range ps s e v ! i = (if s \<le> i \<and> i < e then v else ps ! i)"
  by (simp add: set_range_def)

lemma set_range_empty [simp]: "e \<le> s \<Longrightarrow> set_range ps s e v = ps"
  by (rule nth_equalityI) auto

lemma set_range_Suc_low:
  "s < e \<Longrightarrow> set_range (ps[s := v]) (Suc s) e v = set_range ps s e v"
  by (rule nth_equalityI) (auto simp: nth_list_update)

lemma set_range_Suc_high:
  "s \<le> j \<Longrightarrow> set_range (ps[j := v]) s j v = set_range ps s (Suc j) v"
  by (rule nth_equalityI) (auto simp: nth_list_update)

lemma set_range_undo:
  "(\<And>i. s \<le> i \<Longrightarrow> i < e \<Longrightarrow> i < length ps \<Longrightarrow> \<not> ps ! i)
     \<Longrightarrow> set_range (set_range ps s e True) s e False = ps"
  by (rule nth_equalityI) auto

text \<open>The address of page \<open>i\<close> of the mapping.\<close>

abbreviation page_at :: "binder_alloc \<Rightarrow> nat \<Rightarrow> addr" where
  "page_at a i \<equiv> buffer a + i * 4096"

lemma page_slot_page_at [simp]:
  "page_slot a (page_at a i) = (if i < length (pages a) then Some i else None)"
  by (simp add: page_slot_def)

lemma update_range_map_pages:
  assumes "s \<le> e" and "e \<le> length (pages a)"
    and "\<And>i. s \<le> i \<Longrightarrow> i < e \<Longrightarrow> \<not> pages a ! i"
  shows "update_range_map k a (page_at a s) (page_at a e)
           = Some (a\<lparr>pages := set_range (pages a) s e True\<rparr>, None)
       \<or> (\<exists>j f. s \<le> j \<and> j < e \<and> f \<noteq> Page_Ok
            \<and> update_range_map k a (page_at a s) (page_at a e)
              = Some (a\<lparr>pages := set_range (pages a) s (if f = Alloc_Page_Failed then j else Suc j)
                          True\<rparr>, Some (page_at a j, f)))"
  using assms
proof (induction "e - s" arbitrary: s a)
  case 0
  then show ?case by (simp add: update_range_map.simps)
next
  case (Suc n)
  let ?a = "a\<lparr>pages := (pages a)[s := True]\<rparr>"
  have s: "s < e" "s < length (pages a)" "\<not> pages a ! s" using Suc by auto
  have step: "update_range_map k a (page_at a s) (page_at a e) =
     (case page_outcome_at k (page_at a s) of
        Page_Ok \<Rightarrow> update_range_map k ?a (page_at a (Suc s)) (page_at a e)
      | Alloc_Page_Failed \<Rightarrow> Some (a, Some (page_at a s, Alloc_Page_Failed))
      | f \<Rightarrow> Some (?a, Some (page_at a s, f)))"
    by (subst update_range_map.simps)
      (use s in \<open>simp add: algebra_simps split: page_outcome.split\<close>)
  have one: "set_range (pages a) s (Suc s) True = (pages a)[s := True]"
    using set_range_Suc_high [of s s "pages a" True] by simp
  show ?case
  proof (cases "page_outcome_at k (page_at a s)")
    case Page_Ok
    have "update_range_map k ?a (page_at ?a (Suc s)) (page_at ?a e)
           = Some (?a\<lparr>pages := set_range (pages ?a) (Suc s) e True\<rparr>, None)
       \<or> (\<exists>j f. Suc s \<le> j \<and> j < e \<and> f \<noteq> Page_Ok
            \<and> update_range_map k ?a (page_at ?a (Suc s)) (page_at ?a e)
              = Some (?a\<lparr>pages := set_range (pages ?a) (Suc s)
                   (if f = Alloc_Page_Failed then j else Suc j) True\<rparr>, Some (page_at ?a j, f)))"
      by (rule Suc.hyps(1)) (use Suc s in \<open>auto simp: nth_list_update\<close>)
    then show ?thesis
    proof (elim disjE exE conjE)
      assume "update_range_map k ?a (page_at ?a (Suc s)) (page_at ?a e)
           = Some (?a\<lparr>pages := set_range (pages ?a) (Suc s) e True\<rparr>, None)"
      then show ?thesis
        by (intro disjI1) (simp add: step Page_Ok set_range_Suc_low s)
    next
      fix j f
      assume j: "Suc s \<le> j" "j < e" "f \<noteq> Page_Ok"
        and eq: "update_range_map k ?a (page_at ?a (Suc s)) (page_at ?a e)
              = Some (?a\<lparr>pages := set_range (pages ?a) (Suc s)
                   (if f = Alloc_Page_Failed then j else Suc j) True\<rparr>, Some (page_at ?a j, f))"
      then show ?thesis
        by (intro disjI2 exI [of _ j] exI [of _ f])
          (simp add: step Page_Ok set_range_Suc_low)
    qed
  next
    case Alloc_Page_Failed
    then show ?thesis
      by (intro disjI2 exI [of _ s] exI [of _ Alloc_Page_Failed]) (simp add: step s)
  next
    case Map_Kernel_Failed
    then show ?thesis
      by (intro disjI2 exI [of _ s] exI [of _ Map_Kernel_Failed]) (simp add: step s one)
  next
    case Vm_Insert_Failed
    then show ?thesis
      by (intro disjI2 exI [of _ s] exI [of _ Vm_Insert_Failed]) (simp add: step s one)
  qed
qed

lemma update_range_free_page_at:
  "i < length (pages a) \<Longrightarrow> pages a ! i \<Longrightarrow>
    update_range_free_page a (page_at a i) = Some (a\<lparr>pages := (pages a)[i := False]\<rparr>)"
  by (simp add: update_range_free_page_def)

lemma update_range_free_pages:
  assumes "4096 \<le> buffer a" and "e \<le> length (pages a)"
    and "\<And>i. s \<le> i \<Longrightarrow> i < e \<Longrightarrow> pages a ! i"
  shows "update_range_free a (page_at a e - 4096) (page_at a s)
           = Some (a\<lparr>pages := set_range (pages a) s e False\<rparr>)"
  using assms
proof (induction e arbitrary: a)
  case 0
  then have "buffer a - 4096 < page_at a s" by linarith
  then show ?case by (subst update_range_free.simps) simp
next
  case (Suc j)
  show ?case
  proof (cases "s \<le> j")
    case True
    let ?a = "a\<lparr>pages := (pages a)[j := False]\<rparr>"
    have j: "j < length (pages a)" "pages a ! j" using Suc True by auto
    have here: "page_at a (Suc j) - 4096 = page_at a j" by simp
    have IH: "update_range_free ?a (page_at ?a j - 4096) (page_at ?a s)
           = Some (?a\<lparr>pages := set_range (pages ?a) s j False\<rparr>)"
      by (rule Suc.IH) (use Suc True in \<open>auto simp: nth_list_update\<close>)
    show ?thesis
      unfolding here
      by (subst update_range_free.simps)
        (use True Suc.prems(1) IH in
          \<open>simp add: update_range_free_page_at [OF j] set_range_Suc_high\<close>)
  next
    case False
    then show ?thesis using Suc.prems(1) by (subst update_range_free.simps) simp
  qed
qed

lemma update_range_fail_pages:
  assumes "4096 \<le> buffer a" and "s \<le> j" and "j < length (pages a)" and "f \<noteq> Page_Ok"
    and "\<And>i. s \<le> i \<Longrightarrow> i \<le> j \<Longrightarrow> \<not> pages a ! i"
  shows "update_range_fail
           (a\<lparr>pages := set_range (pages a) s (if f = Alloc_Page_Failed then j else Suc j) True\<rparr>)
           (page_at a j) f (page_at a s) = Some a"
proof -
  let ?b = "a\<lparr>pages := set_range (pages a) s j True\<rparr>"
  have undo: "set_range (set_range (pages a) s j True) s j False = pages a"
    by (rule set_range_undo) (use assms in auto)
  have "update_range_free ?b (page_at ?b j - 4096) (page_at ?b s)
           = Some (?b\<lparr>pages := set_range (pages ?b) s j False\<rparr>)"
    by (rule update_range_free_pages) (use assms in auto)
  then have free: "update_range_free ?b (page_at a j - 4096) (page_at a s) = Some a"
    by (simp add: undo)
  have last: "(set_range (pages a) s (Suc j) True)[j := False] = set_range (pages a) s j True"
    by (rule nth_equalityI) (use assms in \<open>auto simp: nth_list_update\<close>)
  show ?thesis
    using assms free
    by (auto simp: update_range_fail_def update_range_free_page_def page_slot_def last)
qed

text \<open>
  The two uses of \<open>binder_update_page_range\<close>: it maps the range or changes nothing,
  and it frees the range.
\<close>

lemma binder_update_page_range_map:
  assumes "4096 \<le> buffer a" and "e \<le> length (pages a)"
    and "\<And>i. s \<le> i \<Longrightarrow> i < e \<Longrightarrow> \<not> pages a ! i"
  shows "binder_update_page_range k a True (page_at a s) (page_at a e) v
           = Some (0, a\<lparr>pages := set_range (pages a) s e True\<rparr>)
       \<or> binder_update_page_range k a True (page_at a s) (page_at a e) v = Some (- ENOMEM, a)"
proof (cases "s < e")
  case True
  then have se: "s \<le> e" by simp
  have "update_range_map k a (page_at a s) (page_at a e)
           = Some (a\<lparr>pages := set_range (pages a) s e True\<rparr>, None)
       \<or> (\<exists>j f. s \<le> j \<and> j < e \<and> f \<noteq> Page_Ok
            \<and> update_range_map k a (page_at a s) (page_at a e)
              = Some (a\<lparr>pages := set_range (pages a) s (if f = Alloc_Page_Failed then j else Suc j)
                          True\<rparr>, Some (page_at a j, f)))"
    using se assms(2,3) by (rule update_range_map_pages)
  then show ?thesis
  proof (elim disjE exE conjE)
    assume "update_range_map k a (page_at a s) (page_at a e)
           = Some (a\<lparr>pages := set_range (pages a) s e True\<rparr>, None)"
    then show ?thesis
      using True by (auto simp: binder_update_page_range_def Let_def split: option.splits)
  next
    fix j f
    assume j: "s \<le> j" "j < e" "f \<noteq> Page_Ok"
      and eq: "update_range_map k a (page_at a s) (page_at a e)
              = Some (a\<lparr>pages := set_range (pages a) s (if f = Alloc_Page_Failed then j else Suc j)
                          True\<rparr>, Some (page_at a j, f))"
    have "update_range_fail
           (a\<lparr>pages := set_range (pages a) s (if f = Alloc_Page_Failed then j else Suc j) True\<rparr>)
           (page_at a j) f (page_at a s) = Some a"
      by (rule update_range_fail_pages) (use j assms in auto)
    then show ?thesis
      using True by (auto simp: binder_update_page_range_def Let_def eq split: option.splits)
  qed
next
  case False
  then show ?thesis by (simp add: binder_update_page_range_def)
qed

lemma binder_update_page_range_unmap:
  assumes "4096 \<le> buffer a" and "e \<le> length (pages a)"
    and "\<And>i. s \<le> i \<Longrightarrow> i < e \<Longrightarrow> pages a ! i"
  obtains err where "binder_update_page_range k a False (page_at a s) (page_at a e) v
           = Some (err, a\<lparr>pages := set_range (pages a) s e False\<rparr>)"
proof (cases "s < e")
  case True
  then show ?thesis
    using update_range_free_pages [OF assms]
    by (intro that [of "- ENOMEM"]) (simp add: binder_update_page_range_def Let_def)
next
  case False
  then show ?thesis by (intro that [of 0]) (simp add: binder_update_page_range_def)
qed

end
