(* ===== verification/Binder_Alloc_Inv.thy ===== *)
theory Binder_Alloc_Inv
  imports Binder_Alloc
begin

text \<open>
  The invariant of the transaction-buffer allocator and the proof that allocating and
  freeing keep it: headers tile the mapping, the trees index exactly the free and the
  allocated buffers, free buffers are coalesced, a page is present exactly when a
  header or an allocated buffer needs it, and the space promised to asynchronous
  transactions is accounted for.
\<close>

section \<open>The invariant\<close>

definition alloc_end :: "binder_alloc \<Rightarrow> addr" where
  "alloc_end a = buffer a + buffer_size a"

definition layout_ok :: "binder_alloc \<Rightarrow> bool" where
  "layout_ok a \<longleftrightarrow>
     0 < buffer a \<and> buffer a mod 4096 = 0 \<and> 0 < buffer_size a \<and> buffer_size a mod 4096 = 0
     \<and> alloc_end a < 2 ^ 64 \<and> buffers a \<noteq> [] \<and> hd (buffers a) = buffer a
     \<and> sorted_wrt (\<lambda>x y. data_of x \<le> y) (buffers a @ [alloc_end a])
     \<and> (\<forall>b\<in>set (buffers a). b mod 8 = 0 \<and> bufs a b \<noteq> None)"

definition trees_ok :: "binder_alloc \<Rightarrow> bool" where
  "trees_ok a \<longleftrightarrow>
     distinct (inorder (free_buffers a))
     \<and> set_tree (free_buffers a) = set (filter (is_free a) (buffers a))
     \<and> sorted (map (binder_buffer_size a) (inorder (free_buffers a)))
     \<and> sorted_wrt (<) (inorder (allocated_buffers a))
     \<and> set_tree (allocated_buffers a) = set (filter (\<lambda>b. \<not> is_free a b) (buffers a))"

definition coalesced :: "binder_alloc \<Rightarrow> bool" where
  "coalesced a = successively (\<lambda>x y. \<not> (is_free a x \<and> is_free a y)) (buffers a)"

definition fits :: "binder_alloc \<Rightarrow> addr \<Rightarrow> bool" where
  "fits a b = (case bufs a b of None \<Rightarrow> False | Some h \<Rightarrow>
     buf_free h \<or> buffer_request (buf_data_size h) (buf_offsets_size h) \<le> binder_buffer_size a b)"

text \<open>Page \<open>P\<close> (an absolute page number) meets the bytes from \<open>lo\<close> below \<open>hi\<close>.\<close>

definition meets :: "nat \<Rightarrow> addr \<Rightarrow> addr \<Rightarrow> bool" where
  "meets P lo hi \<longleftrightarrow> lo < hi \<and> 4096 * P < hi \<and> lo < 4096 * P + 4096"

definition live_end :: "binder_alloc \<Rightarrow> addr \<Rightarrow> addr" where
  "live_end a b = (if is_free a b then data_of b else buffer_end a b)"

definition page_needed :: "binder_alloc \<Rightarrow> nat \<Rightarrow> bool" where
  "page_needed a P = (\<exists>b\<in>set (buffers a). meets P b (live_end a b))"

definition pages_ok :: "binder_alloc \<Rightarrow> bool" where
  "pages_ok a \<longleftrightarrow> length (pages a) = buffer_size a div 4096
     \<and> (\<forall>i\<in>set [0..<length (pages a)]. pages a ! i = page_needed a (buffer a div 4096 + i))"

definition async_cost :: "binder_alloc \<Rightarrow> addr \<Rightarrow> nat" where
  "async_cost a b = (case bufs a b of None \<Rightarrow> 0 | Some h \<Rightarrow>
     if \<not> buf_free h \<and> async_transaction h
     then buffer_request (buf_data_size h) (buf_offsets_size h) + sizeof_binder_buffer else 0)"

definition async_used :: "binder_alloc \<Rightarrow> nat" where
  "async_used a = sum_list (map (async_cost a) (buffers a))"

definition async_ok :: "binder_alloc \<Rightarrow> bool" where
  "async_ok a \<longleftrightarrow> free_async_space a + async_used a = buffer_size a div 2"

definition alloc_wf :: "binder_alloc \<Rightarrow> bool" where
  "alloc_wf a \<longleftrightarrow> layout_ok a \<and> trees_ok a \<and> coalesced a \<and> list_all (fits a) (buffers a)
     \<and> pages_ok a \<and> async_ok a"

text \<open>
  What the allocator relies on of the kernel's red-black trees: rebalancing keeps the
  in-order sequence, and erasing removes one element from it.
\<close>

definition rb_ok :: "'k kernel_mm_scheme \<Rightarrow> bool" where
  "rb_ok k \<longleftrightarrow>
     (\<forall>x t. inorder (rb_insert_color k x t) = inorder t)
     \<and> (\<forall>x t. x \<in> set_tree t \<longrightarrow> inorder (rb_erase k x t) = remove1 x (inorder t))"

section \<open>The buffer list around one buffer\<close>

lemma alloc_distinct: "layout_ok a \<Longrightarrow> distinct (buffers a)"
proof -
  assume "layout_ok a"
  then have "sorted_wrt (\<lambda>x y. data_of x \<le> y) (buffers a)"
    by (simp add: layout_ok_def sorted_wrt_append)
  then have "sorted_wrt (<) (buffers a)"
    by (rule sorted_wrt_mono_rel [rotated]) simp
  then show ?thesis by (simp add: strict_sorted_iff)
qed

lemma buffer_end_mid:
  "buffers a = xs @ b # ys \<Longrightarrow> distinct (buffers a) \<Longrightarrow>
    buffer_end a b = hd (ys @ [alloc_end a])"
  by (auto simp: buffer_end_def alloc_end_def list_walk split: list.splits)

lemma buffer_end_before:
  assumes "buffers a = xs @ b # zs" and "buffers a' = xs @ b # zs'" and "c \<in> set xs"
    and "distinct (buffers a)" and "distinct (buffers a')"
  shows "buffer_end a' c = buffer_end a c"
proof -
  from assms(3) obtain us vs where xs: "xs = us @ c # vs" by (auto simp: in_set_conv_decomp)
  show ?thesis
    using buffer_end_mid [of a us c "vs @ b # zs"] buffer_end_mid [of a' us c "vs @ b # zs'"] assms xs
    by (cases vs) auto
qed

lemma buffer_end_after:
  assumes "buffers a = zs @ ys" and "buffers a' = zs' @ ys" and "c \<in> set ys"
    and "distinct (buffers a)" and "distinct (buffers a')" and "alloc_end a' = alloc_end a"
  shows "buffer_end a' c = buffer_end a c"
proof -
  from assms(3) obtain us vs where ys: "ys = us @ c # vs" by (auto simp: in_set_conv_decomp)
  show ?thesis
    using buffer_end_mid [of a "zs @ us" c vs] buffer_end_mid [of a' "zs' @ us" c vs] assms ys
    by auto
qed

lemma buffer_end_bounds:
  assumes "layout_ok a" and "buffers a = xs @ b # ys"
  shows "data_of b \<le> buffer_end a b" and "buffer_end a b \<le> alloc_end a" and "buffer a \<le> b"
    and "c \<in> set xs \<Longrightarrow> buffer_end a c \<le> b" and "c \<in> set ys \<Longrightarrow> buffer_end a b \<le> c"
proof -
  note s = assms(1) [unfolded layout_ok_def assms(2) sorted_wrt_append]
  have e: "buffer_end a b = hd (ys @ [alloc_end a])"
    using assms alloc_distinct [OF assms(1)] by (intro buffer_end_mid) auto
  show "data_of b \<le> buffer_end a b" using s by (cases ys) (auto simp: e)
  show "buffer_end a b \<le> alloc_end a" using s by (cases ys) (auto simp: e)
  show "buffer a \<le> b"
    using s assms(2) by (cases xs) (auto dest!: bspec [of _ _ b])
  show "buffer_end a b \<le> c" if "c \<in> set ys"
    using s that by (cases ys) (auto simp: e)
  show "buffer_end a c \<le> b" if "c \<in> set xs"
  proof -
    from that obtain us vs where xs: "xs = us @ c # vs" by (auto simp: in_set_conv_decomp)
    have "buffer_end a c = hd ((vs @ b # ys) @ [alloc_end a])"
      using assms xs alloc_distinct [OF assms(1)] by (intro buffer_end_mid) auto
    then show ?thesis using s by (cases vs) (auto simp: xs)
  qed
qed

lemma live_end_bounds:
  assumes "layout_ok a" and "b \<in> set (buffers a)"
  shows "data_of b \<le> live_end a b" and "live_end a b \<le> buffer_end a b"
proof -
  from assms(2) obtain xs ys where "buffers a = xs @ b # ys" by (auto simp: in_set_conv_decomp)
  then show "data_of b \<le> live_end a b" and "live_end a b \<le> buffer_end a b"
    using buffer_end_bounds(1) [OF assms(1)] by (auto simp: live_end_def)
qed

lemma page_needed_mid:
  "buffers a = xs @ b # ys \<Longrightarrow>
    page_needed a P \<longleftrightarrow> (\<exists>c\<in>set xs. meets P c (live_end a c)) \<or> meets P b (live_end a b)
      \<or> (\<exists>c\<in>set ys. meets P c (live_end a c))"
  by (auto simp: page_needed_def)

text \<open>A page that lies between the header of \<open>b\<close> and the next header serves \<open>b\<close> alone.\<close>

lemma page_inside:
  assumes "layout_ok a" and "buffers a = xs @ b # ys"
    and "data_of b \<le> 4096 * P" and "4096 * P + 4096 \<le> buffer_end a b"
  shows "page_needed a P \<longleftrightarrow> \<not> is_free a b"
proof -
  note bnd = buffer_end_bounds [OF assms(1,2)]
  have "\<not> meets P c (live_end a c)" if "c \<in> set xs" for c
    using bnd(4) [OF that] live_end_bounds [of a c] that assms by (auto simp: meets_def)
  moreover have "\<not> meets P c (live_end a c)" if "c \<in> set ys" for c
    using bnd(5) [OF that] assms by (auto simp: meets_def)
  moreover have "meets P b (live_end a b) \<longleftrightarrow> \<not> is_free a b"
    using assms(3,4) by (auto simp: meets_def live_end_def)
  ultimately show ?thesis by (auto simp: page_needed_mid [OF assms(2)])
qed

text \<open>
  A page that meets the end of \<open>b\<close>'s space only partially holds the next header's first
  byte; the mapping itself ends at a page boundary.
\<close>

lemma page_straddles_end:
  assumes "layout_ok a" and "buffers a = xs @ b # ys"
    and "4096 * P < buffer_end a b" and "buffer_end a b < 4096 * P + 4096"
  shows "\<exists>c\<in>set ys. meets P c (live_end a c)"
proof -
  have e: "buffer_end a b = hd (ys @ [alloc_end a])"
    using assms alloc_distinct [OF assms(1)] by (intro buffer_end_mid) auto
  have "4096 dvd alloc_end a"
    using assms(1) by (simp add: layout_ok_def alloc_end_def mod_eq_0_iff_dvd)
  then obtain n where n: "alloc_end a = 4096 * n" by (elim dvdE)
  have "\<not> (4096 * P < 4096 * n \<and> 4096 * n < 4096 * P + (4096::nat))" by simp
  with assms(3,4) e n obtain y zs where ys: "ys = y # zs" by (cases ys) auto
  have "data_of y \<le> live_end a y" using assms(1,2) ys by (intro live_end_bounds) auto
  then have "meets P y (live_end a y)"
    using assms(3,4) e ys by (auto simp: meets_def)
  then show ?thesis using ys by auto
qed

section \<open>What does not depend on the trees, the pages and the accounting\<close>

lemma is_free_frame [simp]:
  "is_free (a\<lparr>free_buffers := t\<rparr>) = is_free a"
  "is_free (a\<lparr>allocated_buffers := t\<rparr>) = is_free a"
  "is_free (a\<lparr>pages := ps\<rparr>) = is_free a"
  "is_free (a\<lparr>free_async_space := n\<rparr>) = is_free a"
  "is_free (a\<lparr>buffers := bs\<rparr>) = is_free a"
  by (auto simp: is_free_def fun_eq_iff)

lemma alloc_end_frame [simp]:
  "alloc_end (a\<lparr>free_buffers := t\<rparr>) = alloc_end a"
  "alloc_end (a\<lparr>allocated_buffers := t\<rparr>) = alloc_end a"
  "alloc_end (a\<lparr>pages := ps\<rparr>) = alloc_end a"
  "alloc_end (a\<lparr>free_async_space := n\<rparr>) = alloc_end a"
  "alloc_end (a\<lparr>buffers := bs\<rparr>) = alloc_end a"
  "alloc_end (a\<lparr>bufs := m\<rparr>) = alloc_end a"
  by (simp_all add: alloc_end_def)

lemma buffer_end_frame [simp]:
  "buffer_end (a\<lparr>free_buffers := t\<rparr>) = buffer_end a"
  "buffer_end (a\<lparr>allocated_buffers := t\<rparr>) = buffer_end a"
  "buffer_end (a\<lparr>pages := ps\<rparr>) = buffer_end a"
  "buffer_end (a\<lparr>free_async_space := n\<rparr>) = buffer_end a"
  "buffer_end (a\<lparr>bufs := m\<rparr>) = buffer_end a"
  by (auto simp: buffer_end_def fun_eq_iff split: option.split)

lemma binder_buffer_size_frame [simp]:
  "binder_buffer_size (a\<lparr>free_buffers := t\<rparr>) = binder_buffer_size a"
  "binder_buffer_size (a\<lparr>allocated_buffers := t\<rparr>) = binder_buffer_size a"
  "binder_buffer_size (a\<lparr>pages := ps\<rparr>) = binder_buffer_size a"
  "binder_buffer_size (a\<lparr>free_async_space := n\<rparr>) = binder_buffer_size a"
  "binder_buffer_size (a\<lparr>bufs := m\<rparr>) = binder_buffer_size a"
  by (auto simp: binder_buffer_size_def fun_eq_iff)

lemma page_needed_frame [simp]:
  "page_needed (a\<lparr>free_buffers := t\<rparr>) = page_needed a"
  "page_needed (a\<lparr>allocated_buffers := t\<rparr>) = page_needed a"
  "page_needed (a\<lparr>pages := ps\<rparr>) = page_needed a"
  "page_needed (a\<lparr>free_async_space := n\<rparr>) = page_needed a"
  by (auto simp: page_needed_def live_end_def fun_eq_iff)

section \<open>Trees\<close>

lemma rb_ok_insert [simp]: "rb_ok k \<Longrightarrow> inorder (rb_insert_color k x t) = inorder t"
  by (simp add: rb_ok_def)

lemma rb_ok_insert_set [simp]: "rb_ok k \<Longrightarrow> set_tree (rb_insert_color k x t) = set_tree t"
  by (metis rb_ok_insert set_inorder)

lemma rb_ok_erase [simp]:
  "rb_ok k \<Longrightarrow> x \<in> set_tree t \<Longrightarrow> inorder (rb_erase k x t) = remove1 x (inorder t)"
  by (simp add: rb_ok_def)

lemma rb_ok_erase_set:
  "rb_ok k \<Longrightarrow> x \<in> set_tree t \<Longrightarrow> distinct (inorder t) \<Longrightarrow> set_tree (rb_erase k x t) = set_tree t - {x}"
  by (metis rb_ok_erase set_inorder set_remove1_eq)

lemma free_tree_link_spec:
  assumes "\<forall>x\<in>set_tree t. is_free a x"
  obtains t' where "free_tree_link a new t = Some t'"
    and "set_tree t' = insert new (set_tree t)"
    and "new \<notin> set_tree t \<Longrightarrow> distinct (inorder t) \<Longrightarrow> distinct (inorder t')"
    and "sorted (map (binder_buffer_size a) (inorder t)) \<Longrightarrow>
         sorted (map (binder_buffer_size a) (inorder t'))"
  using assms
proof (induction t arbitrary: thesis)
  case Leaf
  then show ?case by auto
next
  case (Node l x r)
  obtain l' where l: "free_tree_link a new l = Some l'" "set_tree l' = insert new (set_tree l)"
    "new \<notin> set_tree l \<Longrightarrow> distinct (inorder l) \<Longrightarrow> distinct (inorder l')"
    "sorted (map (binder_buffer_size a) (inorder l)) \<Longrightarrow>
         sorted (map (binder_buffer_size a) (inorder l'))"
    using Node.IH(1) Node.prems(2) by auto
  obtain r' where r: "free_tree_link a new r = Some r'" "set_tree r' = insert new (set_tree r)"
    "new \<notin> set_tree r \<Longrightarrow> distinct (inorder r) \<Longrightarrow> distinct (inorder r')"
    "sorted (map (binder_buffer_size a) (inorder r)) \<Longrightarrow>
         sorted (map (binder_buffer_size a) (inorder r'))"
    using Node.IH(2) Node.prems(2) by auto
  have x: "is_free a x" using Node.prems(2) by simp
  show ?case
  proof (cases "binder_buffer_size a new < binder_buffer_size a x")
    case True
    show ?thesis
      by (rule Node.prems(1) [of "Node l' x r"])
        (use True x l in \<open>auto simp: sorted_append\<close>)
  next
    case False
    show ?thesis
      by (rule Node.prems(1) [of "Node l x r'"])
        (use False x r in \<open>auto simp: sorted_append\<close>)
  qed
qed

lemma allocated_tree_link_spec:
  assumes "\<forall>x\<in>set_tree t. \<not> is_free a x" and "new \<notin> set_tree t"
    and "sorted_wrt (<) (inorder t)"
  obtains t' where "allocated_tree_link a new t = Some t'"
    and "set_tree t' = insert new (set_tree t)" and "sorted_wrt (<) (inorder t')"
  using assms
proof (induction t arbitrary: thesis)
  case Leaf
  then show ?case by auto
next
  case (Node l x r)
  show ?case
  proof (cases "new < x")
    case True
    obtain l' where "allocated_tree_link a new l = Some l'" "set_tree l' = insert new (set_tree l)"
      "sorted_wrt (<) (inorder l')"
      using Node.IH(1) Node.prems by (auto simp: sorted_wrt_append)
    then show ?thesis
      using True Node.prems by (intro Node.prems(1) [of "Node l' x r"]) (auto simp: sorted_wrt_append)
  next
    case False
    then have "x < new" using Node.prems(3) by auto
    obtain r' where "allocated_tree_link a new r = Some r'" "set_tree r' = insert new (set_tree r)"
      "sorted_wrt (<) (inorder r')"
      using Node.IH(2) Node.prems by (auto simp: sorted_wrt_append)
    then show ?thesis
      using \<open>x < new\<close> Node.prems
      by (intro Node.prems(1) [of "Node l x r'"]) (auto simp: sorted_wrt_append)
  qed
qed

lemma allocated_tree_find_spec:
  assumes "\<forall>x\<in>set_tree t. \<not> is_free a x" and "sorted_wrt (<) (inorder t)"
  shows "allocated_tree_find a p t
           = Some (if 0 \<le> p \<and> nat p \<in> set_tree t then Some (nat p) else None)"
  using assms
proof (induction t)
  case Leaf
  then show ?case by simp
next
  case (Node l x r)
  have lo: "\<forall>y\<in>set_tree l. y < x" and hi: "\<forall>y\<in>set_tree r. x < y"
    using Node.prems(2) by (auto simp: sorted_wrt_append)
  have IH: "allocated_tree_find a p l
      = Some (if 0 \<le> p \<and> nat p \<in> set_tree l then Some (nat p) else None)"
    "allocated_tree_find a p r
      = Some (if 0 \<le> p \<and> nat p \<in> set_tree r then Some (nat p) else None)"
    using Node by (auto simp: sorted_wrt_append)
  consider "p < int x" | "p > int x" | "p = int x" by linarith
  then show ?case
  proof cases
    case 1
    then have "0 \<le> p \<Longrightarrow> nat p < x" by linarith
    with 1 hi Node.prems(1) show ?thesis by (auto simp: IH)
  next
    case 2
    then have "x < nat p" by linarith
    with 2 lo Node.prems(1) show ?thesis by (auto simp: IH)
  next
    case 3
    with Node.prems(1) show ?thesis by auto
  qed
qed

text \<open>The descent never meets an allocated buffer and ends at a best fit.\<close>

lemma best_fit_search_spec:
  assumes "\<forall>x\<in>set_tree t. is_free a x" and "sorted (map (binder_buffer_size a) (inorder t))"
  shows "(\<exists>x\<in>set_tree t. binder_buffer_size a x = sz
             \<and> best_fit_search a sz best t = Some (Some x, True))
       \<or> (\<exists>x\<in>set_tree t. sz < binder_buffer_size a x
             \<and> best_fit_search a sz best t = Some (Some x, False)
             \<and> (\<forall>y\<in>set_tree t. sz \<le> binder_buffer_size a y \<longrightarrow>
                   binder_buffer_size a x \<le> binder_buffer_size a y))
       \<or> (best_fit_search a sz best t = Some (best, False)
             \<and> (\<forall>x\<in>set_tree t. binder_buffer_size a x < sz))"
  using assms
proof (induction t arbitrary: best)
  case Leaf
  then show ?case by simp
next
  case (Node l x r)
  let ?f = "binder_buffer_size a"
  have free: "is_free a x" "\<forall>y\<in>set_tree l. is_free a y" "\<forall>y\<in>set_tree r. is_free a y"
    using Node.prems(1) by auto
  have srt: "sorted (map ?f (inorder l))" "sorted (map ?f (inorder r))"
    "\<forall>y\<in>set_tree l. ?f y \<le> ?f x" "\<forall>y\<in>set_tree r. ?f x \<le> ?f y"
    using Node.prems(2) by (auto simp: sorted_append)
  consider "sz < ?f x" | "?f x < sz" | "sz = ?f x" by linarith
  then show ?case
  proof cases
    case 1
    with Node.IH(1) [OF free(2) srt(1), of "Some x"] free(1) srt(3,4) show ?thesis
      by (elim disjE) (force simp: not_le)+
  next
    case 2
    with Node.IH(2) [OF free(3) srt(2), of best] free(1) srt(3,4) show ?thesis
      by (elim disjE) force+
  next
    case 3
    with free(1) show ?thesis by auto
  qed
qed

section \<open>Sizes of requests\<close>

lemma buffer_request_mod [simp]: "buffer_request d offs mod 8 = 0"
proof -
  have "8 dvd align_ptr d + align_ptr offs" by (simp add: align_ptr_def)
  moreover have "(8::nat) dvd 2 ^ 64" by simp
  ultimately have "8 dvd buffer_request d offs"
    unfolding buffer_request_def by (rule dvd_mod)
  then show ?thesis by (simp add: mod_eq_0_iff_dvd)
qed

lemma buffer_request_less: "buffer_request d offs < 2 ^ 64"
  by (simp add: buffer_request_def)

text \<open>
  The check \<open>size < data_size || size < offsets_size\<close> catches every wrap-around of the
  alignments and of their sum.
\<close>

lemma buffer_request_exact:
  assumes "d < 2 ^ 64" and "offs < 2 ^ 64"
    and "d \<le> buffer_request d offs" and "offs \<le> buffer_request d offs"
  shows "buffer_request d offs = align_ptr d + align_ptr offs"
    and "d \<le> align_ptr d" and "offs \<le> align_ptr offs"
proof -
  let ?A = "align_ptr d" and ?O = "align_ptr offs"
  have le: "buffer_request d offs \<le> ?A + ?O" by (simp add: buffer_request_def)
  have A: "?A \<le> 2 ^ 64 - 8" and O: "?O \<le> 2 ^ 64 - 8" by (rule align_ptr_less)+
  have d: "d + 7 < 2 ^ 64"
  proof (rule ccontr)
    assume "\<not> d + 7 < 2 ^ 64"
    with assms(1) have "?A = 0" by (intro align_ptr_wrap) auto
    with \<open>\<not> d + 7 < 2 ^ 64\<close> assms(3) le O show False by simp
  qed
  have o7: "offs + 7 < 2 ^ 64"
  proof (rule ccontr)
    assume "\<not> offs + 7 < 2 ^ 64"
    with assms(2) have "?O = 0" by (intro align_ptr_wrap) auto
    with \<open>\<not> offs + 7 < 2 ^ 64\<close> assms(4) le A show False by simp
  qed
  show "d \<le> ?A" and "offs \<le> ?O" using align_ptr_small [OF d] align_ptr_small [OF o7] by auto
  show "buffer_request d offs = ?A + ?O"
  proof (rule ccontr)
    assume "buffer_request d offs \<noteq> ?A + ?O"
    then have "\<not> ?A + ?O < 2 ^ 64" by (auto simp: buffer_request_def)
    then have "buffer_request d offs = ?A + ?O - 2 ^ 64"
      using A O by (simp add: buffer_request_def mod_if)
    moreover have "?A < d + 8" using align_ptr_small [OF d] by simp
    ultimately show False using assms(3) O \<open>\<not> ?A + ?O < 2 ^ 64\<close> by simp
  qed
qed

end
