(* ===== verification/Binder_Alloc_Pages.thy ===== *)
theory Binder_Alloc_Pages
  imports Binder_Alloc_Inv
begin

text \<open>
  Which pages the allocator maps and unmaps, and that after each of its three moves
  (taking a free buffer, releasing an allocated one, removing a free header) the pages
  present are exactly the pages needed.
\<close>

section \<open>Ranges in absolute page numbers\<close>

text \<open>The page array holds page \<open>P\<close> exactly when \<open>Q P\<close>.\<close>

definition pages_are :: "binder_alloc \<Rightarrow> (nat \<Rightarrow> bool) \<Rightarrow> bool" where
  "pages_are a Q \<longleftrightarrow> length (pages a) = buffer_size a div 4096
     \<and> (\<forall>i < length (pages a). pages a ! i = Q (buffer a div 4096 + i))"

lemma pages_ok_alt: "pages_ok a \<longleftrightarrow> pages_are a (page_needed a)"
  by (auto simp: pages_ok_def pages_are_def)

lemma pages_are_cong: "pages_are a Q \<Longrightarrow> (\<And>P. Q P = R P) \<Longrightarrow> pages_are a R"
  by (simp add: pages_are_def)

definition mapping_ok :: "binder_alloc \<Rightarrow> bool" where
  "mapping_ok a \<longleftrightarrow> 0 < buffer a \<and> buffer a mod 4096 = 0 \<and> buffer_size a mod 4096 = 0"

lemma layout_mapping [simp]: "layout_ok a \<Longrightarrow> mapping_ok a"
  by (simp add: layout_ok_def mapping_ok_def)

abbreviation first_page :: "binder_alloc \<Rightarrow> nat" where
  "first_page a \<equiv> buffer a div 4096"

abbreviation last_page :: "binder_alloc \<Rightarrow> nat" where
  "last_page a \<equiv> alloc_end a div 4096"

lemma mapping_ok_facts:
  assumes "mapping_ok a"
  shows "buffer a = 4096 * first_page a" and "4096 \<le> buffer a"
    and "alloc_end a = 4096 * last_page a"
    and "last_page a = first_page a + buffer_size a div 4096"
proof -
  from assms obtain m n where mn: "buffer a = 4096 * m" "buffer_size a = 4096 * n" "0 < m"
    by (auto simp: mapping_ok_def mod_eq_0_iff_dvd elim!: dvdE)
  then show "buffer a = 4096 * first_page a" and "4096 \<le> buffer a" by auto
  have e: "alloc_end a = 4096 * (m + n)" using mn by (simp add: alloc_end_def)
  show "alloc_end a = 4096 * last_page a" and "last_page a = first_page a + buffer_size a div 4096"
    unfolding e using mn by simp_all
qed

lemma pages_are_set_range:
  assumes "pages_are a Q" and "first_page a \<le> S"
  shows "pages_are (a\<lparr>pages := set_range (pages a) (S - first_page a) (E - first_page a) v\<rparr>)
           (\<lambda>P. if S \<le> P \<and> P < E then v else Q P)"
  using assms by (auto simp: pages_are_def)

lemma page_at_first:
  "mapping_ok a \<Longrightarrow> first_page a \<le> S \<Longrightarrow> page_at a (S - first_page a) = 4096 * S"
proof -
  assume m: "mapping_ok a" and le: "first_page a \<le> S"
  have "buffer a = 4096 * first_page a" using mapping_ok_facts(1) [OF m] .
  then show ?thesis using le by (metis add_diff_inverse_nat distrib_left linorder_not_le mult.commute)
qed

lemma update_page_range_map_abs:
  assumes "mapping_ok a" and "pages_are a Q" and "first_page a \<le> S" and "E \<le> last_page a"
    and "\<And>P. S \<le> P \<Longrightarrow> P < E \<Longrightarrow> \<not> Q P"
  shows "(\<exists>ps. binder_update_page_range k a True (4096 * S) (4096 * E) v = Some (0, a\<lparr>pages := ps\<rparr>)
            \<and> pages_are (a\<lparr>pages := ps\<rparr>) (\<lambda>P. Q P \<or> S \<le> P \<and> P < E))
       \<or> binder_update_page_range k a True (4096 * S) (4096 * E) v = Some (- ENOMEM, a)"
proof (cases "S < E")
  case True
  let ?B = "first_page a"
  let ?ps = "set_range (pages a) (S - ?B) (E - ?B) True"
  have len: "E - ?B \<le> length (pages a)"
    using assms mapping_ok_facts [OF assms(1)] by (auto simp: pages_are_def)
  have off: "\<not> pages a ! i" if "S - ?B \<le> i" "i < E - ?B" for i
    using assms(2,3,5) that len by (auto simp: pages_are_def)
  have "pages_are (a\<lparr>pages := ?ps\<rparr>) (\<lambda>P. if S \<le> P \<and> P < E then True else Q P)"
    by (rule pages_are_set_range) (use assms in auto)
  then have "pages_are (a\<lparr>pages := ?ps\<rparr>) (\<lambda>P. Q P \<or> S \<le> P \<and> P < E)"
    by (rule pages_are_cong) auto
  moreover have "binder_update_page_range k a True (page_at a (S - ?B)) (page_at a (E - ?B)) v
           = Some (0, a\<lparr>pages := ?ps\<rparr>)
       \<or> binder_update_page_range k a True (page_at a (S - ?B)) (page_at a (E - ?B)) v
           = Some (- ENOMEM, a)"
    using mapping_ok_facts(2) [OF assms(1)] len off by (rule binder_update_page_range_map)
  ultimately show ?thesis
    using assms True by (auto simp: page_at_first)
next
  case False
  then have "(\<lambda>P. Q P \<or> S \<le> P \<and> P < E) = Q" by auto
  moreover have "a\<lparr>pages := pages a\<rparr> = a" by simp
  ultimately have "pages_are (a\<lparr>pages := pages a\<rparr>) (\<lambda>P. Q P \<or> S \<le> P \<and> P < E)"
    using assms(2) by (simp only:)
  moreover have "binder_update_page_range k a True (4096 * S) (4096 * E) v
      = Some (0, a\<lparr>pages := pages a\<rparr>)"
    using False by (simp add: binder_update_page_range_def)
  ultimately show ?thesis by blast
qed

lemma update_page_range_unmap_abs:
  assumes "mapping_ok a" and "pages_are a Q" and "first_page a \<le> S" and "E \<le> last_page a"
    and "\<And>P. S \<le> P \<Longrightarrow> P < E \<Longrightarrow> Q P"
  obtains err ps where
    "binder_update_page_range k a False (4096 * S) (4096 * E) v = Some (err, a\<lparr>pages := ps\<rparr>)"
    and "pages_are (a\<lparr>pages := ps\<rparr>) (\<lambda>P. Q P \<and> \<not> (S \<le> P \<and> P < E))"
proof (cases "S < E")
  case True
  let ?B = "first_page a"
  let ?ps = "set_range (pages a) (S - ?B) (E - ?B) False"
  have len: "E - ?B \<le> length (pages a)"
    using assms mapping_ok_facts [OF assms(1)] by (auto simp: pages_are_def)
  have on: "pages a ! i" if "S - ?B \<le> i" "i < E - ?B" for i
    using assms(2,3,5) that len by (auto simp: pages_are_def)
  have "pages_are (a\<lparr>pages := ?ps\<rparr>) (\<lambda>P. if S \<le> P \<and> P < E then False else Q P)"
    by (rule pages_are_set_range) (use assms in auto)
  then have are: "pages_are (a\<lparr>pages := ?ps\<rparr>) (\<lambda>P. Q P \<and> \<not> (S \<le> P \<and> P < E))"
    by (rule pages_are_cong) auto
  obtain err where "binder_update_page_range k a False (page_at a (S - ?B)) (page_at a (E - ?B)) v
           = Some (err, a\<lparr>pages := ?ps\<rparr>)"
    using mapping_ok_facts(2) [OF assms(1)] len on by (rule binder_update_page_range_unmap)
  then show ?thesis
    using assms True are by (intro that [of err ?ps]) (auto simp: page_at_first)
next
  case False
  then have "(\<lambda>P. Q P \<and> \<not> (S \<le> P \<and> P < E)) = Q" by auto
  then show ?thesis
    using assms False by (intro that [of 0 "pages a"]) (simp_all add: binder_update_page_range_def)
qed

section \<open>Page numbers of a buffer\<close>

lemma PAGE_ALIGN_alt: "PAGE_ALIGN x = 4096 * ((x + 4095) div 4096)"
  by (simp add: PAGE_ALIGN_def)

lemma page_floor_alt: "page_floor x = 4096 * (x div 4096)"
  by (simp add: page_floor_def)

lemma ceil_le_iff: "(x + 4095) div 4096 \<le> P \<longleftrightarrow> x \<le> 4096 * (P::nat)"
  using page_index_bounds [of "x + 4095"] by linarith

lemma less_floor_iff: "P < x div 4096 \<longleftrightarrow> 4096 * P + 4096 \<le> (x::nat)"
  using page_index_bounds [of x] by linarith

lemma less_ceil_iff: "P < (x + 4095) div 4096 \<longleftrightarrow> 4096 * (P::nat) < x"
  using ceil_le_iff [of x P] by linarith

lemma eq_floor_iff: "P = x div 4096 \<longleftrightarrow> 4096 * P \<le> (x::nat) \<and> x < 4096 * P + 4096"
  using page_index_bounds [of x] by linarith

lemmas page_number_iffs = ceil_le_iff less_floor_iff less_ceil_iff

text \<open>The range of whole pages in \<open>b\<close>'s data lies in the mapping.\<close>

lemma data_pages_in_mapping:
  assumes "layout_ok a" and "b \<in> set (buffers a)"
  shows "first_page a \<le> (data_of b + 4095) div 4096" and "buffer_end a b div 4096 \<le> last_page a"
proof -
  obtain xs ys where split: "buffers a = xs @ b # ys" using assms(2) by (auto simp: in_set_conv_decomp)
  note bnd = buffer_end_bounds [OF assms(1) split]
  show "first_page a \<le> (data_of b + 4095) div 4096"
    by (rule div_le_mono) (use bnd(3) in simp)
  show "buffer_end a b div 4096 \<le> last_page a"
    by (rule div_le_mono) (use bnd(2) in simp)
qed

abbreviation others_meet :: "binder_alloc \<Rightarrow> addr list \<Rightarrow> nat \<Rightarrow> bool" where
  "others_meet a cs P \<equiv> \<exists>c\<in>set cs. meets P c (live_end a c)"

text \<open>Allocating: the whole pages up to \<open>data + n\<close> join the pages that were needed.\<close>

lemma pages_after_take:
  assumes "layout_ok a" and "buffers a = xs @ b # ys" and "is_free a b"
    and "data_of b + n \<le> buffer_end a b"
  shows "(page_needed a P \<or> (data_of b + 4095) div 4096 \<le> P
            \<and> P < min ((data_of b + n + 4095) div 4096) (buffer_end a b div 4096))
     \<longleftrightarrow> others_meet a xs P \<or> meets P b (data_of b + n) \<or> others_meet a ys P"
proof -
  have b: "live_end a b = data_of b" using assms(3) by (simp add: live_end_def)
  have straddle: "others_meet a ys P"
    if "4096 * P < buffer_end a b" "buffer_end a b < 4096 * P + 4096"
    using page_straddles_end [OF assms(1,2) that] .
  show ?thesis
  proof (cases "4096 * P < data_of b")
    case True
    then have "meets P b (data_of b) = meets P b (data_of b + n)" by (auto simp: meets_def)
    with True show ?thesis by (auto simp: page_needed_mid [OF assms(2)] b ceil_le_iff)
  next
    case False
    then have n: "meets P b (data_of b + n) \<longleftrightarrow> 4096 * P < data_of b + n"
      and b0: "\<not> meets P b (data_of b)"
      by (auto simp: meets_def)
    show ?thesis
      using False straddle assms(4)
      unfolding page_needed_mid [OF assms(2)] b n min_less_iff_conj page_number_iffs
      using b0 by (auto simp: not_le)
  qed
qed

text \<open>Releasing: the whole pages of the data go, and only the header's pages stay.\<close>

lemma pages_after_release:
  assumes "layout_ok a" and "buffers a = xs @ b # ys" and "\<not> is_free a b"
  shows "(page_needed a P \<and> \<not> ((data_of b + 4095) div 4096 \<le> P \<and> P < buffer_end a b div 4096))
     \<longleftrightarrow> others_meet a xs P \<or> meets P b (data_of b) \<or> others_meet a ys P"
proof -
  note bnd = buffer_end_bounds [OF assms(1,2)]
  have b: "live_end a b = buffer_end a b" using assms(3) by (simp add: live_end_def)
  have xs: "\<not> meets P c (live_end a c)" if "c \<in> set xs" "data_of b \<le> 4096 * P" for c
    using bnd(4) [OF that(1)] live_end_bounds(2) [OF assms(1), of c] that assms(2)
    by (auto simp: meets_def)
  have ys: "\<not> meets P c (live_end a c)" if "c \<in> set ys" "4096 * P + 4096 \<le> buffer_end a b" for c
    using bnd(5) [OF that(1)] that by (auto simp: meets_def)
  have straddle: "others_meet a ys P"
    if "4096 * P < buffer_end a b" "buffer_end a b < 4096 * P + 4096"
    using page_straddles_end [OF assms(1,2) that] .
  show ?thesis
  proof (cases "4096 * P < data_of b")
    case True
    then have "meets P b (buffer_end a b) = meets P b (data_of b)"
      using bnd(1) by (auto simp: meets_def)
    with True show ?thesis by (auto simp: page_needed_mid [OF assms(2)] b ceil_le_iff)
  next
    case False
    then have n: "meets P b (buffer_end a b) \<longleftrightarrow> 4096 * P < buffer_end a b"
      and b0: "\<not> meets P b (data_of b)"
      by (auto simp: meets_def)
    show ?thesis
      using False straddle xs ys b0
      unfolding page_needed_mid [OF assms(2)] b n page_number_iffs
      by (meson not_le)
  qed
qed

end
