(* ===== verification/Binder_Alloc_Ops.thy ===== *)
theory Binder_Alloc_Ops
  imports Binder_Alloc_Pages
begin

text \<open>
  Allocating and freeing keep the invariant: the proofs follow the code, one lemma per
  helper, and the properties of the allocator stand at the end.
\<close>

section \<open>Parts of the invariant during a free\<close>

text \<open>
  \<open>core_ok\<close> is the part of the invariant that holds between any two statements of
  \<open>binder_free_buf\<close>; \<open>index_ok a F\<close> says that the trees are right when the free tree holds
  the buffers \<open>F\<close> only.
\<close>

definition core_ok :: "binder_alloc \<Rightarrow> bool" where
  "core_ok a \<longleftrightarrow> layout_ok a \<and> pages_ok a \<and> list_all (fits a) (buffers a) \<and> async_ok a"

definition index_ok :: "binder_alloc \<Rightarrow> addr set \<Rightarrow> bool" where
  "index_ok a F \<longleftrightarrow>
     distinct (inorder (free_buffers a)) \<and> set_tree (free_buffers a) = F
     \<and> sorted (map (binder_buffer_size a) (inorder (free_buffers a)))
     \<and> sorted_wrt (<) (inorder (allocated_buffers a))
     \<and> set_tree (allocated_buffers a) = {b \<in> set (buffers a). \<not> is_free a b}"

abbreviation apart :: "binder_alloc \<Rightarrow> addr \<Rightarrow> addr \<Rightarrow> bool" where
  "apart a x y \<equiv> \<not> (is_free a x \<and> is_free a y)"

lemma alloc_wf_alt:
  "alloc_wf a \<longleftrightarrow> core_ok a \<and> index_ok a {b \<in> set (buffers a). is_free a b}
     \<and> successively (apart a) (buffers a)"
  by (auto simp: alloc_wf_def core_ok_def index_ok_def trees_ok_def coalesced_def)

text \<open>The allocated buffers, with their headers and the end of their space.\<close>

definition live_map :: "binder_alloc \<Rightarrow> addr \<rightharpoonup> binder_buffer \<times> addr" where
  "live_map a b = (if b \<notin> set (buffers a) then None
     else case bufs a b of None \<Rightarrow> None
          | Some h \<Rightarrow> if buf_free h then None else Some (h, buffer_end a b))"

lemma live_map_None: "live_map a b = None \<longleftrightarrow> b \<notin> set (buffers a) \<or> bufs a b = None \<or> is_free a b"
  by (auto simp: live_map_def is_free_def split: option.splits)

definition same_mapping :: "binder_alloc \<Rightarrow> binder_alloc \<Rightarrow> bool" where
  "same_mapping a a' \<longleftrightarrow> buffer a' = buffer a \<and> buffer_size a' = buffer_size a
     \<and> user_buffer_offset a' = user_buffer_offset a \<and> vma a' = vma a \<and> vma_vm_mm a' = vma_vm_mm a
     \<and> tsk a' = tsk a"

lemma same_mapping_refl [simp]: "same_mapping a a"
  by (simp add: same_mapping_def)

lemma same_mapping_trans [trans]: "same_mapping a b \<Longrightarrow> same_mapping b c \<Longrightarrow> same_mapping a c"
  by (simp add: same_mapping_def)

lemma fits_frame [simp]:
  "fits (a\<lparr>free_buffers := t\<rparr>) = fits a"
  "fits (a\<lparr>allocated_buffers := t\<rparr>) = fits a"
  "fits (a\<lparr>pages := ps\<rparr>) = fits a"
  "fits (a\<lparr>free_async_space := n\<rparr>) = fits a"
  by (auto simp: fits_def fun_eq_iff split: option.split)

lemma layout_ok_frame [simp]:
  "layout_ok (a\<lparr>free_buffers := t\<rparr>) = layout_ok a"
  "layout_ok (a\<lparr>allocated_buffers := t\<rparr>) = layout_ok a"
  "layout_ok (a\<lparr>pages := ps\<rparr>) = layout_ok a"
  "layout_ok (a\<lparr>free_async_space := n\<rparr>) = layout_ok a"
  by (simp_all add: layout_ok_def)

lemma pages_ok_frame [simp]:
  "pages_ok (a\<lparr>free_buffers := t\<rparr>) = pages_ok a"
  "pages_ok (a\<lparr>allocated_buffers := t\<rparr>) = pages_ok a"
  "pages_ok (a\<lparr>free_async_space := n\<rparr>) = pages_ok a"
  by (simp_all add: pages_ok_def)

lemma async_cost_frame [simp]:
  "async_cost (a\<lparr>free_buffers := t\<rparr>) = async_cost a"
  "async_cost (a\<lparr>allocated_buffers := t\<rparr>) = async_cost a"
  "async_cost (a\<lparr>pages := ps\<rparr>) = async_cost a"
  "async_cost (a\<lparr>free_async_space := n\<rparr>) = async_cost a"
  by (auto simp: async_cost_def fun_eq_iff split: option.split)

lemma async_used_frame [simp]:
  "async_used (a\<lparr>free_buffers := t\<rparr>) = async_used a"
  "async_used (a\<lparr>allocated_buffers := t\<rparr>) = async_used a"
  "async_used (a\<lparr>pages := ps\<rparr>) = async_used a"
  "async_used (a\<lparr>free_async_space := n\<rparr>) = async_used a"
  by (simp_all add: async_used_def)

lemma core_ok_frame [simp]:
  "core_ok (a\<lparr>free_buffers := t\<rparr>) = core_ok a"
  "core_ok (a\<lparr>allocated_buffers := t\<rparr>) = core_ok a"
  by (simp_all add: core_ok_def async_ok_def)

lemma live_map_frame [simp]:
  "live_map (a\<lparr>free_buffers := t\<rparr>) = live_map a"
  "live_map (a\<lparr>allocated_buffers := t\<rparr>) = live_map a"
  "live_map (a\<lparr>pages := ps\<rparr>) = live_map a"
  "live_map (a\<lparr>free_async_space := n\<rparr>) = live_map a"
  by (auto simp: live_map_def fun_eq_iff split: option.split)

section \<open>Removing a free header\<close>

lemma header_pages:
  "meets P h (data_of h) \<longleftrightarrow> P = h div 4096 \<or> P = (h + 79) div 4096"
  unfolding meets_def eq_floor_iff by linarith

lemma prev_header_pages:
  assumes "layout_ok a" and "buffers a = xs @ p # h # ys"
    and "P = h div 4096 \<or> P = (h + 79) div 4096"
  shows "others_meet a xs P \<or> meets P p (data_of p)
     \<longleftrightarrow> P = h div 4096 \<and> (p + 79) div 4096 = h div 4096"
proof -
  note bp = buffer_end_bounds [OF assms(1,2)]
  have ph: "data_of p \<le> h"
    using bp(1) buffer_end_mid [OF assms(2) alloc_distinct [OF assms(1)]] by simp
  have live: "live_end a c \<le> p" if "c \<in> set xs" for c
    using bp(4) [OF that] live_end_bounds(2) [OF assms(1), of c] that assms(2) by auto
  show ?thesis
  proof
    assume "others_meet a xs P \<or> meets P p (data_of p)"
    then have "4096 * P < data_of p" using live by (fastforce simp: meets_def)
    then have "P = h div 4096" and "P = (p + 79) div 4096"
      using ph assms(3) unfolding eq_floor_iff by linarith+
    then show "P = h div 4096 \<and> (p + 79) div 4096 = h div 4096" by simp
  next
    assume "P = h div 4096 \<and> (p + 79) div 4096 = h div 4096"
    then show "others_meet a xs P \<or> meets P p (data_of p)" by (simp add: header_pages)
  qed
qed

lemma next_header_pages:
  assumes "layout_ok a" and "buffers a = zs @ h # ys"
    and "P = h div 4096 \<or> P = (h + 79) div 4096"
  shows "others_meet a ys P
     \<longleftrightarrow> P = (h + 79) div 4096 \<and> (case ys of [] \<Rightarrow> False | n # _ \<Rightarrow> n div 4096 = (h + 79) div 4096)"
proof (cases ys)
  case (Cons n ns)
  note bh = buffer_end_bounds [OF assms(1,2)]
  have e: "buffer_end a h = n"
    using buffer_end_mid [OF assms(2) alloc_distinct [OF assms(1)]] Cons by simp
  have dn: "data_of n \<le> live_end a n" using assms(1,2) Cons by (intro live_end_bounds) auto
  show ?thesis
  proof
    assume "others_meet a ys P"
    then obtain c where "c \<in> set ys" "c < 4096 * P + 4096" by (auto simp: meets_def)
    then have "data_of h \<le> n" "n < 4096 * P + 4096" using bh(1) bh(5) [of c] e by auto
    then have "P = (h + 79) div 4096" and "P = n div 4096"
      using assms(3) unfolding eq_floor_iff by linarith+
    then show "P = (h + 79) div 4096 \<and> (case ys of [] \<Rightarrow> False | n # _ \<Rightarrow> n div 4096 = (h + 79) div 4096)"
      using Cons by auto
  next
    assume "P = (h + 79) div 4096 \<and> (case ys of [] \<Rightarrow> False | n # _ \<Rightarrow> n div 4096 = (h + 79) div 4096)"
    then have "meets P n (live_end a n)"
      using dn page_index_bounds [of n] Cons by (auto simp: meets_def)
    then show "others_meet a ys P" using Cons by auto
  qed
qed simp

abbreviation next_on :: "addr list \<Rightarrow> nat \<Rightarrow> bool" where
  "next_on ys v \<equiv> (case ys of [] \<Rightarrow> False | n # _ \<Rightarrow> n div 4096 = v)"

lemma pages_after_delete:
  assumes "layout_ok a" and "buffers a = xs @ p # h # ys" and "is_free a p" and "is_free a h"
    and "s = h div 4096" and "t = (h + 79) div 4096" and "q = (p + 79) div 4096"
    and "fps \<longleftrightarrow> q \<noteq> s \<and> \<not> (next_on ys t \<and> next_on ys s)"
    and "fpe \<longleftrightarrow> \<not> (q = s \<and> q = t) \<and> \<not> next_on ys t"
  shows "(page_needed a P \<and> \<not> (P = s \<and> fps \<or> P = t \<and> fpe))
     \<longleftrightarrow> others_meet a xs P \<or> meets P p (data_of p) \<or> others_meet a ys P"
proof -
  have free: "live_end a p = data_of p" "live_end a h = data_of h"
    using assms(3,4) by (simp_all add: live_end_def)
  have need: "page_needed a P \<longleftrightarrow> (others_meet a xs P \<or> meets P p (data_of p))
      \<or> (P = s \<or> P = t) \<or> others_meet a ys P"
    using page_needed_mid [OF assms(2)] free
    by (auto simp: header_pages [symmetric] assms(5,6))
  show ?thesis
  proof (cases "P = s \<or> P = t")
    case True
    have split: "buffers a = (xs @ [p]) @ h # ys" using assms(2) by simp
    have "others_meet a xs P \<or> meets P p (data_of p) \<longleftrightarrow> P = s \<and> q = s"
      using prev_header_pages [OF assms(1,2)] True assms(5-7) by blast
    moreover have "others_meet a ys P \<longleftrightarrow> P = t \<and> next_on ys t"
      using next_header_pages [OF assms(1) split] True assms(5-7) by blast
    moreover have "next_on ys t \<and> next_on ys s \<Longrightarrow> s = t" by (cases ys) auto
    ultimately show ?thesis using need True assms(8,9) by blast
  next
    case False
    then show ?thesis using need by blast
  qed
qed

lemma sorted_wrt_delete:
  "sorted_wrt R (xs @ p # h # ys @ zs) \<Longrightarrow> sorted_wrt R (xs @ p # ys @ zs)"
  by (simp add: sorted_wrt_append)

text \<open>Without the header of \<open>h\<close>, every buffer but \<open>p\<close> ends where it did.\<close>

lemma delete_layout:
  assumes "layout_ok a" and "buffers a = xs @ p # h # ys"
    and "buffers a' = xs @ p # ys" and "bufs a' = (bufs a)(h := None)"
    and "buffer a' = buffer a" and "buffer_size a' = buffer_size a"
  shows "layout_ok a'" and "c \<in> set xs \<union> set ys \<Longrightarrow> buffer_end a' c = buffer_end a c"
    and "c \<in> set xs \<union> set ys \<union> {p} \<Longrightarrow> bufs a' c = bufs a c"
    and "h \<notin> set xs \<union> set ys \<union> {p}"
proof -
  have d: "distinct (buffers a)" using assms(1) by (rule alloc_distinct)
  show h: "h \<notin> set xs \<union> set ys \<union> {p}" using d assms(2) by auto
  then show "c \<in> set xs \<union> set ys \<union> {p} \<Longrightarrow> bufs a' c = bufs a c" using assms(4) by auto
  have e: "alloc_end a' = alloc_end a" using assms by (simp add: alloc_end_def)
  have "sorted_wrt (\<lambda>x y. data_of x \<le> y) (buffers a' @ [alloc_end a'])"
    using assms(1-3) e sorted_wrt_delete [of _ xs p h ys "[alloc_end a]"] by (simp add: layout_ok_def)
  then show "layout_ok a'"
    using assms h e by (cases xs) (auto simp: layout_ok_def)
  then have d': "distinct (buffers a')" by (rule alloc_distinct)
  show "buffer_end a' c = buffer_end a c" if "c \<in> set xs \<union> set ys"
  proof (cases "c \<in> set xs")
    case True
    then show ?thesis using buffer_end_before assms(2,3) d d' by metis
  next
    case False
    then have "c \<in> set ys" using that by simp
    then show ?thesis
      using assms(2,3) d d' e buffer_end_after [of a "xs @ [p, h]" ys a' "xs @ [p]"] by simp
  qed
qed

lemma page_range_pair:
  assumes "t = s \<or> t = Suc s" and "fs \<or> fe" and "s = t \<Longrightarrow> fs = fe"
  shows "(if fs then s else t) \<le> P \<and> P < Suc (if fe then t else s)
     \<longleftrightarrow> P = s \<and> fs \<or> P = t \<and> fe"
  using assms by auto

lemma pages_are_frame [simp]:
  "pages_are (a\<lparr>buffers := bs\<rparr>) = pages_are a"
  "pages_are (a\<lparr>bufs := m\<rparr>) = pages_are a"
  "pages_are (a\<lparr>free_buffers := t\<rparr>) = pages_are a"
  "pages_are (a\<lparr>allocated_buffers := t\<rparr>) = pages_are a"
  "pages_are (a\<lparr>free_async_space := n\<rparr>) = pages_are a"
  by (simp_all add: pages_are_def fun_eq_iff)

lemma mapping_ok_frame [simp]:
  "mapping_ok (a\<lparr>buffers := bs\<rparr>) = mapping_ok a"
  "mapping_ok (a\<lparr>bufs := m\<rparr>) = mapping_ok a"
  "mapping_ok (a\<lparr>free_async_space := n\<rparr>) = mapping_ok a"
  by (simp_all add: mapping_ok_def)

text \<open>The code of \<open>binder_delete_free_buffer\<close> in page numbers.\<close>

lemma delete_free_buffer_unfold:
  assumes "distinct (buffers a)" and "buffers a = xs @ p # h # ys" and "is_free a p"
    and stq: "s = h div 4096" "t = (h + 79) div 4096" "q = (p + 79) div 4096"
    and fp: "fps \<longleftrightarrow> q \<noteq> s \<and> \<not> (next_on ys t \<and> next_on ys s)"
      "fpe \<longleftrightarrow> \<not> (q = s \<and> q = t) \<and> \<not> next_on ys t"
  shows "binder_delete_free_buffer k a h =
     (let a1 = a\<lparr>buffers := xs @ p # ys, bufs := (bufs a)(h := None)\<rparr> in
      if fps \<or> fpe
      then do { (err, a2) \<leftarrow> binder_update_page_range k a1 False
                  (4096 * (if fps then s else t)) (4096 * Suc (if fpe then t else s)) None;
                Some a2 }
      else Some a1)"
proof -
  have nin: "h \<notin> set (xs @ [p])" "h \<notin> set ys" using assms(1,2) by auto
  have "list_prev ((xs @ [p]) @ h # ys) h = Some p" using list_prev_mid [OF nin] by simp
  moreover have "list_next ((xs @ [p]) @ h # ys) h = (case ys of [] \<Rightarrow> None | z # _ \<Rightarrow> Some z)"
    using list_next_mid [OF nin(1)] .
  moreover have "remove1 h ((xs @ [p]) @ h # ys) = xs @ p # ys" using remove1_mid [OF nin(1)] by simp
  moreover have "buffer_start_page x = 4096 * (x div 4096)"
    "buffer_end_page x = 4096 * ((x + 79) div 4096)" for x
    by (simp_all add: buffer_start_page_def buffer_end_page_def page_floor_alt)
  ultimately show ?thesis
    using assms(3) unfolding binder_delete_free_buffer_def assms(2) fp stq Let_def
    by (cases ys) (simp_all add: add.commute)
qed

lemma delete_free_buffer_pages:
  assumes "layout_ok a" and "pages_ok a" and "buffers a = xs @ p # h # ys"
    and "is_free a p" and "is_free a h"
  obtains ps where "binder_delete_free_buffer k a h
      = Some (a\<lparr>buffers := xs @ p # ys, bufs := (bufs a)(h := None), pages := ps\<rparr>)"
    and "pages_ok (a\<lparr>buffers := xs @ p # ys, bufs := (bufs a)(h := None), pages := ps\<rparr>)"
proof -
  define s t q where stq: "s = h div 4096" "t = (h + 79) div 4096" "q = (p + 79) div 4096"
  define fps where fps: "fps \<longleftrightarrow> q \<noteq> s \<and> \<not> (next_on ys t \<and> next_on ys s)"
  define fpe where fpe: "fpe \<longleftrightarrow> \<not> (q = s \<and> q = t) \<and> \<not> next_on ys t"
  let ?a1 = "a\<lparr>buffers := xs @ p # ys, bufs := (bufs a)(h := None)\<rparr>"
  note unf = delete_free_buffer_unfold [OF alloc_distinct [OF assms(1)] assms(3,4) stq fps fpe, of k]
  have split: "buffers a = (xs @ [p]) @ h # ys" using assms(3) by simp
  note bnd = buffer_end_bounds [OF assms(1) split]
  have live: "live_end ?a1 c = live_end a c" if "c \<in> set xs \<union> set ys" for c
    using delete_layout(2-4) [OF assms(1,3), of ?a1, simplified] that
    by (auto simp: live_end_def is_free_def)
  have livep: "live_end ?a1 p = data_of p"
    using assms(4) delete_layout(3) [OF assms(1,3), of ?a1, simplified] by (simp add: live_end_def is_free_def)
  have need: "page_needed ?a1 P \<longleftrightarrow> page_needed a P \<and> \<not> (P = s \<and> fps \<or> P = t \<and> fpe)" for P
    unfolding pages_after_delete [OF assms(1,3-5) stq fps fpe] page_needed_mid [of ?a1 xs p ys, simplified]
    using live livep by auto
  have are: "pages_are ?a1 (page_needed a)" using assms(2) by (simp add: pages_ok_alt)
  show ?thesis
  proof (cases "fps \<or> fpe")
    case True
    let ?S = "if fps then s else t" and ?E = "Suc (if fpe then t else s)"
    have ts: "t = s \<or> t = Suc s"
      using page_index_bounds [of h] page_index_bounds [of "h + 79"] stq(1,2) by linarith
    have same: "s = t \<Longrightarrow> fps = fpe" using fps fpe by auto
    have rng: "?S \<le> P \<and> P < ?E \<longleftrightarrow> P = s \<and> fps \<or> P = t \<and> fpe" for P
      using page_range_pair [OF ts True same] .
    have m: "mapping_ok ?a1" using assms(1) by simp
    have lo: "first_page ?a1 \<le> ?S" using div_le_mono [OF bnd(3), of 4096] stq ts by auto
    have "(h + 79) div 4096 < last_page a"
      using bnd(1,2) mapping_ok_facts(3) [of a] assms(1)
      by (intro less_mult_imp_div_less) (auto simp: mult.commute)
    then have hi: "?E \<le> last_page ?a1" using stq ts by auto
    have on: "page_needed a P" if "?S \<le> P" "P < ?E" for P
      using that rng [of P] header_pages [of P h] stq assms(3,5)
      by (auto simp: page_needed_def live_end_def)
    obtain err ps where
      upd: "binder_update_page_range k ?a1 False (4096 * ?S) (4096 * ?E) None = Some (err, ?a1\<lparr>pages := ps\<rparr>)"
      and are': "pages_are (?a1\<lparr>pages := ps\<rparr>) (\<lambda>P. page_needed a P \<and> \<not> (?S \<le> P \<and> P < ?E))"
      using update_page_range_unmap_abs [OF m are lo hi on] by blast
    have "pages_are (?a1\<lparr>pages := ps\<rparr>) (page_needed ?a1)"
      by (rule pages_are_cong [OF are']) (simp only: need rng)
    then show ?thesis
      using True unf upd by (intro that [of ps]) (simp_all add: pages_ok_alt)
  next
    case False
    then have "pages_are ?a1 (page_needed ?a1)" using are need by (simp add: pages_are_def)
    with False show ?thesis using unf by (intro that [of "pages a"]) (simp_all add: pages_ok_alt)
  qed
qed

text \<open>Deleting keeps the core of the invariant and what is allocated.\<close>

lemma delete_free_buffer_core:
  assumes "core_ok a" and "buffers a = xs @ p # h # ys" and "is_free a p" and "is_free a h"
  obtains ps where "binder_delete_free_buffer k a h
      = Some (a\<lparr>buffers := xs @ p # ys, bufs := (bufs a)(h := None), pages := ps\<rparr>)"
    and "core_ok (a\<lparr>buffers := xs @ p # ys, bufs := (bufs a)(h := None), pages := ps\<rparr>)"
    and "live_map (a\<lparr>buffers := xs @ p # ys, bufs := (bufs a)(h := None), pages := ps\<rparr>) = live_map a"
proof -
  note c = assms(1) [unfolded core_ok_def]
  obtain ps where del: "binder_delete_free_buffer k a h
      = Some (a\<lparr>buffers := xs @ p # ys, bufs := (bufs a)(h := None), pages := ps\<rparr>)"
    and pok: "pages_ok (a\<lparr>buffers := xs @ p # ys, bufs := (bufs a)(h := None), pages := ps\<rparr>)"
    using delete_free_buffer_pages assms c by blast
  let ?a = "a\<lparr>buffers := xs @ p # ys, bufs := (bufs a)(h := None), pages := ps\<rparr>"
  have lay: "layout_ok a" using c by simp
  note d = delete_layout [OF lay assms(2), of ?a, simplified]
  have fits: "fits ?a x = fits a x" if "x \<in> set xs \<union> set ys \<union> {p}" for x
    using d(2-4) that assms(3)
    by (auto simp: fits_def binder_buffer_size_def is_free_def split: option.splits)
  have cost: "async_cost ?a x = async_cost a x" if "x \<in> set xs \<union> set ys \<union> {p}" for x
    using d(3,4) that by (auto simp: async_cost_def)
  have "async_cost a h = 0" using assms(4) by (auto simp: async_cost_def is_free_def split: option.splits)
  then have "async_used ?a = async_used a"
    using cost by (simp add: async_used_def assms(2) cong: map_cong)
  moreover have "list_all (fits ?a) (buffers ?a)"
    using c fits assms(2) by (auto simp: list_all_iff)
  ultimately have core: "core_ok ?a" using c d(1) pok by (simp add: core_ok_def async_ok_def)
  have "live_map ?a x = live_map a x" for x
    using d(2-4) assms(2-4) by (auto simp: live_map_def is_free_def split: option.splits)
  then show ?thesis using that [OF del core] by auto
qed

section \<open>Merging with free neighbours\<close>

text \<open>
  The state of \<open>binder_free_buf\<close> once \<open>b\<close> is marked free: \<open>b\<close> is in neither tree and may
  have free neighbours.
\<close>

definition hole :: "binder_alloc \<Rightarrow> addr list \<Rightarrow> addr \<Rightarrow> addr list \<Rightarrow> bool" where
  "hole a xs b ys \<longleftrightarrow>
     buffers a = xs @ b # ys \<and> is_free a b \<and> core_ok a
     \<and> index_ok a {x \<in> set xs \<union> set ys. is_free a x}
     \<and> successively (apart a) xs \<and> successively (apart a) ys"

lemma hole_distinct: "hole a xs b ys \<Longrightarrow> distinct (xs @ b # ys)"
  using alloc_distinct [of a] by (auto simp: hole_def core_ok_def)

lemma rb_erase_index:
  assumes "rb_ok k" and "x \<in> set_tree t" and "distinct (inorder t)"
    and "sorted (map f (inorder t))"
  shows "distinct (inorder (rb_erase k x t))" and "set_tree (rb_erase k x t) = set_tree t - {x}"
    and "sorted (map f (inorder (rb_erase k x t)))"
  using assms by (simp_all add: rb_ok_erase_set sorted_map_remove1)

lemma sorted_map_cong:
  "sorted (map f xs) \<Longrightarrow> (\<And>x. x \<in> set xs \<Longrightarrow> g x = f x) \<Longrightarrow> sorted (map g xs)"
  by (simp cong: map_cong)

lemma successively_cong_set:
  "successively P xs \<Longrightarrow> (\<And>x y. x \<in> set xs \<Longrightarrow> y \<in> set xs \<Longrightarrow> P x y = Q x y) \<Longrightarrow> successively Q xs"
  using successively_cong [of xs P Q xs] by simp

text \<open>
  One lemma serves both merges: \<open>h\<close> is deleted behind \<open>p\<close>, one of the two is the hole and
  the other one leaves the free tree.
\<close>

lemma merge_step:
  assumes "core_ok a" and "buffers a = xs @ p # h # ys" and "is_free a p" and "is_free a h"
    and "index_ok a F" and "F = {x \<in> set xs \<union> set ys. is_free a x}"
    and "successively (apart a) xs" and "successively (apart a) ys"
    and "a' = a\<lparr>buffers := xs @ p # ys, bufs := (bufs a)(h := None), pages := ps\<rparr>" and "core_ok a'"
  shows "hole a' xs p ys"
proof -
  have lay: "layout_ok a" using assms(1) by (simp add: core_ok_def)
  have eqs: "buffers a' = xs @ p # ys" "bufs a' = (bufs a)(h := None)" "buffer a' = buffer a"
    "buffer_size a' = buffer_size a" using assms(9) by simp_all
  note d = delete_layout [OF lay assms(2) eqs]
  have free: "is_free a' x = is_free a x" if "x \<noteq> h" for x
    using that assms(9) by (simp add: is_free_def)
  have sz: "binder_buffer_size a' x = binder_buffer_size a x" if "x \<in> F" for x
  proof -
    have "x \<in> set xs \<union> set ys" using that assms(6) by auto
    then show ?thesis using d(2) by (simp add: binder_buffer_size_def)
  qed
  have ne: "x \<noteq> h" if "x \<in> set xs \<union> set ys \<union> {p}" for x using that d(4) by auto
  have F: "F = {x \<in> set xs \<union> set ys. is_free a' x}"
    using assms(6) free ne by auto
  have "sorted (map (binder_buffer_size a') (inorder (free_buffers a)))"
    by (rule sorted_map_cong [of "binder_buffer_size a"]) (use assms(5) sz in \<open>auto simp: index_ok_def\<close>)
  moreover have "{b \<in> set (buffers a'). \<not> is_free a' b} = {b \<in> set (buffers a). \<not> is_free a b}"
    using assms(2,4,9) free ne by auto
  ultimately have "index_ok a' F" using assms(5,9) by (simp add: index_ok_def)
  moreover have "successively (apart a') xs" "successively (apart a') ys"
    using assms(7,8) free ne by (auto elim!: successively_cong_set)
  ultimately show ?thesis
    using assms(3,9,10) free ne F by (simp add: hole_def)
qed

lemma merge_next_free_ok:
  assumes "rb_ok k" and "hole a xs b ys"
  obtains a' ys' where "merge_next_free k a b = Some a'" and "hole a' xs b ys'"
    and "ys' = [] \<or> \<not> is_free a' (hd ys')" and "live_map a' = live_map a" and "same_mapping a a'"
proof (cases "ys = [] \<or> \<not> is_free a (hd ys)")
  case True
  moreover have "list_next (xs @ b # ys) b = (case ys of [] \<Rightarrow> None | z # _ \<Rightarrow> Some z)"
    using hole_distinct [OF assms(2)] by (intro list_next_mid) auto
  ultimately have "merge_next_free k a b = Some a"
    using assms(2) by (cases ys) (auto simp: merge_next_free_def hole_def)
  then show ?thesis using that assms(2) True same_mapping_refl by blast
next
  case False
  then obtain n zs where ys: "ys = n # zs" and n: "is_free a n" by (cases ys) auto
  note h = assms(2) [unfolded hole_def ys]
  have dist: "distinct (xs @ b # n # zs)" using hole_distinct [OF assms(2)] ys by simp
  let ?t = "rb_erase k n (free_buffers a)"
  let ?a = "a\<lparr>free_buffers := ?t\<rparr>"
  let ?F = "{x \<in> set xs \<union> set zs. is_free a x}"
  have mem: "n \<in> set_tree (free_buffers a)" using h n by (auto simp: index_ok_def)
  have idx: "index_ok ?a ?F"
    using h rb_erase_index [OF assms(1) mem] dist by (auto simp: index_ok_def)
  obtain ps where del: "binder_delete_free_buffer k ?a n
      = Some (?a\<lparr>buffers := xs @ b # zs, bufs := (bufs ?a)(n := None), pages := ps\<rparr>)"
    and core: "core_ok (?a\<lparr>buffers := xs @ b # zs, bufs := (bufs ?a)(n := None), pages := ps\<rparr>)"
    and live: "live_map (?a\<lparr>buffers := xs @ b # zs, bufs := (bufs ?a)(n := None), pages := ps\<rparr>)
      = live_map ?a"
    by (rule delete_free_buffer_core [of ?a xs b n zs k]) (use h n in auto)
  let ?a' = "?a\<lparr>buffers := xs @ b # zs, bufs := (bufs ?a)(n := None), pages := ps\<rparr>"
  have sc: "successively (apart a) zs" "zs = [] \<or> \<not> is_free a (hd zs)"
    using h n by (auto simp: successively_Cons)
  have hole: "hole ?a' xs b zs"
    by (rule merge_step [of ?a _ _ n _ ?F _ ps]) (use h n idx core dist sc in auto)
  have "merge_next_free k a b = Some ?a'"
    using h n dist del by (simp add: merge_next_free_def list_next_mid)
  moreover have "zs = [] \<or> \<not> is_free ?a' (hd zs)"
    using sc dist by (cases zs) (auto simp: is_free_def)
  ultimately show ?thesis using that [OF _ hole] live by (simp add: same_mapping_def)
qed

lemma merge_prev_free_ok:
  assumes "rb_ok k" and "hole a xs b ys" and "ys = [] \<or> \<not> is_free a (hd ys)"
  obtains a' b' xs' where "merge_prev_free k a b = Some (b', a')" and "hole a' xs' b' ys"
    and "ys = [] \<or> \<not> is_free a' (hd ys)" and "xs' = [] \<or> \<not> is_free a' (last xs')"
    and "live_map a' = live_map a" and "same_mapping a a'"
proof (cases "xs = [] \<or> \<not> is_free a (last xs)")
  case True
  moreover have "list_prev (xs @ b # ys) b = (if xs = [] then None else Some (last xs))"
    using hole_distinct [OF assms(2)] by (intro list_prev_mid) auto
  ultimately have "merge_prev_free k a b = Some (b, a)"
    using assms(2) by (auto simp: merge_prev_free_def hole_def)
  then show ?thesis using that assms(2,3) True same_mapping_refl by blast
next
  case False
  then obtain ws p where xs: "xs = ws @ [p]" and p: "is_free a p" by (cases xs rule: rev_cases) auto
  note h = assms(2) [unfolded hole_def xs]
  have dist: "distinct (ws @ p # b # ys)" using hole_distinct [OF assms(2)] xs by simp
  let ?t = "rb_erase k p (free_buffers a)"
  let ?F = "{x \<in> set ws \<union> set ys. is_free a x}"
  have mem: "p \<in> set_tree (free_buffers a)" using h p by (auto simp: index_ok_def)
  obtain ps where del: "binder_delete_free_buffer k a b
      = Some (a\<lparr>buffers := ws @ p # ys, bufs := (bufs a)(b := None), pages := ps\<rparr>)"
    and core: "core_ok (a\<lparr>buffers := ws @ p # ys, bufs := (bufs a)(b := None), pages := ps\<rparr>)"
    and live: "live_map (a\<lparr>buffers := ws @ p # ys, bufs := (bufs a)(b := None), pages := ps\<rparr>)
      = live_map a"
    by (rule delete_free_buffer_core [of a ws p b ys k]) (use h p in auto)
  let ?a = "a\<lparr>free_buffers := ?t\<rparr>"
  let ?a' = "?a\<lparr>buffers := ws @ p # ys, bufs := (bufs ?a)(b := None), pages := ps\<rparr>"
  have a': "a\<lparr>buffers := ws @ p # ys, bufs := (bufs a)(b := None), pages := ps\<rparr>\<lparr>free_buffers := ?t\<rparr> = ?a'"
    by simp
  have idx: "index_ok ?a ?F"
    using h rb_erase_index [OF assms(1) mem] dist by (auto simp: index_ok_def)
  have sc: "successively (apart a) ws" "ws = [] \<or> \<not> is_free a (last ws)"
    using h p by (auto simp: successively_append_iff)
  have core': "core_ok ?a'" using core core_ok_frame(1) by (simp only: a' [symmetric])
  have hole: "hole ?a' ws p ys"
    by (rule merge_step [of ?a _ _ b _ ?F _ ps]) (use h p idx core' dist sc in auto)
  have "merge_prev_free k a b = Some (p, ?a')"
    using h p dist del list_prev_mid [of b "ws @ [p]" ys] by (simp add: merge_prev_free_def)
  moreover have "ys = [] \<or> \<not> is_free ?a' (hd ys)" "ws = [] \<or> \<not> is_free ?a' (last ws)"
    using sc assms(3) dist by (auto simp: is_free_def)
  moreover have "live_map ?a' = live_map a" using live live_map_frame(1) by (simp only: a' [symmetric])
  ultimately show ?thesis using that [OF _ hole] by (simp add: same_mapping_def)
qed

lemma insert_free_index:
  assumes "rb_ok k" and "index_ok a F" and "b \<notin> F" and "is_free a b" and "\<forall>x\<in>F. is_free a x"
  obtains t where "binder_insert_free_buffer k a b = Some (a\<lparr>free_buffers := t\<rparr>)"
    and "index_ok (a\<lparr>free_buffers := t\<rparr>) (insert b F)"
proof -
  obtain t where t: "free_tree_link a b (free_buffers a) = Some t"
    "set_tree t = insert b (set_tree (free_buffers a))"
    "b \<notin> set_tree (free_buffers a) \<Longrightarrow> distinct (inorder (free_buffers a)) \<Longrightarrow> distinct (inorder t)"
    "sorted (map (binder_buffer_size a) (inorder (free_buffers a))) \<Longrightarrow>
         sorted (map (binder_buffer_size a) (inorder t))"
    by (rule free_tree_link_spec [of "free_buffers a" a b])
      (use assms(2,5) in \<open>auto simp: index_ok_def\<close>)
  show ?thesis
    by (rule that [of "rb_insert_color k b t"])
      (use assms t in \<open>auto simp: index_ok_def binder_insert_free_buffer_def\<close>)
qed

lemma insert_free_buffer_ok:
  assumes "rb_ok k" and "hole a xs b ys"
    and "ys = [] \<or> \<not> is_free a (hd ys)" and "xs = [] \<or> \<not> is_free a (last xs)"
  obtains a' where "binder_insert_free_buffer k a b = Some a'" and "alloc_wf a'"
    and "live_map a' = live_map a" and "same_mapping a a'"
proof -
  note h = assms(2) [unfolded hole_def]
  have dist: "distinct (xs @ b # ys)" using hole_distinct [OF assms(2)] .
  obtain t where t: "binder_insert_free_buffer k a b = Some (a\<lparr>free_buffers := t\<rparr>)"
    "index_ok (a\<lparr>free_buffers := t\<rparr>) (insert b {x \<in> set xs \<union> set ys. is_free a x})"
    by (rule insert_free_index [OF assms(1), of a "{x \<in> set xs \<union> set ys. is_free a x}" b])
      (use h dist in auto)
  have "{x \<in> set (buffers a). is_free a x} = insert b {x \<in> set xs \<union> set ys. is_free a x}"
    using h by auto
  moreover have "successively (apart a) (xs @ b # ys)"
    using h assms(3,4) by (auto simp: successively_append_iff successively_Cons)
  ultimately have "alloc_wf (a\<lparr>free_buffers := t\<rparr>)" using h t(2) by (simp add: alloc_wf_alt)
  then show ?thesis using that t(1) by (simp add: same_mapping_def)
qed

section \<open>Freeing\<close>

lemma others_meet_cong:
  "(\<And>c. c \<in> set cs \<Longrightarrow> live_end a' c = live_end a c) \<Longrightarrow> others_meet a' cs P = others_meet a cs P"
  by auto

lemma sum_list_mid: "sum_list (map f (xs @ b # ys)) = f b + sum_list (map f (xs @ ys))"
  for f :: "'a \<Rightarrow> nat" by simp

lemma live_mapD:
  "live_map a b = Some (h, e) \<Longrightarrow>
    b \<in> set (buffers a) \<and> bufs a b = Some h \<and> \<not> buf_free h \<and> e = buffer_end a b \<and> \<not> is_free a b"
  by (auto simp: live_map_def is_free_def split: if_splits option.splits)

text \<open>The state after \<open>buffer->free = 1\<close> in \<open>binder_free_buf\<close>.\<close>

lemma release_hole:
  assumes "rb_ok k" and "alloc_wf a" and "buffers a = xs @ b # ys" and "live_map a b = Some (h, e)"
    and "pages_are (a\<lparr>pages := ps\<rparr>)
           (\<lambda>P. page_needed a P \<and> \<not> ((data_of b + 4095) div 4096 \<le> P \<and> P < e div 4096))"
    and "a' = a\<lparr>free_async_space := free_async_space a + async_cost a b, pages := ps,
           allocated_buffers := rb_erase k b (allocated_buffers a),
           bufs := (bufs a)(b \<mapsto> h\<lparr>buf_free := True\<rparr>)\<rparr>"
  shows "hole a' xs b ys" and "live_map a' = (live_map a)(b := None)" and "same_mapping a a'"
proof -
  note hb = live_mapD [OF assms(4)]
  note wf = assms(2) [unfolded alloc_wf_alt core_ok_def]
  have lay: "layout_ok a" using wf by simp
  have dist: "distinct (xs @ b # ys)" using alloc_distinct [OF lay] assms(3) by simp
  have ends: "buffer_end a' = buffer_end a" "binder_buffer_size a' = binder_buffer_size a"
    "alloc_end a' = alloc_end a" "buffers a' = buffers a"
    using assms(6) by simp_all
  have bs: "bufs a' = (bufs a)(b \<mapsto> h\<lparr>buf_free := True\<rparr>)" using assms(6) by simp
  have other: "bufs a' x = bufs a x" "is_free a' x = is_free a x" "live_end a' x = live_end a x"
    "async_cost a' x = async_cost a x" "fits a' x = fits a x" if "x \<noteq> b" for x
    using that bs ends
    by (simp_all add: is_free_def live_end_def async_cost_def fits_def split: option.split)
  have b: "is_free a' b" "live_end a' b = data_of b" "async_cost a' b = 0" "fits a' b"
    using bs by (simp_all add: is_free_def live_end_def async_cost_def fits_def)
  have "layout_ok a'" using lay assms(6) by (auto simp: layout_ok_def)
  moreover have "pages_ok a'"
  proof -
    have "page_needed a' P \<longleftrightarrow> others_meet a xs P \<or> meets P b (data_of b) \<or> others_meet a ys P" for P
    proof -
      have "c \<noteq> b" if "c \<in> set xs \<or> c \<in> set ys" for c using that dist by auto
      then have "others_meet a' xs P = others_meet a xs P" "others_meet a' ys P = others_meet a ys P"
        using other(3) by (auto intro!: others_meet_cong)
      then show ?thesis using page_needed_mid [of a' xs b ys P] assms(3) ends(4) b(2) by simp
    qed
    then have "pages_are (a\<lparr>pages := ps\<rparr>) (page_needed a')"
      using assms(5) pages_after_release [OF lay assms(3)] hb by (simp add: pages_are_def)
    then show ?thesis using assms(6) by (simp add: pages_ok_alt pages_are_def)
  qed
  moreover have "list_all (fits a') (buffers a')"
    using wf b(4) other(5) ends(4) by (auto simp: list_all_iff) (metis)
  moreover have "async_ok a'"
  proof -
    have "map (async_cost a') (xs @ ys) = map (async_cost a) (xs @ ys)"
      by (rule map_cong [OF refl]) (rule other(4), use dist in auto)
    then have "async_used a = async_cost a b + async_used a'"
      unfolding async_used_def assms(3) ends(4) sum_list_mid b(3) by (simp only: add_0)
    then show ?thesis using wf assms(6) by (simp add: async_ok_def)
  qed
  ultimately have core: "core_ok a'" by (simp add: core_ok_def)
  have mem: "b \<in> set_tree (allocated_buffers a)" "sorted_wrt (<) (inorder (allocated_buffers a))"
    using wf hb by (auto simp: index_ok_def)
  have e: "set_tree (rb_erase k b (allocated_buffers a)) = set_tree (allocated_buffers a) - {b}"
    "sorted_wrt (<) (inorder (rb_erase k b (allocated_buffers a)))"
    using mem rb_erase_index [OF assms(1) mem(1), of id] by (auto simp: strict_sorted_iff)
  have free: "is_free a' = (is_free a)(b := True)" using other(2) b(1) by (simp add: fun_eq_iff)
  have F: "{x \<in> set (buffers a). is_free a x} = {x \<in> set xs \<union> set ys. is_free a' x}"
    "{x \<in> set (buffers a). \<not> is_free a x} - {b} = {x \<in> set (buffers a'). \<not> is_free a' x}"
    using assms(3) hb dist free ends(4) by auto
  have "index_ok a' {x \<in> set xs \<union> set ys. is_free a' x}"
    using wf e ends(2) F assms(6) by (simp add: index_ok_def)
  moreover have "successively (apart a') xs" "successively (apart a') ys"
    using wf assms(3) free dist
    by (auto simp: successively_append_iff successively_Cons elim!: successively_cong_set)
  ultimately show "hole a' xs b ys" using core b(1) assms(3) ends(4) by (simp add: hole_def)
  show "live_map a' = (live_map a)(b := None)"
    using ends other(1) assms(6) by (auto simp: live_map_def fun_eq_iff split: option.splits)
  show "same_mapping a a'" using assms(6) by (simp add: same_mapping_def)
qed

lemma free_range_pages:
  assumes "alloc_wf a" and "live_map a b = Some (h, e)"
  obtains err ps where
    "binder_update_page_range k (a\<lparr>free_async_space := n\<rparr>) False (PAGE_ALIGN (data_of b)) (page_floor e) None
       = Some (err, a\<lparr>free_async_space := n, pages := ps\<rparr>)"
    and "pages_are (a\<lparr>pages := ps\<rparr>)
           (\<lambda>P. page_needed a P \<and> \<not> ((data_of b + 4095) div 4096 \<le> P \<and> P < e div 4096))"
proof -
  let ?a = "a\<lparr>free_async_space := n\<rparr>"
  note hb = live_mapD [OF assms(2)]
  obtain xs ys where split: "buffers a = xs @ b # ys" using hb by (auto simp: in_set_conv_decomp)
  have lay: "layout_ok a" and pok: "pages_ok a" using assms(1) by (simp_all add: alloc_wf_def)
  have m: "mapping_ok ?a" and are: "pages_are ?a (page_needed a)"
    using lay pok by (simp_all add: pages_ok_alt)
  have lo: "first_page ?a \<le> (data_of b + 4095) div 4096" and hi: "e div 4096 \<le> last_page ?a"
    using data_pages_in_mapping [OF lay, of b] hb by simp_all
  have on: "page_needed a P" if "(data_of b + 4095) div 4096 \<le> P" "P < e div 4096" for P
    using page_inside [OF lay split, of P] that hb by (simp add: page_number_iffs)
  obtain err ps where
    "binder_update_page_range k ?a False (4096 * ((data_of b + 4095) div 4096)) (4096 * (e div 4096)) None
       = Some (err, ?a\<lparr>pages := ps\<rparr>)"
    and "pages_are (?a\<lparr>pages := ps\<rparr>)
          (\<lambda>P. page_needed a P \<and> \<not> ((data_of b + 4095) div 4096 \<le> P \<and> P < e div 4096))"
    using update_page_range_unmap_abs [OF m are lo hi on] by blast
  then show ?thesis
    by (intro that [of err ps]) (simp_all add: PAGE_ALIGN_alt page_floor_alt pages_are_def)
qed

theorem free_buf_correct:
  assumes "rb_ok k" and "alloc_wf a" and "live_map a b = Some (h, e)" and "buf_transaction h = None"
  obtains a' where "binder_free_buf k a b = Some a'" and "alloc_wf a'"
    and "live_map a' = (live_map a)(b := None)" and "same_mapping a a'"
proof -
  note hb = live_mapD [OF assms(3)]
  have lay: "layout_ok a" using assms(2) by (simp add: alloc_wf_def)
  obtain xs ys where split: "buffers a = xs @ b # ys" using hb by (auto simp: in_set_conv_decomp)
  note bnd = buffer_end_bounds [OF lay split]
  let ?n = "free_async_space a + async_cost a b"
  obtain err ps where upd:
    "binder_update_page_range k (a\<lparr>free_async_space := ?n\<rparr>) False (PAGE_ALIGN (data_of b)) (page_floor e) None
       = Some (err, a\<lparr>free_async_space := ?n, pages := ps\<rparr>)"
    and are: "pages_are (a\<lparr>pages := ps\<rparr>)
           (\<lambda>P. page_needed a P \<and> \<not> ((data_of b + 4095) div 4096 \<le> P \<and> P < e div 4096))"
    using free_range_pages [OF assms(2,3)] by blast
  define a4 where a4: "a4 = a\<lparr>free_async_space := ?n, pages := ps,
     allocated_buffers := rb_erase k b (allocated_buffers a), bufs := (bufs a)(b \<mapsto> h\<lparr>buf_free := True\<rparr>)\<rparr>"
  note rel = release_hole [OF assms(1,2) split assms(3) are a4]
  obtain a5 ys' where m1: "merge_next_free k a4 b = Some a5" "hole a5 xs b ys'"
    "ys' = [] \<or> \<not> is_free a5 (hd ys')" "live_map a5 = live_map a4" "same_mapping a4 a5"
    using merge_next_free_ok [OF assms(1) rel(1)] by blast
  obtain a6 b' xs' where m2: "merge_prev_free k a5 b = Some (b', a6)" "hole a6 xs' b' ys'"
    "ys' = [] \<or> \<not> is_free a6 (hd ys')" "xs' = [] \<or> \<not> is_free a6 (last xs')"
    "live_map a6 = live_map a5" "same_mapping a5 a6"
    using merge_prev_free_ok [OF assms(1) m1(2,3)] by blast
  obtain a7 where m3: "binder_insert_free_buffer k a6 b' = Some a7" "alloc_wf a7"
    "live_map a7 = live_map a6" "same_mapping a6 a7"
    using insert_free_buffer_ok [OF assms(1) m2(2-4)] by blast
  have size: "data_of b + binder_buffer_size a b = e"
    using bnd(1) hb by (simp add: binder_buffer_size_def)
  have "fits a b" using assms(2) hb by (auto simp: alloc_wf_def list_all_iff)
  then have fit: "buffer_request (buf_data_size h) (buf_offsets_size h) \<le> binder_buffer_size a b"
    using hb by (simp add: fits_def)
  have cost: "async_cost a b = (if async_transaction h
        then buffer_request (buf_data_size h) (buf_offsets_size h) + sizeof_binder_buffer else 0)"
    using hb by (simp add: async_cost_def)
  have upd4: "upd_buffer b (\<lambda>h. h\<lparr>buf_free := True\<rparr>) (a\<lparr>free_async_space := ?n, pages := ps,
       allocated_buffers := rb_erase k b (allocated_buffers a)\<rparr>) = a4"
    using hb a4 by (simp add: upd_buffer_def)
  have range: "\<not> b < buffer a" "\<not> buffer a + buffer_size a < b"
    using bnd(1-3) by (simp_all add: alloc_end_def)
  have "binder_free_buf k a b = Some a7"
    unfolding binder_free_buf_def Let_def size
    using hb fit assms(4) range upd upd4 m1(1) m2(1) m3(1)
    by (cases "async_transaction h") (simp_all add: cost)
  moreover have "same_mapping a a7"
    using rel(3) m1(5) m2(6) m3(4) same_mapping_trans by blast
  ultimately show ?thesis using that m3(2,3) m2(5) m1(4) rel(2) by simp
qed

end
