(* ===== verification/Binder_Alloc_Take.thy ===== *)
theory Binder_Alloc_Take
  imports Binder_Alloc_Ops
begin

text \<open>
  \<open>binder_alloc_buf\<close>: it fails without changing anything, or it takes a best-fitting free
  buffer, splits off what is left when that is worth a header, and keeps the invariant.
\<close>

section \<open>The trees\<close>

lemma insert_allocated_index:
  assumes "rb_ok k" and "\<not> is_free a b" and "\<forall>x\<in>set_tree (allocated_buffers a). \<not> is_free a x"
    and "b \<notin> set_tree (allocated_buffers a)" and "sorted_wrt (<) (inorder (allocated_buffers a))"
  obtains t where "binder_insert_allocated_buffer k a b = Some (a\<lparr>allocated_buffers := t\<rparr>)"
    and "set_tree t = insert b (set_tree (allocated_buffers a))" and "sorted_wrt (<) (inorder t)"
proof -
  obtain t where "allocated_tree_link a b (allocated_buffers a) = Some t"
    "set_tree t = insert b (set_tree (allocated_buffers a))" "sorted_wrt (<) (inorder t)"
    using allocated_tree_link_spec [OF assms(3-5)] by blast
  then show ?thesis
    using assms(1,2) by (intro that [of "rb_insert_color k b t"])
      (simp_all add: binder_insert_allocated_buffer_def)
qed

section \<open>The shape of the state after taking a buffer\<close>

text \<open>
  \<open>taken a xs b ys sz split hdr a'\<close>: \<open>a'\<close> is \<open>a\<close> with the free buffer \<open>b\<close> handed out for
  \<open>sz\<close> bytes under the header \<open>hdr\<close>, and a free header behind it when \<open>split\<close>.
\<close>

definition taken :: "binder_alloc \<Rightarrow> addr list \<Rightarrow> addr \<Rightarrow> addr list \<Rightarrow> nat \<Rightarrow> bool
    \<Rightarrow> binder_buffer \<Rightarrow> binder_alloc \<Rightarrow> bool" where
  "taken a xs b ys sz split hdr a' \<longleftrightarrow>
     buffers a = xs @ b # ys \<and> is_free a b
     \<and> buffers a' = xs @ b # (if split then [data_of b + sz] else []) @ ys
     \<and> bufs a' b = Some hdr \<and> \<not> buf_free hdr
     \<and> (split \<longrightarrow> is_free a' (data_of b + sz))
     \<and> (\<forall>x. x \<noteq> b \<and> (split \<longrightarrow> x \<noteq> data_of b + sz) \<longrightarrow> bufs a' x = bufs a x)
     \<and> same_mapping a a'
     \<and> sz mod 8 = 0 \<and> sz \<le> binder_buffer_size a b
     \<and> (if split then sz + sizeof_binder_buffer + 4 < binder_buffer_size a b
        else binder_buffer_size a b \<le> sz + sizeof_binder_buffer + 4)"

lemma taken_bounds:
  assumes "layout_ok a" and "taken a xs b ys sz split hdr a'"
  shows "data_of b + sz \<le> buffer_end a b"
    and "split \<Longrightarrow> data_of b + sz + 84 < buffer_end a b"
    and "\<not> split \<Longrightarrow> buffer_end a b \<le> data_of b + sz + 84"
    and "split \<Longrightarrow> data_of b + sz \<notin> set xs \<union> set ys \<union> {b}"
    and "alloc_end a' = alloc_end a"
proof -
  note t = assms(2) [unfolded taken_def]
  have split: "buffers a = xs @ b # ys" using t by simp
  note bnd = buffer_end_bounds [OF assms(1) split]
  show le: "data_of b + sz \<le> buffer_end a b"
    and sp: "split \<Longrightarrow> data_of b + sz + 84 < buffer_end a b"
    and "\<not> split \<Longrightarrow> buffer_end a b \<le> data_of b + sz + 84"
    using t bnd(1) by (auto simp: binder_buffer_size_def)
  show "data_of b + sz \<notin> set xs \<union> set ys \<union> {b}" if "split"
  proof -
    have "x \<le> b" if "x \<in> set xs" for x
      using bnd(4) [OF that] live_end_bounds [OF assms(1), of x] that split by auto
    then show ?thesis using sp that bnd(5) by fastforce
  qed
  show "alloc_end a' = alloc_end a" using t by (simp add: same_mapping_def alloc_end_def)
qed

lemma taken_layout:
  assumes "layout_ok a" and "taken a xs b ys sz split hdr a'"
  shows "layout_ok a'"
proof -
  note t = assms(2) [unfolded taken_def] and tb = taken_bounds [OF assms]
  have buf: "buffers a = xs @ b # ys" using t by simp
  note bnd = buffer_end_bounds [OF assms(1) buf]
  have srt: "sorted_wrt (\<lambda>x y. data_of x \<le> y) (buffers a' @ [alloc_end a'])"
  proof (cases split)
    case True
    have "sorted_wrt (\<lambda>x y. data_of x \<le> y) (xs @ b # ys @ [alloc_end a])"
      using assms(1) buf by (simp add: layout_ok_def)
    moreover have "data_of (data_of b + sz) \<le> y" if "y \<in> set ys \<union> {alloc_end a}" for y
      using that tb(2) [OF True] bnd(2,5) by fastforce
    ultimately show ?thesis
      using t True tb(5) by (auto simp: sorted_wrt_append)
  next
    case False
    then show ?thesis using assms(1) t tb(5) by (simp add: layout_ok_def)
  qed
  have "b mod 8 = 0" using assms(1) buf by (simp add: layout_ok_def)
  then have "(data_of b + sz) mod 8 = 0" using t by (simp add: mod_eq_0_iff_dvd)
  moreover have "bufs a' x \<noteq> None" if "x \<in> set xs \<union> set ys" for x
    using that t assms(1) by (cases "x = b \<or> split \<and> x = data_of b + sz")
      (auto simp: layout_ok_def is_free_def split: option.splits)
  ultimately show ?thesis
    using srt assms(1) t tb(5)
    by (cases xs) (auto simp: layout_ok_def same_mapping_def is_free_def split: option.splits if_splits)
qed

lemma taken_ends:
  assumes "layout_ok a" and "taken a xs b ys sz split hdr a'"
  shows "x \<in> set xs \<union> set ys \<Longrightarrow> buffer_end a' x = buffer_end a x"
    and "buffer_end a' b = (if split then data_of b + sz else buffer_end a b)"
    and "split \<Longrightarrow> buffer_end a' (data_of b + sz) = buffer_end a b"
    and "x \<in> set xs \<union> set ys \<Longrightarrow> bufs a' x = bufs a x"
proof -
  note t = assms(2) [unfolded taken_def] and tb = taken_bounds [OF assms]
  let ?mid = "if split then [data_of b + sz] else []"
  have d: "distinct (buffers a)" "distinct (buffers a')"
    using alloc_distinct assms(1) taken_layout [OF assms] by auto
  have b: "buffers a = xs @ b # ys" "buffers a' = xs @ b # ?mid @ ys" using t by simp_all
  show "buffer_end a' x = buffer_end a x" if "x \<in> set xs \<union> set ys"
  proof (cases "x \<in> set xs")
    case True
    then show ?thesis using buffer_end_before b d by metis
  next
    case False
    then show ?thesis
      using that b d tb(5) buffer_end_after [of a "xs @ [b]" ys a' "xs @ b # ?mid" x] by simp
  qed
  show "buffer_end a' b = (if split then data_of b + sz else buffer_end a b)"
    using buffer_end_mid [OF b(1) d(1)] buffer_end_mid [OF b(2) d(2)] tb(5) by simp
  show "buffer_end a' (data_of b + sz) = buffer_end a b" if split
    using that buffer_end_mid [OF b(1) d(1)] buffer_end_mid [of a' "xs @ [b]" "data_of b + sz" ys] b(2) d(2) tb(5)
    by simp
  show "bufs a' x = bufs a x" if "x \<in> set xs \<union> set ys"
  proof -
    have "x \<noteq> b" "split \<longrightarrow> x \<noteq> data_of b + sz" using that tb(4) d(1) b(1) by auto
    then show ?thesis using t by blast
  qed
qed

text \<open>The pages that were mapped for the request are the ones its new shape needs.\<close>

lemma taken_pages:
  assumes "layout_ok a" and "taken a xs b ys sz split hdr a'"
  shows "page_needed a' P \<longleftrightarrow>
    others_meet a xs P \<or> meets P b (data_of b + (if split then sz + sizeof_binder_buffer else sz))
      \<or> others_meet a ys P"
proof -
  note t = assms(2) [unfolded taken_def] and tb = taken_bounds [OF assms] and te = taken_ends [OF assms]
  let ?mid = "if split then [data_of b + sz] else []"
  have live: "live_end a' x = live_end a x" if "x \<in> set xs \<union> set ys" for x
    using te(1,4) [OF that] by (simp add: live_end_def is_free_def)
  have oth: "others_meet a' xs P = others_meet a xs P" "others_meet a' ys P = others_meet a ys P"
    using live by (auto intro!: others_meet_cong)
  have liveb: "live_end a' b = buffer_end a' b" using t by (simp add: live_end_def is_free_def)
  have need: "page_needed a' P \<longleftrightarrow> others_meet a xs P \<or> meets P b (buffer_end a' b)
      \<or> others_meet a' (?mid @ ys) P"
    using page_needed_mid [of a' xs b "?mid @ ys" P] t oth liveb by simp
  show ?thesis
  proof (cases split)
    case True
    then have "live_end a' (data_of b + sz) = data_of (data_of b + sz)"
      using t by (simp add: live_end_def)
    moreover have "meets P b (data_of b + sz) \<or> meets P (data_of b + sz) (data_of (data_of b + sz))
        \<longleftrightarrow> meets P b (data_of b + (sz + sizeof_binder_buffer))"
      by (auto simp: meets_def)
    ultimately show ?thesis using need True oth te(2) by auto
  next
    case False
    have buf: "buffers a = xs @ b # ys" using t by simp
    have "others_meet a ys P" if "meets P b (buffer_end a b)" "\<not> meets P b (data_of b + sz)"
      by (rule page_straddles_end [OF assms(1) buf])
        (use that tb(1) tb(3) [OF False] in \<open>auto simp: meets_def\<close>)
    moreover have "meets P b (data_of b + sz) \<Longrightarrow> meets P b (buffer_end a b)"
      using tb(1) by (auto simp: meets_def)
    ultimately show ?thesis using need False oth te(2) by auto
  qed
qed

lemma taken_wf:
  assumes "alloc_wf a" and "taken a xs b ys sz split hdr a'"
    and "buffer_request (buf_data_size hdr) (buf_offsets_size hdr) = sz"
    and "free_async_space a = free_async_space a' + async_cost a' b"
    and "pages_are a' (\<lambda>P. others_meet a xs P
           \<or> meets P b (data_of b + (if split then sz + sizeof_binder_buffer else sz)) \<or> others_meet a ys P)"
    and "index_ok a' {x \<in> set (buffers a'). is_free a' x}"
  shows "alloc_wf a'"
    and "live_map a' = (live_map a)(b \<mapsto> (hdr, if split then data_of b + sz else buffer_end a b))"
proof -
  note wf = assms(1) [unfolded alloc_wf_alt core_ok_def]
  have lay: "layout_ok a" using wf by simp
  note t = assms(2) [unfolded taken_def] and tb = taken_bounds [OF lay assms(2)]
    and te = taken_ends [OF lay assms(2)]
  let ?mid = "if split then [data_of b + sz] else []"
  have buf: "buffers a = xs @ b # ys" "buffers a' = xs @ b # ?mid @ ys" using t by simp_all
  have free: "is_free a' x = is_free a x" "async_cost a' x = async_cost a x" "fits a' x = fits a x"
    if "x \<in> set xs \<union> set ys" for x
    using te(1,4) [OF that]
    by (simp_all add: is_free_def async_cost_def fits_def binder_buffer_size_def split: option.split)
  have mid: "is_free a' x" "async_cost a' x = 0" "fits a' x" if "x \<in> set ?mid" for x
    using that t by (auto simp: is_free_def async_cost_def fits_def split: option.splits if_splits)
  have b: "\<not> is_free a' b" "fits a' b" "async_cost a b = 0"
    using t tb(1) te(2) assms(3)
    by (auto simp: is_free_def fits_def binder_buffer_size_def async_cost_def split: option.splits)
  have "pages_ok a'"
    using assms(5) taken_pages [OF lay assms(2)] by (simp add: pages_ok_alt pages_are_def)
  moreover have "list_all (fits a') (buffers a')"
    using wf free(3) mid(3) b(2) buf by (auto simp: list_all_iff)
  moreover have "async_ok a'"
  proof -
    have "map (async_cost a') (xs @ ys) = map (async_cost a) (xs @ ys)"
      by (rule map_cong [OF refl]) (rule free(2), auto)
    moreover have "sum_list (map (async_cost a') (xs @ ?mid @ ys)) = sum_list (map (async_cost a') (xs @ ys))"
      using mid(2) by simp
    ultimately have "async_used a' = async_cost a' b + async_used a"
      unfolding async_used_def buf sum_list_mid b(3) by (simp only: add_0)
    then show ?thesis using wf assms(4) t by (simp add: async_ok_def same_mapping_def)
  qed
  moreover have "successively (apart a') (buffers a')"
  proof -
    have s: "successively (apart a) xs" "successively (apart a) ys" "ys = [] \<or> \<not> is_free a (hd ys)"
      using wf buf(1) t by (auto simp: successively_append_iff successively_Cons)
    then have "successively (apart a') xs" "successively (apart a') ys" "ys = [] \<or> \<not> is_free a' (hd ys)"
      using free(1) by (auto elim!: successively_cong_set)
    then show ?thesis using buf(2) b(1) by (auto simp: successively_append_iff successively_Cons)
  qed
  ultimately show "alloc_wf a'"
    using taken_layout [OF lay assms(2)] assms(6) by (simp add: alloc_wf_alt core_ok_def)
  show "live_map a' = (live_map a)(b \<mapsto> (hdr, if split then data_of b + sz else buffer_end a b))"
  proof
    fix x
    consider "x \<in> set xs \<union> set ys" "x \<noteq> b" | "x = b" | "x \<in> set ?mid" "x \<noteq> b" "x \<notin> set xs \<union> set ys"
      | "x \<notin> set xs \<union> set ys" "x \<noteq> b" "x \<notin> set ?mid" by blast
    then show "live_map a' x = ((live_map a)(b \<mapsto> (hdr, if split then data_of b + sz else buffer_end a b))) x"
    proof cases
      case 1
      have "x \<in> set (buffers a)" "x \<in> set (buffers a')" using 1 buf by auto
      then show ?thesis using 1(2) te(1,4) [OF 1(1)] by (simp add: live_map_def split: option.split)
    next
      case 2
      then show ?thesis using te(2) t by (simp add: live_map_def)
    next
      case 3
      then show ?thesis using mid(1) [OF 3(1)] buf by (auto simp: live_map_def is_free_def split: option.splits)
    next
      case 4
      then show ?thesis using buf by (auto simp: live_map_def)
    qed
  qed
qed

section \<open>Taking a free buffer\<close>

lemma index_ok_cong:
  assumes "index_ok a F" and "buffers a' = buffers a" and "is_free a' = is_free a"
    and "buffer a' = buffer a" and "buffer_size a' = buffer_size a"
    and "free_buffers a' = free_buffers a" and "allocated_buffers a' = allocated_buffers a"
  shows "index_ok a' F"
proof -
  have "binder_buffer_size a' = binder_buffer_size a"
    using assms(2,4,5) by (simp add: binder_buffer_size_def buffer_end_def fun_eq_iff split: option.split)
  then show ?thesis using assms by (simp add: index_ok_def)
qed

text \<open>The chosen buffer moves from the free tree to the allocated tree.\<close>

lemma take_move_trees:
  assumes "rb_ok k" and "layout_ok a" and "index_ok a {x \<in> set (buffers a). is_free a x}"
    and "b \<in> set (buffers a)" and "bufs a b = Some h" and "buf_free h"
  obtains t u where
    "binder_insert_allocated_buffer k (upd_buffer b (\<lambda>h. h\<lparr>buf_free := False\<rparr>)
        (a\<lparr>free_buffers := rb_erase k b (free_buffers a)\<rparr>)) b
      = Some (a\<lparr>free_buffers := t, bufs := (bufs a)(b \<mapsto> h\<lparr>buf_free := False\<rparr>), allocated_buffers := u\<rparr>)"
    and "index_ok (a\<lparr>free_buffers := t, bufs := (bufs a)(b \<mapsto> h\<lparr>buf_free := False\<rparr>), allocated_buffers := u\<rparr>)
      {x \<in> set (buffers a). is_free a x \<and> x \<noteq> b}"
proof -
  note idx = assms(3) [unfolded index_ok_def]
  have free: "is_free a b" using assms(5,6) by (simp add: is_free_def)
  have mem: "b \<in> set_tree (free_buffers a)" using idx assms(4) free by simp
  let ?t = "rb_erase k b (free_buffers a)"
  let ?a = "a\<lparr>free_buffers := ?t, bufs := (bufs a)(b \<mapsto> h\<lparr>buf_free := False\<rparr>)\<rparr>"
  have upd: "upd_buffer b (\<lambda>h. h\<lparr>buf_free := False\<rparr>) (a\<lparr>free_buffers := ?t\<rparr>) = ?a"
    using assms(5) by (simp add: upd_buffer_def)
  have isf: "is_free ?a = (is_free a)(b := False)" by (simp add: is_free_def fun_eq_iff)
  obtain u where u: "binder_insert_allocated_buffer k ?a b = Some (?a\<lparr>allocated_buffers := u\<rparr>)"
    "set_tree u = insert b (set_tree (allocated_buffers ?a))" "sorted_wrt (<) (inorder u)"
    by (rule insert_allocated_index [OF assms(1), of ?a b]) (use idx isf free in auto)
  note e = rb_erase_index [OF assms(1) mem, of "binder_buffer_size a"]
  have isf': "is_free (?a\<lparr>allocated_buffers := u\<rparr>) = (is_free a)(b := False)" using isf by simp
  have "index_ok (?a\<lparr>allocated_buffers := u\<rparr>) {x \<in> set (buffers a). is_free a x \<and> x \<noteq> b}"
    unfolding index_ok_def isf' using idx e u(2,3) assms(4) free by auto
  then show ?thesis using that [of u ?t] u(1) upd by simp
qed

lemma take_free_buffer_ok:
  assumes "rb_ok k" and "layout_ok a" and "index_ok a {x \<in> set (buffers a). is_free a x}"
    and "buffers a = xs @ b # ys" and "bufs a b = Some h" and "buf_free h"
    and "sz mod 8 = 0" and "sz \<le> binder_buffer_size a b"
    and "if split then sz + sizeof_binder_buffer + 4 < binder_buffer_size a b
         else binder_buffer_size a b \<le> sz + sizeof_binder_buffer + 4"
  obtains a' where "take_free_buffer k a b sz split = Some a'"
    and "taken a xs b ys sz split (h\<lparr>buf_free := False\<rparr>) a'"
    and "index_ok a' {x \<in> set (buffers a'). is_free a' x}"
    and "pages a' = pages a" and "free_async_space a' = free_async_space a"
proof -
  have free: "is_free a b" using assms(5,6) by (simp add: is_free_def)
  have mem: "b \<in> set (buffers a)" using assms(4) by simp
  obtain t u where ins:
    "binder_insert_allocated_buffer k (upd_buffer b (\<lambda>h. h\<lparr>buf_free := False\<rparr>)
        (a\<lparr>free_buffers := rb_erase k b (free_buffers a)\<rparr>)) b
      = Some (a\<lparr>free_buffers := t, bufs := (bufs a)(b \<mapsto> h\<lparr>buf_free := False\<rparr>), allocated_buffers := u\<rparr>)"
    and idx: "index_ok (a\<lparr>free_buffers := t, bufs := (bufs a)(b \<mapsto> h\<lparr>buf_free := False\<rparr>), allocated_buffers := u\<rparr>)
      {x \<in> set (buffers a). is_free a x \<and> x \<noteq> b}"
    using take_move_trees [OF assms(1-3) mem assms(5,6)] by blast
  let ?a3 = "a\<lparr>free_buffers := t, bufs := (bufs a)(b \<mapsto> h\<lparr>buf_free := False\<rparr>), allocated_buffers := u\<rparr>"
  let ?F = "{x \<in> set (buffers a). is_free a x \<and> x \<noteq> b}"
  have dist: "distinct (xs @ b # ys)" using alloc_distinct [OF assms(2)] assms(4) by simp
  have isf: "is_free ?a3 = (is_free a)(b := False)" by (simp add: is_free_def fun_eq_iff)
  show ?thesis
  proof (cases split)
    case False
    have "take_free_buffer k a b sz split = Some ?a3"
      using ins False by (simp add: take_free_buffer_def)
    moreover have "taken a xs b ys sz split (h\<lparr>buf_free := False\<rparr>) ?a3"
      using assms False free by (simp add: taken_def same_mapping_def)
    moreover have "{x \<in> set (buffers ?a3). is_free ?a3 x} = ?F" unfolding isf by auto
    ultimately show ?thesis using that idx by simp
  next
    case True
    let ?n = "data_of b + sz"
    let ?bufs = "(bufs ?a3)(?n \<mapsto> (stale_header k ?n)\<lparr>buf_free := True\<rparr>)"
    let ?a4 = "?a3\<lparr>buffers := xs @ b # ?n # ys, bufs := ?bufs\<rparr>"
    have tk: "taken a xs b ys sz split (h\<lparr>buf_free := False\<rparr>) (?a4\<lparr>free_buffers := v\<rparr>)" for v
      using assms True free by (auto simp: taken_def same_mapping_def is_free_def)
    note tb = taken_bounds(4) [OF assms(2) tk [of t] True] and te = taken_ends(1) [OF assms(2) tk [of t]]
    have isf4: "is_free ?a4 = (is_free a)(b := False, ?n := True)" by (simp add: is_free_def fun_eq_iff)
    have sz4: "binder_buffer_size ?a4 x = binder_buffer_size ?a3 x" if "x \<in> ?F" for x
    proof -
      have same: "?a4\<lparr>free_buffers := t\<rparr> = ?a4" by simp
      have "x \<in> set xs \<union> set ys" using that assms(4) by auto
      then have "buffer_end ?a4 x = buffer_end a x" using te [unfolded same] by blast
      moreover have "buffer_end ?a3 x = buffer_end a x" by simp
      ultimately show ?thesis unfolding binder_buffer_size_def by (simp only:)
    qed
    have "sorted (map (binder_buffer_size ?a4) (inorder t))"
      by (rule sorted_map_cong [of "binder_buffer_size ?a3"]) (use idx sz4 in \<open>auto simp: index_ok_def\<close>)
    moreover have "{x \<in> set (buffers ?a4). \<not> is_free ?a4 x} = {x \<in> set (buffers ?a3). \<not> is_free ?a3 x}"
      unfolding isf4 isf using assms(4) tb by auto
    ultimately have idx4: "index_ok ?a4 ?F" using idx by (simp add: index_ok_def)
    obtain v where v: "binder_insert_free_buffer k ?a4 ?n = Some (?a4\<lparr>free_buffers := v\<rparr>)"
      "index_ok (?a4\<lparr>free_buffers := v\<rparr>) (insert ?n ?F)"
      by (rule insert_free_index [OF assms(1) idx4, of ?n]) (use tb assms(4) isf4 in auto)
    have "insert ?n ?F = {x \<in> set (buffers (?a4\<lparr>free_buffers := v\<rparr>)). is_free (?a4\<lparr>free_buffers := v\<rparr>) x}"
      unfolding is_free_frame(1) isf4 using assms(4) tb by auto
    then have "index_ok (?a4\<lparr>free_buffers := v\<rparr>)
        {x \<in> set (buffers (?a4\<lparr>free_buffers := v\<rparr>)). is_free (?a4\<lparr>free_buffers := v\<rparr>) x}"
      using v(2) by (simp only:)
    moreover have "take_free_buffer k a b sz split = Some (?a4\<lparr>free_buffers := v\<rparr>)"
      using ins v True assms(4) dist by (simp add: take_free_buffer_def list_insert_after_mid Let_def)
    ultimately show ?thesis using that [OF _ tk [of v]] by simp
  qed
qed

section \<open>Allocating\<close>

text \<open>Giving the taken buffer its sizes and its kind.\<close>

lemma taken_header:
  assumes "taken a xs b ys sz split hdr a2" and "index_ok a2 {x \<in> set (buffers a2). is_free a2 x}"
    and "\<not> buf_free (f hdr)" and "a3 = (upd_buffer b f a2)\<lparr>free_async_space := n\<rparr>"
  shows "taken a xs b ys sz split (f hdr) a3" and "index_ok a3 {x \<in> set (buffers a3). is_free a3 x}"
    and "pages a3 = pages a2"
proof -
  note t = assms(1) [unfolded taken_def]
  have a3: "a3 = a2\<lparr>bufs := (bufs a2)(b \<mapsto> f hdr), free_async_space := n\<rparr>"
    using t assms(4) by (simp add: upd_buffer_def)
  have isf: "is_free a3 = is_free a2"
    using t assms(3) by (simp add: a3 is_free_def fun_eq_iff)
  show "taken a xs b ys sz split (f hdr) a3"
    using t assms(3) isf by (auto simp: taken_def a3 same_mapping_def)
  show "index_ok a3 {x \<in> set (buffers a3). is_free a3 x}"
    by (rule index_ok_cong [of a2]) (use assms(2) isf a3 in simp_all)
  show "pages a3 = pages a2" using a3 by simp
qed

lemma taken_frame [simp]: "taken (a\<lparr>pages := ps\<rparr>) = taken a"
  by (simp add: taken_def fun_eq_iff same_mapping_def)

lemma take_range_pages:
  assumes "alloc_wf a" and "buffers a = xs @ b # ys" and "is_free a b" and "n \<le> binder_buffer_size a b"
  obtains (ok) ps where
    "binder_update_page_range k a True (PAGE_ALIGN (data_of b))
        (min (PAGE_ALIGN (data_of b + n)) (page_floor (data_of b + binder_buffer_size a b))) None
      = Some (0, a\<lparr>pages := ps\<rparr>)"
    and "pages_are (a\<lparr>pages := ps\<rparr>)
      (\<lambda>P. others_meet a xs P \<or> meets P b (data_of b + n) \<or> others_meet a ys P)"
  | (failed) "binder_update_page_range k a True (PAGE_ALIGN (data_of b))
        (min (PAGE_ALIGN (data_of b + n)) (page_floor (data_of b + binder_buffer_size a b))) None
      = Some (- ENOMEM, a)"
proof -
  have lay: "layout_ok a" and pok: "pages_ok a" using assms(1) by (simp_all add: alloc_wf_def)
  note bnd = buffer_end_bounds [OF lay assms(2)]
  have size: "data_of b + binder_buffer_size a b = buffer_end a b"
    using bnd(1) by (simp add: binder_buffer_size_def)
  let ?S = "(data_of b + 4095) div 4096"
  let ?E = "min ((data_of b + n + 4095) div 4096) (buffer_end a b div 4096)"
  have E: "min (PAGE_ALIGN (data_of b + n)) (page_floor (buffer_end a b)) = 4096 * ?E"
    unfolding PAGE_ALIGN_alt page_floor_alt by (simp add: min_def)
  have lo: "first_page a \<le> ?S" and hi: "?E \<le> last_page a"
    using data_pages_in_mapping [OF lay, of b] assms(2) by (auto simp: min.coboundedI2)
  have off: "\<not> page_needed a P" if "?S \<le> P" "P < ?E" for P
    using page_inside [OF lay assms(2), of P] that assms(3) by (simp add: page_number_iffs)
  have are: "pages_are a (page_needed a)" using pok by (simp add: pages_ok_alt)
  have n: "data_of b + n \<le> buffer_end a b" using assms(4) size by linarith
  have "(\<exists>ps. binder_update_page_range k a True (4096 * ?S) (4096 * ?E) None = Some (0, a\<lparr>pages := ps\<rparr>)
            \<and> pages_are (a\<lparr>pages := ps\<rparr>) (\<lambda>P. page_needed a P \<or> ?S \<le> P \<and> P < ?E))
       \<or> binder_update_page_range k a True (4096 * ?S) (4096 * ?E) None = Some (- ENOMEM, a)"
    using update_page_range_map_abs [OF layout_mapping [OF lay] are lo hi off] by blast
  then have "(\<exists>ps. binder_update_page_range k a True (PAGE_ALIGN (data_of b))
          (min (PAGE_ALIGN (data_of b + n)) (page_floor (data_of b + binder_buffer_size a b))) None
            = Some (0, a\<lparr>pages := ps\<rparr>)
        \<and> pages_are (a\<lparr>pages := ps\<rparr>) (\<lambda>P. page_needed a P \<or> ?S \<le> P \<and> P < ?E))
      \<or> binder_update_page_range k a True (PAGE_ALIGN (data_of b))
          (min (PAGE_ALIGN (data_of b + n)) (page_floor (data_of b + binder_buffer_size a b))) None
            = Some (- ENOMEM, a)"
    unfolding size E PAGE_ALIGN_alt [of "data_of b"] .
  then show ?thesis
    unfolding pages_after_take [OF lay assms(2,3) n] using ok failed by blast
qed

text \<open>The header that a successful allocation leaves behind.\<close>

definition taken_hdr :: "binder_buffer \<Rightarrow> nat \<Rightarrow> nat \<Rightarrow> bool \<Rightarrow> binder_buffer" where
  "taken_hdr h data_sz offsets_sz is_async =
     h\<lparr>buf_free := False, buf_data_size := data_sz, buf_offsets_size := offsets_sz,
       async_transaction := is_async\<rparr>"

text \<open>The last part of \<open>binder_alloc_buf\<close>, once \<open>best_fit\<close> is known.\<close>

lemma alloc_from_best_fit:
  fixes exact :: bool
  assumes "rb_ok k" and "alloc_wf a" and "b \<in> set (buffers a)" and "bufs a b = Some h" and "buf_free h"
    and "sz = buffer_request data_sz offsets_sz"
    and "if exact then sz = binder_buffer_size a b else sz < binder_buffer_size a b"
    and "is_async \<Longrightarrow> sz + sizeof_binder_buffer \<le> free_async_space a"
    and "n = (if exact then binder_buffer_size a b
              else if sz + sizeof_binder_buffer + 4 \<ge> binder_buffer_size a b then sz
              else sz + sizeof_binder_buffer)"
    and "binder_update_page_range k a True (PAGE_ALIGN (data_of b))
        (min (PAGE_ALIGN (data_of b + n)) (page_floor (data_of b + binder_buffer_size a b))) None
      = Some (0, a1)"
  obtains a2 a3 e where "take_free_buffer k a1 b sz (n \<noteq> sz) = Some a2"
    and "a3 = (upd_buffer b (\<lambda>h. h\<lparr>buf_data_size := data_sz, buf_offsets_size := offsets_sz,
                 async_transaction := is_async\<rparr>) a2)
               \<lparr>free_async_space := free_async_space a2 - (if is_async then sz + sizeof_binder_buffer else 0)\<rparr>"
    and "alloc_wf a3" and "live_map a3 = (live_map a)(b \<mapsto> (taken_hdr h data_sz offsets_sz is_async, e))"
    and "data_of b + sz \<le> e" and "e \<le> buffer_end a b" and "same_mapping a a3"
proof -
  obtain xs ys where buf: "buffers a = xs @ b # ys" using assms(3) by (auto simp: in_set_conv_decomp)
  have free: "is_free a b" using assms(4,5) by (simp add: is_free_def)
  have lay: "layout_ok a" and idx: "index_ok a {x \<in> set (buffers a). is_free a x}"
    using assms(2) by (simp_all add: alloc_wf_alt core_ok_def)
  define split where split: "split \<longleftrightarrow> n \<noteq> sz"
  have n: "n \<le> binder_buffer_size a b" "n = (if split then sz + sizeof_binder_buffer else sz)"
    and sp: "sz \<le> binder_buffer_size a b" "if split then sz + sizeof_binder_buffer + 4 < binder_buffer_size a b
        else binder_buffer_size a b \<le> sz + sizeof_binder_buffer + 4"
    using assms(7,9) split by (auto split: if_splits)
  obtain ps where a1: "a1 = a\<lparr>pages := ps\<rparr>"
    and are: "pages_are (a\<lparr>pages := ps\<rparr>)
      (\<lambda>P. others_meet a xs P \<or> meets P b (data_of b + n) \<or> others_meet a ys P)"
    using take_range_pages [OF assms(2) buf free n(1), of k] assms(10) by auto
  have mod8: "sz mod 8 = 0" using assms(6) by simp
  obtain a2 where a2: "take_free_buffer k a1 b sz split = Some a2"
    "taken a xs b ys sz split (h\<lparr>buf_free := False\<rparr>) a2"
    "index_ok a2 {x \<in> set (buffers a2). is_free a2 x}" "pages a2 = ps"
    "free_async_space a2 = free_async_space a"
    by (rule take_free_buffer_ok [OF assms(1), of a1 xs b ys h sz split])
      (use lay idx buf assms(4,5) sp mod8 in \<open>auto simp: a1 index_ok_def\<close>)
  let ?f = "\<lambda>h. h\<lparr>buf_data_size := data_sz, buf_offsets_size := offsets_sz, async_transaction := is_async\<rparr>"
  let ?c = "if is_async then sz + sizeof_binder_buffer else 0"
  define a3 where a3: "a3 = (upd_buffer b ?f a2)\<lparr>free_async_space := free_async_space a2 - ?c\<rparr>"
  note th = taken_header [OF a2(2,3), of ?f, OF _ a3, simplified]
  have hdr: "?f (h\<lparr>buf_free := False\<rparr>) = taken_hdr h data_sz offsets_sz is_async"
    by (simp add: taken_hdr_def)
  have tk: "taken a xs b ys sz split (taken_hdr h data_sz offsets_sz is_async) a3"
    using th(1) hdr by simp
  have req: "buffer_request (buf_data_size (taken_hdr h data_sz offsets_sz is_async))
      (buf_offsets_size (taken_hdr h data_sz offsets_sz is_async)) = sz"
    using assms(6) by (simp add: taken_hdr_def)
  have cost: "async_cost a3 b = ?c"
    using tk req by (simp add: taken_def async_cost_def taken_hdr_def)
  have space: "free_async_space a = free_async_space a3 + async_cost a3 b"
    unfolding cost using a3 a2(5) assms(8) by simp
  have sm: "same_mapping a a3" using tk by (simp add: taken_def)
  have pa: "pages_are a3 (\<lambda>P. others_meet a xs P
           \<or> meets P b (data_of b + (if split then sz + sizeof_binder_buffer else sz)) \<or> others_meet a ys P)"
    using are n(2) th(3) a2(4) sm by (simp add: pages_are_def same_mapping_def)
  note fin = taken_wf [OF assms(2) tk req space pa th(2)]
  show ?thesis
    by (rule that [OF a2(1) [unfolded split] a3 fin])
      (use taken_bounds(1) [OF lay tk] sm in auto)
qed

lemma best_fit_cases:
  assumes "alloc_wf a"
  obtains (none) "best_fit_search a sz None (free_buffers a) = Some (None, False)"
      and "\<forall>c\<in>set (buffers a). is_free a c \<longrightarrow> binder_buffer_size a c < sz"
  | (found) b h exact where "best_fit_search a sz None (free_buffers a) = Some (Some b, exact)"
      and "b \<in> set (buffers a)" and "bufs a b = Some h" and "buf_free h"
      and "if exact then sz = binder_buffer_size a b else sz < binder_buffer_size a b"
      and "\<forall>c\<in>set (buffers a). is_free a c \<and> sz \<le> binder_buffer_size a c \<longrightarrow>
             binder_buffer_size a b \<le> binder_buffer_size a c"
proof -
  have idx: "set_tree (free_buffers a) = {x \<in> set (buffers a). is_free a x}"
    "sorted (map (binder_buffer_size a) (inorder (free_buffers a)))"
    using assms by (simp_all add: alloc_wf_alt index_ok_def)
  have hdr: "\<exists>h. bufs a x = Some h \<and> buf_free h" if "is_free a x" for x
    using that by (auto simp: is_free_def split: option.splits)
  have "\<forall>x\<in>set_tree (free_buffers a). is_free a x" using idx(1) by simp
  from best_fit_search_spec [OF this idx(2), of sz None]
  consider (e) x where "x \<in> set_tree (free_buffers a)" "binder_buffer_size a x = sz"
      "best_fit_search a sz None (free_buffers a) = Some (Some x, True)"
    | (l) x where "x \<in> set_tree (free_buffers a)" "sz < binder_buffer_size a x"
      "best_fit_search a sz None (free_buffers a) = Some (Some x, False)"
      "\<forall>y\<in>set_tree (free_buffers a). sz \<le> binder_buffer_size a y \<longrightarrow> binder_buffer_size a x \<le> binder_buffer_size a y"
    | (n) "best_fit_search a sz None (free_buffers a) = Some (None, False)"
      "\<forall>x\<in>set_tree (free_buffers a). binder_buffer_size a x < sz"
    by auto
  then show ?thesis
  proof cases
    case e
    then obtain h where "bufs a x = Some h" "buf_free h" using hdr [of x] idx(1) by blast
    with e idx(1) show ?thesis by (intro found [of x True h]) auto
  next
    case l
    then obtain h where "bufs a x = Some h" "buf_free h" using hdr [of x] idx(1) by blast
    with l idx(1) show ?thesis by (intro found [of x False h]) auto
  next
    case n
    with idx(1) show ?thesis by (intro none) auto
  qed
qed

text \<open>
  What \<open>binder_alloc_buf\<close> returns: nothing, with the state untouched, or a buffer that was
  free, with room for the request, in a state that again satisfies the invariant.
\<close>

lemma free_not_live: "is_free a b \<Longrightarrow> live_map a b = None"
  by (simp add: live_map_None)

lemma alloc_buf_cases:
  assumes "rb_ok k" and "alloc_wf a"
  obtains (refused) "binder_alloc_buf k a data_sz offsets_sz is_async = Some (None, a)"
  | (granted) b h e a' where "binder_alloc_buf k a data_sz offsets_sz is_async = Some (Some b, a')"
      and "alloc_wf a'" and "same_mapping a a'" and "live_map a b = None"
      and "live_map a' = (live_map a)(b \<mapsto> (taken_hdr h data_sz offsets_sz is_async, e))"
      and "bufs a b = Some h" and "is_free a b"
      and "data_sz \<le> buffer_request data_sz offsets_sz" and "offsets_sz \<le> buffer_request data_sz offsets_sz"
      and "data_of b + buffer_request data_sz offsets_sz \<le> e" and "e \<le> buffer_end a b"
      and "\<forall>c\<in>set (buffers a). is_free a c \<and> buffer_request data_sz offsets_sz \<le> binder_buffer_size a c \<longrightarrow>
             binder_buffer_size a b \<le> binder_buffer_size a c"
proof -
  let ?sz = "buffer_request data_sz offsets_sz"
  show ?thesis
  proof (cases "vma a = None \<or> ?sz < data_sz \<or> ?sz < offsets_sz
      \<or> is_async \<and> free_async_space a < (?sz + sizeof_binder_buffer) mod 2 ^ 64")
    case True
    then show ?thesis by (intro refused) (auto simp: binder_alloc_buf_def Let_def)
  next
    case pre: False
    from assms(2) show ?thesis
    proof (cases rule: best_fit_cases [where sz = ?sz])
      case none
      then show ?thesis using pre by (intro refused) (simp add: binder_alloc_buf_def Let_def)
    next
      case (found b h exact)
      obtain xs ys where buf: "buffers a = xs @ b # ys" using found(2) by (auto simp: in_set_conv_decomp)
      have lay: "layout_ok a" using assms(2) by (simp add: alloc_wf_def)
      have free: "is_free a b" using found(3,4) by (simp add: is_free_def)
      note bnd = buffer_end_bounds [OF lay buf]
      have "?sz + sizeof_binder_buffer < 2 ^ 64"
        using found(5) bnd(1,2) lay by (auto simp: layout_ok_def binder_buffer_size_def split: if_splits)
      then have space: "is_async \<Longrightarrow> ?sz + sizeof_binder_buffer \<le> free_async_space a"
        using pre by (simp add: not_less)
      define n where n: "n = (if exact then binder_buffer_size a b
              else if ?sz + sizeof_binder_buffer + 4 \<ge> binder_buffer_size a b then ?sz
              else ?sz + sizeof_binder_buffer)"
      have "n \<le> binder_buffer_size a b" using found(5) n by (auto split: if_splits)
      from assms(2) buf free this show ?thesis
      proof (cases rule: take_range_pages [where k = k])
        case (ok ps)
        obtain a2 a3 e where
          t: "take_free_buffer k (a\<lparr>pages := ps\<rparr>) b ?sz (n \<noteq> ?sz) = Some a2"
          and a3: "a3 = (upd_buffer b (\<lambda>h. h\<lparr>buf_data_size := data_sz, buf_offsets_size := offsets_sz,
                 async_transaction := is_async\<rparr>) a2)
               \<lparr>free_async_space := free_async_space a2 - (if is_async then ?sz + sizeof_binder_buffer else 0)\<rparr>"
          and fin: "alloc_wf a3" "live_map a3 = (live_map a)(b \<mapsto> (taken_hdr h data_sz offsets_sz is_async, e))"
            "data_of b + ?sz \<le> e" "e \<le> buffer_end a b" "same_mapping a a3"
          using alloc_from_best_fit [OF assms found(2-4) refl found(5) space n ok(1)] by blast
        have "free_async_space (upd_buffer b f a2) = free_async_space a2"
          "free_async_space_update g (upd_buffer b f a2) = upd_buffer b f (free_async_space_update g a2)" for f g
          by (simp_all add: upd_buffer_def split: option.split)
        then have "binder_alloc_buf k a data_sz offsets_sz is_async = Some (Some b, a3)"
          unfolding binder_alloc_buf_def Let_def n [symmetric]
          using pre found(1) ok(1) t a3 n by (simp add: Let_def)
        then show ?thesis using granted fin free_not_live [OF free] free found(3,6) pre by (simp add: not_less)
      next
        case failed
        then have "binder_alloc_buf k a data_sz offsets_sz is_async = Some (None, a)"
          using pre found(1) n by (simp add: binder_alloc_buf_def Let_def)
        then show ?thesis by (rule refused)
      qed
    qed
  qed
qed

end
