(* ===== verification/Binder_Mmap.thy ===== *)
theory Binder_Mmap
  imports Binder_Alloc_Take
begin

text \<open>
  \<open>binder_mmap\<close> of \<open>driver/binder/binder.c\<close>, which sets the allocator up, and the states the
  allocator goes through afterwards: an inductive step relation whose reachable states all
  satisfy the invariant. The model is the build without \<open>CONFIG_CPU_CACHE_VIPT\<close>.
\<close>

unbundle bit_operations_syntax

section \<open>Mapping the device\<close>

abbreviation VM_WRITE :: u64 where "VM_WRITE \<equiv> 0x2"
abbreviation VM_MAYWRITE :: u64 where "VM_MAYWRITE \<equiv> 0x20"
abbreviation VM_DONTCOPY :: u64 where "VM_DONTCOPY \<equiv> 0x20000"
abbreviation SZ_4M :: nat where "SZ_4M \<equiv> 0x400000"

record vm_area_struct =
  vm_id :: nat
  vm_start :: addr
  vm_end :: addr
  vm_flags :: u64
  vm_mm :: nat

text \<open>
  The kernel's part: \<open>get_vm_area\<close> returns the address of a kernel range of the given size,
  and \<open>kzalloc_pages\<close> says whether the page array can be had.
\<close>

record kernel_vm = kernel_mm +
  get_vm_area :: "nat \<Rightarrow> addr option"
  kzalloc_pages :: "nat \<Rightarrow> bool"
  get_files_struct :: "nat \<Rightarrow> nat option"

text \<open>The allocator's fields of a \<open>struct binder_proc\<close> right after \<open>kzalloc\<close> in \<open>binder_open\<close>.\<close>

definition zeroed_alloc :: "nat \<Rightarrow> binder_alloc" where
  "zeroed_alloc current = \<lparr>buffer = 0, user_buffer_offset = 0, buffers = [], bufs = Map.empty,
     free_buffers = Leaf, allocated_buffers = Leaf, free_async_space = 0, pages = [],
     buffer_size = 0, vma = None, vma_vm_mm = None, tsk = current\<rparr>"

definition clamp_vma :: "vm_area_struct \<Rightarrow> vm_area_struct" where
  "clamp_vma v = (if vm_end v - vm_start v > SZ_4M then v\<lparr>vm_end := vm_start v + SZ_4M\<rparr> else v)"

text \<open>The part of \<open>binder_mmap\<close> after \<open>proc->buffer\<close> is set; \<open>v\<close> is the clamped area.\<close>

definition mmap_setup ::
  "'k kernel_vm_scheme \<Rightarrow> nat \<Rightarrow> binder_alloc \<Rightarrow> vm_area_struct
    \<Rightarrow> (int \<times> binder_alloc \<times> nat option) option" where
  "mmap_setup k current a v =
     (let n = vm_end v - vm_start v in
      if \<not> kzalloc_pages k (n div PAGE_SIZE) then Some (- ENOMEM, a\<lparr>buffer := 0, pages := []\<rparr>, None)
      else do {
        let a1 = a\<lparr>pages := replicate (n div PAGE_SIZE) False, buffer_size := n\<rparr>;
        (err, a2) \<leftarrow> binder_update_page_range k a1 True (buffer a1) (buffer a1 + PAGE_SIZE)
                       (Some (vm_id v));
        if err \<noteq> 0 then Some (- ENOMEM, a2\<lparr>buffer := 0, pages := []\<rparr>, None)
        else do {
          let b = buffer a2;
          a3 \<leftarrow> binder_insert_free_buffer k
                  (a2\<lparr>buffers := [b], bufs := (bufs a2)(b \<mapsto> fresh_buffer)\<rparr>) b;
          Some (0, a3\<lparr>free_async_space := buffer_size a3 div 2, vma := Some (vm_id v),
                      vma_vm_mm := Some (vm_mm v)\<rparr>, get_files_struct k current) } })"

definition binder_mmap ::
  "'k kernel_vm_scheme \<Rightarrow> nat \<Rightarrow> binder_alloc \<Rightarrow> vm_area_struct
    \<Rightarrow> (int \<times> vm_area_struct \<times> binder_alloc \<times> nat option) option" where
  "binder_mmap k current a v0 =
     (if tsk a \<noteq> current then Some (- EINVAL, v0, a, None)
      else
        let v = clamp_vma v0 in
        if vm_flags v AND VM_WRITE \<noteq> 0 then Some (- EPERM, v, a, None)
        else
          let v' = v\<lparr>vm_flags := (vm_flags v OR VM_DONTCOPY) AND NOT VM_MAYWRITE\<rparr> in
          if buffer a \<noteq> 0 then Some (- EBUSY, v', a, None)
          else (case get_vm_area k (vm_end v' - vm_start v') of
            None \<Rightarrow> Some (- ENOMEM, v', a, None)
          | Some area \<Rightarrow> do {
              (ret, a', files) \<leftarrow> mmap_setup k current
                (a\<lparr>buffer := area, user_buffer_offset := int (vm_start v') - int area\<rparr>) v';
              Some (ret, v', a', files) }))"

text \<open>\<open>binder_vma_close\<close>; the \<open>bool\<close> is the request for \<open>BINDER_DEFERRED_PUT_FILES\<close>.\<close>

definition binder_vma_close :: "binder_alloc \<Rightarrow> bool \<times> binder_alloc" where
  "binder_vma_close a = (True, a\<lparr>vma := None, vma_vm_mm := None\<rparr>)"

text \<open>
  What the memory manager promises: an area is page-aligned and not empty, and the
  kernel range it hands out is page-aligned, not null and inside the address space.
\<close>

definition vma_ok :: "vm_area_struct \<Rightarrow> bool" where
  "vma_ok v \<longleftrightarrow> vm_start v mod 4096 = 0 \<and> vm_end v mod 4096 = 0 \<and> vm_start v < vm_end v"

definition vm_area_ok :: "'k kernel_vm_scheme \<Rightarrow> bool" where
  "vm_area_ok k \<longleftrightarrow> (\<forall>n p. n \<le> SZ_4M \<longrightarrow> get_vm_area k n = Some p
     \<longrightarrow> 0 < p \<and> p mod 4096 = 0 \<and> p + n < 2 ^ 64)"

text \<open>A process that has not mapped the device yet.\<close>

definition unmapped :: "binder_alloc \<Rightarrow> bool" where
  "unmapped a \<longleftrightarrow> buffer a = 0 \<and> free_buffers a = Leaf \<and> allocated_buffers a = Leaf \<and> vma a = None"

lemma unmapped_zeroed: "unmapped (zeroed_alloc t)"
  by (simp add: unmapped_def zeroed_alloc_def)

lemma clamp_vma_span:
  assumes "vma_ok v"
  shows "vma_ok (clamp_vma v)" and "vm_end (clamp_vma v) - vm_start (clamp_vma v) \<le> SZ_4M"
    and "(vm_end (clamp_vma v) - vm_start (clamp_vma v)) mod 4096 = 0"
    and "0 < vm_end (clamp_vma v) - vm_start (clamp_vma v)"
    and "vm_start (clamp_vma v) = vm_start v"
proof -
  have d: "4096 dvd vm_start v" "4096 dvd vm_end v" "vm_start v < vm_end v"
    using assms by (auto simp: vma_ok_def mod_eq_0_iff_dvd)
  then have "4096 dvd (vm_end v - vm_start v)" by (simp add: dvd_diff_nat)
  then show "vma_ok (clamp_vma v)" and "vm_end (clamp_vma v) - vm_start (clamp_vma v) \<le> SZ_4M"
    and "(vm_end (clamp_vma v) - vm_start (clamp_vma v)) mod 4096 = 0"
    and "0 < vm_end (clamp_vma v) - vm_start (clamp_vma v)"
    and "vm_start (clamp_vma v) = vm_start v"
    using d by (auto simp: vma_ok_def clamp_vma_def mod_eq_0_iff_dvd dvd_add)
qed

text \<open>The state that a successful \<open>binder_mmap\<close> leaves satisfies the invariant.\<close>

lemma fresh_mapping_wf:
  assumes "rb_ok k" and "unmapped a" and "0 < area" and "area mod 4096 = 0" and "area + n < 2 ^ 64"
    and "0 < n" and "n mod 4096 = 0"
    and "a2 = a\<lparr>buffer := area, user_buffer_offset := off, pages := ps, buffer_size := n\<rparr>"
    and "length ps = n div 4096" and "\<And>i. i < length ps \<Longrightarrow> ps ! i \<longleftrightarrow> i = 0"
  obtains t where "binder_insert_free_buffer k (a2\<lparr>buffers := [area], bufs := (bufs a2)(area \<mapsto> fresh_buffer)\<rparr>) area
      = Some (a2\<lparr>buffers := [area], bufs := (bufs a2)(area \<mapsto> fresh_buffer), free_buffers := t\<rparr>)"
    and "alloc_wf (a2\<lparr>buffers := [area], bufs := (bufs a2)(area \<mapsto> fresh_buffer), free_buffers := t,
           free_async_space := n div 2, vma := v, vma_vm_mm := m\<rparr>)"
    and "live_map (a2\<lparr>buffers := [area], bufs := (bufs a2)(area \<mapsto> fresh_buffer), free_buffers := t,
           free_async_space := n div 2, vma := v, vma_vm_mm := m\<rparr>) = Map.empty"
proof -
  let ?a3 = "a2\<lparr>buffers := [area], bufs := (bufs a2)(area \<mapsto> fresh_buffer)\<rparr>"
  have free: "is_free ?a3 area" by (simp add: is_free_def fresh_buffer_def)
  have "index_ok ?a3 {}"
    using assms(2,8) free by (simp add: index_ok_def unmapped_def)
  from insert_free_index [OF assms(1) this _ free]
  obtain t where t: "binder_insert_free_buffer k ?a3 area = Some (?a3\<lparr>free_buffers := t\<rparr>)"
    "index_ok (?a3\<lparr>free_buffers := t\<rparr>) {area}" by auto
  let ?a = "a2\<lparr>buffers := [area], bufs := (bufs a2)(area \<mapsto> fresh_buffer), free_buffers := t,
           free_async_space := n div 2, vma := v, vma_vm_mm := m\<rparr>"
  obtain c where c: "n = 4096 * c" "0 < c" using assms(6,7) by (auto simp: mod_eq_0_iff_dvd elim!: dvdE)
  have "8 dvd area" using assms(4) dvd_trans [of 8 4096 area] by (simp add: mod_eq_0_iff_dvd)
  then have lay: "layout_ok ?a"
    using assms(3-8) c by (simp add: layout_ok_def alloc_end_def mod_eq_0_iff_dvd)
  have isf: "is_free ?a x = (x = area \<or> is_free a x)" for x
    using assms(8) by (simp add: is_free_def fresh_buffer_def)
  have need: "page_needed ?a P \<longleftrightarrow> P = area div 4096" for P
  proof -
    have "page_needed ?a P \<longleftrightarrow> meets P area (data_of area)"
      using isf by (simp add: page_needed_def live_end_def)
    moreover have "(area + 79) div 4096 = area div 4096"
      using assms(4) page_index_bounds [of area] page_index_bounds [of "area + 79"]
      by (auto simp: mod_eq_0_iff_dvd elim!: dvdE)
    ultimately show ?thesis by (simp add: header_pages)
  qed
  have "pages_ok ?a"
    unfolding pages_ok_def need using assms(8-10) by auto
  moreover have "{x \<in> set (buffers ?a). is_free ?a x} = {area}" using isf by auto
  moreover have "index_ok ?a {area}"
    by (rule index_ok_cong [of "?a3\<lparr>free_buffers := t\<rparr>"])
      (use t(2) in \<open>simp_all add: is_free_def fun_eq_iff\<close>)
  ultimately have "alloc_wf ?a"
    using lay assms(8) isf
    by (simp add: alloc_wf_alt core_ok_def fits_def async_ok_def async_used_def async_cost_def fresh_buffer_def)
  moreover have "live_map ?a = Map.empty"
    by (rule ext) (simp add: live_map_def fresh_buffer_def)
  ultimately show ?thesis using that t(1) by simp
qed

lemma mmap_setup_cases:
  assumes "rb_ok k" and "unmapped a" and "0 < area" and "area mod 4096 = 0" and "area + n < 2 ^ 64"
    and "n = vm_end v - vm_start v" and "0 < n" and "n mod 4096 = 0"
  obtains (failed) a' where
      "mmap_setup k current (a\<lparr>buffer := area, user_buffer_offset := off\<rparr>) v = Some (- ENOMEM, a', None)"
      and "unmapped a'" and "tsk a' = tsk a"
  | (mapped) a' where
      "mmap_setup k current (a\<lparr>buffer := area, user_buffer_offset := off\<rparr>) v
        = Some (0, a', get_files_struct k current)"
      and "alloc_wf a'" and "live_map a' = Map.empty" and "buffer a' = area" and "buffer_size a' = n"
      and "vma a' = Some (vm_id v)" and "vma_vm_mm a' = Some (vm_mm v)"
      and "user_buffer_offset a' = off" and "tsk a' = tsk a"
proof (cases "kzalloc_pages k (n div 4096)")
  case False
  then show ?thesis
    using assms(2,6)
    by (intro failed [of "a\<lparr>user_buffer_offset := off, buffer := 0, pages := []\<rparr>"])
      (auto simp: mmap_setup_def Let_def unmapped_def)
next
  case True
  let ?a1 = "a\<lparr>buffer := area, user_buffer_offset := off, pages := replicate (n div 4096) False, buffer_size := n\<rparr>"
  obtain c where c: "n = 4096 * c" "0 < c" using assms(7,8) by (auto simp: mod_eq_0_iff_dvd elim!: dvdE)
  obtain d where d: "area = 4096 * d" "0 < d" using assms(3,4) by (auto simp: mod_eq_0_iff_dvd elim!: dvdE)
  let ?u = "binder_update_page_range k ?a1 True (page_at ?a1 0) (page_at ?a1 1) (Some (vm_id v))"
  have "?u = Some (0, ?a1\<lparr>pages := set_range (pages ?a1) 0 1 True\<rparr>) \<or> ?u = Some (- ENOMEM, ?a1)"
    by (rule binder_update_page_range_map) (use c d in auto)
  then show ?thesis
  proof
    assume u: "?u = Some (- ENOMEM, ?a1)"
    show ?thesis
      by (rule failed [of "?a1\<lparr>buffer := 0, pages := []\<rparr>"])
        (use u True assms(2,6) in \<open>auto simp: mmap_setup_def Let_def unmapped_def\<close>)
  next
    let ?ps = "set_range (replicate (n div 4096) False) 0 1 True"
    assume u: "?u = Some (0, ?a1\<lparr>pages := set_range (pages ?a1) 0 1 True\<rparr>)"
    let ?a2 = "a\<lparr>buffer := area, user_buffer_offset := off, pages := ?ps, buffer_size := n\<rparr>"
    obtain t where t: "binder_insert_free_buffer k (?a2\<lparr>buffers := [area], bufs := (bufs ?a2)(area \<mapsto> fresh_buffer)\<rparr>) area
        = Some (?a2\<lparr>buffers := [area], bufs := (bufs ?a2)(area \<mapsto> fresh_buffer), free_buffers := t\<rparr>)"
      "alloc_wf (?a2\<lparr>buffers := [area], bufs := (bufs ?a2)(area \<mapsto> fresh_buffer), free_buffers := t,
           free_async_space := n div 2, vma := Some (vm_id v), vma_vm_mm := Some (vm_mm v)\<rparr>)"
      "live_map (?a2\<lparr>buffers := [area], bufs := (bufs ?a2)(area \<mapsto> fresh_buffer), free_buffers := t,
           free_async_space := n div 2, vma := Some (vm_id v), vma_vm_mm := Some (vm_mm v)\<rparr>) = Map.empty"
      by (rule fresh_mapping_wf [OF assms(1-5,7,8) refl, where ps = ?ps and off = off
            and v = "Some (vm_id v)" and m = "Some (vm_mm v)"]) auto
    have "?a1\<lparr>pages := set_range (pages ?a1) 0 1 True\<rparr> = ?a2" by simp
    then have u2: "?u = Some (0, ?a2)" using u by (simp only:)
    show ?thesis
      by (rule mapped [OF _ t(2,3)]) (use u2 t(1) True assms(6) in \<open>auto simp: mmap_setup_def Let_def\<close>)
  qed
qed

lemma binder_mmap_cases:
  assumes "rb_ok k" and "vm_area_ok k" and "vma_ok v" and "unmapped a"
  obtains (failed) ret v' a' where "binder_mmap k current a v = Some (ret, v', a', None)"
      and "ret < 0" and "unmapped a'" and "tsk a' = tsk a"
  | (mapped) v' a' where "binder_mmap k current a v = Some (0, v', a', get_files_struct k current)"
      and "alloc_wf a'" and "live_map a' = Map.empty" and "vma a' = Some (vm_id v)"
      and "buffer_size a' = vm_end v' - vm_start v'" and "buffer_size a' \<le> SZ_4M"
      and "vm_flags v AND VM_WRITE = 0" and "tsk a' = tsk a" and "vma_vm_mm a' = Some (vm_mm v)"
      and "user_buffer_offset a' = int (vm_start v) - int (buffer a')"
proof (cases "tsk a \<noteq> current \<or> vm_flags v AND VM_WRITE \<noteq> 0
    \<or> get_vm_area k (vm_end (clamp_vma v) - vm_start (clamp_vma v)) = None")
  case True
  have fl: "vm_flags (clamp_vma v) = vm_flags v" by (simp add: clamp_vma_def)
  have "\<exists>ret v'. binder_mmap k current a v = Some (ret, v', a, None) \<and> ret < 0"
    using True assms(4) fl by (simp add: binder_mmap_def Let_def unmapped_def)
  then show ?thesis using failed assms(4) by blast
next
  case False
  let ?w = "clamp_vma v"
  let ?v' = "?w\<lparr>vm_flags := (vm_flags ?w OR VM_DONTCOPY) AND NOT VM_MAYWRITE\<rparr>"
  let ?n = "vm_end ?v' - vm_start ?v'"
  note cl = clamp_vma_span [OF assms(3)]
  have fl: "vm_flags ?w = vm_flags v" "vm_id ?v' = vm_id v" "vm_mm ?v' = vm_mm v"
    by (simp_all add: clamp_vma_def)
  obtain area where area: "get_vm_area k ?n = Some area" using False by auto
  have p: "0 < area" "area mod 4096 = 0" "area + ?n < 2 ^ 64"
    using assms(2) area cl(2) unfolding vm_area_ok_def by auto
  have n: "0 < ?n" "?n mod 4096 = 0" using cl by auto
  let ?off = "int (vm_start ?v') - int area"
  have b: "binder_mmap k current a v = do {
      (ret, a', files) \<leftarrow> mmap_setup k current (a\<lparr>buffer := area, user_buffer_offset := ?off\<rparr>) ?v';
      Some (ret, ?v', a', files) }"
    using False assms(4) fl area by (simp add: binder_mmap_def Let_def unmapped_def)
  from assms(1,4) p refl n show ?thesis
  proof (cases rule: mmap_setup_cases [where current = current and off = ?off])
    case (failed a')
    then show ?thesis by (intro that(1) [of "- ENOMEM" ?v' a']) (auto simp: b)
  next
    case (mapped a')
    then show ?thesis using fl cl False by (intro that(2) [of ?v' a']) (auto simp: b)
  qed
qed

end
