(* ===== verification/Binder_Alloc_Spec.thy ===== *)
theory Binder_Alloc_Spec
  imports Binder_Mmap
begin

text \<open>
  What the transaction-buffer allocator promises to the rest of the driver. The contract is
  the locale \<open>buffer_allocator\<close>, interpreted on \<open>binder_alloc_buf\<close> and \<open>binder_free_buf\<close>; the
  reachable states of a mapping are those of the step relation \<open>alloc_step\<close>; the properties
  of the allocator are stated over the model at the end.
\<close>

section \<open>The contract\<close>

locale buffer_allocator =
  fixes inv :: "'s \<Rightarrow> bool"
    and live :: "'s \<Rightarrow> addr \<Rightarrow> ('h \<times> addr) option"
    and alloc :: "'s \<Rightarrow> 'r \<Rightarrow> (addr option \<times> 's) option"
    and release :: "'s \<Rightarrow> addr \<Rightarrow> 's option"
    and need :: "'r \<Rightarrow> nat"
    and ready :: "'h \<Rightarrow> bool"
  assumes alloc_total: "inv s \<Longrightarrow> \<exists>res. alloc s r = Some res"
    and alloc_refuses: "inv s \<Longrightarrow> alloc s r = Some (None, s') \<Longrightarrow> s' = s"
    and alloc_grants: "inv s \<Longrightarrow> alloc s r = Some (Some b, s') \<Longrightarrow>
          inv s' \<and> live s b = None \<and> (\<exists>h e. live s' = (live s)(b \<mapsto> (h, e)) \<and> data_of b + need r \<le> e)"
    and release_ok: "inv s \<Longrightarrow> live s b = Some (h, e) \<Longrightarrow> ready h \<Longrightarrow>
          \<exists>s'. release s b = Some s' \<and> inv s' \<and> live s' = (live s)(b := None)"
    and regions_apart: "inv s \<Longrightarrow> live s b = Some (h, e) \<Longrightarrow> live s c = Some (h', e') \<Longrightarrow> b < c \<Longrightarrow> e \<le> c"
begin

text \<open>A granted buffer overlaps no buffer that was handed out before.\<close>

lemma granted_apart:
  assumes "inv s" and "alloc s r = Some (Some b, s')" and "live s c = Some (h, e)"
  obtains h' e' where "live s' b = Some (h', e')" and "live s' c = Some (h, e)"
    and "e \<le> b \<or> e' \<le> c"
proof -
  obtain h' e' where g: "inv s'" "live s b = None" "live s' = (live s)(b \<mapsto> (h', e'))"
    using alloc_grants [OF assms(1,2)] by blast
  have "c \<noteq> b" using g(2) assms(3) by auto
  then have "live s' b = Some (h', e')" "live s' c = Some (h, e)" using g(3) assms(3) by simp_all
  moreover from this have "e \<le> b \<or> e' \<le> c"
    using regions_apart [OF g(1)] \<open>c \<noteq> b\<close> by (cases "c < b") (auto simp: not_less_iff_gr_or_eq)
  ultimately show ?thesis using that by blast
qed

end

text \<open>
  A client that settles the headers of its buffers, and the budget: what is spare and what is
  charged for the allocated buffers add up to a constant.
\<close>

locale budgeted_allocator = buffer_allocator +
  fixes settle :: "'a \<Rightarrow> addr \<Rightarrow> 'a"
    and spare :: "'a \<Rightarrow> nat"
    and charge :: "(addr \<Rightarrow> ('b \<times> addr) option) \<Rightarrow> nat"
    and capacity :: "'a \<Rightarrow> nat"
  assumes settle_ok: "inv s \<Longrightarrow> live s b = Some (h, e) \<Longrightarrow>
        inv (settle s b) \<and> (\<exists>h'. ready h' \<and> live (settle s b) = (live s)(b \<mapsto> (h', e)))"
    and budget: "inv s \<Longrightarrow> spare s + charge (live s) = capacity s"
    and alloc_capacity: "inv s \<Longrightarrow> alloc s r = Some (res, s') \<Longrightarrow> capacity s' = capacity s"
    and settle_capacity: "inv s \<Longrightarrow> live s b = Some x \<Longrightarrow> capacity (settle s b) = capacity s"
    and release_capacity: "inv s \<Longrightarrow> live s b = Some (h, e) \<Longrightarrow> ready h \<Longrightarrow> release s b = Some s'
        \<Longrightarrow> capacity s' = capacity s"
begin

lemma use_roundtrip:
  assumes "inv s" and "alloc s r = Some (Some b, s1)"
  obtains s3 where "release (settle s1 b) b = Some s3" and "inv s3" and "live s3 = live s"
    and "spare s3 = spare s"
proof -
  obtain h e where g: "inv s1" "live s b = None" "live s1 = (live s)(b \<mapsto> (h, e))"
    using alloc_grants [OF assms] by blast
  then have l: "live s1 b = Some (h, e)" by simp
  obtain h' where s: "inv (settle s1 b)" "ready h'" "live (settle s1 b) = (live s1)(b \<mapsto> (h', e))"
    using settle_ok [OF g(1) l] by blast
  then have l2: "live (settle s1 b) b = Some (h', e)" by simp
  obtain s3 where r: "release (settle s1 b) b = Some s3" "inv s3" "live s3 = (live (settle s1 b))(b := None)"
    using release_ok [OF s(1) l2 s(2)] by blast
  have live3: "live s3 = live s" using r(3) s(3) g(2,3) by (auto simp: fun_eq_iff)
  have "capacity s3 = capacity s"
    using release_capacity [OF s(1) l2 s(2) r(1)] settle_capacity [OF g(1) l] alloc_capacity [OF assms] by simp
  then have "spare s3 = spare s" using budget [OF r(2)] budget [OF assms(1)] live3 by simp
  then show ?thesis using that r(1,2) live3 by blast
qed

end

lemma live_regions_apart:
  assumes "alloc_wf a" and "live_map a b = Some (h, e)" and "live_map a c = Some (h', e')" and "b < c"
  shows "e \<le> c"
proof -
  note hb = live_mapD [OF assms(2)] and hc = live_mapD [OF assms(3)]
  have lay: "layout_ok a" using assms(1) by (simp add: alloc_wf_def)
  obtain xs ys where split: "buffers a = xs @ b # ys" using hb by (auto simp: in_set_conv_decomp)
  have "c \<in> set xs \<or> c \<in> set ys" using hc split assms(4) by auto
  moreover have "c \<notin> set xs"
  proof
    assume c: "c \<in> set xs"
    then obtain us vs where "xs = us @ c # vs" by (auto simp: in_set_conv_decomp)
    then have "data_of c \<le> buffer_end a c" using buffer_end_bounds(1) [OF lay, of us c] split by simp
    then show False using buffer_end_bounds(4) [OF lay split c] assms(4) by simp
  qed
  ultimately show ?thesis using buffer_end_bounds(5) [OF lay split] hb by blast
qed

section \<open>Reachable states of a mapping\<close>

text \<open>The fields of a header that the allocator's callers write.\<close>

definition set_owner ::
  "bool \<Rightarrow> int \<Rightarrow> nat option \<Rightarrow> nat option \<Rightarrow> byte list \<Rightarrow> binder_buffer \<Rightarrow> binder_buffer" where
  "set_owner user_free d t n bytes h =
     h\<lparr>allow_user_free := user_free, buf_debug_id := d, buf_transaction := t,
       buf_target_node := n, buf_data := bytes\<rparr>"

lemma set_owner_wf:
  assumes "alloc_wf a" and "live_map a b = Some (h, e)" and "a' = upd_buffer b (set_owner u d t n bs) a"
  shows "alloc_wf a'" and "live_map a' = (live_map a)(b \<mapsto> (set_owner u d t n bs h, e))"
    and "same_mapping a a'" and "free_async_space a' = free_async_space a"
proof -
  note hb = live_mapD [OF assms(2)]
  have a': "a' = a\<lparr>bufs := (bufs a)(b \<mapsto> set_owner u d t n bs h)\<rparr>"
    using assms(3) hb by (simp add: upd_buffer_def)
  have isf: "is_free a' = is_free a" using hb by (simp add: a' is_free_def set_owner_def fun_eq_iff)
  have ends: "buffer_end a' = buffer_end a" "binder_buffer_size a' = binder_buffer_size a"
    by (simp_all add: a')
  have f: "fits a' x = fits a x" "async_cost a' x = async_cost a x" for x
    using hb ends by (auto simp: a' fits_def async_cost_def set_owner_def split: option.splits)
  have "page_needed a' = page_needed a"
    using ends isf by (simp add: page_needed_def live_end_def fun_eq_iff a')
  then have "pages_ok a'" using assms(1) by (simp add: a' alloc_wf_def pages_ok_def)
  moreover have "list_all (fits a') (buffers a')"
    using assms(1) f by (simp add: a' alloc_wf_def list_all_iff)
  moreover have "async_ok a'"
    using assms(1) f by (simp add: a' alloc_wf_def async_ok_def async_used_def cong: map_cong)
  moreover have "layout_ok a'" using assms(1) by (simp add: a' alloc_wf_def layout_ok_def)
  moreover have "trees_ok a'" "coalesced a'"
    using assms(1) isf ends by (simp_all add: a' alloc_wf_def trees_ok_def coalesced_def)
  ultimately show "alloc_wf a'" by (simp add: alloc_wf_def)
  show "live_map a' = (live_map a)(b \<mapsto> (set_owner u d t n bs h, e))"
    using hb by (auto simp: live_map_def a' set_owner_def fun_eq_iff split: option.split)
  show "same_mapping a a'" "free_async_space a' = free_async_space a"
    by (simp_all add: a' same_mapping_def)
qed

inductive alloc_step :: "'k kernel_mm_scheme \<Rightarrow> binder_alloc \<Rightarrow> binder_alloc \<Rightarrow> bool"
  for k :: "'k kernel_mm_scheme" where
  Alloc: "binder_alloc_buf k a data_sz offsets_sz is_async = Some (res, a') \<Longrightarrow> alloc_step k a a'"
| Owner: "live_map a b = Some (h, e) \<Longrightarrow> alloc_step k a (upd_buffer b (set_owner u d t n bs) a)"
| Free: "live_map a b = Some (h, e) \<Longrightarrow> buf_transaction h = None \<Longrightarrow> binder_free_buf k a b = Some a'
    \<Longrightarrow> alloc_step k a a'"

text \<open>The states between \<open>mmap\<close> and \<open>munmap\<close> of one process.\<close>

inductive alloc_reach :: "'k kernel_vm_scheme \<Rightarrow> binder_alloc \<Rightarrow> bool"
  for k :: "'k kernel_vm_scheme" where
  Mapped: "unmapped a \<Longrightarrow> vma_ok v \<Longrightarrow> binder_mmap k current a v = Some (0, v', a', files)
    \<Longrightarrow> alloc_reach k a'"
| Step: "alloc_reach k a \<Longrightarrow> alloc_step k a a' \<Longrightarrow> alloc_reach k a'"

inductive_cases alloc_stepE: "alloc_step k a a'"

lemma alloc_step_wf:
  assumes "rb_ok k" and "alloc_wf a" and "alloc_step k a a'"
  shows "alloc_wf a'"
  using assms(3)
proof (cases rule: alloc_step.cases)
  case (Alloc data_sz offsets_sz is_async res)
  then show ?thesis
    using alloc_buf_cases [OF assms(1,2), of data_sz offsets_sz is_async] assms(2) by fastforce
next
  case (Owner b h e u d t n bs)
  then show ?thesis using set_owner_wf(1) [OF assms(2)] by blast
next
  case (Free b h e)
  then show ?thesis using free_buf_correct [OF assms(1,2), of b h e] by auto
qed

lemma alloc_reach_wf:
  assumes "alloc_reach k a" and "rb_ok k" and "vm_area_ok k"
  shows "alloc_wf a"
  using assms(1)
proof induction
  case (Mapped a v current v' a' files)
  show ?case
    by (rule binder_mmap_cases [OF assms(2,3) Mapped(2,1), of current]) (use Mapped(3) in auto)
next
  case (Step a a')
  then show ?case using alloc_step_wf assms(2) by blast
qed

section \<open>Accounting over the allocated buffers\<close>

definition hdr_cost :: "binder_buffer \<Rightarrow> nat" where
  "hdr_cost h = (if async_transaction h
     then buffer_request (buf_data_size h) (buf_offsets_size h) + sizeof_binder_buffer else 0)"

definition map_cost :: "(addr \<rightharpoonup> binder_buffer \<times> addr) \<Rightarrow> nat" where
  "map_cost m = (\<Sum>b\<in>dom m. hdr_cost (fst (the (m b))))"

abbreviation live_cost :: "binder_alloc \<Rightarrow> nat" where
  "live_cost a \<equiv> map_cost (live_map a)"

lemma async_used_live:
  assumes "alloc_wf a"
  shows "async_used a = live_cost a"
proof -
  have d: "distinct (buffers a)" using assms alloc_distinct by (simp add: alloc_wf_def)
  have "async_used a = (\<Sum>b\<in>set (buffers a). async_cost a b)"
    using d by (simp add: async_used_def sum_list_distinct_conv_sum_set)
  also have "\<dots> = (\<Sum>b\<in>dom (live_map a). async_cost a b)"
    by (rule sum.mono_neutral_right)
      (auto simp: live_map_None async_cost_def is_free_def live_map_def split: option.splits if_splits)
  also have "\<dots> = live_cost a"
    unfolding map_cost_def
    by (rule sum.cong)
      (auto simp: async_cost_def hdr_cost_def live_map_def split: if_splits option.splits)
  finally show ?thesis .
qed

lemma async_budget:
  assumes "alloc_wf a"
  shows "free_async_space a + live_cost a = buffer_size a div 2"
  using assms async_used_live [OF assms] by (simp add: alloc_wf_def async_ok_def)

abbreviation alloc_request :: "'k kernel_mm_scheme \<Rightarrow> binder_alloc \<Rightarrow> nat \<times> nat \<times> bool
    \<Rightarrow> (addr option \<times> binder_alloc) option" where
  "alloc_request k a r \<equiv> binder_alloc_buf k a (fst r) (fst (snd r)) (snd (snd r))"

interpretation ba: buffer_allocator "\<lambda>a. rb_ok k \<and> alloc_wf a" live_map "alloc_request k"
  "binder_free_buf k" "\<lambda>r. buffer_request (fst r) (fst (snd r))" "\<lambda>h. buf_transaction h = None"
  for k :: "'k kernel_mm_scheme"
proof
  fix s :: binder_alloc and r :: "nat \<times> nat \<times> bool"
  assume inv: "rb_ok k \<and> alloc_wf s"
  note cases = alloc_buf_cases [OF conjunct1 [OF inv] conjunct2 [OF inv],
      of "fst r" "fst (snd r)" "snd (snd r)"]
  show "\<exists>res. alloc_request k s r = Some res" by (rule cases) auto
  show "s' = s" if "alloc_request k s r = Some (None, s')" for s' by (rule cases) (use that in auto)
  show "(rb_ok k \<and> alloc_wf s') \<and> live_map s b = None
      \<and> (\<exists>h e. live_map s' = (live_map s)(b \<mapsto> (h, e)) \<and> data_of b + buffer_request (fst r) (fst (snd r)) \<le> e)"
    if "alloc_request k s r = Some (Some b, s')" for b s'
    by (rule cases) (use that inv in auto)
next
  fix s b h e
  assume inv: "rb_ok k \<and> alloc_wf s" and l: "live_map s b = Some (h, e)"
  show "\<exists>s'. binder_free_buf k s b = Some s' \<and> (rb_ok k \<and> alloc_wf s') \<and> live_map s' = (live_map s)(b := None)"
    if "buf_transaction h = None"
    by (rule free_buf_correct [OF conjunct1 [OF inv] conjunct2 [OF inv] l that]) (use inv in blast)
  show "e \<le> c" if "live_map s c = Some (h', e')" "b < c" for c h' e'
    using live_regions_apart [OF conjunct2 [OF inv] l that] .
qed

lemma alloc_buf_capacity:
  "rb_ok k \<and> alloc_wf a \<Longrightarrow> binder_alloc_buf k a d offs is_async = Some (res, a') \<Longrightarrow> same_mapping a a'"
  using alloc_buf_cases [of k a d offs is_async] by fastforce

lemma free_buf_capacity:
  "rb_ok k \<and> alloc_wf a \<Longrightarrow> live_map a b = Some (h, e) \<Longrightarrow> buf_transaction h = None
    \<Longrightarrow> binder_free_buf k a b = Some a' \<Longrightarrow> same_mapping a a'"
  using free_buf_correct [of k a b h e] by auto

interpretation bb: budgeted_allocator "\<lambda>a. rb_ok k \<and> alloc_wf a" live_map "alloc_request k"
  "binder_free_buf k" "\<lambda>r. buffer_request (fst r) (fst (snd r))" "\<lambda>h. buf_transaction h = None"
  "\<lambda>a b. upd_buffer b (set_owner u i None n bs) a" free_async_space map_cost "\<lambda>a. buffer_size a div 2"
  for k :: "'k kernel_mm_scheme" and u i n bs
proof
  fix s b h e
  assume inv: "rb_ok k \<and> alloc_wf s" and l: "live_map s b = Some (h, e)"
  note o = set_owner_wf [OF conjunct2 [OF inv] l refl, of u i None n bs]
  show "(rb_ok k \<and> alloc_wf (upd_buffer b (set_owner u i None n bs) s))
      \<and> (\<exists>h'. buf_transaction h' = None
            \<and> live_map (upd_buffer b (set_owner u i None n bs) s) = (live_map s)(b \<mapsto> (h', e)))"
    using inv o(1,2) by (auto intro!: exI [of _ "set_owner u i None n bs h"] simp: set_owner_def)
next
  fix s b x
  assume inv: "rb_ok k \<and> alloc_wf s" and l: "live_map s b = Some x"
  show "buffer_size (upd_buffer b (set_owner u i None n bs) s) div 2 = buffer_size s div 2"
    using set_owner_wf(3) [OF conjunct2 [OF inv], of b "fst x" "snd x", OF _ refl] l
    by (simp add: same_mapping_def)
next
  fix s s' b h e
  assume "rb_ok k \<and> alloc_wf s" "live_map s b = Some (h, e)" "buf_transaction h = None"
    "binder_free_buf k s b = Some s'"
  from free_buf_capacity [OF this] show "buffer_size s' div 2 = buffer_size s div 2"
    by (simp add: same_mapping_def)
next
  fix s r res s'
  assume "rb_ok k \<and> alloc_wf s" "alloc_request k s r = Some (res, s')"
  from alloc_buf_capacity [OF this] show "buffer_size s' div 2 = buffer_size s div 2"
    by (simp add: same_mapping_def)
qed (simp add: async_budget)

lemma successively_all_false:
  "successively (\<lambda>x y. \<not> (P x \<and> P y)) xs \<Longrightarrow> \<forall>x\<in>set xs. P x \<Longrightarrow> length xs \<le> 1"
  by (cases xs rule: remdups_adj.cases) auto

lemma empty_mapping:
  assumes "alloc_wf a" and "live_map a = Map.empty"
  shows "buffers a = [buffer a]"
    and "pages a = True # replicate (buffer_size a div 4096 - 1) False"
    and "free_async_space a = buffer_size a div 2"
proof -
  note wf = assms(1) [unfolded alloc_wf_def]
  have lay: "layout_ok a" using wf by simp
  have free: "is_free a b" if "b \<in> set (buffers a)" for b
    using that assms(2) wf by (auto simp: layout_ok_def live_map_def is_free_def fun_eq_iff split: if_splits option.splits)
  then have "length (buffers a) \<le> 1"
    using wf by (intro successively_all_false [of "is_free a"]) (auto simp: coalesced_def)
  then show b: "buffers a = [buffer a]"
    using lay by (cases "buffers a") (auto simp: layout_ok_def)
  note m = mapping_ok_facts [OF layout_mapping [OF lay]]
  have "(buffer a + 79) div 4096 = buffer a div 4096"
    using m(1) page_index_bounds [of "buffer a + 79"] by linarith
  then have need: "page_needed a P \<longleftrightarrow> P = first_page a" for P
    using free b header_pages [of P "buffer a"] by (simp add: page_needed_def live_end_def)
  have pg: "length (pages a) = buffer_size a div 4096" "\<forall>i<length (pages a). pages a ! i = (i = 0)"
    using wf need by (auto simp: pages_ok_alt pages_are_def)
  have "0 < buffer_size a div 4096"
    using lay by (auto simp: layout_ok_def mod_eq_0_iff_dvd elim!: dvdE)
  then show "pages a = True # replicate (buffer_size a div 4096 - 1) False"
    using pg by (intro nth_equalityI) (auto simp: nth_Cons split: nat.split)
  show "free_async_space a = buffer_size a div 2"
    using async_budget [OF assms(1)] assms(2) by (simp add: map_cost_def)
qed

section \<open>When an allocation succeeds\<close>

lemma update_range_map_succeeds:
  "update_range_map k a p e = Some (a', l) \<Longrightarrow> (\<And>p. page_outcome_at k p = Page_Ok) \<Longrightarrow> l = None"
proof (induction k a p e rule: update_range_map.induct)
  case (1 k a p e)
  show ?case
  proof (cases "e \<le> p \<or> page_slot a p = None \<or> pages a ! the (page_slot a p)")
    case True
    then show ?thesis
      using 1(2) by (subst (asm) update_range_map.simps) (auto split: option.splits if_splits)
  next
    case False
    then obtain i where i: "page_slot a p = Some i" "\<not> pages a ! i" by auto
    have "update_range_map k (a\<lparr>pages := (pages a)[i := True]\<rparr>) (p + PAGE_SIZE) e = Some (a', l)"
      using 1(2,3) False i by (subst (asm) update_range_map.simps) simp
    then show ?thesis using 1(1) [OF _ i 1(3)] 1(3) False by blast
  qed
qed

definition resources_ok :: "'k kernel_mm_scheme \<Rightarrow> binder_alloc \<Rightarrow> bool" where
  "resources_ok k a \<longleftrightarrow> vma a \<noteq> None \<and> get_task_mm k (tsk a) = vma_vm_mm a \<and> vma_vm_mm a \<noteq> None
     \<and> page_outcome_at k = (\<lambda>_. Page_Ok)"

lemma update_page_range_succeeds:
  assumes "resources_ok k a" and "binder_update_page_range k a True s e None = Some (err, a')"
  shows "err = 0"
proof (cases "e \<le> s")
  case True
  then show ?thesis using assms(2) by (simp add: binder_update_page_range_def)
next
  case False
  then obtain a1 l where "update_range_map k a s e = Some (a1, l)"
    using assms by (auto simp: binder_update_page_range_def Let_def resources_ok_def
        split: option.splits elim!: option_bind_eq_SomeE)
  moreover from this have "l = None"
    by (rule update_range_map_succeeds) (use assms(1) in \<open>simp add: resources_ok_def\<close>)
  ultimately show ?thesis
    using assms False by (auto simp: binder_update_page_range_def Let_def resources_ok_def)
qed

lemma alloc_buf_succeeds:
  assumes "rb_ok k" and "alloc_wf a" and "resources_ok k a"
    and "d \<le> buffer_request d offs" and "offs \<le> buffer_request d offs"
    and "is_async \<Longrightarrow> buffer_request d offs + sizeof_binder_buffer \<le> free_async_space a"
    and "c \<in> set (buffers a)" and "is_free a c" and "buffer_request d offs \<le> binder_buffer_size a c"
  obtains b a' where "binder_alloc_buf k a d offs is_async = Some (Some b, a')"
proof -
  let ?sz = "buffer_request d offs"
  have "(?sz + sizeof_binder_buffer) mod 2 ^ 64 \<le> ?sz + sizeof_binder_buffer" by (rule mod_less_eq_dividend)
  then have pre: "\<not> (vma a = None \<or> ?sz < d \<or> ?sz < offs
      \<or> is_async \<and> free_async_space a < (?sz + sizeof_binder_buffer) mod 2 ^ 64)"
    using assms(3-6) by (auto simp: resources_ok_def)
  from assms(2) show ?thesis
  proof (cases rule: best_fit_cases [where sz = ?sz])
    case none
    then show ?thesis using assms(7-9) by auto
  next
    case (found b h exact)
    obtain xs ys where buf: "buffers a = xs @ b # ys" using found(2) by (auto simp: in_set_conv_decomp)
    have free: "is_free a b" using found(3,4) by (simp add: is_free_def)
    define n where n: "n = (if exact then binder_buffer_size a b
            else if ?sz + sizeof_binder_buffer + 4 \<ge> binder_buffer_size a b then ?sz
            else ?sz + sizeof_binder_buffer)"
    have le: "n \<le> binder_buffer_size a b" using found(5) n by (auto split: if_splits)
    have space: "is_async \<Longrightarrow> ?sz + sizeof_binder_buffer \<le> free_async_space a" using assms(6) .
    from assms(2) buf free le show ?thesis
    proof (cases rule: take_range_pages [where k = k])
      case (ok ps)
      obtain a2 where "take_free_buffer k (a\<lparr>pages := ps\<rparr>) b ?sz (n \<noteq> ?sz) = Some a2"
        using alloc_from_best_fit [OF assms(1,2) found(2-4) refl found(5) space n ok(1)] by blast
      then show ?thesis
        using pre found(1) ok(1) n that by (simp add: binder_alloc_buf_def Let_def)
    next
      case failed
      then show ?thesis using update_page_range_succeeds [OF assms(3) failed] by simp
    qed
  qed
qed

section \<open>Looking a buffer up\<close>

lemma mod_shift_eq:
  fixes u b c :: int
  assumes "0 \<le> u" and "u < m" and "0 \<le> b" and "b < m"
  shows "(u - c) mod m = b \<longleftrightarrow> u = (b + c) mod m"
proof -
  have "(u - c) mod m = b \<longleftrightarrow> (u - c) mod m = b mod m" using assms by simp
  also have "\<dots> \<longleftrightarrow> u mod m = (b + c) mod m" by (simp add: mod_eq_dvd_iff algebra_simps)
  finally show ?thesis using assms by simp
qed

lemma buffer_lookup_spec:
  assumes "alloc_wf a" and "user_ptr < 2 ^ 64"
  obtains r where "binder_buffer_lookup a user_ptr = Some r"
    and "\<And>b. r = Some b \<longleftrightarrow> live_map a b \<noteq> None
           \<and> int user_ptr = (int (data_of b) + user_buffer_offset a) mod 2 ^ 64"
proof -
  define p where p: "p = (int user_ptr - user_buffer_offset a - int sizeof_binder_buffer) mod 2 ^ 64"
  have idx: "set_tree (allocated_buffers a) = {b \<in> set (buffers a). \<not> is_free a b}"
    "sorted_wrt (<) (inorder (allocated_buffers a))"
    using assms(1) by (simp_all add: alloc_wf_alt index_ok_def)
  have "0 \<le> p" by (simp add: p)
  then have look: "binder_buffer_lookup a user_ptr
      = Some (if nat p \<in> set_tree (allocated_buffers a) then Some (nat p) else None)"
    using allocated_tree_find_spec [of "allocated_buffers a" a p] idx
    by (simp add: binder_buffer_lookup_def p)
  have lay: "layout_ok a" using assms(1) by (simp add: alloc_wf_def)
  have live: "live_map a b \<noteq> None \<longleftrightarrow> b \<in> set_tree (allocated_buffers a)" for b
    using lay idx by (auto simp: live_map_None layout_ok_def)
  have eq: "nat p = b \<longleftrightarrow> int user_ptr = (int (data_of b) + user_buffer_offset a) mod 2 ^ 64"
    if "b \<in> set (buffers a)" for b
  proof -
    obtain xs ys where "buffers a = xs @ b # ys" using \<open>b \<in> set (buffers a)\<close> by (auto simp: in_set_conv_decomp)
    from buffer_end_bounds(1,2) [OF lay this] have "b < 2 ^ 64" using lay by (simp add: layout_ok_def)
    then have "p = int b \<longleftrightarrow> int user_ptr = (int b + (user_buffer_offset a + int sizeof_binder_buffer)) mod 2 ^ 64"
      using mod_shift_eq [of "int user_ptr" "2 ^ 64" "int b" "user_buffer_offset a + int sizeof_binder_buffer"]
        assms(2) by (simp add: p algebra_simps)
    moreover have "nat p = b \<longleftrightarrow> p = int b" using \<open>0 \<le> p\<close> by auto
    ultimately show ?thesis by (simp add: algebra_simps)
  qed
  show ?thesis
    by (rule that [OF look]) (use live eq idx(1) in \<open>auto split: if_splits\<close>)
qed

section \<open>A kernel to run the model on\<close>

text \<open>
  Trees need not be balanced for the model to run: insertion leaves the shape alone and
  erasing rebuilds a spine. This kernel satisfies what the proofs rely on.
\<close>

fun spine :: "addr list \<Rightarrow> addr tree" where
  "spine [] = Leaf"
| "spine (x # xs) = Node Leaf x (spine xs)"

lemma inorder_spine [simp]: "inorder (spine xs) = xs"
  by (induction xs) simp_all

definition plain_kernel :: kernel_vm where
  "plain_kernel = \<lparr>get_task_mm = (\<lambda>_. Some 1), page_outcome_at = (\<lambda>_. Page_Ok),
     rb_insert_color = (\<lambda>_ t. t), rb_erase = (\<lambda>x t. spine (remove1 x (inorder t))),
     stale_header = (\<lambda>_. fresh_buffer), get_vm_area = (\<lambda>n. Some 0x100000),
     kzalloc_pages = (\<lambda>_. True), get_files_struct = (\<lambda>_. Some 1)\<rparr>"

lemma plain_kernel_ok: "rb_ok plain_kernel" "vm_area_ok plain_kernel"
  by (simp_all add: rb_ok_def plain_kernel_def vm_area_ok_def)

lemmas alloc_run_defs = binder_mmap_def mmap_setup_def clamp_vma_def zeroed_alloc_def
  binder_update_page_range_def update_range_map.simps page_slot_def binder_insert_free_buffer_def
  is_free_def fresh_buffer_def binder_alloc_buf_def buffer_request_def align_ptr_def
  binder_buffer_size_def buffer_end_def page_floor_def PAGE_ALIGN_def take_free_buffer_def
  upd_buffer_def binder_insert_allocated_buffer_def Let_def

declare alloc_run_defs [run_defs]

definition plain_vma :: vm_area_struct where
  "plain_vma = \<lparr>vm_id = 1, vm_start = 0x7000000, vm_end = 0x7004000, vm_flags = 0, vm_mm = 1\<rparr>"

lemma plain_vma_ok: "vma_ok plain_vma"
  by (simp add: vma_ok_def plain_vma_def)

definition mapped_state :: binder_alloc where
  "mapped_state = (case binder_mmap plain_kernel 7 (zeroed_alloc 7) plain_vma of
     None \<Rightarrow> zeroed_alloc 7 | Some (ret, v', a, files) \<Rightarrow> a)"

lemma binder_mmap_plain:
  "\<exists>v' files. binder_mmap plain_kernel 7 (zeroed_alloc 7) plain_vma = Some (0, v', mapped_state, files)"
proof -
  have "map_option fst (binder_mmap plain_kernel 7 (zeroed_alloc 7) plain_vma) = Some 0"
    by (simp add: run_defs plain_kernel_def plain_vma_def)
  then show ?thesis by (auto simp: mapped_state_def)
qed

lemma mapped_state_reach: "alloc_reach plain_kernel mapped_state"
  using binder_mmap_plain alloc_reach.Mapped [OF unmapped_zeroed plain_vma_ok] by blast

lemma mapped_state_wf: "alloc_wf mapped_state"
  using alloc_reach_wf [OF mapped_state_reach plain_kernel_ok] .

text \<open>One request out of that mapping, and the state once its owner has let go of it.\<close>

definition granted_state :: binder_alloc where
  "granted_state = (case binder_alloc_buf plain_kernel mapped_state 100 8 True of
     None \<Rightarrow> mapped_state | Some (res, a) \<Rightarrow> a)"

lemma granted_plain:
  "binder_alloc_buf plain_kernel mapped_state 100 8 True = Some (Some 0x100000, granted_state)"
proof -
  have "map_option fst (binder_alloc_buf plain_kernel mapped_state 100 8 True) = Some (Some 0x100000)"
    by (simp add: run_defs mapped_state_def plain_kernel_def plain_vma_def)
  then show ?thesis by (auto simp: granted_state_def)
qed

lemma granted_state_reach: "alloc_reach plain_kernel granted_state"
  using alloc_reach.Step [OF mapped_state_reach alloc_step.Alloc [OF granted_plain]] .

lemma granted_state_wf: "alloc_wf granted_state"
  using alloc_reach_wf [OF granted_state_reach plain_kernel_ok] .

lemma granted_live:
  "live_map granted_state 0x100000
     = Some (fresh_buffer\<lparr>buf_free := False, buf_data_size := 100, buf_offsets_size := 8,
               async_transaction := True\<rparr>, 0x1000c0)"
  by (simp add: live_map_def granted_state_def run_defs mapped_state_def plain_kernel_def plain_vma_def)

text \<open>A second, synchronous request behind it.\<close>

definition granted2_state :: binder_alloc where
  "granted2_state = (case binder_alloc_buf plain_kernel granted_state 16 0 False of
     None \<Rightarrow> granted_state | Some (res, a) \<Rightarrow> a)"

lemma granted2_plain:
  "binder_alloc_buf plain_kernel granted_state 16 0 False = Some (Some 0x1000c0, granted2_state)"
proof -
  have "map_option fst (binder_alloc_buf plain_kernel granted_state 16 0 False) = Some (Some 0x1000c0)"
    by (simp add: run_defs granted_state_def mapped_state_def plain_kernel_def plain_vma_def)
  then show ?thesis by (auto simp: granted2_state_def)
qed

lemma granted2_reach: "alloc_reach plain_kernel granted2_state"
  using alloc_reach.Step [OF granted_state_reach alloc_step.Alloc [OF granted2_plain]] .

lemma granted2_live:
  "live_map granted2_state 0x100000 = live_map granted_state 0x100000"
  "\<exists>h e. live_map granted2_state 0x1000c0 = Some (h, e) \<and> 0x1000c0 + 80 + 16 \<le> e"
proof -
  have "\<exists>h e. live_map granted2_state = (live_map granted_state)(0x1000c0 \<mapsto> (h, e))
      \<and> 0x1000c0 + 80 + 16 \<le> e"
    by (rule alloc_buf_cases [OF plain_kernel_ok(1) granted_state_wf, of 16 0 False])
      (auto simp: granted2_plain buffer_request_def align_ptr_def)
  then show "live_map granted2_state 0x100000 = live_map granted_state 0x100000"
    "\<exists>h e. live_map granted2_state 0x1000c0 = Some (h, e) \<and> 0x1000c0 + 80 + 16 \<le> e" by auto
qed

end
