(* ===== verification/Binder_Alloc_Props.thy ===== *)
theory Binder_Alloc_Props
  imports Binder_Alloc_Spec
begin

text \<open>
  The properties of the transaction-buffer allocator, each with the concrete mapping on
  which it is exercised.
\<close>

section \<open>Allocating\<close>

text \<open>
  C1. In every well-formed state \<open>binder_alloc_buf\<close> returns, never reaching a \<open>BUG()\<close>, and
  keeps the allocator well-formed. It either refuses and leaves the state untouched, or it
  hands out a buffer that was free: exactly that buffer becomes allocated, under a header
  with the requested sizes and with room for both rounded-up parts, and every other
  allocated buffer keeps its header and its extent.
\<close>

theorem binder_alloc_buf_correct:
  assumes "rb_ok k" and "alloc_wf a"
  shows "\<exists>res a'. binder_alloc_buf k a data_sz offsets_sz is_async = Some (res, a') \<and> alloc_wf a'
    \<and> (case res of None \<Rightarrow> a' = a
       | Some b \<Rightarrow> live_map a b = None
           \<and> (\<exists>h e. live_map a' = (live_map a)(b \<mapsto> (taken_hdr h data_sz offsets_sz is_async, e))
                \<and> data_of b + buffer_request data_sz offsets_sz \<le> e \<and> e \<le> buffer_end a b))"
  by (rule alloc_buf_cases [OF assms, of data_sz offsets_sz is_async]) (use assms in auto)

theorem binder_alloc_buf_correct_witness:
  "\<exists>h e. live_map granted_state 0x100000 = Some (taken_hdr h 100 8 True, e) \<and> 0x100050 + 112 \<le> e"
  using binder_alloc_buf_correct [OF plain_kernel_ok(1) mapped_state_wf, of 100 8 True]
  by (fastforce simp: granted_plain buffer_request_def align_ptr_def)

text \<open>
  The space of a granted buffer holds \<open>data_size + offsets_size\<close> bytes even though the code
  adds the two rounded sizes as \<open>size_t\<close>: the check on the sum catches every wrap-around.
\<close>

theorem granted_space_enough:
  assumes "rb_ok k" and "alloc_wf a" and "d < 2 ^ 64" and "offs < 2 ^ 64"
    and "binder_alloc_buf k a d offs is_async = Some (Some b, a')"
  shows "\<exists>h e. live_map a' b = Some (h, e) \<and> data_of b + align_ptr d + align_ptr offs \<le> e
    \<and> d \<le> align_ptr d \<and> offs \<le> align_ptr offs"
proof (rule alloc_buf_cases [OF assms(1,2), of d offs is_async])
  fix c h e a''
  assume "binder_alloc_buf k a d offs is_async = Some (Some c, a'')"
    and "live_map a'' = (live_map a)(c \<mapsto> (taken_hdr h d offs is_async, e))"
    and "d \<le> buffer_request d offs" "offs \<le> buffer_request d offs" "data_of c + buffer_request d offs \<le> e"
  then show ?thesis using assms(5) buffer_request_exact [OF assms(3,4)] by auto
qed (use assms(5) in auto)

theorem granted_space_enough_witness:
  "\<exists>h e. live_map granted_state 0x100000 = Some (h, e) \<and> 0x100050 + align_ptr 100 + align_ptr 8 \<le> e
    \<and> 100 \<le> align_ptr 100 \<and> 8 \<le> align_ptr 8"
  using granted_space_enough [OF plain_kernel_ok(1) mapped_state_wf _ _ granted_plain] by simp

text \<open>
  C35. A request is served whenever it can be: with a live mapping, pages to be had, sizes that
  do not wrap, enough asynchronous budget and one free buffer that is large enough.
\<close>

theorem alloc_succeeds_when_possible:
  assumes "rb_ok k" and "alloc_wf a" and "resources_ok k a"
    and "d \<le> buffer_request d offs" and "offs \<le> buffer_request d offs"
    and "is_async \<Longrightarrow> buffer_request d offs + sizeof_binder_buffer \<le> free_async_space a"
    and "c \<in> set (buffers a)" and "is_free a c" and "buffer_request d offs \<le> binder_buffer_size a c"
  shows "\<exists>b a'. binder_alloc_buf k a d offs is_async = Some (Some b, a')"
  using alloc_buf_succeeds [OF assms] by blast

theorem alloc_succeeds_when_possible_witness:
  "\<exists>b a'. binder_alloc_buf plain_kernel mapped_state 8000 16 False = Some (Some b, a')"
  by (rule alloc_succeeds_when_possible [OF plain_kernel_ok(1) mapped_state_wf, where c = "0x100000"])
    (simp_all add: run_defs mapped_state_def plain_kernel_def plain_vma_def resources_ok_def)

text \<open>
  The buffer chosen is a best fit: no free buffer with room for the request is smaller.
\<close>

theorem alloc_best_fit:
  assumes "rb_ok k" and "alloc_wf a"
    and "binder_alloc_buf k a d offs is_async = Some (Some b, a')"
  shows "is_free a b \<and> buffer_request d offs \<le> binder_buffer_size a b
    \<and> (\<forall>c\<in>set (buffers a). is_free a c \<and> buffer_request d offs \<le> binder_buffer_size a c
         \<longrightarrow> binder_buffer_size a b \<le> binder_buffer_size a c)"
proof (rule alloc_buf_cases [OF assms(1,2), of d offs is_async])
  fix c h e a''
  assume "binder_alloc_buf k a d offs is_async = Some (Some c, a'')" "is_free a c"
    "data_of c + buffer_request d offs \<le> e" "e \<le> buffer_end a c"
    "\<forall>x\<in>set (buffers a). is_free a x \<and> buffer_request d offs \<le> binder_buffer_size a x
       \<longrightarrow> binder_buffer_size a c \<le> binder_buffer_size a x"
  then show ?thesis using assms(3) by (auto simp: binder_buffer_size_def)
qed (use assms(3) in auto)

theorem alloc_best_fit_witness:
  "is_free mapped_state 0x100000 \<and> buffer_request 100 8 \<le> binder_buffer_size mapped_state 0x100000"
  using alloc_best_fit [OF plain_kernel_ok(1) mapped_state_wf granted_plain] by simp

section \<open>Freeing\<close>

text \<open>
  C2. Freeing an allocated buffer whose transaction has been detached never reaches a
  \<open>BUG()\<close>, whatever its neighbours are: it returns a well-formed state in which exactly
  that buffer is no longer allocated.
\<close>

theorem binder_free_buf_correct:
  assumes "rb_ok k" and "alloc_wf a" and "live_map a b = Some (h, e)" and "buf_transaction h = None"
  shows "\<exists>a'. binder_free_buf k a b = Some a' \<and> alloc_wf a' \<and> live_map a' = (live_map a)(b := None)"
  using free_buf_correct [OF assms] by blast

theorem binder_free_buf_correct_witness:
  "\<exists>a'. binder_free_buf plain_kernel granted_state 0x100000 = Some a' \<and> live_map a' 0x100000 = None"
  using binder_free_buf_correct [OF plain_kernel_ok(1) granted_state_wf granted_live]
  by (fastforce simp: fresh_buffer_def)

text \<open>
  Allocating a buffer, using it and freeing it gives back what was taken: the same
  buffers are allocated as before and the asynchronous budget is the same.
\<close>

theorem alloc_free_roundtrip:
  assumes "rb_ok k" and "alloc_wf a" and "binder_alloc_buf k a d offs is_async = Some (Some b, a1)"
  shows "\<exists>a3. binder_free_buf k (upd_buffer b (set_owner u i None n bs) a1) b = Some a3 \<and> alloc_wf a3
    \<and> live_map a3 = live_map a \<and> free_async_space a3 = free_async_space a"
proof -
  have req: "alloc_request k a (d, offs, is_async) = Some (Some b, a1)" using assms(3) by simp
  show ?thesis
    using bb.use_roundtrip [OF conjI [OF assms(1,2)] req, of u i n bs] by blast
qed

theorem alloc_free_roundtrip_witness:
  "\<exists>a3. binder_free_buf plain_kernel (upd_buffer 0x100000 (set_owner True 1 None None []) granted_state) 0x100000
      = Some a3 \<and> free_async_space a3 = free_async_space mapped_state"
  using alloc_free_roundtrip [OF plain_kernel_ok(1) mapped_state_wf granted_plain] by blast

section \<open>Reachable states\<close>

text \<open>
  C3. Every state of the allocator between \<open>mmap\<close> and \<open>munmap\<close> is well-formed: headers tile
  the mapping, the two trees index exactly the free and the allocated buffers in order,
  adjacent free buffers are merged, a page is present exactly when a header or an allocated
  buffer needs it, and the asynchronous budget adds up.
\<close>

theorem reachable_alloc_wf:
  assumes "alloc_reach k a" and "rb_ok k" and "vm_area_ok k"
  shows "alloc_wf a"
  using alloc_reach_wf [OF assms] .

theorem reachable_alloc_wf_witness:
  "alloc_wf granted_state"
  using reachable_alloc_wf [OF alloc_reach.Step [OF mapped_state_reach alloc_step.Alloc [OF granted_plain]]
      plain_kernel_ok] .

text \<open>
  C4. Nothing leaks: whenever no buffer is allocated, whatever happened before, the mapping is
  one free buffer, only its first page is present, and the whole asynchronous budget is
  available.
\<close>

theorem alloc_no_leak:
  assumes "alloc_reach k a" and "rb_ok k" and "vm_area_ok k" and "live_map a = Map.empty"
  shows "buffers a = [buffer a] \<and> pages a = True # replicate (buffer_size a div 4096 - 1) False
    \<and> free_async_space a = buffer_size a div 2"
  using empty_mapping [OF alloc_reach_wf [OF assms(1-3)] assms(4)] by simp

theorem alloc_no_leak_witness:
  "pages mapped_state = True # replicate 3 False"
proof -
  have "live_map mapped_state = Map.empty"
    by (rule ext)
      (simp add: live_map_def run_defs mapped_state_def plain_kernel_def plain_vma_def)
  from alloc_no_leak [OF mapped_state_reach plain_kernel_ok this]
  show ?thesis by (simp add: run_defs mapped_state_def plain_kernel_def plain_vma_def)
qed

text \<open>
  Allocated buffers never overlap: in every reachable state the space of one ends before
  the header of the next, and all of it lies inside the mapping.
\<close>

theorem live_buffers_disjoint:
  assumes "alloc_reach k a" and "rb_ok k" and "vm_area_ok k"
    and "live_map a b = Some (h, e)" and "live_map a c = Some (h', e')" and "b < c"
  shows "e \<le> c \<and> buffer a \<le> b \<and> data_of b \<le> e \<and> e' \<le> alloc_end a"
proof -
  have wf: "alloc_wf a" using alloc_reach_wf [OF assms(1-3)] .
  have lay: "layout_ok a" using wf by (simp add: alloc_wf_def)
  obtain xs ys where b: "buffers a = xs @ b # ys"
    using live_mapD [OF assms(4)] by (auto simp: in_set_conv_decomp)
  obtain us vs where c: "buffers a = us @ c # vs"
    using live_mapD [OF assms(5)] by (auto simp: in_set_conv_decomp)
  show ?thesis
    using live_regions_apart [OF wf assms(4-6)] buffer_end_bounds(1,3) [OF lay b]
      buffer_end_bounds(2) [OF lay c] live_mapD [OF assms(4)] live_mapD [OF assms(5)] by simp
qed

theorem live_buffers_disjoint_witness:
  "buffer granted2_state \<le> 0x100000 \<and> 0x1000c0 + 80 + 16 \<le> alloc_end granted2_state"
proof -
  obtain h e where e: "live_map granted2_state 0x1000c0 = Some (h, e)" and big: "0x1000c0 + 80 + 16 \<le> e"
    using granted2_live(2) by blast
  note first = granted2_live(1) [unfolded granted_live]
  from live_buffers_disjoint [OF granted2_reach plain_kernel_ok first e]
  show ?thesis using big by simp
qed

text \<open>
  Asynchronous transactions never take more than half of the mapping, headers included:
  in every reachable state the free budget and the cost of the asynchronous buffers add up
  to exactly half of the mapping.
\<close>

theorem async_space_accounted:
  assumes "alloc_reach k a" and "rb_ok k" and "vm_area_ok k"
  shows "free_async_space a + live_cost a = buffer_size a div 2"
  using async_budget [OF alloc_reach_wf [OF assms]] .

theorem async_space_accounted_witness:
  "free_async_space granted_state + live_cost granted_state = buffer_size granted_state div 2"
  using async_space_accounted [OF alloc_reach.Step [OF mapped_state_reach alloc_step.Alloc [OF granted_plain]]
      plain_kernel_ok] .

text \<open>
  \<open>binder_buffer_lookup\<close> never reaches its \<open>BUG_ON\<close> and finds a buffer exactly when the user
  pointer is the user address of an allocated buffer's data.
\<close>

theorem buffer_lookup_correct:
  assumes "alloc_wf a" and "user_ptr < 2 ^ 64"
  shows "\<exists>r. binder_buffer_lookup a user_ptr = Some r
    \<and> (\<forall>b. r = Some b \<longleftrightarrow> live_map a b \<noteq> None
          \<and> int user_ptr = (int (data_of b) + user_buffer_offset a) mod 2 ^ 64)"
  using buffer_lookup_spec [OF assms] by metis

theorem buffer_lookup_correct_witness:
  "binder_buffer_lookup granted_state 0x7000050 = Some (Some 0x100000)"
proof -
  have off: "user_buffer_offset granted_state = 0x6f00000"
    by (simp add: granted_state_def run_defs mapped_state_def plain_kernel_def plain_vma_def)
  obtain r where "binder_buffer_lookup granted_state 0x7000050 = Some r"
    "\<forall>b. r = Some b \<longleftrightarrow> live_map granted_state b \<noteq> None
          \<and> int 0x7000050 = (int (data_of b) + user_buffer_offset granted_state) mod 2 ^ 64"
    using buffer_lookup_correct [OF granted_state_wf, of "0x7000050"] by auto
  then show ?thesis by (simp add: granted_live off)
qed

text \<open>
  \<open>binder_mmap\<close> of a process that has no mapping returns, never with a writable area: it
  fails with a negative code and the process stays unmapped, or it succeeds with an empty,
  well-formed allocator over at most four megabytes.
\<close>

theorem binder_mmap_correct:
  assumes "rb_ok k" and "vm_area_ok k" and "vma_ok v" and "unmapped a"
  shows "\<exists>ret v' a' files. binder_mmap k current a v = Some (ret, v', a', files)
    \<and> (if ret = 0 then alloc_wf a' \<and> live_map a' = Map.empty \<and> buffer_size a' \<le> SZ_4M
          \<and> vm_flags v AND VM_WRITE = 0 \<and> vma a' = Some (vm_id v)
       else ret < 0 \<and> unmapped a')"
  by (rule binder_mmap_cases [OF assms, of current]) auto

theorem binder_mmap_correct_witness:
  "\<exists>ret v' a' files. binder_mmap plain_kernel 7 (zeroed_alloc 7) plain_vma = Some (ret, v', a', files)
    \<and> ret = 0 \<and> alloc_wf a'"
  using binder_mmap_correct [OF plain_kernel_ok plain_vma_ok unmapped_zeroed [of 7], of 7] binder_mmap_plain
  by fastforce

end
