(* ===== verification/Rb_Index.thy ===== *)
theory Rb_Index
  imports Binder_Alloc_Inv
begin

text \<open>
  The driver's other red-black trees: threads by pid, nodes by user pointer, references by
  descriptor and by node. All four have unique keys and are searched and linked the same
  way. A tree holds object addresses; \<open>key\<close> reads the key out of an object, and \<open>None\<close> is an
  object that is gone, so that a walk over a freed object is a fault.
\<close>

fun rb_find :: "(addr \<Rightarrow> 'k::linorder option) \<Rightarrow> 'k \<Rightarrow> addr tree \<Rightarrow> addr option option" where
  "rb_find key x Leaf = Some None"
| "rb_find key x (Node l a r) =
     do { y \<leftarrow> key a;
          if x < y then rb_find key x l else if x > y then rb_find key x r else Some (Some a) }"

text \<open>The descent that looks for the place of a new key; \<open>Inl\<close> is an element with that key.\<close>

fun rb_link :: "(addr \<Rightarrow> 'k::linorder option) \<Rightarrow> 'k \<Rightarrow> addr \<Rightarrow> addr tree \<Rightarrow> (addr + addr tree) option" where
  "rb_link key x new Leaf = Some (Inr (Node Leaf new Leaf))"
| "rb_link key x new (Node l a r) =
     do { y \<leftarrow> key a;
          if x < y then do { t \<leftarrow> rb_link key x new l; Some (map_sum id (\<lambda>l'. Node l' a r) t) }
          else if x > y then do { t \<leftarrow> rb_link key x new r; Some (map_sum id (\<lambda>r'. Node l a r') t) }
          else Some (Inl a) }"

text \<open>\<open>rb_first\<close>: the leftmost element.\<close>

fun rb_first :: "addr tree \<Rightarrow> addr option" where
  "rb_first Leaf = None"
| "rb_first (Node Leaf a r) = Some a"
| "rb_first (Node l a r) = rb_first l"

lemma rb_first_inorder: "rb_first t = (case inorder t of [] \<Rightarrow> None | a # _ \<Rightarrow> Some a)"
proof (induction t rule: rb_first.induct)
  case (3 ll b lr a r)
  have "inorder (Node ll b lr) \<noteq> []" by simp
  with 3 show ?case by (cases "inorder (Node ll b lr)") auto
qed simp_all

section \<open>Well-formed indexes\<close>

definition rb_sorted :: "(addr \<Rightarrow> 'k::linorder option) \<Rightarrow> addr tree \<Rightarrow> bool" where
  "rb_sorted key t \<longleftrightarrow> (\<forall>a\<in>set_tree t. key a \<noteq> None)
     \<and> sorted_wrt (<) (map (the \<circ> key) (inorder t))"

lemma rb_sorted_simps [simp]:
  "rb_sorted key Leaf"
  "rb_sorted key (Node l a r) \<longleftrightarrow> rb_sorted key l \<and> rb_sorted key r \<and> key a \<noteq> None
     \<and> (\<forall>b\<in>set_tree l. the (key b) < the (key a)) \<and> (\<forall>b\<in>set_tree r. the (key a) < the (key b))"
proof -
  show "rb_sorted key Leaf" by (simp add: rb_sorted_def)
  have "sorted_wrt (<) (map (the \<circ> key) (inorder (Node l a r))) \<longleftrightarrow>
      sorted_wrt (<) (map (the \<circ> key) (inorder l)) \<and> sorted_wrt (<) (map (the \<circ> key) (inorder r))
      \<and> (\<forall>b\<in>set_tree l. the (key b) < the (key a)) \<and> (\<forall>b\<in>set_tree r. the (key a) < the (key b))"
    by (auto simp: sorted_wrt_append intro: less_trans)
  then show "rb_sorted key (Node l a r) \<longleftrightarrow> rb_sorted key l \<and> rb_sorted key r \<and> key a \<noteq> None
     \<and> (\<forall>b\<in>set_tree l. the (key b) < the (key a)) \<and> (\<forall>b\<in>set_tree r. the (key a) < the (key b))"
    by (auto simp: rb_sorted_def)
qed

lemma rb_sorted_inorder: "inorder t' = inorder t \<Longrightarrow> rb_sorted key t' = rb_sorted key t"
  by (simp add: rb_sorted_def flip: set_inorder)

lemma rb_sorted_cong:
  assumes "rb_sorted key t" and "\<And>a. a \<in> set_tree t \<Longrightarrow> key' a = key a"
  shows "rb_sorted key' t"
proof -
  have eq: "map (the \<circ> key') (inorder t) = map (the \<circ> key) (inorder t)"
    by (rule map_cong [OF refl]) (use assms(2) in \<open>simp flip: set_inorder\<close>)
  have "\<forall>a\<in>set_tree t. key' a \<noteq> None" using assms by (auto simp: rb_sorted_def)
  then show ?thesis using assms(1) unfolding rb_sorted_def eq by blast
qed

lemma rb_sorted_key: "rb_sorted key t \<Longrightarrow> a \<in> set_tree t \<Longrightarrow> key a \<noteq> None"
  by (simp add: rb_sorted_def)

lemma rb_sorted_distinct: "rb_sorted key t \<Longrightarrow> distinct (inorder t)"
  by (auto simp: rb_sorted_def strict_sorted_iff distinct_map)

lemma rb_sorted_inj: "rb_sorted key t \<Longrightarrow> a \<in> set_tree t \<Longrightarrow> b \<in> set_tree t \<Longrightarrow> key a = key b \<Longrightarrow> a = b"
  by (induction t) fastforce+

lemma rb_find_spec:
  assumes "rb_sorted key t"
  shows "\<exists>r. rb_find key x t = Some r \<and> (\<forall>a. r = Some a \<longleftrightarrow> a \<in> set_tree t \<and> key a = Some x)"
  using assms
proof (induction t)
  case Leaf
  then show ?case by simp
next
  case (Node l a r)
  obtain y where y: "key a = Some y" using Node.prems by auto
  have lo: "\<And>b. b \<in> set_tree l \<Longrightarrow> key b = Some x \<Longrightarrow> x < y"
    and hi: "\<And>b. b \<in> set_tree r \<Longrightarrow> key b = Some x \<Longrightarrow> y < x"
    using Node.prems y by force+
  consider "x < y" | "y < x" | "x = y" by fastforce
  then show ?case
  proof cases
    case 1
    then show ?thesis using Node y hi by (auto dest!: hi)
  next
    case 2
    then show ?thesis using Node y lo by (auto dest!: lo)
  next
    case 3
    then show ?thesis using y lo hi by auto
  qed
qed

lemma rb_link_spec:
  assumes "rb_sorted key t"
  shows "(\<exists>a\<in>set_tree t. key a = Some x \<and> rb_link key x new t = Some (Inl a))
       \<or> (\<exists>t'. rb_link key x new t = Some (Inr t') \<and> (\<forall>a\<in>set_tree t. key a \<noteq> Some x)
             \<and> set_tree t' = insert new (set_tree t) \<and> (key new = Some x \<longrightarrow> rb_sorted key t'))"
  using assms
proof (induction t)
  case Leaf
  then show ?case by auto
next
  case (Node l a r)
  obtain y where y: "key a = Some y" using Node.prems by auto
  have lo: "\<And>b. b \<in> set_tree l \<Longrightarrow> the (key b) < y \<and> key b \<noteq> None"
    and hi: "\<And>b. b \<in> set_tree r \<Longrightarrow> y < the (key b) \<and> key b \<noteq> None"
    using Node.prems y rb_sorted_key [of key l] rb_sorted_key [of key r] by auto
  consider "x < y" | "y < x" | "x = y" by fastforce
  then show ?case
  proof cases
    case 1
    have "rb_sorted key l" using Node.prems by simp
    from Node.IH(1) [OF this] show ?thesis
    proof (elim disjE bexE exE conjE)
      fix b assume "b \<in> set_tree l" "key b = Some x" "rb_link key x new l = Some (Inl b)"
      then show ?thesis using 1 y by auto
    next
      fix t' assume t': "rb_link key x new l = Some (Inr t')" "\<forall>a\<in>set_tree l. key a \<noteq> Some x"
        "set_tree t' = insert new (set_tree l)" "key new = Some x \<longrightarrow> rb_sorted key t'"
      have "\<forall>b\<in>set_tree (Node l a r). key b \<noteq> Some x" using 1 y t'(2) hi by force
      moreover have "key new = Some x \<longrightarrow> rb_sorted key (Node t' a r)" using 1 y t'(3,4) Node.prems by auto
      ultimately show ?thesis using 1 y t'(1,3) by (intro disjI2) auto
    qed
  next
    case 2
    have "rb_sorted key r" using Node.prems by simp
    from Node.IH(2) [OF this] show ?thesis
    proof (elim disjE bexE exE conjE)
      fix b assume "b \<in> set_tree r" "key b = Some x" "rb_link key x new r = Some (Inl b)"
      then show ?thesis using 2 y by auto
    next
      fix t' assume t': "rb_link key x new r = Some (Inr t')" "\<forall>a\<in>set_tree r. key a \<noteq> Some x"
        "set_tree t' = insert new (set_tree r)" "key new = Some x \<longrightarrow> rb_sorted key t'"
      have "\<forall>b\<in>set_tree (Node l a r). key b \<noteq> Some x" using 2 y t'(2) lo by force
      moreover have "key new = Some x \<longrightarrow> rb_sorted key (Node l a t')" using 2 y t'(3,4) Node.prems by auto
      ultimately show ?thesis using 2 y t'(1,3) by (intro disjI2) auto
    qed
  next
    case 3
    then show ?thesis using y by auto
  qed
qed

lemma rb_link_cong:
  "(\<And>a. a \<in> set_tree t \<Longrightarrow> key a = key' a) \<Longrightarrow> rb_link key x new t = rb_link key' x new t"
proof (induction t)
  case (Node l a r)
  have "key a = key' a" using Node.prems by simp
  moreover have "rb_link key x new l = rb_link key' x new l" using Node.IH(1) Node.prems by simp
  moreover have "rb_link key x new r = rb_link key' x new r" using Node.IH(2) Node.prems by simp
  ultimately show ?case by (simp only: rb_link.simps)
qed simp

lemma rb_sorted_erase:
  assumes "rb_ok k" and "rb_sorted key t" and "a \<in> set_tree t"
  shows "rb_sorted key (rb_erase k a t)" and "set_tree (rb_erase k a t) = set_tree t - {a}"
proof -
  have d: "distinct (inorder t)" using assms(2) by (rule rb_sorted_distinct)
  show s: "set_tree (rb_erase k a t) = set_tree t - {a}"
    using rb_ok_erase_set [OF assms(1,3) d] .
  have "sorted_wrt (<) (map (the \<circ> key) (remove1 a (inorder t)))"
    using assms(2) d sorted_map_remove1 [of "the \<circ> key" "inorder t" a]
    by (auto simp: rb_sorted_def strict_sorted_iff distinct_map intro: inj_on_subset dest: notin_set_remove1)
  then show "rb_sorted key (rb_erase k a t)"
    using assms s by (simp add: rb_sorted_def)
qed

section \<open>The contract of an index\<close>

locale ordered_index =
  fixes inv :: "'t \<Rightarrow> bool"
    and elems :: "'t \<Rightarrow> 'a set"
    and key :: "'a \<Rightarrow> 'k option"
    and find :: "'k \<Rightarrow> 't \<Rightarrow> 'a option option"
    and ins :: "'a \<Rightarrow> 'k \<Rightarrow> 't \<Rightarrow> 't option"
    and del :: "'a \<Rightarrow> 't \<Rightarrow> 't"
  assumes find_total: "inv t \<Longrightarrow> \<exists>r. find x t = Some r"
    and find_iff: "inv t \<Longrightarrow> find x t = Some (Some a) \<longleftrightarrow> a \<in> elems t \<and> key a = Some x"
    and ins_new: "inv t \<Longrightarrow> key a = Some x \<Longrightarrow> find x t = Some None \<Longrightarrow>
          \<exists>t'. ins a x t = Some t' \<and> inv t' \<and> elems t' = insert a (elems t)"
    and del_law: "inv t \<Longrightarrow> a \<in> elems t \<Longrightarrow> inv (del a t) \<and> elems (del a t) = elems t - {a}"
begin

lemma find_after_insert:
  assumes "inv t" and "key a = Some x" and "find x t = Some None" and "ins a x t = Some t'"
  shows "find x t' = Some (Some a)" and "y \<noteq> x \<Longrightarrow> find y t' = find y t"
proof -
  have t': "inv t'" "elems t' = insert a (elems t)" using ins_new [OF assms(1-3)] assms(4) by auto
  show "find x t' = Some (Some a)" using find_iff [OF t'(1)] t'(2) assms(2) by simp
  assume ne: "y \<noteq> x"
  obtain r r' where r: "find y t = Some r" "find y t' = Some r'"
    using find_total assms(1) t'(1) by blast
  have "r' = Some b \<longleftrightarrow> r = Some b" for b
    using find_iff [OF assms(1), of y b] find_iff [OF t'(1), of y b] r t'(2) ne assms(2) by auto
  then show "find y t' = find y t" using r by (cases r; cases r') auto
qed

lemma find_after_delete:
  assumes "inv t" and "find x t = Some (Some a)"
  shows "y \<noteq> x \<Longrightarrow> find y (del a t) = find y t"
    and "(\<And>b. b \<in> elems t \<Longrightarrow> key b = Some x \<Longrightarrow> b = a) \<Longrightarrow> find x (del a t) = Some None"
proof -
  have a: "a \<in> elems t" "key a = Some x" using find_iff assms by auto
  have d: "inv (del a t)" "elems (del a t) = elems t - {a}" using del_law [OF assms(1) a(1)] by auto
  obtain r r' where r: "find y t = Some r" "find y (del a t) = Some r'"
    using find_total assms(1) d(1) by blast
  have "r' = Some b \<longleftrightarrow> b \<in> elems t \<and> b \<noteq> a \<and> key b = Some y" for b
    using find_iff [OF d(1), of y b] r(2) d(2) by simp
  moreover have "r = Some b \<longleftrightarrow> b \<in> elems t \<and> key b = Some y" for b
    using find_iff [OF assms(1), of y b] r(1) by simp
  ultimately have "r' = Some b \<longleftrightarrow> r = Some b" if "y \<noteq> x" for b using a(2) that by auto
  then show "find y (del a t) = find y t" if "y \<noteq> x" using r that by (cases r; cases r') auto
  obtain q where q: "find x (del a t) = Some q" using find_total d(1) by blast
  show "find x (del a t) = Some None" if "\<And>b. b \<in> elems t \<Longrightarrow> key b = Some x \<Longrightarrow> b = a"
    using q find_iff [OF d(1), of x] d(2) that by (cases q) auto
qed

end

text \<open>Linking and rebalancing, as the driver does after a descent that found no equal key.\<close>

definition rb_insert :: "'m kernel_mm_scheme \<Rightarrow> (addr \<Rightarrow> 'k::linorder option) \<Rightarrow> addr \<Rightarrow> 'k \<Rightarrow> addr tree \<Rightarrow> addr tree option" where
  "rb_insert k key a x t =
     (case rb_link key x a t of Some (Inr t') \<Rightarrow> Some (rb_insert_color k a t') | _ \<Rightarrow> None)"

interpretation rb: ordered_index "\<lambda>t. rb_ok k \<and> rb_sorted key t" set_tree key "rb_find key"
  "rb_insert k key" "rb_erase k"
  for k :: "'m kernel_mm_scheme" and key :: "addr \<Rightarrow> 'k::linorder option"
proof
  fix t x a
  assume inv: "rb_ok k \<and> rb_sorted key t"
  obtain r where r: "rb_find key x t = Some r" "\<forall>a. r = Some a \<longleftrightarrow> a \<in> set_tree t \<and> key a = Some x"
    using rb_find_spec inv by blast
  show "\<exists>r. rb_find key x t = Some r" using r(1) by blast
  show "rb_find key x t = Some (Some a) \<longleftrightarrow> a \<in> set_tree t \<and> key a = Some x" using r by simp
  show "\<exists>t'. rb_insert k key a x t = Some t' \<and> (rb_ok k \<and> rb_sorted key t') \<and> set_tree t' = insert a (set_tree t)"
    if "key a = Some x" "rb_find key x t = Some None"
  proof -
    have none: "\<forall>b\<in>set_tree t. key b \<noteq> Some x" using r that by auto
    with rb_link_spec [of key t x a] inv that(1)
    obtain t' where t': "rb_link key x a t = Some (Inr t')" "set_tree t' = insert a (set_tree t)" "rb_sorted key t'"
      by auto
    then show ?thesis
      using inv rb_sorted_inorder [of "rb_insert_color k a t'" t' key] by (auto simp: rb_insert_def)
  qed
  show "(rb_ok k \<and> rb_sorted key (rb_erase k a t)) \<and> set_tree (rb_erase k a t) = set_tree t - {a}"
    if "a \<in> set_tree t" using rb_sorted_erase inv that by blast
qed

end
