(* ===== verification/Bytes.thy ===== *)
theory Bytes
  imports Prelude
begin

text \<open>
  Little-endian words in byte sequences, and a process' memory as the driver sees it through
  \<open>get_user\<close>, \<open>put_user\<close>, \<open>copy_from_user\<close> and \<open>copy_to_user\<close>.
\<close>

unbundle bit_operations_syntax

section \<open>Words as bytes\<close>

definition le_bytes :: "nat \<Rightarrow> 'a::len word \<Rightarrow> byte list" where
  "le_bytes n w = map (\<lambda>i. ucast (drop_bit (8 * i) w)) [0..<n]"

fun le_word :: "byte list \<Rightarrow> 'a::len word" where
  "le_word [] = 0"
| "le_word (b # bs) = ucast b OR push_bit 8 (le_word bs)"

lemma length_le_bytes [simp]: "length (le_bytes n w) = n"
  by (simp add: le_bytes_def)

lemma bit_le_word:
  "bit (le_word bs :: 'a::len word) i
     \<longleftrightarrow> i < LENGTH('a) \<and> i < 8 * length bs \<and> bit (bs ! (i div 8)) (i mod 8)"
proof (induction bs arbitrary: i)
  case Nil
  then show ?case by simp
next
  case (Cons b bs)
  show ?case
  proof (cases "i < 8")
    case True
    then show ?thesis
      by (auto simp: bit_or_iff bit_push_bit_iff bit_ucast_iff dest: bit_imp_le_length)
  next
    case False
    then obtain j where j: "i = j + 8" by (metis add.commute le_add_diff_inverse not_less)
    have "\<not> bit b (j + 8)" using bit_imp_le_length [of b "j + 8"] by auto
    then show ?thesis
      using Cons.IH [of j] div_add_self2 [of 8 j]
      by (auto simp: j bit_or_iff bit_push_bit_iff bit_ucast_iff)
  qed
qed

lemma bit_le_bytes_nth:
  "i < 8 * n \<Longrightarrow> bit (le_bytes n w ! (i div 8)) (i mod 8) \<longleftrightarrow> bit w i"
  for w :: "'a::len word"
proof -
  assume "i < 8 * n"
  then have "i div 8 < n" by auto
  then have "le_bytes n w ! (i div 8) = ucast (drop_bit (8 * (i div 8)) w)" by (simp add: le_bytes_def)
  moreover have "8 * (i div 8) + i mod 8 = i" by simp
  moreover have "i mod 8 < LENGTH(8)" by simp
  ultimately show ?thesis by (simp add: bit_ucast_iff bit_drop_bit_eq)
qed

lemma le_word_le_bytes:
  fixes w :: "'a::len word"
  assumes "LENGTH('a) \<le> 8 * n"
  shows "le_word (le_bytes n w) = w"
proof (rule bit_word_eqI)
  fix i assume "i < LENGTH('a)"
  moreover from this have "i < 8 * n" using assms by simp
  ultimately show "bit (le_word (le_bytes n w) :: 'a word) i \<longleftrightarrow> bit w i"
    using bit_le_bytes_nth [of i n w] by (simp add: bit_le_word)
qed

lemma le_bytes_le_word:
  assumes "length bs = n" and "8 * n \<le> LENGTH('a)"
  shows "le_bytes n (le_word bs :: 'a::len word) = bs"
proof (rule nth_equalityI)
  show "length (le_bytes n (le_word bs :: 'a word)) = length bs" using assms by simp
  fix i assume "i < length (le_bytes n (le_word bs :: 'a word))"
  then have i: "i < n" by simp
  show "le_bytes n (le_word bs :: 'a word) ! i = bs ! i"
  proof (rule bit_word_eqI)
    fix j assume "j < LENGTH(8)"
    then have j: "j < 8" by simp
    have "8 * i + j < 8 * n" using i j by linarith
    then have "bit (le_bytes n (le_word bs :: 'a word) ! ((8 * i + j) div 8)) ((8 * i + j) mod 8)
        \<longleftrightarrow> bit (le_word bs :: 'a word) (8 * i + j)"
      by (rule bit_le_bytes_nth)
    then show "bit (le_bytes n (le_word bs :: 'a word) ! i) j \<longleftrightarrow> bit (bs ! i) j"
      using j i assms \<open>8 * i + j < 8 * n\<close> by (simp add: bit_le_word)
  qed
qed

abbreviation u32_bytes :: "u32 \<Rightarrow> byte list" where "u32_bytes \<equiv> le_bytes 4"
abbreviation u64_bytes :: "u64 \<Rightarrow> byte list" where "u64_bytes \<equiv> le_bytes 8"
abbreviation u16_bytes :: "u16 \<Rightarrow> byte list" where "u16_bytes \<equiv> le_bytes 2"

lemma u32_roundtrip [simp]: "le_word (u32_bytes w) = w"
  by (rule le_word_le_bytes) simp

lemma u64_roundtrip [simp]: "le_word (u64_bytes w) = w"
  by (rule le_word_le_bytes) simp

lemma u16_roundtrip [simp]: "le_word (u16_bytes w) = w"
  by (rule le_word_le_bytes) simp

section \<open>Fields of a byte sequence\<close>

text \<open>Reading and writing \<open>n\<close> bytes at an offset; both are defined inside the sequence only.\<close>

definition get_range :: "byte list \<Rightarrow> nat \<Rightarrow> nat \<Rightarrow> byte list option" where
  "get_range bs off n = (if off + n \<le> length bs then Some (take n (drop off bs)) else None)"

definition put_range :: "byte list \<Rightarrow> nat \<Rightarrow> byte list \<Rightarrow> byte list option" where
  "put_range bs off new =
     (if off + length new \<le> length bs then Some (take off bs @ new @ drop (off + length new) bs)
      else None)"

definition get_u32 :: "byte list \<Rightarrow> nat \<Rightarrow> u32 option" where
  "get_u32 bs off = map_option le_word (get_range bs off 4)"

definition get_u64 :: "byte list \<Rightarrow> nat \<Rightarrow> u64 option" where
  "get_u64 bs off = map_option le_word (get_range bs off 8)"

definition put_u32 :: "byte list \<Rightarrow> nat \<Rightarrow> u32 \<Rightarrow> byte list option" where
  "put_u32 bs off w = put_range bs off (u32_bytes w)"

definition put_u64 :: "byte list \<Rightarrow> nat \<Rightarrow> u64 \<Rightarrow> byte list option" where
  "put_u64 bs off w = put_range bs off (u64_bytes w)"

lemma put_range_length: "put_range bs off new = Some bs' \<Longrightarrow> length bs' = length bs"
  by (auto simp: put_range_def split: if_splits)

lemma put_range_total: "off + length new \<le> length bs \<Longrightarrow> \<exists>bs'. put_range bs off new = Some bs'"
  by (simp add: put_range_def)

lemma get_put_same:
  "put_range bs off new = Some bs' \<Longrightarrow> get_range bs' off (length new) = Some new"
  by (auto simp: put_range_def get_range_def split: if_splits)

lemma nth_put_range:
  assumes "put_range bs off new = Some bs'" and "i < length bs" and "i < off \<or> off + length new \<le> i"
  shows "bs' ! i = bs ! i"
  using assms by (auto simp: put_range_def nth_append split: if_splits)

lemma get_put_other:
  assumes "put_range bs off new = Some bs'" and "off' + n \<le> off \<or> off + length new \<le> off'"
  shows "get_range bs' off' n = get_range bs off' n"
proof (cases "off' + n \<le> length bs")
  case True
  have len: "length bs' = length bs" using put_range_length [OF assms(1)] .
  have "take n (drop off' bs') = take n (drop off' bs)"
  proof (rule nth_equalityI)
    fix i assume "i < length (take n (drop off' bs'))"
    then have i: "i < n" "off' + i < length bs" using True len by auto
    then show "take n (drop off' bs') ! i = take n (drop off' bs) ! i"
      using nth_put_range [OF assms(1), of "off' + i"] assms(2) len by auto
  qed (simp add: len)
  then show ?thesis using True len by (simp add: get_range_def)
next
  case False
  then show ?thesis using put_range_length [OF assms(1)] by (simp add: get_range_def)
qed

lemma get_put_u32: "put_u32 bs off w = Some bs' \<Longrightarrow> get_u32 bs' off = Some w"
  using get_put_same [of bs off "u32_bytes w" bs'] by (simp add: put_u32_def get_u32_def)

lemma get_put_u64: "put_u64 bs off w = Some bs' \<Longrightarrow> get_u64 bs' off = Some w"
  using get_put_same [of bs off "u64_bytes w" bs'] by (simp add: put_u64_def get_u64_def)

section \<open>User memory\<close>

text \<open>
  The bytes a process can read, and the addresses it can write. A failing access is \<open>None\<close>
  and leaves the memory alone; the partial copy that a real fault may leave behind in the
  caller's own buffer is not modelled.
\<close>

record user_space =
  u_bytes :: "u64 \<Rightarrow> byte option"
  u_writable :: "u64 \<Rightarrow> bool"

definition copy_from_user :: "user_space \<Rightarrow> u64 \<Rightarrow> nat \<Rightarrow> byte list option" where
  "copy_from_user um a n = those (map (\<lambda>i. u_bytes um (a + word_of_nat i)) [0..<n])"

fun poke_bytes :: "(u64 \<Rightarrow> byte option) \<Rightarrow> u64 \<Rightarrow> byte list \<Rightarrow> (u64 \<Rightarrow> byte option)" where
  "poke_bytes m a [] = m"
| "poke_bytes m a (b # bs) = poke_bytes (m(a \<mapsto> b)) (a + 1) bs"

definition copy_to_user :: "user_space \<Rightarrow> u64 \<Rightarrow> byte list \<Rightarrow> user_space option" where
  "copy_to_user um a bs =
     (if list_all (\<lambda>i. u_writable um (a + word_of_nat i)) [0..<length bs]
      then Some (um\<lparr>u_bytes := poke_bytes (u_bytes um) a bs\<rparr>) else None)"

definition get_user32 :: "user_space \<Rightarrow> u64 \<Rightarrow> u32 option" where
  "get_user32 um a = map_option le_word (copy_from_user um a 4)"

definition get_user64 :: "user_space \<Rightarrow> u64 \<Rightarrow> u64 option" where
  "get_user64 um a = map_option le_word (copy_from_user um a 8)"

abbreviation put_user32 :: "user_space \<Rightarrow> u64 \<Rightarrow> u32 \<Rightarrow> user_space option" where
  "put_user32 um a w \<equiv> copy_to_user um a (u32_bytes w)"

abbreviation put_user64 :: "user_space \<Rightarrow> u64 \<Rightarrow> u64 \<Rightarrow> user_space option" where
  "put_user64 um a w \<equiv> copy_to_user um a (u64_bytes w)"

lemma those_length: "those xs = Some ys \<Longrightarrow> length ys = length xs"
  by (induction xs arbitrary: ys) (auto split: option.splits)

lemma copy_from_user_length: "copy_from_user um a n = Some bs \<Longrightarrow> length bs = n"
  unfolding copy_from_user_def by (drule those_length) simp

end
