(* ===== verification/Binder_State.thy ===== *)
theory Binder_State
  imports Rb_Index Binder_Mmap Bytes
begin

text \<open>
  The state of the binder driver (\<open>driver/binder/binder.c\<close>) and its protocol constants
  (\<open>driver/binder/binder.h\<close>). Kernel objects live in maps from addresses; \<open>kzalloc\<close> hands out a
  fresh address or fails, and \<open>kfree\<close> removes the object, so that an access to a freed object
  is \<open>None\<close>, as a \<open>BUG()\<close> is. Reference counts are C \<open>int\<close>s far from their limits and are
  modelled as integers. Statistics, tracing and debug output are left out.
\<close>

section \<open>Protocol constants\<close>

abbreviation br_code :: "nat \<Rightarrow> nat \<Rightarrow> u32" where "br_code nr sz \<equiv> ioc (if sz = 0 then 0 else 2) 114 nr sz"
abbreviation bc_code :: "nat \<Rightarrow> nat \<Rightarrow> u32" where "bc_code nr sz \<equiv> ioc (if sz = 0 then 0 else 1) 99 nr sz"

abbreviation sizeof_transaction_data :: nat where "sizeof_transaction_data \<equiv> 64"
abbreviation sizeof_flat_object :: nat where "sizeof_flat_object \<equiv> 24"

definition BR_ERROR :: u32 where "BR_ERROR = br_code 0 4"
definition BR_OK :: u32 where "BR_OK = br_code 1 0"
definition BR_TRANSACTION :: u32 where "BR_TRANSACTION = br_code 2 64"
definition BR_REPLY :: u32 where "BR_REPLY = br_code 3 64"
definition BR_DEAD_REPLY :: u32 where "BR_DEAD_REPLY = br_code 5 0"
definition BR_TRANSACTION_COMPLETE :: u32 where "BR_TRANSACTION_COMPLETE = br_code 6 0"
definition BR_INCREFS :: u32 where "BR_INCREFS = br_code 7 16"
definition BR_ACQUIRE :: u32 where "BR_ACQUIRE = br_code 8 16"
definition BR_RELEASE :: u32 where "BR_RELEASE = br_code 9 16"
definition BR_DECREFS :: u32 where "BR_DECREFS = br_code 10 16"
definition BR_NOOP :: u32 where "BR_NOOP = br_code 12 0"
definition BR_SPAWN_LOOPER :: u32 where "BR_SPAWN_LOOPER = br_code 13 0"
definition BR_DEAD_BINDER :: u32 where "BR_DEAD_BINDER = br_code 15 8"
definition BR_CLEAR_DEATH_NOTIFICATION_DONE :: u32 where
  "BR_CLEAR_DEATH_NOTIFICATION_DONE = br_code 16 8"
definition BR_FAILED_REPLY :: u32 where "BR_FAILED_REPLY = br_code 17 0"

definition BC_TRANSACTION :: u32 where "BC_TRANSACTION = bc_code 0 64"
definition BC_REPLY :: u32 where "BC_REPLY = bc_code 1 64"
definition BC_ACQUIRE_RESULT :: u32 where "BC_ACQUIRE_RESULT = bc_code 2 4"
definition BC_FREE_BUFFER :: u32 where "BC_FREE_BUFFER = bc_code 3 8"
definition BC_INCREFS :: u32 where "BC_INCREFS = bc_code 4 4"
definition BC_ACQUIRE :: u32 where "BC_ACQUIRE = bc_code 5 4"
definition BC_RELEASE :: u32 where "BC_RELEASE = bc_code 6 4"
definition BC_DECREFS :: u32 where "BC_DECREFS = bc_code 7 4"
definition BC_INCREFS_DONE :: u32 where "BC_INCREFS_DONE = bc_code 8 16"
definition BC_ACQUIRE_DONE :: u32 where "BC_ACQUIRE_DONE = bc_code 9 16"
definition BC_ATTEMPT_ACQUIRE :: u32 where "BC_ATTEMPT_ACQUIRE = bc_code 10 8"
definition BC_REGISTER_LOOPER :: u32 where "BC_REGISTER_LOOPER = bc_code 11 0"
definition BC_ENTER_LOOPER :: u32 where "BC_ENTER_LOOPER = bc_code 12 0"
definition BC_EXIT_LOOPER :: u32 where "BC_EXIT_LOOPER = bc_code 13 0"
definition BC_REQUEST_DEATH_NOTIFICATION :: u32 where "BC_REQUEST_DEATH_NOTIFICATION = bc_code 14 12"
definition BC_CLEAR_DEATH_NOTIFICATION :: u32 where "BC_CLEAR_DEATH_NOTIFICATION = bc_code 15 12"
definition BC_DEAD_BINDER_DONE :: u32 where "BC_DEAD_BINDER_DONE = bc_code 16 8"

definition BINDER_WRITE_READ :: u32 where "BINDER_WRITE_READ = ioc 3 98 1 48"
definition BINDER_SET_MAX_THREADS :: u32 where "BINDER_SET_MAX_THREADS = ioc 1 98 5 4"
definition BINDER_SET_CONTEXT_MGR :: u32 where "BINDER_SET_CONTEXT_MGR = ioc 1 98 7 4"
definition BINDER_THREAD_EXIT :: u32 where "BINDER_THREAD_EXIT = ioc 1 98 8 4"
definition BINDER_VERSION :: u32 where "BINDER_VERSION = ioc 3 98 9 4"
abbreviation BINDER_CURRENT_PROTOCOL_VERSION :: u32 where "BINDER_CURRENT_PROTOCOL_VERSION \<equiv> 8"

text \<open>\<open>B_PACK_CHARS\<close> with \<open>B_TYPE_LARGE\<close>.\<close>

definition b_pack :: "nat \<Rightarrow> nat \<Rightarrow> u32" where
  "b_pack c1 c2 = word_of_nat (c1 * 2 ^ 24 + c2 * 2 ^ 16 + 42 * 2 ^ 8 + 0x85)"

definition BINDER_TYPE_BINDER :: u32 where "BINDER_TYPE_BINDER = b_pack 115 98"
definition BINDER_TYPE_WEAK_BINDER :: u32 where "BINDER_TYPE_WEAK_BINDER = b_pack 119 98"
definition BINDER_TYPE_HANDLE :: u32 where "BINDER_TYPE_HANDLE = b_pack 115 104"
definition BINDER_TYPE_WEAK_HANDLE :: u32 where "BINDER_TYPE_WEAK_HANDLE = b_pack 119 104"
definition BINDER_TYPE_FD :: u32 where "BINDER_TYPE_FD = b_pack 102 100"

abbreviation TF_ONE_WAY :: u32 where "TF_ONE_WAY \<equiv> 0x01"
abbreviation TF_STATUS_CODE :: u32 where "TF_STATUS_CODE \<equiv> 0x08"
abbreviation TF_ACCEPT_FDS :: u32 where "TF_ACCEPT_FDS \<equiv> 0x10"
abbreviation FLAT_BINDER_FLAG_PRIORITY_MASK :: u32 where "FLAT_BINDER_FLAG_PRIORITY_MASK \<equiv> 0xff"
abbreviation FLAT_BINDER_FLAG_ACCEPTS_FDS :: u32 where "FLAT_BINDER_FLAG_ACCEPTS_FDS \<equiv> 0x100"

abbreviation LOOPER_REGISTERED :: u32 where "LOOPER_REGISTERED \<equiv> 0x01"
abbreviation LOOPER_ENTERED :: u32 where "LOOPER_ENTERED \<equiv> 0x02"
abbreviation LOOPER_EXITED :: u32 where "LOOPER_EXITED \<equiv> 0x04"
abbreviation LOOPER_INVALID :: u32 where "LOOPER_INVALID \<equiv> 0x08"
abbreviation LOOPER_WAITING :: u32 where "LOOPER_WAITING \<equiv> 0x10"
abbreviation LOOPER_NEED_RETURN :: u32 where "LOOPER_NEED_RETURN \<equiv> 0x20"

lemmas br_codes = BR_ERROR_def BR_OK_def BR_TRANSACTION_def BR_REPLY_def BR_DEAD_REPLY_def
  BR_TRANSACTION_COMPLETE_def BR_INCREFS_def BR_ACQUIRE_def BR_RELEASE_def BR_DECREFS_def BR_NOOP_def
  BR_SPAWN_LOOPER_def BR_DEAD_BINDER_def BR_CLEAR_DEATH_NOTIFICATION_DONE_def BR_FAILED_REPLY_def ioc_def

lemmas bc_codes = BC_TRANSACTION_def BC_REPLY_def BC_ACQUIRE_RESULT_def BC_FREE_BUFFER_def BC_INCREFS_def
  BC_ACQUIRE_def BC_RELEASE_def BC_DECREFS_def BC_INCREFS_DONE_def BC_ACQUIRE_DONE_def
  BC_ATTEMPT_ACQUIRE_def BC_REGISTER_LOOPER_def BC_ENTER_LOOPER_def BC_EXIT_LOOPER_def
  BC_REQUEST_DEATH_NOTIFICATION_def BC_CLEAR_DEATH_NOTIFICATION_def BC_DEAD_BINDER_DONE_def ioc_def

lemmas type_codes = BINDER_TYPE_BINDER_def BINDER_TYPE_WEAK_BINDER_def BINDER_TYPE_HANDLE_def
  BINDER_TYPE_WEAK_HANDLE_def BINDER_TYPE_FD_def b_pack_def

lemmas ioctl_codes = BINDER_WRITE_READ_def BINDER_SET_MAX_THREADS_def BINDER_SET_CONTEXT_MGR_def
  BINDER_THREAD_EXIT_def BINDER_VERSION_def ioc_def

section \<open>Objects\<close>

datatype work = W_Transaction nat | W_Transaction_Complete nat | W_Node nat | W_Death nat

datatype death_type = DEAD_BINDER | DEAD_BINDER_AND_CLEAR | CLEAR_DEATH_NOTIFICATION

text \<open>The list heads embedded in processes, threads and nodes.\<close>

datatype list_id = Proc_Todo nat | Thread_Todo nat | Delivered_Death nat | Async_Todo nat

datatype wait_queue = Proc_Wait nat | Thread_Wait nat

record binder_node =
  nd_debug_id :: int
  nd_proc :: "nat option"
  nd_refs :: "nat list"
  internal_strong_refs :: int
  local_weak_refs :: int
  local_strong_refs :: int
  nd_ptr :: u64
  nd_cookie :: u64
  has_strong_ref :: bool
  pending_strong_ref :: bool
  has_weak_ref :: bool
  pending_weak_ref :: bool
  has_async_transaction :: bool
  accept_fds :: bool
  min_priority :: int

text \<open>The \<open>work.type\<close> of a death notification is \<open>None\<close> until it is first queued.\<close>

record binder_ref_death =
  dt_type :: "death_type option"
  dt_cookie :: u64

record binder_ref =
  rf_debug_id :: int
  rf_proc :: nat
  rf_node :: nat
  rf_desc :: u32
  rf_strong :: int
  rf_weak :: int
  rf_death :: "nat option"

text \<open>A pointer to a transaction buffer is the process whose mapping holds it and its address.\<close>

record binder_transaction =
  tx_debug_id :: int
  tx_from :: "nat option"
  from_parent :: "nat option"
  to_proc :: "nat option"
  to_thread :: "nat option"
  to_parent :: "nat option"
  need_reply :: bool
  tx_buffer :: "(nat \<times> addr) option"
  tx_code :: u32
  tx_flags :: u32
  tx_priority :: int
  saved_priority :: int
  sender_euid :: u32

record binder_thread =
  th_proc :: nat
  th_pid :: int
  looper :: u32
  transaction_stack :: "nat option"
  return_error :: u32
  return_error2 :: u32

record binder_proc =
  pr_pid :: int
  pr_alloc :: binder_alloc
  pr_threads :: "addr tree"
  pr_nodes :: "addr tree"
  refs_by_desc :: "addr tree"
  refs_by_node :: "addr tree"
  pr_files :: "nat option"
  deferred_work :: u32
  max_threads :: u32
  requested_threads :: int
  requested_threads_started :: int
  ready_threads :: int
  default_priority :: int

text \<open>
  The driver's global state. \<open>queues\<close> holds the contents of the list heads and \<open>entry\<close> the list a
  work item is linked into; \<open>fds\<close> are the descriptor tables of \<open>files_struct\<close>s, \<open>nice\<close> the nice
  values of tasks by pid, and \<open>woken\<close> the wait queues woken so far, latest first.
\<close>

record binder_state =
  procs :: "nat \<rightharpoonup> binder_proc"
  thrs :: "nat \<rightharpoonup> binder_thread"
  nds :: "nat \<rightharpoonup> binder_node"
  rfs :: "nat \<rightharpoonup> binder_ref"
  txns :: "nat \<rightharpoonup> binder_transaction"
  deaths :: "nat \<rightharpoonup> binder_ref_death"
  queues :: "list_id \<Rightarrow> work list"
  entry :: "work \<Rightarrow> list_id option"
  binder_context_mgr_node :: "nat option"
  binder_context_mgr_uid :: "u32 option"
  binder_last_id :: int
  next_addr :: nat
  binder_procs :: "nat list"
  binder_dead_nodes :: "nat list"
  binder_deferred_list :: "nat list"
  fds :: "nat \<Rightarrow> u32 \<Rightarrow> nat option"
  nice :: "int \<Rightarrow> int"
  woken :: "wait_queue list"

definition binder_init_state :: binder_state where
  "binder_init_state = \<lparr>procs = Map.empty, thrs = Map.empty, nds = Map.empty, rfs = Map.empty,
     txns = Map.empty, deaths = Map.empty, queues = (\<lambda>_. []), entry = (\<lambda>_. None),
     binder_context_mgr_node = None, binder_context_mgr_uid = None, binder_last_id = 0,
     next_addr = 1, binder_procs = [], binder_dead_nodes = [], binder_deferred_list = [],
     fds = (\<lambda>_ _. None), nice = (\<lambda>_. 0), woken = []\<rparr>"

text \<open>The calling task.\<close>

record caller =
  c_pid :: int
  c_tgid :: int
  c_task :: nat
  c_files :: nat
  c_euid :: u32

text \<open>
  The kernel services the driver calls beyond memory: whether the allocation at an address
  succeeds, the security hooks (negative or non-zero is a refusal), descriptor allocation in a
  table (the lowest free descriptor under the task's limit, or an error), the result of closing
  a file, credentials and pids as another task sees them, and the limits on nice values.
\<close>

record kernel = kernel_vm +
  kzalloc_ok :: "nat \<Rightarrow> bool"
  security_binder_transaction :: "nat \<Rightarrow> nat \<Rightarrow> int"
  security_binder_transfer_binder :: "nat \<Rightarrow> nat \<Rightarrow> int"
  security_binder_transfer_file :: "nat \<Rightarrow> nat \<Rightarrow> nat \<Rightarrow> int"
  security_binder_set_context_mgr :: "nat \<Rightarrow> int"
  lock_task_sighand :: "nat \<Rightarrow> bool"
  alloc_fd :: "nat \<Rightarrow> (u32 \<Rightarrow> nat option) \<Rightarrow> int"
  filp_close :: "nat \<Rightarrow> int"
  task_euid :: "nat \<Rightarrow> u32"
  task_tgid_nr_ns :: "nat \<Rightarrow> nat \<Rightarrow> u32"
  from_kuid :: "nat \<Rightarrow> u32 \<Rightarrow> u32"
  can_nice :: "int \<Rightarrow> int \<Rightarrow> bool"
  rlimit_to_nice :: "int \<Rightarrow> int"

section \<open>Memory and queues\<close>

text \<open>\<open>kzalloc\<close>: the fresh address, if the allocation succeeds.\<close>

definition kzalloc :: "'k kernel_scheme \<Rightarrow> binder_state \<Rightarrow> nat option \<times> binder_state" where
  "kzalloc k s = (if kzalloc_ok k (next_addr s) then Some (next_addr s) else None,
                  s\<lparr>next_addr := Suc (next_addr s)\<rparr>)"

definition upd_node :: "nat \<Rightarrow> (binder_node \<Rightarrow> binder_node) \<Rightarrow> binder_state \<Rightarrow> binder_state option" where
  "upd_node n f s = map_option (\<lambda>x. s\<lparr>nds := (nds s)(n \<mapsto> f x)\<rparr>) (nds s n)"

definition upd_ref :: "nat \<Rightarrow> (binder_ref \<Rightarrow> binder_ref) \<Rightarrow> binder_state \<Rightarrow> binder_state option" where
  "upd_ref r f s = map_option (\<lambda>x. s\<lparr>rfs := (rfs s)(r \<mapsto> f x)\<rparr>) (rfs s r)"

definition upd_proc :: "nat \<Rightarrow> (binder_proc \<Rightarrow> binder_proc) \<Rightarrow> binder_state \<Rightarrow> binder_state option" where
  "upd_proc p f s = map_option (\<lambda>x. s\<lparr>procs := (procs s)(p \<mapsto> f x)\<rparr>) (procs s p)"

definition upd_thread :: "nat \<Rightarrow> (binder_thread \<Rightarrow> binder_thread) \<Rightarrow> binder_state \<Rightarrow> binder_state option" where
  "upd_thread t f s = map_option (\<lambda>x. s\<lparr>thrs := (thrs s)(t \<mapsto> f x)\<rparr>) (thrs s t)"

definition upd_txn :: "nat \<Rightarrow> (binder_transaction \<Rightarrow> binder_transaction) \<Rightarrow> binder_state \<Rightarrow> binder_state option" where
  "upd_txn t f s = map_option (\<lambda>x. s\<lparr>txns := (txns s)(t \<mapsto> f x)\<rparr>) (txns s t)"

definition upd_death :: "nat \<Rightarrow> (binder_ref_death \<Rightarrow> binder_ref_death) \<Rightarrow> binder_state \<Rightarrow> binder_state option" where
  "upd_death d f s = map_option (\<lambda>x. s\<lparr>deaths := (deaths s)(d \<mapsto> f x)\<rparr>) (deaths s d)"

text \<open>
  The list operations. Adding an entry that is still linked would corrupt both lists; it is
  a fault here. \<open>list_del\<close> and \<open>list_del_init\<close> of an unlinked entry do nothing.
\<close>

definition list_del :: "work \<Rightarrow> binder_state \<Rightarrow> binder_state" where
  "list_del w s = (case entry s w of None \<Rightarrow> s
     | Some L \<Rightarrow> s\<lparr>queues := (queues s)(L := remove1 w (queues s L)), entry := (entry s)(w := None)\<rparr>)"

definition list_add_tail :: "work \<Rightarrow> list_id \<Rightarrow> binder_state \<Rightarrow> binder_state option" where
  "list_add_tail w L s = (if entry s w \<noteq> None then None
     else Some (s\<lparr>queues := (queues s)(L := queues s L @ [w]), entry := (entry s)(w \<mapsto> L)\<rparr>))"

definition list_add_head :: "work \<Rightarrow> list_id \<Rightarrow> binder_state \<Rightarrow> binder_state option" where
  "list_add_head w L s = (if entry s w \<noteq> None then None
     else Some (s\<lparr>queues := (queues s)(L := w # queues s L), entry := (entry s)(w \<mapsto> L)\<rparr>))"

definition wake_up :: "wait_queue \<Rightarrow> binder_state \<Rightarrow> binder_state" where
  "wake_up q s = s\<lparr>woken := q # woken s\<rparr>"

text \<open>\<open>binder_set_nice\<close> of the task with the given pid.\<close>

definition binder_set_nice :: "'k kernel_scheme \<Rightarrow> int \<Rightarrow> int \<Rightarrow> binder_state \<Rightarrow> binder_state" where
  "binder_set_nice k pid n s =
     s\<lparr>nice := (nice s)(pid := if can_nice k pid n then n else rlimit_to_nice k pid)\<rparr>"

text \<open>The invariant of the lists: an entry is linked into exactly the list that holds it.\<close>

definition lists_ok :: "binder_state \<Rightarrow> bool" where
  "lists_ok s \<longleftrightarrow> (\<forall>w L. entry s w = Some L \<longleftrightarrow> w \<in> set (queues s L)) \<and> (\<forall>L. distinct (queues s L))"

lemma lists_ok_del: "lists_ok s \<Longrightarrow> lists_ok (list_del w s)"
  by (auto simp: lists_ok_def list_del_def split: option.split) (metis option.inject)

lemma lists_ok_add_tail: "lists_ok s \<Longrightarrow> list_add_tail w L s = Some s' \<Longrightarrow> lists_ok s'"
  by (auto simp: lists_ok_def list_add_tail_def split: if_splits)

lemma lists_ok_add_head: "lists_ok s \<Longrightarrow> list_add_head w L s = Some s' \<Longrightarrow> lists_ok s'"
  by (auto simp: lists_ok_def list_add_head_def split: if_splits)

lemma lists_ok_unlinked: "lists_ok s \<Longrightarrow> entry s w = None \<longleftrightarrow> (\<forall>L. w \<notin> set (queues s L))"
  by (metis lists_ok_def not_Some_eq)

end
