(* ===== verification/Binder_Node.thy ===== *)
theory Binder_Node
  imports Binder_State
begin

text \<open>
  Nodes and references of \<open>driver/binder/binder.c\<close>: \<open>binder_get_node\<close> to \<open>binder_dec_ref\<close>. A
  node is an object a process serves; a reference is another process' handle on it. A node's
  \<open>internal_strong_refs\<close> counts the references with a strong count.
\<close>

section \<open>Nodes\<close>

abbreviation node_key :: "binder_state \<Rightarrow> nat \<Rightarrow> u64 option" where
  "node_key s n \<equiv> map_option nd_ptr (nds s n)"

definition binder_get_node :: "binder_state \<Rightarrow> nat \<Rightarrow> u64 \<Rightarrow> nat option option" where
  "binder_get_node s p ptr = do { pr \<leftarrow> procs s p; rb_find (node_key s) ptr (pr_nodes pr) }"

definition new_node :: "nat \<Rightarrow> u64 \<Rightarrow> u64 \<Rightarrow> int \<Rightarrow> binder_node" where
  "new_node p ptr cookie d = \<lparr>nd_debug_id = d, nd_proc = Some p, nd_refs = [],
     internal_strong_refs = 0, local_weak_refs = 0, local_strong_refs = 0, nd_ptr = ptr,
     nd_cookie = cookie, has_strong_ref = False, pending_strong_ref = False, has_weak_ref = False,
     pending_weak_ref = False, has_async_transaction = False, accept_fds = False, min_priority = 0\<rparr>"

definition binder_new_node ::
  "'k kernel_scheme \<Rightarrow> binder_state \<Rightarrow> nat \<Rightarrow> u64 \<Rightarrow> u64 \<Rightarrow> (nat option \<times> binder_state) option" where
  "binder_new_node k s p ptr cookie = do {
     pr \<leftarrow> procs s p;
     l \<leftarrow> rb_link (node_key s) ptr (next_addr s) (pr_nodes pr);
     (case l of
        Inl _ \<Rightarrow> Some (None, s)
      | Inr t \<Rightarrow>
          (case kzalloc k s of
             (None, s1) \<Rightarrow> Some (None, s1)
           | (Some n, s1) \<Rightarrow>
               Some (Some n, s1\<lparr>nds := (nds s1)(n \<mapsto> new_node p ptr cookie (binder_last_id s1 + 1)),
                 procs := (procs s1)(p \<mapsto> pr\<lparr>pr_nodes := rb_insert_color k n t\<rparr>),
                 binder_last_id := binder_last_id s1 + 1,
                 queues := (queues s1)(Async_Todo n := []), entry := (entry s1)(W_Node n := None)\<rparr>))) }"

definition binder_inc_node ::
  "binder_state \<Rightarrow> nat \<Rightarrow> bool \<Rightarrow> bool \<Rightarrow> list_id option \<Rightarrow> (int \<times> binder_state) option" where
  "binder_inc_node s n strong internal target_list = do {
     nd \<leftarrow> nds s n;
     if strong then
       if internal \<and> target_list = None \<and> internal_strong_refs nd = 0
          \<and> \<not> (binder_context_mgr_node s = Some n \<and> has_strong_ref nd)
       then Some (- EINVAL, s)
       else do {
         s1 \<leftarrow> upd_node n (\<lambda>x. if internal then x\<lparr>internal_strong_refs := internal_strong_refs x + 1\<rparr>
                             else x\<lparr>local_strong_refs := local_strong_refs x + 1\<rparr>) s;
         (case target_list of
            Some L \<Rightarrow>
              if \<not> has_strong_ref nd
              then do { s2 \<leftarrow> list_add_tail (W_Node n) L (list_del (W_Node n) s1); Some (0, s2) }
              else Some (0, s1)
          | None \<Rightarrow> Some (0, s1)) }
     else do {
       s1 \<leftarrow> (if internal then Some s
              else upd_node n (\<lambda>x. x\<lparr>local_weak_refs := local_weak_refs x + 1\<rparr>) s);
       if \<not> has_weak_ref nd \<and> entry s1 (W_Node n) = None
       then (case target_list of
               None \<Rightarrow> Some (- EINVAL, s1)
             | Some L \<Rightarrow> do { s2 \<leftarrow> list_add_tail (W_Node n) L s1; Some (0, s2) })
       else Some (0, s1) } }"

text \<open>The end of a node: unlinked from its work list and from its process or the dead nodes.\<close>

definition free_node :: "'k kernel_scheme \<Rightarrow> binder_state \<Rightarrow> nat \<Rightarrow> binder_state option" where
  "free_node k s n = do {
     nd \<leftarrow> nds s n;
     let s1 = list_del (W_Node n) s;
     s2 \<leftarrow> (case nd_proc nd of
              Some p \<Rightarrow> upd_proc p (\<lambda>pr. pr\<lparr>pr_nodes := rb_erase k n (pr_nodes pr)\<rparr>) s1
            | None \<Rightarrow> Some (s1\<lparr>binder_dead_nodes := remove1 n (binder_dead_nodes s1)\<rparr>));
     Some (s2\<lparr>nds := (nds s2)(n := None)\<rparr>) }"

definition dec_count :: "bool \<Rightarrow> bool \<Rightarrow> binder_node \<Rightarrow> binder_node" where
  "dec_count strong internal x =
     (if strong then if internal then x\<lparr>internal_strong_refs := internal_strong_refs x - 1\<rparr>
                     else x\<lparr>local_strong_refs := local_strong_refs x - 1\<rparr>
      else if internal then x else x\<lparr>local_weak_refs := local_weak_refs x - 1\<rparr>)"

definition still_held :: "bool \<Rightarrow> binder_node \<Rightarrow> bool" where
  "still_held strong x =
     (if strong then local_strong_refs x \<noteq> 0 \<or> internal_strong_refs x \<noteq> 0
      else local_weak_refs x \<noteq> 0 \<or> nd_refs x \<noteq> [])"

definition binder_dec_node ::
  "'k kernel_scheme \<Rightarrow> binder_state \<Rightarrow> nat \<Rightarrow> bool \<Rightarrow> bool \<Rightarrow> binder_state option" where
  "binder_dec_node k s n strong internal = do {
     s1 \<leftarrow> upd_node n (dec_count strong internal) s;
     nd \<leftarrow> nds s1 n;
     if still_held strong nd then Some s1
     else if nd_proc nd \<noteq> None \<and> (has_strong_ref nd \<or> has_weak_ref nd)
     then if entry s1 (W_Node n) = None
          then do { s2 \<leftarrow> list_add_tail (W_Node n) (Proc_Todo (the (nd_proc nd))) s1;
                    Some (wake_up (Proc_Wait (the (nd_proc nd))) s2) }
          else Some s1
     else if nd_refs nd = [] \<and> local_strong_refs nd = 0 \<and> local_weak_refs nd = 0
     then free_node k s1 n
     else Some s1 }"

section \<open>References\<close>

text \<open>
  \<open>strong\<close> and \<open>weak\<close> of a reference are C \<open>int\<close>s that the commands of a process raise without a
  limit, so they are kept at their width: \<open>int32\<close> wraps them.
\<close>

abbreviation desc_key :: "binder_state \<Rightarrow> nat \<Rightarrow> u32 option" where
  "desc_key s r \<equiv> map_option rf_desc (rfs s r)"

abbreviation ref_node_key :: "binder_state \<Rightarrow> nat \<Rightarrow> nat option" where
  "ref_node_key s r \<equiv> map_option rf_node (rfs s r)"

definition binder_get_ref :: "binder_state \<Rightarrow> nat \<Rightarrow> u32 \<Rightarrow> nat option option" where
  "binder_get_ref s p desc = do { pr \<leftarrow> procs s p; rb_find (desc_key s) desc (refs_by_desc pr) }"

text \<open>The walk over the descriptors in use, in ascending order; \<open>d + 1\<close> wraps as \<open>uint32_t\<close>.\<close>

fun next_desc :: "(nat \<Rightarrow> u32 option) \<Rightarrow> u32 \<Rightarrow> nat list \<Rightarrow> u32 option" where
  "next_desc key d [] = Some d"
| "next_desc key d (r # rs) =
     do { x \<leftarrow> key r; if x > d then Some d else next_desc key (x + 1) rs }"

definition new_ref :: "nat \<Rightarrow> nat \<Rightarrow> u32 \<Rightarrow> int \<Rightarrow> binder_ref" where
  "new_ref p n desc d = \<lparr>rf_debug_id = d, rf_proc = p, rf_node = n, rf_desc = desc,
     rf_strong = 0, rf_weak = 0, rf_death = None\<rparr>"

definition binder_get_ref_for_node ::
  "'k kernel_scheme \<Rightarrow> binder_state \<Rightarrow> nat \<Rightarrow> nat \<Rightarrow> (nat option \<times> binder_state) option" where
  "binder_get_ref_for_node k s p n = do {
     pr \<leftarrow> procs s p;
     l \<leftarrow> rb_link (ref_node_key s) n (next_addr s) (refs_by_node pr);
     (case l of
        Inl r \<Rightarrow> Some (Some r, s)
      | Inr tn \<Rightarrow>
          (case kzalloc k s of
             (None, s1) \<Rightarrow> Some (None, s1)
           | (Some r, s1) \<Rightarrow> do {
               desc \<leftarrow> next_desc (desc_key s1) (if binder_context_mgr_node s1 = Some n then 0 else 1)
                         (inorder (refs_by_desc pr));
               l2 \<leftarrow> rb_link (desc_key s1) desc r (refs_by_desc pr);
               (case l2 of
                  Inl _ \<Rightarrow> None
                | Inr td \<Rightarrow> do {
                    s2 \<leftarrow> upd_node n (\<lambda>x. x\<lparr>nd_refs := r # nd_refs x\<rparr>) s1;
                    Some (Some r, s2\<lparr>rfs := (rfs s2)(r \<mapsto> new_ref p n desc (binder_last_id s2 + 1)),
                      procs := (procs s2)(p \<mapsto> pr\<lparr>refs_by_node := rb_insert_color k r tn,
                                                 refs_by_desc := rb_insert_color k r td\<rparr>),
                      binder_last_id := binder_last_id s2 + 1\<rparr>) }) })) }"

definition free_death :: "binder_state \<Rightarrow> nat \<Rightarrow> binder_state option" where
  "free_death s d = do {
     _ \<leftarrow> deaths s d;
     let s1 = list_del (W_Death d) s;
     Some (s1\<lparr>deaths := (deaths s1)(d := None)\<rparr>) }"

definition binder_delete_ref :: "'k kernel_scheme \<Rightarrow> binder_state \<Rightarrow> nat \<Rightarrow> binder_state option" where
  "binder_delete_ref k s r = do {
     rf \<leftarrow> rfs s r;
     s1 \<leftarrow> upd_proc (rf_proc rf) (\<lambda>pr. pr\<lparr>refs_by_desc := rb_erase k r (refs_by_desc pr),
                                          refs_by_node := rb_erase k r (refs_by_node pr)\<rparr>) s;
     s2 \<leftarrow> (if rf_strong rf \<noteq> 0 then binder_dec_node k s1 (rf_node rf) True True else Some s1);
     s3 \<leftarrow> upd_node (rf_node rf) (\<lambda>x. x\<lparr>nd_refs := remove1 r (nd_refs x)\<rparr>) s2;
     s4 \<leftarrow> binder_dec_node k s3 (rf_node rf) False True;
     s5 \<leftarrow> (case rf_death rf of None \<Rightarrow> Some s4 | Some d \<Rightarrow> free_death s4 d);
     Some (s5\<lparr>rfs := (rfs s5)(r := None)\<rparr>) }"

definition binder_inc_ref ::
  "binder_state \<Rightarrow> nat \<Rightarrow> bool \<Rightarrow> list_id option \<Rightarrow> (int \<times> binder_state) option" where
  "binder_inc_ref s r strong target_list = do {
     rf \<leftarrow> rfs s r;
     (ret, s1) \<leftarrow> (if (if strong then rf_strong rf else rf_weak rf) = 0
                    then binder_inc_node s (rf_node rf) strong True target_list else Some (0, s));
     if ret \<noteq> 0 then Some (ret, s1)
     else do {
       s2 \<leftarrow> upd_ref r (\<lambda>x. if strong then x\<lparr>rf_strong := int32 (rf_strong x + 1)\<rparr>
                            else x\<lparr>rf_weak := int32 (rf_weak x + 1)\<rparr>) s1;
       Some (0, s2) } }"

definition binder_dec_ref ::
  "'k kernel_scheme \<Rightarrow> binder_state \<Rightarrow> nat \<Rightarrow> bool \<Rightarrow> (int \<times> binder_state) option" where
  "binder_dec_ref k s r strong = do {
     rf \<leftarrow> rfs s r;
     if (if strong then rf_strong rf else rf_weak rf) = 0 then Some (- EINVAL, s)
     else do {
       s1 \<leftarrow> upd_ref r (\<lambda>x. if strong then x\<lparr>rf_strong := int32 (rf_strong x - 1)\<rparr>
                            else x\<lparr>rf_weak := int32 (rf_weak x - 1)\<rparr>) s;
       rf1 \<leftarrow> rfs s1 r;
       s2 \<leftarrow> (if strong \<and> rf_strong rf1 = 0 then binder_dec_node k s1 (rf_node rf1) True True else Some s1);
       rf2 \<leftarrow> rfs s2 r;
       if rf_strong rf2 = 0 \<and> rf_weak rf2 = 0
       then do { s3 \<leftarrow> binder_delete_ref k s2 r; Some (0, s3) }
       else Some (0, s2) } }"

end
