(* ===== verification/Binder_Txn.thy ===== *)
theory Binder_Txn
  imports Binder_Node
begin

text \<open>
  Transactions of \<open>driver/binder/binder.c\<close>: \<open>binder_pop_transaction\<close>, \<open>binder_send_failed_reply\<close>,
  \<open>binder_transaction_buffer_release\<close> and \<open>binder_transaction\<close>, the latter split at its phases: the target
  of a call or a reply, the buffer and its contents, one definition per kind of object in the
  loop over the offsets, the enqueueing, and the error labels. The transaction log is left out.
\<close>

unbundle bit_operations_syntax

section \<open>Wire formats\<close>

record binder_transaction_data =
  td_target :: u64
  td_cookie :: u64
  td_code :: u32
  td_flags :: u32
  td_sender_pid :: u32
  td_sender_euid :: u32
  td_data_size :: u64
  td_offsets_size :: u64
  td_buffer :: u64
  td_offsets :: u64

definition get_transaction_data :: "byte list \<Rightarrow> binder_transaction_data option" where
  "get_transaction_data bs = do {
     tg \<leftarrow> get_u64 bs 0; ck \<leftarrow> get_u64 bs 8; cd \<leftarrow> get_u32 bs 16; fl \<leftarrow> get_u32 bs 20;
     sp \<leftarrow> get_u32 bs 24; se \<leftarrow> get_u32 bs 28; ds \<leftarrow> get_u64 bs 32; os \<leftarrow> get_u64 bs 40;
     bu \<leftarrow> get_u64 bs 48; ofs \<leftarrow> get_u64 bs 56;
     Some \<lparr>td_target = tg, td_cookie = ck, td_code = cd, td_flags = fl, td_sender_pid = sp,
           td_sender_euid = se, td_data_size = ds, td_offsets_size = os, td_buffer = bu, td_offsets = ofs\<rparr> }"

definition transaction_data_bytes :: "binder_transaction_data \<Rightarrow> byte list" where
  "transaction_data_bytes d = u64_bytes (td_target d) @ u64_bytes (td_cookie d) @ u32_bytes (td_code d)
     @ u32_bytes (td_flags d) @ u32_bytes (td_sender_pid d) @ u32_bytes (td_sender_euid d)
     @ u64_bytes (td_data_size d) @ u64_bytes (td_offsets_size d) @ u64_bytes (td_buffer d) @ u64_bytes (td_offsets d)"

text \<open>The union of \<open>handle\<close> and \<open>ptr\<close>: the handle is its low half.\<close>

abbreviation td_handle :: "binder_transaction_data \<Rightarrow> u32" where "td_handle d \<equiv> ucast (td_target d)"

record flat_binder_object =
  fo_type :: u32
  fo_flags :: u32
  fo_binder :: u64
  fo_cookie :: u64

definition get_flat_object :: "byte list \<Rightarrow> nat \<Rightarrow> flat_binder_object option" where
  "get_flat_object bs off = do {
     ty \<leftarrow> get_u32 bs off; fl \<leftarrow> get_u32 bs (off + 4); bi \<leftarrow> get_u64 bs (off + 8); ck \<leftarrow> get_u64 bs (off + 16);
     Some \<lparr>fo_type = ty, fo_flags = fl, fo_binder = bi, fo_cookie = ck\<rparr> }"

abbreviation fo_handle :: "flat_binder_object \<Rightarrow> u32" where "fo_handle f \<equiv> ucast (fo_binder f)"

section \<open>Buffers and files of a process\<close>

definition get_buf :: "binder_state \<Rightarrow> nat \<Rightarrow> addr \<Rightarrow> binder_buffer option" where
  "get_buf s p b = do { pr \<leftarrow> procs s p; bufs (pr_alloc pr) b }"

definition upd_buf :: "nat \<Rightarrow> addr \<Rightarrow> (binder_buffer \<Rightarrow> binder_buffer) \<Rightarrow> binder_state \<Rightarrow> binder_state option" where
  "upd_buf p b f s = do { _ \<leftarrow> get_buf s p b; upd_proc p (\<lambda>pr. pr\<lparr>pr_alloc := upd_buffer b f (pr_alloc pr)\<rparr>) s }"

definition proc_alloc_buf ::
  "'k kernel_scheme \<Rightarrow> binder_state \<Rightarrow> nat \<Rightarrow> nat \<Rightarrow> nat \<Rightarrow> bool \<Rightarrow> (addr option \<times> binder_state) option" where
  "proc_alloc_buf k s p dsize osize is_async = do {
     pr \<leftarrow> procs s p;
     (b, a) \<leftarrow> binder_alloc_buf k (pr_alloc pr) dsize osize is_async;
     Some (b, s\<lparr>procs := (procs s)(p \<mapsto> pr\<lparr>pr_alloc := a\<rparr>)\<rparr>) }"

definition proc_free_buf :: "'k kernel_scheme \<Rightarrow> binder_state \<Rightarrow> nat \<Rightarrow> addr \<Rightarrow> binder_state option" where
  "proc_free_buf k s p b = do {
     pr \<leftarrow> procs s p;
     a \<leftarrow> binder_free_buf k (pr_alloc pr) b;
     Some (s\<lparr>procs := (procs s)(p \<mapsto> pr\<lparr>pr_alloc := a\<rparr>)\<rparr>) }"

definition task_get_unused_fd_flags :: "'k kernel_scheme \<Rightarrow> binder_state \<Rightarrow> nat \<Rightarrow> int option" where
  "task_get_unused_fd_flags k s p = do {
     pr \<leftarrow> procs s p;
     Some (case pr_files pr of
       None \<Rightarrow> - ESRCH
     | Some files \<Rightarrow> if \<not> lock_task_sighand k (tsk (pr_alloc pr)) then - EMFILE
                     else alloc_fd k files (fds s files)) }"

definition task_fd_install :: "binder_state \<Rightarrow> nat \<Rightarrow> u32 \<Rightarrow> nat \<Rightarrow> binder_state option" where
  "task_fd_install s p fd file = do {
     pr \<leftarrow> procs s p;
     Some (case pr_files pr of
       None \<Rightarrow> s
     | Some files \<Rightarrow> s\<lparr>fds := (fds s)(files := (fds s files)(fd \<mapsto> file))\<rparr>) }"

definition task_close_fd :: "'k kernel_scheme \<Rightarrow> binder_state \<Rightarrow> nat \<Rightarrow> u32 \<Rightarrow> (int \<times> binder_state) option" where
  "task_close_fd k s p fd = do {
     pr \<leftarrow> procs s p;
     Some (case pr_files pr of
       None \<Rightarrow> (- ESRCH, s)
     | Some files \<Rightarrow>
         (case fds s files fd of
            None \<Rightarrow> (- EBADF, s)
          | Some file \<Rightarrow>
              let retval = filp_close k file in
              (if retval \<in> {- 512, - 513, - 514, - 516} then - EINTR else retval,
               s\<lparr>fds := (fds s)(files := (fds s files)(fd := None))\<rparr>))) }"

section \<open>Ending a transaction\<close>

definition binder_pop_transaction :: "nat option \<Rightarrow> nat \<Rightarrow> binder_state \<Rightarrow> binder_state option" where
  "binder_pop_transaction target_thread t s = do {
     tx \<leftarrow> txns s t;
     s1 \<leftarrow> (case target_thread of
              None \<Rightarrow> Some s
            | Some tt \<Rightarrow> do {
                th \<leftarrow> thrs s tt;
                if transaction_stack th \<noteq> Some t \<or> tx_from tx \<noteq> Some tt then None
                else upd_thread tt (\<lambda>x. x\<lparr>transaction_stack := from_parent tx\<rparr>) s });
     s2 \<leftarrow> (case tx_buffer tx of
              None \<Rightarrow> Some s1
            | Some (p, b) \<Rightarrow> upd_buf p b (\<lambda>h. h\<lparr>buf_transaction := None\<rparr>) s1);
     Some (s2\<lparr>txns := (txns s2)(t := None)\<rparr>) }"

text \<open>
  The failed reply goes to the sender, or to the first caller up the chain that is still there.
  A chain without an end would be walked for ever; that is \<open>None\<close> as well.
\<close>

definition stash_error :: "binder_thread \<Rightarrow> binder_thread" where
  "stash_error th = (if return_error th \<noteq> BR_OK \<and> return_error2 th = BR_OK
     then th\<lparr>return_error2 := return_error th, return_error := BR_OK\<rparr> else th)"

partial_function (option) send_failed_reply_from :: "nat \<Rightarrow> u32 \<Rightarrow> binder_state \<Rightarrow> binder_state option" where
  "send_failed_reply_from t error_code s =
     (case txns s t of
        None \<Rightarrow> None
      | Some tx \<Rightarrow>
          (case tx_from tx of
             Some tt \<Rightarrow> do {
               s1 \<leftarrow> upd_thread tt stash_error s;
               th \<leftarrow> thrs s1 tt;
               if return_error th = BR_OK
               then do {
                 s2 \<leftarrow> binder_pop_transaction (Some tt) t s1;
                 s3 \<leftarrow> upd_thread tt (\<lambda>x. x\<lparr>return_error := error_code\<rparr>) s2;
                 Some (wake_up (Thread_Wait tt) s3) }
               else Some s1 }
           | None \<Rightarrow> do {
               s1 \<leftarrow> binder_pop_transaction None t s;
               (case from_parent tx of None \<Rightarrow> Some s1
                | Some t' \<Rightarrow> send_failed_reply_from t' error_code s1) }))"

definition binder_send_failed_reply :: "nat \<Rightarrow> u32 \<Rightarrow> binder_state \<Rightarrow> binder_state option" where
  "binder_send_failed_reply t error_code s = do {
     tx \<leftarrow> txns s t;
     if tx_flags tx AND TF_ONE_WAY \<noteq> 0 then None else send_failed_reply_from t error_code s }"

section \<open>Giving up the objects of a buffer\<close>

text \<open>The check on an offset; \<open>data_size - sizeof(*fp)\<close> is a \<open>size_t\<close>.\<close>

definition bad_offset :: "nat \<Rightarrow> u64 \<Rightarrow> bool" where
  "bad_offset data_size off \<longleftrightarrow>
     unat off > (data_size + 2 ^ 64 - sizeof_flat_object) mod 2 ^ 64
     \<or> data_size < sizeof_flat_object \<or> unat off mod 4 \<noteq> 0"

definition release_object ::
  "'k kernel_scheme \<Rightarrow> nat \<Rightarrow> bool \<Rightarrow> flat_binder_object \<Rightarrow> binder_state \<Rightarrow> binder_state option" where
  "release_object k p failed f s =
     (if fo_type f = BINDER_TYPE_BINDER \<or> fo_type f = BINDER_TYPE_WEAK_BINDER
      then do {
        n \<leftarrow> binder_get_node s p (fo_binder f);
        (case n of None \<Rightarrow> Some s
         | Some node \<Rightarrow> binder_dec_node k s node (fo_type f = BINDER_TYPE_BINDER) False) }
      else if fo_type f = BINDER_TYPE_HANDLE \<or> fo_type f = BINDER_TYPE_WEAK_HANDLE
      then do {
        r \<leftarrow> binder_get_ref s p (fo_handle f);
        (case r of None \<Rightarrow> Some s
         | Some ref \<Rightarrow> map_option snd (binder_dec_ref k s ref (fo_type f = BINDER_TYPE_HANDLE))) }
      else if fo_type f = BINDER_TYPE_FD
      then if failed then map_option snd (task_close_fd k s p (fo_handle f)) else Some s
      else Some s)"

fun release_objects ::
  "'k kernel_scheme \<Rightarrow> nat \<Rightarrow> binder_buffer \<Rightarrow> bool \<Rightarrow> nat \<Rightarrow> nat \<Rightarrow> binder_state \<Rightarrow> binder_state option" where
  "release_objects k p h failed pos 0 s = Some s"
| "release_objects k p h failed pos (Suc n) s = do {
     off \<leftarrow> get_u64 (buf_data h) pos;
     s1 \<leftarrow> (if bad_offset (buf_data_size h) off then Some s
            else do { f \<leftarrow> get_flat_object (buf_data h) (unat off); release_object k p failed f s });
     release_objects k p h failed (pos + 8) n s1 }"

text \<open>
  \<open>failed_at\<close> is the position of the offset at which the translation stopped. The loop runs
  once per 8 bytes begun.
\<close>

definition binder_transaction_buffer_release ::
  "'k kernel_scheme \<Rightarrow> binder_state \<Rightarrow> nat \<Rightarrow> addr \<Rightarrow> nat option \<Rightarrow> binder_state option" where
  "binder_transaction_buffer_release k s p b failed_at = do {
     h \<leftarrow> get_buf s p b;
     s1 \<leftarrow> (case buf_target_node h of None \<Rightarrow> Some s | Some n \<Rightarrow> binder_dec_node k s n True False);
     let offp = align_ptr (buf_data_size h);
     let off_end = (case failed_at of Some x \<Rightarrow> x | None \<Rightarrow> offp + buf_offsets_size h);
     release_objects k p h (failed_at \<noteq> None) offp ((off_end - offp + 7) div 8) s1 }"

section \<open>The target of a transaction\<close>

text \<open>
  Where a transaction goes: the process, the thread if one is singled out, the node of a call,
  and the transaction a reply answers. A failure is the code to return and the transaction
  whose sender is to be told.
\<close>

record txn_target =
  x_proc :: nat
  x_thread :: "nat option"
  x_node :: "nat option"
  x_in_reply :: "nat option"

type_synonym txn_failure = "u32 \<times> nat option"

definition reply_target ::
  "'k kernel_scheme \<Rightarrow> caller \<Rightarrow> nat \<Rightarrow> binder_state \<Rightarrow> ((txn_failure + txn_target) \<times> binder_state) option" where
  "reply_target k c t s = do {
     th \<leftarrow> thrs s t;
     (case transaction_stack th of
        None \<Rightarrow> Some (Inl (BR_FAILED_REPLY, None), s)
      | Some irt \<Rightarrow> do {
          tx \<leftarrow> txns s irt;
          let s1 = binder_set_nice k (c_pid c) (saved_priority tx) s;
          if to_thread tx \<noteq> Some t then Some (Inl (BR_FAILED_REPLY, None), s1)
          else do {
            s2 \<leftarrow> upd_thread t (\<lambda>x. x\<lparr>transaction_stack := to_parent tx\<rparr>) s1;
            (case tx_from tx of
               None \<Rightarrow> Some (Inl (BR_DEAD_REPLY, Some irt), s2)
             | Some tt \<Rightarrow> do {
                 tth \<leftarrow> thrs s2 tt;
                 if transaction_stack tth \<noteq> Some irt then Some (Inl (BR_FAILED_REPLY, None), s2)
                 else Some (Inr \<lparr>x_proc = th_proc tth, x_thread = Some tt, x_node = None,
                                 x_in_reply = Some irt\<rparr>, s2) }) } }) }"

text \<open>
  The walk up a thread's stack: the last thread of the target process on it, which is the
  outermost one that waits in this chain of calls.
\<close>

partial_function (option) stack_walk ::
  "binder_state \<Rightarrow> nat \<Rightarrow> nat option \<Rightarrow> nat option \<Rightarrow> nat option option" where
  "stack_walk s target_proc tmp target_thread =
     (case tmp of
        None \<Rightarrow> Some target_thread
      | Some t \<Rightarrow>
          (case txns s t of
             None \<Rightarrow> None
           | Some tx \<Rightarrow>
               (case tx_from tx of
                  None \<Rightarrow> stack_walk s target_proc (from_parent tx) target_thread
                | Some f \<Rightarrow>
                    (case thrs s f of
                       None \<Rightarrow> None
                     | Some fth \<Rightarrow>
                         stack_walk s target_proc (from_parent tx)
                           (if th_proc fth = target_proc then Some f else target_thread)))))"

definition call_node :: "binder_state \<Rightarrow> nat \<Rightarrow> u32 \<Rightarrow> (u32 + nat) option" where
  "call_node s p handle =
     (if handle \<noteq> 0
      then do {
        r \<leftarrow> binder_get_ref s p handle;
        (case r of None \<Rightarrow> Some (Inl BR_FAILED_REPLY)
         | Some ref \<Rightarrow> do { rf \<leftarrow> rfs s ref; Some (Inr (rf_node rf)) }) }
      else Some (case binder_context_mgr_node s of None \<Rightarrow> Inl BR_DEAD_REPLY | Some n \<Rightarrow> Inr n))"

definition call_target ::
  "'k kernel_scheme \<Rightarrow> nat \<Rightarrow> nat \<Rightarrow> binder_transaction_data \<Rightarrow> binder_state \<Rightarrow> (u32 + txn_target) option" where
  "call_target k p t tr s = do {
     pr \<leftarrow> procs s p;
     th \<leftarrow> thrs s t;
     nr \<leftarrow> call_node s p (td_handle tr);
     (case nr of
        Inl e \<Rightarrow> Some (Inl e)
      | Inr node \<Rightarrow> do {
          nd \<leftarrow> nds s node;
          (case nd_proc nd of
             None \<Rightarrow> Some (Inl BR_DEAD_REPLY)
           | Some tp \<Rightarrow> do {
               tpr \<leftarrow> procs s tp;
               if security_binder_transaction k (tsk (pr_alloc pr)) (tsk (pr_alloc tpr)) < 0
               then Some (Inl BR_FAILED_REPLY)
               else if td_flags tr AND TF_ONE_WAY = 0 \<and> transaction_stack th \<noteq> None
               then do {
                 tx \<leftarrow> txns s (the (transaction_stack th));
                 if to_thread tx \<noteq> Some t then Some (Inl BR_FAILED_REPLY)
                 else do {
                   tt \<leftarrow> stack_walk s tp (transaction_stack th) None;
                   Some (Inr \<lparr>x_proc = tp, x_thread = tt, x_node = Some node, x_in_reply = None\<rparr>) } }
               else Some (Inr \<lparr>x_proc = tp, x_thread = None, x_node = Some node, x_in_reply = None\<rparr>) }) }) }"

definition txn_target_of ::
  "'k kernel_scheme \<Rightarrow> caller \<Rightarrow> nat \<Rightarrow> nat \<Rightarrow> binder_transaction_data \<Rightarrow> bool \<Rightarrow> binder_state
    \<Rightarrow> ((txn_failure + txn_target) \<times> binder_state) option" where
  "txn_target_of k c p t tr reply s =
     (if reply then reply_target k c t s
      else do { r \<leftarrow> call_target k p t tr s; Some (map_sum (\<lambda>e. (e, None)) id r, s) })"

section \<open>Translating objects\<close>

text \<open>
  The objects in the copied data are rewritten in place, in the buffer \<open>b\<close> of the target process.
  Every failure in this phase is \<open>BR_FAILED_REPLY\<close>; the flag is success. The result of
  \<open>binder_inc_ref\<close> and of \<open>binder_inc_node\<close> is not looked at, as in the code.
\<close>

definition put_obj32 :: "nat \<Rightarrow> addr \<Rightarrow> nat \<Rightarrow> u32 \<Rightarrow> binder_state \<Rightarrow> binder_state option" where
  "put_obj32 p b off w s = do {
     h \<leftarrow> get_buf s p b; d \<leftarrow> put_u32 (buf_data h) off w; upd_buf p b (\<lambda>x. x\<lparr>buf_data := d\<rparr>) s }"

definition put_obj64 :: "nat \<Rightarrow> addr \<Rightarrow> nat \<Rightarrow> u64 \<Rightarrow> binder_state \<Rightarrow> binder_state option" where
  "put_obj64 p b off w s = do {
     h \<leftarrow> get_buf s p b; d \<leftarrow> put_u64 (buf_data h) off w; upd_buf p b (\<lambda>x. x\<lparr>buf_data := d\<rparr>) s }"

text \<open>The node of an object the sender serves, created at its first use.\<close>

definition object_node ::
  "'k kernel_scheme \<Rightarrow> nat \<Rightarrow> flat_binder_object \<Rightarrow> binder_state \<Rightarrow> (nat option \<times> binder_state) option" where
  "object_node k p f s = do {
     n \<leftarrow> binder_get_node s p (fo_binder f);
     (case n of
        Some node \<Rightarrow> Some (Some node, s)
      | None \<Rightarrow> do {
          (new, s1) \<leftarrow> binder_new_node k s p (fo_binder f) (fo_cookie f);
          (case new of
             None \<Rightarrow> Some (None, s1)
           | Some node \<Rightarrow> do {
               s2 \<leftarrow> upd_node node (\<lambda>x. x\<lparr>
                 min_priority := uint (fo_flags f AND FLAT_BINDER_FLAG_PRIORITY_MASK),
                 accept_fds := (fo_flags f AND FLAT_BINDER_FLAG_ACCEPTS_FDS \<noteq> 0)\<rparr>) s1;
               Some (Some node, s2) }) }) }"

definition translate_binder ::
  "'k kernel_scheme \<Rightarrow> nat \<Rightarrow> nat \<Rightarrow> nat \<Rightarrow> addr \<Rightarrow> nat \<Rightarrow> flat_binder_object \<Rightarrow> binder_state
    \<Rightarrow> (bool \<times> binder_state) option" where
  "translate_binder k p t tp b off f s = do {
     pr \<leftarrow> procs s p;
     tpr \<leftarrow> procs s tp;
     (node, s1) \<leftarrow> object_node k p f s;
     (case node of
        None \<Rightarrow> Some (False, s1)
      | Some n \<Rightarrow> do {
          nd \<leftarrow> nds s1 n;
          if fo_cookie f \<noteq> nd_cookie nd then Some (False, s1)
          else if security_binder_transfer_binder k (tsk (pr_alloc pr)) (tsk (pr_alloc tpr)) \<noteq> 0
          then Some (False, s1)
          else do {
            (r, s2) \<leftarrow> binder_get_ref_for_node k s1 tp n;
            (case r of
               None \<Rightarrow> Some (False, s2)
             | Some ref \<Rightarrow> do {
                 rf \<leftarrow> rfs s2 ref;
                 let ty = (if fo_type f = BINDER_TYPE_BINDER then BINDER_TYPE_HANDLE else BINDER_TYPE_WEAK_HANDLE);
                 s3 \<leftarrow> put_obj32 tp b off ty s2;
                 s4 \<leftarrow> put_obj32 tp b (off + 8) (rf_desc rf) s3;
                 (_, s5) \<leftarrow> binder_inc_ref s4 ref (ty = BINDER_TYPE_HANDLE) (Some (Thread_Todo t));
                 Some (True, s5) }) } }) }"

definition translate_handle ::
  "'k kernel_scheme \<Rightarrow> nat \<Rightarrow> nat \<Rightarrow> addr \<Rightarrow> nat \<Rightarrow> flat_binder_object \<Rightarrow> binder_state
    \<Rightarrow> (bool \<times> binder_state) option" where
  "translate_handle k p tp b off f s = do {
     pr \<leftarrow> procs s p;
     tpr \<leftarrow> procs s tp;
     r \<leftarrow> binder_get_ref s p (fo_handle f);
     (case r of
        None \<Rightarrow> Some (False, s)
      | Some ref \<Rightarrow>
          if security_binder_transfer_binder k (tsk (pr_alloc pr)) (tsk (pr_alloc tpr)) \<noteq> 0
          then Some (False, s)
          else do {
            rf \<leftarrow> rfs s ref;
            nd \<leftarrow> nds s (rf_node rf);
            if nd_proc nd = Some tp
            then do {
              let ty = (if fo_type f = BINDER_TYPE_HANDLE then BINDER_TYPE_BINDER else BINDER_TYPE_WEAK_BINDER);
              s1 \<leftarrow> put_obj32 tp b off ty s;
              s2 \<leftarrow> put_obj64 tp b (off + 8) (nd_ptr nd) s1;
              s3 \<leftarrow> put_obj64 tp b (off + 16) (nd_cookie nd) s2;
              (_, s4) \<leftarrow> binder_inc_node s3 (rf_node rf) (ty = BINDER_TYPE_BINDER) False None;
              Some (True, s4) }
            else do {
              (nr, s1) \<leftarrow> binder_get_ref_for_node k s tp (rf_node rf);
              (case nr of
                 None \<Rightarrow> Some (False, s1)
               | Some nref \<Rightarrow> do {
                   nrf \<leftarrow> rfs s1 nref;
                   s2 \<leftarrow> put_obj32 tp b (off + 8) (rf_desc nrf) s1;
                   (_, s3) \<leftarrow> binder_inc_ref s2 nref (fo_type f = BINDER_TYPE_HANDLE) None;
                   Some (True, s3) }) } }) }"

text \<open>A descriptor: refused unless the receiver accepts them; \<open>fget\<close> reads the caller's table.\<close>

definition fds_allowed :: "txn_target \<Rightarrow> binder_state \<Rightarrow> bool option" where
  "fds_allowed x s =
     (case x_in_reply x of
        Some irt \<Rightarrow> do { tx \<leftarrow> txns s irt; Some (tx_flags tx AND TF_ACCEPT_FDS \<noteq> 0) }
      | None \<Rightarrow> (case x_node x of None \<Rightarrow> None | Some n \<Rightarrow> map_option accept_fds (nds s n)))"

definition translate_fd ::
  "'k kernel_scheme \<Rightarrow> caller \<Rightarrow> nat \<Rightarrow> txn_target \<Rightarrow> addr \<Rightarrow> nat \<Rightarrow> flat_binder_object \<Rightarrow> binder_state
    \<Rightarrow> (bool \<times> binder_state) option" where
  "translate_fd k c p x b off f s = do {
     pr \<leftarrow> procs s p;
     tpr \<leftarrow> procs s (x_proc x);
     allowed \<leftarrow> fds_allowed x s;
     if \<not> allowed then Some (False, s)
     else (case fds s (c_files c) (fo_handle f) of
       None \<Rightarrow> Some (False, s)
     | Some file \<Rightarrow>
         if security_binder_transfer_file k (tsk (pr_alloc pr)) (tsk (pr_alloc tpr)) file < 0
         then Some (False, s)
         else do {
           target_fd \<leftarrow> task_get_unused_fd_flags k s (x_proc x);
           if target_fd < 0 then Some (False, s)
           else do {
             s1 \<leftarrow> task_fd_install s (x_proc x) (word_of_int target_fd) file;
             s2 \<leftarrow> put_obj32 (x_proc x) b (off + 8) (word_of_int target_fd) s1;
             Some (True, s2) } }) }"

definition translate_object ::
  "'k kernel_scheme \<Rightarrow> caller \<Rightarrow> nat \<Rightarrow> nat \<Rightarrow> txn_target \<Rightarrow> addr \<Rightarrow> u64 \<Rightarrow> binder_state
    \<Rightarrow> (bool \<times> binder_state) option" where
  "translate_object k c p t x b off s = do {
     h \<leftarrow> get_buf s (x_proc x) b;
     if bad_offset (buf_data_size h) off then Some (False, s)
     else do {
       f \<leftarrow> get_flat_object (buf_data h) (unat off);
       if fo_type f = BINDER_TYPE_BINDER \<or> fo_type f = BINDER_TYPE_WEAK_BINDER
       then translate_binder k p t (x_proc x) b (unat off) f s
       else if fo_type f = BINDER_TYPE_HANDLE \<or> fo_type f = BINDER_TYPE_WEAK_HANDLE
       then translate_handle k p (x_proc x) b (unat off) f s
       else if fo_type f = BINDER_TYPE_FD then translate_fd k c p x b (unat off) f s
       else Some (False, s) } }"

text \<open>The loop over the offsets; \<open>Some pos\<close> is the offset it failed at.\<close>

fun translate_objects ::
  "'k kernel_scheme \<Rightarrow> caller \<Rightarrow> nat \<Rightarrow> nat \<Rightarrow> txn_target \<Rightarrow> addr \<Rightarrow> nat \<Rightarrow> nat \<Rightarrow> binder_state
    \<Rightarrow> (nat option \<times> binder_state) option" where
  "translate_objects k c p t x b pos 0 s = Some (None, s)"
| "translate_objects k c p t x b pos (Suc n) s = do {
     h \<leftarrow> get_buf s (x_proc x) b;
     off \<leftarrow> get_u64 (buf_data h) pos;
     (ok, s1) \<leftarrow> translate_object k c p t x b off s;
     if ok then translate_objects k c p t x b (pos + 8) n s1 else Some (Some pos, s1) }"

section \<open>The transaction\<close>

text \<open>The contents of a buffer before the copy: as many bytes as were asked for, whatever is there.\<close>

definition stale_bytes :: "'k kernel_scheme \<Rightarrow> addr \<Rightarrow> nat \<Rightarrow> byte list" where
  "stale_bytes k b n = (let d = buf_data (stale_header k b) in take n d @ replicate (n - length d) 0)"

text \<open>Copying the data and the offsets in; the flag is success.\<close>

definition fill_buffer ::
  "user_space \<Rightarrow> binder_transaction_data \<Rightarrow> nat \<Rightarrow> addr \<Rightarrow> binder_state \<Rightarrow> (bool \<times> binder_state) option" where
  "fill_buffer um tr p b s =
     (case copy_from_user um (td_buffer tr) (unat (td_data_size tr)) of
        None \<Rightarrow> Some (False, s)
      | Some data \<Rightarrow> do {
          h \<leftarrow> get_buf s p b;
          d1 \<leftarrow> put_range (buf_data h) 0 data;
          s1 \<leftarrow> upd_buf p b (\<lambda>x. x\<lparr>buf_data := d1\<rparr>) s;
          (case copy_from_user um (td_offsets tr) (unat (td_offsets_size tr)) of
             None \<Rightarrow> Some (False, s1)
           | Some offs \<Rightarrow> do {
               d2 \<leftarrow> put_range d1 (align_ptr (unat (td_data_size tr))) offs;
               s2 \<leftarrow> upd_buf p b (\<lambda>x. x\<lparr>buf_data := d2\<rparr>) s1;
               Some (unat (td_offsets_size tr) mod 8 = 0, s2) }) })"

definition new_transaction ::
  "'k kernel_scheme \<Rightarrow> caller \<Rightarrow> nat \<Rightarrow> nat \<Rightarrow> binder_transaction_data \<Rightarrow> bool \<Rightarrow> txn_target \<Rightarrow> int \<Rightarrow> binder_state
    \<Rightarrow> binder_transaction option" where
  "new_transaction k c p t tr reply x d s = do {
     pr \<leftarrow> procs s p;
     Some \<lparr>tx_debug_id = d,
       tx_from = (if \<not> reply \<and> td_flags tr AND TF_ONE_WAY = 0 then Some t else None),
       from_parent = None, to_proc = Some (x_proc x), to_thread = x_thread x, to_parent = None,
       need_reply = False, tx_buffer = None, tx_code = td_code tr, tx_flags = td_flags tr,
       tx_priority = nice s (c_pid c), saved_priority = 0, sender_euid = task_euid k (tsk (pr_alloc pr))\<rparr> }"

text \<open>After the buffer has been allocated: its header, the hold on the target node, its contents.\<close>

definition prepare_buffer ::
  "'k kernel_scheme \<Rightarrow> user_space \<Rightarrow> binder_transaction_data \<Rightarrow> txn_target \<Rightarrow> nat \<Rightarrow> addr \<Rightarrow> binder_state
    \<Rightarrow> (bool \<times> binder_state) option" where
  "prepare_buffer k um tr x tid b s = do {
     tx \<leftarrow> txns s tid;
     s1 \<leftarrow> upd_buf (x_proc x) b (\<lambda>h. h\<lparr>allow_user_free := False, buf_debug_id := tx_debug_id tx mod 2 ^ 29,
             buf_transaction := Some tid, buf_target_node := x_node x,
             buf_data := stale_bytes k b (align_ptr (unat (td_data_size tr)) + align_ptr (unat (td_offsets_size tr)))\<rparr>) s;
     s2 \<leftarrow> upd_txn tid (\<lambda>y. y\<lparr>tx_buffer := Some (x_proc x, b)\<rparr>) s1;
     s3 \<leftarrow> (case x_node x of None \<Rightarrow> Some s2
            | Some n \<Rightarrow> map_option snd (binder_inc_node s2 n True False None));
     fill_buffer um tr (x_proc x) b s3 }"

text \<open>The successful end: the stacks, the two work items and the wake-up.\<close>

definition txn_link ::
  "nat \<Rightarrow> binder_transaction_data \<Rightarrow> bool \<Rightarrow> txn_target \<Rightarrow> nat \<Rightarrow> binder_buffer \<Rightarrow> binder_state
    \<Rightarrow> (list_id \<times> wait_queue option \<times> binder_state) option" where
  "txn_link t tr reply x tid h s =
     (let L = (case x_thread x of Some tt \<Rightarrow> Thread_Todo tt | None \<Rightarrow> Proc_Todo (x_proc x));
          W = (case x_thread x of Some tt \<Rightarrow> Thread_Wait tt | None \<Rightarrow> Proc_Wait (x_proc x)) in
      if reply
      then if async_transaction h then None
           else do {
             irt \<leftarrow> x_in_reply x;
             s1 \<leftarrow> binder_pop_transaction (x_thread x) irt s;
             Some (L, Some W, s1) }
      else if td_flags tr AND TF_ONE_WAY = 0
      then if async_transaction h then None
           else do {
             th \<leftarrow> thrs s t;
             s1 \<leftarrow> upd_txn tid (\<lambda>y. y\<lparr>need_reply := True, from_parent := transaction_stack th\<rparr>) s;
             s2 \<leftarrow> upd_thread t (\<lambda>y. y\<lparr>transaction_stack := Some tid\<rparr>) s1;
             Some (L, Some W, s2) }
      else do {
        n \<leftarrow> x_node x;
        if \<not> async_transaction h then None
        else do {
          nd \<leftarrow> nds s n;
          if has_async_transaction nd then Some (Async_Todo n, None, s)
          else do {
            s1 \<leftarrow> upd_node n (\<lambda>y. y\<lparr>has_async_transaction := True\<rparr>) s;
            Some (L, Some W, s1) } } })"

definition txn_enqueue ::
  "nat \<Rightarrow> binder_transaction_data \<Rightarrow> bool \<Rightarrow> txn_target \<Rightarrow> nat \<Rightarrow> nat \<Rightarrow> addr \<Rightarrow> binder_state \<Rightarrow> binder_state option" where
  "txn_enqueue t tr reply x tid tc b s = do {
     h \<leftarrow> get_buf s (x_proc x) b;
     (L, W, s1) \<leftarrow> txn_link t tr reply x tid h s;
     s2 \<leftarrow> list_add_tail (W_Transaction tid) L s1;
     s3 \<leftarrow> list_add_tail (W_Transaction_Complete tc) (Thread_Todo t) s2;
     Some (case W of None \<Rightarrow> s3 | Some w \<Rightarrow> wake_up w s3) }"

text \<open>The error labels, from \<open>err_copy_data_failed\<close> on, and from \<open>err_alloc_t_failed\<close> on.\<close>

definition txn_unwind ::
  "'k kernel_scheme \<Rightarrow> txn_target \<Rightarrow> nat \<Rightarrow> addr \<Rightarrow> nat \<Rightarrow> binder_state \<Rightarrow> binder_state option" where
  "txn_unwind k x tid b failed_at s = do {
     s1 \<leftarrow> binder_transaction_buffer_release k s (x_proc x) b (Some failed_at);
     s2 \<leftarrow> upd_buf (x_proc x) b (\<lambda>h. h\<lparr>buf_transaction := None\<rparr>) s1;
     s3 \<leftarrow> proc_free_buf k s2 (x_proc x) b;
     Some (s3\<lparr>txns := (txns s3)(tid := None)\<rparr>) }"

definition txn_fail :: "nat \<Rightarrow> txn_failure \<Rightarrow> binder_state \<Rightarrow> binder_state option" where
  "txn_fail t e s = do {
     th \<leftarrow> thrs s t;
     if return_error th \<noteq> BR_OK then None
     else (case snd e of
       Some irt \<Rightarrow> do {
         s1 \<leftarrow> upd_thread t (\<lambda>x. x\<lparr>return_error := BR_TRANSACTION_COMPLETE\<rparr>) s;
         binder_send_failed_reply irt (fst e) s1 }
     | None \<Rightarrow> upd_thread t (\<lambda>x. x\<lparr>return_error := fst e\<rparr>) s) }"

text \<open>From the allocation of the transaction to its enqueueing; the flag is success.\<close>

definition txn_send ::
  "'k kernel_scheme \<Rightarrow> caller \<Rightarrow> user_space \<Rightarrow> nat \<Rightarrow> nat \<Rightarrow> binder_transaction_data \<Rightarrow> bool \<Rightarrow> txn_target \<Rightarrow> binder_state
    \<Rightarrow> (bool \<times> binder_state) option" where
  "txn_send k c um p t tr reply x s =
     (case kzalloc k s of
        (None, s1) \<Rightarrow> Some (False, s1)
      | (Some tid, s1) \<Rightarrow>
          (case kzalloc k s1 of
             (None, s2) \<Rightarrow> Some (False, s2)
           | (Some tc, s2) \<Rightarrow> do {
               tx \<leftarrow> new_transaction k c p t tr reply x (binder_last_id s2 + 1) s2;
               let s3 = s2\<lparr>binder_last_id := binder_last_id s2 + 1, txns := (txns s2)(tid \<mapsto> tx)\<rparr>;
               (bo, s4) \<leftarrow> proc_alloc_buf k s3 (x_proc x) (unat (td_data_size tr)) (unat (td_offsets_size tr))
                             (\<not> reply \<and> td_flags tr AND TF_ONE_WAY \<noteq> 0);
               (case bo of
                  None \<Rightarrow> Some (False, s4\<lparr>txns := (txns s4)(tid := None)\<rparr>)
                | Some b \<Rightarrow> do {
                    let offp = align_ptr (unat (td_data_size tr));
                    (filled, s5) \<leftarrow> prepare_buffer k um tr x tid b s4;
                    if \<not> filled then do { s6 \<leftarrow> txn_unwind k x tid b offp s5; Some (False, s6) }
                    else do {
                      (failed, s6) \<leftarrow> translate_objects k c p t x b offp (unat (td_offsets_size tr) div 8) s5;
                      (case failed of
                         Some pos \<Rightarrow> do { s7 \<leftarrow> txn_unwind k x tid b pos s6; Some (False, s7) }
                       | None \<Rightarrow> do { s7 \<leftarrow> txn_enqueue t tr reply x tid tc b s6; Some (True, s7) }) } }) }))"

definition binder_transaction ::
  "'k kernel_scheme \<Rightarrow> caller \<Rightarrow> user_space \<Rightarrow> nat \<Rightarrow> nat \<Rightarrow> binder_transaction_data \<Rightarrow> bool \<Rightarrow> binder_state
    \<Rightarrow> binder_state option" where
  "binder_transaction k c um p t tr reply s = do {
     (tgt, s1) \<leftarrow> txn_target_of k c p t tr reply s;
     (case tgt of
        Inl e \<Rightarrow> txn_fail t e s1
      | Inr x \<Rightarrow> do {
          (ok, s2) \<leftarrow> txn_send k c um p t tr reply x s1;
          if ok then Some s2 else txn_fail t (BR_FAILED_REPLY, x_in_reply x) s2 }) }"

end
