(* ===== verification/Binder_Write.thy ===== *)
theory Binder_Write
  imports Binder_Txn
begin

text \<open>
  \<open>binder_thread_write\<close> of \<open>driver/binder/binder.c\<close>: the loop over the commands a thread writes, with
  one definition per group of commands. A command reads its arguments through \<open>ptr\<close> and
  either returns the pointer behind them or ends the call with an error code.
\<close>

unbundle bit_operations_syntax

section \<open>Reference counts\<close>

text \<open>
  \<open>BC_INCREFS\<close>, \<open>BC_ACQUIRE\<close>, \<open>BC_RELEASE\<close> and \<open>BC_DECREFS\<close>. On handle 0 the first two create the reference
  to the context manager; \<open>ref->desc\<close> is read before \<open>ref\<close> is checked, so that a reference that could
  not be allocated is a fault.
\<close>

definition change_ref :: "'k kernel_scheme \<Rightarrow> nat \<Rightarrow> u32 \<Rightarrow> u32 \<Rightarrow> binder_state \<Rightarrow> binder_state option" where
  "change_ref k p cmd target s = do {
     (r, s1) \<leftarrow>
       (if target = 0 \<and> binder_context_mgr_node s \<noteq> None \<and> (cmd = BC_INCREFS \<or> cmd = BC_ACQUIRE)
        then do {
          (ro, s') \<leftarrow> binder_get_ref_for_node k s p (the (binder_context_mgr_node s));
          ref \<leftarrow> ro;
          _ \<leftarrow> rfs s' ref;
          Some (Some ref, s') }
        else do { ro \<leftarrow> binder_get_ref s p target; Some (ro, s) });
     (case r of
        None \<Rightarrow> Some s1
      | Some ref \<Rightarrow>
          if cmd = BC_INCREFS then map_option snd (binder_inc_ref s1 ref False None)
          else if cmd = BC_ACQUIRE then map_option snd (binder_inc_ref s1 ref True None)
          else if cmd = BC_RELEASE then map_option snd (binder_dec_ref k s1 ref True)
          else map_option snd (binder_dec_ref k s1 ref False)) }"

definition ref_done :: "'k kernel_scheme \<Rightarrow> nat \<Rightarrow> u32 \<Rightarrow> u64 \<Rightarrow> u64 \<Rightarrow> binder_state \<Rightarrow> binder_state option" where
  "ref_done k p cmd node_ptr cookie s = do {
     no \<leftarrow> binder_get_node s p node_ptr;
     (case no of
        None \<Rightarrow> Some s
      | Some n \<Rightarrow> do {
          nd \<leftarrow> nds s n;
          if cookie \<noteq> nd_cookie nd then Some s
          else if cmd = BC_ACQUIRE_DONE
          then if \<not> pending_strong_ref nd then Some s
               else do {
                 s1 \<leftarrow> upd_node n (\<lambda>x. x\<lparr>pending_strong_ref := False\<rparr>) s;
                 binder_dec_node k s1 n True False }
          else if \<not> pending_weak_ref nd then Some s
               else do {
                 s1 \<leftarrow> upd_node n (\<lambda>x. x\<lparr>pending_weak_ref := False\<rparr>) s;
                 binder_dec_node k s1 n False False } }) }"

section \<open>Buffers\<close>

text \<open>The next asynchronous transaction of the node moves to the thread, or the node is idle again.\<close>

definition async_next :: "nat \<Rightarrow> nat \<Rightarrow> binder_state \<Rightarrow> binder_state option" where
  "async_next t n s = do {
     nd \<leftarrow> nds s n;
     if \<not> has_async_transaction nd then None
     else (case queues s (Async_Todo n) of
       [] \<Rightarrow> upd_node n (\<lambda>x. x\<lparr>has_async_transaction := False\<rparr>) s
     | w # _ \<Rightarrow> list_add_tail w (Thread_Todo t) (list_del w s)) }"

definition user_free_buffer :: "'k kernel_scheme \<Rightarrow> nat \<Rightarrow> nat \<Rightarrow> u64 \<Rightarrow> binder_state \<Rightarrow> binder_state option" where
  "user_free_buffer k p t data_ptr s = do {
     pr \<leftarrow> procs s p;
     bo \<leftarrow> binder_buffer_lookup (pr_alloc pr) (unat data_ptr);
     (case bo of
        None \<Rightarrow> Some s
      | Some b \<Rightarrow> do {
          h \<leftarrow> get_buf s p b;
          if \<not> allow_user_free h then Some s
          else do {
            s1 \<leftarrow> (case buf_transaction h of
                     None \<Rightarrow> Some s
                   | Some tid \<Rightarrow> do {
                       s' \<leftarrow> upd_txn tid (\<lambda>x. x\<lparr>tx_buffer := None\<rparr>) s;
                       upd_buf p b (\<lambda>x. x\<lparr>buf_transaction := None\<rparr>) s' });
            s2 \<leftarrow> (case buf_target_node h of
                     Some n \<Rightarrow> if async_transaction h then async_next t n s1 else Some s1
                   | None \<Rightarrow> Some s1);
            s3 \<leftarrow> binder_transaction_buffer_release k s2 p b None;
            proc_free_buf k s3 p b } }) }"

section \<open>Loopers\<close>

definition register_looper :: "nat \<Rightarrow> nat \<Rightarrow> binder_state \<Rightarrow> binder_state option" where
  "register_looper p t s = do {
     th \<leftarrow> thrs s t;
     pr \<leftarrow> procs s p;
     s1 \<leftarrow> (if looper th AND LOOPER_ENTERED \<noteq> 0
            then upd_thread t (\<lambda>x. x\<lparr>looper := looper x OR LOOPER_INVALID\<rparr>) s
            else if requested_threads pr = 0
            then upd_thread t (\<lambda>x. x\<lparr>looper := looper x OR LOOPER_INVALID\<rparr>) s
            else upd_proc p (\<lambda>x. x\<lparr>requested_threads := requested_threads x - 1,
                                  requested_threads_started := requested_threads_started x + 1\<rparr>) s);
     upd_thread t (\<lambda>x. x\<lparr>looper := looper x OR LOOPER_REGISTERED\<rparr>) s1 }"

definition enter_looper :: "nat \<Rightarrow> binder_state \<Rightarrow> binder_state option" where
  "enter_looper t s = do {
     th \<leftarrow> thrs s t;
     s1 \<leftarrow> (if looper th AND LOOPER_REGISTERED \<noteq> 0
            then upd_thread t (\<lambda>x. x\<lparr>looper := looper x OR LOOPER_INVALID\<rparr>) s else Some s);
     upd_thread t (\<lambda>x. x\<lparr>looper := looper x OR LOOPER_ENTERED\<rparr>) s1 }"

definition exit_looper :: "nat \<Rightarrow> binder_state \<Rightarrow> binder_state option" where
  "exit_looper t s = upd_thread t (\<lambda>x. x\<lparr>looper := looper x OR LOOPER_EXITED\<rparr>) s"

section \<open>Death notifications\<close>

text \<open>A notification goes to the thread if it is a looper, to the process otherwise.\<close>

definition queue_death :: "nat \<Rightarrow> nat \<Rightarrow> nat \<Rightarrow> binder_state \<Rightarrow> binder_state option" where
  "queue_death p t d s = do {
     th \<leftarrow> thrs s t;
     if looper th AND (LOOPER_REGISTERED OR LOOPER_ENTERED) \<noteq> 0
     then list_add_tail (W_Death d) (Thread_Todo t) s
     else do {
       s1 \<leftarrow> list_add_tail (W_Death d) (Proc_Todo p) s;
       Some (wake_up (Proc_Wait p) s1) } }"

definition request_death ::
  "'k kernel_scheme \<Rightarrow> nat \<Rightarrow> nat \<Rightarrow> nat \<Rightarrow> u64 \<Rightarrow> binder_state \<Rightarrow> binder_state option" where
  "request_death k p t ref cookie s = do {
     rf \<leftarrow> rfs s ref;
     if rf_death rf \<noteq> None then Some s
     else (case kzalloc k s of
       (None, s1) \<Rightarrow> upd_thread t (\<lambda>x. x\<lparr>return_error := BR_ERROR\<rparr>) s1
     | (Some d, s1) \<Rightarrow> do {
         let s2 = s1\<lparr>deaths := (deaths s1)(d \<mapsto> \<lparr>dt_type = None, dt_cookie = cookie\<rparr>),
                     entry := (entry s1)(W_Death d := None)\<rparr>;
         s3 \<leftarrow> upd_ref ref (\<lambda>x. x\<lparr>rf_death := Some d\<rparr>) s2;
         nd \<leftarrow> nds s3 (rf_node rf);
         if nd_proc nd = None
         then do {
           s4 \<leftarrow> upd_death d (\<lambda>x. x\<lparr>dt_type := Some DEAD_BINDER\<rparr>) s3;
           queue_death p t d s4 }
         else Some s3 }) }"

definition clear_death :: "nat \<Rightarrow> nat \<Rightarrow> nat \<Rightarrow> u64 \<Rightarrow> binder_state \<Rightarrow> binder_state option" where
  "clear_death p t ref cookie s = do {
     rf \<leftarrow> rfs s ref;
     (case rf_death rf of
        None \<Rightarrow> Some s
      | Some d \<Rightarrow> do {
          death \<leftarrow> deaths s d;
          if dt_cookie death \<noteq> cookie then Some s
          else do {
            s1 \<leftarrow> upd_ref ref (\<lambda>x. x\<lparr>rf_death := None\<rparr>) s;
            if entry s1 (W_Death d) = None
            then do {
              s2 \<leftarrow> upd_death d (\<lambda>x. x\<lparr>dt_type := Some CLEAR_DEATH_NOTIFICATION\<rparr>) s1;
              queue_death p t d s2 }
            else if dt_type death \<noteq> Some DEAD_BINDER then None
            else upd_death d (\<lambda>x. x\<lparr>dt_type := Some DEAD_BINDER_AND_CLEAR\<rparr>) s1 } }) }"

definition death_command ::
  "'k kernel_scheme \<Rightarrow> nat \<Rightarrow> nat \<Rightarrow> u32 \<Rightarrow> u32 \<Rightarrow> u64 \<Rightarrow> binder_state \<Rightarrow> binder_state option" where
  "death_command k p t cmd target cookie s = do {
     r \<leftarrow> binder_get_ref s p target;
     (case r of
        None \<Rightarrow> Some s
      | Some ref \<Rightarrow> if cmd = BC_REQUEST_DEATH_NOTIFICATION then request_death k p t ref cookie s
                    else clear_death p t ref cookie s) }"

text \<open>The first delivered notification with this cookie.\<close>

fun find_delivered :: "(nat \<Rightarrow> binder_ref_death option) \<Rightarrow> u64 \<Rightarrow> work list \<Rightarrow> nat option option" where
  "find_delivered ds cookie [] = Some None"
| "find_delivered ds cookie (W_Death d # ws) =
     do { death \<leftarrow> ds d; if dt_cookie death = cookie then Some (Some d) else find_delivered ds cookie ws }"
| "find_delivered ds cookie (_ # ws) = None"

definition dead_binder_done :: "nat \<Rightarrow> nat \<Rightarrow> u64 \<Rightarrow> binder_state \<Rightarrow> binder_state option" where
  "dead_binder_done p t cookie s = do {
     r \<leftarrow> find_delivered (deaths s) cookie (queues s (Delivered_Death p));
     (case r of
        None \<Rightarrow> Some s
      | Some d \<Rightarrow> do {
          death \<leftarrow> deaths s d;
          let s1 = list_del (W_Death d) s;
          if dt_type death = Some DEAD_BINDER_AND_CLEAR
          then do {
            s2 \<leftarrow> upd_death d (\<lambda>x. x\<lparr>dt_type := Some CLEAR_DEATH_NOTIFICATION\<rparr>) s1;
            queue_death p t d s2 }
          else Some s1 }) }"

section \<open>The loop\<close>

text \<open>
  A command: \<open>Inl\<close> is the error the call returns, \<open>Inr\<close> the pointer behind the arguments.
\<close>

type_synonym write_step = "((int + u64) \<times> binder_state) option"

definition arg32 :: "user_space \<Rightarrow> u64 \<Rightarrow> binder_state \<Rightarrow> (u32 \<Rightarrow> write_step) \<Rightarrow> write_step" where
  "arg32 um ptr s f = (case get_user32 um ptr of None \<Rightarrow> Some (Inl (- EFAULT), s) | Some v \<Rightarrow> f v)"

definition arg64 :: "user_space \<Rightarrow> u64 \<Rightarrow> binder_state \<Rightarrow> (u64 \<Rightarrow> write_step) \<Rightarrow> write_step" where
  "arg64 um ptr s f = (case get_user64 um ptr of None \<Rightarrow> Some (Inl (- EFAULT), s) | Some v \<Rightarrow> f v)"

definition step_to :: "u64 \<Rightarrow> binder_state option \<Rightarrow> write_step" where
  "step_to ptr = map_option (\<lambda>s. (Inr ptr, s))"

definition write_command ::
  "'k kernel_scheme \<Rightarrow> caller \<Rightarrow> user_space \<Rightarrow> nat \<Rightarrow> nat \<Rightarrow> u32 \<Rightarrow> u64 \<Rightarrow> binder_state \<Rightarrow> write_step" where
  "write_command k c um p t cmd ptr s =
     (if cmd = BC_INCREFS \<or> cmd = BC_ACQUIRE \<or> cmd = BC_RELEASE \<or> cmd = BC_DECREFS
      then arg32 um ptr s (\<lambda>target. step_to (ptr + 4) (change_ref k p cmd target s))
      else if cmd = BC_INCREFS_DONE \<or> cmd = BC_ACQUIRE_DONE
      then arg64 um ptr s (\<lambda>node_ptr. arg64 um (ptr + 8) s (\<lambda>cookie.
             step_to (ptr + 16) (ref_done k p cmd node_ptr cookie s)))
      else if cmd = BC_ATTEMPT_ACQUIRE \<or> cmd = BC_ACQUIRE_RESULT then Some (Inl (- EINVAL), s)
      else if cmd = BC_FREE_BUFFER
      then arg64 um ptr s (\<lambda>data_ptr. step_to (ptr + 8) (user_free_buffer k p t data_ptr s))
      else if cmd = BC_TRANSACTION \<or> cmd = BC_REPLY
      then (case copy_from_user um ptr sizeof_transaction_data of
              None \<Rightarrow> Some (Inl (- EFAULT), s)
            | Some bs \<Rightarrow> step_to (ptr + 64)
                (do { tr \<leftarrow> get_transaction_data bs; binder_transaction k c um p t tr (cmd = BC_REPLY) s }))
      else if cmd = BC_REGISTER_LOOPER then step_to ptr (register_looper p t s)
      else if cmd = BC_ENTER_LOOPER then step_to ptr (enter_looper t s)
      else if cmd = BC_EXIT_LOOPER then step_to ptr (exit_looper t s)
      else if cmd = BC_REQUEST_DEATH_NOTIFICATION \<or> cmd = BC_CLEAR_DEATH_NOTIFICATION
      then arg32 um ptr s (\<lambda>target. arg64 um (ptr + 4) s (\<lambda>cookie.
             step_to (ptr + 12) (death_command k p t cmd target cookie s)))
      else if cmd = BC_DEAD_BINDER_DONE
      then arg64 um ptr s (\<lambda>cookie. step_to (ptr + 8) (dead_binder_done p t cookie s))
      else Some (Inl (- EINVAL), s))"

text \<open>
  The loop. \<open>consumed\<close> follows \<open>ptr\<close> at the end of each command only. A run out of \<open>fuel\<close> is
  \<open>None\<close>; as a command is at least four bytes, as many rounds as the buffer has bytes are enough.
\<close>

fun write_loop ::
  "nat \<Rightarrow> 'k kernel_scheme \<Rightarrow> caller \<Rightarrow> user_space \<Rightarrow> nat \<Rightarrow> nat \<Rightarrow> u64 \<Rightarrow> u64 \<Rightarrow> u64 \<Rightarrow> u64 \<Rightarrow> binder_state
    \<Rightarrow> (int \<times> u64 \<times> binder_state) option" where
  "write_loop 0 k c um p t ubuf ptr uend consumed s = do {
     th \<leftarrow> thrs s t;
     if ptr < uend \<and> return_error th = BR_OK then None else Some (0, consumed, s) }"
| "write_loop (Suc fuel) k c um p t ubuf ptr uend consumed s = do {
     th \<leftarrow> thrs s t;
     if ptr < uend \<and> return_error th = BR_OK
     then (case get_user32 um ptr of
             None \<Rightarrow> Some (- EFAULT, consumed, s)
           | Some cmd \<Rightarrow> do {
               (r, s1) \<leftarrow> write_command k c um p t cmd (ptr + 4) s;
               (case r of
                  Inl e \<Rightarrow> Some (e, consumed, s1)
                | Inr ptr' \<Rightarrow> write_loop fuel k c um p t ubuf ptr' uend (ptr' - ubuf) s1) })
     else Some (0, consumed, s) }"

definition binder_thread_write ::
  "'k kernel_scheme \<Rightarrow> caller \<Rightarrow> user_space \<Rightarrow> nat \<Rightarrow> nat \<Rightarrow> u64 \<Rightarrow> u64 \<Rightarrow> u64 \<Rightarrow> binder_state
    \<Rightarrow> (int \<times> u64 \<times> binder_state) option" where
  "binder_thread_write k c um p t ubuf sz consumed s =
     write_loop (Suc (unat sz)) k c um p t ubuf (ubuf + consumed) (ubuf + sz) consumed s"

end
