(* ===== verification/Binder_Read.thy ===== *)
theory Binder_Read
  imports Binder_Txn
begin

text \<open>
  \<open>binder_thread_read\<close> of \<open>driver/binder/binder.c\<close>: what a thread is told. The driver's lock is given up
  while the thread waits; what the rest of the system does in the meantime, and how the wait
  ends, is the parameter \<open>env\<close>, applied once per wait. The wait for \<open>binder_stop_on_user_error\<close>, which is
  a debugging aid and off by default, is left out.
\<close>

unbundle bit_operations_syntax

definition binder_has_proc_work :: "binder_state \<Rightarrow> nat \<Rightarrow> binder_thread \<Rightarrow> bool" where
  "binder_has_proc_work s p th \<longleftrightarrow> queues s (Proc_Todo p) \<noteq> [] \<or> looper th AND LOOPER_NEED_RETURN \<noteq> 0"

definition binder_has_thread_work :: "binder_state \<Rightarrow> nat \<Rightarrow> binder_thread \<Rightarrow> bool" where
  "binder_has_thread_work s t th \<longleftrightarrow> queues s (Thread_Todo t) \<noteq> [] \<or> return_error th \<noteq> BR_OK
     \<or> looper th AND LOOPER_NEED_RETURN \<noteq> 0"

section \<open>Steps\<close>

text \<open>
  How a part of the call ends: with the error it returns, at the label \<open>done\<close>, by going on behind what it
  has written, or at the label \<open>retry\<close>.
\<close>

datatype read_next = Read_Error int | Read_Done u64 | Read_On u64 | Read_Retry u64

type_synonym read_step = "(read_next \<times> user_space \<times> binder_state) option"

definition put32 ::
  "user_space \<Rightarrow> u64 \<Rightarrow> u32 \<Rightarrow> binder_state \<Rightarrow> (user_space \<Rightarrow> u64 \<Rightarrow> read_step) \<Rightarrow> read_step" where
  "put32 um ptr w s f =
     (case put_user32 um ptr w of None \<Rightarrow> Some (Read_Error (- EFAULT), um, s) | Some um' \<Rightarrow> f um' (ptr + 4))"

definition put64 ::
  "user_space \<Rightarrow> u64 \<Rightarrow> u64 \<Rightarrow> binder_state \<Rightarrow> (user_space \<Rightarrow> u64 \<Rightarrow> read_step) \<Rightarrow> read_step" where
  "put64 um ptr w s f =
     (case put_user64 um ptr w of None \<Rightarrow> Some (Read_Error (- EFAULT), um, s) | Some um' \<Rightarrow> f um' (ptr + 8))"

text \<open>Pending error codes, delivered before anything else; \<open>Read_On\<close> when there are none.\<close>

definition read_errors :: "user_space \<Rightarrow> nat \<Rightarrow> u64 \<Rightarrow> u64 \<Rightarrow> binder_state \<Rightarrow> read_step" where
  "read_errors um t ptr uend s = do {
     th \<leftarrow> thrs s t;
     if return_error th \<noteq> BR_OK \<and> ptr < uend
     then let last = (\<lambda>um' ptr' s'. put32 um' ptr' (return_error th) s' (\<lambda>um'' ptr''. do {
                  s2 \<leftarrow> upd_thread t (\<lambda>x. x\<lparr>return_error := BR_OK\<rparr>) s';
                  Some (Read_Done ptr'', um'', s2) })) in
          if return_error2 th \<noteq> BR_OK
          then put32 um ptr (return_error2 th) s (\<lambda>um' ptr'.
                 if ptr' = uend then Some (Read_Done ptr', um', s)
                 else do {
                   s1 \<leftarrow> upd_thread t (\<lambda>x. x\<lparr>return_error2 := BR_OK\<rparr>) s;
                   last um' ptr' s1 })
          else last um ptr s
     else Some (Read_On ptr, um, s) }"

section \<open>Waiting\<close>

text \<open>
  Up to the point where the lock is given up, and from the point where it is taken again; \<open>w\<close> is how the wait ended. Between
  the two any other thread may be in the driver.
\<close>

definition wait_begin ::
  "'k kernel_scheme \<Rightarrow> caller \<Rightarrow> nat \<Rightarrow> nat \<Rightarrow> bool \<Rightarrow> binder_state \<Rightarrow> binder_state option" where
  "wait_begin k c p t wfpw s = do {
     s1 \<leftarrow> upd_thread t (\<lambda>x. x\<lparr>looper := looper x OR LOOPER_WAITING\<rparr>) s;
     s2 \<leftarrow> (if wfpw then upd_proc p (\<lambda>x. x\<lparr>ready_threads := ready_threads x + 1\<rparr>) s1 else Some s1);
     pr \<leftarrow> procs s2 p;
     Some (if wfpw then binder_set_nice k (c_pid c) (default_priority pr) s2 else s2) }"

definition wait_end :: "nat \<Rightarrow> nat \<Rightarrow> bool \<Rightarrow> bool \<Rightarrow> int \<Rightarrow> binder_state \<Rightarrow> (int \<times> binder_state) option" where
  "wait_end p t wfpw non_block w s = do {
     th \<leftarrow> thrs s t;
     let ret = (if non_block
                then if (if wfpw then binder_has_proc_work s p th else binder_has_thread_work s t th) then 0 else - EAGAIN
                else w);
     s1 \<leftarrow> (if wfpw then upd_proc p (\<lambda>x. x\<lparr>ready_threads := ready_threads x - 1\<rparr>) s else Some s);
     s2 \<leftarrow> upd_thread t (\<lambda>x. x\<lparr>looper := looper x AND NOT LOOPER_WAITING\<rparr>) s1;
     Some (ret, s2) }"

definition read_wait ::
  "'k kernel_scheme \<Rightarrow> caller \<Rightarrow> (binder_state \<Rightarrow> int \<times> binder_state) \<Rightarrow> nat \<Rightarrow> nat \<Rightarrow> bool \<Rightarrow> bool \<Rightarrow> binder_state
    \<Rightarrow> (int \<times> binder_state) option" where
  "read_wait k c env p t wfpw non_block s = do {
     s1 \<leftarrow> wait_begin k c p t wfpw s;
     let (w, s2) = env s1;
     wait_end p t wfpw non_block w s2 }"

section \<open>Work items\<close>

text \<open>
  \<open>BINDER_WORK_NODE\<close>: the next thing to tell the process about its node, with the node after it;
  \<open>BR_NOOP\<close> is nothing.
\<close>

definition node_news :: "binder_node \<Rightarrow> u32 \<times> binder_node" where
  "node_news nd =
     (let strong = (internal_strong_refs nd \<noteq> 0 \<or> local_strong_refs nd \<noteq> 0);
          weak = (nd_refs nd \<noteq> [] \<or> local_weak_refs nd \<noteq> 0 \<or> strong) in
      if weak \<and> \<not> has_weak_ref nd
      then (BR_INCREFS, nd\<lparr>has_weak_ref := True, pending_weak_ref := True,
                           local_weak_refs := local_weak_refs nd + 1\<rparr>)
      else if strong \<and> \<not> has_strong_ref nd
      then (BR_ACQUIRE, nd\<lparr>has_strong_ref := True, pending_strong_ref := True,
                           local_strong_refs := local_strong_refs nd + 1\<rparr>)
      else if \<not> strong \<and> has_strong_ref nd then (BR_RELEASE, nd\<lparr>has_strong_ref := False\<rparr>)
      else if \<not> weak \<and> has_weak_ref nd then (BR_DECREFS, nd\<lparr>has_weak_ref := False\<rparr>)
      else (BR_NOOP, nd))"

definition node_unused :: "binder_node \<Rightarrow> bool" where
  "node_unused nd \<longleftrightarrow> internal_strong_refs nd = 0 \<and> local_strong_refs nd = 0 \<and> nd_refs nd = [] \<and> local_weak_refs nd = 0"

definition read_node ::
  "'k kernel_scheme \<Rightarrow> user_space \<Rightarrow> nat \<Rightarrow> nat \<Rightarrow> u64 \<Rightarrow> binder_state \<Rightarrow> read_step" where
  "read_node k um p n ptr s = do {
     nd \<leftarrow> nds s n;
     let (cmd, nd') = node_news nd;
     if cmd \<noteq> BR_NOOP
     then let s1 = s\<lparr>nds := (nds s)(n \<mapsto> nd')\<rparr> in
          put32 um ptr cmd s1 (\<lambda>um1 p1. put64 um1 p1 (nd_ptr nd) s1 (\<lambda>um2 p2. put64 um2 p2 (nd_cookie nd) s1
            (\<lambda>um3 p3. Some (Read_On p3, um3, s1))))
     else let s1 = list_del (W_Node n) s in
          if node_unused nd
          then do {
            s2 \<leftarrow> upd_proc p (\<lambda>pr. pr\<lparr>pr_nodes := rb_erase k n (pr_nodes pr)\<rparr>) s1;
            Some (Read_On ptr, um, s2\<lparr>nds := (nds s2)(n := None)\<rparr>) }
          else Some (Read_On ptr, um, s1) }"

definition read_death :: "user_space \<Rightarrow> nat \<Rightarrow> nat \<Rightarrow> u64 \<Rightarrow> binder_state \<Rightarrow> read_step" where
  "read_death um p d ptr s = do {
     death \<leftarrow> deaths s d;
     let cleared = (dt_type death = Some CLEAR_DEATH_NOTIFICATION);
     let cmd = (if cleared then BR_CLEAR_DEATH_NOTIFICATION_DONE else BR_DEAD_BINDER);
     put32 um ptr cmd s (\<lambda>um1 p1. put64 um1 p1 (dt_cookie death) s (\<lambda>um2 p2.
       if cleared
       then let s1 = list_del (W_Death d) s in Some (Read_On p2, um2, s1\<lparr>deaths := (deaths s1)(d := None)\<rparr>)
       else do {
         s1 \<leftarrow> list_add_head (W_Death d) (Delivered_Death p) (list_del (W_Death d) s);
         Some (Read_Done p2, um2, s1) })) }"

text \<open>The priority of the receiving thread; a call runs at its sender's unless the node asks for more.\<close>

definition txn_priority ::
  "'k kernel_scheme \<Rightarrow> caller \<Rightarrow> nat \<Rightarrow> binder_node \<Rightarrow> binder_state \<Rightarrow> binder_state option" where
  "txn_priority k c tid nd s = do {
     tx \<leftarrow> txns s tid;
     let saved = nice s (c_pid c);
     s1 \<leftarrow> upd_txn tid (\<lambda>x. x\<lparr>saved_priority := saved\<rparr>) s;
     Some (if tx_priority tx < min_priority nd \<and> tx_flags tx AND TF_ONE_WAY = 0
           then binder_set_nice k (c_pid c) (tx_priority tx) s1
           else if tx_flags tx AND TF_ONE_WAY = 0 \<or> saved > min_priority nd
           then binder_set_nice k (c_pid c) (min_priority nd) s1
           else s1) }"

text \<open>What the receiver is told: the node of a call, zero for a reply, and where the data is.\<close>

definition delivered_data ::
  "'k kernel_scheme \<Rightarrow> caller \<Rightarrow> nat \<Rightarrow> binder_transaction \<Rightarrow> addr \<Rightarrow> binder_buffer \<Rightarrow> (u64 \<times> u64) \<Rightarrow> binder_state
    \<Rightarrow> binder_transaction_data option" where
  "delivered_data k c p tx b h tgt s = do {
     pr \<leftarrow> procs s p;
     pid \<leftarrow> (case tx_from tx of
              None \<Rightarrow> Some 0
            | Some f \<Rightarrow> do {
                fth \<leftarrow> thrs s f;
                fpr \<leftarrow> procs s (th_proc fth);
                Some (task_tgid_nr_ns k (tsk (pr_alloc fpr)) (c_task c)) });
     let ub = (word_of_int (int (data_of b) + user_buffer_offset (pr_alloc pr)) :: u64);
     Some \<lparr>td_target = fst tgt, td_cookie = snd tgt, td_code = tx_code tx, td_flags = tx_flags tx,
           td_sender_pid = pid, td_sender_euid = from_kuid k (c_task c) (sender_euid tx),
           td_data_size = word_of_nat (buf_data_size h), td_offsets_size = word_of_nat (buf_offsets_size h),
           td_buffer = ub, td_offsets = ub + word_of_nat (align_ptr (buf_data_size h))\<rparr> }"

text \<open>The end of a delivery: a call goes on the thread's stack, anything else is finished.\<close>

definition delivered ::
  "nat \<Rightarrow> nat \<Rightarrow> nat \<Rightarrow> addr \<Rightarrow> u32 \<Rightarrow> binder_state \<Rightarrow> binder_state option" where
  "delivered t tid bp b cmd s = do {
     tx \<leftarrow> txns s tid;
     let s1 = list_del (W_Transaction tid) s;
     s2 \<leftarrow> upd_buf bp b (\<lambda>h. h\<lparr>allow_user_free := True\<rparr>) s1;
     if cmd = BR_TRANSACTION \<and> tx_flags tx AND TF_ONE_WAY = 0
     then do {
       th \<leftarrow> thrs s2 t;
       s3 \<leftarrow> upd_txn tid (\<lambda>x. x\<lparr>to_parent := transaction_stack th, to_thread := Some t\<rparr>) s2;
       upd_thread t (\<lambda>x. x\<lparr>transaction_stack := Some tid\<rparr>) s3 }
     else do {
       s3 \<leftarrow> upd_buf bp b (\<lambda>h. h\<lparr>buf_transaction := None\<rparr>) s2;
       Some (s3\<lparr>txns := (txns s3)(tid := None)\<rparr>) } }"

definition read_transaction ::
  "'k kernel_scheme \<Rightarrow> caller \<Rightarrow> user_space \<Rightarrow> nat \<Rightarrow> nat \<Rightarrow> nat \<Rightarrow> u64 \<Rightarrow> binder_state \<Rightarrow> read_step" where
  "read_transaction k c um p t tid ptr s = do {
     tx \<leftarrow> txns s tid;
     (bp, b) \<leftarrow> tx_buffer tx;
     h \<leftarrow> get_buf s bp b;
     (cmd, tgt, s1) \<leftarrow> (case buf_target_node h of
          Some n \<Rightarrow> do {
            nd \<leftarrow> nds s n;
            s' \<leftarrow> txn_priority k c tid nd s;
            Some (BR_TRANSACTION, (nd_ptr nd, nd_cookie nd), s') }
        | None \<Rightarrow> Some (BR_REPLY, (0, 0), s));
     tr \<leftarrow> delivered_data k c p tx b h tgt s1;
     put32 um ptr cmd s1 (\<lambda>um1 p1.
       (case copy_to_user um1 p1 (transaction_data_bytes tr) of
          None \<Rightarrow> Some (Read_Error (- EFAULT), um1, s1)
        | Some um2 \<Rightarrow> do {
            s2 \<leftarrow> delivered t tid bp b cmd s1;
            Some (Read_Done (p1 + 64), um2, s2) })) }"

text \<open>
  One round of the loop. \<open>end - ptr\<close> is a difference of pointers that is compared as unsigned:
  when \<open>ptr\<close> is past \<open>end\<close> it is huge.
\<close>

definition read_work ::
  "'k kernel_scheme \<Rightarrow> caller \<Rightarrow> user_space \<Rightarrow> nat \<Rightarrow> nat \<Rightarrow> bool \<Rightarrow> u64 \<Rightarrow> u64 \<Rightarrow> u64 \<Rightarrow> binder_state \<Rightarrow> read_step" where
  "read_work k c um p t wfpw ubuf ptr uend s =
     (let todo = (if queues s (Thread_Todo t) \<noteq> [] then queues s (Thread_Todo t)
                  else if wfpw then queues s (Proc_Todo p) else []) in
      (case todo of
         [] \<Rightarrow> do {
           th \<leftarrow> thrs s t;
           Some (if ptr - ubuf = 4 \<and> looper th AND LOOPER_NEED_RETURN = 0 then Read_Retry ptr else Read_Done ptr, um, s) }
       | w # _ \<Rightarrow>
           if uend - ptr < 64 + 4 then Some (Read_Done ptr, um, s)
           else (case w of
             W_Transaction tid \<Rightarrow> read_transaction k c um p t tid ptr s
           | W_Transaction_Complete a \<Rightarrow>
               put32 um ptr BR_TRANSACTION_COMPLETE s (\<lambda>um1 p1.
                 Some (Read_On p1, um1, list_del (W_Transaction_Complete a) s))
           | W_Node n \<Rightarrow> read_node k um p n ptr s
           | W_Death d \<Rightarrow> read_death um p d ptr s)))"

section \<open>The call\<close>

text \<open>
  The loop and the label \<open>retry\<close> as one function: \<open>wfpw\<close> is \<open>None\<close> at \<open>retry\<close> and the value of
  \<open>wait_for_proc_work\<close> inside the loop. \<open>i\<close> counts the waits. A call that waits for ever is \<open>None\<close>.
\<close>

partial_function (option) read_loop ::
  "'k kernel_scheme \<Rightarrow> caller \<Rightarrow> (nat \<Rightarrow> binder_state \<Rightarrow> int \<times> binder_state) \<Rightarrow> nat \<Rightarrow> nat \<Rightarrow> bool \<Rightarrow> u64 \<Rightarrow> u64
    \<Rightarrow> nat \<Rightarrow> bool option \<Rightarrow> user_space \<Rightarrow> u64 \<Rightarrow> binder_state \<Rightarrow> (read_next \<times> user_space \<times> binder_state) option" where
  "read_loop k c env p t non_block ubuf uend i wfpw um ptr s =
     (case wfpw of
        None \<Rightarrow> do {
          th \<leftarrow> thrs s t;
          (n, um1, s1) \<leftarrow> read_errors um t ptr uend s;
          (case n of
             Read_On ptr' \<Rightarrow> do {
               let w = (transaction_stack th = None \<and> queues s (Thread_Todo t) = []);
               (ret, s2) \<leftarrow> read_wait k c (env i) p t w non_block s1;
               if ret \<noteq> 0 then Some (Read_Error ret, um1, s2)
               else read_loop k c env p t non_block ubuf uend (Suc i) (Some w) um1 ptr' s2 }
           | _ \<Rightarrow> Some (n, um1, s1)) }
      | Some w \<Rightarrow> do {
          (n, um1, s1) \<leftarrow> read_work k c um p t w ubuf ptr uend s;
          (case n of
             Read_On ptr' \<Rightarrow> read_loop k c env p t non_block ubuf uend i (Some w) um1 ptr' s1
           | Read_Retry ptr' \<Rightarrow> read_loop k c env p t non_block ubuf uend i None um1 ptr' s1
           | _ \<Rightarrow> Some (n, um1, s1)) })"

definition read_finish ::
  "nat \<Rightarrow> nat \<Rightarrow> u64 \<Rightarrow> u64 \<Rightarrow> user_space \<Rightarrow> binder_state \<Rightarrow> (int \<times> u64 \<times> user_space \<times> binder_state) option" where
  "read_finish p t ubuf ptr um s = do {
     pr \<leftarrow> procs s p;
     th \<leftarrow> thrs s t;
     if requested_threads pr + ready_threads pr = 0 \<and> requested_threads_started pr < sint (max_threads pr)
        \<and> looper th AND (LOOPER_REGISTERED OR LOOPER_ENTERED) \<noteq> 0
     then do {
       s1 \<leftarrow> upd_proc p (\<lambda>x. x\<lparr>requested_threads := requested_threads x + 1\<rparr>) s;
       Some (case put_user32 um ubuf BR_SPAWN_LOOPER of
               None \<Rightarrow> (- EFAULT, ptr - ubuf, um, s1)
             | Some um' \<Rightarrow> (0, ptr - ubuf, um', s1)) }
     else Some (0, ptr - ubuf, um, s) }"

definition binder_thread_read ::
  "'k kernel_scheme \<Rightarrow> caller \<Rightarrow> (nat \<Rightarrow> binder_state \<Rightarrow> int \<times> binder_state) \<Rightarrow> user_space \<Rightarrow> nat \<Rightarrow> nat \<Rightarrow> u64 \<Rightarrow> u64
    \<Rightarrow> u64 \<Rightarrow> bool \<Rightarrow> binder_state \<Rightarrow> (int \<times> u64 \<times> user_space \<times> binder_state) option" where
  "binder_thread_read k c env um p t ubuf sz consumed non_block s =
     (let run = (\<lambda>um' ptr. do {
          (n, um1, s1) \<leftarrow> read_loop k c env p t non_block ubuf (ubuf + sz) 0 None um' ptr s;
          (case n of
             Read_Error e \<Rightarrow> Some (e, consumed, um1, s1)
           | Read_Done ptr' \<Rightarrow> read_finish p t ubuf ptr' um1 s1
           | Read_On ptr' \<Rightarrow> None
           | Read_Retry ptr' \<Rightarrow> None) }) in
      if consumed = 0
      then (case put_user32 um ubuf BR_NOOP of
              None \<Rightarrow> Some (- EFAULT, consumed, um, s)
            | Some um' \<Rightarrow> run um' (ubuf + 4))
      else run um (ubuf + consumed))"

end
