(* ===== verification/Binder_Proc.thy ===== *)
theory Binder_Proc
  imports Binder_State
begin

text \<open>
  Processes and threads of \<open>driver/binder/binder.c\<close>: \<open>binder_open\<close>, \<open>binder_get_thread\<close>, and the work
  that \<open>flush\<close>, \<open>release\<close> and the end of a mapping leave to the work queue.
\<close>

unbundle bit_operations_syntax

section \<open>Opening the device\<close>

definition new_proc :: "caller \<Rightarrow> int \<Rightarrow> binder_proc" where
  "new_proc c nc = \<lparr>pr_pid = c_tgid c, pr_alloc = zeroed_alloc (c_task c), pr_threads = Leaf, pr_nodes = Leaf,
     refs_by_desc = Leaf, refs_by_node = Leaf, pr_files = None, deferred_work = 0, max_threads = 0,
     requested_threads = 0, requested_threads_started = 0, ready_threads = 0, default_priority = nc\<rparr>"

text \<open>\<open>binder_open\<close>: the result, and the process that becomes the file's private data.\<close>

definition binder_open ::
  "'k kernel_scheme \<Rightarrow> caller \<Rightarrow> binder_state \<Rightarrow> int \<times> nat option \<times> binder_state" where
  "binder_open k c s =
     (case kzalloc k s of
        (None, s1) \<Rightarrow> (- ENOMEM, None, s1)
      | (Some p, s1) \<Rightarrow>
          (0, Some p, s1\<lparr>procs := (procs s1)(p \<mapsto> new_proc c (nice s1 (c_pid c))),
             queues := (queues s1)(Proc_Todo p := [], Delivered_Death p := []),
             binder_procs := p # binder_procs s1\<rparr>))"

section \<open>Threads\<close>

abbreviation thread_key :: "binder_state \<Rightarrow> nat \<Rightarrow> int option" where
  "thread_key s t \<equiv> map_option th_pid (thrs s t)"

definition new_thread :: "nat \<Rightarrow> int \<Rightarrow> binder_thread" where
  "new_thread p pid = \<lparr>th_proc = p, th_pid = pid, looper = 0 OR LOOPER_NEED_RETURN,
     transaction_stack = None, return_error = BR_OK, return_error2 = BR_OK\<rparr>"

definition binder_get_thread ::
  "'k kernel_scheme \<Rightarrow> caller \<Rightarrow> binder_state \<Rightarrow> nat \<Rightarrow> (nat option \<times> binder_state) option" where
  "binder_get_thread k c s p = do {
     pr \<leftarrow> procs s p;
     l \<leftarrow> rb_link (thread_key s) (c_pid c) (next_addr s) (pr_threads pr);
     (case l of
        Inl t \<Rightarrow> Some (Some t, s)
      | Inr tr \<Rightarrow>
          (case kzalloc k s of
             (None, s1) \<Rightarrow> Some (None, s1)
           | (Some t, s1) \<Rightarrow>
               Some (Some t, s1\<lparr>thrs := (thrs s1)(t \<mapsto> new_thread p (c_pid c)),
                 queues := (queues s1)(Thread_Todo t := []),
                 procs := (procs s1)(p \<mapsto> pr\<lparr>pr_threads := rb_insert_color k t tr\<rparr>)\<rparr>))) }"

section \<open>Deferred work\<close>

abbreviation DEFERRED_PUT_FILES :: u32 where "DEFERRED_PUT_FILES \<equiv> 0x01"
abbreviation DEFERRED_FLUSH :: u32 where "DEFERRED_FLUSH \<equiv> 0x02"
abbreviation DEFERRED_RELEASE :: u32 where "DEFERRED_RELEASE \<equiv> 0x04"

definition binder_defer_work :: "nat \<Rightarrow> u32 \<Rightarrow> binder_state \<Rightarrow> binder_state option" where
  "binder_defer_work p d s = do {
     s1 \<leftarrow> upd_proc p (\<lambda>pr. pr\<lparr>deferred_work := deferred_work pr OR d\<rparr>) s;
     Some (if p \<in> set (binder_deferred_list s1) then s1
           else s1\<lparr>binder_deferred_list := p # binder_deferred_list s1\<rparr>) }"

definition binder_flush :: "nat \<Rightarrow> binder_state \<Rightarrow> (int \<times> binder_state) option" where
  "binder_flush p s = do { s1 \<leftarrow> binder_defer_work p DEFERRED_FLUSH s; Some (0, s1) }"

definition binder_release :: "nat \<Rightarrow> binder_state \<Rightarrow> (int \<times> binder_state) option" where
  "binder_release p s = do { s1 \<leftarrow> binder_defer_work p DEFERRED_RELEASE s; Some (0, s1) }"

text \<open>The end of a mapping gives up the files as well.\<close>

definition proc_vma_close :: "nat \<Rightarrow> binder_state \<Rightarrow> binder_state option" where
  "proc_vma_close p s = do {
     s1 \<leftarrow> upd_proc p (\<lambda>pr. pr\<lparr>pr_alloc := snd (binder_vma_close (pr_alloc pr))\<rparr>) s;
     binder_defer_work p DEFERRED_PUT_FILES s1 }"

text \<open>\<open>binder_mmap\<close> on a process: the allocator part and the files it keeps.\<close>

definition proc_mmap ::
  "'k kernel_scheme \<Rightarrow> caller \<Rightarrow> nat \<Rightarrow> vm_area_struct \<Rightarrow> binder_state
    \<Rightarrow> (int \<times> vm_area_struct \<times> binder_state) option" where
  "proc_mmap k c p v s = do {
     pr \<leftarrow> procs s p;
     (ret, v', a, files) \<leftarrow> binder_mmap k (c_task c) (pr_alloc pr) v;
     Some (ret, v', s\<lparr>procs := (procs s)(p \<mapsto> pr\<lparr>pr_alloc := a,
       pr_files := (if ret = 0 then files else pr_files pr)\<rparr>)\<rparr>) }"

fun flush_threads :: "nat list \<Rightarrow> binder_state \<Rightarrow> binder_state option" where
  "flush_threads [] s = Some s"
| "flush_threads (t # ts) s = do {
     s1 \<leftarrow> upd_thread t (\<lambda>x. x\<lparr>looper := looper x OR LOOPER_NEED_RETURN\<rparr>) s;
     th \<leftarrow> thrs s1 t;
     flush_threads ts (if looper th AND LOOPER_WAITING \<noteq> 0 then wake_up (Thread_Wait t) s1 else s1) }"

definition binder_deferred_flush :: "nat \<Rightarrow> binder_state \<Rightarrow> binder_state option" where
  "binder_deferred_flush p s = do {
     pr \<leftarrow> procs s p;
     s1 \<leftarrow> flush_threads (inorder (pr_threads pr)) s;
     Some (wake_up (Proc_Wait p) s1) }"

end
