(* ===== verification/Binder_Release.thy ===== *)
theory Binder_Release
  imports Binder_Txn Binder_Proc
begin

text \<open>
  The end of threads, nodes and processes in \<open>driver/binder/binder.c\<close>: \<open>binder_release_work\<close>,
  \<open>binder_free_thread\<close>, \<open>binder_node_release\<close>, \<open>binder_deferred_release\<close> and \<open>binder_deferred_func\<close>. The loops run
  until a list or a tree is empty; one that would not end is \<open>None\<close>.
\<close>

unbundle bit_operations_syntax

section \<open>Undelivered work\<close>

definition release_item :: "work \<Rightarrow> binder_state \<Rightarrow> binder_state option" where
  "release_item w s =
     (case w of
        W_Transaction tid \<Rightarrow> do {
          tx \<leftarrow> txns s tid;
          (bp, b) \<leftarrow> tx_buffer tx;
          h \<leftarrow> get_buf s bp b;
          if buf_target_node h \<noteq> None \<and> tx_flags tx AND TF_ONE_WAY = 0
          then binder_send_failed_reply tid BR_DEAD_REPLY s
          else do {
            s1 \<leftarrow> upd_buf bp b (\<lambda>x. x\<lparr>buf_transaction := None\<rparr>) s;
            Some (s1\<lparr>txns := (txns s1)(tid := None)\<rparr>) } }
      | W_Transaction_Complete a \<Rightarrow> Some s
      | W_Death d \<Rightarrow> do {
          death \<leftarrow> deaths s d;
          Some (if dt_type death = Some DEAD_BINDER_AND_CLEAR \<or> dt_type death = Some CLEAR_DEATH_NOTIFICATION
                then s\<lparr>deaths := (deaths s)(d := None)\<rparr> else s) }
      | W_Node n \<Rightarrow> Some s)"

partial_function (option) binder_release_work :: "list_id \<Rightarrow> binder_state \<Rightarrow> binder_state option" where
  "binder_release_work L s =
     (case queues s L of
        [] \<Rightarrow> Some s
      | w # _ \<Rightarrow> do { s1 \<leftarrow> release_item w (list_del w s); binder_release_work L s1 })"

section \<open>Threads\<close>

text \<open>The transactions on a thread's stack lose the thread; the count is the number of them.\<close>

partial_function (option) unwind_stack :: "nat \<Rightarrow> nat option \<Rightarrow> nat \<Rightarrow> binder_state \<Rightarrow> (nat \<times> binder_state) option" where
  "unwind_stack t tmp active s =
     (case tmp of
        None \<Rightarrow> Some (active, s)
      | Some tid \<Rightarrow>
          (case txns s tid of
             None \<Rightarrow> None
           | Some tx \<Rightarrow>
               if to_thread tx = Some t
               then do {
                 s1 \<leftarrow> upd_txn tid (\<lambda>x. x\<lparr>to_proc := None, to_thread := None\<rparr>) s;
                 s2 \<leftarrow> (case tx_buffer tx of
                          None \<Rightarrow> Some s1
                        | Some (bp, b) \<Rightarrow> do {
                            s' \<leftarrow> upd_buf bp b (\<lambda>h. h\<lparr>buf_transaction := None\<rparr>) s1;
                            upd_txn tid (\<lambda>x. x\<lparr>tx_buffer := None\<rparr>) s' });
                 unwind_stack t (to_parent tx) (Suc active) s2 }
               else if tx_from tx = Some t
               then do {
                 s1 \<leftarrow> upd_txn tid (\<lambda>x. x\<lparr>tx_from := None\<rparr>) s;
                 unwind_stack t (from_parent tx) (Suc active) s1 }
               else None))"

definition binder_free_thread ::
  "'k kernel_scheme \<Rightarrow> nat \<Rightarrow> nat \<Rightarrow> binder_state \<Rightarrow> (nat \<times> binder_state) option" where
  "binder_free_thread k p t s = do {
     th \<leftarrow> thrs s t;
     s1 \<leftarrow> upd_proc p (\<lambda>pr. pr\<lparr>pr_threads := rb_erase k t (pr_threads pr)\<rparr>) s;
     send_reply \<leftarrow> (case transaction_stack th of
         None \<Rightarrow> Some None
       | Some tid \<Rightarrow> do { tx \<leftarrow> txns s1 tid; Some (if to_thread tx = Some t then Some tid else None) });
     (active, s2) \<leftarrow> unwind_stack t (transaction_stack th) 0 s1;
     s3 \<leftarrow> (case send_reply of None \<Rightarrow> Some s2 | Some tid \<Rightarrow> binder_send_failed_reply tid BR_DEAD_REPLY s2);
     s4 \<leftarrow> binder_release_work (Thread_Todo t) s3;
     Some (active, s4\<lparr>thrs := (thrs s4)(t := None)\<rparr>) }"

section \<open>Nodes\<close>

text \<open>Everyone who asked to be told about the node's death is.\<close>

fun announce_death :: "nat list \<Rightarrow> binder_state \<Rightarrow> binder_state option" where
  "announce_death [] s = Some s"
| "announce_death (r # rs) s = do {
     rf \<leftarrow> rfs s r;
     (case rf_death rf of
        None \<Rightarrow> announce_death rs s
      | Some d \<Rightarrow>
          if entry s (W_Death d) \<noteq> None then None
          else do {
            s1 \<leftarrow> upd_death d (\<lambda>x. x\<lparr>dt_type := Some DEAD_BINDER\<rparr>) s;
            s2 \<leftarrow> list_add_tail (W_Death d) (Proc_Todo (rf_proc rf)) s1;
            announce_death rs (wake_up (Proc_Wait (rf_proc rf)) s2) }) }"

definition binder_node_release :: "nat \<Rightarrow> nat \<Rightarrow> binder_state \<Rightarrow> (nat \<times> binder_state) option" where
  "binder_node_release n refs s = do {
     s1 \<leftarrow> binder_release_work (Async_Todo n) (list_del (W_Node n) s);
     nd \<leftarrow> nds s1 n;
     if nd_refs nd = [] then Some (refs, s1\<lparr>nds := (nds s1)(n := None)\<rparr>)
     else do {
       s2 \<leftarrow> upd_node n (\<lambda>x. x\<lparr>nd_proc := None, local_strong_refs := 0, local_weak_refs := 0\<rparr>) s1;
       s3 \<leftarrow> announce_death (nd_refs nd) (s2\<lparr>binder_dead_nodes := n # binder_dead_nodes s2\<rparr>);
       Some (refs + length (nd_refs nd), s3) } }"

section \<open>Processes\<close>

partial_function (option) release_threads :: "'k kernel_scheme \<Rightarrow> nat \<Rightarrow> binder_state \<Rightarrow> binder_state option" where
  "release_threads k p s =
     (case procs s p of
        None \<Rightarrow> None
      | Some pr \<Rightarrow>
          (case rb_first (pr_threads pr) of
             None \<Rightarrow> Some s
           | Some t \<Rightarrow> do { (_, s1) \<leftarrow> binder_free_thread k p t s; release_threads k p s1 }))"

partial_function (option) release_nodes :: "'k kernel_scheme \<Rightarrow> nat \<Rightarrow> nat \<Rightarrow> binder_state \<Rightarrow> (nat \<times> binder_state) option" where
  "release_nodes k p refs s =
     (case procs s p of
        None \<Rightarrow> None
      | Some pr \<Rightarrow>
          (case rb_first (pr_nodes pr) of
             None \<Rightarrow> Some (refs, s)
           | Some n \<Rightarrow> do {
               s1 \<leftarrow> upd_proc p (\<lambda>x. x\<lparr>pr_nodes := rb_erase k n (pr_nodes x)\<rparr>) s;
               (refs', s2) \<leftarrow> binder_node_release n refs s1;
               release_nodes k p refs' s2 }))"

partial_function (option) release_refs :: "'k kernel_scheme \<Rightarrow> nat \<Rightarrow> binder_state \<Rightarrow> binder_state option" where
  "release_refs k p s =
     (case procs s p of
        None \<Rightarrow> None
      | Some pr \<Rightarrow>
          (case rb_first (refs_by_desc pr) of
             None \<Rightarrow> Some s
           | Some r \<Rightarrow> do { s1 \<leftarrow> binder_delete_ref k s r; release_refs k p s1 }))"

partial_function (option) release_buffers :: "'k kernel_scheme \<Rightarrow> nat \<Rightarrow> binder_state \<Rightarrow> binder_state option" where
  "release_buffers k p s =
     (case procs s p of
        None \<Rightarrow> None
      | Some pr \<Rightarrow>
          (case rb_first (allocated_buffers (pr_alloc pr)) of
             None \<Rightarrow> Some s
           | Some b \<Rightarrow>
               (case bufs (pr_alloc pr) b of
                  None \<Rightarrow> None
                | Some h \<Rightarrow> do {
                    s1 \<leftarrow> (case buf_transaction h of
                             None \<Rightarrow> Some s
                           | Some tid \<Rightarrow> do {
                               s' \<leftarrow> upd_txn tid (\<lambda>x. x\<lparr>tx_buffer := None\<rparr>) s;
                               upd_buf p b (\<lambda>x. x\<lparr>buf_transaction := None\<rparr>) s' });
                    s2 \<leftarrow> proc_free_buf k s1 p b;
                    release_buffers k p s2 })))"

definition binder_deferred_release :: "'k kernel_scheme \<Rightarrow> nat \<Rightarrow> binder_state \<Rightarrow> binder_state option" where
  "binder_deferred_release k p s = do {
     pr \<leftarrow> procs s p;
     if vma (pr_alloc pr) \<noteq> None \<or> pr_files pr \<noteq> None then None
     else do {
       let s1 = s\<lparr>binder_procs := remove1 p (binder_procs s)\<rparr>;
       s2 \<leftarrow> (case binder_context_mgr_node s1 of
                None \<Rightarrow> Some s1
              | Some n \<Rightarrow> do {
                  nd \<leftarrow> nds s1 n;
                  Some (if nd_proc nd = Some p then s1\<lparr>binder_context_mgr_node := None\<rparr> else s1) });
       s3 \<leftarrow> release_threads k p s2;
       (_, s4) \<leftarrow> release_nodes k p 0 s3;
       s5 \<leftarrow> release_refs k p s4;
       s6 \<leftarrow> binder_release_work (Proc_Todo p) s5;
       s7 \<leftarrow> binder_release_work (Delivered_Death p) s6;
       s8 \<leftarrow> release_buffers k p s7;
       Some (s8\<lparr>procs := (procs s8)(p := None)\<rparr>) } }"

text \<open>One round of the work queue, for the process at the head of the deferred list.\<close>

definition deferred_one :: "'k kernel_scheme \<Rightarrow> nat \<Rightarrow> binder_state \<Rightarrow> binder_state option" where
  "deferred_one k p s = do {
     pr \<leftarrow> procs s p;
     let defer = deferred_work pr;
     s1 \<leftarrow> upd_proc p (\<lambda>x. x\<lparr>deferred_work := 0,
             pr_files := (if defer AND DEFERRED_PUT_FILES \<noteq> 0 then None else pr_files x)\<rparr>)
             (s\<lparr>binder_deferred_list := remove1 p (binder_deferred_list s)\<rparr>);
     s2 \<leftarrow> (if defer AND DEFERRED_FLUSH \<noteq> 0 then binder_deferred_flush p s1 else Some s1);
     if defer AND DEFERRED_RELEASE \<noteq> 0 then binder_deferred_release k p s2 else Some s2 }"

partial_function (option) binder_deferred_func :: "'k kernel_scheme \<Rightarrow> binder_state \<Rightarrow> binder_state option" where
  "binder_deferred_func k s =
     (case binder_deferred_list s of
        [] \<Rightarrow> Some s
      | p # _ \<Rightarrow> do { s1 \<leftarrow> deferred_one k p s; binder_deferred_func k s1 })"

end
