(* ===== verification/Binder_Ioctl.thy ===== *)
theory Binder_Ioctl
  imports Binder_Write Binder_Read Binder_Release
begin

text \<open>
  The driver's entry points of \<open>driver/binder/binder.c\<close> on an open file: \<open>binder_poll\<close>, \<open>binder_ioctl\<close> and the
  handlers it calls. The private data of the file is the process.
\<close>

unbundle bit_operations_syntax

definition ioc_size :: "u32 \<Rightarrow> nat" where
  "ioc_size cmd = unat (drop_bit 16 cmd AND 0x3fff)"

section \<open>Polling\<close>

text \<open>
  The thread is used without a check, so that one that could not be allocated is a fault.
  \<open>env\<close> is what happens between the two looks at the lists.
\<close>

definition binder_poll ::
  "'k kernel_scheme \<Rightarrow> caller \<Rightarrow> (binder_state \<Rightarrow> binder_state) \<Rightarrow> nat \<Rightarrow> binder_state \<Rightarrow> (bool \<times> binder_state) option" where
  "binder_poll k c env p s = do {
     (to, s1) \<leftarrow> binder_get_thread k c s p;
     t \<leftarrow> to;
     th \<leftarrow> thrs s1 t;
     let wfpw = (transaction_stack th = None \<and> queues s1 (Thread_Todo t) = [] \<and> return_error th = BR_OK);
     let ready = (\<lambda>s' th'. if wfpw then binder_has_proc_work s' p th' else binder_has_thread_work s' t th');
     if ready s1 th then Some (True, s1)
     else do {
       let s2 = env s1;
       th2 \<leftarrow> thrs s2 t;
       Some (ready s2 th2, s2) } }"

section \<open>Write and read\<close>

record binder_write_read =
  write_size :: u64
  write_consumed :: u64
  write_buffer :: u64
  read_size :: u64
  read_consumed :: u64
  read_buffer :: u64

definition get_write_read :: "byte list \<Rightarrow> binder_write_read option" where
  "get_write_read bs = do {
     ws \<leftarrow> get_u64 bs 0; wc \<leftarrow> get_u64 bs 8; wb \<leftarrow> get_u64 bs 16;
     rs \<leftarrow> get_u64 bs 24; rc \<leftarrow> get_u64 bs 32; rb \<leftarrow> get_u64 bs 40;
     Some \<lparr>write_size = ws, write_consumed = wc, write_buffer = wb,
           read_size = rs, read_consumed = rc, read_buffer = rb\<rparr> }"

definition write_read_bytes :: "binder_write_read \<Rightarrow> byte list" where
  "write_read_bytes b = u64_bytes (write_size b) @ u64_bytes (write_consumed b) @ u64_bytes (write_buffer b)
     @ u64_bytes (read_size b) @ u64_bytes (read_consumed b) @ u64_bytes (read_buffer b)"

text \<open>The copy back of the structure; a failure replaces the result.\<close>

definition copy_back :: "user_space \<Rightarrow> u64 \<Rightarrow> binder_write_read \<Rightarrow> int \<Rightarrow> int \<times> user_space" where
  "copy_back um ubuf bwr ret =
     (case copy_to_user um ubuf (write_read_bytes bwr) of None \<Rightarrow> (- EFAULT, um) | Some um' \<Rightarrow> (ret, um'))"

type_synonym ioctl_result = "(int \<times> user_space \<times> binder_state) option"

definition ioctl_read ::
  "'k kernel_scheme \<Rightarrow> caller \<Rightarrow> (nat \<Rightarrow> binder_state \<Rightarrow> int \<times> binder_state) \<Rightarrow> user_space \<Rightarrow> nat \<Rightarrow> nat \<Rightarrow> u64
    \<Rightarrow> binder_write_read \<Rightarrow> bool \<Rightarrow> binder_state \<Rightarrow> ioctl_result" where
  "ioctl_read k c env um p t ubuf bwr non_block s =
     (if read_size bwr > 0
      then do {
        (ret, rc, um1, s1) \<leftarrow> binder_thread_read k c env um p t (read_buffer bwr) (read_size bwr)
                                (read_consumed bwr) non_block s;
        let bwr' = bwr\<lparr>read_consumed := rc\<rparr>;
        let s2 = (if queues s1 (Proc_Todo p) \<noteq> [] then wake_up (Proc_Wait p) s1 else s1);
        let (ret', um2) = copy_back um1 ubuf bwr' ret;
        Some (ret', um2, s2) }
      else let (ret', um1) = copy_back um ubuf bwr 0 in Some (ret', um1, s))"

definition binder_ioctl_write_read ::
  "'k kernel_scheme \<Rightarrow> caller \<Rightarrow> (nat \<Rightarrow> binder_state \<Rightarrow> int \<times> binder_state) \<Rightarrow> user_space \<Rightarrow> nat \<Rightarrow> nat \<Rightarrow> u32 \<Rightarrow> u64
    \<Rightarrow> bool \<Rightarrow> binder_state \<Rightarrow> ioctl_result" where
  "binder_ioctl_write_read k c env um p t cmd ubuf non_block s =
     (if ioc_size cmd \<noteq> 48 then Some (- EINVAL, um, s)
      else (case copy_from_user um ubuf 48 of
        None \<Rightarrow> Some (- EFAULT, um, s)
      | Some bs \<Rightarrow> do {
          bwr \<leftarrow> get_write_read bs;
          if write_size bwr > 0
          then do {
            (ret, wc, s1) \<leftarrow> binder_thread_write k c um p t (write_buffer bwr) (write_size bwr) (write_consumed bwr) s;
            let bwr1 = bwr\<lparr>write_consumed := wc\<rparr>;
            if ret < 0
            then let (ret', um1) = copy_back um ubuf (bwr1\<lparr>read_consumed := 0\<rparr>) ret in Some (ret', um1, s1)
            else ioctl_read k c env um p t ubuf bwr1 non_block s1 }
          else ioctl_read k c env um p t ubuf bwr non_block s }))"

section \<open>The context manager\<close>

definition binder_ioctl_set_ctx_mgr ::
  "'k kernel_scheme \<Rightarrow> caller \<Rightarrow> nat \<Rightarrow> binder_state \<Rightarrow> (int \<times> binder_state) option" where
  "binder_ioctl_set_ctx_mgr k c p s = do {
     pr \<leftarrow> procs s p;
     if binder_context_mgr_node s \<noteq> None then Some (- EBUSY, s)
     else
       let ret = security_binder_set_context_mgr k (tsk (pr_alloc pr)) in
       if ret < 0 then Some (ret, s)
       else if (case binder_context_mgr_uid s of Some u \<Rightarrow> u \<noteq> c_euid c | None \<Rightarrow> False) then Some (- EPERM, s)
       else do {
         let s1 = s\<lparr>binder_context_mgr_uid := Some (c_euid c)\<rparr>;
         (no, s2) \<leftarrow> binder_new_node k s1 p 0 0;
         let s3 = s2\<lparr>binder_context_mgr_node := no\<rparr>;
         (case no of
            None \<Rightarrow> Some (- ENOMEM, s3)
          | Some n \<Rightarrow> do {
              s4 \<leftarrow> upd_node n (\<lambda>x. x\<lparr>local_weak_refs := local_weak_refs x + 1,
                      local_strong_refs := local_strong_refs x + 1, has_strong_ref := True, has_weak_ref := True\<rparr>) s3;
              Some (ret, s4) }) } }"

section \<open>Dispatch\<close>

definition set_max_threads :: "nat \<Rightarrow> u32 \<Rightarrow> binder_state \<Rightarrow> binder_state option" where
  "set_max_threads p n s = upd_proc p (\<lambda>x. x\<lparr>max_threads := n\<rparr>) s"

text \<open>A thread that has been through the driver need not return to it first.\<close>

definition clear_need_return :: "nat \<Rightarrow> binder_state \<Rightarrow> binder_state option" where
  "clear_need_return t s = upd_thread t (\<lambda>x. x\<lparr>looper := looper x AND NOT LOOPER_NEED_RETURN\<rparr>) s"

definition ioctl_return :: "nat \<Rightarrow> (int \<times> user_space \<times> binder_state) \<Rightarrow> ioctl_result" where
  "ioctl_return t r = do { s1 \<leftarrow> clear_need_return t (snd (snd r)); Some (fst r, fst (snd r), s1) }"

definition binder_ioctl ::
  "'k kernel_scheme \<Rightarrow> caller \<Rightarrow> (nat \<Rightarrow> binder_state \<Rightarrow> int \<times> binder_state) \<Rightarrow> user_space \<Rightarrow> nat \<Rightarrow> u32 \<Rightarrow> u64
    \<Rightarrow> bool \<Rightarrow> binder_state \<Rightarrow> ioctl_result" where
  "binder_ioctl k c env um p cmd ubuf non_block s = do {
     (to, s1) \<leftarrow> binder_get_thread k c s p;
     (case to of
        None \<Rightarrow> Some (- ENOMEM, um, s1)
      | Some t \<Rightarrow>
          if cmd = BINDER_WRITE_READ
          then do { r \<leftarrow> binder_ioctl_write_read k c env um p t cmd ubuf non_block s1; ioctl_return t r }
          else if cmd = BINDER_SET_MAX_THREADS
          then (case get_user32 um ubuf of
                  None \<Rightarrow> ioctl_return t (- EINVAL, um, s1)
                | Some n \<Rightarrow> do {
                    s2 \<leftarrow> set_max_threads p n s1;
                    ioctl_return t (0, um, s2) })
          else if cmd = BINDER_SET_CONTEXT_MGR
          then do { (ret, s2) \<leftarrow> binder_ioctl_set_ctx_mgr k c p s1; ioctl_return t (ret, um, s2) }
          else if cmd = BINDER_THREAD_EXIT
          then do { (_, s2) \<leftarrow> binder_free_thread k p t s1; Some (0, um, s2) }
          else if cmd = BINDER_VERSION
          then if ioc_size cmd \<noteq> 4 then ioctl_return t (- EINVAL, um, s1)
               else (case put_user32 um ubuf BINDER_CURRENT_PROTOCOL_VERSION of
                       None \<Rightarrow> ioctl_return t (- EINVAL, um, s1)
                     | Some um' \<Rightarrow> ioctl_return t (0, um', s1))
          else ioctl_return t (- EINVAL, um, s1)) }"

end
