(* ===== verification/Binder_Node_Inv.thy ===== *)
theory Binder_Node_Inv
  imports Binder_Node
begin

text \<open>
  The invariant of nodes and references. It is stated over the object maps alone: every
  reference is known to its node and to both trees of its process, a node's list of
  references is exactly the references to it, \<open>internal_strong_refs\<close> is the number of those with
  a strong count, and every tree is a search tree over live objects.
\<close>

lemma rb_find_none:
  assumes "rb_sorted key t" and "\<forall>a\<in>set_tree t. key a \<noteq> Some x"
  shows "rb_find key x t = Some None"
proof -
  obtain r where r: "rb_find key x t = Some r" "\<forall>a. r = Some a \<longleftrightarrow> a \<in> set_tree t \<and> key a = Some x"
    using rb_find_spec [OF assms(1)] by blast
  then show ?thesis using assms(2) by (cases r) auto
qed

text \<open>
  Inserting a fresh object with the key the descent looked for: the descent did not see the
  object, so it may as well have used the keys of the state that has it.
\<close>

lemma rb_link_fresh:
  assumes "rb_ok k" and "rb_sorted key t" and "rb_link key x new t = Some (Inr t')"
    and "\<forall>a\<in>set_tree t. key a \<noteq> Some x" and "\<And>a. a \<in> set_tree t \<Longrightarrow> key' a = key a" and "key' new = Some x"
  shows "rb_sorted key' (rb_insert_color k new t')" and "set_tree (rb_insert_color k new t') = insert new (set_tree t)"
proof -
  have s: "rb_sorted key' t" using rb_sorted_cong [OF assms(2,5)] .
  have "rb_insert k key' new x t = Some (rb_insert_color k new t')"
    using assms(3) rb_link_cong [of t key' key] assms(5) by (simp add: rb_insert_def)
  moreover have "rb_find key' x t = Some None" using rb_find_none [OF s] assms(4,5) by simp
  ultimately show "rb_sorted key' (rb_insert_color k new t')"
    and "set_tree (rb_insert_color k new t') = insert new (set_tree t)"
    using rb.ins_new [of k key' t new x] assms(1,6) s by auto
qed

section \<open>The invariant\<close>

type_synonym proc_map = "nat \<Rightarrow> binder_proc option"
type_synonym node_map = "nat \<Rightarrow> binder_node option"
type_synonym ref_map = "nat \<Rightarrow> binder_ref option"

definition is_strong :: "ref_map \<Rightarrow> nat \<Rightarrow> bool" where
  "is_strong R r = (case R r of None \<Rightarrow> False | Some rf \<Rightarrow> rf_strong rf \<noteq> 0)"

definition ref_ok :: "proc_map \<Rightarrow> node_map \<Rightarrow> nat \<Rightarrow> binder_ref \<Rightarrow> bool" where
  "ref_ok P N r rf \<longleftrightarrow> 0 \<le> rf_strong rf \<and> rf_strong rf \<le> INT_MAX \<and> 0 \<le> rf_weak rf \<and> rf_weak rf \<le> INT_MAX
     \<and> (\<exists>nd. N (rf_node rf) = Some nd \<and> r \<in> set (nd_refs nd))
     \<and> (\<exists>pr. P (rf_proc rf) = Some pr \<and> r \<in> set_tree (refs_by_desc pr) \<and> r \<in> set_tree (refs_by_node pr))"

definition node_ok :: "proc_map \<Rightarrow> ref_map \<Rightarrow> nat list \<Rightarrow> nat \<Rightarrow> binder_node \<Rightarrow> bool" where
  "node_ok P R dead n nd \<longleftrightarrow> distinct (nd_refs nd)
     \<and> (\<forall>r\<in>set (nd_refs nd). map_option rf_node (R r) = Some n)
     \<and> internal_strong_refs nd = int (length (filter (is_strong R) (nd_refs nd)))
     \<and> (case nd_proc nd of Some p \<Rightarrow> \<exists>pr. P p = Some pr \<and> n \<in> set_tree (pr_nodes pr)
        | None \<Rightarrow> n \<in> set dead)"

definition proc_ok :: "node_map \<Rightarrow> ref_map \<Rightarrow> nat \<Rightarrow> binder_proc \<Rightarrow> bool" where
  "proc_ok N R p pr \<longleftrightarrow>
     rb_sorted (\<lambda>n. map_option nd_ptr (N n)) (pr_nodes pr)
     \<and> rb_sorted (\<lambda>r. map_option rf_desc (R r)) (refs_by_desc pr)
     \<and> rb_sorted (\<lambda>r. map_option rf_node (R r)) (refs_by_node pr)
     \<and> (\<forall>n\<in>set_tree (pr_nodes pr). map_option nd_proc (N n) = Some (Some p))
     \<and> (\<forall>r\<in>set_tree (refs_by_desc pr) \<union> set_tree (refs_by_node pr). map_option rf_proc (R r) = Some p)"

definition objects_ok :: "proc_map \<Rightarrow> node_map \<Rightarrow> ref_map \<Rightarrow> nat list \<Rightarrow> bool" where
  "objects_ok P N R dead \<longleftrightarrow>
     (\<forall>r rf. R r = Some rf \<longrightarrow> ref_ok P N r rf)
     \<and> (\<forall>n nd. N n = Some nd \<longrightarrow> node_ok P R dead n nd)
     \<and> (\<forall>p pr. P p = Some pr \<longrightarrow> proc_ok N R p pr)
     \<and> distinct dead \<and> (\<forall>n\<in>set dead. map_option nd_proc (N n) = Some None)"

lemma objects_okD:
  assumes "objects_ok P N R dead"
  shows "R r = Some rf \<Longrightarrow> ref_ok P N r rf" and "N n = Some nd \<Longrightarrow> node_ok P R dead n nd"
    and "P p = Some pr \<Longrightarrow> proc_ok N R p pr"
  using assms by (simp_all add: objects_ok_def)

section \<open>Updates that keep it\<close>

text \<open>Fields of a node that the invariant does not read.\<close>

lemma objects_ok_node_fields:
  assumes "objects_ok P N R dead" and "N n = Some nd"
    and "nd_refs nd' = nd_refs nd" and "internal_strong_refs nd' = internal_strong_refs nd"
    and "nd_ptr nd' = nd_ptr nd" and "nd_proc nd' = nd_proc nd"
  shows "objects_ok P (N(n \<mapsto> nd')) R dead"
proof -
  have key: "map_option nd_ptr ((N(n \<mapsto> nd')) m) = map_option nd_ptr (N m)"
    "map_option nd_proc ((N(n \<mapsto> nd')) m) = map_option nd_proc (N m)" for m
    using assms by auto
  have "ref_ok P (N(n \<mapsto> nd')) r rf" if "R r = Some rf" for r rf
    using objects_okD(1) [OF assms(1) that] assms by (auto simp: ref_ok_def)
  moreover have "node_ok P R dead m x" if "(N(n \<mapsto> nd')) m = Some x" for m x
    using that objects_okD(2) [OF assms(1)] assms by (auto simp: node_ok_def split: if_splits)
  moreover have "proc_ok (N(n \<mapsto> nd')) R p pr" if "P p = Some pr" for p pr
    using objects_okD(3) [OF assms(1) that] unfolding proc_ok_def key .
  moreover have "\<forall>m\<in>set dead. map_option nd_proc ((N(n \<mapsto> nd')) m) = Some None"
    using assms(1) unfolding objects_ok_def key by blast
  ultimately show ?thesis using assms(1) by (simp add: objects_ok_def)
qed

text \<open>
  A reference changes its counts. Its node's \<open>internal_strong_refs\<close> follows when the strong
  count becomes zero or stops being zero.
\<close>

definition strong_flip :: "binder_ref \<Rightarrow> binder_ref \<Rightarrow> int" where
  "strong_flip rf rf' = (if rf_strong rf' \<noteq> 0 then 1 else 0) - (if rf_strong rf \<noteq> 0 then 1 else 0)"

lemma filter_upd_length:
  assumes "distinct xs" and "r \<in> set xs" and "\<And>x. x \<noteq> r \<Longrightarrow> Q x = P x"
  shows "int (length (filter Q xs)) = int (length (filter P xs)) + (if Q r then 1 else 0) - (if P r then 1 else 0)"
proof -
  obtain ys zs where xs: "xs = ys @ r # zs" using assms(2) by (auto simp: in_set_conv_decomp)
  have ne: "x \<noteq> r" if "x \<in> set ys \<union> set zs" for x using that assms(1) xs by auto
  have "filter Q ys = filter P ys" "filter Q zs = filter P zs"
    by (rule filter_cong [OF refl], rule assms(3), rule ne, simp)+
  then show ?thesis using xs by auto
qed

lemma objects_ok_counts:
  assumes "objects_ok P N R dead" and "R r = Some rf" and "N (rf_node rf) = Some nd"
    and "rf_proc rf' = rf_proc rf" and "rf_node rf' = rf_node rf" and "rf_desc rf' = rf_desc rf"
    and "0 \<le> rf_strong rf' \<and> rf_strong rf' \<le> INT_MAX" and "0 \<le> rf_weak rf' \<and> rf_weak rf' \<le> INT_MAX"
    and "nd_refs nd' = nd_refs nd" and "nd_ptr nd' = nd_ptr nd" and "nd_proc nd' = nd_proc nd"
    and "internal_strong_refs nd' = internal_strong_refs nd + strong_flip rf rf'"
  shows "objects_ok P (N(rf_node rf \<mapsto> nd')) (R(r \<mapsto> rf')) dead"
proof -
  let ?n = "rf_node rf" and ?N = "N(rf_node rf \<mapsto> nd')" and ?R = "R(r \<mapsto> rf')"
  have key: "map_option nd_ptr (?N m) = map_option nd_ptr (N m)"
    "map_option nd_proc (?N m) = map_option nd_proc (N m)"
    "map_option rf_desc (?R m) = map_option rf_desc (R m)"
    "map_option rf_node (?R m) = map_option rf_node (R m)"
    "map_option rf_proc (?R m) = map_option rf_proc (R m)" for m
    using assms(2-6,10,11) by auto
  have rn: "r \<in> set (nd_refs nd)" and dn: "distinct (nd_refs nd)"
    using objects_okD(1) [OF assms(1,2)] objects_okD(2) [OF assms(1,3)] assms(3)
    by (auto simp: ref_ok_def node_ok_def)
  have "ref_ok P ?N x y" if x: "?R x = Some y" for x y
  proof (cases "x = r")
    case True
    then show ?thesis using x objects_okD(1) [OF assms(1,2)] assms(3-9) by (auto simp: ref_ok_def)
  next
    case False
    then have "R x = Some y" using x by simp
    from objects_okD(1) [OF assms(1) this] show ?thesis using assms(3,9) by (auto simp: ref_ok_def)
  qed
  moreover have "node_ok P ?R dead m x" if m: "?N m = Some x" for m x
  proof (cases "m = ?n")
    case True
    have "int (length (filter (is_strong ?R) (nd_refs nd)))
        = int (length (filter (is_strong R) (nd_refs nd))) + strong_flip rf rf'"
      using filter_upd_length [OF dn rn, of "is_strong ?R" "is_strong R"] assms(2)
      by (simp add: is_strong_def strong_flip_def)
    then show ?thesis
      using True m objects_okD(2) [OF assms(1,3)] assms(2,5,9-12) by (auto simp: node_ok_def)
  next
    case False
    then have "N m = Some x" using m by simp
    from objects_okD(2) [OF assms(1) this] have x: "node_ok P R dead m x" .
    have "r \<notin> set (nd_refs x)" using x assms(2) False by (auto simp: node_ok_def)
    then have "filter (is_strong ?R) (nd_refs x) = filter (is_strong R) (nd_refs x)"
      by (intro filter_cong) (auto simp: is_strong_def)
    then show ?thesis using x \<open>r \<notin> set (nd_refs x)\<close> by (auto simp: node_ok_def)
  qed
  moreover have "proc_ok ?N ?R p pr" if "P p = Some pr" for p pr
    using objects_okD(3) [OF assms(1) that] unfolding proc_ok_def key .
  moreover have "\<forall>m\<in>set dead. map_option nd_proc (?N m) = Some None"
    using assms(1) unfolding objects_ok_def key by blast
  ultimately show ?thesis using assms(1) by (simp add: objects_ok_def)
qed

text \<open>A node without references goes.\<close>

lemma objects_ok_drop_node:
  assumes "rb_ok k" and "objects_ok P N R dead" and "N n = Some nd" and "nd_refs nd = []"
  shows "nd_proc nd = Some p \<Longrightarrow> P p = Some pr \<Longrightarrow>
      objects_ok (P(p \<mapsto> pr\<lparr>pr_nodes := rb_erase k n (pr_nodes pr)\<rparr>)) (N(n := None)) R dead"
    and "nd_proc nd = None \<Longrightarrow> objects_ok P (N(n := None)) R (remove1 n dead)"
proof -
  have nref: "rf_node rf \<noteq> n" if "R r = Some rf" for r rf
    using objects_okD(1) [OF assms(2) that] assms(3,4) by (auto simp: ref_ok_def)
  have d: "distinct dead" "\<forall>m\<in>set dead. map_option nd_proc (N m) = Some None"
    using assms(2) by (simp_all add: objects_ok_def)
  { assume p: "nd_proc nd = Some p" and pr: "P p = Some pr"
    let ?pr = "pr\<lparr>pr_nodes := rb_erase k n (pr_nodes pr)\<rparr>"
    let ?P = "P(p \<mapsto> ?pr)"
    note po = objects_okD(3) [OF assms(2) pr, unfolded proc_ok_def]
    have mem: "n \<in> set_tree (pr_nodes pr)"
      using objects_okD(2) [OF assms(2,3)] p pr by (auto simp: node_ok_def)
    note er = rb_sorted_erase [OF assms(1) conjunct1 [OF po] mem]
    have "ref_ok ?P (N(n := None)) r rf" if "R r = Some rf" for r rf
      using objects_okD(1) [OF assms(2) that] nref [OF that] pr by (auto simp: ref_ok_def)
    moreover have "node_ok ?P R dead m x" if "(N(n := None)) m = Some x" for m x
    proof -
      have m: "m \<noteq> n" "N m = Some x" using that by (auto split: if_splits)
      then show ?thesis
        using objects_okD(2) [OF assms(2) m(2)] er(2) pr by (auto simp: node_ok_def split: option.splits)
    qed
    moreover have "proc_ok (N(n := None)) R q x" if "?P q = Some x" for q x
    proof (cases "q = p")
      case True
      have "rb_sorted (\<lambda>m. map_option nd_ptr ((N(n := None)) m)) (rb_erase k n (pr_nodes pr))"
        by (rule rb_sorted_cong [OF er(1)]) (use er(2) in auto)
      then show ?thesis using that True po er(2) by (auto simp: proc_ok_def)
    next
      case False
      then have q: "P q = Some x" using that by simp
      note qo = objects_okD(3) [OF assms(2) q, unfolded proc_ok_def]
      have "n \<notin> set_tree (pr_nodes x)" using qo p assms(3) False by auto
      then have "rb_sorted (\<lambda>m. map_option nd_ptr ((N(n := None)) m)) (pr_nodes x)"
        using qo by (auto elim!: rb_sorted_cong)
      then show ?thesis using qo \<open>n \<notin> set_tree (pr_nodes x)\<close> by (auto simp: proc_ok_def)
    qed
    moreover have "n \<notin> set dead" using d(2) assms(3) p by auto
    ultimately show "objects_ok ?P (N(n := None)) R dead"
      using d by (auto simp: objects_ok_def) }
  { assume p: "nd_proc nd = None"
    have "ref_ok P (N(n := None)) r rf" if "R r = Some rf" for r rf
      using objects_okD(1) [OF assms(2) that] nref [OF that] by (auto simp: ref_ok_def)
    moreover have "node_ok P R (remove1 n dead) m x" if "(N(n := None)) m = Some x" for m x
    proof -
      have m: "m \<noteq> n" "N m = Some x" using that by (auto split: if_splits)
      then show ?thesis
        using objects_okD(2) [OF assms(2) m(2)] by (auto simp: node_ok_def split: option.splits)
    qed
    moreover have "proc_ok (N(n := None)) R q x" if "P q = Some x" for q x
    proof -
      note qo = objects_okD(3) [OF assms(2) that, unfolded proc_ok_def]
      have "n \<notin> set_tree (pr_nodes x)" using qo p assms(3) by auto
      then have "rb_sorted (\<lambda>m. map_option nd_ptr ((N(n := None)) m)) (pr_nodes x)"
        using qo by (auto elim!: rb_sorted_cong)
      then show ?thesis using qo \<open>n \<notin> set_tree (pr_nodes x)\<close> by (auto simp: proc_ok_def)
    qed
    ultimately show "objects_ok P (N(n := None)) R (remove1 n dead)"
      using d by (auto simp: objects_ok_def) }
qed

text \<open>A reference goes, out of both trees of its process and out of its node's list.\<close>

lemma objects_ok_drop_ref:
  assumes "rb_ok k" and "objects_ok P N R dead" and "R r = Some rf" and "rf_strong rf = 0"
    and "N (rf_node rf) = Some nd" and "P (rf_proc rf) = Some pr"
  shows "objects_ok (P(rf_proc rf \<mapsto> pr\<lparr>refs_by_desc := rb_erase k r (refs_by_desc pr),
                                      refs_by_node := rb_erase k r (refs_by_node pr)\<rparr>))
           (N(rf_node rf \<mapsto> nd\<lparr>nd_refs := remove1 r (nd_refs nd)\<rparr>)) (R(r := None)) dead"
    (is "objects_ok ?P ?N ?R dead")
proof -
  let ?pr = "pr\<lparr>refs_by_desc := rb_erase k r (refs_by_desc pr), refs_by_node := rb_erase k r (refs_by_node pr)\<rparr>"
  note po = objects_okD(3) [OF assms(2,6), unfolded proc_ok_def]
    and no = objects_okD(2) [OF assms(2,5), unfolded node_ok_def]
  have mem: "r \<in> set_tree (refs_by_desc pr)" "r \<in> set_tree (refs_by_node pr)"
    using objects_okD(1) [OF assms(2,3)] assms(6) by (auto simp: ref_ok_def)
  have s: "rb_sorted (\<lambda>r. map_option rf_desc (R r)) (refs_by_desc pr)"
    "rb_sorted (\<lambda>r. map_option rf_node (R r)) (refs_by_node pr)" using po by simp_all
  note ed = rb_sorted_erase [OF assms(1) s(1) mem(1)] and en = rb_sorted_erase [OF assms(1) s(2) mem(2)]
  have key: "map_option nd_ptr (?N m) = map_option nd_ptr (N m)"
    "map_option nd_proc (?N m) = map_option nd_proc (N m)" for m
    using assms(5) by auto
  have "ref_ok ?P ?N x y" if "?R x = Some y" for x y
  proof -
    have x: "x \<noteq> r" "R x = Some y" using that by (auto split: if_splits)
    then show ?thesis
      using objects_okD(1) [OF assms(2) x(2)] assms(5,6) ed(2) en(2) no
      by (auto simp: ref_ok_def)
  qed
  moreover have "node_ok ?P ?R dead m x" if m: "?N m = Some x" for m x
  proof (cases "m = rf_node rf")
    case True
    have "\<not> is_strong R r" using assms(3,4) by (simp add: is_strong_def)
    moreover have "filter (is_strong ?R) (remove1 r (nd_refs nd)) = filter (is_strong R) (remove1 r (nd_refs nd))"
      by (rule filter_cong) (use no in \<open>auto simp: is_strong_def\<close>)
    moreover have "filter (is_strong R) (remove1 r (nd_refs nd)) = filter (is_strong R) (nd_refs nd)"
      using \<open>\<not> is_strong R r\<close> by (simp add: filter_remove1 remove1_idem)
    ultimately show ?thesis
      using True m no assms(6) by (auto simp: node_ok_def split: option.splits)
  next
    case False
    then have x: "N m = Some x" using m by simp
    note xo = objects_okD(2) [OF assms(2) x, unfolded node_ok_def]
    have "r \<notin> set (nd_refs x)" using xo assms(3) False by auto
    moreover from this have "filter (is_strong ?R) (nd_refs x) = filter (is_strong R) (nd_refs x)"
      by (intro filter_cong) (auto simp: is_strong_def)
    ultimately show ?thesis using xo assms(6) by (auto simp: node_ok_def split: option.splits)
  qed
  moreover have "proc_ok ?N ?R q x" if q: "?P q = Some x" for q x
  proof (cases "q = rf_proc rf")
    case True
    have "rb_sorted (\<lambda>m. map_option rf_desc (?R m)) (rb_erase k r (refs_by_desc pr))"
      by (rule rb_sorted_cong [OF ed(1)]) (use ed(2) in auto)
    moreover have "rb_sorted (\<lambda>m. map_option rf_node (?R m)) (rb_erase k r (refs_by_node pr))"
      by (rule rb_sorted_cong [OF en(1)]) (use en(2) in auto)
    ultimately show ?thesis
      using q True po ed(2) en(2) unfolding proc_ok_def key by auto
  next
    case False
    then have "P q = Some x" using q by simp
    note qo = objects_okD(3) [OF assms(2) this, unfolded proc_ok_def]
    have out: "r \<notin> set_tree (refs_by_desc x)" "r \<notin> set_tree (refs_by_node x)"
      using qo assms(3) False by force+
    have "rb_sorted (\<lambda>m. map_option rf_desc (?R m)) (refs_by_desc x)"
      by (rule rb_sorted_cong [of "\<lambda>m. map_option rf_desc (R m)"]) (use qo out in auto)
    moreover have "rb_sorted (\<lambda>m. map_option rf_node (?R m)) (refs_by_node x)"
      by (rule rb_sorted_cong [of "\<lambda>m. map_option rf_node (R m)"]) (use qo out in auto)
    ultimately show ?thesis using qo out unfolding proc_ok_def key by auto
  qed
  moreover have "\<forall>m\<in>set dead. map_option nd_proc (?N m) = Some None"
    using assms(2) unfolding objects_ok_def key by blast
  ultimately show ?thesis using assms(2) by (simp add: objects_ok_def)
qed

text \<open>A fresh node enters its process' tree.\<close>

lemma objects_ok_new_node:
  assumes "objects_ok P N R dead" and "N n = None" and "P p = Some pr"
    and "nd_refs nd = []" and "internal_strong_refs nd = 0" and "nd_proc nd = Some p"
    and "set_tree t = insert n (set_tree (pr_nodes pr))"
    and "rb_sorted (\<lambda>m. map_option nd_ptr ((N(n \<mapsto> nd)) m)) t"
  shows "objects_ok (P(p \<mapsto> pr\<lparr>pr_nodes := t\<rparr>)) (N(n \<mapsto> nd)) R dead" (is "objects_ok ?P ?N R dead")
proof -
  have old: "m \<noteq> n" if "N m = Some x" for m x using that assms(2) by auto
  have "ref_ok ?P ?N r rf" if "R r = Some rf" for r rf
    using objects_okD(1) [OF assms(1) that] assms(2,3) by (auto simp: ref_ok_def)
  moreover have "node_ok ?P R dead m x" if m: "?N m = Some x" for m x
  proof (cases "m = n")
    case True
    then show ?thesis using m assms(3-7) by (auto simp: node_ok_def)
  next
    case False
    then show ?thesis
      using m objects_okD(2) [OF assms(1)] assms(3,7) by (fastforce simp: node_ok_def split: option.splits)
  qed
  moreover have "proc_ok ?N R q x" if q: "?P q = Some x" for q x
  proof (cases "q = p")
    case True
    then show ?thesis
      using q objects_okD(3) [OF assms(1,3)] assms(6-8) by (auto simp: proc_ok_def)
  next
    case False
    then have "P q = Some x" using q by simp
    note qo = objects_okD(3) [OF assms(1) this, unfolded proc_ok_def]
    have out: "n \<notin> set_tree (pr_nodes x)" using qo assms(2) by force
    have "rb_sorted (\<lambda>m. map_option nd_ptr (?N m)) (pr_nodes x)"
      by (rule rb_sorted_cong [of "\<lambda>m. map_option nd_ptr (N m)"]) (use qo out in auto)
    then show ?thesis using qo out by (auto simp: proc_ok_def)
  qed
  moreover have "\<forall>m\<in>set dead. map_option nd_proc (?N m) = Some None"
    using assms(1,2) by (auto simp: objects_ok_def)
  ultimately show ?thesis using assms(1) by (simp add: objects_ok_def)
qed

text \<open>A fresh reference without counts enters both trees and its node's list.\<close>

lemma objects_ok_new_ref:
  assumes "objects_ok P N R dead" and "R r = None" and "P p = Some pr" and "N n = Some nd"
    and "rf_strong rf = 0" and "rf_weak rf = 0" and "rf_proc rf = p" and "rf_node rf = n"
    and "set_tree td = insert r (set_tree (refs_by_desc pr))"
    and "set_tree tn = insert r (set_tree (refs_by_node pr))"
    and "rb_sorted (\<lambda>m. map_option rf_desc ((R(r \<mapsto> rf)) m)) td"
    and "rb_sorted (\<lambda>m. map_option rf_node ((R(r \<mapsto> rf)) m)) tn"
  shows "objects_ok (P(p \<mapsto> pr\<lparr>refs_by_node := tn, refs_by_desc := td\<rparr>))
           (N(n \<mapsto> nd\<lparr>nd_refs := r # nd_refs nd\<rparr>)) (R(r \<mapsto> rf)) dead" (is "objects_ok ?P ?N ?R dead")
proof -
  note no = objects_okD(2) [OF assms(1,4), unfolded node_ok_def]
  have key: "map_option nd_ptr (?N m) = map_option nd_ptr (N m)"
    "map_option nd_proc (?N m) = map_option nd_proc (N m)" for m
    using assms(4) by auto
  have nr: "r \<notin> set (nd_refs x)" if "N m = Some x" for m x
    using objects_okD(2) [OF assms(1) that] assms(2) by (auto simp: node_ok_def)
  have str: "filter (is_strong ?R) rs = filter (is_strong R) rs" for rs
    by (rule filter_cong [OF refl]) (use assms(2,5) in \<open>auto simp: is_strong_def\<close>)
  have "ref_ok ?P ?N x y" if x: "?R x = Some y" for x y
  proof (cases "x = r")
    case True
    then show ?thesis using x assms(3-10) by (auto simp: ref_ok_def)
  next
    case False
    then have "R x = Some y" using x by simp
    from objects_okD(1) [OF assms(1) this] show ?thesis
      using assms(3,4,9,10) by (auto simp: ref_ok_def)
  qed
  moreover have "node_ok ?P ?R dead m x" if m: "?N m = Some x" for m x
  proof (cases "m = n")
    case True
    have "\<not> is_strong R r" using assms(2) by (simp add: is_strong_def)
    then show ?thesis
      using True m no nr [OF assms(4)] assms(2,3,8) by (auto simp: node_ok_def str split: option.splits)
  next
    case False
    then have x: "N m = Some x" using m by simp
    from objects_okD(2) [OF assms(1) this] show ?thesis
      using nr [OF x] assms(3) by (auto simp: node_ok_def str split: option.splits)
  qed
  moreover have "proc_ok ?N ?R q x" if q: "?P q = Some x" for q x
  proof (cases "q = p")
    case True
    then show ?thesis
      using q objects_okD(3) [OF assms(1,3)] assms(7,9-12) unfolding proc_ok_def key by auto
  next
    case False
    then have "P q = Some x" using q by simp
    note qo = objects_okD(3) [OF assms(1) this, unfolded proc_ok_def]
    have out: "r \<notin> set_tree (refs_by_desc x)" "r \<notin> set_tree (refs_by_node x)"
      using qo assms(2) by force+
    have "rb_sorted (\<lambda>m. map_option rf_desc (?R m)) (refs_by_desc x)"
      by (rule rb_sorted_cong [of "\<lambda>m. map_option rf_desc (R m)"]) (use qo out in auto)
    moreover have "rb_sorted (\<lambda>m. map_option rf_node (?R m)) (refs_by_node x)"
      by (rule rb_sorted_cong [of "\<lambda>m. map_option rf_node (R m)"]) (use qo out in auto)
    ultimately show ?thesis using qo out unfolding proc_ok_def key by auto
  qed
  moreover have "\<forall>m\<in>set dead. map_option nd_proc (?N m) = Some None"
    using assms(1) unfolding objects_ok_def key by blast
  ultimately show ?thesis using assms(1) by (simp add: objects_ok_def)
qed

section \<open>Descriptors\<close>

text \<open>The walk finds the least descriptor from \<open>d\<close> on that is not in use.\<close>

fun free_desc :: "u32 \<Rightarrow> u32 list \<Rightarrow> u32" where
  "free_desc d [] = d"
| "free_desc d (x # xs) = (if x > d then d else free_desc (x + 1) xs)"

lemma next_desc_free:
  "\<forall>r\<in>set rs. key r \<noteq> None \<Longrightarrow> next_desc key d rs = Some (free_desc d (map (the \<circ> key) rs))"
  by (induction key d rs rule: next_desc.induct) auto

lemma free_desc_spec:
  assumes "sorted_wrt (<) ds" and "\<forall>x\<in>set ds. d \<le> x" and "unat d + length ds < 2 ^ 32"
  shows "d \<le> free_desc d ds \<and> free_desc d ds \<notin> set ds
    \<and> (\<forall>z. d \<le> z \<and> z < free_desc d ds \<longrightarrow> z \<in> set ds)"
  using assms
proof (induction d ds rule: free_desc.induct)
  case (1 d)
  then show ?case by auto
next
  case (2 d x xs)
  show ?case
  proof (cases "x > d")
    case True
    then show ?thesis using 2(2) by auto
  next
    case False
    then have x: "x = d" using 2(3) by auto
    have no: "unat (d + 1) = unat d + 1"
      using 2(4) by (simp add: unat_word_ariths)
    have step: "d < z \<longleftrightarrow> d + 1 \<le> z" for z using no by (auto simp: word_le_nat_alt word_less_nat_alt)
    have IH: "d + 1 \<le> free_desc (d + 1) xs \<and> free_desc (d + 1) xs \<notin> set xs
        \<and> (\<forall>z. d + 1 \<le> z \<and> z < free_desc (d + 1) xs \<longrightarrow> z \<in> set xs)"
    proof (rule 2(1) [OF False, unfolded x])
      show "sorted_wrt (<) xs" using 2(2) by simp
      show "\<forall>y\<in>set xs. d + 1 \<le> y" using 2(2) x by (simp add: step [symmetric])
      show "unat (d + 1) + length xs < 2 ^ 32" using 2(4) no by simp
    qed
    then have less: "d < free_desc (d + 1) xs" using step by blast
    have "z \<in> set (x # xs)" if "d \<le> z" "z < free_desc (d + 1) xs" for z
    proof (cases "z = d")
      case z: False
      then have "d < z" using that(1) by simp
      then have "d + 1 \<le> z" using step by blast
      then show ?thesis using IH that(2) by simp
    qed (simp add: x)
    then show ?thesis using IH less x by (auto dest: less_imp_le)
  qed
qed

text \<open>The walk as the driver starts it: from 0 for the context manager, from 1 otherwise.\<close>

lemma free_desc_start:
  assumes "sorted_wrt (<) ds" and "length ds < 2 ^ 32 - 1" and "d = 0 \<or> d = 1"
  shows "d \<le> free_desc d ds \<and> free_desc d ds \<notin> set ds
    \<and> (\<forall>z. d \<le> z \<and> z < free_desc d ds \<longrightarrow> z \<in> set ds)"
proof (cases "d = 1 \<and> ds \<noteq> [] \<and> hd ds = 0")
  case True
  then obtain xs where ds: "ds = 0 # xs" by (cases ds) auto
  have "1 \<le> free_desc 1 xs \<and> free_desc 1 xs \<notin> set xs \<and> (\<forall>z. 1 \<le> z \<and> z < free_desc 1 xs \<longrightarrow> z \<in> set xs)"
    using assms(1,2) by (intro free_desc_spec) (auto simp: ds word_le_nat_alt word_less_nat_alt)
  then show ?thesis using True by (auto simp: ds)
next
  case False
  have "\<forall>x\<in>set ds. d \<le> x"
  proof (cases "d = 0")
    case d1: False
    then have d: "d = 1" using assms(3) by simp
    show ?thesis
    proof (cases ds)
      case (Cons x xs)
      then have "x \<noteq> 0" using False d by simp
      then have "unat x \<noteq> 0" by (simp add: unat_eq_zero)
      then have "1 \<le> x" by (simp add: word_le_nat_alt)
      then show ?thesis using assms(1) Cons d by auto
    qed simp
  qed simp
  then show ?thesis using assms by (intro free_desc_spec) auto
qed

end
