(* ===== verification/Binder_Node_Ops.thy ===== *)
theory Binder_Node_Ops
  imports Binder_Node_Inv
begin

text \<open>
  Every operation on nodes and references keeps the invariant and never faults: no
  \<open>BUG()\<close>, no access to a freed object, no corrupted list.
\<close>

section \<open>The invariant of a state\<close>

fun list_owner :: "list_id \<Rightarrow> nat" where
  "list_owner (Proc_Todo p) = p"
| "list_owner (Thread_Todo t) = t"
| "list_owner (Delivered_Death p) = p"
| "list_owner (Async_Todo n) = n"

text \<open>Addresses that \<open>kzalloc\<close> has not handed out yet are not in use anywhere.\<close>

definition fresh_ok :: "binder_state \<Rightarrow> bool" where
  "fresh_ok s \<longleftrightarrow> (\<forall>a \<ge> next_addr s. procs s a = None \<and> thrs s a = None \<and> nds s a = None
     \<and> rfs s a = None \<and> txns s a = None \<and> deaths s a = None
     \<and> entry s (W_Node a) = None \<and> entry s (W_Death a) = None \<and> entry s (W_Transaction a) = None
     \<and> entry s (W_Transaction_Complete a) = None)
     \<and> (\<forall>L. next_addr s \<le> list_owner L \<longrightarrow> queues s L = [])"

definition queue_ok :: "binder_state \<Rightarrow> bool" where
  "queue_ok s \<longleftrightarrow> lists_ok s \<and> fresh_ok s \<and> (\<forall>n. entry s (W_Node n) \<noteq> None \<longrightarrow> nds s n \<noteq> None)"

definition deaths_ok :: "binder_state \<Rightarrow> bool" where
  "deaths_ok s \<longleftrightarrow>
     (\<forall>r rf d. rfs s r = Some rf \<and> rf_death rf = Some d \<longrightarrow> deaths s d \<noteq> None)
     \<and> (\<forall>r rf r' rf' d. rfs s r = Some rf \<and> rf_death rf = Some d \<and> rfs s r' = Some rf'
          \<and> rf_death rf' = Some d \<longrightarrow> r = r')"

definition store_ok :: "binder_state \<Rightarrow> bool" where
  "store_ok s \<longleftrightarrow> objects_ok (procs s) (nds s) (rfs s) (binder_dead_nodes s) \<and> queue_ok s \<and> deaths_ok s"

text \<open>What the operations on nodes leave alone.\<close>

definition rest_same :: "binder_state \<Rightarrow> binder_state \<Rightarrow> bool" where
  "rest_same s s' \<longleftrightarrow> thrs s' = thrs s \<and> rfs s' = rfs s \<and> txns s' = txns s \<and> deaths s' = deaths s
     \<and> binder_context_mgr_node s' = binder_context_mgr_node s
     \<and> binder_context_mgr_uid s' = binder_context_mgr_uid s \<and> next_addr s' = next_addr s
     \<and> binder_procs s' = binder_procs s \<and> binder_deferred_list s' = binder_deferred_list s
     \<and> fds s' = fds s \<and> nice s' = nice s
     \<and> (\<forall>w. (\<forall>n. w \<noteq> W_Node n) \<longrightarrow> entry s' w = entry s w)"

lemma rest_same_refl [simp]: "rest_same s s"
  by (simp add: rest_same_def)

lemma rest_same_trans: "rest_same s s1 \<Longrightarrow> rest_same s1 s2 \<Longrightarrow> rest_same s s2"
  by (simp add: rest_same_def)

text \<open>The list operations touch the queues only.\<close>

lemma list_del_fields [simp]:
  "procs (list_del w s) = procs s" "thrs (list_del w s) = thrs s" "nds (list_del w s) = nds s"
  "rfs (list_del w s) = rfs s" "txns (list_del w s) = txns s" "deaths (list_del w s) = deaths s"
  "binder_dead_nodes (list_del w s) = binder_dead_nodes s" "next_addr (list_del w s) = next_addr s"
  "binder_context_mgr_node (list_del w s) = binder_context_mgr_node s"
  "entry (list_del w s) w = None" "x \<noteq> w \<Longrightarrow> entry (list_del w s) x = entry s x"
  by (auto simp: list_del_def split: option.split)

lemma list_del_rest: "rest_same s (list_del (W_Node n) s)"
  by (auto simp: rest_same_def list_del_def split: option.split)

lemma queue_ok_del: "queue_ok s \<Longrightarrow> queue_ok (list_del w s)"
proof -
  assume q: "queue_ok s"
  then have "lists_ok (list_del w s)" by (simp add: queue_ok_def lists_ok_del)
  moreover have "fresh_ok (list_del w s)"
    using q by (auto simp: queue_ok_def fresh_ok_def list_del_def split: option.split)
  ultimately show ?thesis
    using q by (auto simp: queue_ok_def list_del_def split: option.splits if_splits)
qed

lemma add_tail_node:
  assumes "queue_ok s" and "entry s (W_Node n) = None" and "nds s n \<noteq> None" and "list_owner L < next_addr s"
  obtains s' where "list_add_tail (W_Node n) L s = Some s'" and "queue_ok s'" and "rest_same s s'"
    and "procs s' = procs s" and "nds s' = nds s" and "binder_dead_nodes s' = binder_dead_nodes s"
    and "entry s' (W_Node n) = Some L"
proof -
  let ?s = "s\<lparr>queues := (queues s)(L := queues s L @ [W_Node n]), entry := (entry s)(W_Node n \<mapsto> L)\<rparr>"
  have add: "list_add_tail (W_Node n) L s = Some ?s" using assms(2) by (simp add: list_add_tail_def)
  have "lists_ok ?s" using lists_ok_add_tail [OF _ add] assms(1) by (simp add: queue_ok_def)
  moreover have "fresh_ok ?s" using assms by (auto simp: queue_ok_def fresh_ok_def not_less)
  ultimately have "queue_ok ?s" using assms(1,3) by (auto simp: queue_ok_def)
  then show ?thesis using that [OF add] by (simp add: rest_same_def)
qed

lemma queue_ok_node_upd: "queue_ok s \<Longrightarrow> nds s n \<noteq> None \<Longrightarrow> queue_ok (s\<lparr>nds := (nds s)(n \<mapsto> nd)\<rparr>)"
  by (auto simp: queue_ok_def fresh_ok_def lists_ok_def)

lemma queue_ok_wake: "queue_ok s \<Longrightarrow> queue_ok (wake_up q s)"
  by (simp add: queue_ok_def fresh_ok_def lists_ok_def wake_up_def)

lemma queue_ok_drop_node:
  assumes "queue_ok s" and "entry s (W_Node n) = None" and "queues s' = queues s" and "entry s' = entry s"
    and "nds s' = (nds s)(n := None)" and "\<And>a. procs s a = None \<Longrightarrow> procs s' a = None"
    and "thrs s' = thrs s" and "rfs s' = rfs s" and "txns s' = txns s" and "deaths s' = deaths s"
    and "next_addr s' = next_addr s"
  shows "queue_ok s'"
proof -
  have "lists_ok s'" using assms(1) unfolding queue_ok_def lists_ok_def assms(3,4) by simp
  then show ?thesis using assms(1,2,6) unfolding queue_ok_def fresh_ok_def assms(3-5,7-11) by auto
qed

section \<open>Nodes\<close>

definition inc_count :: "bool \<Rightarrow> bool \<Rightarrow> binder_node \<Rightarrow> binder_node" where
  "inc_count strong internal x =
     (if strong then if internal then x\<lparr>internal_strong_refs := internal_strong_refs x + 1\<rparr>
                     else x\<lparr>local_strong_refs := local_strong_refs x + 1\<rparr>
      else if internal then x else x\<lparr>local_weak_refs := local_weak_refs x + 1\<rparr>)"

lemma inc_node_outcome:
  assumes "queue_ok s" and "nds s n = Some nd" and "\<And>L. tgt = Some L \<Longrightarrow> list_owner L < next_addr s"
  obtains ret s' where "binder_inc_node s n strong internal tgt = Some (ret, s')" and "queue_ok s'"
    and "rest_same s s'" and "procs s' = procs s" and "binder_dead_nodes s' = binder_dead_nodes s"
    and "nds s' = (nds s)(n \<mapsto> (if strong \<and> ret \<noteq> 0 then nd else inc_count strong internal nd))"
    and "ret = 0 \<or> ret = - EINVAL" and "tgt \<noteq> None \<Longrightarrow> ret = 0"
proof (cases strong)
  case True
  let ?s1 = "s\<lparr>nds := (nds s)(n \<mapsto> inc_count True internal nd)\<rparr>"
  show ?thesis
  proof (cases "internal \<and> tgt = None \<and> internal_strong_refs nd = 0
      \<and> \<not> (binder_context_mgr_node s = Some n \<and> has_strong_ref nd)")
    case bad: True
    show ?thesis
      by (rule that [of "- EINVAL" s])
        (use True bad assms in \<open>auto simp: binder_inc_node_def fun_upd_idem\<close>)
  next
    case ok: False
    have upd: "upd_node n (\<lambda>x. if internal then x\<lparr>internal_strong_refs := internal_strong_refs x + 1\<rparr>
        else x\<lparr>local_strong_refs := local_strong_refs x + 1\<rparr>) s = Some ?s1"
      using assms(2) by (simp add: upd_node_def inc_count_def)
    have q1: "queue_ok ?s1" using queue_ok_node_upd assms by simp
    have r1: "rest_same s ?s1" by (simp add: rest_same_def)
    show ?thesis
    proof (cases "tgt = None \<or> has_strong_ref nd")
      case no: True
      then have "binder_inc_node s n strong internal tgt = Some (0, ?s1)"
        using True ok assms(2) upd by (auto simp: binder_inc_node_def split: option.split)
      then show ?thesis using that q1 r1 True by simp
    next
      case False
      then obtain L where L: "tgt = Some L" by auto
      obtain s2 where s2: "list_add_tail (W_Node n) L (list_del (W_Node n) ?s1) = Some s2" "queue_ok s2"
        "rest_same (list_del (W_Node n) ?s1) s2" "procs s2 = procs s"
        "nds s2 = nds ?s1" "binder_dead_nodes s2 = binder_dead_nodes s"
        by (rule add_tail_node [OF queue_ok_del [OF q1], of "W_Node n" n L])
          (use assms(3) [OF L] in auto)
      have "rest_same s s2"
        using rest_same_trans [OF r1 rest_same_trans [OF list_del_rest s2(3)]] .
      moreover have "binder_inc_node s n strong internal tgt = Some (0, s2)"
        using True ok False L assms(2) upd s2(1) by (simp add: binder_inc_node_def)
      ultimately show ?thesis using that s2 True by simp
    qed
  qed
next
  case False
  let ?s1 = "s\<lparr>nds := (nds s)(n \<mapsto> inc_count False internal nd)\<rparr>"
  have "s\<lparr>nds := (nds s)(n \<mapsto> nd)\<rparr> = s" using assms(2) by (simp add: fun_upd_idem)
  then have upd: "(if internal then Some s
        else upd_node n (\<lambda>x. x\<lparr>local_weak_refs := local_weak_refs x + 1\<rparr>) s) = Some ?s1"
    using assms(2) by (simp add: upd_node_def inc_count_def)
  have q1: "queue_ok ?s1" using queue_ok_node_upd assms by simp
  have r1: "rest_same s ?s1" by (simp add: rest_same_def)
  show ?thesis
  proof (cases "\<not> has_weak_ref nd \<and> entry s (W_Node n) = None")
    case no: False
    then have "binder_inc_node s n strong internal tgt = Some (0, ?s1)"
      using False assms(2) upd by (auto simp: binder_inc_node_def)
    then show ?thesis using that q1 r1 False by simp
  next
    case yes: True
    show ?thesis
    proof (cases tgt)
      case None
      then have "binder_inc_node s n strong internal tgt = Some (- EINVAL, ?s1)"
        using False yes assms(2) upd by (auto simp: binder_inc_node_def)
      then show ?thesis using that q1 r1 False None by simp
    next
      case (Some L)
      obtain s2 where s2: "list_add_tail (W_Node n) L ?s1 = Some s2" "queue_ok s2"
        "rest_same ?s1 s2" "procs s2 = procs s" "nds s2 = nds ?s1" "binder_dead_nodes s2 = binder_dead_nodes s"
        by (rule add_tail_node [OF q1, of n L]) (use assms(3) [OF Some] yes in auto)
      then have "binder_inc_node s n strong internal tgt = Some (0, s2)"
        using False yes Some assms(2) upd by (auto simp: binder_inc_node_def)
      then show ?thesis using that s2 rest_same_trans [OF r1 s2(3)] False by simp
    qed
  qed
qed

text \<open>
  \<open>binder_dec_node\<close> keeps the node, with its count lowered, or frees it. It frees it only when
  nothing refers to it any more.
\<close>

lemma dec_node_outcome:
  assumes "queue_ok s" and "nds s n = Some nd" and "\<And>p. nd_proc nd = Some p \<Longrightarrow> procs s p \<noteq> None"
  obtains (kept) s' where "binder_dec_node k s n strong internal = Some s'" and "queue_ok s'"
      and "rest_same s s'" and "procs s' = procs s" and "binder_dead_nodes s' = binder_dead_nodes s"
      and "nds s' = (nds s)(n \<mapsto> dec_count strong internal nd)"
  | (freed) s' where "binder_dec_node k s n strong internal = Some s'" and "queue_ok s'"
      and "rest_same s s'" and "nds s' = (nds s)(n := None)" and "nd_refs nd = []"
      and "\<not> still_held strong (dec_count strong internal nd)"
      and "local_strong_refs (dec_count strong internal nd) = 0"
      and "local_weak_refs (dec_count strong internal nd) = 0"
      and "nd_proc nd = None \<or> \<not> has_strong_ref nd \<and> \<not> has_weak_ref nd"
      and "case nd_proc nd of
             Some p \<Rightarrow> (\<exists>pr. procs s p = Some pr
                 \<and> procs s' = (procs s)(p \<mapsto> pr\<lparr>pr_nodes := rb_erase k n (pr_nodes pr)\<rparr>))
                 \<and> binder_dead_nodes s' = binder_dead_nodes s
           | None \<Rightarrow> procs s' = procs s \<and> binder_dead_nodes s' = remove1 n (binder_dead_nodes s)"
proof -
  let ?nd = "dec_count strong internal nd"
  let ?s1 = "s\<lparr>nds := (nds s)(n \<mapsto> ?nd)\<rparr>"
  have flds: "nd_refs ?nd = nd_refs nd" "nd_proc ?nd = nd_proc nd" "has_strong_ref ?nd = has_strong_ref nd"
    "has_weak_ref ?nd = has_weak_ref nd" by (simp_all add: dec_count_def)
  have q1: "queue_ok ?s1" using queue_ok_node_upd assms(1,2) by simp
  have r1: "rest_same s ?s1" by (simp add: rest_same_def)
  have unf: "binder_dec_node k s n strong internal =
      (if still_held strong ?nd then Some ?s1
       else if nd_proc nd \<noteq> None \<and> (has_strong_ref nd \<or> has_weak_ref nd)
       then if entry ?s1 (W_Node n) = None
            then do { s2 \<leftarrow> list_add_tail (W_Node n) (Proc_Todo (the (nd_proc nd))) ?s1;
                      Some (wake_up (Proc_Wait (the (nd_proc nd))) s2) }
            else Some ?s1
       else if nd_refs nd = [] \<and> local_strong_refs ?nd = 0 \<and> local_weak_refs ?nd = 0
       then free_node k ?s1 n else Some ?s1)"
    using assms(2) flds by (simp add: binder_dec_node_def upd_node_def)
  consider (held) "still_held strong ?nd"
    | (queue) p where "\<not> still_held strong ?nd" "nd_proc nd = Some p" "has_strong_ref nd \<or> has_weak_ref nd"
        "entry s (W_Node n) = None"
    | (queued) "\<not> still_held strong ?nd" "nd_proc nd \<noteq> None" "has_strong_ref nd \<or> has_weak_ref nd"
        "entry s (W_Node n) \<noteq> None"
    | (keep) "\<not> still_held strong ?nd" "\<not> (nd_proc nd \<noteq> None \<and> (has_strong_ref nd \<or> has_weak_ref nd))"
        "\<not> (nd_refs nd = [] \<and> local_strong_refs ?nd = 0 \<and> local_weak_refs ?nd = 0)"
    | (free) "\<not> still_held strong ?nd" "\<not> (nd_proc nd \<noteq> None \<and> (has_strong_ref nd \<or> has_weak_ref nd))"
        "nd_refs nd = [] \<and> local_strong_refs ?nd = 0 \<and> local_weak_refs ?nd = 0"
    by fastforce
  then show ?thesis
  proof cases
    case held
    then show ?thesis using kept [of ?s1] unf q1 r1 by simp
  next
    case (queue p)
    have "p < next_addr s"
    proof (rule ccontr)
      assume "\<not> p < next_addr s"
      then have "procs s p = None" using assms(1) by (simp add: queue_ok_def fresh_ok_def)
      then show False using assms(3) [OF queue(2)] by simp
    qed
    then obtain s2 where s2: "list_add_tail (W_Node n) (Proc_Todo p) ?s1 = Some s2" "queue_ok s2"
      "rest_same ?s1 s2" "procs s2 = procs s" "nds s2 = nds ?s1" "binder_dead_nodes s2 = binder_dead_nodes s"
      by (rule_tac add_tail_node [OF q1, of n "Proc_Todo p"]) (use queue in auto)
    have "rest_same s (wake_up (Proc_Wait p) s2)"
      using rest_same_trans [OF r1 s2(3)] by (simp add: rest_same_def wake_up_def)
    then show ?thesis
      using kept [of "wake_up (Proc_Wait p) s2"] unf queue s2 queue_ok_wake [OF s2(2)]
      by (simp add: wake_up_def)
  next
    case queued
    then have "binder_dec_node k s n strong internal = Some ?s1" unfolding unf by auto
    then show ?thesis using kept [of ?s1] q1 r1 by simp
  next
    case keep
    have "binder_dec_node k s n strong internal = Some ?s1" unfolding unf using keep by auto
    then show ?thesis using kept [of ?s1] q1 r1 by simp
  next
    case free
    let ?s2 = "list_del (W_Node n) ?s1"
    have eq: "binder_dec_node k s n strong internal = free_node k ?s1 n" unfolding unf using free by auto
    have q2: "queue_ok ?s2" using queue_ok_del [OF q1] .
    have r2: "rest_same s ?s2" using rest_same_trans [OF r1 list_del_rest] .
    show ?thesis
    proof (cases "nd_proc nd")
      case None
      let ?s3 = "?s2\<lparr>binder_dead_nodes := remove1 n (binder_dead_nodes ?s2), nds := (nds ?s2)(n := None)\<rparr>"
      have "queue_ok ?s3" by (rule queue_ok_drop_node [OF q2, of n]) simp_all
      moreover have "rest_same s ?s3" using r2 by (simp add: rest_same_def)
      moreover have "free_node k ?s1 n = Some ?s3" using None flds by (simp add: free_node_def)
      ultimately show ?thesis using freed [of ?s3] eq free None flds by simp
    next
      case (Some p)
      then obtain pr where pr: "procs s p = Some pr" using assms(3) by auto
      let ?P = "(procs s)(p \<mapsto> pr\<lparr>pr_nodes := rb_erase k n (pr_nodes pr)\<rparr>)"
      let ?s3 = "?s2\<lparr>procs := ?P, nds := (nds ?s2)(n := None)\<rparr>"
      have "queue_ok ?s3" by (rule queue_ok_drop_node [OF q2, of n]) (use pr in auto)
      moreover have "rest_same s ?s3" using r2 by (simp add: rest_same_def)
      moreover have "free_node k ?s1 n = Some ?s3" using Some pr flds by (simp add: free_node_def upd_proc_def)
      ultimately show ?thesis using freed [of ?s3] eq free Some pr flds by auto
    qed
  qed
qed

section \<open>References\<close>

definition ref_count :: "bool \<Rightarrow> binder_ref \<Rightarrow> int" where
  "ref_count strong rf = (if strong then rf_strong rf else rf_weak rf)"

definition add_count :: "bool \<Rightarrow> int \<Rightarrow> binder_ref \<Rightarrow> binder_ref" where
  "add_count strong i rf = (if strong then rf\<lparr>rf_strong := rf_strong rf + i\<rparr> else rf\<lparr>rf_weak := rf_weak rf + i\<rparr>)"

lemma add_count_fields [simp]:
  "rf_proc (add_count strong i rf) = rf_proc rf" "rf_node (add_count strong i rf) = rf_node rf"
  "rf_desc (add_count strong i rf) = rf_desc rf" "rf_death (add_count strong i rf) = rf_death rf"
  by (simp_all add: add_count_def)

lemma queue_ok_ref_upd: "queue_ok s \<Longrightarrow> rfs s r \<noteq> None \<Longrightarrow> queue_ok (s\<lparr>rfs := (rfs s)(r \<mapsto> rf)\<rparr>)"
  by (auto simp: queue_ok_def fresh_ok_def lists_ok_def)

lemma deaths_ok_cong: "rfs s' = rfs s \<Longrightarrow> deaths s' = deaths s \<Longrightarrow> deaths_ok s' = deaths_ok s"
  by (simp only: deaths_ok_def)

lemma deaths_ok_ref_upd:
  assumes "deaths_ok s" and "rfs s r = Some rf" and "rf_death rf' = rf_death rf"
    and "rfs s' = (rfs s)(r \<mapsto> rf')" and "deaths s' = deaths s"
  shows "deaths_ok s'"
  using assms by (fastforce simp: deaths_ok_def split: if_splits)

lemma store_ok_node:
  assumes "store_ok s" and "rfs s r = Some rf"
  obtains nd where "nds s (rf_node rf) = Some nd" and "r \<in> set (nd_refs nd)" and "distinct (nd_refs nd)"
    and "\<And>p. nd_proc nd = Some p \<Longrightarrow> procs s p \<noteq> None" and "0 \<le> rf_strong rf" and "0 \<le> rf_weak rf"
    and "rf_strong rf \<le> INT_MAX" and "rf_weak rf \<le> INT_MAX"
proof -
  have o: "objects_ok (procs s) (nds s) (rfs s) (binder_dead_nodes s)" using assms(1) by (simp add: store_ok_def)
  obtain nd where nd: "nds s (rf_node rf) = Some nd" "r \<in> set (nd_refs nd)"
    using objects_okD(1) [OF o assms(2)] by (auto simp: ref_ok_def)
  show ?thesis
    using that [OF nd] objects_okD(1) [OF o assms(2)] objects_okD(2) [OF o nd(1)]
    by (auto simp: ref_ok_def node_ok_def split: option.splits)
qed

lemma inc_ref_ok:
  assumes "store_ok s" and "rfs s r = Some rf" and "\<And>L. tgt = Some L \<Longrightarrow> list_owner L < next_addr s"
    and below: "ref_count strong rf < INT_MAX"
  obtains ret s' where "binder_inc_ref s r strong tgt = Some (ret, s')" and "store_ok s'"
    and "ret = 0 \<or> ret = - EINVAL"
    and "rfs s' = (if ret = 0 then (rfs s)(r \<mapsto> add_count strong 1 rf) else rfs s)"
    and "tgt \<noteq> None \<Longrightarrow> ret = 0"
proof -
  obtain nd where nd: "nds s (rf_node rf) = Some nd" "0 \<le> rf_strong rf" "0 \<le> rf_weak rf"
    "rf_strong rf \<le> INT_MAX" "rf_weak rf \<le> INT_MAX"
    using store_ok_node [OF assms(1,2)] by blast
  have plus: "int32 (ref_count strong rf + 1) = ref_count strong rf + 1"
    by (rule int32_id) (use nd below in \<open>auto simp: ref_count_def split: if_splits\<close>)
  have ok: "objects_ok (procs s) (nds s) (rfs s) (binder_dead_nodes s)" "queue_ok s" "deaths_ok s"
    using assms(1) by (simp_all add: store_ok_def)
  let ?rf = "add_count strong 1 rf"
  note result = that
  have finish: thesis
    if inc: "(if (if strong then rf_strong rf else rf_weak rf) = 0
              then binder_inc_node s (rf_node rf) strong True tgt else Some (0, s)) = Some (0, s1)"
      and s1: "queue_ok s1" "rest_same s s1" "procs s1 = procs s" "binder_dead_nodes s1 = binder_dead_nodes s"
      and nds: "nds s1 = (nds s)(rf_node rf \<mapsto> nd')"
      and nd': "nd_refs nd' = nd_refs nd" "nd_ptr nd' = nd_ptr nd" "nd_proc nd' = nd_proc nd"
        "internal_strong_refs nd' = internal_strong_refs nd + strong_flip rf ?rf" for s1 nd'
  proof -
    let ?s2 = "s1\<lparr>rfs := (rfs s1)(r \<mapsto> ?rf)\<rparr>"
    have rfs: "rfs s1 = rfs s" "deaths s1 = deaths s" using s1(2) by (simp_all add: rest_same_def)
    have "objects_ok (procs s) ((nds s)(rf_node rf \<mapsto> nd')) ((rfs s)(r \<mapsto> ?rf)) (binder_dead_nodes s)"
      by (rule objects_ok_counts [OF ok(1) assms(2) nd(1)]) (use nd nd' below in \<open>auto simp: add_count_def ref_count_def\<close>)
    moreover have "queue_ok ?s2" using queue_ok_ref_upd [OF s1(1)] rfs assms(2) by simp
    moreover have "deaths_ok ?s2" by (rule deaths_ok_ref_upd [OF ok(3) assms(2)]) (use rfs in auto)
    ultimately have "store_ok ?s2" using s1 nds rfs by (simp add: store_ok_def)
    moreover have "upd_ref r (\<lambda>x. if strong then x\<lparr>rf_strong := int32 (rf_strong x + 1)\<rparr>
        else x\<lparr>rf_weak := int32 (rf_weak x + 1)\<rparr>) s1 = Some ?s2"
      using assms(2) rfs plus by (cases strong) (simp_all add: upd_ref_def add_count_def ref_count_def)
    then have "binder_inc_ref s r strong tgt = Some (0, ?s2)"
      using assms(2) inc by (simp add: binder_inc_ref_def)
    ultimately show thesis using result [of 0 ?s2] rfs by simp
  qed
  show thesis
  proof (cases "(if strong then rf_strong rf else rf_weak rf) = 0")
    case zero: True
    obtain ret s1 where s1: "binder_inc_node s (rf_node rf) strong True tgt = Some (ret, s1)" "queue_ok s1"
      "rest_same s s1" "procs s1 = procs s" "binder_dead_nodes s1 = binder_dead_nodes s"
      "nds s1 = (nds s)(rf_node rf \<mapsto> (if strong \<and> ret \<noteq> 0 then nd else inc_count strong True nd))"
      "ret = 0 \<or> ret = - EINVAL" "tgt \<noteq> None \<Longrightarrow> ret = 0"
      using inc_node_outcome [OF ok(2) nd(1) assms(3), where strong = strong and internal = True] by blast
    show thesis
    proof (cases "ret = 0")
      case True
      show thesis
        by (rule finish [of s1 "inc_count strong True nd"])
          (use s1 True zero in \<open>auto simp: inc_count_def add_count_def strong_flip_def split: if_splits\<close>)
    next
      case False
      have "nds s1 = nds s" using s1(6) False nd(1) by (auto simp: inc_count_def fun_upd_idem)
      moreover have "rfs s1 = rfs s" "deaths s1 = deaths s" using s1(3) by (simp_all add: rest_same_def)
      ultimately have "store_ok s1" using ok s1 deaths_ok_cong [of s1 s] by (simp add: store_ok_def)
      moreover have "binder_inc_ref s r strong tgt = Some (ret, s1)"
        using assms(2) s1(1) zero False by (simp add: binder_inc_ref_def)
      ultimately show thesis using that [of ret s1] False s1(7,8) \<open>rfs s1 = rfs s\<close> by auto
    qed
  next
    case False
    show thesis
      by (rule finish [of s nd])
        (use False nd ok in \<open>auto simp: add_count_def strong_flip_def fun_upd_idem split: if_splits\<close>)
  qed
qed

lemma queue_ok_proc_upd: "queue_ok s \<Longrightarrow> procs s p \<noteq> None \<Longrightarrow> queue_ok (s\<lparr>procs := (procs s)(p \<mapsto> pr)\<rparr>)"
  by (auto simp: queue_ok_def fresh_ok_def lists_ok_def)

lemma queue_ok_ref_drop: "queue_ok s \<Longrightarrow> queue_ok (s\<lparr>rfs := (rfs s)(r := None)\<rparr>)"
  by (auto simp: queue_ok_def fresh_ok_def lists_ok_def)

lemma queue_ok_death_drop: "queue_ok s \<Longrightarrow> queue_ok (s\<lparr>deaths := (deaths s)(d := None)\<rparr>)"
  by (auto simp: queue_ok_def fresh_ok_def lists_ok_def)

text \<open>A node with a reference is not freed by giving up a strong count.\<close>

lemma dec_node_strong_kept:
  assumes "queue_ok s" and "nds s n = Some nd" and "nd_refs nd \<noteq> []"
    and "\<And>p. nd_proc nd = Some p \<Longrightarrow> procs s p \<noteq> None"
  obtains s' where "binder_dec_node k s n strong internal = Some s'" and "queue_ok s'"
    and "rest_same s s'" and "procs s' = procs s" and "binder_dead_nodes s' = binder_dead_nodes s"
    and "nds s' = (nds s)(n \<mapsto> dec_count strong internal nd)"
  using dec_node_outcome [OF assms(1,2,4), of k strong internal] assms(3) by blast

text \<open>The end of \<open>binder_delete_ref\<close>: the weak hold on the node and the death notification.\<close>

lemma delete_ref_tail:
  assumes "rb_ok k" and "queue_ok s3" and "nds s3 n = Some nd"
    and "objects_ok (procs s3) (nds s3) ((rfs s3)(r := None)) (binder_dead_nodes s3)"
    and "deaths_ok s3" and "rfs s3 r = Some rf"
  obtains s' where "(do { s4 \<leftarrow> binder_dec_node k s3 n False True;
        s5 \<leftarrow> (case rf_death rf of None \<Rightarrow> Some s4 | Some d \<Rightarrow> free_death s4 d);
        Some (s5\<lparr>rfs := (rfs s5)(r := None)\<rparr>) }) = Some s'"
    and "store_ok s'" and "rfs s' = (rfs s3)(r := None)"
proof -
  have "\<exists>pr. procs s3 p = Some pr" if "nd_proc nd = Some p" for p
    using objects_okD(2) [OF assms(4,3)] that by (auto simp: node_ok_def)
  then have pr: "nd_proc nd = Some p \<Longrightarrow> procs s3 p \<noteq> None" for p by auto
  have id: "dec_count False True nd = nd" by (simp add: dec_count_def)
  obtain s4 where s4: "binder_dec_node k s3 n False True = Some s4" "queue_ok s4" "rest_same s3 s4"
    and o4: "objects_ok (procs s4) (nds s4) ((rfs s3)(r := None)) (binder_dead_nodes s4)"
  proof (rule dec_node_outcome [OF assms(2,3) pr, where k = k and strong = False and internal = True])
    fix s4
    assume s4: "binder_dec_node k s3 n False True = Some s4" "queue_ok s4" "rest_same s3 s4"
      and "procs s4 = procs s3" "binder_dead_nodes s4 = binder_dead_nodes s3"
        "nds s4 = (nds s3)(n \<mapsto> dec_count False True nd)"
    then have "nds s4 = nds s3" using assms(3) id by (simp add: fun_upd_idem)
    then show ?thesis
      using that [OF s4] assms(4) \<open>procs s4 = procs s3\<close> \<open>binder_dead_nodes s4 = binder_dead_nodes s3\<close> by simp
  next
    fix s4
    assume s4: "binder_dec_node k s3 n False True = Some s4" "queue_ok s4" "rest_same s3 s4"
      and fr: "nds s4 = (nds s3)(n := None)" "nd_refs nd = []"
        "case nd_proc nd of
           Some p \<Rightarrow> (\<exists>pr. procs s3 p = Some pr
               \<and> procs s4 = (procs s3)(p \<mapsto> pr\<lparr>pr_nodes := rb_erase k n (pr_nodes pr)\<rparr>))
               \<and> binder_dead_nodes s4 = binder_dead_nodes s3
         | None \<Rightarrow> procs s4 = procs s3 \<and> binder_dead_nodes s4 = remove1 n (binder_dead_nodes s3)"
    note drop = objects_ok_drop_node [OF assms(1,4,3) fr(2)]
    show ?thesis
      by (rule that [OF s4], cases "nd_proc nd") (use fr drop in auto)
  qed simp_all
  have r4: "rfs s4 = rfs s3" "deaths s4 = deaths s3" using s4(3) by (simp_all add: rest_same_def)
  have d4: "deaths_ok s4" using deaths_ok_cong [OF r4] assms(5) by simp
  show ?thesis
  proof (cases "rf_death rf")
    case None
    let ?s = "s4\<lparr>rfs := (rfs s4)(r := None)\<rparr>"
    have "deaths_ok ?s" using d4 by (auto simp: deaths_ok_def)
    then have "store_ok ?s" using o4 r4 queue_ok_ref_drop [OF s4(2)] by (simp add: store_ok_def)
    then show ?thesis using that [of ?s] s4(1) None r4 by simp
  next
    case (Some d)
    let ?s5 = "(list_del (W_Death d) s4)\<lparr>deaths := (deaths s4)(d := None)\<rparr>"
    let ?s = "?s5\<lparr>rfs := (rfs ?s5)(r := None)\<rparr>"
    have "deaths s4 d \<noteq> None" using d4 assms(6) r4 Some by (auto simp: deaths_ok_def)
    then have "free_death s4 d = Some ?s5" by (auto simp: free_death_def)
    moreover have "queue_ok ?s"
      using queue_ok_ref_drop [OF queue_ok_death_drop [OF queue_ok_del [OF s4(2)]]] by simp
    moreover have "deaths_ok ?s"
      using d4 assms(6) r4 Some by (fastforce simp: deaths_ok_def split: if_splits)
    ultimately show ?thesis using that [of ?s] s4(1) Some o4 r4 by (simp add: store_ok_def)
  qed
qed

lemma delete_ref_ok:
  assumes "rb_ok k" and "store_ok s" and "rfs s r = Some rf"
  obtains s' where "binder_delete_ref k s r = Some s'" and "store_ok s'" and "rfs s' = (rfs s)(r := None)"
proof -
  have ok: "objects_ok (procs s) (nds s) (rfs s) (binder_dead_nodes s)" "queue_ok s" "deaths_ok s"
    using assms(2) by (simp_all add: store_ok_def)
  obtain nd where nd: "nds s (rf_node rf) = Some nd" "r \<in> set (nd_refs nd)" "distinct (nd_refs nd)"
    "\<And>p. nd_proc nd = Some p \<Longrightarrow> procs s p \<noteq> None" "0 \<le> rf_strong rf" "0 \<le> rf_weak rf"
    "rf_strong rf \<le> INT_MAX" "rf_weak rf \<le> INT_MAX"
    using store_ok_node [OF assms(2,3)] by blast
  obtain pr where pr: "procs s (rf_proc rf) = Some pr"
    using objects_okD(1) [OF ok(1) assms(3)] by (auto simp: ref_ok_def)
  let ?n = "rf_node rf"
  let ?pr = "pr\<lparr>refs_by_desc := rb_erase k r (refs_by_desc pr), refs_by_node := rb_erase k r (refs_by_node pr)\<rparr>"
  let ?s1 = "s\<lparr>procs := (procs s)(rf_proc rf \<mapsto> ?pr)\<rparr>"
  let ?nd = "if rf_strong rf \<noteq> 0 then dec_count True True nd else nd"
  have q1: "queue_ok ?s1" using queue_ok_proc_upd [OF ok(2)] pr by simp
  have p1: "nd_proc nd = Some p \<Longrightarrow> procs ?s1 p \<noteq> None" for p using nd(4) by auto
  have ne: "nd_refs nd \<noteq> []" using nd(2) by auto
  obtain s2 where s2: "(if rf_strong rf \<noteq> 0 then binder_dec_node k ?s1 ?n True True else Some ?s1) = Some s2"
    "queue_ok s2" "rest_same ?s1 s2" "procs s2 = procs ?s1" "binder_dead_nodes s2 = binder_dead_nodes s"
    "nds s2 = (nds s)(?n \<mapsto> ?nd)"
  proof (cases "rf_strong rf = 0")
    case True
    then show ?thesis using that [of ?s1] q1 nd(1) by (simp add: fun_upd_idem)
  next
    case False
    obtain s' where s': "binder_dec_node k ?s1 ?n True True = Some s'" "queue_ok s'" "rest_same ?s1 s'"
      "procs s' = procs ?s1" "binder_dead_nodes s' = binder_dead_nodes ?s1"
      "nds s' = (nds ?s1)(?n \<mapsto> dec_count True True nd)"
      using dec_node_strong_kept [OF q1 _ ne p1, of ?n k True True] nd(1) by auto
    then show ?thesis using that [of s'] False by simp
  qed
  let ?nd3 = "?nd\<lparr>nd_refs := remove1 r (nd_refs ?nd)\<rparr>"
  let ?s3 = "s2\<lparr>nds := (nds s2)(?n \<mapsto> ?nd3)\<rparr>"
  have r2: "rfs s2 = rfs s" "deaths s2 = deaths s" using s2(3) by (simp_all add: rest_same_def)
  let ?rf0 = "rf\<lparr>rf_strong := 0\<rparr>"
  have "objects_ok (procs s) ((nds s)(?n \<mapsto> ?nd)) ((rfs s)(r \<mapsto> ?rf0)) (binder_dead_nodes s)"
    by (rule objects_ok_counts [OF ok(1) assms(3) nd(1)])
      (use nd in \<open>auto simp: dec_count_def strong_flip_def\<close>)
  from objects_ok_drop_ref [OF assms(1) this, of r ?rf0 ?nd pr]
  have "objects_ok (procs s2) (nds ?s3) ((rfs ?s3)(r := None)) (binder_dead_nodes s2)"
    using pr s2 r2 by simp
  moreover have "queue_ok ?s3" using queue_ok_node_upd [OF s2(2), of ?n] s2(6) by simp
  moreover have "deaths_ok ?s3" using deaths_ok_cong [of ?s3 s] r2 ok(3) by simp
  moreover have "rfs ?s3 r = Some rf" using r2 assms(3) by simp
  ultimately obtain s' where fin: "(do { s4 \<leftarrow> binder_dec_node k ?s3 ?n False True;
        s5 \<leftarrow> (case rf_death rf of None \<Rightarrow> Some s4 | Some d \<Rightarrow> free_death s4 d);
        Some (s5\<lparr>rfs := (rfs s5)(r := None)\<rparr>) }) = Some s'"
      "store_ok s'" "rfs s' = (rfs ?s3)(r := None)"
    using delete_ref_tail [OF assms(1), of ?s3 ?n ?nd3 r rf] by auto
  have "binder_delete_ref k s r = Some s'"
    using assms(3) pr s2 fin(1) unfolding binder_delete_ref_def
    by (simp add: upd_proc_def upd_node_def)
  then show ?thesis using that fin r2 by simp
qed

lemma dec_ref_ok:
  assumes "rb_ok k" and "store_ok s" and "rfs s r = Some rf"
  obtains (none) "ref_count strong rf = 0" and "binder_dec_ref k s r strong = Some (- EINVAL, s)"
  | (lower) s' where "ref_count strong rf > 0" and "binder_dec_ref k s r strong = Some (0, s')"
      and "store_ok s'"
      and "rfs s' = (rfs s)(r := if rf_strong (add_count strong (-1) rf) = 0 \<and> rf_weak (add_count strong (-1) rf) = 0
                                 then None else Some (add_count strong (-1) rf))"
proof (cases "ref_count strong rf = 0")
  case True
  then show ?thesis using none assms(3) by (simp add: binder_dec_ref_def ref_count_def)
next
  case False
  have ok: "objects_ok (procs s) (nds s) (rfs s) (binder_dead_nodes s)" "queue_ok s" "deaths_ok s"
    using assms(2) by (simp_all add: store_ok_def)
  obtain nd where nd: "nds s (rf_node rf) = Some nd" "r \<in> set (nd_refs nd)" "distinct (nd_refs nd)"
    "\<And>p. nd_proc nd = Some p \<Longrightarrow> procs s p \<noteq> None" "0 \<le> rf_strong rf" "0 \<le> rf_weak rf"
    "rf_strong rf \<le> INT_MAX" "rf_weak rf \<le> INT_MAX"
    using store_ok_node [OF assms(2,3)] by blast
  let ?n = "rf_node rf" and ?rf = "add_count strong (-1) rf"
  let ?s1 = "s\<lparr>rfs := (rfs s)(r \<mapsto> ?rf)\<rparr>"
  have pos: "ref_count strong rf > 0" using False nd(5,6) by (simp add: ref_count_def split: if_splits)
  have minus: "int32 (ref_count strong rf - 1) = ref_count strong rf - 1"
    by (rule int32_id) (use nd pos in \<open>auto simp: ref_count_def split: if_splits\<close>)
  have q1: "queue_ok ?s1" using queue_ok_ref_upd [OF ok(2)] assms(3) by simp
  let ?down = "strong \<and> rf_strong ?rf = 0"
  let ?nd = "if ?down then dec_count True True nd else nd"
  obtain s2 where s2: "(if ?down then binder_dec_node k ?s1 ?n True True else Some ?s1) = Some s2"
    "queue_ok s2" "rest_same ?s1 s2" "procs s2 = procs s" "binder_dead_nodes s2 = binder_dead_nodes s"
    "nds s2 = (nds s)(?n \<mapsto> ?nd)"
  proof (cases ?down)
    case False
    then have "(nds s)(?n \<mapsto> ?nd) = nds s" using nd(1) by (simp only: if_False fun_upd_idem)
    then show ?thesis using that [of ?s1] q1 False by simp
  next
    case True
    have ne: "nd_refs nd \<noteq> []" using nd(2) by auto
    have n1: "nds ?s1 ?n = Some nd" "\<And>p. nd_proc nd = Some p \<Longrightarrow> procs ?s1 p \<noteq> None" using nd(1,4) by simp_all
    show ?thesis
      by (rule dec_node_strong_kept [OF q1 n1(1) ne n1(2), where k = k and strong = True and internal = True])
        (use that True in auto)
  qed
  have r2: "rfs s2 = (rfs s)(r \<mapsto> ?rf)" "deaths s2 = deaths s" using s2(3) by (simp_all add: rest_same_def)
  have "objects_ok (procs s) ((nds s)(?n \<mapsto> ?nd)) ((rfs s)(r \<mapsto> ?rf)) (binder_dead_nodes s)"
    by (rule objects_ok_counts [OF ok(1) assms(3) nd(1)])
      (use nd pos in \<open>auto simp: dec_count_def strong_flip_def add_count_def ref_count_def\<close>)
  moreover have "deaths_ok s2" by (rule deaths_ok_ref_upd [OF ok(3) assms(3) _ r2]) simp
  ultimately have st: "store_ok s2" using s2 r2 by (simp add: store_ok_def)
  have run: "binder_dec_ref k s r strong = (if rf_strong ?rf = 0 \<and> rf_weak ?rf = 0
      then do { s3 \<leftarrow> binder_delete_ref k s2 r; Some (0, s3) } else Some (0, s2))"
    using False assms(3) s2(1) r2 minus by (auto simp: binder_dec_ref_def upd_ref_def add_count_def ref_count_def)
  show ?thesis
  proof (cases "rf_strong ?rf = 0 \<and> rf_weak ?rf = 0")
    case gone: True
    have "rfs s2 r = Some ?rf" using r2 by simp
    then obtain s3 where "binder_delete_ref k s2 r = Some s3" "store_ok s3" "rfs s3 = (rfs s2)(r := None)"
      using delete_ref_ok [OF assms(1) st] by blast
    then show ?thesis using lower [of s3] run gone r2 pos by simp
  next
    case False
    then have "binder_dec_ref k s r strong = Some (0, s2)" using run by auto
    then show ?thesis using lower [of s2] False st r2 pos by auto
  qed
qed

section \<open>New nodes and references\<close>

lemma kzalloc_simps [simp]:
  "kzalloc_ok k (next_addr s) \<Longrightarrow> kzalloc k s = (Some (next_addr s), s\<lparr>next_addr := Suc (next_addr s)\<rparr>)"
  "\<not> kzalloc_ok k (next_addr s) \<Longrightarrow> kzalloc k s = (None, s\<lparr>next_addr := Suc (next_addr s)\<rparr>)"
  by (simp_all add: kzalloc_def)

lemma queue_ok_bump: "queue_ok s \<Longrightarrow> queue_ok (s\<lparr>next_addr := Suc (next_addr s)\<rparr>)"
  by (auto simp: queue_ok_def fresh_ok_def lists_ok_def)

lemma store_ok_bump: "store_ok s \<Longrightarrow> store_ok (s\<lparr>next_addr := Suc (next_addr s)\<rparr>)"
  using queue_ok_bump deaths_ok_cong [of "s\<lparr>next_addr := Suc (next_addr s)\<rparr>" s] by (simp add: store_ok_def)

lemma store_ok_fresh:
  "store_ok s \<Longrightarrow> nds s (next_addr s) = None \<and> rfs s (next_addr s) = None \<and> deaths s (next_addr s) = None
    \<and> queues s (Async_Todo (next_addr s)) = [] \<and> entry s (W_Node (next_addr s)) = None
    \<and> procs s (next_addr s) = None \<and> txns s (next_addr s) = None"
  by (auto simp: store_ok_def queue_ok_def fresh_ok_def)

lemma new_node_ok:
  assumes "rb_ok k" and "store_ok s" and "procs s p = Some pr"
  obtains (known) n where "n \<in> set_tree (pr_nodes pr)" and "node_key s n = Some ptr"
      and "binder_new_node k s p ptr cookie = Some (None, s)"
  | (nomem) "\<not> kzalloc_ok k (next_addr s)"
      and "binder_new_node k s p ptr cookie = Some (None, s\<lparr>next_addr := Suc (next_addr s)\<rparr>)"
      and "store_ok (s\<lparr>next_addr := Suc (next_addr s)\<rparr>)"
  | (fresh) s' where "binder_new_node k s p ptr cookie = Some (Some (next_addr s), s')" and "store_ok s'"
      and "nds s' = (nds s)(next_addr s \<mapsto> new_node p ptr cookie (binder_last_id s + 1))"
      and "\<forall>n\<in>set_tree (pr_nodes pr). node_key s n \<noteq> Some ptr"
      and "rfs s' = rfs s" and "next_addr s' = Suc (next_addr s)" and "dom (procs s') = dom (procs s)"
proof -
  let ?n = "next_addr s"
  have ok: "objects_ok (procs s) (nds s) (rfs s) (binder_dead_nodes s)" "queue_ok s" "deaths_ok s"
    using assms(2) by (simp_all add: store_ok_def)
  have fr: "nds s ?n = None" "queues s (Async_Todo ?n) = []" "entry s (W_Node ?n) = None"
    using store_ok_fresh [OF assms(2)] by simp_all
  have so: "rb_sorted (node_key s) (pr_nodes pr)" using objects_okD(3) [OF ok(1) assms(3)] by (simp add: proc_ok_def)
  have notin: "?n \<notin> set_tree (pr_nodes pr)" using so fr(1) rb_sorted_key by fastforce
  from rb_link_spec [OF so, of ptr ?n] show ?thesis
  proof (elim disjE bexE exE conjE)
    fix a assume "a \<in> set_tree (pr_nodes pr)" "node_key s a = Some ptr"
      "rb_link (node_key s) ptr ?n (pr_nodes pr) = Some (Inl a)"
    then show ?thesis using known assms(3) by (simp add: binder_new_node_def)
  next
    fix t assume t: "rb_link (node_key s) ptr ?n (pr_nodes pr) = Some (Inr t)"
      "\<forall>a\<in>set_tree (pr_nodes pr). node_key s a \<noteq> Some ptr" "set_tree t = insert ?n (set_tree (pr_nodes pr))"
    show ?thesis
    proof (cases "kzalloc_ok k ?n")
      case False
      then show ?thesis using nomem assms(3) t(1) store_ok_bump [OF assms(2)] by (simp add: binder_new_node_def)
    next
      case True
      let ?nd = "new_node p ptr cookie (binder_last_id s + 1)"
      let ?t = "rb_insert_color k ?n t"
      let ?s = "s\<lparr>next_addr := Suc ?n, nds := (nds s)(?n \<mapsto> ?nd), procs := (procs s)(p \<mapsto> pr\<lparr>pr_nodes := ?t\<rparr>),
        binder_last_id := binder_last_id s + 1, queues := (queues s)(Async_Todo ?n := []),
        entry := (entry s)(W_Node ?n := None)\<rparr>"
      let ?key = "\<lambda>m. map_option nd_ptr (((nds s)(?n \<mapsto> ?nd)) m)"
      have agree: "?key a = node_key s a" if "a \<in> set_tree (pr_nodes pr)" for a using that notin by auto
      have "rb_sorted ?key ?t \<and> set_tree ?t = insert ?n (set_tree (pr_nodes pr))"
        using rb_link_fresh [OF assms(1) so t(1,2) agree] by (simp add: new_node_def)
      then have "objects_ok (procs ?s) (nds ?s) (rfs ?s) (binder_dead_nodes ?s)"
        using objects_ok_new_node [OF ok(1) fr(1) assms(3), of ?nd ?t] by (simp add: new_node_def)
      moreover have "(queues s)(Async_Todo ?n := []) = queues s" "(entry s)(W_Node ?n := None) = entry s"
        using fr by (simp_all add: fun_upd_idem)
      then have "queue_ok ?s"
        using ok(2) fr(1) assms(3) by (auto simp: queue_ok_def fresh_ok_def lists_ok_def)
      moreover have "deaths_ok ?s" using deaths_ok_cong [of ?s s] ok(3) by simp
      ultimately have "store_ok ?s" by (simp add: store_ok_def)
      moreover have "binder_new_node k s p ptr cookie = Some (Some ?n, ?s)"
        using True assms(3) t(1) by (simp add: binder_new_node_def)
      ultimately show ?thesis using fresh [of ?s] t(2) assms(3) by (simp add: insert_absorb domI)
    qed
  qed
qed

lemma get_ref_for_node_ok:
  assumes "rb_ok k" and "store_ok s" and "procs s p = Some pr" and "nds s n = Some nd"
    and "length (inorder (refs_by_desc pr)) < 2 ^ 32 - 1"
  obtains (known) r where "r \<in> set_tree (refs_by_node pr)" and "ref_node_key s r = Some n"
      and "binder_get_ref_for_node k s p n = Some (Some r, s)"
  | (nomem) "\<not> kzalloc_ok k (next_addr s)"
      and "binder_get_ref_for_node k s p n = Some (None, s\<lparr>next_addr := Suc (next_addr s)\<rparr>)"
      and "store_ok (s\<lparr>next_addr := Suc (next_addr s)\<rparr>)"
  | (fresh) s' desc where "binder_get_ref_for_node k s p n = Some (Some (next_addr s), s')" and "store_ok s'"
      and "\<forall>r\<in>set_tree (refs_by_node pr). ref_node_key s r \<noteq> Some n"
      and "rfs s' = (rfs s)(next_addr s \<mapsto> new_ref p n desc (binder_last_id s + 1))"
      and "desc = free_desc (if binder_context_mgr_node s = Some n then 0 else 1)
                    (map (the \<circ> desc_key s) (inorder (refs_by_desc pr)))"
      and "nds s' = (nds s)(n \<mapsto> nd\<lparr>nd_refs := next_addr s # nd_refs nd\<rparr>)"
      and "procs s' = (procs s)(p \<mapsto> pr\<lparr>refs_by_node := refs_by_node (the (procs s' p)),
                                       refs_by_desc := refs_by_desc (the (procs s' p))\<rparr>)"
      and "set_tree (refs_by_desc (the (procs s' p))) = insert (next_addr s) (set_tree (refs_by_desc pr))"
proof -
  let ?r = "next_addr s"
  have ok: "objects_ok (procs s) (nds s) (rfs s) (binder_dead_nodes s)" "queue_ok s" "deaths_ok s"
    using assms(2) by (simp_all add: store_ok_def)
  have fr: "rfs s ?r = None" using store_ok_fresh [OF assms(2)] by simp
  have sn: "rb_sorted (ref_node_key s) (refs_by_node pr)" and sd: "rb_sorted (desc_key s) (refs_by_desc pr)"
    using objects_okD(3) [OF ok(1) assms(3)] by (simp_all add: proc_ok_def)
  have notin: "?r \<notin> set_tree (refs_by_node pr)" "?r \<notin> set_tree (refs_by_desc pr)"
    using rb_sorted_key [OF sn, of ?r] rb_sorted_key [OF sd, of ?r] fr by auto
  from rb_link_spec [OF sn, of n ?r] show ?thesis
  proof (elim disjE bexE exE conjE)
    fix a assume "a \<in> set_tree (refs_by_node pr)" "ref_node_key s a = Some n"
      "rb_link (ref_node_key s) n ?r (refs_by_node pr) = Some (Inl a)"
    then show ?thesis using known assms(3) by (simp add: binder_get_ref_for_node_def)
  next
    fix tn assume tn: "rb_link (ref_node_key s) n ?r (refs_by_node pr) = Some (Inr tn)"
      "\<forall>a\<in>set_tree (refs_by_node pr). ref_node_key s a \<noteq> Some n"
    show ?thesis
    proof (cases "kzalloc_ok k ?r")
      case False
      then show ?thesis
        using nomem assms(3) tn(1) store_ok_bump [OF assms(2)] by (simp add: binder_get_ref_for_node_def)
    next
      case True
      let ?ds = "map (the \<circ> desc_key s) (inorder (refs_by_desc pr))"
      let ?d0 = "if binder_context_mgr_node s = Some n then 0 else 1 :: u32"
      define desc where "desc = free_desc ?d0 ?ds"
      have nx: "next_desc (desc_key s) ?d0 (inorder (refs_by_desc pr)) = Some desc"
        unfolding desc_def by (rule next_desc_free) (use rb_sorted_key [OF sd] in \<open>auto simp flip: set_inorder\<close>)
      have "desc \<notin> set ?ds"
        using free_desc_start [of ?ds ?d0] sd assms(5) by (simp add: desc_def rb_sorted_def)
      then have un: "\<forall>a\<in>set_tree (refs_by_desc pr). desc_key s a \<noteq> Some desc"
        by (force simp flip: set_inorder simp: image_iff)
      then obtain td where td: "rb_link (desc_key s) desc ?r (refs_by_desc pr) = Some (Inr td)"
        using rb_link_spec [OF sd, of desc ?r] by fastforce
      let ?rf = "new_ref p n desc (binder_last_id s + 1)"
      let ?R = "(rfs s)(?r \<mapsto> ?rf)"
      let ?tn = "rb_insert_color k ?r tn" and ?td = "rb_insert_color k ?r td"
      let ?s = "s\<lparr>next_addr := Suc ?r, nds := (nds s)(n \<mapsto> nd\<lparr>nd_refs := ?r # nd_refs nd\<rparr>), rfs := ?R,
        procs := (procs s)(p \<mapsto> pr\<lparr>refs_by_node := ?tn, refs_by_desc := ?td\<rparr>),
        binder_last_id := binder_last_id s + 1\<rparr>"
      have agree: "map_option rf_node (?R a) = ref_node_key s a" if "a \<in> set_tree (refs_by_node pr)" for a
        using that notin by auto
      have agree': "map_option rf_desc (?R a) = desc_key s a" if "a \<in> set_tree (refs_by_desc pr)" for a
        using that notin by auto
      note n' = rb_link_fresh [OF assms(1) sn tn agree]
        and d' = rb_link_fresh [OF assms(1) sd td un agree']
      have "objects_ok (procs ?s) (nds ?s) (rfs ?s) (binder_dead_nodes ?s)"
        using objects_ok_new_ref [OF ok(1) fr assms(3,4), of ?rf ?td ?tn] n' d' by (simp add: new_ref_def)
      moreover have "queue_ok ?s"
        using ok(2) fr assms(3,4) by (auto simp: queue_ok_def fresh_ok_def lists_ok_def)
      moreover have "deaths_ok ?s"
        using ok(3) by (auto simp: deaths_ok_def new_ref_def)
      ultimately have "store_ok ?s" by (simp add: store_ok_def)
      moreover have "binder_get_ref_for_node k s p n = Some (Some ?r, ?s)"
        using True assms(3,4) tn(1) nx td by (simp add: binder_get_ref_for_node_def upd_node_def)
      ultimately show ?thesis
        using fresh [of ?s desc] tn(2) d'(2) desc_def by (simp add: new_ref_def)
    qed
  qed
qed

text \<open>The local counts of a node are the driver's own holds on it.\<close>

lemma local_inc_node_ok:
  assumes "store_ok s" and "nds s n = Some nd" and "\<And>L. tgt = Some L \<Longrightarrow> list_owner L < next_addr s"
  obtains ret s' where "binder_inc_node s n strong False tgt = Some (ret, s')" and "store_ok s'"
    and "ret = 0 \<or> ret = - EINVAL" and "tgt \<noteq> None \<Longrightarrow> ret = 0" and "rest_same s s'" and "procs s' = procs s"
    and "nds s' = (nds s)(n \<mapsto> (if strong \<and> ret \<noteq> 0 then nd else inc_count strong False nd))"
proof -
  have ok: "objects_ok (procs s) (nds s) (rfs s) (binder_dead_nodes s)" "queue_ok s" "deaths_ok s"
    using assms(1) by (simp_all add: store_ok_def)
  show ?thesis
  proof (rule inc_node_outcome [OF ok(2) assms(2,3), where strong = strong and internal = False])
    fix ret s'
    assume s': "binder_inc_node s n strong False tgt = Some (ret, s')" "queue_ok s'" "rest_same s s'"
      "procs s' = procs s" "binder_dead_nodes s' = binder_dead_nodes s"
      "nds s' = (nds s)(n \<mapsto> (if strong \<and> ret \<noteq> 0 then nd else inc_count strong False nd))"
      "ret = 0 \<or> ret = - EINVAL" "tgt \<noteq> None \<Longrightarrow> ret = 0"
    have r: "rfs s' = rfs s" "deaths s' = deaths s" using s'(3) by (simp_all add: rest_same_def)
    have "objects_ok (procs s) (nds s') (rfs s) (binder_dead_nodes s)"
      unfolding s'(6) by (rule objects_ok_node_fields [OF ok(1) assms(2)]) (auto simp: inc_count_def)
    then have "store_ok s'" using s' r ok(3) deaths_ok_cong [OF r] by (simp add: store_ok_def)
    then show ?thesis using that s' by blast
  qed
qed

lemma local_dec_node_ok:
  assumes "rb_ok k" and "store_ok s" and "nds s n = Some nd"
  obtains s' where "binder_dec_node k s n strong False = Some s'" and "store_ok s'" and "rest_same s s'"
    and "nds s' = (nds s)(n := None) \<and> nd_refs nd = [] \<or> nds s' = (nds s)(n \<mapsto> dec_count strong False nd)"
    and "dom (procs s') = dom (procs s)"
proof -
  have ok: "objects_ok (procs s) (nds s) (rfs s) (binder_dead_nodes s)" "queue_ok s" "deaths_ok s"
    using assms(2) by (simp_all add: store_ok_def)
  have pr: "procs s p \<noteq> None" if "nd_proc nd = Some p" for p
    using objects_okD(2) [OF ok(1) assms(3)] that by (auto simp: node_ok_def)
  have st: "store_ok s'" if "rest_same s s'" "queue_ok s'"
    "objects_ok (procs s') (nds s') (rfs s) (binder_dead_nodes s')" for s'
    using that ok(3) deaths_ok_cong [of s' s] by (simp add: store_ok_def rest_same_def)
  show ?thesis
  proof (rule dec_node_outcome [OF ok(2) assms(3) pr, where k = k and strong = strong and internal = False])
    fix s'
    assume s': "binder_dec_node k s n strong False = Some s'" "queue_ok s'" "rest_same s s'"
      "procs s' = procs s" "binder_dead_nodes s' = binder_dead_nodes s"
      "nds s' = (nds s)(n \<mapsto> dec_count strong False nd)"
    have "objects_ok (procs s) (nds s') (rfs s) (binder_dead_nodes s)"
      unfolding s'(6) by (rule objects_ok_node_fields [OF ok(1) assms(3)]) (auto simp: dec_count_def)
    then show ?thesis using that [OF s'(1) st] s' by simp
  next
    fix s'
    assume s': "binder_dec_node k s n strong False = Some s'" "queue_ok s'" "rest_same s s'"
      "nds s' = (nds s)(n := None)" "nd_refs nd = []"
      "case nd_proc nd of
         Some p \<Rightarrow> (\<exists>pr. procs s p = Some pr
             \<and> procs s' = (procs s)(p \<mapsto> pr\<lparr>pr_nodes := rb_erase k n (pr_nodes pr)\<rparr>))
             \<and> binder_dead_nodes s' = binder_dead_nodes s
       | None \<Rightarrow> procs s' = procs s \<and> binder_dead_nodes s' = remove1 n (binder_dead_nodes s)"
    note drop = objects_ok_drop_node [OF assms(1) ok(1) assms(3) s'(5)]
    have o: "objects_ok (procs s') (nds s') (rfs s) (binder_dead_nodes s') \<and> dom (procs s') = dom (procs s)"
    proof (cases "nd_proc nd")
      case None
      then show ?thesis using s'(4,6) drop(2) by simp
    next
      case (Some p)
      then obtain pr where "procs s p = Some pr"
        "procs s' = (procs s)(p \<mapsto> pr\<lparr>pr_nodes := rb_erase k n (pr_nodes pr)\<rparr>)"
        "binder_dead_nodes s' = binder_dead_nodes s" using s'(6) by auto
      then show ?thesis using s'(4) drop(1) [OF Some] by auto
    qed
    show ?thesis using that [OF s'(1) st [OF s'(3,2) conjunct1 [OF o]] s'(3)] s'(4,5) o by simp
  qed simp
qed

end
