(* ===== verification/Binder_Node_Props.thy ===== *)
theory Binder_Node_Props
  imports Binder_Node_Ops Binder_Proc Binder_Alloc_Spec
begin

text \<open>
  What the operations on nodes and references promise their callers. The contract of
  reference counts is a locale; its client lemma, on whole sequences of increments and
  decrements, is used through the interpretation on \<open>binder_inc_ref\<close> and \<open>binder_dec_ref\<close>.
\<close>

section \<open>Counted references\<close>

datatype 'h count_op = Inc 'h | Dec 'h

text \<open>
  The specification: a count per handle, and a handle is usable while its count is positive. A counter
  of finite width takes increments only up to its largest value \<open>cap\<close>.
\<close>

fun count_step :: "nat \<Rightarrow> 'h count_op \<Rightarrow> ('h \<Rightarrow> nat) \<Rightarrow> ('h \<Rightarrow> nat) option" where
  "count_step cap (Inc h) c = (if c h = 0 \<or> cap \<le> c h then None else Some (c(h := Suc (c h))))"
| "count_step cap (Dec h) c = (if c h = 0 then None else Some (c(h := c h - 1)))"

fun run_steps :: "('o \<Rightarrow> 's \<Rightarrow> 's option) \<Rightarrow> 'o list \<Rightarrow> 's \<Rightarrow> 's option" where
  "run_steps f [] s = Some s"
| "run_steps f (x # xs) s = do { s1 \<leftarrow> f x s; run_steps f xs s1 }"

locale counted_refs =
  fixes cap :: nat and inv :: "'s \<Rightarrow> bool" and count :: "'s \<Rightarrow> 'h \<Rightarrow> nat"
    and inc :: "'h \<Rightarrow> 's \<Rightarrow> 's option" and dec :: "'h \<Rightarrow> 's \<Rightarrow> 's option"
  assumes inc_law: "inv s \<Longrightarrow> count s h > 0 \<Longrightarrow> count s h < cap \<Longrightarrow>
        \<exists>s'. inc h s = Some s' \<and> inv s' \<and> count s' = (count s)(h := Suc (count s h))"
    and dec_law: "inv s \<Longrightarrow> count s h > 0 \<Longrightarrow>
        \<exists>s'. dec h s = Some s' \<and> inv s' \<and> count s' = (count s)(h := count s h - 1)"
begin

definition do_op :: "'h count_op \<Rightarrow> 's \<Rightarrow> 's option" where
  "do_op x s = (case x of Inc h \<Rightarrow> inc h s | Dec h \<Rightarrow> dec h s)"

lemma step_refines:
  assumes "inv s" and "count_step cap x (count s) = Some c'"
  shows "\<exists>s'. do_op x s = Some s' \<and> inv s' \<and> count s' = c'"
  using assms inc_law [OF assms(1)] dec_law [OF assms(1)]
  by (cases x) (fastforce simp: do_op_def split: if_splits)+

lemma run_refines:
  "inv s \<Longrightarrow> run_steps (count_step cap) xs (count s) = Some c'
    \<Longrightarrow> \<exists>s'. run_steps do_op xs s = Some s' \<and> inv s' \<and> count s' = c'"
proof (induction xs arbitrary: s)
  case (Cons x xs)
  then obtain c1 where c1: "count_step cap x (count s) = Some c1" "run_steps (count_step cap) xs c1 = Some c'"
    by (auto elim: option_bind_eq_SomeE)
  obtain s1 where s1: "do_op x s = Some s1" "inv s1" "count s1 = c1"
    using step_refines [OF Cons.prems(1) c1(1)] by blast
  show ?case using Cons.IH [OF s1(2)] c1(2) s1 by simp
qed simp

end

section \<open>The driver's counts\<close>

text \<open>A handle of a reference is the reference and which of its two counts.\<close>

definition held :: "binder_state \<Rightarrow> nat \<times> bool \<Rightarrow> nat" where
  "held s h = (case rfs s (fst h) of None \<Rightarrow> 0 | Some rf \<Rightarrow> nat (ref_count (snd h) rf))"

text \<open>An increment and a decrement of a reference in use, without an error.\<close>

definition take_ref :: "nat \<times> bool \<Rightarrow> binder_state \<Rightarrow> binder_state option" where
  "take_ref h s = (case binder_inc_ref s (fst h) (snd h) None of
     Some (ret, s') \<Rightarrow> if ret = 0 then Some s' else None | None \<Rightarrow> None)"

definition drop_ref :: "'k kernel_scheme \<Rightarrow> nat \<times> bool \<Rightarrow> binder_state \<Rightarrow> binder_state option" where
  "drop_ref k h s = (case binder_dec_ref k s (fst h) (snd h) of
     Some (ret, s') \<Rightarrow> if ret = 0 then Some s' else None | None \<Rightarrow> None)"

fun ref_op :: "'k kernel_scheme \<Rightarrow> (nat \<times> bool) count_op \<Rightarrow> binder_state \<Rightarrow> binder_state option" where
  "ref_op k (Inc h) s = take_ref h s"
| "ref_op k (Dec h) s = drop_ref k h s"

lemma held_nonneg: "store_ok s \<Longrightarrow> rfs s r = Some rf \<Longrightarrow> 0 \<le> ref_count strong rf"
  by (erule (1) store_ok_node) (simp add: ref_count_def)

lemma held_pos: "held s (r, strong) > 0 \<longleftrightarrow> (\<exists>rf. rfs s r = Some rf \<and> ref_count strong rf > 0)"
  by (auto simp: held_def split: option.split)

text \<open>The largest count of a reference, \<open>INT_MAX\<close>.\<close>

definition count_limit :: nat where
  "count_limit = nat INT_MAX"

lemma below_limit: "held s (r, strong) < count_limit \<Longrightarrow> rfs s r = Some rf \<Longrightarrow> ref_count strong rf < INT_MAX"
  by (simp add: held_def count_limit_def)

lemma take_ref_law:
  assumes "store_ok s" and "held s h > 0" and "held s h < count_limit"
  shows "\<exists>s'. take_ref h s = Some s' \<and> store_ok s' \<and> held s' = (held s)(h := Suc (held s h))"
proof -
  obtain r strong where h: "h = (r, strong)" by fastforce
  then obtain rf where rf: "rfs s r = Some rf" "ref_count strong rf > 0" using assms(2) held_pos by auto
  obtain ret s' where s': "binder_inc_ref s r strong None = Some (ret, s')" "store_ok s'"
    "rfs s' = (if ret = 0 then (rfs s)(r \<mapsto> add_count strong 1 rf) else rfs s)"
    by (rule inc_ref_ok [OF assms(1) rf(1), where tgt = None and strong = strong])
      (use below_limit [of s r strong rf] assms(3) h rf(1) in auto)
  have "ret = 0" using s'(1) rf by (auto simp: binder_inc_ref_def ref_count_def upd_ref_def split: if_splits)
  moreover from this have "held s' = (held s)(h := Suc (held s h))"
    using s'(3) rf h by (auto simp: fun_eq_iff held_def add_count_def ref_count_def)
  ultimately show ?thesis using s' h by (simp add: take_ref_def)
qed

lemma drop_ref_law:
  assumes "rb_ok k" and "store_ok s" and "held s h > 0"
  shows "\<exists>s'. drop_ref k h s = Some s' \<and> store_ok s' \<and> held s' = (held s)(h := held s h - 1)"
proof -
  obtain r strong where h: "h = (r, strong)" by fastforce
  then obtain rf where rf: "rfs s r = Some rf" "ref_count strong rf > 0" using assms(3) held_pos by auto
  let ?rf = "add_count strong (-1) rf"
  show ?thesis
  proof (cases rule: dec_ref_ok [OF assms(1,2) rf(1), where strong = strong, case_names none lower])
    case none
    then show ?thesis using rf(2) by simp
  next
    case (lower s')
    have o: "0 \<le> ref_count (\<not> strong) rf" using held_nonneg [OF assms(2) rf(1)] .
    have "held s' = (held s)(h := held s h - 1)"
    proof
      fix x :: "nat \<times> bool"
      obtain r' st where x: "x = (r', st)" by fastforce
      show "held s' x = ((held s)(h := held s h - 1)) x"
        using lower(4) rf h o x
        by (cases "r' = r"; cases st; cases strong) (auto simp: held_def add_count_def ref_count_def)
    qed
    then show ?thesis using lower h by (simp add: drop_ref_def)
  qed
qed

interpretation refs: counted_refs count_limit "\<lambda>s. rb_ok k \<and> store_ok s" held take_ref "drop_ref k"
  for k :: "'k kernel_scheme"
  using take_ref_law drop_ref_law by unfold_locales blast+

lemma refs_do_op: "counted_refs.do_op take_ref (drop_ref k) = ref_op k"
  by (auto simp: refs.do_op_def fun_eq_iff split: count_op.split)


section \<open>Lookups\<close>

lemma none_iff: "\<forall>r. res = Some r \<longleftrightarrow> Q r \<Longrightarrow> res = None \<longleftrightarrow> (\<forall>r. \<not> Q r)"
  by (metis not_None_eq option.distinct(1))

lemma some_eqI: "(\<And>r. a = Some r \<longleftrightarrow> b = Some r) \<Longrightarrow> a = b"
  by (metis not_None_eq)

lemma desc_tree_iff:
  assumes "store_ok s" and "procs s p = Some pr"
  shows "r \<in> set_tree (refs_by_desc pr) \<longleftrightarrow> (\<exists>rf. rfs s r = Some rf \<and> rf_proc rf = p)"
proof -
  have ok: "objects_ok (procs s) (nds s) (rfs s) (binder_dead_nodes s)" using assms(1) by (simp add: store_ok_def)
  show ?thesis
  proof
    assume "r \<in> set_tree (refs_by_desc pr)"
    then have "map_option rf_proc (rfs s r) = Some p" using objects_okD(3) [OF ok assms(2)] by (simp add: proc_ok_def)
    then show "\<exists>rf. rfs s r = Some rf \<and> rf_proc rf = p" by auto
  next
    assume "\<exists>rf. rfs s r = Some rf \<and> rf_proc rf = p"
    then obtain rf where rf: "rfs s r = Some rf" "rf_proc rf = p" by blast
    then show "r \<in> set_tree (refs_by_desc pr)"
      using objects_okD(1) [OF ok rf(1)] assms(2) by (auto simp: ref_ok_def)
  qed
qed

lemma get_ref_total:
  assumes "store_ok s" and "procs s p = Some pr"
  shows "\<exists>res. binder_get_ref s p d = Some res
    \<and> (\<forall>r. res = Some r \<longleftrightarrow> (\<exists>rf. rfs s r = Some rf \<and> rf_proc rf = p \<and> rf_desc rf = d))"
proof -
  have ok: "objects_ok (procs s) (nds s) (rfs s) (binder_dead_nodes s)" using assms(1) by (simp add: store_ok_def)
  note po = objects_okD(3) [OF ok assms(2), unfolded proc_ok_def]
  obtain res where res: "rb_find (desc_key s) d (refs_by_desc pr) = Some res"
    "\<forall>a. res = Some a \<longleftrightarrow> a \<in> set_tree (refs_by_desc pr) \<and> desc_key s a = Some d"
    using rb_find_spec [of "desc_key s" "refs_by_desc pr" d] po by blast
  have "r \<in> set_tree (refs_by_desc pr) \<and> desc_key s r = Some d
      \<longleftrightarrow> (\<exists>rf. rfs s r = Some rf \<and> rf_proc rf = p \<and> rf_desc rf = d)" for r
    using desc_tree_iff [OF assms] by auto
  then show ?thesis using res assms(2) by (simp add: binder_get_ref_def)
qed

lemma get_ref_iff:
  assumes "store_ok s" and "procs s p = Some pr"
  shows "binder_get_ref s p d = Some (Some r) \<longleftrightarrow> (\<exists>rf. rfs s r = Some rf \<and> rf_proc rf = p \<and> rf_desc rf = d)"
    and "binder_get_ref s p d = Some None \<longleftrightarrow> (\<forall>r rf. rfs s r = Some rf \<longrightarrow> rf_proc rf = p \<longrightarrow> rf_desc rf \<noteq> d)"
proof -
  obtain res where res: "binder_get_ref s p d = Some res"
    "\<forall>r. res = Some r \<longleftrightarrow> (\<exists>rf. rfs s r = Some rf \<and> rf_proc rf = p \<and> rf_desc rf = d)"
    using get_ref_total [OF assms] by blast
  show "binder_get_ref s p d = Some (Some r) \<longleftrightarrow> (\<exists>rf. rfs s r = Some rf \<and> rf_proc rf = p \<and> rf_desc rf = d)"
    using res by simp
  show "binder_get_ref s p d = Some None \<longleftrightarrow> (\<forall>r rf. rfs s r = Some rf \<longrightarrow> rf_proc rf = p \<longrightarrow> rf_desc rf \<noteq> d)"
    unfolding res(1) option.inject none_iff [OF res(2)] by blast
qed

lemma get_node_total:
  assumes "store_ok s" and "procs s p = Some pr"
  shows "\<exists>res. binder_get_node s p ptr = Some res
    \<and> (\<forall>n. res = Some n \<longleftrightarrow> (\<exists>nd. nds s n = Some nd \<and> nd_proc nd = Some p \<and> nd_ptr nd = ptr))"
proof -
  have ok: "objects_ok (procs s) (nds s) (rfs s) (binder_dead_nodes s)" using assms(1) by (simp add: store_ok_def)
  note po = objects_okD(3) [OF ok assms(2), unfolded proc_ok_def]
  obtain res where res: "rb_find (node_key s) ptr (pr_nodes pr) = Some res"
    "\<forall>a. res = Some a \<longleftrightarrow> a \<in> set_tree (pr_nodes pr) \<and> node_key s a = Some ptr"
    using rb_find_spec [of "node_key s" "pr_nodes pr" ptr] po by blast
  have "n \<in> set_tree (pr_nodes pr) \<and> node_key s n = Some ptr
      \<longleftrightarrow> (\<exists>nd. nds s n = Some nd \<and> nd_proc nd = Some p \<and> nd_ptr nd = ptr)" for n
    using po objects_okD(2) [OF ok, of n] assms(2) by (fastforce simp: node_ok_def)
  then show ?thesis using res assms(2) by (simp add: binder_get_node_def)
qed

lemma get_node_iff:
  assumes "store_ok s" and "procs s p = Some pr"
  shows "binder_get_node s p ptr = Some (Some n)
      \<longleftrightarrow> (\<exists>nd. nds s n = Some nd \<and> nd_proc nd = Some p \<and> nd_ptr nd = ptr)"
    and "binder_get_node s p ptr = Some None
      \<longleftrightarrow> (\<forall>n nd. nds s n = Some nd \<longrightarrow> nd_proc nd = Some p \<longrightarrow> nd_ptr nd \<noteq> ptr)"
proof -
  obtain res where res: "binder_get_node s p ptr = Some res"
    "\<forall>n. res = Some n \<longleftrightarrow> (\<exists>nd. nds s n = Some nd \<and> nd_proc nd = Some p \<and> nd_ptr nd = ptr)"
    using get_node_total [OF assms] by blast
  show "binder_get_node s p ptr = Some (Some n)
      \<longleftrightarrow> (\<exists>nd. nds s n = Some nd \<and> nd_proc nd = Some p \<and> nd_ptr nd = ptr)"
    using res by simp
  show "binder_get_node s p ptr = Some None
      \<longleftrightarrow> (\<forall>n nd. nds s n = Some nd \<longrightarrow> nd_proc nd = Some p \<longrightarrow> nd_ptr nd \<noteq> ptr)"
    unfolding res(1) option.inject none_iff [OF res(2)] by blast
qed

section \<open>A small world\<close>

text \<open>The empty driver satisfies the invariant and opening the device keeps it.\<close>

lemma init_store_ok: "store_ok binder_init_state"
  by (simp add: store_ok_def objects_ok_def queue_ok_def deaths_ok_def fresh_ok_def lists_ok_def binder_init_state_def)

lemma open_store_ok:
  assumes "store_ok s"
  shows "store_ok (snd (snd (binder_open k c s)))"
proof (cases "kzalloc_ok k (next_addr s)")
  case False
  then show ?thesis using store_ok_bump [OF assms] by (simp add: binder_open_def)
next
  case True
  let ?p = "next_addr s" and ?pr = "new_proc c (nice s (c_pid c))"
  let ?s = "s\<lparr>next_addr := Suc (next_addr s), procs := (procs s)(?p \<mapsto> ?pr),
             queues := (queues s)(Proc_Todo ?p := [], Delivered_Death ?p := []), binder_procs := ?p # binder_procs s\<rparr>"
  have ok: "objects_ok (procs s) (nds s) (rfs s) (binder_dead_nodes s)" "queue_ok s" "deaths_ok s" "procs s ?p = None"
    using assms store_ok_fresh [OF assms] by (simp_all add: store_ok_def)
  have "queues s (Proc_Todo ?p) = []" "queues s (Delivered_Death ?p) = []"
    using ok(2) by (simp_all add: queue_ok_def fresh_ok_def)
  then have "(queues s)(Proc_Todo ?p := [], Delivered_Death ?p := []) = queues s" by (simp add: fun_upd_idem)
  then have "queue_ok ?s" using ok(2) by (auto simp: queue_ok_def fresh_ok_def lists_ok_def)
  moreover have "objects_ok ((procs s)(?p \<mapsto> ?pr)) (nds s) (rfs s) (binder_dead_nodes s)"
  proof -
    have "ref_ok ((procs s)(?p \<mapsto> ?pr)) (nds s) r rf" if "rfs s r = Some rf" for r rf
      using objects_okD(1) [OF ok(1) that] ok(4) by (auto simp: ref_ok_def)
    moreover have "node_ok ((procs s)(?p \<mapsto> ?pr)) (rfs s) (binder_dead_nodes s) n nd" if "nds s n = Some nd" for n nd
      using objects_okD(2) [OF ok(1) that] ok(4) by (auto simp: node_ok_def split: option.split)
    moreover have "proc_ok (nds s) (rfs s) ?p ?pr" by (simp add: proc_ok_def new_proc_def)
    ultimately show ?thesis using ok(1) by (auto simp: objects_ok_def)
  qed
  moreover have "deaths_ok ?s" using ok(3) deaths_ok_cong [of ?s s] by simp
  ultimately have "store_ok ?s" by (simp add: store_ok_def)
  then show ?thesis using True by (simp add: binder_open_def)
qed

definition plain_driver :: kernel where
  "plain_driver = \<lparr>get_task_mm = (\<lambda>_. Some 1), page_outcome_at = (\<lambda>_. Page_Ok),
     rb_insert_color = (\<lambda>_ t. t), rb_erase = (\<lambda>x t. spine (remove1 x (inorder t))),
     stale_header = (\<lambda>_. fresh_buffer), get_vm_area = (\<lambda>n. Some 0x100000),
     kzalloc_pages = (\<lambda>_. True), get_files_struct = (\<lambda>_. Some 1), kzalloc_ok = (\<lambda>_. True),
     security_binder_transaction = (\<lambda>_ _. 0), security_binder_transfer_binder = (\<lambda>_ _. 0),
     security_binder_transfer_file = (\<lambda>_ _ _. 0), security_binder_set_context_mgr = (\<lambda>_. 0),
     lock_task_sighand = (\<lambda>_. True), alloc_fd = (\<lambda>_ _. 3), filp_close = (\<lambda>_. 0), task_euid = (\<lambda>_. 1000), task_tgid_nr_ns = (\<lambda>t _. word_of_nat t),
     from_kuid = (\<lambda>_ u. u),
     can_nice = (\<lambda>_ _. True), rlimit_to_nice = (\<lambda>_. 0)\<rparr>"

lemma plain_driver_ok: "rb_ok plain_driver"
  by (simp add: rb_ok_def plain_driver_def)

definition plain_caller :: "int \<Rightarrow> caller" where
  "plain_caller i = \<lparr>c_pid = i, c_tgid = i, c_task = nat i, c_files = nat i, c_euid = 1000\<rparr>"

text \<open>Two processes: 1 and 2.\<close>

definition two_procs :: binder_state where
  "two_procs = snd (snd (binder_open plain_driver (plain_caller 20)
                (snd (snd (binder_open plain_driver (plain_caller 10) binder_init_state)))))"

lemma two_procs_ok: "store_ok two_procs"
  by (simp add: two_procs_def open_store_ok init_store_ok)

lemmas world_defs = two_procs_def binder_open_def plain_driver_def plain_caller_def binder_init_state_def
  new_proc_def kzalloc_def

lemma two_procs_fields:
  "procs two_procs = [1 \<mapsto> new_proc (plain_caller 10) 0, 2 \<mapsto> new_proc (plain_caller 20) 0]"
  "next_addr two_procs = 3" "nds two_procs = Map.empty" "rfs two_procs = Map.empty"
  "binder_last_id two_procs = 0" "binder_context_mgr_node two_procs = None"
  by (simp_all add: world_defs numeral_2_eq_2 numeral_3_eq_3)

text \<open>Process 1 serves node 3.\<close>

definition one_node :: binder_state where
  "one_node = (case binder_new_node plain_driver two_procs 1 0x10 0x20 of Some (_, s) \<Rightarrow> s | None \<Rightarrow> two_procs)"

lemma one_node_run: "binder_new_node plain_driver two_procs 1 0x10 0x20 = Some (Some 3, one_node)"
proof -
  have "map_option fst (binder_new_node plain_driver two_procs 1 0x10 0x20) = Some (Some 3)"
    by (simp add: binder_new_node_def two_procs_fields kzalloc_def plain_driver_def new_proc_def)
  then show ?thesis by (auto simp: one_node_def)
qed

lemma one_node_fields:
  "procs one_node = [1 \<mapsto> (new_proc (plain_caller 10) 0)\<lparr>pr_nodes := Node Leaf 3 Leaf\<rparr>, 2 \<mapsto> new_proc (plain_caller 20) 0]"
  "next_addr one_node = 4" "nds one_node = [3 \<mapsto> new_node 1 0x10 0x20 1]" "rfs one_node = Map.empty"
  "binder_last_id one_node = 1" "binder_context_mgr_node one_node = None"
  by (simp_all add: one_node_def binder_new_node_def two_procs_fields kzalloc_def plain_driver_def new_proc_def
      fun_upd_twist)

lemma one_node_ok: "store_ok one_node"
proof -
  have pr: "procs two_procs 1 = Some (new_proc (plain_caller 10) 0)" by (simp add: two_procs_fields)
  show ?thesis
    by (rule new_node_ok [OF plain_driver_ok two_procs_ok pr, where ptr = "0x10" and cookie = "0x20"])
      (use one_node_run in auto)
qed

text \<open>Process 2 refers to it with reference 4, which has descriptor 1.\<close>

definition one_ref :: binder_state where
  "one_ref = (case binder_get_ref_for_node plain_driver one_node 2 3 of Some (_, s) \<Rightarrow> s | None \<Rightarrow> one_node)"

lemma one_ref_run: "binder_get_ref_for_node plain_driver one_node 2 3 = Some (Some 4, one_ref)"
proof -
  have "map_option fst (binder_get_ref_for_node plain_driver one_node 2 3) = Some (Some 4)"
    by (simp add: binder_get_ref_for_node_def one_node_fields kzalloc_def plain_driver_def new_proc_def upd_node_def)
  then show ?thesis by (auto simp: one_ref_def)
qed

lemma one_ref_fields:
  "rfs one_ref = [4 \<mapsto> new_ref 2 3 1 2]" "next_addr one_ref = 5"
  "procs one_ref 2 = Some ((new_proc (plain_caller 20) 0)\<lparr>refs_by_node := Node Leaf 4 Leaf, refs_by_desc := Node Leaf 4 Leaf\<rparr>)"
  by (simp_all add: one_ref_def binder_get_ref_for_node_def one_node_fields kzalloc_def plain_driver_def new_proc_def
      upd_node_def)

lemma one_ref_ok: "store_ok one_ref"
proof -
  have pr: "procs one_node 2 = Some (new_proc (plain_caller 20) 0)" and nd: "nds one_node 3 = Some (new_node 1 0x10 0x20 1)"
    by (simp_all add: one_node_fields)
  show ?thesis
    by (rule get_ref_for_node_ok [OF plain_driver_ok one_node_ok pr nd])
      (use one_ref_run in \<open>auto simp: new_proc_def\<close>)
qed

text \<open>Process 2 holds it strongly.\<close>

definition held_ref :: binder_state where
  "held_ref = (case binder_inc_ref one_ref 4 True (Some (Thread_Todo 2)) of Some (_, s) \<Rightarrow> s | None \<Rightarrow> one_ref)"

lemma held_ref_ok: "store_ok held_ref" "rfs held_ref = [4 \<mapsto> (new_ref 2 3 1 2)\<lparr>rf_strong := 1\<rparr>]"
  "held held_ref = (\<lambda>_. 0)((4, True) := 1)"
proof -
  have rf: "rfs one_ref 4 = Some (new_ref 2 3 1 2)" by (simp add: one_ref_fields)
  obtain ret s' where s': "binder_inc_ref one_ref 4 True (Some (Thread_Todo 2)) = Some (ret, s')" "store_ok s'"
    "rfs s' = (if ret = 0 then (rfs one_ref)(4 \<mapsto> add_count True 1 (new_ref 2 3 1 2)) else rfs one_ref)" "ret = 0"
    by (rule inc_ref_ok [OF one_ref_ok rf, where strong = True and tgt = "Some (Thread_Todo 2)"])
      (auto simp: one_ref_fields ref_count_def new_ref_def)
  then have h: "held_ref = s'" by (simp add: held_ref_def)
  show "store_ok held_ref" using s'(2) h by simp
  show r: "rfs held_ref = [4 \<mapsto> (new_ref 2 3 1 2)\<lparr>rf_strong := 1\<rparr>]"
    using s'(3,4) h by (simp add: one_ref_fields add_count_def new_ref_def)
  show "held held_ref = (\<lambda>_. 0)((4, True) := 1)"
    by (auto simp: fun_eq_iff held_def r new_ref_def ref_count_def)
qed


section \<open>Properties\<close>



text \<open>
  The limit is real: nothing refuses the increment of a strong count that is \<open>INT_MAX\<close> already. It
  returns success and the count is negative.
\<close>

lemma ref_count_wraps:
  assumes "rfs s r = Some rf" and "rf_strong rf = INT_MAX"
  shows "binder_inc_ref s r True tgt = Some (0, s\<lparr>rfs := (rfs s)(r \<mapsto> rf\<lparr>rf_strong := - (2 ^ 31)\<rparr>)\<rparr>)"
  using assms by (simp add: binder_inc_ref_def upd_ref_def int32_def)

text \<open>
  \<open>binder_inc_ref\<close> on a live reference whose count is below \<open>INT_MAX\<close> returns, keeps the invariant, and either
  refuses with \<open>-EINVAL\<close> leaving every reference alone or adds one to the count it was asked
  for. With a target list it never refuses.
\<close>

theorem inc_ref_correct:
  assumes "store_ok s" and "rfs s r = Some rf" and "\<And>L. tgt = Some L \<Longrightarrow> list_owner L < next_addr s"
    and "ref_count strong rf < INT_MAX"
  shows "\<exists>ret s'. binder_inc_ref s r strong tgt = Some (ret, s') \<and> store_ok s'
    \<and> (ret = 0 \<and> rfs s' = (rfs s)(r \<mapsto> add_count strong 1 rf) \<or> ret = - EINVAL \<and> rfs s' = rfs s \<and> tgt = None)"
proof (rule inc_ref_ok [OF assms])
  fix ret s'
  assume "binder_inc_ref s r strong tgt = Some (ret, s')" "store_ok s'" "ret = 0 \<or> ret = - EINVAL"
    "rfs s' = (if ret = 0 then (rfs s)(r \<mapsto> add_count strong 1 rf) else rfs s)" "tgt \<noteq> None \<Longrightarrow> ret = 0"
  then show ?thesis by (cases tgt) auto
qed

theorem inc_ref_correct_witness:
  "\<exists>ret s'. binder_inc_ref one_ref 4 True (Some (Thread_Todo 2)) = Some (ret, s') \<and> store_ok s'
    \<and> (ret = 0 \<and> rfs s' = (rfs one_ref)(4 \<mapsto> add_count True 1 (new_ref 2 3 1 2))
       \<or> ret = - EINVAL \<and> rfs s' = rfs one_ref \<and> Some (Thread_Todo 2) = None)"
  by (rule inc_ref_correct [OF one_ref_ok]) (auto simp: one_ref_fields ref_count_def new_ref_def)

text \<open>
  \<open>binder_dec_ref\<close> refuses with \<open>-EINVAL\<close> and without a change when the count is zero
  already. Otherwise it lowers it, and the reference is gone, and its descriptor unused, exactly
  when both counts are zero.
\<close>

theorem dec_ref_correct:
  assumes "rb_ok k" and "store_ok s" and "rfs s r = Some rf"
  shows "\<exists>ret s'. binder_dec_ref k s r strong = Some (ret, s') \<and> store_ok s'
    \<and> (if ref_count strong rf = 0 then ret = - EINVAL \<and> s' = s
       else ret = 0 \<and> (if ref_count strong rf = 1 \<and> ref_count (\<not> strong) rf = 0
                        then rfs s' = (rfs s)(r := None)
                             \<and> (procs s' (rf_proc rf) \<noteq> None \<longrightarrow> binder_get_ref s' (rf_proc rf) (rf_desc rf) = Some None)
                        else rfs s' = (rfs s)(r \<mapsto> add_count strong (-1) rf)))"
proof (cases rule: dec_ref_ok [OF assms, where strong = strong, case_names none lower])
  case none
  then show ?thesis using assms(2) by simp
next
  case (lower s')
  have zero: "rf_strong (add_count strong (-1) rf) = 0 \<and> rf_weak (add_count strong (-1) rf) = 0
      \<longleftrightarrow> ref_count strong rf = 1 \<and> ref_count (\<not> strong) rf = 0"
    by (auto simp: add_count_def ref_count_def)
  have "binder_get_ref s' (rf_proc rf) (rf_desc rf) = Some None"
    if r: "rfs s' = (rfs s)(r := None)" and live: "procs s' (rf_proc rf) \<noteq> None"
  proof -
    obtain pr' where pr': "procs s' (rf_proc rf) = Some pr'" using live by auto
    have ok: "objects_ok (procs s) (nds s) (rfs s) (binder_dead_nodes s)" using assms(2) by (simp add: store_ok_def)
    obtain pr where pr: "procs s (rf_proc rf) = Some pr"
      using objects_okD(1) [OF ok assms(3)] by (auto simp: ref_ok_def)
    have "x = r" if "rfs s x = Some y" "rf_proc y = rf_proc rf" "rf_desc y = rf_desc rf" for x y
      using get_ref_iff(1) [OF assms(2) pr, of "rf_desc rf"] assms(3) that by (metis option.inject)
    then show ?thesis unfolding get_ref_iff(2) [OF lower(3) pr'] r by (auto split: if_splits)
  qed
  then show ?thesis using lower zero by (intro exI [of _ 0] exI [of _ s']) (auto split: if_splits)
qed

theorem dec_ref_correct_witness:
  "\<exists>ret s'. binder_dec_ref plain_driver held_ref 4 True = Some (ret, s') \<and> store_ok s' \<and> ret = 0 \<and> rfs s' 4 = None"
proof -
  have "rfs held_ref 4 = Some ((new_ref 2 3 1 2)\<lparr>rf_strong := 1\<rparr>)" by (simp add: held_ref_ok)
  from dec_ref_correct [OF plain_driver_ok held_ref_ok(1) this, of True]
  show ?thesis by (auto simp: ref_count_def new_ref_def)
qed

text \<open>
  \<open>binder_get_ref_for_node\<close> never reaches its \<open>BUG()\<close> and keeps the invariant. It returns the process'
  reference to the node if there is one; a reference it creates gets the least unused descriptor,
  0 only for the context manager, and is found under it, while all other lookups stay.
\<close>

theorem get_ref_for_node_correct:
  assumes "rb_ok k" and "store_ok s" and "procs s p = Some pr" and "nds s n = Some nd"
    and "length (inorder (refs_by_desc pr)) < 2 ^ 32 - 1"
  shows "\<exists>ro s'. binder_get_ref_for_node k s p n = Some (ro, s') \<and> store_ok s'
    \<and> (\<forall>r. ro = Some r \<longrightarrow> map_option rf_node (rfs s' r) = Some n \<and> map_option rf_proc (rfs s' r) = Some p
         \<and> (rfs s r \<noteq> None \<longrightarrow> s' = s)
         \<and> (rfs s r = None \<longrightarrow> (\<exists>d. binder_get_ref s' p d = Some (Some r) \<and> binder_get_ref s p d = Some None
              \<and> (\<forall>x<d. binder_get_ref s p x \<noteq> Some None \<or> x = 0 \<and> binder_context_mgr_node s \<noteq> Some n)
              \<and> (d = 0 \<longrightarrow> binder_context_mgr_node s = Some n)
              \<and> (\<forall>x. x \<noteq> d \<longrightarrow> binder_get_ref s' p x = binder_get_ref s p x))))"
proof (cases rule: get_ref_for_node_ok [OF assms, case_names known nomem fresh])
  case (known r)
  have ok: "objects_ok (procs s) (nds s) (rfs s) (binder_dead_nodes s)" using assms(2) by (simp add: store_ok_def)
  have "map_option rf_proc (rfs s r) = Some p"
    using objects_okD(3) [OF ok assms(3)] known(1) by (simp add: proc_ok_def)
  then show ?thesis using known assms(2) by auto
next
  case nomem
  then show ?thesis by auto
next
  case (fresh s' d)
  let ?r = "next_addr s" and ?d0 = "if binder_context_mgr_node s = Some n then 0 else 1 :: u32"
  let ?ds = "map (the \<circ> desc_key s) (inorder (refs_by_desc pr))"
  have ok: "objects_ok (procs s) (nds s) (rfs s) (binder_dead_nodes s)" using assms(2) by (simp add: store_ok_def)
  note po = objects_okD(3) [OF ok assms(3), unfolded proc_ok_def]
  have nr: "rfs s ?r = None" using store_ok_fresh [OF assms(2)] by simp
  have used: "x \<in> set ?ds \<longleftrightarrow> binder_get_ref s p x \<noteq> Some None" for x
  proof -
    have "desc_key s r \<noteq> None" if "r \<in> set_tree (refs_by_desc pr)" for r
      using po rb_sorted_key that by blast
    then have "the (desc_key s r) = x \<longleftrightarrow> desc_key s r = Some x" if "r \<in> set_tree (refs_by_desc pr)" for r
      using that by (metis option.collapse option.sel)
    then have "x \<in> set ?ds \<longleftrightarrow> (\<exists>r\<in>set_tree (refs_by_desc pr). desc_key s r = Some x)"
      unfolding set_map set_inorder image_iff comp_def by metis
    also have "\<dots> \<longleftrightarrow> (\<exists>r rf. rfs s r = Some rf \<and> rf_proc rf = p \<and> rf_desc rf = x)"
      unfolding Bex_def desc_tree_iff [OF assms(2,3)] by force
    finally show ?thesis using get_ref_iff(2) [OF assms(2,3), of x] by auto
  qed
  have "sorted_wrt (<) ?ds" using po by (simp add: rb_sorted_def)
  then have least: "?d0 \<le> d" "d \<notin> set ?ds" "\<And>z. ?d0 \<le> z \<Longrightarrow> z < d \<Longrightarrow> z \<in> set ?ds"
    using free_desc_start [of ?ds ?d0] assms(5) fresh(5) by auto
  have low: "x = 0" if "\<not> ?d0 \<le> x" for x
    using that by (auto simp: word_le_nat_alt split: if_splits intro: unat_eq_zero [THEN iffD1])
  obtain pr' where pr': "procs s' p = Some pr'" using fresh(7) by (metis fun_upd_same)
  have r': "rfs s' = (rfs s)(?r \<mapsto> new_ref p n d (binder_last_id s + 1))" using fresh(4) .
  have found: "binder_get_ref s' p d = Some (Some ?r)"
    using get_ref_iff(1) [OF fresh(2) pr', of d ?r] r' by (simp add: new_ref_def)
  have same: "binder_get_ref s' p x = binder_get_ref s p x" if x: "x \<noteq> d" for x
  proof -
    obtain a b where ab: "binder_get_ref s' p x = Some a" "binder_get_ref s p x = Some b"
      using get_ref_total [OF fresh(2) pr'] get_ref_total [OF assms(2,3)] by blast
    have "a = Some r \<longleftrightarrow> b = Some r" for r
      using get_ref_iff(1) [OF fresh(2) pr', of x r] get_ref_iff(1) [OF assms(2,3), of x r] ab r' nr x
      by (auto simp: new_ref_def)
    then have "a = b" by (rule some_eqI)
    then show ?thesis using ab by simp
  qed
  have d0: "binder_context_mgr_node s = Some n" if "d = 0"
    using least(1) that by (auto split: if_splits)
  have below: "binder_get_ref s p x \<noteq> Some None \<or> x = 0 \<and> binder_context_mgr_node s \<noteq> Some n" if "x < d" for x
    using least(3) [of x] that used low by (auto split: if_splits)
  have "\<exists>d. binder_get_ref s' p d = Some (Some ?r) \<and> binder_get_ref s p d = Some None
      \<and> (\<forall>x<d. binder_get_ref s p x \<noteq> Some None \<or> x = 0 \<and> binder_context_mgr_node s \<noteq> Some n)
      \<and> (d = 0 \<longrightarrow> binder_context_mgr_node s = Some n)
      \<and> (\<forall>x. x \<noteq> d \<longrightarrow> binder_get_ref s' p x = binder_get_ref s p x)"
    using found same d0 below least(2) used [of d] by (intro exI [of _ d] conjI) blast+
  then show ?thesis
    by (intro exI [of _ "Some ?r"] exI [of _ s']) (use fresh(1,2) r' nr in \<open>simp add: new_ref_def\<close>)
qed

theorem get_ref_for_node_correct_witness:
  "binder_get_ref one_ref 2 1 = Some (Some 4) \<and> binder_get_ref one_node 2 1 = Some None"
proof -
  have pr: "procs one_node 2 = Some (new_proc (plain_caller 20) 0)" and nd: "nds one_node 3 = Some (new_node 1 0x10 0x20 1)"
    by (simp_all add: one_node_fields)
  have "length (inorder (refs_by_desc (new_proc (plain_caller 20) 0))) < 2 ^ 32 - 1" by (simp add: new_proc_def)
  from get_ref_for_node_correct [OF plain_driver_ok one_node_ok pr nd this]
  obtain d where "binder_get_ref one_ref 2 d = Some (Some 4)" "binder_get_ref one_node 2 d = Some None"
    using one_ref_run by (auto simp: one_node_fields)
  moreover have "d = 1"
    using get_ref_iff(1) [OF one_ref_ok one_ref_fields(3), of d 4] calculation(1) by (simp add: one_ref_fields new_ref_def)
  ultimately show ?thesis by simp
qed

text \<open>
  \<open>binder_new_node\<close> keeps the invariant. It refuses a pointer the process already serves; the node it
  creates is found under its pointer, and every other lookup stays.
\<close>

theorem new_node_correct:
  assumes "rb_ok k" and "store_ok s" and "procs s p = Some pr"
  shows "\<exists>no s'. binder_new_node k s p ptr cookie = Some (no, s') \<and> store_ok s'
    \<and> (no = None \<longrightarrow> nds s' = nds s \<and> procs s' = procs s)
    \<and> (\<forall>n. no = Some n \<longrightarrow> nds s n = None \<and> binder_get_node s p ptr = Some None
         \<and> binder_get_node s' p ptr = Some (Some n)
         \<and> (\<forall>q x. procs s q \<noteq> None \<and> (q, x) \<noteq> (p, ptr) \<longrightarrow> binder_get_node s' q x = binder_get_node s q x))"
proof (cases rule: new_node_ok [OF assms, where ptr = ptr and cookie = cookie, case_names known nomem fresh])
  case (known n)
  then show ?thesis using assms(2) by auto
next
  case nomem
  then show ?thesis by auto
next
  case (fresh s')
  let ?n = "next_addr s"
  have nn: "nds s ?n = None" using store_ok_fresh [OF assms(2)] by simp
  have ok: "objects_ok (procs s) (nds s) (rfs s) (binder_dead_nodes s)" using assms(2) by (simp add: store_ok_def)
  have live: "\<exists>pr'. procs s' q = Some pr'" if "procs s q = Some x" for q x
    using fresh(7) that by (auto simp: dom_def)
  have "n \<in> set_tree (pr_nodes pr)" if "nds s n = Some nd" "nd_proc nd = Some p" for n nd
    using objects_okD(2) [OF ok that(1)] that(2) assms(3) by (auto simp: node_ok_def)
  then have before: "binder_get_node s p ptr = Some None"
    unfolding get_node_iff(2) [OF assms(2,3)] using fresh(4) by force
  obtain pr' where pr': "procs s' p = Some pr'" using live assms(3) by blast
  have after: "binder_get_node s' p ptr = Some (Some ?n)"
    unfolding get_node_iff(1) [OF fresh(2) pr'] using fresh(3) by (simp add: new_node_def)
  have same: "binder_get_node s' q x = binder_get_node s q x" if q: "procs s q = Some y" and ne: "(q, x) \<noteq> (p, ptr)" for q x y
  proof -
    obtain y' where y': "procs s' q = Some y'" using live q by blast
    obtain a b where ab: "binder_get_node s' q x = Some a" "binder_get_node s q x = Some b"
      using get_node_total [OF fresh(2) y'] get_node_total [OF assms(2) q] by blast
    have "a = Some n \<longleftrightarrow> b = Some n" for n
      using get_node_iff(1) [OF fresh(2) y', of x n] get_node_iff(1) [OF assms(2) q, of x n] ab fresh(3) nn ne
      by (auto simp: new_node_def)
    then have "a = b" by (rule some_eqI)
    then show ?thesis using ab by simp
  qed
  then have others: "\<forall>q x. procs s q \<noteq> None \<and> (q, x) \<noteq> (p, ptr) \<longrightarrow> binder_get_node s' q x = binder_get_node s q x"
    by blast
  show ?thesis
    by (rule exI [of _ "Some ?n"], rule exI [of _ s']) (use fresh(1,2) nn before after others in simp)
qed

theorem new_node_correct_witness:
  "binder_get_node two_procs 1 0x10 = Some None \<and> binder_get_node one_node 1 0x10 = Some (Some 3)"
proof -
  have pr: "procs two_procs 1 = Some (new_proc (plain_caller 10) 0)" by (simp add: two_procs_fields)
  from new_node_correct [OF plain_driver_ok two_procs_ok pr, of "0x10" "0x20"] show ?thesis
    using one_node_run by auto
qed

text \<open>
  C37. A node is freed by \<open>binder_dec_node\<close> only when nothing can reach it any more: no reference
  names it, the driver holds no count on it, and its process has been told or is gone.
\<close>

theorem dec_node_frees_unreachable:
  assumes "store_ok s" and "nds s n = Some nd" and "binder_dec_node k s n strong internal = Some s'"
    and "nds s' n = None"
  shows "(\<forall>r rf. rfs s r = Some rf \<longrightarrow> rf_node rf \<noteq> n)
    \<and> local_strong_refs (dec_count strong internal nd) = 0 \<and> local_weak_refs (dec_count strong internal nd) = 0
    \<and> (nd_proc nd = None \<or> \<not> has_strong_ref nd \<and> \<not> has_weak_ref nd)
    \<and> entry s' (W_Node n) = None \<and> (\<forall>L. W_Node n \<notin> set (queues s' L))"
proof -
  have ok: "objects_ok (procs s) (nds s) (rfs s) (binder_dead_nodes s)" "queue_ok s"
    using assms(1) by (simp_all add: store_ok_def)
  have pr: "procs s p \<noteq> None" if "nd_proc nd = Some p" for p
    using objects_okD(2) [OF ok(1) assms(2)] that by (auto simp: node_ok_def)
  have noref: "rf_node rf \<noteq> n" if "nd_refs nd = []" "rfs s r = Some rf" for r rf
    using objects_okD(1) [OF ok(1) that(2)] that(1) assms(2) by (auto simp: ref_ok_def)
  show ?thesis
  proof (rule dec_node_outcome [OF ok(2) assms(2) pr, where k = k and strong = strong and internal = internal])
    fix x assume "binder_dec_node k s n strong internal = Some x"
      and "nds x = (nds s)(n \<mapsto> dec_count strong internal nd)"
    then show ?thesis using assms(3,4) by simp
  next
    fix x assume x: "binder_dec_node k s n strong internal = Some x" "queue_ok x" "nd_refs nd = []"
      "local_strong_refs (dec_count strong internal nd) = 0" "local_weak_refs (dec_count strong internal nd) = 0"
      "nd_proc nd = None \<or> \<not> has_strong_ref nd \<and> \<not> has_weak_ref nd"
    have e: "entry s' (W_Node n) = None" using x(1,2) assms(3,4) by (auto simp: queue_ok_def)
    moreover have "\<forall>L. W_Node n \<notin> set (queues s' L)"
      using e x(1,2) assms(3) lists_ok_unlinked [of s' "W_Node n"] by (auto simp: queue_ok_def)
    ultimately show ?thesis using x noref by blast
  qed simp
qed

text \<open>The node of the small world, held once by the driver, is freed when that hold goes.\<close>

theorem dec_node_frees_unreachable_witness:
  "\<exists>s s'. store_ok s \<and> binder_dec_node plain_driver s 3 True False = Some s' \<and> nds s' 3 = None
     \<and> entry s' (W_Node 3) = None"
proof -
  have nd: "nds one_node 3 = Some (new_node 1 0x10 0x20 1)" by (simp add: one_node_fields)
  obtain s where s: "binder_inc_node one_node 3 True False None = Some (0, s)" "store_ok s"
    "nds s = (nds one_node)(3 \<mapsto> inc_count True False (new_node 1 0x10 0x20 1))" "procs s = procs one_node"
    by (rule local_inc_node_ok [OF one_node_ok nd, where strong = True and tgt = None])
      (auto simp: binder_inc_node_def upd_node_def one_node_fields)
  let ?nd = "inc_count True False (new_node 1 0x10 0x20 1)"
  have nd': "nds s 3 = Some ?nd" using s(3) by simp
  obtain s' where s': "binder_dec_node plain_driver s 3 True False = Some s'" "nds s' 3 = None"
  proof -
    have "\<exists>s'. binder_dec_node plain_driver s 3 True False = Some s' \<and> nds s' 3 = None"
      using nd' s(4) by (simp add: binder_dec_node_def upd_node_def dec_count_def inc_count_def still_held_def
          new_node_def free_node_def upd_proc_def one_node_fields)
    then show ?thesis using that by blast
  qed
  from dec_node_frees_unreachable [OF s(2) nd' s'] show ?thesis using s(2) s' by blast
qed

end
