(* ===== verification/Binder_Objects.thy ===== *)
theory Binder_Objects
  imports Binder_Txn Binder_Node_Props
begin

text \<open>
  What the objects in a message mean, and that translating them keeps it: an object denotes a node, by the
  sender's pointer or handle before the translation and by the receiver's after it.
\<close>

section \<open>Buffers beside nodes and references\<close>

text \<open>The invariant of nodes and references does not read the allocator of a process.\<close>

definition allocs :: "binder_state \<Rightarrow> nat \<Rightarrow> binder_alloc option" where
  "allocs s p = map_option pr_alloc (procs s p)"

lemma get_buf_allocs: "get_buf s p b = Option.bind (allocs s p) (\<lambda>a. bufs a b)"
  by (cases "procs s p") (simp_all add: get_buf_def allocs_def)

lemma store_ok_alloc:
  assumes "store_ok s" and "procs s p = Some pr"
  shows "store_ok (s\<lparr>procs := (procs s)(p \<mapsto> pr\<lparr>pr_alloc := a\<rparr>)\<rparr>)"
proof -
  let ?P = "(procs s)(p \<mapsto> pr\<lparr>pr_alloc := a\<rparr>)"
  have ok: "objects_ok (procs s) (nds s) (rfs s) (binder_dead_nodes s)" "queue_ok s" "deaths_ok s"
    using assms(1) by (simp_all add: store_ok_def)
  have "ref_ok ?P (nds s) r rf" if "rfs s r = Some rf" for r rf
    using objects_okD(1) [OF ok(1) that] assms(2) by (auto simp: ref_ok_def)
  moreover have "node_ok ?P (rfs s) (binder_dead_nodes s) n nd" if "nds s n = Some nd" for n nd
    using objects_okD(2) [OF ok(1) that] assms(2) by (auto simp: node_ok_def split: option.split)
  moreover have "proc_ok (nds s) (rfs s) q x" if "?P q = Some x" for q x
    using objects_okD(3) [OF ok(1), of q] assms(2) that by (auto simp: proc_ok_def split: if_splits)
  ultimately have "objects_ok ?P (nds s) (rfs s) (binder_dead_nodes s)" using ok(1) by (simp add: objects_ok_def)
  then show ?thesis
    using queue_ok_proc_upd [OF ok(2)] ok(3) assms(2) deaths_ok_cong [of "s\<lparr>procs := ?P\<rparr>" s] by (simp add: store_ok_def)
qed

lemma inc_node_procs: "binder_inc_node s n strong internal tgt = Some (ret, s') \<Longrightarrow> procs s' = procs s \<and> thrs s' = thrs s"
  by (auto simp: binder_inc_node_def upd_node_def list_add_tail_def bind_eq_Some_conv split: if_splits option.splits)

lemma inc_ref_procs: "binder_inc_ref s r strong tgt = Some (ret, s') \<Longrightarrow> procs s' = procs s \<and> thrs s' = thrs s"
  by (auto simp: binder_inc_ref_def upd_ref_def bind_eq_Some_conv dest!: inc_node_procs split: if_splits)

lemma get_ref_for_node_allocs:
  assumes "binder_get_ref_for_node k s p n = Some (r, s')"
  shows "allocs s' = allocs s" and "thrs s' = thrs s" and "next_addr s \<le> next_addr s'"
    and "binder_context_mgr_node s' = binder_context_mgr_node s"
proof -
  obtain pr l where l: "procs s p = Some pr" "rb_link (ref_node_key s) n (next_addr s) (refs_by_node pr) = Some l"
    using assms by (auto simp: binder_get_ref_for_node_def bind_eq_Some_conv)
  have "allocs s' = allocs s \<and> thrs s' = thrs s \<and> next_addr s \<le> next_addr s' \<and> binder_context_mgr_node s' = binder_context_mgr_node s"
  proof (cases l)
    case (Inl a)
    then show ?thesis using assms l by (simp add: binder_get_ref_for_node_def)
  next
    case (Inr tn)
    show ?thesis
    proof (cases "kzalloc_ok k (next_addr s)")
      case False
      then show ?thesis using assms l Inr by (auto simp: binder_get_ref_for_node_def allocs_def)
    next
      case True
      then obtain d td where "rb_link (desc_key s) d (next_addr s) (refs_by_desc pr) = Some td"
        "next_desc (desc_key s) (if binder_context_mgr_node s = Some n then 0 else 1) (inorder (refs_by_desc pr)) = Some d"
        using assms l Inr by (auto simp: binder_get_ref_for_node_def bind_eq_Some_conv)
      then show ?thesis using assms l Inr True
        by (cases td) (auto simp: binder_get_ref_for_node_def upd_node_def allocs_def fun_eq_iff bind_eq_Some_conv)
    qed
  qed
  then show "allocs s' = allocs s" and "thrs s' = thrs s" and "next_addr s \<le> next_addr s'"
    and "binder_context_mgr_node s' = binder_context_mgr_node s" by simp_all
qed

lemma new_node_allocs:
  assumes "binder_new_node k s p ptr cookie = Some (n, s')"
  shows "allocs s' = allocs s" and "thrs s' = thrs s"
    and "map_option refs_by_desc (procs s' q) = map_option refs_by_desc (procs s q)"
proof -
  obtain pr l where l: "procs s p = Some pr" "rb_link (node_key s) ptr (next_addr s) (pr_nodes pr) = Some l"
    using assms by (auto simp: binder_new_node_def bind_eq_Some_conv)
  have "allocs s' = allocs s \<and> thrs s' = thrs s \<and> map_option refs_by_desc (procs s' q) = map_option refs_by_desc (procs s q)"
    using assms l by (cases l; cases "kzalloc_ok k (next_addr s)") (auto simp: binder_new_node_def allocs_def fun_eq_iff)
  then show "allocs s' = allocs s" and "thrs s' = thrs s"
    and "map_option refs_by_desc (procs s' q) = map_option refs_by_desc (procs s q)" by simp_all
qed

section \<open>Fields of an object\<close>

text \<open>The bytes written go where they should, and nothing but the buffer changes.\<close>

definition put_obj :: "nat \<Rightarrow> addr \<Rightarrow> nat \<Rightarrow> byte list \<Rightarrow> binder_state \<Rightarrow> binder_state option" where
  "put_obj p b off bs s = do {
     h \<leftarrow> get_buf s p b; d \<leftarrow> put_range (buf_data h) off bs; upd_buf p b (\<lambda>x. x\<lparr>buf_data := d\<rparr>) s }"

lemma put_obj32_eq: "put_obj32 p b off w = put_obj p b off (u32_bytes w)"
  by (rule ext) (simp add: put_obj32_def put_obj_def put_u32_def)

lemma put_obj64_eq: "put_obj64 p b off w = put_obj p b off (u64_bytes w)"
  by (rule ext) (simp add: put_obj64_def put_obj_def put_u64_def)

lemma put_obj_ok:
  assumes "store_ok s" and "get_buf s p b = Some h" and "off + length bs \<le> length (buf_data h)"
  obtains s' d where "put_obj p b off bs s = Some s'" and "store_ok s'" and "put_range (buf_data h) off bs = Some d"
    and "get_buf s' p b = Some (h\<lparr>buf_data := d\<rparr>)" and "nds s' = nds s" and "rfs s' = rfs s" and "thrs s' = thrs s"
    and "next_addr s' = next_addr s" and "dom (procs s') = dom (procs s)"
    and "binder_context_mgr_node s' = binder_context_mgr_node s"
proof -
  obtain pr where pr: "procs s p = Some pr" "bufs (pr_alloc pr) b = Some h"
    using assms(2) by (auto simp: get_buf_def bind_eq_Some_conv)
  obtain d where d: "put_range (buf_data h) off bs = Some d" using assms(3) put_range_total by blast
  let ?a = "(pr_alloc pr)\<lparr>bufs := (bufs (pr_alloc pr))(b \<mapsto> h\<lparr>buf_data := d\<rparr>)\<rparr>"
  let ?s = "s\<lparr>procs := (procs s)(p \<mapsto> pr\<lparr>pr_alloc := ?a\<rparr>)\<rparr>"
  have "put_obj p b off bs s = Some ?s"
    using assms(2) d pr by (simp add: put_obj_def upd_buf_def upd_proc_def upd_buffer_def)
  then show ?thesis
    by (rule that) (use d pr store_ok_alloc [OF assms(1) pr(1)] in \<open>auto simp: get_buf_def\<close>)
qed

lemma ucast_le_word: "length bs = 8 \<Longrightarrow> (ucast (le_word bs :: u64) :: u32) = le_word (take 4 bs)"
  by (rule bit_word_eqI) (auto simp: bit_ucast_iff bit_le_word)

lemma get_flat_object_total: "off + 24 \<le> length bs \<Longrightarrow> \<exists>f. get_flat_object bs off = Some f"
  by (simp add: get_flat_object_def get_u32_def get_u64_def get_range_def)

text \<open>Fields of the object after a write to one of them.\<close>

lemma get_u32_put: 
  assumes "put_range bs o1 (u32_bytes w) = Some bs'"
  shows "get_u32 bs' o1 = Some w" and "o2 + 4 \<le> o1 \<or> o1 + 4 \<le> o2 \<Longrightarrow> get_u32 bs' o2 = get_u32 bs o2"
    and "o2 + 8 \<le> o1 \<or> o1 + 4 \<le> o2 \<Longrightarrow> get_u64 bs' o2 = get_u64 bs o2"
  using get_put_same [OF assms] get_put_other [OF assms] by (simp_all add: get_u32_def get_u64_def)

lemma get_u64_put:
  assumes "put_range bs o1 (u64_bytes w) = Some bs'"
  shows "get_u64 bs' o1 = Some w" and "o2 + 4 \<le> o1 \<or> o1 + 8 \<le> o2 \<Longrightarrow> get_u32 bs' o2 = get_u32 bs o2"
    and "o2 + 8 \<le> o1 \<or> o1 + 8 \<le> o2 \<Longrightarrow> get_u64 bs' o2 = get_u64 bs o2"
  using get_put_same [OF assms] get_put_other [OF assms] by (simp_all add: get_u32_def get_u64_def)

lemma low_half_put:
  assumes "put_range bs off (u32_bytes w) = Some bs'" and "off + 8 \<le> length bs"
  shows "map_option (ucast :: u64 \<Rightarrow> u32) (get_u64 bs' off) = Some w"
proof -
  have len: "length bs' = length bs" by (rule put_range_length [OF assms(1)])
  have "take 4 (drop off bs') = u32_bytes w"
    using get_put_same [OF assms(1)] len assms(2) by (simp add: get_range_def)
  then have "take 4 (take 8 (drop off bs')) = u32_bytes w" by (simp add: min_def)
  moreover have "length (take 8 (drop off bs')) = 8" using len assms(2) by simp
  ultimately show ?thesis using len assms(2) by (simp add: get_u64_def get_range_def ucast_le_word)
qed

lemma handle_written:
  assumes "get_flat_object bs off = Some f" and "put_range bs off (u32_bytes ty) = Some bs1"
    and "put_range bs1 (off + 8) (u32_bytes d) = Some bs2"
  shows "\<exists>f'. get_flat_object bs2 off = Some f' \<and> fo_type f' = ty \<and> fo_flags f' = fo_flags f \<and> fo_handle f' = d"
proof -
  have len: "off + 24 \<le> length bs"
    using assms(1) by (auto simp: get_flat_object_def get_u64_def get_range_def bind_eq_Some_conv split: if_splits)
  then have len1: "off + 8 + 8 \<le> length bs1" using put_range_length [OF assms(2)] by simp
  have "get_u32 bs2 off = Some ty" using get_u32_put(1) [OF assms(2)] get_u32_put(2) [OF assms(3), of off] by simp
  moreover have "get_u32 bs2 (off + 4) = get_u32 bs (off + 4)"
    using get_u32_put(2) [OF assms(2), of "off + 4"] get_u32_put(2) [OF assms(3), of "off + 4"] by simp
  moreover have "get_u64 bs2 (off + 16) = get_u64 bs (off + 16)"
    using get_u32_put(3) [OF assms(2), of "off + 16"] get_u32_put(3) [OF assms(3), of "off + 16"] by simp
  moreover obtain w where "get_u64 bs2 (off + 8) = Some w" "ucast w = d"
    using low_half_put [OF assms(3) len1] by auto
  ultimately show ?thesis using assms(1) by (auto simp: get_flat_object_def bind_eq_Some_conv)
qed

lemma handle_only_written:
  assumes "get_flat_object bs off = Some f" and "put_range bs (off + 8) (u32_bytes d) = Some bs2"
  shows "\<exists>f'. get_flat_object bs2 off = Some f' \<and> fo_type f' = fo_type f \<and> fo_flags f' = fo_flags f \<and> fo_handle f' = d"
proof -
  have len: "off + 24 \<le> length bs"
    using assms(1) by (auto simp: get_flat_object_def get_u64_def get_range_def bind_eq_Some_conv split: if_splits)
  then have len1: "off + 8 + 8 \<le> length bs" by simp
  have "get_u32 bs2 off = get_u32 bs off" "get_u32 bs2 (off + 4) = get_u32 bs (off + 4)" "get_u64 bs2 (off + 16) = get_u64 bs (off + 16)"
    using get_u32_put(2) [OF assms(2), of off] get_u32_put(2) [OF assms(2), of "off + 4"] get_u32_put(3) [OF assms(2), of "off + 16"]
    by simp_all
  moreover obtain w where "get_u64 bs2 (off + 8) = Some w" "ucast w = d"
    using low_half_put [OF assms(2) len1] by auto
  ultimately show ?thesis using assms(1) by (auto simp: get_flat_object_def bind_eq_Some_conv)
qed

lemma pointer_written:
  assumes "get_flat_object bs off = Some f" and "put_range bs off (u32_bytes ty) = Some bs1"
    and "put_range bs1 (off + 8) (u64_bytes a) = Some bs2" and "put_range bs2 (off + 16) (u64_bytes c) = Some bs3"
  shows "get_flat_object bs3 off = Some (f\<lparr>fo_type := ty, fo_binder := a, fo_cookie := c\<rparr>)"
proof -
  have "get_u32 bs3 off = Some ty" 
    using get_u32_put(1) [OF assms(2)] get_u64_put(2) [OF assms(3), of off] get_u64_put(2) [OF assms(4), of off] by simp
  moreover have "get_u32 bs3 (off + 4) = get_u32 bs (off + 4)"
    using get_u32_put(2) [OF assms(2), of "off + 4"] get_u64_put(2) [OF assms(3), of "off + 4"] get_u64_put(2) [OF assms(4), of "off + 4"]
    by simp
  moreover have "get_u64 bs3 (off + 8) = Some a"
    using get_u64_put(1) [OF assms(3)] get_u64_put(3) [OF assms(4), of "off + 8"] by simp
  moreover have "get_u64 bs3 (off + 16) = Some c" by (rule get_u64_put(1) [OF assms(4)])
  ultimately show ?thesis using assms(1) by (auto simp: get_flat_object_def bind_eq_Some_conv)
qed

section \<open>What an object denotes\<close>

text \<open>The node that an object stands for when process \<open>p\<close> reads it: its own, or one it has a reference to.\<close>

definition denotes :: "binder_state \<Rightarrow> nat \<Rightarrow> flat_binder_object \<Rightarrow> nat \<Rightarrow> bool" where
  "denotes s p f n =
     (if fo_type f = BINDER_TYPE_BINDER \<or> fo_type f = BINDER_TYPE_WEAK_BINDER
      then binder_get_node s p (fo_binder f) = Some (Some n) \<and> map_option nd_cookie (nds s n) = Some (fo_cookie f)
      else if fo_type f = BINDER_TYPE_HANDLE \<or> fo_type f = BINDER_TYPE_WEAK_HANDLE
      then (\<exists>r. binder_get_ref s p (fo_handle f) = Some (Some r) \<and> map_option rf_node (rfs s r) = Some n)
      else False)"

definition strong_object :: "flat_binder_object \<Rightarrow> bool" where
  "strong_object f \<longleftrightarrow> fo_type f = BINDER_TYPE_BINDER \<or> fo_type f = BINDER_TYPE_HANDLE"

lemma type_codes_distinct [simp]:
  "BINDER_TYPE_BINDER \<noteq> BINDER_TYPE_WEAK_BINDER" "BINDER_TYPE_BINDER \<noteq> BINDER_TYPE_HANDLE"
  "BINDER_TYPE_BINDER \<noteq> BINDER_TYPE_WEAK_HANDLE" "BINDER_TYPE_WEAK_BINDER \<noteq> BINDER_TYPE_HANDLE"
  "BINDER_TYPE_WEAK_BINDER \<noteq> BINDER_TYPE_WEAK_HANDLE" "BINDER_TYPE_HANDLE \<noteq> BINDER_TYPE_WEAK_HANDLE"
  "BINDER_TYPE_WEAK_BINDER \<noteq> BINDER_TYPE_BINDER" "BINDER_TYPE_HANDLE \<noteq> BINDER_TYPE_BINDER"
  "BINDER_TYPE_WEAK_HANDLE \<noteq> BINDER_TYPE_BINDER" "BINDER_TYPE_HANDLE \<noteq> BINDER_TYPE_WEAK_BINDER"
  "BINDER_TYPE_WEAK_HANDLE \<noteq> BINDER_TYPE_WEAK_BINDER" "BINDER_TYPE_WEAK_HANDLE \<noteq> BINDER_TYPE_HANDLE"
  by (simp_all add: type_codes)

lemma denotes_pointer:
  assumes "store_ok s" and "procs s p \<noteq> None" and "fo_type f = BINDER_TYPE_BINDER \<or> fo_type f = BINDER_TYPE_WEAK_BINDER"
  shows "denotes s p f n \<longleftrightarrow>
    (\<exists>nd. nds s n = Some nd \<and> nd_proc nd = Some p \<and> nd_ptr nd = fo_binder f \<and> nd_cookie nd = fo_cookie f)"
proof -
  obtain pr where pr: "procs s p = Some pr" using assms(2) by auto
  show ?thesis unfolding denotes_def get_node_iff(1) [OF assms(1) pr] using assms(3) by auto
qed

lemma denotes_handle:
  assumes "store_ok s" and "procs s p \<noteq> None" and "fo_type f = BINDER_TYPE_HANDLE \<or> fo_type f = BINDER_TYPE_WEAK_HANDLE"
  shows "denotes s p f n \<longleftrightarrow> (\<exists>r rf. rfs s r = Some rf \<and> rf_proc rf = p \<and> rf_desc rf = fo_handle f \<and> rf_node rf = n)"
proof -
  obtain pr where pr: "procs s p = Some pr" using assms(2) by auto
  show ?thesis unfolding denotes_def get_ref_iff(1) [OF assms(1) pr] using assms(3) by fastforce
qed

section \<open>Translating\<close>

lemma store_ok_node_fields:
  assumes "store_ok s" and "nds s n = Some nd"
    and "nd_refs nd' = nd_refs nd" and "internal_strong_refs nd' = internal_strong_refs nd"
    and "nd_ptr nd' = nd_ptr nd" and "nd_proc nd' = nd_proc nd"
  shows "store_ok (s\<lparr>nds := (nds s)(n \<mapsto> nd')\<rparr>)"
  using assms objects_ok_node_fields [of "procs s" "nds s" "rfs s" "binder_dead_nodes s" n nd nd'] queue_ok_node_upd [of s n nd']
    deaths_ok_cong [of "s\<lparr>nds := (nds s)(n \<mapsto> nd')\<rparr>" s]
  by (simp add: store_ok_def)

lemma dom_procs_allocs: "allocs s' = allocs s \<Longrightarrow> procs s' q = None \<longleftrightarrow> procs s q = None"
  by (metis allocs_def map_option_is_None)

lemma object_node_ok:
  assumes "rb_ok k" and "store_ok s" and "procs s p \<noteq> None"
  obtains (none) s1 where "object_node k p f s = Some (None, s1)" and "store_ok s1"
  | (node) n nd s1 where "object_node k p f s = Some (Some n, s1)" and "store_ok s1" and "nds s1 n = Some nd"
      and "nd_proc nd = Some p" and "nd_ptr nd = fo_binder f" and "allocs s1 = allocs s" and "thrs s1 = thrs s"
      and "\<And>q. map_option refs_by_desc (procs s1 q) = map_option refs_by_desc (procs s q)"
      and "next_addr s \<le> next_addr s1" and "rfs s1 = rfs s"
proof -
  obtain pr where pr: "procs s p = Some pr" using assms(3) by auto
  obtain res where res: "binder_get_node s p (fo_binder f) = Some res" using get_node_total [OF assms(2) pr] by blast
  show ?thesis
  proof (cases res)
    case (Some n)
    then obtain nd where "nds s n = Some nd" "nd_proc nd = Some p" "nd_ptr nd = fo_binder f"
      using get_node_iff(1) [OF assms(2) pr] res by auto
    then show ?thesis using node [of n s nd] res Some assms(2) by (simp add: object_node_def)
  next
    case None
    then have run: "object_node k p f s = do {
        (new, s1) \<leftarrow> binder_new_node k s p (fo_binder f) (fo_cookie f);
        (case new of None \<Rightarrow> Some (None, s1)
         | Some node \<Rightarrow> do {
             s2 \<leftarrow> upd_node node (\<lambda>x. x\<lparr>min_priority := uint (fo_flags f AND FLAT_BINDER_FLAG_PRIORITY_MASK),
               accept_fds := (fo_flags f AND FLAT_BINDER_FLAG_ACCEPTS_FDS \<noteq> 0)\<rparr>) s1;
             Some (Some node, s2) }) }"
      using res by (simp add: object_node_def)
    show ?thesis
    proof (cases rule: new_node_ok [OF assms(1,2) pr, of "fo_binder f" "fo_cookie f", case_names known nomem fresh])
      case (known n)
      then show ?thesis using none [of s] run assms(2) by simp
    next
      case nomem
      then show ?thesis using none run by simp
    next
      case (fresh s1)
      let ?n = "next_addr s" and ?nd = "new_node p (fo_binder f) (fo_cookie f) (binder_last_id s + 1)"
      let ?nd' = "?nd\<lparr>min_priority := uint (fo_flags f AND FLAT_BINDER_FLAG_PRIORITY_MASK),
               accept_fds := (fo_flags f AND FLAT_BINDER_FLAG_ACCEPTS_FDS \<noteq> 0)\<rparr>"
      let ?s = "s1\<lparr>nds := (nds s1)(?n \<mapsto> ?nd')\<rparr>"
      have nd: "nds s1 ?n = Some ?nd" using fresh(3) by simp
      show ?thesis
      proof (rule node [of ?n ?s ?nd'])
        show "object_node k p f s = Some (Some ?n, ?s)" using run fresh(1) nd by (simp add: upd_node_def)
        show "store_ok ?s" by (rule store_ok_node_fields [OF fresh(2) nd]) simp_all
        show "allocs ?s = allocs s" "thrs ?s = thrs s"
          using new_node_allocs(1,2) [OF fresh(1)] by (simp_all add: allocs_def fun_eq_iff)
        show "map_option refs_by_desc (procs ?s q) = map_option refs_by_desc (procs s q)" for q
          using new_node_allocs(3) [OF fresh(1), of q] by simp
      qed (use fresh(5,6) in \<open>simp_all add: new_node_def\<close>)
    qed
  qed
qed

text \<open>No count of a process' references is at the largest value of its type: one more count fits.\<close>

definition refs_below :: "binder_state \<Rightarrow> nat \<Rightarrow> bool" where
  "refs_below s p \<longleftrightarrow>
     (\<forall>r rf. rfs s r = Some rf \<longrightarrow> rf_proc rf = p \<longrightarrow> rf_strong rf < INT_MAX \<and> rf_weak rf < INT_MAX)"

lemma refs_below_count:
  "refs_below s p \<Longrightarrow> rfs s r = Some rf \<or> rf_strong rf = 0 \<and> rf_weak rf = 0 \<Longrightarrow> rf_proc rf = p
    \<Longrightarrow> ref_count strong rf < INT_MAX"
  by (auto simp: refs_below_def ref_count_def)

text \<open>The reference that the receiver has after the translation.\<close>

lemma target_ref_ok:
  assumes "rb_ok k" and "store_ok s" and "map_option refs_by_desc (procs s p) = Some tr"
    and "length (inorder tr) < 2 ^ 32 - 1" and "nds s n = Some nd"
  obtains (nomem) s1 where "binder_get_ref_for_node k s p n = Some (None, s1)" and "store_ok s1"
  | (ref) r rf nd' s1 where "binder_get_ref_for_node k s p n = Some (Some r, s1)" and "store_ok s1" and "rfs s1 r = Some rf"
      and "rf_proc rf = p" and "rf_node rf = n" and "nds s1 = (nds s)(n \<mapsto> nd')"
      and "nd_proc nd' = nd_proc nd" and "nd_ptr nd' = nd_ptr nd" and "nd_cookie nd' = nd_cookie nd"
      and "internal_strong_refs nd' = internal_strong_refs nd"
      and "\<And>x y. rfs s x = Some y \<Longrightarrow> rfs s1 x = Some y"
      and "allocs s1 = allocs s" and "thrs s1 = thrs s" and "next_addr s \<le> next_addr s1"
      and "binder_context_mgr_node s1 = binder_context_mgr_node s"
      and "rfs s r = Some rf \<or> rf_strong rf = 0 \<and> rf_weak rf = 0"
proof -
  obtain pr where pr: "procs s p = Some pr" "refs_by_desc pr = tr" using assms(3) by auto
  have len: "length (inorder (refs_by_desc pr)) < 2 ^ 32 - 1" using pr(2) assms(4) by simp
  have ok: "objects_ok (procs s) (nds s) (rfs s) (binder_dead_nodes s)" using assms(2) by (simp add: store_ok_def)
  show ?thesis
  proof (cases rule: get_ref_for_node_ok [OF assms(1,2) pr(1) assms(5) len, case_names known nomem fresh])
    case (known r)
    have "map_option rf_proc (rfs s r) = Some p" using objects_okD(3) [OF ok pr(1)] known(1) by (simp add: proc_ok_def)
    then obtain rf where "rfs s r = Some rf" "rf_proc rf = p" "rf_node rf = n" using known(2) by auto
    then show ?thesis using ref [of r s rf nd] known(3) assms(2,5) by (simp add: fun_upd_idem)
  next
    case nomem
    then show ?thesis using that(1) by blast
  next
    case (fresh s' d)
    have "rfs s (next_addr s) = None" using store_ok_fresh [OF assms(2)] by simp
    then have "rfs s' x = Some y" if "rfs s x = Some y" for x y using that fresh(4) by auto
    then show ?thesis
      using ref [of "next_addr s" s' "new_ref p n d (binder_last_id s + 1)" "nd\<lparr>nd_refs := next_addr s # nd_refs nd\<rparr>"]
        fresh get_ref_for_node_allocs [OF fresh(1)] by (simp add: new_ref_def)
  qed
qed

definition node_face :: "binder_node \<Rightarrow> nat option \<times> u64 \<times> u64" where
  "node_face x = (nd_proc x, nd_ptr x, nd_cookie x)"

lemma inc_node_faces:
  "binder_inc_node s n strong internal tgt = Some (ret, s') \<Longrightarrow> map_option node_face (nds s' m) = map_option node_face (nds s m)"
  by (auto simp: binder_inc_node_def upd_node_def list_add_tail_def bind_eq_Some_conv node_face_def
      split: if_split_asm option.split_asm)

lemma inc_ref_faces:
  "binder_inc_ref s r strong tgt = Some (ret, s') \<Longrightarrow> map_option node_face (nds s' m) = map_option node_face (nds s m)"
  by (auto simp: binder_inc_ref_def upd_ref_def bind_eq_Some_conv dest!: inc_node_faces [where m = m] split: if_split_asm)

text \<open>The process has a reference for a handle, with a count of the kind the object asks for.\<close>

definition holds_handle :: "binder_state \<Rightarrow> nat \<Rightarrow> flat_binder_object \<Rightarrow> bool" where
  "holds_handle s p f \<longleftrightarrow> (\<exists>r rf. binder_get_ref s p (fo_handle f) = Some (Some r) \<and> rfs s r = Some rf
     \<and> ref_count (strong_object f) rf > 0)"

text \<open>
  The object that the receiver finds, and what it stands for on both sides. A handle comes with a count: always when
  the sender serves the node, and for a strong handle also when the sender holds it strongly itself.
\<close>

definition carried :: "binder_state \<Rightarrow> nat \<Rightarrow> nat \<Rightarrow> addr \<Rightarrow> nat \<Rightarrow> flat_binder_object \<Rightarrow> bool" where
  "carried s p tp b off f \<longleftrightarrow> (\<exists>h f' n. get_buf s tp b = Some h \<and> get_flat_object (buf_data h) off = Some f'
     \<and> denotes s p f n \<and> denotes s tp f' n \<and> strong_object f' = strong_object f
     \<and> (fo_type f' = BINDER_TYPE_HANDLE \<or> fo_type f' = BINDER_TYPE_WEAK_HANDLE \<longrightarrow>
          fo_type f = BINDER_TYPE_BINDER \<or> fo_type f = BINDER_TYPE_WEAK_BINDER \<or> strong_object f \<and> holds_handle s p f \<longrightarrow>
          holds_handle s tp f'))"

lemma holds_handleI:
  assumes "store_ok s" and "procs s p \<noteq> None" and "rfs s r = Some rf" and "rf_proc rf = p" and "rf_desc rf = fo_handle f"
    and "ref_count (strong_object f) rf > 0"
  shows "holds_handle s p f"
proof -
  obtain pr where pr: "procs s p = Some pr" using assms(2) by auto
  have "binder_get_ref s p (fo_handle f) = Some (Some r)" using get_ref_iff(1) [OF assms(1) pr] assms(3-5) by blast
  then show ?thesis using assms(3,6) by (auto simp: holds_handle_def)
qed

lemma holds_handleD:
  assumes "store_ok s" and "procs s p \<noteq> None" and "holds_handle s p f"
  obtains r rf where "rfs s r = Some rf" and "rf_proc rf = p" and "rf_desc rf = fo_handle f" and "ref_count (strong_object f) rf > 0"
proof -
  obtain pr where pr: "procs s p = Some pr" using assms(2) by auto
  show ?thesis using assms(3) that unfolding holds_handle_def get_ref_iff(1) [OF assms(1) pr] by auto
qed

lemma count_added: "store_ok s \<Longrightarrow> rfs s r = Some rf \<Longrightarrow> ref_count strong (add_count strong 1 rf) > 0"
  using held_nonneg [of s r rf strong] by (cases strong) (simp_all add: ref_count_def add_count_def)

text \<open>Taking a strong count on a node that someone holds strongly does not fail.\<close>

lemma inc_ref_held:
  assumes "binder_inc_ref s r True tgt = Some (ret, s')" and "rfs s r = Some rf" and "nds s (rf_node rf) = Some nd"
    and "internal_strong_refs nd \<noteq> 0"
  shows "ret = 0"
  using assms by (auto simp: binder_inc_ref_def binder_inc_node_def upd_node_def bind_eq_Some_conv split: if_split_asm option.split_asm)

lemma held_strong_node:
  assumes "store_ok s" and "rfs s r = Some rf" and "rf_strong rf > 0" and "nds s (rf_node rf) = Some nd"
  shows "internal_strong_refs nd \<noteq> 0"
proof -
  have ok: "objects_ok (procs s) (nds s) (rfs s) (binder_dead_nodes s)" using assms(1) by (simp add: store_ok_def)
  have "r \<in> set (filter (is_strong (rfs s)) (nd_refs nd))"
    using objects_okD(1) [OF ok assms(2)] assms(2-4) by (auto simp: ref_ok_def is_strong_def)
  then have "filter (is_strong (rfs s)) (nd_refs nd) \<noteq> []" by (metis empty_iff empty_set)
  then show ?thesis using objects_okD(2) [OF ok assms(4)] by (simp add: node_ok_def)
qed

text \<open>Writing a handle into the object and counting it.\<close>

lemma write_handle:
  assumes "store_ok s" and "get_buf s tp b = Some h" and "get_flat_object (buf_data h) off = Some f"
    and "rfs s r = Some rf" and "rf_proc rf = tp" and "procs s tp \<noteq> None"
    and "\<And>L. tgt = Some L \<Longrightarrow> list_owner L < next_addr s"
    and "ty = BINDER_TYPE_HANDLE \<or> ty = BINDER_TYPE_WEAK_HANDLE" and below: "ref_count strong rf < INT_MAX"
  obtains s1 s2 s3 ret h' f' where "put_obj32 tp b off ty s = Some s1" and "put_obj32 tp b (off + 8) (rf_desc rf) s1 = Some s2"
    and "binder_inc_ref s2 r strong tgt = Some (ret, s3)" and "store_ok s3" and "get_buf s3 tp b = Some h'"
    and "get_flat_object (buf_data h') off = Some f'" and "fo_type f' = ty" and "denotes s3 tp f' (rf_node rf)" and "fo_handle f' = rf_desc rf"
    and "rfs s3 = (if ret = 0 then (rfs s)(r \<mapsto> add_count strong 1 rf) else rfs s)" and "tgt \<noteq> None \<longrightarrow> ret = 0"
    and "\<forall>m. map_option node_face (nds s3 m) = map_option node_face (nds s m)" and "dom (procs s3) = dom (procs s)"
proof -
  have len: "off + 24 \<le> length (buf_data h)"
    using assms(3) by (auto simp: get_flat_object_def get_u64_def get_range_def bind_eq_Some_conv split: if_splits)
  have "off + length (u32_bytes ty) \<le> length (buf_data h)" using len by simp
  then obtain s1 d1 where s1: "put_obj tp b off (u32_bytes ty) s = Some s1" "store_ok s1" "put_range (buf_data h) off (u32_bytes ty) = Some d1"
    "get_buf s1 tp b = Some (h\<lparr>buf_data := d1\<rparr>)" "nds s1 = nds s" "rfs s1 = rfs s" "next_addr s1 = next_addr s"
    "dom (procs s1) = dom (procs s)"
    by (rule put_obj_ok [OF assms(1,2)]) blast
  have "off + 8 + length (u32_bytes (rf_desc rf)) \<le> length (buf_data (h\<lparr>buf_data := d1\<rparr>))"
    using len put_range_length [OF s1(3)] by simp
  then obtain s2 d2 where s2: "put_obj tp b (off + 8) (u32_bytes (rf_desc rf)) s1 = Some s2" "store_ok s2"
    "put_range (buf_data (h\<lparr>buf_data := d1\<rparr>)) (off + 8) (u32_bytes (rf_desc rf)) = Some d2"
    "get_buf s2 tp b = Some (h\<lparr>buf_data := d1\<rparr>\<lparr>buf_data := d2\<rparr>)" "nds s2 = nds s1" "rfs s2 = rfs s1" "next_addr s2 = next_addr s1"
    "dom (procs s2) = dom (procs s1)"
    by (rule put_obj_ok [OF s1(2,4)]) blast
  have r2: "rfs s2 r = Some rf" and own: "\<And>L. tgt = Some L \<Longrightarrow> list_owner L < next_addr s2"
    using s2(6,7) s1(6,7) assms(4,7) by simp_all
  obtain ret s3 where s3: "binder_inc_ref s2 r strong tgt = Some (ret, s3)" "store_ok s3"
    "rfs s3 = (if ret = 0 then (rfs s2)(r \<mapsto> add_count strong 1 rf) else rfs s2)" "tgt \<noteq> None \<longrightarrow> ret = 0"
    by (rule inc_ref_ok [OF s2(2) r2 own below]) blast+
  obtain f' where f': "get_flat_object d2 off = Some f'" "fo_type f' = ty" "fo_handle f' = rf_desc rf"
    using handle_written [OF assms(3) s1(3)] s2(3) by auto
  have pd: "dom (procs s3) = dom (procs s)" using inc_ref_procs [OF s3(1)] s1(8) s2(8) by simp
  have "procs s3 tp \<noteq> None" using pd assms(6) by auto
  moreover have "\<exists>x y. rfs s3 x = Some y \<and> rf_proc y = tp \<and> rf_desc y = rf_desc rf \<and> rf_node y = rf_node rf"
    using s3(3) r2 assms(5) by (intro exI [of _ r]) auto
  ultimately have "denotes s3 tp f' (rf_node rf)" using denotes_handle [OF s3(2)] f'(2,3) assms(8) by auto
  moreover have "get_buf s3 tp b = Some (h\<lparr>buf_data := d2\<rparr>)"
    using s2(4) inc_ref_procs [OF s3(1)] by (simp add: get_buf_def)
  moreover have "map_option node_face (nds s3 m) = map_option node_face (nds s m)" for m
    using inc_ref_faces [OF s3(1)] s2(5) s1(5) by simp
  ultimately show ?thesis
    using that [of s1 s2 ret s3 "h\<lparr>buf_data := d2\<rparr>" f'] s1(1,6) s2(1,6) s3 f' pd by (simp add: put_obj32_eq)
qed

lemma translate_binder_ok:
  assumes "rb_ok k" and "store_ok s" and "procs s p \<noteq> None" and "procs s tp = Some tpr"
    and "length (inorder (refs_by_desc tpr)) < 2 ^ 32 - 1" and "t < next_addr s"
    and "get_buf s tp b = Some h" and "get_flat_object (buf_data h) off = Some f"
    and "fo_type f = BINDER_TYPE_BINDER \<or> fo_type f = BINDER_TYPE_WEAK_BINDER" and "refs_below s tp"
  shows "\<exists>ok s'. translate_binder k p t tp b off f s = Some (ok, s') \<and> store_ok s' \<and> (ok \<longrightarrow> carried s' p tp b off f)"
proof -
  obtain pr where pr: "procs s p = Some pr" using assms(3) by auto
  show ?thesis
  proof (cases rule: object_node_ok [OF assms(1-3), of f, case_names none node])
    case (none s1)
    then show ?thesis using pr assms(4) by (auto simp: translate_binder_def)
  next
    case (node n nd s1)
    let ?ty = "if fo_type f = BINDER_TYPE_BINDER then BINDER_TYPE_HANDLE else BINDER_TYPE_WEAK_HANDLE"
    have run: "translate_binder k p t tp b off f s =
       (if fo_cookie f \<noteq> nd_cookie nd \<or> security_binder_transfer_binder k (tsk (pr_alloc pr)) (tsk (pr_alloc tpr)) \<noteq> 0
        then Some (False, s1)
        else do {
            (r, s2) \<leftarrow> binder_get_ref_for_node k s1 tp n;
            (case r of None \<Rightarrow> Some (False, s2)
             | Some ref \<Rightarrow> do {
                 rf \<leftarrow> rfs s2 ref;
                 s3 \<leftarrow> put_obj32 tp b off ?ty s2;
                 s4 \<leftarrow> put_obj32 tp b (off + 8) (rf_desc rf) s3;
                 (_, s5) \<leftarrow> binder_inc_ref s4 ref (?ty = BINDER_TYPE_HANDLE) (Some (Thread_Todo t));
                 Some (True, s5) }) })"
      using pr assms(4) node(1,3) unfolding translate_binder_def Let_def by simp
    show ?thesis
    proof (cases "fo_cookie f \<noteq> nd_cookie nd \<or> security_binder_transfer_binder k (tsk (pr_alloc pr)) (tsk (pr_alloc tpr)) \<noteq> 0")
      case True
      then show ?thesis using run node(2) by auto
    next
      case False
      have tr: "map_option refs_by_desc (procs s1 tp) = Some (refs_by_desc tpr)" using node(8) [of tp] assms(4) by simp
      show ?thesis
      proof (cases rule: target_ref_ok [OF assms(1) node(2) tr assms(5) node(3), case_names nomem ref])
        case (nomem s2)
        then show ?thesis using run False by auto
      next
        case (ref r rf nd' s2)
        have al: "allocs s2 = allocs s" using ref(12) node(6) by simp
        have b2: "get_buf s2 tp b = Some h" using assms(7) by (simp add: get_buf_allocs al)
        have p2: "procs s2 q = None \<longleftrightarrow> procs s q = None" for q by (rule dom_procs_allocs [OF al])
        have tp2: "procs s2 tp \<noteq> None" using p2 assms(4) by simp
        have own: "\<And>L. Some (Thread_Todo t) = Some L \<Longrightarrow> list_owner L < next_addr s2" using assms(6) node(9) ref(14) by auto
        have ty: "?ty = BINDER_TYPE_HANDLE \<or> ?ty = BINDER_TYPE_WEAK_HANDLE" by simp
        have below: "ref_count (?ty = BINDER_TYPE_HANDLE) rf < INT_MAX"
          by (rule refs_below_count [OF assms(10) _ ref(4), where r = r]) (use ref(16) node(10) in simp)
        obtain s3 s4 s5 ret h' f' where w: "put_obj32 tp b off ?ty s2 = Some s3" "put_obj32 tp b (off + 8) (rf_desc rf) s3 = Some s4"
          "binder_inc_ref s4 r (?ty = BINDER_TYPE_HANDLE) (Some (Thread_Todo t)) = Some (ret, s5)" "store_ok s5"
          "get_buf s5 tp b = Some h'" "get_flat_object (buf_data h') off = Some f'" "fo_type f' = ?ty"
          "denotes s5 tp f' (rf_node rf)" "\<forall>m. map_option node_face (nds s5 m) = map_option node_face (nds s2 m)"
          "dom (procs s5) = dom (procs s2)" "rfs s5 = (if ret = 0 then (rfs s2)(r \<mapsto> add_count (?ty = BINDER_TYPE_HANDLE) 1 rf) else rfs s2)"
          "fo_handle f' = rf_desc rf" "Some (Thread_Todo t) \<noteq> None \<longrightarrow> ret = 0"
          by (rule write_handle [where tgt = "Some (Thread_Todo t)" and strong = "?ty = BINDER_TYPE_HANDLE",
                OF ref(2) b2 assms(8) ref(3,4) tp2 own ty below]) blast+
        have "map_option node_face (nds s5 n) = Some (Some p, fo_binder f, fo_cookie f)"
          using w(9) ref(6-9) node(4,5) False by (simp add: node_face_def)
        moreover have "procs s5 p \<noteq> None" using w(10) p2 [of p] assms(3) by auto
        ultimately have "denotes s5 p f n"
          using denotes_pointer [OF w(4) _ assms(9)] by (auto simp: node_face_def)
        moreover have "strong_object f' = strong_object f" using w(7) assms(9) by (auto simp: strong_object_def)
        moreover have "holds_handle s5 tp f'"
        proof (rule holds_handleI [OF w(4)])
          show "procs s5 tp \<noteq> None" using w(10) tp2 by auto
          show "rfs s5 r = Some (add_count (?ty = BINDER_TYPE_HANDLE) 1 rf)" using w(11,13) by simp
          have "strong_object f' = (?ty = BINDER_TYPE_HANDLE)" using w(7) by (auto simp: strong_object_def)
          then show "ref_count (strong_object f') (add_count (?ty = BINDER_TYPE_HANDLE) 1 rf) > 0"
            using count_added [OF ref(2,3)] by simp
        qed (use ref(4) w(12) in simp_all)
        ultimately have "carried s5 p tp b off f" using w(5,6,8) ref(5) by (auto simp: carried_def)
        then show ?thesis using run False ref(1,3) w(1-4) by auto
      qed
    qed
  qed
qed

text \<open>A handle on a node of the receiver becomes the receiver's own pointer and cookie again.\<close>

lemma write_pointer:
  assumes "store_ok s" and "get_buf s tp b = Some h" and "get_flat_object (buf_data h) off = Some f"
    and "nds s n = Some nd" and "nd_proc nd = Some tp" and "procs s tp \<noteq> None"
    and "ty = BINDER_TYPE_BINDER \<or> ty = BINDER_TYPE_WEAK_BINDER"
  obtains s1 s2 s3 s4 ret h' f' where "put_obj32 tp b off ty s = Some s1" and "put_obj64 tp b (off + 8) (nd_ptr nd) s1 = Some s2"
    and "put_obj64 tp b (off + 16) (nd_cookie nd) s2 = Some s3"
    and "binder_inc_node s3 n strong False None = Some (ret, s4)" and "store_ok s4" and "get_buf s4 tp b = Some h'"
    and "get_flat_object (buf_data h') off = Some f'" and "fo_type f' = ty" and "denotes s4 tp f' n"
    and "rfs s4 = rfs s" and "dom (procs s4) = dom (procs s)"
proof -
  have len: "off + 24 \<le> length (buf_data h)"
    using assms(3) by (auto simp: get_flat_object_def get_u64_def get_range_def bind_eq_Some_conv split: if_splits)
  have "off + length (u32_bytes ty) \<le> length (buf_data h)" using len by simp
  then obtain s1 d1 where s1: "put_obj tp b off (u32_bytes ty) s = Some s1" "store_ok s1" "put_range (buf_data h) off (u32_bytes ty) = Some d1"
    "get_buf s1 tp b = Some (h\<lparr>buf_data := d1\<rparr>)" "nds s1 = nds s" "rfs s1 = rfs s" "dom (procs s1) = dom (procs s)"
    by (rule put_obj_ok [OF assms(1,2)]) blast
  have l1: "off + 8 + length (u64_bytes (nd_ptr nd)) \<le> length (buf_data (h\<lparr>buf_data := d1\<rparr>))"
    using len put_range_length [OF s1(3)] by simp
  obtain s2 d2 where s2: "put_obj tp b (off + 8) (u64_bytes (nd_ptr nd)) s1 = Some s2" "store_ok s2"
    "put_range (buf_data (h\<lparr>buf_data := d1\<rparr>)) (off + 8) (u64_bytes (nd_ptr nd)) = Some d2"
    "get_buf s2 tp b = Some (h\<lparr>buf_data := d1\<rparr>\<lparr>buf_data := d2\<rparr>)" "nds s2 = nds s1" "rfs s2 = rfs s1" "dom (procs s2) = dom (procs s1)"
    by (rule put_obj_ok [OF s1(2,4) l1]) blast
  have l2: "off + 16 + length (u64_bytes (nd_cookie nd)) \<le> length (buf_data (h\<lparr>buf_data := d1\<rparr>\<lparr>buf_data := d2\<rparr>))"
    using len put_range_length [OF s1(3)] put_range_length [OF s2(3)] by simp
  obtain s3 d3 where s3: "put_obj tp b (off + 16) (u64_bytes (nd_cookie nd)) s2 = Some s3" "store_ok s3"
    "put_range (buf_data (h\<lparr>buf_data := d1\<rparr>\<lparr>buf_data := d2\<rparr>)) (off + 16) (u64_bytes (nd_cookie nd)) = Some d3"
    "get_buf s3 tp b = Some (h\<lparr>buf_data := d1\<rparr>\<lparr>buf_data := d2\<rparr>\<lparr>buf_data := d3\<rparr>)" "nds s3 = nds s2" "rfs s3 = rfs s2"
    "dom (procs s3) = dom (procs s2)"
    by (rule put_obj_ok [OF s2(2,4) l2]) blast
  have n3: "nds s3 n = Some nd" using s3(5) s2(5) s1(5) assms(4) by simp
  have own: "\<And>L. None = Some L \<Longrightarrow> list_owner L < next_addr s3" by simp
  obtain ret s4 where s4: "binder_inc_node s3 n strong False None = Some (ret, s4)" "store_ok s4" "rest_same s3 s4" "procs s4 = procs s3"
    by (rule local_inc_node_ok [OF s3(2) n3 own, where strong = strong]) blast
  have obj: "get_flat_object d3 off = Some (f\<lparr>fo_type := ty, fo_binder := nd_ptr nd, fo_cookie := nd_cookie nd\<rparr>)"
    using pointer_written [OF assms(3) s1(3)] s2(3) s3(3) by simp
  have pd: "dom (procs s4) = dom (procs s)" using s4(4) s3(7) s2(7) s1(7) by simp
  have "map_option node_face (nds s4 n) = Some (node_face nd)" using inc_node_faces [OF s4(1), of n] n3 by simp
  moreover have "procs s4 tp \<noteq> None" using pd assms(6) by auto
  ultimately have "denotes s4 tp (f\<lparr>fo_type := ty, fo_binder := nd_ptr nd, fo_cookie := nd_cookie nd\<rparr>) n"
    using denotes_pointer [OF s4(2)] assms(5,7) by (auto simp: node_face_def)
  moreover have "get_buf s4 tp b = Some (h\<lparr>buf_data := d3\<rparr>)" using s3(4) s4(4) by (simp add: get_buf_def)
  moreover have "rfs s4 = rfs s" using s4(3) s3(6) s2(6) s1(6) by (simp add: rest_same_def)
  ultimately show ?thesis
    using that [of s1 s2 s3 ret s4 "h\<lparr>buf_data := d3\<rparr>"] s1(1) s2(1) s3(1) s4 obj pd by (simp add: put_obj32_eq put_obj64_eq)
qed

lemma translate_handle_ok:
  assumes "rb_ok k" and "store_ok s" and "procs s p \<noteq> None" and "procs s tp = Some tpr"
    and "length (inorder (refs_by_desc tpr)) < 2 ^ 32 - 1"
    and "get_buf s tp b = Some h" and "get_flat_object (buf_data h) off = Some f"
    and "fo_type f = BINDER_TYPE_HANDLE \<or> fo_type f = BINDER_TYPE_WEAK_HANDLE" and "refs_below s tp"
  shows "\<exists>ok s'. translate_handle k p tp b off f s = Some (ok, s') \<and> store_ok s' \<and> (ok \<longrightarrow> carried s' p tp b off f)"
proof -
  obtain pr where pr: "procs s p = Some pr" using assms(3) by auto
  obtain res where res: "binder_get_ref s p (fo_handle f) = Some res" using get_ref_total [OF assms(2) pr] by blast
  let ?sec = "security_binder_transfer_binder k (tsk (pr_alloc pr)) (tsk (pr_alloc tpr))"
  show ?thesis
  proof (cases "res = None \<or> ?sec \<noteq> 0")
    case True
    then have "translate_handle k p tp b off f s = Some (False, s)"
      using res pr assms(4) unfolding translate_handle_def by (cases res) simp_all
    then show ?thesis using assms(2) by blast
  next
    case False
    then obtain r where r: "res = Some r" and sec: "?sec = 0" by auto
    then obtain rf where rf: "rfs s r = Some rf" "rf_proc rf = p" "rf_desc rf = fo_handle f"
      using res get_ref_iff(1) [OF assms(2) pr] by auto
    obtain nd where nd: "nds s (rf_node rf) = Some nd" by (rule store_ok_node [OF assms(2) rf(1)]) blast
    have den: "denotes s' p f (rf_node rf)" if "store_ok s'" "rfs s' r = Some x" "rf_proc x = p" "rf_desc x = rf_desc rf"
        "rf_node x = rf_node rf" "procs s' p \<noteq> None" for s' x
      using denotes_handle [OF that(1,6) assms(8)] that(2-5) rf(3) by auto
    show ?thesis
    proof (cases "nd_proc nd = Some tp")
      case home: True
      let ?ty = "if fo_type f = BINDER_TYPE_HANDLE then BINDER_TYPE_BINDER else BINDER_TYPE_WEAK_BINDER"
      have ty: "?ty = BINDER_TYPE_BINDER \<or> ?ty = BINDER_TYPE_WEAK_BINDER" and tpe: "procs s tp \<noteq> None" using assms(4) by simp_all
      obtain s1 s2 s3 s4 ret h' f' where w: "put_obj32 tp b off ?ty s = Some s1" "put_obj64 tp b (off + 8) (nd_ptr nd) s1 = Some s2"
        "put_obj64 tp b (off + 16) (nd_cookie nd) s2 = Some s3"
        "binder_inc_node s3 (rf_node rf) (?ty = BINDER_TYPE_BINDER) False None = Some (ret, s4)" "store_ok s4"
        "get_buf s4 tp b = Some h'" "get_flat_object (buf_data h') off = Some f'" "fo_type f' = ?ty"
        "denotes s4 tp f' (rf_node rf)" "rfs s4 = rfs s" "dom (procs s4) = dom (procs s)"
        by (rule write_pointer [OF assms(2,6,7) nd home tpe ty]) blast
      have "translate_handle k p tp b off f s = Some (True, s4)"
        using res r rf(1) pr assms(4) sec nd home w(1-4) unfolding translate_handle_def Let_def by simp
      moreover have "procs s4 p \<noteq> None" using w(11) assms(3) by auto
      then have "denotes s4 p f (rf_node rf)" using den [OF w(5)] w(10) rf by simp
      moreover have "strong_object f' = strong_object f" "\<not> (fo_type f' = BINDER_TYPE_HANDLE \<or> fo_type f' = BINDER_TYPE_WEAK_HANDLE)"
        using w(8) assms(8) by (auto simp: strong_object_def)
      ultimately show ?thesis using w(5-7,9) unfolding carried_def by blast
    next
      case away: False
      have run: "translate_handle k p tp b off f s = do {
            (nr, s1) \<leftarrow> binder_get_ref_for_node k s tp (rf_node rf);
            (case nr of None \<Rightarrow> Some (False, s1)
             | Some nref \<Rightarrow> do {
                 nrf \<leftarrow> rfs s1 nref;
                 s2 \<leftarrow> put_obj32 tp b (off + 8) (rf_desc nrf) s1;
                 (_, s3) \<leftarrow> binder_inc_ref s2 nref (fo_type f = BINDER_TYPE_HANDLE) None;
                 Some (True, s3) }) }"
        using res r rf(1) pr assms(4) sec nd away unfolding translate_handle_def by simp
      have tr: "map_option refs_by_desc (procs s tp) = Some (refs_by_desc tpr)" using assms(4) by simp
      show ?thesis
      proof (cases rule: target_ref_ok [OF assms(1,2) tr assms(5) nd, case_names nomem ref])
        case (nomem s1)
        then show ?thesis using run by auto
      next
        case (ref nr nrf nd' s1)
        have b1: "get_buf s1 tp b = Some h" using assms(6) by (simp add: get_buf_allocs ref(12))
        have p1: "procs s1 q = None \<longleftrightarrow> procs s q = None" for q by (rule dom_procs_allocs [OF ref(12)])
        have len: "off + 24 \<le> length (buf_data h)"
          using assms(7) by (auto simp: get_flat_object_def get_u64_def get_range_def bind_eq_Some_conv split: if_splits)
        have "off + 8 + length (u32_bytes (rf_desc nrf)) \<le> length (buf_data h)" using len by simp
        then obtain s2 d where s2: "put_obj tp b (off + 8) (u32_bytes (rf_desc nrf)) s1 = Some s2" "store_ok s2"
          "put_range (buf_data h) (off + 8) (u32_bytes (rf_desc nrf)) = Some d" "get_buf s2 tp b = Some (h\<lparr>buf_data := d\<rparr>)"
          "nds s2 = nds s1" "rfs s2 = rfs s1" "dom (procs s2) = dom (procs s1)"
          by (rule put_obj_ok [OF ref(2) b1]) blast
        have r2: "rfs s2 nr = Some nrf" "rfs s2 r = Some rf" using s2(6) ref(3,11) rf(1) by simp_all
        have own: "\<And>L. None = Some L \<Longrightarrow> list_owner L < next_addr s2" by simp
        let ?st = "fo_type f = BINDER_TYPE_HANDLE"
        have below: "ref_count ?st nrf < INT_MAX" by (rule refs_below_count [OF assms(9) ref(16,4)])
        obtain ret s3 where s3: "binder_inc_ref s2 nr ?st None = Some (ret, s3)" "store_ok s3"
          "rfs s3 = (if ret = 0 then (rfs s2)(nr \<mapsto> add_count ?st 1 nrf) else rfs s2)"
          by (rule inc_ref_ok [OF s2(2) r2(1) own below]) blast+
        have pd: "dom (procs s3) = dom (procs s1)" using inc_ref_procs [OF s3(1)] s2(7) by simp
        have pe: "procs s3 p \<noteq> None" "procs s3 tp \<noteq> None" using pd p1 assms(3,4) by (metis domIff option.distinct(1))+
        obtain f' where f': "get_flat_object d off = Some f'" "fo_type f' = fo_type f" "fo_handle f' = rf_desc nrf"
          using handle_only_written [OF assms(7) s2(3)] by auto
        have kept: "\<exists>y. rfs s3 x = Some y \<and> rf_proc y = rf_proc z \<and> rf_desc y = rf_desc z \<and> rf_node y = rf_node z"
          if "rfs s2 x = Some z" for x z using that s3(3) r2(1) by (cases "x = nr") auto
        have "denotes s3 p f (rf_node rf)" using kept [OF r2(2)] den [OF s3(2)] rf pe(1) by auto
        moreover have "denotes s3 tp f' (rf_node rf)"
          using kept [OF r2(1)] denotes_handle [OF s3(2) pe(2)] f'(2,3) assms(8) ref(4,5) by auto
        moreover have "strong_object f' = strong_object f" using f'(2) by (simp add: strong_object_def)
        moreover have "holds_handle s3 tp f'" if hold: "strong_object f" "holds_handle s3 p f"
        proof -
          have st: ?st using hold(1) assms(8) by (auto simp: strong_object_def)
          obtain q qf where q: "rfs s3 q = Some qf" "rf_proc qf = p" "rf_desc qf = fo_handle f" "ref_count True qf > 0"
            using holds_handleD [OF s3(2) pe(1) hold(2)] hold(1) by metis
          have "rfs s3 nr = Some (add_count True 1 nrf)"
          proof (cases "ret = 0")
            case True
            then show ?thesis using s3(3) st by simp
          next
            case False
            then have "rfs s2 q = Some qf" using s3(3) q(1) by simp
            moreover have "q = r"
            proof -
              obtain pr2 where pr2: "procs s2 p = Some pr2" using s2(7) p1 [of p] assms(3) by (metis domIff option.exhaust)
              have "binder_get_ref s2 p (fo_handle f) = Some (Some q)" "binder_get_ref s2 p (fo_handle f) = Some (Some r)"
                using get_ref_iff(1) [OF s2(2) pr2] calculation q(2,3) r2(2) rf(2,3) by blast+
              then show ?thesis by simp
            qed
            moreover obtain nd2 where nd2: "nds s2 (rf_node rf) = Some nd2" by (rule store_ok_node [OF s2(2) r2(2)]) blast
            ultimately have "internal_strong_refs nd2 \<noteq> 0"
              using held_strong_node [OF s2(2) _ _ nd2, of r] r2(2) q(4) by (simp add: ref_count_def)
            then have "ret = 0" using inc_ref_held [of s2 nr None ret s3 nrf nd2] s3(1) st r2(1) nd2 ref(5) by simp
            then show ?thesis using False by simp
          qed
          then show ?thesis
            by (rule holds_handleI [OF s3(2) pe(2)])
              (use ref(4) f'(2,3) st count_added [OF s2(2) r2(1), of True] in \<open>simp_all add: strong_object_def\<close>)
        qed
        moreover have "get_buf s3 tp b = Some (h\<lparr>buf_data := d\<rparr>)" using s2(4) inc_ref_procs [OF s3(1)] by (simp add: get_buf_def)
        ultimately have "carried s3 p tp b off f" using f'(1) assms(8) unfolding carried_def by auto
        then show ?thesis using run ref(1,3) s2(1) s3(1,2) by (auto simp: put_obj32_eq)
      qed
    qed
  qed
qed

end
