(* ===== verification/Binder_Txn_Props.thy ===== *)
theory Binder_Txn_Props
  imports Binder_Objects
begin

text \<open>
  What holds of transactions: the formats on the wire, the meaning of the objects a message carries, the chain of
  callers that a failure travels up, and the choice of the thread that a call goes to.
\<close>

section \<open>Objects\<close>

text \<open>The check on offsets keeps the object inside the data.\<close>

lemma good_offset:
  assumes "\<not> bad_offset n off" and "n < 2 ^ 64"
  shows "unat off + 24 \<le> n"
proof -
  have n: "24 \<le> n" using assms(1) by (simp add: bad_offset_def)
  have "(n + 2 ^ 64 - 24) mod 2 ^ 64 = n - 24"
    using n assms(2) by (metis Nat.add_diff_assoc2 mod_add_self2 mod_less less_imp_diff_less)
  then show ?thesis using assms(1) n by (auto simp: bad_offset_def)
qed

text \<open>
  A descriptor that arrived: descriptors were allowed, the sender had the file open under the number it sent, and the
  number that the receiver finds in its buffer is the same file in the receiver's table, the only entry that changed.
\<close>

definition carried_fd ::
  "binder_state \<Rightarrow> binder_state \<Rightarrow> nat \<Rightarrow> txn_target \<Rightarrow> addr \<Rightarrow> nat \<Rightarrow> flat_binder_object \<Rightarrow> bool" where
  "carried_fd s s' files x b off f \<longleftrightarrow> fds_allowed x s = Some True
     \<and> (\<exists>file tpr tfiles h f'. fds s files (fo_handle f) = Some file
          \<and> procs s (x_proc x) = Some tpr \<and> pr_files tpr = Some tfiles
          \<and> get_buf s' (x_proc x) b = Some h \<and> get_flat_object (buf_data h) off = Some f' \<and> fo_type f' = fo_type f
          \<and> fds s' = (fds s)(tfiles := (fds s tfiles)(fo_handle f' \<mapsto> file)))"

lemma fd_is_no_reference:
  "BINDER_TYPE_FD \<noteq> BINDER_TYPE_BINDER" "BINDER_TYPE_FD \<noteq> BINDER_TYPE_WEAK_BINDER"
  "BINDER_TYPE_FD \<noteq> BINDER_TYPE_HANDLE" "BINDER_TYPE_FD \<noteq> BINDER_TYPE_WEAK_HANDLE"
  by (simp_all add: type_codes)

lemma put_obj_fds: "put_obj p b off bs s = Some s' \<Longrightarrow> fds s' = fds s"
  by (auto simp: put_obj_def upd_buf_def upd_proc_def bind_eq_Some_conv)

lemma unused_fd_files: "task_get_unused_fd_flags k s p = Some fd \<Longrightarrow> 0 \<le> fd \<Longrightarrow> procs s p = Some pr \<Longrightarrow> pr_files pr \<noteq> None"
  by (cases "pr_files pr") (auto simp: task_get_unused_fd_flags_def)

lemma translate_fd_ok:
  assumes "store_ok s" and "procs s p \<noteq> None" and "procs s (x_proc x) \<noteq> None" and "fds_allowed x s \<noteq> None"
    and "get_buf s (x_proc x) b = Some h" and "get_flat_object (buf_data h) off = Some f"
  shows "\<exists>ok s'. translate_fd k c p x b off f s = Some (ok, s') \<and> store_ok s' \<and> (ok \<longrightarrow> carried_fd s s' (c_files c) x b off f)"
proof -
  have len: "off + 24 \<le> length (buf_data h)"
    using assms(6) by (auto simp: get_flat_object_def get_u64_def get_range_def bind_eq_Some_conv split: if_splits)
  obtain pr tpr al where pr: "procs s p = Some pr" "procs s (x_proc x) = Some tpr" "fds_allowed x s = Some al"
    using assms(2-4) by auto
  have fds: "\<exists>s1. task_fd_install s (x_proc x) fd g = Some s1 \<and> store_ok s1 \<and> get_buf s1 (x_proc x) b = Some h
      \<and> (\<forall>fl. pr_files tpr = Some fl \<longrightarrow> fds s1 = (fds s)(fl := (fds s fl)(fd \<mapsto> g)))" for fd g
  proof -
    have "store_ok (s\<lparr>fds := y\<rparr>)" for y
      using assms(1) deaths_ok_cong [of "s\<lparr>fds := y\<rparr>" s] by (simp add: store_ok_def queue_ok_def fresh_ok_def lists_ok_def)
    then show ?thesis
      using pr(2) assms(1,5) by (cases "pr_files tpr") (simp_all add: task_fd_install_def get_buf_def)
  qed
  have put: "\<exists>s2 h2 f'. put_obj32 (x_proc x) b (off + 8) w s1 = Some s2 \<and> store_ok s2 \<and> fds s2 = fds s1
      \<and> get_buf s2 (x_proc x) b = Some h2 \<and> get_flat_object (buf_data h2) off = Some f' \<and> fo_type f' = fo_type f \<and> fo_handle f' = w"
    if s1: "store_ok s1" "get_buf s1 (x_proc x) b = Some h" for s1 w
  proof -
    have "off + 8 + length (u32_bytes w) \<le> length (buf_data h)" using len by simp
    then obtain s2 d where s2: "put_obj (x_proc x) b (off + 8) (u32_bytes w) s1 = Some s2" "store_ok s2"
      "put_range (buf_data h) (off + 8) (u32_bytes w) = Some d" "get_buf s2 (x_proc x) b = Some (h\<lparr>buf_data := d\<rparr>)"
      by (rule put_obj_ok [OF s1]) blast
    obtain f' where "get_flat_object d off = Some f'" "fo_type f' = fo_type f" "fo_handle f' = w"
      using handle_only_written [OF assms(6) s2(3)] by blast
    then show ?thesis using s2 put_obj_fds [OF s2(1)] by (auto simp: put_obj32_eq)
  qed
  show ?thesis
  proof (cases "\<not> al \<or> fds s (c_files c) (fo_handle f) = None")
    case True
    then have "translate_fd k c p x b off f s = Some (False, s)"
      using pr unfolding translate_fd_def by (cases al) simp_all
    then show ?thesis using assms(1) by blast
  next
    case False
    then obtain g where g: "al" "fds s (c_files c) (fo_handle f) = Some g" by auto
    obtain fd where fd: "task_get_unused_fd_flags k s (x_proc x) = Some fd" using pr(2) by (simp add: task_get_unused_fd_flags_def)
    obtain s1 where s1: "task_fd_install s (x_proc x) (word_of_int fd) g = Some s1" "store_ok s1" "get_buf s1 (x_proc x) b = Some h"
      "\<forall>fl. pr_files tpr = Some fl \<longrightarrow> fds s1 = (fds s)(fl := (fds s fl)(word_of_int fd \<mapsto> g))"
      using fds by blast
    obtain s2 h2 f' where s2: "put_obj32 (x_proc x) b (off + 8) (word_of_int fd) s1 = Some s2" "store_ok s2" "fds s2 = fds s1"
      "get_buf s2 (x_proc x) b = Some h2" "get_flat_object (buf_data h2) off = Some f'" "fo_type f' = fo_type f" "fo_handle f' = word_of_int fd"
      using put [OF s1(2,3)] by blast
    have "carried_fd s s2 (c_files c) x b off f" if "0 \<le> fd"
      using unused_fd_files [OF fd that pr(2)] pr g s1(4) s2(3-7) unfolding carried_fd_def by fastforce
    moreover have "translate_fd k c p x b off f s =
        (if security_binder_transfer_file k (tsk (pr_alloc pr)) (tsk (pr_alloc tpr)) g < 0 \<or> fd < 0 then Some (False, s)
         else Some (True, s2))"
      using pr g fd s1(1) s2(1) unfolding translate_fd_def by simp
    ultimately show ?thesis using assms(1) s2(2) by (auto simp: not_less)
  qed
qed

section \<open>Callers\<close>

text \<open>
  The transactions that a failed reply passes on its way up: \<open>fails_to s t ts r\<close> says that from \<open>t\<close> on the
  transactions \<open>ts\<close> have lost their sender, and that \<open>r\<close>, if any, is the first one that still has one.
\<close>

inductive fails_to :: "(nat \<Rightarrow> binder_transaction option) \<Rightarrow> nat \<Rightarrow> nat list \<Rightarrow> nat option \<Rightarrow> bool" for T where
  live: "T t = Some tx \<Longrightarrow> tx_from tx \<noteq> None \<Longrightarrow> fails_to T t [] (Some t)"
| root: "T t = Some tx \<Longrightarrow> tx_from tx = None \<Longrightarrow> from_parent tx = None \<Longrightarrow> fails_to T t [t] None"
| up: "T t = Some tx \<Longrightarrow> tx_from tx = None \<Longrightarrow> from_parent tx = Some t' \<Longrightarrow> fails_to T t' ts r \<Longrightarrow>
       t \<notin> set ts \<Longrightarrow> r \<noteq> Some t \<Longrightarrow> fails_to T t (t # ts) r"

lemma fails_to_cong: "fails_to T t ts r \<Longrightarrow> (\<And>u. u \<in> set ts \<or> r = Some u \<Longrightarrow> T' u = T u) \<Longrightarrow> fails_to T' t ts r"
  by (induction rule: fails_to.induct) (auto intro: fails_to.intros)

text \<open>The buffer of every transaction exists.\<close>

definition buffers_there :: "binder_state \<Rightarrow> bool" where
  "buffers_there s \<longleftrightarrow> (\<forall>t tx p b. txns s t = Some tx \<and> tx_buffer tx = Some (p, b) \<longrightarrow> get_buf s p b \<noteq> None)"

lemma upd_buf_ok:
  assumes "get_buf s p b \<noteq> None"
  obtains s' where "upd_buf p b f s = Some s'" and "txns s' = txns s" and "thrs s' = thrs s" and "woken s' = woken s"
    and "\<forall>q x. get_buf s' q x = None \<longleftrightarrow> get_buf s q x = None"
proof -
  obtain pr h where pr: "procs s p = Some pr" "bufs (pr_alloc pr) b = Some h"
    using assms by (auto simp: get_buf_def bind_eq_Some_conv)
  let ?s = "s\<lparr>procs := (procs s)(p \<mapsto> pr\<lparr>pr_alloc := upd_buffer b f (pr_alloc pr)\<rparr>)\<rparr>"
  have "upd_buf p b f s = Some ?s" using pr by (simp add: upd_buf_def get_buf_def upd_proc_def)
  then show ?thesis by (rule that) (use pr in \<open>auto simp: get_buf_def upd_buffer_def\<close>)
qed

lemma pop_transaction_ok:
  assumes "txns s t = Some tx" and "buffers_there s"
    and "\<And>tt. tgt = Some tt \<Longrightarrow> \<exists>th. thrs s tt = Some th \<and> transaction_stack th = Some t \<and> tx_from tx = Some tt"
  obtains s' where "binder_pop_transaction tgt t s = Some s'" and "txns s' = (txns s)(t := None)" and "buffers_there s'"
    and "woken s' = woken s"
    and "thrs s' = (case tgt of None \<Rightarrow> thrs s
           | Some tt \<Rightarrow> (thrs s)(tt := map_option (\<lambda>x. x\<lparr>transaction_stack := from_parent tx\<rparr>) (thrs s tt)))"
proof -
  let ?H = "case tgt of None \<Rightarrow> thrs s | Some tt \<Rightarrow> (thrs s)(tt := map_option (\<lambda>x. x\<lparr>transaction_stack := from_parent tx\<rparr>) (thrs s tt))"
  let ?s1 = "s\<lparr>thrs := ?H\<rparr>"
  have s1: "(case tgt of None \<Rightarrow> Some s
        | Some tt \<Rightarrow> do { th \<leftarrow> thrs s tt;
            if transaction_stack th \<noteq> Some t \<or> tx_from tx \<noteq> Some tt then None
            else upd_thread tt (\<lambda>x. x\<lparr>transaction_stack := from_parent tx\<rparr>) s }) = Some ?s1"
    using assms(3) by (cases tgt) (auto simp: upd_thread_def)
  show ?thesis
  proof (cases "tx_buffer tx")
    case None
    show ?thesis
      by (rule that [of "?s1\<lparr>txns := (txns s)(t := None)\<rparr>"])
        (use s1 None assms(1,2) in \<open>auto simp: binder_pop_transaction_def buffers_there_def get_buf_def\<close>)
  next
    case (Some pb)
    then obtain p b where pb: "tx_buffer tx = Some (p, b)" by (cases pb) auto
    then have "get_buf ?s1 p b \<noteq> None" using assms(1,2) by (auto simp: buffers_there_def get_buf_def)
    then obtain s2 where s2: "upd_buf p b (\<lambda>h. h\<lparr>buf_transaction := None\<rparr>) ?s1 = Some s2" "txns s2 = txns ?s1" "thrs s2 = thrs ?s1"
      "woken s2 = woken ?s1" "\<forall>q x. get_buf s2 q x = None \<longleftrightarrow> get_buf ?s1 q x = None"
      by (rule upd_buf_ok)
    have gb: "get_buf (s2\<lparr>txns := y\<rparr>) q x = get_buf s2 q x" "get_buf ?s1 q x = get_buf s q x" for y q x by (simp_all add: get_buf_def)
    show ?thesis
    proof (rule that [of "s2\<lparr>txns := (txns s)(t := None)\<rparr>"])
      show "binder_pop_transaction tgt t s = Some (s2\<lparr>txns := (txns s)(t := None)\<rparr>)"
        using s1 pb assms(1) s2(1,2) by (simp add: binder_pop_transaction_def)
      show "buffers_there (s2\<lparr>txns := (txns s)(t := None)\<rparr>)"
        using assms(2) s2(5) unfolding buffers_there_def gb by (auto split: if_splits)
    qed (use s2 in simp_all)
  qed
qed

text \<open>Nothing on the way allocates a transaction.\<close>

lemma pop_transaction_txns: "binder_pop_transaction tgt t s = Some s' \<Longrightarrow> txns s' = (txns s)(t := None)"
  by (auto simp: binder_pop_transaction_def upd_thread_def upd_buf_def upd_proc_def bind_eq_Some_conv
      split: option.split_asm if_split_asm)

lemma failed_reply_keeps_free: "send_failed_reply_from t e s = Some s' \<Longrightarrow> txns s u = None \<longrightarrow> txns s' u = None"
proof (rule send_failed_reply_from.raw_induct [where P = "\<lambda>t e s s'. txns s u = None \<longrightarrow> txns s' u = None"], goal_cases)
  case (1 f t e s s')
  from 1(3) obtain tx where tx: "txns s t = Some tx" by (auto split: option.split_asm)
  show ?case
  proof (cases "tx_from tx")
    case None
    then obtain s1 where s1: "binder_pop_transaction None t s = Some s1"
      "(case from_parent tx of None \<Rightarrow> Some s1 | Some t' \<Rightarrow> f t' e s1) = Some s'"
      using 1(3) tx by (auto simp: bind_eq_Some_conv)
    show ?thesis
    proof (cases "from_parent tx")
      case None
      then show ?thesis using s1 by (auto dest: pop_transaction_txns)
    next
      case (Some t')
      then show ?thesis using 1(2) [of t' e s1 s'] s1 pop_transaction_txns [OF s1(1)] by simp
    qed
  next
    case (Some tt)
    then show ?thesis
      using 1(3) tx by (auto simp: bind_eq_Some_conv upd_thread_def wake_up_def split: if_split_asm dest!: pop_transaction_txns)
  qed
qed assumption

lemma failed_reply_frees: "send_failed_reply_from t e s = Some s' \<Longrightarrow> txns s u = None \<Longrightarrow> txns s' u = None"
  using failed_reply_keeps_free by blast

text \<open>What a failed reply does at the transaction it ends with.\<close>

definition told :: "u32 \<Rightarrow> binder_transaction \<Rightarrow> binder_thread \<Rightarrow> binder_thread" where
  "told e tx th = (if return_error (stash_error th) = BR_OK
     then (stash_error th)\<lparr>transaction_stack := from_parent tx, return_error := e\<rparr> else stash_error th)"

lemma failed_reply_end:
  assumes "txns s t = Some tx" and "tx_from tx = Some tt" and "thrs s tt = Some th" and "transaction_stack th = Some t"
    and "buffers_there s"
  shows "\<exists>s'. send_failed_reply_from t e s = Some s' \<and> thrs s' = (thrs s)(tt \<mapsto> told e tx th)
    \<and> txns s' = (if return_error (stash_error th) = BR_OK then (txns s)(t := None) else txns s)
    \<and> (return_error (stash_error th) = BR_OK \<longrightarrow> woken s' = Thread_Wait tt # woken s)"
proof -
  let ?s1 = "s\<lparr>thrs := (thrs s)(tt \<mapsto> stash_error th)\<rparr>"
  have st: "transaction_stack (stash_error th) = Some t" using assms(4) by (simp add: stash_error_def)
  have s1: "upd_thread tt stash_error s = Some ?s1" using assms(3) by (simp add: upd_thread_def)
  show ?thesis
  proof (cases "return_error (stash_error th) = BR_OK")
    case False
    then show ?thesis using assms(1,2) s1 by (subst send_failed_reply_from.simps) (simp add: told_def)
  next
    case True
    have t1: "txns ?s1 t = Some tx" and b1: "buffers_there ?s1" using assms(1,5) by (simp_all add: buffers_there_def get_buf_def)
    obtain s2 where s2: "binder_pop_transaction (Some tt) t ?s1 = Some s2" "txns s2 = (txns ?s1)(t := None)" "woken s2 = woken ?s1"
      "thrs s2 = (thrs ?s1)(tt := map_option (\<lambda>x. x\<lparr>transaction_stack := from_parent tx\<rparr>) (thrs ?s1 tt))"
      by (rule pop_transaction_ok [OF t1 b1, of "Some tt"]) (use assms(2) st in auto)
    have "upd_thread tt (\<lambda>x. x\<lparr>return_error := e\<rparr>) s2 = Some (s2\<lparr>thrs := (thrs s)(tt \<mapsto> told e tx th)\<rparr>)"
      using s2(4) True by (simp add: upd_thread_def told_def)
    then have "send_failed_reply_from t e s = Some (wake_up (Thread_Wait tt) (s2\<lparr>thrs := (thrs s)(tt \<mapsto> told e tx th)\<rparr>))"
      using assms(1,2) s1 s2(1) True by (subst send_failed_reply_from.simps) simp
    then show ?thesis using True s2(2,3) by (simp add: wake_up_def)
  qed
qed

section \<open>Properties\<close>

text \<open>
  C5. Translating an object of a message never faults and keeps the invariant of nodes and references. When it
  succeeds, the object the receiver finds in its buffer denotes, read by the receiver, the same node as the
  original object does, read by the sender: a pointer becomes a handle, a handle on the receiver's own node becomes
  the pointer and the cookie of that node, and strong objects stay strong. A handle comes with a count when the sender serves the
  node, or holds the node strongly and sends it strongly. A file descriptor becomes a descriptor of the receiver for the
  same file, and no other entry of a descriptor table changes. The counts of the receiver's references must have room for one more.
\<close>

theorem objects_keep_meaning:
  assumes "rb_ok k" and "store_ok s" and "procs s p \<noteq> None" and "procs s (x_proc x) = Some tpr"
    and "length (inorder (refs_by_desc tpr)) < 2 ^ 32 - 1" and "t < next_addr s" and "fds_allowed x s \<noteq> None"
    and "get_buf s (x_proc x) b = Some h" and "buf_data_size h \<le> length (buf_data h)" and "buf_data_size h < 2 ^ 64"
    and "refs_below s (x_proc x)"
  shows "\<exists>ok s'. translate_object k c p t x b off s = Some (ok, s') \<and> store_ok s'
    \<and> (ok \<longrightarrow> (\<exists>f. get_flat_object (buf_data h) (unat off) = Some f
         \<and> (if fo_type f = BINDER_TYPE_FD then carried_fd s s' (c_files c) x b (unat off) f
            else carried s' p (x_proc x) b (unat off) f)))"
proof (cases "bad_offset (buf_data_size h) off")
  case True
  then have "translate_object k c p t x b off s = Some (False, s)" using assms(8) by (simp add: translate_object_def)
  then show ?thesis using assms(2) by blast
next
  case False
  have len: "unat off + 24 \<le> length (buf_data h)" using good_offset [OF False assms(10)] assms(9) by simp
  obtain f where f: "get_flat_object (buf_data h) (unat off) = Some f" using get_flat_object_total [OF len] by blast
  have tp: "procs s (x_proc x) \<noteq> None" using assms(4) by simp
  note pointer = translate_binder_ok [OF assms(1-6,8) f _ assms(11)] and handle = translate_handle_ok [OF assms(1-5,8) f _ assms(11)]
    and fd = translate_fd_ok [OF assms(2,3) tp assms(7,8) f, of k c]
  have run: "translate_object k c p t x b off s =
     (if fo_type f = BINDER_TYPE_BINDER \<or> fo_type f = BINDER_TYPE_WEAK_BINDER
      then translate_binder k p t (x_proc x) b (unat off) f s
      else if fo_type f = BINDER_TYPE_HANDLE \<or> fo_type f = BINDER_TYPE_WEAK_HANDLE
      then translate_handle k p (x_proc x) b (unat off) f s
      else if fo_type f = BINDER_TYPE_FD then translate_fd k c p x b (unat off) f s
      else Some (False, s))"
    using assms(8) False f unfolding translate_object_def by simp
  show ?thesis
  proof (cases "fo_type f = BINDER_TYPE_BINDER \<or> fo_type f = BINDER_TYPE_WEAK_BINDER")
    case True
    then show ?thesis using pointer run f fd_is_no_reference by auto
  next
    case np: False
    show ?thesis
    proof (cases "fo_type f = BINDER_TYPE_HANDLE \<or> fo_type f = BINDER_TYPE_WEAK_HANDLE")
      case True
      then show ?thesis using handle run np f fd_is_no_reference by auto
    next
      case False
      then show ?thesis using np run f fd assms(2) by (cases "fo_type f = BINDER_TYPE_FD") auto
    qed
  qed
qed

text \<open>Process 1 of the small world sends its node to process 2, whose buffer at \<open>0x1000\<close> holds the object.\<close>

definition posted_buffer :: binder_buffer where
  "posted_buffer = fresh_buffer\<lparr>buf_data_size := 24,
     buf_data := u32_bytes BINDER_TYPE_BINDER @ u32_bytes 0 @ u64_bytes 0x10 @ u64_bytes 0x20\<rparr>"

definition posted :: binder_state where
  "posted = one_node\<lparr>procs := (procs one_node)(2 \<mapsto> (new_proc (plain_caller 20) 0)
     \<lparr>pr_alloc := (pr_alloc (new_proc (plain_caller 20) 0))\<lparr>bufs := [0x1000 \<mapsto> posted_buffer]\<rparr>\<rparr>)\<rparr>"

lemma posted_object:
  "get_flat_object (buf_data posted_buffer) 0 = Some \<lparr>fo_type = BINDER_TYPE_BINDER, fo_flags = 0, fo_binder = 0x10, fo_cookie = 0x20\<rparr>"
  by (simp add: get_flat_object_def get_u32_def get_u64_def get_range_def posted_buffer_def)

lemma posted_fields:
  "procs posted = [1 \<mapsto> (new_proc (plain_caller 10) 0)\<lparr>pr_nodes := Node Leaf 3 Leaf\<rparr>, 2 \<mapsto> (new_proc (plain_caller 20) 0)
     \<lparr>pr_alloc := (pr_alloc (new_proc (plain_caller 20) 0))\<lparr>bufs := [0x1000 \<mapsto> posted_buffer]\<rparr>\<rparr>]"
  "next_addr posted = 4" "nds posted = [3 \<mapsto> new_node 1 0x10 0x20 1]" "rfs posted = Map.empty" "binder_context_mgr_node posted = None"
  by (simp_all add: posted_def one_node_fields)

lemma posted_run:
  "map_option fst (translate_object plain_driver (plain_caller 10) 1 0 \<lparr>x_proc = 2, x_thread = None, x_node = Some 3, x_in_reply = None\<rparr>
       0x1000 0 posted) = Some True"
  apply (simp add: translate_object_def get_buf_def posted_fields bad_offset_def posted_object)
  apply (simp add: posted_buffer_def posted_object [unfolded posted_buffer_def, simplified])
  apply (simp add: translate_binder_def object_node_def binder_get_node_def posted_fields Let_def)
  apply (simp add: new_node_def plain_driver_def binder_get_ref_for_node_def posted_fields kzalloc_def new_proc_def upd_node_def)
  apply (simp add: put_obj32_def get_buf_def put_u32_def put_range_def upd_buf_def upd_proc_def posted_buffer_def upd_buffer_def)
  apply (simp add: binder_inc_ref_def binder_inc_node_def upd_node_def list_add_tail_def upd_ref_def new_ref_def)
  by (rule exI [of _ True], rule TrueI)

theorem objects_keep_meaning_witness:
  "\<exists>ok s'. translate_object plain_driver (plain_caller 10) 1 0 \<lparr>x_proc = 2, x_thread = None, x_node = Some 3, x_in_reply = None\<rparr>
       0x1000 0 posted = Some (ok, s') \<and> store_ok s'
    \<and> ok \<and> (\<exists>f. get_flat_object (buf_data posted_buffer) 0 = Some f \<and> fo_type f = BINDER_TYPE_BINDER
         \<and> carried s' 1 2 0x1000 0 f)"
proof -
  let ?x = "\<lparr>x_proc = 2, x_thread = None, x_node = Some 3, x_in_reply = None\<rparr>"
  let ?pr = "(new_proc (plain_caller 20) 0)\<lparr>pr_alloc := (pr_alloc (new_proc (plain_caller 20) 0))\<lparr>bufs := [0x1000 \<mapsto> posted_buffer]\<rparr>\<rparr>"
  have "store_ok posted" unfolding posted_def by (rule store_ok_alloc [OF one_node_ok]) (simp add: one_node_fields)
  moreover have "procs posted 1 \<noteq> None" and "procs posted (x_proc ?x) = Some ?pr"
    by (simp_all add: posted_def one_node_fields)
  moreover have "length (inorder (refs_by_desc ?pr)) < 2 ^ 32 - 1" by (simp add: new_proc_def)
  moreover have "0 < next_addr posted" and "fds_allowed ?x posted \<noteq> None" and "get_buf posted (x_proc ?x) 0x1000 = Some posted_buffer"
    by (simp_all add: posted_def one_node_fields fds_allowed_def get_buf_def)
  moreover have "refs_below posted (x_proc ?x)" by (simp add: refs_below_def posted_def one_node_fields)
  moreover have "buf_data_size posted_buffer \<le> length (buf_data posted_buffer)" and "buf_data_size posted_buffer < 2 ^ 64"
    by (simp_all add: posted_buffer_def)
  ultimately obtain ok s' f where "translate_object plain_driver (plain_caller 10) 1 0 ?x 0x1000 0 posted = Some (ok, s')" "store_ok s'"
    "ok \<longrightarrow> get_flat_object (buf_data posted_buffer) 0 = Some f
       \<and> (if fo_type f = BINDER_TYPE_FD then carried_fd posted s' (c_files (plain_caller 10)) ?x 0x1000 0 f else carried s' 1 2 0x1000 0 f)"
    using objects_keep_meaning [OF plain_driver_ok, of posted 1 ?x ?pr 0 "0x1000" posted_buffer "plain_caller 10" 0] by fastforce
  moreover from this have ok using posted_run by simp
  ultimately show ?thesis using posted_object fd_is_no_reference(1) by auto
qed

text \<open>
  C6. A failed reply always arrives: for a chain of callers that ends, \<open>binder_send_failed_reply\<close> returns. It frees every
  transaction on the way that has lost its sender, and gives the error to the first thread up the chain that is
  still there, takes the transaction off its stack and wakes it; only a thread that holds two
  undelivered errors already keeps its state. No other thread changes.
\<close>

theorem failed_reply_arrives:
  assumes "fails_to (txns s) t ts r" and "buffers_there s"
    and "\<And>u. r = Some u \<Longrightarrow> \<exists>tx tt th. txns s u = Some tx \<and> tx_from tx = Some tt \<and> thrs s tt = Some th \<and> transaction_stack th = Some u"
  shows "\<exists>s'. send_failed_reply_from t e s = Some s' \<and> (\<forall>u\<in>set ts. txns s' u = None)
    \<and> (case r of None \<Rightarrow> thrs s' = thrs s
       | Some u \<Rightarrow> \<exists>tx tt th. txns s u = Some tx \<and> tx_from tx = Some tt \<and> thrs s tt = Some th
           \<and> thrs s' = (thrs s)(tt \<mapsto> told e tx th)
           \<and> (return_error th = BR_OK \<or> return_error2 th = BR_OK \<longrightarrow> return_error (told e tx th) = e
                \<and> transaction_stack (told e tx th) = from_parent tx \<and> txns s' u = None \<and> hd (woken s') = Thread_Wait tt))"
  using assms
proof (induction ts arbitrary: s t)
  case Nil
  then obtain tx where "r = Some t" by (auto elim: fails_to.cases)
  then obtain tx tt th where tx: "txns s t = Some tx" "tx_from tx = Some tt" "thrs s tt = Some th" "transaction_stack th = Some t"
    using Nil.prems(3) by blast
  obtain s' where s': "send_failed_reply_from t e s = Some s'" "thrs s' = (thrs s)(tt \<mapsto> told e tx th)"
    "txns s' = (if return_error (stash_error th) = BR_OK then (txns s)(t := None) else txns s)"
    "return_error (stash_error th) = BR_OK \<longrightarrow> woken s' = Thread_Wait tt # woken s"
    using failed_reply_end [OF tx Nil.prems(2)] by blast
  have "return_error (stash_error th) = BR_OK" if "return_error th = BR_OK \<or> return_error2 th = BR_OK"
    using that by (auto simp: stash_error_def)
  then show ?case using s' tx \<open>r = Some t\<close> by (auto simp: told_def)
next
  case (Cons u us)
  from Cons.prems(1) obtain tx where u: "u = t" "txns s t = Some tx" "tx_from tx = None" by (auto elim: fails_to.cases)
  obtain s1 where s1: "binder_pop_transaction None t s = Some s1" "txns s1 = (txns s)(t := None)" "buffers_there s1" "thrs s1 = thrs s"
    by (rule pop_transaction_ok [OF u(2) Cons.prems(2), of None]) auto
  show ?case
  proof (cases "from_parent tx")
    case None
    then have "us = [] \<and> r = None" using Cons.prems(1) u by (auto elim: fails_to.cases)
    moreover have "send_failed_reply_from t e s = Some s1"
      using u(2,3) None s1(1) by (subst send_failed_reply_from.simps) simp
    ultimately show ?thesis using s1 u(1) by auto
  next
    case (Some t')
    then have up: "fails_to (txns s) t' us r" "t \<notin> set us" "r \<noteq> Some t" using Cons.prems(1) u by (auto elim: fails_to.cases)
    have f1: "fails_to (txns s1) t' us r" by (rule fails_to_cong [OF up(1)]) (use up(2,3) s1(2) in auto)
    have same: "txns s1 v = txns s v" if "r = Some v" for v using that up(3) s1(2) by auto
    have hyp: "\<exists>tx tt th. txns s1 v = Some tx \<and> tx_from tx = Some tt \<and> thrs s1 tt = Some th \<and> transaction_stack th = Some v"
      if "r = Some v" for v using Cons.prems(3) [OF that] same [OF that] s1(4) by simp
    have run: "send_failed_reply_from t e s = send_failed_reply_from t' e s1"
      using u(2,3) Some s1(1) by (subst send_failed_reply_from.simps) simp
    obtain s' where s': "send_failed_reply_from t' e s1 = Some s'" "\<forall>v\<in>set us. txns s' v = None"
      "case r of None \<Rightarrow> thrs s' = thrs s1
       | Some v \<Rightarrow> \<exists>tx tt th. txns s1 v = Some tx \<and> tx_from tx = Some tt \<and> thrs s1 tt = Some th
           \<and> thrs s' = (thrs s1)(tt \<mapsto> told e tx th)
           \<and> (return_error th = BR_OK \<or> return_error2 th = BR_OK \<longrightarrow> return_error (told e tx th) = e
                \<and> transaction_stack (told e tx th) = from_parent tx \<and> txns s' v = None \<and> hd (woken s') = Thread_Wait tt)"
      using Cons.IH [OF f1 s1(3) hyp] by blast
    have "txns s' t = None" using failed_reply_frees [OF s'(1)] s1(2) by simp
    then show ?thesis using run s' u(1) same s1(4) by (cases r) auto
  qed
qed

text \<open>A call whose sender is gone, made on behalf of a call of thread 5.\<close>

definition lost_call :: binder_state where
  "lost_call = (let tx = \<lparr>tx_debug_id = 1, tx_from = None, from_parent = Some 8, to_proc = None, to_thread = None,
       to_parent = None, need_reply = True, tx_buffer = None, tx_code = 0, tx_flags = 0, tx_priority = 0,
       saved_priority = 0, sender_euid = 0\<rparr>
     in binder_init_state\<lparr>thrs := [5 \<mapsto> (new_thread 1 10)\<lparr>transaction_stack := Some 8\<rparr>],
          txns := [7 \<mapsto> tx, 8 \<mapsto> tx\<lparr>tx_from := Some 5, from_parent := None\<rparr>]\<rparr>)"

theorem failed_reply_arrives_witness:
  "fails_to (txns lost_call) 7 [7] (Some 8)
    \<and> (\<exists>s' th. send_failed_reply_from 7 BR_DEAD_REPLY lost_call = Some s' \<and> txns s' 7 = None \<and> txns s' 8 = None
        \<and> thrs s' 5 = Some th \<and> return_error th = BR_DEAD_REPLY \<and> transaction_stack th = None)"
proof -
  have chain: "fails_to (txns lost_call) 7 [7] (Some 8)"
  proof -
    obtain a b where "txns lost_call 7 = Some a" "tx_from a = None" "from_parent a = Some 8"
      "txns lost_call 8 = Some b" "tx_from b \<noteq> None" by (simp add: lost_call_def Let_def)
    then show ?thesis by (intro fails_to.up [of _ 7 a 8] fails_to.live [of _ 8 b]) simp_all
  qed
  have there: "buffers_there lost_call" by (simp add: buffers_there_def lost_call_def Let_def)
  have top: "\<exists>tx tt th. txns lost_call u = Some tx \<and> tx_from tx = Some tt \<and> thrs lost_call tt = Some th \<and> transaction_stack th = Some u"
    if "Some 8 = Some u" for u using that by (simp add: lost_call_def Let_def)
  have "return_error ((new_thread 1 10)\<lparr>transaction_stack := Some 8\<rparr>) = BR_OK" by (simp add: new_thread_def)
  then show ?thesis
    using chain failed_reply_arrives [OF chain there top, of BR_DEAD_REPLY] by (auto simp: lost_call_def Let_def)
qed

end
