(* ===== verification/Binder_Wire.thy ===== *)
theory Binder_Wire
  imports Binder_Ioctl Binder_Txn_Props
begin

text \<open>
  The borders of the driver: the structures that cross them as bytes, and the loops over the write and the read buffer.
\<close>

unbundle bit_operations_syntax

section \<open>Structures as bytes\<close>

lemma get_u64_skip [simp]: "n \<le> off \<Longrightarrow> get_u64 (le_bytes n w @ bs) off = get_u64 bs (off - n)"
  and get_u32_skip [simp]: "n \<le> off \<Longrightarrow> get_u32 (le_bytes n w @ bs) off = get_u32 bs (off - n)"
  by (auto simp: get_u64_def get_u32_def get_range_def)

lemma get_u64_here [simp]: "get_u64 (u64_bytes w @ bs) 0 = Some w" "get_u64 (u64_bytes w) 0 = Some w"
  and get_u32_here [simp]: "get_u32 (u32_bytes v @ bs) 0 = Some v" "get_u32 (u32_bytes v) 0 = Some v"
  by (simp_all add: get_u64_def get_u32_def get_range_def)

text \<open>A field read and written back is the bytes it was.\<close>

lemma get_u64_bytes: "off + 8 \<le> length bs \<Longrightarrow> \<exists>w. get_u64 bs off = Some w \<and> u64_bytes w = take 8 (drop off bs)"
  by (auto simp: get_u64_def get_range_def intro!: le_bytes_le_word)

lemma get_u32_bytes: "off + 4 \<le> length bs \<Longrightarrow> \<exists>w. get_u32 bs off = Some w \<and> u32_bytes w = take 4 (drop off bs)"
  by (auto simp: get_u32_def get_range_def intro!: le_bytes_le_word)

lemma chunk: "take n (drop off bs) @ drop (n + off) bs = drop off bs"
  by (metis append_take_drop_id drop_drop)

lemma transaction_data_encode: "get_transaction_data (transaction_data_bytes d) = Some d"
  by (simp add: get_transaction_data_def transaction_data_bytes_def)

lemma transaction_data_decode:
  assumes "length bs = 64"
  shows "\<exists>d. get_transaction_data bs = Some d \<and> transaction_data_bytes d = bs"
proof -
  obtain a b c d e f g h i j where fields:
    "get_u64 bs 0 = Some a" "get_u64 bs 8 = Some b" "get_u32 bs 16 = Some c" "get_u32 bs 20 = Some d" "get_u32 bs 24 = Some e"
    "get_u32 bs 28 = Some f" "get_u64 bs 32 = Some g" "get_u64 bs 40 = Some h" "get_u64 bs 48 = Some i" "get_u64 bs 56 = Some j"
    and bytes: "u64_bytes a = take 8 (drop 0 bs)" "u64_bytes b = take 8 (drop 8 bs)" "u32_bytes c = take 4 (drop 16 bs)"
    "u32_bytes d = take 4 (drop 20 bs)" "u32_bytes e = take 4 (drop 24 bs)" "u32_bytes f = take 4 (drop 28 bs)"
    "u64_bytes g = take 8 (drop 32 bs)" "u64_bytes h = take 8 (drop 40 bs)" "u64_bytes i = take 8 (drop 48 bs)"
    "u64_bytes j = take 8 (drop 56 bs)"
    using get_u64_bytes [of 0 bs] get_u64_bytes [of 8 bs] get_u32_bytes [of 16 bs] get_u32_bytes [of 20 bs]
      get_u32_bytes [of 24 bs] get_u32_bytes [of 28 bs] get_u64_bytes [of 32 bs] get_u64_bytes [of 40 bs]
      get_u64_bytes [of 48 bs] get_u64_bytes [of 56 bs] assms by auto
  have "u64_bytes a @ u64_bytes b @ u32_bytes c @ u32_bytes d @ u32_bytes e @ u32_bytes f @ u64_bytes g @ u64_bytes h
      @ u64_bytes i @ u64_bytes j = drop 0 bs"
    unfolding bytes using assms chunk [of 8 0 bs] chunk [of 8 8 bs] chunk [of 4 16 bs] chunk [of 4 20 bs] chunk [of 4 24 bs] chunk [of 4 28 bs]
      chunk [of 8 32 bs] chunk [of 8 40 bs] chunk [of 8 48 bs] by simp
  then show ?thesis using fields by (simp add: get_transaction_data_def transaction_data_bytes_def)
qed

lemma write_read_encode: "get_write_read (write_read_bytes b) = Some b"
  by (simp add: get_write_read_def write_read_bytes_def)

lemma write_read_decode:
  assumes "length bs = 48"
  shows "\<exists>b. get_write_read bs = Some b \<and> write_read_bytes b = bs"
proof -
  obtain a b c d e f where fields:
    "get_u64 bs 0 = Some a" "get_u64 bs 8 = Some b" "get_u64 bs 16 = Some c" "get_u64 bs 24 = Some d" "get_u64 bs 32 = Some e"
    "get_u64 bs 40 = Some f"
    and bytes: "u64_bytes a = take 8 (drop 0 bs)" "u64_bytes b = take 8 (drop 8 bs)" "u64_bytes c = take 8 (drop 16 bs)"
    "u64_bytes d = take 8 (drop 24 bs)" "u64_bytes e = take 8 (drop 32 bs)" "u64_bytes f = take 8 (drop 40 bs)"
    using get_u64_bytes [of 0 bs] get_u64_bytes [of 8 bs] get_u64_bytes [of 16 bs] get_u64_bytes [of 24 bs]
      get_u64_bytes [of 32 bs] get_u64_bytes [of 40 bs] assms by auto
  have "u64_bytes a @ u64_bytes b @ u64_bytes c @ u64_bytes d @ u64_bytes e @ u64_bytes f = drop 0 bs"
    unfolding bytes using assms chunk [of 8 0 bs] chunk [of 8 8 bs] chunk [of 8 16 bs] chunk [of 8 24 bs] chunk [of 8 32 bs] by simp
  then show ?thesis using fields by (simp add: get_write_read_def write_read_bytes_def)
qed

text \<open>A read through the user's memory gives back what was written there.\<close>

lemma poke_bytes_outside: "(\<And>i. i < length bs \<Longrightarrow> x \<noteq> a + word_of_nat i) \<Longrightarrow> poke_bytes m a bs x = m x"
proof (induction bs arbitrary: m a)
  case (Cons b bs)
  have "x \<noteq> a" using Cons.prems [of 0] by simp
  moreover have "x \<noteq> a + 1 + word_of_nat i" if "i < length bs" for i
    using Cons.prems [of "Suc i"] that by (simp add: add.assoc)
  moreover have "poke_bytes (m(a \<mapsto> b)) (a + 1) bs x = (m(a \<mapsto> b)) x" by (rule Cons.IH) fact
  ultimately show ?case by simp
qed simp

lemma poke_bytes_inside:
  fixes a :: u64
  assumes "i < length bs" and "length bs \<le> 2 ^ 64"
  shows "poke_bytes m a bs (a + word_of_nat i) = Some (bs ! i)"
  using assms
proof (induction bs arbitrary: m a i)
  case (Cons b bs)
  show ?case
  proof (cases i)
    case 0
    have "a \<noteq> a + 1 + word_of_nat j" if "j < length bs" for j
    proof -
      have "(word_of_nat (Suc j) :: u64) \<noteq> 0" using that Cons.prems(2) by (simp add: word_of_nat_eq_0_iff nat_dvd_not_less del: of_nat_Suc)
      then show ?thesis by (simp add: add.assoc)
    qed
    then have "poke_bytes (m(a \<mapsto> b)) (a + 1) bs a = (m(a \<mapsto> b)) a" by (rule poke_bytes_outside)
    then show ?thesis using 0 by simp
  next
    case (Suc j)
    have "poke_bytes (m(a \<mapsto> b)) (a + 1) bs (a + 1 + word_of_nat j) = Some (bs ! j)"
      by (rule Cons.IH) (use Suc Cons.prems in auto)
    then show ?thesis using Suc by (simp add: add.assoc)
  qed
qed simp

lemma those_map_Some: "(\<And>i. i < n \<Longrightarrow> f i = Some (xs ! i)) \<Longrightarrow> length xs = n \<Longrightarrow> those (map f [0..<n]) = Some xs"
proof (induction n arbitrary: f xs)
  case (Suc n)
  obtain x ys where xs: "xs = x # ys" using Suc.prems(2) by (cases xs) auto
  have "those (map (f \<circ> Suc) [0..<n]) = Some ys" using Suc.prems xs by (intro Suc.IH) auto
  moreover have "map f [0..<Suc n] = f 0 # map (f \<circ> Suc) [0..<n]" by (simp add: upt_conv_Cons flip: map_Suc_upt del: upt_Suc)
  ultimately show ?case using Suc.prems(1) [of 0] xs by simp
qed simp

lemma copy_to_from_user:
  assumes "copy_to_user um a bs = Some um'" and "length bs \<le> 2 ^ 64"
  shows "copy_from_user um' a (length bs) = Some bs"
  using assms poke_bytes_inside [where bs = bs] unfolding copy_from_user_def copy_to_user_def
  by (intro those_map_Some) (auto split: if_splits)

section \<open>The write buffer\<close>

text \<open>Every command moves the pointer forward, by its arguments: 64 bytes at most.\<close>

lemma step_to_iff [simp]: "step_to q r = Some (n, s) \<longleftrightarrow> n = Inr q \<and> r = Some s"
  by (auto simp: step_to_def)

lemma arg32_Inr: "arg32 um ptr s f = Some (Inr q, s') \<Longrightarrow> \<exists>v. f v = Some (Inr q, s')"
  and arg64_Inr: "arg64 um ptr s g = Some (Inr q, s') \<Longrightarrow> \<exists>v. g v = Some (Inr q, s')"
  by (auto simp: arg32_def arg64_def split: option.split_asm)

lemma write_command_forward:
  assumes "write_command k c um p t cmd ptr s = Some (Inr q, s')"
  shows "\<exists>d\<le>64. q = ptr + word_of_nat d"
proof -
  have "q = ptr + word_of_nat 0 \<or> q = ptr + word_of_nat 4 \<or> q = ptr + word_of_nat 8 \<or> q = ptr + word_of_nat 12
      \<or> q = ptr + word_of_nat 16 \<or> q = ptr + word_of_nat 64"
    using assms unfolding write_command_def
    by (auto dest!: arg32_Inr arg64_Inr split: if_split_asm option.split_asm)
  then obtain d :: nat where "d \<in> {0, 4, 8, 12, 16, 64}" "q = ptr + word_of_nat d" by blast
  then show ?thesis by (intro exI [of _ d]) auto
qed

text \<open>An error that ends the call is a real one.\<close>

lemma arg32_Inl: "arg32 um ptr s f = Some (Inl e, s') \<Longrightarrow> e = - EFAULT \<or> (\<exists>v. f v = Some (Inl e, s'))"
  and arg64_Inl: "arg64 um ptr s g = Some (Inl e, s') \<Longrightarrow> e = - EFAULT \<or> (\<exists>v. g v = Some (Inl e, s'))"
  by (auto simp: arg32_def arg64_def split: option.split_asm)

lemma write_command_error:
  assumes "write_command k c um p t cmd ptr s = Some (Inl e, s')"
  shows "e = - EFAULT \<or> e = - EINVAL"
  using assms unfolding write_command_def
  by (auto dest!: arg32_Inl arg64_Inl split: if_split_asm option.split_asm)

lemma unat_below: "unat (w :: u64) < 2 ^ 64"
  using unsigned_less [of w] by simp

lemma unat_forward:
  fixes ptr :: u64
  assumes "unat ptr + n < 2 ^ 64"
  shows "unat (ptr + word_of_nat n) = unat ptr + n"
proof -
  have "unat (word_of_nat n :: u64) = n" using assms by (simp add: unat_of_nat take_bit_nat_eq_self_iff)
  then show ?thesis using assms by (simp add: unat_word_ariths)
qed

lemma next_command:
  assumes "write_command k c um p t cmd (ptr + 4) s = Some (Inr q, s')" and "ptr < uend" and "unat uend + 68 \<le> 2 ^ 64"
  shows "unat ptr + 4 \<le> unat q" and "unat q \<le> unat ptr + 68"
proof -
  obtain d where d: "d \<le> 64" "q = ptr + 4 + word_of_nat d" using write_command_forward [OF assms(1)] by blast
  then have "q = ptr + word_of_nat (4 + d)" by simp
  moreover have "unat ptr + (4 + d) < 2 ^ 64" using assms(2,3) d(1) by (simp add: word_less_nat_alt)
  ultimately have "unat q = unat ptr + (4 + d)" using unat_forward by blast
  then show "unat ptr + 4 \<le> unat q" "unat q \<le> unat ptr + 68" using d(1) by simp_all
qed

text \<open>So as many rounds as there are bytes left are enough.\<close>

lemma write_loop_fuel:
  assumes "unat uend + 68 \<le> 2 ^ 64" and "unat uend - unat ptr \<le> n" and "n \<le> m"
  shows "write_loop m k c um p t ubuf ptr uend consumed s = write_loop n k c um p t ubuf ptr uend consumed s"
  using assms(2,3)
proof (induction n arbitrary: m ptr consumed s)
  case 0
  then have "\<not> ptr < uend" by (simp add: word_less_nat_alt)
  then show ?case by (cases m) simp_all
next
  case (Suc n)
  then obtain m' where m: "m = Suc m'" "n \<le> m'" by (cases m) auto
  have "write_loop m' k c um p t ubuf q uend x s1 = write_loop n k c um p t ubuf q uend x s1"
    if "ptr < uend" "write_command k c um p t cmd (ptr + 4) s = Some (Inr q, s1)" for cmd q s1 x
  proof (rule Suc.IH)
    show "unat uend - unat q \<le> n" using Suc.prems(1) next_command(1) [OF that(2,1) assms(1)] that(1) by (simp add: word_less_nat_alt)
  qed (rule m(2))
  then show ?case unfolding m(1) by (auto split: option.split sum.split bind_split)
qed

text \<open>An invariant of the commands is one of the loop, which returns when they do.\<close>

lemma write_loop_returns:
  assumes "unat uend + 68 \<le> 2 ^ 64" and "unat uend - unat ptr \<le> n" and "I s" and "\<And>s. I s \<Longrightarrow> thrs s t \<noteq> None"
    and "\<And>q s cmd. I s \<Longrightarrow> get_user32 um q = Some cmd \<Longrightarrow> \<exists>r s'. write_command k c um p t cmd (q + 4) s = Some (r, s') \<and> I s'"
    and "consumed = ptr - ubuf" and "ubuf \<le> ptr" and "unat ptr \<le> unat uend + 67"
  shows "\<exists>ret wc s'. write_loop n k c um p t ubuf ptr uend consumed s = Some (ret, wc, s') \<and> I s'
    \<and> unat ptr \<le> unat ubuf + unat wc \<and> unat ubuf + unat wc \<le> unat uend + 67
    \<and> (ret = 0 \<longrightarrow> unat uend \<le> unat ubuf + unat wc \<or> (\<exists>th. thrs s' t = Some th \<and> return_error th \<noteq> BR_OK))"
  using assms(2,3,6-8)
proof (induction n arbitrary: ptr consumed s)
  case 0
  then have "\<not> ptr < uend" by (simp add: word_less_nat_alt)
  then show ?case using 0 assms(4) [OF 0(2)] by (auto simp: unat_sub word_less_nat_alt word_le_nat_alt)
next
  case (Suc n)
  obtain th where th: "thrs s t = Some th" using assms(4) [OF Suc.prems(2)] by auto
  have wc: "unat ubuf + unat consumed = unat ptr" using Suc.prems(3,4) by (simp add: unat_sub word_le_nat_alt)
  show ?case
  proof (cases "ptr < uend \<and> return_error th = BR_OK")
    case False
    then show ?thesis using th wc Suc.prems(2,5) by (auto simp: word_less_nat_alt)
  next
    case go: True
    show ?thesis
    proof (cases "get_user32 um ptr")
      case None
      then show ?thesis using go th wc Suc.prems(2,5) by simp
    next
      case (Some cmd)
      obtain r s1 where r: "write_command k c um p t cmd (ptr + 4) s = Some (r, s1)" "I s1" using assms(5) [OF Suc.prems(2) Some] by blast
      show ?thesis
      proof (cases r)
        case (Inl e)
        have "e \<noteq> 0" using write_command_error [OF r(1) [unfolded Inl]] by auto
        then show ?thesis using Inl r go th Some wc Suc.prems(5) by simp
      next
        case (Inr q)
        note q = next_command [OF r(1) [unfolded Inr] conjunct1 [OF go] assms(1)]
        have "\<exists>ret wc s'. write_loop n k c um p t ubuf q uend (q - ubuf) s1 = Some (ret, wc, s') \<and> I s'
            \<and> unat q \<le> unat ubuf + unat wc \<and> unat ubuf + unat wc \<le> unat uend + 67
            \<and> (ret = 0 \<longrightarrow> unat uend \<le> unat ubuf + unat wc \<or> (\<exists>th. thrs s' t = Some th \<and> return_error th \<noteq> BR_OK))"
          by (rule Suc.IH) (use q go Suc.prems r(2) in \<open>auto simp: word_less_nat_alt word_le_nat_alt\<close>)
        then show ?thesis using Inr r go th Some q(1) by auto
      qed
    qed
  qed
qed

section \<open>The read buffer\<close>

text \<open>\<open>um'\<close> differs from \<open>um\<close> between the addresses \<open>lo\<close> and \<open>hi\<close> only.\<close>

definition writes_within :: "nat \<Rightarrow> nat \<Rightarrow> user_space \<Rightarrow> user_space \<Rightarrow> bool" where
  "writes_within lo hi um um' \<longleftrightarrow> u_writable um' = u_writable um
     \<and> (\<forall>a. unat a < lo \<or> hi \<le> unat a \<longrightarrow> u_bytes um' a = u_bytes um a)"

lemma writes_within_refl [simp]: "writes_within lo hi um um"
  by (simp add: writes_within_def)

lemma writes_within_trans: "writes_within lo hi um um' \<Longrightarrow> writes_within lo hi um' um'' \<Longrightarrow> writes_within lo hi um um''"
  by (simp add: writes_within_def)

lemma copy_to_user_within:
  assumes "copy_to_user um a bs = Some um'" and "lo \<le> unat a" and "unat a + length bs \<le> hi" and "hi < 2 ^ 64"
  shows "writes_within lo hi um um'"
proof -
  have out: "x \<noteq> a + word_of_nat i" if "unat x < lo \<or> hi \<le> unat x" "i < length bs" for x i
    using that assms(2-4) unat_forward [of a i] by auto
  have "poke_bytes (u_bytes um) a bs x = u_bytes um x" if "unat x < lo \<or> hi \<le> unat x" for x
    by (rule poke_bytes_outside) (use out [OF that] in blast)
  then show ?thesis using assms(1) by (auto simp: copy_to_user_def writes_within_def split: if_splits)
qed

text \<open>A place in a buffer that ends at \<open>hi\<close>: a whole number of words before the end.\<close>

definition place :: "nat \<Rightarrow> nat \<Rightarrow> u64 \<Rightarrow> bool" where
  "place lo hi q \<longleftrightarrow> lo \<le> unat q \<and> unat q \<le> hi \<and> 4 dvd hi - unat q"

definition step_within :: "nat \<Rightarrow> nat \<Rightarrow> user_space \<Rightarrow> read_next \<times> user_space \<times> binder_state \<Rightarrow> bool" where
  "step_within lo hi um r = (case r of (n, um', s') \<Rightarrow> writes_within lo hi um um'
     \<and> (case n of Read_Error e \<Rightarrow> True | Read_Done q \<Rightarrow> place lo hi q | Read_On q \<Rightarrow> place lo hi q | Read_Retry q \<Rightarrow> place lo hi q))"

lemma step_within_trans: "writes_within lo hi um um' \<Longrightarrow> step_within lo hi um' r \<Longrightarrow> step_within lo hi um r"
  by (auto simp: step_within_def intro: writes_within_trans)

lemma place_on:
  assumes "place lo hi ptr" and "n \<le> hi - unat ptr" and "4 dvd n" and "hi < 2 ^ 64"
  shows "place lo hi (ptr + word_of_nat n)" and "unat (ptr + word_of_nat n) = unat ptr + n"
proof -
  have "unat ptr + n < 2 ^ 64" using assms by (auto simp: place_def)
  then show u: "unat (ptr + word_of_nat n) = unat ptr + n" by (rule unat_forward)
  show "place lo hi (ptr + word_of_nat n)" using assms(1-3) u by (auto simp: place_def simp flip: diff_diff_left)
qed

text \<open>The writes in continuation form.\<close>

lemma put32_within:
  assumes "put32 um ptr w s f = Some r" and "place lo hi ptr" and "4 \<le> hi - unat ptr" and "hi < 2 ^ 64"
    and "\<And>um1. f um1 (ptr + 4) = Some r \<Longrightarrow> place lo hi (ptr + 4) \<Longrightarrow> unat (ptr + 4) = unat ptr + 4 \<Longrightarrow> step_within lo hi um1 r"
  shows "step_within lo hi um r"
proof (cases "put_user32 um ptr w")
  case None
  then show ?thesis using assms(1) by (auto simp: put32_def step_within_def)
next
  case (Some um1)
  have "writes_within lo hi um um1" using Some assms(2-4) by (intro copy_to_user_within [OF Some]) (auto simp: place_def)
  moreover have "step_within lo hi um1 r"
    using assms(1) Some place_on [OF assms(2,3) _ assms(4)] by (intro assms(5)) (auto simp: put32_def)
  ultimately show ?thesis by (rule step_within_trans)
qed

lemma put64_within:
  assumes "put64 um ptr w s f = Some r" and "place lo hi ptr" and "8 \<le> hi - unat ptr" and "hi < 2 ^ 64"
    and "\<And>um1. f um1 (ptr + 8) = Some r \<Longrightarrow> place lo hi (ptr + 8) \<Longrightarrow> unat (ptr + 8) = unat ptr + 8 \<Longrightarrow> step_within lo hi um1 r"
  shows "step_within lo hi um r"
proof (cases "put_user64 um ptr w")
  case None
  then show ?thesis using assms(1) by (auto simp: put64_def step_within_def)
next
  case (Some um1)
  have "writes_within lo hi um um1" using Some assms(2-4) by (intro copy_to_user_within [OF Some]) (auto simp: place_def)
  moreover have "step_within lo hi um1 r"
    using assms(1) Some place_on [OF assms(2,3) _ assms(4)] by (intro assms(5)) (auto simp: put64_def)
  ultimately show ?thesis by (rule step_within_trans)
qed

lemma step_here [simp]:
  "step_within lo hi um (Read_On q, um, s) = place lo hi q" "step_within lo hi um (Read_Done q, um, s) = place lo hi q"
  "step_within lo hi um (Read_Retry q, um, s) = place lo hi q" "step_within lo hi um (Read_Error e, um, s)"
  by (simp_all add: step_within_def)

lemma read_errors_within:
  assumes "read_errors um t ptr uend s = Some r" and "place lo hi ptr" and "hi = unat uend"
  shows "step_within lo hi um r"
proof -
  have hi: "hi < 2 ^ 64" unfolding assms(3) by (rule unat_below)
  have room: "4 \<le> hi - unat q" if "place lo hi q" "q \<noteq> uend" for q
  proof -
    have "unat q \<noteq> hi" using that(2) assms(3) by (metis word_unat_eq_iff)
    then have "0 < hi - unat q" using that(1) by (simp add: place_def)
    then show ?thesis using that(1) dvd_imp_le [of 4 "hi - unat q"] by (simp add: place_def)
  qed
  obtain th where th: "thrs s t = Some th" using assms(1) by (auto simp: read_errors_def bind_eq_Some_conv)
  have finish: "step_within lo hi um1 r"
    if "put32 um1 q w s1 (\<lambda>um'' ptr''. do { s2 \<leftarrow> upd_thread t f s1; Some (Read_Done ptr'', um'', s2) }) = Some r"
      "place lo hi q" "q \<noteq> uend" for um1 q w f s1
    by (rule put32_within [OF that(1,2) room [OF that(2,3)] hi]) (auto simp: bind_eq_Some_conv)
  show ?thesis
  proof (cases "return_error th \<noteq> BR_OK \<and> ptr < uend")
    case False
    then show ?thesis using assms(1,2) th by (auto simp: read_errors_def)
  next
    case err: True
    then have ne: "ptr \<noteq> uend" by auto
    show ?thesis
    proof (cases "return_error2 th = BR_OK")
      case True
      then show ?thesis using finish [of um ptr] err th assms(1,2) ne by (simp add: read_errors_def)
    next
      case False
      note run = assms(1) [unfolded read_errors_def th, simplified, unfolded Let_def]
      show ?thesis
        by (rule put32_within [OF _ assms(2) room [OF assms(2) ne] hi]) (use run err False finish in \<open>auto simp: bind_eq_Some_conv split: if_split_asm\<close>)
    qed
  qed
qed

lemma read_node_within:
  assumes "read_node k um p n ptr s = Some r" and "place lo hi ptr" and "68 \<le> hi - unat ptr" and "hi < 2 ^ 64"
  shows "step_within lo hi um r"
proof -
  obtain nd where nd: "nds s n = Some nd" using assms(1) by (auto simp: read_node_def bind_eq_Some_conv)
  obtain cmd nd' where news: "node_news nd = (cmd, nd')" by fastforce
  let ?s = "s\<lparr>nds := (nds s)(n \<mapsto> nd')\<rparr>"
  show ?thesis
  proof (cases "cmd = BR_NOOP")
    case True
    then show ?thesis using assms(1,2) nd news by (auto simp: read_node_def Let_def bind_eq_Some_conv split: if_split_asm)
  next
    case False
    then have run: "put32 um ptr cmd ?s (\<lambda>um1 p1. put64 um1 p1 (nd_ptr nd) ?s (\<lambda>um2 p2. put64 um2 p2 (nd_cookie nd) ?s
            (\<lambda>um3 p3. Some (Read_On p3, um3, ?s)))) = Some r"
      using assms(1) nd news by (simp add: read_node_def Let_def)
    show ?thesis
    proof (rule put32_within [OF run assms(2) _ assms(4)])
      fix um1 assume a: "put64 um1 (ptr + 4) (nd_ptr nd) ?s (\<lambda>um2 p2. put64 um2 p2 (nd_cookie nd) ?s (\<lambda>um3 p3. Some (Read_On p3, um3, ?s))) = Some r"
        "place lo hi (ptr + 4)" "unat (ptr + 4) = unat ptr + 4"
      show "step_within lo hi um1 r"
      proof (rule put64_within [OF a(1,2) _ assms(4)])
        fix um2 assume b: "put64 um2 (ptr + 4 + 8) (nd_cookie nd) ?s (\<lambda>um3 p3. Some (Read_On p3, um3, ?s)) = Some r"
          "place lo hi (ptr + 4 + 8)" "unat (ptr + 4 + 8) = unat (ptr + 4) + 8"
        show "step_within lo hi um2 r"
          by (rule put64_within [OF b(1,2) _ assms(4)]) (use b(3) a(3) assms(3) in auto)
      qed (use a(3) assms(3) in simp)
    qed (use assms(3) in simp)
  qed
qed

lemma read_death_within:
  assumes "read_death um p d ptr s = Some r" and "place lo hi ptr" and "68 \<le> hi - unat ptr" and "hi < 2 ^ 64"
  shows "step_within lo hi um r"
proof -
  obtain death where d: "deaths s d = Some death" using assms(1) by (auto simp: read_death_def bind_eq_Some_conv)
  note run = assms(1) [unfolded read_death_def d, simplified, unfolded Let_def]
  show ?thesis
  proof (rule put32_within [OF run assms(2) _ assms(4)], goal_cases)
    case (2 um1)
    show ?case by (rule put64_within [OF 2(1,2) _ assms(4)]) (use 2(3) assms(3) in \<open>auto simp: bind_eq_Some_conv split: if_split_asm\<close>)
  qed (use assms(3) in simp)
qed

lemma read_transaction_within:
  assumes "read_transaction k c um p t tid ptr s = Some r" and "place lo hi ptr" and "68 \<le> hi - unat ptr" and "hi < 2 ^ 64"
  shows "step_within lo hi um r"
proof -
  obtain cmd s1 tr bp b where run: "put32 um ptr cmd s1 (\<lambda>um1 p1.
       (case copy_to_user um1 p1 (transaction_data_bytes tr) of
          None \<Rightarrow> Some (Read_Error (- EFAULT), um1, s1)
        | Some um2 \<Rightarrow> do { s2 \<leftarrow> delivered t tid bp b cmd s1; Some (Read_Done (p1 + 64), um2, s2) })) = Some r"
    using assms(1) unfolding read_transaction_def by (auto elim!: option_bind_eq_SomeE)
  show ?thesis
  proof (rule put32_within [OF run assms(2) _ assms(4)], goal_cases)
    case (2 um1)
    show ?case
    proof (cases "copy_to_user um1 (ptr + 4) (transaction_data_bytes tr)")
      case None
      then show ?thesis using 2(1) by auto
    next
      case (Some um2)
      have len: "length (transaction_data_bytes tr) = 64" by (simp add: transaction_data_bytes_def)
      have "writes_within lo hi um1 um2"
        using 2(2,3) assms(3,4) len by (intro copy_to_user_within [OF Some]) (auto simp: place_def)
      moreover have "place lo hi (ptr + 4 + word_of_nat 64)" using 2(3) assms(3,4) by (intro place_on(1) [OF 2(2)]) auto
      ultimately show ?thesis using 2(1) Some by (auto simp: bind_eq_Some_conv step_within_def)
    qed
  qed (use assms(3) in simp)
qed

lemma read_work_within:
  assumes "read_work k c um p t w ubuf ptr uend s = Some r" and "place lo hi ptr" and "hi = unat uend"
  shows "step_within lo hi um r"
proof -
  have hi: "hi < 2 ^ 64" unfolding assms(3) by (rule unat_below)
  show ?thesis
  proof (cases "uend - ptr < 64 + 4")
    case True
    then show ?thesis
      using assms(1,2) by (auto simp: read_work_def Let_def bind_eq_Some_conv split: list.split_asm if_split_asm)
  next
    case False
    then have room: "68 \<le> hi - unat ptr"
      using assms(2,3) by (simp add: place_def word_less_nat_alt unat_sub word_le_nat_alt)
    have complete: "step_within lo hi um r"
      if "put32 um ptr BR_TRANSACTION_COMPLETE s (\<lambda>um1 p1. Some (Read_On p1, um1, list_del (W_Transaction_Complete a) s)) = Some r" for a
      by (rule put32_within [OF that assms(2) _ hi]) (use room in auto)
    show ?thesis
      using assms(1,2) False read_transaction_within [where r = r, OF _ assms(2) room hi] complete
        read_node_within [where r = r, OF _ assms(2) room hi] read_death_within [where r = r, OF _ assms(2) room hi]
      by (auto simp: read_work_def Let_def bind_eq_Some_conv split: list.split_asm if_split_asm work.split_asm)
  qed
qed

lemma read_loop_within:
  assumes "read_loop k c env p t non_block ubuf uend i wfpw um ptr s = Some r" and "place lo (unat uend) ptr"
  shows "step_within lo (unat uend) um r"
proof -
  have "place lo (unat uend) ptr \<longrightarrow> step_within lo (unat uend) um r"
  proof (rule read_loop.raw_induct [where P = "\<lambda>k c env p t non_block ubuf uend i wfpw um ptr s r.
        place lo (unat uend) ptr \<longrightarrow> step_within lo (unat uend) um r", OF _ assms(1)], goal_cases)
    case (1 loop k c env p t non_block ubuf uend i wfpw um ptr s r)
    show ?case
    proof (intro impI)
      assume pl: "place lo (unat uend) ptr"
      show "step_within lo (unat uend) um r"
      proof (cases wfpw)
        case None
        obtain th n um1 s1 where e: "thrs s t = Some th" "read_errors um t ptr uend s = Some (n, um1, s1)"
          using 1(2) None by (auto elim!: option_bind_eq_SomeE)
        note e1 = read_errors_within [OF e(2) pl refl]
        show ?thesis
        proof (cases n)
          case (Read_On q)
          let ?w = "transaction_stack th = None \<and> queues s (Thread_Todo t) = []"
          obtain ret s2 where w: "read_wait k c (env i) p t ?w non_block s1 = Some (ret, s2)"
            using 1(2) None e Read_On by (auto elim!: option_bind_eq_SomeE simp: Let_def)
          have um: "writes_within lo (unat uend) um um1" "place lo (unat uend) q" using e1 Read_On by (auto simp: step_within_def)
          show ?thesis
          proof (cases "ret = 0")
            case True
            then have "loop k c env p t non_block ubuf uend (Suc i) (Some ?w) um1 q s2 = Some r"
              using 1(2) None e Read_On w by (simp add: Let_def)
            then show ?thesis using 1(1) um step_within_trans by blast
          next
            case False
            then show ?thesis using 1(2) None e Read_On w um by (auto simp: Let_def step_within_def)
          qed
        qed (use 1(2) None e e1 in auto)
      next
        case (Some w)
        obtain n um1 s1 where e: "read_work k c um p t w ubuf ptr uend s = Some (n, um1, s1)"
          using 1(2) Some by (auto elim!: option_bind_eq_SomeE)
        note e1 = read_work_within [OF e pl refl]
        have on: "step_within lo (unat uend) um r"
          if "loop k c env p t non_block ubuf uend i w' um1 q s1 = Some r" "n = Read_On q \<or> n = Read_Retry q" for w' q
        proof -
          have "writes_within lo (unat uend) um um1" "place lo (unat uend) q" using that(2) e1 by (auto simp: step_within_def)
          then show ?thesis using 1(1) that(1) step_within_trans by blast
        qed
        show ?thesis using on e1 1(2) Some e by (cases n) auto
      qed
    qed
  qed
  then show ?thesis using assms(2) by blast
qed

end
