(* ===== verification/Svc_Io.thy ===== *)
theory Svc_Io
  imports Binder_Wire
begin

text \<open>
  The messages of the service manager, \<open>struct binder_io\<close> and the functions \<open>bio_*\<close> of \<open>servicemanager/binder.c\<close>. A \<open>binder_io\<close> holds
  the memory that its pointers lead to: \<open>bio_data\<close> from \<open>data0\<close> on and \<open>bio_offs\<close> from \<open>offs0\<close> on; the pointers are positions in
  them. An access outside of that memory is \<open>None\<close>.
\<close>

unbundle bit_operations_syntax

section \<open>The structure\<close>

abbreviation BIO_F_SHARED :: u32 where "BIO_F_SHARED \<equiv> 0x01"
abbreviation BIO_F_OVERFLOW :: u32 where "BIO_F_OVERFLOW \<equiv> 0x02"
abbreviation BIO_F_IOERROR :: u32 where "BIO_F_IOERROR \<equiv> 0x04"
abbreviation MAX_BIO_SIZE :: nat where "MAX_BIO_SIZE \<equiv> 2 ^ 30"

record binder_io =
  bio_data :: "byte list"
  bio_pos :: nat
  data_avail :: nat
  bio_offs :: "u64 list"
  offs_pos :: nat
  offs_avail :: nat
  bio_flags :: u32
  data0 :: u64
  offs0 :: u64

definition set_flag :: "u32 \<Rightarrow> binder_io \<Rightarrow> binder_io" where
  "set_flag f bio = bio\<lparr>bio_flags := bio_flags bio OR f\<rparr>"

text \<open>The readable bytes from an address on, \<open>n\<close> at most, and the words they form.\<close>

fun readable :: "user_space \<Rightarrow> u64 \<Rightarrow> nat \<Rightarrow> byte list" where
  "readable um a 0 = []"
| "readable um a (Suc n) = (case u_bytes um a of None \<Rightarrow> [] | Some b \<Rightarrow> b # readable um (a + 1) n)"

fun words64 :: "nat \<Rightarrow> byte list \<Rightarrow> u64 list" where
  "words64 0 bs = []"
| "words64 (Suc n) bs = (if length bs < 8 then [] else le_word (take 8 bs) # words64 n (drop 8 bs))"

definition bio_init_from_txn :: "user_space \<Rightarrow> binder_transaction_data \<Rightarrow> binder_io" where
  "bio_init_from_txn um txn = \<lparr>
     bio_data = readable um (td_buffer txn) (unat (td_data_size txn)), bio_pos = 0, data_avail = unat (td_data_size txn),
     bio_offs = words64 (unat (td_offsets_size txn) div 8) (readable um (td_offsets txn) (unat (td_offsets_size txn))),
     offs_pos = 0, offs_avail = unat (td_offsets_size txn) div 8, bio_flags = BIO_F_SHARED, data0 = td_buffer txn, offs0 = td_offsets txn\<rparr>"

text \<open>
  \<open>bio_init\<close> on \<open>maxdata\<close> bytes \<open>buf\<close> of memory at the address \<open>a\<close>. When they have no room for the offsets, the pointers keep
  what they were.
\<close>

definition bio_init :: "binder_io \<Rightarrow> u64 \<Rightarrow> byte list \<Rightarrow> nat \<Rightarrow> nat \<Rightarrow> binder_io" where
  "bio_init bio a buf maxdata maxoffs =
     (let n = maxoffs * 8 mod 2 ^ 64 in
      if n > maxdata then bio\<lparr>bio_flags := BIO_F_OVERFLOW, data_avail := 0, offs_avail := 0\<rparr>
      else \<lparr>bio_data = drop n buf, bio_pos = 0, data_avail = maxdata - n, bio_offs = words64 maxoffs (take n buf),
            offs_pos = 0, offs_avail = maxoffs, bio_flags = 0, data0 = a + word_of_nat n, offs0 = a\<rparr>)"

section \<open>Writing\<close>

text \<open>\<open>(size + 3) & ~3\<close> as a \<open>size_t\<close>.\<close>

definition round4 :: "nat \<Rightarrow> nat" where
  "round4 n = (n + 3) mod 2 ^ 64 div 4 * 4"

definition bio_alloc :: "binder_io \<Rightarrow> nat \<Rightarrow> nat option \<times> binder_io" where
  "bio_alloc bio n =
     (let sz = round4 n in
      if sz > data_avail bio then (None, set_flag BIO_F_OVERFLOW bio)
      else (Some (bio_pos bio), bio\<lparr>bio_pos := bio_pos bio + sz, data_avail := data_avail bio - sz\<rparr>))"

text \<open>The object is taken from the data before the offsets are looked at.\<close>

definition bio_alloc_obj :: "binder_io \<Rightarrow> (nat option \<times> binder_io) option" where
  "bio_alloc_obj bio =
     (case bio_alloc bio 24 of
        (None, b) \<Rightarrow> Some (None, set_flag BIO_F_OVERFLOW b)
      | (Some p, b) \<Rightarrow>
          if offs_avail b = 0 then Some (None, set_flag BIO_F_OVERFLOW b)
          else if offs_pos b \<ge> length (bio_offs b) then None
          else Some (Some p, b\<lparr>offs_avail := offs_avail b - 1, bio_offs := (bio_offs b)[offs_pos b := word_of_nat p],
                               offs_pos := offs_pos b + 1\<rparr>))"

definition bio_store :: "binder_io \<Rightarrow> nat \<Rightarrow> byte list \<Rightarrow> binder_io option" where
  "bio_store bio p bs = map_option (\<lambda>d. bio\<lparr>bio_data := d\<rparr>) (put_range (bio_data bio) p bs)"

definition bio_put_uint32 :: "binder_io \<Rightarrow> u32 \<Rightarrow> binder_io option" where
  "bio_put_uint32 bio n =
     (case bio_alloc bio 4 of (None, b) \<Rightarrow> Some b | (Some p, b) \<Rightarrow> bio_store b p (u32_bytes n))"

text \<open>\<open>0x7f | FLAT_BINDER_FLAG_ACCEPTS_FDS\<close>; of a handle, the upper half of the pointer keeps what was there.\<close>

definition bio_put_obj :: "binder_io \<Rightarrow> u64 \<Rightarrow> binder_io option" where
  "bio_put_obj bio ptr = do {
     (r, b) \<leftarrow> bio_alloc_obj bio;
     (case r of
        None \<Rightarrow> Some b
      | Some p \<Rightarrow> do {
          b1 \<leftarrow> bio_store b (p + 4) (u32_bytes (0x7f OR FLAT_BINDER_FLAG_ACCEPTS_FDS));
          b2 \<leftarrow> bio_store b1 p (u32_bytes BINDER_TYPE_BINDER);
          b3 \<leftarrow> bio_store b2 (p + 8) (u64_bytes ptr);
          bio_store b3 (p + 16) (u64_bytes 0) }) }"

definition bio_put_ref :: "binder_io \<Rightarrow> u32 \<Rightarrow> binder_io option" where
  "bio_put_ref bio handle = do {
     (r, b) \<leftarrow> (if handle \<noteq> 0 then bio_alloc_obj bio else Some (bio_alloc bio 24));
     (case r of
        None \<Rightarrow> Some b
      | Some p \<Rightarrow> do {
          b1 \<leftarrow> bio_store b (p + 4) (u32_bytes (0x7f OR FLAT_BINDER_FLAG_ACCEPTS_FDS));
          b2 \<leftarrow> bio_store b1 p (u32_bytes BINDER_TYPE_HANDLE);
          b3 \<leftarrow> bio_store b2 (p + 8) (u32_bytes handle);
          bio_store b3 (p + 16) (u64_bytes 0) }) }"

text \<open>The length of a string up to its first zero; \<open>None\<close> when there is none in the memory it is in.\<close>

fun strlen0 :: "'a::zero list \<Rightarrow> nat option" where
  "strlen0 [] = None"
| "strlen0 (x # xs) = (if x = 0 then Some 0 else map_option Suc (strlen0 xs))"

definition u16s_bytes :: "u16 list \<Rightarrow> byte list" where
  "u16s_bytes xs = concat (map u16_bytes xs)"

text \<open>A string argument that may be \<open>NULL\<close>; \<open>len\<close> is less than \<open>2 ^ 29\<close> behind the check.\<close>

definition bio_put_string16 :: "binder_io \<Rightarrow> u16 list option \<Rightarrow> binder_io option" where
  "bio_put_string16 bio str =
     (case str of
        None \<Rightarrow> bio_put_uint32 bio 0xffffffff
      | Some s \<Rightarrow> do {
          len \<leftarrow> strlen0 s;
          if len \<ge> MAX_BIO_SIZE div 2 then bio_put_uint32 bio 0xffffffff
          else do {
            b \<leftarrow> bio_put_uint32 bio (word_of_nat len);
            (case bio_alloc b ((len + 1) * 2) of
               (None, b1) \<Rightarrow> Some b1
             | (Some p, b1) \<Rightarrow> bio_store b1 p (u16s_bytes (take (len + 1) s))) } })"

definition bio_put_string16_x :: "binder_io \<Rightarrow> byte list option \<Rightarrow> binder_io option" where
  "bio_put_string16_x bio str =
     (case str of
        None \<Rightarrow> bio_put_uint32 bio 0xffffffff
      | Some s \<Rightarrow> do {
          len \<leftarrow> strlen0 s;
          if len \<ge> MAX_BIO_SIZE div 2 then bio_put_uint32 bio 0xffffffff
          else do {
            b \<leftarrow> bio_put_uint32 bio (word_of_nat len);
            (case bio_alloc b ((len + 1) * 2) of
               (None, b1) \<Rightarrow> Some b1
             | (Some p, b1) \<Rightarrow> bio_store b1 p (u16s_bytes (map ucast (take len s) @ [0]))) } })"

section \<open>Reading\<close>

definition bio_get :: "binder_io \<Rightarrow> nat \<Rightarrow> nat option \<times> binder_io" where
  "bio_get bio n =
     (let sz = round4 n in
      if data_avail bio < sz then (None, set_flag BIO_F_OVERFLOW (bio\<lparr>data_avail := 0\<rparr>))
      else (Some (bio_pos bio), bio\<lparr>bio_pos := bio_pos bio + sz, data_avail := data_avail bio - sz\<rparr>))"

definition bio_get_uint32 :: "binder_io \<Rightarrow> (u32 \<times> binder_io) option" where
  "bio_get_uint32 bio =
     (case bio_get bio 4 of
        (None, b) \<Rightarrow> Some (0, b)
      | (Some p, b) \<Rightarrow> do { w \<leftarrow> get_u32 (bio_data b) p; Some (w, b) })"

text \<open>The position of the string, if there is one, and the length that was read.\<close>

definition bio_get_string16 :: "binder_io \<Rightarrow> (nat option \<times> nat \<times> binder_io) option" where
  "bio_get_string16 bio = do {
     (w, b) \<leftarrow> bio_get_uint32 bio;
     let len = unat w;
     let (p, b1) = bio_get b ((len + 1) * 2);
     Some (p, len, b1) }"

text \<open>The characters behind a position.\<close>

fun chars16 :: "nat \<Rightarrow> byte list \<Rightarrow> u16 list" where
  "chars16 0 bs = []"
| "chars16 (Suc n) bs = le_word (take 2 bs) # chars16 n (drop 2 bs)"

definition u16_at :: "binder_io \<Rightarrow> nat \<Rightarrow> nat \<Rightarrow> u16 list option" where
  "u16_at bio p n = map_option (chars16 n) (get_range (bio_data bio) p (2 * n))"

text \<open>The search through the offsets that are left.\<close>

fun find_off :: "nat \<Rightarrow> u64 \<Rightarrow> u64 list \<Rightarrow> bool option" where
  "find_off 0 off xs = Some False"
| "find_off (Suc n) off [] = None"
| "find_off (Suc n) off (x # xs) = (if x = off then Some True else find_off n off xs)"

definition bio_get_obj :: "binder_io \<Rightarrow> (nat option \<times> binder_io) option" where
  "bio_get_obj bio = do {
     found \<leftarrow> find_off (offs_avail bio) (word_of_nat (bio_pos bio)) (drop (offs_pos bio) (bio_offs bio));
     Some (if found then bio_get bio 24 else (None, set_flag BIO_F_OVERFLOW (bio\<lparr>data_avail := 0\<rparr>))) }"

definition bio_get_ref :: "binder_io \<Rightarrow> (u32 \<times> binder_io) option" where
  "bio_get_ref bio = do {
     (r, b) \<leftarrow> bio_get_obj bio;
     (case r of
        None \<Rightarrow> Some (0, b)
      | Some p \<Rightarrow> do {
          ty \<leftarrow> get_u32 (bio_data b) p;
          if ty = BINDER_TYPE_HANDLE then do { h \<leftarrow> get_u32 (bio_data b) (p + 8); Some (h, b) } else Some (0, b) }) }"

end
