(* ===== verification/Service_Manager.thy ===== *)
theory Service_Manager
  imports Svc_Io
begin

text \<open>
  The service manager: the client side of the driver in \<open>servicemanager/binder.c\<close> and the registry of
  \<open>servicemanager/service_manager.c\<close>. What the manager writes to the driver is a log, each entry with the data and the offsets
  that it points to; what it reads from the driver is a parameter of the loops. Messages on \<open>stderr\<close> are left out.
\<close>

unbundle bit_operations_syntax

section \<open>State\<close>

record svcinfo =
  svc_handle :: u32
  svc_isolated :: bool
  svc_len :: nat
  svc_name :: "u16 list"

text \<open>The list of services is in the order of \<open>next\<close>; each one has an address.\<close>

record manager =
  svclist :: "(nat \<times> svcinfo) list"
  sent :: "(byte list \<times> byte list \<times> u64 list) list"

text \<open>
  What the manager finds around it: the allocator, and the contents of variables that it uses without setting them: the
  buffer of a reply, its place, the place of a status, and the sender fields of an outgoing transaction.
\<close>

record svc_env =
  malloc :: "manager \<Rightarrow> nat option"
  junk_bio :: binder_io
  rdata :: "byte list"
  rdata_at :: u64
  status_at :: u64
  junk_ids :: "u32 \<times> u32"

section \<open>Commands to the driver\<close>

definition binder_write :: "byte list \<Rightarrow> manager \<Rightarrow> manager" where
  "binder_write bs st = st\<lparr>sent := sent st @ [(bs, [], [])]\<rparr>"

definition binder_acquire :: "u32 \<Rightarrow> manager \<Rightarrow> manager" where
  "binder_acquire target = binder_write (u32_bytes BC_ACQUIRE @ u32_bytes target)"

definition binder_release_ref :: "u32 \<Rightarrow> manager \<Rightarrow> manager" where
  "binder_release_ref target = binder_write (u32_bytes BC_RELEASE @ u32_bytes target)"

definition binder_link_to_death :: "u32 \<Rightarrow> u64 \<Rightarrow> manager \<Rightarrow> manager" where
  "binder_link_to_death target death =
     binder_write (u32_bytes BC_REQUEST_DEATH_NOTIFICATION @ u32_bytes target @ u64_bytes death)"

definition reply_data :: "svc_env \<Rightarrow> binder_io \<Rightarrow> int \<Rightarrow> binder_transaction_data" where
  "reply_data e reply status =
     (if status \<noteq> 0
      then \<lparr>td_target = 0, td_cookie = 0, td_code = 0, td_flags = TF_STATUS_CODE, td_sender_pid = fst (junk_ids e),
            td_sender_euid = snd (junk_ids e), td_data_size = 4, td_offsets_size = 0, td_buffer = status_at e, td_offsets = 0\<rparr>
      else \<lparr>td_target = 0, td_cookie = 0, td_code = 0, td_flags = 0, td_sender_pid = fst (junk_ids e),
            td_sender_euid = snd (junk_ids e), td_data_size = word_of_nat (bio_pos reply),
            td_offsets_size = word_of_nat (8 * offs_pos reply), td_buffer = data0 reply,
            td_offsets = offs0 reply\<rparr>)"

definition binder_send_reply :: "svc_env \<Rightarrow> binder_io \<Rightarrow> u64 \<Rightarrow> int \<Rightarrow> manager \<Rightarrow> manager" where
  "binder_send_reply e reply buffer_to_free status st = st\<lparr>sent := sent st @
     [(u32_bytes BC_FREE_BUFFER @ u64_bytes buffer_to_free @ u32_bytes BC_REPLY @ transaction_data_bytes (reply_data e reply status),
       if status \<noteq> 0 then u32_bytes (word_of_int status) else take (bio_pos reply) (bio_data reply),
       if status \<noteq> 0 then [] else take (offs_pos reply) (bio_offs reply))]\<rparr>"

definition binder_done :: "binder_io \<Rightarrow> manager \<Rightarrow> binder_io \<times> manager" where
  "binder_done reply st =
     (if bio_flags reply AND BIO_F_SHARED \<noteq> 0
      then (reply\<lparr>bio_flags := 0\<rparr>, binder_write (u32_bytes BC_FREE_BUFFER @ u64_bytes (data0 reply)) st)
      else (reply, st))"

section \<open>Names\<close>

text \<open>At most 127 characters go into the buffer; the terminator is not part of the result.\<close>

fun str8_copy :: "nat \<Rightarrow> u16 list \<Rightarrow> byte list option" where
  "str8_copy 0 x = Some []"
| "str8_copy (Suc n) [] = None"
| "str8_copy (Suc n) (c # x) = (if c = 0 then Some [] else map_option (Cons (ucast c)) (str8_copy n x))"

definition str8 :: "u16 list option \<Rightarrow> nat \<Rightarrow> byte list option" where
  "str8 x x_len = (case x of None \<Rightarrow> Some [] | Some s \<Rightarrow> str8_copy (min 127 x_len) s)"

text \<open>A \<open>char\<close> is signed.\<close>

fun str16eq :: "u16 list \<Rightarrow> byte list \<Rightarrow> bool option" where
  "str16eq (a # as) (b # bs) =
     (if a \<noteq> 0 \<and> b \<noteq> 0 then if int (unat a) \<noteq> sint b then Some False else str16eq as bs
      else Some (a = 0 \<and> b = 0))"
| "str16eq _ _ = None"

section \<open>Permissions\<close>

definition check_mac_perms_from_getcon :: "u32 \<Rightarrow> bool" where
  "check_mac_perms_from_getcon spid = True"

definition check_mac_perms_from_lookup :: "u32 \<Rightarrow> byte list \<Rightarrow> bool" where
  "check_mac_perms_from_lookup spid name = True"

definition svc_can_register :: "u16 list \<Rightarrow> nat \<Rightarrow> u32 \<Rightarrow> bool option" where
  "svc_can_register name name_len spid = map_option (check_mac_perms_from_lookup spid) (str8 (Some name) name_len)"

definition svc_can_list :: "u32 \<Rightarrow> bool" where
  "svc_can_list spid = check_mac_perms_from_getcon spid"

definition svc_can_find :: "u16 list \<Rightarrow> nat \<Rightarrow> u32 \<Rightarrow> bool option" where
  "svc_can_find name name_len spid = map_option (check_mac_perms_from_lookup spid) (str8 (Some name) name_len)"

section \<open>The registry\<close>

definition svc_matches :: "u16 list \<Rightarrow> nat \<Rightarrow> svcinfo \<Rightarrow> bool" where
  "svc_matches s len si \<longleftrightarrow> len = svc_len si \<and> take len s = take len (svc_name si)"

definition find_svc :: "u16 list \<Rightarrow> nat \<Rightarrow> manager \<Rightarrow> (nat \<times> svcinfo) option" where
  "find_svc s len st = find (\<lambda>(a, si). svc_matches s len si) (svclist st)"

definition upd_svc :: "nat \<Rightarrow> (svcinfo \<Rightarrow> svcinfo) \<Rightarrow> manager \<Rightarrow> manager" where
  "upd_svc a f st = st\<lparr>svclist := map (\<lambda>(b, si). (b, if b = a then f si else si)) (svclist st)\<rparr>"

definition svcinfo_death :: "nat \<Rightarrow> manager \<Rightarrow> manager option" where
  "svcinfo_death a st = do {
     si \<leftarrow> map_of (svclist st) a;
     _ \<leftarrow> str8 (Some (svc_name si)) (svc_len si);
     Some (if svc_handle si \<noteq> 0
           then upd_svc a (\<lambda>x. x\<lparr>svc_handle := 0\<rparr>) (binder_release_ref (svc_handle si) st)
           else st) }"

text \<open>The place of the \<open>death\<close> field of a service, which the driver gives back when the service dies.\<close>

definition death_of :: "nat \<Rightarrow> u64" where
  "death_of a = word_of_nat (a + 16)"

definition death_callback :: "u64 \<Rightarrow> manager \<Rightarrow> manager option" where
  "death_callback cookie st = do {
     (a, _) \<leftarrow> find (\<lambda>(a, _). death_of a = cookie) (svclist st);
     svcinfo_death a st }"

definition do_find_service :: "u16 list \<Rightarrow> nat \<Rightarrow> u32 \<Rightarrow> manager \<Rightarrow> u32 option" where
  "do_find_service s len spid st =
     (case find_svc s len st of
        None \<Rightarrow> Some 0
      | Some (a, si) \<Rightarrow>
          if svc_handle si = 0 then Some 0
          else do { ok \<leftarrow> svc_can_find s len spid; Some (if ok then svc_handle si else 0) })"

definition new_svc :: "u16 list \<Rightarrow> nat \<Rightarrow> u32 \<Rightarrow> bool \<Rightarrow> svcinfo" where
  "new_svc s len handle isolated =
     \<lparr>svc_handle = handle, svc_isolated = isolated, svc_len = len, svc_name = (take (len + 1) s)[len := 0]\<rparr>"

definition do_add_service ::
  "svc_env \<Rightarrow> u16 list \<Rightarrow> nat \<Rightarrow> u32 \<Rightarrow> bool \<Rightarrow> u32 \<Rightarrow> manager \<Rightarrow> (int \<times> manager) option" where
  "do_add_service e s len handle isolated spid st =
     (if handle = 0 \<or> len = 0 \<or> len > 127 then Some (- 1, st)
      else do {
        ok \<leftarrow> svc_can_register s len spid;
        if \<not> ok then Some (- 1, st)
        else do {
          r \<leftarrow> (case find_svc s len st of
              Some (a, si) \<Rightarrow> do {
                st1 \<leftarrow> (if svc_handle si \<noteq> 0 then svcinfo_death a st else Some st);
                Some (Some (a, upd_svc a (\<lambda>x. x\<lparr>svc_handle := handle\<rparr>) st1)) }
            | None \<Rightarrow>
                (case malloc e st of
                   None \<Rightarrow> Some None
                 | Some a \<Rightarrow>
                     if length s < len + 1 then None
                     else Some (Some (a, st\<lparr>svclist := (a, new_svc s len handle isolated) # svclist st\<rparr>))));
          Some (case r of
              None \<Rightarrow> (- 1, st)
            | Some (a, st1) \<Rightarrow> (0, binder_link_to_death handle (death_of a) (binder_acquire handle st1))) } })"

section \<open>The handler\<close>

text \<open>\<open>B_PACK_CHARS('_','P','N','G')\<close>.\<close>

definition PING_TRANSACTION :: u32 where "PING_TRANSACTION = 0x5f504e47"
abbreviation SVC_MGR_GET_SERVICE :: u32 where "SVC_MGR_GET_SERVICE \<equiv> 1"
abbreviation SVC_MGR_CHECK_SERVICE :: u32 where "SVC_MGR_CHECK_SERVICE \<equiv> 2"
abbreviation SVC_MGR_ADD_SERVICE :: u32 where "SVC_MGR_ADD_SERVICE \<equiv> 3"
abbreviation SVC_MGR_LIST_SERVICES :: u32 where "SVC_MGR_LIST_SERVICES \<equiv> 4"

definition svcmgr_id :: "u16 list" where
  "svcmgr_id = map (\<lambda>c. word_of_nat (of_char c)) ''android.os.IServiceManager''"

type_synonym handled = "(int \<times> binder_io \<times> binder_io \<times> manager) option"

definition handle_find :: "binder_transaction_data \<Rightarrow> binder_io \<Rightarrow> binder_io \<Rightarrow> manager \<Rightarrow> handled" where
  "handle_find txn msg reply st = do {
     (p, len, msg1) \<leftarrow> bio_get_string16 msg;
     (case p of
        None \<Rightarrow> Some (- 1, msg1, reply, st)
      | Some pos \<Rightarrow> do {
          s \<leftarrow> u16_at msg1 pos (len + 1);
          handle \<leftarrow> do_find_service s len (td_sender_pid txn) st;
          reply1 \<leftarrow> (if handle = 0 then bio_put_uint32 reply 0 else bio_put_ref reply handle);
          Some (0, msg1, reply1, st) }) }"

definition handle_add :: "svc_env \<Rightarrow> binder_transaction_data \<Rightarrow> binder_io \<Rightarrow> binder_io \<Rightarrow> manager \<Rightarrow> handled" where
  "handle_add e txn msg reply st = do {
     (p, len, msg1) \<leftarrow> bio_get_string16 msg;
     (case p of
        None \<Rightarrow> Some (- 1, msg1, reply, st)
      | Some pos \<Rightarrow> do {
          s \<leftarrow> u16_at msg1 pos (len + 1);
          (handle, msg2) \<leftarrow> bio_get_ref msg1;
          (isol, msg3) \<leftarrow> bio_get_uint32 msg2;
          (r, st1) \<leftarrow> do_add_service e s len handle (isol \<noteq> 0) (td_sender_pid txn) st;
          if r \<noteq> 0 then Some (- 1, msg3, reply, st1)
          else do { reply1 \<leftarrow> bio_put_uint32 reply 0; Some (0, msg3, reply1, st1) } }) }"

definition handle_list :: "binder_transaction_data \<Rightarrow> binder_io \<Rightarrow> binder_io \<Rightarrow> manager \<Rightarrow> handled" where
  "handle_list txn msg reply st = do {
     (n, msg1) \<leftarrow> bio_get_uint32 msg;
     if \<not> svc_can_list (td_sender_pid txn) then Some (- 1, msg1, reply, st)
     else (case drop (unat n) (svclist st) of
       [] \<Rightarrow> Some (- 1, msg1, reply, st)
     | (a, si) # _ \<Rightarrow> do { reply1 \<leftarrow> bio_put_string16 reply (Some (svc_name si)); Some (0, msg1, reply1, st) }) }"

definition svcmgr_handler ::
  "svc_env \<Rightarrow> binder_transaction_data \<Rightarrow> binder_io \<Rightarrow> binder_io \<Rightarrow> manager \<Rightarrow> handled" where
  "svcmgr_handler e txn msg reply st =
     (if td_target txn \<noteq> 0 then Some (- 1, msg, reply, st)
      else if td_code txn = PING_TRANSACTION then Some (0, msg, reply, st)
      else do {
        (strict_policy, msg1) \<leftarrow> bio_get_uint32 msg;
        (p, len, msg2) \<leftarrow> bio_get_string16 msg1;
        (case p of
           None \<Rightarrow> Some (- 1, msg2, reply, st)
         | Some pos \<Rightarrow> do {
             s \<leftarrow> u16_at msg2 pos (len + 1);
             if len \<noteq> length svcmgr_id \<or> take len s \<noteq> svcmgr_id
             then do { _ \<leftarrow> str8 (Some s) len; Some (- 1, msg2, reply, st) }
             else if td_code txn = SVC_MGR_GET_SERVICE \<or> td_code txn = SVC_MGR_CHECK_SERVICE
             then handle_find txn msg2 reply st
             else if td_code txn = SVC_MGR_ADD_SERVICE then handle_add e txn msg2 reply st
             else if td_code txn = SVC_MGR_LIST_SERVICES then handle_list txn msg2 reply st
             else Some (- 1, msg2, reply, st) }) })"

end
