(* ===== verification/Svc_Loop.thy ===== *)
theory Svc_Loop
  imports Service_Manager
begin

text \<open>
  The service manager's side of the protocol in \<open>servicemanager/binder.c\<close>: what it does with the commands that the driver
  returns, the loops around \<open>ioctl\<close>, and the opening of the device.
\<close>

unbundle bit_operations_syntax

section \<open>Parsing\<close>

type_synonym binder_handler = "binder_transaction_data \<Rightarrow> binder_io \<Rightarrow> binder_io \<Rightarrow> manager \<Rightarrow> handled"

text \<open>A call: the handler's result goes back to the caller, together with the buffer.\<close>

definition parse_call :: "svc_env \<Rightarrow> user_space \<Rightarrow> binder_handler \<Rightarrow> binder_transaction_data \<Rightarrow> manager \<Rightarrow> manager option" where
  "parse_call e um func txn st = do {
     (res, msg, reply, st1) \<leftarrow> func txn (bio_init_from_txn um txn) (bio_init (junk_bio e) (rdata_at e) (rdata e) 256 4) st;
     Some (binder_send_reply e reply (td_buffer txn) res st1) }"

text \<open>
  \<open>binder_parse\<close> on the bytes \<open>buf\<close> of the read buffer, from \<open>ptr\<close> to \<open>stop\<close>. \<open>bio\<close> says whether a reply is wanted, \<open>io\<close>
  is where it goes. \<open>end - ptr\<close> is a \<open>uintptr_t\<close>.
\<close>

definition room :: "nat \<Rightarrow> nat \<Rightarrow> nat" where
  "room stop ptr = (stop + 2 ^ 64 - ptr) mod 2 ^ 64"

definition get_txn :: "byte list \<Rightarrow> nat \<Rightarrow> binder_transaction_data option" where
  "get_txn buf ptr = do { bs \<leftarrow> get_range buf ptr 64; get_transaction_data bs }"

function binder_parse ::
  "svc_env \<Rightarrow> user_space \<Rightarrow> binder_handler option \<Rightarrow> byte list \<Rightarrow> nat \<Rightarrow> int \<Rightarrow> bool \<Rightarrow> binder_io \<Rightarrow> nat \<Rightarrow> manager
    \<Rightarrow> (int \<times> binder_io \<times> manager) option" where
  "binder_parse e um func buf stop r bio io ptr st =
     (if ptr < stop
      then do {
        cmd \<leftarrow> get_u32 buf ptr;
        if cmd = BR_NOOP \<or> cmd = BR_TRANSACTION_COMPLETE then binder_parse e um func buf stop r bio io (ptr + 4) st
        else if cmd = BR_INCREFS \<or> cmd = BR_ACQUIRE \<or> cmd = BR_RELEASE \<or> cmd = BR_DECREFS
        then binder_parse e um func buf stop r bio io (ptr + 20) st
        else if cmd = BR_TRANSACTION
        then if room stop (ptr + 4) < 64 then Some (- 1, io, st)
             else do {
               st1 \<leftarrow> (case func of None \<Rightarrow> Some st
                        | Some f \<Rightarrow> do { txn \<leftarrow> get_txn buf (ptr + 4); parse_call e um f txn st });
               binder_parse e um func buf stop r bio io (ptr + 68) st1 }
        else if cmd = BR_REPLY
        then if room stop (ptr + 4) < 64 then Some (- 1, io, st)
             else do {
               io1 \<leftarrow> (if bio then do { txn \<leftarrow> get_txn buf (ptr + 4); Some (bio_init_from_txn um txn) } else Some io);
               binder_parse e um func buf stop 0 False io1 (ptr + 68) st }
        else if cmd = BR_DEAD_BINDER
        then do {
          cookie \<leftarrow> get_u64 buf (ptr + 4);
          st1 \<leftarrow> death_callback cookie st;
          binder_parse e um func buf stop r bio io (ptr + 12) st1 }
        else if cmd = BR_FAILED_REPLY \<or> cmd = BR_DEAD_REPLY then binder_parse e um func buf stop (- 1) bio io (ptr + 4) st
        else Some (- 1, io, st) }
      else Some (r, io, st))"
  by pat_completeness auto
termination
  by (relation "measure (\<lambda>(e, um, func, buf, stop, r, bio, io, ptr, st). stop - ptr)") auto

section \<open>The loops\<close>

text \<open>
  An answer of the driver to \<open>BINDER_WRITE_READ\<close>: the result, the read buffer, the bytes consumed in it, and the memory
  of the process at that time.
\<close>

record ioctl_answer =
  io_res :: int
  io_buf :: "byte list"
  io_consumed :: nat
  io_mem :: user_space

text \<open>
  The loop of the manager, with the answers of the driver as a function of what was done so far. It
  ends when the driver or a command fails, or with a reply that nobody asked for; otherwise it runs for ever.
\<close>

partial_function (option) loop_from ::
  "svc_env \<Rightarrow> (manager \<Rightarrow> ioctl_answer) \<Rightarrow> binder_handler \<Rightarrow> manager \<Rightarrow> (int \<times> manager) option" where
  "loop_from e drv func st =
     (let a = drv st in
      if io_res a < 0 then Some (io_res a, st)
      else do {
        (res, _, st1) \<leftarrow> binder_parse e (io_mem a) (Some func) (io_buf a) (io_consumed a) 1 False (junk_bio e) 0 st;
        if res \<le> 0 then Some (res, st1) else loop_from e drv func st1 })"

definition binder_loop ::
  "svc_env \<Rightarrow> (manager \<Rightarrow> ioctl_answer) \<Rightarrow> binder_handler \<Rightarrow> manager \<Rightarrow> (int \<times> manager) option" where
  "binder_loop e drv func st = loop_from e drv func (binder_write (u32_bytes BC_ENTER_LOOPER) st)"

text \<open>A call to another process. The second and later rounds write the same bytes again only if the driver has not consumed them.\<close>

definition call_data :: "svc_env \<Rightarrow> binder_io \<Rightarrow> u64 \<Rightarrow> u32 \<Rightarrow> u64 \<Rightarrow> u32 \<Rightarrow> binder_transaction_data" where
  "call_data e msg junk_high target junk_cookie code =
     \<lparr>td_target = push_bit 32 (drop_bit 32 junk_high) OR ucast target, td_cookie = junk_cookie, td_code = code, td_flags = 0,
      td_sender_pid = fst (junk_ids e), td_sender_euid = snd (junk_ids e), td_data_size = word_of_nat (bio_pos msg),
      td_offsets_size = word_of_nat (8 * offs_pos msg), td_buffer = data0 msg, td_offsets = offs0 msg\<rparr>"

definition failed_reply :: binder_io where
  "failed_reply = \<lparr>bio_data = [], bio_pos = 0, data_avail = 0, bio_offs = [], offs_pos = 0, offs_avail = 0,
     bio_flags = BIO_F_IOERROR, data0 = 0, offs0 = 0\<rparr>"

partial_function (option) call_from ::
  "svc_env \<Rightarrow> (nat \<Rightarrow> ioctl_answer) \<Rightarrow> nat \<Rightarrow> binder_io \<Rightarrow> manager \<Rightarrow> (int \<times> binder_io \<times> manager) option" where
  "call_from e drv i reply st =
     (if io_res (drv i) < 0 then Some (- 1, failed_reply, st)
      else do {
        (res, reply1, st1) \<leftarrow> binder_parse e (io_mem (drv i)) None (io_buf (drv i)) (io_consumed (drv i)) 1 True reply 0 st;
        if res = 0 then Some (0, reply1, st1)
        else if res < 0 then Some (- 1, failed_reply, st1)
        else call_from e drv (Suc i) reply1 st1 })"

definition binder_call ::
  "svc_env \<Rightarrow> (nat \<Rightarrow> ioctl_answer) \<Rightarrow> u64 \<Rightarrow> u64 \<Rightarrow> binder_io \<Rightarrow> binder_io \<Rightarrow> u32 \<Rightarrow> u32 \<Rightarrow> manager
    \<Rightarrow> (int \<times> binder_io \<times> manager) option" where
  "binder_call e drv junk_high junk_cookie msg reply target code st =
     (if bio_flags msg AND BIO_F_OVERFLOW \<noteq> 0 then Some (- 1, failed_reply, st)
      else call_from e drv 0 reply (st\<lparr>sent := sent st @
        [(u32_bytes BC_TRANSACTION @ transaction_data_bytes (call_data e msg junk_high target junk_cookie code),
          take (bio_pos msg) (bio_data msg), take (offs_pos msg) (bio_offs msg))]\<rparr>))"

section \<open>The device\<close>

text \<open>The answers of the system to the calls of \<open>binder_open\<close>; \<open>MAP_FAILED\<close> is \<open>None\<close>.\<close>

record system_calls =
  sys_malloc :: bool
  sys_open :: int
  sys_version :: "int \<times> u32"
  sys_mmap :: "nat option"

record binder_device =
  bs_fd :: int
  bs_mapped :: nat
  bs_mapsize :: nat

text \<open>The open device, if any, and the descriptors that are open afterwards.\<close>

definition binder_open_device :: "system_calls \<Rightarrow> nat \<Rightarrow> binder_device option \<times> int set" where
  "binder_open_device sys mapsize =
     (if \<not> sys_malloc sys then (None, {})
      else if sys_open sys < 0 then (None, {})
      else if fst (sys_version sys) = - 1 \<or> snd (sys_version sys) \<noteq> BINDER_CURRENT_PROTOCOL_VERSION then (None, {sys_open sys})
      else (case sys_mmap sys of
        None \<Rightarrow> (None, {})
      | Some m \<Rightarrow> (Some \<lparr>bs_fd = sys_open sys, bs_mapped = m, bs_mapsize = mapsize\<rparr>, {sys_open sys})))"

definition binder_close :: "binder_device \<Rightarrow> int set \<Rightarrow> int set" where
  "binder_close bs open_fds = open_fds - {bs_fd bs}"

text \<open>\<open>main\<close>: \<open>mgr\<close> is the result of \<open>BINDER_SET_CONTEXT_MGR\<close>.\<close>

definition svcmgr_main :: "svc_env \<Rightarrow> system_calls \<Rightarrow> int \<Rightarrow> (manager \<Rightarrow> ioctl_answer) \<Rightarrow> (int \<times> manager) option" where
  "svcmgr_main e sys mgr drv =
     (let st = \<lparr>svclist = [], sent = []\<rparr> in
      if fst (binder_open_device sys (128 * 1024)) = None then Some (- 1, st)
      else if mgr \<noteq> 0 then Some (- 1, st)
      else do { (_, st1) \<leftarrow> binder_loop e drv (svcmgr_handler e) st; Some (0, st1) })"

end
