(* ===== verification/Svc_Io_Props.thy ===== *)
theory Svc_Io_Props
  imports Svc_Io
begin

text \<open>
  What is put into a message is what is got out of it. The interface \<open>message_items\<close> says what a kind of item promises, for
  writing and for reading; sequences of items are treated once, over the interface, and it is interpreted on
  the functions of the service manager.
\<close>

unbundle bit_operations_syntax

section \<open>Messages\<close>

text \<open>A message to write to, and one to read from: what is counted as available is there.\<close>

definition room_ok :: "binder_io \<Rightarrow> bool" where
  "room_ok b \<longleftrightarrow> bio_pos b + data_avail b \<le> length (bio_data b) \<and> offs_pos b + offs_avail b \<le> length (bio_offs b)"

text \<open>\<open>b'\<close> continues \<open>b\<close> by \<open>n\<close> bytes and \<open>k\<close> offsets.\<close>

definition continues :: "binder_io \<Rightarrow> binder_io \<Rightarrow> nat \<Rightarrow> nat \<Rightarrow> bool" where
  "continues b b' n k \<longleftrightarrow> bio_pos b' = bio_pos b + n \<and> data_avail b = data_avail b' + n
     \<and> offs_pos b' = offs_pos b + k \<and> offs_avail b = offs_avail b' + k
     \<and> length (bio_data b') = length (bio_data b) \<and> length (bio_offs b') = length (bio_offs b)
     \<and> take (bio_pos b) (bio_data b') = take (bio_pos b) (bio_data b)
     \<and> take (offs_pos b) (bio_offs b') = take (offs_pos b) (bio_offs b)"

lemma take_shorter: "take (m + n) xs = take (m + n) ys \<Longrightarrow> take m xs = take m ys"
  by (metis le_add1 min.absorb1 take_take)

lemma continues_trans:
  assumes "continues b b' n k" and "continues b' b'' n' k'"
  shows "continues b b'' (n + n') (k + k')"
  using assms take_shorter [of "bio_pos b" n "bio_data b''" "bio_data b'"] take_shorter [of "offs_pos b" k "bio_offs b''" "bio_offs b'"]
  by (auto simp: continues_def)

lemma room_ok_continues: "room_ok b \<Longrightarrow> continues b b' n k \<Longrightarrow> room_ok b'"
  by (auto simp: room_ok_def continues_def)

definition written :: "binder_io \<Rightarrow> nat \<Rightarrow> nat \<Rightarrow> byte list" where
  "written b p n = take n (drop p (bio_data b))"

definition noted :: "binder_io \<Rightarrow> nat \<Rightarrow> nat \<Rightarrow> u64 list" where
  "noted b p k = take k (drop p (bio_offs b))"

section \<open>Items\<close>

text \<open>Sequences of items, written and read by functions for one.\<close>

fun put_all :: "('a \<Rightarrow> binder_io \<Rightarrow> binder_io option) \<Rightarrow> 'a list \<Rightarrow> binder_io \<Rightarrow> binder_io option" where
  "put_all put [] b = Some b"
| "put_all put (x # xs) b = Option.bind (put x b) (put_all put xs)"

fun get_all :: "('k \<Rightarrow> binder_io \<Rightarrow> ('a \<times> binder_io) option) \<Rightarrow> 'k list \<Rightarrow> binder_io \<Rightarrow> ('a list \<times> binder_io) option" where
  "get_all get [] b = Some ([], b)"
| "get_all get (k # ks) b = do { (x, b') \<leftarrow> get k b; (xs, b'') \<leftarrow> get_all get ks b'; Some (x # xs, b'') }"

text \<open>The message as its receiver sees it.\<close>

definition as_received :: "binder_io \<Rightarrow> binder_io" where
  "as_received b = \<lparr>bio_data = take (bio_pos b) (bio_data b), bio_pos = 0, data_avail = bio_pos b,
     bio_offs = take (offs_pos b) (bio_offs b), offs_pos = 0, offs_avail = offs_pos b, bio_flags = BIO_F_SHARED, data0 = data0 b, offs0 = offs0 b\<rparr>"

text \<open>
  An item of a kind takes \<open>width\<close> bytes and \<open>objs\<close> offsets; \<open>repr p x bs os\<close> says that at the position \<open>p\<close> the bytes
  \<open>bs\<close> and the offsets \<open>os\<close> stand for it.
\<close>

locale message_items =
  fixes put :: "'a \<Rightarrow> binder_io \<Rightarrow> binder_io option" and get :: "'k \<Rightarrow> binder_io \<Rightarrow> ('a \<times> binder_io) option"
    and kind :: "'a \<Rightarrow> 'k" and valid :: "'a \<Rightarrow> bool" and width :: "'a \<Rightarrow> nat" and objs :: "'a \<Rightarrow> nat"
    and repr :: "nat \<Rightarrow> 'a \<Rightarrow> byte list \<Rightarrow> u64 list \<Rightarrow> bool"
  assumes put_law: "room_ok b \<Longrightarrow> valid x \<Longrightarrow> width x \<le> data_avail b \<Longrightarrow> objs x \<le> offs_avail b \<Longrightarrow>
      \<exists>b'. put x b = Some b' \<and> continues b b' (width x) (objs x)
         \<and> repr (bio_pos b) x (written b' (bio_pos b) (width x)) (noted b' (offs_pos b) (objs x))"
    and get_law: "room_ok b \<Longrightarrow> valid x \<Longrightarrow> width x \<le> data_avail b \<Longrightarrow> repr (bio_pos b) x (written b (bio_pos b) (width x)) os \<Longrightarrow>
      set os \<subseteq> set (noted b (offs_pos b) (offs_avail b)) \<Longrightarrow>
      get (kind x) b = Some (x, b\<lparr>bio_pos := bio_pos b + width x, data_avail := data_avail b - width x\<rparr>)"
begin

abbreviation widths :: "'a list \<Rightarrow> nat" where "widths xs \<equiv> sum_list (map width xs)"
abbreviation objects :: "'a list \<Rightarrow> nat" where "objects xs \<equiv> sum_list (map objs xs)"

text \<open>The bytes and the offsets stand for a sequence of items from a position on.\<close>

fun repr_all :: "nat \<Rightarrow> 'a list \<Rightarrow> byte list \<Rightarrow> u64 list \<Rightarrow> bool" where
  "repr_all p [] bs os = True"
| "repr_all p (x # xs) bs os = (repr p x (take (width x) bs) (take (objs x) os)
     \<and> repr_all (p + width x) xs (drop (width x) bs) (drop (objs x) os))"

lemma put_all_law:
  assumes "room_ok b" and "\<forall>x\<in>set xs. valid x" and "widths xs \<le> data_avail b" and "objects xs \<le> offs_avail b"
  shows "\<exists>b'. put_all put xs b = Some b' \<and> continues b b' (widths xs) (objects xs)
    \<and> repr_all (bio_pos b) xs (written b' (bio_pos b) (widths xs)) (noted b' (offs_pos b) (objects xs))"
  using assms
proof (induction xs arbitrary: b)
  case Nil
  then show ?case by (simp add: continues_def)
next
  case (Cons x xs)
  obtain b1 where b1: "put x b = Some b1" "continues b b1 (width x) (objs x)"
    "repr (bio_pos b) x (written b1 (bio_pos b) (width x)) (noted b1 (offs_pos b) (objs x))"
    using put_law [OF Cons.prems(1), of x] Cons.prems(2-4) by auto
  have fits: "widths xs \<le> data_avail b1" "objects xs \<le> offs_avail b1" using Cons.prems(3,4) b1(2) by (auto simp: continues_def)
  obtain b2 where b2: "put_all put xs b1 = Some b2" "continues b1 b2 (widths xs) (objects xs)"
    "repr_all (bio_pos b1) xs (written b2 (bio_pos b1) (widths xs)) (noted b2 (offs_pos b1) (objects xs))"
    using Cons.IH [OF room_ok_continues [OF Cons.prems(1) b1(2)] _ fits] Cons.prems(2) by auto
  have pos: "bio_pos b1 = bio_pos b + width x" "offs_pos b1 = offs_pos b + objs x" using b1(2) by (auto simp: continues_def)
  have "take (bio_pos b1) (bio_data b2) = take (bio_pos b1) (bio_data b1)" "take (offs_pos b1) (bio_offs b2) = take (offs_pos b1) (bio_offs b1)"
    using b2(2) by (auto simp: continues_def)
  then have "drop (bio_pos b) (take (bio_pos b1) (bio_data b2)) = drop (bio_pos b) (take (bio_pos b1) (bio_data b1))"
    "drop (offs_pos b) (take (offs_pos b1) (bio_offs b2)) = drop (offs_pos b) (take (offs_pos b1) (bio_offs b1))" by simp_all
  then have same: "written b2 (bio_pos b) (width x) = written b1 (bio_pos b) (width x)"
    "noted b2 (offs_pos b) (objs x) = noted b1 (offs_pos b) (objs x)"
    by (simp_all add: written_def noted_def drop_take pos)
  have "repr_all (bio_pos b) (x # xs) (written b2 (bio_pos b) (widths (x # xs))) (noted b2 (offs_pos b) (objects (x # xs)))"
    using b1(3) b2(3) same pos by (simp add: written_def noted_def drop_take min_def add.commute)
  then show ?case using b1(1) b2(1) continues_trans [OF b1(2) b2(2)] by simp
qed

lemma get_all_law:
  assumes "room_ok b" and "\<forall>x\<in>set xs. valid x" and "widths xs \<le> data_avail b"
    and "repr_all (bio_pos b) xs (written b (bio_pos b) (widths xs)) os" and "set os \<subseteq> set (noted b (offs_pos b) (offs_avail b))"
  shows "get_all get (map kind xs) b = Some (xs, b\<lparr>bio_pos := bio_pos b + widths xs, data_avail := data_avail b - widths xs\<rparr>)"
  using assms
proof (induction xs arbitrary: b os)
  case Nil
  then show ?case by simp
next
  case (Cons x xs)
  let ?b = "b\<lparr>bio_pos := bio_pos b + width x, data_avail := data_avail b - width x\<rparr>"
  have one: "repr (bio_pos b) x (written b (bio_pos b) (width x)) (take (objs x) os)"
    and rest: "repr_all (bio_pos ?b) xs (written ?b (bio_pos ?b) (widths xs)) (drop (objs x) os)"
    using Cons.prems(4) by (simp_all add: written_def drop_take min_def add.commute)
  have sub: "set (take (objs x) os) \<subseteq> set (noted b (offs_pos b) (offs_avail b))" "set (drop (objs x) os) \<subseteq> set (noted ?b (offs_pos ?b) (offs_avail ?b))"
    using Cons.prems(5) set_take_subset [of "objs x" os] set_drop_subset [of "objs x" os] by (auto simp: noted_def)
  have "get (kind x) b = Some (x, ?b)" using Cons.prems(1-3) one sub(1) by (intro get_law) auto
  moreover have "get_all get (map kind xs) ?b = Some (xs, ?b\<lparr>bio_pos := bio_pos ?b + widths xs, data_avail := data_avail ?b - widths xs\<rparr>)"
    using Cons.prems(1-3) rest sub(2) by (intro Cons.IH) (auto simp: room_ok_def)
  ultimately show ?case by (simp add: add.assoc)
qed

text \<open>A message that was written and sent is read back.\<close>

lemma message_roundtrip:
  assumes "room_ok b" and "bio_pos b = 0" and "offs_pos b = 0" and "\<forall>x\<in>set xs. valid x"
    and "widths xs \<le> data_avail b" and "objects xs \<le> offs_avail b"
  shows "\<exists>b' b''. put_all put xs b = Some b' \<and> bio_pos b' = widths xs \<and> offs_pos b' = objects xs
    \<and> get_all get (map kind xs) (as_received b') = Some (xs, b'') \<and> data_avail b'' = 0"
proof -
  obtain b' where b': "put_all put xs b = Some b'" "continues b b' (widths xs) (objects xs)"
    "repr_all 0 xs (written b' 0 (widths xs)) (noted b' 0 (objects xs))"
    using put_all_law [OF assms(1,4-6)] assms(2,3) by auto
  have pos: "bio_pos b' = widths xs" "offs_pos b' = objects xs" using b'(2) assms(2,3) by (auto simp: continues_def)
  have ok: "room_ok (as_received b')" using room_ok_continues [OF assms(1) b'(2)] by (auto simp: room_ok_def as_received_def)
  have rep: "repr_all (bio_pos (as_received b')) xs (written (as_received b') (bio_pos (as_received b')) (widths xs)) (noted b' 0 (objects xs))"
    using b'(3) pos by (simp add: as_received_def written_def)
  have sub: "set (noted b' 0 (objects xs)) \<subseteq> set (noted (as_received b') (offs_pos (as_received b')) (offs_avail (as_received b')))"
    using pos by (simp add: as_received_def noted_def)
  have "get_all get (map kind xs) (as_received b') = Some (xs, (as_received b')\<lparr>bio_pos := bio_pos (as_received b') + widths xs,
      data_avail := data_avail (as_received b') - widths xs\<rparr>)"
    by (rule get_all_law [OF ok assms(4) _ rep sub]) (use pos in \<open>simp add: as_received_def\<close>)
  then show ?thesis using b'(1) pos by (simp add: as_received_def)
qed

end

section \<open>The items of the service manager\<close>

datatype bio_item = Item_Uint32 u32 | Item_String16 "u16 list" | Item_Ref u32
datatype bio_kind = Kind_Uint32 | Kind_String16 | Kind_Ref

fun put_item :: "bio_item \<Rightarrow> binder_io \<Rightarrow> binder_io option" where
  "put_item (Item_Uint32 w) b = bio_put_uint32 b w"
| "put_item (Item_String16 s) b = bio_put_string16 b (Some (s @ [0]))"
| "put_item (Item_Ref h) b = bio_put_ref b h"

fun get_item :: "bio_kind \<Rightarrow> binder_io \<Rightarrow> (bio_item \<times> binder_io) option" where
  "get_item Kind_Uint32 b = do { (w, b1) \<leftarrow> bio_get_uint32 b; Some (Item_Uint32 w, b1) }"
| "get_item Kind_String16 b = do {
     (p, len, b1) \<leftarrow> bio_get_string16 b;
     pos \<leftarrow> p;
     s \<leftarrow> u16_at b1 pos (len + 1);
     Some (Item_String16 (take len s), b1) }"
| "get_item Kind_Ref b = do { (h, b1) \<leftarrow> bio_get_ref b; Some (Item_Ref h, b1) }"

fun item_kind :: "bio_item \<Rightarrow> bio_kind" where
  "item_kind (Item_Uint32 w) = Kind_Uint32"
| "item_kind (Item_String16 s) = Kind_String16"
| "item_kind (Item_Ref h) = Kind_Ref"

fun item_valid :: "bio_item \<Rightarrow> bool" where
  "item_valid (Item_Uint32 w) = True"
| "item_valid (Item_String16 s) = (0 \<notin> set s \<and> length s < 2 ^ 29)"
| "item_valid (Item_Ref h) = (h \<noteq> 0)"

fun item_width :: "bio_item \<Rightarrow> nat" where
  "item_width (Item_Uint32 w) = 4"
| "item_width (Item_String16 s) = 4 + round4 ((length s + 1) * 2)"
| "item_width (Item_Ref h) = 24"

fun item_objs :: "bio_item \<Rightarrow> nat" where
  "item_objs (Item_Ref h) = 1"
| "item_objs _ = 0"

fun item_repr :: "nat \<Rightarrow> bio_item \<Rightarrow> byte list \<Rightarrow> u64 list \<Rightarrow> bool" where
  "item_repr p (Item_Uint32 w) bs os \<longleftrightarrow> get_u32 bs 0 = Some w"
| "item_repr p (Item_String16 s) bs os \<longleftrightarrow> get_u32 bs 0 = Some (word_of_nat (length s))
     \<and> get_range bs 4 (2 * (length s + 1)) = Some (u16s_bytes (s @ [0]))"
| "item_repr p (Item_Ref h) bs os \<longleftrightarrow> get_u32 bs 0 = Some BINDER_TYPE_HANDLE \<and> get_u32 bs 8 = Some h \<and> os = [word_of_nat p]"

lemma round4_small: "n < 2 ^ 63 \<Longrightarrow> round4 n = (n + 3) div 4 * 4"
  by (simp add: round4_def)

lemma round4_ge: "n < 2 ^ 63 \<Longrightarrow> n \<le> round4 n"
  by (simp add: round4_small)

lemma round4_4 [simp]: "round4 4 = 4" "round4 24 = 24"
  by (simp_all add: round4_def)

lemma get_written: "k + m \<le> n \<Longrightarrow> p + n \<le> length (bio_data b) \<Longrightarrow> get_range (written b p n) k m = get_range (bio_data b) (p + k) m"
  by (auto simp: written_def get_range_def drop_take min_def add.commute)

lemma get_u32_written: "k + 4 \<le> n \<Longrightarrow> p + n \<le> length (bio_data b) \<Longrightarrow> get_u32 (written b p n) k = get_u32 (bio_data b) (p + k)"
  by (simp add: get_u32_def get_written)

lemma store_ok:
  assumes "p + length x \<le> length (bio_data b)" and "q \<le> p"
  shows "\<exists>d. bio_store b p x = Some (b\<lparr>bio_data := d\<rparr>) \<and> length d = length (bio_data b) \<and> put_range (bio_data b) p x = Some d
    \<and> take q d = take q (bio_data b)"
proof -
  let ?d = "take p (bio_data b) @ x @ drop (p + length x) (bio_data b)"
  have d: "put_range (bio_data b) p x = Some ?d" using assms(1) by (simp add: put_range_def)
  show ?thesis using d put_range_length [OF d] assms by (simp add: bio_store_def min_def)
qed

lemma alloc_here: "round4 n \<le> data_avail b \<Longrightarrow>
    bio_alloc b n = (Some (bio_pos b), b\<lparr>bio_pos := bio_pos b + round4 n, data_avail := data_avail b - round4 n\<rparr>)"
  and get_here: "round4 n \<le> data_avail b \<Longrightarrow>
    bio_get b n = (Some (bio_pos b), b\<lparr>bio_pos := bio_pos b + round4 n, data_avail := data_avail b - round4 n\<rparr>)"
  by (simp_all add: bio_alloc_def bio_get_def Let_def)

lemma put_uint32_law:
  assumes "room_ok b" and "4 \<le> data_avail b"
  shows "\<exists>b'. bio_put_uint32 b w = Some b' \<and> continues b b' 4 0 \<and> get_u32 (bio_data b') (bio_pos b) = Some w"
proof -
  let ?b = "b\<lparr>bio_pos := bio_pos b + 4, data_avail := data_avail b - 4\<rparr>"
  have "bio_pos b + length (u32_bytes w) \<le> length (bio_data ?b)" using assms by (simp add: room_ok_def)
  then obtain d where d: "bio_store ?b (bio_pos b) (u32_bytes w) = Some (?b\<lparr>bio_data := d\<rparr>)" "length d = length (bio_data b)"
    "put_range (bio_data b) (bio_pos b) (u32_bytes w) = Some d" "take (bio_pos b) d = take (bio_pos b) (bio_data b)"
    using store_ok [of "bio_pos b" "u32_bytes w" ?b "bio_pos b"] by auto
  have "get_u32 d (bio_pos b) = Some w" using get_put_u32 d(3) by (simp add: put_u32_def)
  then show ?thesis using d assms(2) by (simp add: bio_put_uint32_def alloc_here continues_def)
qed

lemma length_u16s [simp]: "length (u16s_bytes s) = 2 * length s"
  by (induction s) (simp_all add: u16s_bytes_def)

lemma chars16_u16s: "chars16 (length s) (u16s_bytes s @ bs) = s"
  by (induction s) (simp_all add: u16s_bytes_def)

lemma strlen0_append: "0 \<notin> set s \<Longrightarrow> strlen0 (s @ 0 # r) = Some (length s)"
  by (induction s) auto

lemma find_off_member: "n \<le> length xs \<Longrightarrow> find_off n off xs = Some (off \<in> set (take n xs))"
  by (induction n off xs rule: find_off.induct) auto

lemma put_string16_law:
  assumes "room_ok b" and "0 \<notin> set s" and "length s < 2 ^ 29" and "4 + round4 ((length s + 1) * 2) \<le> data_avail b"
  shows "\<exists>b'. bio_put_string16 b (Some (s @ [0])) = Some b' \<and> continues b b' (4 + round4 ((length s + 1) * 2)) 0
    \<and> get_u32 (bio_data b') (bio_pos b) = Some (word_of_nat (length s))
    \<and> get_range (bio_data b') (bio_pos b + 4) (2 * (length s + 1)) = Some (u16s_bytes (s @ [0]))"
proof -
  let ?n = "(length s + 1) * 2"
  obtain b1 where b1: "bio_put_uint32 b (word_of_nat (length s)) = Some b1" "continues b b1 4 0"
    "get_u32 (bio_data b1) (bio_pos b) = Some (word_of_nat (length s))"
    using put_uint32_law [OF assms(1), of "word_of_nat (length s)"] assms(4) by auto
  let ?b = "b1\<lparr>bio_pos := bio_pos b1 + round4 ?n, data_avail := data_avail b1 - round4 ?n\<rparr>"
  have pos: "bio_pos b1 = bio_pos b + 4" "round4 ?n \<le> data_avail b1" using b1(2) assms(4) by (auto simp: continues_def)
  have big: "?n \<le> round4 ?n" using assms(3) by (intro round4_ge) simp
  have ok1: "room_ok b1" by (rule room_ok_continues [OF assms(1) b1(2)])
  have "bio_pos b1 + length (u16s_bytes (s @ [0])) \<le> length (bio_data ?b)" using ok1 pos(2) big by (simp add: room_ok_def)
  then obtain d where d: "bio_store ?b (bio_pos b1) (u16s_bytes (s @ [0])) = Some (?b\<lparr>bio_data := d\<rparr>)" "length d = length (bio_data b1)"
    "put_range (bio_data b1) (bio_pos b1) (u16s_bytes (s @ [0])) = Some d" "take (bio_pos b1) d = take (bio_pos b1) (bio_data b1)"
    using store_ok [of "bio_pos b1" "u16s_bytes (s @ [0])" ?b "bio_pos b1"] by auto
  have run: "bio_put_string16 b (Some (s @ [0])) = Some (?b\<lparr>bio_data := d\<rparr>)"
    using strlen0_append [OF assms(2), of "[]"] assms(3) b1(1) alloc_here [OF pos(2)] d(1) by (simp add: bio_put_string16_def)
  have "continues b1 (?b\<lparr>bio_data := d\<rparr>) (round4 ?n) 0" using d(2,4) pos(2) by (simp add: continues_def)
  then have c: "continues b (?b\<lparr>bio_data := d\<rparr>) (4 + round4 ?n) 0" using continues_trans [OF b1(2)] by simp
  have len: "get_u32 d (bio_pos b) = Some (word_of_nat (length s))"
    using get_put_other [OF d(3), of "bio_pos b" 4] b1(3) pos(1) by (simp add: get_u32_def)
  have "get_range d (bio_pos b + 4) (2 * (length s + 1)) = Some (u16s_bytes (s @ [0]))"
    using get_put_same [OF d(3)] pos(1) by (simp add: mult.commute)
  then show ?thesis using run c len by simp
qed

lemma put_ref_law:
  assumes "room_ok b" and "h \<noteq> 0" and "24 \<le> data_avail b" and "1 \<le> offs_avail b"
  shows "\<exists>b'. bio_put_ref b h = Some b' \<and> continues b b' 24 1 \<and> get_u32 (bio_data b') (bio_pos b) = Some BINDER_TYPE_HANDLE
    \<and> get_u32 (bio_data b') (bio_pos b + 8) = Some h \<and> noted b' (offs_pos b) 1 = [word_of_nat (bio_pos b)]"
proof -
  let ?p = "bio_pos b" and ?w = "0x7f OR FLAT_BINDER_FLAG_ACCEPTS_FDS :: u32"
  let ?b = "b\<lparr>bio_pos := ?p + 24, data_avail := data_avail b - 24, offs_avail := offs_avail b - 1,
    bio_offs := (bio_offs b)[offs_pos b := word_of_nat ?p], offs_pos := offs_pos b + 1\<rparr>"
  have in_offs: "offs_pos b < length (bio_offs b)" using assms(1,4) by (simp add: room_ok_def)
  have len: "?p + 24 \<le> length (bio_data b)" using assms(1,3) by (simp add: room_ok_def)
  have alloc: "bio_alloc_obj b = Some (Some ?p, ?b)"
    using assms(3,4) in_offs by (simp add: bio_alloc_obj_def alloc_here)
  obtain d1 where d1: "bio_store ?b (?p + 4) (u32_bytes ?w) = Some (?b\<lparr>bio_data := d1\<rparr>)" "length d1 = length (bio_data b)"
    "take ?p d1 = take ?p (bio_data b)"
    using store_ok [of "?p + 4" "u32_bytes ?w" ?b ?p] len by auto
  obtain d2 where d2: "bio_store (?b\<lparr>bio_data := d1\<rparr>) ?p (u32_bytes BINDER_TYPE_HANDLE) = Some (?b\<lparr>bio_data := d2\<rparr>)" "length d2 = length d1"
    "put_range d1 ?p (u32_bytes BINDER_TYPE_HANDLE) = Some d2" "take ?p d2 = take ?p d1"
    using store_ok [of ?p "u32_bytes BINDER_TYPE_HANDLE" "?b\<lparr>bio_data := d1\<rparr>" ?p] len d1(2) by auto
  obtain d3 where d3: "bio_store (?b\<lparr>bio_data := d2\<rparr>) (?p + 8) (u32_bytes h) = Some (?b\<lparr>bio_data := d3\<rparr>)" "length d3 = length d2"
    "put_range d2 (?p + 8) (u32_bytes h) = Some d3" "take ?p d3 = take ?p d2"
    using store_ok [of "?p + 8" "u32_bytes h" "?b\<lparr>bio_data := d2\<rparr>" ?p] len d1(2) d2(2) by auto
  obtain d4 where d4: "bio_store (?b\<lparr>bio_data := d3\<rparr>) (?p + 16) (u64_bytes 0) = Some (?b\<lparr>bio_data := d4\<rparr>)" "length d4 = length d3"
    "put_range d3 (?p + 16) (u64_bytes 0) = Some d4" "take ?p d4 = take ?p d3"
    using store_ok [of "?p + 16" "u64_bytes 0" "?b\<lparr>bio_data := d3\<rparr>" ?p] len d1(2) d2(2) d3(2) by auto
  have run: "bio_put_ref b h = Some (?b\<lparr>bio_data := d4\<rparr>)"
    using assms(2) alloc d1(1) d2(1) d3(1) d4(1) by (simp add: bio_put_ref_def)
  have ty: "get_u32 d4 ?p = Some BINDER_TYPE_HANDLE"
    using get_put_u32 [of d1 ?p BINDER_TYPE_HANDLE d2] d2(3) get_put_other [OF d3(3), of ?p 4] get_put_other [OF d4(3), of ?p 4]
    by (simp add: put_u32_def get_u32_def)
  have hd: "get_u32 d4 (?p + 8) = Some h"
    using get_put_u32 [of d2 "?p + 8" h d3] d3(3) get_put_other [OF d4(3), of "?p + 8" 4] by (simp add: put_u32_def get_u32_def)
  have off: "noted (?b\<lparr>bio_data := d4\<rparr>) (offs_pos b) 1 = [word_of_nat ?p]"
    using in_offs by (simp add: noted_def take_Suc hd_drop_conv_nth)
  show ?thesis
    using run ty hd off assms(3,4) d1(2,3) d2(2,4) d3(2,4) d4(2,4) by (simp add: continues_def)
qed

lemma put_item_law:
  assumes "room_ok b" and "item_valid x" and "item_width x \<le> data_avail b" and "item_objs x \<le> offs_avail b"
  shows "\<exists>b'. put_item x b = Some b' \<and> continues b b' (item_width x) (item_objs x)
    \<and> item_repr (bio_pos b) x (written b' (bio_pos b) (item_width x)) (noted b' (offs_pos b) (item_objs x))"
proof -
  have in_data: "bio_pos b + item_width x \<le> length (bio_data b')" if "continues b b' (item_width x) (item_objs x)" for b'
    using that assms(1,3) by (auto simp: room_ok_def continues_def)
  show ?thesis
  proof (cases x)
    case (Item_Uint32 w)
    then show ?thesis using put_uint32_law [OF assms(1), of w] assms(3) in_data by (auto simp: get_u32_written)
  next
    case (Item_String16 s)
    then obtain b' where b': "bio_put_string16 b (Some (s @ [0])) = Some b'" "continues b b' (4 + round4 ((length s + 1) * 2)) 0"
      "get_u32 (bio_data b') (bio_pos b) = Some (word_of_nat (length s))"
      "get_range (bio_data b') (bio_pos b + 4) (2 * (length s + 1)) = Some (u16s_bytes (s @ [0]))"
      using put_string16_law [OF assms(1), of s] assms(2,3) by auto
    have "2 * (length s + 1) \<le> round4 ((length s + 1) * 2)" using round4_ge [of "(length s + 1) * 2"] assms(2) Item_String16 by simp
    then show ?thesis using b' in_data [of b'] Item_String16 by (simp add: get_u32_written get_written)
  next
    case (Item_Ref h)
    then show ?thesis using put_ref_law [OF assms(1), of h] assms(2-4) in_data by (auto simp: get_u32_written)
  qed
qed

lemma get_item_law:
  assumes "room_ok b" and "item_valid x" and "item_width x \<le> data_avail b"
    and "item_repr (bio_pos b) x (written b (bio_pos b) (item_width x)) os" and "set os \<subseteq> set (noted b (offs_pos b) (offs_avail b))"
  shows "get_item (item_kind x) b = Some (x, b\<lparr>bio_pos := bio_pos b + item_width x, data_avail := data_avail b - item_width x\<rparr>)"
proof -
  have in_data: "bio_pos b + item_width x \<le> length (bio_data b)" using assms(1,3) by (simp add: room_ok_def)
  show ?thesis
  proof (cases x)
    case (Item_Uint32 w)
    then have "get_u32 (bio_data b) (bio_pos b) = Some w" using assms(4) in_data by (simp add: get_u32_written)
    then show ?thesis using Item_Uint32 assms(3) by (simp add: bio_get_uint32_def get_here)
  next
    case (Item_String16 s)
    let ?n = "(length s + 1) * 2" and ?b = "b\<lparr>bio_pos := bio_pos b + 4, data_avail := data_avail b - 4\<rparr>"
    have small: "length s < 2 ^ 29" and big: "?n \<le> round4 ?n" using round4_ge [of ?n] assms(2) Item_String16 by auto
    have got: "get_u32 (bio_data b) (bio_pos b) = Some (word_of_nat (length s))"
      "get_range (bio_data b) (bio_pos b + 4) (2 * (length s + 1)) = Some (u16s_bytes (s @ [0]))"
      using assms(4) in_data Item_String16 big by (simp_all add: get_u32_written get_written)
    have len: "unat (word_of_nat (length s) :: u32) = length s" using small by (simp add: unat_of_nat take_bit_nat_eq_self)
    let ?b2 = "b\<lparr>bio_pos := bio_pos b + item_width x, data_avail := data_avail b - item_width x\<rparr>"
    have "bio_get_uint32 b = Some (word_of_nat (length s), ?b)" using got(1) assms(3) Item_String16 by (simp add: bio_get_uint32_def get_here)
    moreover have "bio_get ?b ?n = (Some (bio_pos b + 4), ?b2)"
      using assms(3) Item_String16 by (subst get_here) (auto simp: add.assoc)
    ultimately have "bio_get_string16 b = Some (Some (bio_pos b + 4), length s, ?b2)" using len by (simp add: bio_get_string16_def)
    moreover have "u16_at ?b2 (bio_pos b + 4) (length s + 1) = Some (s @ [0])"
      using got(2) chars16_u16s [of "s @ [0]" "[]"] by (simp add: u16_at_def del: chars16.simps)
    ultimately show ?thesis using Item_String16 by simp
  next
    case (Item_Ref h)
    have got: "get_u32 (bio_data b) (bio_pos b) = Some BINDER_TYPE_HANDLE" "get_u32 (bio_data b) (bio_pos b + 8) = Some h"
      using assms(4) in_data Item_Ref by (simp_all add: get_u32_written)
    have "find_off (offs_avail b) (word_of_nat (bio_pos b)) (drop (offs_pos b) (bio_offs b)) = Some True"
      using assms(1,4,5) Item_Ref by (subst find_off_member) (auto simp: room_ok_def noted_def)
    then have "bio_get_obj b = Some (bio_get b 24)" by (simp add: bio_get_obj_def)
    then show ?thesis using Item_Ref got assms(3) by (simp add: bio_get_ref_def get_here)
  qed
qed

interpretation bio: message_items put_item get_item item_kind item_valid item_width item_objs item_repr
  by unfold_locales (rule put_item_law get_item_law, assumption+)+

section \<open>Property\<close>

text \<open>
  C14. A message survives the way from its writer to its reader: integers, strings without a zero character and handles, in any
  number and order that fits, come out of \<open>bio_get_*\<close> as they went into \<open>bio_put_*\<close>, the length of the message is the
  sum of their rounded sizes, each handle takes one offset, and nothing is left over.
\<close>

theorem bio_message_roundtrip:
  assumes "room_ok b" and "bio_pos b = 0" and "offs_pos b = 0" and "\<forall>x\<in>set xs. item_valid x"
    and "sum_list (map item_width xs) \<le> data_avail b" and "sum_list (map item_objs xs) \<le> offs_avail b"
  shows "\<exists>b' b''. put_all put_item xs b = Some b' \<and> bio_pos b' = sum_list (map item_width xs) \<and> offs_pos b' = sum_list (map item_objs xs)
    \<and> get_all get_item (map item_kind xs) (as_received b') = Some (xs, b'') \<and> data_avail b'' = 0"
  using assms by (rule bio.message_roundtrip)

text \<open>A name and a handle in the reply buffer of the manager.\<close>

definition reply_buffer :: binder_io where
  "reply_buffer = \<lparr>bio_data = replicate 224 0, bio_pos = 0, data_avail = 224, bio_offs = replicate 4 0, offs_pos = 0, offs_avail = 4,
     bio_flags = 0, data0 = 0x1020, offs0 = 0x1000\<rparr>"

theorem bio_message_roundtrip_witness:
  "\<exists>b' b''. put_all put_item [Item_String16 [104, 105], Item_Ref 7] reply_buffer = Some b'
    \<and> get_all get_item [Kind_String16, Kind_Ref] (as_received b') = Some ([Item_String16 [104, 105], Item_Ref 7], b'')"
proof -
  have "round4 6 = 8" by (simp add: round4_def)
  then show ?thesis
    using bio_message_roundtrip [of reply_buffer "[Item_String16 [104, 105], Item_Ref 7]"]
    by (auto simp: room_ok_def reply_buffer_def)
qed

end
