(* ===== verification/Svc_Registry.thy ===== *)
theory Svc_Registry
  imports Service_Manager Svc_Io_Props
begin

text \<open>
  The registry of the service manager as a map from names to handles. The interface \<open>name_service\<close> is what a registry promises for one
  registration and one death; histories of them are treated over the interface, and it is interpreted on the list of \<open>svcinfo\<close>.
\<close>

unbundle bit_operations_syntax

section \<open>The interface\<close>

datatype ('n, 'h, 'a) event = Register 'n 'h | Died 'a

fun run_events ::
  "('n \<Rightarrow> 'h \<Rightarrow> 's \<Rightarrow> (bool \<times> 's) option) \<Rightarrow> ('a \<Rightarrow> 's \<Rightarrow> 's option) \<Rightarrow> ('n, 'h, 'a) event list \<Rightarrow> 's \<Rightarrow> (bool list \<times> 's) option" where
  "run_events reg die [] s = Some ([], s)"
| "run_events reg die (Register n h # es) s = do {
     (ok, s1) \<leftarrow> reg n h s;
     (oks, s2) \<leftarrow> run_events reg die es s1;
     Some (ok # oks, s2) }"
| "run_events reg die (Died a # es) s = do {
     s1 \<leftarrow> die a s;
     (oks, s2) \<leftarrow> run_events reg die es s1;
     Some (True # oks, s2) }"

text \<open>What they do to a map from names to handles; \<open>who\<close> is the name of a service.\<close>

fun spec_events :: "('a \<Rightarrow> 'n option) \<Rightarrow> ('n, 'h, 'a) event list \<Rightarrow> bool list \<Rightarrow> ('n \<Rightarrow> 'h option) \<Rightarrow> ('n \<Rightarrow> 'h option)" where
  "spec_events who (Register n h # es) (ok # oks) m = spec_events who es oks (if ok then m(n \<mapsto> h) else m)"
| "spec_events who (Died a # es) (ok # oks) m = spec_events who es oks (m(the (who a) := None))"
| "spec_events who _ _ m = m"

locale name_service =
  fixes inv :: "'s \<Rightarrow> bool" and lookup :: "'s \<Rightarrow> 'n \<Rightarrow> 'h option" and who :: "'s \<Rightarrow> 'a \<Rightarrow> 'n option"
    and reg :: "'n \<Rightarrow> 'h \<Rightarrow> 's \<Rightarrow> (bool \<times> 's) option" and die :: "'a \<Rightarrow> 's \<Rightarrow> 's option" and valid :: "'n \<Rightarrow> 'h \<Rightarrow> bool"
  assumes reg_law: "inv s \<Longrightarrow> valid n h \<Longrightarrow> \<exists>ok s'. reg n h s = Some (ok, s') \<and> inv s'
      \<and> lookup s' = (if ok then (lookup s)(n \<mapsto> h) else lookup s) \<and> (\<forall>a m. who s a = Some m \<longrightarrow> who s' a = Some m)"
    and die_law: "inv s \<Longrightarrow> who s a = Some n \<Longrightarrow> \<exists>s'. die a s = Some s' \<and> inv s' \<and> lookup s' = (lookup s)(n := None) \<and> who s' = who s"
begin

definition event_ok :: "'s \<Rightarrow> ('n, 'h, 'a) event \<Rightarrow> bool" where
  "event_ok s ev = (case ev of Register n h \<Rightarrow> valid n h | Died a \<Rightarrow> who s a \<noteq> None)"

lemma spec_cong: "(\<And>a. Died a \<in> set es \<Longrightarrow> who1 a = who2 a) \<Longrightarrow> spec_events who1 es oks m = spec_events who2 es oks m"
  by (induction who1 es oks m rule: spec_events.induct) auto

lemma history_refines:
  assumes "inv s" and "\<forall>ev\<in>set es. event_ok s ev"
  shows "\<exists>oks s'. run_events reg die es s = Some (oks, s') \<and> inv s' \<and> length oks = length es
    \<and> lookup s' = spec_events (who s) es oks (lookup s) \<and> (\<forall>a m. who s a = Some m \<longrightarrow> who s' a = Some m)"
  using assms
proof (induction es arbitrary: s)
  case Nil
  then show ?case by simp
next
  case (Cons ev es)
  show ?case
  proof (cases ev)
    case (Register n h)
    then have "valid n h" using Cons.prems(2) by (simp add: event_ok_def)
    then obtain ok s1 where s1: "reg n h s = Some (ok, s1)" "inv s1" "lookup s1 = (if ok then (lookup s)(n \<mapsto> h) else lookup s)"
      "\<forall>a m. who s a = Some m \<longrightarrow> who s1 a = Some m" using reg_law [OF Cons.prems(1)] by blast
    have "\<forall>ev\<in>set es. event_ok s1 ev"
      using Cons.prems(2) s1(4) by (fastforce simp: event_ok_def split: event.split_asm event.split)
    then obtain oks s' where s': "run_events reg die es s1 = Some (oks, s')" "inv s'" "length oks = length es"
      "lookup s' = spec_events (who s1) es oks (lookup s1)" "\<forall>a m. who s1 a = Some m \<longrightarrow> who s' a = Some m"
      using Cons.IH [OF s1(2)] by blast
    have "spec_events (who s1) es oks m = spec_events (who s) es oks m" for m
      by (rule spec_cong) (use Cons.prems(2) s1(4) in \<open>fastforce simp: event_ok_def\<close>)
    then show ?thesis using Register s1 s' by (intro exI [of _ "ok # oks"] exI [of _ s']) simp
  next
    case (Died a)
    then obtain n where n: "who s a = Some n" using Cons.prems(2) by (auto simp: event_ok_def)
    obtain s1 where s1: "die a s = Some s1" "inv s1" "lookup s1 = (lookup s)(n := None)" "who s1 = who s"
      using die_law [OF Cons.prems(1) n] by blast
    have "event_ok s1 = event_ok s" unfolding event_ok_def s1(4) ..
    then have "\<forall>ev\<in>set es. event_ok s1 ev" using Cons.prems(2) by simp
    then obtain oks s' where "run_events reg die es s1 = Some (oks, s')" "inv s'" "length oks = length es"
      "lookup s' = spec_events (who s1) es oks (lookup s1)" "\<forall>a m. who s1 a = Some m \<longrightarrow> who s' a = Some m"
      using Cons.IH [OF s1(2)] by blast
    then show ?thesis using Died s1 n by (intro exI [of _ "True # oks"] exI [of _ s']) simp
  qed
qed

end

section \<open>The invariant\<close>

definition name_of :: "svcinfo \<Rightarrow> u16 list" where
  "name_of si = take (svc_len si) (svc_name si)"

definition svc_ok :: "nat \<times> svcinfo \<Rightarrow> bool" where
  "svc_ok = (\<lambda>(a, si). a + 16 < 2 ^ 64 \<and> 0 < svc_len si \<and> svc_len si \<le> 127 \<and> length (svc_name si) = svc_len si + 1
     \<and> svc_name si ! svc_len si = 0)"

text \<open>The references that the manager has taken and given back, by what it sent to the driver.\<close>

definition sent_count :: "u32 \<Rightarrow> u32 \<Rightarrow> manager \<Rightarrow> nat" where
  "sent_count cmd h st = length (filter (\<lambda>(bs, _, _). bs = u32_bytes cmd @ u32_bytes h) (sent st))"

definition services_with :: "u32 \<Rightarrow> manager \<Rightarrow> nat" where
  "services_with h st = length (filter (\<lambda>(a, si). svc_handle si = h) (svclist st))"

definition balanced :: "manager \<Rightarrow> bool" where
  "balanced st \<longleftrightarrow> (\<forall>h. h \<noteq> 0 \<longrightarrow> sent_count BC_ACQUIRE h st = sent_count BC_RELEASE h st + services_with h st)"

definition manager_ok :: "manager \<Rightarrow> bool" where
  "manager_ok st \<longleftrightarrow> distinct (map fst (svclist st)) \<and> distinct (map (name_of \<circ> snd) (svclist st))
     \<and> (\<forall>x\<in>set (svclist st). svc_ok x) \<and> balanced st"

definition malloc_ok :: "svc_env \<Rightarrow> bool" where
  "malloc_ok e \<longleftrightarrow> (\<forall>st a. malloc e st = Some a \<longrightarrow> a \<notin> fst ` set (svclist st) \<and> a + 16 < 2 ^ 64)"

definition svc_lookup :: "manager \<Rightarrow> u16 list \<Rightarrow> u32 option" where
  "svc_lookup st n = (case find (\<lambda>(a, si). name_of si = n) (svclist st) of
     None \<Rightarrow> None | Some (a, si) \<Rightarrow> if svc_handle si = 0 then None else Some (svc_handle si))"

definition svc_who :: "manager \<Rightarrow> nat \<Rightarrow> u16 list option" where
  "svc_who st a = map_option name_of (map_of (svclist st) a)"

lemma svc_ok_name: "svc_ok (a, si) \<Longrightarrow> length (name_of si) = svc_len si"
  by (simp add: svc_ok_def name_of_def)

lemma find_cong_set: "(\<And>x. x \<in> set xs \<Longrightarrow> P x = Q x) \<Longrightarrow> find P xs = find Q xs"
  by (induction xs) auto

lemma find_svc_name:
  assumes "manager_ok st" and "len \<le> length s"
  shows "find_svc s len st = find (\<lambda>(a, si). name_of si = take len s) (svclist st)"
  unfolding find_svc_def
proof (rule find_cong_set)
  fix x assume "x \<in> set (svclist st)"
  then have "svc_ok x" using assms(1) by (simp add: manager_ok_def)
  then obtain a si where x: "x = (a, si)" "svc_ok (a, si)" by (cases x) auto
  have "svc_len si = len" if "name_of si = take len s"
    using svc_ok_name [OF x(2)] arg_cong [OF that, of length] assms(2) by simp
  then have "svc_matches s len si \<longleftrightarrow> name_of si = take len s" by (auto simp: svc_matches_def name_of_def)
  then show "(case x of (a, si) \<Rightarrow> svc_matches s len si) = (case x of (a, si) \<Rightarrow> name_of si = take len s)" using x(1) by simp
qed

lemma find_in: "find P xs = Some x \<Longrightarrow> x \<in> set xs \<and> P x"
  by (induction xs) (auto split: if_split_asm)

lemma find_none: "find P xs = None \<longleftrightarrow> (\<forall>x\<in>set xs. \<not> P x)"
  by (induction xs) auto

text \<open>The memory behind a name is long enough for what is logged of it.\<close>

lemma str8_total: "len \<le> length s \<Longrightarrow> str8 (Some s) len \<noteq> None"
proof -
  have "n \<le> length s \<Longrightarrow> \<exists>r. str8_copy n s = Some r" for n
  proof (induction n arbitrary: s)
    case (Suc n)
    then show ?case by (cases s) auto
  qed simp
  then show "len \<le> length s \<Longrightarrow> ?thesis" by (simp add: str8_def)
qed

lemma always_allowed:
  "len \<le> length s \<Longrightarrow> svc_can_register s len spid = Some True" "len \<le> length s \<Longrightarrow> svc_can_find s len spid = Some True"
  using str8_total [of len s] by (auto simp: svc_can_register_def svc_can_find_def check_mac_perms_from_lookup_def)

lemma str8_name: "svc_ok (a, si) \<Longrightarrow> \<exists>r. str8 (Some (svc_name si)) (svc_len si) = Some r"
  using str8_total [of "svc_len si" "svc_name si"] by (auto simp: svc_ok_def)

section \<open>Reading the registry\<close>

lemma svc_entry_inj:
  assumes "manager_ok st" and "(a, si) \<in> set (svclist st)" and "(b, sj) \<in> set (svclist st)"
  shows "a = b \<Longrightarrow> si = sj" and "name_of si = name_of sj \<Longrightarrow> a = b"
proof -
  have d: "distinct (map fst (svclist st))" "distinct (map (name_of \<circ> snd) (svclist st))" using assms(1) by (simp_all add: manager_ok_def)
  show "a = b \<Longrightarrow> si = sj" using d(1) assms(2,3) by (meson eq_key_imp_eq_value)
  show "name_of si = name_of sj \<Longrightarrow> a = b" using d(2) assms(2,3) by (fastforce simp: distinct_map inj_on_def)
qed

lemma find_name_iff:
  assumes "manager_ok st"
  shows "find (\<lambda>(a, si). name_of si = n) (svclist st) = Some (a, si) \<longleftrightarrow> (a, si) \<in> set (svclist st) \<and> name_of si = n"
proof
  assume r: "(a, si) \<in> set (svclist st) \<and> name_of si = n"
  then obtain b sj where f: "find (\<lambda>(a, si). name_of si = n) (svclist st) = Some (b, sj)"
    using find_none [of "\<lambda>(a, si). name_of si = n" "svclist st"] by (cases "find (\<lambda>(a, si). name_of si = n) (svclist st)") auto
  then have "(b, sj) \<in> set (svclist st)" "name_of sj = n" using find_in [OF f] by auto
  then have "a = b" "si = sj" using svc_entry_inj [OF assms] r by blast+
  then show "find (\<lambda>(a, si). name_of si = n) (svclist st) = Some (a, si)" using f by simp
qed (auto dest: find_in)

lemma lookup_entry:
  "manager_ok st \<Longrightarrow> (a, si) \<in> set (svclist st) \<Longrightarrow> svc_lookup st (name_of si) = (if svc_handle si = 0 then None else Some (svc_handle si))"
  using find_name_iff [of st "name_of si" a si] by (simp add: svc_lookup_def)

lemma lookup_no_entry: "\<not> (\<exists>a si. (a, si) \<in> set (svclist st) \<and> name_of si = n) \<Longrightarrow> svc_lookup st n = None"
proof -
  assume "\<not> (\<exists>a si. (a, si) \<in> set (svclist st) \<and> name_of si = n)"
  then have "find (\<lambda>(a, si). name_of si = n) (svclist st) = None" unfolding find_none by auto
  then show ?thesis by (simp add: svc_lookup_def)
qed

lemma who_iff: "manager_ok st \<Longrightarrow> svc_who st a = Some n \<longleftrightarrow> (\<exists>si. (a, si) \<in> set (svclist st) \<and> name_of si = n)"
  by (auto simp: svc_who_def manager_ok_def)

text \<open>\<open>do_find_service\<close> is the lookup, for every name.\<close>

lemma find_service_lookup:
  assumes "manager_ok st" and "len \<le> length s"
  shows "do_find_service s len spid st = Some (case svc_lookup st (take len s) of None \<Rightarrow> 0 | Some h \<Rightarrow> h)"
proof -
  show ?thesis
    using find_svc_name [OF assms] always_allowed(2) [OF assms(2)] by (auto simp: do_find_service_def svc_lookup_def split: option.split)
qed

section \<open>Changing the registry\<close>

lemma u32_bytes_inject [simp]: "u32_bytes a = u32_bytes b \<longleftrightarrow> a = b"
  by (metis u32_roundtrip)

lemma sent_count_write [simp]:
  "sent_count cmd h (binder_write bs st) = sent_count cmd h st + (if bs = u32_bytes cmd @ u32_bytes h then 1 else 0)"
  by (simp add: sent_count_def binder_write_def)

lemma svclist_write [simp]: "svclist (binder_write bs st) = svclist st" "svclist (binder_acquire h st) = svclist st"
  "svclist (binder_release_ref h st) = svclist st" "svclist (binder_link_to_death h c st) = svclist st"
  by (simp_all add: binder_write_def binder_acquire_def binder_release_ref_def binder_link_to_death_def)

lemma sent_counts:
  "sent_count BC_ACQUIRE h (binder_acquire g st) = sent_count BC_ACQUIRE h st + (if g = h then 1 else 0)"
  "sent_count BC_RELEASE h (binder_acquire g st) = sent_count BC_RELEASE h st"
  "sent_count BC_ACQUIRE h (binder_release_ref g st) = sent_count BC_ACQUIRE h st"
  "sent_count BC_RELEASE h (binder_release_ref g st) = sent_count BC_RELEASE h st + (if g = h then 1 else 0)"
  "sent_count cmd h (binder_link_to_death g c st) = sent_count cmd h st"
proof -
  have ne: "BC_ACQUIRE \<noteq> BC_RELEASE" by (simp add: bc_codes)
  have "u32_bytes BC_REQUEST_DEATH_NOTIFICATION @ u32_bytes g @ u64_bytes c \<noteq> u32_bytes cmd @ u32_bytes h"
  proof
    assume "u32_bytes BC_REQUEST_DEATH_NOTIFICATION @ u32_bytes g @ u64_bytes c = u32_bytes cmd @ u32_bytes h"
    from arg_cong [OF this, of length] show False by simp
  qed
  then show "sent_count cmd h (binder_link_to_death g c st) = sent_count cmd h st" by (simp add: binder_link_to_death_def)
qed (auto simp: binder_acquire_def binder_release_ref_def bc_codes)

lemma upd_svc_list: "svclist (upd_svc a f st) = map (\<lambda>(b, si). (b, if b = a then f si else si)) (svclist st)"
  "sent (upd_svc a f st) = sent st"
  by (simp_all add: upd_svc_def)

lemma upd_absent: "a \<notin> fst ` set xs \<Longrightarrow> map (\<lambda>(b, si). (b, if b = a then f si else si)) xs = xs"
  by (induction xs) auto

lemma upd_mem: "(b, sj) \<in> set (map (\<lambda>(b, si). (b, if b = a then f si else si)) xs)
    \<longleftrightarrow> (\<exists>sk. (b, sk) \<in> set xs \<and> sj = (if b = a then f sk else sk))"
  by (induction xs) auto

lemma upd_map_of: "map_of (map (\<lambda>(b, si). (b, if b = a then f si else si)) xs) k = map_option (\<lambda>si. if k = a then f si else si) (map_of xs k)"
  by (induction xs) auto

lemma services_upd:
  assumes "distinct (map fst xs)" and "(a, si) \<in> set xs"
  shows "length (filter (\<lambda>(a, si). svc_handle si = h) (map (\<lambda>(b, si). (b, if b = a then f si else si)) xs)) + (if svc_handle si = h then 1 else 0)
    = length (filter (\<lambda>(a, si). svc_handle si = h) xs) + (if svc_handle (f si) = h then 1 else 0)"
  using assms
proof (induction xs)
  case (Cons x xs)
  obtain b sj where x: "x = (b, sj)" by fastforce
  show ?case
  proof (cases "b = a")
    case True
    then have "sj = si" "map (\<lambda>(b, si). (b, if b = a then f si else si)) xs = xs"
      using Cons.prems x upd_absent [of a xs f] by (auto simp: image_iff)
    then show ?thesis using x True by simp
  next
    case False
    then show ?thesis using Cons x by auto
  qed
qed simp

text \<open>A new handle, or none, for a service: the references follow.\<close>

lemma set_handle_ok:
  assumes "manager_ok st" and "(a, si) \<in> set (svclist st)"
    and "st' = (upd_svc a (\<lambda>x. x\<lparr>svc_handle := h\<rparr>) st)\<lparr>sent := sent st'\<rparr>"
    and "\<And>g. g \<noteq> 0 \<Longrightarrow> sent_count BC_ACQUIRE g st' + sent_count BC_RELEASE g st + (if svc_handle si = g then 1 else 0)
          = sent_count BC_RELEASE g st' + sent_count BC_ACQUIRE g st + (if h = g then 1 else 0)"
  shows "manager_ok st'" and "svc_lookup st' = (svc_lookup st)(name_of si := if h = 0 then None else Some h)" and "svc_who st' = svc_who st"
proof -
  let ?g = "\<lambda>(b, si). (b, if b = a then si\<lparr>svc_handle := h\<rparr> else si)"
  have l: "svclist st' = map ?g (svclist st)" by (subst assms(3)) (simp add: upd_svc_list)
  have ok: "distinct (map fst (svclist st))" "distinct (map (name_of \<circ> snd) (svclist st))" "\<forall>x\<in>set (svclist st). svc_ok x" "balanced st"
    using assms(1) by (simp_all add: manager_ok_def)
  have nm: "name_of (x\<lparr>svc_handle := h\<rparr>) = name_of x" for x by (simp add: name_of_def)
  have keys: "map fst (map ?g xs) = map fst xs" "map (name_of \<circ> snd) (map ?g xs) = map (name_of \<circ> snd) xs" for xs
    by (induction xs) (auto simp: nm)
  have sv: "\<forall>x\<in>set (map ?g (svclist st)). svc_ok x" using ok(3) by (auto simp: svc_ok_def)
  have bal: "balanced st'"
    unfolding balanced_def
  proof (intro allI impI)
    fix g :: u32 assume "g \<noteq> 0"
    then show "sent_count BC_ACQUIRE g st' = sent_count BC_RELEASE g st' + services_with g st'"
      using services_upd [OF ok(1) assms(2), of g "\<lambda>x. x\<lparr>svc_handle := h\<rparr>"] assms(4) [of g] ok(4)
      unfolding services_with_def balanced_def l by (simp del: filter_map)
  qed
  show m: "manager_ok st'" unfolding manager_ok_def l keys using ok(1,2) sv bal by blast
  have mem: "(b, sj) \<in> set (svclist st') \<longleftrightarrow> (\<exists>sk. (b, sk) \<in> set (svclist st) \<and> sj = (if b = a then sk\<lparr>svc_handle := h\<rparr> else sk))" for b sj
    unfolding l by (rule upd_mem)
  show "svc_who st' = svc_who st"
    unfolding svc_who_def l upd_map_of by (auto simp: fun_eq_iff nm option.map_comp comp_def intro!: option.map_cong0)
  show "svc_lookup st' = (svc_lookup st)(name_of si := if h = 0 then None else Some h)"
  proof
    fix n
    show "svc_lookup st' n = ((svc_lookup st)(name_of si := if h = 0 then None else Some h)) n"
    proof (cases "n = name_of si")
      case True
      have "(a, si\<lparr>svc_handle := h\<rparr>) \<in> set (svclist st')" unfolding mem using assms(2) by auto
      then show ?thesis using lookup_entry [OF m, of a "si\<lparr>svc_handle := h\<rparr>"] True nm by simp
    next
      case other: False
      have "svc_lookup st' n = svc_lookup st n"
      proof (cases "\<exists>b sj. (b, sj) \<in> set (svclist st) \<and> name_of sj = n")
        case True
        then obtain b sj where b: "(b, sj) \<in> set (svclist st)" "name_of sj = n" by blast
        then have "b \<noteq> a" using svc_entry_inj(1) [OF assms(1) b(1) assms(2)] other by auto
        then have "(b, sj) \<in> set (svclist st')" unfolding mem using b(1) by auto
        then show ?thesis using lookup_entry [OF m, of b sj] lookup_entry [OF assms(1) b(1)] b(2) by simp
      next
        case False
        then have "\<not> (\<exists>b sj. (b, sj) \<in> set (svclist st') \<and> name_of sj = n)" unfolding mem using nm by fastforce
        then show ?thesis using False lookup_no_entry by simp
      qed
      then show ?thesis using other by simp
    qed
  qed
qed

lemma death_ok:
  assumes "manager_ok st" and "(a, si) \<in> set (svclist st)"
  shows "\<exists>st'. svcinfo_death a st = Some st' \<and> manager_ok st' \<and> svc_lookup st' = (svc_lookup st)(name_of si := None) \<and> svc_who st' = svc_who st
    \<and> (\<exists>sj. (a, sj) \<in> set (svclist st') \<and> name_of sj = name_of si \<and> svc_handle sj = 0)"
proof -
  have d: "distinct (map fst (svclist st))" and sok: "svc_ok (a, si)" using assms by (auto simp: manager_ok_def)
  have m: "map_of (svclist st) a = Some si" using d assms(2) by simp
  obtain r where r: "str8 (Some (svc_name si)) (svc_len si) = Some r" using str8_name [OF sok] by blast
  show ?thesis
  proof (cases "svc_handle si = 0")
    case True
    have "svc_lookup st (name_of si) = None" using lookup_entry [OF assms] True by simp
    then have "(svc_lookup st)(name_of si := None) = svc_lookup st" by (rule fun_upd_idem)
    then show ?thesis using True m r assms by (auto simp: svcinfo_death_def)
  next
    case False
    let ?st = "upd_svc a (\<lambda>x. x\<lparr>svc_handle := 0\<rparr>) (binder_release_ref (svc_handle si) st)"
    have st: "svcinfo_death a st = Some ?st" using False m r by (simp add: svcinfo_death_def)
    have eq: "?st = (upd_svc a (\<lambda>x. x\<lparr>svc_handle := 0\<rparr>) st)\<lparr>sent := sent ?st\<rparr>" by (simp add: upd_svc_def binder_release_ref_def binder_write_def)
    have cnt: "sent_count cmd g ?st = sent_count cmd g (binder_release_ref (svc_handle si) st)" for cmd g
      by (simp add: sent_count_def upd_svc_list)
    have bal: "sent_count BC_ACQUIRE g ?st + sent_count BC_RELEASE g st + (if svc_handle si = g then 1 else 0)
        = sent_count BC_RELEASE g ?st + sent_count BC_ACQUIRE g st + (if 0 = g then 1 else 0)" if "g \<noteq> 0" for g
      unfolding cnt sent_counts using that by simp
    note ok = set_handle_ok [OF assms eq bal]
    have "(a, si\<lparr>svc_handle := 0\<rparr>) \<in> set (svclist ?st)" unfolding upd_svc_list upd_mem using assms(2) by auto
    then have ent: "\<exists>sj. (a, sj) \<in> set (svclist ?st) \<and> name_of sj = name_of si \<and> svc_handle sj = 0"
      by (intro exI [of _ "si\<lparr>svc_handle := 0\<rparr>"]) (simp add: name_of_def)
    have "svc_lookup ?st = (svc_lookup st)(name_of si := None)" using ok(2) by simp
    then show ?thesis using st ok(1,3) ent by (intro exI [of _ ?st]) simp
  qed
qed

lemma new_service_ok:
  assumes "manager_ok st" and "a \<notin> fst ` set (svclist st)" and "a + 16 < 2 ^ 64" and "0 < len" and "len \<le> 127" and "len < length s"
    and "find_svc s len st = None" and "h \<noteq> 0"
    and "svclist st' = (a, new_svc s len h isol) # svclist st"
    and "\<And>g. sent_count BC_ACQUIRE g st' = sent_count BC_ACQUIRE g st + (if h = g then 1 else 0)"
    and "\<And>g. sent_count BC_RELEASE g st' = sent_count BC_RELEASE g st"
  shows "manager_ok st'" and "svc_lookup st' = (svc_lookup st)(take len s \<mapsto> h)" and "\<forall>b m. svc_who st b = Some m \<longrightarrow> svc_who st' b = Some m"
proof -
  let ?si = "new_svc s len h isol"
  have nm: "name_of ?si = take len s" using assms(6) by (simp add: name_of_def new_svc_def)
  have none: "\<forall>x\<in>set (svclist st). name_of (snd x) \<noteq> take len s"
    using assms(6,7) find_svc_name [OF assms(1), of len s] find_none [of "\<lambda>(a, si). name_of si = take len s" "svclist st"] by auto
  have "svc_ok (a, ?si)" using assms(3-6) by (simp add: svc_ok_def new_svc_def)
  moreover have "balanced st'" using assms(1,8-11) by (auto simp: manager_ok_def balanced_def services_with_def new_svc_def)
  ultimately show m: "manager_ok st'" using assms(1,2,9) none nm by (auto simp: manager_ok_def)
  show "svc_lookup st' = (svc_lookup st)(take len s \<mapsto> h)"
    using assms(8,9) nm by (auto simp: svc_lookup_def new_svc_def fun_eq_iff)
  show "\<forall>b m. svc_who st b = Some m \<longrightarrow> svc_who st' b = Some m"
    unfolding who_iff [OF m] who_iff [OF assms(1)] using assms(9) by auto
qed

text \<open>A registration: refused without a change for lack of memory only, or recorded.\<close>

lemma add_service_ok:
  assumes "malloc_ok e" and "manager_ok st" and "h \<noteq> 0" and "0 < len" and "len \<le> 127" and "len < length s"
  shows "\<exists>r st'. do_add_service e s len h isol spid st = Some (r, st') \<and> manager_ok st'
    \<and> (\<forall>b m. svc_who st b = Some m \<longrightarrow> svc_who st' b = Some m)
    \<and> (r = 0 \<and> svc_lookup st' = (svc_lookup st)(take len s \<mapsto> h) \<or> r = - 1 \<and> st' = st \<and> malloc e st = None)"
proof -
  have can: "svc_can_register s len spid = Some True" using always_allowed(1) assms(6) by simp
  show ?thesis
  proof (cases "find_svc s len st")
    case None
    show ?thesis
    proof (cases "malloc e st")
      case no: None
      then show ?thesis using assms(2-5) None can by (auto simp: do_add_service_def)
    next
      case (Some a)
      let ?st = "st\<lparr>svclist := (a, new_svc s len h isol) # svclist st\<rparr>"
      let ?st' = "binder_link_to_death h (death_of a) (binder_acquire h ?st)"
      have a: "a \<notin> fst ` set (svclist st)" "a + 16 < 2 ^ 64" using assms(1) Some by (auto simp: malloc_ok_def)
      have run: "do_add_service e s len h isol spid st = Some (0, ?st')"
        using assms(3-6) None Some can by (simp add: do_add_service_def)
      have c: "sent_count cmd g ?st = sent_count cmd g st" for cmd g by (simp add: sent_count_def)
      have l: "svclist ?st' = (a, new_svc s len h isol) # svclist st" by simp
      have acq: "sent_count BC_ACQUIRE g ?st' = sent_count BC_ACQUIRE g st + (if h = g then 1 else 0)"
        and rel: "sent_count BC_RELEASE g ?st' = sent_count BC_RELEASE g st" for g
        unfolding sent_counts c by simp_all
      note ok = new_service_ok [OF assms(2) a assms(4-6) None assms(3) l acq rel]
      show ?thesis using run ok by blast
    qed
  next
    case (Some x)
    then obtain a si where f: "find_svc s len st = Some (a, si)" by (cases x) auto
    then have ent: "(a, si) \<in> set (svclist st)" "name_of si = take len s"
      using find_svc_name [OF assms(2), of len s] find_name_iff [OF assms(2), of "take len s" a si] assms(6) by auto
    obtain st1 where st1: "(if svc_handle si \<noteq> 0 then svcinfo_death a st else Some st) = Some st1" "manager_ok st1" "svc_who st1 = svc_who st"
      "(svc_lookup st1)(take len s \<mapsto> h) = (svc_lookup st)(take len s \<mapsto> h)"
      "\<exists>sj. (a, sj) \<in> set (svclist st1) \<and> name_of sj = name_of si \<and> svc_handle sj = 0"
    proof (cases "svc_handle si = 0")
      case True
      then show ?thesis using that [of st] ent assms(2) by auto
    next
      case False
      obtain st1 where "svcinfo_death a st = Some st1" "manager_ok st1" "svc_lookup st1 = (svc_lookup st)(name_of si := None)"
        "svc_who st1 = svc_who st" "\<exists>sj. (a, sj) \<in> set (svclist st1) \<and> name_of sj = name_of si \<and> svc_handle sj = 0"
        using death_ok [OF assms(2) ent(1)] by blast
      then show ?thesis using that [of st1] False ent(2) by simp
    qed
    then obtain sj where sj: "(a, sj) \<in> set (svclist st1)" "name_of sj = name_of si" "svc_handle sj = 0" by blast
    let ?st = "upd_svc a (\<lambda>x. x\<lparr>svc_handle := h\<rparr>) st1"
    let ?st' = "binder_link_to_death h (death_of a) (binder_acquire h ?st)"
    have run: "do_add_service e s len h isol spid st = Some (0, ?st')"
      using assms(3-5) f can st1(1) by (simp add: do_add_service_def)
    have c: "sent_count cmd g ?st = sent_count cmd g st1" for cmd g by (simp add: sent_count_def upd_svc_list)
    have eq: "?st' = ?st\<lparr>sent := sent ?st'\<rparr>" by (simp add: binder_link_to_death_def binder_acquire_def binder_write_def)
    have bal: "sent_count BC_ACQUIRE g ?st' + sent_count BC_RELEASE g st1 + (if svc_handle sj = g then 1 else 0)
        = sent_count BC_RELEASE g ?st' + sent_count BC_ACQUIRE g st1 + (if h = g then 1 else 0)" if "g \<noteq> 0" for g
      unfolding sent_counts c using that sj(3) by simp
    note ok = set_handle_ok [OF st1(2) sj(1) eq bal]
    have "svc_lookup ?st' = (svc_lookup st)(take len s \<mapsto> h)" using ok(2) assms(3) st1(4) sj(2) ent(2) by simp
    then show ?thesis using run ok(1,3) st1(3) by auto
  qed
qed

section \<open>The registry as a name service\<close>

text \<open>The state of the service is the registry together with its surroundings, whose allocator is trusted.\<close>

type_synonym svc_world = "svc_env \<times> manager"

definition world_ok :: "svc_world \<Rightarrow> bool" where
  "world_ok w \<longleftrightarrow> malloc_ok (fst w) \<and> manager_ok (snd w)"

definition svc_register :: "bool \<Rightarrow> u32 \<Rightarrow> u16 list \<Rightarrow> u32 \<Rightarrow> svc_world \<Rightarrow> (bool \<times> svc_world) option" where
  "svc_register isol spid n h w =
     map_option (\<lambda>(r, st'). (r = 0, fst w, st')) (do_add_service (fst w) (n @ [0]) (length n) h isol spid (snd w))"

definition svc_died :: "nat \<Rightarrow> svc_world \<Rightarrow> svc_world option" where
  "svc_died a w = map_option (Pair (fst w)) (svcinfo_death a (snd w))"

definition name_valid :: "u16 list \<Rightarrow> u32 \<Rightarrow> bool" where
  "name_valid n h \<longleftrightarrow> n \<noteq> [] \<and> length n \<le> 127 \<and> h \<noteq> 0"

lemma register_law:
  assumes "world_ok w" and "name_valid n h"
  shows "\<exists>ok w'. svc_register isol spid n h w = Some (ok, w') \<and> world_ok w'
    \<and> svc_lookup (snd w') = (if ok then (svc_lookup (snd w))(n \<mapsto> h) else svc_lookup (snd w))
    \<and> (\<forall>a m. svc_who (snd w) a = Some m \<longrightarrow> svc_who (snd w') a = Some m)"
proof -
  obtain e st where w: "w = (e, st)" by fastforce
  obtain r st' where r: "do_add_service e (n @ [0]) (length n) h isol spid st = Some (r, st')" "manager_ok st'"
    "\<forall>a m. svc_who st a = Some m \<longrightarrow> svc_who st' a = Some m"
    "r = 0 \<and> svc_lookup st' = (svc_lookup st)(take (length n) (n @ [0]) \<mapsto> h) \<or> r = - 1 \<and> st' = st \<and> malloc e st = None"
    using add_service_ok [of e st h "length n" "n @ [0]" isol spid] assms unfolding name_valid_def world_ok_def w by auto
  show ?thesis
    by (rule exI [of _ "r = 0"], rule exI [of _ "(e, st')"]) (use r assms(1) w in \<open>auto simp: svc_register_def world_ok_def\<close>)
qed

lemma died_law:
  assumes "world_ok w" and "svc_who (snd w) a = Some n"
  shows "\<exists>w'. svc_died a w = Some w' \<and> world_ok w' \<and> svc_lookup (snd w') = (svc_lookup (snd w))(n := None) \<and> svc_who (snd w') = svc_who (snd w)"
proof -
  obtain e st where w: "w = (e, st)" by fastforce
  obtain si where "(a, si) \<in> set (svclist st)" "name_of si = n" using assms w by (auto simp: world_ok_def who_iff)
  then obtain st' where "svcinfo_death a st = Some st'" "manager_ok st'" "svc_lookup st' = (svc_lookup st)(n := None)" "svc_who st' = svc_who st"
    using death_ok [of st a si] assms(1) w by (auto simp: world_ok_def)
  then show ?thesis using assms(1) w by (simp add: svc_died_def world_ok_def)
qed

interpretation registry: name_service world_ok "\<lambda>w. svc_lookup (snd w)" "\<lambda>w. svc_who (snd w)" "svc_register isol spid" svc_died name_valid
  for isol spid
  by unfold_locales (rule register_law died_law, assumption+)+

section \<open>Property\<close>

text \<open>
  C11. The registry is a map from names to handles. For every history of registrations with valid names and handles, and of deaths of known
  services, the calls return; the registry then holds what a map does after the same updates, a registration overwrites an older one, and one that is
  refused changes nothing; \<open>do_find_service\<close> answers with the map, for every name. All along the references taken from the driver
  are exactly those of the registered handles: every \<open>BC_ACQUIRE\<close> is matched by a registered service or a \<open>BC_RELEASE\<close>.
\<close>

theorem registry_refines_map:
  assumes "malloc_ok e" and "manager_ok st"
    and "\<forall>ev\<in>set es. case ev of Register n h \<Rightarrow> name_valid n h | Died a \<Rightarrow> svc_who st a \<noteq> None"
  shows "\<exists>oks st'. run_events (svc_register isol spid) svc_died es (e, st) = Some (oks, e, st') \<and> length oks = length es
    \<and> svc_lookup st' = spec_events (svc_who st) es oks (svc_lookup st)
    \<and> (\<forall>n. do_find_service (n @ [0]) (length n) spid st' = Some (case svc_lookup st' n of None \<Rightarrow> 0 | Some h \<Rightarrow> h))
    \<and> manager_ok st' \<and> balanced st'"
proof -
  have fst: "fst w' = fst w" if "run_events (svc_register isol spid) svc_died es w = Some (oks, w')" for w w' oks
    using that
  proof (induction es arbitrary: w oks)
    case (Cons ev es)
    then show ?case
      by (cases ev) (auto elim!: option_bind_eq_SomeE simp: svc_register_def svc_died_def split: prod.split_asm)
  qed simp
  have ok: "\<forall>ev\<in>set es. registry.event_ok (e, st) ev" unfolding registry.event_ok_def snd_conv by (rule assms(3))
  have "world_ok (e, st)" using assms(1,2) by (simp add: world_ok_def)
  then obtain oks w' where w': "run_events (svc_register isol spid) svc_died es (e, st) = Some (oks, w')" "world_ok w'" "length oks = length es"
    "svc_lookup (snd w') = spec_events (svc_who st) es oks (svc_lookup st)"
    using registry.history_refines [OF _ ok, where isol = isol and spid = spid] by auto
  have "w' = (e, snd w')" using fst [OF w'(1)] by (cases w') simp
  moreover have "do_find_service (n @ [0]) (length n) spid (snd w') = Some (case svc_lookup (snd w') n of None \<Rightarrow> 0 | Some h \<Rightarrow> h)" for n
    using find_service_lookup [of "snd w'" "length n" "n @ [0]"] w'(2) by (simp add: world_ok_def)
  moreover have "manager_ok (snd w')" "balanced (snd w')" using w'(2) by (simp_all add: world_ok_def manager_ok_def)
  ultimately show ?thesis using w'(1,3,4) by metis
qed

text \<open>A service that is registered, dies, and is registered again under another handle.\<close>

definition small_env :: svc_env where
  "small_env = \<lparr>malloc = (\<lambda>st. if svclist st = [] then Some 0x1000 else None), junk_bio = reply_buffer, rdata = replicate 256 0,
     rdata_at = 0x1000, status_at = 0x2000, junk_ids = (0, 0)\<rparr>"

definition one_service :: manager where
  "one_service = snd (the (do_add_service small_env [104, 105, 0] 2 7 False 0 \<lparr>svclist = [], sent = []\<rparr>))"

lemma small_env_malloc: "malloc small_env st = (if svclist st = [] then Some 0x1000 else None)"
  by (simp add: small_env_def)

lemma small_env_ok: "malloc_ok small_env"
  by (simp add: malloc_ok_def small_env_malloc)

lemma no_services_ok: "manager_ok \<lparr>svclist = [], sent = []\<rparr>"
  by (simp add: manager_ok_def balanced_def sent_count_def services_with_def)

lemma one_service_run:
  "do_add_service small_env [104, 105, 0] 2 7 False 0 \<lparr>svclist = [], sent = []\<rparr> = Some (0, one_service)"
  "svclist one_service = [(0x1000, new_svc [104, 105, 0] 2 7 False)]"
proof -
  let ?st = "binder_link_to_death 7 (death_of 0x1000) (binder_acquire 7 \<lparr>svclist = [(0x1000, new_svc [104, 105, 0] 2 7 False)], sent = []\<rparr>)"
  have run: "do_add_service small_env [104, 105, 0] 2 7 False 0 \<lparr>svclist = [], sent = []\<rparr> = Some (0, ?st)"
    by (simp add: do_add_service_def always_allowed find_svc_def small_env_malloc)
  then show "do_add_service small_env [104, 105, 0] 2 7 False 0 \<lparr>svclist = [], sent = []\<rparr> = Some (0, one_service)"
    by (simp add: one_service_def)
  show "svclist one_service = [(0x1000, new_svc [104, 105, 0] 2 7 False)]" unfolding one_service_def run by simp
qed

lemma one_service_ok: "manager_ok one_service"
  using add_service_ok [OF small_env_ok no_services_ok, of 7 2 "[104, 105, 0]" False 0] one_service_run(1) by auto

theorem registry_refines_map_witness:
  "\<exists>oks st'. run_events (svc_register False 0) svc_died [Died 0x1000, Register [104, 105] 9] (small_env, one_service) = Some (oks, small_env, st')
    \<and> manager_ok st' \<and> balanced st'"
proof -
  have "svc_who one_service 0x1000 \<noteq> None" by (simp add: svc_who_def one_service_run)
  then have "\<forall>ev\<in>set [Died 0x1000, Register [104, 105] 9]. case ev of Register n h \<Rightarrow> name_valid n h | Died a \<Rightarrow> svc_who one_service a \<noteq> None"
    by (simp add: name_valid_def)
  then show ?thesis
    using registry_refines_map [OF small_env_ok one_service_ok, of "[Died 0x1000, Register [104, 105] 9]" False 0] by blast
qed

end
