(* ===== verification/Binder_Wire_Props.thy ===== *)
theory Binder_Wire_Props
  imports Binder_Wire
begin

text \<open>
  What the driver promises at its borders: structures that survive the way through bytes, write calls that end,
  read calls that stay in their buffer and calls that find the thread that waits for them.
\<close>

unbundle bit_operations_syntax

section \<open>The stack of a thread\<close>

text \<open>The transactions above one, and the threads that wait for them.\<close>

inductive stack_of :: "(nat \<Rightarrow> binder_transaction option) \<Rightarrow> nat option \<Rightarrow> nat list \<Rightarrow> bool" for T where
  bottom: "stack_of T None []"
| push: "T t = Some tx \<Longrightarrow> stack_of T (from_parent tx) ts \<Longrightarrow> stack_of T (Some t) (t # ts)"

definition senders :: "binder_state \<Rightarrow> nat list \<Rightarrow> nat list" where
  "senders s ts = List.map_filter (\<lambda>t. Option.bind (txns s t) tx_from) ts"

text \<open>The outermost thread of a process among them.\<close>

definition outermost :: "binder_state \<Rightarrow> nat \<Rightarrow> nat list \<Rightarrow> nat option \<Rightarrow> nat option" where
  "outermost s tp ts dflt =
     (case filter (\<lambda>f. map_option th_proc (thrs s f) = Some tp) (senders s ts) of [] \<Rightarrow> dflt | fs \<Rightarrow> Some (last fs))"

lemma stack_walk_outermost:
  assumes "stack_of (txns s) tip ts" and "\<forall>f\<in>set (senders s ts). thrs s f \<noteq> None"
  shows "stack_walk s tp tip acc = Some (outermost s tp ts acc)"
  using assms
proof (induction arbitrary: acc rule: stack_of.induct)
  case bottom
  then show ?case by (subst stack_walk.simps) (simp add: outermost_def senders_def List.map_filter_def)
next
  case (push t tx ts)
  show ?case
  proof (cases "tx_from tx")
    case None
    then have "senders s (t # ts) = senders s ts" using push(1) by (simp add: senders_def map_filter_simps)
    then show ?thesis using push None by (subst stack_walk.simps) (simp add: outermost_def)
  next
    case (Some f)
    then have more: "senders s (t # ts) = f # senders s ts" using push(1) by (simp add: senders_def map_filter_simps)
    then obtain fth where f: "thrs s f = Some fth" using push.prems by auto
    have "stack_walk s tp (Some t) acc = stack_walk s tp (from_parent tx) (if th_proc fth = tp then Some f else acc)"
      using push(1) Some f by (subst stack_walk.simps) simp
    also have "\<dots> = Some (outermost s tp ts (if th_proc fth = tp then Some f else acc))"
      using push.IH push.prems more by simp
    finally show ?thesis using f more by (auto simp: outermost_def split: list.split)
  qed
qed

section \<open>A small world\<close>

text \<open>A process with one thread, and a memory that holds some bytes.\<close>

definition one_thread :: binder_state where
  "one_thread = two_procs\<lparr>thrs := [9 \<mapsto> new_thread 1 10]\<rparr>"

definition memory_of :: "u64 \<Rightarrow> byte list \<Rightarrow> user_space" where
  "memory_of a bs = \<lparr>u_bytes = poke_bytes (\<lambda>_. None) a bs, u_writable = (\<lambda>_. True)\<rparr>"

lemma memory_read:
  assumes "length bs \<le> 2 ^ 64" and "i + n \<le> length bs"
  shows "copy_from_user (memory_of a bs) (a + word_of_nat i) n = Some (take n (drop i bs))"
  unfolding copy_from_user_def
proof (rule those_map_Some)
  fix j assume "j < n"
  then have "i + j < length bs" "take n (drop i bs) ! j = bs ! (i + j)" using assms(2) by auto
  then show "u_bytes (memory_of a bs) (a + word_of_nat i + word_of_nat j) = Some (take n (drop i bs) ! j)"
    using poke_bytes_inside [of "i + j" bs "\<lambda>_. None" a] assms(1) by (simp add: memory_of_def add.assoc)
qed (use assms in simp)

lemma memory_word: "get_user32 (memory_of a (u32_bytes w)) q = Some v \<Longrightarrow> q = a \<and> v = w"
proof -
  assume *: "get_user32 (memory_of a (u32_bytes w)) q = Some v"
  have here: "u_bytes (memory_of a (u32_bytes w)) (q + word_of_nat i) \<noteq> None" if "i < 4" for i
    using * that unfolding get_user32_def copy_from_user_def
    by (auto simp: numeral_eq_Suc less_Suc_eq split: option.split_asm)
  have at: "\<exists>j<4. q + word_of_nat i = a + word_of_nat j" if "i < 4" for i
  proof (rule ccontr)
    assume "\<not> (\<exists>j<4. q + word_of_nat i = a + word_of_nat j)"
    then have "poke_bytes (\<lambda>_. None) a (u32_bytes w) (q + word_of_nat i) = None" by (intro poke_bytes_outside) auto
    then show False using here [OF that] by (simp add: memory_of_def)
  qed
  obtain i j where ij: "i < 4" "q = a + word_of_nat i" "j < 4" "q + word_of_nat 3 = a + word_of_nat j" using at [of 0] at [of 3] by auto
  then have "(word_of_nat (i + 3) :: u64) = word_of_nat j" by simp
  then have "i + 3 = j" using ij(1,3) by (simp add: word_of_nat_eq_iff take_bit_nat_eq_self del: of_nat_add)
  then have "i = 0" using ij(3) by simp
  then have q: "q = a" using ij(2) by simp
  then show ?thesis using * memory_read [of "u32_bytes w" 0 4 a] by (simp add: get_user32_def)
qed

section \<open>Past the end\<close>

text \<open>
  The loops only compare the pointer with the end before a command or an item, so that both can pass it. A write
  of four bytes whose command is \<open>BC_FREE_BUFFER\<close> consumes twelve.
\<close>

lemma write_passes_end:
  "map_option (\<lambda>(ret, wc, s'). (ret, wc))
     (binder_thread_write plain_driver (plain_caller 10) (memory_of 0x1000 (u32_bytes BC_FREE_BUFFER @ u64_bytes 0)) 1 9 0x1000 4 0 one_thread)
   = Some (0, 12)"
proof -
  let ?um = "memory_of 0x1000 (u32_bytes BC_FREE_BUFFER @ u64_bytes 0)"
  have g: "get_user32 ?um 0x1000 = Some BC_FREE_BUFFER" "get_user64 ?um 0x1004 = Some 0"
    using memory_read [of "u32_bytes BC_FREE_BUFFER @ u64_bytes 0" 0 4 "0x1000"]
      memory_read [of "u32_bytes BC_FREE_BUFFER @ u64_bytes 0" 4 8 "0x1000"] by (simp_all add: get_user32_def get_user64_def)
  have pr: "procs one_thread 1 = Some (new_proc (plain_caller 10) 0)" and th: "thrs one_thread 9 = Some (new_thread 1 10)"
    by (simp_all add: one_thread_def two_procs_fields)
  have "user_free_buffer plain_driver 1 9 0 one_thread = Some one_thread"
    using pr by (simp add: user_free_buffer_def new_proc_def zeroed_alloc_def binder_buffer_lookup_def)
  then have cmd: "write_command plain_driver (plain_caller 10) ?um 1 9 BC_FREE_BUFFER 0x1004 one_thread = Some (Inr 0x100c, one_thread)"
    using g(2) by (simp add: write_command_def bc_codes arg64_def step_to_def)
  have "write_loop (Suc (Suc n)) plain_driver (plain_caller 10) ?um 1 9 0x1000 0x1000 0x1004 0 one_thread = Some (0, 12, one_thread)" for n
    using th g(1) cmd by (simp add: new_thread_def)
  from this [of 3] show ?thesis by (simp add: binder_thread_write_def del: write_loop.simps)
qed

text \<open>With a read buffer of one byte, \<open>end - ptr\<close> is negative behind \<open>BR_NOOP\<close>, and compared as unsigned: the items are written too.\<close>

lemma read_passes_end:
  "map_option (\<lambda>(ret, rc, um', s'). (ret, rc, u_bytes um' 0x1004))
     (binder_thread_read plain_driver (plain_caller 10) (\<lambda>_ s. (0, s)) (memory_of 0x1000 []) 1 9 0x1000 1 0 True
       (one_thread\<lparr>queues := (\<lambda>_. [])(Thread_Todo 9 := [W_Transaction_Complete 5]), entry := (\<lambda>_. None)(W_Transaction_Complete 5 := Some (Thread_Todo 9))\<rparr>))
   = Some (0, 8, Some 6)"
proof -
  let ?s = "one_thread\<lparr>queues := (\<lambda>_. [])(Thread_Todo 9 := [W_Transaction_Complete 5]), entry := (\<lambda>_. None)(W_Transaction_Complete 5 := Some (Thread_Todo 9))\<rparr>"
  let ?e = "\<lambda>_ s. (0 :: int, s)" and ?s1 = "one_thread\<lparr>queues := (\<lambda>_. []), entry := (\<lambda>_. None)\<rparr>"
  have th: "thrs one_thread = [9 \<mapsto> new_thread 1 10]" and pr: "procs one_thread 1 = Some (new_proc (plain_caller 10) 0)"
    by (simp_all add: one_thread_def two_procs_fields)
  have w: "copy_to_user um a bs = Some (um\<lparr>u_bytes := poke_bytes (u_bytes um) a bs\<rparr>)" if "u_writable um = (\<lambda>_. True)" for um a bs
    using that by (simp add: copy_to_user_def list_all_iff)
  define um1 where "um1 = (memory_of 0x1000 [])\<lparr>u_bytes := poke_bytes (u_bytes (memory_of 0x1000 [])) 0x1000 (u32_bytes BR_NOOP)\<rparr>"
  define um2 where "um2 = um1\<lparr>u_bytes := poke_bytes (u_bytes um1) 0x1004 (u32_bytes BR_TRANSACTION_COMPLETE)\<rparr>"
  have um: "put_user32 (memory_of 0x1000 []) 0x1000 BR_NOOP = Some um1" "put_user32 um1 0x1004 BR_TRANSACTION_COMPLETE = Some um2"
    using w by (simp_all add: um1_def um2_def memory_of_def)
  have a: "read_errors um1 9 0x1004 0x1001 ?s = Some (Read_On 0x1004, um1, ?s)"
    using th by (simp add: read_errors_def new_thread_def)
  have b: "read_wait plain_driver (plain_caller 10) (\<lambda>s. (0, s)) 1 9 False True ?s = Some (0, ?s)"
    using th pr by (simp add: read_wait_def wait_begin_def wait_end_def upd_thread_def binder_has_thread_work_def new_thread_def)
  have c: "read_work plain_driver (plain_caller 10) um1 1 9 False 0x1000 0x1004 0x1001 ?s = Some (Read_On 0x1008, um2, ?s1)"
    using um(2) by (simp add: read_work_def put32_def list_del_def fun_eq_iff)
  have d: "read_work plain_driver (plain_caller 10) um2 1 9 False 0x1000 0x1008 0x1001 ?s1 = Some (Read_Done 0x1008, um2, ?s1)"
    using th by (simp add: read_work_def)
  have loop: "read_loop plain_driver (plain_caller 10) ?e 1 9 True 0x1000 0x1001 0 None um1 0x1004 ?s = Some (Read_Done 0x1008, um2, ?s1)"
  proof -
    have 2: "read_loop plain_driver (plain_caller 10) ?e 1 9 True 0x1000 0x1001 1 (Some False) um2 0x1008 ?s1 = Some (Read_Done 0x1008, um2, ?s1)"
      using d by (subst read_loop.simps) simp
    have 1: "read_loop plain_driver (plain_caller 10) ?e 1 9 True 0x1000 0x1001 1 (Some False) um1 0x1004 ?s = Some (Read_Done 0x1008, um2, ?s1)"
      using c 2 by (subst read_loop.simps) simp
    show ?thesis
      using th a b 1 by (subst read_loop.simps) simp
  qed
  have fin: "read_finish 1 9 0x1000 0x1008 um2 ?s1 = Some (0, 8, um2, ?s1)"
    using th pr by (simp add: read_finish_def new_thread_def new_proc_def)
  have byte: "u_bytes um2 0x1004 = Some 6"
  proof -
    have "u32_bytes BR_TRANSACTION_COMPLETE ! 0 = ucast BR_TRANSACTION_COMPLETE" by (simp add: le_bytes_def)
    also have "\<dots> = 6" by (simp add: br_codes)
    finally show ?thesis
      using poke_bytes_inside [of 0 "u32_bytes BR_TRANSACTION_COMPLETE" "u_bytes um1" "0x1004"] by (simp add: um2_def)
  qed
  show ?thesis
    unfolding binder_thread_read_def Let_def using um(1) loop fin byte by simp
qed

text \<open>
  The first reference of a process to the context manager needs memory; without it, \<open>BC_ACQUIRE\<close> on handle 0 reads the descriptor
  of a reference that is not there.
\<close>

lemma acquire_without_memory_faults:
  "change_ref (plain_driver\<lparr>kzalloc_ok := \<lambda>_. False\<rparr>) 2 BC_ACQUIRE 0 (one_node\<lparr>binder_context_mgr_node := Some 3\<rparr>) = None"
  by (simp add: change_ref_def binder_get_ref_for_node_def one_node_fields plain_driver_def kzalloc_def bc_codes new_proc_def)

section \<open>Properties\<close>

text \<open>
  The structures of the protocol survive the way through bytes: what the driver writes for a \<open>binder_transaction_data\<close> or a
  \<open>binder_write_read\<close> reads back as the same structure, every sequence of the right length is the encoding of exactly
  one, and a structure that was copied to a process is what the process reads there.
\<close>

theorem wire_roundtrip:
  "get_transaction_data (transaction_data_bytes d) = Some d \<and> get_write_read (write_read_bytes b) = Some b
    \<and> (length bs = 64 \<longrightarrow> (\<exists>d'. get_transaction_data bs = Some d' \<and> transaction_data_bytes d' = bs))
    \<and> (length cs = 48 \<longrightarrow> (\<exists>b'. get_write_read cs = Some b' \<and> write_read_bytes b' = cs))
    \<and> (copy_to_user um a (transaction_data_bytes d) = Some um' \<longrightarrow>
        Option.bind (copy_from_user um' a 64) get_transaction_data = Some d)"
proof -
  have "length (transaction_data_bytes d) = 64" by (simp add: transaction_data_bytes_def)
  then have "copy_from_user um' a 64 = Some (transaction_data_bytes d)" if "copy_to_user um a (transaction_data_bytes d) = Some um'"
    using copy_to_from_user [OF that] by simp
  then show ?thesis
    using transaction_data_encode transaction_data_decode write_read_encode write_read_decode by simp
qed

theorem wire_roundtrip_witness:
  "\<exists>d'. get_transaction_data (replicate 64 7) = Some d' \<and> transaction_data_bytes d' = replicate 64 7"
  using wire_roundtrip [of undefined undefined "replicate 64 7" "replicate 48 7"] by simp

text \<open>
  C8. A write call ends: when each command that it reads returns, from the states of an invariant into the
  invariant, the call does. It moves forward, passes the end of the buffer by 67 bytes at most, and leaves commands behind
  without an error code only when the thread has an error to read.
\<close>

theorem write_call_returns:
  assumes "unat ubuf + unat sz + 68 \<le> 2 ^ 64" and "consumed \<le> sz" and "I s" and "\<And>s. I s \<Longrightarrow> thrs s t \<noteq> None"
    and "\<And>q s cmd. I s \<Longrightarrow> get_user32 um q = Some cmd \<Longrightarrow> \<exists>r s'. write_command k c um p t cmd (q + 4) s = Some (r, s') \<and> I s'"
  shows "\<exists>ret wc s'. binder_thread_write k c um p t ubuf sz consumed s = Some (ret, wc, s') \<and> I s'
    \<and> consumed \<le> wc \<and> unat wc \<le> unat sz + 67
    \<and> (ret = 0 \<longrightarrow> sz \<le> wc \<or> (\<exists>th. thrs s' t = Some th \<and> return_error th \<noteq> BR_OK))"
proof -
  have u: "unat (ubuf + sz) = unat ubuf + unat sz" "unat (ubuf + consumed) = unat ubuf + unat consumed" "unat consumed \<le> unat sz"
    using assms(1,2) unat_forward [of ubuf "unat sz"] unat_forward [of ubuf "unat consumed"] by (simp_all add: word_le_nat_alt)
  have "\<exists>ret wc s'. write_loop (Suc (unat sz)) k c um p t ubuf (ubuf + consumed) (ubuf + sz) consumed s = Some (ret, wc, s') \<and> I s'
    \<and> unat (ubuf + consumed) \<le> unat ubuf + unat wc \<and> unat ubuf + unat wc \<le> unat (ubuf + sz) + 67
    \<and> (ret = 0 \<longrightarrow> unat (ubuf + sz) \<le> unat ubuf + unat wc \<or> (\<exists>th. thrs s' t = Some th \<and> return_error th \<noteq> BR_OK))"
    by (rule write_loop_returns [where I = I]) (use assms u in \<open>simp_all add: word_le_nat_alt\<close>)
  then show ?thesis using u by (simp add: binder_thread_write_def word_le_nat_alt del: write_loop.simps)
qed

text \<open>One \<open>BC_ENTER_LOOPER\<close>.\<close>

theorem write_call_returns_witness:
  "\<exists>ret wc s'. binder_thread_write plain_driver (plain_caller 10) (memory_of 0x1000 (u32_bytes BC_ENTER_LOOPER)) 1 9 0x1000 4 0
     one_thread = Some (ret, wc, s') \<and> thrs s' 9 \<noteq> None"
proof -
  let ?um = "memory_of 0x1000 (u32_bytes BC_ENTER_LOOPER)" and ?I = "\<lambda>s. thrs s 9 \<noteq> None"
  have "\<exists>r s'. write_command plain_driver (plain_caller 10) ?um 1 9 cmd (q + 4) s = Some (r, s') \<and> ?I s'"
    if "?I s" "get_user32 ?um q = Some cmd" for q s cmd
  proof -
    have "cmd = BC_ENTER_LOOPER" using memory_word [OF that(2)] by simp
    then show ?thesis using that(1) by (auto simp: write_command_def bc_codes enter_looper_def upd_thread_def step_to_def)
  qed
  moreover have "?I one_thread" by (simp add: one_thread_def)
  ultimately show ?thesis
    using write_call_returns [of "0x1000" 4 0 ?I one_thread 9 ?um plain_driver "plain_caller 10" 1] by fastforce
qed

text \<open>
  C9. A read call stays in its buffer: for sizes that are whole words, and a buffer of at least one, no byte outside of the
  buffer changes, and what is reported as consumed is not more than its size.
\<close>

theorem read_stays_inside:
  assumes "binder_thread_read k c env um p t ubuf sz consumed non_block s = Some (ret, rc, um', s')"
    and "4 \<le> unat sz" and "4 dvd unat sz" and "4 dvd unat consumed" and "consumed \<le> sz" and "unat ubuf + unat sz < 2 ^ 64"
  shows "writes_within (unat ubuf) (unat ubuf + unat sz) um um' \<and> consumed \<le> rc \<and> rc \<le> sz"
proof -
  have uend: "unat (ubuf + sz) = unat ubuf + unat sz" using unat_forward [of ubuf "unat sz"] assms(6) by simp
  have le: "unat consumed \<le> unat sz" using assms(5) by (simp add: word_le_nat_alt)
  define q where "q = (if consumed = 0 then ubuf + 4 else ubuf + consumed)"
  have q: "unat q = unat ubuf + (if consumed = 0 then 4 else unat consumed)"
    using unat_forward [of ubuf 4] unat_forward [of ubuf "unat consumed"] assms(2,6) le by (simp add: q_def)
  have pl: "place lo (unat (ubuf + sz)) q" if "lo \<le> unat q" for lo
    using that q uend assms(2-4) le by (auto simp: place_def)
  define fin where "fin = (\<lambda>(n, um1, s1). case n of Read_Error e \<Rightarrow> Some (e, consumed, um1, s1)
           | Read_Done ptr' \<Rightarrow> read_finish p t ubuf ptr' um1 s1 | Read_On ptr' \<Rightarrow> None | Read_Retry ptr' \<Rightarrow> None)"
  let ?run = "\<lambda>um1. Option.bind (read_loop k c env p t non_block ubuf (ubuf + sz) 0 None um1 q s) fin"
  have read: "binder_thread_read k c env um p t ubuf sz consumed non_block s =
      (if consumed = 0 then (case put_user32 um ubuf BR_NOOP of None \<Rightarrow> Some (- EFAULT, consumed, um, s) | Some um' \<Rightarrow> ?run um')
       else ?run um)"
    unfolding binder_thread_read_def Let_def q_def fin_def by simp
  obtain um1 where um1: "writes_within (unat ubuf) (unat (ubuf + sz)) um um1"
    "rc = consumed \<and> um' = um1 \<or> ?run um1 = Some (ret, rc, um', s')"
  proof (cases "consumed = 0 \<and> put_user32 um ubuf BR_NOOP \<noteq> None")
    case True
    then obtain um1 where um1: "put_user32 um ubuf BR_NOOP = Some um1" by blast
    have "writes_within (unat ubuf) (unat (ubuf + sz)) um um1" using assms(2,6) uend by (intro copy_to_user_within [OF um1]) auto
    then show ?thesis using that [of um1] True um1 assms(1) read by simp
  next
    case False
    then show ?thesis using that [of um] assms(1) read by (cases "consumed = 0") auto
  qed
  note loop = read_loop_within [OF _ pl, where um = um1]
  show ?thesis
    using um1(2)
  proof (elim disjE conjE)
    assume "rc = consumed" "um' = um1"
    then show ?thesis using um1(1) uend assms(5) by simp
  next
    assume fin: "?run um1 = Some (ret, rc, um', s')"
    then obtain n um2 s1 where run: "read_loop k c env p t non_block ubuf (ubuf + sz) 0 None um1 q s = Some (n, um2, s1)"
      by (auto elim!: option_bind_eq_SomeE)
    have n: "fin (n, um2, s1) = Some (ret, rc, um', s')" using fin run by simp
    have a: "step_within (unat ubuf) (unat (ubuf + sz)) um1 (n, um2, s1)" and b: "step_within (unat q) (unat (ubuf + sz)) um1 (n, um2, s1)"
      using loop [OF run] q by simp_all
    then have um2: "writes_within (unat ubuf) (unat (ubuf + sz)) um um2" using um1(1) writes_within_trans by (auto simp: step_within_def)
    show ?thesis
    proof (cases n)
      case (Read_Error e)
      then show ?thesis using n um2 uend assms(5) by (simp add: fin_def)
    next
      case (Read_Done r)
      have r: "unat q \<le> unat r" "unat r \<le> unat ubuf + unat sz" using b Read_Done uend by (auto simp: step_within_def place_def)
      have rc: "rc = r - ubuf" using n Read_Done by (auto simp: fin_def read_finish_def bind_eq_Some_conv split: if_split_asm option.split_asm)
      then have "unat rc = unat r - unat ubuf" using r(1) q by (simp add: unat_sub word_le_nat_alt)
      then have "consumed \<le> rc" "rc \<le> sz" using r q by (auto simp: word_le_nat_alt split: if_split_asm)
      moreover have "writes_within (unat ubuf) (unat (ubuf + sz)) um2 um'"
      proof -
        have "um' = um2 \<or> put_user32 um2 ubuf BR_SPAWN_LOOPER = Some um'"
          using n Read_Done by (auto simp: fin_def read_finish_def bind_eq_Some_conv split: if_split_asm option.split_asm)
        then show ?thesis using copy_to_user_within [of um2 ubuf "u32_bytes BR_SPAWN_LOOPER" um' "unat ubuf" "unat (ubuf + sz)"] assms(2,6) uend by auto
      qed
      ultimately show ?thesis using um2 uend writes_within_trans [of _ _ um um2 um'] by simp
    qed (use n in \<open>simp_all add: fin_def\<close>)
  qed
qed

text \<open>A thread that reads an error code.\<close>

theorem read_stays_inside_witness:
  "\<exists>ret rc um' s'. binder_thread_read plain_driver (plain_caller 10) (\<lambda>_ s. (0, s)) (memory_of 0x1000 []) 1 9 0x1000 16 0 True
       (one_thread\<lparr>thrs := [9 \<mapsto> (new_thread 1 10)\<lparr>return_error := BR_DEAD_REPLY\<rparr>]\<rparr>) = Some (ret, rc, um', s')
     \<and> writes_within 0x1000 0x1010 (memory_of 0x1000 []) um' \<and> rc \<le> 16"
proof -
  let ?s = "one_thread\<lparr>thrs := [9 \<mapsto> (new_thread 1 10)\<lparr>return_error := BR_DEAD_REPLY\<rparr>]\<rparr>"
  have wr: "\<exists>um'. copy_to_user um a bs = Some um' \<and> u_writable um' = u_writable um" if "u_writable um = (\<lambda>_. True)" for um a bs
    using that by (simp add: copy_to_user_def list_all_iff)
  obtain um1 where um1: "put_user32 (memory_of 0x1000 []) 0x1000 BR_NOOP = Some um1" "u_writable um1 = (\<lambda>_. True)"
    using wr [of "memory_of 0x1000 []"] by (auto simp: memory_of_def)
  obtain um2 where um2: "put_user32 um1 0x1004 BR_DEAD_REPLY = Some um2" using wr [OF um1(2)] by blast
  have loop: "read_loop plain_driver (plain_caller 10) (\<lambda>_ s. (0, s)) 1 9 True 0x1000 0x1010 0 None um1 0x1004 ?s
      = Some (Read_Done 0x1008, um2, one_thread)"
    using um2 by (subst read_loop.simps) (simp add: read_errors_def put32_def upd_thread_def one_thread_def new_thread_def br_codes)
  have "procs one_thread 1 = Some (new_proc (plain_caller 10) 0)" by (simp add: one_thread_def two_procs_fields)
  then have fin: "read_finish 1 9 0x1000 0x1008 um2 one_thread = Some (0, 8, um2, one_thread)"
    by (simp add: read_finish_def one_thread_def new_thread_def new_proc_def)
  have run: "binder_thread_read plain_driver (plain_caller 10) (\<lambda>_ s. (0, s)) (memory_of 0x1000 []) 1 9 0x1000 16 0 True ?s
      = Some (0, 8, um2, one_thread)"
    unfolding binder_thread_read_def Let_def using um1(1) loop fin by simp
  show ?thesis using read_stays_inside [OF run] run by simp
qed

text \<open>The node that a handle of a process names: handle 0 is the context manager.\<close>

definition names_node :: "binder_state \<Rightarrow> nat \<Rightarrow> u32 \<Rightarrow> nat \<Rightarrow> bool" where
  "names_node s p handle n \<longleftrightarrow>
     (if handle = 0 then binder_context_mgr_node s = Some n
      else \<exists>r rf. rfs s r = Some rf \<and> rf_proc rf = p \<and> rf_desc rf = handle \<and> rf_node rf = n)"

lemma call_node_names:
  assumes "store_ok s" and "procs s p = Some pr"
  shows "call_node s p handle = Some (Inr n) \<longleftrightarrow> names_node s p handle n"
    and "(\<forall>n. \<not> names_node s p handle n) \<Longrightarrow>
           call_node s p handle = Some (Inl (if handle = 0 then BR_DEAD_REPLY else BR_FAILED_REPLY))"
proof -
  note ref = get_ref_iff [OF assms, of handle]
  obtain res where res: "binder_get_ref s p handle = Some res" using get_ref_total [OF assms] by blast
  have found: "\<exists>rf. rfs s r = Some rf \<and> rf_proc rf = p \<and> rf_desc rf = handle" if "res = Some r" for r
    using ref(1) [of r] res that by auto
  have only: "res = Some r" if "rfs s r = Some rf" "rf_proc rf = p" "rf_desc rf = handle" for r rf
    using ref(1) [of r] res that by auto
  have some: "call_node s p handle = Some (Inr (rf_node rf))" "names_node s p handle n \<longleftrightarrow> n = rf_node rf"
    if "handle \<noteq> 0" "res = Some r" "rfs s r = Some rf" "rf_proc rf = p" "rf_desc rf = handle" for r rf n
    using that res only unfolding call_node_def names_node_def by (simp, metis option.inject)
  have none: "call_node s p handle = Some (Inl BR_FAILED_REPLY)" "\<not> names_node s p handle n" if "handle \<noteq> 0" "res = None" for n
    using that res only unfolding call_node_def names_node_def by auto
  have mgr: "call_node s p handle = Some (case binder_context_mgr_node s of None \<Rightarrow> Inl BR_DEAD_REPLY | Some n \<Rightarrow> Inr n)"
    "names_node s p handle n \<longleftrightarrow> binder_context_mgr_node s = Some n" if "handle = 0" for n
    using that by (simp_all add: call_node_def names_node_def)
  show "call_node s p handle = Some (Inr n) \<longleftrightarrow> names_node s p handle n"
  proof (cases "handle = 0")
    case True
    then show ?thesis unfolding mgr(1) [OF True] mgr(2) [OF True] by (simp split: option.split)
  next
    case False
    show ?thesis
    proof (cases res)
      case None
      then show ?thesis using none [OF False] by simp
    next
      case (Some r)
      then obtain rf where rf: "rfs s r = Some rf" "rf_proc rf = p" "rf_desc rf = handle" using found by blast
      show ?thesis using some [OF False Some rf] by auto
    qed
  qed
  show "call_node s p handle = Some (Inl (if handle = 0 then BR_DEAD_REPLY else BR_FAILED_REPLY))"
    if unknown: "\<forall>n. \<not> names_node s p handle n"
  proof (cases "handle = 0")
    case True
    have "binder_context_mgr_node s = None" using unknown mgr(2) [OF True] by (cases "binder_context_mgr_node s") blast+
    then show ?thesis using mgr(1) True by simp
  next
    case False
    show ?thesis
    proof (cases res)
      case None
      then show ?thesis using none [OF False] False by simp
    next
      case (Some r)
      then obtain rf where rf: "rfs s r = Some rf" "rf_proc rf = p" "rf_desc rf = handle" using found by blast
      show ?thesis using some(2) [OF False Some rf] unknown by blast
    qed
  qed
qed

text \<open>
  C7. A call goes to the right place, or is refused. A handle that names no node is refused with \<open>BR_FAILED_REPLY\<close>, handle 0 without
  a context manager and a node whose process is dead with \<open>BR_DEAD_REPLY\<close>. With a live node behind the handle, the call is refused when the
  security module refuses it or when the caller's stack does not end in a call to the caller. An asynchronous call, and one
  of a thread that is not in the middle of another, is for the process of the node as a whole. Any other call
  is for the outermost thread of that process that waits in the caller's own chain, if there is one.
\<close>

theorem call_finds_waiting_thread:
  assumes "store_ok s" and "procs s p = Some pr" and "thrs s t = Some th" and "stack_of (txns s) (transaction_stack th) ts"
    and "\<forall>f\<in>set (senders s ts). thrs s f \<noteq> None"
  shows "((\<forall>n. \<not> names_node s p (td_handle tr) n) \<longrightarrow>
      call_target k p t tr s = Some (Inl (if td_handle tr = 0 then BR_DEAD_REPLY else BR_FAILED_REPLY)))
    \<and> (\<forall>n nd. names_node s p (td_handle tr) n \<and> nds s n = Some nd \<longrightarrow>
      (nd_proc nd = None \<longrightarrow> call_target k p t tr s = Some (Inl BR_DEAD_REPLY))
      \<and> (\<forall>tp. nd_proc nd = Some tp \<longrightarrow> (\<exists>tpr. procs s tp = Some tpr \<and> call_target k p t tr s = Some
          (if security_binder_transaction k (tsk (pr_alloc pr)) (tsk (pr_alloc tpr)) < 0 then Inl BR_FAILED_REPLY
           else if td_flags tr AND TF_ONE_WAY \<noteq> 0 \<or> ts = []
           then Inr \<lparr>x_proc = tp, x_thread = None, x_node = Some n, x_in_reply = None\<rparr>
           else if map_option to_thread (txns s (hd ts)) \<noteq> Some (Some t) then Inl BR_FAILED_REPLY
           else Inr \<lparr>x_proc = tp, x_thread = outermost s tp ts None, x_node = Some n, x_in_reply = None\<rparr>))))"
    (is "?none \<and> (\<forall>n nd. ?names n nd \<longrightarrow> ?dead n nd \<and> ?live n nd)")
proof (intro conjI allI impI)
  note node = call_node_names [OF assms(1,2), of "td_handle tr"]
  show "call_target k p t tr s = Some (Inl (if td_handle tr = 0 then BR_DEAD_REPLY else BR_FAILED_REPLY))"
    if "\<forall>n. \<not> names_node s p (td_handle tr) n"
    using node(2) [OF that] assms(2,3) by (simp add: call_target_def)
  fix n nd assume n: "names_node s p (td_handle tr) n \<and> nds s n = Some nd"
  then have cn: "call_node s p (td_handle tr) = Some (Inr n)" using node(1) by blast
  show "call_target k p t tr s = Some (Inl BR_DEAD_REPLY)" if "nd_proc nd = None"
    using cn n that assms(2,3) by (simp add: call_target_def)
  fix tp assume tp: "nd_proc nd = Some tp"
  have "objects_ok (procs s) (nds s) (rfs s) (binder_dead_nodes s)" using assms(1) by (simp add: store_ok_def)
  then obtain tpr where tpr: "procs s tp = Some tpr" using objects_okD(2) n tp by (fastforce simp: node_ok_def)
  have tip: "(transaction_stack th = None \<longleftrightarrow> ts = []) \<and> (ts \<noteq> [] \<longrightarrow> (\<exists>tx. transaction_stack th = Some (hd ts) \<and> txns s (hd ts) = Some tx))"
    using assms(4) by (cases rule: stack_of.cases) auto
  note walk = stack_walk_outermost [OF assms(4,5), of tp None]
  show "\<exists>tpr. procs s tp = Some tpr \<and> call_target k p t tr s = Some
          (if security_binder_transaction k (tsk (pr_alloc pr)) (tsk (pr_alloc tpr)) < 0 then Inl BR_FAILED_REPLY
           else if td_flags tr AND TF_ONE_WAY \<noteq> 0 \<or> ts = []
           then Inr \<lparr>x_proc = tp, x_thread = None, x_node = Some n, x_in_reply = None\<rparr>
           else if map_option to_thread (txns s (hd ts)) \<noteq> Some (Some t) then Inl BR_FAILED_REPLY
           else Inr \<lparr>x_proc = tp, x_thread = outermost s tp ts None, x_node = Some n, x_in_reply = None\<rparr>)"
  proof (cases "ts = []")
    case True
    then show ?thesis using assms(2,3) n cn tp tpr tip by (simp add: call_target_def)
  next
    case False
    then obtain tx where tx: "transaction_stack th = Some (hd ts)" "txns s (hd ts) = Some tx" using tip by blast
    then have w: "stack_walk s tp (Some (hd ts)) None = Some (outermost s tp ts None)" using walk by simp
    show ?thesis using assms(2,3) n cn tp tpr False tx w unfolding call_target_def by simp
  qed
qed

text \<open>Thread 9 of process 2 serves a call of thread 8 of process 1, and calls back to a node of process 1.\<close>

definition nested_call :: binder_state where
  "nested_call = one_node\<lparr>thrs := [8 \<mapsto> (new_thread 1 10)\<lparr>transaction_stack := Some 7\<rparr>, 9 \<mapsto> (new_thread 2 20)\<lparr>transaction_stack := Some 7\<rparr>],
     txns := [7 \<mapsto> \<lparr>tx_debug_id = 1, tx_from = Some 8, from_parent = None, to_proc = Some 2, to_thread = Some 9,
       to_parent = None, need_reply = True, tx_buffer = None, tx_code = 0, tx_flags = 0, tx_priority = 0,
       saved_priority = 0, sender_euid = 0\<rparr>], binder_context_mgr_node := Some 3, next_addr := 10\<rparr>"

theorem call_finds_waiting_thread_witness:
  "call_target plain_driver 2 9 \<lparr>td_target = 0, td_cookie = 0, td_code = 1, td_flags = 0, td_sender_pid = 0, td_sender_euid = 0,
      td_data_size = 0, td_offsets_size = 0, td_buffer = 0, td_offsets = 0\<rparr> nested_call
    = Some (Inr \<lparr>x_proc = 1, x_thread = Some 8, x_node = Some 3, x_in_reply = None\<rparr>)
   \<and> call_target plain_driver 2 9 \<lparr>td_target = 5, td_cookie = 0, td_code = 1, td_flags = 0, td_sender_pid = 0, td_sender_euid = 0,
      td_data_size = 0, td_offsets_size = 0, td_buffer = 0, td_offsets = 0\<rparr> nested_call = Some (Inl BR_FAILED_REPLY)"
proof -
  let ?tr = "\<lambda>h. \<lparr>td_target = h, td_cookie = 0, td_code = 1, td_flags = 0, td_sender_pid = 0, td_sender_euid = 0,
      td_data_size = 0, td_offsets_size = 0, td_buffer = 0, td_offsets = 0\<rparr>"
  have ok: "store_ok nested_call"
  proof -
    have "queue_ok nested_call"
      using one_node_ok by (auto simp: nested_call_def store_ok_def queue_ok_def fresh_ok_def lists_ok_def one_node_fields(2))
    moreover have "deaths_ok nested_call" by (simp add: deaths_ok_def nested_call_def one_node_fields)
    ultimately show ?thesis using one_node_ok by (simp add: nested_call_def store_ok_def)
  qed
  obtain tx where tx: "txns nested_call 7 = Some tx" "from_parent tx = None" "tx_from tx = Some 8" "to_thread tx = Some 9"
    by (simp add: nested_call_def)
  have st: "stack_of (txns nested_call) (transaction_stack ((new_thread 2 20)\<lparr>transaction_stack := Some 7\<rparr>)) [7]"
    using stack_of.push [of "txns nested_call" 7 tx "[]"] stack_of.bottom tx(1,2) by simp
  have send: "senders nested_call [7] = [8]" using tx by (simp add: senders_def map_filter_simps)
  then have out: "outermost nested_call 1 [7] None = Some 8" by (simp add: outermost_def nested_call_def new_thread_def)
  have live: "\<forall>f\<in>set (senders nested_call [7]). thrs nested_call f \<noteq> None" using send by (simp add: nested_call_def)
  have pr: "procs nested_call 2 = Some (new_proc (plain_caller 20) 0)"
    and th: "thrs nested_call 9 = Some ((new_thread 2 20)\<lparr>transaction_stack := Some 7\<rparr>)"
    by (simp_all add: nested_call_def one_node_fields)
  note found = call_finds_waiting_thread [OF ok pr th st live, where k = plain_driver]
  have "names_node nested_call 2 0 3" "nds nested_call 3 = Some (new_node 1 0x10 0x20 1)" "\<And>n. \<not> names_node nested_call 2 5 n"
    by (simp_all add: names_node_def nested_call_def one_node_fields)
  then show ?thesis
    using found [of "?tr 0"] found [of "?tr 5"] tx out by (simp add: new_node_def plain_driver_def)
qed

end
