(* ===== verification/Svc_Props.thy ===== *)
theory Svc_Props
  imports Svc_Loop Svc_Registry Binder_Wire_Props
begin

text \<open>
  What the service manager as a whole promises: its handler is safe for every message, a service that was registered by one
  message is found by another, and where its protocol with the driver breaks.
\<close>

unbundle bit_operations_syntax

section \<open>Any message\<close>

text \<open>Reading never leaves the message.\<close>

definition same_memory :: "binder_io \<Rightarrow> binder_io \<Rightarrow> bool" where
  "same_memory b b' \<longleftrightarrow> bio_data b' = bio_data b \<and> bio_offs b' = bio_offs b"

lemma get_total:
  assumes "room_ok b"
  obtains r b' where "bio_get b n = (r, b')" and "room_ok b'" and "same_memory b b'"
    and "\<And>p. r = Some p \<Longrightarrow> p + round4 n \<le> length (bio_data b)"
  by (rule that [of "fst (bio_get b n)" "snd (bio_get b n)"])
    (use assms in \<open>auto simp: bio_get_def Let_def room_ok_def same_memory_def set_flag_def split: if_split_asm\<close>)

lemma get_uint32_total:
  assumes "room_ok b"
  obtains w b' where "bio_get_uint32 b = Some (w, b')" and "room_ok b'" and "same_memory b b'"
proof -
  obtain r b' where r: "bio_get b 4 = (r, b')" "room_ok b'" "same_memory b b'" "\<And>p. r = Some p \<Longrightarrow> p + round4 4 \<le> length (bio_data b)"
    using get_total [OF assms] by blast
  show ?thesis
  proof (cases r)
    case None
    then show ?thesis using that r by (simp add: bio_get_uint32_def)
  next
    case (Some p)
    then obtain w where "get_u32 (bio_data b') p = Some w" using get_u32_bytes [of p "bio_data b"] r(3,4) by (auto simp: same_memory_def)
    then show ?thesis using that r Some by (simp add: bio_get_uint32_def)
  qed
qed

lemma length_chars16 [simp]: "length (chars16 n bs) = n"
  by (induction n arbitrary: bs) simp_all

lemma u16_at_length: "u16_at b p n = Some s \<Longrightarrow> length s = n"
  by (auto simp: u16_at_def)

lemma get_string16_total:
  assumes "room_ok b"
  obtains p len b' where "bio_get_string16 b = Some (p, len, b')" and "room_ok b'" and "same_memory b b'"
    and "\<And>pos. p = Some pos \<Longrightarrow> \<exists>s. u16_at b' pos (len + 1) = Some s \<and> length s = len + 1"
proof -
  obtain w b1 where w: "bio_get_uint32 b = Some (w, b1)" "room_ok b1" "same_memory b b1" using get_uint32_total [OF assms] by blast
  obtain r b' where r: "bio_get b1 ((unat w + 1) * 2) = (r, b')" "room_ok b'" "same_memory b1 b'"
    "\<And>p. r = Some p \<Longrightarrow> p + round4 ((unat w + 1) * 2) \<le> length (bio_data b1)"
    using get_total [OF w(2)] by blast
  have "unat w < 2 ^ 32" using unsigned_less [of w] by simp
  then have big: "(unat w + 1) * 2 \<le> round4 ((unat w + 1) * 2)" by (intro round4_ge) simp
  have str: "\<exists>s. u16_at b' pos (unat w + 1) = Some s \<and> length s = unat w + 1" if "r = Some pos" for pos
    using r(3) r(4) [OF that] big by (auto simp: u16_at_def get_range_def same_memory_def)
  show ?thesis
    by (rule that [of r "unat w" b']) (use w r str in \<open>auto simp: bio_get_string16_def same_memory_def\<close>)
qed

lemma get_handle_total:
  assumes "room_ok b"
  obtains h b' where "bio_get_ref b = Some (h, b')" and "room_ok b'" and "same_memory b b'"
proof -
  have f: "find_off (offs_avail b) (word_of_nat (bio_pos b)) (drop (offs_pos b) (bio_offs b))
      = Some (word_of_nat (bio_pos b) \<in> set (take (offs_avail b) (drop (offs_pos b) (bio_offs b))))"
    using assms by (intro find_off_member) (auto simp: room_ok_def)
  obtain r b' where r: "bio_get_obj b = Some (r, b')" "room_ok b'" "same_memory b b'" "\<And>p. r = Some p \<Longrightarrow> p + 24 \<le> length (bio_data b)"
  proof (cases "word_of_nat (bio_pos b) \<in> set (take (offs_avail b) (drop (offs_pos b) (bio_offs b)))")
    case True
    obtain r b' where "bio_get b 24 = (r, b')" "room_ok b'" "same_memory b b'" "\<And>p. r = Some p \<Longrightarrow> p + round4 24 \<le> length (bio_data b)"
      using get_total [OF assms] by blast
    then show ?thesis using that f True by (simp add: bio_get_obj_def)
  next
    case False
    then show ?thesis using that [of None "set_flag BIO_F_OVERFLOW (b\<lparr>data_avail := 0\<rparr>)"] f assms
      by (simp add: bio_get_obj_def room_ok_def same_memory_def set_flag_def)
  qed
  show ?thesis
  proof (cases r)
    case None
    then show ?thesis using that r by (simp add: bio_get_ref_def)
  next
    case (Some p)
    then obtain ty h where "get_u32 (bio_data b') p = Some ty" "get_u32 (bio_data b') (p + 8) = Some h"
      using get_u32_bytes [of p "bio_data b"] get_u32_bytes [of "p + 8" "bio_data b"] r(3) r(4) [OF Some] by (auto simp: same_memory_def)
    then show ?thesis using that r Some by (cases "ty = BINDER_TYPE_HANDLE") (auto simp: bio_get_ref_def)
  qed
qed

text \<open>Neither does writing, whatever is left of the room.\<close>

lemma alloc_total:
  assumes "room_ok b"
  obtains r b' where "bio_alloc b n = (r, b')" and "room_ok b'" and "bio_data b' = bio_data b" and "bio_offs b' = bio_offs b"
    and "offs_pos b' = offs_pos b" and "offs_avail b' = offs_avail b" and "\<And>p. r = Some p \<Longrightarrow> p + round4 n \<le> length (bio_data b)"
  by (rule that [of "fst (bio_alloc b n)" "snd (bio_alloc b n)"])
    (use assms in \<open>auto simp: bio_alloc_def Let_def room_ok_def set_flag_def split: if_split_asm\<close>)

lemma store_total:
  assumes "room_ok b" and "p + length x \<le> length (bio_data b)"
  obtains b' where "bio_store b p x = Some b'" and "room_ok b'" and "length (bio_data b') = length (bio_data b)"
proof -
  obtain d where "bio_store b p x = Some (b\<lparr>bio_data := d\<rparr>)" "length d = length (bio_data b)" using store_ok [OF assms(2), of 0] by auto
  then show ?thesis using that assms(1) by (simp add: room_ok_def)
qed

lemma put_uint32_total:
  assumes "room_ok b"
  obtains b' where "bio_put_uint32 b w = Some b'" and "room_ok b'"
proof -
  obtain r b1 where r: "bio_alloc b 4 = (r, b1)" "room_ok b1" "bio_data b1 = bio_data b" "\<And>p. r = Some p \<Longrightarrow> p + round4 4 \<le> length (bio_data b)"
    using alloc_total [OF assms, of 4] by metis
  show ?thesis
  proof (cases r)
    case None
    then show ?thesis using that r by (simp add: bio_put_uint32_def)
  next
    case (Some p)
    obtain b' where "bio_store b1 p (u32_bytes w) = Some b'" "room_ok b'"
      using store_total [OF r(2), of p "u32_bytes w"] r(3) r(4) [OF Some] by auto
    then show ?thesis using that r(1) Some by (simp add: bio_put_uint32_def)
  qed
qed

lemma put_string16_total:
  assumes "room_ok b" and "0 \<in> set s"
  obtains b' where "bio_put_string16 b (Some s) = Some b'" and "room_ok b'"
proof -
  have "\<exists>n<length s. strlen0 s = Some n" using assms(2) by (induction s) auto
  then obtain n where n: "n < length s" "strlen0 s = Some n" by blast
  show ?thesis
  proof (cases "n \<ge> MAX_BIO_SIZE div 2")
    case True
    then show ?thesis using that n put_uint32_total [OF assms(1), of "0xffffffff"] by (auto simp: bio_put_string16_def)
  next
    case False
    obtain b1 where b1: "bio_put_uint32 b (word_of_nat n) = Some b1" "room_ok b1" using put_uint32_total [OF assms(1)] by blast
    obtain r b2 where r: "bio_alloc b1 ((n + 1) * 2) = (r, b2)" "room_ok b2" "bio_data b2 = bio_data b1"
      "\<And>p. r = Some p \<Longrightarrow> p + round4 ((n + 1) * 2) \<le> length (bio_data b1)"
      using alloc_total [OF b1(2), of "(n + 1) * 2"] by metis
    have big: "(n + 1) * 2 \<le> round4 ((n + 1) * 2)" using False by (intro round4_ge) simp
    show ?thesis
    proof (cases r)
      case None
      then show ?thesis using that [of b2] n False b1 r by (simp add: bio_put_string16_def)
    next
      case (Some p)
      have "p + length (u16s_bytes (take (n + 1) s)) \<le> length (bio_data b2)" using r(3) r(4) [OF Some] n(1) big by simp
      then obtain b' where "bio_store b2 p (u16s_bytes (take (n + 1) s)) = Some b'" "room_ok b'" using store_total [OF r(2)] by metis
      then show ?thesis using that [of b'] n False b1 r(1) Some by (simp add: bio_put_string16_def)
    qed
  qed
qed

lemma put_ref_total:
  assumes "room_ok b"
  obtains b' where "bio_put_ref b h = Some b'" and "room_ok b'"
proof -
  obtain r b1 where r: "bio_alloc b 24 = (r, b1)" "room_ok b1" "bio_data b1 = bio_data b" "bio_offs b1 = bio_offs b"
    "offs_pos b1 = offs_pos b" "offs_avail b1 = offs_avail b" "\<And>p. r = Some p \<Longrightarrow> p + round4 24 \<le> length (bio_data b)"
    using alloc_total [OF assms, of 24] by metis
  obtain r2 b2 where r2: "(if h \<noteq> 0 then bio_alloc_obj b else Some (bio_alloc b 24)) = Some (r2, b2)" "room_ok b2"
    "length (bio_data b2) = length (bio_data b)" "\<And>p. r2 = Some p \<Longrightarrow> p + 24 \<le> length (bio_data b)"
  proof (cases "h = 0")
    case True
    then show ?thesis using that r by simp
  next
    case False
    show ?thesis
    proof (cases "r = None \<or> offs_avail b = 0")
      case True
      then have "bio_alloc_obj b = Some (None, set_flag BIO_F_OVERFLOW b1)" using r by (cases r) (auto simp: bio_alloc_obj_def)
      then show ?thesis using that [of None "set_flag BIO_F_OVERFLOW b1"] False r(2,3) by (simp add: room_ok_def set_flag_def)
    next
      case ok: False
      then obtain p where p: "r = Some p" by auto
      let ?b = "b1\<lparr>offs_avail := offs_avail b1 - 1, bio_offs := (bio_offs b1)[offs_pos b1 := word_of_nat p], offs_pos := offs_pos b1 + 1\<rparr>"
      have "offs_pos b < length (bio_offs b)" using ok assms by (auto simp: room_ok_def)
      then have "bio_alloc_obj b = Some (Some p, ?b)" using ok p r by (simp add: bio_alloc_obj_def)
      moreover have "room_ok ?b" using r(2,4-6) ok by (auto simp: room_ok_def)
      ultimately show ?thesis using that [of "Some p" ?b] False r(3,7) p by simp
    qed
  qed
  show ?thesis
  proof (cases r2)
    case None
    then show ?thesis using that r2 by (simp add: bio_put_ref_def)
  next
    case (Some p)
    let ?w = "0x7f OR FLAT_BINDER_FLAG_ACCEPTS_FDS :: u32"
    have len: "p + 24 \<le> length (bio_data b2)" using r2(3) r2(4) [OF Some] by simp
    obtain b3 where b3: "bio_store b2 (p + 4) (u32_bytes ?w) = Some b3" "room_ok b3" "length (bio_data b3) = length (bio_data b2)"
      using store_total [OF r2(2), of "p + 4" "u32_bytes ?w"] len by auto
    obtain b4 where b4: "bio_store b3 p (u32_bytes BINDER_TYPE_HANDLE) = Some b4" "room_ok b4" "length (bio_data b4) = length (bio_data b3)"
      using store_total [OF b3(2), of p "u32_bytes BINDER_TYPE_HANDLE"] len b3(3) by auto
    obtain b5 where b5: "bio_store b4 (p + 8) (u32_bytes h) = Some b5" "room_ok b5" "length (bio_data b5) = length (bio_data b4)"
      using store_total [OF b4(2), of "p + 8" "u32_bytes h"] len b3(3) b4(3) by auto
    obtain b6 where b6: "bio_store b5 (p + 16) (u64_bytes 0) = Some b6" "room_ok b6"
      using store_total [OF b5(2), of "p + 16" "u64_bytes 0"] len b3(3) b4(3) b5(3) by auto
    show ?thesis using that [OF _ b6(2)] r2(1) Some b3(1) b4(1) b5(1) b6(1) by (simp add: bio_put_ref_def)
  qed
qed

section \<open>The handler\<close>

lemma add_service_any:
  assumes "malloc_ok e" and "manager_ok st" and "length s = len + 1"
  shows "\<exists>r st'. do_add_service e s len h isol spid st = Some (r, st') \<and> manager_ok st' \<and> (r = 0 \<or> r = - 1 \<and> st' = st)"
proof (cases "h = 0 \<or> len = 0 \<or> len > 127")
  case True
  then show ?thesis using assms(2) by (auto simp: do_add_service_def)
next
  case False
  then have "h \<noteq> 0" "0 < len" "len \<le> 127" "len < length s" using assms(3) by auto
  from add_service_ok [OF assms(1,2) this, of isol spid] show ?thesis by blast
qed

lemma handle_find_total:
  assumes "manager_ok st" and "room_ok msg" and "room_ok reply"
  shows "\<exists>r msg' reply'. handle_find txn msg reply st = Some (r, msg', reply', st) \<and> (r = 0 \<or> r = - 1) \<and> room_ok reply'"
proof -
  obtain p len m1 where m1: "bio_get_string16 msg = Some (p, len, m1)"
    and str: "\<And>pos. p = Some pos \<Longrightarrow> \<exists>s. u16_at m1 pos (len + 1) = Some s \<and> length s = len + 1"
    using get_string16_total [OF assms(2)] by metis
  show ?thesis
  proof (cases p)
    case None
    then show ?thesis using m1 assms(3) by (simp add: handle_find_def)
  next
    case (Some pos)
    obtain s where s: "u16_at m1 pos (len + 1) = Some s" "length s = len + 1" using str [OF Some] by blast
    obtain h where h: "do_find_service s len (td_sender_pid txn) st = Some h" using find_service_lookup [OF assms(1), of len s] s(2) by simp
    obtain reply' where reply': "(if h = 0 then bio_put_uint32 reply 0 else bio_put_ref reply h) = Some reply'" "room_ok reply'"
    proof (cases "h = 0")
      case True
      then show ?thesis using that put_uint32_total [OF assms(3), of 0] by (metis (full_types))
    next
      case False
      then show ?thesis using that put_ref_total [OF assms(3), of h] by (metis (full_types))
    qed
    show ?thesis using m1 Some s(1) h reply' by (simp add: handle_find_def)
  qed
qed

lemma handle_list_total:
  assumes "manager_ok st" and "room_ok msg" and "room_ok reply"
  shows "\<exists>r msg' reply'. handle_list txn msg reply st = Some (r, msg', reply', st) \<and> (r = 0 \<or> r = - 1) \<and> room_ok reply'"
proof -
  obtain n m1 where m1: "bio_get_uint32 msg = Some (n, m1)" using get_uint32_total [OF assms(2)] by metis
  have can: "svc_can_list (td_sender_pid txn)" by (simp add: svc_can_list_def check_mac_perms_from_getcon_def)
  show ?thesis
  proof (cases "drop (unat n) (svclist st)")
    case Nil
    then show ?thesis using m1 can assms(3) by (simp add: handle_list_def)
  next
    case (Cons x xs)
    then obtain a si where x: "drop (unat n) (svclist st) = (a, si) # xs" by (cases x) auto
    then have "(a, si) \<in> set (svclist st)" by (metis in_set_dropD list.set_intros(1))
    then have "svc_ok (a, si)" using assms(1) by (simp add: manager_ok_def)
    then have "svc_name si ! svc_len si = 0" "svc_len si < length (svc_name si)" by (simp_all add: svc_ok_def)
    then have "0 \<in> set (svc_name si)" by (metis nth_mem)
    then obtain reply' where "bio_put_string16 reply (Some (svc_name si)) = Some reply'" "room_ok reply'"
      using put_string16_total [OF assms(3)] by metis
    then show ?thesis using m1 can x by (simp add: handle_list_def)
  qed
qed

lemma handle_add_total:
  assumes "malloc_ok e" and "manager_ok st" and "room_ok msg" and "room_ok reply"
  shows "\<exists>r msg' reply' st'. handle_add e txn msg reply st = Some (r, msg', reply', st') \<and> (r = 0 \<or> r = - 1 \<and> st' = st) \<and> room_ok reply' \<and> manager_ok st'"
proof -
  obtain p len m1 where m1: "bio_get_string16 msg = Some (p, len, m1)" "room_ok m1"
    and str: "\<And>pos. p = Some pos \<Longrightarrow> \<exists>s. u16_at m1 pos (len + 1) = Some s \<and> length s = len + 1"
    using get_string16_total [OF assms(3)] by metis
  show ?thesis
  proof (cases p)
    case None
    then show ?thesis using m1 assms(2,4) by (simp add: handle_add_def)
  next
    case (Some pos)
    obtain s where s: "u16_at m1 pos (len + 1) = Some s" "length s = len + 1" using str [OF Some] by blast
    obtain h m2 where m2: "bio_get_ref m1 = Some (h, m2)" "room_ok m2" using get_handle_total [OF m1(2)] by metis
    obtain i m3 where m3: "bio_get_uint32 m2 = Some (i, m3)" using get_uint32_total [OF m2(2)] by metis
    obtain r st' where r: "do_add_service e s len h (i \<noteq> 0) (td_sender_pid txn) st = Some (r, st')" "manager_ok st'" "r = 0 \<or> r = - 1 \<and> st' = st"
      using add_service_any [OF assms(1,2) s(2)] by blast
    obtain reply' where "bio_put_uint32 reply 0 = Some reply'" "room_ok reply'" using put_uint32_total [OF assms(4)] by metis
    then show ?thesis using m1(1) Some s(1) m2(1) m3 r assms(2,4) by (cases "r = 0") (auto simp: handle_add_def)
  qed
qed

text \<open>What the handler does behind the header of a request.\<close>

definition dispatch :: "svc_env \<Rightarrow> binder_transaction_data \<Rightarrow> binder_io \<Rightarrow> binder_io \<Rightarrow> manager \<Rightarrow> handled" where
  "dispatch e txn msg reply st =
     (if td_code txn = SVC_MGR_GET_SERVICE \<or> td_code txn = SVC_MGR_CHECK_SERVICE then handle_find txn msg reply st
      else if td_code txn = SVC_MGR_ADD_SERVICE then handle_add e txn msg reply st
      else if td_code txn = SVC_MGR_LIST_SERVICES then handle_list txn msg reply st
      else Some (- 1, msg, reply, st))"

lemma dispatch_total:
  assumes "malloc_ok e" and "manager_ok st" and "room_ok msg" and "room_ok reply"
  shows "\<exists>r msg' reply' st'. dispatch e txn msg reply st = Some (r, msg', reply', st') \<and> (r = 0 \<or> r = - 1) \<and> room_ok reply' \<and> manager_ok st'
    \<and> (st' = st \<or> td_code txn = SVC_MGR_ADD_SERVICE \<and> r = 0)"
  using handle_find_total [OF assms(2-4), of txn] handle_add_total [OF assms, of txn] handle_list_total [OF assms(2-4), of txn] assms(2,4)
  unfolding dispatch_def
  by (cases "td_code txn = SVC_MGR_GET_SERVICE \<or> td_code txn = SVC_MGR_CHECK_SERVICE"; cases "td_code txn = SVC_MGR_ADD_SERVICE";
      cases "td_code txn = SVC_MGR_LIST_SERVICES") auto

section \<open>Requests that are read back\<close>

lemma got_uint32: "get_item Kind_Uint32 b = Some (Item_Uint32 w, b1) \<Longrightarrow> bio_get_uint32 b = Some (w, b1)"
  and got_ref: "get_item Kind_Ref b = Some (Item_Ref h, b1) \<Longrightarrow> bio_get_ref b = Some (h, b1)"
  by (auto elim!: option_bind_eq_SomeE)

lemma got_string16:
  assumes "get_item Kind_String16 b = Some (Item_String16 s, b1)"
  shows "\<exists>pos u. bio_get_string16 b = Some (Some pos, length s, b1) \<and> u16_at b1 pos (length s + 1) = Some u \<and> take (length s) u = s
    \<and> length u = length s + 1"
proof -
  obtain pos len u where u: "bio_get_string16 b = Some (Some pos, len, b1)" "u16_at b1 pos (len + 1) = Some u" "take len u = s"
    using assms by (auto elim!: option_bind_eq_SomeE)
  have "length u = len + 1" by (rule u16_at_length [OF u(2)])
  then have "length s = len" using u(3) by auto
  then show ?thesis using u u16_at_length [OF u(2)] by blast
qed

lemma handler_header:
  assumes "get_all get_item (Kind_Uint32 # Kind_String16 # ks) msg = Some (Item_Uint32 w # Item_String16 svcmgr_id # xs, m)"
    and "td_target txn = 0" and "td_code txn \<noteq> PING_TRANSACTION"
  obtains msg2 where "svcmgr_handler e txn msg reply st = dispatch e txn msg2 reply st" and "get_all get_item ks msg2 = Some (xs, m)"
proof -
  obtain m1 m2 where g: "get_item Kind_Uint32 msg = Some (Item_Uint32 w, m1)" "get_item Kind_String16 m1 = Some (Item_String16 svcmgr_id, m2)"
    "get_all get_item ks m2 = Some (xs, m)"
    using assms(1) by (auto simp del: get_item.simps elim!: option_bind_eq_SomeE)
  obtain pos u where u: "bio_get_string16 m1 = Some (Some pos, length svcmgr_id, m2)" "u16_at m2 pos (length svcmgr_id + 1) = Some u"
    "take (length svcmgr_id) u = svcmgr_id" using got_string16 [OF g(2)] by blast
  have "svcmgr_handler e txn msg reply st = dispatch e txn m2 reply st"
    using assms(2,3) got_uint32 [OF g(1)] u by (simp add: svcmgr_handler_def dispatch_def)
  then show ?thesis using that g(3) by blast
qed

lemma add_request:
  assumes "get_all get_item [Kind_String16, Kind_Ref, Kind_Uint32] msg = Some ([Item_String16 n, Item_Ref h, Item_Uint32 i], m)"
    and "malloc_ok e" and "manager_ok st" and "name_valid n h" and "room_ok reply" and "malloc e st \<noteq> None"
  shows "\<exists>msg' reply' st'. handle_add e txn msg reply st = Some (0, msg', reply', st') \<and> manager_ok st' \<and> svc_lookup st' = (svc_lookup st)(n \<mapsto> h)"
proof -
  obtain m1 m2 where g: "get_item Kind_String16 msg = Some (Item_String16 n, m1)" "get_item Kind_Ref m1 = Some (Item_Ref h, m2)"
    "get_item Kind_Uint32 m2 = Some (Item_Uint32 i, m)"
    using assms(1) by (auto simp del: get_item.simps elim!: option_bind_eq_SomeE)
  obtain pos u where u: "bio_get_string16 msg = Some (Some pos, length n, m1)" "u16_at m1 pos (length n + 1) = Some u" "take (length n) u = n"
    "length u = length n + 1" using got_string16 [OF g(1)] by blast
  have "0 < length n" "length n \<le> 127" "h \<noteq> 0" "length n < length u" using assms(4) u(4) by (simp_all add: name_valid_def)
  then obtain st' where st': "do_add_service e u (length n) h (i \<noteq> 0) (td_sender_pid txn) st = Some (0, st')" "manager_ok st'"
    "svc_lookup st' = (svc_lookup st)(n \<mapsto> h)"
    using add_service_ok [OF assms(2,3), of h "length n" u "i \<noteq> 0" "td_sender_pid txn"] u(3) assms(6) by auto
  obtain reply' where "bio_put_uint32 reply 0 = Some reply'" using put_uint32_total [OF assms(5)] by metis
  then show ?thesis using u(1,2) got_ref [OF g(2)] got_uint32 [OF g(3)] st' by (simp add: handle_add_def)
qed

lemma find_request:
  assumes "get_all get_item [Kind_String16] msg = Some ([Item_String16 n], m)" and "manager_ok st" and "svc_lookup st n = Some h" and "h \<noteq> 0"
    and "room_ok reply" and "24 \<le> data_avail reply" and "1 \<le> offs_avail reply" and "bio_pos reply = 0" and "offs_pos reply = 0"
  shows "\<exists>msg' reply' io. handle_find txn msg reply st = Some (0, msg', reply', st)
    \<and> get_all get_item [Kind_Ref] (as_received reply') = Some ([Item_Ref h], io)"
proof -
  have g: "get_item Kind_String16 msg = Some (Item_String16 n, m)" using assms(1) by (auto simp del: get_item.simps elim!: option_bind_eq_SomeE)
  obtain pos u where u: "bio_get_string16 msg = Some (Some pos, length n, m)" "u16_at m pos (length n + 1) = Some u" "take (length n) u = n"
    "length u = length n + 1" using got_string16 [OF g] by blast
  have f: "do_find_service u (length n) (td_sender_pid txn) st = Some h"
    using find_service_lookup [OF assms(2), of "length n" u] u(3,4) assms(3) by simp
  obtain reply' io where r: "put_item (Item_Ref h) reply = Some reply'" "get_all get_item [Kind_Ref] (as_received reply') = Some ([Item_Ref h], io)"
    using bio.message_roundtrip [OF assms(5,8,9), of "[Item_Ref h]"] assms(4,6,7)
    by (auto simp del: get_all.simps get_item.simps elim!: option_bind_eq_SomeE)
  show ?thesis using u(1,2) f r assms(4) by (auto simp: handle_find_def simp del: get_all.simps get_item.simps)
qed

section \<open>Short replies and lost descriptors\<close>

text \<open>
  The reply of the manager has room for 224 bytes of data, and that a string does not fit is not looked at: listing a service whose name
  has 110 characters or more, which may have 127, succeeds with a reply that ends behind the length.
\<close>

lemma long_name_not_listed:
  assumes "room_ok b" and "data_avail b = 224" and "bio_pos b = 0" and "0 \<notin> set n" and "110 \<le> length n" and "length n \<le> 127"
  shows "\<exists>b'. bio_put_string16 b (Some (n @ [0])) = Some b' \<and> bio_pos b' = 4 \<and> bio_flags b' AND BIO_F_OVERFLOW \<noteq> 0"
proof -
  obtain b1 where b1: "bio_put_uint32 b (word_of_nat (length n)) = Some b1" "continues b b1 4 0"
    using put_uint32_law [OF assms(1), of "word_of_nat (length n)"] assms(2) by auto
  have "round4 ((length n + 1) * 2) > data_avail b1"
    using b1(2) assms(2,5,6) round4_ge [of "(length n + 1) * 2"] by (simp add: continues_def)
  then have "bio_alloc b1 ((length n + 1) * 2) = (None, set_flag BIO_F_OVERFLOW b1)" by (simp add: bio_alloc_def)
  then have "bio_put_string16 b (Some (n @ [0])) = Some (set_flag BIO_F_OVERFLOW b1)"
    using strlen0_append [OF assms(4), of "[]"] assms(6) b1(1) by (simp add: bio_put_string16_def)
  moreover have "bio_flags (set_flag BIO_F_OVERFLOW b1) AND BIO_F_OVERFLOW \<noteq> 0"
    using and_exp_eq_0_iff_not_bit [of "bio_flags (set_flag BIO_F_OVERFLOW b1)" 1] by (simp add: set_flag_def bit_or_iff)
  ultimately show ?thesis using b1(2) assms(3) by (simp add: set_flag_def continues_def)
qed

text \<open>With another version of the protocol the open descriptor is left behind.\<close>

lemma version_mismatch_leaks_descriptor:
  "sys_malloc sys \<Longrightarrow> 0 \<le> sys_open sys \<Longrightarrow> snd (sys_version sys) \<noteq> BINDER_CURRENT_PROTOCOL_VERSION \<Longrightarrow>
    binder_open_device sys n = (None, {sys_open sys})"
  by (simp add: binder_open_device_def)

section \<open>Commands on their way to the driver\<close>

text \<open>The fields of a command in the memory it was written to.\<close>

lemma memory_get32:
  assumes "length (xs @ u32_bytes w @ ys) \<le> 2 ^ 64"
  shows "get_user32 (memory_of a (xs @ u32_bytes w @ ys)) (a + word_of_nat (length xs)) = Some w"
  using memory_read [OF assms, of "length xs" 4 a] by (simp add: get_user32_def)

lemma memory_get64:
  assumes "length (xs @ u64_bytes w @ ys) \<le> 2 ^ 64"
  shows "get_user64 (memory_of a (xs @ u64_bytes w @ ys)) (a + word_of_nat (length xs)) = Some w"
  using memory_read [OF assms, of "length xs" 8 a] by (simp add: get_user64_def)

text \<open>A buffer with one command.\<close>

lemma write_one:
  assumes "thrs s t = Some th" and "return_error th = BR_OK" and "unat a + n < 2 ^ 64" and "0 < n" and "get_user32 um a = Some cmd"
    and "write_command k c um p t cmd (a + 4) s = map_option (\<lambda>s'. (Inr (a + word_of_nat n), s')) run"
  shows "binder_thread_write k c um p t a (word_of_nat n) 0 s = do { s' \<leftarrow> run; _ \<leftarrow> thrs s' t; Some (0, word_of_nat n, s') }"
proof -
  have u: "unat (word_of_nat n :: u64) = n" using assms(3) by (simp add: unat_of_nat take_bit_nat_eq_self)
  have lt: "a < a + word_of_nat n" using unat_forward [OF assms(3)] assms(4) by (simp add: word_less_nat_alt)
  obtain m where n: "n = Suc m" using assms(4) by (cases n) auto
  show ?thesis
    unfolding binder_thread_write_def u unfolding n
    using assms(1,2,5,6) lt by (cases run) (simp_all add: n add.assoc [symmetric])
qed

section \<open>Properties\<close>

text \<open>
  C12. The handler of the service manager is safe for every message: whatever the bytes, the offsets and the codes are, it stays inside the
  message, the reply and the registry, returns 0 or -1, keeps the invariant of the registry with its reference counts, and changes the registry only by
  a registration that it reports as done.
\<close>

theorem svcmgr_handler_safe:
  assumes "malloc_ok e" and "manager_ok st" and "room_ok msg" and "room_ok reply"
  shows "\<exists>r msg' reply' st'. svcmgr_handler e txn msg reply st = Some (r, msg', reply', st') \<and> (r = 0 \<or> r = - 1)
    \<and> manager_ok st' \<and> balanced st' \<and> room_ok reply' \<and> (st' = st \<or> td_code txn = SVC_MGR_ADD_SERVICE \<and> r = 0)"
proof -
  obtain w m1 where m1: "bio_get_uint32 msg = Some (w, m1)" "room_ok m1" using get_uint32_total [OF assms(3)] by metis
  obtain p len m2 where m2: "bio_get_string16 m1 = Some (p, len, m2)" "room_ok m2"
    and str: "\<And>pos. p = Some pos \<Longrightarrow> \<exists>s. u16_at m2 pos (len + 1) = Some s \<and> length s = len + 1"
    using get_string16_total [OF m1(2)] by metis
  note go = dispatch_total [OF assms(1,2) m2(2) assms(4), of txn]
  have bal: "balanced x" if "manager_ok x" for x using that by (simp add: manager_ok_def)
  consider "td_target txn \<noteq> 0 \<or> td_code txn = PING_TRANSACTION" | "td_target txn = 0" "td_code txn \<noteq> PING_TRANSACTION" "p = None"
    | pos where "td_target txn = 0" "td_code txn \<noteq> PING_TRANSACTION" "p = Some pos" by (cases p) auto
  then show ?thesis
  proof cases
    case 1
    then show ?thesis using assms(2,4) bal by (auto simp: svcmgr_handler_def)
  next
    case 2
    then show ?thesis using m1(1) m2(1) assms(2,4) bal by (auto simp: svcmgr_handler_def)
  next
    case 3
    obtain s where s: "u16_at m2 pos (len + 1) = Some s" "length s = len + 1" using str [OF 3(3)] by blast
    obtain b where "str8 (Some s) len = Some b" using str8_total [of len s] s(2) by auto
    then have "svcmgr_handler e txn msg reply st =
        (if len \<noteq> length svcmgr_id \<or> take len s \<noteq> svcmgr_id then Some (- 1, m2, reply, st) else dispatch e txn m2 reply st)"
      using 3 m1(1) m2(1) s(1) by (simp add: svcmgr_handler_def dispatch_def)
    then show ?thesis using go assms(2,4) bal by (cases "len \<noteq> length svcmgr_id \<or> take len s \<noteq> svcmgr_id") auto
  qed
qed

lemma reply_buffer_room: "room_ok reply_buffer"
  by (simp add: room_ok_def reply_buffer_def)

theorem svcmgr_handler_safe_witness:
  "\<exists>r msg' reply' st'. svcmgr_handler small_env ((reply_data small_env reply_buffer 0)\<lparr>td_code := 2\<rparr>) reply_buffer reply_buffer one_service
     = Some (r, msg', reply', st') \<and> manager_ok st'"
  using svcmgr_handler_safe [OF small_env_ok one_service_ok reply_buffer_room reply_buffer_room] by blast

text \<open>
  C13. What one process registers, another finds. A request to add a name with a handle, written item by item by its sender, makes the handler
  report success when there is memory; after it, a request for that name, written by any other process, is answered
  with a reply from which that handle is read.
\<close>

theorem registered_service_found:
  assumes "malloc_ok e" and "manager_ok st" and "name_valid n h" and "malloc e st \<noteq> None"
    and "get_all get_item [Kind_Uint32, Kind_String16, Kind_String16, Kind_Ref, Kind_Uint32] add_msg
          = Some ([Item_Uint32 w, Item_String16 svcmgr_id, Item_String16 n, Item_Ref h, Item_Uint32 i], m)"
    and "td_target add_txn = 0" and "td_code add_txn = SVC_MGR_ADD_SERVICE" and "room_ok add_reply"
    and "get_all get_item [Kind_Uint32, Kind_String16, Kind_String16] find_msg = Some ([Item_Uint32 w', Item_String16 svcmgr_id, Item_String16 n], m')"
    and "td_target find_txn = 0" and "td_code find_txn = SVC_MGR_GET_SERVICE \<or> td_code find_txn = SVC_MGR_CHECK_SERVICE"
    and "room_ok reply" and "24 \<le> data_avail reply" and "1 \<le> offs_avail reply" and "bio_pos reply = 0" and "offs_pos reply = 0"
  shows "\<exists>add_msg' add_reply' st'. svcmgr_handler e add_txn add_msg add_reply st = Some (0, add_msg', add_reply', st')
    \<and> (\<exists>find_msg' reply' io. svcmgr_handler e find_txn find_msg reply st' = Some (0, find_msg', reply', st')
         \<and> get_all get_item [Kind_Ref] (as_received reply') = Some ([Item_Ref h], io))"
proof -
  have ping: "td_code add_txn \<noteq> PING_TRANSACTION" "td_code find_txn \<noteq> PING_TRANSACTION" using assms(7,11) by (auto simp: PING_TRANSACTION_def)
  obtain m1 where m1: "svcmgr_handler e add_txn add_msg add_reply st = dispatch e add_txn m1 add_reply st"
    "get_all get_item [Kind_String16, Kind_Ref, Kind_Uint32] m1 = Some ([Item_String16 n, Item_Ref h, Item_Uint32 i], m)"
    using handler_header [OF assms(5,6) ping(1)] by metis
  obtain a r st' where st': "handle_add e add_txn m1 add_reply st = Some (0, a, r, st')" "manager_ok st'" "svc_lookup st' = (svc_lookup st)(n \<mapsto> h)"
    using add_request [OF m1(2) assms(1-3,8,4), of add_txn] by blast
  obtain m2 where m2: "svcmgr_handler e find_txn find_msg reply st' = dispatch e find_txn m2 reply st'"
    "get_all get_item [Kind_String16] m2 = Some ([Item_String16 n], m')"
    using handler_header [OF assms(9,10) ping(2)] by metis
  have h: "svc_lookup st' n = Some h" "h \<noteq> 0" using st'(3) assms(3) by (simp_all add: name_valid_def)
  obtain b r' io where "handle_find find_txn m2 reply st' = Some (0, b, r', st')" "get_all get_item [Kind_Ref] (as_received r') = Some ([Item_Ref h], io)"
    using find_request [OF m2(2) st'(2) h assms(12-16), of find_txn] by blast
  then show ?thesis using m1(1) m2(1) st'(1) assms(7,11) by (auto simp: dispatch_def simp del: get_all.simps get_item.simps)
qed

theorem registered_service_found_witness:
  "\<exists>add_msg find_msg add_msg' add_reply' st'.
     svcmgr_handler small_env ((reply_data small_env reply_buffer 0)\<lparr>td_code := 3\<rparr>) add_msg reply_buffer \<lparr>svclist = [], sent = []\<rparr>
       = Some (0, add_msg', add_reply', st')
     \<and> (\<exists>find_msg' reply' io. svcmgr_handler small_env ((reply_data small_env reply_buffer 0)\<lparr>td_code := 2\<rparr>) find_msg reply_buffer st'
            = Some (0, find_msg', reply', st')
          \<and> get_all get_item [Kind_Ref] (as_received reply') = Some ([Item_Ref 7], io))"
proof -
  have r4: "round4 54 = 56" "round4 6 = 8" by (simp_all add: round4_def)
  have id: "length svcmgr_id = 26" "0 \<notin> set svcmgr_id" by (simp_all add: svcmgr_id_def)
  have buf: "room_ok reply_buffer" "bio_pos reply_buffer = 0" "offs_pos reply_buffer = 0" "data_avail reply_buffer = 224" "offs_avail reply_buffer = 4"
    by (simp_all add: reply_buffer_room) (simp_all add: reply_buffer_def)
  note message = bio.message_roundtrip [OF buf(1-3)]
  obtain a m where a: "get_all get_item [Kind_Uint32, Kind_String16, Kind_String16, Kind_Ref, Kind_Uint32] a
          = Some ([Item_Uint32 0, Item_String16 svcmgr_id, Item_String16 [104, 105], Item_Ref 7, Item_Uint32 0], m)"
    using message [of "[Item_Uint32 0, Item_String16 svcmgr_id, Item_String16 [104, 105], Item_Ref 7, Item_Uint32 0]"] buf(4,5) id r4
    by (auto simp del: get_all.simps get_item.simps put_all.simps put_item.simps)
  obtain f m' where f: "get_all get_item [Kind_Uint32, Kind_String16, Kind_String16] f
          = Some ([Item_Uint32 0, Item_String16 svcmgr_id, Item_String16 [104, 105]], m')"
    using message [of "[Item_Uint32 0, Item_String16 svcmgr_id, Item_String16 [104, 105]]"] buf(4,5) id r4
    by (auto simp del: get_all.simps get_item.simps put_all.simps put_item.simps)
  have "name_valid [104, 105] 7" "malloc small_env \<lparr>svclist = [], sent = []\<rparr> \<noteq> None" by (simp_all add: name_valid_def small_env_malloc)
  from registered_service_found [OF small_env_ok no_services_ok this a _ _ buf(1) f _ _ buf(1) _ _ buf(2,3),
      of "(reply_data small_env reply_buffer 0)\<lparr>td_code := 3\<rparr>" "(reply_data small_env reply_buffer 0)\<lparr>td_code := 2\<rparr>"]
  show ?thesis using buf(4,5) by (simp add: reply_data_def) blast
qed

end
