(* ===== verification/Binder_Pool.thy ===== *)
theory Binder_Pool
  imports Binder_Wire
begin

text \<open>
  The thread pool of a process over all interleavings of the driver's calls. The driver holds one lock except while a thread
  waits in \<open>binder_thread_read\<close>, so that the steps are the pieces of \<open>binder_ioctl\<close> between two waits: each command, each
  item of work, the two ends of a wait, the end of a read, and the calls that do not wait.
\<close>

unbundle bit_operations_syntax

section \<open>What the pool reads\<close>

text \<open>The counters of every process and the flags of every thread.\<close>

type_synonym pool_fields = "int \<times> int \<times> int \<times> u32"

definition pool_fields :: "binder_proc \<Rightarrow> pool_fields" where
  "pool_fields pr = (requested_threads pr, requested_threads_started pr, ready_threads pr, max_threads pr)"

definition pools :: "(nat \<Rightarrow> binder_proc option) \<Rightarrow> nat \<Rightarrow> pool_fields option" where
  "pools P = (\<lambda>p. map_option pool_fields (P p))"

definition loopers :: "(nat \<Rightarrow> binder_thread option) \<Rightarrow> nat \<Rightarrow> u32 option" where
  "loopers T = (\<lambda>t. map_option looper (T t))"

definition pool_view :: "binder_state \<Rightarrow> (nat \<Rightarrow> pool_fields option) \<times> (nat \<Rightarrow> u32 option)" where
  "pool_view s = (pools (procs s), loopers (thrs s))"

named_theorems view_keep \<open>operations that leave the pools and the loopers alone\<close>

lemma pools_upd [simp]: "map_option pool_fields (P p) = Some (pool_fields pr) \<Longrightarrow> pools (P(p \<mapsto> pr)) = pools P"
  by (auto simp: pools_def)

lemma loopers_upd [simp]: "map_option looper (T t) = Some (looper th) \<Longrightarrow> loopers (T(t \<mapsto> th)) = loopers T"
  by (auto simp: loopers_def)

lemma pool_fields_upd [simp]:
  "pool_fields (pr\<lparr>pr_alloc := a\<rparr>) = pool_fields pr" "pool_fields (pr\<lparr>pr_nodes := ns\<rparr>) = pool_fields pr"
  "pool_fields (pr\<lparr>refs_by_desc := rd\<rparr>) = pool_fields pr" "pool_fields (pr\<lparr>refs_by_node := rn\<rparr>) = pool_fields pr"
  "pool_fields (pr\<lparr>pr_threads := ts\<rparr>) = pool_fields pr"
  by (simp_all add: pool_fields_def)

lemma view_list_ops [view_keep]:
  "list_add_tail w L s = Some s' \<Longrightarrow> pool_view s' = pool_view s"
  "list_add_head w L s = Some s' \<Longrightarrow> pool_view s' = pool_view s"
  "upd_node n f s = Some s' \<Longrightarrow> pool_view s' = pool_view s"
  "upd_ref r g s = Some s' \<Longrightarrow> pool_view s' = pool_view s"
  "upd_txn t h s = Some s' \<Longrightarrow> pool_view s' = pool_view s"
  "upd_death d i s = Some s' \<Longrightarrow> pool_view s' = pool_view s"
  by (auto simp: pool_view_def list_add_tail_def list_add_head_def upd_node_def upd_ref_def upd_txn_def upd_death_def
      split: if_splits)

lemma view_set_ops [simp]:
  "procs (list_del w s) = procs s" "thrs (list_del w s) = thrs s" "procs (wake_up q s) = procs s" "thrs (wake_up q s) = thrs s"
  "procs (binder_set_nice k i n s) = procs s" "thrs (binder_set_nice k i n s) = thrs s"
  "procs (snd (kzalloc k s)) = procs s" "thrs (snd (kzalloc k s)) = thrs s"
  by (auto simp: list_del_def wake_up_def binder_set_nice_def kzalloc_def split: option.split)

lemma view_kzalloc [view_keep]: "kzalloc k s = (r, s') \<Longrightarrow> pool_view s' = pool_view s"
  by (auto simp: kzalloc_def pool_view_def)

lemmas view_defs = pool_view_def upd_proc_def upd_thread_def

section \<open>Operations that leave it alone\<close>

lemma view_new_node [view_keep]: "binder_new_node k s p ptr cookie = Some (r, s') \<Longrightarrow> pool_view s' = pool_view s"
  by (auto simp: binder_new_node_def view_defs kzalloc_def split: sum.split_asm if_split_asm elim!: option_bind_eq_SomeE)

lemma view_inc_node [view_keep]: "binder_inc_node s n strong internal tgt = Some (r, s') \<Longrightarrow> pool_view s' = pool_view s"
  by (auto simp: binder_inc_node_def pool_view_def split: if_split_asm option.split_asm dest!: view_keep elim!: option_bind_eq_SomeE)

lemma view_free_node [view_keep]: "free_node k s n = Some s' \<Longrightarrow> pool_view s' = pool_view s"
  by (auto simp: free_node_def view_defs Let_def split: option.split_asm elim!: option_bind_eq_SomeE)

lemma view_dec_node [view_keep]: "binder_dec_node k s n strong internal = Some s' \<Longrightarrow> pool_view s' = pool_view s"
  by (auto simp: binder_dec_node_def pool_view_def split: if_split_asm dest!: view_keep elim!: option_bind_eq_SomeE)

lemma view_get_ref_for_node [view_keep]: "binder_get_ref_for_node k s p n = Some (r, s') \<Longrightarrow> pool_view s' = pool_view s"
  by (auto simp: binder_get_ref_for_node_def view_defs upd_node_def kzalloc_def split: sum.split_asm if_split_asm elim!: option_bind_eq_SomeE)

lemma view_free_death [view_keep]: "free_death s d = Some s' \<Longrightarrow> pool_view s' = pool_view s"
  by (auto simp: free_death_def view_defs Let_def elim!: option_bind_eq_SomeE)

lemma view_delete_ref [view_keep]: "binder_delete_ref k s r = Some s' \<Longrightarrow> pool_view s' = pool_view s"
  by (auto simp: binder_delete_ref_def view_defs split: if_split_asm option.split_asm dest!: view_keep elim!: option_bind_eq_SomeE)

lemma view_inc_ref [view_keep]: "binder_inc_ref s r strong tgt = Some (x, s') \<Longrightarrow> pool_view s' = pool_view s"
  by (auto simp: binder_inc_ref_def split: if_split_asm dest!: view_keep elim!: option_bind_eq_SomeE)

lemma view_dec_ref [view_keep]: "binder_dec_ref k s r strong = Some (x, s') \<Longrightarrow> pool_view s' = pool_view s"
  by (auto simp: binder_dec_ref_def split: if_split_asm dest!: view_keep elim!: option_bind_eq_SomeE)

lemma view_upd_buf [view_keep]: "upd_buf p b f s = Some s' \<Longrightarrow> pool_view s' = pool_view s"
  by (auto simp: upd_buf_def view_defs elim!: option_bind_eq_SomeE)

lemma view_alloc_buf [view_keep]: "proc_alloc_buf k s p d e a = Some (r, s') \<Longrightarrow> pool_view s' = pool_view s"
  by (auto simp: proc_alloc_buf_def view_defs elim!: option_bind_eq_SomeE)

lemma view_free_buf [view_keep]: "proc_free_buf k s p b = Some s' \<Longrightarrow> pool_view s' = pool_view s"
  by (auto simp: proc_free_buf_def view_defs elim!: option_bind_eq_SomeE)

lemma view_fd_install [view_keep]: "task_fd_install s p fd f = Some s' \<Longrightarrow> pool_view s' = pool_view s"
  by (auto simp: task_fd_install_def view_defs split: option.split elim!: option_bind_eq_SomeE)

lemma view_close_fd [view_keep]: "task_close_fd k s p fd = Some (r, s') \<Longrightarrow> pool_view s' = pool_view s"
  by (auto simp: task_close_fd_def view_defs Let_def split: option.split_asm elim!: option_bind_eq_SomeE)

lemma view_pop_transaction [view_keep]: "binder_pop_transaction tt t s = Some s' \<Longrightarrow> pool_view s' = pool_view s"
  by (auto simp: binder_pop_transaction_def view_defs split: option.split_asm if_split_asm dest!: view_keep elim!: option_bind_eq_SomeE)

lemma view_stash [simp]: "looper (stash_error th) = looper th"
  by (simp add: stash_error_def)

lemma view_failed_reply [view_keep]: "send_failed_reply_from t e s = Some s' \<Longrightarrow> pool_view s' = pool_view s"
proof (rule send_failed_reply_from.raw_induct [where P = "\<lambda>t e s s'. pool_view s' = pool_view s"], goal_cases)
  case (1 f t e s s')
  from 1(3) show ?case
    by (auto simp: view_defs split: option.split_asm if_split_asm dest!: view_keep 1(2) elim!: option_bind_eq_SomeE)
qed assumption

lemma view_send_failed [view_keep]: "binder_send_failed_reply t e s = Some s' \<Longrightarrow> pool_view s' = pool_view s"
  by (auto simp: binder_send_failed_reply_def split: if_split_asm dest!: view_keep elim!: option_bind_eq_SomeE)

lemma view_release_object [view_keep]: "release_object k p failed f s = Some s' \<Longrightarrow> pool_view s' = pool_view s"
  by (auto simp: release_object_def split: if_split_asm option.split_asm dest!: view_keep elim!: option_bind_eq_SomeE)

lemma view_release_objects [view_keep]: "release_objects k p h failed pos n s = Some s' \<Longrightarrow> pool_view s' = pool_view s"
  by (induction n arbitrary: pos s) (auto split: if_split_asm dest!: view_keep elim!: option_bind_eq_SomeE)

lemma view_buffer_release [view_keep]: "binder_transaction_buffer_release k s p b fa = Some s' \<Longrightarrow> pool_view s' = pool_view s"
  by (auto simp: binder_transaction_buffer_release_def Let_def split: option.split_asm dest!: view_keep elim!: option_bind_eq_SomeE)

lemma view_reply_target [view_keep]: "reply_target k c t s = Some (r, s') \<Longrightarrow> pool_view s' = pool_view s"
  by (auto simp: reply_target_def view_defs Let_def split: option.split_asm if_split_asm dest!: view_keep elim!: option_bind_eq_SomeE)

lemma view_txn_target [view_keep]: "txn_target_of k c p t tr reply s = Some (r, s') \<Longrightarrow> pool_view s' = pool_view s"
  by (auto simp: txn_target_of_def split: if_split_asm dest!: view_keep elim!: option_bind_eq_SomeE)

lemma view_put_obj [view_keep]:
  "put_obj32 p b off w s = Some s' \<Longrightarrow> pool_view s' = pool_view s" "put_obj64 p b off v s = Some s' \<Longrightarrow> pool_view s' = pool_view s"
  by (auto simp: put_obj32_def put_obj64_def dest!: view_keep elim!: option_bind_eq_SomeE)

lemma view_object_node [view_keep]: "object_node k p f s = Some (r, s') \<Longrightarrow> pool_view s' = pool_view s"
  by (auto simp: object_node_def split: option.split_asm dest!: view_keep elim!: option_bind_eq_SomeE)

lemma view_translate_binder [view_keep]: "translate_binder k p t tp b off f s = Some (r, s') \<Longrightarrow> pool_view s' = pool_view s"
  by (auto simp: translate_binder_def Let_def split: option.split_asm if_split_asm dest!: view_keep elim!: option_bind_eq_SomeE)

lemma view_translate_handle [view_keep]: "translate_handle k p tp b off f s = Some (r, s') \<Longrightarrow> pool_view s' = pool_view s"
  by (auto simp: translate_handle_def Let_def split: option.split_asm if_split_asm dest!: view_keep elim!: option_bind_eq_SomeE)

lemma view_translate_fd [view_keep]: "translate_fd k c p x b off f s = Some (r, s') \<Longrightarrow> pool_view s' = pool_view s"
  by (auto simp: translate_fd_def split: option.split_asm if_split_asm dest!: view_keep elim!: option_bind_eq_SomeE)

lemma view_translate_object [view_keep]: "translate_object k c p t x b off s = Some (r, s') \<Longrightarrow> pool_view s' = pool_view s"
  by (auto simp: translate_object_def split: if_split_asm dest!: view_keep elim!: option_bind_eq_SomeE)

lemma view_translate_objects [view_keep]: "translate_objects k c p t x b pos n s = Some (r, s') \<Longrightarrow> pool_view s' = pool_view s"
  by (induction n arbitrary: pos s) (auto split: if_split_asm dest!: view_keep elim!: option_bind_eq_SomeE)

lemma view_fill_buffer [view_keep]: "fill_buffer um tr p b s = Some (r, s') \<Longrightarrow> pool_view s' = pool_view s"
  by (auto simp: fill_buffer_def split: option.split_asm dest!: view_keep elim!: option_bind_eq_SomeE)

lemma view_prepare_buffer [view_keep]: "prepare_buffer k um tr x tid b s = Some (r, s') \<Longrightarrow> pool_view s' = pool_view s"
  by (auto simp: prepare_buffer_def split: option.split_asm dest!: view_keep elim!: option_bind_eq_SomeE)

lemma view_txn_link [view_keep]: "txn_link t tr reply x tid h s = Some (L, W, s') \<Longrightarrow> pool_view s' = pool_view s"
  by (auto simp: txn_link_def view_defs Let_def split: if_split_asm dest!: view_keep elim!: option_bind_eq_SomeE)

lemma view_txn_enqueue [view_keep]: "txn_enqueue t tr reply x tid tc b s = Some s' \<Longrightarrow> pool_view s' = pool_view s"
  by (auto simp: txn_enqueue_def pool_view_def split: option.split dest!: view_keep elim!: option_bind_eq_SomeE)

lemma view_txn_unwind [view_keep]: "txn_unwind k x tid b fa s = Some s' \<Longrightarrow> pool_view s' = pool_view s"
  by (auto simp: txn_unwind_def pool_view_def dest!: view_keep elim!: option_bind_eq_SomeE)

lemma view_txn_fail [view_keep]: "txn_fail t e s = Some s' \<Longrightarrow> pool_view s' = pool_view s"
  by (auto simp: txn_fail_def view_defs split: if_split_asm option.split_asm dest!: view_keep elim!: option_bind_eq_SomeE)

lemma view_txn_send [view_keep]: "txn_send k c um p t tr reply x s = Some (r, s') \<Longrightarrow> pool_view s' = pool_view s"
  by (auto simp: txn_send_def pool_view_def Let_def split: prod.split_asm option.split_asm if_split_asm dest!: view_keep
      elim!: option_bind_eq_SomeE)

lemma view_transaction [view_keep]: "binder_transaction k c um p t tr reply s = Some s' \<Longrightarrow> pool_view s' = pool_view s"
  by (auto simp: binder_transaction_def split: sum.split_asm if_split_asm dest!: view_keep elim!: option_bind_eq_SomeE)

lemma view_change_ref [view_keep]: "change_ref k p cmd h s = Some s' \<Longrightarrow> pool_view s' = pool_view s"
  by (auto simp: change_ref_def split: if_split_asm option.split_asm dest!: view_keep elim!: option_bind_eq_SomeE)

lemma view_ref_done [view_keep]: "ref_done k p cmd ptr cookie s = Some s' \<Longrightarrow> pool_view s' = pool_view s"
  by (auto simp: ref_done_def split: if_split_asm option.split_asm dest!: view_keep elim!: option_bind_eq_SomeE)

lemma view_async_next [view_keep]: "async_next t n s = Some s' \<Longrightarrow> pool_view s' = pool_view s"
  by (auto simp: async_next_def pool_view_def split: if_split_asm list.split_asm dest!: view_keep elim!: option_bind_eq_SomeE)

lemma view_user_free_buffer [view_keep]: "user_free_buffer k p t ptr s = Some s' \<Longrightarrow> pool_view s' = pool_view s"
  by (auto simp: user_free_buffer_def split: if_split_asm option.split_asm dest!: view_keep elim!: option_bind_eq_SomeE)

lemma view_queue_death [view_keep]: "queue_death p t d s = Some s' \<Longrightarrow> pool_view s' = pool_view s"
  by (auto simp: queue_death_def pool_view_def split: if_split_asm option.split_asm dest!: view_keep elim!: option_bind_eq_SomeE)

lemma view_request_death [view_keep]: "request_death k p t r cookie s = Some s' \<Longrightarrow> pool_view s' = pool_view s"
  by (auto simp: request_death_def view_defs Let_def split: prod.split_asm if_split_asm option.split_asm dest!: view_keep
      elim!: option_bind_eq_SomeE)

lemma view_clear_death [view_keep]: "clear_death p t r cookie s = Some s' \<Longrightarrow> pool_view s' = pool_view s"
  by (auto simp: clear_death_def split: if_split_asm option.split_asm dest!: view_keep elim!: option_bind_eq_SomeE)

lemma view_death_command [view_keep]: "death_command k p t cmd h cookie s = Some s' \<Longrightarrow> pool_view s' = pool_view s"
  by (auto simp: death_command_def split: if_split_asm option.split_asm dest!: view_keep elim!: option_bind_eq_SomeE)

lemma view_dead_done [view_keep]: "dead_binder_done p t cookie s = Some s' \<Longrightarrow> pool_view s' = pool_view s"
  by (auto simp: dead_binder_done_def pool_view_def Let_def split: if_split_asm option.split_asm dest!: view_keep elim!: option_bind_eq_SomeE)

lemmas read_defs = put32_def put64_def view_defs Let_def

lemma view_read_errors [view_keep]: "read_errors um t ptr uend s = Some (n, um', s') \<Longrightarrow> pool_view s' = pool_view s"
  by (auto simp: read_errors_def read_defs split: if_split_asm option.split_asm dest!: view_keep elim!: option_bind_eq_SomeE)

lemma view_read_node [view_keep]: "read_node k um p n ptr s = Some (r, um', s') \<Longrightarrow> pool_view s' = pool_view s"
  by (auto simp: read_node_def read_defs split: prod.split_asm if_split_asm option.split_asm dest!: view_keep elim!: option_bind_eq_SomeE)

lemma view_read_death [view_keep]: "read_death um p d ptr s = Some (r, um', s') \<Longrightarrow> pool_view s' = pool_view s"
  by (auto simp: read_death_def read_defs split: if_split_asm option.split_asm dest!: view_keep elim!: option_bind_eq_SomeE)

lemma view_txn_priority [view_keep]: "txn_priority k c tid nd s = Some s' \<Longrightarrow> pool_view s' = pool_view s"
  by (auto simp: txn_priority_def view_defs Let_def split: if_split_asm option.split_asm dest!: view_keep elim!: option_bind_eq_SomeE)

lemma view_delivered [view_keep]: "delivered t tid bp b cmd s = Some s' \<Longrightarrow> pool_view s' = pool_view s"
  by (auto simp: delivered_def view_defs Let_def split: if_split_asm option.split_asm dest!: view_keep elim!: option_bind_eq_SomeE)

lemma view_read_transaction [view_keep]: "read_transaction k c um p t tid ptr s = Some (r, um', s') \<Longrightarrow> pool_view s' = pool_view s"
  by (auto simp: read_transaction_def put32_def split: if_split_asm option.split_asm dest!: view_keep elim!: option_bind_eq_SomeE)

lemma view_read_work [view_keep]: "read_work k c um p t w ubuf ptr uend s = Some (r, um', s') \<Longrightarrow> pool_view s' = pool_view s"
  by (auto simp: read_work_def put32_def pool_view_def Let_def split: list.split_asm work.split_asm if_split_asm option.split_asm
      dest!: view_keep elim!: option_bind_eq_SomeE)

lemma view_set_ctx_mgr [view_keep]: "binder_ioctl_set_ctx_mgr k c p s = Some (r, s') \<Longrightarrow> pool_view s' = pool_view s"
  by (auto simp: binder_ioctl_set_ctx_mgr_def pool_view_def Let_def split: if_split_asm option.split_asm dest!: view_keep elim!: option_bind_eq_SomeE)

lemma view_release_item [view_keep]: "release_item w s = Some s' \<Longrightarrow> pool_view s' = pool_view s"
  by (auto simp: release_item_def pool_view_def split: work.split_asm if_split_asm dest!: view_keep elim!: option_bind_eq_SomeE)

lemma view_release_work [view_keep]: "binder_release_work L s = Some s' \<Longrightarrow> pool_view s' = pool_view s"
proof (rule binder_release_work.raw_induct [where P = "\<lambda>L s s'. pool_view s' = pool_view s"], goal_cases)
  case (1 f L s s')
  from 1(3) show ?case
    by (auto simp: pool_view_def split: list.split_asm dest!: view_keep 1(2) elim!: option_bind_eq_SomeE)
qed assumption

lemma view_unwind_result: "unwind_stack t tmp active s = Some r \<Longrightarrow> pool_view (snd r) = pool_view s"
proof (rule unwind_stack.raw_induct [where P = "\<lambda>t tmp active s r. pool_view (snd r) = pool_view s"], goal_cases)
  case (1 f t tmp active s r)
  from 1(3) show ?case
    by (auto split: option.split_asm if_split_asm dest!: view_keep 1(2) elim!: option_bind_eq_SomeE)
qed assumption

lemma view_unwind_stack [view_keep]: "unwind_stack t tmp active s = Some (r, s') \<Longrightarrow> pool_view s' = pool_view s"
  using view_unwind_result by fastforce

lemma view_free_thread:
  "binder_free_thread k p t s = Some (r, s') \<Longrightarrow> pools (procs s') = pools (procs s) \<and> loopers (thrs s') = (loopers (thrs s))(t := None)"
  by (auto simp: binder_free_thread_def view_defs loopers_def fun_eq_iff split: option.split_asm dest!: view_keep
      elim!: option_bind_eq_SomeE)

lemma view_get_thread:
  "binder_get_thread k c s p = Some (r, s') \<Longrightarrow> pools (procs s') = pools (procs s)
    \<and> (loopers (thrs s') = loopers (thrs s) \<or> (\<exists>t. loopers (thrs s') = (loopers (thrs s))(t \<mapsto> LOOPER_NEED_RETURN)))"
  by (auto simp: binder_get_thread_def kzalloc_def loopers_def new_thread_def fun_eq_iff split: sum.split_asm if_split_asm
      elim!: option_bind_eq_SomeE)

section \<open>Steps\<close>

text \<open>
  A state of the system: the driver's, the threads that wait at this moment, each with its process and whether it waits for work
  of the process, and the largest limit that the process \<open>p\<close> has set so far. A thread that waits does nothing until it wakes up.
\<close>

type_synonym waits = "nat \<Rightarrow> (nat \<times> bool) option"

inductive pool_step :: "'k kernel_scheme \<Rightarrow> nat \<Rightarrow> binder_state \<times> waits \<times> int \<Rightarrow> binder_state \<times> waits \<times> int \<Rightarrow> bool" for k p where
  command: "W t = None \<Longrightarrow> write_command k c um q t cmd ptr s = Some (r, s') \<Longrightarrow> pool_step k p (s, W, L) (s', W, L)"
| errors: "W t = None \<Longrightarrow> read_errors um t ptr uend s = Some (n, um', s') \<Longrightarrow> pool_step k p (s, W, L) (s', W, L)"
| sleep: "W t = None \<Longrightarrow> wait_begin k c q t w s = Some s' \<Longrightarrow> pool_step k p (s, W, L) (s', W(t \<mapsto> (q, w)), L)"
| awake: "W t = Some (q, w) \<Longrightarrow> wait_end q t w non_block e s = Some (ret, s') \<Longrightarrow> pool_step k p (s, W, L) (s', W(t := None), L)"
| work: "W t = None \<Longrightarrow> read_work k c um q t w ubuf ptr uend s = Some (n, um', s') \<Longrightarrow> pool_step k p (s, W, L) (s', W, L)"
| finish: "W t = None \<Longrightarrow> read_finish q t ubuf ptr um s = Some (ret, rc, um', s') \<Longrightarrow> pool_step k p (s, W, L) (s', W, L)"
| limit: "set_max_threads q n s = Some s' \<Longrightarrow> pool_step k p (s, W, L) (s', W, if q = p then max L (sint n) else L)"
| manager: "binder_ioctl_set_ctx_mgr k c q s = Some (ret, s') \<Longrightarrow> pool_step k p (s, W, L) (s', W, L)"
| attach: "binder_get_thread k c s q = Some (r, s') \<Longrightarrow> pool_step k p (s, W, L) (s', W, L)"
| detach: "W t = None \<Longrightarrow> binder_free_thread k q t s = Some (n, s') \<Longrightarrow> pool_step k p (s, W, L) (s', W, L)"
| leave: "W t = None \<Longrightarrow> clear_need_return t s = Some s' \<Longrightarrow> pool_step k p (s, W, L) (s', W, L)"

section \<open>The invariant\<close>

text \<open>
  At most one thread is asked for at a time, the threads asked for and started are within the largest limit, and
  \<open>ready_threads\<close> is the number of threads that wait for the process' work.
\<close>

definition waiting :: "nat \<Rightarrow> waits \<Rightarrow> nat set" where
  "waiting p W = {t. W t = Some (p, True)}"

definition pool_ok :: "nat \<Rightarrow> waits \<Rightarrow> int \<Rightarrow> pool_fields \<Rightarrow> bool" where
  "pool_ok p W L f = (case f of (asked, started, ready, limit) \<Rightarrow> asked \<in> {0, 1} \<and> 0 \<le> started \<and> asked + started \<le> L
     \<and> sint limit \<le> L \<and> ready = int (card (waiting p W)))"

text \<open>A thread that both entered and registered is marked as invalid.\<close>

definition looper_ok :: "u32 \<Rightarrow> bool" where
  "looper_ok l \<longleftrightarrow> (l AND LOOPER_REGISTERED \<noteq> 0 \<and> l AND LOOPER_ENTERED \<noteq> 0 \<longrightarrow> l AND LOOPER_INVALID \<noteq> 0)"

definition pool_inv :: "nat \<Rightarrow> binder_state \<times> waits \<times> int \<Rightarrow> bool" where
  "pool_inv p x = (case x of (s, W, L) \<Rightarrow> finite (dom W)
     \<and> (\<forall>pr. procs s p = Some pr \<longrightarrow> pool_ok p W L (pool_fields pr)) \<and> (\<forall>t th. thrs s t = Some th \<longrightarrow> looper_ok (looper th)))"

lemma looper_flags:
  "w AND LOOPER_REGISTERED = 0 \<longleftrightarrow> \<not> bit w 0" "w AND LOOPER_ENTERED = 0 \<longleftrightarrow> \<not> bit w 1" "w AND LOOPER_INVALID = 0 \<longleftrightarrow> \<not> bit w 3"
  for w :: u32
  using and_exp_eq_0_iff_not_bit [of w 0] and_exp_eq_0_iff_not_bit [of w 1] and_exp_eq_0_iff_not_bit [of w 3] by simp_all

lemma looper_ok_bits: "looper_ok l \<longleftrightarrow> (bit l 0 \<and> bit l 1 \<longrightarrow> bit l 3)"
  by (simp add: looper_ok_def looper_flags)

lemmas looper_simps = looper_flags looper_ok_bits bit_or_iff bit_and_iff bit_not_iff

lemma pools_back: "pools P' = pools P \<Longrightarrow> P' p = Some pr \<Longrightarrow> \<exists>pr0. P p = Some pr0 \<and> pool_fields pr0 = pool_fields pr"
  unfolding pools_def by (metis map_option_eq_Some option.simps(9))

lemma loopers_back: "loopers T' = F \<Longrightarrow> T' t = Some th \<Longrightarrow> F t = Some (looper th)"
  by (auto simp: loopers_def)

lemma inv_pools:
  assumes "pool_inv p (s, W, L)" and "pools (procs s') = pools (procs s)"
    and "\<And>t l. loopers (thrs s') t = Some l \<Longrightarrow> loopers (thrs s) t = Some l \<or> looper_ok l"
  shows "pool_inv p (s', W, L)"
proof -
  have "pool_ok p W L (pool_fields pr)" if "procs s' p = Some pr" for pr
    using pools_back [OF assms(2) that] assms(1) by (auto simp: pool_inv_def)
  moreover have "looper_ok (looper th)" if "thrs s' t = Some th" for t th
    using assms(3) [of t "looper th"] that assms(1) by (auto simp: pool_inv_def loopers_def) metis
  ultimately show ?thesis using assms(1) by (simp add: pool_inv_def)
qed

lemma inv_view: "pool_view s' = pool_view s \<Longrightarrow> pool_inv p (s, W, L) \<Longrightarrow> pool_inv p (s', W, L)"
  by (erule inv_pools) (simp_all add: pool_view_def)

text \<open>An update of a thread's flags, and one of a process' counters.\<close>

lemma inv_thread:
  assumes "upd_thread t f s = Some s'" and "pool_inv p (s, W, L)"
    and "\<And>th. thrs s t = Some th \<Longrightarrow> looper_ok (looper th) \<Longrightarrow> looper_ok (looper (f th))"
  shows "pool_inv p (s', W, L)"
proof -
  obtain th where th: "thrs s t = Some th" "s' = s\<lparr>thrs := (thrs s)(t \<mapsto> f th)\<rparr>" using assms(1) by (auto simp: upd_thread_def)
  have "looper_ok (looper (f th))" using assms(2,3) th(1) by (auto simp: pool_inv_def)
  then show ?thesis using assms(2) th(2) by (simp add: pool_inv_def)
qed

lemma inv_proc:
  assumes "upd_proc q f s = Some s'" and "pool_inv p (s, W, L)" and "finite (dom W')"
    and "\<And>pr. procs s q = Some pr \<Longrightarrow> q = p \<Longrightarrow> pool_ok p W L (pool_fields pr) \<Longrightarrow> pool_ok p W' L' (pool_fields (f pr))"
    and "q \<noteq> p \<Longrightarrow> waiting p W' = waiting p W \<and> L' = L"
  shows "pool_inv p (s', W', L')"
proof -
  obtain pr where pr: "procs s q = Some pr" "s' = s\<lparr>procs := (procs s)(q \<mapsto> f pr)\<rparr>" using assms(1) by (auto simp: upd_proc_def)
  have "pool_ok p W' L' (pool_fields (f pr))" if "q = p" using assms(2,4) pr(1) that by (simp add: pool_inv_def)
  moreover have "pool_ok p W' L' x = pool_ok p W L x" if "q \<noteq> p" for x using assms(5) [OF that] by (simp add: pool_ok_def)
  ultimately show ?thesis using assms(2,3) pr(2) by (cases "q = p") (simp_all add: pool_inv_def)
qed

lemma inv_waits: "waiting p W' = waiting p W \<Longrightarrow> finite (dom W') \<Longrightarrow> pool_inv p (s, W, L) \<Longrightarrow> pool_inv p (s, W', L)"
  by (simp add: pool_inv_def pool_ok_def)

lemma finite_waiting: "finite (dom W) \<Longrightarrow> finite (waiting p W)"
  by (rule finite_subset [of _ "dom W"]) (auto simp: waiting_def)

lemma waiting_add: "W t = None \<Longrightarrow> waiting p (W(t \<mapsto> (q, w))) = (if q = p \<and> w then insert t (waiting p W) else waiting p W) \<and> t \<notin> waiting p W"
  by (auto simp: waiting_def)

lemma waiting_del: "W t = Some (q, w) \<Longrightarrow> waiting p (W(t := None)) = (if q = p \<and> w then waiting p W - {t} else waiting p W)
    \<and> (q = p \<and> w \<longrightarrow> t \<in> waiting p W)"
  by (auto simp: waiting_def)

section \<open>Every step keeps it\<close>

lemma register_inv:
  assumes "register_looper q t s = Some s'" and "pool_inv p (s, W, L)"
  shows "pool_inv p (s', W, L)"
proof -
  obtain th pr s1 where st: "thrs s t = Some th" "procs s q = Some pr"
    "(if looper th AND LOOPER_ENTERED \<noteq> 0 \<or> requested_threads pr = 0
      then upd_thread t (\<lambda>x. x\<lparr>looper := looper x OR LOOPER_INVALID\<rparr>) s
      else upd_proc q (\<lambda>x. x\<lparr>requested_threads := requested_threads x - 1,
             requested_threads_started := requested_threads_started x + 1\<rparr>) s) = Some s1"
    "upd_thread t (\<lambda>x. x\<lparr>looper := looper x OR LOOPER_REGISTERED\<rparr>) s1 = Some s'"
    using assms(1) by (auto simp: register_looper_def split: if_split_asm elim!: option_bind_eq_SomeE)
  show ?thesis
  proof (cases "looper th AND LOOPER_ENTERED \<noteq> 0 \<or> requested_threads pr = 0")
    case True
    then have s1: "upd_thread t (\<lambda>x. x\<lparr>looper := looper x OR LOOPER_INVALID\<rparr>) s = Some s1" using st(3) by simp
    have "bit (looper x) 3" if "thrs s1 t = Some x" for x using s1 st(1) that by (auto simp: upd_thread_def bit_or_iff)
    moreover have "pool_inv p (s1, W, L)" by (rule inv_thread [OF s1 assms(2)]) (simp add: looper_simps)
    ultimately show ?thesis by (intro inv_thread [OF st(4)]) (auto simp: looper_simps)
  next
    case False
    then have s1: "upd_proc q (\<lambda>x. x\<lparr>requested_threads := requested_threads x - 1,
             requested_threads_started := requested_threads_started x + 1\<rparr>) s = Some s1" using st(3) by simp
    have "pool_inv p (s1, W, L)"
      by (rule inv_proc [OF s1 assms(2)]) (use assms(2) False st(2) in \<open>auto simp: pool_inv_def pool_ok_def pool_fields_def\<close>)
    moreover have "\<not> bit (looper x) 1" if "thrs s1 t = Some x" for x
      using s1 st(1) that False by (auto simp: upd_proc_def looper_flags)
    ultimately show ?thesis by (intro inv_thread [OF st(4)]) (auto simp: looper_simps)
  qed
qed

lemma enter_inv:
  assumes "enter_looper t s = Some s'" and "pool_inv p (s, W, L)"
  shows "pool_inv p (s', W, L)"
proof -
  obtain th s1 where st: "thrs s t = Some th" "(if looper th AND LOOPER_REGISTERED \<noteq> 0
      then upd_thread t (\<lambda>x. x\<lparr>looper := looper x OR LOOPER_INVALID\<rparr>) s else Some s) = Some s1"
    "upd_thread t (\<lambda>x. x\<lparr>looper := looper x OR LOOPER_ENTERED\<rparr>) s1 = Some s'"
    using assms(1) by (auto simp: enter_looper_def elim!: option_bind_eq_SomeE)
  have "pool_inv p (s1, W, L)"
    using st(2) assms(2) inv_thread [where f = "\<lambda>x. x\<lparr>looper := looper x OR LOOPER_INVALID\<rparr>", OF _ assms(2)]
    by (auto simp: looper_simps split: if_split_asm)
  moreover have "bit (looper x) 0 \<longrightarrow> bit (looper x) 3" if "thrs s1 t = Some x" for x
    using st(1,2) that by (auto simp: upd_thread_def looper_simps split: if_split_asm)
  ultimately show ?thesis by (intro inv_thread [OF st(3)]) (auto simp: looper_simps)
qed

lemma command_inv:
  assumes "write_command k c um q t cmd ptr s = Some (r, s')" and "pool_inv p (s, W, L)"
  shows "pool_inv p (s', W, L)"
proof (cases "cmd = BC_REGISTER_LOOPER \<or> cmd = BC_ENTER_LOOPER \<or> cmd = BC_EXIT_LOOPER")
  case True
  then have "register_looper q t s = Some s' \<or> enter_looper t s = Some s' \<or> exit_looper t s = Some s'"
    using assms(1) by (auto simp: write_command_def bc_codes step_to_def)
  moreover have "pool_inv p (s', W, L)" if "exit_looper t s = Some s'"
    by (rule inv_thread [OF that [unfolded exit_looper_def] assms(2)]) (simp add: looper_simps)
  ultimately show ?thesis using register_inv enter_inv assms(2) by blast
next
  case False
  then have "pool_view s' = pool_view s"
    using assms(1) by (auto simp: write_command_def arg32_def arg64_def step_to_def split: if_split_asm option.split_asm
        dest!: view_keep elim!: option_bind_eq_SomeE)
  then show ?thesis using assms(2) by (rule inv_view)
qed

lemma finish_inv:
  assumes "read_finish q t ubuf ptr um s = Some (ret, rc, um', s')" and "pool_inv p (s, W, L)"
  shows "pool_inv p (s', W, L)"
proof -
  obtain pr th where st: "procs s q = Some pr" "thrs s t = Some th"
    using assms(1) by (auto simp: read_finish_def elim!: option_bind_eq_SomeE)
  let ?ask = "requested_threads pr + ready_threads pr = 0 \<and> requested_threads_started pr < sint (max_threads pr)"
  have "s' = s \<or> ?ask \<and> upd_proc q (\<lambda>x. x\<lparr>requested_threads := requested_threads x + 1\<rparr>) s = Some s'"
    using assms(1) st by (auto simp: read_finish_def split: if_split_asm option.split_asm elim!: option_bind_eq_SomeE)
  then show ?thesis
  proof
    assume *: "?ask \<and> upd_proc q (\<lambda>x. x\<lparr>requested_threads := requested_threads x + 1\<rparr>) s = Some s'"
    show ?thesis
      by (rule inv_proc [OF conjunct2 [OF *] assms(2)]) (use * assms(2) st in \<open>auto simp: pool_inv_def pool_ok_def pool_fields_def\<close>)
  qed (use assms(2) in simp)
qed

lemma limit_inv:
  assumes "set_max_threads q n s = Some s'" and "pool_inv p (s, W, L)"
  shows "pool_inv p (s', W, if q = p then max L (sint n) else L)"
  by (rule inv_proc [OF assms(1) [unfolded set_max_threads_def] assms(2)])
    (use assms(2) in \<open>auto simp: pool_inv_def pool_ok_def pool_fields_def\<close>)

lemma sleep_inv:
  assumes "W t = None" and "wait_begin k c q t w s = Some s'" and "pool_inv p (s, W, L)"
  shows "pool_inv p (s', W(t \<mapsto> (q, w)), L)"
proof -
  obtain s1 s2 where st: "upd_thread t (\<lambda>x. x\<lparr>looper := looper x OR LOOPER_WAITING\<rparr>) s = Some s1"
    "(if w then upd_proc q (\<lambda>x. x\<lparr>ready_threads := ready_threads x + 1\<rparr>) s1 else Some s1) = Some s2" "pool_view s' = pool_view s2"
    using assms(2) by (auto simp: wait_begin_def pool_view_def elim!: option_bind_eq_SomeE split: if_split_asm)
  have i1: "pool_inv p (s1, W, L)" by (rule inv_thread [OF st(1) assms(3)]) (simp add: looper_simps)
  have fin: "finite (dom W)" using assms(3) by (simp add: pool_inv_def)
  note add = waiting_add [where W = W and t = t, OF assms(1), of p q w]
  have "pool_inv p (s2, W(t \<mapsto> (q, w)), L)"
  proof (cases w)
    case True
    then have s2: "upd_proc q (\<lambda>x. x\<lparr>ready_threads := ready_threads x + 1\<rparr>) s1 = Some s2" using st(2) by simp
    show ?thesis
      by (rule inv_proc [OF s2 i1])
        (use add fin True finite_waiting [OF fin, of p] in \<open>auto simp: pool_ok_def pool_fields_def\<close>)
  next
    case False
    then show ?thesis using st(2) add fin inv_waits [OF _ _ i1, of "W(t \<mapsto> (q, w))"] by simp
  qed
  then show ?thesis using inv_view [OF st(3)] by blast
qed

lemma awake_inv:
  assumes "W t = Some (q, w)" and "wait_end q t w non_block e s = Some (ret, s')" and "pool_inv p (s, W, L)"
  shows "pool_inv p (s', W(t := None), L)"
proof -
  obtain s1 where st: "(if w then upd_proc q (\<lambda>x. x\<lparr>ready_threads := ready_threads x - 1\<rparr>) s else Some s) = Some s1"
    "upd_thread t (\<lambda>x. x\<lparr>looper := looper x AND NOT LOOPER_WAITING\<rparr>) s1 = Some s'"
    using assms(2) by (auto simp: wait_end_def elim!: option_bind_eq_SomeE)
  have fin: "finite (dom W)" using assms(3) by (simp add: pool_inv_def)
  note del = waiting_del [where W = W and t = t, OF assms(1), of p]
  have "pool_inv p (s1, W(t := None), L)"
  proof (cases w)
    case True
    then have s1: "upd_proc q (\<lambda>x. x\<lparr>ready_threads := ready_threads x - 1\<rparr>) s = Some s1" using st(1) by simp
    have "card (waiting p W) = Suc (card (waiting p W - {t}))" if "q = p"
      using del True that finite_waiting [OF fin, of p] by (metis card_Suc_Diff1)
    then show ?thesis
      by (intro inv_proc [OF s1 assms(3)]) (use del fin True in \<open>auto simp: pool_ok_def pool_fields_def\<close>)
  next
    case False
    then show ?thesis using st(1) del fin inv_waits [OF _ _ assms(3), of "W(t := None)"] by simp
  qed
  then show ?thesis by (rule inv_thread [OF st(2)]) (simp add: looper_simps)
qed

lemma pool_step_inv: "pool_step k p x y \<Longrightarrow> pool_inv p x \<Longrightarrow> pool_inv p y"
proof (induction rule: pool_step.induct)
  case (attach c s q r s' W L)
  have "looper_ok LOOPER_NEED_RETURN" by (simp add: looper_ok_def)
  then show ?case using view_get_thread [OF attach(1)] by (intro inv_pools [OF attach(2)]) (auto split: if_split_asm)
next
  case (detach W t q s n s' L)
  show ?case using view_free_thread [OF detach(2)] by (intro inv_pools [OF detach(3)]) (auto split: if_split_asm)
next
  case (leave W t s s' L)
  show ?case by (rule inv_thread [OF leave(2) [unfolded clear_need_return_def] leave(3)]) (simp add: looper_simps)
qed (blast intro: command_inv finish_inv limit_inv sleep_inv awake_inv inv_view view_keep)+

section \<open>Properties\<close>

text \<open>
  C10. The thread pool of a process keeps its limits, from the moment the process is opened, over every interleaving of the
  \<open>ioctl\<close> calls of all threads of all processes, with any of them asleep in a read: at most one request for a new
  thread is open, the threads asked for and started are at most the largest limit that the process has ever set, \<open>ready_threads\<close> is exactly the
  number of threads that wait for the process' work, and a thread that both registered and entered is marked as invalid. While a
  request is open, or a thread waits, a read call that ends asks for no other thread.
\<close>

theorem thread_pool_bounded:
  assumes "rtranclp (pool_step k p) (s, Map.empty, 0) (s', W, L)" and "procs s p = Some (new_proc c d)"
    and "\<And>t th. thrs s t = Some th \<Longrightarrow> looper_ok (looper th)"
  shows "(\<forall>pr. procs s' p = Some pr \<longrightarrow> requested_threads pr \<in> {0, 1} \<and> 0 \<le> requested_threads_started pr
        \<and> requested_threads pr + requested_threads_started pr \<le> L \<and> sint (max_threads pr) \<le> L
        \<and> ready_threads pr = int (card {t. W t = Some (p, True)}))
    \<and> (\<forall>t th. thrs s' t = Some th \<longrightarrow> looper_ok (looper th))
    \<and> (\<forall>pr t ubuf ptr um ret rc um' s''. procs s' p = Some pr \<and> (requested_threads pr = 1 \<or> (\<exists>u. W u = Some (p, True)))
        \<and> read_finish p t ubuf ptr um s' = Some (ret, rc, um', s'') \<longrightarrow> s'' = s' \<and> um' = um)"
proof -
  have "pool_inv p (s, Map.empty, 0)"
    using assms(2,3) by (auto simp: pool_inv_def pool_ok_def pool_fields_def new_proc_def waiting_def)
  with assms(1) have inv: "pool_inv p (s', W, L)" by (induction rule: rtranclp_induct) (auto intro: pool_step_inv)
  have quiet: "s'' = s' \<and> um' = um"
    if "procs s' p = Some pr" "requested_threads pr = 1 \<or> (\<exists>u. W u = Some (p, True))"
      "read_finish p t ubuf ptr um s' = Some (ret, rc, um', s'')" for pr t ubuf ptr um ret rc um' s''
  proof -
    have fin: "finite {t. W t = Some (p, True)}" using inv finite_waiting [of W p] by (simp add: pool_inv_def waiting_def)
    then have "0 < card {t. W t = Some (p, True)}" if "W u = Some (p, True)" for u using that by (auto simp: card_gt_0_iff)
    then have "requested_threads pr + ready_threads pr \<noteq> 0"
      using inv that(1,2) by (auto simp: pool_inv_def pool_ok_def pool_fields_def waiting_def)
    then show ?thesis using that(1,3) by (auto simp: read_finish_def elim!: option_bind_eq_SomeE)
  qed
  show ?thesis
  proof (intro conjI)
    show "\<forall>pr t ubuf ptr um ret rc um' s''. procs s' p = Some pr \<and> (requested_threads pr = 1 \<or> (\<exists>u. W u = Some (p, True)))
        \<and> read_finish p t ubuf ptr um s' = Some (ret, rc, um', s'') \<longrightarrow> s'' = s' \<and> um' = um"
      using quiet by blast
  qed (use inv in \<open>auto simp: pool_inv_def pool_ok_def pool_fields_def waiting_def\<close>)
qed

text \<open>
  A process with two threads: thread 9 enters, the limit becomes 4, the read of thread 9 ends and asks for a thread, thread 8
  registers, and waits.
\<close>

definition two_threads :: binder_state where
  "two_threads = two_procs\<lparr>thrs := [8 \<mapsto> new_thread 1 11, 9 \<mapsto> new_thread 1 10]\<rparr>"

definition pool_run :: "binder_state option" where
  "pool_run = do {
     s1 \<leftarrow> enter_looper 9 two_threads;
     s2 \<leftarrow> set_max_threads 1 4 s1;
     (_, _, _, s3) \<leftarrow> read_finish 1 9 0 4 \<lparr>u_bytes = (\<lambda>_. None), u_writable = (\<lambda>_. False)\<rparr> s2;
     s4 \<leftarrow> register_looper 1 8 s3;
     wait_begin plain_driver (plain_caller 11) 1 8 True s4 }"

lemma pool_run_steps:
  assumes "pool_run = Some s'"
  shows "rtranclp (pool_step plain_driver 1) (two_threads, Map.empty, 0) (s', [8 \<mapsto> (1, True)], 4)"
proof -
  let ?um = "\<lparr>u_bytes = (\<lambda>_. None), u_writable = (\<lambda>_. False)\<rparr>" and ?step = "pool_step plain_driver 1"
  obtain s1 s2 ret rc um s3 s4 where run: "enter_looper 9 two_threads = Some s1" "set_max_threads 1 4 s1 = Some s2"
    "read_finish 1 9 0 4 ?um s2 = Some (ret, rc, um, s3)" "register_looper 1 8 s3 = Some s4"
    "wait_begin plain_driver (plain_caller 11) 1 8 True s4 = Some s'"
    using assms by (auto simp: pool_run_def elim!: option_bind_eq_SomeE)
  have "write_command plain_driver (plain_caller 10) ?um 1 9 BC_ENTER_LOOPER 0 two_threads = Some (Inr 0, s1)"
    using run(1) by (simp add: write_command_def bc_codes step_to_def)
  then have "?step (two_threads, Map.empty, 0) (s1, Map.empty, 0)" by (rule pool_step.command [rotated]) simp
  moreover have "?step (s1, Map.empty, 0) (s2, Map.empty, 4)" using pool_step.limit [OF run(2), of plain_driver 1 Map.empty 0] by simp
  moreover have "?step (s2, Map.empty, 4) (s3, Map.empty, 4)" by (rule pool_step.finish [OF _ run(3)]) simp
  moreover have "write_command plain_driver (plain_caller 11) ?um 1 8 BC_REGISTER_LOOPER 0 s3 = Some (Inr 0, s4)"
    using run(4) by (simp add: write_command_def bc_codes step_to_def)
  then have "?step (s3, Map.empty, 4) (s4, Map.empty, 4)" by (rule pool_step.command [rotated]) simp
  moreover have "?step (s4, Map.empty, 4) (s', [8 \<mapsto> (1, True)], 4)" by (rule pool_step.sleep [OF _ run(5)]) simp
  ultimately show ?thesis by (meson converse_rtranclp_into_rtranclp rtranclp.rtrancl_refl)
qed

lemma pool_run_ends: "\<exists>s' pr. pool_run = Some s' \<and> procs s' 1 = Some pr"
  by (simp add: pool_run_def enter_looper_def upd_thread_def two_threads_def two_procs_fields new_thread_def new_proc_def set_max_threads_def
      upd_proc_def read_finish_def register_looper_def wait_begin_def copy_to_user_def binder_set_nice_def)

theorem thread_pool_bounded_witness:
  "\<exists>s' pr. pool_run = Some s' \<and> procs s' 1 = Some pr \<and> ready_threads pr = 1
     \<and> requested_threads pr + requested_threads_started pr \<le> 4"
proof -
  obtain s' pr where s': "pool_run = Some s'" "procs s' 1 = Some pr" using pool_run_ends by blast
  have "procs two_threads 1 = Some (new_proc (plain_caller 10) 0)" by (simp add: two_threads_def two_procs_fields)
  moreover have "looper_ok (looper th)" if "thrs two_threads t = Some th" for t th
    using that by (auto simp: two_threads_def new_thread_def looper_ok_def split: if_split_asm)
  ultimately have "ready_threads pr = int (card {t :: nat. [8 \<mapsto> (1 :: nat, True)] t = Some (1, True)}) \<and> requested_threads pr + requested_threads_started pr \<le> 4"
    using thread_pool_bounded [OF pool_run_steps [OF s'(1)]] s'(2) by blast
  moreover have "{t :: nat. [8 \<mapsto> (1 :: nat, True)] t = Some (1, True)} = {8}" by auto
  ultimately show ?thesis using s' by auto
qed

end
