(* ===== verification/Svc_Driver.thy ===== *)
theory Svc_Driver
  imports Svc_Props Binder_Pool
begin

text \<open>
  The service manager and the driver together: what the manager's commands do in the driver, and what the driver does to the
  manager.
\<close>

unbundle bit_operations_syntax

section \<open>Commands on their way\<close>

text \<open>The bytes of a command, written to memory at any address and handed to \<open>binder_thread_write\<close>, are one command of the loop.\<close>

lemma commands_run:
  assumes "thrs s t = Some th" and "return_error th = BR_OK" and "unat a + 16 < 2 ^ 64"
  shows "(let bs = fst (last (sent (binder_acquire h st))) in
        binder_thread_write k c (memory_of a bs) p t a (word_of_nat (length bs)) 0 s
        = do { s' \<leftarrow> change_ref k p BC_ACQUIRE h s; _ \<leftarrow> thrs s' t; Some (0, word_of_nat (length bs), s') })
    \<and> (let bs = fst (last (sent (binder_release_ref h st))) in
        binder_thread_write k c (memory_of a bs) p t a (word_of_nat (length bs)) 0 s
        = do { s' \<leftarrow> change_ref k p BC_RELEASE h s; _ \<leftarrow> thrs s' t; Some (0, word_of_nat (length bs), s') })
    \<and> (let bs = fst (last (sent (binder_link_to_death h cookie st))) in
        binder_thread_write k c (memory_of a bs) p t a (word_of_nat (length bs)) 0 s
        = do { s' \<leftarrow> death_command k p t BC_REQUEST_DEATH_NOTIFICATION h cookie s; _ \<leftarrow> thrs s' t; Some (0, word_of_nat (length bs), s') })"
proof -
  have two: "binder_thread_write k c (memory_of a (u32_bytes cmd @ u32_bytes h)) p t a (word_of_nat 8) 0 s
      = do { s' \<leftarrow> change_ref k p cmd h s; _ \<leftarrow> thrs s' t; Some (0, word_of_nat 8, s') }" if "cmd = BC_ACQUIRE \<or> cmd = BC_RELEASE" for cmd
  proof (rule write_one [OF assms(1,2)])
    let ?um = "memory_of a (u32_bytes cmd @ u32_bytes h)"
    show "get_user32 ?um a = Some cmd" using memory_get32 [of "[]" cmd "u32_bytes h" a] by simp
    have "get_user32 ?um (a + 4) = Some h" using memory_get32 [of "u32_bytes cmd" h "[]" a] by simp
    then show "write_command k c ?um p t cmd (a + 4) s = map_option (\<lambda>s'. (Inr (a + word_of_nat 8), s')) (change_ref k p cmd h s)"
      using that by (auto simp: write_command_def bc_codes arg32_def step_to_def add.assoc)
  qed (use assms(3) in simp_all)
  have death: "binder_thread_write k c (memory_of a (u32_bytes BC_REQUEST_DEATH_NOTIFICATION @ u32_bytes h @ u64_bytes cookie)) p t a (word_of_nat 16) 0 s
      = do { s' \<leftarrow> death_command k p t BC_REQUEST_DEATH_NOTIFICATION h cookie s; _ \<leftarrow> thrs s' t; Some (0, word_of_nat 16, s') }"
  proof (rule write_one [OF assms(1,2)])
    let ?um = "memory_of a (u32_bytes BC_REQUEST_DEATH_NOTIFICATION @ u32_bytes h @ u64_bytes cookie)"
    show "get_user32 ?um a = Some BC_REQUEST_DEATH_NOTIFICATION"
      using memory_get32 [of "[]" BC_REQUEST_DEATH_NOTIFICATION "u32_bytes h @ u64_bytes cookie" a] by simp
    have "get_user32 ?um (a + 4) = Some h" "get_user64 ?um (a + 8) = Some cookie"
      using memory_get32 [of "u32_bytes BC_REQUEST_DEATH_NOTIFICATION" h "u64_bytes cookie" a]
        memory_get64 [of "u32_bytes BC_REQUEST_DEATH_NOTIFICATION @ u32_bytes h" cookie "[]" a] by simp_all
    then show "write_command k c ?um p t BC_REQUEST_DEATH_NOTIFICATION (a + 4) s
        = map_option (\<lambda>s'. (Inr (a + word_of_nat 16), s')) (death_command k p t BC_REQUEST_DEATH_NOTIFICATION h cookie s)"
      by (simp add: write_command_def bc_codes arg32_def arg64_def step_to_def add.assoc)
  qed (use assms(3) in simp_all)
  show ?thesis
    using two [of BC_ACQUIRE] two [of BC_RELEASE] death
    by (simp add: binder_acquire_def binder_release_ref_def binder_link_to_death_def binder_write_def Let_def)
qed

lemma view_thread: "pool_view s' = pool_view s \<Longrightarrow> thrs s t \<noteq> None \<Longrightarrow> thrs s' t \<noteq> None"
  unfolding pool_view_def loopers_def by (metis map_option_is_None prod.inject)

section \<open>What they do\<close>

lemma change_ref_known:
  assumes "store_ok s" and "procs s p = Some pr" and "rfs s r = Some rf" and "rf_proc rf = p" and "rf_desc rf \<noteq> 0"
  shows "change_ref k p BC_ACQUIRE (rf_desc rf) s = map_option snd (binder_inc_ref s r True None)"
    and "change_ref k p BC_RELEASE (rf_desc rf) s = map_option snd (binder_dec_ref k s r True)"
proof -
  have "binder_get_ref s p (rf_desc rf) = Some (Some r)" using get_ref_iff(1) [OF assms(1,2)] assms(3,4) by blast
  then show "change_ref k p BC_ACQUIRE (rf_desc rf) s = map_option snd (binder_inc_ref s r True None)"
    "change_ref k p BC_RELEASE (rf_desc rf) s = map_option snd (binder_dec_ref k s r True)"
    using assms(5) by (simp_all add: change_ref_def bc_codes)
qed

lemma queue_death_fresh:
  assumes "thrs s t \<noteq> None" and "entry s (W_Death d) = None"
  shows "\<exists>s'. queue_death p t d s = Some s' \<and> rfs s' = rfs s \<and> deaths s' = deaths s"
  using assms by (auto simp: queue_death_def list_add_tail_def wake_up_def)

lemma request_death_new:
  assumes "thrs s t \<noteq> None" and "rfs s r = Some rf" and "rf_death rf = None" and "nds s (rf_node rf) = Some nd" and "kzalloc_ok k (next_addr s)"
  shows "\<exists>s'. request_death k p t r cookie s = Some s' \<and> rfs s' = (rfs s)(r \<mapsto> rf\<lparr>rf_death := Some (next_addr s)\<rparr>)
    \<and> deaths s' = (deaths s)(next_addr s \<mapsto> \<lparr>dt_type = if nd_proc nd = None then Some DEAD_BINDER else None, dt_cookie = cookie\<rparr>)"
proof -
  let ?d = "next_addr s"
  let ?live = "s\<lparr>next_addr := Suc ?d, deaths := (deaths s)(?d \<mapsto> \<lparr>dt_type = None, dt_cookie = cookie\<rparr>),
      entry := (entry s)(W_Death ?d := None), rfs := (rfs s)(r \<mapsto> rf\<lparr>rf_death := Some ?d\<rparr>)\<rparr>"
  let ?dead = "?live\<lparr>deaths := (deaths s)(?d \<mapsto> \<lparr>dt_type = Some DEAD_BINDER, dt_cookie = cookie\<rparr>)\<rparr>"
  have run: "request_death k p t r cookie s = (if nd_proc nd = None then queue_death p t ?d ?dead else Some ?live)"
    using assms by (simp add: request_death_def kzalloc_def upd_ref_def upd_death_def)
  show ?thesis
    using run queue_death_fresh [of ?dead t ?d p] assms(1) by (cases "nd_proc nd") auto
qed

section \<open>Properties\<close>


text \<open>Process 2 of the small world, with a thread: it holds reference 4 once.\<close>

definition held_thread :: binder_state where
  "held_thread = held_ref\<lparr>thrs := [0 \<mapsto> new_thread 2 20]\<rparr>"


end
