(* ===== verification/Svc_Reply.thy ===== *)
theory Svc_Reply
  imports Svc_Driver
begin

text \<open>
  What becomes of the service manager when it is called one-way: the delivery of the call by the driver, the manager's reply, the
  driver's answer to that, and the end of the manager's loop, in one chain.
\<close>

unbundle bit_operations_syntax

section \<open>Threads are left alone\<close>

text \<open>Freeing a buffer changes no thread: neither its stack nor its errors.\<close>

named_theorems thrs_keep \<open>operations that leave the threads alone\<close>

lemma thrs_list_ops [thrs_keep]:
  "list_add_tail w L s = Some s' \<Longrightarrow> thrs s' = thrs s"
  "upd_node n f s = Some s' \<Longrightarrow> thrs s' = thrs s"
  "upd_ref r g s = Some s' \<Longrightarrow> thrs s' = thrs s"
  "upd_txn i h s = Some s' \<Longrightarrow> thrs s' = thrs s"
  "upd_proc p j s = Some s' \<Longrightarrow> thrs s' = thrs s"
  by (auto simp: list_add_tail_def upd_node_def upd_ref_def upd_txn_def upd_proc_def split: if_splits)

lemma thrs_upd_buf [thrs_keep]: "upd_buf p b f s = Some s' \<Longrightarrow> thrs s' = thrs s"
  by (auto simp: upd_buf_def dest!: thrs_keep elim!: option_bind_eq_SomeE)

lemma thrs_free_node [thrs_keep]: "free_node k s n = Some s' \<Longrightarrow> thrs s' = thrs s"
  by (auto simp: free_node_def Let_def split: option.split_asm dest!: thrs_keep elim!: option_bind_eq_SomeE)

lemma thrs_dec_node [thrs_keep]: "binder_dec_node k s n strong internal = Some s' \<Longrightarrow> thrs s' = thrs s"
  by (auto simp: binder_dec_node_def split: if_split_asm dest!: thrs_keep elim!: option_bind_eq_SomeE)

lemma thrs_free_death [thrs_keep]: "free_death s d = Some s' \<Longrightarrow> thrs s' = thrs s"
  by (auto simp: free_death_def Let_def elim!: option_bind_eq_SomeE)

lemma thrs_delete_ref [thrs_keep]: "binder_delete_ref k s r = Some s' \<Longrightarrow> thrs s' = thrs s"
  by (auto simp: binder_delete_ref_def split: if_split_asm option.split_asm dest!: thrs_keep elim!: option_bind_eq_SomeE)

lemma thrs_dec_ref [thrs_keep]: "binder_dec_ref k s r strong = Some (x, s') \<Longrightarrow> thrs s' = thrs s"
  by (auto simp: binder_dec_ref_def split: if_split_asm dest!: thrs_keep elim!: option_bind_eq_SomeE)

lemma thrs_close_fd [thrs_keep]: "task_close_fd k s p fd = Some (r, s') \<Longrightarrow> thrs s' = thrs s"
  by (auto simp: task_close_fd_def Let_def split: option.split_asm elim!: option_bind_eq_SomeE)

lemma thrs_free_buf [thrs_keep]: "proc_free_buf k s p b = Some s' \<Longrightarrow> thrs s' = thrs s"
  by (auto simp: proc_free_buf_def elim!: option_bind_eq_SomeE)

lemma thrs_release_object [thrs_keep]: "release_object k p failed f s = Some s' \<Longrightarrow> thrs s' = thrs s"
  by (auto simp: release_object_def split: if_split_asm option.split_asm dest!: thrs_keep elim!: option_bind_eq_SomeE)

lemma thrs_release_objects [thrs_keep]: "release_objects k p h failed pos n s = Some s' \<Longrightarrow> thrs s' = thrs s"
  by (induction n arbitrary: pos s) (auto split: if_split_asm dest!: thrs_keep elim!: option_bind_eq_SomeE)

lemma thrs_buffer_release [thrs_keep]: "binder_transaction_buffer_release k s p b fa = Some s' \<Longrightarrow> thrs s' = thrs s"
  by (auto simp: binder_transaction_buffer_release_def Let_def split: option.split_asm dest!: thrs_keep elim!: option_bind_eq_SomeE)

lemma thrs_async_next [thrs_keep]: "async_next t n s = Some s' \<Longrightarrow> thrs s' = thrs s"
  by (auto simp: async_next_def split: if_split_asm list.split_asm dest!: thrs_keep elim!: option_bind_eq_SomeE)

lemma thrs_user_free_buffer: "user_free_buffer k p t ptr s = Some s' \<Longrightarrow> thrs s' = thrs s"
  by (auto simp: user_free_buffer_def split: if_split_asm option.split_asm dest!: thrs_keep elim!: option_bind_eq_SomeE)

section \<open>A one-way call arrives\<close>

text \<open>The delivery of a one-way call leaves the stack of the thread empty, and puts the command and its data at \<open>ptr\<close>.\<close>

lemma one_way_delivered:
  assumes "read_transaction k c um p t tid ptr s = Some (Read_Done q, um1, s1)" and "txns s tid = Some tx"
    and "tx_flags tx AND TF_ONE_WAY \<noteq> 0" and "tx_buffer tx = Some (bp, b)" and "get_buf s bp b = Some h" and "buf_target_node h = Some n"
  shows "thrs s1 = thrs s"
    and "\<exists>um0 tr. put_user32 um ptr BR_TRANSACTION = Some um0 \<and> copy_to_user um0 (ptr + 4) (transaction_data_bytes tr) = Some um1"
proof -
  obtain nd s0 where s0: "nds s n = Some nd" "txn_priority k c tid nd s = Some s0"
    using assms by (auto simp: read_transaction_def elim!: option_bind_eq_SomeE)
  have prio: "thrs s0 = thrs s" "\<exists>sp. txns s0 tid = Some (tx\<lparr>saved_priority := sp\<rparr>)"
    using s0(2) assms(2) by (auto simp: txn_priority_def upd_txn_def binder_set_nice_def Let_def elim!: option_bind_eq_SomeE split: if_splits)
  obtain tr um0 where d: "delivered_data k c p tx b h (nd_ptr nd, nd_cookie nd) s0 = Some tr" "put_user32 um ptr BR_TRANSACTION = Some um0"
    "copy_to_user um0 (ptr + 4) (transaction_data_bytes tr) = Some um1" "delivered t tid bp b BR_TRANSACTION s0 = Some s1"
    using assms s0 by (auto simp: read_transaction_def put32_def split: option.split_asm elim!: option_bind_eq_SomeE)
  then show "\<exists>um0 tr. put_user32 um ptr BR_TRANSACTION = Some um0 \<and> copy_to_user um0 (ptr + 4) (transaction_data_bytes tr) = Some um1" by blast
  have "thrs s1 = thrs s0"
    using d(4) prio(2) assms(3) by (auto simp: delivered_def Let_def dest!: thrs_keep elim!: option_bind_eq_SomeE)
  then show "thrs s1 = thrs s" using prio(1) by simp
qed

section \<open>The reply\<close>

lemma reply_refused:
  assumes "thrs s t = Some th" and "transaction_stack th = None" and "return_error th = BR_OK"
  shows "binder_transaction k c um p t tr True s = Some (s\<lparr>thrs := (thrs s)(t \<mapsto> th\<lparr>return_error := BR_FAILED_REPLY\<rparr>)\<rparr>)"
  using assms by (simp add: Binder_Txn.binder_transaction_def txn_target_of_def reply_target_def txn_fail_def upd_thread_def)

text \<open>The two commands of \<open>binder_send_reply\<close>, for a thread that is in no call.\<close>

lemma send_reply_refused:
  assumes "thrs s t = Some th" and "transaction_stack th = None" and "return_error th = BR_OK" and "unat a + 80 < 2 ^ 64"
    and "user_free_buffer k p t buf s = Some s2"
  shows "binder_thread_write k c (memory_of a (fst (last (sent (binder_send_reply e reply buf res st))))) p t a 80 0 s
    = Some (0, 80, s2\<lparr>thrs := (thrs s2)(t \<mapsto> th\<lparr>return_error := BR_FAILED_REPLY\<rparr>)\<rparr>)"
proof -
  let ?tr = "reply_data e reply res" and ?s3 = "s2\<lparr>thrs := (thrs s2)(t \<mapsto> th\<lparr>return_error := BR_FAILED_REPLY\<rparr>)\<rparr>"
  let ?bs = "u32_bytes BC_FREE_BUFFER @ u64_bytes buf @ u32_bytes BC_REPLY @ transaction_data_bytes ?tr"
  let ?um = "memory_of a ?bs"
  have tlen: "length (transaction_data_bytes ?tr) = 64" by (simp add: transaction_data_bytes_def)
  have th2: "thrs s2 t = Some th" using thrs_user_free_buffer [OF assms(5)] assms(1) by simp
  have get: "get_user32 ?um a = Some BC_FREE_BUFFER" "get_user64 ?um (a + 4) = Some buf" "get_user32 ?um (a + 12) = Some BC_REPLY"
    "copy_from_user ?um (a + 16) 64 = Some (transaction_data_bytes ?tr)"
    using memory_get32 [of "[]" BC_FREE_BUFFER "u64_bytes buf @ u32_bytes BC_REPLY @ transaction_data_bytes ?tr" a]
      memory_get64 [of "u32_bytes BC_FREE_BUFFER" buf "u32_bytes BC_REPLY @ transaction_data_bytes ?tr" a]
      memory_get32 [of "u32_bytes BC_FREE_BUFFER @ u64_bytes buf" BC_REPLY "transaction_data_bytes ?tr" a]
      memory_read [of ?bs 16 64 a] tlen by simp_all
  have one: "write_command k c ?um p t BC_FREE_BUFFER (a + 4) s = Some (Inr (a + 12), s2)"
    using get(2) assms(5) by (simp add: write_command_def bc_codes arg64_def step_to_def add.assoc)
  have two: "write_command k c ?um p t BC_REPLY (a + 16) s2 = Some (Inr (a + 80), ?s3)"
    using get(4) reply_refused [OF th2 assms(2,3)] by (simp add: write_command_def bc_codes step_to_def transaction_data_encode add.assoc)
  have lt: "a < a + 80" "a + 12 < a + 80"
    using unat_forward [of a 80] unat_forward [of a 12] assms(4) by (simp_all add: word_less_nat_alt)
  have "write_loop (Suc (Suc (Suc m))) k c ?um p t a a (a + 80) 0 s = Some (0, 80, ?s3)" for m
    using assms(1,3) th2 lt get(1,3) one two by (simp add: add.assoc br_codes)
  from this [of 78] show ?thesis
    by (simp add: binder_thread_write_def binder_send_reply_def del: write_loop.simps)
qed


section \<open>The answer of the driver\<close>

text \<open>Two values written one after the other, or the first one last, and read as a whole.\<close>

lemma copy_from_split:
  "copy_from_user um a (m + n) = do { x \<leftarrow> copy_from_user um a m; y \<leftarrow> copy_from_user um (a + word_of_nat m) n; Some (x @ y) }"
proof -
  have those: "those (xs @ ys) = do { x \<leftarrow> those xs; y \<leftarrow> those ys; Some (x @ y) }" for xs ys :: "byte option list"
    by (induction xs) (auto split: option.split bind_split)
  have "[0..<m + n] = [0..<m] @ map (\<lambda>i. i + m) [0..<n]"
    using upt_add_eq_append [of 0 m n] by (simp add: map_add_upt add.commute)
  then show ?thesis by (simp add: copy_from_user_def those comp_def ac_simps)
qed

lemma copy_from_other:
  assumes "copy_to_user um a bs = Some um'" and "\<And>i j. i < n \<Longrightarrow> j < length bs \<Longrightarrow> c + word_of_nat i \<noteq> a + word_of_nat j"
  shows "copy_from_user um' c n = copy_from_user um c n"
proof -
  have "um' = um\<lparr>u_bytes := poke_bytes (u_bytes um) a bs\<rparr>" using assms(1) by (simp add: copy_to_user_def split: if_splits)
  moreover have "map (\<lambda>i. poke_bytes (u_bytes um) a bs (c + word_of_nat i)) [0..<n] = map (\<lambda>i. u_bytes um (c + word_of_nat i)) [0..<n]"
    using poke_bytes_outside assms(2) by (intro map_cong) auto
  ultimately show ?thesis using arg_cong [of _ _ those] by (simp del: map_eq_conv add: copy_from_user_def)
qed

lemma apart:
  assumes "unat a + m + n < 2 ^ 64" and "i < m" and "j < n"
  shows "(a :: u64) + word_of_nat i \<noteq> a + word_of_nat m + word_of_nat j"
proof
  assume "a + word_of_nat i = a + word_of_nat m + word_of_nat j"
  then have "unat (a + word_of_nat i) = unat (a + word_of_nat (m + j))" by (simp add: add.assoc)
  then show False using unat_forward [of a i] unat_forward [of a "m + j"] assms by simp
qed

lemma copy_two:
  assumes "copy_to_user um a xs = Some um0" and "copy_to_user um0 (a + word_of_nat (length xs)) ys = Some um1"
    and "unat a + length xs + length ys < 2 ^ 64"
  shows "copy_from_user um1 a (length xs + length ys) = Some (xs @ ys)"
    and "length zs = length xs \<Longrightarrow> copy_to_user um1 a zs = Some um2 \<Longrightarrow> copy_from_user um2 a (length xs + length ys) = Some (zs @ ys)"
proof -
  have y: "copy_from_user um1 (a + word_of_nat (length xs)) (length ys) = Some ys" using copy_to_from_user [OF assms(2)] assms(3) by simp
  have "copy_from_user um1 a (length xs) = Some xs"
    using copy_from_other [OF assms(2), of "length xs" a] apart [OF assms(3)] copy_to_from_user [OF assms(1)] assms(3) by simp
  then show "copy_from_user um1 a (length xs + length ys) = Some (xs @ ys)" using y by (simp add: copy_from_split)
  assume z: "length zs = length xs" "copy_to_user um1 a zs = Some um2"
  have "copy_from_user um2 (a + word_of_nat (length xs)) (length ys) = Some ys"
    using copy_from_other [OF z(2), of "length ys" "a + word_of_nat (length xs)"] apart [OF assms(3)] y z(1) by fastforce
  moreover have "copy_from_user um2 a (length xs) = Some zs" using copy_to_from_user [OF z(2)] z(1) assms(3) by simp
  ultimately show "copy_from_user um2 a (length xs + length ys) = Some (zs @ ys)" by (simp add: copy_from_split)
qed

text \<open>What \<open>BINDER_WRITE_READ\<close> with nothing to write leaves in the 128 bytes of \<open>readbuf\<close>.\<close>

definition read_answer ::
  "'k kernel_scheme \<Rightarrow> caller \<Rightarrow> (nat \<Rightarrow> binder_state \<Rightarrow> int \<times> binder_state) \<Rightarrow> user_space \<Rightarrow> nat \<Rightarrow> nat \<Rightarrow> u64 \<Rightarrow> binder_state
    \<Rightarrow> (ioctl_answer \<times> binder_state) option" where
  "read_answer k c env um p t readbuf s = do {
     (ret, n, um', s') \<leftarrow> binder_thread_read k c env um p t readbuf 128 0 False s;
     bs \<leftarrow> copy_from_user um' readbuf (unat n);
     Some (\<lparr>io_res = ret, io_buf = bs, io_consumed = unat n, io_mem = um'\<rparr>, s') }"

lemma failed_reply_read:
  assumes "thrs s t = Some th" and "return_error th = BR_FAILED_REPLY" and "return_error2 th = BR_OK" and "procs s p \<noteq> None"
    and "\<forall>i<8. u_writable um (ubuf + word_of_nat i)" and "unat ubuf + 128 < 2 ^ 64"
  shows "\<exists>w um' s'. (w = BR_NOOP \<or> w = BR_SPAWN_LOOPER)
    \<and> read_answer k c env um p t ubuf s = Some (\<lparr>io_res = 0, io_buf = u32_bytes w @ u32_bytes BR_FAILED_REPLY, io_consumed = 8, io_mem = um'\<rparr>, s')"
proof -
  let ?s1 = "s\<lparr>thrs := (thrs s)(t \<mapsto> th\<lparr>return_error := BR_OK\<rparr>)\<rparr>"
  have wr: "\<exists>m'. copy_to_user m x (u32_bytes w) = Some m' \<and> u_writable m' = u_writable m"
    if x: "x = ubuf \<or> x = ubuf + 4" "u_writable m = u_writable um" for m x w
  proof -
    have "u_writable um (x + word_of_nat i)" if "i < 4" for i
      using x(1) that assms(5) [rule_format, of i] assms(5) [rule_format, of "4 + i"] by (auto simp: add.assoc)
    then show ?thesis using x(2) by (auto simp: copy_to_user_def list_all_iff)
  qed
  obtain u1 where u1: "put_user32 um ubuf BR_NOOP = Some u1" "u_writable u1 = u_writable um" using wr by blast
  obtain u2 where u2: "put_user32 u1 (ubuf + 4) BR_FAILED_REPLY = Some u2" "u_writable u2 = u_writable um" using wr [OF _ u1(2)] u1(2) by metis
  obtain u3 where u3: "put_user32 u2 ubuf BR_SPAWN_LOOPER = Some u3" using wr [OF _ u2(2)] by blast
  note two = copy_two [of um ubuf "u32_bytes BR_NOOP" u1 "u32_bytes BR_FAILED_REPLY" u2, simplified]
  have got: "copy_from_user u2 ubuf 8 = Some (u32_bytes BR_NOOP @ u32_bytes BR_FAILED_REPLY)"
    "copy_from_user u3 ubuf 8 = Some (u32_bytes BR_SPAWN_LOOPER @ u32_bytes BR_FAILED_REPLY)"
    using two(1) two(2) [of "u32_bytes BR_SPAWN_LOOPER" u3] u1(1) u2(1) u3 assms(6) by simp_all
  have lt: "ubuf + 4 < ubuf + 128"
    using unat_forward [of ubuf 4] unat_forward [of ubuf 128] assms(6) by (simp add: word_less_nat_alt)
  have "read_loop k c env p t False ubuf (ubuf + 128) 0 None u1 (ubuf + 4) s = Some (Read_Done (ubuf + 8), u2, ?s1)"
    using assms(1-3) lt u2(1) by (subst read_loop.simps) (simp add: read_errors_def put32_def upd_thread_def br_codes add.assoc)
  then have run: "binder_thread_read k c env um p t ubuf 128 0 False s = read_finish p t ubuf (ubuf + 8) u2 ?s1"
    using u1(1) by (simp add: binder_thread_read_def)
  obtain w um' s' where "w = BR_NOOP \<or> w = BR_SPAWN_LOOPER" "read_finish p t ubuf (ubuf + 8) u2 ?s1 = Some (0, 8, um', s')"
    "copy_from_user um' ubuf 8 = Some (u32_bytes w @ u32_bytes BR_FAILED_REPLY)"
  proof (cases "read_finish p t ubuf (ubuf + 8) u2 ?s1 = Some (0, 8, u2, ?s1)")
    case False
    then have "\<exists>s'. read_finish p t ubuf (ubuf + 8) u2 ?s1 = Some (0, 8, u3, s')"
      using assms(4) u3 by (auto simp: read_finish_def upd_proc_def split: if_splits)
    then show ?thesis using that got(2) by blast
  qed (use that got(1) in blast)
  then show ?thesis using run by (auto simp: read_answer_def)
qed

text \<open>Both of the answers end the loop.\<close>

lemma failed_reply_ends:
  assumes "w = BR_NOOP \<or> w = BR_SPAWN_LOOPER" and "drv st = \<lparr>io_res = 0, io_buf = u32_bytes w @ u32_bytes BR_FAILED_REPLY, io_consumed = 8, io_mem = um\<rparr>"
  shows "loop_from e drv func st = Some (- 1, st)"
proof -
  let ?buf = "u32_bytes w @ u32_bytes BR_FAILED_REPLY"
  have get: "get_u32 ?buf 0 = Some w" "get_u32 ?buf 4 = Some BR_FAILED_REPLY" by simp_all
  have "binder_parse e um (Some func) ?buf 8 1 False (junk_bio e) 0 st = Some (- 1, junk_bio e, st)"
    using get assms(1) by (auto simp: br_codes)
  then show ?thesis using assms(2) by (subst loop_from.simps) (simp add: Let_def)
qed


section \<open>A mailbox\<close>

text \<open>A mapping with one asynchronous buffer of eight bytes, which transaction 5 to node 3 has.\<close>

definition mail_alloc :: binder_alloc where
  "mail_alloc = (case binder_alloc_buf plain_kernel mapped_state 8 0 True of None \<Rightarrow> mapped_state | Some (res, a) \<Rightarrow> a)"

definition mail_buffer :: binder_buffer where
  "mail_buffer = fresh_buffer\<lparr>buf_free := False, buf_data_size := 8, async_transaction := True\<rparr>"

lemma mail_alloc_run: "\<exists>r. binder_alloc_buf plain_kernel mapped_state 8 0 True = Some (r, mail_alloc)"
proof -
  have "binder_alloc_buf plain_kernel mapped_state 8 0 True \<noteq> None"
    by (simp add: run_defs mapped_state_def plain_kernel_def plain_vma_def)
  then show ?thesis by (auto simp: mail_alloc_def)
qed

lemma mail_alloc_fields:
  "bufs mail_alloc 0x100000 = Some mail_buffer" "user_buffer_offset mail_alloc = 0x6f00000"
  "allocated_buffers mail_alloc = Node Leaf 0x100000 Leaf" "\<exists>e. live_map mail_alloc 0x100000 = Some (mail_buffer, e)"
  by (simp_all add: live_map_def mail_alloc_def mail_buffer_def run_defs mapped_state_def plain_kernel_def plain_vma_def)

lemma mail_alloc_wf: "alloc_wf mail_alloc"
  using mail_alloc_run alloc_step_wf [OF plain_kernel_ok(1) mapped_state_wf alloc_step.Alloc] by blast

text \<open>The manager's process, with a one-way ping on its way to it.\<close>

definition one_way_ping :: binder_transaction where
  "one_way_ping = \<lparr>tx_debug_id = 1, tx_from = None, from_parent = None, to_proc = Some 1, to_thread = None, to_parent = None, need_reply = False,
     tx_buffer = Some (1, 0x100000), tx_code = PING_TRANSACTION, tx_flags = TF_ONE_WAY, tx_priority = 0, saved_priority = 0, sender_euid = 1000\<rparr>"

definition manager_node :: binder_node where
  "manager_node = (new_node 1 0 0 1)\<lparr>has_strong_ref := True, local_strong_refs := 1, has_async_transaction := True\<rparr>"

definition manager_proc :: binder_proc where
  "manager_proc = (new_proc (plain_caller 10) 0)\<lparr>pr_nodes := Node Leaf 3 Leaf,
     pr_alloc := upd_buffer 0x100000 (set_owner False 1 (Some 5) (Some 3) (replicate 8 0)) mail_alloc\<rparr>"

definition ping_sent :: binder_state where
  "ping_sent = binder_init_state\<lparr>procs := [1 \<mapsto> manager_proc], thrs := [9 \<mapsto> new_thread 1 10], nds := [3 \<mapsto> manager_node],
     txns := [5 \<mapsto> one_way_ping], binder_context_mgr_node := Some 3,
     queues := (\<lambda>_. [])(Proc_Todo 1 := [W_Transaction 5]), entry := [W_Transaction 5 \<mapsto> Proc_Todo 1]\<rparr>"

definition ping_data :: binder_transaction_data where
  "ping_data = \<lparr>td_target = 0, td_cookie = 0, td_code = PING_TRANSACTION, td_flags = TF_ONE_WAY, td_sender_pid = 0, td_sender_euid = 1000,
     td_data_size = 8, td_offsets_size = 0, td_buffer = 0x7000050, td_offsets = 0x7000058\<rparr>"

definition read_proc :: binder_proc where
  "read_proc = manager_proc\<lparr>pr_alloc := upd_buffer 0x100000 (set_owner True 1 None (Some 3) (replicate 8 0)) mail_alloc\<rparr>"

lemma copy_to_all:
  assumes "u_writable um = (\<lambda>_. True)"
  obtains um' where "copy_to_user um a bs = Some um'" and "u_writable um' = (\<lambda>_. True)"
  using assms by (simp add: copy_to_user_def list_all_iff)

lemma upd_buf_single:
  "procs x = [1 \<mapsto> pr] \<Longrightarrow> bufs (pr_alloc pr) b \<noteq> None \<Longrightarrow>
    upd_buf 1 b f x = Some (x\<lparr>procs := [1 \<mapsto> pr\<lparr>pr_alloc := upd_buffer b f (pr_alloc pr)\<rparr>]\<rparr>)"
  by (auto simp: upd_buf_def upd_proc_def get_buf_def)

lemma manager_mail:
  "bufs (pr_alloc manager_proc) 0x100000 = Some (set_owner False 1 (Some 5) (Some 3) (replicate 8 0) mail_buffer)"
  "user_buffer_offset (pr_alloc manager_proc) = 0x6f00000"
  by (simp_all add: manager_proc_def upd_buffer_def mail_alloc_fields)

lemma ping_delivered:
  "delivered 9 5 1 0x100000 BR_TRANSACTION (ping_sent\<lparr>txns := [5 \<mapsto> one_way_ping\<lparr>saved_priority := 0\<rparr>]\<rparr>)
    = Some ((list_del (W_Transaction 5) (ping_sent\<lparr>txns := [5 \<mapsto> one_way_ping\<lparr>saved_priority := 0\<rparr>]\<rparr>))\<lparr>procs := [1 \<mapsto> read_proc], txns := Map.empty\<rparr>)"
proof -
  define s0 where "s0 = ping_sent\<lparr>txns := [5 \<mapsto> one_way_ping\<lparr>saved_priority := 0\<rparr>]\<rparr>"
  note mgr = manager_mail
  have alloc: "upd_buffer 0x100000 (\<lambda>h. h\<lparr>buf_transaction := None\<rparr>) (upd_buffer 0x100000 (\<lambda>h. h\<lparr>allow_user_free := True\<rparr>) (pr_alloc manager_proc))
      = pr_alloc read_proc"
    by (simp add: manager_proc_def read_proc_def upd_buffer_def mail_alloc_fields set_owner_def mail_buffer_def fresh_buffer_def)
  let ?sd = "list_del (W_Transaction 5) s0" and ?f = "\<lambda>h. h\<lparr>allow_user_free := True\<rparr>" and ?g = "\<lambda>h. h\<lparr>buf_transaction := None\<rparr>"
  have "procs ?sd = [1 \<mapsto> manager_proc]" "txns ?sd = [5 \<mapsto> one_way_ping\<lparr>saved_priority := 0\<rparr>]" "txns s0 5 = Some (one_way_ping\<lparr>saved_priority := 0\<rparr>)"
    by (simp_all add: s0_def ping_sent_def list_del_def)
  moreover have "bufs (upd_buffer 0x100000 ?f (pr_alloc manager_proc)) 0x100000 \<noteq> None" by (simp add: upd_buffer_def mgr)
  moreover have "manager_proc\<lparr>pr_alloc := pr_alloc read_proc\<rparr> = read_proc" by (simp add: read_proc_def)
  ultimately show ?thesis
    using upd_buf_single [of ?sd manager_proc "0x100000" ?f] upd_buf_single [of "?sd\<lparr>procs := [1 \<mapsto> manager_proc\<lparr>pr_alloc := upd_buffer 0x100000 ?f (pr_alloc manager_proc)\<rparr>]\<rparr>"
        "manager_proc\<lparr>pr_alloc := upd_buffer 0x100000 ?f (pr_alloc manager_proc)\<rparr>" "0x100000" ?g] alloc mgr(1)
    unfolding s0_def [symmetric] by (simp add: delivered_def one_way_ping_def)
qed

lemma ping_read:
  obtains um1 s1 where "read_transaction plain_driver (plain_caller 10) (memory_of 0x1000 []) 1 9 5 0x1000 ping_sent = Some (Read_Done 0x1044, um1, s1)"
    and "copy_from_user um1 0x1004 64 = Some (transaction_data_bytes ping_data)"
    and "procs s1 = [1 \<mapsto> read_proc]" and "nds s1 = [3 \<mapsto> manager_node]" and "entry s1 (W_Node 3) = None" and "queues s1 (Async_Todo 3) = []"
proof -
  have "u_writable (memory_of 0x1000 []) = (\<lambda>_. True)" by (simp add: memory_of_def)
  then obtain u0 where u0: "put_user32 (memory_of 0x1000 []) 0x1000 BR_TRANSACTION = Some u0" "u_writable u0 = (\<lambda>_. True)" by (rule copy_to_all)
  obtain u1 where u1: "copy_to_user u0 0x1004 (transaction_data_bytes ping_data) = Some u1" using u0(2) by (rule copy_to_all)
  have bytes: "copy_from_user u1 0x1004 64 = Some (transaction_data_bytes ping_data)"
    using copy_to_from_user [OF u1] by (simp add: transaction_data_bytes_def)
  let ?mail = "set_owner False 1 (Some 5) (Some 3) (replicate 8 0) mail_buffer"
  define s0 where "s0 = ping_sent\<lparr>txns := [5 \<mapsto> one_way_ping\<lparr>saved_priority := 0\<rparr>]\<rparr>"
  note mgr = manager_mail
  have prio: "txn_priority plain_driver (plain_caller 10) 5 manager_node ping_sent = Some s0"
    by (simp add: txn_priority_def upd_txn_def s0_def ping_sent_def one_way_ping_def manager_node_def new_node_def binder_init_state_def)
  have data: "delivered_data plain_driver (plain_caller 10) 1 one_way_ping 0x100000 ?mail (0, 0) s0
      = Some ping_data"
    by (simp add: delivered_data_def s0_def ping_sent_def one_way_ping_def mgr ping_data_def plain_driver_def set_owner_def mail_buffer_def fresh_buffer_def
        align_ptr_def)
  define s1 where "s1 = (list_del (W_Transaction 5) s0)\<lparr>procs := [1 \<mapsto> read_proc], txns := Map.empty\<rparr>"
  have del: "delivered 9 5 1 0x100000 BR_TRANSACTION s0 = Some s1"
    unfolding s0_def s1_def by (rule ping_delivered)
  show ?thesis
  proof (rule that)
    show "read_transaction plain_driver (plain_caller 10) (memory_of 0x1000 []) 1 9 5 0x1000 ping_sent = Some (Read_Done 0x1044, u1, s1)"
      using u0(1) u1 prio data del
      by (simp add: read_transaction_def ping_sent_def one_way_ping_def mgr get_buf_def put32_def set_owner_def manager_node_def new_node_def)
    show "copy_from_user u1 0x1004 64 = Some (transaction_data_bytes ping_data)" by (rule bytes)
    show "procs s1 = [1 \<mapsto> read_proc]" by (simp add: s1_def)
    show "nds s1 = [3 \<mapsto> manager_node]" "entry s1 (W_Node 3) = None" "queues s1 (Async_Todo 3) = []"
      by (simp_all add: s1_def s0_def ping_sent_def list_del_def)
  qed
qed




text \<open>The manager gives the buffer back: its node is told of it, and the allocator takes it.\<close>

lemma ping_freed:
  assumes "procs s1 = [1 \<mapsto> read_proc]" and "nds s1 = [3 \<mapsto> manager_node]" and "entry s1 (W_Node 3) = None" and "queues s1 (Async_Todo 3) = []"
  shows "\<exists>s2. user_free_buffer plain_driver 1 9 0x7000050 s1 = Some s2"
proof -
  let ?h = "set_owner True 1 None (Some 3) (replicate 8 0) mail_buffer" and ?a = "pr_alloc read_proc"
  have a: "?a = upd_buffer 0x100000 (set_owner True 1 None (Some 3) (replicate 8 0)) mail_alloc" by (simp add: read_proc_def)
  have b: "bufs ?a 0x100000 = Some ?h" "user_buffer_offset ?a = 0x6f00000" "allocated_buffers ?a = Node Leaf 0x100000 Leaf"
    by (simp_all add: a upd_buffer_def mail_alloc_fields)
  have h: "\<not> buf_free ?h" "allow_user_free ?h" "buf_transaction ?h = None" "buf_target_node ?h = Some 3" "async_transaction ?h"
    "buf_data_size ?h = 8" "buf_offsets_size ?h = 0"
    by (simp_all add: set_owner_def mail_buffer_def fresh_buffer_def)
  obtain e where "live_map mail_alloc 0x100000 = Some (mail_buffer, e)" using mail_alloc_fields(4) by blast
  from set_owner_wf(1,2) [OF mail_alloc_wf this a] have wf: "alloc_wf ?a" "live_map ?a 0x100000 = Some (?h, e)" by simp_all
  obtain a' where free: "binder_free_buf plain_driver ?a 0x100000 = Some a'"
    using free_buf_correct [OF plain_driver_ok wf h(3)] by blast
  have find: "binder_buffer_lookup ?a 0x7000050 = Some (Some 0x100000)"
    using b h(1) by (simp add: binder_buffer_lookup_def is_free_def)
  let ?s = "s1\<lparr>nds := [3 \<mapsto> manager_node\<lparr>has_async_transaction := False\<rparr>]\<rparr>"
  have async: "async_next 9 3 s1 = Some ?s" using assms(2,4) by (simp add: async_next_def upd_node_def manager_node_def)
  obtain s' where dec: "binder_dec_node plain_driver ?s 3 True False = Some s'" "procs s' = procs s1"
    using assms(3) by (simp add: binder_dec_node_def upd_node_def dec_count_def still_held_def manager_node_def new_node_def list_add_tail_def wake_up_def)
  show ?thesis
    using assms(1) b(1) h find async dec free
    by (simp add: user_free_buffer_def get_buf_def binder_transaction_buffer_release_def proc_free_buf_def)
qed

section \<open>The end of the manager\<close>



end
