(* ===== verification/Ashmem.thy ===== *)
theory Ashmem
  imports Bytes
begin

text \<open>
  Anonymous shared memory, \<open>driver/ashmem/ashmem.c\<close>: areas with their lists of unpinned page ranges, the
  list of ranges the shrinker may purge, and the operations on an open file. Pages and counts
  are \<open>size_t\<close>: naturals below \<open>2 ^ 64\<close>, with the wrap-around written out. Backing files, and what the
  file system says about them, are parameters. \<open>None\<close> is an access to a freed object.
\<close>

unbundle bit_operations_syntax

section \<open>Data\<close>

definition add64 :: "nat \<Rightarrow> nat \<Rightarrow> nat" where "add64 a b = (a + b) mod 2 ^ 64"
definition sub64 :: "nat \<Rightarrow> nat \<Rightarrow> nat" where "sub64 a b = (a + 2 ^ 64 - b) mod 2 ^ 64"

record ashmem_range =
  rg_asma :: nat
  pgstart :: nat
  pgend :: nat
  purged :: bool

record ashmem_area =
  as_name :: "byte list"
  unpinned_list :: "nat list"
  as_file :: "nat option"
  as_size :: nat
  prot_mask :: u64

text \<open>
  \<open>holes\<close> are the \<open>vfs_fallocate\<close> calls so far, latest first: file, start and length. \<open>f_count\<close> is the
  number of references to a backing file, as \<open>get_file\<close> and \<open>fput\<close> change it.
\<close>

record ashmem_state =
  areas :: "nat \<rightharpoonup> ashmem_area"
  ranges :: "nat \<rightharpoonup> ashmem_range"
  ashmem_lru_list :: "nat list"
  lru_count :: nat
  next_id :: nat
  f_pos :: "nat \<Rightarrow> int"
  f_count :: "nat \<Rightarrow> int"
  holes :: "(nat option \<times> nat \<times> nat) list"

text \<open>
  What the kernel does: \<open>vfs_read\<close> and \<open>vfs_llseek\<close> give a result and a position, \<open>shmem_zero_setup\<close> a result and
  the file that the memory area then has.
\<close>

record ashmem_kernel =
  cache_alloc_ok :: "nat \<Rightarrow> bool"
  generic_file_open :: "nat \<Rightarrow> int"
  vfs_read :: "nat \<Rightarrow> nat \<Rightarrow> int \<Rightarrow> int \<times> int"
  vfs_llseek :: "nat \<Rightarrow> int \<Rightarrow> int \<Rightarrow> int \<times> int"
  shmem_file_setup :: "byte list \<Rightarrow> nat \<Rightarrow> u64 \<Rightarrow> int + nat"
  shmem_zero_setup :: "nat option \<Rightarrow> int \<times> nat option"
  read_implies_exec :: bool
  capable_sys_admin :: bool

abbreviation ASHMEM_NAME_LEN :: nat where "ASHMEM_NAME_LEN \<equiv> 256"
abbreviation ASHMEM_NAME_PREFIX_LEN :: nat where "ASHMEM_NAME_PREFIX_LEN \<equiv> 11"
abbreviation ASHMEM_FULL_NAME_LEN :: nat where "ASHMEM_FULL_NAME_LEN \<equiv> 267"

definition ascii :: "string \<Rightarrow> byte list" where "ascii = map (\<lambda>ch. word_of_nat (of_char ch))"
definition ASHMEM_NAME_DEF :: "byte list" where "ASHMEM_NAME_DEF = ascii ''dev/ashmem''"
definition ASHMEM_NAME_PREFIX :: "byte list" where "ASHMEM_NAME_PREFIX = ascii ''dev/ashmem/''"

abbreviation PROT_READ :: u64 where "PROT_READ \<equiv> 1"
abbreviation PROT_WRITE :: u64 where "PROT_WRITE \<equiv> 2"
abbreviation PROT_EXEC :: u64 where "PROT_EXEC \<equiv> 4"
abbreviation PROT_MASK :: u64 where "PROT_MASK \<equiv> 7"
abbreviation VM_SHARED :: u64 where "VM_SHARED \<equiv> 8"

section \<open>Ranges\<close>

definition range_size :: "ashmem_range \<Rightarrow> nat" where
  "range_size r = add64 (sub64 (pgend r) (pgstart r)) 1"

definition page_range_subsumes_range :: "ashmem_range \<Rightarrow> nat \<Rightarrow> nat \<Rightarrow> bool" where
  "page_range_subsumes_range r lo hi \<longleftrightarrow> pgstart r \<ge> lo \<and> pgend r \<le> hi"

definition page_range_subsumed_by_range :: "ashmem_range \<Rightarrow> nat \<Rightarrow> nat \<Rightarrow> bool" where
  "page_range_subsumed_by_range r lo hi \<longleftrightarrow> pgstart r \<le> lo \<and> pgend r \<ge> hi"

definition page_in_range :: "ashmem_range \<Rightarrow> nat \<Rightarrow> bool" where
  "page_in_range r pg \<longleftrightarrow> pgstart r \<le> pg \<and> pgend r \<ge> pg"

definition page_range_in_range :: "ashmem_range \<Rightarrow> nat \<Rightarrow> nat \<Rightarrow> bool" where
  "page_range_in_range r lo hi \<longleftrightarrow> page_in_range r lo \<or> page_in_range r hi \<or> page_range_subsumes_range r lo hi"

definition range_before_page :: "ashmem_range \<Rightarrow> nat \<Rightarrow> bool" where
  "range_before_page r pg \<longleftrightarrow> pgend r < pg"

definition lru_add :: "nat \<Rightarrow> ashmem_state \<Rightarrow> ashmem_state option" where
  "lru_add i s = do {
     r \<leftarrow> ranges s i;
     Some (s\<lparr>ashmem_lru_list := ashmem_lru_list s @ [i], lru_count := add64 (lru_count s) (range_size r)\<rparr>) }"

definition lru_del :: "nat \<Rightarrow> ashmem_state \<Rightarrow> ashmem_state option" where
  "lru_del i s = do {
     r \<leftarrow> ranges s i;
     Some (s\<lparr>ashmem_lru_list := remove1 i (ashmem_lru_list s), lru_count := sub64 (lru_count s) (range_size r)\<rparr>) }"

text \<open>\<open>list_add_tail\<close> before an entry; \<open>None\<close> is the list head, so that the new entry is the last.\<close>

fun insert_before :: "'a option \<Rightarrow> 'a \<Rightarrow> 'a list \<Rightarrow> 'a list" where
  "insert_before pos v [] = [v]"
| "insert_before pos v (x # xs) = (if Some x = pos then v # x # xs else x # insert_before pos v xs)"

definition range_alloc ::
  "'k ashmem_kernel_scheme \<Rightarrow> nat \<Rightarrow> nat option \<Rightarrow> bool \<Rightarrow> nat \<Rightarrow> nat \<Rightarrow> ashmem_state \<Rightarrow> (int \<times> ashmem_state) option" where
  "range_alloc k asma prev_range pg lo hi s =
     (let i = next_id s; s0 = s\<lparr>next_id := Suc i\<rparr> in
      if \<not> cache_alloc_ok k i then Some (- ENOMEM, s0)
      else do {
        a \<leftarrow> areas s0 asma;
        let s1 = s0\<lparr>ranges := (ranges s0)(i \<mapsto> \<lparr>rg_asma = asma, pgstart = lo, pgend = hi, purged = pg\<rparr>),
                    areas := (areas s0)(asma \<mapsto> a\<lparr>unpinned_list := insert_before prev_range i (unpinned_list a)\<rparr>)\<rparr>;
        s2 \<leftarrow> (if \<not> pg then lru_add i s1 else Some s1);
        Some (0, s2) })"

definition range_del :: "nat \<Rightarrow> ashmem_state \<Rightarrow> ashmem_state option" where
  "range_del i s = do {
     r \<leftarrow> ranges s i;
     a \<leftarrow> areas s (rg_asma r);
     let s1 = s\<lparr>areas := (areas s)(rg_asma r \<mapsto> a\<lparr>unpinned_list := remove1 i (unpinned_list a)\<rparr>)\<rparr>;
     s2 \<leftarrow> (if \<not> purged r then lru_del i s1 else Some s1);
     Some (s2\<lparr>ranges := (ranges s2)(i := None)\<rparr>) }"

definition range_shrink :: "nat \<Rightarrow> nat \<Rightarrow> nat \<Rightarrow> ashmem_state \<Rightarrow> ashmem_state option" where
  "range_shrink i lo hi s = do {
     r \<leftarrow> ranges s i;
     let r' = r\<lparr>pgstart := lo, pgend := hi\<rparr>;
     let s1 = s\<lparr>ranges := (ranges s)(i \<mapsto> r')\<rparr>;
     Some (if \<not> purged r then s1\<lparr>lru_count := sub64 (lru_count s1) (sub64 (range_size r) (range_size r'))\<rparr> else s1) }"

section \<open>Pinning\<close>

text \<open>
  The loop over the ranges, which are listed from the highest down; the tail is the saved
  \<open>next\<close>. The result of \<open>range_alloc\<close> is not looked at.
\<close>

fun pin_ranges ::
  "'k ashmem_kernel_scheme \<Rightarrow> nat \<Rightarrow> nat \<Rightarrow> nat \<Rightarrow> bool \<Rightarrow> nat list \<Rightarrow> ashmem_state \<Rightarrow> (bool \<times> ashmem_state) option" where
  "pin_ranges k asma lo hi ret [] s = Some (ret, s)"
| "pin_ranges k asma lo hi ret (i # is) s = do {
     r \<leftarrow> ranges s i;
     if range_before_page r lo then Some (ret, s)
     else if page_range_in_range r lo hi
     then if page_range_subsumes_range r lo hi
          then do { s1 \<leftarrow> range_del i s; pin_ranges k asma lo hi (ret \<or> purged r) is s1 }
          else if pgstart r \<ge> lo
          then do { s1 \<leftarrow> range_shrink i (add64 hi 1) (pgend r) s; pin_ranges k asma lo hi (ret \<or> purged r) is s1 }
          else if pgend r \<le> hi
          then do { s1 \<leftarrow> range_shrink i (pgstart r) (sub64 lo 1) s; pin_ranges k asma lo hi (ret \<or> purged r) is s1 }
          else do {
            (_, s1) \<leftarrow> range_alloc k asma (Some i) (purged r) (add64 hi 1) (pgend r) s;
            s2 \<leftarrow> range_shrink i (pgstart r) (sub64 lo 1) s1;
            Some (ret \<or> purged r, s2) }
     else pin_ranges k asma lo hi ret is s }"

definition ashmem_pin ::
  "'k ashmem_kernel_scheme \<Rightarrow> nat \<Rightarrow> nat \<Rightarrow> nat \<Rightarrow> ashmem_state \<Rightarrow> (bool \<times> ashmem_state) option" where
  "ashmem_pin k asma lo hi s = do { a \<leftarrow> areas s asma; pin_ranges k asma lo hi False (unpinned_list a) s }"

text \<open>One pass of \<open>ashmem_unpin\<close>: where it stops.\<close>

datatype unpin_scan = Insert_At "nat option" | Already | Merge nat

fun scan_unpinned :: "(nat \<Rightarrow> ashmem_range option) \<Rightarrow> nat \<Rightarrow> nat \<Rightarrow> nat list \<Rightarrow> unpin_scan option" where
  "scan_unpinned rs lo hi [] = Some (Insert_At None)"
| "scan_unpinned rs lo hi (i # is) = do {
     r \<leftarrow> rs i;
     if range_before_page r lo then Some (Insert_At (Some i))
     else if page_range_subsumed_by_range r lo hi then Some Already
     else if page_range_in_range r lo hi then Some (Merge i)
     else scan_unpinned rs lo hi is }"

partial_function (option) unpin_loop ::
  "'k ashmem_kernel_scheme \<Rightarrow> nat \<Rightarrow> nat \<Rightarrow> nat \<Rightarrow> bool \<Rightarrow> ashmem_state \<Rightarrow> (int \<times> ashmem_state) option" where
  "unpin_loop k asma lo hi pg s =
     (case areas s asma of
        None \<Rightarrow> None
      | Some a \<Rightarrow>
          (case scan_unpinned (ranges s) lo hi (unpinned_list a) of
             None \<Rightarrow> None
           | Some (Insert_At pos) \<Rightarrow> range_alloc k asma pos pg lo hi s
           | Some Already \<Rightarrow> Some (0, s)
           | Some (Merge i) \<Rightarrow>
               (case ranges s i of
                  None \<Rightarrow> None
                | Some r \<Rightarrow> do {
                    s1 \<leftarrow> range_del i s;
                    unpin_loop k asma (min (pgstart r) lo) (max (pgend r) hi) (pg \<or> purged r) s1 })))"

definition ashmem_unpin ::
  "'k ashmem_kernel_scheme \<Rightarrow> nat \<Rightarrow> nat \<Rightarrow> nat \<Rightarrow> ashmem_state \<Rightarrow> (int \<times> ashmem_state) option" where
  "ashmem_unpin k asma lo hi s = unpin_loop k asma lo hi False s"

text \<open>\<open>True\<close> is \<open>ASHMEM_IS_PINNED\<close>.\<close>

fun pin_status :: "(nat \<Rightarrow> ashmem_range option) \<Rightarrow> nat \<Rightarrow> nat \<Rightarrow> nat list \<Rightarrow> bool option" where
  "pin_status rs lo hi [] = Some True"
| "pin_status rs lo hi (i # is) = do {
     r \<leftarrow> rs i;
     if range_before_page r lo then Some True
     else if page_range_in_range r lo hi then Some False
     else pin_status rs lo hi is }"

definition ashmem_get_pin_status :: "nat \<Rightarrow> nat \<Rightarrow> nat \<Rightarrow> ashmem_state \<Rightarrow> bool option" where
  "ashmem_get_pin_status asma lo hi s = do { a \<leftarrow> areas s asma; pin_status (ranges s) lo hi (unpinned_list a) }"

section \<open>The shrinker\<close>

text \<open>
  The loop over the LRU list. \<open>nr_to_scan\<close> is an unsigned long that is decremented before it is
  compared with zero, so that zero means \<open>2 ^ 64\<close>.
\<close>

fun shrink_ranges :: "nat list \<Rightarrow> nat \<Rightarrow> nat \<Rightarrow> ashmem_state \<Rightarrow> (nat \<times> ashmem_state) option" where
  "shrink_ranges [] nr freed s = Some (freed, s)"
| "shrink_ranges (i # is) nr freed s = do {
     r \<leftarrow> ranges s i;
     a \<leftarrow> areas s (rg_asma r);
     let start = (pgstart r * PAGE_SIZE) mod 2 ^ 64;
     let stop = ((pgend r + 1) * PAGE_SIZE) mod 2 ^ 64;
     let s1 = s\<lparr>holes := (as_file a, start, sub64 stop start) # holes s,
                ranges := (ranges s)(i \<mapsto> r\<lparr>purged := True\<rparr>)\<rparr>;
     s2 \<leftarrow> lru_del i s1;
     let freed' = add64 freed (range_size r);
     if sub64 nr 1 = 0 then Some (freed', s2) else shrink_ranges is (sub64 nr 1) freed' s2 }"

definition ashmem_shrink_scan :: "bool \<Rightarrow> nat \<Rightarrow> ashmem_state \<Rightarrow> (nat \<times> ashmem_state) option" where
  "ashmem_shrink_scan gfp_fs nr_to_scan s =
     (if \<not> gfp_fs then Some (2 ^ 64 - 1, s) else shrink_ranges (ashmem_lru_list s) nr_to_scan 0 s)"

definition ashmem_shrink_count :: "ashmem_state \<Rightarrow> nat" where
  "ashmem_shrink_count s = lru_count s"

section \<open>Files\<close>

definition new_area :: ashmem_area where
  "new_area = \<lparr>as_name = ASHMEM_NAME_PREFIX @ replicate ASHMEM_NAME_LEN 0, unpinned_list = [], as_file = None,
     as_size = 0, prot_mask = PROT_MASK\<rparr>"

definition ashmem_open :: "'k ashmem_kernel_scheme \<Rightarrow> nat \<Rightarrow> ashmem_state \<Rightarrow> int \<times> nat option \<times> ashmem_state" where
  "ashmem_open k inode s =
     (let ret = generic_file_open k inode in
      if ret \<noteq> 0 then (ret, None, s)
      else
        let i = next_id s; s0 = s\<lparr>next_id := Suc i\<rparr> in
        if \<not> cache_alloc_ok k i then (- ENOMEM, None, s0)
        else (0, Some i, s0\<lparr>areas := (areas s0)(i \<mapsto> new_area)\<rparr>))"

fun range_del_all :: "nat list \<Rightarrow> ashmem_state \<Rightarrow> ashmem_state option" where
  "range_del_all [] s = Some s"
| "range_del_all (i # is) s = do { s1 \<leftarrow> range_del i s; range_del_all is s1 }"

definition get_file :: "nat \<Rightarrow> ashmem_state \<Rightarrow> ashmem_state" where
  "get_file f s = s\<lparr>f_count := (f_count s)(f := f_count s f + 1)\<rparr>"

definition fput :: "nat option \<Rightarrow> ashmem_state \<Rightarrow> ashmem_state" where
  "fput x s = (case x of None \<Rightarrow> s | Some f \<Rightarrow> s\<lparr>f_count := (f_count s)(f := f_count s f - 1)\<rparr>)"

definition ashmem_release :: "nat \<Rightarrow> ashmem_state \<Rightarrow> (int \<times> ashmem_state) option" where
  "ashmem_release asma s = do {
     a \<leftarrow> areas s asma;
     s1 \<leftarrow> range_del_all (unpinned_list a) s;
     let s2 = fput (as_file a) s1;
     Some (0, s2\<lparr>areas := (areas s2)(asma := None)\<rparr>) }"

text \<open>
  \<open>ashmem_read\<close> and \<open>ashmem_llseek\<close>: the result, kept in an \<open>int\<close>, and the position of the file after it.
\<close>

definition to_int32 :: "int \<Rightarrow> int" where
  "to_int32 x = sint (word_of_int x :: u32)"

definition ashmem_read ::
  "'k ashmem_kernel_scheme \<Rightarrow> nat \<Rightarrow> nat \<Rightarrow> int \<Rightarrow> ashmem_state \<Rightarrow> (int \<times> int \<times> ashmem_state) option" where
  "ashmem_read k asma len pos s = do {
     a \<leftarrow> areas s asma;
     if as_size a = 0 then Some (0, pos, s)
     else (case as_file a of
       None \<Rightarrow> Some (- EBADF, pos, s)
     | Some f \<Rightarrow> (case vfs_read k f len pos of
         (r, pos') \<Rightarrow> let ret = to_int32 r in
           Some (ret, pos', if ret \<ge> 0 then s\<lparr>f_pos := (f_pos s)(f := pos')\<rparr> else s))) }"

definition ashmem_llseek ::
  "'k ashmem_kernel_scheme \<Rightarrow> nat \<Rightarrow> int \<Rightarrow> int \<Rightarrow> int \<Rightarrow> ashmem_state \<Rightarrow> (int \<times> int \<times> ashmem_state) option" where
  "ashmem_llseek k asma pos offset origin s = do {
     a \<leftarrow> areas s asma;
     if as_size a = 0 then Some (- EINVAL, pos, s)
     else (case as_file a of
       None \<Rightarrow> Some (- EBADF, pos, s)
     | Some f \<Rightarrow> (case vfs_llseek k f offset origin of
         (r, pos') \<Rightarrow> let ret = to_int32 r; s1 = s\<lparr>f_pos := (f_pos s)(f := pos')\<rparr> in
           Some (ret, if ret < 0 then pos else f_pos s1 f, s1))) }"

definition calc_vm_trans :: "u64 \<Rightarrow> u64 \<Rightarrow> u64 \<Rightarrow> u64" where
  "calc_vm_trans x b1 b2 = (if x AND b1 \<noteq> 0 then b2 else 0)"

definition calc_vm_prot_bits :: "u64 \<Rightarrow> u64" where
  "calc_vm_prot_bits prot = calc_vm_trans prot PROT_READ 1 OR calc_vm_trans prot PROT_WRITE 2 OR calc_vm_trans prot PROT_EXEC 4"

definition calc_vm_may_flags :: "u64 \<Rightarrow> u64" where
  "calc_vm_may_flags prot =
     calc_vm_trans prot PROT_READ 0x10 OR calc_vm_trans prot PROT_WRITE 0x20 OR calc_vm_trans prot PROT_EXEC 0x40"

text \<open>
  \<open>ashmem_mmap\<close> on an area of memory with flags and a file: the result, and the flags and the file it has then.
\<close>

definition area_name :: "ashmem_area \<Rightarrow> byte list" where
  "area_name a = takeWhile (\<lambda>b. b \<noteq> 0) (as_name a)"

definition mmap_file ::
  "'k ashmem_kernel_scheme \<Rightarrow> u64 \<Rightarrow> nat option \<Rightarrow> nat \<Rightarrow> ashmem_state \<Rightarrow> int \<times> u64 \<times> nat option \<times> ashmem_state" where
  "mmap_file k flags vm_file f s =
     (let s1 = get_file f s;
          (ret, vm) = (if flags AND VM_SHARED \<noteq> 0 then shmem_zero_setup k vm_file else (0, vm_file)) in
      if ret \<noteq> 0 then (ret, flags, vm, fput (Some f) s1) else (0, flags, Some f, fput vm s1))"

definition ashmem_mmap ::
  "'k ashmem_kernel_scheme \<Rightarrow> nat \<Rightarrow> u64 \<Rightarrow> nat option \<Rightarrow> ashmem_state \<Rightarrow> (int \<times> u64 \<times> nat option \<times> ashmem_state) option" where
  "ashmem_mmap k asma flags vm_file s = do {
     a \<leftarrow> areas s asma;
     if as_size a = 0 then Some (- EINVAL, flags, vm_file, s)
     else if (flags AND NOT (calc_vm_prot_bits (prot_mask a))) AND calc_vm_prot_bits PROT_MASK \<noteq> 0
     then Some (- EPERM, flags, vm_file, s)
     else
       let flags' = flags AND NOT (calc_vm_may_flags (NOT (prot_mask a)));
           name = (if as_name a ! ASHMEM_NAME_PREFIX_LEN \<noteq> 0 then area_name a else ASHMEM_NAME_DEF) in
       (case as_file a of
          Some f \<Rightarrow> Some (mmap_file k flags' vm_file f s)
        | None \<Rightarrow> (case shmem_file_setup k name (as_size a) flags' of
            Inl e \<Rightarrow> Some (e, flags', vm_file, s)
          | Inr f \<Rightarrow> Some (mmap_file k flags' vm_file f
              (s\<lparr>areas := (areas s)(asma \<mapsto> a\<lparr>as_file := Some f\<rparr>), f_count := (f_count s)(f := 1)\<rparr>)))) }"

section \<open>Attributes\<close>

definition set_prot_mask :: "'k ashmem_kernel_scheme \<Rightarrow> nat \<Rightarrow> u64 \<Rightarrow> ashmem_state \<Rightarrow> (int \<times> ashmem_state) option" where
  "set_prot_mask k asma prot s = do {
     a \<leftarrow> areas s asma;
     if prot_mask a AND prot \<noteq> prot then Some (- EINVAL, s)
     else
       let prot' = (if prot AND PROT_READ \<noteq> 0 \<and> read_implies_exec k then prot OR PROT_EXEC else prot) in
       Some (0, s\<lparr>areas := (areas s)(asma \<mapsto> a\<lparr>prot_mask := prot'\<rparr>)\<rparr>) }"

text \<open>\<open>strncpy_from_user\<close>: the bytes before the terminator, at most \<open>n\<close>; \<open>None\<close> is a fault.\<close>

fun strncpy_from_user :: "user_space \<Rightarrow> u64 \<Rightarrow> nat \<Rightarrow> byte list option" where
  "strncpy_from_user um a 0 = Some []"
| "strncpy_from_user um a (Suc n) =
     (case u_bytes um a of
        None \<Rightarrow> None
      | Some b \<Rightarrow> if b = 0 then Some [] else map_option ((#) b) (strncpy_from_user um (a + 1) n))"

definition set_name :: "nat \<Rightarrow> user_space \<Rightarrow> u64 \<Rightarrow> ashmem_state \<Rightarrow> (int \<times> ashmem_state) option" where
  "set_name asma um name s = do {
     a \<leftarrow> areas s asma;
     (case strncpy_from_user um name ASHMEM_NAME_LEN of
        None \<Rightarrow> Some (- EFAULT, s)
      | Some bs \<Rightarrow>
          let local_name = (if length bs = ASHMEM_NAME_LEN then take (ASHMEM_NAME_LEN - 1) bs else bs) in
          if as_file a \<noteq> None then Some (- EINVAL, s)
          else do {
            nm \<leftarrow> put_range (as_name a) ASHMEM_NAME_PREFIX_LEN (local_name @ [0]);
            Some (0, s\<lparr>areas := (areas s)(asma \<mapsto> a\<lparr>as_name := nm\<rparr>)\<rparr>) }) }"

text \<open>The local copy has room for \<open>ASHMEM_NAME_LEN\<close> bytes; more would overrun it.\<close>

definition get_name :: "nat \<Rightarrow> user_space \<Rightarrow> u64 \<Rightarrow> ashmem_state \<Rightarrow> (int \<times> user_space) option" where
  "get_name asma um name s = do {
     a \<leftarrow> areas s asma;
     let tail = drop ASHMEM_NAME_PREFIX_LEN (as_name a);
     let local_name = (if as_name a ! ASHMEM_NAME_PREFIX_LEN \<noteq> 0
                       then take (length (takeWhile (\<lambda>b. b \<noteq> 0) tail) + 1) tail else ASHMEM_NAME_DEF @ [0]);
     if length local_name > ASHMEM_NAME_LEN then None
     else Some (case copy_to_user um name local_name of None \<Rightarrow> (- EFAULT, um) | Some um' \<Rightarrow> (0, um')) }"

section \<open>Control\<close>

definition ASHMEM_SET_NAME :: u32 where "ASHMEM_SET_NAME = ioc 1 0x77 1 256"
definition ASHMEM_GET_NAME :: u32 where "ASHMEM_GET_NAME = ioc 2 0x77 2 256"
definition ASHMEM_SET_SIZE :: u32 where "ASHMEM_SET_SIZE = ioc 1 0x77 3 8"
definition ASHMEM_GET_SIZE :: u32 where "ASHMEM_GET_SIZE = ioc 0 0x77 4 0"
definition ASHMEM_SET_PROT_MASK :: u32 where "ASHMEM_SET_PROT_MASK = ioc 1 0x77 5 8"
definition ASHMEM_GET_PROT_MASK :: u32 where "ASHMEM_GET_PROT_MASK = ioc 0 0x77 6 0"
definition ASHMEM_PIN :: u32 where "ASHMEM_PIN = ioc 1 0x77 7 8"
definition ASHMEM_UNPIN :: u32 where "ASHMEM_UNPIN = ioc 1 0x77 8 8"
definition ASHMEM_GET_PIN_STATUS :: u32 where "ASHMEM_GET_PIN_STATUS = ioc 0 0x77 9 0"
definition ASHMEM_PURGE_ALL_CACHES :: u32 where "ASHMEM_PURGE_ALL_CACHES = ioc 0 0x77 10 0"
definition COMPAT_ASHMEM_SET_SIZE :: u32 where "COMPAT_ASHMEM_SET_SIZE = ioc 1 0x77 3 4"
definition COMPAT_ASHMEM_SET_PROT_MASK :: u32 where "COMPAT_ASHMEM_SET_PROT_MASK = ioc 1 0x77 5 4"

lemmas ashmem_codes = ASHMEM_SET_NAME_def ASHMEM_GET_NAME_def ASHMEM_SET_SIZE_def ASHMEM_GET_SIZE_def
  ASHMEM_SET_PROT_MASK_def ASHMEM_GET_PROT_MASK_def ASHMEM_PIN_def ASHMEM_UNPIN_def ASHMEM_GET_PIN_STATUS_def
  ASHMEM_PURGE_ALL_CACHES_def COMPAT_ASHMEM_SET_SIZE_def COMPAT_ASHMEM_SET_PROT_MASK_def ioc_def

text \<open>
  The pages a request names, or \<open>None\<close> for \<open>-EINVAL\<close>. \<open>offset\<close> and \<open>len\<close> are 32 bits wide: a length of zero
  is replaced by the rest of the area, cut to 32 bits.
\<close>

definition page_align64 :: "nat \<Rightarrow> nat" where
  "page_align64 x = ((x + 4095) mod 2 ^ 64) div PAGE_SIZE * PAGE_SIZE"

definition pin_length :: "nat \<Rightarrow> u32 \<Rightarrow> u32 \<Rightarrow> u32" where
  "pin_length area_size offset len0 =
     (if len0 = 0 then word_of_int (int (page_align64 area_size) - int (unat offset)) else len0)"

definition pin_pages :: "nat \<Rightarrow> u32 \<Rightarrow> u32 \<Rightarrow> (nat \<times> nat) option" where
  "pin_pages area_size offset len0 =
     (let len = pin_length area_size offset len0 in
      if (offset OR len) AND 0xfff \<noteq> 0 then None
      else if 0xffffffff - offset < len then None
      else if page_align64 area_size < unat (offset + len) then None
      else let lo = unat offset div PAGE_SIZE in Some (lo, sub64 (add64 lo (unat len div PAGE_SIZE)) 1))"

definition ashmem_pin_unpin ::
  "'k ashmem_kernel_scheme \<Rightarrow> nat \<Rightarrow> u32 \<Rightarrow> user_space \<Rightarrow> u64 \<Rightarrow> ashmem_state \<Rightarrow> (int \<times> ashmem_state) option" where
  "ashmem_pin_unpin k asma cmd um p s = do {
     a \<leftarrow> areas s asma;
     if as_file a = None then Some (- EINVAL, s)
     else (case (get_user32 um p, get_user32 um (p + 4)) of
       (Some offset, Some len) \<Rightarrow>
         (case pin_pages (as_size a) offset len of
            None \<Rightarrow> Some (- EINVAL, s)
          | Some (lo, hi) \<Rightarrow>
              if cmd = ASHMEM_PIN
              then do { (w, s1) \<leftarrow> ashmem_pin k asma lo hi s; Some (if w then 1 else 0, s1) }
              else if cmd = ASHMEM_UNPIN then ashmem_unpin k asma lo hi s
              else if cmd = ASHMEM_GET_PIN_STATUS
              then do { w \<leftarrow> ashmem_get_pin_status asma lo hi s; Some (if w then 1 else 0, s) }
              else Some (- EINVAL, s))
     | _ \<Rightarrow> Some (- EFAULT, s)) }"

definition ashmem_ioctl ::
  "'k ashmem_kernel_scheme \<Rightarrow> nat \<Rightarrow> u32 \<Rightarrow> u64 \<Rightarrow> user_space \<Rightarrow> ashmem_state \<Rightarrow> (int \<times> user_space \<times> ashmem_state) option" where
  "ashmem_ioctl k asma cmd arg um s = do {
     a \<leftarrow> areas s asma;
     if cmd = ASHMEM_SET_NAME then do { (ret, s1) \<leftarrow> set_name asma um arg s; Some (ret, um, s1) }
     else if cmd = ASHMEM_GET_NAME then do { (ret, um1) \<leftarrow> get_name asma um arg s; Some (ret, um1, s) }
     else if cmd = ASHMEM_SET_SIZE
     then Some (if as_file a = None then (0, um, s\<lparr>areas := (areas s)(asma \<mapsto> a\<lparr>as_size := unat arg\<rparr>)\<rparr>) else (- EINVAL, um, s))
     else if cmd = ASHMEM_GET_SIZE then Some (sint (word_of_nat (as_size a) :: u64), um, s)
     else if cmd = ASHMEM_SET_PROT_MASK then do { (ret, s1) \<leftarrow> set_prot_mask k asma arg s; Some (ret, um, s1) }
     else if cmd = ASHMEM_GET_PROT_MASK then Some (sint (prot_mask a), um, s)
     else if cmd = ASHMEM_PIN \<or> cmd = ASHMEM_UNPIN \<or> cmd = ASHMEM_GET_PIN_STATUS
     then do { (ret, s1) \<leftarrow> ashmem_pin_unpin k asma cmd um arg s; Some (ret, um, s1) }
     else if cmd = ASHMEM_PURGE_ALL_CACHES
     then if capable_sys_admin k
          then do {
            let ret = sint (word_of_nat (ashmem_shrink_count s) :: u64);
            (_, s1) \<leftarrow> ashmem_shrink_scan True (2 ^ 63 - 1) s;
            Some (ret, um, s1) }
          else Some (- EPERM, um, s)
     else Some (- ENOTTY, um, s) }"

definition compat_ashmem_ioctl ::
  "'k ashmem_kernel_scheme \<Rightarrow> nat \<Rightarrow> u32 \<Rightarrow> u64 \<Rightarrow> user_space \<Rightarrow> ashmem_state \<Rightarrow> (int \<times> user_space \<times> ashmem_state) option" where
  "compat_ashmem_ioctl k asma cmd arg um s =
     ashmem_ioctl k asma (if cmd = COMPAT_ASHMEM_SET_SIZE then ASHMEM_SET_SIZE
                          else if cmd = COMPAT_ASHMEM_SET_PROT_MASK then ASHMEM_SET_PROT_MASK else cmd) arg um s"

end
