(* ===== verification/Ashmem_Inv.thy ===== *)
theory Ashmem_Inv
  imports Ashmem
begin

text \<open>
  The invariant of ashmem and its preservation. The ranges of an area are listed from the
  highest down, are disjoint and not empty; the LRU list holds exactly the ranges that have
  not been purged, and \<open>lru_count\<close> is the number of their pages. The abstract view of an area is
  the set of its unpinned pages.
\<close>

section \<open>Arithmetic\<close>

lemma sub64_le [simp]: "b \<le> a \<Longrightarrow> a < 2 ^ 64 \<Longrightarrow> sub64 a b = a - b"
  by (simp add: sub64_def) (metis Nat.add_diff_assoc2 mod_add_self2 mod_less less_imp_diff_less)

lemma add64_less [simp]: "a + b < 2 ^ 64 \<Longrightarrow> add64 a b = a + b"
  by (simp add: add64_def)

text \<open>Pages of a file: byte offsets are 64 bits wide.\<close>

abbreviation page_limit :: nat where "page_limit \<equiv> 2 ^ 52"

definition range_ok :: "ashmem_range \<Rightarrow> bool" where
  "range_ok r \<longleftrightarrow> pgstart r \<le> pgend r \<and> pgend r < page_limit"

definition pages_of :: "ashmem_range \<Rightarrow> nat set" where
  "pages_of r = {pgstart r..pgend r}"

lemma range_size_diff: "range_ok r \<Longrightarrow> range_size r = pgend r - pgstart r + 1"
  by (auto simp: range_ok_def range_size_def add64_def)

lemma range_size_ok: "range_ok r \<Longrightarrow> range_size r = card (pages_of r)"
  using range_size_diff [of r] by (auto simp: range_ok_def pages_of_def)

lemma range_size_less: "range_ok r \<Longrightarrow> range_size r \<le> page_limit"
  using range_size_diff [of r] by (auto simp: range_ok_def)

section \<open>The invariant\<close>

text \<open>The ranges with these identifiers, highest first.\<close>

definition descending :: "(nat \<Rightarrow> ashmem_range option) \<Rightarrow> nat list \<Rightarrow> bool" where
  "descending R is \<longleftrightarrow> (\<forall>i\<in>set is. \<exists>r. R i = Some r \<and> range_ok r)
     \<and> sorted_wrt (\<lambda>i j. pgend (the (R j)) < pgstart (the (R i))) is"

definition area_ok :: "(nat \<Rightarrow> ashmem_range option) \<Rightarrow> nat \<Rightarrow> ashmem_area \<Rightarrow> bool" where
  "area_ok R a ar \<longleftrightarrow> descending R (unpinned_list ar) \<and> distinct (unpinned_list ar)
     \<and> (\<forall>i. i \<in> set (unpinned_list ar) \<longleftrightarrow> (\<exists>r. R i = Some r \<and> rg_asma r = a))
     \<and> length (as_name ar) = ASHMEM_FULL_NAME_LEN
     \<and> 0 \<in> set (drop ASHMEM_NAME_PREFIX_LEN (as_name ar))"

definition total_size :: "(nat \<Rightarrow> ashmem_range option) \<Rightarrow> nat list \<Rightarrow> nat" where
  "total_size R is = sum_list (map (\<lambda>i. range_size (the (R i))) is)"

definition lru_ok :: "ashmem_state \<Rightarrow> bool" where
  "lru_ok s \<longleftrightarrow> distinct (ashmem_lru_list s)
     \<and> (\<forall>i. i \<in> set (ashmem_lru_list s) \<longleftrightarrow> (\<exists>r. ranges s i = Some r \<and> \<not> purged r))
     \<and> lru_count s = total_size (ranges s) (ashmem_lru_list s) mod 2 ^ 64"

definition ashmem_ok :: "ashmem_state \<Rightarrow> bool" where
  "ashmem_ok s \<longleftrightarrow> (\<forall>a ar. areas s a = Some ar \<longrightarrow> area_ok (ranges s) a ar)
     \<and> (\<forall>i r. ranges s i = Some r \<longrightarrow> range_ok r \<and> areas s (rg_asma r) \<noteq> None)
     \<and> lru_ok s
     \<and> (\<forall>i \<ge> next_id s. areas s i = None \<and> ranges s i = None)"

text \<open>
  The pages of an area: all that are unpinned, or (with \<open>q\<close>) those the shrinker has purged.
\<close>

definition pages_as :: "bool \<Rightarrow> ashmem_range \<Rightarrow> nat set" where
  "pages_as q r = (if q \<longrightarrow> purged r then pages_of r else {})"

definition holds_page :: "bool \<Rightarrow> ashmem_range option \<Rightarrow> nat \<Rightarrow> nat \<Rightarrow> bool" where
  "holds_page q x a pg = (case x of None \<Rightarrow> False | Some r \<Rightarrow> rg_asma r = a \<and> pg \<in> pages_as q r)"

definition page_set :: "bool \<Rightarrow> ashmem_state \<Rightarrow> nat \<Rightarrow> nat set" where
  "page_set q s a = {pg. \<exists>i. holds_page q (ranges s i) a pg}"

abbreviation unpinned_pages :: "ashmem_state \<Rightarrow> nat \<Rightarrow> nat set" where "unpinned_pages \<equiv> page_set False"
abbreviation purged_pages :: "ashmem_state \<Rightarrow> nat \<Rightarrow> nat set" where "purged_pages \<equiv> page_set True"

lemma holds_page_simps [simp]:
  "\<not> holds_page q None a pg" "holds_page q (Some r) a pg \<longleftrightarrow> rg_asma r = a \<and> pg \<in> pages_as q r"
  by (simp_all add: holds_page_def)

lemma pages_asD: "pg \<in> pages_as q r \<Longrightarrow> pg \<in> pages_of r"
  by (simp add: pages_as_def split: if_splits)

lemma ashmem_okD:
  assumes "ashmem_ok s"
  shows "areas s a = Some ar \<Longrightarrow> area_ok (ranges s) a ar"
    and "ranges s i = Some r \<Longrightarrow> range_ok r \<and> areas s (rg_asma r) \<noteq> None"
    and "lru_ok s" and "next_id s \<le> j \<Longrightarrow> areas s j = None \<and> ranges s j = None"
  using assms by (simp_all add: ashmem_ok_def)

section \<open>Counting\<close>

lemma total_size_remove1:
  "i \<in> set is \<Longrightarrow> distinct is \<Longrightarrow> total_size R is = range_size (the (R i)) + total_size R (remove1 i is)"
  by (induction "is") (auto simp: total_size_def)

lemma total_size_cong: "(\<And>i. i \<in> set is \<Longrightarrow> R' i = R i) \<Longrightarrow> total_size R' is = total_size R is"
  by (simp add: total_size_def cong: map_cong)

lemma total_size_upd:
  assumes "i \<in> set is" and "distinct is"
  shows "total_size (R(i \<mapsto> r)) is + range_size (the (R i)) = total_size R is + range_size r"
proof -
  have "total_size (R(i \<mapsto> r)) (remove1 i is) = total_size R (remove1 i is)"
    by (rule total_size_cong) (use assms in auto)
  then show ?thesis
    using total_size_remove1 [OF assms, of R] total_size_remove1 [OF assms, of "R(i \<mapsto> r)"] by simp
qed

lemma sub64_mod: "b \<le> a \<Longrightarrow> b \<le> 2 ^ 64 \<Longrightarrow> sub64 (a mod 2 ^ 64) b = (a - b) mod 2 ^ 64"
proof -
  assume ab: "b \<le> a" and b: "b \<le> 2 ^ 64"
  have "int (a mod 2 ^ 64 + 2 ^ 64 - b) = int (a mod 2 ^ 64) + 2 ^ 64 - int b" using b by simp
  then have "int (sub64 (a mod 2 ^ 64) b) = (int (a mod 2 ^ 64) + 2 ^ 64 - int b) mod 2 ^ 64"
    by (simp only: sub64_def zmod_int) simp
  also have "\<dots> = (int a - int b) mod 2 ^ 64"
    using mod_add_self2 [of "int a mod 2 ^ 64 - int b" "2 ^ 64 :: int"] mod_diff_left_eq [of "int a" "2 ^ 64" "int b"]
    by (simp add: zmod_int algebra_simps)
  also have "\<dots> = int ((a - b) mod 2 ^ 64)" using ab by (simp add: zmod_int of_nat_diff)
  finally show ?thesis by simp
qed

lemma add64_mod: "add64 (a mod 2 ^ 64) b = (a + b) mod 2 ^ 64"
  by (simp add: add64_def mod_simps)

section \<open>The primitives\<close>

lemma sorted_wrt_remove1: "sorted_wrt P xs \<Longrightarrow> sorted_wrt P (remove1 x xs)"
  by (induction xs) (auto dest: notin_set_remove1)

lemma descending_remove1: "descending R is \<Longrightarrow> descending R (remove1 i is)"
  by (auto simp: descending_def sorted_wrt_remove1 dest: notin_set_remove1)

lemma descending_mono:
  assumes "descending R is"
    and "\<And>i. i \<in> set is \<Longrightarrow> \<exists>r. R' i = Some r \<and> range_ok r \<and> pgstart (the (R i)) \<le> pgstart r \<and> pgend r \<le> pgend (the (R i))"
  shows "descending R' is"
proof -
  have "sorted_wrt (\<lambda>i j. pgend (the (R' j)) < pgstart (the (R' i))) is"
  proof (rule sorted_wrt_mono_rel)
    show "sorted_wrt (\<lambda>i j. pgend (the (R j)) < pgstart (the (R i))) is" using assms(1) by (simp add: descending_def)
    show "pgend (the (R' j)) < pgstart (the (R' i))"
      if "i \<in> set is" "j \<in> set is" "pgend (the (R j)) < pgstart (the (R i))" for i j
      using assms(2) [OF that(1)] assms(2) [OF that(2)] that(3) by auto
  qed
  then show ?thesis using assms(2) unfolding descending_def by blast
qed

lemma descending_cong:
  assumes "descending R is" and "\<And>j. j \<in> set is \<Longrightarrow> R' j = R j"
  shows "descending R' is"
  by (rule descending_mono [OF assms(1)]) (use assms in \<open>fastforce simp: descending_def\<close>)

lemma area_ok_cong:
  assumes "area_ok R a ar" and "\<And>j. (\<exists>r. R j = Some r \<and> rg_asma r = a) \<or> (\<exists>r. R' j = Some r \<and> rg_asma r = a) \<Longrightarrow> R' j = R j"
  shows "area_ok R' a ar"
proof -
  note ao = assms(1) [unfolded area_ok_def]
  have "descending R' (unpinned_list ar)" by (rule descending_cong [of R]) (use ao assms(2) in auto)
  moreover have "(\<exists>r. R' i = Some r \<and> rg_asma r = a) \<longleftrightarrow> (\<exists>r. R i = Some r \<and> rg_asma r = a)" for i
    using assms(2) [of i] by metis
  ultimately show ?thesis using ao by (simp add: area_ok_def)
qed

lemma range_del_ok:
  assumes "ashmem_ok s" and "ranges s i = Some r"
  obtains s' ar where "range_del i s = Some s'" and "ashmem_ok s'" and "ranges s' = (ranges s)(i := None)"
    and "areas s (rg_asma r) = Some ar"
    and "areas s' = (areas s)(rg_asma r \<mapsto> ar\<lparr>unpinned_list := remove1 i (unpinned_list ar)\<rparr>)"
    and "next_id s' = next_id s" and "holes s' = holes s"
proof -
  obtain ar where ar: "areas s (rg_asma r) = Some ar" using ashmem_okD(2) [OF assms] by auto
  note ao = ashmem_okD(1) [OF assms(1) ar, unfolded area_ok_def] and lo = ashmem_okD(3) [OF assms(1), unfolded lru_ok_def]
  let ?ar = "ar\<lparr>unpinned_list := remove1 i (unpinned_list ar)\<rparr>"
  let ?A = "(areas s)(rg_asma r \<mapsto> ?ar)" and ?R = "(ranges s)(i := None)"
  let ?s = "s\<lparr>areas := ?A, ashmem_lru_list := remove1 i (ashmem_lru_list s),
     lru_count := (if purged r then lru_count s else sub64 (lru_count s) (range_size r)), ranges := ?R\<rparr>"
  have on: "i \<in> set (ashmem_lru_list s) \<longleftrightarrow> \<not> purged r" using lo assms(2) by simp
  have run: "range_del i s = Some ?s"
  proof (cases "purged r")
    case True
    then have "remove1 i (ashmem_lru_list s) = ashmem_lru_list s" using on by (simp add: remove1_idem)
    then show ?thesis using True assms(2) ar by (simp add: range_del_def)
  next
    case False
    then show ?thesis using assms(2) ar by (simp add: range_del_def lru_del_def)
  qed
  have sz: "range_size r \<le> page_limit" using ashmem_okD(2) [OF assms] range_size_less by blast
  have "lru_ok ?s"
  proof -
    have "total_size ?R (remove1 i (ashmem_lru_list s)) = total_size (ranges s) (remove1 i (ashmem_lru_list s))"
      by (rule total_size_cong) (use lo in auto)
    moreover have "lru_count ?s = total_size (ranges s) (remove1 i (ashmem_lru_list s)) mod 2 ^ 64"
    proof (cases "purged r")
      case True
      then have "i \<notin> set (ashmem_lru_list s)" using on by simp
      then show ?thesis using True lo by (simp add: remove1_idem)
    next
      case False
      then have "total_size (ranges s) (ashmem_lru_list s)
          = range_size r + total_size (ranges s) (remove1 i (ashmem_lru_list s))"
        using total_size_remove1 [of i "ashmem_lru_list s" "ranges s"] on lo assms(2) by simp
      then show ?thesis
        using False lo sub64_mod [of "range_size r" "total_size (ranges s) (ashmem_lru_list s)"] sz by simp
    qed
    ultimately show ?thesis using lo by (auto simp: lru_ok_def)
  qed
  moreover have "area_ok ?R a x" if "?A a = Some x" for a x
  proof (cases "a = rg_asma r")
    case True
    have "descending ?R (remove1 i (unpinned_list ar))"
      by (rule descending_cong [OF descending_remove1 [of "ranges s"]]) (use ao in auto)
    then show ?thesis using True that ao assms(2) by (auto simp: area_ok_def)
  next
    case False
    then have "areas s a = Some x" using that by simp
    from ashmem_okD(1) [OF assms(1) this] show ?thesis
      by (rule area_ok_cong) (use False assms(2) in \<open>auto split: if_splits\<close>)
  qed
  ultimately have "ashmem_ok ?s"
    using assms ashmem_okD(2,4) [OF assms(1)] ar by (auto simp: ashmem_ok_def)
  then show ?thesis using that [OF run] ar by simp
qed

lemma range_shrink_ok:
  assumes "ashmem_ok s" and "ranges s i = Some r" and "pgstart r \<le> lo" and "lo \<le> hi" and "hi \<le> pgend r"
  obtains s' where "range_shrink i lo hi s = Some s'" and "ashmem_ok s'"
    and "ranges s' = (ranges s)(i \<mapsto> r\<lparr>pgstart := lo, pgend := hi\<rparr>)" and "areas s' = areas s"
    and "next_id s' = next_id s" and "holes s' = holes s"
proof -
  let ?r = "r\<lparr>pgstart := lo, pgend := hi\<rparr>"
  let ?R = "(ranges s)(i \<mapsto> ?r)"
  let ?s = "s\<lparr>ranges := ?R, lru_count := (if purged r then lru_count s
     else sub64 (lru_count s) (sub64 (range_size r) (range_size ?r)))\<rparr>"
  have ok: "range_ok r" "range_ok ?r" using ashmem_okD(2) [OF assms(1,2)] assms(3-5) by (auto simp: range_ok_def)
  note lo = ashmem_okD(3) [OF assms(1), unfolded lru_ok_def]
  have run: "range_shrink i lo hi s = Some ?s" using assms(2) by (simp add: range_shrink_def Let_def)
  have sz: "range_size ?r \<le> range_size r" "range_size r \<le> page_limit"
    using range_size_diff [OF ok(1)] range_size_diff [OF ok(2)] range_size_less [OF ok(1)] assms(3-5) by simp_all
  have "lru_ok ?s"
  proof (cases "purged r")
    case True
    then have "i \<notin> set (ashmem_lru_list s)" using lo assms(2) by auto
    then have "total_size ?R (ashmem_lru_list s) = total_size (ranges s) (ashmem_lru_list s)"
      by (intro total_size_cong) auto
    then show ?thesis using True lo assms(2) by (auto simp: lru_ok_def)
  next
    case False
    then have on: "i \<in> set (ashmem_lru_list s)" using lo assms(2) by auto
    have "total_size ?R (ashmem_lru_list s) + range_size r = total_size (ranges s) (ashmem_lru_list s) + range_size ?r"
      using total_size_upd [OF on, of "ranges s" ?r] lo assms(2) by simp
    moreover have "range_size r \<le> total_size (ranges s) (ashmem_lru_list s)"
      using total_size_remove1 [OF on, of "ranges s"] lo assms(2) by simp
    ultimately have "total_size ?R (ashmem_lru_list s)
        = total_size (ranges s) (ashmem_lru_list s) - (range_size r - range_size ?r)"
      and le: "range_size r - range_size ?r \<le> total_size (ranges s) (ashmem_lru_list s)" using sz(1) by linarith+
    then have "lru_count ?s = total_size ?R (ashmem_lru_list s) mod 2 ^ 64"
      using False lo sz sub64_mod [OF le] by simp
    then show ?thesis using False lo assms(2) by (auto simp: lru_ok_def)
  qed
  moreover have "area_ok ?R a x" if x: "areas s a = Some x" for a x
  proof -
    note xo = ashmem_okD(1) [OF assms(1) x, unfolded area_ok_def]
    have "descending ?R (unpinned_list x)"
      by (rule descending_mono [of "ranges s"])
        (use xo ok assms(2-5) ashmem_okD(2) [OF assms(1)] in auto)
    then show ?thesis using xo assms(2) by (auto simp: area_ok_def)
  qed
  ultimately have "ashmem_ok ?s"
    using assms ok ashmem_okD(2,4) [OF assms(1)] by (auto simp: ashmem_ok_def)
  then show ?thesis using that [OF run] by simp
qed

lemma insert_before_mid: "y \<notin> set xs \<Longrightarrow> insert_before (Some y) v (xs @ y # ys) = xs @ v # y # ys"
  by (induction xs) auto

lemma insert_before_end: "insert_before None v xs = xs @ [v]"
  by (induction xs) auto

text \<open>A position in the list: the entry a new range goes before, or the end.\<close>

definition at_pos :: "nat option \<Rightarrow> nat list \<Rightarrow> nat list \<Rightarrow> bool" where
  "at_pos pos xs ys \<longleftrightarrow> (case ys of [] \<Rightarrow> pos = None | y # _ \<Rightarrow> pos = Some y \<and> y \<notin> set xs)"

lemma insert_before_at: "at_pos pos xs ys \<Longrightarrow> insert_before pos v (xs @ ys) = xs @ v # ys"
  by (auto simp: at_pos_def insert_before_mid insert_before_end split: list.splits)

lemma range_alloc_ok:
  assumes "ashmem_ok s" and "areas s a = Some ar" and "unpinned_list ar = xs @ ys" and "at_pos pos xs ys"
    and "lo \<le> hi" and "hi < page_limit"
    and "\<And>i r. i \<in> set xs \<Longrightarrow> ranges s i = Some r \<Longrightarrow> hi < pgstart r"
    and "\<And>i r. i \<in> set ys \<Longrightarrow> ranges s i = Some r \<Longrightarrow> pgend r < lo"
  obtains (nomem) s' where "\<not> cache_alloc_ok k (next_id s)" and "range_alloc k a pos pg lo hi s = Some (- ENOMEM, s')"
      and "ashmem_ok s'" and "ranges s' = ranges s" and "areas s' = areas s" and "next_id s' = Suc (next_id s)"
  | (fresh) s' where "cache_alloc_ok k (next_id s)" and "range_alloc k a pos pg lo hi s = Some (0, s')" and "ashmem_ok s'"
      and "ranges s' = (ranges s)(next_id s \<mapsto> \<lparr>rg_asma = a, pgstart = lo, pgend = hi, purged = pg\<rparr>)"
      and "areas s' = (areas s)(a \<mapsto> ar\<lparr>unpinned_list := xs @ next_id s # ys\<rparr>)" and "ranges s (next_id s) = None" and "next_id s' = Suc (next_id s)"
proof (cases "cache_alloc_ok k (next_id s)")
  case False
  let ?s = "s\<lparr>next_id := Suc (next_id s)\<rparr>"
  have "ashmem_ok ?s" using assms(1) by (auto simp: ashmem_ok_def lru_ok_def)
  then show ?thesis using nomem [of ?s] False by (simp add: range_alloc_def)
next
  case True
  let ?i = "next_id s" and ?r = "\<lparr>rg_asma = a, pgstart = lo, pgend = hi, purged = pg\<rparr>"
  let ?R = "(ranges s)(?i \<mapsto> ?r)" and ?A = "(areas s)(a \<mapsto> ar\<lparr>unpinned_list := xs @ ?i # ys\<rparr>)"
  let ?s = "s\<lparr>next_id := Suc ?i, ranges := ?R, areas := ?A,
     ashmem_lru_list := (if pg then ashmem_lru_list s else ashmem_lru_list s @ [?i]),
     lru_count := (if pg then lru_count s else add64 (lru_count s) (range_size ?r))\<rparr>"
  note ao = ashmem_okD(1) [OF assms(1,2), unfolded area_ok_def] and lo = ashmem_okD(3) [OF assms(1), unfolded lru_ok_def]
  have new: "ranges s ?i = None" "areas s ?i = None" using ashmem_okD(4) [OF assms(1)] by simp_all
  have ni: "?i \<notin> set (unpinned_list ar)" "?i \<notin> set (ashmem_lru_list s)" using ao lo new(1) by auto
  have run: "range_alloc k a pos pg lo hi s = Some (0, ?s)"
    using True assms(2,3) insert_before_at [OF assms(4)] by (simp add: range_alloc_def lru_add_def Let_def)
  have r: "range_ok ?r" using assms(5,6) by (simp add: range_ok_def)
  have "total_size ?R (ashmem_lru_list s) = total_size (ranges s) (ashmem_lru_list s)"
    by (rule total_size_cong) (use ni in auto)
  then have "lru_count ?s = total_size ?R (ashmem_lru_list ?s) mod 2 ^ 64"
    using lo add64_mod by (simp add: total_size_def)
  then have "lru_ok ?s" using lo ni(2) by (auto simp: lru_ok_def new)
  moreover have "area_ok ?R b x" if b: "?A b = Some x" for b x
  proof (cases "b = a")
    case True
    have d: "descending ?R (unpinned_list ar)" by (rule descending_cong [of "ranges s"]) (use ao ni in auto)
    have "\<And>i. i \<in> set xs \<Longrightarrow> hi < pgstart (the (?R i))" "\<And>i. i \<in> set ys \<Longrightarrow> pgend (the (?R i)) < lo"
      using assms(3,7,8) ao ni(1) by (fastforce simp: descending_def)+
    then have "descending ?R (xs @ ?i # ys)"
      using d r assms(3) by (auto simp: descending_def sorted_wrt_append)
    then show ?thesis using True b ao ni(1) assms(3) by (auto simp: area_ok_def)
  next
    case False
    then have "areas s b = Some x" using b by simp
    from ashmem_okD(1) [OF assms(1) this] show ?thesis
      by (rule area_ok_cong) (use False new in \<open>auto split: if_splits\<close>)
  qed
  ultimately have "ashmem_ok ?s"
    using r assms(2) new ashmem_okD(2,4) [OF assms(1)] by (auto simp: ashmem_ok_def)
  then show ?thesis using fresh [of ?s] run True new by simp
qed

section \<open>The abstract view\<close>

definition overlaps :: "ashmem_range \<Rightarrow> nat \<Rightarrow> nat \<Rightarrow> bool" where
  "overlaps r lo hi \<longleftrightarrow> pages_of r \<inter> {lo..hi} \<noteq> {}"

lemma overlaps_iff: "range_ok r \<Longrightarrow> lo \<le> hi \<Longrightarrow> overlaps r lo hi \<longleftrightarrow> pgstart r \<le> hi \<and> lo \<le> pgend r"
  by (force simp: overlaps_def pages_of_def range_ok_def)

lemma in_range_overlaps: "range_ok r \<Longrightarrow> lo \<le> hi \<Longrightarrow> page_range_in_range r lo hi \<longleftrightarrow> overlaps r lo hi"
  by (auto simp: overlaps_iff page_range_in_range_def page_in_range_def page_range_subsumes_range_def range_ok_def)

text \<open>The unpinned pages other than those of one range.\<close>

definition other_pages :: "bool \<Rightarrow> (nat \<Rightarrow> ashmem_range option) \<Rightarrow> nat \<Rightarrow> nat \<Rightarrow> nat set" where
  "other_pages q R i a = {pg. \<exists>j. j \<noteq> i \<and> holds_page q (R j) a pg}"

lemma unpinned_one: "page_set q s a = other_pages q (ranges s) i a \<union> {pg. holds_page q (ranges s i) a pg}"
  by (rule set_eqI, simp add: page_set_def other_pages_def) metis

lemma unpinned_split:
  "ranges s i = Some r \<Longrightarrow> rg_asma r = a \<Longrightarrow> page_set q s a = other_pages q (ranges s) i a \<union> pages_as q r"
  using unpinned_one [of q s a i] by simp

lemma unpinned_without: "ranges s i = None \<Longrightarrow> page_set q s a = other_pages q (ranges s) i a"
  using unpinned_one [of q s a i] by simp

lemma other_pages_upd [simp]: "other_pages q (R(i := x)) i a = other_pages q R i a"
  by (auto simp: other_pages_def)

lemma unpinned_cong:
  assumes "\<And>i pg. holds_page q (ranges s' i) a pg \<longleftrightarrow> holds_page q (ranges s i) a pg"
  shows "page_set q s' a = page_set q s a"
  using assms by (simp add: page_set_def)

lemma unpinned_upd_other:
  assumes "ranges s i = Some r" and "rg_asma r \<noteq> b" and "ranges s' = (ranges s)(i := x)"
    and "\<And>y. x = Some y \<Longrightarrow> rg_asma y \<noteq> b"
  shows "page_set q s' b = page_set q s b"
  by (rule unpinned_cong) (use assms in \<open>cases x; auto\<close>)

section \<open>Pinning\<close>

definition pin_result ::
  "ashmem_state \<Rightarrow> nat \<Rightarrow> nat \<Rightarrow> nat \<Rightarrow> bool \<Rightarrow> nat list \<Rightarrow> bool \<Rightarrow> bool \<Rightarrow> ashmem_state \<Rightarrow> bool" where
  "pin_result s a lo hi mem is ret ret' s' \<longleftrightarrow> ashmem_ok s'
     \<and> (\<forall>q. page_set q s' a \<subseteq> page_set q s a - {lo..hi})
     \<and> ((\<forall>q. page_set q s' a = page_set q s a - {lo..hi}) \<or> \<not> mem \<and> next_id s < next_id s') \<and> next_id s \<le> next_id s'
     \<and> (ret' \<longleftrightarrow> ret \<or> (\<exists>i\<in>set is. \<exists>r. ranges s i = Some r \<and> overlaps r lo hi \<and> purged r))
     \<and> (\<exists>l. areas s' = (areas s)(a := map_option (\<lambda>ar. ar\<lparr>unpinned_list := l\<rparr>) (areas s a)))
     \<and> (\<forall>b q. b \<noteq> a \<longrightarrow> page_set q s' b = page_set q s b)"

lemma pin_result_step:
  assumes "pin_result s1 a lo hi mem il (ret \<or> overlaps r lo hi \<and> purged r) ret' s'" and "ranges s i = Some r"
    and "rg_asma r = a" and "i \<notin> set il" and "ranges s1 = (ranges s)(i := x)"
    and "\<And>y. x = Some y \<Longrightarrow> rg_asma y = a \<and> purged y = purged r"
    and "\<exists>l. areas s1 = (areas s)(a := map_option (\<lambda>ar. ar\<lparr>unpinned_list := l\<rparr>) (areas s a))"
    and "pages_of r - {lo..hi} = (case x of None \<Rightarrow> {} | Some y \<Rightarrow> pages_of y - {lo..hi})"
    and "next_id s1 = next_id s"
  shows "pin_result s a lo hi mem (i # il) ret ret' s'"
proof -
  have "page_set q s1 a = other_pages q (ranges s) i a \<union> (case x of None \<Rightarrow> {} | Some y \<Rightarrow> pages_as q y)" for q
    using unpinned_without [of s1 i q a] unpinned_split [of s1 i _ a q] assms(5,6) by (cases x) auto
  then have "page_set q s1 a - {lo..hi} = page_set q s a - {lo..hi}" for q
    using unpinned_split [OF assms(2,3), of q] assms(6,8) by (cases x) (auto simp: pages_as_def split: if_splits)
  moreover have "page_set q s1 b = page_set q s b" if "b \<noteq> a" for b q
    by (rule unpinned_upd_other [OF assms(2) _ assms(5)]) (use assms(3,6) that in auto)
  moreover have "(\<exists>j\<in>set il. \<exists>r. ranges s1 j = Some r \<and> overlaps r lo hi \<and> purged r)
      \<longleftrightarrow> (\<exists>j\<in>set il. \<exists>r. ranges s j = Some r \<and> overlaps r lo hi \<and> purged r)"
    using assms(4,5) by auto
  moreover obtain l l' where
    "areas s' = (areas s1)(a := map_option (\<lambda>ar. ar\<lparr>unpinned_list := l'\<rparr>) (areas s1 a))"
    "areas s1 = (areas s)(a := map_option (\<lambda>ar. ar\<lparr>unpinned_list := l\<rparr>) (areas s a))"
    using assms(1,7) unfolding pin_result_def by blast
  then have "areas s' = (areas s)(a := map_option (\<lambda>ar. ar\<lparr>unpinned_list := l'\<rparr>) (areas s a))"
    by (simp add: map_option.compositionality comp_def)
  ultimately show ?thesis using assms(1,2,9) unfolding pin_result_def by auto
qed

lemma pin_result_clear:
  assumes "ashmem_ok s" and "\<And>i r. ranges s i = Some r \<Longrightarrow> rg_asma r = a \<Longrightarrow> \<not> overlaps r lo hi"
    and "\<And>i. i \<in> set is \<Longrightarrow> map_option rg_asma (ranges s i) = Some a"
  shows "pin_result s a lo hi mem is ret ret s"
proof -
  have "pg \<notin> {lo..hi}" if "holds_page q (ranges s i) a pg" for i pg q
    using that assms(2) [of i] by (cases "ranges s i") (auto simp: overlaps_def dest: pages_asD)
  then have "page_set q s a \<inter> {lo..hi} = {}" for q by (auto simp: page_set_def)
  then have "page_set q s a = page_set q s a - {lo..hi}" for q by blast
  moreover have "\<exists>l. areas s = (areas s)(a := map_option (\<lambda>ar. ar\<lparr>unpinned_list := l\<rparr>) (areas s a))"
    by (rule exI [of _ "unpinned_list (the (areas s a))"]) (auto simp: fun_upd_idem_iff map_option_case split: option.split)
  moreover have "\<not> (\<exists>i\<in>set is. \<exists>r. ranges s i = Some r \<and> overlaps r lo hi \<and> purged r)" using assms(2,3) by force
  ultimately show ?thesis using assms(1) unfolding pin_result_def by blast
qed

text \<open>
  The last case: the pages to pin are inside one range, which is split in two. The code allocates
  the upper part first, when it still overlaps the range it comes from; the effect is that of
  shrinking first.
\<close>

lemma add64_sub64: "x < 2 ^ 64 \<Longrightarrow> sub64 (add64 c y) x = add64 (sub64 c x) y"
proof -
  assume "x < 2 ^ 64"
  then have sub: "sub64 z x = (z + (2 ^ 64 - x)) mod 2 ^ 64" for z by (simp add: sub64_def)
  have "sub64 (add64 c y) x = ((c + y) + (2 ^ 64 - x)) mod 2 ^ 64" "add64 (sub64 c x) y = ((c + (2 ^ 64 - x)) + y) mod 2 ^ 64"
    unfolding sub add64_def by (simp_all only: mod_add_left_eq)
  then show ?thesis by (simp only: ac_simps)
qed

lemma range_alloc_shrink:
  assumes "ranges s i = Some r" and "i \<noteq> next_id s"
  shows "do { (e, s1) \<leftarrow> range_alloc k a pos pg lo hi s; s2 \<leftarrow> range_shrink i l h s1; Some (e, s2) }
    = do { s1 \<leftarrow> range_shrink i l h s; range_alloc k a pos pg lo hi s1 }"
proof -
  have "sub64 x y < 2 ^ 64" for x y by (simp add: sub64_def)
  then show ?thesis using assms
    by (cases "areas s a") (simp_all add: range_alloc_def range_shrink_def lru_add_def Let_def fun_upd_twist add64_sub64)
qed

lemma unpinned_fresh:
  assumes "ranges s n = None" and "ranges s' = (ranges s)(n \<mapsto> r)"
  shows "page_set q s' a = page_set q s a \<union> (if rg_asma r = a then pages_as q r else {})"
  using unpinned_one [of q s' a n] unpinned_without [OF assms(1), of q a] assms(2) by simp

lemma ranges_disjoint:
  assumes "ashmem_ok s" and "ranges s i = Some r" and "j \<noteq> i" and "holds_page q (ranges s j) (rg_asma r) pg"
  shows "pg \<notin> pages_of r"
proof -
  obtain ar where ar: "areas s (rg_asma r) = Some ar" using ashmem_okD(2) [OF assms(1,2)] by auto
  note ao = ashmem_okD(1) [OF assms(1) ar, unfolded area_ok_def]
  obtain x where x: "ranges s j = Some x" "rg_asma x = rg_asma r" "pg \<in> pages_of x"
    using assms(4) by (cases "ranges s j") (auto dest: pages_asD)
  have "i \<in> set (unpinned_list ar)" "j \<in> set (unpinned_list ar)" using ao x assms(2) by blast+
  moreover from this(1) obtain ds es where l: "unpinned_list ar = ds @ i # es" by (meson split_list)
  ultimately have "j \<in> set ds \<or> j \<in> set es" using assms(3) by simp
  with l have "pgend r < pgstart x \<or> pgend x < pgstart r"
    using ao x(1) assms(2) by (auto simp: descending_def sorted_wrt_append)
  then show ?thesis using x(3) by (auto simp: pages_of_def)
qed

lemma pin_hole:
  assumes "ashmem_ok s" and "areas s a = Some ar" and "unpinned_list ar = ds @ i # il"
    and "ranges s i = Some r" and "rg_asma r = a" and "lo \<le> hi" and "hi < page_limit"
    and "pgstart r < lo" and "hi < pgend r"
  shows "\<exists>e s1 s2. range_alloc k a (Some i) (purged r) (hi + 1) (pgend r) s = Some (e, s1)
    \<and> range_shrink i (pgstart r) (lo - 1) s1 = Some s2
    \<and> pin_result s a lo hi (cache_alloc_ok k (next_id s)) (i # il) ret (ret \<or> purged r) s2"
proof -
  note ao = ashmem_okD(1) [OF assms(1,2), unfolded area_ok_def]
  have rok: "range_ok r" using ashmem_okD(2) [OF assms(1,4)] by simp
  have dist: "i \<notin> set ds" "i \<notin> set il" using ao assms(3) by auto
  have above: "pgend r < pgstart r'" if "j \<in> set ds" "ranges s j = Some r'" for j r'
    using ao assms(3,4) that by (auto simp: descending_def sorted_wrt_append)
  have below: "pgend r' < pgstart r" if "j \<in> set il" "ranges s j = Some r'" for j r'
    using ao assms(3,4) that by (auto simp: descending_def sorted_wrt_append)
  have ov: "overlaps r lo hi" using rok assms(6,8,9) by (auto simp: overlaps_iff)
  have away: "pg < pgstart r \<or> pgend r < pg" if "j \<noteq> i" "holds_page q (ranges s j) a pg" for j pg q
    using ranges_disjoint [OF assms(1,4) that(1), of q pg] that(2) assms(5) by (auto simp: pages_of_def)
  let ?r = "r\<lparr>pgstart := pgstart r, pgend := lo - 1\<rparr>"
  have "pgstart r \<le> pgstart r" "pgstart r \<le> lo - 1" "lo - 1 \<le> pgend r" using assms(6,8,9) by auto
  then obtain s1 where s1: "range_shrink i (pgstart r) (lo - 1) s = Some s1" "ashmem_ok s1"
    "ranges s1 = (ranges s)(i \<mapsto> ?r)" "areas s1 = areas s" "next_id s1 = next_id s"
    by (rule range_shrink_ok [OF assms(1,4)]) blast
  have ne: "i \<noteq> next_id s" using ashmem_okD(4) [OF assms(1), of "next_id s"] assms(4) by auto
  have one: "page_set q s1 a = page_set q s a - {lo..pgend r}" for q
  proof -
    have "other_pages q (ranges s) i a \<inter> {lo..pgend r} = {}"
      using away assms(8) by (fastforce simp: other_pages_def)
    moreover have "page_set q s1 a = other_pages q (ranges s) i a \<union> pages_as q ?r"
      using unpinned_split [of s1 i ?r a] s1(3) assms(5) by simp
    ultimately show ?thesis
      using unpinned_split [OF assms(4,5)] assms(6,8,9) by (auto simp: pages_of_def pages_as_def split: if_splits)
  qed
  have others: "page_set q s1 b = page_set q s b" if "b \<noteq> a" for b q
    by (rule unpinned_upd_other [OF assms(4) _ s1(3)]) (use assms(5) that in auto)
  have hits: "(\<exists>j\<in>set (i # il). \<exists>r. ranges s j = Some r \<and> overlaps r lo hi \<and> purged r) \<longleftrightarrow> purged r"
    using below assms(4,8) ov by (fastforce simp: overlaps_def pages_of_def)
  have upper: "{lo..hi} \<union> {hi + 1..pgend r} = {lo..pgend r}" using assms(6,9) by auto
  have res: "\<exists>e s2. range_alloc k a (Some i) (purged r) (hi + 1) (pgend r) s1 = Some (e, s2)
    \<and> pin_result s a lo hi (cache_alloc_ok k (next_id s)) (i # il) ret (ret \<or> purged r) s2"
  proof (rule range_alloc_ok [of s1 a ar ds "i # il" "Some i" "hi + 1" "pgend r" k "purged r"])
    show "ashmem_ok s1" "areas s1 a = Some ar" "unpinned_list ar = ds @ i # il" using s1 assms by simp_all
    show "at_pos (Some i) ds (i # il)" using dist by (simp add: at_pos_def)
    show "hi + 1 \<le> pgend r" "pgend r < page_limit" using assms(9) rok by (auto simp: range_ok_def)
    show "pgend r < pgstart x" if "j \<in> set ds" "ranges s1 j = Some x" for j x
      using above that s1(3) dist(1) by (auto split: if_splits)
    show "pgend x < hi + 1" if "j \<in> set (i # il)" "ranges s1 j = Some x" for j x
      using below [of j x] that s1(3) assms(6,8,9) rok by (auto simp: range_ok_def split: if_splits)
  next
    fix s2 assume "\<not> cache_alloc_ok k (next_id s1)" "range_alloc k a (Some i) (purged r) (hi + 1) (pgend r) s1 = Some (- ENOMEM, s2)"
      "ashmem_ok s2" and eq: "ranges s2 = ranges s1" "areas s2 = areas s1" and "next_id s2 = Suc (next_id s1)"
    moreover have "page_set q s2 b = page_set q s1 b" for b q using eq by (simp add: page_set_def)
    moreover have "\<exists>l. areas s2 = (areas s)(a := map_option (\<lambda>ar. ar\<lparr>unpinned_list := l\<rparr>) (areas s a))"
      using eq s1(4) assms(2) by (intro exI [of _ "unpinned_list ar"]) auto
    ultimately show ?thesis using one others hits upper s1(5) unfolding pin_result_def by auto
  next
    fix s2 assume "range_alloc k a (Some i) (purged r) (hi + 1) (pgend r) s1 = Some (0, s2)" and "ashmem_ok s2"
      and eq: "ranges s2 = (ranges s1)(next_id s1 \<mapsto> \<lparr>rg_asma = a, pgstart = hi + 1, pgend = pgend r, purged = purged r\<rparr>)"
      and ar2: "areas s2 = (areas s1)(a \<mapsto> ar\<lparr>unpinned_list := ds @ next_id s1 # i # il\<rparr>)" and new: "ranges s1 (next_id s1) = None" and "next_id s2 = Suc (next_id s1)"
    moreover have "page_set q s2 a = page_set q s a - {lo..hi}" for q
    proof -
      have "page_set q s2 a = page_set q s a - {lo..pgend r} \<union> (if q \<longrightarrow> purged r then {hi + 1..pgend r} else {})"
        using unpinned_fresh [OF new eq] one by (simp add: pages_of_def pages_as_def)
      moreover have "page_set q s a \<inter> {hi + 1..pgend r} = (if q \<longrightarrow> purged r then {hi + 1..pgend r} else {})"
      proof -
        have "other_pages q (ranges s) i a \<inter> {hi + 1..pgend r} = {}"
          using away assms(6,8) by (fastforce simp: other_pages_def)
        then show ?thesis
          using unpinned_split [OF assms(4,5), of q] assms(6,8) by (auto simp: pages_of_def pages_as_def)
      qed
      ultimately have "page_set q s2 a = page_set q s a - {lo..pgend r} \<union> page_set q s a \<inter> {hi + 1..pgend r}" by simp
      also have "\<dots> = page_set q s a - {lo..hi}" using assms(6,9) by auto
      finally show ?thesis .
    qed
    moreover have "page_set q s2 b = page_set q s b" if "b \<noteq> a" for b q
      using that unpinned_fresh [OF new eq] others by simp
    moreover have "\<exists>l. areas s2 = (areas s)(a := map_option (\<lambda>ar. ar\<lparr>unpinned_list := l\<rparr>) (areas s a))"
      using ar2 s1(4) assms(2) by auto
    ultimately show ?thesis using hits s1(5) unfolding pin_result_def by auto
  qed
  show ?thesis
    using res range_alloc_shrink [OF assms(4) ne, of k a "Some i" "purged r" "hi + 1" "pgend r" "pgstart r" "lo - 1"] s1(1)
    by (auto simp: bind_eq_Some_conv split: prod.splits)
qed

text \<open>What the loop has left behind it is clear of the pages to pin.\<close>

lemma pin_ranges_ok:
  assumes "ashmem_ok s" and "areas s a = Some ar" and "unpinned_list ar = ds @ is"
    and "lo \<le> hi" and "hi < page_limit"
    and "\<forall>i\<in>set ds. \<forall>r. ranges s i = Some r \<longrightarrow> \<not> overlaps r lo hi"
  shows "\<exists>ret' s'. pin_ranges k a lo hi ret is s = Some (ret', s')
    \<and> pin_result s a lo hi (cache_alloc_ok k (next_id s)) is ret ret' s'"
  using assms
proof (induction "is" arbitrary: s ar ds ret)
  case Nil
  note ao = ashmem_okD(1) [OF Nil.prems(1,2), unfolded area_ok_def]
  then have "pin_result s a lo hi (cache_alloc_ok k (next_id s)) [] ret ret s"
    by (intro pin_result_clear [OF Nil.prems(1)]) (use Nil.prems(3,6) in auto)
  then show ?case by simp
next
  case (Cons i "is")
  note ao = ashmem_okD(1) [OF Cons.prems(1,2), unfolded area_ok_def]
  have mem: "i \<in> set (unpinned_list ar)" using Cons.prems(3) by simp
  then obtain r where r: "ranges s i = Some r" "rg_asma r = a" using ao by blast
  have rok: "range_ok r" using ashmem_okD(2) [OF Cons.prems(1) r(1)] by simp
  have dist: "i \<notin> set ds" "i \<notin> set is" using ao Cons.prems(3) by auto
  have rest: "pgend r' < pgstart r" if "j \<in> set is" "ranges s j = Some r'" for j r'
    using ao Cons.prems(3) that r(1) by (auto simp: descending_def sorted_wrt_append)
  have same: "\<exists>l. areas s = (areas s)(a := map_option (\<lambda>ar. ar\<lparr>unpinned_list := l\<rparr>) (areas s a))"
    using Cons.prems(2) by (intro exI [of _ "unpinned_list ar"]) auto
  let ?mem = "cache_alloc_ok k (next_id s)"
  note step = pin_result_step [where s = s and i = i and r = r and a = a and lo = lo and hi = hi and mem = ?mem and ret = ret,
      OF _ r dist(2)]
  show ?case
  proof (cases "overlaps r lo hi")
    case no: False
    show ?thesis
    proof (cases "range_before_page r lo")
      case True
      have "\<not> overlaps r' lo hi" if r': "ranges s j = Some r'" "rg_asma r' = a" for j r'
      proof (cases "j \<in> set is")
        case j: True
        have "range_ok r'" using ashmem_okD(2) [OF Cons.prems(1) r'(1)] by simp
        then show ?thesis
          using rest [OF j r'(1)] True rok Cons.prems(4)
          by (auto simp: overlaps_iff range_before_page_def range_ok_def)
      next
        case False
        have "j \<in> set (unpinned_list ar)" using ao r' by blast
        then show ?thesis using False r' Cons.prems(3,6) r(1) no by auto
      qed
      moreover have "map_option rg_asma (ranges s j) = Some a" if "j \<in> set (i # is)" for j
      proof -
        have "j \<in> set (unpinned_list ar)" using that Cons.prems(3) by auto
        then show ?thesis using ao by auto
      qed
      ultimately have "pin_result s a lo hi ?mem (i # is) ret ret s"
        by (rule pin_result_clear [OF Cons.prems(1)])
      then show ?thesis using True r(1) by auto
    next
      case above: False
      have "unpinned_list ar = (ds @ [i]) @ is" using Cons.prems(3) by simp
      from Cons.IH [OF Cons.prems(1,2) this Cons.prems(4,5)] Cons.prems(6) no r(1)
      obtain ret' s' where *: "pin_ranges k a lo hi ret is s = Some (ret', s')" "pin_result s a lo hi ?mem is ret ret' s'"
        by fastforce
      have "pin_result s a lo hi ?mem (i # is) ret ret' s'"
        by (rule step [where ?s1.0 = s and x = "Some r"]) (use *(2) same no r in \<open>simp_all add: fun_upd_idem\<close>)
      then show ?thesis using above no rok r(1) Cons.prems(4) *(1) by (auto simp: in_range_overlaps)
    qed
  next
    case ov: True
    have nb: "\<not> range_before_page r lo" "page_range_in_range r lo hi"
      using ov rok Cons.prems(4) by (auto simp: overlaps_iff in_range_overlaps range_before_page_def)
    show ?thesis
    proof (cases "page_range_subsumes_range r lo hi")
      case del: True
      have sub: "pages_of r - {lo..hi} = {}" using del by (auto simp: page_range_subsumes_range_def pages_of_def)
      obtain s1 ar1 where s1: "range_del i s = Some s1" "ashmem_ok s1" "ranges s1 = (ranges s)(i := None)"
        "areas s (rg_asma r) = Some ar1"
        "areas s1 = (areas s)(rg_asma r \<mapsto> ar1\<lparr>unpinned_list := remove1 i (unpinned_list ar1)\<rparr>)" "next_id s1 = next_id s"
        by (rule range_del_ok [OF Cons.prems(1) r(1)]) blast
      have a1: "areas s1 a = Some (ar\<lparr>unpinned_list := ds @ is\<rparr>)"
        using s1(4,5) r(2) Cons.prems(2,3) dist by (simp add: remove1_append)
      have "\<forall>j\<in>set ds. \<forall>r'. ranges s1 j = Some r' \<longrightarrow> \<not> overlaps r' lo hi"
        using Cons.prems(6) s1(3) by (auto split: if_splits)
      from Cons.IH [OF s1(2) a1 _ Cons.prems(4,5) this, where ret = "ret \<or> purged r"] s1(6)
      obtain ret' s' where *: "pin_ranges k a lo hi (ret \<or> purged r) is s1 = Some (ret', s')"
        "pin_result s1 a lo hi ?mem is (ret \<or> purged r) ret' s'" by auto
      have "pin_result s a lo hi ?mem (i # is) ret ret' s'"
        by (rule step [where ?s1.0 = s1 and x = None])
          (use * s1(3-) r(2) sub ov in \<open>auto intro: exI [of _ "remove1 i (unpinned_list ar1)"]\<close>)
      then show ?thesis using nb del r(1) s1(1) *(1) by auto
    next
      case nsub: False
      show ?thesis
      proof (cases "pgstart r \<ge> lo")
        case front: True
        then have big: "hi < pgend r" "pgstart r \<le> hi" "lo \<le> pgend r"
          using nsub ov rok Cons.prems(4) by (auto simp: page_range_subsumes_range_def overlaps_iff)
        let ?r = "r\<lparr>pgstart := hi + 1, pgend := pgend r\<rparr>"
        have bounds: "pgstart r \<le> hi + 1" "hi + 1 \<le> pgend r" "pgend r \<le> pgend r" using big by simp_all
        obtain s1 where s1: "range_shrink i (hi + 1) (pgend r) s = Some s1" "ashmem_ok s1"
          "ranges s1 = (ranges s)(i \<mapsto> ?r)" "areas s1 = areas s" "next_id s1 = next_id s"
          by (rule range_shrink_ok [OF Cons.prems(1) r(1) bounds]) blast
        have l1: "unpinned_list ar = (ds @ [i]) @ is" "areas s1 a = Some ar" using Cons.prems(2,3) s1(4) by simp_all
        have clear: "\<forall>j\<in>set (ds @ [i]). \<forall>r'. ranges s1 j = Some r' \<longrightarrow> \<not> overlaps r' lo hi"
          using Cons.prems(6) s1(3) dist(1) by (auto simp: overlaps_def pages_of_def split: if_splits)
        from Cons.IH [OF s1(2) l1(2,1) Cons.prems(4,5) clear, where ret = "ret \<or> purged r"] s1(5)
        obtain ret' s' where *: "pin_ranges k a lo hi (ret \<or> purged r) is s1 = Some (ret', s')"
          "pin_result s1 a lo hi ?mem is (ret \<or> purged r) ret' s'" by auto
        have "pin_result s a lo hi ?mem (i # is) ret ret' s'"
          by (rule step [where ?s1.0 = s1 and x = "Some ?r"])
            (use * s1(3-5) r(2) same ov front big in \<open>auto simp: pages_of_def\<close>)
        moreover have "add64 hi 1 = hi + 1" using Cons.prems(5) by (intro add64_less) simp
        ultimately show ?thesis using nb nsub front r(1) s1(1) *(1) by auto
      next
        case rear: False
        show ?thesis
        proof (cases "pgend r \<le> hi")
          case tail: True
          let ?r = "r\<lparr>pgstart := pgstart r, pgend := lo - 1\<rparr>"
          have bounds: "pgstart r \<le> pgstart r" "pgstart r \<le> lo - 1" "lo - 1 \<le> pgend r"
            using rear ov rok Cons.prems(4) by (auto simp: overlaps_iff)
          obtain s1 where s1: "range_shrink i (pgstart r) (lo - 1) s = Some s1" "ashmem_ok s1"
            "ranges s1 = (ranges s)(i \<mapsto> ?r)" "areas s1 = areas s" "next_id s1 = next_id s"
            by (rule range_shrink_ok [OF Cons.prems(1) r(1) bounds]) blast
          have l1: "unpinned_list ar = (ds @ [i]) @ is" "areas s1 a = Some ar" using Cons.prems(2,3) s1(4) by simp_all
          have clear: "\<forall>j\<in>set (ds @ [i]). \<forall>r'. ranges s1 j = Some r' \<longrightarrow> \<not> overlaps r' lo hi"
            using Cons.prems(6) s1(3) dist(1) rear by (auto simp: overlaps_def pages_of_def split: if_splits)
          from Cons.IH [OF s1(2) l1(2,1) Cons.prems(4,5) clear, where ret = "ret \<or> purged r"] s1(5)
          obtain ret' s' where *: "pin_ranges k a lo hi (ret \<or> purged r) is s1 = Some (ret', s')"
            "pin_result s1 a lo hi ?mem is (ret \<or> purged r) ret' s'" by auto
          have "pin_result s a lo hi ?mem (i # is) ret ret' s'"
            by (rule step [where ?s1.0 = s1 and x = "Some ?r"])
              (use * s1(3-5) r(2) same ov rear tail bounds(3) Cons.prems(4) in \<open>auto simp: pages_of_def\<close>)
          moreover have "sub64 lo 1 = lo - 1" using rear Cons.prems(4,5) by (intro sub64_le) auto
          ultimately show ?thesis using nb nsub rear tail r(1) s1(1) *(1) by auto
        next
          case hole: False
          have "add64 hi 1 = hi + 1" using Cons.prems(5) by (intro add64_less) simp
          moreover have "sub64 lo 1 = lo - 1" using rear Cons.prems(4,5) by (intro sub64_le) auto
          ultimately show ?thesis
            using pin_hole [OF Cons.prems(1,2,3) r Cons.prems(4,5), of k ret] nb nsub rear hole r(1) by auto
        qed
      qed
    qed
  qed
qed

end
