(* ===== verification/Ashmem_Ops.thy ===== *)
theory Ashmem_Ops
  imports Ashmem_Inv
begin

text \<open>
  The other operations of ashmem keep its invariant: unpinning, which terminates because each
  restart has merged a range away, the pin status, the shrinker, and the operations on files.
\<close>

section \<open>Unpinning\<close>

text \<open>Where the scan stops, for a list from the highest range down.\<close>

lemma scan_unpinned_cases:
  assumes "descending R il" and "lo \<le> hi"
  obtains (stop) xs ys pos where "scan_unpinned R lo hi il = Some (Insert_At pos)" and "il = xs @ ys"
      and "distinct il \<Longrightarrow> at_pos pos xs ys"
      and "\<forall>i\<in>set xs. \<forall>r. R i = Some r \<longrightarrow> hi < pgstart r" and "\<forall>i\<in>set ys. \<forall>r. R i = Some r \<longrightarrow> pgend r < lo"
  | (already) i r where "scan_unpinned R lo hi il = Some Already" and "i \<in> set il" and "R i = Some r"
      and "{lo..hi} \<subseteq> pages_of r"
  | (merge) i r where "scan_unpinned R lo hi il = Some (Merge i)" and "i \<in> set il" and "R i = Some r" and "overlaps r lo hi"
  using assms
proof (induction il arbitrary: thesis)
  case Nil
  show ?case by (rule Nil.prems(1) [of None "[]" "[]"]) (simp_all add: at_pos_def)
next
  case (Cons i il)
  obtain r where r: "R i = Some r" "range_ok r" using Cons.prems(4) by (auto simp: descending_def)
  have tail: "descending R il" using Cons.prems(4) by (simp add: descending_def)
  show ?case
  proof (cases "range_before_page r lo")
    case True
    have "pgend x < lo" if "j \<in> set (i # il)" "R j = Some x" for j x
    proof -
      have "pgend x \<le> pgend r" using that Cons.prems(4) r by (fastforce simp: descending_def range_ok_def)
      then show ?thesis using True by (simp add: range_before_page_def)
    qed
    then show ?thesis using Cons.prems(1) [of "Some i" "[]" "i # il"] r(1) True by (simp add: at_pos_def)
  next
    case after: False
    show ?thesis
    proof (cases "page_range_subsumed_by_range r lo hi")
      case True
      then show ?thesis
        using Cons.prems(2) [of i r] r(1) after by (auto simp: page_range_subsumed_by_range_def pages_of_def)
    next
      case False
      show ?thesis
      proof (cases "page_range_in_range r lo hi")
        case True
        then show ?thesis
          using Cons.prems(3) [of i r] r after False Cons.prems(5) by (auto simp: in_range_overlaps)
      next
        case out: False
        have run: "scan_unpinned R lo hi (i # il) = scan_unpinned R lo hi il" using r(1) after False out by simp
        have up: "hi < pgstart r"
          using out after r(2) Cons.prems(5) by (auto simp: in_range_overlaps overlaps_iff range_before_page_def)
        show ?thesis
        proof (rule Cons.IH [OF _ _ _ tail Cons.prems(5)])
          fix pos xs ys
          assume *: "scan_unpinned R lo hi il = Some (Insert_At pos)" "il = xs @ ys" "distinct il \<Longrightarrow> at_pos pos xs ys"
            "\<forall>i\<in>set xs. \<forall>r. R i = Some r \<longrightarrow> hi < pgstart r" "\<forall>i\<in>set ys. \<forall>r. R i = Some r \<longrightarrow> pgend r < lo"
          show ?thesis
          proof (rule Cons.prems(1) [of pos "i # xs" ys])
            show "at_pos pos (i # xs) ys" if "distinct (i # il)"
              using that *(2,3) by (auto simp: at_pos_def split: list.splits)
          qed (use * run r(1) up in auto)
        next
          fix j x assume "scan_unpinned R lo hi il = Some Already" "j \<in> set il" "R j = Some x" "{lo..hi} \<subseteq> pages_of x"
          then show ?thesis using Cons.prems(2) [of j x] run by simp
        next
          fix j x assume "scan_unpinned R lo hi il = Some (Merge j)" "j \<in> set il" "R j = Some x" "overlaps x lo hi"
          then show ?thesis using Cons.prems(3) [of j x] run by simp
        qed
      qed
    qed
  qed
qed

text \<open>
  The result of an unpin: on success the pages are unpinned and no page that was purged is
  forgotten; without memory for the new range the merged ranges may be lost.
\<close>

definition area_kept :: "nat \<Rightarrow> ashmem_state \<Rightarrow> ashmem_state \<Rightarrow> bool" where
  "area_kept a s s' \<longleftrightarrow> (\<exists>l. areas s' = (areas s)(a := map_option (\<lambda>ar. ar\<lparr>unpinned_list := l\<rparr>) (areas s a)))"

lemma area_kept_refl [simp]: "area_kept a s s"
  unfolding area_kept_def
  by (rule exI [of _ "unpinned_list (the (areas s a))"]) (auto simp: fun_upd_idem_iff map_option_case split: option.split)

lemma area_kept_same: "areas s' = areas s \<Longrightarrow> area_kept a s s'"
  using area_kept_refl [of a s] unfolding area_kept_def by metis

lemma area_kept_trans: "area_kept a s s1 \<Longrightarrow> area_kept a s1 s2 \<Longrightarrow> area_kept a s s2"
  unfolding area_kept_def by (auto simp: option.map_comp comp_def)

definition unpin_result ::
  "ashmem_state \<Rightarrow> nat \<Rightarrow> nat \<Rightarrow> nat \<Rightarrow> bool \<Rightarrow> bool \<Rightarrow> int \<Rightarrow> ashmem_state \<Rightarrow> bool" where
  "unpin_result s a lo hi pg mem e s' \<longleftrightarrow> ashmem_ok s' \<and> area_kept a s s'
     \<and> (e = 0 \<and> unpinned_pages s' a = unpinned_pages s a \<union> {lo..hi}
          \<and> purged_pages s a \<subseteq> purged_pages s' a \<and> (pg \<and> \<not> {lo..hi} \<subseteq> unpinned_pages s a \<longrightarrow> {lo..hi} \<subseteq> purged_pages s' a)
        \<or> e = - ENOMEM \<and> \<not> mem \<and> unpinned_pages s' a \<subseteq> unpinned_pages s a \<and> next_id s < next_id s')
     \<and> next_id s \<le> next_id s'
     \<and> (\<forall>b q. b \<noteq> a \<longrightarrow> page_set q s' b = page_set q s b)"

lemma overlaps_union:
  assumes "range_ok r" and "lo \<le> hi" and "overlaps r lo hi"
  shows "{min (pgstart r) lo..max (pgend r) hi} = pages_of r \<union> {lo..hi}"
  using assms by (auto simp: overlaps_iff pages_of_def range_ok_def)

text \<open>A range that is merged away: what the rest of the loop does, seen from before the deletion.\<close>

lemma unpin_result_merge:
  assumes "ashmem_ok s" and "ranges s i = Some r" and "lo \<le> hi" and "overlaps r lo hi"
    and "ranges s1 = (ranges s)(i := None)" and "area_kept (rg_asma r) s s1"
    and "unpin_result s1 (rg_asma r) (min (pgstart r) lo) (max (pgend r) hi) (pg \<or> purged r) mem e s'" and "next_id s1 = next_id s"
  shows "unpin_result s (rg_asma r) lo hi pg mem e s'"
proof -
  let ?a = "rg_asma r"
  have rok: "range_ok r" using ashmem_okD(2) [OF assms(1,2)] by simp
  note un = overlaps_union [OF rok assms(3,4)]
  have old: "page_set q s ?a = page_set q s1 ?a \<union> pages_as q r" for q
    using unpinned_split [OF assms(2) refl] unpinned_without [of s1 i q ?a] assms(5) by simp
  have "pages_of r \<inter> unpinned_pages s1 ?a = {}"
    using ranges_disjoint [OF assms(1,2)] assms(5) by (fastforce simp: page_set_def split: if_splits)
  moreover have "pages_of r \<noteq> {}" using rok by (simp add: pages_of_def range_ok_def)
  ultimately have fresh: "\<not> {min (pgstart r) lo..max (pgend r) hi} \<subseteq> unpinned_pages s1 ?a" unfolding un by blast
  have others: "page_set q s1 b = page_set q s b" if "b \<noteq> ?a" for b q
    by (rule unpinned_upd_other [OF assms(2) _ assms(5)]) (use that in auto)
  have kept: "area_kept ?a s s'" using assms(6,7) area_kept_trans unfolding unpin_result_def by blast
  have rest: "ashmem_ok s'" "next_id s \<le> next_id s'" "\<forall>b q. b \<noteq> ?a \<longrightarrow> page_set q s' b = page_set q s b"
    using assms(7) others unfolding unpin_result_def assms(8) by simp_all
  have old_un: "unpinned_pages s ?a = unpinned_pages s1 ?a \<union> pages_of r" using old [of False] by (simp add: pages_as_def)
  consider (fine) "e = 0" "unpinned_pages s' ?a = unpinned_pages s1 ?a \<union> (pages_of r \<union> {lo..hi})" "purged_pages s1 ?a \<subseteq> purged_pages s' ?a"
      "pg \<or> purged r \<Longrightarrow> pages_of r \<union> {lo..hi} \<subseteq> purged_pages s' ?a"
    | (nomem) "e = - ENOMEM" "\<not> mem" "unpinned_pages s' ?a \<subseteq> unpinned_pages s1 ?a" "next_id s < next_id s'"
    using assms(7) fresh unfolding unpin_result_def un assms(8) by blast
  then show ?thesis
  proof cases
    case fine
    have "purged_pages s ?a \<subseteq> purged_pages s' ?a" using fine(3,4) unfolding old pages_as_def by auto
    then show ?thesis using fine kept rest old_un unfolding unpin_result_def by (simp add: Un_assoc)
  next
    case nomem
    then have "unpinned_pages s' ?a \<subseteq> unpinned_pages s ?a" using old_un by blast
    then show ?thesis using nomem kept rest unfolding unpin_result_def by simp
  qed
qed

lemma unpin_loop_ok:
  assumes "ashmem_ok s" and "areas s a = Some ar" and "lo \<le> hi" and "hi < page_limit"
  shows "\<exists>e s'. unpin_loop k a lo hi pg s = Some (e, s')
    \<and> unpin_result s a lo hi pg (cache_alloc_ok k (next_id s)) e s'"
  using assms
proof (induction "length (unpinned_list ar)" arbitrary: s ar lo hi pg rule: less_induct)
  case less
  note ao = ashmem_okD(1) [OF less.prems(1,2), unfolded area_ok_def]
  from ao have desc: "descending (ranges s) (unpinned_list ar)" by simp
  show ?case
  proof (cases rule: scan_unpinned_cases [OF desc less.prems(3), case_names stop already merge])
    case (stop xs ys pos)
    have run: "unpin_loop k a lo hi pg s = range_alloc k a pos pg lo hi s"
      using stop(1) less.prems(2) by (simp add: unpin_loop.simps)
    from stop(3) ao have "at_pos pos xs ys" by simp
    show ?thesis
    proof (cases rule: range_alloc_ok [OF less.prems(1,2) stop(2) \<open>at_pos pos xs ys\<close> less.prems(3,4), of k pg, case_names 1 2 nomem fresh])
      case (nomem s')
      have "page_set q s' b = page_set q s b" for q b using nomem(4) by (simp add: page_set_def)
      then show ?thesis using nomem run area_kept_same [OF nomem(5)] unfolding unpin_result_def by auto
    next
      case (fresh s')
      then show ?thesis using run unpinned_fresh [OF fresh(6,4)] less.prems(2)
        unfolding unpin_result_def by (auto simp: area_kept_def pages_as_def pages_of_def)
    qed (use stop in auto)
  next
    case (already i r)
    have "rg_asma r = a" using already(2,3) ao by auto
    then have "{lo..hi} \<subseteq> unpinned_pages s a"
      using already(4) unpinned_split [OF already(3), of a False] by (auto simp: pages_as_def)
    moreover have "unpin_loop k a lo hi pg s = Some (0, s)" using already(1) less.prems(2) by (simp add: unpin_loop.simps)
    ultimately show ?thesis using less.prems(1) unfolding unpin_result_def by auto
  next
    case (merge i r)
    have ra: "rg_asma r = a" using merge(2,3) ao by auto
    have rok: "range_ok r" using ashmem_okD(2) [OF less.prems(1) merge(3)] by simp
    obtain s1 ar1 where s1: "range_del i s = Some s1" "ashmem_ok s1" "ranges s1 = (ranges s)(i := None)"
      "areas s (rg_asma r) = Some ar1"
      "areas s1 = (areas s)(rg_asma r \<mapsto> ar1\<lparr>unpinned_list := remove1 i (unpinned_list ar1)\<rparr>)" "next_id s1 = next_id s"
      by (rule range_del_ok [OF less.prems(1) merge(3)]) blast
    let ?ar = "ar\<lparr>unpinned_list := remove1 i (unpinned_list ar)\<rparr>"
    have a1: "areas s1 a = Some ?ar" using s1(4,5) ra less.prems(2) by simp
    have "length (unpinned_list ?ar) < length (unpinned_list ar)"
      using merge(2) length_pos_if_in_set [OF merge(2)] by (simp add: length_remove1)
    moreover have "min (pgstart r) lo \<le> max (pgend r) hi" "max (pgend r) hi < page_limit"
      using less.prems(3,4) rok by (auto simp: range_ok_def)
    ultimately have "\<exists>e s'. unpin_loop k a (min (pgstart r) lo) (max (pgend r) hi) (pg \<or> purged r) s1 = Some (e, s')
      \<and> unpin_result s1 a (min (pgstart r) lo) (max (pgend r) hi) (pg \<or> purged r) (cache_alloc_ok k (next_id s1)) e s'"
      using less.hyps s1(2) a1 by blast
    then
    obtain e s' where run: "unpin_loop k a (min (pgstart r) lo) (max (pgend r) hi) (pg \<or> purged r) s1 = Some (e, s')"
      and res: "unpin_result s1 a (min (pgstart r) lo) (max (pgend r) hi) (pg \<or> purged r) (cache_alloc_ok k (next_id s)) e s'"
      using s1(6) by auto
    have "unpin_loop k a lo hi pg s = Some (e, s')"
      using merge(1,3) less.prems(2) s1(1) run by (subst unpin_loop.simps) simp
    moreover have "area_kept a s s1" using s1(4,5) ra by (auto simp: area_kept_def)
    ultimately show ?thesis
      using unpin_result_merge [OF less.prems(1) merge(3) less.prems(3) merge(4) s1(3), of pg] res ra s1(6) by auto
  qed
qed

section \<open>The pin status\<close>

lemma pin_status_ok:
  assumes "descending R il" and "lo \<le> hi"
  shows "pin_status R lo hi il = Some (\<forall>i\<in>set il. \<forall>r. R i = Some r \<longrightarrow> \<not> overlaps r lo hi)"
  using assms
proof (induction il)
  case Nil
  then show ?case by simp
next
  case (Cons i il)
  obtain r where r: "R i = Some r" "range_ok r" using Cons.prems(1) by (auto simp: descending_def)
  have lower: "range_ok x \<and> pgend x < pgstart r" if "j \<in> set il" "R j = Some x" for j x
    using that r(1) Cons.prems(1) by (force simp: descending_def)
  show ?case
  proof (cases "range_before_page r lo")
    case True
    then have "\<not> overlaps r lo hi" using r(2) Cons.prems(2) by (simp add: overlaps_iff range_before_page_def)
    moreover have "\<not> overlaps x lo hi" if "j \<in> set il" "R j = Some x" for j x
      using lower [OF that] True r(2) Cons.prems(2) by (auto simp: overlaps_iff range_before_page_def range_ok_def)
    ultimately show ?thesis using True r(1) by auto
  next
    case False
    then show ?thesis
      using r Cons by (auto simp: in_range_overlaps descending_def)
  qed
qed

lemma holds_page_False: "holds_page False x a pg \<longleftrightarrow> (\<exists>r. x = Some r \<and> rg_asma r = a \<and> pg \<in> pages_of r)"
  by (cases x) (auto simp: pages_as_def)

lemma not_unpinned_iff:
  assumes "ashmem_ok s" and "areas s a = Some ar"
  shows "unpinned_pages s a \<inter> {lo..hi} = {} \<longleftrightarrow> (\<forall>i\<in>set (unpinned_list ar). \<forall>r. ranges s i = Some r \<longrightarrow> \<not> overlaps r lo hi)"
proof -
  have mem: "i \<in> set (unpinned_list ar) \<longleftrightarrow> (\<exists>r. ranges s i = Some r \<and> rg_asma r = a)" for i
    using ashmem_okD(1) [OF assms] by (simp add: area_ok_def)
  have "unpinned_pages s a = {pg. \<exists>i\<in>set (unpinned_list ar). \<exists>r. ranges s i = Some r \<and> pg \<in> pages_of r}"
  proof (rule set_eqI)
    show "pg \<in> unpinned_pages s a \<longleftrightarrow> pg \<in> {pg. \<exists>i\<in>set (unpinned_list ar). \<exists>r. ranges s i = Some r \<and> pg \<in> pages_of r}" for pg
      by (simp add: page_set_def holds_page_False) (metis mem option.inject)
  qed
  then show ?thesis by (auto simp: overlaps_def)
qed

section \<open>The shrinker\<close>

definition mark_purged :: "nat set \<Rightarrow> (nat \<Rightarrow> ashmem_range option) \<Rightarrow> nat \<Rightarrow> ashmem_range option" where
  "mark_purged I R i = (if i \<in> I then map_option (\<lambda>r. r\<lparr>purged := True\<rparr>) (R i) else R i)"

text \<open>The bytes punched out of the backing file for a range.\<close>

definition hole_of :: "ashmem_state \<Rightarrow> nat \<Rightarrow> nat option \<times> nat \<times> nat" where
  "hole_of s i = (let r = the (ranges s i) in
     (as_file (the (areas s (rg_asma r))), pgstart r * PAGE_SIZE, range_size r * PAGE_SIZE mod 2 ^ 64))"

lemma mark_purged_empty [simp]: "mark_purged {} R = R"
  by (auto simp: mark_purged_def)

lemma range_size_purged [simp]: "range_size (r\<lparr>purged := b\<rparr>) = range_size r"
  by (simp add: range_size_def)

lemma hole_bytes:
  assumes "range_ok r"
  shows "(pgstart r * PAGE_SIZE) mod 2 ^ 64 = pgstart r * PAGE_SIZE"
    and "sub64 (((pgend r + 1) * PAGE_SIZE) mod 2 ^ 64) (pgstart r * PAGE_SIZE) = range_size r * PAGE_SIZE mod 2 ^ 64"
proof -
  have b: "pgstart r * PAGE_SIZE < 2 ^ 64" "pgstart r * PAGE_SIZE \<le> (pgend r + 1) * PAGE_SIZE"
    using assms by (auto simp: range_ok_def)
  then show "(pgstart r * PAGE_SIZE) mod 2 ^ 64 = pgstart r * PAGE_SIZE" by simp
  have "(pgend r + 1) * PAGE_SIZE - pgstart r * PAGE_SIZE = range_size r * PAGE_SIZE"
    using assms range_size_diff [OF assms] by (simp add: range_ok_def diff_mult_distrib)
  then show "sub64 (((pgend r + 1) * PAGE_SIZE) mod 2 ^ 64) (pgstart r * PAGE_SIZE) = range_size r * PAGE_SIZE mod 2 ^ 64"
    using sub64_mod [OF b(2)] b(1) by simp
qed

lemma shrink_one_ok:
  assumes "ashmem_ok s" and "ashmem_lru_list s = i # il"
  obtains r a s' where "ranges s i = Some r" and "areas s (rg_asma r) = Some a" and "range_ok r"
    and "lru_del i (s\<lparr>holes := hole_of s i # holes s, ranges := (ranges s)(i \<mapsto> r\<lparr>purged := True\<rparr>)\<rparr>) = Some s'"
    and "ashmem_ok s'" and "ashmem_lru_list s' = il" and "ranges s' = mark_purged {i} (ranges s)"
    and "areas s' = areas s" and "holes s' = hole_of s i # holes s"
proof -
  note lo = ashmem_okD(3) [OF assms(1), unfolded lru_ok_def]
  obtain r where r: "ranges s i = Some r" using lo assms(2) by (metis list.set_intros(1))
  obtain a where a: "areas s (rg_asma r) = Some a" and rok: "range_ok r" using ashmem_okD(2) [OF assms(1) r] by auto
  let ?R = "(ranges s)(i \<mapsto> r\<lparr>purged := True\<rparr>)"
  let ?s = "s\<lparr>holes := hole_of s i # holes s, ranges := ?R, ashmem_lru_list := il, lru_count := sub64 (lru_count s) (range_size r)\<rparr>"
  have sz: "total_size (ranges s) (i # il) = range_size r + total_size ?R il"
  proof -
    have "total_size ?R il = total_size (ranges s) il" by (rule total_size_cong) (use lo assms(2) in auto)
    then show ?thesis using r by (simp add: total_size_def)
  qed
  have "lru_count ?s = total_size ?R il mod 2 ^ 64"
    using lo assms(2) sz sub64_mod [of "range_size r" "total_size (ranges s) (i # il)"] range_size_less [OF rok] by simp
  then have "lru_ok ?s" using lo assms(2) r by (auto simp: lru_ok_def)
  moreover have "area_ok ?R b x" if x: "areas s b = Some x" for b x
  proof -
    note xo = ashmem_okD(1) [OF assms(1) x, unfolded area_ok_def]
    have "descending ?R (unpinned_list x)"
      by (rule descending_mono [of "ranges s"]) (use xo rok r ashmem_okD(2) [OF assms(1)] in \<open>auto simp: range_ok_def\<close>)
    then show ?thesis using xo r by (auto simp: area_ok_def)
  qed
  ultimately have "ashmem_ok ?s"
    using assms(1) r rok ashmem_okD(2,4) [OF assms(1)] by (auto simp: ashmem_ok_def range_ok_def)
  moreover have "lru_del i (s\<lparr>holes := hole_of s i # holes s, ranges := ?R\<rparr>) = Some ?s"
    using assms(2) by (simp add: lru_del_def)
  moreover have "ranges ?s = mark_purged {i} (ranges s)" using r by (auto simp: mark_purged_def)
  ultimately show ?thesis using that [OF r a rok] by simp
qed

text \<open>
  The whole loop: with \<open>nr \<ge> 1\<close> the first \<open>nr\<close> ranges of the list, or all of them, are punched out of
  their files in order, marked and taken off the list. The result counts their pages.
\<close>

definition shrink_result :: "ashmem_state \<Rightarrow> nat list \<Rightarrow> nat list \<Rightarrow> ashmem_state \<Rightarrow> bool" where
  "shrink_result s is js s' \<longleftrightarrow> ashmem_ok s' \<and> ashmem_lru_list s' = js \<and> areas s' = areas s
     \<and> ranges s' = mark_purged (set is) (ranges s) \<and> holes s' = rev (map (hole_of s) is) @ holes s"

lemma shrink_ranges_ok:
  assumes "ashmem_ok s" and "ashmem_lru_list s = il" and "1 \<le> nr" and "nr < 2 ^ 64" and "freed < 2 ^ 64"
  shows "\<exists>s'. shrink_ranges il nr freed s = Some ((freed + total_size (ranges s) (take nr il)) mod 2 ^ 64, s')
    \<and> shrink_result s (take nr il) (drop nr il) s'"
  using assms
proof (induction il arbitrary: s nr freed)
  case Nil
  then show ?case by (simp add: total_size_def shrink_result_def)
next
  case (Cons i il)
  obtain r a s1 where s1: "ranges s i = Some r" "areas s (rg_asma r) = Some a" "range_ok r"
    "lru_del i (s\<lparr>holes := hole_of s i # holes s, ranges := (ranges s)(i \<mapsto> r\<lparr>purged := True\<rparr>)\<rparr>) = Some s1"
    "ashmem_ok s1" "ashmem_lru_list s1 = il" "ranges s1 = mark_purged {i} (ranges s)" "areas s1 = areas s"
    "holes s1 = hole_of s i # holes s"
    by (rule shrink_one_ok [OF Cons.prems(1,2)]) blast
  obtain n where n: "nr = Suc n" using Cons.prems(3) by (cases nr) auto
  have dec: "sub64 nr 1 = n" using n Cons.prems(4) sub64_le [of 1 nr] by simp
  have i: "i \<notin> set il" using ashmem_okD(3) [OF Cons.prems(1)] Cons.prems(2) by (auto simp: lru_ok_def)
  have step: "shrink_ranges (i # il) nr freed s
      = (if n = 0 then Some (add64 freed (range_size r), s1) else shrink_ranges il n (add64 freed (range_size r)) s1)"
    using s1(1-4) hole_bytes [OF s1(3)] dec by (simp add: hole_of_def Let_def)
  have total: "total_size (ranges s) (take nr (i # il)) = range_size r + total_size (ranges s1) (take n il)"
  proof -
    have "range_size (the (ranges s1 j)) = range_size (the (ranges s j))" if "j \<in> set (take n il)" for j
      using that i s1(7) by (auto simp: mark_purged_def dest: in_set_takeD)
    then show ?thesis using n s1(1) by (simp add: total_size_def cong: map_cong)
  qed
  have result: "shrink_result s (take nr (i # il)) (drop nr (i # il)) s'"
    if "shrink_result s1 (take n il) (drop n il) s'" for s'
  proof -
    have "hole_of s1 j = hole_of s j" if "j \<in> set (take n il)" for j
      using that i s1(7,8) by (auto simp: hole_of_def mark_purged_def dest: in_set_takeD)
    then have "map (hole_of s1) (take n il) = map (hole_of s) (take n il)" by simp
    moreover have "mark_purged (set (take n il)) (mark_purged {i} R) = mark_purged (insert i (set (take n il))) R" for R
      using i by (auto simp: mark_purged_def option.map_comp comp_def)
    ultimately show ?thesis using that s1(7-9) n by (simp add: shrink_result_def)
  qed
  show ?case
  proof (cases "n = 0")
    case True
    have "shrink_result s1 [] il s1" using s1(5,6) by (simp add: shrink_result_def)
    then show ?thesis using True step total result [of s1] n by (auto simp: add64_def total_size_def)
  next
    case False
    have "add64 freed (range_size r) < 2 ^ 64" by (simp add: add64_def)
    from Cons.IH [OF s1(5,6) _ _ this, of n] False Cons.prems(4) n
    obtain s' where "shrink_ranges il n (add64 freed (range_size r)) s1
        = Some ((add64 freed (range_size r) + total_size (ranges s1) (take n il)) mod 2 ^ 64, s')"
      and "shrink_result s1 (take n il) (drop n il) s'" by auto
    then show ?thesis using False step total result by (auto simp: add64_def mod_simps add.assoc)
  qed
qed

lemma page_set_marked:
  assumes "ranges s' = mark_purged I (ranges s)"
  shows "unpinned_pages s' a = unpinned_pages s a" and "purged_pages s a \<subseteq> purged_pages s' a"
proof -
  have "holds_page False (ranges s' i) a pg = holds_page False (ranges s i) a pg"
    "holds_page True (ranges s i) a pg \<Longrightarrow> holds_page True (ranges s' i) a pg" for i pg
    using assms by (cases "ranges s i"; simp add: mark_purged_def pages_as_def pages_of_def split: if_splits)+
  then show "unpinned_pages s' a = unpinned_pages s a" "purged_pages s a \<subseteq> purged_pages s' a"
    unfolding page_set_def by blast+
qed

section \<open>Releasing an area\<close>

lemma range_del_all_ok:
  assumes "ashmem_ok s" and "areas s a = Some ar" and "unpinned_list ar = il"
  shows "\<exists>s'. range_del_all il s = Some s' \<and> ashmem_ok s' \<and> areas s' = (areas s)(a \<mapsto> ar\<lparr>unpinned_list := []\<rparr>)
    \<and> ranges s' = (\<lambda>i. if i \<in> set il then None else ranges s i) \<and> f_count s' = f_count s"
  using assms
proof (induction il arbitrary: s ar)
  case Nil
  have "(areas s)(a \<mapsto> ar\<lparr>unpinned_list := []\<rparr>) = areas s" using Nil by (auto simp: fun_upd_idem_iff)
  then show ?case using Nil by simp
next
  case (Cons i il)
  note ao = ashmem_okD(1) [OF Cons.prems(1,2), unfolded area_ok_def]
  obtain r where r: "ranges s i = Some r" "rg_asma r = a" using ao Cons.prems(3) by (metis list.set_intros(1))
  obtain s1 ar1 where s1: "range_del i s = Some s1" "ashmem_ok s1" "ranges s1 = (ranges s)(i := None)"
    "areas s (rg_asma r) = Some ar1"
    "areas s1 = (areas s)(rg_asma r \<mapsto> ar1\<lparr>unpinned_list := remove1 i (unpinned_list ar1)\<rparr>)"
    by (rule range_del_ok [OF Cons.prems(1) r(1)]) blast
  have c1: "f_count s1 = f_count s" using s1(1) by (auto simp: range_del_def lru_del_def Let_def bind_eq_Some_conv split: if_splits)
  have a1: "areas s1 a = Some (ar\<lparr>unpinned_list := il\<rparr>)" using s1(4,5) r(2) Cons.prems(2,3) by simp
  have upd: "(areas s1)(a \<mapsto> ar\<lparr>unpinned_list := []\<rparr>) = (areas s)(a \<mapsto> ar\<lparr>unpinned_list := []\<rparr>)" using s1(5) r(2) by simp
  from Cons.IH [OF s1(2) a1] show ?case using s1(1,3) upd c1 by (auto simp: fun_eq_iff)
qed

text \<open>Once its ranges are gone an area can go: nothing refers to it.\<close>

lemma forget_area_ok:
  assumes "ashmem_ok s" and "areas s a = Some ar" and "unpinned_list ar = []"
  shows "ashmem_ok (s\<lparr>areas := (areas s)(a := None)\<rparr>)"
proof -
  have "rg_asma r \<noteq> a" if "ranges s i = Some r" for i r
    using ashmem_okD(1) [OF assms(1,2)] that assms(3) by (auto simp: area_ok_def)
  then show ?thesis using assms(1) by (auto simp: ashmem_ok_def lru_ok_def)
qed

section \<open>References to files\<close>

lemma file_refs [simp]:
  "areas (get_file f s) = areas s" "ranges (get_file f s) = ranges s" "areas (fput x s) = areas s" "ranges (fput x s) = ranges s"
  "f_count (get_file f s) g = f_count s g + (if g = f then 1 else 0)"
  "f_count (fput x s) g = f_count s g - (if x = Some g then 1 else 0)"
  by (simp_all add: get_file_def fput_def split: option.split)

lemma ashmem_ok_count: "ashmem_ok (s\<lparr>f_count := c\<rparr>) \<longleftrightarrow> ashmem_ok s"
  by (simp add: ashmem_ok_def lru_ok_def)

lemma ashmem_ok_refs [simp]: "ashmem_ok (get_file f s) \<longleftrightarrow> ashmem_ok s" "ashmem_ok (fput x s) \<longleftrightarrow> ashmem_ok s"
  by (simp_all add: get_file_def fput_def ashmem_ok_count split: option.split)

section \<open>Attributes\<close>

text \<open>An operation that changes neither the ranges nor the name keeps the invariant.\<close>

lemma area_update_ok:
  assumes "ashmem_ok s" and "areas s a = Some ar" and "unpinned_list ar' = unpinned_list ar"
    and "length (as_name ar') = ASHMEM_FULL_NAME_LEN" and "0 \<in> set (drop ASHMEM_NAME_PREFIX_LEN (as_name ar'))"
  shows "ashmem_ok (s\<lparr>areas := (areas s)(a \<mapsto> ar')\<rparr>)"
proof -
  have "area_ok (ranges s) a ar'" using ashmem_okD(1) [OF assms(1,2)] assms(3-5) by (simp add: area_ok_def)
  moreover have "a < next_id s" using ashmem_okD(4) [OF assms(1), of a] assms(2) by (cases "a < next_id s") auto
  ultimately show ?thesis using assms(1) by (auto simp: ashmem_ok_def lru_ok_def)
qed

lemma area_name_ok: "ashmem_ok s \<Longrightarrow> areas s a = Some ar \<Longrightarrow>
  length (as_name ar) = ASHMEM_FULL_NAME_LEN \<and> 0 \<in> set (drop ASHMEM_NAME_PREFIX_LEN (as_name ar))"
  using ashmem_okD(1) by (simp add: area_ok_def)

lemma strncpy_from_user_length: "strncpy_from_user um p n = Some bs \<Longrightarrow> length bs \<le> n \<and> 0 \<notin> set bs"
  by (induction n arbitrary: p bs) (auto split: option.splits if_splits)

lemma set_name_ok:
  assumes "ashmem_ok s" and "areas s a = Some ar"
  obtains (fault) "strncpy_from_user um p ASHMEM_NAME_LEN = None" and "set_name a um p s = Some (- EFAULT, s)"
  | (mapped) "as_file ar \<noteq> None" and "set_name a um p s = Some (- EINVAL, s)"
  | (named) bs nm where "as_file ar = None" and "strncpy_from_user um p ASHMEM_NAME_LEN = Some bs"
      and "set_name a um p s = Some (0, s\<lparr>areas := (areas s)(a \<mapsto> ar\<lparr>as_name := nm\<rparr>)\<rparr>)"
      and "ashmem_ok (s\<lparr>areas := (areas s)(a \<mapsto> ar\<lparr>as_name := nm\<rparr>)\<rparr>)"
      and "nm = take ASHMEM_NAME_PREFIX_LEN (as_name ar) @ take 255 bs @ 0 # drop (12 + length (take 255 bs)) (as_name ar)"
proof (cases "strncpy_from_user um p ASHMEM_NAME_LEN")
  case None
  then show ?thesis using fault assms(2) by (simp add: set_name_def)
next
  case (Some bs)
  note bl = strncpy_from_user_length [OF Some] and nl = area_name_ok [OF assms]
  let ?n = "if length bs = ASHMEM_NAME_LEN then take (ASHMEM_NAME_LEN - 1) bs else bs"
  have n: "?n = take 255 bs" using bl by auto
  let ?nm = "take ASHMEM_NAME_PREFIX_LEN (as_name ar) @ take 255 bs @ 0 # drop (12 + length (take 255 bs)) (as_name ar)"
  have put: "put_range (as_name ar) ASHMEM_NAME_PREFIX_LEN (take 255 bs @ [0]) = Some ?nm"
    using nl by (simp add: put_range_def)
  have "length ?nm = ASHMEM_FULL_NAME_LEN" "0 \<in> set (drop ASHMEM_NAME_PREFIX_LEN ?nm)" using nl by auto
  then have "ashmem_ok (s\<lparr>areas := (areas s)(a \<mapsto> ar\<lparr>as_name := ?nm\<rparr>)\<rparr>)"
    by (intro area_update_ok [OF assms]) simp_all
  then show ?thesis
    using mapped named [OF _ Some _ _ refl] Some assms(2) put by (cases "as_file ar") (simp_all add: set_name_def n)
qed

section \<open>The pages of a request\<close>

lemma low_bits_zero: "(x :: u32) AND 0xfff = 0 \<longleftrightarrow> unat x mod 4096 = 0"
proof -
  have "x AND 0xfff = take_bit 12 x" by (simp add: take_bit_eq_mask mask_eq_exp_minus_1)
  then have "unat (x AND 0xfff) = unat x mod 4096" by (simp add: unat_mod take_bit_eq_mod)
  then show ?thesis by (metis unat_eq_zero)
qed

lemma pin_pages_bounds:
  assumes "pin_pages sz offset len0 = Some (lo, hi)" and "pin_length sz offset len0 \<noteq> 0"
  shows "lo * PAGE_SIZE = unat offset" and "(hi + 1 - lo) * PAGE_SIZE = unat (pin_length sz offset len0)"
    and "lo \<le> hi" and "hi < page_limit" and "(hi + 1) * PAGE_SIZE \<le> page_align64 sz"
proof -
  let ?len = "pin_length sz offset len0"
  have al: "(offset OR ?len) AND 0xfff = 0" and ov: "\<not> 0xffffffff - offset < ?len" and fit: "unat (offset + ?len) \<le> page_align64 sz"
    and lo: "lo = unat offset div PAGE_SIZE" and hi: "hi = sub64 (add64 lo (unat ?len div PAGE_SIZE)) 1"
    using assms(1) by (auto simp: pin_pages_def Let_def split: if_splits)
  have "offset AND 0xfff = 0" "?len AND 0xfff = 0" using al by (simp_all add: bit.conj_disj_distrib2 or_eq_0_iff)
  then have m: "unat offset mod 4096 = 0" "unat ?len mod 4096 = 0" by (simp_all add: low_bits_zero)
  have b: "unat offset < 2 ^ 32" using unsigned_less [where w = offset and ?'a = nat] by simp
  then have "offset \<le> (0xffffffff :: u32)" by (simp add: word_le_nat_alt)
  then have "unat (0xffffffff - offset) = 0xffffffff - unat offset" by (simp add: unat_sub)
  then have s: "unat offset + unat ?len < 2 ^ 32" using ov b by (simp add: word_less_nat_alt)
  then have add: "unat (offset + ?len) = unat offset + unat ?len" using unat_add_lem [of offset ?len] by simp
  obtain x y where xy: "unat offset = 4096 * x" "unat ?len = 4096 * y" using m by (auto elim!: dvdE)
  have y: "y \<noteq> 0" using xy(2) assms(2) by (metis mult_0_right unat_eq_zero)
  have "x + y < 2 ^ 20" using s xy by simp
  then have "add64 x y = x + y" "sub64 (x + y) 1 = x + y - 1" using y by simp_all
  then have h: "lo = x" "hi = x + y - 1" using lo hi xy by simp_all
  show "lo * PAGE_SIZE = unat offset" "(hi + 1 - lo) * PAGE_SIZE = unat ?len" "lo \<le> hi" "hi < page_limit"
    "(hi + 1) * PAGE_SIZE \<le> page_align64 sz"
    using h xy y fit add \<open>x + y < 2 ^ 20\<close> by auto
qed

section \<open>Names\<close>

text \<open>The terminated string at the start of a buffer that has a terminator.\<close>

lemma take_string:
  assumes "(0 :: byte) \<in> set bs"
  shows "take (length (takeWhile (\<lambda>b. b \<noteq> 0) bs) + 1) bs = takeWhile (\<lambda>b. b \<noteq> 0) bs @ [0]"
    and "length (takeWhile (\<lambda>b. b \<noteq> 0) bs) < length bs"
  using assms by (induction bs) auto

definition local_name :: "byte list \<Rightarrow> byte list" where
  "local_name nm = (let str = takeWhile (\<lambda>b. b \<noteq> 0) (drop ASHMEM_NAME_PREFIX_LEN nm) in
     if str = [] then ASHMEM_NAME_DEF @ [0] else str @ [0])"

lemma get_name_ok:
  assumes "ashmem_ok s" and "areas s a = Some ar"
  shows "get_name a um p s = Some (case copy_to_user um p (local_name (as_name ar)) of
    None \<Rightarrow> (- EFAULT, um) | Some um' \<Rightarrow> (0, um'))"
proof -
  note nm = area_name_ok [OF assms]
  let ?t = "drop ASHMEM_NAME_PREFIX_LEN (as_name ar)"
  obtain b bs where t: "?t = b # bs" using nm by (cases ?t) auto
  then have hd: "as_name ar ! ASHMEM_NAME_PREFIX_LEN = b" using nm by (metis Cons_nth_drop_Suc list.inject drop_eq_Nil list.simps(3) not_le)
  have len: "length (takeWhile (\<lambda>b. b \<noteq> 0) ?t) < 256" using take_string(2) [of ?t] nm by simp
  have loc: "(if as_name ar ! ASHMEM_NAME_PREFIX_LEN \<noteq> 0 then take (length (takeWhile (\<lambda>b. b \<noteq> 0) ?t) + 1) ?t else ASHMEM_NAME_DEF @ [0])
      = local_name (as_name ar)"
    using take_string(1) [of ?t] nm hd t by (auto simp: local_name_def Let_def)
  have "length (local_name (as_name ar)) \<le> ASHMEM_NAME_LEN"
    using len by (simp add: local_name_def Let_def ASHMEM_NAME_DEF_def ascii_def)
  then show ?thesis using loc assms(2) by (simp add: get_name_def Let_def)
qed

end
