(* ===== verification/Ashmem_Props.thy ===== *)
theory Ashmem_Props
  imports Ashmem_Ops
begin

text \<open>
  What ashmem promises. Pinning and unpinning act on the set of unpinned pages of an area as set difference
  and union, whatever the list of ranges looks like; a page that has been purged is reported by the next pin
  that covers it. When there is no memory for a range, fewer pages than asked stay unpinned. The contract is the locale \<open>purge_memory\<close>, interpreted on the code's operations.
\<close>

unbundle bit_operations_syntax

section \<open>A contract for purgeable memory\<close>

datatype pin_op = Pin nat nat nat | Unpin nat nat nat | Purge nat

fun run_ops :: "('op \<Rightarrow> 's \<Rightarrow> ('r \<times> 's) option) \<Rightarrow> 'op list \<Rightarrow> 's \<Rightarrow> ('r list \<times> 's) option" where
  "run_ops f [] s = Some ([], s)"
| "run_ops f (p # ps) s = do { (r, s1) \<leftarrow> f p s; (rs, s2) \<leftarrow> run_ops f ps s1; Some (r # rs, s2) }"

text \<open>The operation takes page \<open>pg\<close> of area \<open>a\<close> back from the shrinker.\<close>

fun pins_page :: "nat \<Rightarrow> nat \<Rightarrow> pin_op \<Rightarrow> bool" where
  "pins_page a pg (Pin b lo hi) \<longleftrightarrow> b = a \<and> lo \<le> pg \<and> pg \<le> hi"
| "pins_page a pg _ \<longleftrightarrow> False"

text \<open>The unpinned pages after a sequence of operations, from those before it.\<close>

fun spec_unpinned :: "pin_op list \<Rightarrow> nat \<Rightarrow> nat set \<Rightarrow> nat set" where
  "spec_unpinned [] a U = U"
| "spec_unpinned (Pin b lo hi # ps) a U = spec_unpinned ps a (if b = a then U - {lo..hi} else U)"
| "spec_unpinned (Unpin b lo hi # ps) a U = spec_unpinned ps a (if b = a then U \<union> {lo..hi} else U)"
| "spec_unpinned (Purge n # ps) a U = spec_unpinned ps a U"

text \<open>
  The contract. Allocations are numbered by a clock; \<open>good\<close> says which of them succeed, and the pages are exactly those of the
  specification over a stretch of time in which none fails.
\<close>

definition all_good :: "(nat \<Rightarrow> bool) \<Rightarrow> nat \<Rightarrow> nat \<Rightarrow> bool" where
  "all_good good m n \<longleftrightarrow> (\<forall>i. m \<le> i \<and> i < n \<longrightarrow> good i)"

lemma all_good_split: "m \<le> n \<Longrightarrow> n \<le> l \<Longrightarrow> all_good good m l \<longleftrightarrow> all_good good m n \<and> all_good good n l"
  unfolding all_good_def by (meson le_trans less_le_trans not_le)

locale purge_memory =
  fixes ok :: "'s \<Rightarrow> bool"
    and valid :: "'s \<Rightarrow> pin_op \<Rightarrow> bool"
    and step :: "pin_op \<Rightarrow> 's \<Rightarrow> (bool \<times> 's) option"
    and unpinned purged_of :: "'s \<Rightarrow> nat \<Rightarrow> nat set"
    and clock :: "'s \<Rightarrow> nat" and good :: "nat \<Rightarrow> bool"
  assumes runs: "ok s \<Longrightarrow> valid s p \<Longrightarrow> \<exists>r s'. step p s = Some (r, s') \<and> ok s'"
    and valid_step: "ok s \<Longrightarrow> valid s p \<Longrightarrow> step p s = Some (r, s') \<Longrightarrow> valid s' q \<longleftrightarrow> valid s q"
    and clock_step: "ok s \<Longrightarrow> valid s p \<Longrightarrow> step p s = Some (r, s') \<Longrightarrow> clock s \<le> clock s'"
    and pin_reports: "ok s \<Longrightarrow> valid s (Pin a lo hi) \<Longrightarrow> step (Pin a lo hi) s = Some (r, s') \<Longrightarrow>
      r \<longleftrightarrow> purged_of s a \<inter> {lo..hi} \<noteq> {}"
    and pin_pages_of: "ok s \<Longrightarrow> valid s (Pin a lo hi) \<Longrightarrow> step (Pin a lo hi) s = Some (r, s') \<Longrightarrow>
      unpinned s' a \<subseteq> unpinned s a - {lo..hi}
      \<and> (all_good good (clock s) (clock s') \<longrightarrow> unpinned s' a = unpinned s a - {lo..hi} \<and> purged_of s' a = purged_of s a - {lo..hi})
      \<and> (\<forall>b. b \<noteq> a \<longrightarrow> unpinned s' b = unpinned s b \<and> purged_of s' b = purged_of s b)"
    and unpin_pages_of: "ok s \<Longrightarrow> valid s (Unpin a lo hi) \<Longrightarrow> step (Unpin a lo hi) s = Some (r, s') \<Longrightarrow>
      unpinned s' a \<subseteq> unpinned s a \<union> {lo..hi}
      \<and> (all_good good (clock s) (clock s') \<longrightarrow> unpinned s' a = unpinned s a \<union> {lo..hi} \<and> purged_of s a \<subseteq> purged_of s' a)
      \<and> (\<forall>b. b \<noteq> a \<longrightarrow> unpinned s' b = unpinned s b \<and> purged_of s' b = purged_of s b)"
    and purge_pages_of: "ok s \<Longrightarrow> valid s (Purge n) \<Longrightarrow> step (Purge n) s = Some (r, s') \<Longrightarrow>
      unpinned s' b = unpinned s b \<and> purged_of s b \<subseteq> purged_of s' b"
begin

lemma run_step:
  assumes "ok s" and "list_all (valid s) (p # ps)"
  obtains r s1 where "step p s = Some (r, s1)" and "ok s1" and "list_all (valid s1) ps"
proof -
  from assms(2) have v: "valid s p" by simp
  obtain r s1 where r: "step p s = Some (r, s1)" "ok s1" using runs [OF assms(1) v] by blast
  have "list_all (valid s1) ps" using assms(2) valid_step [OF assms(1) v r(1)] by (simp add: list_all_iff)
  then show ?thesis using that r by blast
qed

lemma run_total: "ok s \<Longrightarrow> list_all (valid s) ps \<Longrightarrow> \<exists>rs s'. run_ops step ps s = Some (rs, s') \<and> ok s' \<and> length rs = length ps"
proof (induction ps arbitrary: s)
  case (Cons p ps)
  obtain r s1 where "step p s = Some (r, s1)" "ok s1" "list_all (valid s1) ps" by (rule run_step [OF Cons.prems])
  then show ?case using Cons.IH [of s1] by auto
qed simp

lemma run_clock: "ok s \<Longrightarrow> list_all (valid s) ps \<Longrightarrow> run_ops step ps s = Some (rs, s') \<Longrightarrow> clock s \<le> clock s'"
proof (induction ps arbitrary: s rs)
  case (Cons p ps)
  obtain r s1 where s1: "step p s = Some (r, s1)" "ok s1" "list_all (valid s1) ps" by (rule run_step [OF Cons.prems(1,2)])
  then obtain rs' where "run_ops step ps s1 = Some (rs', s')" using Cons.prems(3) by (auto simp: bind_eq_Some_conv)
  then show ?case using Cons.IH [OF s1(2,3)] clock_step [OF Cons.prems(1) _ s1(1)] Cons.prems(2) by fastforce
qed simp

text \<open>A page that the specification has pinned is not unpinned, and without a failure none is pinned that should not be.\<close>

lemma spec_mono: "U \<subseteq> U' \<Longrightarrow> spec_unpinned ps a U \<subseteq> spec_unpinned ps a U'"
proof (induction ps arbitrary: U U')
  case (Cons p ps)
  have "U - X \<subseteq> U' - X" "U \<union> X \<subseteq> U' \<union> X" for X using Cons.prems by auto
  then show ?case using Cons.prems by (cases p) (simp_all add: Cons.IH)
qed simp

lemma step_unpinned:
  assumes "ok s" and "valid s p" and "step p s = Some (r, s1)"
  shows "unpinned s1 a \<subseteq> spec_unpinned [p] a (unpinned s a)
    \<and> (all_good good (clock s) (clock s1) \<longrightarrow> unpinned s1 a = spec_unpinned [p] a (unpinned s a))"
proof (cases p)
  case (Pin b lo hi)
  then show ?thesis using pin_pages_of [of s b lo hi r s1] assms by (cases "b = a") simp_all
next
  case (Unpin b lo hi)
  then show ?thesis using unpin_pages_of [of s b lo hi r s1] assms by (cases "b = a") simp_all
next
  case (Purge n)
  then show ?thesis using purge_pages_of [of s n r s1 a] assms by simp
qed

lemma run_unpinned:
  "ok s \<Longrightarrow> list_all (valid s) ps \<Longrightarrow> run_ops step ps s = Some (rs, s') \<Longrightarrow> unpinned s' a \<subseteq> spec_unpinned ps a (unpinned s a)
    \<and> (all_good good (clock s) (clock s') \<longrightarrow> unpinned s' a = spec_unpinned ps a (unpinned s a))"
proof (induction ps arbitrary: s rs)
  case (Cons p ps)
  obtain r s1 where s1: "step p s = Some (r, s1)" "ok s1" "list_all (valid s1) ps" by (rule run_step [OF Cons.prems(1,2)])
  then obtain rs' where run: "run_ops step ps s1 = Some (rs', s')" using Cons.prems(3) by (auto simp: bind_eq_Some_conv)
  have v: "valid s p" using Cons.prems(2) by simp
  note ih = Cons.IH [OF s1(2,3) run]
  have good: "all_good good (clock s) (clock s') \<longleftrightarrow> all_good good (clock s) (clock s1) \<and> all_good good (clock s1) (clock s')"
    by (rule all_good_split [OF clock_step [OF Cons.prems(1) v s1(1)] run_clock [OF s1(2,3) run]])
  have one: "unpinned s1 a \<subseteq> spec_unpinned [p] a (unpinned s a)"
    "all_good good (clock s) (clock s1) \<Longrightarrow> unpinned s1 a = spec_unpinned [p] a (unpinned s a)"
    using step_unpinned [OF Cons.prems(1) v s1(1)] by blast+
  have more: "spec_unpinned (p # ps) a U = spec_unpinned ps a (spec_unpinned [p] a U)" for U by (cases p) simp_all
  show ?case unfolding more using ih one good spec_mono [OF one(1), of ps a] by auto
qed simp

lemma purged_kept:
  "ok s \<Longrightarrow> list_all (valid s) ps \<Longrightarrow> run_ops step ps s = Some (rs, s') \<Longrightarrow> pg \<in> purged_of s a \<Longrightarrow>
    \<not> list_ex (pins_page a pg) ps \<Longrightarrow> all_good good (clock s) (clock s') \<Longrightarrow> pg \<in> purged_of s' a"
proof (induction ps arbitrary: s rs)
  case (Cons p ps)
  obtain r s1 where s1: "step p s = Some (r, s1)" "ok s1" "list_all (valid s1) ps" by (rule run_step [OF Cons.prems(1,2)])
  then obtain rs' where run: "run_ops step ps s1 = Some (rs', s')" using Cons.prems(3) by (auto simp: bind_eq_Some_conv)
  have v: "valid s p" using Cons.prems(2) by simp
  have good: "all_good good (clock s) (clock s1)" "all_good good (clock s1) (clock s')"
    using Cons.prems(6) all_good_split [OF clock_step [OF Cons.prems(1) v s1(1)] run_clock [OF s1(2,3) run]] by simp_all
  have "pg \<in> purged_of s1 a"
  proof (cases p)
    case (Pin b lo hi)
    then show ?thesis using pin_pages_of [of s b lo hi r s1] s1(1) Cons.prems good(1) by (cases "b = a") auto
  next
    case (Unpin b lo hi)
    then show ?thesis using unpin_pages_of [of s b lo hi r s1] s1(1) Cons.prems good(1) by (cases "b = a") auto
  next
    case (Purge n)
    then show ?thesis using purge_pages_of [of s n r s1 a] s1(1) Cons.prems by auto
  qed
  then show ?case using Cons.IH [OF s1(2,3) run] Cons.prems(5) good(2) by simp
qed simp

lemma valid_run: "ok s \<Longrightarrow> list_all (valid s) ps \<Longrightarrow> run_ops step ps s = Some (rs, s') \<Longrightarrow> valid s' q \<longleftrightarrow> valid s q"
proof (induction ps arbitrary: s rs)
  case (Cons p ps)
  obtain r s1 where s1: "step p s = Some (r, s1)" "ok s1" "list_all (valid s1) ps" by (rule run_step [OF Cons.prems(1,2)])
  then obtain rs' where "run_ops step ps s1 = Some (rs', s')" using Cons.prems(3) by (auto simp: bind_eq_Some_conv)
  then show ?case using Cons.IH [OF s1(2,3)] valid_step [OF Cons.prems(1) _ s1(1)] Cons.prems(2) by simp
qed simp

lemma purge_reported:
  assumes "ok s" and "list_all (valid s) (ps @ [Pin a lo hi])" and "pg \<in> purged_of s a" and "lo \<le> pg" and "pg \<le> hi"
    and "\<not> list_ex (pins_page a pg) ps"
  obtains rs s1 r s2 where "run_ops step ps s = Some (rs, s1)" and "step (Pin a lo hi) s1 = Some (r, s2)"
    and "all_good good (clock s) (clock s1) \<longrightarrow> r"
proof -
  have vs: "list_all (valid s) ps" and vp: "valid s (Pin a lo hi)" using assms(2) by simp_all
  obtain rs s1 where s1: "run_ops step ps s = Some (rs, s1)" "ok s1" using run_total [OF assms(1) vs] by blast
  have v1: "valid s1 (Pin a lo hi)" using vp valid_run [OF assms(1) vs s1(1)] by simp
  then obtain r s2 where s2: "step (Pin a lo hi) s1 = Some (r, s2)" using runs [OF s1(2)] by blast
  have "r" if "all_good good (clock s) (clock s1)"
  proof -
    have "pg \<in> purged_of s1 a" by (rule purged_kept [OF assms(1) vs s1(1) assms(3,6) that])
    then show ?thesis using pin_reports [OF s1(2) v1 s2] assms(4,5) by auto
  qed
  then show ?thesis using that s1(1) s2 by blast
qed

end

section \<open>The operations of ashmem\<close>

lemma ashmem_pin_ok:
  assumes "ashmem_ok s" and "areas s a \<noteq> None" and "lo \<le> hi" and "hi < page_limit"
  obtains w s' where "ashmem_pin k a lo hi s = Some (w, s')" and "ashmem_ok s'" and "area_kept a s s'"
    and "w \<longleftrightarrow> purged_pages s a \<inter> {lo..hi} \<noteq> {}"
    and "\<forall>q. page_set q s' a \<subseteq> page_set q s a - {lo..hi}"
    and "(\<forall>q. page_set q s' a = page_set q s a - {lo..hi}) \<or> \<not> cache_alloc_ok k (next_id s) \<and> next_id s < next_id s'"
    and "\<forall>q b. b \<noteq> a \<longrightarrow> page_set q s' b = page_set q s b" and "next_id s \<le> next_id s'"
proof -
  obtain ar where ar: "areas s a = Some ar" using assms(2) by auto
  have mem: "i \<in> set (unpinned_list ar) \<longleftrightarrow> (\<exists>r. ranges s i = Some r \<and> rg_asma r = a)" for i
    using ashmem_okD(1) [OF assms(1) ar] by (simp add: area_ok_def)
  obtain w s' where run: "pin_ranges k a lo hi False (unpinned_list ar) s = Some (w, s')"
    and res: "pin_result s a lo hi (cache_alloc_ok k (next_id s)) (unpinned_list ar) False w s'"
    using pin_ranges_ok [OF assms(1) ar, of "[]" "unpinned_list ar" lo hi k False] assms(3,4) by auto
  have "(\<exists>i\<in>set (unpinned_list ar). \<exists>r. ranges s i = Some r \<and> overlaps r lo hi \<and> purged r)
      \<longleftrightarrow> purged_pages s a \<inter> {lo..hi} \<noteq> {}"
  proof -
    have set: "purged_pages s a = {pg. \<exists>i r. ranges s i = Some r \<and> rg_asma r = a \<and> purged r \<and> pg \<in> pages_of r}"
      by (auto simp: page_set_def holds_page_def pages_as_def split: option.splits if_splits)
    have "(\<exists>i\<in>set (unpinned_list ar). \<exists>r. ranges s i = Some r \<and> P r)
        \<longleftrightarrow> (\<exists>i r. ranges s i = Some r \<and> rg_asma r = a \<and> P r)" for P
      by (metis mem option.inject)
    from this [of "\<lambda>r. overlaps r lo hi \<and> purged r"] show ?thesis
      unfolding set by (simp add: overlaps_def) blast
  qed
  then have "w \<longleftrightarrow> purged_pages s a \<inter> {lo..hi} \<noteq> {}" using res by (simp add: pin_result_def)
  moreover have "ashmem_pin k a lo hi s = Some (w, s')" using run ar by (simp add: ashmem_pin_def)
  ultimately show ?thesis using that res unfolding pin_result_def area_kept_def by metis
qed

text \<open>Seen from user space: a request returns a flag and a state. Allocations are numbered by \<open>next_id\<close>.\<close>

fun ashmem_step :: "ashmem_kernel \<Rightarrow> pin_op \<Rightarrow> ashmem_state \<Rightarrow> (bool \<times> ashmem_state) option" where
  "ashmem_step k (Pin a lo hi) s = ashmem_pin k a lo hi s"
| "ashmem_step k (Unpin a lo hi) s = map_option (map_prod (\<lambda>e. e = 0) id) (ashmem_unpin k a lo hi s)"
| "ashmem_step k (Purge n) s = map_option (map_prod (\<lambda>_. True) id) (ashmem_shrink_scan True n s)"

fun request_ok :: "ashmem_state \<Rightarrow> pin_op \<Rightarrow> bool" where
  "request_ok s (Pin a lo hi) \<longleftrightarrow> areas s a \<noteq> None \<and> lo \<le> hi \<and> hi < page_limit"
| "request_ok s (Unpin a lo hi) \<longleftrightarrow> areas s a \<noteq> None \<and> lo \<le> hi \<and> hi < page_limit"
| "request_ok s (Purge n) \<longleftrightarrow> 1 \<le> n \<and> n < 2 ^ 64"

lemma request_ok_cong: "(\<And>a. areas s' a = None \<longleftrightarrow> areas s a = None) \<Longrightarrow> request_ok s' p \<longleftrightarrow> request_ok s p"
  by (cases p) auto

lemma area_kept_dom: "area_kept a s s' \<Longrightarrow> areas s' b = None \<longleftrightarrow> areas s b = None"
  by (auto simp: area_kept_def split: if_splits)

lemma shrink_next_id: "shrink_ranges il nr freed s = Some (f, s') \<Longrightarrow> next_id s' = next_id s"
proof (induction il arbitrary: nr freed s)
  case (Cons i il)
  obtain r a where ra: "ranges s i = Some r" "areas s (rg_asma r) = Some a" using Cons.prems by (auto simp: bind_eq_Some_conv)
  let ?s1 = "s\<lparr>holes := (as_file a, pgstart r * PAGE_SIZE mod 2 ^ 64, sub64 ((pgend r + 1) * PAGE_SIZE mod 2 ^ 64)
      (pgstart r * PAGE_SIZE mod 2 ^ 64)) # holes s, ranges := (ranges s)(i \<mapsto> r\<lparr>purged := True\<rparr>)\<rparr>"
  obtain s2 where s2: "lru_del i ?s1 = Some s2" by (simp add: lru_del_def)
  then have id: "next_id s2 = next_id s" by (auto simp: lru_del_def)
  have "(if sub64 nr 1 = 0 then Some (add64 freed (range_size r), s2)
      else shrink_ranges il (sub64 nr 1) (add64 freed (range_size r)) s2) = Some (f, s')"
    using Cons.prems ra s2 by (simp add: Let_def)
  then show ?case using Cons.IH [of "sub64 nr 1" _ s2] id by (simp split: if_split_asm)
qed simp

text \<open>Each operation, with what it leaves behind.\<close>

lemma ashmem_step_cases:
  assumes "ashmem_ok s" and "request_ok s p"
  obtains r s' where "ashmem_step k p s = Some (r, s')" and "ashmem_ok s'"
    and "\<And>q. request_ok s' q \<longleftrightarrow> request_ok s q" and "next_id s \<le> next_id s'"
    and "case p of
        Pin a lo hi \<Rightarrow> (r \<longleftrightarrow> purged_pages s a \<inter> {lo..hi} \<noteq> {}) \<and> unpinned_pages s' a \<subseteq> unpinned_pages s a - {lo..hi}
          \<and> (all_good (cache_alloc_ok k) (next_id s) (next_id s') \<longrightarrow> (\<forall>q. page_set q s' a = page_set q s a - {lo..hi}))
          \<and> (\<forall>b q. b \<noteq> a \<longrightarrow> page_set q s' b = page_set q s b)
      | Unpin a lo hi \<Rightarrow> unpinned_pages s' a \<subseteq> unpinned_pages s a \<union> {lo..hi}
          \<and> (all_good (cache_alloc_ok k) (next_id s) (next_id s') \<longrightarrow>
               unpinned_pages s' a = unpinned_pages s a \<union> {lo..hi} \<and> purged_pages s a \<subseteq> purged_pages s' a)
          \<and> (\<forall>b q. b \<noteq> a \<longrightarrow> page_set q s' b = page_set q s b)
      | Purge n \<Rightarrow> \<forall>b. unpinned_pages s' b = unpinned_pages s b \<and> purged_pages s b \<subseteq> purged_pages s' b"
proof (cases p)
  case (Pin a lo hi)
  then have ins: "areas s a \<noteq> None" "lo \<le> hi" "hi < page_limit" using assms(2) by simp_all
  obtain w s' where s': "ashmem_pin k a lo hi s = Some (w, s')" "ashmem_ok s'" "area_kept a s s'"
    "w \<longleftrightarrow> purged_pages s a \<inter> {lo..hi} \<noteq> {}" "\<forall>q. page_set q s' a \<subseteq> page_set q s a - {lo..hi}"
    "(\<forall>q. page_set q s' a = page_set q s a - {lo..hi}) \<or> \<not> cache_alloc_ok k (next_id s) \<and> next_id s < next_id s'"
    "\<forall>q b. b \<noteq> a \<longrightarrow> page_set q s' b = page_set q s b" "next_id s \<le> next_id s'"
    by (rule ashmem_pin_ok [OF assms(1) ins, of k]) blast
  have "all_good (cache_alloc_ok k) (next_id s) (next_id s') \<longrightarrow> (\<forall>q. page_set q s' a = page_set q s a - {lo..hi})"
    using s'(6) by (auto simp: all_good_def)
  then show ?thesis using that [OF _ s'(2), of w] Pin request_ok_cong [OF area_kept_dom [OF s'(3)]] s'(1,4,5,7,8) by simp
next
  case (Unpin a lo hi)
  then obtain ar where "areas s a = Some ar" "lo \<le> hi" "hi < page_limit" using assms(2) by auto
  from unpin_loop_ok [OF assms(1) this, of k False]
  obtain e s' where run: "unpin_loop k a lo hi False s = Some (e, s')"
    and res: "unpin_result s a lo hi False (cache_alloc_ok k (next_id s)) e s'" by blast
  have kept: "area_kept a s s'" and ok: "ashmem_ok s'" and rest: "\<forall>b q. b \<noteq> a \<longrightarrow> page_set q s' b = page_set q s b" "next_id s \<le> next_id s'"
    using res unfolding unpin_result_def by simp_all
  have "unpinned_pages s' a \<subseteq> unpinned_pages s a \<union> {lo..hi}" using res unfolding unpin_result_def by blast
  moreover have "unpinned_pages s' a = unpinned_pages s a \<union> {lo..hi} \<and> purged_pages s a \<subseteq> purged_pages s' a"
    if "all_good (cache_alloc_ok k) (next_id s) (next_id s')"
    using res that unfolding unpin_result_def all_good_def by blast
  ultimately show ?thesis
    using that [OF _ ok, of "e = 0"] Unpin request_ok_cong [OF area_kept_dom [OF kept]] run rest by (simp add: ashmem_unpin_def)
next
  case (Purge n)
  then have n: "1 \<le> n" "n < 2 ^ 64" using assms(2) by simp_all
  obtain s' f where run: "shrink_ranges (ashmem_lru_list s) n 0 s = Some (f, s')"
    and res: "shrink_result s (take n (ashmem_lru_list s)) (drop n (ashmem_lru_list s)) s'"
    using shrink_ranges_ok [OF assms(1) refl n, of 0] by auto
  have m: "ranges s' = mark_purged (set (take n (ashmem_lru_list s))) (ranges s)" "areas s' = areas s" "ashmem_ok s'"
    using res by (simp_all add: shrink_result_def)
  have "request_ok s' q \<longleftrightarrow> request_ok s q" for q by (rule request_ok_cong) (simp add: m(2))
  then show ?thesis
    using that [OF _ m(3), of True] Purge run page_set_marked [OF m(1)] shrink_next_id [OF run] by (simp add: ashmem_shrink_scan_def)
qed

interpretation ash: purge_memory ashmem_ok request_ok "ashmem_step k" unpinned_pages purged_pages next_id "cache_alloc_ok k" for k
proof
  fix s p assume s: "ashmem_ok s" "request_ok s p"
  obtain r s' where s': "ashmem_step k p s = Some (r, s')" "ashmem_ok s'"
    "\<And>q. request_ok s' q \<longleftrightarrow> request_ok s q" "next_id s \<le> next_id s'"
    by (rule ashmem_step_cases [OF s, of k]) blast
  then show "\<exists>r s'. ashmem_step k p s = Some (r, s') \<and> ashmem_ok s'" by blast
  show "request_ok s'' q \<longleftrightarrow> request_ok s q" if "ashmem_step k p s = Some (r', s'')" for r' s'' q
    using s' that by simp
  show "next_id s \<le> next_id s''" if "ashmem_step k p s = Some (r', s'')" for r' s'' using s' that by simp
next
  fix s a lo hi r s' assume s: "ashmem_ok s" "request_ok s (Pin a lo hi)" "ashmem_step k (Pin a lo hi) s = Some (r, s')"
  show "r \<longleftrightarrow> purged_pages s a \<inter> {lo..hi} \<noteq> {}"
    by (rule ashmem_step_cases [OF s(1,2), of k]) (use s(3) in simp)
  show "unpinned_pages s' a \<subseteq> unpinned_pages s a - {lo..hi}
      \<and> (all_good (cache_alloc_ok k) (next_id s) (next_id s') \<longrightarrow>
           unpinned_pages s' a = unpinned_pages s a - {lo..hi} \<and> purged_pages s' a = purged_pages s a - {lo..hi})
      \<and> (\<forall>b. b \<noteq> a \<longrightarrow> unpinned_pages s' b = unpinned_pages s b \<and> purged_pages s' b = purged_pages s b)"
    by (rule ashmem_step_cases [OF s(1,2), of k]) (use s(3) in simp)
next
  fix s a lo hi r s' assume s: "ashmem_ok s" "request_ok s (Unpin a lo hi)" "ashmem_step k (Unpin a lo hi) s = Some (r, s')"
  show "unpinned_pages s' a \<subseteq> unpinned_pages s a \<union> {lo..hi}
      \<and> (all_good (cache_alloc_ok k) (next_id s) (next_id s') \<longrightarrow>
           unpinned_pages s' a = unpinned_pages s a \<union> {lo..hi} \<and> purged_pages s a \<subseteq> purged_pages s' a)
      \<and> (\<forall>b. b \<noteq> a \<longrightarrow> unpinned_pages s' b = unpinned_pages s b \<and> purged_pages s' b = purged_pages s b)"
    by (rule ashmem_step_cases [OF s(1,2), of k]) (use s(3) in force)
next
  fix s n r s' b assume s: "ashmem_ok s" "request_ok s (Purge n)" "ashmem_step k (Purge n) s = Some (r, s')"
  show "unpinned_pages s' b = unpinned_pages s b \<and> purged_pages s b \<subseteq> purged_pages s' b"
    by (rule ashmem_step_cases [OF s(1,2), of k]) (use s(3) in force)
qed

section \<open>Requests from user space\<close>

lemma ashmem_pin_unpin_ok:
  assumes "ashmem_ok s" and "areas s a = Some ar"
    and "\<And>offset len. get_user32 um p = Some offset \<Longrightarrow> get_user32 um (p + 4) = Some len \<Longrightarrow>
      pin_length (as_size ar) offset len \<noteq> 0"
  shows "\<exists>ret s'. ashmem_pin_unpin k a cmd um p s = Some (ret, s') \<and> ashmem_ok s'
    \<and> (\<forall>b. areas s' b = None \<longleftrightarrow> areas s b = None)"
proof (cases "as_file ar = None \<or> get_user32 um p = None \<or> get_user32 um (p + 4) = None")
  case True
  then show ?thesis using assms(1,2) by (auto simp: ashmem_pin_unpin_def split: option.split)
next
  case False
  then obtain off len where ol: "get_user32 um p = Some off" "get_user32 um (p + 4) = Some len" and f: "as_file ar \<noteq> None" by auto
  show ?thesis
  proof (cases "pin_pages (as_size ar) off len")
    case None
    then show ?thesis using assms(1,2) ol f by (auto simp: ashmem_pin_unpin_def)
  next
    case (Some pr)
    then obtain lo hi where pp: "pin_pages (as_size ar) off len = Some (lo, hi)" by (cases pr) auto
    note b = pin_pages_bounds(3,4) [OF pp assms(3) [OF ol]]
    have ex: "areas s a \<noteq> None" using assms(2) by simp
    have pin: "\<exists>w s'. ashmem_pin k a lo hi s = Some (w, s') \<and> ashmem_ok s' \<and> (\<forall>b. areas s' b = None \<longleftrightarrow> areas s b = None)"
      by (rule ashmem_pin_ok [OF assms(1) ex b, of k]) (use area_kept_dom in blast)
    have unpin: "\<exists>e s'. ashmem_unpin k a lo hi s = Some (e, s') \<and> ashmem_ok s' \<and> (\<forall>b. areas s' b = None \<longleftrightarrow> areas s b = None)"
      using unpin_loop_ok [OF assms(1,2) b, of k False] area_kept_dom unfolding ashmem_unpin_def unpin_result_def by blast
    have "descending (ranges s) (unpinned_list ar)" using ashmem_okD(1) [OF assms(1,2)] by (simp add: area_ok_def)
    then have status: "\<exists>w. ashmem_get_pin_status a lo hi s = Some w"
      using pin_status_ok b(1) assms(2) by (auto simp: ashmem_get_pin_status_def)
    show ?thesis using pin unpin status assms(1,2) ol f pp by (auto simp: ashmem_pin_unpin_def)
  qed
qed

section \<open>Protection bits\<close>

lemma and_bit_iff:
  fixes x :: u64
  shows "x AND 1 \<noteq> 0 \<longleftrightarrow> bit x 0" "x AND 2 \<noteq> 0 \<longleftrightarrow> bit x 1" "x AND 4 \<noteq> 0 \<longleftrightarrow> bit x 2"
  using and_exp_eq_0_iff_not_bit [of x 0] and_exp_eq_0_iff_not_bit [of x 1] and_exp_eq_0_iff_not_bit [of x 2] by simp_all

lemma bit_prot_bits: "i \<in> {0, 1, 2} \<Longrightarrow> bit (calc_vm_prot_bits x) i \<longleftrightarrow> bit x i"
  by (auto simp: calc_vm_prot_bits_def calc_vm_trans_def and_bit_iff bit_or_iff bit_numeral_rec bit_1_iff)

lemma bit_may_flags: "i \<in> {0, 1, 2} \<Longrightarrow> bit (calc_vm_may_flags x) (i + 4) \<longleftrightarrow> bit x i"
  by (auto simp: calc_vm_may_flags_def calc_vm_trans_def and_bit_iff bit_or_iff bit_numeral_rec bit_1_iff)

lemma mask_cuts:
  assumes "(flags AND NOT (calc_vm_prot_bits m)) AND calc_vm_prot_bits PROT_MASK = 0" and "i \<in> {0, 1, 2}" and "\<not> bit m i"
  shows "\<not> bit flags i \<and> \<not> bit (flags AND NOT (calc_vm_may_flags (NOT m))) i
    \<and> \<not> bit (flags AND NOT (calc_vm_may_flags (NOT m))) (i + 4)"
proof -
  have len: "i + 4 < LENGTH(64)" "i < LENGTH(64)" using assms(2) by auto
  have "bit (PROT_MASK :: u64) i" using assms(2) by (auto simp: bit_numeral_rec)
  then have "\<not> bit flags i"
    using arg_cong [OF assms(1), of "\<lambda>w. bit w i"] bit_prot_bits [OF assms(2)] assms(3) len
    by (simp add: bit_and_iff bit_not_iff)
  then show ?thesis
    using bit_may_flags [OF assms(2), of "NOT m"] assms(3) len by (simp add: bit_and_iff bit_not_iff)
qed

lemma shared_kept: "(flags AND NOT (calc_vm_may_flags m)) AND VM_SHARED \<noteq> 0 \<longleftrightarrow> bit flags 3"
proof -
  have "\<not> bit (calc_vm_may_flags m) 3"
    by (auto simp: calc_vm_may_flags_def calc_vm_trans_def bit_or_iff bit_numeral_rec)
  then show ?thesis
    using and_exp_eq_0_iff_not_bit [of "flags AND NOT (calc_vm_may_flags m)" 3] by (simp add: bit_and_iff bit_not_iff)
qed

lemma mmap_file_facts:
  assumes "mmap_file k flags vm f s = (ret, flags', vm', s')"
  shows "flags' = flags" and "ashmem_ok s' \<longleftrightarrow> ashmem_ok s" and "areas s' = areas s"
    and "ret = 0 \<Longrightarrow> vm' = Some f \<and> (vm = None \<and> flags AND VM_SHARED = 0 \<longrightarrow> f_count s' f = f_count s f + 1)"
    and "ret \<noteq> 0 \<Longrightarrow> f_count s' g = f_count s g"
  using assms by (auto simp: mmap_file_def Let_def split: if_splits prod.splits)

section \<open>A concrete area\<close>

text \<open>An area of sixteen pages; pages 2 to 5 and 9 are unpinned, and 9 has been purged.\<close>

definition some_area :: ashmem_area where
  "some_area = new_area\<lparr>unpinned_list := [2, 1], as_file := Some 7, as_size := 65536\<rparr>"

definition some_areas :: ashmem_state where
  "some_areas = \<lparr>areas = [0 \<mapsto> some_area],
     ranges = [1 \<mapsto> \<lparr>rg_asma = 0, pgstart = 2, pgend = 5, purged = False\<rparr>,
               2 \<mapsto> \<lparr>rg_asma = 0, pgstart = 9, pgend = 9, purged = True\<rparr>],
     ashmem_lru_list = [1], lru_count = 4, next_id = 3, f_pos = (\<lambda>_. 0), f_count = (\<lambda>_. 1), holes = []\<rparr>"

definition some_ashmem_kernel :: ashmem_kernel where
  "some_ashmem_kernel = \<lparr>cache_alloc_ok = \<lambda>_. True, generic_file_open = \<lambda>_. 0, vfs_read = \<lambda>f n p. (0, p),
     vfs_llseek = \<lambda>f p w. (p, p), shmem_file_setup = \<lambda>nm n fl. Inr 7, shmem_zero_setup = \<lambda>v. (0, Some 8),
     read_implies_exec = False, capable_sys_admin = True\<rparr>"

lemma some_areas_ok: "ashmem_ok some_areas"
proof -
  have "lru_ok some_areas"
    by (auto simp: lru_ok_def some_areas_def total_size_def range_size_def sub64_def add64_def split: if_splits)
  moreover have "area_ok (ranges some_areas) 0 some_area"
    by (auto simp: area_ok_def some_areas_def some_area_def new_area_def descending_def range_ok_def ASHMEM_NAME_PREFIX_def
        ascii_def split: if_splits)
  ultimately show ?thesis by (auto simp: ashmem_ok_def range_ok_def some_areas_def split: if_splits)
qed

lemma some_areas_pages:
  "unpinned_pages some_areas 0 = {2..5} \<union> {9..9}" "purged_pages some_areas 0 = {9..9}"
proof -
  have "holds_page q (ranges some_areas i) 0 pg \<longleftrightarrow> i = 1 \<and> \<not> q \<and> pg \<in> {2..5} \<or> i = 2 \<and> pg \<in> {9..9}" for q i pg
    by (simp add: some_areas_def pages_as_def pages_of_def)
  then show "unpinned_pages some_areas 0 = {2..5} \<union> {9..9}" "purged_pages some_areas 0 = {9..9}"
    by (auto simp: page_set_def)
qed

lemma some_areas_simps [simp]: "areas some_areas 0 = Some some_area" "ashmem_lru_list some_areas = [1]" "lru_count some_areas = 4"
  by (simp_all add: some_areas_def)

lemma some_ashmem_kernel_simps [simp]: "cache_alloc_ok some_ashmem_kernel i" "capable_sys_admin some_ashmem_kernel"
  by (simp_all add: some_ashmem_kernel_def)

section \<open>Properties\<close>

text \<open>
  Pinning pages of an area never faults and keeps the invariant. It returns \<open>ASHMEM_WAS_PURGED\<close> exactly when a
  page of the request has been purged, and takes the pages off the unpinned ones; when a range has to be split
  and there is no memory for its upper part, more pages than asked are pinned. Other areas are left alone.
\<close>

theorem ashmem_pin_correct:
  assumes "ashmem_ok s" and "areas s a \<noteq> None" and "lo \<le> hi" and "hi < page_limit"
  shows "\<exists>w s'. ashmem_pin k a lo hi s = Some (w, s') \<and> ashmem_ok s'
    \<and> (w \<longleftrightarrow> purged_pages s a \<inter> {lo..hi} \<noteq> {})
    \<and> unpinned_pages s' a \<subseteq> unpinned_pages s a - {lo..hi}
    \<and> (cache_alloc_ok k (next_id s) \<longrightarrow> unpinned_pages s' a = unpinned_pages s a - {lo..hi}
         \<and> purged_pages s' a = purged_pages s a - {lo..hi})
    \<and> (\<forall>b. b \<noteq> a \<longrightarrow> unpinned_pages s' b = unpinned_pages s b \<and> purged_pages s' b = purged_pages s b)"
  by (rule ashmem_pin_ok [OF assms, of k]) auto

theorem ashmem_pin_correct_witness:
  "\<exists>s'. ashmem_pin some_ashmem_kernel 0 3 9 some_areas = Some (True, s') \<and> unpinned_pages s' 0 = {2..2}"
proof -
  have "{2..5} \<union> {9..9} - {3..9} = {2..2 :: nat}" by auto
  then show ?thesis
    using ashmem_pin_correct [OF some_areas_ok, of 0 3 9 some_ashmem_kernel]
    by (simp add: some_areas_pages) auto
qed

text \<open>
  Unpinning terminates, although its scan starts again after every range it merges away. It keeps the
  invariant and adds the pages to the unpinned ones; pages that had been purged still count as purged. It fails
  only when there is no memory for the new range, and then no further page is unpinned.
\<close>

theorem ashmem_unpin_correct:
  assumes "ashmem_ok s" and "areas s a \<noteq> None" and "lo \<le> hi" and "hi < page_limit"
  shows "\<exists>e s'. ashmem_unpin k a lo hi s = Some (e, s') \<and> ashmem_ok s'
    \<and> (e = 0 \<and> unpinned_pages s' a = unpinned_pages s a \<union> {lo..hi} \<and> purged_pages s a \<subseteq> purged_pages s' a
       \<or> e = - ENOMEM \<and> \<not> cache_alloc_ok k (next_id s) \<and> unpinned_pages s' a \<subseteq> unpinned_pages s a)
    \<and> (\<forall>b. b \<noteq> a \<longrightarrow> unpinned_pages s' b = unpinned_pages s b \<and> purged_pages s' b = purged_pages s b)"
proof -
  obtain ar where "areas s a = Some ar" using assms(2) by auto
  from unpin_loop_ok [OF assms(1) this assms(3,4), of k False] show ?thesis
    unfolding ashmem_unpin_def unpin_result_def by blast
qed

theorem ashmem_unpin_correct_witness:
  "\<exists>s'. ashmem_unpin some_ashmem_kernel 0 4 8 some_areas = Some (0, s') \<and> unpinned_pages s' 0 = {2..9}"
proof -
  have "{2..5} \<union> {9..9} \<union> {4..8} = {2..9 :: nat}" by auto
  then show ?thesis
    using ashmem_unpin_correct [OF some_areas_ok, of 0 4 8 some_ashmem_kernel]
    by (simp add: some_areas_pages) auto
qed

text \<open>
  \<open>ASHMEM_GET_PIN_STATUS\<close>: the loop stops early, and still answers \<open>ASHMEM_IS_PINNED\<close> exactly when none of the pages is unpinned.
\<close>

theorem ashmem_get_pin_status_correct:
  assumes "ashmem_ok s" and "areas s a \<noteq> None" and "lo \<le> hi"
  shows "ashmem_get_pin_status a lo hi s = Some (unpinned_pages s a \<inter> {lo..hi} = {})"
proof -
  obtain ar where ar: "areas s a = Some ar" using assms(2) by auto
  then have "descending (ranges s) (unpinned_list ar)" using ashmem_okD(1) [OF assms(1)] by (simp add: area_ok_def)
  then show ?thesis
    using ar pin_status_ok assms(3) not_unpinned_iff [OF assms(1) ar] by (simp add: ashmem_get_pin_status_def)
qed

theorem ashmem_get_pin_status_correct_witness: "ashmem_get_pin_status 0 6 8 some_areas = Some True"
proof -
  have "({2..5} \<union> {9..9}) \<inter> {6..8} = ({} :: nat set)" by auto
  then show ?thesis
    using ashmem_get_pin_status_correct [OF some_areas_ok, of 0 6 8] by (simp add: some_areas_pages)
qed

text \<open>
  C38. Sequences of pins, unpins and purges run without a fault, whatever allocations fail on the way, and act on the unpinned pages
  of every area as set difference and union: a page that is pinned by the sets is never left to the shrinker, and when no range
  allocation has failed during the sequence the unpinned pages are exactly those of the sets.
\<close>

theorem ashmem_refines_page_sets:
  assumes "ashmem_ok s" and "list_all (request_ok s) ps"
  shows "\<exists>rs s'. run_ops (ashmem_step k) ps s = Some (rs, s') \<and> ashmem_ok s'
    \<and> (\<forall>a. unpinned_pages s' a \<subseteq> spec_unpinned ps a (unpinned_pages s a))
    \<and> ((\<forall>i. next_id s \<le> i \<and> i < next_id s' \<longrightarrow> cache_alloc_ok k i) \<longrightarrow>
         (\<forall>a. unpinned_pages s' a = spec_unpinned ps a (unpinned_pages s a)))"
  using ash.run_total [OF assms, of k] ash.run_unpinned [OF assms] unfolding all_good_def by metis

text \<open>Once with memory, and once without: then the unpin is refused, and the pages above the hole are pinned too.\<close>

definition poor_ashmem_kernel :: ashmem_kernel where
  "poor_ashmem_kernel = some_ashmem_kernel\<lparr>cache_alloc_ok := \<lambda>_. False\<rparr>"

theorem ashmem_refines_page_sets_witness:
  "(\<exists>rs s'. run_ops (ashmem_step some_ashmem_kernel) [Unpin 0 4 8, Purge 1, Pin 0 3 3] some_areas = Some (rs, s')
      \<and> unpinned_pages s' 0 = {2..5} \<union> {9..9} \<union> {4..8} - {3..3})
   \<and> (\<exists>rs s'. run_ops (ashmem_step poor_ashmem_kernel) [Pin 0 3 3, Unpin 0 12 12] some_areas = Some (rs, s') \<and> 3 \<notin> unpinned_pages s' 0)"
proof
  let ?ps = "[Unpin 0 4 8, Purge 1, Pin 0 3 3]" and ?qs = "[Pin 0 3 3, Unpin 0 12 12]"
  have "list_all (request_ok some_areas) ?ps" by simp
  from ashmem_refines_page_sets [OF some_areas_ok this, of some_ashmem_kernel]
  obtain rs s' where "run_ops (ashmem_step some_ashmem_kernel) ?ps some_areas = Some (rs, s')"
    and "unpinned_pages s' 0 = spec_unpinned ?ps 0 (unpinned_pages some_areas 0)" by auto
  then show "\<exists>rs s'. run_ops (ashmem_step some_ashmem_kernel) ?ps some_areas = Some (rs, s')
      \<and> unpinned_pages s' 0 = {2..5} \<union> {9..9} \<union> {4..8} - {3..3}" by (intro exI conjI) (assumption, simp add: some_areas_pages)
  have "list_all (request_ok some_areas) ?qs" by simp
  from ashmem_refines_page_sets [OF some_areas_ok this, of poor_ashmem_kernel]
  obtain rs s' where "run_ops (ashmem_step poor_ashmem_kernel) ?qs some_areas = Some (rs, s')"
    and "unpinned_pages s' 0 \<subseteq> spec_unpinned ?qs 0 (unpinned_pages some_areas 0)" by blast
  then show "\<exists>rs s'. run_ops (ashmem_step poor_ashmem_kernel) ?qs some_areas = Some (rs, s') \<and> 3 \<notin> unpinned_pages s' 0"
    by (intro exI conjI) (assumption, auto simp: some_areas_pages)
qed

text \<open>
  C39. No purge is forgotten while there is memory: when a page has been purged, then whatever pins of other pages, unpins and purges
  follow, the first pin that covers the page reports it, unless the allocation of a range failed in between.
\<close>

theorem purge_never_forgotten:
  assumes "ashmem_ok s" and "list_all (request_ok s) (ps @ [Pin a lo hi])"
    and "pg \<in> purged_pages s a" and "lo \<le> pg" and "pg \<le> hi" and "\<not> list_ex (pins_page a pg) ps"
  shows "\<exists>rs s1 w s2. run_ops (ashmem_step k) ps s = Some (rs, s1) \<and> ashmem_pin k a lo hi s1 = Some (w, s2)
    \<and> (w \<or> (\<exists>i. next_id s \<le> i \<and> i < next_id s1 \<and> \<not> cache_alloc_ok k i))"
  by (rule ash.purge_reported [OF assms, of k]) (auto simp: all_good_def)

theorem purge_never_forgotten_witness:
  "\<exists>rs s1 s2. run_ops (ashmem_step some_ashmem_kernel) [Unpin 0 4 12, Pin 0 2 5] some_areas = Some (rs, s1)
     \<and> ashmem_pin some_ashmem_kernel 0 8 9 s1 = Some (True, s2)"
proof -
  have "\<exists>rs s1 w s2. run_ops (ashmem_step some_ashmem_kernel) [Unpin 0 4 12, Pin 0 2 5] some_areas = Some (rs, s1)
     \<and> ashmem_pin some_ashmem_kernel 0 8 9 s1 = Some (w, s2)
     \<and> (w \<or> (\<exists>i. next_id some_areas \<le> i \<and> i < next_id s1 \<and> \<not> cache_alloc_ok some_ashmem_kernel i))"
    by (rule purge_never_forgotten [OF some_areas_ok, where pg = 9]) (simp_all add: some_areas_pages)
  then show ?thesis by auto
qed

text \<open>
  \<open>ASHMEM_PURGE_ALL_CACHES\<close> returns the number of pages that can be purged and purges them all: the LRU list ends
  empty, the count is zero, every unpinned page of every area counts as purged, and each range has been punched
  out of its file once, in the order of the list.
\<close>

theorem ashmem_purge_all:
  assumes "ashmem_ok s" and "areas s a \<noteq> None" and "capable_sys_admin k" and "length (ashmem_lru_list s) < 2 ^ 63"
  shows "\<exists>s'. ashmem_ioctl k a ASHMEM_PURGE_ALL_CACHES arg um s
      = Some (sint (word_of_nat (total_size (ranges s) (ashmem_lru_list s)) :: u64), um, s')
    \<and> ashmem_ok s' \<and> ashmem_lru_list s' = [] \<and> ashmem_shrink_count s' = 0
    \<and> (\<forall>b. unpinned_pages s' b = unpinned_pages s b \<and> purged_pages s' b = unpinned_pages s b)
    \<and> holes s' = rev (map (hole_of s) (ashmem_lru_list s)) @ holes s"
proof -
  let ?l = "ashmem_lru_list s" and ?n = "2 ^ 63 - 1 :: nat"
  have n: "1 \<le> ?n" "?n < 2 ^ 64" "take ?n ?l = ?l" "drop ?n ?l = []" using assms(4) by simp_all
  obtain f s' where run: "shrink_ranges ?l ?n 0 s = Some (f, s')" and res: "shrink_result s ?l [] s'"
    using shrink_ranges_ok [OF assms(1) refl n(1,2), of 0] unfolding n(3,4) by auto
  have ok: "ashmem_ok s'" and m: "ranges s' = mark_purged (set ?l) (ranges s)" and l: "ashmem_lru_list s' = []"
    using res by (simp_all add: shrink_result_def)
  have "lru_count s = total_size (ranges s) ?l mod 2 ^ 64" "\<And>i r. ranges s i = Some r \<Longrightarrow> \<not> purged r \<Longrightarrow> i \<in> set ?l"
    using ashmem_okD(3) [OF assms(1)] by (auto simp: lru_ok_def)
  moreover have "lru_count s' = 0" using ashmem_okD(3) [OF ok] l by (simp add: lru_ok_def total_size_def)
  moreover have "holds_page True (ranges s' i) b pg = holds_page False (ranges s i) b pg" for i b pg
    using calculation(2) [of i] by (cases "ranges s i") (auto simp: m mark_purged_def pages_as_def pages_of_def)
  then have "purged_pages s' b = unpinned_pages s b" for b by (simp add: page_set_def)
  moreover have "word_of_nat (x mod 2 ^ 64) = (word_of_nat x :: u64)" for x
    using word_of_nat_eq_iff [of "x mod 2 ^ 64" x, where ?'a = 64] by (simp add: take_bit_eq_mod)
  moreover obtain ar where "areas s a = Some ar" using assms(2) by auto
  moreover have "holes s' = rev (map (hole_of s) ?l) @ holes s" using res by (simp add: shrink_result_def)
  ultimately show ?thesis
    using run ok l assms(3) page_set_marked(1) [OF m]
    by (simp add: ashmem_ioctl_def ashmem_shrink_count_def ashmem_shrink_scan_def ashmem_codes)
qed

theorem ashmem_purge_all_witness:
  "\<exists>s'. ashmem_ioctl some_ashmem_kernel 0 ASHMEM_PURGE_ALL_CACHES 0 \<lparr>u_bytes = \<lambda>_. None, u_writable = \<lambda>_. False\<rparr> some_areas
      = Some (4, \<lparr>u_bytes = \<lambda>_. None, u_writable = \<lambda>_. False\<rparr>, s') \<and> purged_pages s' 0 = {2..5} \<union> {9..9}"
proof -
  have "total_size (ranges some_areas) [1] = 4"
    by (simp add: total_size_def some_areas_def range_size_def sub64_def add64_def)
  then show ?thesis
    using ashmem_purge_all [OF some_areas_ok, of 0 some_ashmem_kernel 0 "\<lparr>u_bytes = \<lambda>_. None, u_writable = \<lambda>_. False\<rparr>"]
    by (auto simp: some_areas_pages)
qed

text \<open>
  C40. Every \<open>ioctl\<close> on an open area returns, without a fault or an overrun of a name buffer, and keeps the invariant, for
  every command, argument and state of memory; the one exception is a pin, unpin or pin status request whose length in use is zero.
\<close>

theorem ashmem_ioctl_safe:
  assumes "ashmem_ok s" and "areas s a = Some ar"
    and "\<And>offset len. cmd = ASHMEM_PIN \<or> cmd = ASHMEM_UNPIN \<or> cmd = ASHMEM_GET_PIN_STATUS \<Longrightarrow>
      get_user32 um arg = Some offset \<Longrightarrow> get_user32 um (arg + 4) = Some len \<Longrightarrow> pin_length (as_size ar) offset len \<noteq> 0"
  shows "\<exists>ret um' s'. ashmem_ioctl k a cmd arg um s = Some (ret, um', s') \<and> ashmem_ok s'
    \<and> (\<forall>b. areas s' b = None \<longleftrightarrow> areas s b = None)"
proof -
  note nm = area_name_ok [OF assms(1,2)]
  let ?good = "\<lambda>s'. ashmem_ok s' \<and> (\<forall>b. areas s' b = None \<longleftrightarrow> areas s b = None)"
  have upd: "?good (s\<lparr>areas := (areas s)(a \<mapsto> x)\<rparr>)" if "unpinned_list x = unpinned_list ar" "as_name x = as_name ar" for x
    using area_update_ok [OF assms(1,2), of x] that nm assms(2) by simp
  have name: "\<exists>ret s'. set_name a um arg s = Some (ret, s') \<and> ?good s'"
    by (rule set_name_ok [OF assms(1,2), of um arg]) (use assms(1,2) in auto)
  have prot: "\<exists>ret s'. set_prot_mask k a arg s = Some (ret, s') \<and> ?good s'"
    using assms(1,2) upd by (auto simp: set_prot_mask_def Let_def)
  have pins: "\<exists>ret s'. ashmem_pin_unpin k a cmd um arg s = Some (ret, s') \<and> ?good s'"
    if "cmd = ASHMEM_PIN \<or> cmd = ASHMEM_UNPIN \<or> cmd = ASHMEM_GET_PIN_STATUS"
    by (rule ashmem_pin_unpin_ok [OF assms(1,2) assms(3) [OF that]])
  have purge: "\<exists>f s'. ashmem_shrink_scan True (2 ^ 63 - 1) s = Some (f, s') \<and> ?good s'"
    using shrink_ranges_ok [OF assms(1) refl, of "2 ^ 63 - 1" 0] by (auto simp: ashmem_shrink_scan_def shrink_result_def)
  define Q where "Q x \<longleftrightarrow> (\<exists>ret um' s'. x = Some (ret :: int, um' :: user_space, s') \<and> ?good s')" for x
  have ifQ: "Q (if c then x else y)" if "c \<Longrightarrow> Q x" "\<not> c \<Longrightarrow> Q y" for c x y using that by simp
  have some: "Q (Some (ret, um', s))" for ret um' using assms(1) by (simp add: Q_def)
  have one: "Q (do { (ret, s1) \<leftarrow> x; Some (f ret, um, s1) })" if "\<exists>ret s'. x = Some (ret, s') \<and> ?good s'"
    for x :: "(int \<times> ashmem_state) option" and f using that by (auto simp: Q_def)
  have get: "Q (do { (ret, um1) \<leftarrow> get_name a um arg s; Some (ret, um1, s) })"
    using some get_name_ok [OF assms(1,2), of um arg] by (simp split: option.split)
  have scan: "Q (do { (_, s1) \<leftarrow> ashmem_shrink_scan True (2 ^ 63 - 1) s; Some (ret, um, s1) })" for ret
    using purge by (auto simp: Q_def)
  have sz: "Q (Some (if c then (0, um, s\<lparr>areas := (areas s)(a \<mapsto> ar\<lparr>as_size := n\<rparr>)\<rparr>) else (ret, um, s)))" for c n ret
    using upd [of "ar\<lparr>as_size := n\<rparr>"] some by (simp add: Q_def)
  have "Q (ashmem_ioctl k a cmd arg um s)"
    unfolding ashmem_ioctl_def assms(2) Option.bind.bind_lunit Let_def
    by (intro ifQ some get scan sz one [where f = "\<lambda>x. x"] name prot pins) simp_all
  then show ?thesis by (simp add: Q_def)
qed

theorem ashmem_ioctl_safe_witness:
  "\<exists>ret um' s'. ashmem_ioctl some_ashmem_kernel 0 ASHMEM_UNPIN 0 \<lparr>u_bytes = \<lambda>_. Some 0x10, u_writable = \<lambda>_. False\<rparr> some_areas
     = Some (ret, um', s') \<and> ashmem_ok s'"
proof -
  let ?um = "\<lparr>u_bytes = \<lambda>_. Some (0x10 :: byte), u_writable = \<lambda>_. False\<rparr>"
  have "get_user32 ?um p = Some 0x10101010" for p
    by (simp add: get_user32_def copy_from_user_def upt_rec push_bit_eq_mult)
  then have "pin_length (as_size some_area) off len \<noteq> 0"
    if "get_user32 ?um 0 = Some off" "get_user32 ?um (0 + 4) = Some len" for off len
    using that by (simp add: pin_length_def)
  from ashmem_ioctl_safe [where k = some_ashmem_kernel and cmd = ASHMEM_UNPIN and um = ?um, OF some_areas_ok some_areas_simps(1) this] show ?thesis by blast
qed

text \<open>
  Names: \<open>ASHMEM_SET_NAME\<close> keeps at most 255 bytes of the string and the terminator, inside the name of the area, and
  \<open>ASHMEM_GET_NAME\<close> then copies out exactly those bytes; an empty name reads as the default one. A file that
  is mapped keeps its name.
\<close>

theorem ashmem_name_roundtrip:
  assumes "ashmem_ok s" and "areas s a = Some ar" and "as_file ar = None" and "strncpy_from_user um p ASHMEM_NAME_LEN = Some bs"
  shows "\<exists>s'. set_name a um p s = Some (0, s') \<and> ashmem_ok s'
    \<and> get_name a um q s' = Some (case copy_to_user um q ((if bs = [] then ASHMEM_NAME_DEF else take 255 bs) @ [0]) of
         None \<Rightarrow> (- EFAULT, um) | Some um' \<Rightarrow> (0, um'))"
proof (rule set_name_ok [OF assms(1,2), of um p])
  fix bs' nm assume "strncpy_from_user um p ASHMEM_NAME_LEN = Some bs'"
    and run: "set_name a um p s = Some (0, s\<lparr>areas := (areas s)(a \<mapsto> ar\<lparr>as_name := nm\<rparr>)\<rparr>)"
    and ok: "ashmem_ok (s\<lparr>areas := (areas s)(a \<mapsto> ar\<lparr>as_name := nm\<rparr>)\<rparr>)"
    and nm: "nm = take ASHMEM_NAME_PREFIX_LEN (as_name ar) @ take 255 bs' @ 0 # drop (12 + length (take 255 bs')) (as_name ar)"
  then have bs: "bs' = bs" using assms(4) by simp
  have "\<forall>b\<in>set (take 255 bs). b \<noteq> 0" using strncpy_from_user_length [OF assms(4)] by (metis in_set_takeD)
  moreover have "drop ASHMEM_NAME_PREFIX_LEN nm = take 255 bs @ 0 # drop (12 + length (take 255 bs)) (as_name ar)"
    using area_name_ok [OF assms(1,2)] by (simp add: nm bs)
  ultimately have "local_name nm = (if bs = [] then ASHMEM_NAME_DEF else take 255 bs) @ [0]"
    by (simp add: local_name_def Let_def takeWhile_append2)
  then show ?thesis using run ok get_name_ok [OF ok, of a] by simp
qed (use assms in simp_all)

text \<open>
  Mapping honours the protection mask: a mapping that succeeds asks for no access outside the mask, cannot be
  given such access later (its \<open>VM_MAY\<close> flags are cut too), and shares the area's one backing file, whose references
  then are one for the area and one for each mapping. A mapping that fails leaves no reference behind.
\<close>

theorem ashmem_mmap_protected:
  assumes "ashmem_ok s" and "areas s a = Some ar" and "ashmem_mmap k a flags vm s = Some (ret, flags', vm', s')"
    and "\<And>nm n fl e. shmem_file_setup k nm n fl = Inl e \<Longrightarrow> e < 0"
  shows "ashmem_ok s' \<and>
   (if ret = 0 then as_size ar \<noteq> 0
      \<and> (\<forall>i\<in>{0, 1, 2}. \<not> bit (prot_mask ar) i \<longrightarrow> \<not> bit flags i \<and> \<not> bit flags' i \<and> \<not> bit flags' (i + 4))
      \<and> (\<exists>f. vm' = Some f \<and> map_option as_file (areas s' a) = Some (Some f)
           \<and> (as_file ar = None \<and> (vm = None \<and> \<not> bit flags 3 \<longrightarrow> f_count s' f = 2)
              \<or> as_file ar = Some f \<and> (vm = None \<and> \<not> bit flags 3 \<longrightarrow> f_count s' f = f_count s f + 1)))
    else (\<forall>f. as_file ar = Some f \<longrightarrow> f_count s' f = f_count s f))"
proof (cases "as_size ar = 0 \<or> (flags AND NOT (calc_vm_prot_bits (prot_mask ar))) AND calc_vm_prot_bits PROT_MASK \<noteq> 0")
  case True
  have "ashmem_mmap k a flags vm s = Some (if as_size ar = 0 then - EINVAL else - EPERM, flags, vm, s)"
    using True assms(2) by (cases "as_size ar = 0") (simp_all add: ashmem_mmap_def)
  then have "ret \<noteq> 0" "s' = s" using assms(3) by (auto split: if_splits)
  then show ?thesis using assms(1) by simp
next
  case False
  let ?cut = "flags AND NOT (calc_vm_may_flags (NOT (prot_mask ar)))"
  have cut: "\<not> bit flags i \<and> \<not> bit ?cut i \<and> \<not> bit ?cut (i + 4)" if "i \<in> {0, 1, 2}" "\<not> bit (prot_mask ar) i" for i
    by (rule mask_cuts [OF _ that]) (use False in simp)
  have shared: "?cut AND VM_SHARED \<noteq> 0 \<longleftrightarrow> bit flags 3" by (rule shared_kept)
  have fin: ?thesis if m: "mmap_file k ?cut vm f s1 = (ret, flags', vm', s')" and ok: "ashmem_ok s1"
      and ar1: "map_option as_file (areas s1 a) = Some (Some f)"
      and c: "as_file ar = None \<and> f_count s1 f = 1 \<or> as_file ar = Some f \<and> s1 = s" for f s1
  proof -
    note mf = mmap_file_facts [OF m]
    have "\<forall>i\<in>{0, 1, 2}. \<not> bit (prot_mask ar) i \<longrightarrow> \<not> bit flags i \<and> \<not> bit flags' i \<and> \<not> bit flags' (i + 4)"
      using cut unfolding mf(1) by blast
    moreover have "as_size ar \<noteq> 0" "ashmem_ok s'" "map_option as_file (areas s' a) = Some (Some f)"
      using False mf(2,3) ok ar1 by simp_all
    ultimately show ?thesis using mf(4,5) c shared by (cases "ret = 0") auto
  qed
  show ?thesis
  proof (cases "as_file ar")
    case (Some f)
    then have "mmap_file k ?cut vm f s = (ret, flags', vm', s')"
      using assms(2,3) False by (simp add: ashmem_mmap_def Let_def)
    then show ?thesis by (rule fin) (simp_all add: assms(1,2) Some)
  next
    case None
    let ?s = "\<lambda>f. s\<lparr>areas := (areas s)(a \<mapsto> ar\<lparr>as_file := Some f\<rparr>), f_count := (f_count s)(f := 1)\<rparr>"
    have ok: "ashmem_ok (?s f)" for f
      using area_update_ok [OF assms(1,2), of "ar\<lparr>as_file := Some f\<rparr>"] area_name_ok [OF assms(1,2)]
        ashmem_ok_count [of "(f_count s)(f := 1)" "s\<lparr>areas := (areas s)(a \<mapsto> ar\<lparr>as_file := Some f\<rparr>)\<rparr>"] by simp
    let ?nm = "if as_name ar ! ASHMEM_NAME_PREFIX_LEN \<noteq> 0 then area_name ar else ASHMEM_NAME_DEF"
    show ?thesis
    proof (cases "shmem_file_setup k ?nm (as_size ar) ?cut")
      case (Inl e)
      then have "ret = e" "s' = s" using assms(2,3) False None by (auto simp: ashmem_mmap_def Let_def)
      then show ?thesis using assms(1) assms(4) [OF Inl] None by simp
    next
      case (Inr f)
      then have "mmap_file k ?cut vm f (?s f) = (ret, flags', vm', s')"
        using assms(2,3) False None by (simp add: ashmem_mmap_def Let_def)
      then show ?thesis by (rule fin) (simp_all add: ok None)
    qed
  qed
qed

theorem ashmem_name_roundtrip_witness:
  "\<exists>s'. set_name 0 \<lparr>u_bytes = [0 \<mapsto> 0x61, 1 \<mapsto> 0], u_writable = \<lambda>_. True\<rparr> 0 (some_areas\<lparr>areas := [0 \<mapsto> some_area\<lparr>as_file := None\<rparr>]\<rparr>)
      = Some (0, s') \<and> ashmem_ok s'"
proof -
  let ?um = "\<lparr>u_bytes = [0 \<mapsto> (0x61 :: byte), 1 \<mapsto> 0], u_writable = \<lambda>_. True\<rparr>" and ?ar = "some_area\<lparr>as_file := None\<rparr>"
  have "ashmem_ok (some_areas\<lparr>areas := (areas some_areas)(0 \<mapsto> ?ar)\<rparr>)"
    using area_update_ok [OF some_areas_ok some_areas_simps(1), of ?ar] area_name_ok [OF some_areas_ok some_areas_simps(1)] by simp
  moreover have "(areas some_areas)(0 \<mapsto> ?ar) = [0 \<mapsto> ?ar]" by (simp add: some_areas_def)
  moreover have "strncpy_from_user ?um 0 (Suc (Suc n)) = Some [0x61]" for n by simp
  from this [of 254] have "strncpy_from_user ?um 0 ASHMEM_NAME_LEN = Some [0x61]" by (simp only: Suc_numeral semiring_norm)
  ultimately show ?thesis
    using ashmem_name_roundtrip [of "some_areas\<lparr>areas := [0 \<mapsto> ?ar]\<rparr>" 0 ?ar ?um 0 "[0x61]" 0] by auto
qed

theorem ashmem_mmap_protected_witness:
  "\<exists>s'. ashmem_mmap some_ashmem_kernel 0 0x73 None some_areas = Some (0, 0x73, Some 7, s') \<and> f_count s' 7 = 2"
proof -
  have run: "ashmem_mmap some_ashmem_kernel 0 0x73 None some_areas = Some (0, 0x73, Some 7, fput None (get_file 7 some_areas))"
    by (simp add: ashmem_mmap_def mmap_file_def some_area_def new_area_def some_ashmem_kernel_def Let_def calc_vm_prot_bits_def
        calc_vm_may_flags_def calc_vm_trans_def)
  have "as_file some_area = Some 7" "f_count some_areas 7 = 1" "\<not> bit (0x73 :: u64) 3"
    by (simp_all add: some_area_def some_areas_def bit_numeral_rec)
  then show ?thesis using run ashmem_mmap_protected [OF some_areas_ok some_areas_simps(1) run]
    by (auto simp: some_ashmem_kernel_def)
qed

text \<open>
  A pin request of length zero at the page-aligned end of an area passes every check: the length in use is zero
  and the last page comes before the first. Unpinning it inserts an empty range, which breaks the invariant that
  ranges are not empty.
\<close>

theorem empty_unpin_accepted:
  "\<exists>s'. ashmem_pin_unpin some_ashmem_kernel 0 ASHMEM_UNPIN
      \<lparr>u_bytes = \<lambda>p. Some (if p = 2 then 1 else 0), u_writable = \<lambda>_. False\<rparr> 0 some_areas = Some (0, s')
    \<and> ranges s' 3 = Some \<lparr>rg_asma = 0, pgstart = 16, pgend = 15, purged = False\<rparr> \<and> \<not> ashmem_ok s'"
proof -
  let ?um = "\<lparr>u_bytes = \<lambda>p. Some (if p = 2 then 1 else (0 :: byte)), u_writable = \<lambda>_. False\<rparr>"
  have um: "get_user32 ?um 0 = Some 65536" "get_user32 ?um 4 = Some 0"
    by (simp_all add: get_user32_def copy_from_user_def upt_rec push_bit_eq_mult)
  have pp: "pin_pages 65536 65536 0 = Some (16, 15)"
    by (simp add: pin_pages_def pin_length_def page_align64_def sub64_def add64_def)
  obtain s' where run: "ashmem_unpin some_ashmem_kernel 0 16 15 some_areas = Some (0, s')"
    and r: "ranges s' 3 = Some \<lparr>rg_asma = 0, pgstart = 16, pgend = 15, purged = False\<rparr>"
    by (subst (asm) ashmem_unpin_def, subst (asm) unpin_loop.simps)
      (simp add: some_areas_def some_area_def new_area_def range_before_page_def range_alloc_def lru_add_def some_ashmem_kernel_def Let_def)
  have "as_file some_area = Some 7" "as_size some_area = 65536" by (simp_all add: some_area_def)
  then have "ashmem_pin_unpin some_ashmem_kernel 0 ASHMEM_UNPIN ?um 0 some_areas = Some (0, s')"
    using um pp run by (simp add: ashmem_pin_unpin_def ashmem_codes)
  moreover have "\<not> ashmem_ok s'" using ashmem_okD(2) [OF _ r] by (auto simp: range_ok_def)
  ultimately show ?thesis using r by blast
qed

text \<open>
  Closing a file: \<open>ashmem_release\<close> drops every range of the area, so that the LRU list and its count lose exactly those,
  keeps the invariant, and leaves the other areas and their pages alone.
\<close>

theorem ashmem_release_correct:
  assumes "ashmem_ok s" and "areas s a = Some ar"
  shows "\<exists>s'. ashmem_release a s = Some (0, s') \<and> ashmem_ok s' \<and> areas s' = (areas s)(a := None)
    \<and> (\<forall>f. f_count s' f = f_count s f - (if as_file ar = Some f then 1 else 0))
    \<and> ranges s' = (\<lambda>i. case ranges s i of Some r \<Rightarrow> if rg_asma r = a then None else Some r | None \<Rightarrow> None)"
proof -
  obtain s1 where s1: "range_del_all (unpinned_list ar) s = Some s1" "ashmem_ok s1" "areas s1 = (areas s)(a \<mapsto> ar\<lparr>unpinned_list := []\<rparr>)"
    and r1: "ranges s1 = (\<lambda>i. if i \<in> set (unpinned_list ar) then None else ranges s i)"
    and c1: "f_count s1 = f_count s"
    using range_del_all_ok [OF assms refl] by auto
  have mem: "i \<in> set (unpinned_list ar) \<longleftrightarrow> (\<exists>r. ranges s i = Some r \<and> rg_asma r = a)" for i
    using ashmem_okD(1) [OF assms] by (simp add: area_ok_def)
  have "ranges s1 = (\<lambda>i. case ranges s i of Some r \<Rightarrow> if rg_asma r = a then None else Some r | None \<Rightarrow> None)"
    unfolding r1 mem by (rule ext) (simp split: option.split)
  moreover have "ashmem_ok ((fput (as_file ar) s1)\<lparr>areas := (areas (fput (as_file ar) s1))(a := None)\<rparr>)"
    by (rule forget_area_ok [where ar = "ar\<lparr>unpinned_list := []\<rparr>"]) (simp_all add: s1(2,3))
  ultimately show ?thesis using s1 assms(2) c1 by (simp add: ashmem_release_def)
qed

theorem ashmem_release_correct_witness:
  "\<exists>s'. ashmem_release 0 some_areas = Some (0, s') \<and> ashmem_ok s' \<and> areas s' = Map.empty"
  using ashmem_release_correct [OF some_areas_ok some_areas_simps(1)] by (auto simp: some_areas_def)

text \<open>
  \<open>ashmem_llseek\<close> keeps the position in an \<open>int\<close>: a seek that the backing file grants at 2 GiB moves the position of the
  backing file but is reported as an error, and the position of the ashmem file stays where it was.
\<close>

theorem ashmem_llseek_truncates:
  "\<exists>s'. ashmem_llseek some_ashmem_kernel 0 5 0x80000000 0 some_areas = Some (- 0x80000000, 5, s') \<and> f_pos s' 7 = 0x80000000"
  by (simp add: ashmem_llseek_def some_area_def some_ashmem_kernel_def to_int32_def Let_def)

end
