(* ===== verification/Ref_Base.thy ===== *)
theory Ref_Base
  imports Prelude "HOL-Library.Multiset"
begin

text \<open>
  Reference counts of the client library (\<open>libs/utils/RefBase.cpp\<close>, \<open>RefBase.h\<close>, \<open>StrongPointer.h\<close>). Every operation is a sequence of atomic
  accesses to the shared counters, and threads interleave between any two of them; what an access does is a function, and the
  interleavings are a step relation over the operations in flight.
\<close>

section \<open>Shared state\<close>

text \<open>
  \<open>weakref_impl\<close> with its counters, whether the object and the \<open>weakref_impl\<close> are still there, and \<open>taken\<close>: how often the object's callbacks have asked
  for what a strong reference stands for (\<open>onFirstRef\<close>, a granted \<open>onIncStrongAttempted\<close>) minus how often they have given it back (\<open>onLastStrongRef\<close>). For
  a proxy that is the number of strong references held in the driver. Counters are 32-bit signed integers.
\<close>

abbreviation INITIAL_STRONG_VALUE :: int where "INITIAL_STRONG_VALUE \<equiv> 2 ^ 28"

datatype lifetime = OBJECT_LIFETIME_STRONG | OBJECT_LIFETIME_WEAK

record weakref_impl =
  mStrong :: int
  mWeak :: int
  mFlags :: lifetime
  object :: bool
  impl :: bool
  taken :: int

definition RefBase :: "lifetime \<Rightarrow> weakref_impl" where
  "RefBase life = \<lparr>mStrong = INITIAL_STRONG_VALUE, mWeak = 0, mFlags = life, object = True, impl = True, taken = 0\<rparr>"

text \<open>Accesses to memory that has been freed are faults.\<close>

definition with_impl :: "weakref_impl \<Rightarrow> 'a \<Rightarrow> 'a option" where
  "with_impl r x = (if impl r then Some x else None)"

definition with_object :: "weakref_impl \<Rightarrow> 'a \<Rightarrow> 'a option" where
  "with_object r x = (if object r \<and> impl r then Some x else None)"

definition add_strong :: "int \<Rightarrow> weakref_impl \<Rightarrow> weakref_impl" where
  "add_strong n r = r\<lparr>mStrong := int32 (mStrong r + n)\<rparr>"

definition add_weak :: "int \<Rightarrow> weakref_impl \<Rightarrow> weakref_impl" where
  "add_weak n r = r\<lparr>mWeak := int32 (mWeak r + n)\<rparr>"

text \<open>\<open>RefBase::~RefBase\<close>.\<close>

definition delete_object :: "weakref_impl \<Rightarrow> weakref_impl" where
  "delete_object r =
     (if mStrong r = INITIAL_STRONG_VALUE then r\<lparr>object := False, impl := False\<rparr>
      else if mFlags r \<noteq> OBJECT_LIFETIME_STRONG \<and> mWeak r = 0 then r\<lparr>object := False, impl := False\<rparr>
      else r\<lparr>object := False\<rparr>)"

section \<open>Operations in flight\<close>

text \<open>
  A point in an operation, with the strong and weak references that its caller keeps for the duration of the call. The comments name the access
  that comes next.
\<close>

type_synonym held = "nat \<times> nat"

datatype pc =
    Inc_Weak held                   \<comment> \<open>\<open>incWeak\<close>: increment \<open>mWeak\<close>\<close>
  | Inc1 held                       \<comment> \<open>\<open>incStrong\<close>: increment \<open>mWeak\<close>\<close>
  | Inc2 held                       \<comment> \<open>increment \<open>mStrong\<close>\<close>
  | Inc3 held                       \<comment> \<open>subtract the initial value\<close>
  | Inc4 held                       \<comment> \<open>\<open>onFirstRef\<close>\<close>
  | Dec1                            \<comment> \<open>\<open>decStrong\<close>: decrement \<open>mStrong\<close>\<close>
  | Dec2                            \<comment> \<open>\<open>onLastStrongRef\<close>\<close>
  | Dec3                            \<comment> \<open>read \<open>mFlags\<close>, delete the object\<close>
  | Dec_Weak held                   \<comment> \<open>\<open>decWeak\<close>: decrement \<open>mWeak\<close>\<close>
  | Dec_Weak2 held                  \<comment> \<open>the last weak reference is gone\<close>
  | Att1 held                       \<comment> \<open>\<open>attemptIncStrong\<close>: increment \<open>mWeak\<close>\<close>
  | Att2 held                       \<comment> \<open>read \<open>mStrong\<close>\<close>
  | Att_Cas held int                \<comment> \<open>compare and exchange, from an existing strong reference\<close>
  | Att_Hard held int               \<comment> \<open>read \<open>mFlags\<close>\<close>
  | Att_First held int              \<comment> \<open>compare and exchange, from no strong reference\<close>
  | Att_First2 held                 \<comment> \<open>read \<open>mStrong\<close> again\<close>
  | Att_Ask held                    \<comment> \<open>\<open>onIncStrongAttempted\<close>\<close>
  | Att_Take held                   \<comment> \<open>increment \<open>mStrong\<close>\<close>
  | Att_Give held                   \<comment> \<open>\<open>onLastStrongRef\<close> for a reference that is not needed\<close>
  | Att_Fix held                    \<comment> \<open>read \<open>mStrong\<close>\<close>
  | Att_Fix_Cas held int            \<comment> \<open>compare and exchange, subtract the initial value\<close>
  | Try_Weak held                   \<comment> \<open>\<open>attemptIncWeak\<close>: read \<open>mWeak\<close>\<close>
  | Try_Cas held int                \<comment> \<open>compare and exchange \<open>mWeak\<close>\<close>
  | Force1 held                     \<comment> \<open>\<open>forceIncStrong\<close>: increment \<open>mWeak\<close>\<close>
  | Force2 held                     \<comment> \<open>increment \<open>mStrong\<close>\<close>
  | Force3 held                     \<comment> \<open>subtract the initial value\<close>
  | Force4 held                     \<comment> \<open>\<open>onFirstRef\<close>\<close>

text \<open>Either the operation goes on, or it returns and leaves its caller with references.\<close>

datatype after = Go pc | Return nat nat

definition one_more_strong :: "held \<Rightarrow> after" where
  "one_more_strong h = Return (fst h + 1) (snd h)"

definition one_more_weak :: "held \<Rightarrow> after" where
  "one_more_weak h = Return (fst h) (snd h + 1)"

definition give_back :: "held \<Rightarrow> after" where
  "give_back h = Return (fst h) (snd h)"

section \<open>What an access does\<close>

text \<open>\<open>grant\<close> is the answer of \<open>onIncStrongAttempted\<close>, which a subclass chooses.\<close>

fun act :: "bool \<Rightarrow> pc \<Rightarrow> weakref_impl \<Rightarrow> (weakref_impl \<times> after) option" where
  "act grant (Inc_Weak h) r = with_impl r (add_weak 1 r, one_more_weak h)"
| "act grant (Inc1 h) r = with_impl r (add_weak 1 r, Go (Inc2 h))"
| "act grant (Inc2 h) r =
     with_impl r (add_strong 1 r, if mStrong r = INITIAL_STRONG_VALUE then Go (Inc3 h) else one_more_strong h)"
| "act grant (Inc3 h) r = with_impl r (add_strong (- INITIAL_STRONG_VALUE) r, Go (Inc4 h))"
| "act grant (Inc4 h) r = with_object r (r\<lparr>taken := taken r + 1\<rparr>, one_more_strong h)"
| "act grant Dec1 r = with_impl r (add_strong (- 1) r, if mStrong r = 1 then Go Dec2 else Go (Dec_Weak (0, 0)))"
| "act grant Dec2 r = with_object r (r\<lparr>taken := taken r - 1\<rparr>, Go Dec3)"
| "act grant Dec3 r =
     (if mFlags r = OBJECT_LIFETIME_STRONG then with_object r (delete_object r, Go (Dec_Weak (0, 0)))
      else with_impl r (r, Go (Dec_Weak (0, 0))))"
| "act grant (Dec_Weak h) r = with_impl r (add_weak (- 1) r, if mWeak r = 1 then Go (Dec_Weak2 h) else give_back h)"
| "act grant (Dec_Weak2 h) r =
     (if mFlags r = OBJECT_LIFETIME_STRONG
      then if mStrong r = INITIAL_STRONG_VALUE then with_object r (delete_object r, give_back h)
           else with_impl r (r\<lparr>impl := False\<rparr>, give_back h)
      else with_object r (delete_object r, give_back h))"
| "act grant (Att1 h) r = with_impl r (add_weak 1 r, Go (Att2 h))"
| "act grant (Att2 h) r =
     with_impl r (r, if 0 < mStrong r \<and> mStrong r \<noteq> INITIAL_STRONG_VALUE then Go (Att_Cas h (mStrong r)) else Go (Att_Hard h (mStrong r)))"
| "act grant (Att_Cas h cur) r =
     (if mStrong r = cur then with_impl r (r\<lparr>mStrong := int32 (cur + 1)\<rparr>, Go (Att_Fix h)) else with_impl r (r, Go (Att2 h)))"
| "act grant (Att_Hard h cur) r =
     with_impl r (r,
       if mFlags r = OBJECT_LIFETIME_STRONG then if cur \<le> 0 then Go (Dec_Weak h) else Go (Att_First h cur) else Go (Att_Ask h))"
| "act grant (Att_First h cur) r =
     (if mStrong r = cur
      then with_impl r (r\<lparr>mStrong := int32 (cur + 1)\<rparr>,
             if 0 < cur \<and> cur < INITIAL_STRONG_VALUE then Go (Att_Give h) else Go (Att_Fix h))
      else with_impl r (r, Go (Att_First2 h)))"
| "act grant (Att_First2 h) r = with_impl r (r, if 0 < mStrong r then Go (Att_First h (mStrong r)) else Go (Dec_Weak h))"
| "act grant (Att_Ask h) r =
     with_object r (if grant then (r\<lparr>taken := taken r + 1\<rparr>, Go (Att_Take h)) else (r, Go (Dec_Weak h)))"
| "act grant (Att_Take h) r =
     with_impl r (add_strong 1 r, if 0 < mStrong r \<and> mStrong r < INITIAL_STRONG_VALUE then Go (Att_Give h) else Go (Att_Fix h))"
| "act grant (Att_Give h) r = with_object r (r\<lparr>taken := taken r - 1\<rparr>, Go (Att_Fix h))"
| "act grant (Att_Fix h) r =
     with_impl r (r, if INITIAL_STRONG_VALUE \<le> mStrong r then Go (Att_Fix_Cas h (mStrong r)) else one_more_strong h)"
| "act grant (Att_Fix_Cas h cur) r =
     (if mStrong r = cur then with_impl r (r\<lparr>mStrong := int32 (cur - INITIAL_STRONG_VALUE)\<rparr>, one_more_strong h)
      else with_impl r (r, Go (Att_Fix h)))"
| "act grant (Try_Weak h) r = with_impl r (r, if 0 < mWeak r then Go (Try_Cas h (mWeak r)) else give_back h)"
| "act grant (Try_Cas h cur) r =
     (if mWeak r = cur then with_impl r (r\<lparr>mWeak := int32 (cur + 1)\<rparr>, one_more_weak h) else with_impl r (r, Go (Try_Weak h)))"
| "act grant (Force1 h) r = with_impl r (add_weak 1 r, Go (Force2 h))"
| "act grant (Force2 h) r =
     with_impl r (add_strong 1 r,
       if mStrong r = INITIAL_STRONG_VALUE then Go (Force3 h) else if mStrong r = 0 then Go (Force4 h) else one_more_strong h)"
| "act grant (Force3 h) r = with_impl r (add_strong (- INITIAL_STRONG_VALUE) r, Go (Force4 h))"
| "act grant (Force4 h) r = with_object r (r\<lparr>taken := taken r + 1\<rparr>, one_more_strong h)"

section \<open>Interleavings\<close>

text \<open>
  References that clients hold outside of any call, the operations in flight, and the creator's plain pointer, which counts as no reference. A client
  starts an operation with a reference of its own, which it cannot give up before the operation returns: taking a strong or a weak
  reference, dropping one (\<open>decStrong\<close>, \<open>decWeak\<close>), promoting a weak one (\<open>wp::promote\<close>, \<open>sp::force_set\<close>). There are at most \<open>2 ^ 27\<close> references.
\<close>

record config =
  refs :: weakref_impl
  strong_held :: nat
  weak_held :: nat
  creator :: bool
  flight :: "pc multiset"

definition weight :: "config \<Rightarrow> nat" where
  "weight c = strong_held c + weak_held c + 2 * size (flight c)"

fun start_ok :: "pc \<Rightarrow> config \<Rightarrow> bool" where
  "start_ok (Inc1 h) c \<longleftrightarrow> h = (1, 0) \<and> 0 < strong_held c \<or> h = (0, 0) \<and> creator c"
| "start_ok (Inc_Weak h) c \<longleftrightarrow> h = (1, 0) \<and> 0 < strong_held c \<or> h = (0, 1) \<and> 0 < weak_held c \<or> h = (0, 0) \<and> creator c"
| "start_ok (Try_Weak h) c \<longleftrightarrow> h = (1, 0) \<and> 0 < strong_held c \<or> h = (0, 1) \<and> 0 < weak_held c"
| "start_ok Dec1 c \<longleftrightarrow> 0 < strong_held c"
| "start_ok (Dec_Weak h) c \<longleftrightarrow> h = (0, 0) \<and> 0 < weak_held c"
| "start_ok (Att1 h) c \<longleftrightarrow> h = (0, 1) \<and> 0 < weak_held c"
| "start_ok (Force1 h) c \<longleftrightarrow> h = (0, 1) \<and> 0 < weak_held c \<and> mFlags (refs c) = OBJECT_LIFETIME_WEAK"
| "start_ok _ c \<longleftrightarrow> False"

fun start_cost :: "pc \<Rightarrow> nat \<times> nat" where
  "start_cost Dec1 = (1, 0)"
| "start_cost (Dec_Weak h) = (0, 1)"
| "start_cost (Inc1 h) = h"
| "start_cost (Inc_Weak h) = h"
| "start_cost (Try_Weak h) = h"
| "start_cost (Att1 h) = h"
| "start_cost (Force1 h) = h"
| "start_cost _ = (0, 0)"

inductive ref_step :: "config \<Rightarrow> config \<Rightarrow> bool" where
  starts: "start_ok p c \<Longrightarrow> weight c < 2 ^ 27 \<Longrightarrow>
    ref_step c (c\<lparr>strong_held := strong_held c - fst (start_cost p), weak_held := weak_held c - snd (start_cost p),
      creator := (creator c \<and> p \<noteq> Inc1 (0, 0)), flight := add_mset p (flight c)\<rparr>)"
| goes_on: "p \<in># flight c \<Longrightarrow> act grant p (refs c) = Some (r, Go q) \<Longrightarrow>
    ref_step c (c\<lparr>refs := r, flight := add_mset q (flight c - {#p#})\<rparr>)"
| returns: "p \<in># flight c \<Longrightarrow> act grant p (refs c) = Some (r, Return s w) \<Longrightarrow>
    ref_step c (c\<lparr>refs := r, strong_held := strong_held c + s, weak_held := weak_held c + w, flight := flight c - {#p#}\<rparr>)"

abbreviation ref_steps :: "config \<Rightarrow> config \<Rightarrow> bool" where
  "ref_steps \<equiv> ref_step\<^sup>*\<^sup>*"

text \<open>A new object, whose creator has a plain pointer, and an object that has got its first strong reference.\<close>

definition new_object :: "lifetime \<Rightarrow> config" where
  "new_object life = \<lparr>refs = RefBase life, strong_held = 0, weak_held = 0, creator = True, flight = {#}\<rparr>"

definition first_held :: "lifetime \<Rightarrow> config" where
  "first_held life = \<lparr>refs = \<lparr>mStrong = 1, mWeak = 1, mFlags = life, object = True, impl = True, taken = 1\<rparr>,
     strong_held = 1, weak_held = 0, creator = False, flight = {#}\<rparr>"

end
