(* ===== verification/Ref_Base_Props.thy ===== *)
theory Ref_Base_Props
  imports Ref_Base
begin

text \<open>
  The reference counts under every interleaving. Each operation in flight has a share of the two counters; the invariant says that the counters are the
  references held plus the shares, that the object and the \<open>weakref_impl\<close> are freed by exactly one operation, and that callbacks balance.
\<close>

section \<open>Shares\<close>

fun kept :: "pc \<Rightarrow> held" where
  "kept (Inc_Weak h) = h" | "kept (Inc1 h) = h" | "kept (Inc2 h) = h" | "kept (Inc3 h) = h" | "kept (Inc4 h) = h"
| "kept Dec1 = (0, 0)" | "kept Dec2 = (0, 0)" | "kept Dec3 = (0, 0)"
| "kept (Dec_Weak h) = h" | "kept (Dec_Weak2 h) = h"
| "kept (Att1 h) = h" | "kept (Att2 h) = h" | "kept (Att_Cas h _) = h" | "kept (Att_Hard h _) = h" | "kept (Att_First h _) = h"
| "kept (Att_First2 h) = h" | "kept (Att_Ask h) = h" | "kept (Att_Take h) = h" | "kept (Att_Give h) = h" | "kept (Att_Fix h) = h"
| "kept (Att_Fix_Cas h _) = h"
| "kept (Try_Weak h) = h" | "kept (Try_Cas h _) = h"
| "kept (Force1 h) = h" | "kept (Force2 h) = h" | "kept (Force3 h) = h" | "kept (Force4 h) = h"

fun own_strong :: "pc \<Rightarrow> nat" where
  "own_strong Dec1 = 1" | "own_strong (Inc3 _) = 1" | "own_strong (Inc4 _) = 1"
| "own_strong (Att_Give _) = 1" | "own_strong (Att_Fix _) = 1" | "own_strong (Att_Fix_Cas _ _) = 1"
| "own_strong (Force3 _) = 1" | "own_strong (Force4 _) = 1" | "own_strong _ = 0"

fun own_weak :: "pc \<Rightarrow> nat" where
  "own_weak (Inc_Weak _) = 0" | "own_weak (Inc1 _) = 0" | "own_weak (Att1 _) = 0" | "own_weak (Force1 _) = 0"
| "own_weak (Dec_Weak2 _) = 0" | "own_weak (Try_Weak _) = 0" | "own_weak (Try_Cas _ _) = 0" | "own_weak _ = 1"

definition strong_share :: "pc \<Rightarrow> nat" where
  "strong_share p = fst (kept p) + own_strong p"

definition weak_share :: "pc \<Rightarrow> nat" where
  "weak_share p = fst (kept p) + snd (kept p) + own_weak p"

fun taken_share :: "pc \<Rightarrow> int" where
  "taken_share Dec2 = 1" | "taken_share (Att_Take _) = 1" | "taken_share (Att_Give _) = 1"
| "taken_share (Inc4 _) = - 1" | "taken_share (Force4 _) = - 1" | "taken_share _ = 0"

fun frees_object :: "pc \<Rightarrow> nat" where
  "frees_object Dec2 = 1" | "frees_object Dec3 = 1" | "frees_object _ = 0"

fun frees_impl :: "pc \<Rightarrow> nat" where
  "frees_impl (Dec_Weak2 _) = 1" | "frees_impl _ = 0"

text \<open>Points of operations that occur once the object has had its first strong reference.\<close>

fun settled :: "lifetime \<Rightarrow> pc \<Rightarrow> bool" where
  "settled life (Inc_Weak h) \<longleftrightarrow> h = (1, 0) \<or> h = (0, 1)"
| "settled life (Inc1 h) \<longleftrightarrow> h = (1, 0)"
| "settled life (Inc2 h) \<longleftrightarrow> h = (1, 0)"
| "settled life Dec1 \<longleftrightarrow> True"
| "settled life Dec2 \<longleftrightarrow> True"
| "settled life Dec3 \<longleftrightarrow> True"
| "settled life (Dec_Weak h) \<longleftrightarrow> h = (0, 0) \<or> h = (0, 1)"
| "settled life (Dec_Weak2 h) \<longleftrightarrow> h = (0, 0)"
| "settled life (Att1 h) \<longleftrightarrow> h = (0, 1)"
| "settled life (Att2 h) \<longleftrightarrow> h = (0, 1)"
| "settled life (Att_Cas h cur) \<longleftrightarrow> h = (0, 1) \<and> 0 < cur \<and> cur < 2 ^ 28"
| "settled life (Att_Hard h cur) \<longleftrightarrow> h = (0, 1) \<and> cur \<le> 0"
| "settled life (Att_Fix h) \<longleftrightarrow> h = (0, 1)"
| "settled life (Att_Ask h) \<longleftrightarrow> h = (0, 1) \<and> life = OBJECT_LIFETIME_WEAK"
| "settled life (Att_Take h) \<longleftrightarrow> h = (0, 1) \<and> life = OBJECT_LIFETIME_WEAK"
| "settled life (Att_Give h) \<longleftrightarrow> h = (0, 1) \<and> life = OBJECT_LIFETIME_WEAK"
| "settled life (Try_Weak h) \<longleftrightarrow> h = (1, 0) \<or> h = (0, 1)"
| "settled life (Try_Cas h cur) \<longleftrightarrow> (h = (1, 0) \<or> h = (0, 1)) \<and> 0 < cur"
| "settled life (Force1 h) \<longleftrightarrow> h = (0, 1) \<and> life = OBJECT_LIFETIME_WEAK"
| "settled life (Force2 h) \<longleftrightarrow> h = (0, 1) \<and> life = OBJECT_LIFETIME_WEAK"
| "settled life (Force4 h) \<longleftrightarrow> h = (0, 1) \<and> life = OBJECT_LIFETIME_WEAK"
| "settled life _ \<longleftrightarrow> False"

definition total :: "(pc \<Rightarrow> 'n::comm_monoid_add) \<Rightarrow> pc multiset \<Rightarrow> 'n" where
  "total f M = (\<Sum>p \<in># M. f p)"

lemma total_simps [simp]:
  "total f {#} = 0"
  "total f (add_mset p M) = f p + total f M"
  by (simp_all add: total_def)

definition counts_ok :: "lifetime \<Rightarrow> weakref_impl \<Rightarrow> nat \<Rightarrow> nat \<Rightarrow> pc multiset \<Rightarrow> bool" where
  "counts_ok life r s w M \<longleftrightarrow>
     mFlags r = life \<and> (\<forall>p \<in># M. settled life p) \<and> s + w + 2 * size M \<le> 2 ^ 27 + 2 \<and>
     mStrong r = int (s + total strong_share M) \<and> mWeak r = int (s + w + total weak_share M) \<and>
     taken r = (if 0 < mStrong r then 1 else 0) + total taken_share M \<and>
     (0 < mWeak r \<longrightarrow> impl r) \<and> total frees_impl M = (if impl r \<and> mWeak r = 0 then 1 else 0) \<and>
     (case life of
        OBJECT_LIFETIME_STRONG \<Rightarrow> (0 < mStrong r \<longrightarrow> object r) \<and> total frees_object M = (if object r \<and> mStrong r = 0 then 1 else 0)
      | OBJECT_LIFETIME_WEAK \<Rightarrow> object r = impl r)"

lemma shares_le: "settled life p \<Longrightarrow> strong_share p \<le> 2 \<and> weak_share p \<le> 2"
  by (cases p) (auto simp: strong_share_def weak_share_def)

lemma total_le: "(\<forall>p \<in># M. settled life p) \<Longrightarrow> total strong_share M \<le> 2 * size M \<and> total weak_share M \<le> 2 * size M"
  by (induction M) (use shares_le in fastforce)+

lemma counts_bounded:
  assumes "counts_ok life r s w M"
  shows "0 \<le> mStrong r \<and> mStrong r \<le> 2 ^ 27 + 2 \<and> 0 \<le> mWeak r \<and> mWeak r \<le> 2 ^ 27 + 2"
  using assms total_le [of M life] by (auto simp: counts_ok_def)

lemma add_counts [simp]:
  "counts_ok life r s w M \<Longrightarrow> add_strong 1 r = r\<lparr>mStrong := mStrong r + 1\<rparr>"
  "counts_ok life r s w M \<Longrightarrow> add_strong (- 1) r = r\<lparr>mStrong := mStrong r - 1\<rparr>"
  "counts_ok life r s w M \<Longrightarrow> add_weak 1 r = r\<lparr>mWeak := mWeak r + 1\<rparr>"
  "counts_ok life r s w M \<Longrightarrow> add_weak (- 1) r = r\<lparr>mWeak := mWeak r - 1\<rparr>"
  by (frule counts_bounded, simp add: add_strong_def add_weak_def int32_id)+

section \<open>No access faults\<close>

lemma has_impl:
  assumes "counts_ok life r s w (add_mset p M)"
  shows "impl r"
proof (cases "weak_share p = 0")
  case True
  have "settled life p" using assms by (simp add: counts_ok_def)
  with True have "frees_impl p = 1" by (cases p) (auto simp: weak_share_def)
  then show ?thesis using assms by (auto simp: counts_ok_def split: if_splits)
next
  case False
  then show ?thesis using assms by (auto simp: counts_ok_def)
qed

lemma has_object:
  assumes "counts_ok life r s w (add_mset p M)" and "life = OBJECT_LIFETIME_WEAK \<or> frees_object p = 1"
  shows "object r"
  using assms has_impl [OF assms(1)] by (cases life) (auto simp: counts_ok_def split: if_splits)

lemma act_no_fault:
  assumes "counts_ok life r s w (add_mset p M)"
  shows "\<exists>x. act grant p r = Some x"
proof -
  have p: "settled life p" "mFlags r = life" using assms by (auto simp: counts_ok_def)
  have "mStrong r < 2 ^ 28" using counts_bounded [OF assms] by simp
  then show ?thesis
    using p has_impl [OF assms] has_object [OF assms]
    by (cases p; cases life) (auto simp: with_impl_def with_object_def split: if_splits)
qed

section \<open>Every access keeps the invariant\<close>

lemmas share_defs = strong_share_def weak_share_def one_more_strong_def one_more_weak_def give_back_def with_impl_def with_object_def
  delete_object_def

text \<open>Shares of what comes after an access: the next point, or the references that the caller gets.\<close>

fun after_share :: "(pc \<Rightarrow> 'n) \<Rightarrow> (nat \<Rightarrow> nat \<Rightarrow> 'n) \<Rightarrow> after \<Rightarrow> 'n" where
  "after_share f g (Go q) = f q"
| "after_share f g (Return s w) = g s w"

definition ind :: "bool \<Rightarrow> int" where
  "ind b = (if b then 1 else 0)"

lemma ind_simps [simp]: "ind True = 1" "ind False = 0"
  by (simp_all add: ind_def)

text \<open>What an access may do: counters and shares change together, and who frees what stays unique.\<close>

definition moves :: "lifetime \<Rightarrow> pc \<Rightarrow> weakref_impl \<Rightarrow> weakref_impl \<Rightarrow> after \<Rightarrow> bool" where
  "moves life p r r' a \<longleftrightarrow>
     mFlags r' = life \<and> after_share (settled life) (\<lambda>s w. s + w \<le> 2) a \<and>
     mStrong r' - int (after_share strong_share (\<lambda>s w. s) a) = mStrong r - int (strong_share p) \<and>
     mWeak r' - int (after_share weak_share (\<lambda>s w. s + w) a) = mWeak r - int (weak_share p) \<and>
     taken r' - ind (0 < mStrong r') - after_share taken_share (\<lambda>s w. 0) a = taken r - ind (0 < mStrong r) - taken_share p \<and>
     (0 < mWeak r' \<longrightarrow> impl r') \<and>
     ind (impl r' \<and> mWeak r' = 0) - int (after_share frees_impl (\<lambda>s w. 0) a) = ind (impl r \<and> mWeak r = 0) - int (frees_impl p) \<and>
     (life = OBJECT_LIFETIME_STRONG \<longrightarrow> (0 < mStrong r' \<longrightarrow> object r') \<and>
        ind (object r' \<and> mStrong r' = 0) - int (after_share frees_object (\<lambda>s w. 0) a) = ind (object r \<and> mStrong r = 0) - int (frees_object p)) \<and>
     (life = OBJECT_LIFETIME_WEAK \<longrightarrow> object r' = impl r')"

lemma counts_ok_ind:
  "counts_ok life r s w M \<longleftrightarrow>
     mFlags r = life \<and> (\<forall>p \<in># M. settled life p) \<and> s + w + 2 * size M \<le> 2 ^ 27 + 2 \<and>
     mStrong r = int (s + total strong_share M) \<and> mWeak r = int (s + w + total weak_share M) \<and>
     taken r = ind (0 < mStrong r) + total taken_share M \<and>
     (0 < mWeak r \<longrightarrow> impl r) \<and> int (total frees_impl M) = ind (impl r \<and> mWeak r = 0) \<and>
     (life = OBJECT_LIFETIME_STRONG \<longrightarrow> (0 < mStrong r \<longrightarrow> object r) \<and> int (total frees_object M) = ind (object r \<and> mStrong r = 0)) \<and>
     (life = OBJECT_LIFETIME_WEAK \<longrightarrow> object r = impl r)"
  by (cases life) (auto simp: counts_ok_def ind_def)

lemma moves_counts:
  assumes "counts_ok life r s w (add_mset p M)" and "moves life p r r' a"
  shows "case a of Go q \<Rightarrow> counts_ok life r' s w (add_mset q M) | Return ds dw \<Rightarrow> counts_ok life r' (s + ds) (w + dw) M"
proof (cases a)
  case (Go q)
  then show ?thesis using assms unfolding counts_ok_ind moves_def by clarsimp
next
  case (Return ds dw)
  then show ?thesis using assms unfolding counts_ok_ind moves_def by clarsimp
qed

lemma counts_facts:
  assumes "counts_ok life r s w (add_mset p M)"
  shows "mFlags r = life" and "settled life p" and "int (strong_share p) \<le> mStrong r" and "int (weak_share p) \<le> mWeak r"
    and "life = OBJECT_LIFETIME_STRONG \<Longrightarrow> 0 < mStrong r \<Longrightarrow> object r"
    and "life = OBJECT_LIFETIME_STRONG \<Longrightarrow> frees_object p = 1 \<Longrightarrow> mStrong r = 0"
    and "frees_impl p = 1 \<Longrightarrow> mWeak r = 0" and "life = OBJECT_LIFETIME_WEAK \<Longrightarrow> object r"
  using assms has_impl [OF assms] by (auto simp: counts_ok_def split: if_splits)

lemma act_moves:
  assumes "counts_ok life r s w (add_mset p M)" and "act grant p r = Some (r', a)"
  shows "moves life p r r' a"
proof -
  have r: "add_strong 1 r = r\<lparr>mStrong := mStrong r + 1\<rparr>" "add_strong (- 1) r = r\<lparr>mStrong := mStrong r - 1\<rparr>"
    "add_weak 1 r = r\<lparr>mWeak := mWeak r + 1\<rparr>" "add_weak (- 1) r = r\<lparr>mWeak := mWeak r - 1\<rparr>"
    "int32 (mStrong r + 1) = mStrong r + 1" "int32 (mWeak r + 1) = mWeak r + 1"
    using add_counts [OF assms(1)] counts_bounded [OF assms(1)] by (simp_all add: int32_id)
  have b: "mStrong r < 2 ^ 28" using counts_bounded [OF assms(1)] by simp
  note f = counts_facts [OF assms(1)] has_impl [OF assms(1)]
  show ?thesis
    using f(1-4,9) f(5-8) b assms(2)
    by (cases p; cases life) (auto simp: moves_def r share_defs split: if_splits)
qed

section \<open>Reachable configurations\<close>

definition config_ok :: "lifetime \<Rightarrow> config \<Rightarrow> bool" where
  "config_ok life c \<longleftrightarrow> \<not> creator c \<and> counts_ok life (refs c) (strong_held c) (weak_held c) (flight c)"

lemma start_shares:
  assumes "start_ok p c" and "\<not> creator c"
  shows "settled (mFlags (refs c)) p" and "strong_share p = fst (start_cost p)" and "weak_share p = fst (start_cost p) + snd (start_cost p)"
    and "fst (start_cost p) \<le> strong_held c" and "snd (start_cost p) \<le> weak_held c" and "taken_share p = 0" and "frees_object p = 0" and "frees_impl p = 0"
  using assms by (cases p; auto simp: strong_share_def weak_share_def)+

lemma step_config_ok:
  assumes "ref_step c c'" and "config_ok life c"
  shows "config_ok life c'"
  using assms
proof cases
  case (starts p)
  have c: "\<not> creator c" "mFlags (refs c) = life" using assms(2) by (auto simp: config_ok_def counts_ok_def)
  note s = start_shares [OF starts(2) c(1)]
  have "counts_ok life (refs c) (strong_held c - fst (start_cost p)) (weak_held c - snd (start_cost p)) (add_mset p (flight c))"
    using assms(2) s c(2) starts(3) by (auto simp: config_ok_def counts_ok_ind weight_def)
  then show ?thesis using starts(1) c(1) by (simp add: config_ok_def)
next
  case (goes_on p grant r q)
  then obtain M where M: "flight c = add_mset p M" by (metis multi_member_split)
  then have "counts_ok life (refs c) (strong_held c) (weak_held c) (add_mset p M)" using assms(2) by (simp add: config_ok_def)
  from moves_counts [OF this act_moves [OF this goes_on(3)]] show ?thesis
    using goes_on(1) M assms(2) by (simp add: config_ok_def)
next
  case (returns p grant r s w)
  then obtain M where M: "flight c = add_mset p M" by (metis multi_member_split)
  then have "counts_ok life (refs c) (strong_held c) (weak_held c) (add_mset p M)" using assms(2) by (simp add: config_ok_def)
  from moves_counts [OF this act_moves [OF this returns(3)]] show ?thesis
    using returns(1) M assms(2) by (simp add: config_ok_def)
qed

lemma reach_config_ok: "ref_steps c c' \<Longrightarrow> config_ok life c \<Longrightarrow> config_ok life c'"
  by (induction rule: rtranclp_induct) (auto intro: step_config_ok)

lemma first_held_ok: "config_ok life (first_held life)"
  by (cases life) (simp_all add: config_ok_def counts_ok_def first_held_def)

text \<open>Running a schedule: operations that begin and accesses that happen, in the order given.\<close>

datatype event = Begin pc | Access pc

fun schedule :: "event list \<Rightarrow> config \<Rightarrow> config option" where
  "schedule [] c = Some c"
| "schedule (Begin p # es) c =
     (if start_ok p c \<and> weight c < 2 ^ 27
      then schedule es (c\<lparr>strong_held := strong_held c - fst (start_cost p), weak_held := weak_held c - snd (start_cost p),
        creator := (creator c \<and> p \<noteq> Inc1 (0, 0)), flight := add_mset p (flight c)\<rparr>)
      else None)"
| "schedule (Access p # es) c =
     (if p \<in># flight c
      then (case act True p (refs c) of
          None \<Rightarrow> None
        | Some (r, Go q) \<Rightarrow> schedule es (c\<lparr>refs := r, flight := add_mset q (flight c - {#p#})\<rparr>)
        | Some (r, Return s w) \<Rightarrow> schedule es (c\<lparr>refs := r, strong_held := strong_held c + s, weak_held := weak_held c + w, flight := flight c - {#p#}\<rparr>))
      else None)"

lemma schedule_sound: "schedule es c = Some c' \<Longrightarrow> ref_steps c c'"
proof (induction es arbitrary: c)
  case (Cons e es)
  show ?case
  proof (cases e)
    case (Begin p)
    then show ?thesis using Cons ref_step.starts [of p c]
      by (auto intro: converse_rtranclp_into_rtranclp simp del: power_numeral split: if_splits)
  next
    case (Access p)
    then obtain r a where pa: "p \<in># flight c" "act True p (refs c) = Some (r, a)"
      using Cons.prems by (auto split: if_splits option.splits)
    show ?thesis
    proof (cases a)
      case (Go q)
      from ref_step.goes_on [OF pa [unfolded Go]] show ?thesis
        using Cons pa Go Access by (auto intro: converse_rtranclp_into_rtranclp)
    next
      case (Return s w)
      from ref_step.returns [OF pa [unfolded Return]] show ?thesis
        using Cons pa Return Access by (auto intro: converse_rtranclp_into_rtranclp)
    qed
  qed
qed simp

lemmas schedule_eval = new_object_def first_held_def RefBase_def weight_def add_strong_def add_weak_def int32_def share_defs

text \<open>The creator's first strong reference, taken before anyone else has one.\<close>

lemma first_reference: "ref_steps (new_object life) (first_held life)"
  by (rule schedule_sound [where es = "[Begin (Inc1 (0, 0)), Access (Inc1 (0, 0)), Access (Inc2 (0, 0)), Access (Inc3 (0, 0)), Access (Inc4 (0, 0))]"])
    (simp add: schedule_eval)

section \<open>Properties\<close>

text \<open>
  C26. Reference counts are safe under every interleaving: after the first strong reference, whatever operations run in whatever order, no
  access touches freed memory; held references keep the object and its counters alive; and when no operation is in flight the counters are
  the references held, the callbacks balance, and the object is there exactly as long as its lifetime says.
\<close>

theorem ref_counts_safe:
  assumes "ref_steps (first_held life) c"
  shows "(\<forall>p \<in># flight c. \<forall>grant. act grant p (refs c) \<noteq> None) \<and>
    (0 < strong_held c \<longrightarrow> object (refs c)) \<and> (0 < strong_held c + weak_held c \<longrightarrow> impl (refs c)) \<and>
    (flight c = {#} \<longrightarrow>
       mStrong (refs c) = int (strong_held c) \<and> mWeak (refs c) = int (strong_held c + weak_held c) \<and>
       taken (refs c) = (if 0 < strong_held c then 1 else 0) \<and> (impl (refs c) \<longleftrightarrow> 0 < strong_held c + weak_held c) \<and>
       (object (refs c) \<longleftrightarrow> (case life of OBJECT_LIFETIME_STRONG \<Rightarrow> 0 < strong_held c | OBJECT_LIFETIME_WEAK \<Rightarrow> 0 < strong_held c + weak_held c)))"
proof -
  have ok: "counts_ok life (refs c) (strong_held c) (weak_held c) (flight c)"
    using reach_config_ok [OF assms first_held_ok] by (simp add: config_ok_def)
  have "act grant p (refs c) \<noteq> None" if "p \<in># flight c" for p grant
    using act_no_fault ok multi_member_split [OF that] by fastforce
  moreover have "0 < strong_held c \<longrightarrow> object (refs c)" "0 < strong_held c + weak_held c \<longrightarrow> impl (refs c)"
    using ok by (cases life; auto simp: counts_ok_def)+
  moreover have "flight c = {#} \<longrightarrow> mStrong (refs c) = int (strong_held c) \<and> mWeak (refs c) = int (strong_held c + weak_held c) \<and>
       taken (refs c) = (if 0 < strong_held c then 1 else 0) \<and> (impl (refs c) \<longleftrightarrow> 0 < strong_held c + weak_held c) \<and>
       (object (refs c) \<longleftrightarrow> (case life of OBJECT_LIFETIME_STRONG \<Rightarrow> 0 < strong_held c | OBJECT_LIFETIME_WEAK \<Rightarrow> 0 < strong_held c + weak_held c))"
    using ok by (cases life) (auto simp: counts_ok_def split: if_splits)
  ultimately show ?thesis by blast
qed

definition shared_twice :: config where
  "shared_twice = the (schedule [Begin (Inc_Weak (1, 0)), Access (Inc_Weak (1, 0)), Begin (Att1 (0, 1)), Access (Att1 (0, 1)), Begin Dec1,
     Access (Att2 (0, 1)), Access Dec1, Access (Att_Cas (0, 1) 1), Access (Att2 (0, 1)), Access Dec2, Access (Att_Hard (0, 1) 0),
     Access Dec3, Access (Dec_Weak (0, 1)), Access (Dec_Weak (0, 0))] (first_held OBJECT_LIFETIME_STRONG))"

theorem ref_counts_safe_witness:
  "flight shared_twice = {#} \<and> strong_held shared_twice = 0 \<and> weak_held shared_twice = 1 \<and>
     \<not> object (refs shared_twice) \<and> impl (refs shared_twice)"
proof -
  let ?es = "[Begin (Inc_Weak (1, 0)), Access (Inc_Weak (1, 0)), Begin (Att1 (0, 1)), Access (Att1 (0, 1)), Begin Dec1,
     Access (Att2 (0, 1)), Access Dec1, Access (Att_Cas (0, 1) 1), Access (Att2 (0, 1)), Access Dec2, Access (Att_Hard (0, 1) 0),
     Access Dec3, Access (Dec_Weak (0, 1)), Access (Dec_Weak (0, 0))]"
  have run: "schedule ?es (first_held OBJECT_LIFETIME_STRONG) = Some shared_twice"
    unfolding shared_twice_def by (simp add: schedule_eval)
  have "flight shared_twice = {#} \<and> strong_held shared_twice = 0 \<and> weak_held shared_twice = 1"
    unfolding shared_twice_def by (simp add: schedule_eval)
  with ref_counts_safe [OF schedule_sound [OF run]] show ?thesis by simp
qed

text \<open>
  The first strong reference races with promotion: when a weak reference is promoted while the creator takes the first strong
  reference, both subtract the initial value, the count becomes negative, and once all references are dropped the object is still there
  although its counters are freed.
\<close>

theorem promotion_race_leaks:
  "\<exists>c. ref_steps (new_object OBJECT_LIFETIME_STRONG) c \<and> flight c = {#} \<and> strong_held c = 2 \<and> mStrong (refs c) = 2 - 2 ^ 28 \<and>
     (\<exists>d. ref_steps c d \<and> flight d = {#} \<and> strong_held d = 0 \<and> weak_held d = 0 \<and> object (refs d) \<and> \<not> impl (refs d))"
proof -
  let ?c = "\<lparr>refs = \<lparr>mStrong = 2 - 2 ^ 28, mWeak = 3, mFlags = OBJECT_LIFETIME_STRONG, object = True, impl = True, taken = 1\<rparr>,
     strong_held = 2, weak_held = 1, creator = False, flight = {#}\<rparr>"
  let ?d = "\<lparr>refs = \<lparr>mStrong = - (2 ^ 28), mWeak = 0, mFlags = OBJECT_LIFETIME_STRONG, object = True, impl = False, taken = 1\<rparr>,
     strong_held = 0, weak_held = 0, creator = False, flight = {#}\<rparr>"
  have one: "schedule [Begin (Inc_Weak (0, 0)), Access (Inc_Weak (0, 0)), Begin (Inc1 (0, 0)), Access (Inc1 (0, 0)), Access (Inc2 (0, 0)),
     Begin (Att1 (0, 1)), Access (Att1 (0, 1)), Access (Att2 (0, 1)), Access (Att_Cas (0, 1) (2 ^ 28 + 1)), Access (Att_Fix (0, 1)),
     Access (Att_Fix_Cas (0, 1) (2 ^ 28 + 2)), Access (Inc3 (0, 0)), Access (Inc4 (0, 0))] (new_object OBJECT_LIFETIME_STRONG) = Some ?c"
    by (simp add: schedule_eval)
  have two: "schedule [Begin Dec1, Access Dec1, Access (Dec_Weak (0, 0)), Begin Dec1, Access Dec1, Access (Dec_Weak (0, 0)),
     Begin (Dec_Weak (0, 0)), Access (Dec_Weak (0, 0)), Access (Dec_Weak2 (0, 0))] ?c = Some ?d"
    by (simp add: schedule_eval)
  show ?thesis using schedule_sound [OF one] schedule_sound [OF two] by (intro exI [of _ ?c] conjI exI [of _ ?d]) simp_all
qed

text \<open>
  The other half of the race: a promotion that saw no strong reference yet calls \<open>onLastStrongRef\<close> although two strong references are held.
\<close>

lemma promotion_race_spurious_last:
  "\<exists>c. ref_steps (new_object OBJECT_LIFETIME_STRONG) c \<and> flight c = {#} \<and> strong_held c = 2 \<and> taken (refs c) = 0"
proof -
  let ?c = "\<lparr>refs = \<lparr>mStrong = 2, mWeak = 3, mFlags = OBJECT_LIFETIME_STRONG, object = True, impl = True, taken = 0\<rparr>,
     strong_held = 2, weak_held = 1, creator = False, flight = {#}\<rparr>"
  have "schedule [Begin (Inc_Weak (0, 0)), Access (Inc_Weak (0, 0)), Begin (Att1 (0, 1)), Access (Att1 (0, 1)), Access (Att2 (0, 1)),
     Access (Att_Hard (0, 1) (2 ^ 28)), Begin (Inc1 (0, 0)), Access (Inc1 (0, 0)), Access (Inc2 (0, 0)), Access (Inc3 (0, 0)), Access (Inc4 (0, 0)),
     Access (Att_First (0, 1) (2 ^ 28)), Access (Att_First2 (0, 1)), Access (Att_First (0, 1) 1), Access (Att_Give (0, 1)), Access (Att_Fix (0, 1))]
     (new_object OBJECT_LIFETIME_STRONG) = Some ?c"
    by (simp add: schedule_eval)
  from schedule_sound [OF this] show ?thesis by (intro exI [of _ ?c]) simp
qed

end
