(* ===== verification/Mem_Dealer.thy ===== *)
theory Mem_Dealer
  imports Prelude
begin

text \<open>
  The heap allocator of the client library (\<open>libs/binder/MemoryDealer.cpp\<close>): the doubly linked list of chunks,
  best-fit allocation with splitting, deallocation with merging, the \<open>Allocation\<close> objects that give memory back when
  they are destroyed, and the dealer on top.
\<close>

section \<open>The linked list template\<close>

text \<open>
  \<open>LinkedList<NODE>\<close>: nodes live at addresses and carry \<open>prev\<close> and \<open>next\<close>; a null pointer is \<open>None\<close>. Following
  a pointer to a node that is not there is a fault (\<open>None\<close>).
\<close>

record node_links =
  nl_prev :: "nat option"
  nl_next :: "nat option"

record linked_list =
  mFirst :: "nat option"
  mLast :: "nat option"
  links :: "nat \<Rightarrow> node_links option"

definition set_prev :: "nat \<Rightarrow> nat option \<Rightarrow> linked_list \<Rightarrow> linked_list option" where
  "set_prev n p l = map_option (\<lambda>k. l\<lparr>links := (links l)(n \<mapsto> k\<lparr>nl_prev := p\<rparr>)\<rparr>) (links l n)"

definition set_next :: "nat \<Rightarrow> nat option \<Rightarrow> linked_list \<Rightarrow> linked_list option" where
  "set_next n p l = map_option (\<lambda>k. l\<lparr>links := (links l)(n \<mapsto> k\<lparr>nl_next := p\<rparr>)\<rparr>) (links l n)"

definition empty_list :: "(nat \<Rightarrow> node_links option) \<Rightarrow> linked_list" where
  "empty_list ns = \<lparr>mFirst = None, mLast = None, links = ns\<rparr>"

definition isEmpty :: "linked_list \<Rightarrow> bool" where
  "isEmpty l \<longleftrightarrow> mFirst l = None"

definition insertAfter :: "nat \<Rightarrow> nat \<Rightarrow> linked_list \<Rightarrow> linked_list option" where
  "insertAfter node new l0 = do {
     l1 \<leftarrow> set_prev new (Some node) l0;
     k \<leftarrow> links l1 node;
     l2 \<leftarrow> set_next new (nl_next k) l1;
     k2 \<leftarrow> links l2 node;
     l3 \<leftarrow> (case nl_next k2 of None \<Rightarrow> Some (l2\<lparr>mLast := Some new\<rparr>) | Some nx \<Rightarrow> set_prev nx (Some new) l2);
     set_next node (Some new) l3 }"

definition insertBefore :: "nat \<Rightarrow> nat \<Rightarrow> linked_list \<Rightarrow> linked_list option" where
  "insertBefore node new l0 = do {
     k \<leftarrow> links l0 node;
     l1 \<leftarrow> set_prev new (nl_prev k) l0;
     l2 \<leftarrow> set_next new (Some node) l1;
     k2 \<leftarrow> links l2 node;
     l3 \<leftarrow> (case nl_prev k2 of None \<Rightarrow> Some (l2\<lparr>mFirst := Some new\<rparr>) | Some pv \<Rightarrow> set_next pv (Some new) l2);
     set_prev node (Some new) l3 }"

definition insertHead :: "nat \<Rightarrow> linked_list \<Rightarrow> linked_list option" where
  "insertHead new l = (case mFirst l of
       None \<Rightarrow> do {
         l1 \<leftarrow> set_next new None (l\<lparr>mFirst := Some new, mLast := Some new\<rparr>);
         set_prev new None l1 }
     | Some f \<Rightarrow> do {
         l1 \<leftarrow> set_prev new None l;
         l2 \<leftarrow> set_next new (Some f) l1;
         l3 \<leftarrow> set_prev f (Some new) l2;
         Some (l3\<lparr>mFirst := Some new\<rparr>) })"

definition insertTail :: "nat \<Rightarrow> linked_list \<Rightarrow> linked_list option" where
  "insertTail new l = (case mLast l of
       None \<Rightarrow> insertHead new l
     | Some e \<Rightarrow> do {
         l1 \<leftarrow> set_prev new (Some e) l;
         l2 \<leftarrow> set_next new None l1;
         l3 \<leftarrow> set_next e (Some new) l2;
         Some (l3\<lparr>mLast := Some new\<rparr>) })"

definition list_remove :: "nat \<Rightarrow> linked_list \<Rightarrow> linked_list option" where
  "list_remove node l = do {
     k \<leftarrow> links l node;
     l1 \<leftarrow> (case nl_prev k of None \<Rightarrow> Some (l\<lparr>mFirst := nl_next k\<rparr>) | Some pv \<Rightarrow> set_next pv (nl_next k) l);
     k1 \<leftarrow> links l1 node;
     (case nl_next k1 of None \<Rightarrow> Some (l1\<lparr>mLast := nl_prev k1\<rparr>) | Some nx \<Rightarrow> set_prev nx (nl_prev k1) l1) }"

section \<open>Chunks\<close>

text \<open>
  \<open>chunk_t\<close>: start and size in units of \<open>kMemoryAlign\<close> bytes; \<open>size\<close> is a bit field of 28 bits, so that storing
  into it keeps the lower bits only. The list of chunks is the sequence that the linked list represents.
\<close>

abbreviation kMemoryAlign :: nat where "kMemoryAlign \<equiv> 32"

record chunk_t =
  c_start :: nat
  c_size :: nat
  c_free :: bool

definition bits28 :: "nat \<Rightarrow> nat" where
  "bits28 n = n mod 2 ^ 28"

definition new_chunk :: "nat \<Rightarrow> nat \<Rightarrow> chunk_t" where
  "new_chunk start sz = \<lparr>c_start = start, c_size = bits28 sz, c_free = True\<rparr>"

record best_fit =
  mList :: "chunk_t list"
  mHeapSize :: nat

definition page_round :: "nat \<Rightarrow> nat" where
  "page_round n = ((n + 4095) mod 2 ^ 64) div 4096 * 4096"

definition SimpleBestFitAllocator :: "nat \<Rightarrow> best_fit" where
  "SimpleBestFitAllocator sz =
     \<lparr>mList = [new_chunk 0 (page_round sz div kMemoryAlign)], mHeapSize = page_round sz\<rparr>"

section \<open>Allocation\<close>

abbreviation NO_MEMORY :: int where "NO_MEMORY \<equiv> - ENOMEM"

text \<open>
  \<open>-cur->start & ((pagesize/kMemoryAlign)-1)\<close>: units up to the next page boundary, when the lowest bit of the flags
  (\<open>PAGE_ALIGNED\<close>) is set.
\<close>

definition chunk_extra :: "nat \<Rightarrow> chunk_t \<Rightarrow> nat" where
  "chunk_extra flags c = (if flags mod 2 = 1 then (128 - c_start c mod 128) mod 128 else 0)"

definition size_units :: "nat \<Rightarrow> nat" where
  "size_units sz = ((sz + (kMemoryAlign - 1)) mod 2 ^ 64) div kMemoryAlign"

text \<open>The scan: \<open>best\<close> is the position and the chunk that \<open>free_chunk\<close> points to.\<close>

fun alloc_scan :: "nat \<Rightarrow> nat \<Rightarrow> chunk_t list \<Rightarrow> nat \<Rightarrow> (nat \<times> chunk_t) option \<Rightarrow> (nat \<times> chunk_t) option" where
  "alloc_scan units flags [] i best = best"
| "alloc_scan units flags (cur # rest) i best =
     (if c_free cur \<and> (units + chunk_extra flags cur) mod 2 ^ 64 \<le> c_size cur
      then (let best' = (case best of None \<Rightarrow> Some (i, cur)
                         | Some (j, b) \<Rightarrow> if c_size cur < c_size b then Some (i, cur) else best)
            in if c_size cur = units then best' else alloc_scan units flags rest (i + 1) best')
      else alloc_scan units flags rest (i + 1) best)"

definition alloc_chunk :: "nat \<Rightarrow> nat \<Rightarrow> best_fit \<Rightarrow> int \<times> best_fit" where
  "alloc_chunk sz flags a =
     (if sz = 0 then (0, a)
      else let units = size_units sz in
        case alloc_scan units flags (mList a) 0 None of
          None \<Rightarrow> (NO_MEMORY, a)
        | Some (i, c) \<Rightarrow>
            (let free_size = c_size c;
                 extra = (if units < free_size then chunk_extra flags c else 0);
                 taken = c\<lparr>c_free := False, c_size := bits28 units, c_start := c_start c + extra\<rparr>;
                 front = (if extra \<noteq> 0 then [new_chunk (c_start c) extra] else []);
                 tail_free = int free_size - int (units + extra);
                 back = (if units < free_size \<and> 0 < tail_free
                         then [new_chunk (c_start taken + c_size taken) (nat tail_free)] else [])
             in (int (c_start taken * kMemoryAlign),
                 a\<lparr>mList := take i (mList a) @ front @ [taken] @ back @ drop (i + 1) (mList a)\<rparr>)))"

section \<open>Deallocation\<close>

text \<open>
  The merging loop at the chunk \<open>cur\<close>: \<open>before\<close> holds the chunks in front of it, nearest first. A chunk is joined to its
  predecessor when that one is free (or the chunk is empty); the loop goes on while the next chunk is free.
\<close>

fun dealloc_merge :: "chunk_t list \<Rightarrow> chunk_t \<Rightarrow> chunk_t list \<Rightarrow> chunk_t list" where
  "dealloc_merge before cur rest =
     (let before' = (case before of
            p # ps \<Rightarrow> if c_free p \<or> c_size cur = 0 then p\<lparr>c_size := bits28 (c_size p + c_size cur)\<rparr> # ps else cur # before
          | [] \<Rightarrow> [cur])
      in case rest of
           n # ns \<Rightarrow> if c_free n then dealloc_merge before' n ns else rev before' @ rest
         | [] \<Rightarrow> rev before')"

fun dealloc_at :: "nat \<Rightarrow> chunk_t list \<Rightarrow> chunk_t list \<Rightarrow> chunk_t list option" where
  "dealloc_at start before [] = None"
| "dealloc_at start before (cur # rest) =
     (if c_start cur = start then Some (dealloc_merge before (cur\<lparr>c_free := True\<rparr>) rest)
      else dealloc_at start (cur # before) rest)"

abbreviation NAME_NOT_FOUND :: int where "NAME_NOT_FOUND \<equiv> - 2"

definition deallocate_chunk :: "nat \<Rightarrow> best_fit \<Rightarrow> int \<times> best_fit" where
  "deallocate_chunk offset a =
     (case dealloc_at (offset div kMemoryAlign) [] (mList a) of
        None \<Rightarrow> (NAME_NOT_FOUND, a)
      | Some cs \<Rightarrow> (0, a\<lparr>mList := cs\<rparr>))"

section \<open>Dealers and allocations\<close>

text \<open>
  An \<open>Allocation\<close> is an offset and a size. The dealer's heap is the bytes of its mapping; \<open>MADV_REMOVE\<close> gives pages
  back to the kernel, after which they read as zero.
\<close>

record allocation =
  al_offset :: nat
  al_size :: nat

record mem_dealer =
  md_alloc :: best_fit
  md_heap :: "byte list"

definition fill :: "byte \<Rightarrow> nat \<Rightarrow> nat \<Rightarrow> byte list \<Rightarrow> byte list option" where
  "fill v start n bs = (if start + n \<le> length bs then Some (take start bs @ replicate n v @ drop (start + n) bs) else None)"

definition MemoryDealer :: "nat \<Rightarrow> byte list \<Rightarrow> mem_dealer" where
  "MemoryDealer sz mem = \<lparr>md_alloc = SimpleBestFitAllocator sz, md_heap = mem\<rparr>"

text \<open>\<open>MemoryDealer::allocate\<close> with the constructor of \<open>Allocation\<close>, which fills the memory with \<open>0xda\<close>.\<close>

definition ssize_t :: "int \<Rightarrow> int" where
  "ssize_t n = (n + 2 ^ 63) mod 2 ^ 64 - 2 ^ 63"

definition md_allocate :: "nat \<Rightarrow> mem_dealer \<Rightarrow> (allocation option \<times> mem_dealer) option" where
  "md_allocate sz d =
     (case alloc_chunk sz 0 (md_alloc d) of (r, a) \<Rightarrow>
        if 0 \<le> ssize_t r
        then do {
          mem \<leftarrow> fill 0xda (nat (ssize_t r)) sz (md_heap d);
          Some (Some \<lparr>al_offset = nat (ssize_t r), al_size = sz\<rparr>, d\<lparr>md_alloc := a, md_heap := mem\<rparr>) }
        else Some (None, d\<lparr>md_alloc := a\<rparr>))"

text \<open>The pages that \<open>Allocation::~Allocation\<close> gives back to the kernel.\<close>

definition removed_pages :: "nat \<Rightarrow> nat \<Rightarrow> nat \<times> nat" where
  "removed_pages freedOffset freedSize =
     (let start0 = page_floor freedOffset;
          end0 = page_round ((freedOffset + freedSize) mod 2 ^ 64);
          free_end = (freedOffset + freedSize) mod 2 ^ 64;
          start1 = (if start0 < freedOffset then freedOffset else start0);
          end1 = (if free_end < end0 then free_end else end0)
      in (page_round start1, page_floor end1))"

definition allocation_destroy :: "allocation \<Rightarrow> mem_dealer \<Rightarrow> mem_dealer option" where
  "allocation_destroy al d =
     (if al_size al = 0 then Some d
      else case removed_pages (al_offset al) (al_size al) of (start, end') \<Rightarrow> do {
        mem \<leftarrow> (if start < end' then do {
                    h \<leftarrow> fill 0xdf start (end' - start) (md_heap d);
                    fill 0 start (end' - start) h }
                 else Some (md_heap d));
        Some (d\<lparr>md_alloc := snd (deallocate_chunk (al_offset al) (md_alloc d)), md_heap := mem\<rparr>) })"

end
