(* ===== verification/Mem_Dealer_List.thy ===== *)
theory Mem_Dealer_List
  imports Mem_Dealer
begin

text \<open>
  The linked list of \<open>MemoryDealer.cpp\<close> implements sequences: what a list structure represents, and that each operation
  on the pointers is the operation on the sequence.
\<close>

section \<open>Segments of a doubly linked list\<close>

definition first_or :: "nat list \<Rightarrow> nat option \<Rightarrow> nat option" where
  "first_or xs q = (case xs of [] \<Rightarrow> q | x # _ \<Rightarrow> Some x)"

definition last_or :: "nat option \<Rightarrow> nat list \<Rightarrow> nat option" where
  "last_or p xs = (if xs = [] then p else Some (last xs))"

fun segment :: "(nat \<Rightarrow> node_links option) \<Rightarrow> nat option \<Rightarrow> nat list \<Rightarrow> nat option \<Rightarrow> bool" where
  "segment h p [] q = True"
| "segment h p (x # xs) q = (h x = Some \<lparr>nl_prev = p, nl_next = first_or xs q\<rparr> \<and> segment h (Some x) xs q)"

definition represents :: "linked_list \<Rightarrow> nat list \<Rightarrow> bool" where
  "represents l xs \<longleftrightarrow>
     distinct xs \<and> mFirst l = first_or xs None \<and> mLast l = last_or None xs \<and> segment (links l) None xs None"

lemma first_or_simps [simp]:
  "first_or [] q = q"
  "first_or (x # xs) q = Some x"
  by (simp_all add: first_or_def)

lemma last_or_simps [simp]:
  "last_or p [] = p"
  "last_or p (xs @ [x]) = Some x"
  "last_or p (x # xs) = last_or (Some x) xs"
  by (simp_all add: last_or_def)

lemma first_or_append [simp]: "first_or (xs @ ys) q = first_or xs (first_or ys q)"
  by (cases xs) simp_all

lemma last_or_append [simp]: "last_or p (xs @ ys) = last_or (last_or p xs) ys"
  by (simp add: last_or_def)

lemma segment_append:
  "segment h p (xs @ ys) q \<longleftrightarrow> segment h p xs (first_or ys q) \<and> segment h (last_or p xs) ys q"
  by (induction xs arbitrary: p) auto

lemma segment_frame [simp]: "x \<notin> set xs \<Longrightarrow> segment (h(x \<mapsto> k)) p xs q = segment h p xs q"
  by (induction xs arbitrary: p) auto

lemmas link_defs = set_prev_def set_next_def insertAfter_def insertBefore_def insertHead_def insertTail_def list_remove_def
lemmas seg_simps = represents_def segment_append

section \<open>The operations\<close>

lemma empty_list_represents: "represents (empty_list ns) []"
  by (simp add: represents_def empty_list_def)

lemma isEmpty_represents: "represents l xs \<Longrightarrow> isEmpty l \<longleftrightarrow> xs = []"
  by (cases xs) (auto simp: represents_def isEmpty_def)

lemma insertAfter_represents:
  assumes "represents l (xs @ x # ys)" and "links l n = Some k" and "n \<notin> set (xs @ x # ys)"
  shows "\<exists>l'. insertAfter x n l = Some l' \<and> represents l' (xs @ x # n # ys)"
  using assms by (cases ys) (auto simp: link_defs seg_simps last_or_def)

lemma insertBefore_represents:
  assumes "represents l (xs @ x # ys)" and "links l n = Some k" and "n \<notin> set (xs @ x # ys)"
  shows "\<exists>l'. insertBefore x n l = Some l' \<and> represents l' (xs @ n # x # ys)"
  using assms by (cases xs rule: rev_cases) (auto simp: link_defs seg_simps last_or_def split: option.splits)

lemma insertHead_represents:
  assumes "represents l xs" and "links l n = Some k" and "n \<notin> set xs"
  shows "\<exists>l'. insertHead n l = Some l' \<and> represents l' (n # xs)"
  using assms by (cases xs) (auto simp: link_defs seg_simps last_or_def)

lemma insertTail_represents:
  assumes "represents l xs" and "links l n = Some k" and "n \<notin> set xs"
  shows "\<exists>l'. insertTail n l = Some l' \<and> represents l' (xs @ [n])"
  using assms by (cases xs rule: rev_cases) (auto simp: link_defs seg_simps last_or_def)

lemma list_remove_represents:
  assumes "represents l (xs @ x # ys)"
  shows "\<exists>l'. list_remove x l = Some l' \<and> represents l' (xs @ ys)"
  using assms by (cases xs rule: rev_cases; cases ys) (auto simp: link_defs seg_simps last_or_def)

end
