(* ===== verification/Mem_Dealer_Props.thy ===== *)
theory Mem_Dealer_Props
  imports Mem_Dealer_List
begin

text \<open>
  Correctness of the heap allocator of the client library: the chunks tile the heap and free neighbours are always joined; allocation and
  deallocation act on the map of the blocks in use, which is stated as an interface and interpreted on the allocator; and what a dealer
  does for one allocation leaves the memory of the others alone.
\<close>

section \<open>Invariant\<close>

fun tiles :: "nat \<Rightarrow> chunk_t list \<Rightarrow> nat \<Rightarrow> bool" where
  "tiles s [] e \<longleftrightarrow> s = e"
| "tiles s (c # cs) e \<longleftrightarrow> c_start c = s \<and> 0 < c_size c \<and> tiles (s + c_size c) cs e"

abbreviation joined :: "chunk_t list \<Rightarrow> bool" where
  "joined \<equiv> successively (\<lambda>a b. \<not> (c_free a \<and> c_free b))"

definition heap_ok :: "best_fit \<Rightarrow> bool" where
  "heap_ok a \<longleftrightarrow> tiles 0 (mList a) (mHeapSize a div 32) \<and> joined (mList a) \<and>
     mHeapSize a mod 4096 = 0 \<and> mHeapSize a div 32 < 2 ^ 28"

text \<open>The blocks in use: start and size in units.\<close>

definition blocks :: "best_fit \<Rightarrow> nat \<Rightarrow> nat option" where
  "blocks a = map_of (map (\<lambda>c. (c_start c, c_size c)) (filter (\<lambda>c. \<not> c_free c) (mList a)))"

abbreviation in_use :: "chunk_t list \<Rightarrow> (nat \<times> nat) list" where
  "in_use cs \<equiv> map (\<lambda>c. (c_start c, c_size c)) (filter (\<lambda>c. \<not> c_free c) cs)"

lemma tiles_append:
  "tiles s (xs @ ys) e \<longleftrightarrow> (\<exists>m. tiles s xs m \<and> tiles m ys e)"
  by (induction xs arbitrary: s) auto

lemma tiles_le: "tiles s xs e \<Longrightarrow> s \<le> e"
  by (induction xs arbitrary: s) (auto dest: add_leD1)

lemma tiles_bounds:
  "tiles s xs e \<Longrightarrow> c \<in> set xs \<Longrightarrow> s \<le> c_start c \<and> c_start c + c_size c \<le> e \<and> 0 < c_size c"
  by (induction xs arbitrary: s) (fastforce dest: tiles_le)+

lemma tiles_disjoint:
  "tiles s (xs @ c # ys) e \<Longrightarrow> d \<in> set xs \<or> d \<in> set ys \<Longrightarrow>
     c_start d + c_size d \<le> c_start c \<or> c_start c + c_size c \<le> c_start d"
  by (auto simp: tiles_append dest: tiles_bounds)

lemma tiles_starts:
  assumes "tiles s (xs @ c # ys) e" and "d \<in> set xs \<or> d \<in> set ys"
  shows "c_start d \<noteq> c_start c"
  using tiles_disjoint [OF assms] assms tiles_bounds [OF assms(1), of d] tiles_bounds [OF assms(1), of c] by auto

lemma map_of_in_use_None:
  "(\<And>d. d \<in> set cs \<Longrightarrow> c_start d \<noteq> s) \<Longrightarrow> map_of (in_use cs) s = None"
  by (force simp: map_of_eq_None_iff)

lemma map_of_in_use_mid:
  assumes "tiles s0 (xs @ c # ys) e"
  shows "map_of (in_use (xs @ c # ys)) =
    (\<lambda>s. if s = c_start c then (if c_free c then None else Some (c_size c)) else map_of (in_use (xs @ ys)) s)"
proof -
  have "map_of (in_use xs) (c_start c) = None" and "map_of (in_use ys) (c_start c) = None"
    using tiles_starts [OF assms] by (auto intro: map_of_in_use_None)
  then show ?thesis by (auto simp: map_add_def fun_eq_iff split: option.splits)
qed

lemma in_use_block:
  assumes "tiles s0 cs e" and "map_of (in_use cs) s = Some n"
  shows "\<exists>xs c ys. cs = xs @ c # ys \<and> c_start c = s \<and> c_size c = n \<and> \<not> c_free c"
proof -
  obtain c where "c \<in> set cs" "c_start c = s" "c_size c = n" "\<not> c_free c"
    using map_of_SomeD [OF assms(2)] by auto
  then show ?thesis using split_list [of c cs] by blast
qed

section \<open>The scan\<close>

definition fits :: "nat \<Rightarrow> nat \<Rightarrow> chunk_t \<Rightarrow> bool" where
  "fits units flags c \<longleftrightarrow> c_free c \<and> units + chunk_extra flags c \<le> c_size c"

lemma chunk_extra_less: "chunk_extra flags c < 128"
  by (simp add: chunk_extra_def)

lemma size_units_less: "size_units sz < 2 ^ 59"
proof -
  have "(sz + 31) mod 2 ^ 64 < (2::nat) ^ 64" by simp
  then show ?thesis unfolding size_units_def by (simp add: less_mult_imp_div_less)
qed

lemma fits_mod:
  "units < 2 ^ 59 \<Longrightarrow> (c_free c \<and> (units + chunk_extra flags c) mod 2 ^ 64 \<le> c_size c) = fits units flags c"
  using chunk_extra_less [of flags c] by (simp add: fits_def)

text \<open>What the scan remembers after it has seen a chunk that fits.\<close>

definition better :: "nat \<Rightarrow> chunk_t \<Rightarrow> (nat \<times> chunk_t) option \<Rightarrow> nat \<times> chunk_t" where
  "better i c best = (case best of None \<Rightarrow> (i, c) | Some (j, b) \<Rightarrow> if c_size c < c_size b then (i, c) else (j, b))"

lemma alloc_scan_step:
  assumes "units < 2 ^ 59"
  shows "alloc_scan units flags (c # cs) i best =
    (if fits units flags c
     then if c_size c = units then Some (better i c best) else alloc_scan units flags cs (i + 1) (Some (better i c best))
     else alloc_scan units flags cs (i + 1) best)"
proof -
  have "(case best of None \<Rightarrow> Some (i, c) | Some (j, b) \<Rightarrow> if c_size c < c_size b then Some (i, c) else best) = Some (better i c best)"
    by (auto simp: better_def split: option.splits)
  then show ?thesis by (simp add: Let_def fits_mod [OF assms] del: power_numeral)
qed

declare alloc_scan.simps(2) [simp del]

lemma better_cases: "better i c best = (i, c) \<or> best = Some (better i c best)"
  by (auto simp: better_def split: option.splits)

lemma better_le:
  "c_size (snd (better i c best)) \<le> c_size c"
  "best = Some (j, b) \<Longrightarrow> c_size (snd (better i c best)) \<le> c_size b"
  by (auto simp: better_def split: option.splits)

lemma alloc_scan_none:
  assumes "units < 2 ^ 59"
  shows "alloc_scan units flags cs i best = None \<longleftrightarrow> best = None \<and> (\<forall>c \<in> set cs. \<not> fits units flags c)"
  by (induction cs arbitrary: i best) (auto simp: alloc_scan_step [OF assms] simp del: not_None_eq)

lemma alloc_scan_some:
  assumes "units < 2 ^ 59" and "alloc_scan units flags cs i best = Some (j, c)"
  shows "best = Some (j, c) \<or> (i \<le> j \<and> j - i < length cs \<and> c = cs ! (j - i) \<and> fits units flags c)"
  using assms(2)
proof (induction cs arbitrary: i best)
  case (Cons d cs)
  have "best = Some (j, c) \<or> (j = i \<and> c = d \<and> fits units flags d) \<or>
      (i + 1 \<le> j \<and> j - (i + 1) < length cs \<and> c = cs ! (j - (i + 1)) \<and> fits units flags c)"
    using Cons.prems Cons.IH better_cases [of i d best]
    by (auto simp: alloc_scan_step [OF assms(1)] split: if_splits dest!: Cons.IH)
  then show ?case by (auto simp: nth_Cons' split: if_splits)
qed simp

lemma alloc_scan_best:
  assumes "units < 2 ^ 59" and "alloc_scan units flags cs i best = Some (j, c)"
  shows "(\<forall>d \<in> set cs. fits units flags d \<longrightarrow> c_size c \<le> c_size d) \<and> (\<forall>k b. best = Some (k, b) \<longrightarrow> c_size c \<le> c_size b)"
  using assms(2)
proof (induction cs arbitrary: i best)
  case (Cons d cs)
  let ?b = "better i d best"
  show ?case
  proof (cases "fits units flags d")
    case True
    have "(\<forall>x \<in> set cs. fits units flags x \<longrightarrow> c_size c \<le> c_size x) \<and> c_size c \<le> c_size (snd ?b)"
    proof (cases "c_size d = units")
      case exact: True
      then have "c = snd ?b" using Cons.prems True by (simp add: alloc_scan_step [OF assms(1)])
      with exact show ?thesis using better_le(1) [of i d best] by (auto simp: fits_def)
    next
      case False
      then have "alloc_scan units flags cs (i + 1) (Some ?b) = Some (j, c)"
        using Cons.prems True by (simp add: alloc_scan_step [OF assms(1)])
      from Cons.IH [OF this] show ?thesis by (metis prod.collapse)
    qed
    then show ?thesis using better_le(1) [of i d best] better_le(2) [of best _ _ i d] by (auto intro: order_trans)
  next
    case False
    then show ?thesis using Cons.prems by (auto simp: alloc_scan_step [OF assms(1)] dest: Cons.IH)
  qed
qed simp

section \<open>Allocation\<close>

text \<open>The chunks that take the place of a chosen chunk: padding up to a page, the block, and the rest.\<close>

definition pieces :: "nat \<Rightarrow> nat \<Rightarrow> chunk_t \<Rightarrow> chunk_t list" where
  "pieces units extra c =
     (if extra = 0 then [] else [\<lparr>c_start = c_start c, c_size = extra, c_free = True\<rparr>]) @
     [\<lparr>c_start = c_start c + extra, c_size = units, c_free = False\<rparr>] @
     (if units + extra = c_size c then []
      else [\<lparr>c_start = c_start c + extra + units, c_size = c_size c - (units + extra), c_free = True\<rparr>])"

lemma pieces_tile:
  assumes "tiles s (xs @ c # ys) e" and "0 < units" and "units + extra \<le> c_size c"
  shows "tiles s (xs @ pieces units extra c @ ys) e"
proof -
  obtain m where m: "tiles s xs m" "c_start c = m" "tiles (m + c_size c) ys e" using assms(1) by (auto simp: tiles_append)
  have "tiles m (pieces units extra c) (m + c_size c)" using assms(2,3) m(2) by (auto simp: pieces_def)
  with m show ?thesis by (auto simp: tiles_append)
qed

lemma pieces_joined:
  assumes "joined (xs @ c # ys)" and "c_free c"
  shows "joined (xs @ pieces units extra c @ ys)"
  using assms by (auto simp: successively_append_iff successively_Cons pieces_def)

lemma pieces_in_use:
  assumes "tiles s0 (xs @ c # ys) e" and "c_free c" and "0 < units" and "units + extra \<le> c_size c"
  shows "map_of (in_use (xs @ pieces units extra c @ ys)) = (map_of (in_use (xs @ c # ys)))(c_start c + extra \<mapsto> units)"
    and "map_of (in_use (xs @ c # ys)) (c_start c + extra) = None"
proof -
  have other: "c_start d \<noteq> c_start c + extra" if "d \<in> set xs \<or> d \<in> set ys" for d
  proof -
    have "0 < c_size d" using tiles_bounds [OF assms(1), of d] that by auto
    then show ?thesis using tiles_disjoint [OF assms(1) that] assms(3,4) by auto
  qed
  have x: "map_of (in_use xs) (c_start c + extra) = None" and y: "map_of (in_use ys) (c_start c + extra) = None"
    using other by (auto intro!: map_of_in_use_None)
  have p: "in_use (pieces units extra c) = [(c_start c + extra, units)]" by (simp add: pieces_def)
  show "map_of (in_use (xs @ pieces units extra c @ ys)) = (map_of (in_use (xs @ c # ys)))(c_start c + extra \<mapsto> units)"
    using x y p assms(2) by (auto simp: map_add_def fun_eq_iff split: option.splits)
  show "map_of (in_use (xs @ c # ys)) (c_start c + extra) = None"
    using x y assms(2) by (simp add: map_add_def)
qed

lemma pad_to_128: "(s + (128 - s mod 128) mod 128) mod 128 = (0::nat)"
proof (cases "s mod 128 = 0")
  case False
  obtain q r where s: "s = 128 * q + r" "s mod 128 = r" "r < 128" using that [of "s div 128" "s mod 128"] by simp
  then have "s + (128 - s mod 128) mod 128 = 128 * (q + 1)" using False by (simp add: mod_less)
  then show ?thesis by (simp only: mod_mult_self1_is_0)
qed simp

lemma extra_aligned:
  assumes "odd flags"
  shows "(c_start c + chunk_extra flags c) * 32 mod 4096 = 0"
proof -
  have "(c_start c + chunk_extra flags c) mod 128 = 0"
    using pad_to_128 [of "c_start c"] assms by (simp add: chunk_extra_def odd_iff_mod_2_eq_one)
  then obtain k where "c_start c + chunk_extra flags c = 128 * k" by (metis mod_0_imp_dvd dvdE)
  then show ?thesis by simp
qed

lemma aligned_int: "x mod 4096 = 0 \<Longrightarrow> int x mod 4096 = 0"
  by presburger

lemma alloc_chunk_run:
  assumes ok: "heap_ok a" and sz: "0 < sz" and scan: "alloc_scan (size_units sz) flags (mList a) 0 None = Some (i, c)"
  obtains xs ys where "mList a = xs @ c # ys" and "fits (size_units sz) flags c"
    and "alloc_chunk sz flags a = (int ((c_start c + chunk_extra flags c) * 32),
           a\<lparr>mList := xs @ pieces (size_units sz) (chunk_extra flags c) c @ ys\<rparr>)"
proof -
  let ?u = "size_units sz" and ?e = "chunk_extra flags c"
  have i: "i < length (mList a)" "c = mList a ! i" and f: "fits ?u flags c"
    using alloc_scan_some [OF size_units_less scan] by auto
  have split: "mList a = take i (mList a) @ c # drop (i + 1) (mList a)" using id_take_nth_drop [OF i(1)] i(2) by simp
  have "c_start c + c_size c \<le> mHeapSize a div 32" "mHeapSize a div 32 < 2 ^ 28"
    using ok tiles_bounds [of 0 "mList a" _ c] i by (auto simp: heap_ok_def)
  then have c: "c_size c < 2 ^ 28" by linarith
  have ue: "?u + ?e \<le> c_size c" "c_free c" using f by (auto simp: fits_def)
  have b: "bits28 ?u = ?u" "bits28 ?e = ?e" "bits28 (c_size c - (?u + ?e)) = c_size c - (?u + ?e)"
    using c ue by (simp_all add: bits28_def)
  have e: "(if ?u < c_size c then ?e else 0) = ?e" using ue by auto
  have taken: "c\<lparr>c_free := False, c_size := ?u, c_start := c_start c + x\<rparr> = \<lparr>c_start = c_start c + x, c_size = ?u, c_free = False\<rparr>" for x
    by (cases c) simp
  have rest: "nat (int (c_size c) - (int ?u + int ?e)) = c_size c - (?u + ?e)" "int ?u + int ?e < int (c_size c) \<longleftrightarrow> ?u + ?e \<noteq> c_size c"
    using ue(1) by auto
  have "alloc_chunk sz flags a = (int ((c_start c + ?e) * 32),
      a\<lparr>mList := take i (mList a) @ pieces ?u ?e c @ drop (i + 1) (mList a)\<rparr>)"
    unfolding alloc_chunk_def using sz scan b e taken rest ue(1)
    by (auto simp: Let_def pieces_def new_chunk_def ac_simps)
  with split f show thesis by (intro that) auto
qed

lemma alloc_chunk_correct:
  assumes ok: "heap_ok a" and sz: "0 < size_units sz" and run: "alloc_chunk sz flags a = (r, a')"
  shows "heap_ok a' \<and> mHeapSize a' = mHeapSize a \<and>
    (if \<exists>c \<in> set (mList a). fits (size_units sz) flags c
     then \<exists>s. r = int (s * 32) \<and> blocks a s = None \<and> blocks a' = (blocks a)(s \<mapsto> size_units sz) \<and> (odd flags \<longrightarrow> s * 32 mod 4096 = 0)
     else r = NO_MEMORY \<and> a' = a)"
proof (cases "alloc_scan (size_units sz) flags (mList a) 0 None")
  case None
  moreover have "sz \<noteq> 0" using sz by (auto simp: size_units_def)
  ultimately show ?thesis
    using run ok alloc_scan_none [OF size_units_less, of sz flags "mList a" 0 None] by (auto simp: alloc_chunk_def Let_def)
next
  case (Some ic)
  then obtain i c where scan: "alloc_scan (size_units sz) flags (mList a) 0 None = Some (i, c)" by (cases ic) auto
  have "0 < sz" using sz by (cases sz) (auto simp: size_units_def)
  from alloc_chunk_run [OF ok this scan] obtain xs ys where m: "mList a = xs @ c # ys" and f: "fits (size_units sz) flags c"
    and res: "alloc_chunk sz flags a = (int ((c_start c + chunk_extra flags c) * 32),
           a\<lparr>mList := xs @ pieces (size_units sz) (chunk_extra flags c) c @ ys\<rparr>)" .
  have a': "r = int ((c_start c + chunk_extra flags c) * 32)"
      "a' = a\<lparr>mList := xs @ pieces (size_units sz) (chunk_extra flags c) c @ ys\<rparr>"
    using run res by simp_all
  let ?s = "c_start c + chunk_extra flags c"
  have t: "tiles 0 (xs @ c # ys) (mHeapSize a div 32)" "joined (xs @ c # ys)" using ok m by (auto simp: heap_ok_def)
  have ue: "size_units sz + chunk_extra flags c \<le> c_size c" "c_free c" using f by (auto simp: fits_def)
  have "heap_ok a'" using pieces_tile [OF t(1) sz ue(1)] pieces_joined [OF t(2) ue(2)] ok by (simp add: heap_ok_def a')
  moreover have "blocks a' = (blocks a)(?s \<mapsto> size_units sz)" "blocks a ?s = None"
    using pieces_in_use [OF t(1) ue(2) sz ue(1)] by (simp_all add: blocks_def a' m)
  moreover have "odd flags \<longrightarrow> ?s * 32 mod 4096 = 0" using extra_aligned by blast
  ultimately have "\<exists>s. r = int (s * 32) \<and> blocks a s = None \<and> blocks a' = (blocks a)(s \<mapsto> size_units sz) \<and> (odd flags \<longrightarrow> s * 32 mod 4096 = 0)"
    using a'(1) by (intro exI [of _ ?s] conjI) assumption+
  moreover have "\<exists>c \<in> set (mList a). fits (size_units sz) flags c" using f m by auto
  moreover have "mHeapSize a' = mHeapSize a" by (simp add: a'(2))
  ultimately show ?thesis using \<open>heap_ok a'\<close> by presburger
qed

section \<open>Deallocation\<close>

declare dealloc_merge.simps [simp del]

lemma dealloc_at_absent:
  "(\<forall>c \<in> set cs. c_start c \<noteq> s) \<Longrightarrow> dealloc_at s before cs = None"
  by (induction cs arbitrary: before) auto

lemma dealloc_at_mid:
  "(\<forall>d \<in> set xs. c_start d \<noteq> c_start c) \<Longrightarrow>
     dealloc_at (c_start c) before (xs @ c # ys) = Some (dealloc_merge (rev xs @ before) (c\<lparr>c_free := True\<rparr>) ys)"
  by (induction xs arbitrary: before) auto

text \<open>Joining a chunk that has just become free with free neighbours.\<close>

definition join :: "chunk_t \<Rightarrow> chunk_t \<Rightarrow> chunk_t" where
  "join p c = p\<lparr>c_size := c_size p + c_size c\<rparr>"

lemma tiles_join:
  "tiles s (xs @ p # c # ys) e \<Longrightarrow> tiles s (xs @ join p c # ys) e"
  by (auto simp: tiles_append join_def add.assoc)

lemma in_use_join:
  "c_free p \<Longrightarrow> c_free c \<Longrightarrow> in_use (xs @ join p c # ys) = in_use (xs @ p # c # ys)"
  by (simp add: join_def)

lemma bits28_join:
  assumes "tiles s (xs @ p # c # ys) e" and "e < 2 ^ 28"
  shows "p\<lparr>c_size := bits28 (c_size p + c_size c)\<rparr> = join p c"
proof -
  have "c_start p + c_size p = c_start c" using assms(1) by (auto simp: tiles_append)
  moreover have "c_start c + c_size c \<le> e" using tiles_bounds [OF assms(1), of c] by simp
  ultimately have "c_size p + c_size c < 2 ^ 28" using assms(2) by linarith
  then show ?thesis by (simp add: join_def bits28_def)
qed

text \<open>
  One round of the merging loop, on a list that is joined up to the chunk in front of \<open>c\<close> and from the one behind it on.
\<close>

lemma merge_rounds:
  assumes "tiles 0 (rev before @ c # rest) e" and "e < 2 ^ 28" and "c_free c"
    and "joined (rev before)" and "joined rest"
  shows "tiles 0 (dealloc_merge before c rest) e \<and> joined (dealloc_merge before c rest) \<and>
    in_use (dealloc_merge before c rest) = in_use (rev before @ c # rest)"
  using assms
proof (induction before c rest rule: dealloc_merge.induct)
  case (1 before c rest)
  define b where "b = (case before of p # ps \<Rightarrow> if c_free p then join p c # ps else c # before | [] \<Rightarrow> [c])"
  have c: "0 < c_size c" using tiles_bounds [OF "1.prems"(1), of c] by simp
  have b': "(case before of p # ps \<Rightarrow> if c_free p \<or> c_size c = 0 then p\<lparr>c_size := bits28 (c_size p + c_size c)\<rparr> # ps else c # before
      | [] \<Rightarrow> [c]) = b"
  proof (cases before)
    case (Cons p ps)
    then have "p\<lparr>c_size := bits28 (c_size p + c_size c)\<rparr> = join p c"
      using bits28_join [of 0 "rev ps" p c rest e] "1.prems"(1,2) by simp
    then show ?thesis using c Cons by (simp add: b_def)
  qed (simp add: b_def)
  have t: "tiles 0 (rev b @ rest) e" and u: "in_use (rev b @ rest) = in_use (rev before @ c # rest)" and hd: "b \<noteq> []" "c_free (hd b)"
    and j: "joined (rev b)"
    using "1.prems" tiles_join [of 0 "rev (tl before)" "hd before" c rest e]
    by (auto simp: b_def in_use_join join_def successively_append_iff successively_Cons split: list.splits)
  have eq: "dealloc_merge before c rest = (case rest of n # ns \<Rightarrow> if c_free n then dealloc_merge b n ns else rev b @ rest | [] \<Rightarrow> rev b)"
    by (subst dealloc_merge.simps) (simp only: b' Let_def)
  show ?case
  proof (cases "rest \<noteq> [] \<and> c_free (hd rest)")
    case True
    then obtain n ns where r: "rest = n # ns" "c_free n" by (cases rest) auto
    have "joined ns" using "1.prems"(5) r by (cases ns) auto
    then have "tiles 0 (dealloc_merge b n ns) e \<and> joined (dealloc_merge b n ns) \<and> in_use (dealloc_merge b n ns) = in_use (rev b @ n # ns)"
      using "1.IH" [OF b' [symmetric] r(1) r(2)] t "1.prems"(2) r j by simp
    moreover have "dealloc_merge before c rest = dealloc_merge b n ns" unfolding eq using r by simp
    ultimately show ?thesis using u r(1) by (simp only:)
  next
    case False
    then have "dealloc_merge before c rest = rev b @ rest" unfolding eq by (cases rest) auto
    moreover have "joined (rev b @ rest)" using False j "1.prems"(5) by (auto simp: successively_append_iff)
    ultimately show ?thesis using t u by simp
  qed
qed

lemma joined_around:
  "joined (xs @ c # ys) \<Longrightarrow> joined xs \<and> joined ys"
  by (auto simp: successively_append_iff successively_Cons)

lemma deallocate_chunk_correct:
  assumes ok: "heap_ok a" and live: "blocks a s = Some n" and run: "deallocate_chunk (s * 32) a = (r, a')"
  shows "r = 0 \<and> heap_ok a' \<and> mHeapSize a' = mHeapSize a \<and> blocks a' = (blocks a)(s := None)"
proof -
  have tl: "tiles 0 (mList a) (mHeapSize a div 32)" "mHeapSize a div 32 < 2 ^ 28" "joined (mList a)" using ok by (auto simp: heap_ok_def)
  obtain xs c ys where m: "mList a = xs @ c # ys" "c_start c = s" "\<not> c_free c"
    using in_use_block [OF tl(1), of s n] live unfolding blocks_def by blast
  let ?c = "c\<lparr>c_free := True\<rparr>"
  have t: "tiles 0 (xs @ ?c # ys) (mHeapSize a div 32)" using tl(1) by (simp add: m(1) tiles_append)
  have "\<forall>d \<in> set xs. c_start d \<noteq> s" using tiles_starts [OF t] m(2) by auto
  then have d: "dealloc_at s [] (mList a) = Some (dealloc_merge (rev xs) ?c ys)"
    using dealloc_at_mid [of xs c "[]" ys] m by simp
  have r: "tiles 0 (dealloc_merge (rev xs) ?c ys) (mHeapSize a div 32) \<and> joined (dealloc_merge (rev xs) ?c ys) \<and>
      in_use (dealloc_merge (rev xs) ?c ys) = in_use (xs @ ?c # ys)"
    using merge_rounds [of "rev xs" ?c ys] t tl(2) joined_around [of xs c ys] tl(3) m(1) by simp
  moreover have "map_of (in_use (xs @ ?c # ys)) = (map_of (in_use (xs @ c # ys)))(s := None)"
    unfolding map_of_in_use_mid [OF t] map_of_in_use_mid [OF tl(1) [unfolded m(1)]] using m(2) by (simp add: fun_eq_iff)
  moreover have "r = 0" "a' = a\<lparr>mList := dealloc_merge (rev xs) ?c ys\<rparr>" using run d by (simp_all add: deallocate_chunk_def)
  ultimately have "blocks a' = (blocks a)(s := None)" "tiles 0 (mList a') (mHeapSize a' div 32)" "joined (mList a')"
    "mHeapSize a' = mHeapSize a"
    by (simp_all add: blocks_def m(1))
  then show ?thesis using ok \<open>r = 0\<close> unfolding heap_ok_def by metis
qed

text \<open>Freeing something that is not in use, a second time for example, changes nothing.\<close>

lemma deallocate_chunk_unused:
  assumes ok: "heap_ok a" and unused: "blocks a (off div 32) = None" and run: "deallocate_chunk off a = (r, a')"
  shows "a' = a"
proof (cases "\<exists>c \<in> set (mList a). c_start c = off div 32")
  case True
  have tl: "tiles 0 (mList a) (mHeapSize a div 32)" "joined (mList a)" using ok by (auto simp: heap_ok_def)
  obtain xs c ys where m: "mList a = xs @ c # ys" "c_start c = off div 32" using True split_list by metis
  have t: "tiles 0 (xs @ c # ys) (mHeapSize a div 32)" using tl m by simp
  have f: "c_free c" using unused map_of_in_use_mid [OF t] m by (auto simp: blocks_def split: if_splits)
  then have fc: "c\<lparr>c_free := True\<rparr> = c" by (cases c) simp
  have "\<forall>d \<in> set xs. c_start d \<noteq> c_start c" using tiles_starts [OF t] by auto
  from dealloc_at_mid [OF this, of "[]" ys] have "dealloc_at (off div 32) [] (mList a) = Some (dealloc_merge (rev xs) c ys)"
    using m fc by simp
  moreover have "dealloc_merge (rev xs) c ys = xs @ c # ys"
    using tl(2) f tiles_bounds [OF t, of c] m
    by (subst dealloc_merge.simps, cases xs rule: rev_cases; cases ys) (auto simp: successively_append_iff successively_Cons)
  ultimately show ?thesis using run m by (auto simp: deallocate_chunk_def)
next
  case False
  then show ?thesis using run dealloc_at_absent [of "mList a"] by (auto simp: deallocate_chunk_def)
qed

section \<open>Blocks\<close>

lemma blocks_inside:
  assumes "heap_ok a" and "blocks a s = Some n"
  shows "0 < n \<and> (s + n) * 32 \<le> mHeapSize a"
proof -
  have t: "tiles 0 (mList a) (mHeapSize a div 32)" using assms(1) by (simp add: heap_ok_def)
  obtain xs c ys where "mList a = xs @ c # ys" "c_start c = s" "c_size c = n"
    using in_use_block [OF t, of s n] assms(2) unfolding blocks_def by blast
  then have "s + n \<le> mHeapSize a div 32" "0 < n" using tiles_bounds [OF t, of c] by auto
  then show ?thesis by (simp add: less_eq_div_iff_mult_less_eq)
qed

lemma blocks_disjoint:
  assumes "heap_ok a" and "blocks a s = Some n" and "blocks a t = Some m" and "s \<noteq> t"
  shows "s + n \<le> t \<or> t + m \<le> s"
proof -
  have tl: "tiles 0 (mList a) (mHeapSize a div 32)" using assms(1) by (simp add: heap_ok_def)
  obtain xs c ys where c: "mList a = xs @ c # ys" "c_start c = s" "c_size c = n"
    using in_use_block [OF tl, of s n] assms(2) unfolding blocks_def by blast
  obtain d where d: "d \<in> set (mList a)" "c_start d = t" "c_size d = m"
    using in_use_block [OF tl, of t m] assms(3) unfolding blocks_def by fastforce
  then have "d \<in> set xs \<or> d \<in> set ys" using c assms(4) by auto
  from tiles_disjoint [OF tl [unfolded c(1)] this] show ?thesis using c d by auto
qed

lemma all_free_one_chunk:
  assumes "heap_ok a" and "blocks a = Map.empty" and "0 < mHeapSize a"
  shows "mList a = [\<lparr>c_start = 0, c_size = mHeapSize a div 32, c_free = True\<rparr>]"
proof -
  have t: "tiles 0 (mList a) (mHeapSize a div 32)" "joined (mList a)" "mHeapSize a mod 4096 = 0" using assms(1) by (auto simp: heap_ok_def)
  have "in_use (mList a) = []" using assms(2) by (simp add: blocks_def)
  then have free: "\<forall>c \<in> set (mList a). c_free c" by (simp add: filter_empty_conv)
  have "mHeapSize a div 32 \<noteq> 0" using assms(3) t(3) by (auto simp: div_eq_0_iff)
  then obtain c cs where c: "mList a = c # cs" using t(1) by (cases "mList a") auto
  moreover have "cs = []" using t(2) free c by (cases cs) auto
  ultimately show ?thesis using t(1) free by (cases c) auto
qed

lemma alloc_chunk_law:
  assumes "heap_ok a" and "sz + 31 < 2 ^ 64" and "alloc_chunk sz flags a = (r, a')"
  shows "heap_ok a' \<and> mHeapSize a' = mHeapSize a \<and>
    (if sz = 0 then r = 0 \<and> a' = a
     else r < 0 \<and> a' = a \<or> (\<exists>s. r = int (s * 32) \<and> blocks a s = None \<and> blocks a' = (blocks a)(s \<mapsto> (sz + 31) div 32)))"
proof (cases "sz = 0")
  case True
  then show ?thesis using assms by (simp add: alloc_chunk_def)
next
  case False
  have u: "size_units sz = (sz + 31) div 32" using assms(2) by (simp add: size_units_def)
  then have "0 < size_units sz" using False by simp
  from alloc_chunk_correct [OF assms(1) this assms(3)] show ?thesis using False u by (auto split: if_splits)
qed

lemma deallocate_chunk_law:
  assumes "heap_ok a" and "deallocate_chunk off a = (r, a')"
  shows "heap_ok a' \<and> mHeapSize a' = mHeapSize a \<and> blocks a' = (blocks a)(off div 32 := None)"
proof (cases "blocks a (off div 32)")
  case None
  then show ?thesis using deallocate_chunk_unused [OF assms(1) None assms(2)] assms(1) by (simp add: fun_eq_iff)
next
  case (Some n)
  have "deallocate_chunk (off div 32 * 32) a = (r, a')" using assms(2) by (simp add: deallocate_chunk_def)
  from deallocate_chunk_correct [OF assms(1) Some this] show ?thesis by simp
qed

section \<open>Clients of a heap\<close>

text \<open>
  What a heap of blocks promises, and what follows for any history of requests: the blocks are those that the answers say,
  they never overlap, and they stay inside the heap.
\<close>

datatype request = Allocate nat | Deallocate nat

fun blocks_after :: "(request \<times> int) list \<Rightarrow> (nat \<Rightarrow> nat option) \<Rightarrow> (nat \<Rightarrow> nat option)" where
  "blocks_after [] m = m"
| "blocks_after ((Allocate n, r) # tr) m =
     blocks_after tr (if n = 0 \<or> r < 0 then m else m(nat r div 32 \<mapsto> (n + 31) div 32))"
| "blocks_after ((Deallocate off, r) # tr) m = blocks_after tr (m(off div 32 := None))"

definition separate :: "nat \<Rightarrow> (nat \<Rightarrow> nat option) \<Rightarrow> bool" where
  "separate cap m \<longleftrightarrow> (\<forall>s n. m s = Some n \<longrightarrow> 0 < n \<and> (s + n) * 32 \<le> cap) \<and>
     (\<forall>s n t k. m s = Some n \<longrightarrow> m t = Some k \<longrightarrow> s \<noteq> t \<longrightarrow> s + n \<le> t \<or> t + k \<le> s)"

text \<open>Every block handed out was free, at every point of the history.\<close>

fun fresh_answers :: "(request \<times> int) list \<Rightarrow> (nat \<Rightarrow> nat option) \<Rightarrow> bool" where
  "fresh_answers [] m = True"
| "fresh_answers ((Allocate n, r) # tr) m \<longleftrightarrow>
     (0 < n \<and> 0 \<le> r \<longrightarrow> r mod 32 = 0 \<and> m (nat r div 32) = None) \<and> fresh_answers tr (blocks_after [(Allocate n, r)] m)"
| "fresh_answers ((Deallocate off, r) # tr) m \<longleftrightarrow> fresh_answers tr (m(off div 32 := None))"

definition sane :: "request \<Rightarrow> bool" where
  "sane q = (case q of Allocate n \<Rightarrow> n + 31 < 2 ^ 64 | Deallocate _ \<Rightarrow> True)"

fun serve :: "(nat \<Rightarrow> 's \<Rightarrow> int \<times> 's) \<Rightarrow> (nat \<Rightarrow> 's \<Rightarrow> int \<times> 's) \<Rightarrow> request list \<Rightarrow> 's \<Rightarrow> (request \<times> int) list \<times> 's" where
  "serve alloc dealloc [] s = ([], s)"
| "serve alloc dealloc (q # qs) s =
     (let (r, s1) = (case q of Allocate n \<Rightarrow> alloc n s | Deallocate off \<Rightarrow> dealloc off s);
          (tr, s2) = serve alloc dealloc qs s1
      in ((q, r) # tr, s2))"

lemma nat_units [simp]: "nat (int b * 32) div 32 = b"
  by (simp add: nat_mult_distrib)

locale block_heap =
  fixes alloc :: "nat \<Rightarrow> 's \<Rightarrow> int \<times> 's"
    and dealloc :: "nat \<Rightarrow> 's \<Rightarrow> int \<times> 's"
    and blks :: "'s \<Rightarrow> nat \<Rightarrow> nat option"
    and cap :: "'s \<Rightarrow> nat"
    and ok :: "'s \<Rightarrow> bool"
  assumes alloc_law: "ok s \<Longrightarrow> n + 31 < 2 ^ 64 \<Longrightarrow> alloc n s = (r, s') \<Longrightarrow>
      ok s' \<and> cap s' = cap s \<and>
      (if n = 0 then r = 0 \<and> s' = s
       else r < 0 \<and> s' = s \<or> (\<exists>b. r = int (b * 32) \<and> blks s b = None \<and> blks s' = (blks s)(b \<mapsto> (n + 31) div 32)))"
    and dealloc_law: "ok s \<Longrightarrow> dealloc off s = (r, s') \<Longrightarrow>
      ok s' \<and> cap s' = cap s \<and> blks s' = (blks s)(off div 32 := None)"
    and separate_law: "ok s \<Longrightarrow> separate (cap s) (blks s)"
begin

lemma serve_refines:
  assumes "ok s" and "list_all sane qs" and "serve alloc dealloc qs s = (tr, s')"
  shows "ok s' \<and> cap s' = cap s \<and> map fst tr = qs \<and> blks s' = blocks_after tr (blks s) \<and> fresh_answers tr (blks s) \<and>
    separate (cap s) (blks s')"
  using assms
proof (induction qs arbitrary: s tr)
  case Nil
  then show ?case using separate_law [of s] by simp
next
  case (Cons q qs)
  obtain r s1 where one: "(case q of Allocate n \<Rightarrow> alloc n s | Deallocate off \<Rightarrow> dealloc off s) = (r, s1)" by force
  obtain tr' where tr: "serve alloc dealloc qs s1 = (tr', s')" "tr = (q, r) # tr'"
    using Cons.prems(3) one by (auto simp: Let_def split: prod.splits)
  have step: "ok s1 \<and> cap s1 = cap s \<and> blks s1 = blocks_after [(q, r)] (blks s) \<and>
      (fresh_answers tr' (blks s1) \<longrightarrow> fresh_answers ((q, r) # tr') (blks s))"
  proof (cases q)
    case (Allocate n)
    then show ?thesis using alloc_law [of s n r s1] Cons.prems(1,2) one
      by (auto simp: sane_def split: if_splits)
  next
    case (Deallocate off)
    then show ?thesis using dealloc_law [of s off r s1] Cons.prems(1) one by auto
  qed
  have "blocks_after tr' (blocks_after [(q, r)] m) = blocks_after ((q, r) # tr') m" for m by (cases q) auto
  then show ?case using Cons.IH [of s1 tr'] step tr Cons.prems(2) by auto
qed

end

interpretation dealer_heap: block_heap "\<lambda>n. alloc_chunk n 0" deallocate_chunk blocks mHeapSize heap_ok
proof unfold_locales
  show "heap_ok s' \<and> mHeapSize s' = mHeapSize s \<and>
      (if n = 0 then r = 0 \<and> s' = s
       else r < 0 \<and> s' = s \<or> (\<exists>b. r = int (b * 32) \<and> blocks s b = None \<and> blocks s' = (blocks s)(b \<mapsto> (n + 31) div 32)))"
    if "heap_ok s" "n + 31 < 2 ^ 64" "alloc_chunk n 0 s = (r, s')" for s n r s'
    using alloc_chunk_law that .
  show "heap_ok s' \<and> mHeapSize s' = mHeapSize s \<and> blocks s' = (blocks s)(off div 32 := None)"
    if "heap_ok s" "deallocate_chunk off s = (r, s')" for s off r s'
    using deallocate_chunk_law that .
  show "separate (mHeapSize s) (blocks s)" if "heap_ok s" for s
    unfolding separate_def using blocks_inside [OF that] blocks_disjoint [OF that] by blast
qed

lemma new_heap_ok:
  assumes "0 < sz" and "sz \<le> 2 ^ 33 - 4096"
  shows "heap_ok (SimpleBestFitAllocator sz)" and "mHeapSize (SimpleBestFitAllocator sz) = PAGE_ALIGN sz"
    and "blocks (SimpleBestFitAllocator sz) = Map.empty" and "0 < PAGE_ALIGN sz"
    and "SimpleBestFitAllocator sz = \<lparr>mList = [\<lparr>c_start = 0, c_size = PAGE_ALIGN sz div 32, c_free = True\<rparr>], mHeapSize = PAGE_ALIGN sz\<rparr>"
proof -
  have r: "page_round sz = PAGE_ALIGN sz" using assms(2) by (simp add: page_round_def PAGE_ALIGN_def)
  have b: "PAGE_ALIGN sz < 2 ^ 33" "0 < PAGE_ALIGN sz" using PAGE_ALIGN_lt [of sz] PAGE_ALIGN_ge [of sz] assms by auto
  obtain k where k: "PAGE_ALIGN sz = 4096 * k" by (metis PAGE_ALIGN_def mult.commute)
  then have d: "PAGE_ALIGN sz div 32 = 128 * k" by simp
  have "128 * k < 2 ^ 28" "0 < k" using b k by auto
  then show eq: "SimpleBestFitAllocator sz = \<lparr>mList = [\<lparr>c_start = 0, c_size = PAGE_ALIGN sz div 32, c_free = True\<rparr>], mHeapSize = PAGE_ALIGN sz\<rparr>"
    by (simp add: SimpleBestFitAllocator_def r new_chunk_def bits28_def d)
  show "heap_ok (SimpleBestFitAllocator sz)" unfolding eq using \<open>128 * k < 2 ^ 28\<close> \<open>0 < k\<close> by (simp add: heap_ok_def k)
  show "mHeapSize (SimpleBestFitAllocator sz) = PAGE_ALIGN sz" by (simp add: eq)
  show "blocks (SimpleBestFitAllocator sz) = Map.empty" by (simp add: eq blocks_def)
  show "0 < PAGE_ALIGN sz" by (fact b(2))
qed

lemma all_freed_is_new:
  assumes "0 < sz" and "sz \<le> 2 ^ 33 - 4096" and "heap_ok a" and "mHeapSize a = PAGE_ALIGN sz" and "blocks a = Map.empty"
  shows "a = SimpleBestFitAllocator sz"
  using all_free_one_chunk [OF assms(3,5)] new_heap_ok(4,5) [OF assms(1,2)] assms(4) by (cases a) simp

section \<open>Properties of the allocator\<close>

lemmas dealer_eval = SimpleBestFitAllocator_def page_round_def new_chunk_def bits28_def alloc_chunk_def size_units_def chunk_extra_def
  alloc_scan.simps deallocate_chunk_def dealloc_merge.simps Let_def

text \<open>
  A heap serves every history of requests as a map from block starts to sizes: the blocks in use are those that the
  answers tell, every answer is aligned and was free, blocks never overlap or leave the heap, and once everything is freed the allocator
  is as new.
\<close>

theorem dealer_refines_blocks:
  assumes "0 < sz" and "sz \<le> 2 ^ 33 - 4096" and "list_all sane qs"
    and "serve (\<lambda>n. alloc_chunk n 0) deallocate_chunk qs (SimpleBestFitAllocator sz) = (tr, a)"
  shows "blocks a = blocks_after tr Map.empty \<and> fresh_answers tr Map.empty \<and> separate (PAGE_ALIGN sz) (blocks a) \<and>
    (blocks a = Map.empty \<longrightarrow> a = SimpleBestFitAllocator sz)"
  using dealer_heap.serve_refines [OF new_heap_ok(1) [OF assms(1,2)] assms(3,4)] new_heap_ok(2,3) [OF assms(1,2)]
    all_freed_is_new [OF assms(1,2)] by auto

theorem dealer_refines_blocks_witness:
  "case serve (\<lambda>n. alloc_chunk n 0) deallocate_chunk [Allocate 100, Allocate 32, Deallocate 0, Deallocate 128] (SimpleBestFitAllocator 4096) of
     (tr, a) \<Rightarrow> fresh_answers tr Map.empty \<and> a = SimpleBestFitAllocator 4096"
proof -
  let ?run = "serve (\<lambda>n. alloc_chunk n 0) deallocate_chunk [Allocate 100, Allocate 32, Deallocate 0, Deallocate 128] (SimpleBestFitAllocator 4096)"
  have run: "?run = ([(Allocate 100, 0), (Allocate 32, 128), (Deallocate 0, 0), (Deallocate 128, 0)], SimpleBestFitAllocator 4096)"
    by (simp add: dealer_eval)
  have "list_all sane [Allocate 100, Allocate 32, Deallocate 0, Deallocate 128]" by (simp add: sane_def)
  from dealer_refines_blocks [OF _ _ this run] show ?thesis unfolding run by simp
qed

text \<open>
  Allocation takes a smallest free chunk that has room for the request and its alignment, and fails exactly when there is none.
\<close>

theorem alloc_chunk_best_fit:
  assumes "heap_ok a" and "0 < sz" and "sz + 31 < 2 ^ 64"
  shows "case alloc_chunk sz flags a of (r, a') \<Rightarrow>
    if \<exists>c \<in> set (mList a). fits ((sz + 31) div 32) flags c
    then \<exists>c \<in> set (mList a). fits ((sz + 31) div 32) flags c \<and> r = int ((c_start c + chunk_extra flags c) * 32) \<and>
      (odd flags \<longrightarrow> r mod 4096 = 0) \<and> (\<forall>d \<in> set (mList a). fits ((sz + 31) div 32) flags d \<longrightarrow> c_size c \<le> c_size d)
    else r = NO_MEMORY \<and> a' = a"
proof -
  have u: "size_units sz = (sz + 31) div 32" using assms(3) by (simp add: size_units_def)
  show ?thesis
  proof (cases "alloc_scan (size_units sz) flags (mList a) 0 None")
    case None
    then show ?thesis using alloc_scan_none [OF size_units_less, of sz flags "mList a" 0 None] assms(2)
      by (auto simp: alloc_chunk_def Let_def u)
  next
    case (Some ic)
    then obtain i c where scan: "alloc_scan (size_units sz) flags (mList a) 0 None = Some (i, c)" by (cases ic) auto
    from alloc_chunk_run [OF assms(1,2) this] obtain xs ys where m: "mList a = xs @ c # ys" "fits (size_units sz) flags c"
      and res: "alloc_chunk sz flags a = (int ((c_start c + chunk_extra flags c) * 32),
           a\<lparr>mList := xs @ pieces (size_units sz) (chunk_extra flags c) c @ ys\<rparr>)" .
    have c: "c \<in> set (mList a)" using m by simp
    have best: "\<forall>d \<in> set (mList a). fits (size_units sz) flags d \<longrightarrow> c_size c \<le> c_size d"
      using alloc_scan_best [OF size_units_less scan] by blast
    have al: "odd flags \<longrightarrow> int ((c_start c + chunk_extra flags c) * 32) mod 4096 = 0"
      using aligned_int [OF extra_aligned] by blast
    have "\<exists>c \<in> set (mList a). fits (size_units sz) flags c" using c m(2) by blast
    moreover have "\<exists>d \<in> set (mList a). fits (size_units sz) flags d \<and>
        int ((c_start c + chunk_extra flags c) * 32) = int ((c_start d + chunk_extra flags d) * 32) \<and>
        (odd flags \<longrightarrow> int ((c_start c + chunk_extra flags c) * 32) mod 4096 = 0) \<and>
        (\<forall>x \<in> set (mList a). fits (size_units sz) flags x \<longrightarrow> c_size d \<le> c_size x)"
      by (intro bexI [of _ c] conjI) (use m(2) al best c in simp_all)
    ultimately show ?thesis unfolding res prod.case u [symmetric] if_P [OF \<open>\<exists>c \<in> set (mList a). fits (size_units sz) flags c\<close>] by blast
  qed
qed

theorem alloc_chunk_best_fit_witness:
  "alloc_chunk 100 1 (SimpleBestFitAllocator 8192) = (0, snd (alloc_chunk 100 1 (SimpleBestFitAllocator 8192)))"
proof -
  have "SimpleBestFitAllocator 8192 = \<lparr>mList = [\<lparr>c_start = 0, c_size = 256, c_free = True\<rparr>], mHeapSize = 8192\<rparr>"
    by (simp add: SimpleBestFitAllocator_def page_round_def new_chunk_def bits28_def)
  moreover have "heap_ok (SimpleBestFitAllocator 8192)" by (rule new_heap_ok(1)) simp_all
  ultimately show ?thesis
    using alloc_chunk_best_fit [of "SimpleBestFitAllocator 8192" 100 1]
    by (auto simp: fits_def chunk_extra_def split: prod.splits)
qed

text \<open>
  The rounding of the size wraps around: a request of almost \<open>2 ^ 64\<close> bytes is granted as a block of no units.
\<close>

lemma huge_request_granted:
  "fst (alloc_chunk (2 ^ 64 - 1) 0 (SimpleBestFitAllocator 4096)) = 0 \<and> blocks (snd (alloc_chunk (2 ^ 64 - 1) 0 (SimpleBestFitAllocator 4096))) 0 = Some 0"
  by (simp add: dealer_eval blocks_def)

text \<open>The size of a chunk has 28 bits: a heap of 8 GB is a single chunk of no units, from which nothing can be allocated.\<close>

lemma huge_heap_empty: "fst (alloc_chunk 1 0 (SimpleBestFitAllocator (2 ^ 33))) = NO_MEMORY"
  by (simp add: dealer_eval)

end
