(* ===== verification/Mem_Dealer_Objects.thy ===== *)
theory Mem_Dealer_Objects
  imports Mem_Dealer_Props
begin

text \<open>
  Dealers and their allocations: the memory of an allocation is its own, so that a dealer behaves like a collection of separate arrays,
  although destroying an allocation hands whole pages back to the kernel.
\<close>

section \<open>Parts of the heap\<close>

definition part :: "nat \<Rightarrow> nat \<Rightarrow> byte list \<Rightarrow> byte list" where
  "part off n bs = take n (drop off bs)"

lemma length_part [simp]: "off + n \<le> length bs \<Longrightarrow> length (part off n bs) = n"
  by (simp add: part_def)

lemma nth_part [simp]: "off + n \<le> length bs \<Longrightarrow> i < n \<Longrightarrow> part off n bs ! i = bs ! (off + i)"
  by (simp add: part_def)

lemma fill_length: "fill v s n bs = Some bs' \<Longrightarrow> length bs' = length bs"
  by (auto simp: fill_def split: if_splits)

lemma nth_fill:
  assumes "fill v s n bs = Some bs'" and "i < length bs"
  shows "bs' ! i = (if s \<le> i \<and> i < s + n then v else bs ! i)"
  using assms by (auto simp: fill_def nth_append min_def split: if_splits)

lemma part_eqI:
  assumes "length bs' = length bs" and "off + n \<le> length bs" and "\<And>i. i < n \<Longrightarrow> bs' ! (off + i) = bs ! (off + i)"
  shows "part off n bs' = part off n bs"
  using assms by (intro nth_equalityI) auto

lemma part_fill_other:
  assumes "fill v s n bs = Some bs'" and "off + k \<le> length bs" and "off + k \<le> s \<or> s + n \<le> off"
  shows "part off k bs' = part off k bs"
  using assms by (intro part_eqI) (auto simp: nth_fill [OF assms(1)] fill_length [OF assms(1)])

lemma part_fill_same:
  assumes "fill v s n bs = Some bs'"
  shows "part s n bs' = replicate n v"
proof -
  have "s + n \<le> length bs" using assms by (auto simp: fill_def split: if_splits)
  then show ?thesis by (intro nth_equalityI) (auto simp: nth_fill [OF assms] fill_length [OF assms])
qed

definition store :: "nat \<Rightarrow> byte list \<Rightarrow> byte list \<Rightarrow> byte list" where
  "store off new bs = take off bs @ new @ drop (off + length new) bs"

lemma length_store [simp]: "off + length new \<le> length bs \<Longrightarrow> length (store off new bs) = length bs"
  by (simp add: store_def)

lemma store_Nil [simp]: "store off [] bs = bs"
  by (simp add: store_def)

lemma nth_store:
  "off + length new \<le> length bs \<Longrightarrow> i < length bs \<Longrightarrow>
     store off new bs ! i = (if off \<le> i \<and> i < off + length new then new ! (i - off) else bs ! i)"
  by (auto simp: store_def nth_append min_def)

lemma part_store_other:
  assumes "s + length new \<le> length bs" and "off + k \<le> length bs" and "off + k \<le> s \<or> s + length new \<le> off"
  shows "part off k (store s new bs) = part off k bs"
  using assms by (intro part_eqI) (auto simp: nth_store)

lemma part_store_same:
  assumes "off + k \<le> length bs" and "s + length new \<le> k"
  shows "part off k (store (off + s) new bs) = store s new (part off k bs)"
  using assms by (intro nth_equalityI) (auto simp: nth_store)

section \<open>A dealer with its allocations\<close>

definition al_entry :: "allocation \<Rightarrow> nat \<times> nat" where
  "al_entry al = (al_offset al div 32, (al_size al + 31) div 32)"

abbreviation sized :: "allocation list \<Rightarrow> allocation list" where
  "sized als \<equiv> filter (\<lambda>al. 0 < al_size al) als"

definition dealer_ok :: "mem_dealer \<Rightarrow> allocation list \<Rightarrow> bool" where
  "dealer_ok d als \<longleftrightarrow> heap_ok (md_alloc d) \<and> length (md_heap d) = mHeapSize (md_alloc d) \<and>
     distinct (map (fst \<circ> al_entry) (sized als)) \<and> blocks (md_alloc d) = map_of (map al_entry (sized als)) \<and>
     (\<forall>al \<in> set als. al_offset al mod 32 = 0 \<and> (al_size al = 0 \<longrightarrow> al_offset al = 0))"

definition contents :: "mem_dealer \<Rightarrow> allocation \<Rightarrow> byte list" where
  "contents d al = part (al_offset al) (al_size al) (md_heap d)"

lemma al_aligned: "dealer_ok d als \<Longrightarrow> al \<in> set als \<Longrightarrow> al_offset al div 32 * 32 = al_offset al"
  unfolding dealer_ok_def by (metis add.right_neutral div_mult_mod_eq)

lemma block_of:
  assumes "dealer_ok d als" and "al \<in> set als" and "0 < al_size al"
  shows "blocks (md_alloc d) (al_offset al div 32) = Some ((al_size al + 31) div 32)"
proof -
  have "al_entry al \<in> set (map al_entry (sized als))" using assms by simp
  moreover have "distinct (map fst (map al_entry (sized als)))" using assms(1) by (simp add: dealer_ok_def)
  ultimately show ?thesis using assms(1) by (simp add: dealer_ok_def al_entry_def)
qed

lemma al_inside:
  assumes "dealer_ok d als" and "al \<in> set als"
  shows "al_offset al + al_size al \<le> length (md_heap d) \<and> length (md_heap d) < 2 ^ 33"
proof -
  have ok: "heap_ok (md_alloc d)" "length (md_heap d) = mHeapSize (md_alloc d)" using assms(1) by (auto simp: dealer_ok_def)
  have lt: "length (md_heap d) < 2 ^ 33" using ok by (auto simp: heap_ok_def)
  show ?thesis
  proof (cases "al_size al = 0")
    case True
    then show ?thesis using assms lt by (auto simp: dealer_ok_def)
  next
    case False
    then have "blocks (md_alloc d) (al_offset al div 32) = Some ((al_size al + 31) div 32)" using block_of [OF assms] by simp
    from blocks_inside [OF ok(1) this] have "(al_offset al div 32 + (al_size al + 31) div 32) * 32 \<le> length (md_heap d)" using ok(2) by simp
    moreover have "al_offset al div 32 * 32 = al_offset al" using assms by (auto simp: dealer_ok_def)
    moreover have "al_size al \<le> (al_size al + 31) div 32 * 32" by linarith
    ultimately show ?thesis using lt by (simp add: add_mult_distrib)
  qed
qed

lemma blocks_bytes:
  assumes "s * 32 = (o1::nat)" and "t * 32 = o2" and "n1 \<le> n * 32" and "n2 \<le> k * 32" and "s + n \<le> t \<or> t + k \<le> s"
  shows "o1 + n1 \<le> o2 \<or> o2 + n2 \<le> o1"
  using assms by auto

lemma units_cover: "n \<le> (n + 31) div 32 * (32::nat)"
  by linarith

lemma al_apart:
  assumes "dealer_ok d (xs @ al # ys)" and "al' \<in> set (xs @ ys)"
  shows "al_size al = 0 \<or> al_size al' = 0 \<or> al_offset al' + al_size al' \<le> al_offset al \<or> al_offset al + al_size al \<le> al_offset al'"
proof (cases "0 < al_size al \<and> 0 < al_size al'")
  case True
  have d: "distinct (map (fst \<circ> al_entry) (sized (xs @ al # ys)))" "heap_ok (md_alloc d)" using assms(1) by (auto simp: dealer_ok_def)
  have b: "blocks (md_alloc d) (al_offset al div 32) = Some ((al_size al + 31) div 32)"
      "blocks (md_alloc d) (al_offset al' div 32) = Some ((al_size al' + 31) div 32)"
    using block_of [OF assms(1)] True assms(2) by auto
  have "al_offset al div 32 \<noteq> al_offset al' div 32" using d(1) True assms(2) by (auto simp: image_iff al_entry_def)
  then have "al_offset al' div 32 + (al_size al' + 31) div 32 \<le> al_offset al div 32 \<or>
      al_offset al div 32 + (al_size al + 31) div 32 \<le> al_offset al' div 32"
    using blocks_disjoint [OF d(2) b(2,1)] by metis
  moreover have "al_offset al div 32 * 32 = al_offset al" "al_offset al' div 32 * 32 = al_offset al'"
    using al_aligned [OF assms(1)] assms(2) by auto
  ultimately show ?thesis using blocks_bytes [of _ "al_offset al'" _ "al_offset al" "al_size al'" _ "al_size al"] units_cover by blast
qed auto

lemma new_apart:
  assumes "dealer_ok d (al # als)" and "al' \<in> set als" and "0 < al_size al" and "0 < al_size al'"
  shows "al_offset al' + al_size al' \<le> al_offset al \<or> al_offset al + al_size al \<le> al_offset al'"
  using al_apart [of d "[]" al als al'] assms by auto

section \<open>Allocating\<close>

lemma ssize_t_small: "0 \<le> r \<Longrightarrow> r < 2 ^ 63 \<Longrightarrow> ssize_t r = r"
  by (simp add: ssize_t_def)

lemma ssize_t_error: "ssize_t NO_MEMORY = NO_MEMORY"
  by (simp add: ssize_t_def)

lemma md_allocate_ok:
  assumes ok: "dealer_ok d als" and sz: "sz + 31 < 2 ^ 64"
  obtains d' where "md_allocate sz d = Some (None, d')" and "d' = d" and "0 < sz"
  | al d' where "md_allocate sz d = Some (Some al, d')" and "dealer_ok d' (al # als)" and "al_size al = sz"
      and "contents d' al = replicate sz 0xda" and "\<forall>b \<in> set als. contents d' b = contents d b"
proof -
  have h: "heap_ok (md_alloc d)" "length (md_heap d) = mHeapSize (md_alloc d)" using ok by (auto simp: dealer_ok_def)
  obtain r a where run: "alloc_chunk sz 0 (md_alloc d) = (r, a)" by force
  note law = alloc_chunk_law [OF h(1) sz run]
  consider "sz = 0" | "0 < sz" "r < 0" "a = md_alloc d" | s where "0 < sz" "r = int (s * 32)" "blocks (md_alloc d) s = None"
      "blocks a = (blocks (md_alloc d))(s \<mapsto> (sz + 31) div 32)"
    using law by (cases "sz = 0") auto
  then show thesis
  proof cases
    case 1
    then have "md_allocate sz d = Some (Some \<lparr>al_offset = 0, al_size = 0\<rparr>, d)"
      using law run by (simp add: md_allocate_def ssize_t_small fill_def)
    moreover have "dealer_ok d (\<lparr>al_offset = 0, al_size = 0\<rparr> # als)" using ok by (auto simp: dealer_ok_def)
    ultimately show thesis using that(2) 1 by (simp add: contents_def part_def)
  next
    case 2
    then have "r = NO_MEMORY" using run by (auto simp: alloc_chunk_def Let_def split: if_splits option.splits)
    then show thesis using that(1) 2 run by (simp add: md_allocate_def ssize_t_error)
  next
    case (3 s)
    have a: "heap_ok a" "mHeapSize a = length (md_heap d)" using law h(2) by auto
    have "blocks a s = Some ((sz + 31) div 32)" using 3 by simp
    from blocks_inside [OF a(1) this] have b: "(s + (sz + 31) div 32) * 32 \<le> length (md_heap d)" using a(2) by simp
    then have fit: "s * 32 + sz \<le> length (md_heap d)" using units_cover [of sz] by (simp add: add_mult_distrib)
    have "length (md_heap d) < 2 ^ 33" using h by (auto simp: heap_ok_def)
    then have r: "ssize_t r = int (s * 32)" using fit 3(2) by (subst ssize_t_small) auto
    obtain mem where mem: "fill 0xda (s * 32) sz (md_heap d) = Some mem" using fit by (simp add: fill_def)
    let ?al = "\<lparr>al_offset = s * 32, al_size = sz\<rparr>" and ?d = "d\<lparr>md_alloc := a, md_heap := mem\<rparr>"
    have run': "md_allocate sz d = Some (Some ?al, ?d)"
      using run r mem by (simp add: md_allocate_def del: of_nat_mult)
    have "s \<notin> fst ` set (map al_entry (sized als))"
      using 3(3) ok by (simp add: dealer_ok_def map_of_eq_None_iff)
    then have ok': "dealer_ok ?d (?al # als)"
      using ok 3 a fill_length [OF mem] by (auto simp: dealer_ok_def al_entry_def image_iff)
    moreover have "contents ?d b = contents d b" if "b \<in> set als" for b
    proof (cases "al_size b = 0")
      case False
      have "al_offset b + al_size b \<le> length (md_heap d)" using al_inside [OF ok that] by simp
      then show ?thesis using part_fill_other [OF mem] new_apart [OF ok' that] False 3(1) by (auto simp: contents_def)
    qed (simp add: contents_def part_def)
    ultimately show thesis using that(2) [OF run'] part_fill_same [OF mem] by (simp add: contents_def)
  qed
qed

section \<open>Destroying\<close>

lemma page_floor_mono: "page_floor x \<le> x"
  by (simp add: page_floor_def)

lemma removed_pages_inside:
  assumes "off + n < 2 ^ 63" and "removed_pages off n = (s, e)" and "s < e"
  shows "off \<le> s \<and> e \<le> off + n"
proof -
  have "page_round off = PAGE_ALIGN off" using assms(1) by (simp add: page_round_def PAGE_ALIGN_def)
  then have "s = PAGE_ALIGN off" "e \<le> off + n"
    using assms page_floor_le [of off] page_floor_le [of "off + n"] page_floor_le [of "page_round (off + n)"]
    by (auto simp: removed_pages_def Let_def split: if_splits)
  then show ?thesis using PAGE_ALIGN_ge [of off] by simp
qed

lemma fill_inside:
  assumes "s + n \<le> length bs"
  obtains bs' where "fill v s n bs = Some bs'" and "length bs' = length bs"
proof -
  have "fill v s n bs = Some (take s bs @ replicate n v @ drop (s + n) bs)" using assms by (simp add: fill_def)
  from that [OF this fill_length [OF this]] show thesis .
qed

lemma map_of_remove_mid:
  assumes "distinct (map fst (xs @ x # ys))"
  shows "map_of (xs @ ys) = (map_of (xs @ x # ys))(fst x := None)"
proof -
  have "map_of xs (fst x) = None" "map_of ys (fst x) = None" using assms by (auto simp: map_of_eq_None_iff)
  then show ?thesis by (cases x) (auto simp: map_add_def fun_eq_iff split: option.splits)
qed

lemma dealer_ok_drop:
  assumes "dealer_ok d (xs @ al # ys)" and "0 < al_size al" and "length mem = length (md_heap d)"
  shows "dealer_ok (d\<lparr>md_alloc := snd (deallocate_chunk (al_offset al) (md_alloc d)), md_heap := mem\<rparr>) (xs @ ys)"
proof -
  obtain r a where run: "deallocate_chunk (al_offset al) (md_alloc d) = (r, a)" by force
  have h: "heap_ok (md_alloc d)" using assms(1) by (simp add: dealer_ok_def)
  note law = deallocate_chunk_law [OF h run]
  have "distinct (map fst (map al_entry (sized xs) @ al_entry al # map al_entry (sized ys)))" using assms(1,2) by (simp add: dealer_ok_def)
  from map_of_remove_mid [OF this] have "blocks a = map_of (map al_entry (sized (xs @ ys)))"
    using assms(1,2) law by (simp add: dealer_ok_def al_entry_def)
  then show ?thesis using assms law run by (auto simp: dealer_ok_def)
qed

lemma allocation_destroy_ok:
  assumes ok: "dealer_ok d (xs @ al # ys)"
  obtains d' where "allocation_destroy al d = Some d'" and "dealer_ok d' (xs @ ys)"
    and "\<forall>b \<in> set (xs @ ys). contents d' b = contents d b"
proof (cases "al_size al = 0")
  case True
  then have "dealer_ok d (xs @ ys)" using ok by (auto simp: dealer_ok_def)
  then show thesis using that [of d] True by (simp add: allocation_destroy_def)
next
  case False
  have in_heap: "al_offset al + al_size al \<le> length (md_heap d)" "length (md_heap d) < 2 ^ 33" using al_inside [OF ok, of al] by auto
  obtain s e where p: "removed_pages (al_offset al) (al_size al) = (s, e)" by force
  have inside: "s < e \<Longrightarrow> al_offset al \<le> s \<and> e \<le> al_offset al + al_size al"
    using removed_pages_inside [OF _ p] in_heap by simp
  obtain mem where mem: "(if s < e then do { h \<leftarrow> fill 0xdf s (e - s) (md_heap d); fill 0 s (e - s) h } else Some (md_heap d)) = Some mem"
      "length mem = length (md_heap d)"
    and keep: "\<And>b. b \<in> set (xs @ ys) \<Longrightarrow> part (al_offset b) (al_size b) mem = part (al_offset b) (al_size b) (md_heap d)"
  proof (cases "s < e")
    case True
    have len: "s + (e - s) \<le> length (md_heap d)" using inside [OF True] in_heap(1) True by linarith
    from fill_inside [OF this] obtain h where h: "fill 0xdf s (e - s) (md_heap d) = Some h" "length h = length (md_heap d)" .
    from fill_inside [of s "e - s" h] len h(2) obtain m where m: "fill 0 s (e - s) h = Some m" "length m = length h" by metis
    have "part (al_offset b) (al_size b) m = part (al_offset b) (al_size b) (md_heap d)" if b: "b \<in> set (xs @ ys)" for b
    proof (cases "al_size b = 0")
      case pos: False
      have fit: "al_offset b + al_size b \<le> length (md_heap d)" using al_inside [OF ok, of b] b by auto
      have apart: "al_offset b + al_size b \<le> s \<or> s + (e - s) \<le> al_offset b"
        using al_apart [OF ok b] inside [OF True] True False pos by auto
      have "part (al_offset b) (al_size b) m = part (al_offset b) (al_size b) h"
        using part_fill_other [OF m(1) _ apart] fit h(2) by simp
      then show ?thesis using part_fill_other [OF h(1) fit apart] by simp
    qed (simp add: part_def)
    then show thesis using that [of m] h m True by simp
  qed (use that in auto)
  have "allocation_destroy al d = Some (d\<lparr>md_alloc := snd (deallocate_chunk (al_offset al) (md_alloc d)), md_heap := mem\<rparr>)"
    using False p mem by (simp add: allocation_destroy_def)
  then show thesis using that dealer_ok_drop [OF ok _ mem(2)] False keep by (simp add: contents_def)
qed

section \<open>Dealers as separate arrays\<close>

text \<open>
  What clients do with a dealer, on the code's side (allocations in one heap) and on the specification's side (a list of arrays). A
  request that is refused changes nothing.
\<close>

datatype dealer_op = New nat | Drop nat | Store nat nat "byte list"

fun dealer_step :: "dealer_op \<Rightarrow> mem_dealer \<times> allocation list \<Rightarrow> (mem_dealer \<times> allocation list) option" where
  "dealer_step (New n) (d, als) = (case md_allocate n d of
      None \<Rightarrow> None | Some (None, d') \<Rightarrow> Some (d', als) | Some (Some al, d') \<Rightarrow> Some (d', al # als))"
| "dealer_step (Drop i) (d, als) =
     (if i < length als then map_option (\<lambda>d'. (d', take i als @ drop (Suc i) als)) (allocation_destroy (als ! i) d) else Some (d, als))"
| "dealer_step (Store i off bs) (d, als) =
     (if i < length als \<and> off + length bs \<le> al_size (als ! i)
      then Some (d\<lparr>md_heap := store (al_offset (als ! i) + off) bs (md_heap d)\<rparr>, als) else Some (d, als))"

fun array_step :: "dealer_op \<Rightarrow> byte list list \<Rightarrow> byte list list \<Rightarrow> bool" where
  "array_step (New n) xs ys \<longleftrightarrow> ys = xs \<or> ys = replicate n 0xda # xs"
| "array_step (Drop i) xs ys \<longleftrightarrow> ys = (if i < length xs then take i xs @ drop (Suc i) xs else xs)"
| "array_step (Store i off bs) xs ys \<longleftrightarrow>
     ys = (if i < length xs \<and> off + length bs \<le> length (xs ! i) then xs[i := store off bs (xs ! i)] else xs)"

definition arrays :: "mem_dealer \<times> allocation list \<Rightarrow> byte list list" where
  "arrays s = map (contents (fst s)) (snd s)"

definition small_op :: "dealer_op \<Rightarrow> bool" where
  "small_op x = (case x of New n \<Rightarrow> n + 31 < 2 ^ 64 | _ \<Rightarrow> True)"

lemma store_in_contents:
  assumes ok: "dealer_ok d als" and i: "i < length als" and fit: "off + length bs \<le> al_size (als ! i)"
  defines "d' \<equiv> d\<lparr>md_heap := store (al_offset (als ! i) + off) bs (md_heap d)\<rparr>"
  shows "dealer_ok d' als" and "map (contents d') als = (map (contents d) als)[i := store off bs (contents d (als ! i))]"
proof -
  let ?al = "als ! i"
  have in_heap: "al_offset ?al + al_size ?al \<le> length (md_heap d)" using al_inside [OF ok, of ?al] i by simp
  then have len: "length (md_heap d') = length (md_heap d)" using fit by (simp add: d'_def)
  show "dealer_ok d' als" using ok len by (simp add: dealer_ok_def d'_def)
  show "map (contents d') als = (map (contents d) als)[i := store off bs (contents d ?al)]"
  proof (rule nth_equalityI)
    fix j assume "j < length (map (contents d') als)"
    then have j: "j < length als" by simp
    show "map (contents d') als ! j = (map (contents d) als)[i := store off bs (contents d ?al)] ! j"
    proof (cases "j = i")
      case True
      then show ?thesis using part_store_same [OF in_heap fit] i by (simp add: contents_def d'_def)
    next
      case False
      have "als = take i als @ ?al # drop (Suc i) als" using i by (rule id_take_nth_drop)
      moreover have "als ! j \<in> set (take i als @ drop (Suc i) als)"
      proof (cases "j < i")
        case True
        then show ?thesis using j i in_set_conv_nth [of "als ! j" "take i als"] by force
      next
        case no: False
        then have "drop (Suc i) als ! (j - Suc i) = als ! j" "j - Suc i < length (drop (Suc i) als)" using False j by auto
        then show ?thesis by (metis in_set_conv_nth Un_iff set_append)
      qed
      ultimately have "al_size ?al = 0 \<or> al_size (als ! j) = 0 \<or> al_offset (als ! j) + al_size (als ! j) \<le> al_offset ?al \<or>
          al_offset ?al + al_size ?al \<le> al_offset (als ! j)"
        using al_apart [of d "take i als" ?al "drop (Suc i) als"] ok by metis
      then have "contents d' (als ! j) = contents d (als ! j)"
      proof (cases "bs = [] \<or> al_size (als ! j) = 0")
        case True
        then show ?thesis by (auto simp: contents_def d'_def part_def)
      next
        case nz: False
        then have "length bs \<noteq> 0" by simp
        have "al_offset (als ! j) + al_size (als ! j) \<le> length (md_heap d)" using al_inside [OF ok, of "als ! j"] j by simp
        moreover have "al_offset (als ! j) + al_size (als ! j) \<le> al_offset ?al + off \<or> al_offset ?al + off + length bs \<le> al_offset (als ! j)"
          using \<open>al_size ?al = 0 \<or> _\<close> fit nz \<open>length bs \<noteq> 0\<close> by linarith
        ultimately show ?thesis using part_store_other [of "al_offset ?al + off" bs "md_heap d"] in_heap fit
          by (simp add: contents_def d'_def)
      qed
      then show ?thesis using False i j by simp
    qed
  qed simp
qed

lemma length_contents: "dealer_ok d als \<Longrightarrow> al \<in> set als \<Longrightarrow> length (contents d al) = al_size al"
  using al_inside [of d als al] by (simp add: contents_def)

lemma dealer_step_refines:
  assumes "dealer_ok d als" and "small_op x"
  shows "\<exists>d' als'. dealer_step x (d, als) = Some (d', als') \<and> dealer_ok d' als' \<and> array_step x (arrays (d, als)) (arrays (d', als'))"
proof (cases x)
  case (New n)
  with assms(2) have "n + 31 < 2 ^ 64" by (simp add: small_op_def)
  from md_allocate_ok [OF assms(1) this] show ?thesis
  proof cases
    case (1 d')
    then show ?thesis using assms(1) New by (simp add: arrays_def)
  next
    case (2 al d')
    then show ?thesis using New by (simp add: arrays_def)
  qed
next
  case (Drop i)
  show ?thesis
  proof (cases "i < length als")
    case True
    have "als = take i als @ als ! i # drop (Suc i) als" using True by (rule id_take_nth_drop)
    then have "dealer_ok d (take i als @ als ! i # drop (Suc i) als)" using assms(1) by simp
    from allocation_destroy_ok [OF this] obtain d' where "allocation_destroy (als ! i) d = Some d'"
      "dealer_ok d' (take i als @ drop (Suc i) als)" "\<forall>b \<in> set (take i als @ drop (Suc i) als). contents d' b = contents d b" .
    then show ?thesis using Drop True by (auto simp: arrays_def take_map drop_map)
  qed (use assms(1) Drop in \<open>simp add: arrays_def\<close>)
next
  case (Store i off bs)
  show ?thesis
  proof (cases "i < length als \<and> off + length bs \<le> al_size (als ! i)")
    case True
    then show ?thesis using store_in_contents [OF assms(1), of i off bs] Store length_contents [OF assms(1), of "als ! i"]
      by (simp add: arrays_def)
  next
    case False
    then show ?thesis using assms(1) Store length_contents [OF assms(1), of "als ! i"] by (auto simp: arrays_def)
  qed
qed

fun dealer_run :: "dealer_op list \<Rightarrow> mem_dealer \<times> allocation list \<Rightarrow> (mem_dealer \<times> allocation list) option" where
  "dealer_run [] s = Some s"
| "dealer_run (x # xs) s = Option.bind (dealer_step x s) (dealer_run xs)"

fun array_run :: "dealer_op list \<Rightarrow> byte list list \<Rightarrow> byte list list \<Rightarrow> bool" where
  "array_run [] xs ys \<longleftrightarrow> xs = ys"
| "array_run (x # ops) xs ys \<longleftrightarrow> (\<exists>zs. array_step x xs zs \<and> array_run ops zs ys)"

lemma dealer_run_refines:
  assumes "dealer_ok d als" and "list_all small_op ops"
  shows "\<exists>d' als'. dealer_run ops (d, als) = Some (d', als') \<and> dealer_ok d' als' \<and> array_run ops (arrays (d, als)) (arrays (d', als'))"
  using assms
proof (induction ops arbitrary: d als)
  case (Cons x ops)
  then obtain d1 als1 where "dealer_step x (d, als) = Some (d1, als1)" "dealer_ok d1 als1" "array_step x (arrays (d, als)) (arrays (d1, als1))"
    using dealer_step_refines [of d als x] by auto
  moreover from this(2) obtain d' als' where "dealer_run ops (d1, als1) = Some (d', als')" "dealer_ok d' als'"
      "array_run ops (arrays (d1, als1)) (arrays (d', als'))"
    using Cons.IH [of d1 als1] Cons.prems(2) by auto
  ultimately show ?case by auto
qed auto

lemma new_dealer_ok:
  assumes "0 < sz" and "sz \<le> 2 ^ 33 - 4096" and "length mem = PAGE_ALIGN sz"
  shows "dealer_ok (MemoryDealer sz mem) []"
  using new_heap_ok [OF assms(1,2)] assms(3) by (simp add: dealer_ok_def MemoryDealer_def)

text \<open>
  C27. A dealer keeps its allocations apart: whatever allocations are made, written to and destroyed, in any order, nothing faults and
  each allocation behaves like an array of its own, filled with \<open>0xda\<close> at first, in spite of the pages that a destroyed
  allocation gives back to the kernel.
\<close>

theorem dealer_allocations_are_arrays:
  assumes "0 < sz" and "sz \<le> 2 ^ 33 - 4096" and "length mem = PAGE_ALIGN sz" and "list_all small_op ops"
  shows "\<exists>d als. dealer_run ops (MemoryDealer sz mem, []) = Some (d, als) \<and> array_run ops [] (arrays (d, als))"
  using dealer_run_refines [OF new_dealer_ok [OF assms(1-3)] assms(4)] by (auto simp: arrays_def)

theorem dealer_allocations_are_arrays_witness:
  "\<exists>d als. dealer_run [New 5000, New 100, Store 0 3 [1, 2], Drop 1] (MemoryDealer 8192 (replicate 8192 0), []) = Some (d, als) \<and>
     array_run [New 5000, New 100, Store 0 3 [1, 2], Drop 1] [] (arrays (d, als))"
  by (rule dealer_allocations_are_arrays) (simp_all add: PAGE_ALIGN_def small_op_def)

end
