(* ===== verification/Parcel.thy ===== *)
theory Parcel
  imports Binder_Txn
begin

text \<open>
  The message container of the client library (\<open>libs/binder/Parcel.cpp\<close>): its memory, what it holds references to, and writing.
  A parcel is the memory behind its two pointers with the counters of the class. The C library's allocator and system calls are a
  parameter; an access outside of live memory, a write to the driver's read-only mapping and \<open>abort\<close> are \<open>None\<close>. Sizes are \<open>size_t\<close>
  with the wrap-around written out.
\<close>

unbundle bit_operations_syntax

section \<open>Status codes and sizes\<close>

abbreviation NO_ERROR :: int where "NO_ERROR \<equiv> 0"
abbreviation NO_MEM :: int where "NO_MEM \<equiv> - 12"
abbreviation BAD_VALUE :: int where "BAD_VALUE \<equiv> - 22"
abbreviation NOT_ENOUGH_DATA :: int where "NOT_ENOUGH_DATA \<equiv> - 61"
abbreviation UNKNOWN_ERROR :: int where "UNKNOWN_ERROR \<equiv> - 2147483648"
abbreviation BAD_TYPE :: int where "BAD_TYPE \<equiv> - 2147483647"
abbreviation FDS_NOT_ALLOWED :: int where "FDS_NOT_ALLOWED \<equiv> - 2147483641"
abbreviation INT32_MAX :: nat where "INT32_MAX \<equiv> 2147483647"
abbreviation BLOB_INPLACE_LIMIT :: nat where "BLOB_INPLACE_LIMIT \<equiv> 16384"

abbreviation wrap64 :: "nat \<Rightarrow> nat" where "wrap64 n \<equiv> n mod 2 ^ 64"

text \<open>\<open>SIZE_T_MAX\<close> is not defined by the C library and falls back to \<open>UINT_MAX\<close>.\<close>

definition pad_size :: "nat \<Rightarrow> nat option" where
  "pad_size s = (if s > 4294967295 - 3 then None else Some ((s + 3) div 4 * 4))"

section \<open>The surrounding system\<close>

text \<open>
  \<open>calls\<close> numbers the calls to the allocator and to the system, so that each of them can have its own outcome. \<open>junk\<close> is what new memory contains;
  \<open>moves\<close> says whether a reallocation that succeeds gives back another address. Failed calls answer with a negative error code.
\<close>

record libc =
  can_malloc :: "nat \<Rightarrow> nat \<Rightarrow> bool"
  junk :: "nat \<Rightarrow> nat \<Rightarrow> byte"
  junk64 :: "nat \<Rightarrow> nat \<Rightarrow> nat"
  moves :: "nat \<Rightarrow> bool"
  dup_fd :: "nat \<Rightarrow> u32 \<Rightarrow> int"
  ashmem_get_size_region :: "u32 \<Rightarrow> int"
  ashmem_create_region :: "nat \<Rightarrow> nat \<Rightarrow> int"
  ashmem_set_prot_region :: "nat \<Rightarrow> u32 \<Rightarrow> int"
  mmap_fd :: "nat \<Rightarrow> u32 \<Rightarrow> nat \<Rightarrow> int"

text \<open>What an object in a parcel refers to, and what parcels do to the objects of the process.\<close>

datatype referent = Strong_Local u64 | Weak_Local u64 | Strong_Proxy u32 | Weak_Proxy u32

datatype parcel_event = Acquire referent | Release referent | Close u32 | Free_Buffer u64 | Map u32 nat | Unmap u32 nat

record world =
  calls :: nat
  parcel_events :: "parcel_event list"
  gParcelGlobalAllocSize :: nat
  gParcelGlobalAllocCount :: nat

definition emit :: "parcel_event \<Rightarrow> world \<Rightarrow> world" where
  "emit e w = w\<lparr>parcel_events := parcel_events w @ [e]\<rparr>"

definition called :: "world \<Rightarrow> world" where
  "called w = w\<lparr>calls := calls w + 1\<rparr>"

definition account :: "nat \<Rightarrow> nat \<Rightarrow> int \<Rightarrow> world \<Rightarrow> world" where
  "account up down n w = w\<lparr>gParcelGlobalAllocSize := wrap64 (gParcelGlobalAllocSize w + up + (2 ^ 64 - wrap64 down)),
     gParcelGlobalAllocCount := nat ((int (gParcelGlobalAllocCount w) + n) mod 2 ^ 64)\<rparr>"

datatype 'a buf = Null | Buf "'a list" | Freed

definition malloc_bytes :: "libc \<Rightarrow> nat \<Rightarrow> world \<Rightarrow> byte list option \<times> world" where
  "malloc_bytes k n w = (if can_malloc k (calls w) n then Some (map (junk k (calls w)) [0..<n]) else None, called w)"

text \<open>
  \<open>realloc\<close> of memory for \<open>n\<close> elements of \<open>sz\<close> bytes: the new memory, if any, what the old pointer leads to afterwards, and the rest. A
  size of zero frees the memory and gives back no pointer.
\<close>

definition realloc_buf :: "libc \<Rightarrow> nat \<Rightarrow> (nat \<Rightarrow> nat \<Rightarrow> 'a) \<Rightarrow> 'a buf \<Rightarrow> nat \<Rightarrow> world \<Rightarrow> ('a list option \<times> 'a buf \<times> world) option" where
  "realloc_buf k sz jk d n w = (case d of
       Freed \<Rightarrow> None
     | Null \<Rightarrow> Some (if can_malloc k (calls w) (n * sz) then Some (map (jk (calls w)) [0..<n]) else None, Null, called w)
     | Buf xs \<Rightarrow>
         if n = 0 then Some (None, Freed, called w)
         else if can_malloc k (calls w) (n * sz)
         then let ys = take n xs @ map (jk (calls w)) [length xs..<n]
              in Some (Some ys, if moves k (calls w) then Freed else Buf ys, called w)
         else Some (None, Buf xs, called w))"

section \<open>Parcels\<close>

text \<open>\<open>mOwner\<close> is the address of the data in the driver's mapping when the parcel refers to it (\<open>IPCThreadState::freeBuffer\<close> is the only release function).\<close>

record parcel =
  mError :: int
  mData :: "byte buf"
  mDataSize :: nat
  mDataCapacity :: nat
  mDataPos :: nat
  mObjects :: "nat buf"
  mObjectsSize :: nat
  mObjectsCapacity :: nat
  mNextObjectHint :: nat
  mFdsKnown :: bool
  mHasFds :: bool
  mAllowFds :: bool
  mOwner :: "u64 option"
  mOpenAshmemSize :: nat

definition initState :: parcel where
  "initState = \<lparr>mError = NO_ERROR, mData = Null, mDataSize = 0, mDataCapacity = 0, mDataPos = 0, mObjects = Null, mObjectsSize = 0,
     mObjectsCapacity = 0, mNextObjectHint = 0, mFdsKnown = True, mHasFds = False, mAllowFds = True, mOwner = None, mOpenAshmemSize = 0\<rparr>"

definition dataSize :: "parcel \<Rightarrow> nat" where
  "dataSize p = (if mDataSize p > mDataPos p then mDataSize p else mDataPos p)"

definition dataAvail :: "parcel \<Rightarrow> nat" where
  "dataAvail p = dataSize p - mDataPos p"

definition peek :: "nat \<Rightarrow> nat \<Rightarrow> parcel \<Rightarrow> byte list option" where
  "peek off n p = (if n = 0 then Some [] else case mData p of Buf d \<Rightarrow> get_range d off n | _ \<Rightarrow> None)"

definition poke :: "nat \<Rightarrow> byte list \<Rightarrow> parcel \<Rightarrow> parcel option" where
  "poke off bs p =
     (if bs = [] then Some p
      else if mOwner p \<noteq> None then None
      else case mData p of Buf d \<Rightarrow> map_option (\<lambda>d'. p\<lparr>mData := Buf d'\<rparr>) (put_range d off bs) | _ \<Rightarrow> None)"

definition object_offset :: "nat \<Rightarrow> parcel \<Rightarrow> nat option" where
  "object_offset i p = (case mObjects p of Buf os \<Rightarrow> if i < length os then Some (os ! i) else None | _ \<Rightarrow> None)"

definition set_object_offset :: "nat \<Rightarrow> nat \<Rightarrow> parcel \<Rightarrow> parcel option" where
  "set_object_offset i off p =
     (case mObjects p of Buf os \<Rightarrow> if i < length os then Some (p\<lparr>mObjects := Buf (os[i := off])\<rparr>) else None | _ \<Rightarrow> None)"

definition flat_at :: "nat \<Rightarrow> parcel \<Rightarrow> flat_binder_object option" where
  "flat_at off p = (case mData p of Buf d \<Rightarrow> get_flat_object d off | _ \<Rightarrow> None)"

definition flat_bytes :: "flat_binder_object \<Rightarrow> byte list" where
  "flat_bytes f = u32_bytes (fo_type f) @ u32_bytes (fo_flags f) @ u64_bytes (fo_binder f) @ u64_bytes (fo_cookie f)"

section \<open>References of objects\<close>

text \<open>
  \<open>acquire_object\<close> and \<open>release_object\<close> with the size of the shared memory that the parcel keeps open. Getting the proxy of a handle and
  changing its count is one event; another theory gives events their effect on the process.
\<close>

definition acquire_object :: "libc \<Rightarrow> flat_binder_object \<Rightarrow> nat \<Rightarrow> world \<Rightarrow> nat \<times> world" where
  "acquire_object k f open' w =
     (if fo_type f = BINDER_TYPE_BINDER then (open', if fo_binder f \<noteq> 0 then emit (Acquire (Strong_Local (fo_cookie f))) w else w)
      else if fo_type f = BINDER_TYPE_WEAK_BINDER then (open', if fo_binder f \<noteq> 0 then emit (Acquire (Weak_Local (fo_binder f))) w else w)
      else if fo_type f = BINDER_TYPE_HANDLE then (open', emit (Acquire (Strong_Proxy (fo_handle f))) w)
      else if fo_type f = BINDER_TYPE_WEAK_HANDLE then (open', emit (Acquire (Weak_Proxy (fo_handle f))) w)
      else if fo_type f = BINDER_TYPE_FD
      then (if fo_cookie f \<noteq> 0 \<and> 0 < ashmem_get_size_region k (fo_handle f)
            then wrap64 (open' + nat (ashmem_get_size_region k (fo_handle f))) else open', w)
      else (open', w))"

definition release_object :: "libc \<Rightarrow> flat_binder_object \<Rightarrow> nat \<Rightarrow> world \<Rightarrow> nat \<times> world" where
  "release_object k f open' w =
     (if fo_type f = BINDER_TYPE_BINDER then (open', if fo_binder f \<noteq> 0 then emit (Release (Strong_Local (fo_cookie f))) w else w)
      else if fo_type f = BINDER_TYPE_WEAK_BINDER then (open', if fo_binder f \<noteq> 0 then emit (Release (Weak_Local (fo_binder f))) w else w)
      else if fo_type f = BINDER_TYPE_HANDLE then (open', emit (Release (Strong_Proxy (fo_handle f))) w)
      else if fo_type f = BINDER_TYPE_WEAK_HANDLE then (open', emit (Release (Weak_Proxy (fo_handle f))) w)
      else if fo_type f = BINDER_TYPE_FD \<and> fo_cookie f \<noteq> 0
      then (if 0 < ashmem_get_size_region k (fo_handle f)
            then wrap64 (open' + (2 ^ 64 - wrap64 (nat (ashmem_get_size_region k (fo_handle f))))) else open',
            emit (Close (fo_handle f)) w)
      else (open', w))"

fun objects_down ::
  "(flat_binder_object \<Rightarrow> nat \<Rightarrow> world \<Rightarrow> nat \<times> world) \<Rightarrow> nat \<Rightarrow> parcel \<Rightarrow> world \<Rightarrow> (parcel \<times> world) option" where
  "objects_down f 0 p w = Some (p, w)"
| "objects_down f (Suc i) p w = do {
     off \<leftarrow> object_offset i p;
     obj \<leftarrow> flat_at off p;
     let (open', w') = f obj (mOpenAshmemSize p) w in objects_down f i (p\<lparr>mOpenAshmemSize := open'\<rparr>) w' }"

definition releaseObjects :: "libc \<Rightarrow> parcel \<Rightarrow> world \<Rightarrow> (parcel \<times> world) option" where
  "releaseObjects k p w = objects_down (release_object k) (mObjectsSize p) p w"

definition acquireObjects :: "libc \<Rightarrow> nat \<Rightarrow> parcel \<Rightarrow> world \<Rightarrow> (parcel \<times> world) option" where
  "acquireObjects k n p w = objects_down (acquire_object k) n p w"

definition close_fd_object :: "flat_binder_object \<Rightarrow> nat \<Rightarrow> world \<Rightarrow> nat \<times> world" where
  "close_fd_object f open' w = (open', if fo_type f = BINDER_TYPE_FD then emit (Close (fo_handle f)) w else w)"

definition closeFileDescriptors :: "parcel \<Rightarrow> world \<Rightarrow> (parcel \<times> world) option" where
  "closeFileDescriptors p w = objects_down close_fd_object (mObjectsSize p) p w"

text \<open>The release function: close the descriptors, and let the driver free the buffer.\<close>

definition call_owner :: "u64 \<Rightarrow> parcel \<Rightarrow> world \<Rightarrow> world option" where
  "call_owner addr p w = do { (p', w') \<leftarrow> closeFileDescriptors p w; Some (emit (Free_Buffer addr) w') }"

definition free_buf :: "'a buf \<Rightarrow> 'a buf option" where
  "free_buf d = (case d of Null \<Rightarrow> Some Null | Buf _ \<Rightarrow> Some Freed | Freed \<Rightarrow> None)"

definition freeDataNoInit :: "libc \<Rightarrow> parcel \<Rightarrow> world \<Rightarrow> (parcel \<times> world) option" where
  "freeDataNoInit k p w = (case mOwner p of
       Some addr \<Rightarrow> do { w' \<leftarrow> call_owner addr p w; Some (p, w') }
     | None \<Rightarrow> do {
         (p1, w1) \<leftarrow> releaseObjects k p w;
         d \<leftarrow> free_buf (mData p1);
         let w2 = (if mData p1 = Null then w1 else account 0 (mDataCapacity p1) (- 1) w1);
         os \<leftarrow> free_buf (mObjects p1);
         Some (p1\<lparr>mData := d, mObjects := os\<rparr>, w2) })"

definition freeData :: "libc \<Rightarrow> parcel \<Rightarrow> world \<Rightarrow> (parcel \<times> world) option" where
  "freeData k p w = do { (p1, w1) \<leftarrow> freeDataNoInit k p w; Some (initState, w1) }"

section \<open>Growing and shrinking\<close>

fun objects_below :: "nat \<Rightarrow> nat \<Rightarrow> parcel \<Rightarrow> nat option" where
  "objects_below desired 0 p = Some 0"
| "objects_below desired (Suc n) p = do {
     off \<leftarrow> object_offset n p;
     if off < desired then Some (Suc n) else objects_below desired n p }"

fun drop_objects :: "libc \<Rightarrow> nat \<Rightarrow> nat \<Rightarrow> parcel \<Rightarrow> world \<Rightarrow> (parcel \<times> world) option" where
  "drop_objects k i 0 p w = Some (p, w)"
| "drop_objects k i (Suc n) p w = do {
     off \<leftarrow> object_offset i p;
     obj \<leftarrow> flat_at off p;
     let p1 = (if fo_type obj = BINDER_TYPE_FD then p\<lparr>mFdsKnown := False\<rparr> else p);
         (open', w1) = release_object k obj (mOpenAshmemSize p1) w
     in drop_objects k (i + 1) n (p1\<lparr>mOpenAshmemSize := open'\<rparr>) w1 }"

definition continue_owner :: "libc \<Rightarrow> nat \<Rightarrow> nat \<Rightarrow> u64 \<Rightarrow> parcel \<Rightarrow> world \<Rightarrow> (int \<times> parcel \<times> world) option" where
  "continue_owner k desired objectsSize addr p w =
     (if desired = 0 then do { (p1, w1) \<leftarrow> freeData k p w; Some (NO_ERROR, p1, w1) }
      else case malloc_bytes k desired w of
        (None, w1) \<Rightarrow> Some (NO_MEM, p\<lparr>mError := NO_MEM\<rparr>, w1)
      | (Some data, w1) \<Rightarrow>
          if objectsSize \<noteq> 0 \<and> \<not> can_malloc k (calls w1) (objectsSize * 8)
          then Some (NO_MEM, p\<lparr>mError := NO_MEM\<rparr>, called w1)
          else do {
            (p1, w2) \<leftarrow> (if objectsSize \<noteq> 0 then acquireObjects k objectsSize p (called w1) else Some (p, w1));
            old \<leftarrow> peek 0 (min (mDataSize p1) desired) p1;
            os \<leftarrow> those (map (\<lambda>i. object_offset i p1) [0..<objectsSize]);
            w3 \<leftarrow> call_owner addr p1 w2;
            Some (NO_ERROR, p1\<lparr>mOwner := None, mData := Buf (old @ drop (length old) data), mObjects := (if objectsSize = 0 then Null else Buf os),
              mDataSize := min (mDataSize p1) desired, mDataCapacity := desired, mObjectsSize := objectsSize, mObjectsCapacity := objectsSize,
              mNextObjectHint := 0\<rparr>, account desired 0 1 w3) })"

definition continue_owned :: "libc \<Rightarrow> nat \<Rightarrow> nat \<Rightarrow> parcel \<Rightarrow> world \<Rightarrow> (int \<times> parcel \<times> world) option" where
  "continue_owned k desired objectsSize p w = do {
     (p1, w1) \<leftarrow> (if objectsSize < mObjectsSize p then do {
         (p1, w1) \<leftarrow> drop_objects k objectsSize (mObjectsSize p - objectsSize) p w;
         (os, old, w2) \<leftarrow> realloc_buf k 8 (junk64 k) (mObjects p1) objectsSize w1;
         Some (p1\<lparr>mObjects := (case os of None \<Rightarrow> old | Some xs \<Rightarrow> Buf xs), mObjectsSize := objectsSize, mNextObjectHint := 0\<rparr>, w2) }
       else Some (p, w));
     (if desired > mDataCapacity p1 then do {
        (data, old, w2) \<leftarrow> realloc_buf k 1 (junk k) (mData p1) desired w1;
        (case data of
           Some d \<Rightarrow> Some (NO_ERROR, p1\<lparr>mData := Buf d, mDataCapacity := desired\<rparr>, account desired (mDataCapacity p1) 0 w2)
         | None \<Rightarrow> Some (NO_MEM, p1\<lparr>mData := old, mError := NO_MEM\<rparr>, w2)) }
      else Some (NO_ERROR, p1\<lparr>mDataSize := min (mDataSize p1) desired, mDataPos := min (mDataPos p1) desired\<rparr>, w1)) }"

definition continueWrite :: "libc \<Rightarrow> nat \<Rightarrow> parcel \<Rightarrow> world \<Rightarrow> (int \<times> parcel \<times> world) option" where
  "continueWrite k desired p w =
     (if desired > INT32_MAX then Some (BAD_VALUE, p, w)
      else do {
        objectsSize \<leftarrow> (if desired < mDataSize p then if desired = 0 then Some 0 else objects_below desired (mObjectsSize p) p
                         else Some (mObjectsSize p));
        (case mOwner p of
           Some addr \<Rightarrow> continue_owner k desired objectsSize addr p w
         | None \<Rightarrow>
             if mData p \<noteq> Null then continue_owned k desired objectsSize p w
             else (case malloc_bytes k desired w of
                 (None, w1) \<Rightarrow> Some (NO_MEM, p\<lparr>mError := NO_MEM\<rparr>, w1)
               | (Some data, w1) \<Rightarrow>
                   Some (NO_ERROR, p\<lparr>mData := Buf data, mDataSize := 0, mDataPos := 0, mDataCapacity := desired\<rparr>, account desired 0 1 w1))) })"

definition growData :: "libc \<Rightarrow> nat \<Rightarrow> parcel \<Rightarrow> world \<Rightarrow> (int \<times> parcel \<times> world) option" where
  "growData k len p w =
     (if len > INT32_MAX then Some (BAD_VALUE, p, w)
      else let newSize = wrap64 (wrap64 (mDataSize p + len) * 3) div 2
           in if newSize \<le> mDataSize p then Some (NO_MEM, p, w) else continueWrite k newSize p w)"

definition restartWrite :: "libc \<Rightarrow> nat \<Rightarrow> parcel \<Rightarrow> world \<Rightarrow> (int \<times> parcel \<times> world) option" where
  "restartWrite k desired p w =
     (if desired > INT32_MAX then Some (BAD_VALUE, p, w)
      else if mOwner p \<noteq> None then do { (p1, w1) \<leftarrow> freeData k p w; continueWrite k desired p1 w1 }
      else do {
        (data, old, w1) \<leftarrow> realloc_buf k 1 (junk k) (mData p) desired w;
        if data = None \<and> desired > mDataCapacity p then Some (NO_MEM, p\<lparr>mData := old, mError := NO_MEM\<rparr>, w1)
        else do {
          (p2, w2) \<leftarrow> releaseObjects k (p\<lparr>mData := old\<rparr>) w1;
          let (p3, w3) = (case data of
              Some d \<Rightarrow> (p2\<lparr>mData := Buf d, mDataCapacity := desired\<rparr>, account desired (mDataCapacity p2) 0 w2)
            | None \<Rightarrow> (p2, w2));
          _ \<leftarrow> free_buf (mObjects p3);
          Some (NO_ERROR, p3\<lparr>mDataSize := 0, mDataPos := 0, mObjects := Null, mObjectsSize := 0, mObjectsCapacity := 0,
            mNextObjectHint := 0, mHasFds := False, mFdsKnown := True, mAllowFds := True\<rparr>, w3) } })"

section \<open>Sizes and positions\<close>

definition setDataSize :: "libc \<Rightarrow> nat \<Rightarrow> parcel \<Rightarrow> world \<Rightarrow> (int \<times> parcel \<times> world) option" where
  "setDataSize k n p w =
     (if n > INT32_MAX then Some (BAD_VALUE, p, w)
      else do {
        (err, p1, w1) \<leftarrow> continueWrite k n p w;
        Some (err, if err = NO_ERROR then p1\<lparr>mDataSize := n\<rparr> else p1, w1) })"

definition setDataPosition :: "nat \<Rightarrow> parcel \<Rightarrow> parcel option" where
  "setDataPosition pos p = (if pos > INT32_MAX then None else Some (p\<lparr>mDataPos := pos, mNextObjectHint := 0\<rparr>))"

definition setDataCapacity :: "libc \<Rightarrow> nat \<Rightarrow> parcel \<Rightarrow> world \<Rightarrow> (int \<times> parcel \<times> world) option" where
  "setDataCapacity k n p w =
     (if n > INT32_MAX then Some (BAD_VALUE, p, w)
      else if n > mDataCapacity p then continueWrite k n p w else Some (NO_ERROR, p, w))"

definition setData :: "libc \<Rightarrow> byte list \<Rightarrow> parcel \<Rightarrow> world \<Rightarrow> (int \<times> parcel \<times> world) option" where
  "setData k src p w =
     (if length src > INT32_MAX then Some (BAD_VALUE, p, w)
      else do {
        (err, p1, w1) \<leftarrow> restartWrite k (length src) p w;
        if err = NO_ERROR then do {
          p2 \<leftarrow> poke 0 src p1;
          Some (err, p2\<lparr>mDataSize := length src, mFdsKnown := False\<rparr>, w1) }
        else Some (err, p1, w1) })"

definition pushAllowFds :: "bool \<Rightarrow> parcel \<Rightarrow> bool \<times> parcel" where
  "pushAllowFds allow p = (mAllowFds p, if \<not> allow then p\<lparr>mAllowFds := False\<rparr> else p)"

definition restoreAllowFds :: "bool \<Rightarrow> parcel \<Rightarrow> parcel" where
  "restoreAllowFds lastValue p = p\<lparr>mAllowFds := lastValue\<rparr>"

definition setError :: "int \<Rightarrow> parcel \<Rightarrow> parcel" where
  "setError err p = p\<lparr>mError := err\<rparr>"

section \<open>Writing data\<close>

definition finishWrite :: "nat \<Rightarrow> parcel \<Rightarrow> int \<times> parcel" where
  "finishWrite len p =
     (if len > INT32_MAX then (BAD_VALUE, p)
      else let pos = wrap64 (mDataPos p + len)
           in (NO_ERROR, p\<lparr>mDataPos := pos, mDataSize := (if pos > mDataSize p then pos else mDataSize p)\<rparr>))"

text \<open>Writes that have room, or have made room, and go on at the label \<open>restart_write\<close>.\<close>

definition write_here :: "byte list \<Rightarrow> parcel \<Rightarrow> world \<Rightarrow> (int \<times> parcel \<times> world) option" where
  "write_here bs p w = do {
     p1 \<leftarrow> poke (mDataPos p) bs p;
     let (err, p2) = finishWrite (length bs) p1 in Some (err, p2, w) }"

definition writeUnpadded :: "libc \<Rightarrow> byte list \<Rightarrow> parcel \<Rightarrow> world \<Rightarrow> (int \<times> parcel \<times> world) option" where
  "writeUnpadded k bs p w =
     (if length bs > INT32_MAX then Some (BAD_VALUE, p, w)
      else let end' = wrap64 (mDataPos p + length bs)
           in if end' < mDataPos p then Some (BAD_VALUE, p, w)
              else if end' \<le> mDataCapacity p then write_here bs p w
              else do {
                (err, p1, w1) \<leftarrow> growData k (length bs) p w;
                if err = NO_ERROR then write_here bs p1 w1 else Some (err, p1, w1) })"

text \<open>The template \<open>writeAligned\<close>, on the bytes of the value.\<close>

definition writeAligned :: "libc \<Rightarrow> byte list \<Rightarrow> parcel \<Rightarrow> world \<Rightarrow> (int \<times> parcel \<times> world) option" where
  "writeAligned k bs p w =
     (if wrap64 (mDataPos p + length bs) \<le> mDataCapacity p then write_here bs p w
      else do {
        (err, p1, w1) \<leftarrow> growData k (length bs) p w;
        if err = NO_ERROR then write_here bs p1 w1 else Some (err, p1, w1) })"

definition writeInt32 :: "libc \<Rightarrow> u32 \<Rightarrow> parcel \<Rightarrow> world \<Rightarrow> (int \<times> parcel \<times> world) option" where
  "writeInt32 k v = writeAligned k (u32_bytes v)"

definition writeInt64 :: "libc \<Rightarrow> u64 \<Rightarrow> parcel \<Rightarrow> world \<Rightarrow> (int \<times> parcel \<times> world) option" where
  "writeInt64 k v = writeAligned k (u64_bytes v)"

definition writePointer :: "libc \<Rightarrow> u64 \<Rightarrow> parcel \<Rightarrow> world \<Rightarrow> (int \<times> parcel \<times> world) option" where
  "writePointer k v = writeAligned k (u64_bytes v)"

text \<open>\<open>writeInplace\<close>: the position of the memory for the caller, or \<open>None\<close> for a null pointer.\<close>

definition inplace_here :: "nat \<Rightarrow> nat \<Rightarrow> parcel \<Rightarrow> world \<Rightarrow> (nat option \<times> parcel \<times> world) option" where
  "inplace_here len padded p w = do {
     p1 \<leftarrow> poke (mDataPos p + len) (replicate (padded - len) 0) p;
     let p2 = snd (finishWrite padded p1) in Some (Some (mDataPos p), p2, w) }"

definition writeInplace :: "libc \<Rightarrow> nat \<Rightarrow> parcel \<Rightarrow> world \<Rightarrow> (nat option \<times> parcel \<times> world) option" where
  "writeInplace k len p w =
     (if len > INT32_MAX then Some (None, p, w)
      else do {
        padded \<leftarrow> pad_size len;
        if wrap64 (mDataPos p + padded) < mDataPos p then Some (None, p, w)
        else if wrap64 (mDataPos p + padded) \<le> mDataCapacity p then inplace_here len padded p w
        else do {
          (err, p1, w1) \<leftarrow> growData k padded p w;
          if err = NO_ERROR then inplace_here len padded p1 w1 else Some (None, p1, w1) } })"

definition parcel_write :: "libc \<Rightarrow> byte list \<Rightarrow> parcel \<Rightarrow> world \<Rightarrow> (int \<times> parcel \<times> world) option" where
  "parcel_write k bs p w =
     (if length bs > INT32_MAX then Some (BAD_VALUE, p, w)
      else do {
        (d, p1, w1) \<leftarrow> writeInplace k (length bs) p w;
        (case d of
           Some off \<Rightarrow> do { p2 \<leftarrow> poke off bs p1; Some (NO_ERROR, p2, w1) }
         | None \<Rightarrow> Some (mError p1, p1, w1)) })"

text \<open>Arrays of 32-bit integers and of bytes; a null pointer is \<open>None\<close>.\<close>

definition writeByteArray :: "libc \<Rightarrow> byte list option \<Rightarrow> nat \<Rightarrow> parcel \<Rightarrow> world \<Rightarrow> (int \<times> parcel \<times> world) option" where
  "writeByteArray k val len p w =
     (if len > INT32_MAX then Some (BAD_VALUE, p, w)
      else case val of
        None \<Rightarrow> writeInt32 k (- 1) p w
      | Some bs \<Rightarrow> do {
          (ret, p1, w1) \<leftarrow> writeInt32 k (word_of_nat len) p w;
          if ret = NO_ERROR then parcel_write k bs p1 w1 else Some (ret, p1, w1) })"

definition writeInt32Array :: "libc \<Rightarrow> u32 list option \<Rightarrow> nat \<Rightarrow> parcel \<Rightarrow> world \<Rightarrow> (int \<times> parcel \<times> world) option" where
  "writeInt32Array k val len p w = writeByteArray k (map_option (\<lambda>vs. concat (map u32_bytes vs)) val) len p w"

definition writeCString :: "libc \<Rightarrow> byte list \<Rightarrow> parcel \<Rightarrow> world \<Rightarrow> (int \<times> parcel \<times> world) option" where
  "writeCString k str p w = parcel_write k (str @ [0]) p w"

definition writeString8 :: "libc \<Rightarrow> byte list \<Rightarrow> parcel \<Rightarrow> world \<Rightarrow> (int \<times> parcel \<times> world) option" where
  "writeString8 k str p w = do {
     (err, p1, w1) \<leftarrow> writeInt32 k (word_of_nat (length str)) p w;
     if length str > 0 \<and> err = NO_ERROR then parcel_write k (str @ [0]) p1 w1 else Some (err, p1, w1) }"

definition chars16 :: "u16 list \<Rightarrow> byte list" where
  "chars16 str = concat (map u16_bytes str)"

definition writeString16 :: "libc \<Rightarrow> u16 list option \<Rightarrow> parcel \<Rightarrow> world \<Rightarrow> (int \<times> parcel \<times> world) option" where
  "writeString16 k str p w = (case str of
       None \<Rightarrow> writeInt32 k (- 1) p w
     | Some s \<Rightarrow> do {
         (err, p1, w1) \<leftarrow> writeInt32 k (word_of_nat (length s)) p w;
         if err = NO_ERROR then do {
           (d, p2, w2) \<leftarrow> writeInplace k (wrap64 (2 * length s + 2)) p1 w1;
           (case d of
              Some off \<Rightarrow> do { p3 \<leftarrow> poke off (chars16 s) p2; p4 \<leftarrow> poke (off + 2 * length s) [0, 0] p3; Some (NO_ERROR, p4, w2) }
            | None \<Rightarrow> Some (mError p2, p2, w2)) }
         else Some (err, p1, w1) })"

definition writeNoException :: "libc \<Rightarrow> parcel \<Rightarrow> world \<Rightarrow> (int \<times> parcel \<times> world) option" where
  "writeNoException k = writeInt32 k 0"

section \<open>Writing objects\<close>

definition object_here :: "libc \<Rightarrow> flat_binder_object \<Rightarrow> bool \<Rightarrow> parcel \<Rightarrow> world \<Rightarrow> (int \<times> parcel \<times> world) option" where
  "object_here k val nullMetaData p w = do {
     p1 \<leftarrow> poke (mDataPos p) (flat_bytes val) p;
     if fo_type val = BINDER_TYPE_FD \<and> \<not> mAllowFds p1 then Some (FDS_NOT_ALLOWED, p1, w)
     else do {
       let p2 = (if fo_type val = BINDER_TYPE_FD then p1\<lparr>mHasFds := True, mFdsKnown := True\<rparr> else p1);
       (p3, w3) \<leftarrow> (if nullMetaData \<or> fo_binder val \<noteq> 0 then do {
           p3 \<leftarrow> set_object_offset (mObjectsSize p2) (mDataPos p2) p2;
           let (open', w') = acquire_object k val (mOpenAshmemSize p3) w;
           Some (p3\<lparr>mOpenAshmemSize := open', mObjectsSize := mObjectsSize p3 + 1\<rparr>, w') }
         else Some (p2, w));
       let (err, p4) = finishWrite sizeof_flat_object p3 in Some (err, p4, w3) } }"

definition grow_objects :: "libc \<Rightarrow> nat \<Rightarrow> parcel \<Rightarrow> world \<Rightarrow> (int \<times> parcel \<times> world) option" where
  "grow_objects k newSize p w =
     (if newSize < mObjectsSize p then Some (NO_MEM, p, w)
      else do {
        (os, old, w1) \<leftarrow> realloc_buf k 8 (junk64 k) (mObjects p) newSize w;
        Some (case os of
            None \<Rightarrow> (NO_MEM, p\<lparr>mObjects := old\<rparr>, w1)
          | Some xs \<Rightarrow> (NO_ERROR, p\<lparr>mObjects := Buf xs, mObjectsCapacity := newSize\<rparr>, w1)) })"

definition writeObject :: "libc \<Rightarrow> flat_binder_object \<Rightarrow> bool \<Rightarrow> parcel \<Rightarrow> world \<Rightarrow> (int \<times> parcel \<times> world) option" where
  "writeObject k val nullMetaData p w =
     (let enoughData = (wrap64 (mDataPos p + sizeof_flat_object) \<le> mDataCapacity p);
          enoughObjects = (mObjectsSize p < mObjectsCapacity p)
      in do {
        (err, p1, w1) \<leftarrow> (if enoughData then Some (NO_ERROR, p, w) else growData k sizeof_flat_object p w);
        if err \<noteq> NO_ERROR then Some (err, p1, w1)
        else do {
          (err2, p2, w2) \<leftarrow> (if enoughObjects then Some (NO_ERROR, p1, w1)
                             else grow_objects k (wrap64 (wrap64 (mObjectsSize p1 + 2) * 3) div 2) p1 w1);
          if err2 \<noteq> NO_ERROR then Some (err2, p2, w2) else object_here k val nullMetaData p2 w2 } })"

text \<open>What a strong pointer to an \<open>IBinder\<close> can be: a local object with its \<open>weakref_type\<close>, a proxy, or neither.\<close>

datatype ibinder = Local_Binder u64 u64 | Proxy_Binder u32 | Other_Binder

definition flat_flags :: u32 where
  "flat_flags = 0x7f OR FLAT_BINDER_FLAG_ACCEPTS_FDS"

definition flat_of_strong :: "ibinder option \<Rightarrow> flat_binder_object" where
  "flat_of_strong b = (case b of
       None \<Rightarrow> \<lparr>fo_type = BINDER_TYPE_BINDER, fo_flags = flat_flags, fo_binder = 0, fo_cookie = 0\<rparr>
     | Some (Local_Binder refs obj) \<Rightarrow> \<lparr>fo_type = BINDER_TYPE_BINDER, fo_flags = flat_flags, fo_binder = refs, fo_cookie = obj\<rparr>
     | Some (Proxy_Binder h) \<Rightarrow> \<lparr>fo_type = BINDER_TYPE_HANDLE, fo_flags = flat_flags, fo_binder = ucast h, fo_cookie = 0\<rparr>
     | Some Other_Binder \<Rightarrow> \<lparr>fo_type = BINDER_TYPE_HANDLE, fo_flags = flat_flags, fo_binder = 0, fo_cookie = 0\<rparr>)"

text \<open>A weak pointer with the outcome of \<open>promote\<close>: \<open>Some None\<close> could not be promoted.\<close>

definition flat_of_weak :: "ibinder option option \<Rightarrow> flat_binder_object" where
  "flat_of_weak b = (case b of
       Some (Some (Local_Binder refs obj)) \<Rightarrow> \<lparr>fo_type = BINDER_TYPE_WEAK_BINDER, fo_flags = flat_flags, fo_binder = refs, fo_cookie = obj\<rparr>
     | Some (Some (Proxy_Binder h)) \<Rightarrow> \<lparr>fo_type = BINDER_TYPE_WEAK_HANDLE, fo_flags = flat_flags, fo_binder = ucast h, fo_cookie = 0\<rparr>
     | Some (Some Other_Binder) \<Rightarrow> \<lparr>fo_type = BINDER_TYPE_WEAK_HANDLE, fo_flags = flat_flags, fo_binder = 0, fo_cookie = 0\<rparr>
     | _ \<Rightarrow> \<lparr>fo_type = BINDER_TYPE_BINDER, fo_flags = flat_flags, fo_binder = 0, fo_cookie = 0\<rparr>)"

definition writeStrongBinder :: "libc \<Rightarrow> ibinder option \<Rightarrow> parcel \<Rightarrow> world \<Rightarrow> (int \<times> parcel \<times> world) option" where
  "writeStrongBinder k b = writeObject k (flat_of_strong b) False"

definition writeWeakBinder :: "libc \<Rightarrow> ibinder option option \<Rightarrow> parcel \<Rightarrow> world \<Rightarrow> (int \<times> parcel \<times> world) option" where
  "writeWeakBinder k b = writeObject k (flat_of_weak b) False"

definition writeFileDescriptor :: "libc \<Rightarrow> u32 \<Rightarrow> bool \<Rightarrow> parcel \<Rightarrow> world \<Rightarrow> (int \<times> parcel \<times> world) option" where
  "writeFileDescriptor k fd takeOwnership =
     writeObject k \<lparr>fo_type = BINDER_TYPE_FD, fo_flags = flat_flags, fo_binder = ucast fd, fo_cookie = (if takeOwnership then 1 else 0)\<rparr> True"

definition writeDupFileDescriptor :: "libc \<Rightarrow> u32 \<Rightarrow> parcel \<Rightarrow> world \<Rightarrow> (int \<times> parcel \<times> world) option" where
  "writeDupFileDescriptor k fd p w =
     (let dupFd = dup_fd k (calls w) fd; w0 = called w
      in if dupFd < 0 then Some (dupFd, p, w0)
         else do {
           (err, p1, w1) \<leftarrow> writeFileDescriptor k (word_of_int dupFd) True p w0;
           Some (err, p1, if err \<noteq> NO_ERROR then emit (Close (word_of_int dupFd)) w1 else w1) })"

end
