(* ===== verification/Parcel_Read.thy ===== *)
theory Parcel_Read
  imports Parcel
begin

text \<open>
  Reading from parcels, and the operations on top of reading and writing (\<open>libs/binder/Parcel.cpp\<close>, the templates of \<open>Parcel.h\<close>, \<open>libs/cutils/native_handle.c\<close>). The
  position and the hint are \<open>mutable\<close> in the code: every operation returns the parcel. Pointers into the data are positions.
\<close>

unbundle bit_operations_syntax

section \<open>Reading data\<close>

definition parcel_read :: "nat \<Rightarrow> parcel \<Rightarrow> (int \<times> byte list \<times> parcel) option" where
  "parcel_read len p =
     (if len > INT32_MAX then Some (BAD_VALUE, [], p)
      else do {
        padded \<leftarrow> pad_size len;
        if mDataPos p \<le> wrap64 (mDataPos p + padded) \<and> wrap64 (mDataPos p + padded) \<le> mDataSize p \<and> len \<le> padded
        then do { bs \<leftarrow> peek (mDataPos p) len p; Some (NO_ERROR, bs, p\<lparr>mDataPos := wrap64 (mDataPos p + padded)\<rparr>) }
        else Some (NOT_ENOUGH_DATA, [], p) })"

definition readInplace :: "nat \<Rightarrow> parcel \<Rightarrow> (nat option \<times> parcel) option" where
  "readInplace len p =
     (if len > INT32_MAX then Some (None, p)
      else do {
        padded \<leftarrow> pad_size len;
        if mDataPos p \<le> wrap64 (mDataPos p + padded) \<and> wrap64 (mDataPos p + padded) \<le> mDataSize p \<and> len \<le> padded
        then Some (Some (mDataPos p), p\<lparr>mDataPos := wrap64 (mDataPos p + padded)\<rparr>)
        else Some (None, p) })"

text \<open>The template \<open>readAligned\<close> for a type of \<open>n\<close> bytes; \<open>None\<close> inside is \<open>NOT_ENOUGH_DATA\<close>. The other form of it gives 0 in that case.\<close>

definition readAligned :: "nat \<Rightarrow> parcel \<Rightarrow> (byte list option \<times> parcel) option" where
  "readAligned n p =
     (if wrap64 (mDataPos p + n) \<le> mDataSize p
      then do { bs \<leftarrow> peek (mDataPos p) n p; Some (Some bs, p\<lparr>mDataPos := wrap64 (mDataPos p + n)\<rparr>) }
      else Some (None, p))"

definition readInt32_arg :: "parcel \<Rightarrow> (u32 option \<times> parcel) option" where
  "readInt32_arg p = do { (r, p1) \<leftarrow> readAligned 4 p; Some (map_option le_word r, p1) }"

definition readInt64_arg :: "parcel \<Rightarrow> (u64 option \<times> parcel) option" where
  "readInt64_arg p = do { (r, p1) \<leftarrow> readAligned 8 p; Some (map_option le_word r, p1) }"

definition or_zero :: "'a::zero option \<Rightarrow> 'a" where
  "or_zero r = (case r of Some v \<Rightarrow> v | None \<Rightarrow> 0)"

definition readInt32 :: "parcel \<Rightarrow> (u32 \<times> parcel) option" where
  "readInt32 p = do { (r, p1) \<leftarrow> readInt32_arg p; Some (or_zero r, p1) }"

definition readInt64 :: "parcel \<Rightarrow> (u64 \<times> parcel) option" where
  "readInt64 p = do { (r, p1) \<leftarrow> readInt64_arg p; Some (or_zero r, p1) }"

definition readPointer_arg :: "parcel \<Rightarrow> (u64 option \<times> parcel) option" where
  "readPointer_arg p = readInt64_arg p"

text \<open>\<open>memchr\<close> of a zero byte in \<open>n\<close> bytes, which does not look further than the first one; a byte that is not there is a fault.\<close>

fun memchr0 :: "nat \<Rightarrow> nat \<Rightarrow> parcel \<Rightarrow> nat option option" where
  "memchr0 off 0 p = Some None"
| "memchr0 off (Suc n) p = do {
     bs \<leftarrow> peek off 1 p;
     if bs = [0] then Some (Some off) else memchr0 (off + 1) n p }"

definition readCString :: "parcel \<Rightarrow> (byte list option \<times> parcel) option" where
  "readCString p =
     (let avail = wrap64 (mDataSize p + (2 ^ 64 - wrap64 (mDataPos p)))
      in if avail > 0
         then do {
           eos \<leftarrow> memchr0 (mDataPos p) avail p;
           (case eos of
              Some e \<Rightarrow> do {
                padded \<leftarrow> pad_size (e - mDataPos p + 1);
                str \<leftarrow> peek (mDataPos p) (e - mDataPos p) p;
                Some (Some str, p\<lparr>mDataPos := wrap64 (mDataPos p + padded)\<rparr>) }
            | None \<Rightarrow> Some (None, p)) }
         else Some (None, p))"

definition readString8 :: "parcel \<Rightarrow> (byte list \<times> parcel) option" where
  "readString8 p = do {
     (sz, p1) \<leftarrow> readInt32 p;
     if 0 < sint sz \<and> sint sz < int INT32_MAX then do {
       (d, p2) \<leftarrow> readInplace (unat sz + 1) p1;
       (case d of
          Some off \<Rightarrow> do { str \<leftarrow> peek off (unat sz) p2; Some (str, p2) }
        | None \<Rightarrow> Some ([], p2)) }
     else Some ([], p1) }"

definition readString16Inplace :: "parcel \<Rightarrow> (nat option \<times> nat \<times> parcel) option" where
  "readString16Inplace p = do {
     (sz, p1) \<leftarrow> readInt32 p;
     if 0 \<le> sint sz \<and> sint sz < int INT32_MAX then do {
       (d, p2) \<leftarrow> readInplace ((unat sz + 1) * 2) p1;
       (case d of Some off \<Rightarrow> Some (Some off, unat sz, p2) | None \<Rightarrow> Some (None, 0, p2)) }
     else Some (None, 0, p1) }"

fun le_chars :: "byte list \<Rightarrow> u16 list" where
  "le_chars (a # b # bs) = le_word [a, b] # le_chars bs"
| "le_chars _ = []"

definition readString16 :: "parcel \<Rightarrow> (u16 list \<times> parcel) option" where
  "readString16 p = do {
     (d, len, p1) \<leftarrow> readString16Inplace p;
     (case d of
        Some off \<Rightarrow> do { bs \<leftarrow> peek off (2 * len) p1; Some (le_chars bs, p1) }
      | None \<Rightarrow> Some ([], p1)) }"

text \<open>\<open>EX_HAS_REPLY_HEADER\<close> is \<open>- 128\<close>.\<close>

definition readExceptionCode :: "parcel \<Rightarrow> (int \<times> parcel) option" where
  "readExceptionCode p = do {
     (code, p1) \<leftarrow> readInt32 p;
     if sint code = - 128 then do {
       let header_start = mDataPos p1;
       (header_size, p2) \<leftarrow> readInt32 p1;
       let pos = sint (word_of_int (int header_start + sint header_size) :: u32);
       p3 \<leftarrow> (if pos < 0 then None else setDataPosition (nat pos) p2);
       Some (0, p3) }
     else Some (sint code, p1) }"

section \<open>Reading objects\<close>

text \<open>The two searches of \<open>readObject\<close> over the offsets \<open>OBJS\<close>; \<open>n\<close> is \<open>N\<close>.\<close>

function search_up :: "nat list \<Rightarrow> nat \<Rightarrow> nat \<Rightarrow> nat \<Rightarrow> nat" where
  "search_up os n dpos opos = (if opos < n - 1 \<and> os ! opos < dpos then search_up os n dpos (opos + 1) else opos)"
  by pat_completeness auto
termination by (relation "measure (\<lambda>(os, n, dpos, opos). n - opos)") auto

fun search_down :: "nat list \<Rightarrow> nat \<Rightarrow> nat \<Rightarrow> nat" where
  "search_down os dpos 0 = 0"
| "search_down os dpos (Suc opos) = (if os ! Suc opos > dpos then search_down os dpos opos else Suc opos)"

definition find_object :: "nat list \<Rightarrow> nat \<Rightarrow> nat \<Rightarrow> nat \<Rightarrow> nat option" where
  "find_object os n hint dpos =
     (if n = 0 then None
      else let opos = (if hint < n then search_up os n dpos hint else n - 1)
           in if os ! opos = dpos then Some opos
              else let opos' = search_down os dpos opos in if os ! opos' = dpos then Some opos' else None)"

definition readObject :: "bool \<Rightarrow> parcel \<Rightarrow> (flat_binder_object option \<times> parcel) option" where
  "readObject nullMetaData p =
     (if wrap64 (mDataPos p + sizeof_flat_object) \<le> mDataSize p then do {
        obj \<leftarrow> flat_at (mDataPos p) p;
        let p1 = p\<lparr>mDataPos := wrap64 (mDataPos p + sizeof_flat_object)\<rparr>;
        if \<not> nullMetaData \<and> fo_cookie obj = 0 \<and> fo_binder obj = 0 then Some (Some obj, p1)
        else do {
          os \<leftarrow> those (map (\<lambda>i. object_offset i p) [0..<mObjectsSize p]);
          (case find_object os (mObjectsSize p) (mNextObjectHint p) (mDataPos p) of
             Some i \<Rightarrow> Some (Some obj, p1\<lparr>mNextObjectHint := i + 1\<rparr>)
           | None \<Rightarrow> Some (None, p1)) } }
      else Some (None, p))"

text \<open>What a pointer that is read refers to: an object of this process, one with its \<open>weakref_type\<close>, or the proxy of a handle.\<close>

datatype ibinder_ref = Ref_Null | Ref_Object u64 | Ref_Weak u64 u64 | Ref_Handle u32

definition unflatten_strong :: "parcel \<Rightarrow> (int \<times> ibinder_ref \<times> parcel) option" where
  "unflatten_strong p = do {
     (flat, p1) \<leftarrow> readObject False p;
     Some (case flat of
         Some f \<Rightarrow>
           if fo_type f = BINDER_TYPE_BINDER then (NO_ERROR, if fo_cookie f = 0 then Ref_Null else Ref_Object (fo_cookie f), p1)
           else if fo_type f = BINDER_TYPE_HANDLE then (NO_ERROR, Ref_Handle (fo_handle f), p1)
           else (BAD_TYPE, Ref_Null, p1)
       | None \<Rightarrow> (BAD_TYPE, Ref_Null, p1)) }"

definition unflatten_weak :: "parcel \<Rightarrow> (int \<times> ibinder_ref \<times> parcel) option" where
  "unflatten_weak p = do {
     (flat, p1) \<leftarrow> readObject False p;
     Some (case flat of
         Some f \<Rightarrow>
           if fo_type f = BINDER_TYPE_BINDER then (NO_ERROR, if fo_cookie f = 0 then Ref_Null else Ref_Object (fo_cookie f), p1)
           else if fo_type f = BINDER_TYPE_WEAK_BINDER
           then (NO_ERROR, if fo_binder f \<noteq> 0 then Ref_Weak (fo_binder f) (fo_cookie f) else Ref_Null, p1)
           else if fo_type f = BINDER_TYPE_HANDLE \<or> fo_type f = BINDER_TYPE_WEAK_HANDLE then (NO_ERROR, Ref_Handle (fo_handle f), p1)
           else (BAD_TYPE, Ref_Null, p1)
       | None \<Rightarrow> (BAD_TYPE, Ref_Null, p1)) }"

definition readStrongBinder :: "parcel \<Rightarrow> (ibinder_ref \<times> parcel) option" where
  "readStrongBinder p = do { (err, r, p1) \<leftarrow> unflatten_strong p; Some (r, p1) }"

definition readWeakBinder :: "parcel \<Rightarrow> (ibinder_ref \<times> parcel) option" where
  "readWeakBinder p = do { (err, r, p1) \<leftarrow> unflatten_weak p; Some (r, p1) }"

definition readFileDescriptor :: "parcel \<Rightarrow> (int \<times> parcel) option" where
  "readFileDescriptor p = do {
     (flat, p1) \<leftarrow> readObject True p;
     Some (case flat of
         Some f \<Rightarrow> if fo_type f = BINDER_TYPE_FD then (sint (fo_handle f), p1) else (BAD_TYPE, p1)
       | None \<Rightarrow> (BAD_TYPE, p1)) }"

fun scan_fds :: "nat \<Rightarrow> nat \<Rightarrow> parcel \<Rightarrow> bool option" where
  "scan_fds i 0 p = Some False"
| "scan_fds i (Suc n) p = do {
     off \<leftarrow> object_offset i p;
     flat \<leftarrow> flat_at off p;
     if fo_type flat = BINDER_TYPE_FD then Some True else scan_fds (i + 1) n p }"

definition scanForFds :: "parcel \<Rightarrow> parcel option" where
  "scanForFds p = do { has \<leftarrow> scan_fds 0 (mObjectsSize p) p; Some (p\<lparr>mHasFds := has, mFdsKnown := True\<rparr>) }"

definition hasFileDescriptors :: "parcel \<Rightarrow> (bool \<times> parcel) option" where
  "hasFileDescriptors p = do { p1 \<leftarrow> (if mFdsKnown p then Some p else scanForFds p); Some (mHasFds p1, p1) }"

text \<open>\<open>ipcSetDataReference\<close>: the parcel refers to a buffer of the driver at \<open>addr\<close>. Offsets that overlap make it forget all objects.\<close>

fun offsets_ok :: "nat \<Rightarrow> nat list \<Rightarrow> bool" where
  "offsets_ok minOffset [] = True"
| "offsets_ok minOffset (off # rest) = (\<not> off < minOffset \<and> offsets_ok (wrap64 (off + sizeof_flat_object)) rest)"

definition ipcSetDataReference ::
  "libc \<Rightarrow> byte list \<Rightarrow> nat list \<Rightarrow> u64 \<Rightarrow> parcel \<Rightarrow> world \<Rightarrow> (parcel \<times> world) option" where
  "ipcSetDataReference k data objects addr p w = do {
     (p1, w1) \<leftarrow> freeDataNoInit k p w;
     p2 \<leftarrow> scanForFds (p1\<lparr>mError := NO_ERROR, mData := Buf data, mDataSize := length data, mDataCapacity := length data, mDataPos := 0,
       mObjects := Buf objects, mObjectsSize := (if offsets_ok 0 objects then length objects else 0), mObjectsCapacity := length objects,
       mNextObjectHint := 0, mOwner := Some addr\<rparr>);
     Some (p2, w1) }"

section \<open>Interface tokens\<close>

definition STRICT_MODE_PENALTY_GATHER :: u32 where
  "STRICT_MODE_PENALTY_GATHER = 0x400000"

text \<open>The policy of the thread is an argument, and a result of \<open>enforceInterface\<close>; the first write's status is not looked at.\<close>

definition writeInterfaceToken :: "libc \<Rightarrow> u32 \<Rightarrow> u16 list \<Rightarrow> parcel \<Rightarrow> world \<Rightarrow> (int \<times> parcel \<times> world) option" where
  "writeInterfaceToken k policy iface p w = do {
     (err, p1, w1) \<leftarrow> writeInt32 k (policy OR STRICT_MODE_PENALTY_GATHER) p w;
     writeString16 k (Some iface) p1 w1 }"

definition enforceInterface :: "u16 list \<Rightarrow> u32 \<Rightarrow> parcel \<Rightarrow> (bool \<times> u32 \<times> parcel) option" where
  "enforceInterface iface flags p = do {
     (strictPolicy, p1) \<leftarrow> readInt32 p;
     let policy = (if flags AND 1 \<noteq> 0 then 0 else strictPolicy);
     (str, p2) \<leftarrow> readString16 p1;
     Some (str = iface, policy, p2) }"

section \<open>Appending\<close>

text \<open>\<open>appendFrom\<close> another parcel \<open>src\<close>. A failed \<open>dup\<close> is not noticed: the descriptor becomes \<open>- 1\<close>.\<close>

definition in_range :: "nat \<Rightarrow> nat \<Rightarrow> nat \<Rightarrow> bool" where
  "in_range offset len off \<longleftrightarrow> offset \<le> off \<and> wrap64 (off + sizeof_flat_object) \<le> wrap64 (offset + len)"

definition range_objects :: "nat \<Rightarrow> nat \<Rightarrow> nat list \<Rightarrow> nat list" where
  "range_objects offset len os =
     (let is = filter (\<lambda>i. in_range offset len (os ! i)) [0..<length os]
      in if is = [] then [] else take (last is + 1 - hd is) (drop (hd is) os))"

fun append_objects :: "libc \<Rightarrow> nat \<Rightarrow> nat \<Rightarrow> nat list \<Rightarrow> int \<Rightarrow> parcel \<Rightarrow> world \<Rightarrow> (int \<times> parcel \<times> world) option" where
  "append_objects k offset startPos [] err p w = Some (err, p, w)"
| "append_objects k offset startPos (ob # os) err p w = do {
     let off = wrap64 (ob + (2 ^ 64 - wrap64 offset) + startPos);
     p1 \<leftarrow> set_object_offset (mObjectsSize p) off p;
     flat \<leftarrow> flat_at off p1;
     let (open', w1) = acquire_object k flat (mOpenAshmemSize p1) w;
     let p2 = p1\<lparr>mObjectsSize := mObjectsSize p1 + 1, mOpenAshmemSize := open'\<rparr>;
     (if fo_type flat = BINDER_TYPE_FD then do {
        p3 \<leftarrow> poke (off + 8) (u32_bytes (word_of_int (dup_fd k (calls w1) (fo_handle flat)))) p2;
        p4 \<leftarrow> poke (off + 16) (u64_bytes 1) p3;
        append_objects k offset startPos os (if mAllowFds p4 then err else FDS_NOT_ALLOWED)
          (p4\<lparr>mHasFds := True, mFdsKnown := True\<rparr>) (called w1) }
      else append_objects k offset startPos os err p2 w1) }"

definition appendFrom :: "libc \<Rightarrow> parcel \<Rightarrow> nat \<Rightarrow> nat \<Rightarrow> parcel \<Rightarrow> world \<Rightarrow> (int \<times> parcel \<times> world) option" where
  "appendFrom k src offset len p w =
     (if len = 0 then Some (NO_ERROR, p, w)
      else if len > INT32_MAX then Some (BAD_VALUE, p, w)
      else if offset > mDataSize src \<or> len > mDataSize src \<or> wrap64 (offset + len) > mDataSize src then Some (BAD_VALUE, p, w)
      else do {
        os \<leftarrow> those (map (\<lambda>i. object_offset i src) [0..<mObjectsSize src]);
        let found = range_objects offset len os;
        (err, p1, w1) \<leftarrow> (if wrap64 (mDataSize p + len) > mDataCapacity p then growData k len p w else Some (NO_ERROR, p, w));
        if err \<noteq> NO_ERROR then Some (err, p1, w1)
        else do {
          data \<leftarrow> peek offset len src;
          p2 \<leftarrow> poke (mDataPos p1) data p1;
          let p3 = p2\<lparr>mDataPos := wrap64 (mDataPos p2 + len), mDataSize := wrap64 (mDataSize p2 + len)\<rparr>;
          if found = [] then Some (NO_ERROR, p3, w1)
          else do {
            (err2, p4, w2) \<leftarrow> (if mObjectsCapacity p3 < mObjectsSize p3 + length found
                               then grow_objects k (wrap64 (wrap64 (mObjectsSize p3 + length found) * 3) div 2) p3 w1
                               else Some (NO_ERROR, p3, w1));
            if err2 \<noteq> NO_ERROR then Some (err2, p4, w2)
            else append_objects k offset (mDataPos p) found NO_ERROR p4 w2 } } })"

section \<open>Native handles\<close>

text \<open>\<open>native_handle_t\<close>: \<open>data\<close> holds the descriptors and then the integers. Its memory comes uninitialised; \<open>version\<close> is the size of the structure, 12.\<close>

record native_handle =
  nh_version :: int
  numFds :: int
  numInts :: int
  nh_data :: "u32 list"

definition native_handle_create :: "libc \<Rightarrow> int \<Rightarrow> int \<Rightarrow> world \<Rightarrow> native_handle option \<times> world" where
  "native_handle_create k fds' ints w =
     (if fds' < 0 \<or> ints < 0 \<or> fds' > 1024 \<or> ints > 1024 then (None, w)
      else if can_malloc k (calls w) (12 + 4 * nat (fds' + ints))
      then (Some \<lparr>nh_version = 12, numFds = fds', numInts = ints,
              nh_data = map (\<lambda>i. word_of_nat (junk64 k (calls w) i)) [0..<nat (fds' + ints)]\<rparr>, called w)
      else (None, called w))"

definition native_handle_close :: "native_handle \<Rightarrow> world \<Rightarrow> world" where
  "native_handle_close h w =
     (if nh_version h \<noteq> 12 then w else fold (\<lambda>fd. emit (Close fd)) (take (nat (numFds h)) (nh_data h)) w)"

fun write_fds :: "libc \<Rightarrow> u32 list \<Rightarrow> parcel \<Rightarrow> world \<Rightarrow> (int \<times> parcel \<times> world) option" where
  "write_fds k [] p w = Some (NO_ERROR, p, w)"
| "write_fds k (fd # fds') p w = do {
     (err, p1, w1) \<leftarrow> writeDupFileDescriptor k fd p w;
     if err = NO_ERROR then write_fds k fds' p1 w1 else Some (err, p1, w1) }"

definition writeNativeHandle :: "libc \<Rightarrow> native_handle option \<Rightarrow> parcel \<Rightarrow> world \<Rightarrow> (int \<times> parcel \<times> world) option" where
  "writeNativeHandle k handle p w = (case handle of
       None \<Rightarrow> Some (BAD_TYPE, p, w)
     | Some h \<Rightarrow> if nh_version h \<noteq> 12 then Some (BAD_TYPE, p, w) else do {
         (err, p1, w1) \<leftarrow> writeInt32 k (word_of_int (numFds h)) p w;
         if err \<noteq> NO_ERROR then Some (err, p1, w1) else do {
           (err, p2, w2) \<leftarrow> writeInt32 k (word_of_int (numInts h)) p1 w1;
           if err \<noteq> NO_ERROR then Some (err, p2, w2) else do {
             (err, p3, w3) \<leftarrow> write_fds k (take (nat (numFds h)) (nh_data h)) p2 w2;
             if err \<noteq> NO_ERROR then Some (err, p3, w3)
             else parcel_write k (concat (map u32_bytes (drop (nat (numFds h)) (nh_data h)))) p3 w3 } } })"

fun read_fds :: "libc \<Rightarrow> nat \<Rightarrow> parcel \<Rightarrow> world \<Rightarrow> (int \<times> u32 list \<times> parcel \<times> world) option" where
  "read_fds k 0 p w = Some (NO_ERROR, [], p, w)"
| "read_fds k (Suc n) p w = do {
     (fd, p1) \<leftarrow> readFileDescriptor p;
     let d = dup_fd k (calls w) (word_of_int fd);
     if d < 0 then Some (BAD_VALUE, [word_of_int (- 1)], p1, called w)
     else do {
       (err, ds, p2, w2) \<leftarrow> read_fds k n p1 (called w);
       Some (err, word_of_int d # ds, p2, w2) } }"

fun le_ints :: "byte list \<Rightarrow> u32 list" where
  "le_ints (a # b # c # d # bs) = le_word [a, b, c, d] # le_ints bs"
| "le_ints _ = []"

text \<open>The status of the descriptors is overwritten by that of the integers.\<close>

definition readNativeHandle :: "libc \<Rightarrow> parcel \<Rightarrow> world \<Rightarrow> (native_handle option \<times> parcel \<times> world) option" where
  "readNativeHandle k p w = do {
     (nf, p1) \<leftarrow> readInt32_arg p;
     (case nf of None \<Rightarrow> Some (None, p1, w) | Some nf \<Rightarrow> do {
        (ni, p2) \<leftarrow> readInt32_arg p1;
        (case ni of None \<Rightarrow> Some (None, p2, w) | Some ni \<Rightarrow>
           (case native_handle_create k (sint nf) (sint ni) w of
              (None, w1) \<Rightarrow> Some (None, p2, w1)
            | (Some h, w1) \<Rightarrow> do {
                (fd_err, ds, p3, w2) \<leftarrow> read_fds k (unat nf) p2 w1;
                let h1 = h\<lparr>nh_data := ds @ drop (length ds) (nh_data h)\<rparr>;
                (err, bs, p4) \<leftarrow> parcel_read (4 * unat ni) p3;
                if err \<noteq> NO_ERROR then Some (None, p4, native_handle_close h1 w2)
                else Some (Some (h1\<lparr>nh_data := take (unat nf) (nh_data h1) @ le_ints bs\<rparr>), p4, w2) })) }) }"

section \<open>Blobs\<close>

datatype blob_data = No_Data | In_Parcel nat | Region u32

record blob =
  b_fd :: int
  b_data :: blob_data
  b_size :: nat
  b_mutable :: bool

definition blob_clear :: blob where
  "blob_clear = \<lparr>b_fd = - 1, b_data = No_Data, b_size = 0, b_mutable = False\<rparr>"

definition blob_init :: "int \<Rightarrow> blob_data \<Rightarrow> nat \<Rightarrow> bool \<Rightarrow> blob" where
  "blob_init fd data sz mut = \<lparr>b_fd = fd, b_data = data, b_size = sz, b_mutable = mut\<rparr>"

definition blob_release :: "blob \<Rightarrow> world \<Rightarrow> blob \<times> world" where
  "blob_release b w =
     (blob_clear, if b_fd b \<noteq> - 1 \<and> b_data b \<noteq> No_Data then emit (Unmap (word_of_int (b_fd b)) (b_size b)) w else w)"

definition blob_to_ashmem :: "libc \<Rightarrow> nat \<Rightarrow> bool \<Rightarrow> u32 \<Rightarrow> parcel \<Rightarrow> world \<Rightarrow> (int \<times> blob option \<times> parcel \<times> world) option" where
  "blob_to_ashmem k len mutableCopy fd p w =
     (let m = mmap_fd k (calls w) fd len; w1 = called w
      in if m < 0 then Some (m, None, p, w1)
         else let w2 = emit (Map fd len) w1;
                  result = (if mutableCopy then 0 else ashmem_set_prot_region k (calls w2) fd);
                  w3 = (if mutableCopy then w2 else called w2)
         in if result < 0 then Some (result, None, p, emit (Unmap fd len) w3)
            else do {
              (status, p1, w4) \<leftarrow> writeInt32 k (if mutableCopy then 2 else 1) p w3;
              if status \<noteq> NO_ERROR then Some (status, None, p1, emit (Unmap fd len) w4)
              else do {
                (status, p2, w5) \<leftarrow> writeFileDescriptor k fd True p1 w4;
                if status \<noteq> NO_ERROR then Some (status, None, p2, emit (Unmap fd len) w5)
                else Some (NO_ERROR, Some (blob_init (sint fd) (Region fd) len mutableCopy), p2, w5) } })"

definition writeBlob :: "libc \<Rightarrow> nat \<Rightarrow> bool \<Rightarrow> parcel \<Rightarrow> world \<Rightarrow> (int \<times> blob option \<times> parcel \<times> world) option" where
  "writeBlob k len mutableCopy p w =
     (if len > INT32_MAX then Some (BAD_VALUE, None, p, w)
      else if \<not> mAllowFds p \<or> len \<le> BLOB_INPLACE_LIMIT then do {
        (status, p1, w1) \<leftarrow> writeInt32 k 0 p w;
        if status \<noteq> NO_ERROR then Some (status, None, p1, w1)
        else do {
          (d, p2, w2) \<leftarrow> writeInplace k len p1 w1;
          Some (case d of None \<Rightarrow> (NO_MEM, None, p2, w2) | Some off \<Rightarrow> (NO_ERROR, Some (blob_init (- 1) (In_Parcel off) len False), p2, w2)) } }
      else let fd = ashmem_create_region k (calls w) len; w1 = called w
      in if fd < 0 then Some (NO_MEM, None, p, w1)
         else let fd' = word_of_int fd; result = ashmem_set_prot_region k (calls w1) fd'; w2 = called w1
         in if result < 0 then Some (result, None, p, emit (Close fd') w2)
            else do {
              (status, b, p1, w3) \<leftarrow> blob_to_ashmem k len mutableCopy fd' p w2;
              Some (status, b, p1, if status = NO_ERROR then w3 else emit (Close fd') w3) })"

definition writeDupImmutableBlobFileDescriptor :: "libc \<Rightarrow> u32 \<Rightarrow> parcel \<Rightarrow> world \<Rightarrow> (int \<times> parcel \<times> world) option" where
  "writeDupImmutableBlobFileDescriptor k fd p w =
     (if \<not> mAllowFds p then Some (FDS_NOT_ALLOWED, p, w)
      else do {
        (status, p1, w1) \<leftarrow> writeInt32 k 1 p w;
        if status \<noteq> NO_ERROR then Some (status, p1, w1) else writeDupFileDescriptor k fd p1 w1 })"

definition readBlob :: "libc \<Rightarrow> nat \<Rightarrow> parcel \<Rightarrow> world \<Rightarrow> (int \<times> blob option \<times> parcel \<times> world) option" where
  "readBlob k len p w = do {
     (ty, p1) \<leftarrow> readInt32_arg p;
     (case ty of
        None \<Rightarrow> Some (NOT_ENOUGH_DATA, None, p1, w)
      | Some t \<Rightarrow>
          if t = 0 then do {
            (d, p2) \<leftarrow> readInplace len p1;
            Some (case d of None \<Rightarrow> (BAD_VALUE, None, p2, w) | Some off \<Rightarrow> (NO_ERROR, Some (blob_init (- 1) (In_Parcel off) len False), p2, w)) }
          else do {
            (fd, p2) \<leftarrow> readFileDescriptor p1;
            if fd = BAD_TYPE then Some (BAD_VALUE, None, p2, w)
            else let fd' = word_of_int fd in
              if mmap_fd k (calls w) fd' len < 0 then Some (NO_MEM, None, p2, called w)
              else Some (NO_ERROR, Some (blob_init fd (Region fd') len (t = 2)), p2, emit (Map fd' len) (called w)) }) }"

section \<open>Flattenable values\<close>

text \<open>
  What a flattenable value of a client does: its sizes, the bytes and descriptors it flattens to (with a status), and whether it accepts
  what it is unflattened from.
\<close>

record flattenable =
  isFixedSize :: bool
  getFlattenedSize :: nat
  getFdCount :: nat
  flatten :: "int \<times> byte list \<times> u32 list"
  unflatten :: "byte list \<Rightarrow> u32 list \<Rightarrow> int"

definition writeFlattenable :: "libc \<Rightarrow> flattenable \<Rightarrow> parcel \<Rightarrow> world \<Rightarrow> (int \<times> parcel \<times> world) option" where
  "writeFlattenable k val p w =
     (let len = getFlattenedSize val; fd_count = getFdCount val
      in if len > INT32_MAX \<or> fd_count > INT32_MAX then Some (BAD_VALUE, p, w)
         else do {
           (err, p1, w1) \<leftarrow> writeInt32 k (word_of_nat len) p w;
           if err \<noteq> NO_ERROR then Some (err, p1, w1) else do {
             (err, p2, w2) \<leftarrow> writeInt32 k (word_of_nat fd_count) p1 w1;
             if err \<noteq> NO_ERROR then Some (err, p2, w2) else do {
               padded \<leftarrow> pad_size len;
               (d, p3, w3) \<leftarrow> writeInplace k padded p2 w2;
               (case d of
                  None \<Rightarrow> Some (BAD_VALUE, p3, w3)
                | Some off \<Rightarrow> (case flatten val of (err, bytes, fds') \<Rightarrow> do {
                    p4 \<leftarrow> poke off bytes p3;
                    if err = NO_ERROR then write_fds k (take fd_count fds') p4 w3 else Some (err, p4, w3) })) } } })"

definition readFlattenable :: "libc \<Rightarrow> flattenable \<Rightarrow> parcel \<Rightarrow> world \<Rightarrow> (int \<times> parcel \<times> world) option" where
  "readFlattenable k val p w = do {
     (len, p1) \<leftarrow> readInt32 p;
     (fd_count, p2) \<leftarrow> readInt32 p1;
     if sint len < 0 then Some (BAD_VALUE, p2, w)
     else do {
       padded \<leftarrow> pad_size (unat len);
       (d, p3) \<leftarrow> readInplace padded p2;
       (case d of
          None \<Rightarrow> Some (BAD_VALUE, p3, w)
        | Some off \<Rightarrow>
            if sint fd_count < 0 \<or> \<not> can_malloc k (calls w) (4 * unat fd_count) then None
            else do {
              (err, ds, p4, w1) \<leftarrow> read_fds k (unat fd_count) p3 (called w);
              if err = NO_ERROR then do { bytes \<leftarrow> peek off (unat len) p4; Some (unflatten val bytes ds, p4, w1) }
              else Some (err, p4, w1) }) } }"

definition writeLightFlattenable :: "libc \<Rightarrow> flattenable \<Rightarrow> parcel \<Rightarrow> world \<Rightarrow> (int \<times> parcel \<times> world) option" where
  "writeLightFlattenable k val p w =
     (let sz = getFlattenedSize val
      in do {
        (err, p1, w1) \<leftarrow> (if isFixedSize val then Some (NO_ERROR, p, w) else writeInt32 k (word_of_nat sz) p w);
        if err \<noteq> NO_ERROR then Some (err, p1, w1)
        else if sz = 0 then Some (NO_ERROR, p1, w1)
        else do {
          (d, p2, w2) \<leftarrow> writeInplace k sz p1 w1;
          (case d of
             None \<Rightarrow> Some (NO_MEM, p2, w2)
           | Some off \<Rightarrow> (case flatten val of (err, bytes, _) \<Rightarrow> do { p3 \<leftarrow> poke off bytes p2; Some (err, p3, w2) })) } })"

definition readLightFlattenable :: "flattenable \<Rightarrow> parcel \<Rightarrow> (int \<times> parcel) option" where
  "readLightFlattenable val p = do {
     (sz, p1) \<leftarrow> (if isFixedSize val then Some (Some (getFlattenedSize val), p)
                   else do { (s, p1) \<leftarrow> readInt32_arg p; Some (map_option (\<lambda>s. nat (sint s mod 2 ^ 64)) s, p1) });
     (case sz of
        None \<Rightarrow> Some (NOT_ENOUGH_DATA, p1)
      | Some n \<Rightarrow>
          if n = 0 then Some (NO_ERROR, p1)
          else do {
            (d, p2) \<leftarrow> readInplace n p1;
            (case d of
               None \<Rightarrow> Some (NO_MEM, p2)
             | Some off \<Rightarrow> do { bytes \<leftarrow> peek off n p2; Some (unflatten val bytes [], p2) }) }) }"

text \<open>\<open>Parcel::remove\<close> only logs that it is not implemented, and the logging macro of this port is empty: it returns and changes nothing.\<close>

definition parcel_remove :: "nat \<Rightarrow> nat \<Rightarrow> parcel \<Rightarrow> parcel" where
  "parcel_remove start amt p = p"

end
