(* ===== verification/Parcel_Inv.thy ===== *)
theory Parcel_Inv
  imports Parcel_Read Binder_Wire
begin

text \<open>
  The invariant of a parcel that owns its memory, and what writing at its end does: every write either appends the bytes and offsets that encode
  its value, or fails and leaves the contents as they were.
\<close>

section \<open>Contents and invariant\<close>

fun buf_take :: "nat \<Rightarrow> 'a buf \<Rightarrow> 'a list" where
  "buf_take n (Buf d) = take n d" | "buf_take n Null = []" | "buf_take n Freed = []"

fun buf_ok :: "nat \<Rightarrow> 'a buf \<Rightarrow> bool" where
  "buf_ok n (Buf d) \<longleftrightarrow> length d = n" | "buf_ok n Null \<longleftrightarrow> n = 0" | "buf_ok n Freed \<longleftrightarrow> False"

definition parcel_bytes :: "parcel \<Rightarrow> byte list" where
  "parcel_bytes p = buf_take (mDataSize p) (mData p)"

definition parcel_offs :: "parcel \<Rightarrow> nat list" where
  "parcel_offs p = buf_take (mObjectsSize p) (mObjects p)"

text \<open>Objects lie one after the other between two positions.\<close>

fun laid_out :: "nat \<Rightarrow> nat list \<Rightarrow> nat \<Rightarrow> bool" where
  "laid_out lo [] hi \<longleftrightarrow> lo \<le> hi"
| "laid_out lo (off # os) hi \<longleftrightarrow> lo \<le> off \<and> laid_out (off + sizeof_flat_object) os hi"

definition parcel_ok :: "parcel \<Rightarrow> bool" where
  "parcel_ok p \<longleftrightarrow>
     mOwner p = None \<and> mDataSize p \<le> mDataCapacity p \<and> mDataPos p \<le> mDataSize p \<and> mDataCapacity p \<le> INT32_MAX \<and>
     buf_ok (mDataCapacity p) (mData p) \<and> mObjectsSize p \<le> mObjectsCapacity p \<and> buf_ok (mObjectsCapacity p) (mObjects p) \<and>
     laid_out 0 (parcel_offs p) (mDataSize p)"

definition at_end :: "parcel \<Rightarrow> bool" where
  "at_end p \<longleftrightarrow> parcel_ok p \<and> mDataPos p = mDataSize p"

lemma length_buf_take: "buf_ok c b \<Longrightarrow> n \<le> c \<Longrightarrow> length (buf_take n b) = n"
  by (cases b) auto

lemma initState_at_end: "at_end initState"
  by (simp add: at_end_def parcel_ok_def initState_def parcel_offs_def)

lemma length_parcel_bytes [simp]: "parcel_ok p \<Longrightarrow> length (parcel_bytes p) = mDataSize p"
  by (auto simp: parcel_ok_def parcel_bytes_def length_buf_take)

lemma length_parcel_offs [simp]: "parcel_ok p \<Longrightarrow> length (parcel_offs p) = mObjectsSize p"
  by (auto simp: parcel_ok_def parcel_offs_def length_buf_take)

lemma laid_out_le: "laid_out lo os hi \<Longrightarrow> lo + sizeof_flat_object * length os \<le> hi"
  by (induction lo os hi rule: laid_out.induct) auto

lemma laid_out_append: "laid_out lo (xs @ ys) hi \<longleftrightarrow> (\<exists>mid. laid_out lo xs mid \<and> laid_out mid ys hi)"
proof (induction xs arbitrary: lo)
  case Nil
  have "laid_out mid ys hi \<Longrightarrow> lo \<le> mid \<Longrightarrow> laid_out lo ys hi" for mid by (cases ys) auto
  then show ?case by auto
qed auto

lemma laid_out_mono: "laid_out lo os hi \<Longrightarrow> hi \<le> hi' \<Longrightarrow> laid_out lo os hi'"
  by (induction lo os hi rule: laid_out.induct) auto

lemma laid_out_bounds: "laid_out lo os hi \<Longrightarrow> off \<in> set os \<Longrightarrow> lo \<le> off \<and> off + sizeof_flat_object \<le> hi"
proof (induction lo os hi rule: laid_out.induct)
  case (2 lo ob os hi)
  then show ?case using laid_out_le [of "ob + sizeof_flat_object" os hi] by auto
qed simp

lemma laid_out_sorted: "laid_out lo os hi \<Longrightarrow> sorted_wrt (<) os"
proof (induction lo os hi rule: laid_out.induct)
  case (2 lo ob os hi)
  then show ?case using laid_out_bounds [of "ob + sizeof_flat_object" os hi] by fastforce
qed simp

lemma object_offset_nth: "parcel_ok p \<Longrightarrow> i < mObjectsSize p \<Longrightarrow> object_offset i p = Some (parcel_offs p ! i)"
  by (cases "mObjects p") (auto simp: parcel_ok_def object_offset_def parcel_offs_def)

lemma peek_bytes: "parcel_ok p \<Longrightarrow> off + n \<le> mDataSize p \<Longrightarrow> peek off n p = Some (take n (drop off (parcel_bytes p)))"
  by (cases "mData p") (auto simp: parcel_ok_def peek_def get_range_def parcel_bytes_def drop_take min_def)

lemma flat_at_bytes: "parcel_ok p \<Longrightarrow> off + sizeof_flat_object \<le> mDataSize p \<Longrightarrow> flat_at off p = get_flat_object (parcel_bytes p) off"
  by (cases "mData p") (auto simp: parcel_ok_def flat_at_def get_flat_object_def get_u32_def get_u64_def get_range_def parcel_bytes_def drop_take min_def)

section \<open>Growing\<close>

text \<open>A parcel may grow by \<open>n\<close> bytes: the next capacity is still accepted.\<close>

definition fits :: "nat \<Rightarrow> parcel \<Rightarrow> bool" where
  "fits n p \<longleftrightarrow> 3 * (mDataSize p + n) \<le> 2 * INT32_MAX + 1"

definition generous :: "libc \<Rightarrow> bool" where
  "generous k \<longleftrightarrow> (\<forall>c n. can_malloc k c n)"

definition grown :: "nat \<Rightarrow> parcel \<Rightarrow> parcel \<Rightarrow> bool" where
  "grown n p p' \<longleftrightarrow> (\<exists>d. p' = p\<lparr>mData := Buf d, mDataCapacity := length d\<rparr> \<and> take (mDataSize p) d = parcel_bytes p
     \<and> mDataSize p + n \<le> length d \<and> length d \<le> INT32_MAX)"

lemma take_junk: "n \<le> length xs \<Longrightarrow> take n (take m xs @ ys) = take n xs" if "n \<le> m" for m
  using that by (simp add: min_def)

lemma growData_law:
  assumes "at_end p" and "0 < n" and "fits n p" and "mDataCapacity p < mDataSize p + n"
  shows "\<exists>err p' w'. growData k n p w = Some (err, p', w') \<and> parcel_events w' = parcel_events w \<and> (generous k \<longrightarrow> err = NO_ERROR)
    \<and> (if err = NO_ERROR then grown n p p' else err = NO_MEM \<and> p' = p\<lparr>mError := NO_MEM\<rparr>)"
proof -
  define m where "m = (mDataSize p + n) * 3 div 2"
  have ok: "parcel_ok p" "mDataPos p = mDataSize p" using assms(1) by (auto simp: at_end_def)
  have small: "mDataSize p + n \<le> m" "m \<le> INT32_MAX" "n \<le> INT32_MAX" "(mDataSize p + n) * 3 < 2 ^ 64"
    using assms(3) by (auto simp: m_def fits_def)
  have m: "wrap64 (wrap64 (mDataSize p + n) * 3) div 2 = m" unfolding m_def using small(4) by (simp add: mod_mult_left_eq)
  have "growData k n p w = continueWrite k m p w" using small assms(2) m by (simp add: growData_def Let_def)
  also have "\<dots> = (if mData p \<noteq> Null then continue_owned k m (mObjectsSize p) p w
      else case malloc_bytes k m w of (None, w1) \<Rightarrow> Some (NO_MEM, p\<lparr>mError := NO_MEM\<rparr>, w1)
        | (Some data, w1) \<Rightarrow> Some (NO_ERROR, p\<lparr>mData := Buf data, mDataSize := 0, mDataPos := 0, mDataCapacity := m\<rparr>, account m 0 1 w1))"
    using ok small assms(2) by (simp add: continueWrite_def parcel_ok_def)
  finally have run: "growData k n p w = \<dots>" .
  show ?thesis
  proof (cases "mData p")
    case Null
    have zero: "mDataSize p = 0" "mDataPos p = 0" using ok Null by (auto simp: parcel_ok_def)
    have "p\<lparr>mData := Buf d, mDataSize := 0, mDataPos := 0, mDataCapacity := m\<rparr> = p\<lparr>mData := Buf d, mDataCapacity := m\<rparr>" for d
      using zero by (cases p) simp
    then have "grown n p (p\<lparr>mData := Buf (map (junk k c) [0..<m]), mDataSize := 0, mDataPos := 0, mDataCapacity := m\<rparr>)" for c
      using Null zero small(1,2) unfolding grown_def by (intro exI [of _ "map (junk k c) [0..<m]"]) (simp add: parcel_bytes_def)
    then show ?thesis using Null unfolding run by (auto simp: malloc_bytes_def called_def account_def generous_def)
  next
    case (Buf d)
    have "m > mDataCapacity p" using small(1) assms(4) by simp
    moreover have "length d = mDataCapacity p" "mDataSize p \<le> length d" using ok(1) Buf by (auto simp: parcel_ok_def)
    ultimately have "grown n p (p\<lparr>mData := Buf (take m d @ map (junk k c) [length d..<m]), mDataCapacity := m\<rparr>)" for c
      using Buf small(1,2) unfolding grown_def
      by (intro exI [of _ "take m d @ map (junk k c) [length d..<m]"]) (simp add: parcel_bytes_def min_def)
    then show ?thesis using Buf \<open>m > mDataCapacity p\<close> small(1) assms(2) unfolding run
      by (auto simp: continue_owned_def realloc_buf_def called_def account_def generous_def Let_def)
  next
    case Freed
    then show ?thesis using ok(1) by (simp add: parcel_ok_def)
  qed
qed

section \<open>Writing bytes\<close>

definition adds :: "parcel \<Rightarrow> parcel \<Rightarrow> byte list \<Rightarrow> nat list \<Rightarrow> bool" where
  "adds p p' bs os \<longleftrightarrow> at_end p' \<and> parcel_bytes p' = parcel_bytes p @ bs \<and> parcel_offs p' = parcel_offs p @ os \<and> mAllowFds p' = mAllowFds p"

lemma adds_refl: "at_end p \<Longrightarrow> adds p p [] []"
  by (simp add: adds_def)

lemma adds_trans: "adds p p1 bs os \<Longrightarrow> adds p1 p2 bs' os' \<Longrightarrow> adds p p2 (bs @ bs') (os @ os')"
  by (simp add: adds_def)

lemma adds_at_end: "adds p p' bs os \<Longrightarrow> at_end p'"
  by (simp add: adds_def)

lemma adds_size: "at_end p \<Longrightarrow> adds p p' bs os \<Longrightarrow> mDataSize p' = mDataSize p + length bs"
  using length_parcel_bytes [of p] length_parcel_bytes [of p'] by (auto simp: adds_def at_end_def)

lemma error_set_adds: "at_end p \<Longrightarrow> adds p (p\<lparr>mError := e\<rparr>) [] []"
  by (simp add: adds_def at_end_def parcel_ok_def parcel_bytes_def parcel_offs_def)

lemma grown_adds:
  assumes "at_end p" and "grown n p p'"
  shows "adds p p' [] []" and "mDataSize p' = mDataSize p" and "mDataSize p' + n \<le> mDataCapacity p'"
    and "mObjects p' = mObjects p" and "mObjectsSize p' = mObjectsSize p" and "mObjectsCapacity p' = mObjectsCapacity p"
  using assms by (auto simp: adds_def grown_def at_end_def parcel_ok_def parcel_bytes_def parcel_offs_def)

text \<open>
  What a write does: it appends \<open>bs\<close> and the objects \<open>os\<close> with the events \<open>evs\<close>, or it fails, which it does not when \<open>ok\<close>, and may leave some bytes that no object lies in.
\<close>

definition written :: "bool \<Rightarrow> parcel \<Rightarrow> world \<Rightarrow> (int \<times> parcel \<times> world) option \<Rightarrow> byte list \<Rightarrow> nat list \<Rightarrow> parcel_event list \<Rightarrow> bool" where
  "written ok p w r bs os evs \<longleftrightarrow> (\<exists>err p' w'. r = Some (err, p', w') \<and> (ok \<longrightarrow> err = NO_ERROR) \<and>
     (if err = NO_ERROR then adds p p' bs os \<and> parcel_events w' = parcel_events w @ evs
      else (\<exists>bs'. adds p p' bs' []) \<and> parcel_events w' = parcel_events w))"

lemma poke_end:
  assumes "parcel_ok p" and "off = mDataSize p" and "off + length bs \<le> mDataCapacity p"
  shows "\<exists>d. poke off bs p = Some (p\<lparr>mData := d\<rparr>) \<and> parcel_ok (p\<lparr>mData := d, mDataSize := off + length bs\<rparr>) \<and> parcel_ok (p\<lparr>mData := d\<rparr>)
    \<and> parcel_bytes (p\<lparr>mData := d, mDataSize := off + length bs\<rparr>) = parcel_bytes p @ bs \<and> parcel_bytes (p\<lparr>mData := d\<rparr>) = parcel_bytes p"
proof (cases "bs = []")
  case True
  have "p\<lparr>mData := mData p\<rparr> = p" "p\<lparr>mData := mData p, mDataSize := mDataSize p\<rparr> = p" by simp_all
  then show ?thesis using True assms by (intro exI [of _ "mData p"]) (simp add: poke_def)
next
  case False
  then obtain d where d: "mData p = Buf d" using assms by (cases "mData p") (auto simp: parcel_ok_def)
  then have "length d = mDataCapacity p" "mOwner p = None" using assms(1) by (auto simp: parcel_ok_def)
  then show ?thesis using assms False d laid_out_mono [of 0 "parcel_offs p" "mDataSize p" "mDataSize p + length bs"]
    by (intro exI [of _ "Buf (take off d @ bs @ drop (off + length bs) d)"])
      (auto simp: poke_def put_range_def parcel_ok_def parcel_bytes_def parcel_offs_def)
qed

lemma write_here_law:
  assumes "at_end p" and "mDataSize p + length bs \<le> mDataCapacity p"
  shows "\<exists>p'. write_here bs p w = Some (NO_ERROR, p', w) \<and> adds p p' bs []"
proof -
  have p: "parcel_ok p" "mDataPos p = mDataSize p" using assms(1) by (auto simp: at_end_def)
  obtain d where d: "poke (mDataPos p) bs p = Some (p\<lparr>mData := d\<rparr>)" "parcel_ok (p\<lparr>mData := d, mDataSize := mDataPos p + length bs\<rparr>)"
    "parcel_bytes (p\<lparr>mData := d, mDataSize := mDataPos p + length bs\<rparr>) = parcel_bytes p @ bs"
    using poke_end [OF p] assms(2) p(2) by auto
  let ?q = "p\<lparr>mData := d, mDataPos := mDataPos p + length bs, mDataSize := mDataPos p + length bs\<rparr>"
  have bound: "mDataPos p + length bs \<le> INT32_MAX" using assms(2) p by (simp add: parcel_ok_def)
  have "write_here bs p w = Some (NO_ERROR, ?q, w)"
    using bound p(2) d(1) by (cases "bs = []") (simp_all add: write_here_def finishWrite_def Let_def)
  moreover have "adds p ?q bs []"
    using d(2,3) p by (auto simp: adds_def at_end_def parcel_ok_def parcel_bytes_def parcel_offs_def)
  ultimately show ?thesis by blast
qed

text \<open>Operations that write in place when there is room, and else grow the parcel first.\<close>

lemma grow_then:
  assumes "at_end p" and "0 < n" and "fits n p"
    and here: "\<And>q (v :: world). at_end q \<Longrightarrow> adds p q [] [] \<Longrightarrow> mDataSize q + n \<le> mDataCapacity q \<Longrightarrow> parcel_events v = parcel_events w \<Longrightarrow> Q (f q v)"
    and fails: "\<And>q (v :: world). adds p q [] [] \<Longrightarrow> mError q = NO_MEM \<Longrightarrow> parcel_events v = parcel_events w \<Longrightarrow> \<not> generous k \<Longrightarrow> Q (g NO_MEM q v)"
  shows "Q (if wrap64 (mDataPos p + n) \<le> mDataCapacity p then f p w
       else do { (err, p1, w1) \<leftarrow> growData k n p w; if err = NO_ERROR then f p1 w1 else g err p1 w1 })"
proof -
  have p: "mDataPos p = mDataSize p" using assms(1) by (simp add: at_end_def)
  have small: "wrap64 (mDataPos p + n) = mDataSize p + n" using assms(3) p by (simp add: fits_def)
  show ?thesis
  proof (cases "mDataSize p + n \<le> mDataCapacity p")
    case True
    then show ?thesis using here [OF assms(1) adds_refl [OF assms(1)], of w] small by simp
  next
    case False
    then obtain err q v where g: "growData k n p w = Some (err, q, v)" "parcel_events v = parcel_events w" "generous k \<longrightarrow> err = NO_ERROR"
      "if err = NO_ERROR then grown n p q else err = NO_MEM \<and> q = p\<lparr>mError := NO_MEM\<rparr>"
      using growData_law [OF assms(1-3), of k w] by auto
    show ?thesis
    proof (cases "err = NO_ERROR")
      case True
      note gr = grown_adds [OF assms(1), of n q]
      have "Q (f q v)" using g True gr adds_at_end by (intro here) auto
      then show ?thesis using False small g(1) True by simp
    next
      case e: False
      have "Q (g NO_MEM q v)" using g e error_set_adds [OF assms(1)] by (intro fails) auto
      then show ?thesis using False small g(1,4) e by simp
    qed
  qed
qed

lemma writeAligned_law:
  assumes "at_end p" and "bs \<noteq> []" and "fits (length bs) p"
  shows "written (generous k) p w (writeAligned k bs p w) bs [] []"
  unfolding writeAligned_def
proof (rule grow_then [OF assms(1) _ assms(3)])
  show "0 < length bs" using assms(2) by simp
  fix q and v :: world
  assume ev: "parcel_events v = parcel_events w"
  show "written (generous k) p w (write_here bs q v) bs [] []" if "at_end q" "adds p q [] []" "mDataSize q + length bs \<le> mDataCapacity q"
    using write_here_law [OF that(1,3), of v] adds_trans [OF that(2)] ev unfolding written_def by fastforce
  show "written (generous k) p w (Some (NO_MEM, q, v)) bs [] []" if "adds p q [] []" "mError q = NO_MEM" "\<not> generous k"
    using that ev by (auto simp: written_def)
qed

section \<open>Writing in place\<close>

definition pad :: "nat \<Rightarrow> nat" where
  "pad n = (n + 3) div 4 * 4"

definition padded :: "byte list \<Rightarrow> byte list" where
  "padded bs = bs @ replicate (pad (length bs) - length bs) 0"

lemma pad_ge: "n \<le> pad n"
  unfolding pad_def by presburger

lemma pad_size_small: "pad n \<le> INT32_MAX \<Longrightarrow> pad_size n = Some (pad n)"
  using pad_ge [of n] by (simp add: pad_size_def pad_def)

lemma length_padded [simp]: "length (padded bs) = pad (length bs)"
  using pad_ge [of "length bs"] by (simp add: padded_def)

text \<open>Bytes inside of the contents are replaced.\<close>

lemma poke_inside:
  assumes "at_end p" and "parcel_bytes p = a @ old @ c" and "length old = length bs"
  shows "\<exists>q. poke (length a) bs p = Some q \<and> at_end q \<and> parcel_bytes q = a @ bs @ c \<and> parcel_offs q = parcel_offs p \<and> mAllowFds q = mAllowFds p
    \<and> mDataSize q = mDataSize p"
proof (cases "bs = []")
  case True
  then show ?thesis using assms by (simp add: poke_def)
next
  case False
  then obtain d where d: "mData p = Buf d" using assms by (cases "mData p") (auto simp: parcel_bytes_def)
  have ok: "parcel_ok p" using assms(1) by (simp add: at_end_def)
  then have len: "length a + length bs + length c = mDataSize p" "length d = mDataCapacity p" "mDataSize p \<le> length d" "mOwner p = None"
    using length_parcel_bytes [OF ok] assms(2,3) d by (auto simp: parcel_ok_def)
  define e where "e = drop (mDataSize p) d"
  have "d = a @ old @ c @ e" using assms(2) d append_take_drop_id [of "mDataSize p" d] by (simp add: parcel_bytes_def e_def)
  then have "put_range d (length a) bs = Some (a @ bs @ c @ e)" using assms(3) by (simp add: put_range_def)
  then have "poke (length a) bs p = Some (p\<lparr>mData := Buf (a @ bs @ c @ e)\<rparr>)" using False d len(4) by (simp add: poke_def)
  then show ?thesis using assms(1) len \<open>d = _\<close> d assms(3)
    by (intro exI [of _ "p\<lparr>mData := Buf (a @ bs @ c @ e)\<rparr>"]) (auto simp: at_end_def parcel_ok_def parcel_bytes_def parcel_offs_def)
qed

definition reserved :: "libc \<Rightarrow> nat \<Rightarrow> parcel \<Rightarrow> world \<Rightarrow> (nat option \<times> parcel \<times> world) option \<Rightarrow> bool" where
  "reserved k len p w r \<longleftrightarrow> (\<exists>d q v. r = Some (d, q, v) \<and> parcel_events v = parcel_events w \<and> (generous k \<longrightarrow> d \<noteq> None) \<and>
     (case d of None \<Rightarrow> adds p q [] [] \<and> mError q = NO_MEM
      | Some off \<Rightarrow> off = mDataSize p \<and> (\<exists>xs. length xs = len \<and> adds p q (xs @ replicate (pad len - len) 0) [])))"

lemma inplace_here_law:
  assumes "at_end p" and "mDataSize p + pad len \<le> mDataCapacity p"
  shows "\<exists>xs q. inplace_here len (pad len) p w = Some (Some (mDataSize p), q, w) \<and> length xs = len \<and> adds p q (xs @ replicate (pad len - len) 0) []"
proof (cases "len = 0")
  case True
  have p: "mDataPos p = mDataSize p" "mDataSize p \<le> INT32_MAX" using assms by (auto simp: at_end_def parcel_ok_def)
  have "pad 0 = 0" by (simp add: pad_def)
  moreover have "p\<lparr>mDataPos := mDataSize p\<rparr> = p" using p(1) by (cases p) simp
  then have "adds p (p\<lparr>mDataPos := mDataSize p\<rparr>) [] []" using adds_refl [OF assms(1)] by argo
  ultimately show ?thesis using True p by (auto simp: inplace_here_def poke_def finishWrite_def Let_def)
next
  case False
  let ?z = "replicate (pad len - len) 0 :: byte list"
  let ?n = "mDataSize p + pad len"
  have p: "parcel_ok p" "mDataPos p = mDataSize p" using assms(1) by (auto simp: at_end_def)
  have bound: "?n \<le> INT32_MAX" using assms(2) p(1) by (simp add: parcel_ok_def)
  have ge: "len \<le> pad len" by (rule pad_ge)
  obtain d where d: "mData p = Buf d" using False ge p(1) assms(2) by (cases "mData p") (auto simp: parcel_ok_def)
  have len: "length d = mDataCapacity p" "mOwner p = None" using p(1) d by (auto simp: parcel_ok_def)
  define xs where "xs = take len (drop (mDataSize p) d)"
  define d' where "d' = take (mDataSize p) d @ xs @ ?z @ drop ?n d"
  have "take (mDataSize p + len) d = take (mDataSize p) d @ xs" by (simp add: xs_def take_add)
  then have front: "take (mDataSize p + len) d @ cs = take (mDataSize p) d @ xs @ cs" for cs by simp
  have "poke (mDataSize p + len) ?z p = Some (p\<lparr>mData := Buf d'\<rparr>)"
  proof (cases "pad len = len")
    case True
    then have "d' = d" using front [of "drop (mDataSize p + len) d"] by (simp add: d'_def)
    then have "p\<lparr>mData := Buf d'\<rparr> = p" using d by (cases p) simp
    then show ?thesis using True by (simp add: poke_def)
  next
    case False
    then show ?thesis using d len assms(2) ge by (simp add: poke_def put_range_def d'_def front)
  qed
  moreover have "length xs = len" using assms(2) len ge by (simp add: xs_def)
  moreover have "adds p (p\<lparr>mData := Buf d', mDataPos := ?n, mDataSize := ?n\<rparr>) (xs @ ?z) []"
    using p len d assms(2) ge \<open>length xs = len\<close> laid_out_mono [of 0 "parcel_offs p" "mDataSize p" ?n]
    by (auto simp: adds_def at_end_def parcel_ok_def parcel_bytes_def parcel_offs_def d'_def)
  ultimately show ?thesis using bound p(2) False ge
    by (auto simp: inplace_here_def finishWrite_def Let_def)
qed

lemma writeInplace_law:
  assumes "at_end p" and "fits (pad len) p" and "0 < len"
  shows "reserved k len p w (writeInplace k len p w)"
proof -
  have small: "pad len \<le> INT32_MAX" "len \<le> INT32_MAX" "mDataPos p + pad len < 2 ^ 64"
    using assms pad_ge [of len] by (auto simp: fits_def at_end_def)
  then have "writeInplace k len p w = (if wrap64 (mDataPos p + pad len) \<le> mDataCapacity p then inplace_here len (pad len) p w
      else do { (err, p1, w1) \<leftarrow> growData k (pad len) p w; if err = NO_ERROR then inplace_here len (pad len) p1 w1 else Some (None, p1, w1) })"
    by (simp add: writeInplace_def pad_size_small)
  also have "reserved k len p w \<dots>"
  proof (rule grow_then [OF assms(1) _ assms(2)])
    show "0 < pad len" using assms(3) pad_ge [of len] by simp
    fix q and v :: world
    assume ev: "parcel_events v = parcel_events w"
    show "reserved k len p w (inplace_here len (pad len) q v)" if "at_end q" "adds p q [] []" "mDataSize q + pad len \<le> mDataCapacity q"
      using inplace_here_law [OF that(1,3), of v] adds_trans [OF that(2)] adds_size [OF assms(1) that(2)] ev unfolding reserved_def by fastforce
    show "reserved k len p w (Some (None, q, v))" if "adds p q [] []" "mError q = NO_MEM" "\<not> generous k"
      using that ev by (simp add: reserved_def)
  qed
  finally show ?thesis .
qed

lemma parcel_write_law:
  assumes "at_end p" and "fits (pad (length bs)) p" and "bs \<noteq> []"
  shows "written (generous k) p w (parcel_write k bs p w) (padded bs) [] []"
proof -
  have small: "length bs \<le> INT32_MAX" using assms(2) pad_ge [of "length bs"] by (simp add: fits_def)
  obtain d q v where r: "writeInplace k (length bs) p w = Some (d, q, v)" "parcel_events v = parcel_events w" "generous k \<longrightarrow> d \<noteq> None"
    and d: "case d of None \<Rightarrow> adds p q [] [] \<and> mError q = NO_MEM
      | Some off \<Rightarrow> off = mDataSize p \<and> (\<exists>xs. length xs = length bs \<and> adds p q (xs @ replicate (pad (length bs) - length bs) 0) [])"
    using writeInplace_law [OF assms(1,2), of k w] assms(3) unfolding reserved_def by auto
  show ?thesis
  proof (cases d)
    case None
    then show ?thesis using r d small by (auto simp: parcel_write_def written_def)
  next
    case (Some off)
    then obtain xs where xs: "length xs = length bs" "adds p q (xs @ replicate (pad (length bs) - length bs) 0) []" "off = length (parcel_bytes p)"
      using d assms(1) by (auto simp: at_end_def)
    then obtain q' where "poke off bs q = Some q'" "adds p q' (padded bs) []"
      using poke_inside [of q "parcel_bytes p" xs _ bs] by (auto simp: adds_def padded_def)
    then show ?thesis using r Some small by (simp add: parcel_write_def written_def)
  qed
qed

section \<open>Writing objects\<close>

text \<open>What a flattened object holds a reference to.\<close>

definition refers :: "flat_binder_object \<Rightarrow> referent list" where
  "refers f =
     (if fo_type f = BINDER_TYPE_BINDER then if fo_binder f \<noteq> 0 then [Strong_Local (fo_cookie f)] else []
      else if fo_type f = BINDER_TYPE_WEAK_BINDER then if fo_binder f \<noteq> 0 then [Weak_Local (fo_binder f)] else []
      else if fo_type f = BINDER_TYPE_HANDLE then [Strong_Proxy (fo_handle f)]
      else if fo_type f = BINDER_TYPE_WEAK_HANDLE then [Weak_Proxy (fo_handle f)]
      else [])"

definition owns :: "flat_binder_object \<Rightarrow> u32 list" where
  "owns f = (if fo_type f = BINDER_TYPE_FD \<and> fo_cookie f \<noteq> 0 then [fo_handle f] else [])"

lemma acquire_events: "parcel_events (snd (acquire_object k f n w)) = parcel_events w @ map Acquire (refers f)"
  by (simp add: acquire_object_def refers_def emit_def)

lemma release_events: "parcel_events (snd (release_object k f n w)) = parcel_events w @ map Release (refers f) @ map Close (owns f)"
  by (simp add: release_object_def refers_def owns_def emit_def type_codes)

lemma length_flat_bytes [simp]: "length (flat_bytes f) = sizeof_flat_object"
  by (simp add: flat_bytes_def)

lemma get_flat_bytes: "get_flat_object (a @ flat_bytes f @ c) (length a) = Some f"
proof -
  have "get_flat_object (flat_bytes f @ c) 0 = Some f" by (simp add: get_flat_object_def flat_bytes_def)
  then show ?thesis by (simp add: get_flat_object_def get_u32_def get_u64_def get_range_def)
qed

definition listed :: "flat_binder_object \<Rightarrow> bool \<Rightarrow> bool" where
  "listed f nullMetaData \<longleftrightarrow> nullMetaData \<or> fo_binder f \<noteq> 0"

abbreviation object_ok :: "flat_binder_object \<Rightarrow> parcel \<Rightarrow> bool" where
  "object_ok f p \<equiv> fo_type f = BINDER_TYPE_FD \<longrightarrow> mAllowFds p"

abbreviation object_written :: "bool \<Rightarrow> flat_binder_object \<Rightarrow> bool \<Rightarrow> parcel \<Rightarrow> world \<Rightarrow> (int \<times> parcel \<times> world) option \<Rightarrow> bool" where
  "object_written ok f nm p w r \<equiv> written ok p w r (flat_bytes f) (if listed f nm then [mDataSize p] else []) (if listed f nm then map Acquire (refers f) else [])"

lemma laid_out_snoc: "laid_out lo os n \<Longrightarrow> laid_out lo (os @ [n]) (n + sizeof_flat_object)"
  by (auto simp: laid_out_append)

lemma object_here_law:
  assumes "at_end p" and "mDataSize p + sizeof_flat_object \<le> mDataCapacity p" and "mObjectsSize p < mObjectsCapacity p"
  shows "object_written (object_ok f p) f nm p w (object_here k f nm p w)"
proof -
  let ?n = "mDataSize p + sizeof_flat_object"
  have p: "parcel_ok p" "mDataPos p = mDataSize p" using assms(1) by (auto simp: at_end_def)
  have bound: "?n \<le> INT32_MAX" using assms(2) p(1) by (simp add: parcel_ok_def)
  obtain d where d: "poke (mDataSize p) (flat_bytes f) p = Some (p\<lparr>mData := d\<rparr>)" "parcel_ok (p\<lparr>mData := d, mDataSize := ?n\<rparr>)" "parcel_ok (p\<lparr>mData := d\<rparr>)"
    "parcel_bytes (p\<lparr>mData := d, mDataSize := ?n\<rparr>) = parcel_bytes p @ flat_bytes f" "parcel_bytes (p\<lparr>mData := d\<rparr>) = parcel_bytes p"
    using poke_end [OF p(1) refl, of "flat_bytes f"] assms(2) by auto
  obtain os where os: "mObjects p = Buf os" "length os = mObjectsCapacity p"
    using assms(3) p(1) by (cases "mObjects p") (auto simp: parcel_ok_def)
  obtain op v where acq: "acquire_object k f (mOpenAshmemSize p) w = (op, v)" by (cases "acquire_object k f (mOpenAshmemSize p) w")
  have ev: "parcel_events v = parcel_events w @ map Acquire (refers f)" using acquire_events [of k f "mOpenAshmemSize p" w] acq by simp
  show ?thesis
  proof (cases "fo_type f = BINDER_TYPE_FD \<and> \<not> mAllowFds p")
    case True
    then have "object_here k f nm p w = Some (FDS_NOT_ALLOWED, p\<lparr>mData := d\<rparr>, w)" using d(1) p(2) by (simp add: object_here_def)
    moreover have "adds p (p\<lparr>mData := d\<rparr>) [] []" using d(3,5) p(2) by (simp add: adds_def at_end_def parcel_offs_def)
    ultimately show ?thesis using True by (auto simp: written_def)
  next
    case False
    define q where "q = (if fo_type f = BINDER_TYPE_FD then p\<lparr>mData := d, mHasFds := True, mFdsKnown := True\<rparr> else p\<lparr>mData := d\<rparr>)"
    define r where "r = (if listed f nm then q\<lparr>mObjects := Buf (os[mObjectsSize p := mDataSize p]), mOpenAshmemSize := op, mObjectsSize := mObjectsSize p + 1\<rparr> else q)"
    have "object_here k f nm p w = Some (NO_ERROR, r\<lparr>mDataPos := ?n, mDataSize := ?n\<rparr>, if listed f nm then v else w)"
      using d(1) p(2) False bound os assms(3) acq
      by (simp add: object_here_def listed_def set_object_offset_def finishWrite_def q_def r_def Let_def split: prod.splits)
    moreover have "adds p (r\<lparr>mDataPos := ?n, mDataSize := ?n\<rparr>) (flat_bytes f) (if listed f nm then [mDataSize p] else [])"
      using d(2-5) p os assms(3) laid_out_snoc [of 0 "take (mObjectsSize p) os" "mDataSize p"]
      by (auto simp: adds_def at_end_def parcel_ok_def parcel_bytes_def parcel_offs_def q_def r_def take_Suc_conv_app_nth)
    ultimately show ?thesis using ev by (simp add: written_def)
  qed
qed

lemma grow_objects_law:
  assumes "at_end p" and "mObjectsCapacity p \<le> mObjectsSize p"
  shows "\<exists>err q v. grow_objects k (wrap64 (wrap64 (mObjectsSize p + 2) * 3) div 2) p w = Some (err, q, v) \<and> parcel_events v = parcel_events w
    \<and> adds p q [] [] \<and> mDataSize q = mDataSize p \<and> mDataCapacity q = mDataCapacity p
    \<and> (generous k \<longrightarrow> err = NO_ERROR) \<and> (err = NO_ERROR \<longrightarrow> mObjectsSize q < mObjectsCapacity q)"
proof -
  have p: "parcel_ok p" using assms(1) by (simp add: at_end_def)
  then have "sizeof_flat_object * mObjectsSize p \<le> mDataSize p" using laid_out_le [of 0 "parcel_offs p" "mDataSize p"] by (simp add: parcel_ok_def [of p])
  then have few: "mObjectsSize p < 2 ^ 31" using p by (simp add: parcel_ok_def)
  define m where "m = (mObjectsSize p + 2) * 3 div 2"
  have m: "wrap64 (wrap64 (mObjectsSize p + 2) * 3) div 2 = m" "mObjectsSize p < m" using few by (simp_all add: m_def mod_mult_left_eq)
  have cap: "mObjectsCapacity p = mObjectsSize p" using assms(2) p by (simp add: parcel_ok_def)
  show ?thesis
  proof (cases "mObjects p")
    case Null
    then show ?thesis unfolding m(1) using m(2) assms(1) p
      by (auto simp: grow_objects_def realloc_buf_def called_def generous_def adds_def at_end_def parcel_ok_def parcel_bytes_def parcel_offs_def)
  next
    case (Buf os)
    then show ?thesis unfolding m(1) using m(2) assms(1) p cap
      by (auto simp: grow_objects_def realloc_buf_def called_def generous_def adds_def at_end_def parcel_ok_def parcel_bytes_def parcel_offs_def Let_def min_def)
  next
    case Freed
    then show ?thesis using p by (simp add: parcel_ok_def)
  qed
qed

lemma adds_same: "adds p q [] [] \<Longrightarrow> adds q r bs os \<longleftrightarrow> adds p r bs os"
  by (auto simp: adds_def)

lemma written_from:
  assumes "adds p q [] []" and "parcel_events v = parcel_events w" and "written ok q v r bs os evs"
  shows "written ok p w r bs os evs"
  using assms(3) unfolding written_def by (simp only: adds_same [OF assms(1)] assms(2))

lemma written_fails: "adds p q bs' [] \<Longrightarrow> parcel_events v = parcel_events w \<Longrightarrow> \<not> ok \<Longrightarrow> err \<noteq> NO_ERROR \<Longrightarrow> written ok p w (Some (err, q, v)) bs os evs"
  unfolding written_def by auto

lemma written_weaken: "written ok p w r bs os evs \<Longrightarrow> (ok' \<Longrightarrow> ok) \<Longrightarrow> written ok' p w r bs os evs"
  unfolding written_def by blast

lemma writeObject_law:
  assumes "at_end p" and "fits sizeof_flat_object p"
  shows "object_written (generous k \<and> object_ok f p) f nm p w (writeObject k f nm p w)"
proof -
  let ?W = "object_written (generous k \<and> object_ok f p) f nm p w"
  have same: "mDataSize q = mDataSize p" "mAllowFds q = mAllowFds p" if "adds p q [] []" for q
    using adds_size [OF assms(1) that] that by (auto simp: adds_def)
  define fin where "fin q v = (if mObjectsSize p < mObjectsCapacity p then object_here k f nm q v
      else do { (err2, p2, w2) \<leftarrow> grow_objects k (wrap64 (wrap64 (mObjectsSize q + 2) * 3) div 2) q v;
                if err2 \<noteq> NO_ERROR then Some (err2, p2, w2) else object_here k f nm p2 w2 })" for q v
  have finish: "?W (fin q v)"
    if q: "at_end q" "adds p q [] []" "mDataSize q + sizeof_flat_object \<le> mDataCapacity q" and ev: "parcel_events v = parcel_events w"
      and obj: "mObjectsSize q = mObjectsSize p" "mObjectsCapacity q = mObjectsCapacity p" for q v
  proof (cases "mObjectsSize p < mObjectsCapacity p")
    case True
    have "object_written (object_ok f q) f nm q v (object_here k f nm q v)" using q obj True by (intro object_here_law) auto
    from written_weaken [OF written_from [OF q(2) ev this], of "generous k \<and> object_ok f p"] show ?thesis
      using True same [OF q(2)] by (cases "listed f nm") (simp_all add: fin_def)
  next
    case False
    then obtain err r u where g: "grow_objects k (wrap64 (wrap64 (mObjectsSize q + 2) * 3) div 2) q v = Some (err, r, u)" "parcel_events u = parcel_events v"
      "adds q r [] []" "mDataSize r = mDataSize q" "mDataCapacity r = mDataCapacity q" "generous k \<longrightarrow> err = NO_ERROR" "err = NO_ERROR \<longrightarrow> mObjectsSize r < mObjectsCapacity r"
      using grow_objects_law [OF q(1), of k v] obj by auto
    have pr: "adds p r [] []" using adds_trans [OF q(2) g(3)] by simp
    show ?thesis
    proof (cases "err = NO_ERROR")
      case True
      have "object_written (object_ok f r) f nm r u (object_here k f nm r u)"
        using g True q(3) adds_at_end [OF g(3)] by (intro object_here_law) auto
      from written_weaken [OF written_from [OF pr _ this], of w "generous k \<and> object_ok f p"] show ?thesis
        using False g(1,2) ev True same [OF pr] by (cases "listed f nm") (simp_all add: fin_def)
    next
      case e: False
      then show ?thesis using False g ev written_fails [OF pr] by (simp add: fin_def)
    qed
  qed
  show ?thesis
  proof (cases "mDataSize p + sizeof_flat_object \<le> mDataCapacity p")
    case True
    then have "writeObject k f nm p w = fin p w" using assms by (simp add: writeObject_def fin_def at_end_def fits_def Let_def)
    then show ?thesis using finish [OF assms(1) adds_refl [OF assms(1)] True refl refl refl] by argo
  next
    case False
    have far: "\<not> wrap64 (mDataPos p + sizeof_flat_object) \<le> mDataCapacity p" using False assms by (simp add: at_end_def fits_def)
    obtain err q v where g: "growData k sizeof_flat_object p w = Some (err, q, v)" "parcel_events v = parcel_events w" "generous k \<longrightarrow> err = NO_ERROR"
      "if err = NO_ERROR then grown sizeof_flat_object p q else err = NO_MEM \<and> q = p\<lparr>mError := NO_MEM\<rparr>"
      using growData_law [OF assms(1) _ assms(2), of k w] False by auto
    show ?thesis
    proof (cases "err = NO_ERROR")
      case True
      have "grown sizeof_flat_object p q" using g True by simp
      note gr = grown_adds [OF assms(1) this]
      have "writeObject k f nm p w = fin q v" using far g(1) True by (simp add: writeObject_def fin_def Let_def)
      then show ?thesis using finish [OF adds_at_end [OF gr(1)] gr(1) gr(3) g(2) gr(5) gr(6)] by argo
    next
      case e: False
      then show ?thesis using far g written_fails [OF error_set_adds [OF assms(1)]] by (simp add: writeObject_def Let_def)
    qed
  qed
qed

section \<open>Sequences of writes\<close>

lemma written_after:
  assumes "adds p q bs []" and "parcel_events v = parcel_events w" and "written ok q v r bs' os evs"
  shows "written ok p w r (bs @ bs') os evs"
proof -
  obtain err s u where r: "r = Some (err, s, u)" "ok \<longrightarrow> err = NO_ERROR"
    "if err = NO_ERROR then adds q s bs' os \<and> parcel_events u = parcel_events w @ evs
     else (\<exists>bs'. adds q s bs' []) \<and> parcel_events u = parcel_events w" using assms(2,3) by (auto simp: written_def)
  show ?thesis
  proof (cases "err = NO_ERROR")
    case True
    then show ?thesis using r adds_trans [OF assms(1), of s bs' os] by (simp add: written_def)
  next
    case False
    then obtain bs'' where "adds q s bs'' []" using r(3) by auto
    from adds_trans [OF assms(1) this] show ?thesis using r False by (auto simp: written_def)
  qed
qed

lemma written_bind:
  assumes "written ok p w r bs [] []"
    and "\<And>q v. adds p q bs [] \<Longrightarrow> parcel_events v = parcel_events w \<Longrightarrow> written ok q v (f q v) bs' os evs"
  shows "written ok p w (do { (err, p1, w1) \<leftarrow> r; if err = NO_ERROR then f p1 w1 else Some (err, p1, w1) }) (bs @ bs') os evs"
proof -
  obtain err q v where r: "r = Some (err, q, v)" "ok \<longrightarrow> err = NO_ERROR" "parcel_events v = parcel_events w"
    "err = NO_ERROR \<longrightarrow> adds p q bs []" "err \<noteq> NO_ERROR \<longrightarrow> (\<exists>bs'. adds p q bs' [])" using assms(1) by (fastforce simp: written_def split: if_splits)
  show ?thesis
  proof (cases "err = NO_ERROR")
    case True
    have pq: "adds p q bs []" using True r by simp
    show ?thesis using written_after [OF pq r(3) assms(2) [OF pq r(3)]] r(1) True by simp
  next
    case False
    then show ?thesis using r by (auto intro: written_fails)
  qed
qed

lemma fits_after:
  assumes "fits (m + n) p" and "at_end p" and "adds p q bs os" and "length bs \<le> m"
  shows "fits n q"
  using assms adds_size [OF assms(2,3)] by (simp add: fits_def)

lemma fits_mono: "fits n p \<Longrightarrow> m \<le> n \<Longrightarrow> fits m p"
  by (simp add: fits_def)

definition string8_bytes :: "byte list \<Rightarrow> byte list" where
  "string8_bytes s = u32_bytes (word_of_nat (length s)) @ (if s = [] then [] else padded (s @ [0]))"

definition string16_bytes :: "u16 list \<Rightarrow> byte list" where
  "string16_bytes s = u32_bytes (word_of_nat (length s)) @ padded (chars16 s @ [0, 0])"

lemma length_char_bytes [simp]: "length (chars16 s) = 2 * length s"
  by (induction s) (simp_all add: chars16_def)

lemma writeString8_law:
  assumes "at_end p" and "fits (length (string8_bytes s)) p"
  shows "written (generous k) p w (writeString8 k s p w) (string8_bytes s) [] []"
proof -
  have first: "written (generous k) p w (writeInt32 k (word_of_nat (length s)) p w) (u32_bytes (word_of_nat (length s))) [] []"
    unfolding writeInt32_def using assms by (intro writeAligned_law) (auto simp: string8_bytes_def fits_def le_bytes_def)
  show ?thesis
  proof (cases "s = []")
    case True
    then show ?thesis using first by (auto simp: writeString8_def string8_bytes_def written_def)
  next
    case False
    have "written (generous k) q v (parcel_write k (s @ [0]) q v) (padded (s @ [0])) [] []"
      if "adds p q (u32_bytes (word_of_nat (length s))) []" for q v
      using fits_after [OF _ assms(1) that, of 4] assms(2) False by (intro parcel_write_law adds_at_end [OF that]) (auto simp: string8_bytes_def)
    from written_bind [OF first this] show ?thesis using False by (simp add: writeString8_def string8_bytes_def)
  qed
qed

lemma writeString16_law:
  assumes "at_end p" and "fits (length (string16_bytes s)) p"
  shows "written (generous k) p w (writeString16 k (Some s) p w) (string16_bytes s) [] []"
proof -
  let ?n = "2 * length s + 2"
  have first: "written (generous k) p w (writeInt32 k (word_of_nat (length s)) p w) (u32_bytes (word_of_nat (length s))) [] []"
    unfolding writeInt32_def using assms by (intro writeAligned_law) (auto simp: string16_bytes_def fits_def le_bytes_def)
  have small: "?n < 2 ^ 64" using assms(2) pad_ge [of ?n] by (simp add: fits_def string16_bytes_def)
  have "written (generous k) q v (do { (d, p2, w2) \<leftarrow> writeInplace k (wrap64 ?n) q v;
      (case d of Some off \<Rightarrow> do { p3 \<leftarrow> poke off (chars16 s) p2; p4 \<leftarrow> poke (off + 2 * length s) [0, 0] p3; Some (NO_ERROR, p4, w2) }
       | None \<Rightarrow> Some (mError p2, p2, w2)) }) (padded (chars16 s @ [0, 0])) [] []"
    if "adds p q (u32_bytes (word_of_nat (length s))) []" for q v
  proof -
    have q: "at_end q" "fits (pad ?n) q" using adds_at_end [OF that] fits_after [OF _ assms(1) that, of 4] assms(2) by (auto simp: string16_bytes_def)
    obtain d r u where run: "writeInplace k ?n q v = Some (d, r, u)" "parcel_events u = parcel_events v" "generous k \<longrightarrow> d \<noteq> None"
      and d: "case d of None \<Rightarrow> adds q r [] [] \<and> mError r = NO_MEM
        | Some off \<Rightarrow> off = mDataSize q \<and> (\<exists>xs. length xs = ?n \<and> adds q r (xs @ replicate (pad ?n - ?n) 0) [])"
      using writeInplace_law [OF q, of k v] unfolding reserved_def by auto
    show ?thesis
    proof (cases d)
      case None
      then show ?thesis using run d small by (auto intro: written_fails)
    next
      case (Some off)
      then obtain xs where xs: "length xs = ?n" "adds q r (xs @ replicate (pad ?n - ?n) 0) []" "off = length (parcel_bytes q)"
        using d q(1) by (auto simp: at_end_def)
      obtain r1 where r1: "poke off (chars16 s) r = Some r1" "at_end r1" "parcel_offs r1 = parcel_offs r" "mAllowFds r1 = mAllowFds r"
        "parcel_bytes r1 = parcel_bytes q @ chars16 s @ drop (2 * length s) xs @ replicate (pad ?n - ?n) 0"
        using poke_inside [of r "parcel_bytes q" "take (2 * length s) xs" "drop (2 * length s) xs @ replicate (pad ?n - ?n) 0" "chars16 s"] xs
        by (auto simp: adds_def)
      obtain r2 where "poke (off + 2 * length s) [0, 0] r1 = Some r2" "at_end r2" "parcel_offs r2 = parcel_offs r1" "mAllowFds r2 = mAllowFds r1"
        "parcel_bytes r2 = parcel_bytes q @ chars16 s @ [0, 0] @ replicate (pad ?n - ?n) 0"
        using poke_inside [of r1 "parcel_bytes q @ chars16 s" "drop (2 * length s) xs" "replicate (pad ?n - ?n) 0" "[0, 0]"] xs r1 by auto
      then have "adds q r2 (padded (chars16 s @ [0, 0])) []" using r1(3,4) xs(2) by (simp add: adds_def padded_def)
      then show ?thesis using run Some r1(1) \<open>poke (off + 2 * length s) [0, 0] r1 = Some r2\<close> small by (simp add: written_def)
    qed
  qed
  from written_bind [OF first this] show ?thesis by (simp add: writeString16_def string16_bytes_def)
qed

end
