(* ===== verification/Parcel_Items.thy ===== *)
theory Parcel_Items
  imports Parcel_Inv
begin

text \<open>
  Reading what was written, and the references that a parcel holds. Sequences of items are treated once, in a locale over one write and one read operation
  per item; the interpretation has every kind of item that parcels carry.
\<close>

section \<open>The search for an object\<close>

declare search_up.simps [simp del]

lemma search_up_law:
  assumes "opos < n"
  shows "search_up os n d opos < n \<and> opos \<le> search_up os n d opos \<and> (\<forall>i. opos \<le> i \<and> i < search_up os n d opos \<longrightarrow> os ! i < d)
    \<and> (search_up os n d opos = n - 1 \<or> d \<le> os ! search_up os n d opos)"
  using assms
proof (induction os n d opos rule: search_up.induct)
  case (1 os n d opos)
  show ?case
  proof (cases "opos < n - 1 \<and> os ! opos < d")
    case True
    then have step: "search_up os n d opos = search_up os n d (opos + 1)" by (subst search_up.simps) simp
    have "i = opos \<or> opos + 1 \<le> i" if "opos \<le> i" for i using that by auto
    then show ?thesis using 1 True unfolding step by (metis Suc_eq_plus1 Suc_leD less_diff_conv)
  next
    case False
    then have stop: "search_up os n d opos = opos" by (subst search_up.simps) argo
    show ?thesis unfolding stop using False 1(2) by auto
  qed
qed

lemma search_down_law:
  "search_down os d opos \<le> opos \<and> (\<forall>i. search_down os d opos < i \<and> i \<le> opos \<longrightarrow> d < os ! i)
    \<and> (search_down os d opos = 0 \<or> os ! search_down os d opos \<le> d)"
proof (induction opos)
  case (Suc opos)
  then show ?case by (auto simp: le_Suc_eq)
qed simp

lemma find_object_law:
  assumes "sorted_wrt (<) os"
  shows "case find_object os (length os) hint d of Some i \<Rightarrow> i < length os \<and> os ! i = d | None \<Rightarrow> d \<notin> set os"
proof (cases "os = []")
  case True
  then show ?thesis by (simp add: find_object_def)
next
  case False
  define n where "n = length os"
  have n: "0 < n" using False by (simp add: n_def)
  define u where "u = (if hint < n then search_up os n d hint else n - 1)"
  define v where "v = search_down os d u"
  have u: "u < n" "u = n - 1 \<or> d \<le> os ! u" using search_up_law [of hint n os d] n by (auto simp: u_def)
  have v: "v \<le> u" "\<forall>i. v < i \<and> i \<le> u \<longrightarrow> d < os ! i" "v = 0 \<or> os ! v \<le> d" using search_down_law [of os d u] by (auto simp: v_def)
  have run: "find_object os n hint d = (if os ! u = d then Some u else if os ! v = d then Some v else None)"
    using n by (simp add: find_object_def u_def v_def Let_def)
  have mono: "os ! i < os ! j" if "i < j" "j < n" for i j using assms that by (auto simp: sorted_wrt_iff_nth_less n_def)
  have "d \<notin> set os" if no: "os ! u \<noteq> d" "os ! v \<noteq> d"
  proof
    assume "d \<in> set os"
    then obtain i where i: "i < n" "os ! i = d" by (auto simp: in_set_conv_nth n_def)
    have "i \<le> u" using i u mono [of u i] by (cases "u = n - 1") (auto simp: not_le [symmetric])
    then have "i \<le> v" using v(2) i(2) by (meson less_irrefl not_le)
    then have "i < v" using i(2) no(2) by (metis le_neq_implies_less)
    then show False using v(1,3) u(1) mono [of i v] i(2) by auto
  qed
  then show ?thesis using run u(1) v(1) unfolding n_def by auto
qed

section \<open>Reading\<close>

text \<open>Parcels that can be read: their own ones, and those that refer to a buffer of the driver.\<close>

definition readable :: "parcel \<Rightarrow> bool" where
  "readable p \<longleftrightarrow> mDataSize p \<le> INT32_MAX \<and> length (parcel_bytes p) = mDataSize p \<and> length (parcel_offs p) = mObjectsSize p
     \<and> laid_out 0 (parcel_offs p) (mDataSize p)"

lemma parcel_ok_readable: "parcel_ok p \<Longrightarrow> readable p"
  using length_parcel_bytes [of p] length_parcel_offs [of p] by (simp add: readable_def parcel_ok_def)

definition moved :: "nat \<Rightarrow> nat \<Rightarrow> parcel \<Rightarrow> parcel" where
  "moved pos hint p = p\<lparr>mDataPos := pos, mNextObjectHint := hint\<rparr>"

lemma moved_simps [simp]:
  "mDataPos (moved pos hint p) = pos" "mDataSize (moved pos hint p) = mDataSize p" "parcel_bytes (moved pos hint p) = parcel_bytes p"
  "parcel_offs (moved pos hint p) = parcel_offs p" "readable (moved pos hint p) = readable p" "moved pos hint (moved pos' hint' p) = moved pos hint p"
  "mNextObjectHint (moved pos hint p) = hint" "mObjectsSize (moved pos hint p) = mObjectsSize p"
  by (simp_all add: moved_def parcel_bytes_def parcel_offs_def readable_def)

lemma readable_peek: "readable p \<Longrightarrow> off + n \<le> mDataSize p \<Longrightarrow> peek off n p = Some (take n (drop off (parcel_bytes p)))"
  by (cases "mData p") (auto simp: readable_def peek_def get_range_def parcel_bytes_def drop_take min_def split: if_splits)

lemma readable_flat_at:
  "readable p \<Longrightarrow> off + sizeof_flat_object \<le> mDataSize p \<Longrightarrow> flat_at off p = get_flat_object (parcel_bytes p) off"
  by (cases "mData p") (auto simp: readable_def flat_at_def get_flat_object_def get_u32_def get_u64_def get_range_def parcel_bytes_def drop_take min_def split: if_splits)

lemma get_flat_object_Some: "off + sizeof_flat_object \<le> length bs \<Longrightarrow> \<exists>f. get_flat_object bs off = Some f"
  by (simp add: get_flat_object_def get_u32_def get_u64_def get_range_def)

lemma readable_objects: "readable p \<Longrightarrow> those (map (\<lambda>i. object_offset i p) [0..<mObjectsSize p]) = Some (parcel_offs p)"
  by (cases "mObjects p") (auto simp: readable_def object_offset_def parcel_offs_def min_def split: if_splits intro!: those_map_Some)

lemma readAligned_law:
  assumes "readable p" and "mDataPos p + n < 2 ^ 64"
  shows "readAligned n p = Some (if mDataPos p + n \<le> mDataSize p
      then (Some (take n (drop (mDataPos p) (parcel_bytes p))), moved (mDataPos p + n) (mNextObjectHint p) p) else (None, p))"
  using assms readable_peek [of p "mDataPos p" n] by (simp add: readAligned_def moved_def)

lemma readInplace_law:
  assumes "readable p" and "mDataPos p \<le> mDataSize p" and "n \<le> INT32_MAX"
  shows "readInplace n p = Some (if mDataPos p + pad n \<le> mDataSize p
      then (Some (mDataPos p), moved (mDataPos p + pad n) (mNextObjectHint p) p) else (None, p))"
proof -
  have "pad n \<le> n + 3" unfolding pad_def by presburger
  then have "mDataPos p + pad n < 2 ^ 64" "pad_size n = Some (pad n)" using assms by (auto simp: readable_def pad_size_def pad_def)
  then show ?thesis using assms(3) pad_ge [of n] by (simp add: readInplace_def moved_def)
qed

lemma parcel_read_law:
  assumes "readable p" and "mDataPos p \<le> mDataSize p" and "n \<le> INT32_MAX"
  shows "parcel_read n p = Some (if mDataPos p + pad n \<le> mDataSize p
      then (NO_ERROR, take n (drop (mDataPos p) (parcel_bytes p)), moved (mDataPos p + pad n) (mNextObjectHint p) p) else (NOT_ENOUGH_DATA, [], p))"
proof -
  have "pad n \<le> n + 3" unfolding pad_def by presburger
  then have "mDataPos p + pad n < 2 ^ 64" "pad_size n = Some (pad n)" using assms by (auto simp: readable_def pad_size_def pad_def)
  then show ?thesis using assms pad_ge [of n] readable_peek [of p "mDataPos p" n] by (simp add: parcel_read_def moved_def)
qed

text \<open>\<open>readObject\<close> is a test for membership in the list of objects, whatever the hint is.\<close>

lemma readObject_law:
  assumes "readable p" and "mDataPos p + sizeof_flat_object < 2 ^ 64"
  shows "\<exists>h. readObject nm p = Some (if mDataPos p + sizeof_flat_object \<le> mDataSize p
      then (let f = the (get_flat_object (parcel_bytes p) (mDataPos p))
            in if \<not> nm \<and> fo_cookie f = 0 \<and> fo_binder f = 0 \<or> mDataPos p \<in> set (parcel_offs p) then Some f else None,
            moved (mDataPos p + sizeof_flat_object) h p)
      else (None, p))"
proof (cases "mDataPos p + sizeof_flat_object \<le> mDataSize p")
  case True
  obtain f where f: "get_flat_object (parcel_bytes p) (mDataPos p) = Some f" "flat_at (mDataPos p) p = Some f"
    using get_flat_object_Some [of "mDataPos p" "parcel_bytes p"] readable_flat_at [OF assms(1) True] True assms(1) by (auto simp: readable_def)
  have len: "length (parcel_offs p) = mObjectsSize p" "sorted_wrt (<) (parcel_offs p)" using assms(1) laid_out_sorted by (auto simp: readable_def)
  have found: "case find_object (parcel_offs p) (mObjectsSize p) (mNextObjectHint p) (mDataPos p) of
      Some i \<Rightarrow> mDataPos p \<in> set (parcel_offs p) | None \<Rightarrow> mDataPos p \<notin> set (parcel_offs p)"
    using find_object_law [OF len(2), where hint = "mNextObjectHint p" and d = "mDataPos p"] len(1) nth_mem [where xs = "parcel_offs p"]
    by (auto split: option.splits) (metis nth_mem)
  show ?thesis
  proof (cases "\<not> nm \<and> fo_cookie f = 0 \<and> fo_binder f = 0")
    case null: True
    then show ?thesis using True f assms(2)
      by (intro exI [of _ "mNextObjectHint p"]) (simp add: readObject_def moved_def Let_def)
  next
    case False
    show ?thesis
    proof (cases "find_object (parcel_offs p) (mObjectsSize p) (mNextObjectHint p) (mDataPos p)")
      case None
      then show ?thesis using False True f assms readable_objects [OF assms(1)] found
        by (intro exI [of _ "mNextObjectHint p"]) (auto simp: readObject_def moved_def Let_def)
    next
      case (Some i)
      then show ?thesis using False True f assms readable_objects [OF assms(1)] found
        by (intro exI [of _ "i + 1"]) (auto simp: readObject_def moved_def Let_def)
    qed
  qed
next
  case False
  then show ?thesis using assms(2) by (simp add: readObject_def)
qed

text \<open>The bytes at the position of a parcel.\<close>

definition here :: "byte list \<Rightarrow> parcel \<Rightarrow> bool" where
  "here bs p \<longleftrightarrow> mDataPos p + length bs \<le> mDataSize p \<and> take (length bs) (drop (mDataPos p) (parcel_bytes p)) = bs"

lemma here_append:
  assumes "here (a @ b) p"
  shows "here a p" and "here b (moved (mDataPos p + length a) h p)"
proof -
  define ys where "ys = drop (mDataPos p) (parcel_bytes p)"
  have ys: "take (length a + length b) ys = a @ b" using assms by (simp add: ys_def here_def)
  have "take (length a) ys = take (length a) (a @ b)" by (simp flip: ys)
  then show "here a p" using assms by (simp add: ys_def here_def)
  have "take (length b) (drop (length a) ys) = drop (length a) (a @ b)" by (simp add: drop_take flip: ys)
  then show "here b (moved (mDataPos p + length a) h p)" using assms by (simp add: ys_def here_def add.commute)
qed

section \<open>Objects of a parcel\<close>

definition objects_of :: "parcel \<Rightarrow> flat_binder_object list" where
  "objects_of p = map (\<lambda>off. the (get_flat_object (parcel_bytes p) off)) (parcel_offs p)"

lemma get_flat_object_prefix: "off + sizeof_flat_object \<le> length bs \<Longrightarrow> get_flat_object (bs @ cs) off = get_flat_object bs off"
  by (simp add: get_flat_object_def get_u32_def get_u64_def get_range_def)

lemma old_objects:
  assumes "parcel_ok p" and "off \<in> set (parcel_offs p)"
  shows "get_flat_object (parcel_bytes p @ bs) off = get_flat_object (parcel_bytes p) off"
  using assms laid_out_bounds [of 0 "parcel_offs p" "mDataSize p" off] length_parcel_bytes [OF assms(1)]
  by (intro get_flat_object_prefix) (simp add: parcel_ok_def)

lemma objects_of_adds:
  assumes "at_end p"
  shows "adds p q bs [] \<Longrightarrow> objects_of q = objects_of p"
    and "adds p q (flat_bytes f) [mDataSize p] \<Longrightarrow> objects_of q = objects_of p @ [f]"
proof -
  have p: "parcel_ok p" using assms by (simp add: at_end_def)
  show "objects_of q = objects_of p" if "adds p q bs []"
    using that old_objects [OF p] by (simp add: adds_def objects_of_def)
  have "get_flat_object (parcel_bytes p @ flat_bytes f) (mDataSize p) = Some f"
    using get_flat_bytes [of "parcel_bytes p" f "[]"] length_parcel_bytes [OF p] by simp
  then show "objects_of q = objects_of p @ [f]" if "adds p q (flat_bytes f) [mDataSize p]"
    using that old_objects [OF p] by (simp add: adds_def objects_of_def)
qed

text \<open>Releasing the objects, last one first.\<close>

definition released :: "flat_binder_object \<Rightarrow> parcel_event list" where
  "released f = map Release (refers f) @ map Close (owns f)"

lemma objects_down_release:
  assumes "parcel_ok p" and "n \<le> mObjectsSize p"
  shows "\<exists>op v. objects_down (release_object k) n p w = Some (p\<lparr>mOpenAshmemSize := op\<rparr>, v)
    \<and> parcel_events v = parcel_events w @ concat (map released (rev (take n (objects_of p))))"
  using assms
proof (induction n arbitrary: p w)
  case 0
  then show ?case by (intro exI [of _ "mOpenAshmemSize p"]) simp
next
  case (Suc n)
  have "parcel_offs p ! n \<in> set (parcel_offs p)" using Suc.prems length_parcel_offs [OF Suc.prems(1)] by simp
  then have in': "parcel_offs p ! n + sizeof_flat_object \<le> mDataSize p" using Suc.prems(1) laid_out_bounds by (fastforce simp: parcel_ok_def)
  obtain f where f: "get_flat_object (parcel_bytes p) (parcel_offs p ! n) = Some f"
    using get_flat_object_Some in' length_parcel_bytes [OF Suc.prems(1)] by metis
  obtain op v where r: "release_object k f (mOpenAshmemSize p) w = (op, v)" by (cases "release_object k f (mOpenAshmemSize p) w")
  have ev: "parcel_events v = parcel_events w @ released f" using release_events [of k f "mOpenAshmemSize p" w] r by (simp add: released_def)
  let ?q = "p\<lparr>mOpenAshmemSize := op\<rparr>"
  have q: "parcel_ok ?q" "objects_of ?q = objects_of p" "n \<le> mObjectsSize ?q"
    using Suc.prems by (simp_all add: parcel_ok_def parcel_offs_def parcel_bytes_def objects_of_def)
  have last: "take (Suc n) (objects_of p) = take n (objects_of p) @ [f]"
    using Suc.prems length_parcel_offs [OF Suc.prems(1)] f by (simp add: objects_of_def take_Suc_conv_app_nth)
  have "objects_down (release_object k) (Suc n) p w = objects_down (release_object k) n ?q v"
    using object_offset_nth [OF Suc.prems(1)] Suc.prems(2) flat_at_bytes [OF Suc.prems(1) in'] f r by simp
  then show ?case using Suc.IH [OF q(1,3), of v] ev last q(2) by auto
qed

lemma free_ok: "buf_ok n b \<Longrightarrow> \<exists>b'. free_buf b = Some b'"
  by (cases b) (simp_all add: free_buf_def)

lemma freeDataNoInit_law:
  assumes "parcel_ok p"
  shows "\<exists>q v. freeDataNoInit k p w = Some (q, v) \<and> parcel_events v = parcel_events w @ concat (map released (rev (objects_of p)))"
proof -
  have "take (mObjectsSize p) (objects_of p) = objects_of p" using length_parcel_offs [OF assms] by (simp add: objects_of_def)
  then obtain op v where rel: "releaseObjects k p w = Some (p\<lparr>mOpenAshmemSize := op\<rparr>, v)"
    "parcel_events v = parcel_events w @ concat (map released (rev (objects_of p)))"
    using objects_down_release [OF assms order_refl, of k w] by (auto simp: releaseObjects_def)
  obtain b c where "free_buf (mData p) = Some b" "free_buf (mObjects p) = Some c"
    using assms free_ok [of "mDataCapacity p" "mData p"] free_ok [of "mObjectsCapacity p" "mObjects p"] by (auto simp: parcel_ok_def)
  then show ?thesis using rel assms by (auto simp: freeDataNoInit_def parcel_ok_def account_def Let_def)
qed

section \<open>Sequences of items\<close>

fun write_all :: "('a \<Rightarrow> parcel \<Rightarrow> world \<Rightarrow> (int \<times> parcel \<times> world) option) \<Rightarrow> 'a list \<Rightarrow> parcel \<Rightarrow> world \<Rightarrow> (int \<times> parcel \<times> world) option" where
  "write_all f [] p w = Some (NO_ERROR, p, w)"
| "write_all f (x # xs) p w = do { (err, p1, w1) \<leftarrow> f x p w; if err = NO_ERROR then write_all f xs p1 w1 else Some (err, p1, w1) }"

fun read_all :: "('k \<Rightarrow> parcel \<Rightarrow> ('v \<times> parcel) option) \<Rightarrow> 'k list \<Rightarrow> parcel \<Rightarrow> ('v list \<times> parcel) option" where
  "read_all f [] p = Some ([], p)"
| "read_all f (x # xs) p = do { (v, p1) \<leftarrow> f x p; (vs, p2) \<leftarrow> read_all f xs p1; Some (v # vs, p2) }"

definition acquired :: "flat_binder_object list \<Rightarrow> parcel_event list" where
  "acquired fs = map Acquire (concat (map refers fs))"

lemma count_map:
  "count_list (map Acquire rs) (Acquire r) = count_list rs r" "count_list (map Release rs) (Release r) = count_list rs r"
  "count_list (map Close fds') (Close fd) = count_list fds' fd"
  by (induction rs) (auto, induction fds', auto)

lemma count_acquired:
  "count_list (acquired fs) (Acquire r) = count_list (concat (map refers fs)) r" "count_list (acquired fs) (Release r) = 0"
  "count_list (acquired fs) (Close fd) = 0"
  by (auto simp: acquired_def count_map count_list_0_iff)

lemma count_released:
  "count_list (concat (map released (rev fs))) (Release r) = count_list (concat (map refers fs)) r"
  "count_list (concat (map released (rev fs))) (Acquire r) = 0"
  "count_list (concat (map released (rev fs))) (Close fd) = count_list (concat (map owns fs)) fd"
proof -
  have no: "count_list (map Close ys) (Release r) = 0" "count_list (map Release xs) (Close fd) = 0" "count_list (map Close ys) (Acquire r) = 0"
    "count_list (map Release xs) (Acquire r) = 0" for xs ys by (auto simp: count_list_0_iff)
  show "count_list (concat (map released (rev fs))) (Release r) = count_list (concat (map refers fs)) r"
    "count_list (concat (map released (rev fs))) (Acquire r) = 0"
    "count_list (concat (map released (rev fs))) (Close fd) = count_list (concat (map owns fs)) fd"
    by (induction fs) (simp_all add: released_def count_map no)
qed

locale parcel_stream =
  fixes k :: libc and put :: "'a \<Rightarrow> parcel \<Rightarrow> world \<Rightarrow> (int \<times> parcel \<times> world) option" and get :: "'k \<Rightarrow> parcel \<Rightarrow> ('v \<times> parcel) option"
    and kind :: "'a \<Rightarrow> 'k" and val :: "'a \<Rightarrow> 'v" and valid :: "'a \<Rightarrow> bool" and is_fd :: "'a \<Rightarrow> bool"
    and enc :: "'a \<Rightarrow> byte list" and obj :: "'a \<Rightarrow> flat_binder_object list"
  assumes put_law: "at_end p \<Longrightarrow> valid x \<Longrightarrow> fits (length (enc x)) p \<Longrightarrow>
      written (generous k \<and> (is_fd x \<longrightarrow> mAllowFds p)) p w (put x p w) (enc x) (if obj x = [] then [] else [mDataSize p]) (acquired (obj x))"
    and obj_law: "obj x \<noteq> [] \<Longrightarrow> \<exists>f. obj x = [f] \<and> enc x = flat_bytes f"
    and get_law: "readable p \<Longrightarrow> valid x \<Longrightarrow> here (enc x) p \<Longrightarrow> (obj x \<noteq> [] \<Longrightarrow> mDataPos p \<in> set (parcel_offs p)) \<Longrightarrow>
      \<exists>h. get (kind x) p = Some (val x, moved (mDataPos p + length (enc x)) h p)"
begin

abbreviation encs :: "'a list \<Rightarrow> byte list" where "encs xs \<equiv> concat (map enc xs)"

fun offs_from :: "nat \<Rightarrow> 'a list \<Rightarrow> nat list" where
  "offs_from n [] = []"
| "offs_from n (x # xs) = (if obj x = [] then [] else [n]) @ offs_from (n + length (enc x)) xs"

lemma put_objects:
  assumes "at_end p" and "adds p q (enc x) (if obj x = [] then [] else [mDataSize p])"
  shows "objects_of q = objects_of p @ obj x"
  using objects_of_adds [OF assms(1), of q] obj_law [of x] assms(2) by (cases "obj x = []") auto

lemma write_all_law:
  assumes "at_end p" and "\<forall>x\<in>set xs. valid x" and "fits (length (encs xs)) p"
  shows "\<exists>err q v new. write_all put xs p w = Some (err, q, v) \<and> at_end q
    \<and> objects_of q = objects_of p @ new \<and> parcel_events v = parcel_events w @ acquired new
    \<and> (generous k \<and> ((\<exists>x\<in>set xs. is_fd x) \<longrightarrow> mAllowFds p) \<longrightarrow> err = NO_ERROR)
    \<and> (err = NO_ERROR \<longrightarrow> new = concat (map obj xs) \<and> adds p q (encs xs) (offs_from (mDataSize p) xs))"
  using assms
proof (induction xs arbitrary: p w)
  case Nil
  then show ?case by (auto simp: adds_refl acquired_def)
next
  case (Cons x xs)
  have x: "valid x" "fits (length (enc x)) p" using Cons.prems(2) fits_mono [OF Cons.prems(3)] by auto
  obtain err q v where r: "put x p w = Some (err, q, v)" "generous k \<and> (is_fd x \<longrightarrow> mAllowFds p) \<longrightarrow> err = NO_ERROR"
    and q: "if err = NO_ERROR then adds p q (enc x) (if obj x = [] then [] else [mDataSize p]) \<and> parcel_events v = parcel_events w @ acquired (obj x)
      else (\<exists>bs. adds p q bs []) \<and> parcel_events v = parcel_events w"
    using put_law [OF Cons.prems(1) x, of w] unfolding written_def by blast
  show ?case
  proof (cases "err = NO_ERROR")
    case True
    then have a: "adds p q (enc x) (if obj x = [] then [] else [mDataSize p])" "parcel_events v = parcel_events w @ acquired (obj x)" using q by auto
    have rest: "fits (length (encs xs)) q" "\<forall>x\<in>set xs. valid x"
      using fits_after [OF _ Cons.prems(1) a(1) order_refl] Cons.prems(2,3) by simp_all
    obtain err' s u new where s: "write_all put xs q v = Some (err', s, u)" "at_end s" "objects_of s = objects_of q @ new"
      "parcel_events u = parcel_events v @ acquired new" "generous k \<and> ((\<exists>x\<in>set xs. is_fd x) \<longrightarrow> mAllowFds q) \<longrightarrow> err' = NO_ERROR"
      "err' = NO_ERROR \<longrightarrow> new = concat (map obj xs) \<and> adds q s (encs xs) (offs_from (mDataSize q) xs)"
      using Cons.IH [OF adds_at_end [OF a(1)] rest(2,1), of v] by (elim exE conjE)
    have "objects_of s = objects_of p @ obj x @ new" using s(3) put_objects [OF Cons.prems(1) a(1)] by simp
    moreover have "parcel_events u = parcel_events w @ acquired (obj x @ new)" using s(4) a(2) by (simp add: acquired_def)
    moreover have "obj x @ new = concat (map obj (x # xs)) \<and> adds p s (encs (x # xs)) (offs_from (mDataSize p) (x # xs))" if "err' = NO_ERROR"
      using adds_trans [OF a(1)] s(6) that adds_size [OF Cons.prems(1) a(1)] by auto
    moreover have "mAllowFds q = mAllowFds p" using a(1) by (simp add: adds_def)
    ultimately show ?thesis using r(1) True s(1,2,5) by auto
  next
    case False
    then obtain bs where "adds p q bs []" "parcel_events v = parcel_events w" using q by auto
    then show ?thesis using r False objects_of_adds(1) [OF Cons.prems(1)] adds_at_end by (auto simp: acquired_def)
  qed
qed

lemma read_all_law:
  assumes "readable p" and "\<forall>x\<in>set xs. valid x" and "here (encs xs) p" and "set (offs_from (mDataPos p) xs) \<subseteq> set (parcel_offs p)"
  shows "\<exists>h. read_all get (map kind xs) p = Some (map val xs, moved (mDataPos p + length (encs xs)) h p)"
  using assms
proof (induction xs arbitrary: p)
  case Nil
  then show ?case by (intro exI [of _ "mNextObjectHint p"]) (simp add: moved_def)
next
  case (Cons x xs)
  let ?n = "mDataPos p + length (enc x)"
  have split: "here (enc x) p" "here (encs xs) (moved ?n h p)" for h using here_append [of "enc x" "encs xs" p] Cons.prems(3) by auto
  have "obj x \<noteq> [] \<Longrightarrow> mDataPos p \<in> set (parcel_offs p)" using Cons.prems(4) by (auto split: if_splits)
  then obtain h where h: "get (kind x) p = Some (val x, moved ?n h p)"
    using get_law [OF Cons.prems(1) _ split(1)] Cons.prems(2) by auto
  have "\<exists>h'. read_all get (map kind xs) (moved ?n h p) = Some (map val xs, moved (?n + length (encs xs)) h' (moved ?n h p))"
    using Cons.IH [of "moved ?n h p"] Cons.prems split(2) by (auto split: if_splits)
  then show ?case using h by (auto simp: add.assoc)
qed

end

end
