(* ===== verification/Parcel_Props.thy ===== *)
theory Parcel_Props
  imports Parcel_Items
begin

text \<open>
  Every kind of item that parcels carry, as an interpretation of \<open>parcel_stream\<close>, and the properties of parcels.
\<close>

section \<open>Items\<close>

datatype item = Int32 u32 | Int64 u64 | Raw "byte list" | CString "byte list" | String_8 "byte list" | String_16 "u16 list"
  | Strong "ibinder option" | Weak "ibinder option option" | Descriptor u32 bool

datatype item_kind = K32 | K64 | KRaw nat | KCString | KString8 | KString16 | KStrong | KWeak | KDescriptor

datatype item_value = V32 u32 | V64 u64 | VRaw "byte list" | VCString "byte list option" | VString8 "byte list" | VString16 "u16 list"
  | VRef ibinder_ref | VDescriptor int

definition fd_object :: "u32 \<Rightarrow> bool \<Rightarrow> flat_binder_object" where
  "fd_object fd own = \<lparr>fo_type = BINDER_TYPE_FD, fo_flags = flat_flags, fo_binder = ucast fd, fo_cookie = (if own then 1 else 0)\<rparr>"

fun write_item :: "libc \<Rightarrow> item \<Rightarrow> parcel \<Rightarrow> world \<Rightarrow> (int \<times> parcel \<times> world) option" where
  "write_item k (Int32 v) = writeInt32 k v"
| "write_item k (Int64 v) = writeInt64 k v"
| "write_item k (Raw bs) = parcel_write k bs"
| "write_item k (CString s) = writeCString k s"
| "write_item k (String_8 s) = writeString8 k s"
| "write_item k (String_16 s) = writeString16 k (Some s)"
| "write_item k (Strong b) = writeStrongBinder k b"
| "write_item k (Weak b) = writeWeakBinder k b"
| "write_item k (Descriptor fd own) = writeFileDescriptor k fd own"

fun read_item :: "item_kind \<Rightarrow> parcel \<Rightarrow> (item_value \<times> parcel) option" where
  "read_item K32 p = do { (v, q) \<leftarrow> readInt32 p; Some (V32 v, q) }"
| "read_item K64 p = do { (v, q) \<leftarrow> readInt64 p; Some (V64 v, q) }"
| "read_item (KRaw n) p = do { (err, v, q) \<leftarrow> parcel_read n p; Some (VRaw v, q) }"
| "read_item KCString p = do { (v, q) \<leftarrow> readCString p; Some (VCString v, q) }"
| "read_item KString8 p = do { (v, q) \<leftarrow> readString8 p; Some (VString8 v, q) }"
| "read_item KString16 p = do { (v, q) \<leftarrow> readString16 p; Some (VString16 v, q) }"
| "read_item KStrong p = do { (v, q) \<leftarrow> readStrongBinder p; Some (VRef v, q) }"
| "read_item KWeak p = do { (v, q) \<leftarrow> readWeakBinder p; Some (VRef v, q) }"
| "read_item KDescriptor p = do { (v, q) \<leftarrow> readFileDescriptor p; Some (VDescriptor v, q) }"

fun kind_of :: "item \<Rightarrow> item_kind" where
  "kind_of (Int32 v) = K32" | "kind_of (Int64 v) = K64" | "kind_of (Raw bs) = KRaw (length bs)" | "kind_of (CString s) = KCString"
| "kind_of (String_8 s) = KString8" | "kind_of (String_16 s) = KString16" | "kind_of (Strong b) = KStrong" | "kind_of (Weak b) = KWeak"
| "kind_of (Descriptor fd own) = KDescriptor"

definition strong_ref :: "ibinder option \<Rightarrow> ibinder_ref" where
  "strong_ref b = (case b of None \<Rightarrow> Ref_Null | Some (Local_Binder refs ob) \<Rightarrow> Ref_Object ob | Some (Proxy_Binder h) \<Rightarrow> Ref_Handle h | Some Other_Binder \<Rightarrow> Ref_Handle 0)"

definition weak_ref :: "ibinder option option \<Rightarrow> ibinder_ref" where
  "weak_ref b = (case b of Some (Some (Local_Binder refs ob)) \<Rightarrow> Ref_Weak refs ob | Some (Some (Proxy_Binder h)) \<Rightarrow> Ref_Handle h
     | Some (Some Other_Binder) \<Rightarrow> Ref_Handle 0 | _ \<Rightarrow> Ref_Null)"

fun value_of :: "item \<Rightarrow> item_value" where
  "value_of (Int32 v) = V32 v" | "value_of (Int64 v) = V64 v" | "value_of (Raw bs) = VRaw bs" | "value_of (CString s) = VCString (Some s)"
| "value_of (String_8 s) = VString8 s" | "value_of (String_16 s) = VString16 s" | "value_of (Strong b) = VRef (strong_ref b)"
| "value_of (Weak b) = VRef (weak_ref b)" | "value_of (Descriptor fd own) = VDescriptor (sint fd)"

text \<open>C strings end at their first zero byte; objects of the process are not at address zero.\<close>

fun item_ok :: "item \<Rightarrow> bool" where
  "item_ok (Raw bs) \<longleftrightarrow> bs \<noteq> []"
| "item_ok (CString s) \<longleftrightarrow> 0 \<notin> set s"
| "item_ok (Strong (Some (Local_Binder refs ob))) \<longleftrightarrow> refs \<noteq> 0 \<and> ob \<noteq> 0"
| "item_ok (Weak (Some (Some (Local_Binder refs ob)))) \<longleftrightarrow> refs \<noteq> 0 \<and> ob \<noteq> 0"
| "item_ok _ \<longleftrightarrow> True"

fun item_fd :: "item \<Rightarrow> bool" where
  "item_fd (Descriptor fd own) \<longleftrightarrow> True" | "item_fd _ \<longleftrightarrow> False"

fun item_object :: "item \<Rightarrow> (flat_binder_object \<times> bool) option" where
  "item_object (Strong b) = Some (flat_of_strong b, False)" | "item_object (Weak b) = Some (flat_of_weak b, False)"
| "item_object (Descriptor fd own) = Some (fd_object fd own, True)" | "item_object _ = None"

fun item_bytes :: "item \<Rightarrow> byte list" where
  "item_bytes (Int32 v) = u32_bytes v" | "item_bytes (Int64 v) = u64_bytes v" | "item_bytes (Raw bs) = padded bs"
| "item_bytes (CString s) = padded (s @ [0])" | "item_bytes (String_8 s) = string8_bytes s" | "item_bytes (String_16 s) = string16_bytes s"
| "item_bytes (Strong b) = flat_bytes (flat_of_strong b)" | "item_bytes (Weak b) = flat_bytes (flat_of_weak b)"
| "item_bytes (Descriptor fd own) = flat_bytes (fd_object fd own)"

definition item_listed :: "item \<Rightarrow> flat_binder_object list" where
  "item_listed x = (case item_object x of None \<Rightarrow> [] | Some (f, nm) \<Rightarrow> if listed f nm then [f] else [])"

section \<open>Writing an item\<close>

lemma strong_not_fd: "fo_type (flat_of_strong b) \<noteq> BINDER_TYPE_FD"
  by (simp add: flat_of_strong_def type_codes split: option.splits ibinder.splits)

lemma weak_not_fd: "fo_type (flat_of_weak b) \<noteq> BINDER_TYPE_FD"
  by (simp add: flat_of_weak_def type_codes split: option.splits ibinder.splits)

lemma object_item_law:
  assumes "at_end p" and "fits sizeof_flat_object p" and "item_object x = Some (f, nm)" and "item_bytes x = flat_bytes f"
    and "write_item k x = writeObject k f nm" and "fo_type f = BINDER_TYPE_FD \<longrightarrow> item_fd x"
  shows "written (generous k \<and> (item_fd x \<longrightarrow> mAllowFds p)) p w (write_item k x p w) (item_bytes x) (if item_listed x = [] then [] else [mDataSize p])
    (acquired (item_listed x))"
proof -
  have eq: "write_item k x p w = writeObject k f nm p w" using assms(5) by simp
  from written_weaken [OF writeObject_law [OF assms(1,2), where f = f and nm = nm and k = k and w = w], of "generous k \<and> (item_fd x \<longrightarrow> mAllowFds p)"] assms(6)
  show ?thesis unfolding eq assms(4) by (cases "listed f nm") (auto simp: item_listed_def assms(3) acquired_def)
qed

lemma write_item_law:
  assumes "at_end p" and "item_ok x" and "fits (length (item_bytes x)) p"
  shows "written (generous k \<and> (item_fd x \<longrightarrow> mAllowFds p)) p w (write_item k x p w) (item_bytes x) (if item_listed x = [] then [] else [mDataSize p])
    (acquired (item_listed x))"
proof (cases "item_object x")
  case None
  have "written (generous k) p w (write_item k x p w) (item_bytes x) [] []"
  proof (cases x)
    case (Raw bs)
    then show ?thesis using assms parcel_write_law [OF assms(1), of bs k w] by simp
  next
    case (CString s)
    then show ?thesis using assms parcel_write_law [OF assms(1), of "s @ [0]" k w] by (simp add: writeCString_def)
  next
    case (String_8 s)
    then show ?thesis using assms writeString8_law [OF assms(1), of s k w] by simp
  next
    case (String_16 s)
    then show ?thesis using assms writeString16_law [OF assms(1), of s k w] by simp
  qed (use assms None writeAligned_law [OF assms(1), where k = k and w = w] in \<open>auto simp: writeInt32_def writeInt64_def le_bytes_def\<close>)
  then show ?thesis using None by (auto simp: item_listed_def acquired_def intro: written_weaken)
next
  case (Some o')
  obtain f nm where o': "o' = (f, nm)" by (cases o')
  show ?thesis
    using Some assms strong_not_fd weak_not_fd unfolding o'
    by (cases x; intro object_item_law)
      (auto simp: writeStrongBinder_def writeWeakBinder_def writeFileDescriptor_def fd_object_def fun_eq_iff)
qed

section \<open>Reading an item\<close>

lemma here_le: "here bs p \<Longrightarrow> mDataPos p + length bs \<le> mDataSize p"
  by (simp add: here_def)

lemma readAligned_here:
  assumes "readable p" and "here bs p"
  shows "readAligned (length bs) p = Some (Some bs, moved (mDataPos p + length bs) (mNextObjectHint p) p)"
  using readAligned_law [OF assms(1), of "length bs"] assms by (simp add: here_def readable_def)

lemma readInt32_here:
  assumes "readable p" and "here (u32_bytes v) p"
  shows "readInt32_arg p = Some (Some v, moved (mDataPos p + 4) (mNextObjectHint p) p)" and "readInt32 p = Some (v, moved (mDataPos p + 4) (mNextObjectHint p) p)"
  using readAligned_here [OF assms] by (simp_all add: readInt32_def readInt32_arg_def or_zero_def)

lemma readInt64_here:
  assumes "readable p" and "here (u64_bytes v) p"
  shows "readInt64 p = Some (v, moved (mDataPos p + 8) (mNextObjectHint p) p)"
  using readAligned_here [OF assms] by (simp add: readInt64_def readInt64_arg_def or_zero_def)

lemma take_here: "here bs p \<Longrightarrow> n \<le> length bs \<Longrightarrow> take n (drop (mDataPos p) (parcel_bytes p)) = take n bs"
  by (metis here_def min.absorb1 take_take)

lemma parcel_read_here:
  assumes "readable p" and "here (padded bs) p"
  shows "parcel_read (length bs) p = Some (NO_ERROR, bs, moved (mDataPos p + pad (length bs)) (mNextObjectHint p) p)"
  using parcel_read_law [OF assms(1), of "length bs"] here_le [OF assms(2)] take_here [OF assms(2), of "length bs"] pad_ge [of "length bs"] assms(1)
  by (auto simp: readable_def padded_def)

lemma readInplace_here:
  assumes "readable p" and "here (padded bs) p" and "n \<le> length bs"
  shows "readInplace (length bs) p = Some (Some (mDataPos p), moved (mDataPos p + pad (length bs)) (mNextObjectHint p) p)"
    and "peek (mDataPos p) n (moved pos h p) = Some (take n bs)"
proof -
  have le: "mDataPos p + pad (length bs) \<le> mDataSize p" using here_le [OF assms(2)] by simp
  then show "readInplace (length bs) p = Some (Some (mDataPos p), moved (mDataPos p + pad (length bs)) (mNextObjectHint p) p)"
    using readInplace_law [OF assms(1), of "length bs"] pad_ge [of "length bs"] assms(1) by (auto simp: readable_def)
  show "peek (mDataPos p) n (moved pos h p) = Some (take n bs)"
    using readable_peek [of "moved pos h p" "mDataPos p" n] take_here [OF assms(2), of n] le pad_ge [of "length bs"] assms(1,3) by (simp add: padded_def)
qed

lemma sint_length: "n < 2 ^ 31 \<Longrightarrow> sint (word_of_nat n :: u32) = int n" "n < 2 ^ 31 \<Longrightarrow> unat (word_of_nat n :: u32) = n"
  by (simp_all add: signed_of_nat signed_take_bit_int_eq_self unsigned_of_nat take_bit_nat_eq_self)

lemma readString8_here:
  assumes "readable p" and "here (string8_bytes s) p"
  shows "readString8 p = Some (s, moved (mDataPos p + length (string8_bytes s)) (mNextObjectHint p) p)"
proof -
  let ?n = "word_of_nat (length s) :: u32" and ?p1 = "moved (mDataPos p + 4) (mNextObjectHint p) p"
  note parts = here_append [of "u32_bytes ?n" "if s = [] then [] else padded (s @ [0])" p, folded string8_bytes_def, OF assms(2)]
  have small: "length s < 2147483647" if "s \<noteq> []"
    using that here_le [OF assms(2)] pad_ge [of "length s + 1"] assms(1) by (auto simp: string8_bytes_def readable_def)
  show ?thesis
  proof (cases "s = []")
    case True
    then show ?thesis using readInt32_here(2) [OF assms(1) parts(1)] by (simp add: readString8_def string8_bytes_def)
  next
    case False
    have "here (padded (s @ [0])) ?p1" using parts(2) [of "mNextObjectHint p"] False by simp
    note in' = readInplace_here [OF _ this, of "length s"]
    show ?thesis using readInt32_here(2) [OF assms(1) parts(1)] in' small False assms(1) sint_length [of "length s"]
      by (simp add: readString8_def string8_bytes_def add.assoc)
  qed
qed

lemma le_chars_chars16: "le_chars (chars16 s) = s"
proof (induction s)
  case (Cons c s)
  have two: "length xs = 2 \<Longrightarrow> \<exists>a b. xs = [a, b]" for xs :: "byte list" by (cases xs; cases "tl xs") auto
  obtain a b where ab: "u16_bytes c = [a, b]" using two [OF length_le_bytes] by blast
  have "le_word [a, b] = c" using u16_roundtrip [of c] by (simp only: ab)
  then show ?case using Cons by (simp only: chars16_def list.map concat.simps ab append_Cons append_Nil le_chars.simps)
qed (simp add: chars16_def)

lemma readString16_here:
  assumes "readable p" and "here (string16_bytes s) p"
  shows "readString16 p = Some (s, moved (mDataPos p + length (string16_bytes s)) (mNextObjectHint p) p)"
proof -
  let ?n = "word_of_nat (length s) :: u32" and ?p1 = "moved (mDataPos p + 4) (mNextObjectHint p) p" and ?bs = "chars16 s @ [0, 0]"
  note parts = here_append [of "u32_bytes ?n" "padded ?bs" p, folded string16_bytes_def, OF assms(2)]
  have small: "length s < 2147483647" using here_le [OF assms(2)] pad_ge [of "2 * length s + 2"] assms(1) by (auto simp: string16_bytes_def readable_def)
  have "here (padded ?bs) ?p1" using parts(2) [of "mNextObjectHint p"] by simp
  note in' = readInplace_here [OF _ this, of "2 * length s"]
  show ?thesis using readInt32_here(2) [OF assms(1) parts(1)] in' small assms(1) sint_length [of "length s"] le_chars_chars16 [of s]
    by (simp add: readString16_def readString16Inplace_def string16_bytes_def mult.commute add.assoc)
qed

lemma memchr0_here:
  assumes "readable p" and "pos + length s < mDataSize p" and "take (length s + 1) (drop pos (parcel_bytes p)) = s @ [0]" and "0 \<notin> set s" and "length s < n"
  shows "memchr0 pos n p = Some (Some (pos + length s))"
  using assms(2-5)
proof (induction s arbitrary: pos n)
  case Nil
  then show ?case using readable_peek [OF assms(1), of pos 1] by (cases n) simp_all
next
  case (Cons c s)
  obtain m where m: "n = Suc m" using Cons.prems(4) by (cases n) auto
  obtain ys where ys: "drop pos (parcel_bytes p) = c # ys" "take (length s + 1) ys = s @ [0]"
    using Cons.prems(2) by (cases "drop pos (parcel_bytes p)") auto
  have "peek pos 1 p = Some [c]" using readable_peek [OF assms(1), of pos 1] Cons.prems(1) ys(1) by simp
  moreover have "drop (pos + 1) (parcel_bytes p) = ys" using ys(1) by (metis Suc_eq_plus1 drop_Suc list.sel(3) tl_drop)
  ultimately show ?case using Cons.IH [of "pos + 1" m] Cons.prems m ys(2) by simp
qed

lemma avail_bytes:
  assumes "mDataPos p \<le> mDataSize p" and "mDataSize p \<le> INT32_MAX"
  shows "wrap64 (mDataSize p + (2 ^ 64 - wrap64 (mDataPos p))) = mDataSize p - mDataPos p"
proof -
  have "mDataSize p + (2 ^ 64 - wrap64 (mDataPos p)) = (mDataSize p - mDataPos p) + 2 ^ 64" using assms by simp
  then show ?thesis using assms by (simp only: mod_add_self2) simp
qed

lemma readCString_here:
  assumes "readable p" and "here (padded (s @ [0])) p" and "0 \<notin> set s"
  shows "readCString p = Some (Some s, moved (mDataPos p + pad (length s + 1)) (mNextObjectHint p) p)"
proof -
  have le: "mDataPos p + pad (length s + 1) \<le> mDataSize p" "length s + 1 \<le> pad (length s + 1)"
    using here_le [OF assms(2)] pad_ge [of "length s + 1"] by simp_all
  have "mDataPos p \<le> mDataSize p" "mDataSize p \<le> INT32_MAX" using le assms(1) by (auto simp: readable_def)
  note avail = avail_bytes [OF this]
  have "memchr0 (mDataPos p) (mDataSize p - mDataPos p) p = Some (Some (mDataPos p + length s))"
    using take_here [OF assms(2), of "length s + 1"] le assms(3) by (intro memchr0_here [OF assms(1)]) (auto simp: padded_def)
  moreover have "peek (mDataPos p) (length s) p = Some s"
    using readable_peek [OF assms(1), of "mDataPos p" "length s"] take_here [OF assms(2), of "length s"] le by (simp add: padded_def)
  moreover have "pad_size (length s + 1) = Some (pad (length s + 1))" using le assms(1) by (intro pad_size_small) (simp add: readable_def)
  ultimately show ?thesis using le assms(1) unfolding readCString_def avail by (simp add: moved_def readable_def)
qed

lemma readObject_here:
  assumes "readable p" and "here (flat_bytes f) p"
    and "if listed f nm then mDataPos p \<in> set (parcel_offs p) else fo_cookie f = 0"
  shows "\<exists>h. readObject nm p = Some (Some f, moved (mDataPos p + sizeof_flat_object) h p)"
proof -
  have le: "mDataPos p + sizeof_flat_object \<le> mDataSize p" using here_le [OF assms(2)] by simp
  have "parcel_bytes p = take (mDataPos p) (parcel_bytes p) @ flat_bytes f @ drop (mDataPos p + sizeof_flat_object) (parcel_bytes p)"
    using assms(2) by (metis append_take_drop_id here_def length_flat_bytes drop_drop add.commute)
  then have "get_flat_object (parcel_bytes p) (mDataPos p) = Some f"
    using get_flat_bytes [of "take (mDataPos p) (parcel_bytes p)" f] le assms(1) by (metis add_leD1 length_take min.absorb2 readable_def)
  then show ?thesis using readObject_law [OF assms(1), of nm] le assms(1,3) by (auto simp: readable_def listed_def Let_def split: if_splits)
qed

lemma handle_in_object [simp]: "ucast (ucast h :: u64) = (h :: u32)" "(ucast h :: u64) = 0 \<longleftrightarrow> h = (0 :: u32)"
proof -
  show "ucast (ucast h :: u64) = h" by (rule bit_word_eqI) (auto simp: bit_unsigned_iff)
  then show "(ucast h :: u64) = 0 \<longleftrightarrow> h = 0" by (metis unsigned_0)
qed

lemma read_item_law:
  assumes "readable p" and "item_ok x" and "here (item_bytes x) p" and "item_listed x \<noteq> [] \<Longrightarrow> mDataPos p \<in> set (parcel_offs p)"
  shows "\<exists>h. read_item (kind_of x) p = Some (value_of x, moved (mDataPos p + length (item_bytes x)) h p)"
proof (cases "item_object x")
  case None
  then show ?thesis using assms(1-3)
    by (cases x) (auto simp: readInt32_here readInt64_here parcel_read_here readCString_here readString8_here readString16_here)
next
  case (Some o')
  obtain f nm where o': "o' = (f, nm)" by (cases o')
  have enc: "item_bytes x = flat_bytes f" using Some o' by (cases x) auto
  have "if listed f nm then mDataPos p \<in> set (parcel_offs p) else fo_cookie f = 0"
    using assms(2,4) Some o' by (cases x)
      (auto simp: item_listed_def listed_def flat_of_strong_def flat_of_weak_def fd_object_def split: option.splits ibinder.splits if_splits)
  from readObject_here [OF assms(1) assms(3) [unfolded enc] this] show ?thesis
    using Some o' assms(2) enc
    by (cases x) (auto simp: readStrongBinder_def readWeakBinder_def readFileDescriptor_def unflatten_strong_def unflatten_weak_def flat_of_strong_def
        flat_of_weak_def fd_object_def strong_ref_def weak_ref_def type_codes split: option.splits ibinder.splits)
qed

interpretation items: parcel_stream k "write_item k" read_item kind_of value_of item_ok item_fd item_bytes item_listed for k
proof unfold_locales
  show "item_listed x \<noteq> [] \<Longrightarrow> \<exists>f. item_listed x = [f] \<and> item_bytes x = flat_bytes f" for x
    by (cases x) (auto simp: item_listed_def split: if_splits)
qed (use write_item_law read_item_law in \<open>simp_all\<close>)

section \<open>Properties\<close>

text \<open>
  C23. Round trip of parcels: any sequence of integers, byte sequences, strings, strong and weak pointers and descriptors that is written to a new parcel and
  stays within two thirds of the largest size is written without a fault. It fails only when the allocator does; and once all of it is written, reading the same kinds of
  items from the start gives back the values, in order, up to the end of the data.
\<close>

theorem parcel_items_roundtrip:
  assumes "\<forall>x\<in>set xs. item_ok x" and "3 * length (concat (map item_bytes xs)) \<le> 2 * INT32_MAX + 1"
  shows "\<exists>err p v. write_all (write_item k) xs initState w = Some (err, p, v) \<and> (generous k \<longrightarrow> err = NO_ERROR) \<and>
    (err = NO_ERROR \<longrightarrow> (\<exists>p0 q. setDataPosition 0 p = Some p0 \<and> read_all read_item (map kind_of xs) p0 = Some (map value_of xs, q)
      \<and> mDataPos q = dataSize p))"
proof -
  let ?n = "length (concat (map item_bytes xs))"
  have fit: "Parcel_Inv.fits ?n initState" using assms(2) by (simp add: Parcel_Inv.fits_def initState_def)
  obtain err p v where w: "write_all (write_item k) xs initState w = Some (err, p, v)" "at_end p" "generous k \<longrightarrow> err = NO_ERROR"
    "err = NO_ERROR \<longrightarrow> adds initState p (concat (map item_bytes xs)) (items.offs_from 0 xs)"
    using items.write_all_law [OF initState_at_end assms(1) fit, of k w] by (auto simp: initState_def)
  have "\<exists>p0 q. setDataPosition 0 p = Some p0 \<and> read_all read_item (map kind_of xs) p0 = Some (map value_of xs, q) \<and> mDataPos q = dataSize p"
    if "err = NO_ERROR"
  proof -
    have a: "parcel_bytes p = concat (map item_bytes xs)" "parcel_offs p = items.offs_from 0 xs"
      using w(4) that by (auto simp: adds_def initState_def parcel_bytes_def parcel_offs_def)
    have r: "readable p" "mDataSize p = ?n" "mDataPos p = ?n"
      using w(2) length_parcel_bytes [of p] a(1) parcel_ok_readable by (auto simp: at_end_def)
    have "here (concat (map item_bytes xs)) (moved 0 0 p)" using a(1) r(2) by (simp add: here_def)
    then have "\<exists>h. read_all read_item (map kind_of xs) (moved 0 0 p) = Some (map value_of xs, moved ?n h (moved 0 0 p))"
      using items.read_all_law [of "moved 0 0 p" xs] assms(1) a(2) r(1) by simp
    moreover have "setDataPosition 0 p = Some (moved 0 0 p)" by (simp add: setDataPosition_def moved_def)
    moreover have "dataSize p = ?n" using r by (simp add: dataSize_def)
    ultimately show ?thesis by auto
  qed
  then show ?thesis using w by blast
qed

definition plain_libc :: libc where
  "plain_libc = \<lparr>can_malloc = (\<lambda>c n. True), junk = (\<lambda>c i. 0), junk64 = (\<lambda>c i. 0), moves = (\<lambda>c. True), dup_fd = (\<lambda>c fd. 9),
     ashmem_get_size_region = (\<lambda>fd. 0), ashmem_create_region = (\<lambda>c n. 9), ashmem_set_prot_region = (\<lambda>c fd. 0), mmap_fd = (\<lambda>c fd n. 0)\<rparr>"

definition quiet_world :: world where
  "quiet_world = \<lparr>calls = 0, parcel_events = [], gParcelGlobalAllocSize = 0, gParcelGlobalAllocCount = 0\<rparr>"

definition sample_items :: "item list" where
  "sample_items = [Int32 7, String_16 [98, 99], Strong (Some (Proxy_Binder 3)), Strong None, CString [97], Descriptor 5 True]"

lemma plain_libc_generous: "generous plain_libc"
  by (simp add: generous_def plain_libc_def)

theorem parcel_items_roundtrip_witness:
  "\<exists>p v p0 q. write_all (write_item plain_libc) sample_items initState quiet_world = Some (NO_ERROR, p, v) \<and> setDataPosition 0 p = Some p0 \<and>
    read_all read_item [K32, KString16, KStrong, KStrong, KCString, KDescriptor] p0 =
      Some ([V32 7, VString16 [98, 99], VRef (Ref_Handle 3), VRef Ref_Null, VCString (Some [97]), VDescriptor 5], q)"
proof -
  have ok: "\<forall>x\<in>set sample_items. item_ok x" by (simp add: sample_items_def)
  have len: "3 * length (concat (map item_bytes sample_items)) \<le> 2 * INT32_MAX + 1" by (simp add: sample_items_def string16_bytes_def pad_def)
  have "map kind_of sample_items = [K32, KString16, KStrong, KStrong, KCString, KDescriptor]"
    "map value_of sample_items = [V32 7, VString16 [98, 99], VRef (Ref_Handle 3), VRef Ref_Null, VCString (Some [97]), VDescriptor 5]"
    by (simp_all add: sample_items_def strong_ref_def)
  then show ?thesis using parcel_items_roundtrip [OF ok len, of plain_libc quiet_world] plain_libc_generous by auto
qed

lemma parcel_write_succeeds:
  assumes "\<forall>x\<in>set xs. item_ok x" and "3 * length (concat (map item_bytes xs)) \<le> 2 * INT32_MAX + 1" and "generous k"
  shows "\<exists>p v. write_all (write_item k) xs initState w = Some (NO_ERROR, p, v)"
proof -
  have "Parcel_Inv.fits (length (concat (map item_bytes xs))) initState" using assms(2) by (simp add: Parcel_Inv.fits_def initState_def)
  from items.write_all_law [OF initState_at_end assms(1) this, of k w] show ?thesis using assms(3) by (auto simp: initState_def)
qed

text \<open>
  C24. Every reference that a parcel takes is given back: whatever sequence of items is written to a new parcel, and wherever a failed allocation stops it, destroying the parcel
  releases each referent as often as it was acquired, and closes exactly the descriptors the parcel owns, each once per object.
\<close>

theorem parcel_references_balance:
  assumes "\<forall>x\<in>set xs. item_ok x" and "3 * length (concat (map item_bytes xs)) \<le> 2 * INT32_MAX + 1"
  shows "\<exists>err p v q u evs. write_all (write_item k) xs initState w = Some (err, p, v) \<and> freeDataNoInit k p v = Some (q, u) \<and>
    parcel_events u = parcel_events w @ evs \<and> (\<forall>r. count_list evs (Acquire r) = count_list evs (Release r)) \<and>
    (\<forall>fd. count_list evs (Close fd) = count_list (concat (map owns (objects_of p))) fd) \<and>
    (err = NO_ERROR \<longrightarrow> objects_of p = concat (map item_listed xs))"
proof -
  let ?n = "length (concat (map item_bytes xs))"
  have fit: "Parcel_Inv.fits ?n initState" using assms(2) by (simp add: Parcel_Inv.fits_def initState_def)
  have none: "objects_of initState = []" by (simp add: objects_of_def initState_def parcel_offs_def)
  obtain err p v where w: "write_all (write_item k) xs initState w = Some (err, p, v)" "at_end p" "parcel_events v = parcel_events w @ acquired (objects_of p)"
    "err = NO_ERROR \<longrightarrow> objects_of p = concat (map item_listed xs)"
    using items.write_all_law [OF initState_at_end assms(1) fit, of k w] none by auto
  obtain q u where u: "freeDataNoInit k p v = Some (q, u)" "parcel_events u = parcel_events v @ concat (map released (rev (objects_of p)))"
    using freeDataNoInit_law [of p k v] w(2) by (auto simp: at_end_def)
  show ?thesis using w u
    by (intro exI [of _ err] exI [of _ p] exI [of _ v] exI [of _ q] exI [of _ u]
        exI [of _ "acquired (objects_of p) @ concat (map released (rev (objects_of p)))"]) (simp add: count_acquired count_released)
qed

theorem parcel_references_balance_witness:
  "\<exists>p v q u. write_all (write_item plain_libc) sample_items initState quiet_world = Some (NO_ERROR, p, v) \<and> freeDataNoInit plain_libc p v = Some (q, u) \<and>
    count_list (parcel_events u) (Acquire (Strong_Proxy 3)) = count_list (parcel_events u) (Release (Strong_Proxy 3)) \<and>
    count_list (parcel_events u) (Close 5) = 1"
proof -
  have ok: "\<forall>x\<in>set sample_items. item_ok x" by (simp add: sample_items_def)
  have len: "3 * length (concat (map item_bytes sample_items)) \<le> 2 * INT32_MAX + 1" by (simp add: sample_items_def string16_bytes_def pad_def)
  obtain err p v q u evs where r: "write_all (write_item plain_libc) sample_items initState quiet_world = Some (err, p, v)"
    "freeDataNoInit plain_libc p v = Some (q, u)" "parcel_events u = parcel_events quiet_world @ evs"
    "count_list evs (Acquire (Strong_Proxy 3)) = count_list evs (Release (Strong_Proxy 3))"
    "count_list evs (Close 5) = count_list (concat (map owns (objects_of p))) 5"
    "err = NO_ERROR \<longrightarrow> objects_of p = concat (map item_listed sample_items)"
    using parcel_references_balance [OF ok len, of plain_libc quiet_world] by blast
  have "err = NO_ERROR" using parcel_write_succeeds [OF ok len plain_libc_generous, of quiet_world] r(1) by auto
  then show ?thesis using r
    by (simp add: quiet_world_def sample_items_def item_listed_def listed_def flat_of_strong_def fd_object_def owns_def type_codes)
qed

end
