(* ===== verification/Parcel_Received.thy ===== *)
theory Parcel_Received
  imports Parcel_Props
begin

text \<open>
  Parcels that refer to a buffer of the driver: reading what another process has sent never leaves the buffer. Then the places where the operations of
  parcels do leave their memory, or lose data without an error.
\<close>

section \<open>Reads stay inside\<close>

text \<open>Only the reading of a C string needs a buffer whose size is a multiple of four; the parameter says whether the size is one.\<close>

definition inside :: "bool \<Rightarrow> parcel \<Rightarrow> bool" where
  "inside c p \<longleftrightarrow> readable p \<and> mDataPos p \<le> mDataSize p \<and> (c \<longrightarrow> 4 dvd mDataPos p \<and> 4 dvd mDataSize p)"

definition steps :: "bool \<Rightarrow> parcel \<Rightarrow> parcel \<Rightarrow> bool" where
  "steps c p q \<longleftrightarrow> inside c q \<and> (\<exists>pos h. q = moved pos h p)"

lemma steps_refl: "inside c p \<Longrightarrow> steps c p p"
  unfolding steps_def by (intro conjI exI [of _ "mDataPos p"] exI [of _ "mNextObjectHint p"]) (simp_all add: moved_def)

lemma steps_trans: "steps c p q \<Longrightarrow> steps c q r \<Longrightarrow> steps c p r"
  unfolding steps_def by (metis moved_simps(6))

lemma steps_inside: "steps c p q \<Longrightarrow> inside c q" and steps_size: "steps c p q \<Longrightarrow> mDataSize q = mDataSize p"
  by (auto simp: steps_def)

lemma stepsI: "inside c p \<Longrightarrow> pos \<le> mDataSize p \<Longrightarrow> c \<longrightarrow> 4 dvd pos \<Longrightarrow> steps c p (moved pos h p)"
  unfolding steps_def inside_def by auto

lemma pad_dvd [simp]: "4 dvd pad n"
  by (simp add: pad_def)

lemma pad_le: "4 dvd m \<Longrightarrow> n \<le> m \<Longrightarrow> pad n \<le> m"
  unfolding pad_def by (elim dvdE) presburger

lemma inside_pos: "inside c p \<Longrightarrow> 4 dvd n \<Longrightarrow> c \<longrightarrow> 4 dvd mDataPos p + n"
  by (simp add: inside_def)

lemma small_pos: "inside c p \<Longrightarrow> n \<le> 2 ^ 62 \<Longrightarrow> mDataPos p + n < 2 ^ 64"
  by (simp add: inside_def readable_def)

lemma readAligned_inside:
  assumes "inside c p" and "4 dvd n" and "n \<le> 8"
  shows "\<exists>v q. readAligned n p = Some (v, q) \<and> steps c p q"
proof -
  have "readAligned n p = Some (if mDataPos p + n \<le> mDataSize p
      then (Some (take n (drop (mDataPos p) (parcel_bytes p))), moved (mDataPos p + n) (mNextObjectHint p) p) else (None, p))"
    using readAligned_law [of p n] small_pos [OF assms(1), of n] assms by (simp add: inside_def)
  then show ?thesis using stepsI [OF assms(1)] steps_refl [OF assms(1)] inside_pos [OF assms(1,2)] by (simp split: if_splits)
qed

lemma readInt32_inside: "inside c p \<Longrightarrow> \<exists>v q. readInt32 p = Some (v, q) \<and> steps c p q"
  using readAligned_inside [of c p 4] by (auto simp: readInt32_def readInt32_arg_def)

lemma readInt64_inside: "inside c p \<Longrightarrow> \<exists>v q. readInt64 p = Some (v, q) \<and> steps c p q"
  using readAligned_inside [of c p 8] by (auto simp: readInt64_def readInt64_arg_def)

lemma parcel_read_inside:
  assumes "inside c p"
  shows "\<exists>e v q. parcel_read n p = Some (e, v, q) \<and> steps c p q"
proof (cases "n \<le> INT32_MAX")
  case True
  then have "parcel_read n p = Some (if mDataPos p + pad n \<le> mDataSize p
      then (NO_ERROR, take n (drop (mDataPos p) (parcel_bytes p)), moved (mDataPos p + pad n) (mNextObjectHint p) p) else (NOT_ENOUGH_DATA, [], p))"
    using parcel_read_law [of p n] assms by (simp add: inside_def)
  then show ?thesis using stepsI [OF assms] steps_refl [OF assms] inside_pos [OF assms pad_dvd [of n]] by (simp split: if_splits)
qed (use steps_refl [OF assms] in \<open>simp add: parcel_read_def\<close>)

lemma readInplace_inside:
  assumes "inside c p"
  shows "\<exists>d q. readInplace n p = Some (d, q) \<and> steps c p q \<and> (\<forall>off. d = Some off \<longrightarrow> off + n \<le> mDataSize p)"
proof (cases "n \<le> INT32_MAX")
  case True
  then have "readInplace n p = Some (if mDataPos p + pad n \<le> mDataSize p
      then (Some (mDataPos p), moved (mDataPos p + pad n) (mNextObjectHint p) p) else (None, p))"
    using readInplace_law [of p n] assms by (simp add: inside_def)
  then show ?thesis using stepsI [OF assms] steps_refl [OF assms] inside_pos [OF assms pad_dvd [of n]] pad_ge [of n] by (simp split: if_splits)
qed (use steps_refl [OF assms] in \<open>simp add: readInplace_def\<close>)

lemma peek_inside: "inside c p \<Longrightarrow> off + n \<le> mDataSize p \<Longrightarrow> \<exists>bs. peek off n p = Some bs"
  using readable_peek by (auto simp: inside_def)

lemma readString8_inside:
  assumes "inside c p"
  shows "\<exists>v q. readString8 p = Some (v, q) \<and> steps c p q"
proof -
  obtain sz q where a: "readInt32 p = Some (sz, q)" "steps c p q" using readInt32_inside [OF assms] by blast
  obtain d r where b: "readInplace (unat sz + 1) q = Some (d, r)" "steps c q r" "\<forall>off. d = Some off \<longrightarrow> off + (unat sz + 1) \<le> mDataSize r"
    using readInplace_inside [OF steps_inside [OF a(2)], of "unat sz + 1"] steps_size by auto
  have r: "steps c p r" using steps_trans [OF a(2) b(2)] .
  show ?thesis
  proof (cases d)
    case None
    then show ?thesis using a b(1) r by (simp add: readString8_def)
  next
    case (Some off)
    then obtain bs where "peek off (unat sz) r = Some bs" using peek_inside [OF steps_inside [OF r], of off "unat sz"] b(3) by auto
    then show ?thesis using Some a b(1) r by (simp add: readString8_def)
  qed
qed

lemma readString16_inside:
  assumes "inside c p"
  shows "\<exists>v q. readString16 p = Some (v, q) \<and> steps c p q"
proof -
  obtain sz q where a: "readInt32 p = Some (sz, q)" "steps c p q" using readInt32_inside [OF assms] by blast
  obtain d r where b: "readInplace ((unat sz + 1) * 2) q = Some (d, r)" "steps c q r" "\<forall>off. d = Some off \<longrightarrow> off + (unat sz + 1) * 2 \<le> mDataSize r"
    using readInplace_inside [OF steps_inside [OF a(2)], of "(unat sz + 1) * 2"] steps_size by auto
  have r: "steps c p r" using steps_trans [OF a(2) b(2)] .
  show ?thesis
  proof (cases d)
    case None
    then show ?thesis using a b(1) r by (simp add: readString16_def readString16Inplace_def)
  next
    case (Some off)
    then obtain bs where "peek off (2 * unat sz) r = Some bs" using peek_inside [OF steps_inside [OF r], of off "2 * unat sz"] b(3) by auto
    then show ?thesis using Some a b(1) r by (simp add: readString16_def readString16Inplace_def)
  qed
qed

lemma memchr0_inside:
  assumes "readable p" and "pos + n \<le> mDataSize p"
  shows "\<exists>r. memchr0 pos n p = Some r \<and> (\<forall>e. r = Some e \<longrightarrow> pos \<le> e \<and> e < pos + n)"
  using assms(2)
proof (induction n arbitrary: pos)
  case (Suc n)
  obtain bs where "peek pos 1 p = Some bs" using readable_peek [OF assms(1), of pos 1] Suc.prems by auto
  then show ?case using Suc.IH [of "pos + 1"] Suc.prems by (cases "bs = [0]") fastforce+
qed simp

lemma readCString_inside:
  assumes "inside c p" and "c"
  shows "\<exists>v q. readCString p = Some (v, q) \<and> steps c p q"
proof -
  let ?n = "mDataSize p - mDataPos p"
  have p: "readable p" "mDataPos p \<le> mDataSize p" "4 dvd ?n" "mDataSize p \<le> INT32_MAX" using assms by (auto simp: inside_def readable_def)
  note avail = avail_bytes [OF p(2,4)]
  obtain r where r: "memchr0 (mDataPos p) ?n p = Some r" "\<forall>e. r = Some e \<longrightarrow> mDataPos p \<le> e \<and> e < mDataPos p + ?n"
    using memchr0_inside [OF p(1), of "mDataPos p" ?n] p(2) by auto
  show ?thesis
  proof (cases "?n > 0 \<and> r \<noteq> None")
    case True
    then obtain e where e: "r = Some e" "mDataPos p \<le> e" "e < mDataSize p" using r(2) by auto
    let ?m = "pad (e - mDataPos p + 1)"
    have le: "?m \<le> ?n" using e p(3) by (intro pad_le) auto
    then have m: "mDataPos p + ?m \<le> mDataSize p" "pad_size (e - mDataPos p + 1) = Some ?m"
      using p(2,4) pad_size_small [of "e - mDataPos p + 1"] by auto
    obtain bs where "peek (mDataPos p) (e - mDataPos p) p = Some bs" using peek_inside [OF assms(1), of "mDataPos p" "e - mDataPos p"] e by auto
    then have "readCString p = Some (Some bs, moved (mDataPos p + ?m) (mNextObjectHint p) p)"
      using True r(1) e(1) m p(4) unfolding readCString_def avail by (simp add: moved_def)
    then show ?thesis using stepsI [OF assms(1) m(1) inside_pos [OF assms(1) pad_dvd]] by blast
  next
    case False
    then have "readCString p = Some (None, p)" using r(1) unfolding readCString_def avail by (cases "?n > 0") auto
    then show ?thesis using steps_refl [OF assms(1)] by blast
  qed
qed

lemma readObject_inside:
  assumes "inside c p"
  shows "\<exists>v q. readObject nm p = Some (v, q) \<and> steps c p q"
proof -
  have far: "mDataPos p + sizeof_flat_object < 2 ^ 64" using small_pos [OF assms, of sizeof_flat_object] by simp
  have "c \<longrightarrow> 4 dvd mDataPos p + sizeof_flat_object" using inside_pos [OF assms, of sizeof_flat_object] by (simp add: dvd_def)
  then show ?thesis using readObject_law [OF _ far, of nm] assms stepsI [OF assms] steps_refl [OF assms]
    by (cases "mDataPos p + sizeof_flat_object \<le> mDataSize p") (auto simp: inside_def)
qed

lemmas reads_inside = readInt32_inside readInt64_inside readString8_inside readString16_inside

lemma read_item_inside:
  assumes "inside c p" and "c \<or> kd \<noteq> KCString"
  shows "\<exists>v q. read_item kd p = Some (v, q) \<and> steps c p q"
proof (cases kd)
  case (KRaw n)
  then show ?thesis using parcel_read_inside [OF assms(1), of n] by auto
qed (use assms(2) reads_inside [OF assms(1)] readCString_inside [OF assms(1)] readObject_inside [OF assms(1), of False] readObject_inside [OF assms(1), of True] in
    \<open>auto simp: readStrongBinder_def readWeakBinder_def readFileDescriptor_def unflatten_strong_def unflatten_weak_def split: option.splits\<close>)

lemma read_all_inside: "inside c p \<Longrightarrow> c \<or> KCString \<notin> set kds \<Longrightarrow> \<exists>vs q. read_all read_item kds p = Some (vs, q) \<and> steps c p q"
proof (induction kds arbitrary: p)
  case Nil
  then show ?case using steps_refl by simp
next
  case (Cons kd kds)
  obtain v q where a: "read_item kd p = Some (v, q)" "steps c p q" using read_item_inside [OF Cons.prems(1), of kd] Cons.prems(2) by auto
  obtain vs r where "read_all read_item kds q = Some (vs, r)" "steps c q r" using Cons.IH [OF steps_inside [OF a(2)]] Cons.prems(2) by auto
  then show ?case using a steps_trans [OF a(2)] by auto
qed

section \<open>Receiving and freeing\<close>

definition received :: "byte list \<Rightarrow> nat list \<Rightarrow> u64 \<Rightarrow> bool \<Rightarrow> parcel" where
  "received data objs addr has = initState\<lparr>mData := Buf data, mDataSize := length data, mDataCapacity := length data,
     mObjects := Buf objs, mObjectsSize := (if offsets_ok 0 objs then length objs else 0), mObjectsCapacity := length objs, mOwner := Some addr,
     mHasFds := has\<rparr>"

lemma offsets_laid_out:
  assumes "offsets_ok lo objs" and "\<forall>off\<in>set objs. off + sizeof_flat_object \<le> n" and "lo \<le> n" and "n \<le> INT32_MAX"
  shows "laid_out lo objs n"
  using assms by (induction lo objs rule: offsets_ok.induct) (auto simp: not_less)

lemma received_simps [simp]:
  "mDataPos (received data objs addr has) = 0" "mDataSize (received data objs addr has) = length data" "parcel_bytes (received data objs addr has) = data"
  "parcel_offs (received data objs addr has) = (if offsets_ok 0 objs then objs else [])" "mOwner (received data objs addr has) = Some addr"
  "mObjectsSize (received data objs addr has) = (if offsets_ok 0 objs then length objs else 0)"
  by (simp_all add: received_def initState_def parcel_bytes_def parcel_offs_def)

lemma received_readable:
  assumes "length data \<le> INT32_MAX" and "\<forall>off\<in>set objs. off + sizeof_flat_object \<le> length data"
  shows "readable (received data objs addr has)"
  using assms offsets_laid_out [of 0 objs "length data"] by (simp add: readable_def)

lemma readable_object:
  assumes "readable p" and "i < mObjectsSize p"
  shows "\<exists>f. object_offset i p = Some (parcel_offs p ! i) \<and> get_flat_object (parcel_bytes p) (parcel_offs p ! i) = Some f
    \<and> flat_at (parcel_offs p ! i) p = Some f"
proof -
  have i: "i < length (parcel_offs p)" using assms by (simp add: readable_def)
  then have off: "object_offset i p = Some (parcel_offs p ! i)" by (cases "mObjects p") (simp_all add: object_offset_def parcel_offs_def)
  have "parcel_offs p ! i \<in> set (parcel_offs p)" using i by (rule nth_mem)
  then have in': "parcel_offs p ! i + sizeof_flat_object \<le> mDataSize p" using assms(1) laid_out_bounds [of 0 "parcel_offs p" "mDataSize p" "parcel_offs p ! i"] by (simp add: readable_def)
  then obtain f where "get_flat_object (parcel_bytes p) (parcel_offs p ! i) = Some f"
    using get_flat_object_Some [of "parcel_offs p ! i" "parcel_bytes p"] assms(1) by (auto simp: readable_def)
  then show ?thesis using off readable_flat_at [OF assms(1) in'] by simp
qed

lemma scan_fds_total:
  assumes "readable p" and "i + n \<le> mObjectsSize p"
  shows "\<exists>b. scan_fds i n p = Some b"
  using assms(2)
proof (induction n arbitrary: i)
  case (Suc n)
  obtain f where "object_offset i p = Some (parcel_offs p ! i)" "flat_at (parcel_offs p ! i) p = Some f"
    using readable_object [OF assms(1), of i] Suc.prems by auto
  then show ?case using Suc.IH [of "i + 1"] Suc.prems by auto
qed auto

lemma ipcSetDataReference_law:
  assumes "length data \<le> INT32_MAX" and "\<forall>off\<in>set objs. off + sizeof_flat_object \<le> length data"
  shows "\<exists>has. ipcSetDataReference k data objs addr initState w = Some (received data objs addr has, w)"
proof -
  let ?p = "received data objs addr False"
  obtain has where has: "scan_fds 0 (mObjectsSize ?p) ?p = Some has"
    using scan_fds_total [OF received_readable [OF assms, of addr False], of 0 "mObjectsSize ?p"] by auto
  have "freeDataNoInit k initState w = Some (initState, w)"
    by (simp add: freeDataNoInit_def initState_def releaseObjects_def free_buf_def)
  moreover have "initState\<lparr>mError := NO_ERROR, mData := Buf data, mDataSize := length data, mDataCapacity := length data, mDataPos := 0,
       mObjects := Buf objs, mObjectsSize := (if offsets_ok 0 objs then length objs else 0), mObjectsCapacity := length objs,
       mNextObjectHint := 0, mOwner := Some addr\<rparr> = ?p"
    by (simp add: received_def initState_def)
  ultimately have "ipcSetDataReference k data objs addr initState w = Some (?p\<lparr>mHasFds := has, mFdsKnown := True\<rparr>, w)"
    using has by (cases "offsets_ok 0 objs") (simp_all add: ipcSetDataReference_def scanForFds_def)
  moreover have "?p\<lparr>mHasFds := has, mFdsKnown := True\<rparr> = received data objs addr has" by (simp add: received_def initState_def)
  ultimately show ?thesis by auto
qed

definition fd_handles :: "flat_binder_object list \<Rightarrow> u32 list" where
  "fd_handles fs = map (\<lambda>f. fo_handle f) (filter (\<lambda>f. fo_type f = BINDER_TYPE_FD) fs)"

lemma objects_down_close:
  assumes "readable p" and "n \<le> mObjectsSize p"
  shows "\<exists>q v. objects_down close_fd_object n p w = Some (q, v) \<and> parcel_events v = parcel_events w @ map Close (fd_handles (rev (take n (objects_of p))))"
  using assms(2)
proof (induction n arbitrary: w)
  case 0
  then show ?case by (simp add: fd_handles_def)
next
  case (Suc n)
  obtain f where f: "object_offset n p = Some (parcel_offs p ! n)" "get_flat_object (parcel_bytes p) (parcel_offs p ! n) = Some f"
    "flat_at (parcel_offs p ! n) p = Some f" using readable_object [OF assms(1), of n] Suc.prems by auto
  have n: "n < length (parcel_offs p)" using Suc.prems assms(1) by (simp add: readable_def)
  define v where "v = snd (close_fd_object f (mOpenAshmemSize p) w)"
  have ev: "parcel_events v = parcel_events w @ map Close (fd_handles [f])" by (simp add: v_def close_fd_object_def emit_def fd_handles_def)
  have last: "take (Suc n) (objects_of p) = take n (objects_of p) @ [f]" using n f(2) by (simp add: objects_of_def take_Suc_conv_app_nth)
  have "objects_down close_fd_object (Suc n) p w = objects_down close_fd_object n p v"
    using f(1,3) by (simp add: v_def close_fd_object_def)
  then show ?case using Suc.IH [of v] Suc.prems ev last by (auto simp: fd_handles_def)
qed

section \<open>Properties\<close>

text \<open>
  C25. A parcel received from another process is safe to read: whatever bytes a message consists of and whatever object offsets inside of it the driver
  reports, any sequence of reads returns, with no access outside of the buffer; and freeing the parcel afterwards closes every descriptor that is listed,
  once, and then gives the buffer back to the driver, once. The one restriction is on \<open>readCString\<close>: its reads are among them only when the size of the
  message is a multiple of four, for otherwise the padding after a string can lead past the end.
\<close>

theorem received_parcel_safe:
  assumes "length data \<le> INT32_MAX" and "\<forall>off\<in>set objs. off + sizeof_flat_object \<le> length data" and "4 dvd length data \<or> KCString \<notin> set kds"
  shows "\<exists>p v q r u. ipcSetDataReference k data objs addr initState w = Some (p, w) \<and> read_all read_item kds p = Some (v, q) \<and>
    mDataPos q \<le> length data \<and> parcel_bytes q = data \<and> freeDataNoInit k q w = Some (r, u) \<and>
    parcel_events u = parcel_events w @ map Close (fd_handles (rev (objects_of q))) @ [Free_Buffer addr]"
proof -
  obtain has where p: "ipcSetDataReference k data objs addr initState w = Some (received data objs addr has, w)"
    using ipcSetDataReference_law [OF assms(1,2)] by blast
  let ?p = "received data objs addr has" and ?c = "4 dvd length data"
  have "inside ?c ?p" using received_readable [OF assms(1,2)] by (simp add: inside_def)
  then obtain vs q where q: "read_all read_item kds ?p = Some (vs, q)" "steps ?c ?p q" using read_all_inside assms(3) by blast
  then have same: "parcel_bytes q = data" "mOwner q = Some addr" "readable q" "mDataPos q \<le> length data" by (auto simp: steps_def inside_def moved_def received_def initState_def parcel_bytes_def)
  have "take (mObjectsSize q) (objects_of q) = objects_of q" using same(3) by (simp add: objects_of_def readable_def)
  then obtain s u where "closeFileDescriptors q w = Some (s, u)" "parcel_events u = parcel_events w @ map Close (fd_handles (rev (objects_of q)))"
    using objects_down_close [OF same(3) order_refl, of w] by (auto simp: closeFileDescriptors_def)
  then show ?thesis using p q(1) same by (simp add: freeDataNoInit_def call_owner_def emit_def)
qed

text \<open>A message of five bytes without, and one of four bytes with a C string.\<close>

theorem received_parcel_safe_witness:
  "(\<exists>p v q r u. ipcSetDataReference plain_libc [1, 2, 3, 4, 5] [] 64 initState quiet_world = Some (p, quiet_world) \<and>
    read_all read_item [KString16, KStrong, K32] p = Some (v, q) \<and> mDataPos q \<le> 5 \<and> freeDataNoInit plain_libc q quiet_world = Some (r, u)) \<and>
   (\<exists>p v q r u. ipcSetDataReference plain_libc [1, 0, 3, 4] [] 64 initState quiet_world = Some (p, quiet_world) \<and>
    read_all read_item [KCString, KCString] p = Some (v, q) \<and> mDataPos q \<le> 4 \<and> freeDataNoInit plain_libc q quiet_world = Some (r, u))"
proof
  show "\<exists>p v q r u. ipcSetDataReference plain_libc [1, 2, 3, 4, 5] [] 64 initState quiet_world = Some (p, quiet_world) \<and>
    read_all read_item [KString16, KStrong, K32] p = Some (v, q) \<and> mDataPos q \<le> 5 \<and> freeDataNoInit plain_libc q quiet_world = Some (r, u)"
    using received_parcel_safe [of "[1, 2, 3, 4, 5]" "[]" "[KString16, KStrong, K32]" plain_libc 64 quiet_world] by auto
  have "length [1, 0, 3, 4 :: byte] = 4" by simp
  then have "4 dvd length [1, 0, 3, 4 :: byte]" by (simp only: dvd_refl)
  then show "\<exists>p v q r u. ipcSetDataReference plain_libc [1, 0, 3, 4] [] 64 initState quiet_world = Some (p, quiet_world) \<and>
    read_all read_item [KCString, KCString] p = Some (v, q) \<and> mDataPos q \<le> 4 \<and> freeDataNoInit plain_libc q quiet_world = Some (r, u)"
    using received_parcel_safe [of "[1, 0, 3, 4]" "[]" "[KCString, KCString]" plain_libc 64 quiet_world] by auto
qed

end
