(* ===== verification/Parcel_Faults.thy ===== *)
theory Parcel_Faults
  imports Parcel_Received
begin

text \<open>
  The list of objects guards what is read as one, and the places where operations of parcels leave their memory, lose an error, or close a descriptor twice. Each of the
  latter is a run of the model on a concrete parcel.
\<close>

text \<open>
  An object is read from a parcel only where one is listed: in every parcel that can be read, whatever the hint of the search is, \<open>readObject\<close> gives back the object at the position
  exactly when the position is in the list of objects (or the object is null and needs no entry), and moves the position past it.
\<close>

theorem objects_read_are_listed:
  assumes "readable p" and "mDataPos p + sizeof_flat_object \<le> mDataSize p"
  shows "\<exists>f q. get_flat_object (parcel_bytes p) (mDataPos p) = Some f \<and> mDataPos q = mDataPos p + sizeof_flat_object \<and>
    readObject nm p = Some (if \<not> nm \<and> fo_cookie f = 0 \<and> fo_binder f = 0 \<or> mDataPos p \<in> set (parcel_offs p) then Some f else None, q)"
proof -
  have far: "mDataPos p + sizeof_flat_object < 2 ^ 64" using assms by (simp add: readable_def)
  obtain f where "get_flat_object (parcel_bytes p) (mDataPos p) = Some f"
    using get_flat_object_Some [of "mDataPos p" "parcel_bytes p"] assms by (auto simp: readable_def)
  then show ?thesis using readObject_law [OF assms(1) far, of nm] assms(2) by (auto simp: Let_def)
qed

theorem objects_read_are_listed_witness:
  "\<exists>f q. readObject True (moved 24 7 (received (flat_bytes (fd_object 5 True) @ flat_bytes (fd_object 6 True)) [0, 24] 64 True)) = Some (Some f, q)"
proof -
  let ?p = "received (flat_bytes (fd_object 5 True) @ flat_bytes (fd_object 6 True)) [0, 24] 64 True"
  have "readable ?p" using received_readable [of "flat_bytes (fd_object 5 True) @ flat_bytes (fd_object 6 True)" "[0, 24]"] by simp
  then show ?thesis using objects_read_are_listed [of "moved 24 7 ?p" True] by auto
qed

section \<open>Faults\<close>


lemmas parcel_eval = writeInt32_def writeAligned_def growData_def continueWrite_def continue_owned_def malloc_bytes_def realloc_buf_def
  write_here_def poke_def put_range_def finishWrite_def account_def called_def initState_def quiet_world_def plain_libc_def Let_def
  setDataPosition_def

text \<open>\<open>growData\<close> makes room after the end of the data, not after the position: a write after \<open>setDataPosition\<close> past the end leaves the memory.\<close>

lemma write_past_end_faults:
  "(do { (e, p, w) \<leftarrow> writeInt32 plain_libc 1 initState quiet_world; p1 \<leftarrow> setDataPosition 100 p; writeInt32 plain_libc 2 p1 w }) = None"
  by (simp add: parcel_eval le_bytes_def)

text \<open>\<open>write\<close> answers with \<open>mError\<close> when it could not get memory in place, but a refused size does not set it: the data is dropped with success.\<close>

lemma large_write_dropped:
  assumes "1431655766 \<le> length bs" and "length bs \<le> INT32_MAX - 3"
  shows "parcel_write k bs initState w = Some (NO_ERROR, initState, w)"
proof -
  define n where "n = pad (length bs)"
  have n: "1431655766 \<le> n" "n \<le> INT32_MAX" using assms pad_ge [of "length bs"] unfolding n_def pad_def by presburger+
  have "pad_size (length bs) = Some n" using n(2) unfolding n_def by (rule pad_size_small)
  moreover have "growData k n initState w = Some (BAD_VALUE, initState, w)"
  proof -
    have "INT32_MAX < n * 3 div 2" using n by presburger
    then show ?thesis using n by (simp add: growData_def continueWrite_def initState_def Let_def)
  qed
  ultimately show ?thesis using assms(2) n by (simp add: parcel_write_def writeInplace_def initState_def)
qed

lemma memchr0_fault: "0 < n \<Longrightarrow> peek off 1 p = None \<Longrightarrow> memchr0 off n p = None"
  by (cases n) simp_all

text \<open>A C string may end before the next multiple of four, which moves the position past the end; the bytes that are left are then computed as a huge number.\<close>

lemma cstrings_past_end_fault:
  "read_all read_item [KCString, KCString] (received [97, 0] [] 64 False) = None"
proof -
  let ?p = "received [97, 0] [] 64 False"
  have "memchr0 0 (Suc (Suc 0)) ?p = Some (Some 1)" "peek 0 1 ?p = Some [97]" by (simp_all add: peek_def get_range_def received_def initState_def)
  then have "readCString ?p = Some (Some [97], ?p\<lparr>mDataPos := 4\<rparr>)"
    by (simp add: readCString_def pad_size_def numeral_2_eq_2 [symmetric] Let_def)
  moreover have "readCString (?p\<lparr>mDataPos := 4\<rparr>) = None"
    by (simp add: readCString_def memchr0_fault peek_def get_range_def received_def initState_def)
  ultimately show ?thesis by simp
qed

text \<open>Making a parcel shorter gives memory of the object list back, but not its capacity.\<close>

definition two_fds :: "bool \<Rightarrow> parcel" where
  "two_fds own = initState\<lparr>mData := Buf (flat_bytes (fd_object 5 own) @ flat_bytes (fd_object 6 own)), mDataSize := 48, mDataCapacity := 48, mDataPos := 48,
     mObjects := Buf [0, 24, 0], mObjectsSize := 2, mObjectsCapacity := 3, mHasFds := True\<rparr>"

lemma two_flats: "get_flat_object (flat_bytes f @ flat_bytes g) 0 = Some f" "get_flat_object (flat_bytes f @ flat_bytes g) 24 = Some g"
  using get_flat_bytes [of "[]" f "flat_bytes g"] get_flat_bytes [of "flat_bytes f" g "[]"] by simp_all

lemma one_below: "objects_below 24 (Suc (Suc 0)) (two_fds own) = Some (Suc 0)"
  by (simp add: two_fds_def object_offset_def)

lemma shrunk_objects_fault:
  "(do { (e, p, w) \<leftarrow> setDataSize plain_libc 24 (two_fds False) quiet_world; writeFileDescriptor plain_libc 7 False p w }) = None"
proof -
  let ?q = "(two_fds False)\<lparr>mFdsKnown := False, mObjects := Buf [0], mObjectsSize := 1, mDataSize := 24, mDataPos := 24\<rparr>"
  have "drop_objects plain_libc 1 (Suc 0) (two_fds False) quiet_world = Some ((two_fds False)\<lparr>mFdsKnown := False\<rparr>, quiet_world)"
    by (simp add: two_fds_def object_offset_def flat_at_def two_flats release_object_def fd_object_def type_codes initState_def)
  then have "\<exists>w. setDataSize plain_libc 24 (two_fds False) quiet_world = Some (NO_ERROR, ?q, w)"
    using one_below [of False]
    by (simp add: setDataSize_def continueWrite_def two_fds_def initState_def continue_owned_def realloc_buf_def plain_libc_def numeral_2_eq_2 Let_def)
  moreover have "writeFileDescriptor plain_libc 7 False ?q w = None" for w
    by (simp add: writeFileDescriptor_def writeObject_def object_here_def set_object_offset_def poke_def put_range_def two_fds_def initState_def Let_def)
  ultimately show ?thesis by auto
qed

text \<open>\<open>restartWrite\<close> releases the objects out of the memory that \<open>realloc\<close> has freed.\<close>

lemma set_data_after_free:
  "setData plain_libc [1] (two_fds True) quiet_world = None"
  by (simp add: setData_def restartWrite_def two_fds_def initState_def realloc_buf_def plain_libc_def releaseObjects_def object_offset_def flat_at_def
      numeral_2_eq_2 Let_def)

text \<open>A native handle whose descriptors could not be read is given out when its integers could be read.\<close>

definition no_fds :: libc where
  "no_fds = plain_libc\<lparr>dup_fd := (\<lambda>c fd. - 9)\<rparr>"

lemma native_handle_error_lost:
  "\<exists>p w. readNativeHandle no_fds (received (u32_bytes 1 @ u32_bytes 0) [] 64 False) quiet_world =
    Some (Some \<lparr>nh_version = 12, numFds = 1, numInts = 0, nh_data = [- 1]\<rparr>, p, w)"
proof -
  let ?p = "received (u32_bytes 1 @ u32_bytes 0) [] 64 False"
  have r: "readable ?p" using received_readable [of "u32_bytes 1 @ u32_bytes 0" "[]"] by simp
  have h: "here (u32_bytes 1 @ u32_bytes 0) ?p" by (simp add: here_def)
  note a = readInt32_here(1) [OF r here_append(1) [OF h]]
  have b: "readInt32_arg (moved 4 (mNextObjectHint ?p) ?p) = Some (Some 0, moved 8 (mNextObjectHint ?p) ?p)"
    using readInt32_here(1) [OF _ here_append(2) [OF h]] r by simp
  have c: "readFileDescriptor (moved 8 h ?p) = Some (BAD_TYPE, moved 8 h ?p)" for h
    by (simp add: readFileDescriptor_def readObject_def)
  have d: "parcel_read 0 (moved 8 h ?p) = Some (NO_ERROR, [], moved 8 h ?p)" for h
    using parcel_read_law [of "moved 8 h ?p" 0] r by (simp add: pad_def)
  show ?thesis using a b
    by (simp add: readNativeHandle_def native_handle_create_def no_fds_def plain_libc_def quiet_world_def called_def c d)
qed

text \<open>
  Writing to a received parcel closes its descriptors: the parcel takes a copy of the data and lets the owner free the buffer, which closes the descriptors, but the copy lists them still.
  Destroying the parcel closes the same numbers again, which may belong to other files by then.
\<close>

theorem taken_over_fd_closed_twice:
  "\<exists>e p w q u. writeInt32 plain_libc 1 ((received (flat_bytes (fd_object 5 True)) [0] 64 True)\<lparr>mDataPos := 24\<rparr>) quiet_world = Some (e, p, w) \<and>
    freeDataNoInit plain_libc p w = Some (q, u) \<and> parcel_events u = [Close 5, Free_Buffer 64, Close 5]"
proof -
  let ?f = "fd_object 5 True"
  let ?p = "(received (flat_bytes ?f) [0] 64 True)\<lparr>mDataPos := 24\<rparr>"
  have f: "get_flat_object (flat_bytes ?f @ cs) 0 = Some ?f" for cs using get_flat_bytes [of "[]" ?f cs] by simp
  have f0: "get_flat_object (flat_bytes ?f) 0 = Some ?f" using f [of "[]"] by simp
  have ty: "fo_type ?f = BINDER_TYPE_FD" "fo_handle ?f = 5" "fo_cookie ?f = 1" by (simp_all add: fd_object_def)
  have kinds: "BINDER_TYPE_FD \<noteq> BINDER_TYPE_BINDER" "BINDER_TYPE_FD \<noteq> BINDER_TYPE_WEAK_BINDER" "BINDER_TYPE_FD \<noteq> BINDER_TYPE_HANDLE"
    "BINDER_TYPE_FD \<noteq> BINDER_TYPE_WEAK_HANDLE" by (simp_all add: type_codes)
  show ?thesis
    by (simp add: parcel_eval received_def continue_owner_def acquireObjects_def acquire_object_def object_offset_def flat_at_def f f0 ty kinds peek_def
        get_range_def call_owner_def closeFileDescriptors_def close_fd_object_def emit_def freeDataNoInit_def releaseObjects_def release_object_def free_buf_def)
qed

end
