(* ===== verification/Proxy.thy ===== *)
theory Proxy
  imports Binder_Txn Ref_Base_Props
begin

text \<open>
  Remote objects in the client library: the proxy of a handle (\<open>libs/binder/BpBinder.cpp\<close>), the table of proxies of a process
  (\<open>libs/binder/ProcessState.cpp\<close>), and the commands with which they keep the driver informed (\<open>libs/binder/IPCThreadState.cpp\<close>).
  Operations give back what the calling thread adds to its outgoing commands; \<open>None\<close> is an access to a proxy that is gone.
\<close>

section \<open>Commands\<close>

abbreviation DEAD_OBJECT :: int where "DEAD_OBJECT \<equiv> - 32"
abbreviation NO_MEMORY :: int where "NO_MEMORY \<equiv> - 12"
abbreviation INVALID_OPERATION :: int where "INVALID_OPERATION \<equiv> - 38"
abbreviation NAME_NOT_FOUND :: int where "NAME_NOT_FOUND \<equiv> - 2"

datatype command =
    C_Transaction binder_transaction_data
  | C_Reply binder_transaction_data
  | C_Acquire_Result u32
  | C_Free_Buffer u64
  | C_Increfs u32
  | C_Acquire u32
  | C_Release u32
  | C_Decrefs u32
  | C_Increfs_Done u64 u64
  | C_Acquire_Done u64 u64
  | C_Register_Looper
  | C_Enter_Looper
  | C_Exit_Looper
  | C_Request_Death u32 u64
  | C_Clear_Death u32 u64
  | C_Dead_Done u64

text \<open>The bytes that the \<open>writeInt32\<close>, \<open>writePointer\<close> and \<open>write\<close> calls for a command add to the parcel \<open>mOut\<close>.\<close>

fun command_bytes :: "command \<Rightarrow> byte list" where
  "command_bytes (C_Transaction tr) = u32_bytes BC_TRANSACTION @ transaction_data_bytes tr"
| "command_bytes (C_Reply tr) = u32_bytes BC_REPLY @ transaction_data_bytes tr"
| "command_bytes (C_Acquire_Result r) = u32_bytes BC_ACQUIRE_RESULT @ u32_bytes r"
| "command_bytes (C_Free_Buffer p) = u32_bytes BC_FREE_BUFFER @ u64_bytes p"
| "command_bytes (C_Increfs h) = u32_bytes BC_INCREFS @ u32_bytes h"
| "command_bytes (C_Acquire h) = u32_bytes BC_ACQUIRE @ u32_bytes h"
| "command_bytes (C_Release h) = u32_bytes BC_RELEASE @ u32_bytes h"
| "command_bytes (C_Decrefs h) = u32_bytes BC_DECREFS @ u32_bytes h"
| "command_bytes (C_Increfs_Done p c) = u32_bytes BC_INCREFS_DONE @ u64_bytes p @ u64_bytes c"
| "command_bytes (C_Acquire_Done p c) = u32_bytes BC_ACQUIRE_DONE @ u64_bytes p @ u64_bytes c"
| "command_bytes C_Register_Looper = u32_bytes BC_REGISTER_LOOPER"
| "command_bytes C_Enter_Looper = u32_bytes BC_ENTER_LOOPER"
| "command_bytes C_Exit_Looper = u32_bytes BC_EXIT_LOOPER"
| "command_bytes (C_Request_Death h p) = u32_bytes BC_REQUEST_DEATH_NOTIFICATION @ u32_bytes h @ u64_bytes p"
| "command_bytes (C_Clear_Death h p) = u32_bytes BC_CLEAR_DEATH_NOTIFICATION @ u32_bytes h @ u64_bytes p"
| "command_bytes (C_Dead_Done p) = u32_bytes BC_DEAD_BINDER_DONE @ u64_bytes p"

text \<open>What an operation asks of the calling thread: a command for \<open>mOut\<close>, or \<open>flushCommands\<close>.\<close>

datatype ask = Cmd command | Flush

definition incStrongHandle :: "u32 \<Rightarrow> ask list" where
  "incStrongHandle h = [Cmd (C_Acquire h)]"

definition decStrongHandle :: "u32 \<Rightarrow> ask list" where
  "decStrongHandle h = [Cmd (C_Release h)]"

definition incWeakHandle :: "u32 \<Rightarrow> ask list" where
  "incWeakHandle h = [Cmd (C_Increfs h)]"

definition decWeakHandle :: "u32 \<Rightarrow> ask list" where
  "decWeakHandle h = [Cmd (C_Decrefs h)]"

definition requestDeathNotification :: "u32 \<Rightarrow> u64 \<Rightarrow> ask list" where
  "requestDeathNotification h proxy = [Cmd (C_Request_Death h proxy)]"

definition clearDeathNotification :: "u32 \<Rightarrow> u64 \<Rightarrow> ask list" where
  "clearDeathNotification h proxy = [Cmd (C_Clear_Death h proxy)]"

text \<open>The driver has no \<open>BC_ATTEMPT_ACQUIRE\<close>, and \<open>HAS_BC_ATTEMPT_ACQUIRE\<close> is not defined.\<close>

definition attemptIncStrongHandle :: "u32 \<Rightarrow> int" where
  "attemptIncStrongHandle h = INVALID_OPERATION"

section \<open>Counts of a proxy\<close>

text \<open>
  The operations of \<^const>\<open>act\<close> without interruption, for the lifetime that proxies have. The second component says whether the operation calls
  \<open>onFirstRef\<close> or \<open>onLastStrongRef\<close>, and for \<open>decWeak\<close>, whether the object is to be deleted.
\<close>

definition incWeak :: "weakref_impl \<Rightarrow> weakref_impl" where
  "incWeak r = add_weak 1 r"

definition attemptIncWeak :: "weakref_impl \<Rightarrow> weakref_impl option" where
  "attemptIncWeak r = (if 0 < mWeak r then Some (add_weak 1 r) else None)"

definition decWeak :: "weakref_impl \<Rightarrow> weakref_impl \<times> bool" where
  "decWeak r = (add_weak (- 1) r, mWeak r = 1)"

definition first_ref :: "weakref_impl \<Rightarrow> weakref_impl" where
  "first_ref r = r\<lparr>taken := taken r + 1\<rparr>"

definition last_ref :: "weakref_impl \<Rightarrow> weakref_impl" where
  "last_ref r = r\<lparr>taken := taken r - 1\<rparr>"

definition incStrong :: "weakref_impl \<Rightarrow> weakref_impl \<times> bool" where
  "incStrong r = (let r1 = add_strong 1 (add_weak 1 r) in
     if mStrong r = INITIAL_STRONG_VALUE then (first_ref (add_strong (- INITIAL_STRONG_VALUE) r1), True) else (r1, False))"

definition forceIncStrong :: "weakref_impl \<Rightarrow> weakref_impl \<times> bool" where
  "forceIncStrong r = (let r1 = add_strong 1 (add_weak 1 r) in
     if mStrong r = INITIAL_STRONG_VALUE then (first_ref (add_strong (- INITIAL_STRONG_VALUE) r1), True)
     else if mStrong r = 0 then (first_ref r1, True) else (r1, False))"

definition decStrong :: "weakref_impl \<Rightarrow> weakref_impl \<times> bool" where
  "decStrong r = (let r1 = add_strong (- 1) r in if mStrong r = 1 then (last_ref r1, True) else (r1, False))"

text \<open>\<open>attemptIncStrong\<close>: a proxy grants a first strong reference only when \<open>attemptIncStrongHandle\<close> succeeds.\<close>

definition attemptIncStrong :: "u32 \<Rightarrow> weakref_impl \<Rightarrow> weakref_impl option" where
  "attemptIncStrong h r =
     (if 0 < mStrong r \<and> mStrong r \<noteq> INITIAL_STRONG_VALUE then Some (add_strong 1 (add_weak 1 r))
      else if attemptIncStrongHandle h = 0 then Some (first_ref (add_strong (if mStrong r = INITIAL_STRONG_VALUE then 1 - INITIAL_STRONG_VALUE else 1) (add_weak 1 r)))
      else None)"

section \<open>Proxies\<close>

text \<open>\<open>ob_recipient\<close> and \<open>ob_cookie\<close> are pointers of the client, \<open>None\<close> the null pointer.\<close>

record obituary =
  ob_recipient :: "u64 option"
  ob_cookie :: u64
  ob_flags :: u32

record bp_binder =
  mHandle :: u32
  mAlive :: bool
  mObitsSent :: bool
  mObituaries :: "obituary list option"
  counts :: weakref_impl

definition BpBinder :: "u32 \<Rightarrow> bp_binder \<times> ask list" where
  "BpBinder h = (\<lparr>mHandle = h, mAlive = True, mObitsSent = False, mObituaries = None, counts = RefBase OBJECT_LIFETIME_WEAK\<rparr>, incWeakHandle h)"

definition onFirstRef :: "bp_binder \<Rightarrow> ask list" where
  "onFirstRef b = incStrongHandle (mHandle b)"

definition onLastStrongRef :: "bp_binder \<Rightarrow> ask list" where
  "onLastStrongRef b = decStrongHandle (mHandle b)"

text \<open>\<open>self\<close> is the address of the proxy; \<open>room\<close> says whether the vector could grow.\<close>

definition linkToDeath :: "bool \<Rightarrow> u64 \<Rightarrow> obituary \<Rightarrow> bp_binder \<Rightarrow> int \<times> ask list \<times> bp_binder" where
  "linkToDeath room self ob b =
     (if mObitsSent b then (DEAD_OBJECT, [], b)
      else let (out, b1) = (case mObituaries b of
                 None \<Rightarrow> (requestDeathNotification (mHandle b) self @ [Flush], b\<lparr>mObituaries := Some [], counts := incWeak (counts b)\<rparr>)
               | Some _ \<Rightarrow> ([], b))
           in if room then (0, out, b1\<lparr>mObituaries := map_option (\<lambda>obs. obs @ [ob]) (mObituaries b1)\<rparr>) else (NO_MEMORY, out, b1))"

definition obit_matches :: "u64 option \<Rightarrow> u64 \<Rightarrow> u32 \<Rightarrow> obituary \<Rightarrow> bool" where
  "obit_matches recipient cookie flags ob \<longleftrightarrow>
     (ob_recipient ob = recipient \<or> recipient = None \<and> ob_cookie ob = cookie) \<and> ob_flags ob = flags"

fun take_obit :: "(obituary \<Rightarrow> bool) \<Rightarrow> obituary list \<Rightarrow> (obituary \<times> obituary list) option" where
  "take_obit f [] = None"
| "take_obit f (ob # obs) = (if f ob then Some (ob, obs) else map_option (\<lambda>(x, ys). (x, ob # ys)) (take_obit f obs))"

definition unlinkToDeath ::
  "u64 \<Rightarrow> u64 option \<Rightarrow> u64 \<Rightarrow> u32 \<Rightarrow> bp_binder \<Rightarrow> int \<times> obituary option \<times> ask list \<times> bp_binder" where
  "unlinkToDeath self recipient cookie flags b =
     (if mObitsSent b then (DEAD_OBJECT, None, [], b)
      else case take_obit (obit_matches recipient cookie flags) (case mObituaries b of None \<Rightarrow> [] | Some obs \<Rightarrow> obs) of
        None \<Rightarrow> (NAME_NOT_FOUND, None, [], b)
      | Some (ob, []) \<Rightarrow> (0, Some ob, clearDeathNotification (mHandle b) self @ [Flush], b\<lparr>mObituaries := None\<rparr>)
      | Some (ob, obs) \<Rightarrow> (0, Some ob, [], b\<lparr>mObituaries := Some obs\<rparr>))"

text \<open>\<open>sendObituary\<close> under its lock: the obituaries that are then reported one after the other.\<close>

definition take_obituaries :: "u64 \<Rightarrow> bp_binder \<Rightarrow> obituary list \<times> ask list \<times> bp_binder" where
  "take_obituaries self b = (case mObituaries b of
       Some obs \<Rightarrow> (obs, clearDeathNotification (mHandle b) self @ [Flush], b\<lparr>mObituaries := None, mObitsSent := True\<rparr>)
     | None \<Rightarrow> ([], [], b\<lparr>mObitsSent := True\<rparr>))"

definition sendObituary :: "u64 \<Rightarrow> bp_binder \<Rightarrow> obituary list \<times> ask list \<times> bp_binder" where
  "sendObituary self b =
     (if mObitsSent b then ([], [], b\<lparr>mAlive := False\<rparr>) else take_obituaries self (b\<lparr>mAlive := False\<rparr>))"

text \<open>\<open>promotes\<close> tells which recipients still exist.\<close>

definition reportOneDeath :: "(u64 \<Rightarrow> bool) \<Rightarrow> obituary \<Rightarrow> u64 option" where
  "reportOneDeath promotes ob = (case ob_recipient ob of Some r \<Rightarrow> if promotes r then Some r else None | None \<Rightarrow> None)"

section \<open>The table of proxies\<close>

record handle_entry =
  e_proxy :: "u64 option"
  e_refs :: "u64 option"

text \<open>\<open>mHandleToObject\<close>, and the proxies by address.\<close>

record proxies =
  mHandleToObject :: "handle_entry list"
  bps :: "u64 \<rightharpoonup> bp_binder"

definition no_proxies :: proxies where
  "no_proxies = \<lparr>mHandleToObject = [], bps = Map.empty\<rparr>"

text \<open>\<open>grows\<close>: whether the vector could be extended to the size. A handle is an \<open>int32_t\<close>; the driver gives out no negative ones.\<close>

definition lookupHandleLocked :: "(nat \<Rightarrow> bool) \<Rightarrow> u32 \<Rightarrow> proxies \<Rightarrow> proxies option" where
  "lookupHandleLocked grows h P =
     (if unat h < length (mHandleToObject P) then Some P
      else if grows (unat h + 1)
      then Some (P\<lparr>mHandleToObject := mHandleToObject P
             @ replicate (unat h + 1 - length (mHandleToObject P)) \<lparr>e_proxy = None, e_refs = None\<rparr>\<rparr>)
      else None)"

definition put_bp :: "u64 \<Rightarrow> bp_binder \<Rightarrow> proxies \<Rightarrow> proxies" where
  "put_bp a b P = P\<lparr>bps := (bps P)(a \<mapsto> b)\<rparr>"

text \<open>
  The proxy that the table has for a handle, with a weak reference on it taken by \<open>attemptIncWeak\<close>; \<open>Some None\<close> when there is none
  or it is about to be deleted.
\<close>

definition current_proxy :: "u32 \<Rightarrow> proxies \<Rightarrow> (u64 \<times> bp_binder) option option" where
  "current_proxy h P = (let e = mHandleToObject P ! unat h in
     case e_proxy e of
       None \<Rightarrow> Some None
     | Some a \<Rightarrow> do {
         ra \<leftarrow> e_refs e;
         b \<leftarrow> bps P ra;
         case attemptIncWeak (counts b) of None \<Rightarrow> Some None | Some r \<Rightarrow> Some (Some (a, b\<lparr>counts := r\<rparr>)) })"

definition new_proxy :: "u32 \<Rightarrow> u64 \<Rightarrow> bp_binder \<Rightarrow> proxies \<Rightarrow> proxies" where
  "new_proxy h a b P = put_bp a b (P\<lparr>mHandleToObject := (mHandleToObject P)[unat h := \<lparr>e_proxy = Some a, e_refs = Some a\<rparr>]\<rparr>)"

text \<open>
  \<open>a\<close> is the address that \<open>new\<close> returns. \<open>ping\<close> is the result of the dummy transaction for handle 0. The result is a strong pointer: its reference
  is taken before the weak one of the attempt is dropped.
\<close>

definition getStrongProxyForHandle :: "(nat \<Rightarrow> bool) \<Rightarrow> int \<Rightarrow> u64 \<Rightarrow> u32 \<Rightarrow> proxies \<Rightarrow> (u64 option \<times> ask list \<times> proxies) option" where
  "getStrongProxyForHandle grows ping a h P = (case lookupHandleLocked grows h P of
       None \<Rightarrow> Some (None, [], P)
     | Some P1 \<Rightarrow> do {
         cur \<leftarrow> current_proxy h P1;
         case cur of
           None \<Rightarrow>
             if h = 0 \<and> ping = DEAD_OBJECT then Some (None, [], P1)
             else let (b, out) = BpBinder h; (r, first) = incStrong (counts b); b1 = b\<lparr>counts := r\<rparr>
                  in Some (Some a, out @ (if first then onFirstRef b1 else []), new_proxy h a b1 P1)
         | Some (a', b) \<Rightarrow>
             let (r, first) = forceIncStrong (counts b); b1 = b\<lparr>counts := fst (decWeak r)\<rparr>
             in Some (Some a', if first then onFirstRef b1 else [], put_bp a' b1 P1) })"

definition getWeakProxyForHandle :: "(nat \<Rightarrow> bool) \<Rightarrow> u64 \<Rightarrow> u32 \<Rightarrow> proxies \<Rightarrow> (u64 option \<times> ask list \<times> proxies) option" where
  "getWeakProxyForHandle grows a h P = (case lookupHandleLocked grows h P of
       None \<Rightarrow> Some (None, [], P)
     | Some P1 \<Rightarrow> do {
         cur \<leftarrow> current_proxy h P1;
         case cur of
           None \<Rightarrow> let (b, out) = BpBinder h in Some (Some a, out, new_proxy h a (b\<lparr>counts := incWeak (counts b)\<rparr>) P1)
         | Some (a', b) \<Rightarrow> Some (Some a', [], put_bp a' (b\<lparr>counts := fst (decWeak (incWeak (counts b)))\<rparr>) P1) })"

definition expungeHandle :: "(nat \<Rightarrow> bool) \<Rightarrow> u32 \<Rightarrow> u64 \<Rightarrow> proxies \<Rightarrow> proxies" where
  "expungeHandle grows h a P = (case lookupHandleLocked grows h P of
       None \<Rightarrow> P
     | Some P1 \<Rightarrow>
         let e = mHandleToObject P1 ! unat h
         in if e_proxy e = Some a then P1\<lparr>mHandleToObject := (mHandleToObject P1)[unat h := e\<lparr>e_proxy := None\<rparr>]\<rparr> else P1)"

text \<open>The destructor; afterwards the memory is free.\<close>

definition delete_BpBinder :: "(nat \<Rightarrow> bool) \<Rightarrow> u64 \<Rightarrow> proxies \<Rightarrow> (ask list \<times> proxies) option" where
  "delete_BpBinder grows a P = do {
     b \<leftarrow> bps P a;
     let out = (if mObituaries b \<noteq> None then clearDeathNotification (mHandle b) a else []);
         P1 = expungeHandle grows (mHandle b) a P
     in Some (out @ decWeakHandle (mHandle b), P1\<lparr>bps := (bps P1)(a := None)\<rparr>) }"

section \<open>References of clients\<close>

definition copy_strong :: "u64 \<Rightarrow> proxies \<Rightarrow> (ask list \<times> proxies) option" where
  "copy_strong a P = do {
     b \<leftarrow> bps P a;
     let (r, first) = incStrong (counts b) in Some (if first then onFirstRef b else [], put_bp a (b\<lparr>counts := r\<rparr>) P) }"

definition copy_weak :: "u64 \<Rightarrow> proxies \<Rightarrow> proxies option" where
  "copy_weak a P = do { b \<leftarrow> bps P a; Some (put_bp a (b\<lparr>counts := incWeak (counts b)\<rparr>) P) }"

text \<open>Dropping a weak reference; the answer is whether it was the last one, and the proxy is to be deleted.\<close>

definition drop_weak :: "u64 \<Rightarrow> proxies \<Rightarrow> (bool \<times> proxies) option" where
  "drop_weak a P = do { b \<leftarrow> bps P a; let (r, last) = decWeak (counts b) in Some (last, put_bp a (b\<lparr>counts := r\<rparr>) P) }"

definition drop_strong :: "u64 \<Rightarrow> proxies \<Rightarrow> (bool \<times> ask list \<times> proxies) option" where
  "drop_strong a P = do {
     b \<leftarrow> bps P a;
     let (r, last) = decStrong (counts b); b1 = b\<lparr>counts := r\<rparr>;
         (r1, gone) = decWeak r
     in Some (gone, if last then onLastStrongRef b1 else [], put_bp a (b1\<lparr>counts := r1\<rparr>) P) }"

definition promote :: "u64 \<Rightarrow> proxies \<Rightarrow> (bool \<times> proxies) option" where
  "promote a P = do {
     b \<leftarrow> bps P a;
     Some (case attemptIncStrong (mHandle b) (counts b) of None \<Rightarrow> (False, P) | Some r \<Rightarrow> (True, put_bp a (b\<lparr>counts := r\<rparr>) P)) }"

end
