(* ===== verification/Proxy_Run.thy ===== *)
theory Proxy_Run
  imports Proxy
begin

text \<open>
  The threads of a process at work on its proxies: who holds references, and every order in which lookups, copies, drops, deletions,
  death notifications and their ends can happen. The invariant ties the counters, the table, the commands sent and the obituaries together.
\<close>

section \<open>Runs\<close>

text \<open>
  References to one proxy: strong and weak pointers of clients; requested death notifications, each of which holds a weak reference until
  the driver confirms that it is cleared; how many of these have been cleared without confirmation; how many deaths are being reported.
\<close>

record holders =
  strong_of :: nat
  weak_of :: nat
  requests :: nat
  clearing :: nat
  reporting :: nat

abbreviation nobody :: holders where
  "nobody \<equiv> \<lparr>strong_of = 0, weak_of = 0, requests = 0, clearing = 0, reporting = 0\<rparr>"

text \<open>\<open>sent\<close> lists the commands of all threads; the rest says what became of every obituary.\<close>

record clients =
  px :: proxies
  held :: "u64 \<Rightarrow> holders"
  sent :: "command list"
  linked :: "(u64 \<times> obituary) multiset"
  unlinked :: "(u64 \<times> obituary) multiset"
  telling :: "(u64 \<times> obituary) multiset"
  told :: "(u64 \<times> obituary) multiset"

definition start_clients :: clients where
  "start_clients = \<lparr>px = no_proxies, held = (\<lambda>_. nobody), sent = [], linked = {#}, unlinked = {#}, telling = {#}, told = {#}\<rparr>"

fun cmds :: "ask list \<Rightarrow> command list" where
  "cmds [] = []"
| "cmds (Cmd c # out) = c # cmds out"
| "cmds (Flush # out) = cmds out"

text \<open>There are fewer than \<open>2 ^ 27\<close> references to a proxy.\<close>

definition few :: "clients \<Rightarrow> bool" where
  "few c \<longleftrightarrow> (\<forall>b \<in> ran (bps (px c)). mWeak (counts b) < 2 ^ 27)"

definition hold :: "u64 \<Rightarrow> (holders \<Rightarrow> holders) \<Rightarrow> clients \<Rightarrow> clients" where
  "hold a f c = c\<lparr>held := (held c)(a := f (held c a))\<rparr>"

fun gained :: "(holders \<Rightarrow> holders) \<Rightarrow> u64 option \<Rightarrow> clients \<Rightarrow> clients" where
  "gained f None c = c"
| "gained f (Some a) c = hold a f c"

definition more_strong :: "holders \<Rightarrow> holders" where "more_strong h = h\<lparr>strong_of := strong_of h + 1\<rparr>"
definition more_weak :: "holders \<Rightarrow> holders" where "more_weak h = h\<lparr>weak_of := weak_of h + 1\<rparr>"
definition less_strong :: "holders \<Rightarrow> holders" where "less_strong h = h\<lparr>strong_of := strong_of h - 1\<rparr>"
definition less_weak :: "holders \<Rightarrow> holders" where "less_weak h = h\<lparr>weak_of := weak_of h - 1\<rparr>"
definition requested :: "bool \<Rightarrow> holders \<Rightarrow> holders" where "requested yes h = h\<lparr>requests := requests h + of_bool yes\<rparr>"
definition cleared :: "bool \<Rightarrow> holders \<Rightarrow> holders" where "cleared yes h = h\<lparr>clearing := clearing h + of_bool yes\<rparr>"
definition confirmed :: "holders \<Rightarrow> holders" where "confirmed h = h\<lparr>requests := requests h - 1, clearing := clearing h - 1\<rparr>"
definition more_reports :: "holders \<Rightarrow> holders" where "more_reports h = h\<lparr>reporting := reporting h + 1\<rparr>"
definition less_reports :: "holders \<Rightarrow> holders" where "less_reports h = h\<lparr>reporting := reporting h - 1\<rparr>"

lemmas holder_defs = more_strong_def more_weak_def less_strong_def less_weak_def requested_def cleared_def confirmed_def
  more_reports_def less_reports_def

definition goes :: "proxies \<Rightarrow> ask list \<Rightarrow> clients \<Rightarrow> clients" where
  "goes P out c = c\<lparr>px := P, sent := sent c @ cmds out\<rparr>"

text \<open>
  Clients use references that they hold; \<open>new\<close> returns free memory. The driver reports a death for a notification that it has not confirmed as cleared, and confirms
  none of which it is reporting the death. The check of \<open>mObitsSent\<close> in \<open>sendObituary\<close> is made without the lock, so that
  two reports may both pass it.
\<close>

inductive client_step :: "clients \<Rightarrow> clients \<Rightarrow> bool" where
  gets_strong: "few c \<Longrightarrow> bps (px c) a = None \<Longrightarrow> getStrongProxyForHandle grows ping a h (px c) = Some (res, out, P) \<Longrightarrow>
    client_step c (goes P out (gained more_strong res c))"
| gets_weak: "few c \<Longrightarrow> bps (px c) a = None \<Longrightarrow> getWeakProxyForHandle grows a h (px c) = Some (res, out, P) \<Longrightarrow>
    client_step c (goes P out (gained more_weak res c))"
| copies_strong: "few c \<Longrightarrow> 0 < strong_of (held c a) \<Longrightarrow> copy_strong a (px c) = Some (out, P) \<Longrightarrow>
    client_step c (goes P out (hold a more_strong c))"
| copies_weak: "few c \<Longrightarrow> 0 < strong_of (held c a) + weak_of (held c a) \<Longrightarrow> copy_weak a (px c) = Some P \<Longrightarrow>
    client_step c (goes P [] (hold a more_weak c))"
| drops_strong: "0 < strong_of (held c a) \<Longrightarrow> drop_strong a (px c) = Some (gone, out, P) \<Longrightarrow>
    client_step c (goes P out (hold a less_strong c))"
| drops_weak: "0 < weak_of (held c a) \<Longrightarrow> drop_weak a (px c) = Some (gone, P) \<Longrightarrow>
    client_step c (goes P [] (hold a less_weak c))"
| promotes: "few c \<Longrightarrow> 0 < weak_of (held c a) \<Longrightarrow> promote a (px c) = Some (ok, P) \<Longrightarrow>
    client_step c (goes P [] (if ok then hold a more_strong c else c))"
| deletes: "bps (px c) a = Some b \<Longrightarrow> mWeak (counts b) = 0 \<Longrightarrow> delete_BpBinder grows a (px c) = Some (out, P) \<Longrightarrow>
    client_step c (goes P out c)"
| links: "few c \<Longrightarrow> 0 < strong_of (held c a) \<Longrightarrow> bps (px c) a = Some b \<Longrightarrow> linkToDeath room a ob b = (st, out, b') \<Longrightarrow>
    client_step c (goes (put_bp a b' (px c)) out
      ((hold a (requested (out \<noteq> [])) c)\<lparr>linked := linked c + (if st = 0 then {#(a, ob)#} else {#})\<rparr>))"
| unlinks: "0 < strong_of (held c a) \<Longrightarrow> bps (px c) a = Some b \<Longrightarrow> unlinkToDeath a recipient cookie flags b = (st, res, out, b') \<Longrightarrow>
    client_step c (goes (put_bp a b' (px c)) out
      ((hold a (cleared (out \<noteq> [])) c)\<lparr>unlinked := unlinked c + (case res of None \<Rightarrow> {#} | Some ob \<Rightarrow> {#(a, ob)#})\<rparr>))"
| dies: "reporting (held c a) < requests (held c a) \<Longrightarrow> bps (px c) a = Some b \<Longrightarrow>
    sendObituary a b = (obs, out, b') \<or> take_obituaries a (b\<lparr>mAlive := False\<rparr>) = (obs, out, b') \<Longrightarrow>
    client_step c (goes (put_bp a b' (px c)) out
      ((hold a (more_reports \<circ> cleared (out \<noteq> [])) c)\<lparr>telling := telling c + image_mset (Pair a) (mset obs)\<rparr>))"
| tells: "(a, ob) \<in># telling c \<Longrightarrow> client_step c (c\<lparr>telling := telling c - {#(a, ob)#}, told := add_mset (a, ob) (told c)\<rparr>)"
| reported: "0 < reporting (held c a) \<Longrightarrow> reporting (held c a) = 1 \<longrightarrow> (\<forall>ob. (a, ob) \<notin># telling c) \<Longrightarrow>
    client_step c (goes (px c) [Cmd (C_Dead_Done a)] (hold a less_reports c))"
| confirms: "0 < clearing (held c a) \<Longrightarrow> reporting (held c a) < requests (held c a) \<Longrightarrow> drop_weak a (px c) = Some (gone, P) \<Longrightarrow>
    client_step c (goes P [] (hold a confirmed c))"

abbreviation client_steps :: "clients \<Rightarrow> clients \<Rightarrow> bool" where
  "client_steps \<equiv> client_step\<^sup>*\<^sup>*"

section \<open>One proxy\<close>

definition bp_ok :: "holders \<Rightarrow> bp_binder \<Rightarrow> bool" where
  "bp_ok h b \<longleftrightarrow>
     mWeak (counts b) = int (strong_of h + weak_of h + requests h) \<and> mWeak (counts b) \<le> 2 ^ 27
   \<and> (mStrong (counts b) = INITIAL_STRONG_VALUE \<and> strong_of h = 0 \<or> mStrong (counts b) = int (strong_of h))
   \<and> taken (counts b) = of_bool (0 < strong_of h)
   \<and> requests h = of_bool (mObituaries b \<noteq> None) + clearing h
   \<and> (mObitsSent b \<longrightarrow> mObituaries b = None)
   \<and> reporting h \<le> requests h"

lemma bp_okD:
  assumes "bp_ok h b"
  shows "mWeak (counts b) = int (strong_of h + weak_of h + requests h)" and "mWeak (counts b) \<le> 2 ^ 27"
    and "mStrong (counts b) = INITIAL_STRONG_VALUE \<and> strong_of h = 0 \<or> mStrong (counts b) = int (strong_of h)"
    and "taken (counts b) = of_bool (0 < strong_of h)" and "requests h = of_bool (mObituaries b \<noteq> None) + clearing h"
    and "mObitsSent b \<Longrightarrow> mObituaries b = None" and "reporting h \<le> requests h"
  using assms by (auto simp: bp_ok_def)

lemma bp_unused:
  assumes "bp_ok h b" and "mWeak (counts b) \<le> 0"
  shows "h = nobody" and "mObituaries b = None" and "mWeak (counts b) = 0"
proof -
  have "strong_of h + weak_of h + requests h = 0" using bp_okD(1) [OF assms(1)] assms(2) by linarith
  then show "h = nobody" "mObituaries b = None" "mWeak (counts b) = 0"
    using bp_okD(1,5,7) [OF assms(1)] by (cases h; cases "mObituaries b"; simp)+
qed

lemmas ref_ops = incWeak_def attemptIncWeak_def decWeak_def first_ref_def last_ref_def incStrong_def forceIncStrong_def decStrong_def
  attemptIncStrong_def attemptIncStrongHandle_def add_strong_def add_weak_def

text \<open>A count in use stays far from the ends of its type.\<close>

lemma int32_small [simp]: "\<bar>n\<bar> \<le> 2 ^ 29 \<Longrightarrow> int32 n = n"
  by (rule int32_id) (auto simp: abs_le_iff)

lemma incStrong_bp:
  assumes "bp_ok h b" and "mWeak (counts b) < 2 ^ 27" and "0 < strong_of h"
  shows "bp_ok (more_strong h) (b\<lparr>counts := fst (incStrong (counts b))\<rparr>)" and "\<not> snd (incStrong (counts b))"
    and "taken (fst (incStrong (counts b))) = taken (counts b)"
  using assms by (auto simp: bp_ok_def ref_ops holder_defs Let_def)

lemma incWeak_bp:
  assumes "bp_ok h b" and "mWeak (counts b) < 2 ^ 27"
  shows "bp_ok (more_weak h) (b\<lparr>counts := incWeak (counts b)\<rparr>)"
  using assms by (auto simp: bp_ok_def ref_ops holder_defs)

lemma promote_bp:
  assumes "bp_ok h b" and "mWeak (counts b) < 2 ^ 27" and "attemptIncStrong hh (counts b) = Some r"
  shows "bp_ok (more_strong h) (b\<lparr>counts := r\<rparr>)" and "taken r = taken (counts b)" and "0 < strong_of h"
  using assms by (auto simp: bp_ok_def ref_ops holder_defs split: if_splits)

lemma force_bp:
  assumes "bp_ok h b" and "mWeak (counts b) < 2 ^ 27" and "attemptIncWeak (counts b) = Some r"
  shows "bp_ok (more_strong h) (b\<lparr>counts := fst (decWeak (fst (forceIncStrong r)))\<rparr>)"
    and "taken (fst (decWeak (fst (forceIncStrong r)))) = taken (counts b) + of_bool (snd (forceIncStrong r))"
  using assms by (auto simp: bp_ok_def ref_ops holder_defs Let_def split: if_splits)

lemma attempt_bp:
  assumes "bp_ok h b" and "mWeak (counts b) < 2 ^ 27" and "attemptIncWeak (counts b) = Some r"
  shows "bp_ok (more_weak h) (b\<lparr>counts := fst (decWeak (incWeak r))\<rparr>)" and "taken (fst (decWeak (incWeak r))) = taken (counts b)"
  using assms by (auto simp: bp_ok_def ref_ops holder_defs split: if_splits)

lemma decStrong_bp:
  assumes "bp_ok h b" and "0 < strong_of h"
  shows "bp_ok (less_strong h) (b\<lparr>counts := fst (decWeak (fst (decStrong (counts b))))\<rparr>)"
    and "taken (fst (decWeak (fst (decStrong (counts b))))) = taken (counts b) - of_bool (snd (decStrong (counts b)))"
  using assms by (auto simp: bp_ok_def ref_ops holder_defs Let_def of_nat_diff)

lemma decWeak_bp:
  assumes "bp_ok h b" and "0 < weak_of h"
  shows "bp_ok (less_weak h) (b\<lparr>counts := fst (decWeak (counts b))\<rparr>)"
  using assms by (auto simp: bp_ok_def ref_ops holder_defs of_nat_diff)

lemma confirm_bp:
  assumes "bp_ok h b" and "0 < clearing h" and "reporting h < requests h"
  shows "bp_ok (confirmed h) (b\<lparr>counts := fst (decWeak (counts b))\<rparr>)"
  using assms by (auto simp: bp_ok_def ref_ops holder_defs of_nat_diff)

lemma new_bp: "bp_ok (more_strong nobody) ((fst (BpBinder hh))\<lparr>counts := fst (incStrong (counts (fst (BpBinder hh))))\<rparr>)"
    "bp_ok (more_weak nobody) ((fst (BpBinder hh))\<lparr>counts := incWeak (counts (fst (BpBinder hh)))\<rparr>)"
  by (auto simp: bp_ok_def ref_ops holder_defs BpBinder_def RefBase_def)

lemma link_bp:
  assumes "bp_ok h b" and "mWeak (counts b) < 2 ^ 27" and "linkToDeath room a ob b = (st, out, b')"
  shows "bp_ok (requested (out \<noteq> []) h) b'" and "mHandle b' = mHandle b" and "taken (counts b') = taken (counts b)"
  using assms by (auto simp: linkToDeath_def bp_ok_def requestDeathNotification_def ref_ops holder_defs split: if_splits option.splits)

lemma unlink_bp:
  assumes "bp_ok h b" and "unlinkToDeath a recipient cookie flags b = (st, res, out, b')"
  shows "bp_ok (cleared (out \<noteq> []) h) b'" and "mHandle b' = mHandle b" and "counts b' = counts b"
  using assms by (auto simp: unlinkToDeath_def bp_ok_def clearDeathNotification_def holder_defs split: if_splits option.splits list.splits)

lemma die_bp:
  assumes "bp_ok h b" and "reporting h < requests h" and "take_obituaries a (b\<lparr>mAlive := False\<rparr>) = (obs, out, b')"
  shows "bp_ok (more_reports (cleared (out \<noteq> []) h)) b'" and "mHandle b' = mHandle b" and "counts b' = counts b"
  using assms by (auto simp: take_obituaries_def bp_ok_def clearDeathNotification_def holder_defs split: option.splits)

text \<open>Passing the check in \<open>sendObituary\<close> or not makes no difference.\<close>

lemma send_takes: "bp_ok h b \<Longrightarrow> sendObituary a b = take_obituaries a (b\<lparr>mAlive := False\<rparr>)"
  by (auto simp: sendObituary_def take_obituaries_def bp_ok_def split: option.splits)

end
