(* ===== verification/Proxy_Inv.thy ===== *)
theory Proxy_Inv
  imports Proxy_Run
begin

text \<open>
  The invariant of all proxies and the table, and the effect that each step has on one of them: the commands that it sends,
  and what it does to obituaries.
\<close>

section \<open>Table and proxies\<close>

definition table_ok :: "proxies \<Rightarrow> bool" where
  "table_ok P \<longleftrightarrow> (\<forall>i < length (mHandleToObject P). \<forall>a. e_proxy (mHandleToObject P ! i) = Some a \<longrightarrow>
     e_refs (mHandleToObject P ! i) = Some a \<and> (\<exists>b. bps P a = Some b \<and> unat (mHandle b) = i))"

text \<open>A proxy with references is the one that the table has for its handle.\<close>

definition entered :: "proxies \<Rightarrow> u64 \<Rightarrow> bp_binder \<Rightarrow> bool" where
  "entered P a b \<longleftrightarrow> unat (mHandle b) < length (mHandleToObject P)
     \<and> (0 < mWeak (counts b) \<longrightarrow> mHandleToObject P ! unat (mHandle b) = \<lparr>e_proxy = Some a, e_refs = Some a\<rparr>)"

definition proxies_ok :: "proxies \<Rightarrow> (u64 \<Rightarrow> holders) \<Rightarrow> bool" where
  "proxies_ok P H \<longleftrightarrow> finite (dom (bps P)) \<and> table_ok P \<and> (\<forall>a. bps P a = None \<longrightarrow> H a = nobody)
     \<and> (\<forall>a b. bps P a = Some b \<longrightarrow> bp_ok (H a) b \<and> entered P a b)"

lemma same_handle: "unat (x :: u32) = unat y \<longleftrightarrow> x = y"
  by (simp add: word_unat_eq_iff)

lemma proxies_okD:
  assumes "proxies_ok P H"
  shows "finite (dom (bps P))" and "table_ok P" and "bps P a = None \<Longrightarrow> H a = nobody"
    and "bps P a = Some b \<Longrightarrow> bp_ok (H a) b" and "bps P a = Some b \<Longrightarrow> entered P a b"
  using assms by (auto simp: proxies_ok_def)

lemma held_exists:
  assumes "proxies_ok P H" and "H a \<noteq> nobody"
  obtains b where "bps P a = Some b" and "bp_ok (H a) b" and "entered P a b"
  using assms by (cases "bps P a") (auto simp: proxies_ok_def)

lemma put_ok:
  assumes "proxies_ok P H" and "bps P a = Some b" and "mHandle b' = mHandle b" and "bp_ok h b'"
    and "0 < mWeak (counts b') \<Longrightarrow> 0 < mWeak (counts b)"
  shows "proxies_ok (put_bp a b' P) (H(a := h))"
  using assms unfolding proxies_ok_def table_ok_def entered_def put_bp_def by auto

lemma lookup_ok:
  assumes "proxies_ok P H" and "lookupHandleLocked grows h P = Some P1"
  shows "proxies_ok P1 H" and "unat h < length (mHandleToObject P1)" and "bps P1 = bps P"
proof -
  show "unat h < length (mHandleToObject P1)" "bps P1 = bps P" using assms(2) by (auto simp: lookupHandleLocked_def split: if_splits)
  show "proxies_ok P1 H"
  proof (cases "unat h < length (mHandleToObject P)")
    case True
    then show ?thesis using assms by (simp add: lookupHandleLocked_def)
  next
    case False
    then have P1: "P1 = P\<lparr>mHandleToObject := mHandleToObject P
        @ replicate (unat h + 1 - length (mHandleToObject P)) \<lparr>e_proxy = None, e_refs = None\<rparr>\<rparr>"
      using assms(2) by (auto simp: lookupHandleLocked_def split: if_splits)
    have "table_ok P1" using proxies_okD(2) [OF assms(1)] unfolding table_ok_def P1 by (auto simp: nth_append)
    moreover have "entered P1 a b" if "bps P a = Some b" for a b
      using proxies_okD(5) [OF assms(1) that] unfolding entered_def P1 by (auto simp: nth_append)
    ultimately show ?thesis using assms(1) unfolding proxies_ok_def by (simp add: P1)
  qed
qed

lemma current_ok:
  assumes "proxies_ok P H" and "unat h < length (mHandleToObject P)"
  shows "(\<exists>a b r. current_proxy h P = Some (Some (a, b\<lparr>counts := r\<rparr>)) \<and> bps P a = Some b \<and> attemptIncWeak (counts b) = Some r \<and> mHandle b = h)
    \<or> current_proxy h P = Some None \<and> (\<forall>a b. bps P a = Some b \<longrightarrow> mHandle b = h \<longrightarrow> mWeak (counts b) = 0)"
proof (cases "e_proxy (mHandleToObject P ! unat h)")
  case None
  have "mWeak (counts b) = 0" if "bps P a = Some b" "mHandle b = h" for a b
    using bp_unused(3) [OF proxies_okD(4) [OF assms(1) that(1)]] proxies_okD(5) [OF assms(1) that(1)] None that(2)
    by (fastforce simp: entered_def)
  then show ?thesis using None by (simp add: current_proxy_def)
next
  case (Some a)
  then obtain b where b: "e_refs (mHandleToObject P ! unat h) = Some a" "bps P a = Some b" "mHandle b = h"
    using proxies_okD(2) [OF assms(1), unfolded table_ok_def, rule_format, OF assms(2) Some] by (auto simp: same_handle)
  have other: "mWeak (counts b') = 0" if "\<not> 0 < mWeak (counts b)" "bps P a' = Some b'" "mHandle b' = h" for a' b'
  proof (cases "a' = a")
    case True
    then show ?thesis using that b bp_unused(3) [OF proxies_okD(4) [OF assms(1) that(2)]] by simp
  next
    case False
    then show ?thesis using bp_unused(3) [OF proxies_okD(4) [OF assms(1) that(2)]] proxies_okD(5) [OF assms(1) that(2)] that(3) Some
      by (fastforce simp: entered_def)
  qed
  show ?thesis using Some b other by (cases "0 < mWeak (counts b)") (auto simp: current_proxy_def attemptIncWeak_def)
qed

lemma new_ok:
  assumes "proxies_ok P H" and "bps P a = None" and "unat h < length (mHandleToObject P)" and "mHandle b = h" and "bp_ok hd' b"
    and "\<And>a b. bps P a = Some b \<Longrightarrow> mHandle b = h \<Longrightarrow> mWeak (counts b) = 0"
  shows "proxies_ok (new_proxy h a b P) (H(a := hd'))"
proof -
  let ?tab = "(mHandleToObject P)[unat h := \<lparr>e_proxy = Some a, e_refs = Some a\<rparr>]"
  have "table_ok (new_proxy h a b P)"
    using proxies_okD(2) [OF assms(1)] assms(2-4) unfolding table_ok_def new_proxy_def put_bp_def by (auto simp: nth_list_update)
  moreover have "entered (new_proxy h a b P) x y" if "bps P x = Some y" for x y
    using proxies_okD(5) [OF assms(1) that] assms(6) [OF that] assms(3) unfolding entered_def new_proxy_def put_bp_def
    by (auto simp: nth_list_update same_handle)
  moreover have "entered (new_proxy h a b P) a b" using assms(3,4) unfolding entered_def new_proxy_def put_bp_def by simp
  ultimately show ?thesis using assms(1,5) unfolding proxies_ok_def new_proxy_def put_bp_def by auto
qed

lemma delete_ok:
  assumes "proxies_ok P H" and "bps P a = Some b" and "mWeak (counts b) = 0"
  obtains P1 where "delete_BpBinder grows a P = Some (decWeakHandle (mHandle b), P1)" and "proxies_ok P1 H" and "bps P1 = (bps P)(a := None)"
    and "mObituaries b = None"
proof -
  note ok = proxies_okD(4,5) [OF assms(1,2)]
  have nobody: "H a = nobody" "mObituaries b = None" using bp_unused(1,2) [OF ok(1)] assms(3) by simp_all
  define P1 where "P1 = (expungeHandle grows (mHandle b) a P)\<lparr>bps := (bps P)(a := None)\<rparr>"
  have look: "lookupHandleLocked grows (mHandle b) P = Some P" using ok(2) by (simp add: lookupHandleLocked_def entered_def)
  have keep: "bps (expungeHandle grows (mHandle b) a P) = bps P" using look by (simp add: expungeHandle_def Let_def)
  let ?i = "unat (mHandle b)"
  have tab: "mHandleToObject P1 ! i = (if i = ?i \<and> e_proxy (mHandleToObject P ! i) = Some a
      then (mHandleToObject P ! i)\<lparr>e_proxy := None\<rparr> else mHandleToObject P ! i)" if "i < length (mHandleToObject P)" for i
    using that look by (auto simp: P1_def expungeHandle_def Let_def nth_list_update)
  have len: "length (mHandleToObject P1) = length (mHandleToObject P)" using look by (simp add: P1_def expungeHandle_def Let_def)
  have bps1: "bps P1 = (bps P)(a := None)" by (simp add: P1_def)
  have "table_ok P1" unfolding table_ok_def len
  proof (intro allI impI)
    fix i x assume i: "i < length (mHandleToObject P)" and x: "e_proxy (mHandleToObject P1 ! i) = Some x"
    then have old: "mHandleToObject P1 ! i = mHandleToObject P ! i" "e_proxy (mHandleToObject P ! i) = Some x" by (auto simp: tab split: if_splits)
    note entry = proxies_okD(2) [OF assms(1), unfolded table_ok_def, rule_format, OF i old(2)]
    have "x \<noteq> a"
    proof
      assume "x = a"
      then have "i = ?i" using entry assms(2) by simp
      then have "e_proxy (mHandleToObject P1 ! i) = None" using tab [OF i] old(2) \<open>x = a\<close> by simp
      then show False using x by simp
    qed
    then show "e_refs (mHandleToObject P1 ! i) = Some x \<and> (\<exists>y. bps P1 x = Some y \<and> unat (mHandle y) = i)" using entry old(1) by (simp add: bps1)
  qed
  moreover have "entered P1 x y" if "bps P x = Some y" "x \<noteq> a" for x y
    using proxies_okD(5) [OF assms(1) that(1)] that(2) unfolding entered_def len by (auto simp: tab)
  ultimately have "proxies_ok P1 H" using assms(1,2) nobody(1) unfolding proxies_ok_def by (auto simp: P1_def)
  moreover have "delete_BpBinder grows a P = Some (decWeakHandle (mHandle b), P1)"
    using assms(2) nobody(2) keep by (simp add: delete_BpBinder_def P1_def)
  ultimately show ?thesis using that [of P1] nobody(2) by (simp add: P1_def)
qed

section \<open>The effect of a step\<close>

definition net :: "(u32 \<Rightarrow> command) \<Rightarrow> (u32 \<Rightarrow> command) \<Rightarrow> u32 \<Rightarrow> command list \<Rightarrow> int" where
  "net up down h cs = int (count_list cs (up h)) - int (count_list cs (down h))"

lemma net_append [simp]: "net up down h (cs @ ds) = net up down h cs + net up down h ds"
  by (simp add: net_def)

lemma net_Nil [simp]: "net up down h [] = 0"
  by (simp add: net_def)

text \<open>What the proxy at an address stands for in the driver: a weak reference, a strong one, a death notification.\<close>

fun weak_at :: "u32 \<Rightarrow> bp_binder option \<Rightarrow> int" where
  "weak_at h None = 0"
| "weak_at h (Some b) = of_bool (mHandle b = h)"

fun strong_at :: "u32 \<Rightarrow> bp_binder option \<Rightarrow> int" where
  "strong_at h None = 0"
| "strong_at h (Some b) = (if mHandle b = h then taken (counts b) else 0)"

fun death_at :: "u32 \<Rightarrow> bp_binder option \<Rightarrow> int" where
  "death_at h None = 0"
| "death_at h (Some b) = of_bool (mHandle b = h \<and> mObituaries b \<noteq> None)"

fun obits_at :: "bp_binder option \<Rightarrow> obituary multiset" where
  "obits_at None = {#}"
| "obits_at (Some b) = (case mObituaries b of None \<Rightarrow> {#} | Some obs \<Rightarrow> mset obs)"

definition deaths :: "u32 \<Rightarrow> u64 \<Rightarrow> command list \<Rightarrow> int" where
  "deaths h a = net (\<lambda>h. C_Request_Death h a) (\<lambda>h. C_Clear_Death h a) h"

text \<open>The commands \<open>cs\<close> of a step say how the proxy at \<open>a\<close> changes from \<open>x\<close> to \<open>y\<close>.\<close>

definition tells_driver :: "command list \<Rightarrow> u64 \<Rightarrow> bp_binder option \<Rightarrow> bp_binder option \<Rightarrow> bool" where
  "tells_driver cs a x y \<longleftrightarrow>
     (\<forall>h. net C_Increfs C_Decrefs h cs = weak_at h y - weak_at h x \<and> net C_Acquire C_Release h cs = strong_at h y - strong_at h x
        \<and> (\<forall>a'. deaths h a' cs = (if a' = a then death_at h y - death_at h x else 0)))"

text \<open>Where obituaries go in a step.\<close>

definition obits_kept :: "clients \<Rightarrow> clients \<Rightarrow> u64 \<Rightarrow> bp_binder option \<Rightarrow> bp_binder option \<Rightarrow> bool" where
  "obits_kept c c' a x y \<longleftrightarrow> (\<exists>new. linked c' = linked c + new \<and>
     unlinked c' + telling c' + told c' + image_mset (Pair a) (obits_at y)
       = unlinked c + telling c + told c + image_mset (Pair a) (obits_at x) + new)"

definition effect :: "clients \<Rightarrow> clients \<Rightarrow> bool" where
  "effect c c' \<longleftrightarrow> (\<exists>a y cs. bps (px c') = (bps (px c))(a := y) \<and> sent c' = sent c @ cs
     \<and> tells_driver cs a (bps (px c) a) y \<and> obits_kept c c' a (bps (px c) a) y)"

lemmas ask_defs = incStrongHandle_def decStrongHandle_def incWeakHandle_def decWeakHandle_def requestDeathNotification_def
  clearDeathNotification_def onFirstRef_def onLastStrongRef_def

lemmas effect_defs = tells_driver_def deaths_def net_def

text \<open>Steps that touch neither obituaries nor the notification.\<close>

lemma counts_effect:
  assumes "bps (px c) a = Some b" and "b' = b\<lparr>counts := r\<rparr>" and "taken r = taken (counts b) + net C_Acquire C_Release (mHandle b) cs"
    and "cs \<in> {[], [C_Acquire (mHandle b)], [C_Release (mHandle b)]}"
  shows "tells_driver cs a (bps (px c) a) (Some b')"
  using assms by (auto simp: effect_defs)

lemma obits_same: "linked c' = linked c \<Longrightarrow> unlinked c' = unlinked c \<Longrightarrow> telling c' = telling c \<Longrightarrow> told c' = told c \<Longrightarrow>
    obits_at y = obits_at x \<Longrightarrow> obits_kept c c' a x y"
  by (simp add: obits_kept_def)

lemma tells_nothing: "tells_driver [] a x x"
  by (simp add: effect_defs)

lemma take_obit_mset: "take_obit f obs = Some (ob, rest) \<Longrightarrow> mset obs = add_mset ob (mset rest)"
  by (induction obs arbitrary: rest) (auto split: if_splits)

section \<open>Steps\<close>

definition run_ok :: "clients \<Rightarrow> bool" where
  "run_ok c \<longleftrightarrow> proxies_ok (px c) (held c) \<and> (\<forall>a ob. (a, ob) \<in># telling c \<longrightarrow> 0 < reporting (held c a))"

lemma few_weak: "few c \<Longrightarrow> bps (px c) a = Some b \<Longrightarrow> mWeak (counts b) < 2 ^ 27"
  by (auto simp: few_def ran_def)

text \<open>A step that replaces one proxy.\<close>

lemma put_step:
  assumes "run_ok c" and "bps (px c) a = Some b" and "mHandle b' = mHandle b" and "bp_ok (f (held c a)) b'"
    and "0 < mWeak (counts b') \<Longrightarrow> 0 < mWeak (counts b)" and "reporting (held c a) \<le> reporting (f (held c a))"
    and "tells_driver (cmds out) a (Some b) (Some b')"
    and "c' = goes (put_bp a b' (px c)) out ((hold a f c)\<lparr>linked := ln, unlinked := ul, telling := tg\<rparr>)"
    and "set_mset tg \<subseteq> set_mset (telling c) \<union> {x. fst x = a \<and> 0 < reporting (f (held c a))}"
    and "obits_kept c c' a (Some b) (Some b')"
  shows "run_ok c' \<and> effect c c'"
proof
  have "proxies_ok (px c') (held c')"
    using put_ok [of "px c" "held c" a b b' "f (held c a)"] assms(1-5) unfolding assms(8) by (simp add: run_ok_def goes_def hold_def)
  moreover have "0 < reporting (held c' x)" if "(x, ob) \<in># telling c'" for x ob
  proof -
    have "(x, ob) \<in># telling c \<or> x = a \<and> 0 < reporting (f (held c a))" using that assms(9) unfolding assms(8) by (auto simp: goes_def)
    moreover have "0 < reporting (held c x)" if "(x, ob) \<in># telling c" using that assms(1) by (auto simp: run_ok_def)
    ultimately show ?thesis using assms(6) unfolding assms(8) by (auto simp: goes_def hold_def)
  qed
  ultimately show "run_ok c'" by (auto simp: run_ok_def)
  show "effect c c'"
    unfolding effect_def using assms(2,7,10) unfolding assms(8) by (intro exI [of _ a] exI [of _ "Some b'"] exI [of _ "cmds out"])
      (simp add: goes_def hold_def put_bp_def)
qed

text \<open>One that only changes its counts.\<close>

lemma counts_step:
  assumes "run_ok c" and "bps (px c) a = Some b" and "bp_ok (f (held c a)) (b\<lparr>counts := r\<rparr>)"
    and "0 < mWeak r \<Longrightarrow> 0 < mWeak (counts b)" and "reporting (f (held c a)) = reporting (held c a)"
    and "taken r = taken (counts b) + net C_Acquire C_Release (mHandle b) (cmds out)"
    and "cmds out \<in> {[], [C_Acquire (mHandle b)], [C_Release (mHandle b)]}"
  shows "run_ok (goes (put_bp a (b\<lparr>counts := r\<rparr>) (px c)) out (hold a f c)) \<and> effect c (goes (put_bp a (b\<lparr>counts := r\<rparr>) (px c)) out (hold a f c))"
  by (rule put_step [OF assms(1,2), where f = f and b' = "b\<lparr>counts := r\<rparr>" and ln = "linked c" and ul = "unlinked c" and tg = "telling c" and out = out])
    (use assms counts_effect [of c a b _ r "cmds out"] in \<open>auto simp: goes_def hold_def intro!: obits_same\<close>)

end
