(* ===== verification/Proxy_Props.thy ===== *)
theory Proxy_Props
  imports Proxy_Inv
begin

text \<open>
  Proxies over whole runs: the table never leads to a proxy that is gone, the driver is told of every reference once, and every
  obituary is told or withdrawn once.
\<close>

section \<open>Every step\<close>

lemma strong_exists: "0 < strong_of (held c a) \<Longrightarrow> held c a \<noteq> nobody"
  and weak_exists: "0 < weak_of (held c a) \<Longrightarrow> held c a \<noteq> nobody"
  and any_exists: "0 < strong_of (held c a) + weak_of (held c a) \<Longrightarrow> held c a \<noteq> nobody"
  and clearing_exists: "0 < clearing (held c a) \<Longrightarrow> held c a \<noteq> nobody"
  by auto

lemma run_holder: "run_ok c \<Longrightarrow> held c a \<noteq> nobody \<Longrightarrow> \<exists>b. bps (px c) a = Some b \<and> bp_ok (held c a) b"
  unfolding run_ok_def by (metis held_exists)

lemma copies_strong_step:
  assumes "run_ok c" and "few c" and "0 < strong_of (held c a)" and "copy_strong a (px c) = Some (out, P)"
  shows "run_ok (goes P out (hold a more_strong c)) \<and> effect c (goes P out (hold a more_strong c))"
proof -
  obtain b where b: "bps (px c) a = Some b" "bp_ok (held c a) b"
    using run_holder [OF assms(1) strong_exists [OF assms(3)]] by blast
  note ref = incStrong_bp [OF b(2) few_weak [OF assms(2) b(1)] assms(3)]
  have run: "out = []" "P = put_bp a (b\<lparr>counts := fst (incStrong (counts b))\<rparr>) (px c)"
    using assms(4) b(1) ref(2) by (auto simp: copy_strong_def case_prod_beta Let_def)
  have "0 < mWeak (counts b)" using bp_okD(1) [OF b(2)] assms(3) by simp
  then show ?thesis unfolding run by (intro counts_step [OF assms(1) b(1)]) (use ref in \<open>auto simp: more_strong_def\<close>)
qed

lemma copies_weak_step:
  assumes "run_ok c" and "few c" and "0 < strong_of (held c a) + weak_of (held c a)" and "copy_weak a (px c) = Some P"
  shows "run_ok (goes P [] (hold a more_weak c)) \<and> effect c (goes P [] (hold a more_weak c))"
proof -
  obtain b where b: "bps (px c) a = Some b" "bp_ok (held c a) b"
    using run_holder [OF assms(1) any_exists [OF assms(3)]] by blast
  have run: "P = put_bp a (b\<lparr>counts := incWeak (counts b)\<rparr>) (px c)" using assms(4) b(1) by (simp add: copy_weak_def)
  have "0 < mWeak (counts b)" using bp_okD(1) [OF b(2)] assms(3) by linarith
  then show ?thesis unfolding run
    by (intro counts_step [OF assms(1) b(1)]) (use incWeak_bp [OF b(2) few_weak [OF assms(2) b(1)]] in \<open>auto simp: more_weak_def incWeak_def add_weak_def\<close>)
qed

lemma drops_strong_step:
  assumes "run_ok c" and "0 < strong_of (held c a)" and "drop_strong a (px c) = Some (gone, out, P)"
  shows "run_ok (goes P out (hold a less_strong c)) \<and> effect c (goes P out (hold a less_strong c))"
proof -
  obtain b where b: "bps (px c) a = Some b" "bp_ok (held c a) b"
    using run_holder [OF assms(1) strong_exists [OF assms(2)]] by blast
  note ref = decStrong_bp [OF b(2) assms(2)]
  have run: "out = (if snd (decStrong (counts b)) then onLastStrongRef b else [])"
      "P = put_bp a (b\<lparr>counts := fst (decWeak (fst (decStrong (counts b))))\<rparr>) (px c)"
    using assms(3) b(1) by (auto simp: drop_strong_def case_prod_beta Let_def onLastStrongRef_def split: if_splits)
  have "0 < mWeak (counts b)" using bp_okD(1) [OF b(2)] assms(2) by simp
  then show ?thesis unfolding run
    by (intro counts_step [OF assms(1) b(1)]) (use ref in \<open>auto simp: less_strong_def ask_defs net_def\<close>)
qed

lemma drop_weak_run:
  assumes "drop_weak a P = Some (gone, P1)" and "bps P a = Some b"
  shows "P1 = put_bp a (b\<lparr>counts := fst (decWeak (counts b))\<rparr>) P"
  using assms by (auto simp: drop_weak_def case_prod_beta Let_def)

lemma decWeak_taken [simp]: "taken (fst (decWeak r)) = taken r"
  by (simp add: decWeak_def add_weak_def)

lemma drops_weak_step:
  assumes "run_ok c" and "0 < weak_of (held c a)" and "drop_weak a (px c) = Some (gone, P)"
  shows "run_ok (goes P [] (hold a less_weak c)) \<and> effect c (goes P [] (hold a less_weak c))"
proof -
  obtain b where b: "bps (px c) a = Some b" "bp_ok (held c a) b"
    using run_holder [OF assms(1) weak_exists [OF assms(2)]] by blast
  have "0 < mWeak (counts b)" using bp_okD(1) [OF b(2)] assms(2) by simp
  then show ?thesis unfolding drop_weak_run [OF assms(3) b(1)]
    by (intro counts_step [OF assms(1) b(1)]) (use decWeak_bp [OF b(2) assms(2)] in \<open>auto simp: less_weak_def\<close>)
qed

lemma confirms_step:
  assumes "run_ok c" and "0 < clearing (held c a)" and "reporting (held c a) < requests (held c a)" and "drop_weak a (px c) = Some (gone, P)"
  shows "run_ok (goes P [] (hold a confirmed c)) \<and> effect c (goes P [] (hold a confirmed c))"
proof -
  obtain b where b: "bps (px c) a = Some b" "bp_ok (held c a) b"
    using run_holder [OF assms(1) clearing_exists [OF assms(2)]] by blast
  have "0 < mWeak (counts b)" using bp_okD(1,5) [OF b(2)] assms(2) by simp
  then show ?thesis unfolding drop_weak_run [OF assms(4) b(1)]
    by (intro counts_step [OF assms(1) b(1)]) (use confirm_bp [OF b(2) assms(2,3)] in \<open>auto simp: confirmed_def\<close>)
qed

lemma same_effect:
  assumes "bps (px c') = bps (px c)" and "sent c' = sent c @ cs" and "\<forall>h. net C_Increfs C_Decrefs h cs = 0 \<and> net C_Acquire C_Release h cs = 0 \<and> (\<forall>a. deaths h a cs = 0)"
    and "linked c' = linked c" and "unlinked c' + telling c' + told c' = unlinked c + telling c + told c"
  shows "effect c c'"
  unfolding effect_def using assms
  by (intro exI [of _ undefined] exI [of _ "bps (px c) undefined"] exI [of _ cs]) (simp add: tells_driver_def obits_kept_def)

lemma promotes_step:
  assumes "run_ok c" and "few c" and "0 < weak_of (held c a)" and "promote a (px c) = Some (ok, P)"
  shows "run_ok (goes P [] (if ok then hold a more_strong c else c)) \<and> effect c (goes P [] (if ok then hold a more_strong c else c))"
proof -
  obtain b where b: "bps (px c) a = Some b" "bp_ok (held c a) b"
    using run_holder [OF assms(1) weak_exists [OF assms(3)]] by blast
  show ?thesis
  proof (cases "attemptIncStrong (mHandle b) (counts b)")
    case None
    then have "\<not> ok" "P = px c" using assms(4) b(1) by (auto simp: promote_def)
    moreover have "run_ok (goes (px c) [] c)" using assms(1) by (simp add: run_ok_def goes_def)
    moreover have "effect c (goes (px c) [] c)" by (rule same_effect [where cs = "[]"]) (auto simp: goes_def deaths_def)
    ultimately show ?thesis by simp
  next
    case (Some r)
    then have run: "ok" "P = put_bp a (b\<lparr>counts := r\<rparr>) (px c)" using assms(4) b(1) by (auto simp: promote_def)
    note ref = promote_bp [OF b(2) few_weak [OF assms(2) b(1)] Some]
    have "0 < mWeak (counts b)" using bp_okD(1) [OF b(2)] assms(3) by simp
    then have "run_ok (goes P [] (hold a more_strong c)) \<and> effect c (goes P [] (hold a more_strong c))"
      unfolding run(2) by (intro counts_step [OF assms(1) b(1)]) (use ref in \<open>auto simp: more_strong_def\<close>)
    then show ?thesis using run(1) by simp
  qed
qed

lemma deletes_step:
  assumes "run_ok c" and "bps (px c) a = Some b" and "mWeak (counts b) = 0" and "delete_BpBinder grows a (px c) = Some (out, P)"
  shows "run_ok (goes P out c) \<and> effect c (goes P out c)"
proof -
  have ok: "proxies_ok (px c) (held c)" using assms(1) by (simp add: run_ok_def)
  obtain P1 where P1: "delete_BpBinder grows a (px c) = Some (decWeakHandle (mHandle b), P1)" "proxies_ok P1 (held c)"
      "bps P1 = (bps (px c))(a := None)" "mObituaries b = None"
    using delete_ok [OF ok assms(2,3)] by blast
  have run: "out = decWeakHandle (mHandle b)" "P = P1" using assms(4) P1(1) by auto
  have taken: "taken (counts b) = 0" using bp_okD(4) [OF proxies_okD(4) [OF ok assms(2)]] bp_unused(1) [OF proxies_okD(4) [OF ok assms(2)]] assms(3) by simp
  have "tells_driver [C_Decrefs (mHandle b)] a (Some b) None" using P1(4) taken by (simp add: effect_defs)
  moreover have "obits_kept c (goes P out c) a (Some b) None" using P1(4) by (intro obits_same) (simp_all add: goes_def)
  ultimately have "effect c (goes P out c)"
    unfolding effect_def run using assms(2) P1(3)
    by (intro exI [of _ a] exI [of _ None] exI [of _ "[C_Decrefs (mHandle b)]"]) (simp add: goes_def ask_defs)
  then show ?thesis using assms(1) P1(2) run(2) by (simp add: run_ok_def goes_def)
qed

lemma unlink_obits:
  "unlinkToDeath a recipient cookie flags b = (st, res, out, b') \<Longrightarrow>
    obits_at (Some b) = obits_at (Some b') + (case res of None \<Rightarrow> {#} | Some ob \<Rightarrow> {#ob#})"
  by (auto simp: unlinkToDeath_def dest!: take_obit_mset split: if_splits option.splits list.splits)

lemma link_obits:
  "linkToDeath room a ob b = (st, out, b') \<Longrightarrow> obits_at (Some b') = obits_at (Some b) + (if st = 0 then {#ob#} else {#})"
  by (auto simp: linkToDeath_def split: if_splits option.splits)

lemma die_obits: "take_obituaries a b = (obs, out, b') \<Longrightarrow> obits_at (Some b) = mset obs \<and> obits_at (Some b') = {#}"
  by (auto simp: take_obituaries_def split: option.splits)

text \<open>The notification in the driver follows the vector of obituaries.\<close>

lemma tells_request:
  "mHandle b' = mHandle b \<Longrightarrow> taken (counts b') = taken (counts b) \<Longrightarrow> mObituaries b = None \<Longrightarrow> mObituaries b' \<noteq> None \<Longrightarrow>
    tells_driver [C_Request_Death (mHandle b) a] a (Some b) (Some b')"
  and tells_clear:
  "mHandle b' = mHandle b \<Longrightarrow> taken (counts b') = taken (counts b) \<Longrightarrow> mObituaries b \<noteq> None \<Longrightarrow> mObituaries b' = None \<Longrightarrow>
    tells_driver [C_Clear_Death (mHandle b) a] a (Some b) (Some b')"
  and tells_same:
  "mHandle b' = mHandle b \<Longrightarrow> taken (counts b') = taken (counts b) \<Longrightarrow> (mObituaries b' = None) = (mObituaries b = None) \<Longrightarrow>
    tells_driver [] a (Some b) (Some b')"
  by (simp_all add: effect_defs)

lemma link_tells:
  assumes "linkToDeath room a ob b = (st, out, b')" and "mHandle b' = mHandle b" and "taken (counts b') = taken (counts b)"
  shows "tells_driver (cmds out) a (Some b) (Some b')"
proof (cases "mObitsSent b \<or> mObituaries b \<noteq> None")
  case True
  then have "cmds out = []" "(mObituaries b' = None) = (mObituaries b = None)"
    using assms(1) by (auto simp: linkToDeath_def split: if_splits option.splits)
  then show ?thesis using tells_same [OF assms(2,3)] by simp
next
  case False
  then have "cmds out = [C_Request_Death (mHandle b) a]" "mObituaries b' \<noteq> None"
    using assms(1) by (auto simp: linkToDeath_def ask_defs split: if_splits option.splits)
  then show ?thesis using tells_request [OF assms(2,3)] False by simp
qed

lemma unlink_tells:
  assumes "unlinkToDeath a recipient cookie flags b = (st, res, out, b')" and "mHandle b' = mHandle b" and "counts b' = counts b"
  shows "tells_driver (cmds out) a (Some b) (Some b')"
proof (cases "out = []")
  case True
  then have "(mObituaries b' = None) = (mObituaries b = None)"
    using assms(1) by (auto simp: unlinkToDeath_def ask_defs split: if_splits option.splits list.splits)
  then show ?thesis using tells_same [OF assms(2)] assms(3) True by simp
next
  case False
  then have "cmds out = [C_Clear_Death (mHandle b) a]" "mObituaries b' = None" "mObituaries b \<noteq> None"
    using assms(1) by (auto simp: unlinkToDeath_def ask_defs split: if_splits option.splits list.splits)
  then show ?thesis using tells_clear [OF assms(2)] assms(3) by simp
qed

lemma die_tells:
  assumes "take_obituaries a (b\<lparr>mAlive := False\<rparr>) = (obs, out, b')" and "mHandle b' = mHandle b" and "counts b' = counts b"
  shows "tells_driver (cmds out) a (Some b) (Some b')"
proof (cases "mObituaries b")
  case None
  then have "cmds out = []" "mObituaries b' = None" using assms(1) by (auto simp: take_obituaries_def)
  then show ?thesis using tells_same [OF assms(2)] assms(3) None by simp
next
  case (Some obs')
  then have "cmds out = [C_Clear_Death (mHandle b) a]" "mObituaries b' = None" using assms(1) by (auto simp: take_obituaries_def ask_defs)
  then show ?thesis using tells_clear [OF assms(2)] assms(3) Some by simp
qed

lemma links_step:
  assumes "run_ok c" and "few c" and "0 < strong_of (held c a)" and "bps (px c) a = Some b" and "linkToDeath room a ob b = (st, out, b')"
    and "c' = goes (put_bp a b' (px c)) out ((hold a (requested (out \<noteq> [])) c)\<lparr>linked := linked c + (if st = 0 then {#(a, ob)#} else {#})\<rparr>)"
  shows "run_ok c' \<and> effect c c'"
proof -
  have ok: "bp_ok (held c a) b" using assms(1) proxies_okD(4) [OF _ assms(4)] by (auto simp: run_ok_def)
  note ref = link_bp [OF ok few_weak [OF assms(2,4)] assms(5)]
  have live: "0 < mWeak (counts b)" using bp_okD(1) [OF ok] assms(3) by simp
  note link_tells [OF assms(5) ref(2,3)]
  moreover have "obits_kept c c' a (Some b) (Some b')"
    unfolding assms(6) obits_kept_def link_obits [OF assms(5)]
    by (intro exI [of _ "if st = 0 then {#(a, ob)#} else {#}"]) (simp add: goes_def hold_def del: obits_at.simps)
  ultimately show ?thesis
    using assms(6) ref live
    by (intro put_step [OF assms(1,4), where f = "requested (out \<noteq> [])" and b' = b' and out = out and ul = "unlinked c" and tg = "telling c"])
      (auto simp: hold_def requested_def)
qed

lemma unlinks_step:
  assumes "run_ok c" and "0 < strong_of (held c a)" and "bps (px c) a = Some b" and "unlinkToDeath a recipient cookie flags b = (st, res, out, b')"
    and "c' = goes (put_bp a b' (px c)) out
      ((hold a (cleared (out \<noteq> [])) c)\<lparr>unlinked := unlinked c + (case res of None \<Rightarrow> {#} | Some ob \<Rightarrow> {#(a, ob)#})\<rparr>)"
  shows "run_ok c' \<and> effect c c'"
proof -
  have ok: "bp_ok (held c a) b" using assms(1) proxies_okD(4) [OF _ assms(3)] by (auto simp: run_ok_def)
  note ref = unlink_bp [OF ok assms(4)]
  have live: "0 < mWeak (counts b)" using bp_okD(1) [OF ok] assms(2) by simp
  note unlink_tells [OF assms(4) ref(2,3)]
  moreover have "obits_kept c c' a (Some b) (Some b')"
    unfolding assms(5) obits_kept_def unlink_obits [OF assms(4)]
    by (intro exI [of _ "{#}"]) (simp add: goes_def hold_def del: obits_at.simps split: option.split)
  ultimately show ?thesis
    using assms(5) ref live
    by (intro put_step [OF assms(1,3), where f = "cleared (out \<noteq> [])" and b' = b' and out = out and ln = "linked c" and tg = "telling c"])
      (auto simp: hold_def cleared_def)
qed

lemma dies_step:
  assumes "run_ok c" and "reporting (held c a) < requests (held c a)" and "bps (px c) a = Some b"
    and "take_obituaries a (b\<lparr>mAlive := False\<rparr>) = (obs, out, b')"
    and "c' = goes (put_bp a b' (px c)) out
      ((hold a (more_reports \<circ> cleared (out \<noteq> [])) c)\<lparr>telling := telling c + image_mset (Pair a) (mset obs)\<rparr>)"
  shows "run_ok c' \<and> effect c c'"
proof -
  have ok: "bp_ok (held c a) b" using assms(1) proxies_okD(4) [OF _ assms(3)] by (auto simp: run_ok_def)
  note ref = die_bp [OF ok assms(2,4)]
  have live: "0 < mWeak (counts b)" using bp_okD(1) [OF ok] assms(2) by simp
  note die_tells [OF assms(4) ref(2,3)]
  moreover have "obits_kept c c' a (Some b) (Some b')"
    using die_obits [OF assms(4)] unfolding assms(5) obits_kept_def by (intro exI [of _ "{#}"]) (simp add: goes_def hold_def)
  ultimately show ?thesis
    using assms(5) ref live
    by (intro put_step [OF assms(1,3), where f = "more_reports \<circ> cleared (out \<noteq> [])" and b' = b' and out = out and ln = "linked c"
        and ul = "unlinked c" and tg = "telling c + image_mset (Pair a) (mset obs)"])
      (auto simp: hold_def cleared_def more_reports_def)
qed

text \<open>Lookups: the table may grow, and a proxy is found or made.\<close>

lemma grown_step:
  assumes "run_ok c" and "proxies_ok P (held c)" and "bps P = bps (px c)"
  shows "run_ok (goes P [] c) \<and> effect c (goes P [] c)"
  using assms same_effect [of "goes P [] c" c "[]"] by (simp add: run_ok_def goes_def deaths_def)

lemma new_step:
  assumes "run_ok c" and "bps (px c) a = None" and "proxies_ok P (held c)" and "bps P = bps (px c)" and "unat h < length (mHandleToObject P)"
    and "\<forall>a b. bps P a = Some b \<longrightarrow> mHandle b = h \<longrightarrow> mWeak (counts b) = 0" and "mHandle b = h" and "bp_ok (f nobody) b"
    and "tells_driver (cmds out) a None (Some b)" and "mObituaries b = None" and "c' = goes (new_proxy h a b P) out (hold a f c)"
  shows "run_ok c' \<and> effect c c'"
proof
  have nobody: "held c a = nobody" using assms(1,2) proxies_okD(3) by (auto simp: run_ok_def)
  have "proxies_ok (px c') (held c')"
    using new_ok [of P "held c" a h b "f nobody"] assms(2-8) nobody unfolding assms(11) by (simp add: goes_def hold_def)
  moreover have "x \<noteq> a" if "(x, ob) \<in># telling c" for x ob using assms(1) that nobody by (auto simp: run_ok_def)
  ultimately show "run_ok c'" using assms(1) unfolding assms(11) by (auto simp: run_ok_def goes_def hold_def)
  have "bps (px c') = (bps (px c))(a := Some b)" "sent c' = sent c @ cmds out"
    using assms(4) unfolding assms(11) by (simp_all add: goes_def hold_def new_proxy_def put_bp_def)
  moreover have "obits_kept c c' a None (Some b)" using assms(10) unfolding assms(11) by (intro obits_same) (simp_all add: goes_def hold_def)
  ultimately show "effect c c'" unfolding effect_def using assms(2,9) by metis
qed

lemma BpBinder_simps [simp]:
  "mHandle (fst (BpBinder h)) = h" "mObituaries (fst (BpBinder h)) = None" "taken (counts (fst (BpBinder h))) = 0"
  "snd (BpBinder h) = [Cmd (C_Increfs h)]" "mStrong (counts (fst (BpBinder h))) = INITIAL_STRONG_VALUE"
  by (simp_all add: BpBinder_def RefBase_def ask_defs)

lemma gets_strong_step:
  assumes "run_ok c" and "few c" and "bps (px c) a = None" and "getStrongProxyForHandle grows ping a h (px c) = Some (res, out, P)"
  shows "run_ok (goes P out (gained more_strong res c)) \<and> effect c (goes P out (gained more_strong res c))"
proof (cases "lookupHandleLocked grows h (px c)")
  case None
  then show ?thesis using assms(1,4) grown_step [OF assms(1), of "px c"] by (simp add: getStrongProxyForHandle_def run_ok_def)
next
  case (Some P1)
  have "proxies_ok (px c) (held c)" using assms(1) by (simp add: run_ok_def)
  note look = lookup_ok [OF this Some]
  show ?thesis using current_ok [OF look(1,2)]
  proof (elim disjE exE conjE)
    fix a' b r assume cur: "current_proxy h P1 = Some (Some (a', b\<lparr>counts := r\<rparr>))" "bps P1 a' = Some b" "attemptIncWeak (counts b) = Some r" "mHandle b = h"
    have b: "bps (px c) a' = Some b" "bp_ok (held c a') b" using cur(2) look proxies_okD(4) [OF look(1)] by auto
    note ref = force_bp [OF b(2) few_weak [OF assms(2) b(1)] cur(3)]
    let ?b = "b\<lparr>counts := fst (decWeak (fst (forceIncStrong r)))\<rparr>"
    have run: "res = Some a'" "P = put_bp a' ?b P1" "out = (if snd (forceIncStrong r) then onFirstRef ?b else [])"
      using assms(4) Some cur(1) by (auto simp: getStrongProxyForHandle_def case_prod_beta Let_def onFirstRef_def)
    define c1 where "c1 = goes P1 [] c"
    have c1: "run_ok c1" using grown_step [OF assms(1) look(1,3)] by (simp add: c1_def)
    have live: "0 < mWeak (counts b)" using cur(3) by (simp add: attemptIncWeak_def split: if_splits)
    have "run_ok (goes (put_bp a' ?b (px c1)) out (hold a' more_strong c1)) \<and> effect c1 (goes (put_bp a' ?b (px c1)) out (hold a' more_strong c1))"
      by (rule counts_step [OF c1]) (use cur(2) ref live in \<open>auto simp: c1_def goes_def run(3) ask_defs net_def more_strong_def\<close>)
    then show ?thesis by (simp add: c1_def run(1,2) goes_def hold_def effect_def obits_kept_def look(3))
  next
    assume cur: "current_proxy h P1 = Some None" "\<forall>a b. bps P1 a = Some b \<longrightarrow> mHandle b = h \<longrightarrow> mWeak (counts b) = 0"
    show ?thesis
    proof (cases "h = 0 \<and> ping = DEAD_OBJECT")
      case True
      then show ?thesis using assms(4) Some cur(1) grown_step [OF assms(1) look(1,3)] by (simp add: getStrongProxyForHandle_def)
    next
      case False
      let ?b = "(fst (BpBinder h))\<lparr>counts := fst (incStrong (counts (fst (BpBinder h))))\<rparr>"
      have run: "res = Some a" "P = new_proxy h a ?b P1" "out = [Cmd (C_Increfs h), Cmd (C_Acquire h)]"
        using assms(4) Some cur(1) False by (auto simp: getStrongProxyForHandle_def case_prod_beta Let_def ask_defs incStrong_def)
      have "taken (counts ?b) = 1" by (simp add: incStrong_def Let_def first_ref_def add_strong_def add_weak_def)
      then have "tells_driver (cmds out) a None (Some ?b)" by (simp add: run(3) effect_defs)
      then show ?thesis unfolding run
        by (intro new_step [OF assms(1,3) look(1,3,2) cur(2)]) (use new_bp(1) [of h] in simp_all)
    qed
  qed
qed

lemma gets_weak_step:
  assumes "run_ok c" and "few c" and "bps (px c) a = None" and "getWeakProxyForHandle grows a h (px c) = Some (res, out, P)"
  shows "run_ok (goes P out (gained more_weak res c)) \<and> effect c (goes P out (gained more_weak res c))"
proof (cases "lookupHandleLocked grows h (px c)")
  case None
  then show ?thesis using assms(1,4) grown_step [OF assms(1), of "px c"] by (simp add: getWeakProxyForHandle_def run_ok_def)
next
  case (Some P1)
  have "proxies_ok (px c) (held c)" using assms(1) by (simp add: run_ok_def)
  note look = lookup_ok [OF this Some]
  show ?thesis using current_ok [OF look(1,2)]
  proof (elim disjE exE conjE)
    fix a' b r assume cur: "current_proxy h P1 = Some (Some (a', b\<lparr>counts := r\<rparr>))" "bps P1 a' = Some b" "attemptIncWeak (counts b) = Some r" "mHandle b = h"
    have b: "bps (px c) a' = Some b" "bp_ok (held c a') b" using cur(2) look proxies_okD(4) [OF look(1)] by auto
    note ref = attempt_bp [OF b(2) few_weak [OF assms(2) b(1)] cur(3)]
    let ?b = "b\<lparr>counts := fst (decWeak (incWeak r))\<rparr>"
    have run: "res = Some a'" "P = put_bp a' ?b P1" "out = []" using assms(4) Some cur(1) by (auto simp: getWeakProxyForHandle_def)
    define c1 where "c1 = goes P1 [] c"
    have c1: "run_ok c1" using grown_step [OF assms(1) look(1,3)] by (simp add: c1_def)
    have live: "0 < mWeak (counts b)" using cur(3) by (simp add: attemptIncWeak_def split: if_splits)
    have "run_ok (goes (put_bp a' ?b (px c1)) out (hold a' more_weak c1)) \<and> effect c1 (goes (put_bp a' ?b (px c1)) out (hold a' more_weak c1))"
      by (rule counts_step [OF c1]) (use cur(2) ref live in \<open>auto simp: c1_def goes_def run(3) more_weak_def\<close>)
    then show ?thesis by (simp add: c1_def run(1,2) goes_def hold_def effect_def obits_kept_def look(3))
  next
    assume cur: "current_proxy h P1 = Some None" "\<forall>a b. bps P1 a = Some b \<longrightarrow> mHandle b = h \<longrightarrow> mWeak (counts b) = 0"
    let ?b = "(fst (BpBinder h))\<lparr>counts := incWeak (counts (fst (BpBinder h)))\<rparr>"
    have run: "res = Some a" "P = new_proxy h a ?b P1" "out = [Cmd (C_Increfs h)]"
      using assms(4) Some cur(1) by (auto simp: getWeakProxyForHandle_def case_prod_beta Let_def)
    have "taken (counts ?b) = 0" by (simp add: incWeak_def add_weak_def)
    then have "tells_driver (cmds out) a None (Some ?b)" by (simp add: run(3) effect_defs)
    then show ?thesis unfolding run
      by (intro new_step [OF assms(1,3) look(1,3,2) cur(2)]) (use new_bp(2) [of h] in simp_all)
  qed
qed

lemma tells_step:
  assumes "run_ok c" and "(a, ob) \<in># telling c" and "c' = c\<lparr>telling := telling c - {#(a, ob)#}, told := add_mset (a, ob) (told c)\<rparr>"
  shows "run_ok c' \<and> effect c c'"
proof
  show "run_ok c'" using assms(1) unfolding assms(3) run_ok_def by (auto dest: in_diffD)
  show "effect c c'" unfolding assms(3) by (rule same_effect [where cs = "[]"]) (use assms(2) in \<open>auto simp: deaths_def\<close>)
qed

lemma reported_step:
  assumes "run_ok c" and "0 < reporting (held c a)" and "reporting (held c a) = 1 \<longrightarrow> (\<forall>ob. (a, ob) \<notin># telling c)"
    and "c' = goes (px c) [Cmd (C_Dead_Done a)] (hold a less_reports c)"
  shows "run_ok c' \<and> effect c c'"
proof
  obtain b where b: "bps (px c) a = Some b" "bp_ok (held c a) b" using run_holder [OF assms(1), of a] assms(2) by fastforce
  have "bp_ok (less_reports (held c a)) b" using b(2) by (auto simp: bp_ok_def less_reports_def)
  then have "proxies_ok (px c') (held c')" using assms(1) b(1) unfolding assms(4) run_ok_def proxies_ok_def by (auto simp: goes_def hold_def)
  moreover have "0 < reporting (held c' x)" if "(x, ob) \<in># telling c" for x ob
    using assms(1-3) that unfolding assms(4) run_ok_def by (fastforce simp: goes_def hold_def less_reports_def)
  ultimately show "run_ok c'" using assms(1) unfolding assms(4) by (auto simp: run_ok_def goes_def hold_def)
  show "effect c c'" unfolding assms(4)
    by (rule same_effect [where cs = "[C_Dead_Done a]"]) (auto simp: goes_def hold_def deaths_def net_def)
qed

lemma client_step_ok:
  assumes "client_step c c'" and "run_ok c"
  shows "run_ok c' \<and> effect c c'"
  using assms
proof cases
  case (dies a b obs out b')
  then have "take_obituaries a (b\<lparr>mAlive := False\<rparr>) = (obs, out, b')"
    using send_takes [OF proxies_okD(4)] assms(2) by (auto simp: run_ok_def)
  then show ?thesis using dies_step [OF assms(2) dies(2,3)] dies(1) by simp
next
  case gets_strong then show ?thesis using gets_strong_step [OF assms(2)] by simp
next
  case gets_weak then show ?thesis using gets_weak_step [OF assms(2)] by simp
next
  case copies_strong then show ?thesis using copies_strong_step [OF assms(2)] by simp
next
  case copies_weak then show ?thesis using copies_weak_step [OF assms(2) copies_weak(2-4)] by simp
next
  case drops_strong then show ?thesis using drops_strong_step [OF assms(2)] by simp
next
  case drops_weak then show ?thesis using drops_weak_step [OF assms(2)] by simp
next
  case promotes then show ?thesis using promotes_step [OF assms(2) promotes(2-4)] by simp
next
  case deletes then show ?thesis using deletes_step [OF assms(2)] by simp
next
  case links then show ?thesis using links_step [OF assms(2) links(2-5) links(1)] by simp
next
  case unlinks then show ?thesis using unlinks_step [OF assms(2) unlinks(2-4) unlinks(1)] by simp
next
  case tells then show ?thesis using tells_step [OF assms(2) tells(2,1)] by simp
next
  case reported then show ?thesis using reported_step [OF assms(2) reported(2,3,1)] by simp
next
  case confirms then show ?thesis using confirms_step [OF assms(2)] by simp
qed

section \<open>Whole runs\<close>

text \<open>A sum over all proxies, when one of them changes.\<close>

definition over :: "(u64 \<Rightarrow> bp_binder option \<Rightarrow> 'n::comm_monoid_add) \<Rightarrow> (u64 \<rightharpoonup> bp_binder) \<Rightarrow> 'n" where
  "over g m = (\<Sum>a\<in>dom m. g a (m a))"

lemma over_upd:
  assumes "finite (dom m)" and "\<And>a. g a None = 0"
  shows "over g (m(a := y)) + g a (m a) = over g m + g a y"
proof -
  have rest: "(\<Sum>x\<in>dom m - {a}. g x ((m(a := y)) x)) = (\<Sum>x\<in>dom m - {a}. g x (m x))" by (rule sum.cong) auto
  have old: "over g m = g a (m a) + (\<Sum>x\<in>dom m - {a}. g x (m x))"
  proof (cases "a \<in> dom m")
    case True
    then show ?thesis using assms(1) by (simp add: over_def sum.remove)
  next
    case False
    then show ?thesis by (auto simp: over_def assms(2) domIff)
  qed
  have new: "over g (m(a := y)) = g a y + (\<Sum>x\<in>dom m - {a}. g x (m x))"
  proof (cases y)
    case None
    then show ?thesis using rest by (simp add: over_def assms(2))
  next
    case (Some b)
    have "over g (m(a := y)) = (\<Sum>x\<in>insert a (dom m - {a}). g x ((m(a := y)) x))" unfolding over_def by (rule sum.cong) (use Some in auto)
    also have "\<dots> = g a y + (\<Sum>x\<in>dom m - {a}. g x ((m(a := y)) x))" by (subst sum.insert) (use assms(1) in auto)
    finally show ?thesis using rest by simp
  qed
  show ?thesis unfolding old new by (simp add: ac_simps)
qed

lemma sums_balance:
  fixes R R' U U' x y n :: "'n::cancel_comm_monoid_add"
  assumes "R' + x = R + y" and "U' + y = U + x + n"
  shows "U' + R' = U + R + n"
proof -
  have "(U' + R') + (x + y) = (U' + y) + (R' + x)" by (simp add: ac_simps)
  also have "\<dots> = (U + x + n) + (R + y)" unfolding assms ..
  also have "\<dots> = (U + R + n) + (x + y)" by (simp add: ac_simps)
  finally show ?thesis by simp
qed

definition told_driver :: "clients \<Rightarrow> bool" where
  "told_driver c \<longleftrightarrow> (\<forall>h. net C_Increfs C_Decrefs h (sent c) = over (\<lambda>a. weak_at h) (bps (px c))
     \<and> net C_Acquire C_Release h (sent c) = over (\<lambda>a. strong_at h) (bps (px c))
     \<and> (\<forall>a. deaths h a (sent c) = death_at h (bps (px c) a)))"

abbreviation registered :: "clients \<Rightarrow> (u64 \<times> obituary) multiset" where
  "registered c \<equiv> over (\<lambda>a x. image_mset (Pair a) (obits_at x)) (bps (px c))"

definition obits_sum :: "clients \<Rightarrow> bool" where
  "obits_sum c \<longleftrightarrow> linked c = unlinked c + telling c + told c + registered c"

lemma effect_sums:
  assumes "effect c c'" and "finite (dom (bps (px c)))" and "told_driver c" and "obits_sum c"
  shows "told_driver c'" and "obits_sum c'"
proof -
  obtain a y cs where e: "bps (px c') = (bps (px c))(a := y)" "sent c' = sent c @ cs" "tells_driver cs a (bps (px c) a) y"
      "obits_kept c c' a (bps (px c) a) y"
    using assms(1) by (auto simp: effect_def)
  have weak: "over (\<lambda>a. weak_at h) (bps (px c')) = over (\<lambda>a. weak_at h) (bps (px c)) + weak_at h y - weak_at h (bps (px c) a)" for h
    using over_upd [OF assms(2), of "\<lambda>a. weak_at h" a y] unfolding e(1) by simp
  have strong: "over (\<lambda>a. strong_at h) (bps (px c')) = over (\<lambda>a. strong_at h) (bps (px c)) + strong_at h y - strong_at h (bps (px c) a)" for h
    using over_upd [OF assms(2), of "\<lambda>a. strong_at h" a y] unfolding e(1) by simp
  show "told_driver c'" using assms(3) e(3) unfolding told_driver_def tells_driver_def weak strong
    by (auto simp: e(1,2) deaths_def)
  have reg: "registered c' + image_mset (Pair a) (obits_at (bps (px c) a)) = registered c + image_mset (Pair a) (obits_at y)"
    using over_upd [OF assms(2), of "\<lambda>a x. image_mset (Pair a) (obits_at x)" a y] unfolding e(1) by simp
  obtain new where new: "linked c' = linked c + new"
      "unlinked c' + telling c' + told c' + image_mset (Pair a) (obits_at y)
        = unlinked c + telling c + told c + image_mset (Pair a) (obits_at (bps (px c) a)) + new"
    using e(4) by (auto simp: obits_kept_def)
  have "unlinked c' + telling c' + told c' + registered c' = unlinked c + telling c + told c + registered c + new"
    by (rule sums_balance [OF reg new(2)])
  then show "obits_sum c'" using assms(4) new(1) by (simp add: obits_sum_def)
qed

lemma start_clients_ok: "run_ok start_clients" "told_driver start_clients" "obits_sum start_clients"
  by (simp_all add: run_ok_def start_clients_def no_proxies_def proxies_ok_def table_ok_def told_driver_def obits_sum_def over_def deaths_def)

lemma client_steps_ok: "client_steps start_clients c \<Longrightarrow> run_ok c \<and> told_driver c \<and> obits_sum c"
proof (induction rule: rtranclp_induct)
  case base
  then show ?case using start_clients_ok by simp
next
  case (step c c')
  have ok: "run_ok c'" "effect c c'" using client_step_ok [OF step(2)] step(3) by auto
  have "finite (dom (bps (px c)))" using step(3) proxies_okD(1) by (auto simp: run_ok_def)
  then show ?case using ok effect_sums [OF ok(2)] step(3) by simp
qed

end
