(* ===== verification/Proxy_Safe.thy ===== *)
theory Proxy_Safe
  imports Proxy_Props
begin

text \<open>What clients and the driver can rely on with proxies, and the counters behind them.\<close>

section \<open>Counters without interruption\<close>

text \<open>The operations on a proxy's counters are those of \<^const>\<open>act\<close>, run to their end.\<close>

fun ref_run :: "nat \<Rightarrow> bool \<Rightarrow> pc \<Rightarrow> weakref_impl \<Rightarrow> (weakref_impl \<times> nat \<times> nat) option" where
  "ref_run 0 grant p r = None"
| "ref_run (Suc n) grant p r = (case act grant p r of
       None \<Rightarrow> None
     | Some (r1, Go q) \<Rightarrow> ref_run n grant q r1
     | Some (r1, Return s w) \<Rightarrow> Some (r1, s, w))"

definition proxy_counts :: "weakref_impl \<Rightarrow> bool" where
  "proxy_counts r \<longleftrightarrow> object r \<and> impl r \<and> mFlags r = OBJECT_LIFETIME_WEAK \<and> 0 \<le> mWeak r \<and> mWeak r \<le> 2 ^ 27
     \<and> (mStrong r = INITIAL_STRONG_VALUE \<or> 0 \<le> mStrong r \<and> mStrong r \<le> mWeak r)"

lemma counters_are_runs:
  assumes "proxy_counts r"
  shows "ref_run 4 grant (Inc1 (0, 0)) r = Some (fst (incStrong r), 1, 0)"
    and "ref_run 4 grant (Force1 (0, 0)) r = Some (fst (forceIncStrong r), 1, 0)"
    and "ref_run 1 grant (Inc_Weak (0, 0)) r = Some (incWeak r, 0, 1)"
    and "ref_run 2 grant (Try_Weak (0, 0)) r = Some (case attemptIncWeak r of None \<Rightarrow> (r, 0, 0) | Some r1 \<Rightarrow> (r1, 0, 1))"
    and "1 < mWeak r \<Longrightarrow> ref_run 1 grant (Dec_Weak (0, 0)) r = Some (fst (decWeak r), 0, 0)"
    and "0 < mStrong r \<Longrightarrow> mStrong r \<noteq> INITIAL_STRONG_VALUE \<Longrightarrow> 1 < mWeak r \<Longrightarrow>
      ref_run 4 grant Dec1 r = Some (fst (decWeak (fst (decStrong r))), 0, 0)"
    and "0 < mWeak r \<Longrightarrow> ref_run 5 False (Att1 (0, 1)) r = Some (case attemptIncStrong h r of None \<Rightarrow> (r, 0, 1) | Some r1 \<Rightarrow> (r1, 1, 1))"
  using assms by (auto simp: proxy_counts_def share_defs ref_ops eval_nat_numeral Let_def)

section \<open>The properties\<close>

lemma held_entered:
  assumes "proxies_ok P H" and "H a \<noteq> nobody"
  obtains b where "bps P a = Some b" and "bp_ok (H a) b" and "0 < mWeak (counts b)"
    and "mHandleToObject P ! unat (mHandle b) = \<lparr>e_proxy = Some a, e_refs = Some a\<rparr>" and "unat (mHandle b) < length (mHandleToObject P)"
proof -
  obtain b where b: "bps P a = Some b" "bp_ok (H a) b" "entered P a b" using held_exists [OF assms] by blast
  have "0 < mWeak (counts b)" using bp_unused(1) [OF b(2)] assms(2) by (meson not_less)
  then show ?thesis using that b by (auto simp: entered_def)
qed

lemma lookups_return:
  assumes "proxies_ok P H"
  shows "getStrongProxyForHandle grows ping a h P \<noteq> None" and "getWeakProxyForHandle grows a h P \<noteq> None"
proof -
  have "current_proxy h P1 \<noteq> None" if "lookupHandleLocked grows h P = Some P1" for P1
    using current_ok [OF lookup_ok(1,2) [OF assms that]] by auto
  then show "getStrongProxyForHandle grows ping a h P \<noteq> None" "getWeakProxyForHandle grows a h P \<noteq> None"
    by (auto simp: getStrongProxyForHandle_def getWeakProxyForHandle_def case_prod_beta Let_def split: option.splits)
qed

lemma lookup_finds:
  assumes "proxies_ok P H" and "H x \<noteq> nobody" and "bps P x = Some b"
  shows "\<exists>out P1. getStrongProxyForHandle grows ping a (mHandle b) P = Some (Some x, out, P1)"
proof -
  have e: "0 < mWeak (counts b)" "mHandleToObject P ! unat (mHandle b) = \<lparr>e_proxy = Some x, e_refs = Some x\<rparr>"
      "unat (mHandle b) < length (mHandleToObject P)"
    using held_entered [OF assms(1,2)] assms(3) by auto
  then have "lookupHandleLocked grows (mHandle b) P = Some P" by (simp add: lookupHandleLocked_def)
  then show ?thesis using e assms(3) by (auto simp: getStrongProxyForHandle_def current_proxy_def attemptIncWeak_def case_prod_beta Let_def)
qed

text \<open>
  C15. Whatever the threads of a process do, the table of proxies is sound. Looking up a handle never touches a proxy that is gone. A proxy to
  which anybody holds a reference (a strong or weak pointer, or a death notification that the driver has not confirmed as cleared) exists and is the entry of its
  handle, so that there is one for each handle, and looking up the handle gives back this one. Recipients are told of a death while the
  proxy exists. A proxy that is about to be deleted has no holder and no obituaries left, also when another one has taken its place in the table.
\<close>

theorem proxy_table_safe:
  assumes "client_steps start_clients c"
  shows "getStrongProxyForHandle grows ping a h (px c) \<noteq> None \<and> getWeakProxyForHandle grows a h (px c) \<noteq> None
    \<and> (\<forall>x. held c x \<noteq> nobody \<longrightarrow> (\<exists>b. bps (px c) x = Some b
          \<and> mHandleToObject (px c) ! unat (mHandle b) = \<lparr>e_proxy = Some x, e_refs = Some x\<rparr>
          \<and> (\<exists>out P. getStrongProxyForHandle grows ping a (mHandle b) (px c) = Some (Some x, out, P))))
    \<and> (\<forall>(x, ob) \<in># telling c. held c x \<noteq> nobody)
    \<and> (\<forall>x b. bps (px c) x = Some b \<longrightarrow> mWeak (counts b) = 0 \<longrightarrow> held c x = nobody \<and> mObituaries b = None)"
proof (intro conjI allI impI)
  have run: "run_ok c" using client_steps_ok [OF assms] by simp
  then have ok: "proxies_ok (px c) (held c)" by (simp add: run_ok_def)
  show "getStrongProxyForHandle grows ping a h (px c) \<noteq> None" "getWeakProxyForHandle grows a h (px c) \<noteq> None" by (fact lookups_return [OF ok])+
  show "\<exists>b. bps (px c) x = Some b \<and> mHandleToObject (px c) ! unat (mHandle b) = \<lparr>e_proxy = Some x, e_refs = Some x\<rparr>
      \<and> (\<exists>out P. getStrongProxyForHandle grows ping a (mHandle b) (px c) = Some (Some x, out, P))" if "held c x \<noteq> nobody" for x
    using held_entered [OF ok that] lookup_finds [OF ok that] by metis
  show "\<forall>(x, ob) \<in># telling c. held c x \<noteq> nobody" using run by (fastforce simp: run_ok_def)
  show "held c x = nobody" "mObituaries b = None" if "bps (px c) x = Some b" "mWeak (counts b) = 0" for x b
    using bp_unused(1,2) [OF proxies_okD(4) [OF ok that(1)]] that(2) by simp_all
qed

lemma weak_sum: "finite (dom m) \<Longrightarrow> over (\<lambda>a. weak_at h) m = int (card {a. \<exists>b. m a = Some b \<and> mHandle b = h})"
proof -
  assume fin: "finite (dom m)"
  have "over (\<lambda>a. weak_at h) m = (\<Sum>a\<in>dom m. of_bool (\<exists>b. m a = Some b \<and> mHandle b = h))"
    unfolding over_def by (rule sum.cong) auto
  also have "\<dots> = int (card ({a. \<exists>b. m a = Some b \<and> mHandle b = h} \<inter> dom m))" using fin by (simp add: Int_commute Collect_conj_eq)
  also have "{a. \<exists>b. m a = Some b \<and> mHandle b = h} \<inter> dom m = {a. \<exists>b. m a = Some b \<and> mHandle b = h}" by auto
  finally show ?thesis .
qed

lemma strong_sum:
  assumes "proxies_ok P H"
  shows "over (\<lambda>a. strong_at h) (bps P) = of_bool (\<exists>a b. bps P a = Some b \<and> mHandle b = h \<and> 0 < strong_of (H a))"
proof (cases "\<exists>a b. bps P a = Some b \<and> mHandle b = h \<and> 0 < strong_of (H a)")
  case True
  then obtain a b where ab: "bps P a = Some b" "mHandle b = h" "0 < strong_of (H a)" by blast
  have "H a \<noteq> nobody" using ab(3) by auto
  then have entry: "mHandleToObject P ! unat h = \<lparr>e_proxy = Some a, e_refs = Some a\<rparr>" using held_entered [OF assms] ab(1,2) by force
  have rest: "strong_at h (bps P x) = 0" if x: "x \<in> dom (bps P) - {a}" for x
  proof -
    obtain y where y: "bps P x = Some y" "x \<noteq> a" using x by auto
    have "strong_of (H x) = 0" if "mHandle y = h"
    proof (rule ccontr)
      assume "strong_of (H x) \<noteq> 0"
      then have "H x \<noteq> nobody" by auto
      then show False using held_entered [OF assms, of x] y that entry by force
    qed
    then show ?thesis using y(1) bp_okD(4) [OF proxies_okD(4) [OF assms y(1)]] by simp
  qed
  have "over (\<lambda>a. strong_at h) (bps P) = strong_at h (bps P a) + (\<Sum>x\<in>dom (bps P) - {a}. strong_at h (bps P x))"
    unfolding over_def using ab(1) by (intro sum.remove proxies_okD(1) [OF assms]) auto
  also have "\<dots> = 1" using ab bp_okD(4) [OF proxies_okD(4) [OF assms ab(1)]] rest by simp
  finally show ?thesis using True by simp
next
  case False
  have "strong_at h (bps P x) = 0" for x
    using False bp_okD(4) [OF proxies_okD(4) [OF assms, of x]] by (cases "bps P x") auto
  then show ?thesis using False by (simp add: over_def)
qed

text \<open>
  C16. The commands of all threads, in whatever order the operations happen, tell the driver exactly what the process holds: for every handle, one weak
  reference for each proxy (the one in use, and those about to be deleted), one strong reference if somebody holds a strong pointer, and
  a death notification for a proxy as long as it has obituaries. In particular all of it is given back when the last proxy is deleted.
\<close>

theorem proxy_commands_balance:
  assumes "client_steps start_clients c"
  shows "net C_Increfs C_Decrefs h (sent c) = int (card {a. \<exists>b. bps (px c) a = Some b \<and> mHandle b = h})
    \<and> net C_Acquire C_Release h (sent c) = of_bool (\<exists>a b. bps (px c) a = Some b \<and> mHandle b = h \<and> 0 < strong_of (held c a))
    \<and> deaths h x (sent c) = of_bool (\<exists>b. bps (px c) x = Some b \<and> mHandle b = h \<and> mObituaries b \<noteq> None)"
proof -
  have ok: "proxies_ok (px c) (held c)" "told_driver c" using client_steps_ok [OF assms] by (auto simp: run_ok_def)
  have "death_at h (bps (px c) x) = of_bool (\<exists>b. bps (px c) x = Some b \<and> mHandle b = h \<and> mObituaries b \<noteq> None)"
    by (cases "bps (px c) x") auto
  then show ?thesis using ok(2) weak_sum [OF proxies_okD(1) [OF ok(1)]] strong_sum [OF ok(1)] by (simp add: told_driver_def)
qed

text \<open>
  C17. Every obituary is accounted for: one that \<open>linkToDeath\<close> has accepted is withdrawn by \<open>unlinkToDeath\<close>, still registered with its proxy, being told,
  or has been told, and it is so exactly once, whichever threads link, unlink and report at the same time. After a
  report of the death nothing is left registered and nothing can be registered any more.
\<close>

theorem obituaries_told_once:
  assumes "client_steps start_clients c"
  shows "linked c = unlinked c + telling c + told c + registered c
    \<and> (\<forall>x b. bps (px c) x = Some b \<longrightarrow> mObitsSent b \<longrightarrow>
          mObituaries b = None \<and> linkToDeath room x ob b = (DEAD_OBJECT, [], b) \<and> fst (unlinkToDeath x r ck fl b) = DEAD_OBJECT)"
proof -
  have ok: "proxies_ok (px c) (held c)" "obits_sum c" using client_steps_ok [OF assms] by (auto simp: run_ok_def)
  have "mObituaries b = None" if "bps (px c) x = Some b" "mObitsSent b" for x b
    using bp_okD(6) [OF proxies_okD(4) [OF ok(1) that(1)] that(2)] .
  then show ?thesis using ok(2) by (simp add: obits_sum_def linkToDeath_def unlinkToDeath_def)
qed

text \<open>Without \<open>BC_ATTEMPT_ACQUIRE\<close>, a weak pointer to a proxy without strong references can never be promoted.\<close>

lemma weak_proxy_not_promoted:
  assumes "client_steps start_clients c" and "bps (px c) a = Some b" and "strong_of (held c a) = 0"
  shows "promote a (px c) = Some (False, px c)"
proof -
  have "bp_ok (held c a) b" using client_steps_ok [OF assms(1)] proxies_okD(4) [OF _ assms(2)] by (auto simp: run_ok_def)
  then show ?thesis using assms(2,3) by (auto simp: promote_def attemptIncStrong_def attemptIncStrongHandle_def bp_ok_def)
qed

section \<open>A run\<close>

text \<open>A thread gets the proxy of handle 1, at the address 16, and links a recipient to its death, which another thread reports.\<close>

abbreviation an_obit :: obituary where
  "an_obit \<equiv> \<lparr>ob_recipient = Some 64, ob_cookie = 0, ob_flags = 0\<rparr>"

abbreviation some_counts :: "int \<Rightarrow> weakref_impl" where
  "some_counts w \<equiv> \<lparr>mStrong = 1, mWeak = w, mFlags = OBJECT_LIFETIME_WEAK, object = True, impl = True, taken = 1\<rparr>"

abbreviation run_table :: "handle_entry list" where
  "run_table \<equiv> [\<lparr>e_proxy = None, e_refs = None\<rparr>, \<lparr>e_proxy = Some 16, e_refs = Some 16\<rparr>]"

definition run_got :: clients where
  "run_got = \<lparr>px = \<lparr>mHandleToObject = run_table,
       bps = [16 \<mapsto> \<lparr>mHandle = 1, mAlive = True, mObitsSent = False, mObituaries = None, counts = some_counts 1\<rparr>]\<rparr>,
     held = (\<lambda>_. nobody)(16 := nobody\<lparr>strong_of := 1\<rparr>), sent = [C_Increfs 1, C_Acquire 1],
     linked = {#}, unlinked = {#}, telling = {#}, told = {#}\<rparr>"

definition run_linked :: clients where
  "run_linked = run_got\<lparr>px := \<lparr>mHandleToObject = run_table,
       bps = [16 \<mapsto> \<lparr>mHandle = 1, mAlive = True, mObitsSent = False, mObituaries = Some [an_obit], counts = some_counts 2\<rparr>]\<rparr>,
     held := (\<lambda>_. nobody)(16 := nobody\<lparr>strong_of := 1, requests := 1\<rparr>), sent := [C_Increfs 1, C_Acquire 1, C_Request_Death 1 16],
     linked := {#(16, an_obit)#}\<rparr>"

definition run_dead :: clients where
  "run_dead = run_linked\<lparr>px := \<lparr>mHandleToObject = run_table,
       bps = [16 \<mapsto> \<lparr>mHandle = 1, mAlive = False, mObitsSent = True, mObituaries = None, counts = some_counts 2\<rparr>]\<rparr>,
     held := (\<lambda>_. nobody)(16 := nobody\<lparr>strong_of := 1, requests := 1, clearing := 1, reporting := 1\<rparr>),
     sent := [C_Increfs 1, C_Acquire 1, C_Request_Death 1 16, C_Clear_Death 1 16], telling := {#(16, an_obit)#}\<rparr>"

lemma run_gets: "client_step start_clients run_got"
proof -
  have "getStrongProxyForHandle (\<lambda>_. True) 0 16 1 (px start_clients) = Some (Some 16, [Cmd (C_Increfs 1), Cmd (C_Acquire 1)], px run_got)"
    by (simp add: getStrongProxyForHandle_def lookupHandleLocked_def current_proxy_def start_clients_def no_proxies_def run_got_def BpBinder_def
        RefBase_def ref_ops ask_defs new_proxy_def put_bp_def Let_def eval_nat_numeral)
  then have "client_step start_clients (goes (px run_got) [Cmd (C_Increfs 1), Cmd (C_Acquire 1)] (gained more_strong (Some 16) start_clients))"
    by (intro gets_strong) (simp_all add: few_def start_clients_def no_proxies_def)
  moreover have "goes (px run_got) [Cmd (C_Increfs 1), Cmd (C_Acquire 1)] (gained more_strong (Some 16) start_clients) = run_got"
    by (simp add: goes_def hold_def start_clients_def run_got_def more_strong_def)
  ultimately show ?thesis by simp
qed

lemma run_links: "client_step run_got run_linked"
proof -
  let ?b = "\<lparr>mHandle = 1, mAlive = True, mObitsSent = False, mObituaries = None, counts = some_counts 1\<rparr>"
  let ?b' = "\<lparr>mHandle = 1, mAlive = True, mObitsSent = False, mObituaries = Some [an_obit], counts = some_counts 2\<rparr>"
  have "linkToDeath True 16 an_obit ?b = (0, [Cmd (C_Request_Death 1 16), Flush], ?b')" by (simp add: linkToDeath_def ask_defs ref_ops)
  then have "client_step run_got (goes (put_bp 16 ?b' (px run_got)) [Cmd (C_Request_Death 1 16), Flush]
      ((hold 16 (requested True) run_got)\<lparr>linked := linked run_got + {#(16, an_obit)#}\<rparr>))"
    using links [of run_got 16 ?b True an_obit 0 "[Cmd (C_Request_Death 1 16), Flush]" ?b'] by (simp add: few_def run_got_def)
  moreover have "goes (put_bp 16 ?b' (px run_got)) [Cmd (C_Request_Death 1 16), Flush]
      ((hold 16 (requested True) run_got)\<lparr>linked := linked run_got + {#(16, an_obit)#}\<rparr>) = run_linked"
    by (simp add: goes_def hold_def run_got_def run_linked_def requested_def put_bp_def)
  ultimately show ?thesis by simp
qed

lemma run_dies: "client_step run_linked run_dead"
proof -
  let ?b = "\<lparr>mHandle = 1, mAlive = True, mObitsSent = False, mObituaries = Some [an_obit], counts = some_counts 2\<rparr>"
  let ?b' = "\<lparr>mHandle = 1, mAlive = False, mObitsSent = True, mObituaries = None, counts = some_counts 2\<rparr>"
  let ?out = "[Cmd (C_Clear_Death 1 16), Flush]"
  have "sendObituary 16 ?b = ([an_obit], ?out, ?b')" by (simp add: sendObituary_def take_obituaries_def ask_defs)
  then have "client_step run_linked (goes (put_bp 16 ?b' (px run_linked)) ?out
      ((hold 16 (more_reports \<circ> cleared True) run_linked)\<lparr>telling := telling run_linked + {#(16, an_obit)#}\<rparr>))"
    using dies [of run_linked 16 ?b "[an_obit]" ?out ?b'] by (simp add: run_linked_def run_got_def)
  moreover have "goes (put_bp 16 ?b' (px run_linked)) ?out
      ((hold 16 (more_reports \<circ> cleared True) run_linked)\<lparr>telling := telling run_linked + {#(16, an_obit)#}\<rparr>) = run_dead"
    by (simp add: goes_def hold_def run_got_def run_linked_def run_dead_def more_reports_def cleared_def put_bp_def)
  ultimately show ?thesis by simp
qed

lemma run_to_linked: "client_steps start_clients run_linked" and run_to_dead: "client_steps start_clients run_dead"
  using run_gets run_links run_dies by (meson rtranclp.rtrancl_into_rtrancl rtranclp.rtrancl_refl)+

theorem proxy_table_safe_witness:
  "\<exists>out P. getStrongProxyForHandle (\<lambda>_. True) 0 32 1 (px run_dead) = Some (Some 16, out, P)"
proof -
  have "held run_dead 16 \<noteq> nobody" by (simp add: run_dead_def)
  then obtain b where "bps (px run_dead) 16 = Some b" "\<exists>out P. getStrongProxyForHandle (\<lambda>_. True) 0 32 (mHandle b) (px run_dead) = Some (Some 16, out, P)"
    using proxy_table_safe [OF run_to_dead, of "\<lambda>_. True" 0 32 1] by blast
  then show ?thesis by (auto simp: run_dead_def)
qed

theorem proxy_commands_balance_witness:
  "net C_Increfs C_Decrefs 1 (sent run_linked) = 1 \<and> net C_Acquire C_Release 1 (sent run_linked) = 1 \<and> deaths 1 16 (sent run_linked) = 1"
  using proxy_commands_balance [OF run_to_linked, of 1 16] by (simp add: run_linked_def run_got_def)

theorem obituaries_told_once_witness:
  "linked run_dead = unlinked run_dead + telling run_dead + told run_dead + registered run_dead
    \<and> linkToDeath True 16 an_obit (the (bps (px run_dead) 16)) = (DEAD_OBJECT, [], the (bps (px run_dead) 16))"
  using obituaries_told_once [OF run_to_dead, of True an_obit None 0 0] by (simp add: run_dead_def)

end
