(* ===== verification/Ipc.thy ===== *)
theory Ipc
  imports Parcel_Read Proxy
begin

text \<open>
  A thread of a client process (\<open>libs/binder/IPCThreadState.cpp\<close>) with the state of its process (\<open>ProcessState.cpp\<close>): the exchange with the driver,
  calls to other processes and waiting for their replies, and the commands that the driver sends. \<open>mIn\<close> and \<open>mOut\<close> are two parcels without objects, represented by
  their bytes; memory for them never runs out.
\<close>

unbundle bit_operations_syntax

section \<open>Codes\<close>

definition BR_ACQUIRE_RESULT :: u32 where "BR_ACQUIRE_RESULT = br_code 4 4"
definition BR_ATTEMPT_ACQUIRE :: u32 where "BR_ATTEMPT_ACQUIRE = br_code 11 24"
definition BR_FINISHED :: u32 where "BR_FINISHED = br_code 14 0"

abbreviation TIMED_OUT :: int where "TIMED_OUT \<equiv> - 110"
abbreviation UNKNOWN_TRANSACTION :: int where "UNKNOWN_TRANSACTION \<equiv> - 74"
abbreviation FAILED_TRANSACTION :: int where "FAILED_TRANSACTION \<equiv> - 2147483646"
abbreviation ECONNREFUSED :: int where "ECONNREFUSED \<equiv> 111"

section \<open>State\<close>

text \<open>
  What the driver answers to one \<open>BINDER_WRITE_READ\<close>: zero or a negative error, \<open>write_consumed\<close>, the \<open>read_consumed\<close> bytes that it has put into the read buffer, and whether
  another thread has closed the descriptor meanwhile (\<open>stopProcess\<close>).
\<close>

record drv_answer =
  a_err :: int
  a_written :: nat
  a_read :: "byte list"
  a_closed :: bool

text \<open>What a thread does to local objects, by address: references of \<open>BBinder\<close>s, of their \<open>weakref_type\<close>s, and calls.\<close>

datatype object_call = Inc_Strong u64 | Dec_Strong u64 | Inc_Weak_Of u64 | Dec_Weak_Of u64 | Call "u64 option" u32 | Died u64 u64

text \<open>
  The first fields are those of \<open>IPCThreadState\<close>, then come those of \<open>ProcessState\<close> (\<open>mLock_held\<close>: whether this thread holds \<open>mLock\<close>), the parcels' world, and
  what goes on outside: answers of the driver that are still to come, the commands that it has accepted so far, and the calls of objects.
\<close>

record ipc =
  mIn :: "byte list"
  mInPos :: nat
  mOut :: "byte list"
  mLastError :: int
  mCallingPid :: u32
  mCallingUid :: u32
  mStrictModePolicy :: u32
  mLastTransactionBinderFlags :: u32
  mPendingStrongDerefs :: "u64 list"
  mPendingWeakDerefs :: "u64 list"
  mDriverFD :: int
  mExecutingThreadsCount :: nat
  mThreadPoolStarted :: bool
  mThreadPoolSeq :: nat
  mLock_held :: bool
  mProxies :: proxies
  world_of :: world
  answers :: "drv_answer list"
  accepted :: "byte list"
  object_calls :: "object_call list"
  spawned :: nat

text \<open>
  Ways not to return: the driver has no answer yet, the thread waits for a lock of its own, an access outside of memory, \<open>abort\<close>; \<open>No_Fuel\<close> is the bound on the
  number of rounds of a loop.
\<close>

datatype halt = Waits | Deadlock | Fault | Abort | No_Fuel

definition and_then :: "halt + 'a \<Rightarrow> ('a \<Rightarrow> halt + 'b) \<Rightarrow> halt + 'b" where
  "and_then r f = (case r of Inl h \<Rightarrow> Inl h | Inr x \<Rightarrow> f x)"

lemma and_then_simps [simp]: "and_then (Inl h) f = Inl h" "and_then (Inr x) f = f x"
  by (simp_all add: and_then_def)

lemma and_then_Inr: "and_then r f = Inr y \<longleftrightarrow> (\<exists>x. r = Inr x \<and> f x = Inr y)"
  by (cases r) auto

definition or_fault :: "'a option \<Rightarrow> halt + 'a" where
  "or_fault r = (case r of None \<Rightarrow> Inl Fault | Some x \<Rightarrow> Inr x)"

lemma or_fault_simps [simp]: "or_fault None = Inl Fault" "or_fault (Some x) = Inr x"
  by (simp_all add: or_fault_def)

lemma or_fault_Inr: "or_fault r = Inr x \<longleftrightarrow> r = Some x"
  by (cases r) auto

text \<open>
  The surroundings: the allocator for parcels, the ids of the process, what received buffers and status codes contain, the addresses of a parcel's memory, \<open>attemptIncStrong\<close> of local objects, which recipients
  still exist, the code behind an object (\<open>BBinder::transact\<close>; no address is \<open>the_context_object\<close>), which gives back its status and the reply, and what
  a recipient does when it is told of a death.
\<close>

record ipc_env =
  libc_of :: libc
  getpid :: u32
  getuid :: u32
  received :: "binder_transaction_data \<Rightarrow> byte list \<times> nat list"
  status_in :: "binder_transaction_data \<Rightarrow> int"
  data_at :: "parcel \<Rightarrow> u64"
  objects_at :: "parcel \<Rightarrow> u64"
  status_at :: u64
  alive :: "u64 \<Rightarrow> ipc \<Rightarrow> bool"
  promotes_to :: "u64 \<Rightarrow> bool"
  local_transact :: "u64 option \<Rightarrow> u32 \<Rightarrow> parcel \<Rightarrow> u32 \<Rightarrow> ipc \<Rightarrow> halt + int \<times> parcel \<times> ipc"
  binder_died :: "u64 \<Rightarrow> u64 \<Rightarrow> ipc \<Rightarrow> halt + ipc"

definition calls_object :: "object_call \<Rightarrow> ipc \<Rightarrow> ipc" where
  "calls_object c s = s\<lparr>object_calls := object_calls s @ [c]\<rparr>"

section \<open>The two buffers\<close>

text \<open>\<open>mOut.writeInt32\<close>, \<open>writePointer\<close> and \<open>write\<close> for one command.\<close>

definition put_command :: "command \<Rightarrow> ipc \<Rightarrow> ipc" where
  "put_command c s = s\<lparr>mOut := mOut s @ command_bytes c\<rparr>"

text \<open>\<open>mIn.readInt32\<close>, \<open>mIn.readPointer\<close>, which give 0 when not enough is left, and \<open>mIn.read\<close> of a \<open>binder_transaction_data\<close>.\<close>

definition in_avail :: "ipc \<Rightarrow> nat" where
  "in_avail s = length (mIn s) - mInPos s"

definition in_u32 :: "ipc \<Rightarrow> u32 \<times> ipc" where
  "in_u32 s = (case get_u32 (mIn s) (mInPos s) of Some w \<Rightarrow> (w, s\<lparr>mInPos := mInPos s + 4\<rparr>) | None \<Rightarrow> (0, s))"

definition in_u64 :: "ipc \<Rightarrow> u64 \<times> ipc" where
  "in_u64 s = (case get_u64 (mIn s) (mInPos s) of Some w \<Rightarrow> (w, s\<lparr>mInPos := mInPos s + 8\<rparr>) | None \<Rightarrow> (0, s))"

definition in_transaction :: "ipc \<Rightarrow> binder_transaction_data option \<times> ipc" where
  "in_transaction s = (case get_range (mIn s) (mInPos s) 64 of
       Some bs \<Rightarrow> (get_transaction_data bs, s\<lparr>mInPos := mInPos s + 64\<rparr>)
     | None \<Rightarrow> (None, s))"

section \<open>Talking with the driver\<close>

abbreviation in_capacity :: nat where "in_capacity \<equiv> 256"

text \<open>The loop around \<open>ioctl\<close>: interrupted calls are repeated with the same \<open>binder_write_read\<close>, whose counts go on.\<close>

fun ioctl_write_read :: "drv_answer list \<Rightarrow> (int \<times> drv_answer \<times> drv_answer list) option" where
  "ioctl_write_read [] = None"
| "ioctl_write_read (a # rest) =
     (let err = (if a_closed a then - EBADF else a_err a) in if err = - EINTR then ioctl_write_read rest else Some (err, a, rest))"

text \<open>\<open>Parcel::remove\<close> does nothing, so that commands stay in \<open>mOut\<close> when the driver has taken only some of them.\<close>

definition talkWithDriver :: "bool \<Rightarrow> ipc \<Rightarrow> halt + int \<times> ipc" where
  "talkWithDriver doReceive s =
     (if mDriverFD s \<le> 0 then Inr (- EBADF, s)
      else let needRead = (mInPos s \<ge> length (mIn s));
               outAvail = (if \<not> doReceive \<or> needRead then length (mOut s) else 0);
               read_size = (if doReceive \<and> needRead then in_capacity else 0)
           in if outAvail = 0 \<and> read_size = 0 then Inr (NO_ERROR, s)
              else case ioctl_write_read (answers s) of
                None \<Rightarrow> Inl Waits
              | Some (err, a, rest) \<Rightarrow>
                  let s1 = s\<lparr>answers := rest, accepted := accepted s @ take (a_written a) (take outAvail (mOut s)),
                             mDriverFD := (if a_closed a then - 1 else mDriverFD s)\<rparr>
                  in if err \<ge> NO_ERROR
                     then Inr (NO_ERROR, s1\<lparr>mOut := (if a_written a > 0 \<and> \<not> a_written a < length (mOut s) then [] else mOut s),
                            mIn := (if a_read a \<noteq> [] then a_read a else mIn s), mInPos := (if a_read a \<noteq> [] then 0 else mInPos s)\<rparr>)
                     else Inr (err, s1))"

definition flushCommands :: "ipc \<Rightarrow> halt + ipc" where
  "flushCommands s = (if mDriverFD s \<le> 0 then Inr s else and_then (talkWithDriver False s) (\<lambda>(_, s1). Inr s1))"

fun perform :: "ask list \<Rightarrow> ipc \<Rightarrow> halt + ipc" where
  "perform [] s = Inr s"
| "perform (Cmd c # out) s = perform out (put_command c s)"
| "perform (Flush # out) s = and_then (flushCommands s) (perform out)"

section \<open>Parcels of a thread\<close>

text \<open>\<open>freeBuffer\<close> for a buffer that no parcel refers to.\<close>

definition freeBuffer :: "binder_transaction_data \<Rightarrow> ipc \<Rightarrow> ipc" where
  "freeBuffer tr s = put_command (C_Free_Buffer (td_buffer tr)) s"

fun buffers_freed :: "parcel_event list \<Rightarrow> command list" where
  "buffers_freed [] = []"
| "buffers_freed (Free_Buffer a # es) = C_Free_Buffer a # buffers_freed es"
| "buffers_freed (_ # es) = buffers_freed es"

text \<open>The destructor of a parcel; \<open>freeBuffer\<close>, called as its release function, writes the command.\<close>

definition delete_Parcel :: "ipc_env \<Rightarrow> parcel \<Rightarrow> ipc \<Rightarrow> halt + ipc" where
  "delete_Parcel e p s = and_then (or_fault (freeDataNoInit (libc_of e) p (world_of s)))
     (\<lambda>(_, w). Inr (fold put_command (buffers_freed (drop (length (parcel_events (world_of s))) (parcel_events w))) (s\<lparr>world_of := w\<rparr>)))"

definition refer_to :: "ipc_env \<Rightarrow> binder_transaction_data \<Rightarrow> parcel \<Rightarrow> ipc \<Rightarrow> halt + parcel \<times> ipc" where
  "refer_to e tr p s = and_then (or_fault (ipcSetDataReference (libc_of e) (fst (received e tr)) (snd (received e tr)) (td_buffer tr) p (world_of s)))
     (\<lambda>(p1, w). Inr (p1, fold put_command (buffers_freed (drop (length (parcel_events (world_of s))) (parcel_events w))) (s\<lparr>world_of := w\<rparr>)))"

text \<open>\<open>writeTransactionData\<close>; \<open>mk\<close> makes a \<open>BC_TRANSACTION\<close> or a \<open>BC_REPLY\<close>, \<open>status\<close> says whether there is a \<open>statusBuffer\<close>.\<close>

definition transaction_of :: "ipc_env \<Rightarrow> u32 \<Rightarrow> u32 \<Rightarrow> u32 \<Rightarrow> parcel \<Rightarrow> binder_transaction_data" where
  "transaction_of e flags h code p =
     \<lparr>td_target = ucast h, td_cookie = 0, td_code = code, td_flags = flags, td_sender_pid = 0, td_sender_euid = 0,
      td_data_size = word_of_nat (dataSize p), td_offsets_size = word_of_nat (8 * mObjectsSize p), td_buffer = data_at e p, td_offsets = objects_at e p\<rparr>"

definition writeTransactionData ::
  "ipc_env \<Rightarrow> (binder_transaction_data \<Rightarrow> command) \<Rightarrow> u32 \<Rightarrow> u32 \<Rightarrow> u32 \<Rightarrow> parcel \<Rightarrow> bool \<Rightarrow> ipc \<Rightarrow> int \<times> ipc" where
  "writeTransactionData e mk flags h code p status s =
     (if mError p = NO_ERROR then (NO_ERROR, put_command (mk (transaction_of e flags h code p)) s)
      else if status
      then (NO_ERROR, put_command (mk ((transaction_of e flags h code p)\<lparr>td_flags := flags OR TF_STATUS_CODE, td_data_size := 4,
             td_offsets_size := 0, td_buffer := status_at e, td_offsets := 0\<rparr>)) s)
      else (mError p, s\<lparr>mLastError := mError p\<rparr>))"

section \<open>Identity of the caller\<close>

definition clearCaller :: "ipc_env \<Rightarrow> ipc \<Rightarrow> ipc" where
  "clearCaller e s = s\<lparr>mCallingPid := getpid e, mCallingUid := getuid e\<rparr>"

text \<open>The token: \<open>mCallingPid\<close> is signed and extended to 64 bits, \<open>mCallingUid\<close> is not.\<close>

definition clearCallingIdentity :: "ipc_env \<Rightarrow> ipc \<Rightarrow> u64 \<times> ipc" where
  "clearCallingIdentity e s = (push_bit 32 (ucast (mCallingUid s)) OR scast (mCallingPid s), clearCaller e s)"

definition restoreCallingIdentity :: "u64 \<Rightarrow> ipc \<Rightarrow> ipc" where
  "restoreCallingIdentity token s = s\<lparr>mCallingUid := ucast (drop_bit 32 token), mCallingPid := ucast token\<rparr>"

section \<open>Commands of the driver\<close>

definition spawnPooledThread :: "ipc \<Rightarrow> ipc" where
  "spawnPooledThread s = (if mThreadPoolStarted s then s\<lparr>mThreadPoolSeq := mThreadPoolSeq s + 1, spawned := spawned s + 1\<rparr> else s)"

definition startThreadPool :: "ipc \<Rightarrow> ipc" where
  "startThreadPool s = (if mThreadPoolStarted s then s else spawnPooledThread (s\<lparr>mThreadPoolStarted := True\<rparr>))"

text \<open>\<open>sendReply\<close>; \<open>wait\<close> is \<open>waitForResponse (NULL, NULL)\<close>.\<close>

definition sendReply :: "ipc_env \<Rightarrow> (ipc \<Rightarrow> halt + int \<times> ipc) \<Rightarrow> parcel \<Rightarrow> u32 \<Rightarrow> ipc \<Rightarrow> halt + int \<times> ipc" where
  "sendReply e wait reply flags s =
     (let (err, s1) = writeTransactionData e C_Reply flags (- 1) 0 reply True s in if err < NO_ERROR then Inr (err, s1) else wait s1)"

text \<open>The object that a call is for, with a strong reference on it for the duration of the call.\<close>

definition transact_target :: "ipc_env \<Rightarrow> binder_transaction_data \<Rightarrow> parcel \<Rightarrow> ipc \<Rightarrow> halt + int \<times> parcel \<times> ipc" where
  "transact_target e tr request s =
     (if td_target tr \<noteq> 0
      then if alive e (td_target tr) s
           then and_then (local_transact e (Some (td_cookie tr)) (td_code tr) request (td_flags tr)
                  (calls_object (Call (Some (td_cookie tr)) (td_code tr)) (calls_object (Inc_Strong (td_cookie tr)) s)))
                  (\<lambda>(err, reply, s1). Inr (err, reply, calls_object (Dec_Strong (td_cookie tr)) s1))
           else Inr (UNKNOWN_TRANSACTION, initState, s)
      else local_transact e None (td_code tr) request (td_flags tr) (calls_object (Call None (td_code tr)) s))"

definition as_caller :: "binder_transaction_data \<Rightarrow> ipc \<Rightarrow> ipc" where
  "as_caller tr s = s\<lparr>mCallingPid := td_sender_pid tr, mCallingUid := td_sender_euid tr, mLastTransactionBinderFlags := td_flags tr\<rparr>"

definition as_before :: "ipc \<Rightarrow> ipc \<Rightarrow> ipc" where
  "as_before s s1 = s1\<lparr>mCallingPid := mCallingPid s, mCallingUid := mCallingUid s, mStrictModePolicy := mStrictModePolicy s,
     mLastTransactionBinderFlags := mLastTransactionBinderFlags s\<rparr>"

definition execute_transaction :: "ipc_env \<Rightarrow> (ipc \<Rightarrow> halt + int \<times> ipc) \<Rightarrow> ipc \<Rightarrow> halt + int \<times> ipc" where
  "execute_transaction e wait s = (case in_transaction s of
       (None, s1) \<Rightarrow> Inr (NOT_ENOUGH_DATA, s1)
     | (Some tr, s1) \<Rightarrow>
         and_then (refer_to e tr initState s1) (\<lambda>(request, s2).
         and_then (transact_target e tr request (as_caller tr s2)) (\<lambda>(error, reply, s3).
         and_then (if td_flags tr AND TF_ONE_WAY = 0
                   then and_then (sendReply e wait (if error < NO_ERROR then setError error reply else reply) 0 s3) (\<lambda>(_, s4). Inr s4)
                   else Inr s3) (\<lambda>s4.
         and_then (delete_Parcel e reply (as_before s2 s4)) (\<lambda>s5.
         and_then (delete_Parcel e request s5) (\<lambda>s6. Inr (NO_ERROR, s6)))))))"

text \<open>\<open>BpBinder::sendObituary\<close>, with the recipients called one after the other.\<close>

fun report_deaths :: "ipc_env \<Rightarrow> u64 \<Rightarrow> obituary list \<Rightarrow> ipc \<Rightarrow> halt + ipc" where
  "report_deaths e proxy [] s = Inr s"
| "report_deaths e proxy (ob # obs) s = (case reportOneDeath (promotes_to e) ob of
       None \<Rightarrow> report_deaths e proxy obs s
     | Some r \<Rightarrow> and_then (binder_died e r proxy (calls_object (Died r proxy) s)) (report_deaths e proxy obs))"

definition execute_dead_binder :: "ipc_env \<Rightarrow> ipc \<Rightarrow> halt + ipc" where
  "execute_dead_binder e s =
     (let (proxy, s1) = in_u64 s in
      and_then (or_fault (bps (mProxies s1) proxy)) (\<lambda>b.
      let (obs, out, b1) = sendObituary proxy b in
      and_then (perform out (s1\<lparr>mProxies := put_bp proxy b1 (mProxies s1)\<rparr>)) (\<lambda>s2.
      and_then (report_deaths e proxy obs s2) (\<lambda>s3. Inr (put_command (C_Dead_Done proxy) s3)))))"

text \<open>\<open>decWeak\<close> on a proxy; the destructor needs the lock of the table.\<close>

definition drop_proxy :: "u64 \<Rightarrow> ipc \<Rightarrow> halt + ipc" where
  "drop_proxy proxy s =
     and_then (or_fault (drop_weak proxy (mProxies s))) (\<lambda>(gone, P).
     if \<not> gone then Inr (s\<lparr>mProxies := P\<rparr>)
     else if mLock_held s then Inl Deadlock
     else and_then (or_fault (delete_BpBinder (\<lambda>_. True) proxy P)) (\<lambda>(out, P1). perform out (s\<lparr>mProxies := P1\<rparr>)))"

definition set_last_error :: "int \<times> ipc \<Rightarrow> int \<times> ipc" where
  "set_last_error r = (fst r, if fst r \<noteq> NO_ERROR then (snd r)\<lparr>mLastError := fst r\<rparr> else snd r)"

definition run_command :: "ipc_env \<Rightarrow> (ipc \<Rightarrow> halt + int \<times> ipc) \<Rightarrow> u32 \<Rightarrow> ipc \<Rightarrow> halt + int \<times> ipc" where
  "run_command e wait cmd s =
     (if cmd = BR_ERROR then let (r, s1) = in_u32 s in Inr (sint r, s1)
      else if cmd = BR_OK then Inr (NO_ERROR, s)
      else if cmd = BR_ACQUIRE
      then let (refs, s1) = in_u64 s; (obj, s2) = in_u64 s1 in Inr (NO_ERROR, put_command (C_Acquire_Done refs obj) (calls_object (Inc_Strong obj) s2))
      else if cmd = BR_RELEASE
      then let (refs, s1) = in_u64 s; (obj, s2) = in_u64 s1 in Inr (NO_ERROR, s2\<lparr>mPendingStrongDerefs := mPendingStrongDerefs s2 @ [obj]\<rparr>)
      else if cmd = BR_INCREFS
      then let (refs, s1) = in_u64 s; (obj, s2) = in_u64 s1 in Inr (NO_ERROR, put_command (C_Increfs_Done refs obj) (calls_object (Inc_Weak_Of refs) s2))
      else if cmd = BR_DECREFS
      then let (refs, s1) = in_u64 s; (obj, s2) = in_u64 s1 in Inr (NO_ERROR, s2\<lparr>mPendingWeakDerefs := mPendingWeakDerefs s2 @ [refs]\<rparr>)
      else if cmd = BR_ATTEMPT_ACQUIRE
      then let (refs, s1) = in_u64 s; (obj, s2) = in_u64 s1; ok = alive e refs s2
           in Inr (NO_ERROR, put_command (C_Acquire_Result (of_bool ok)) (if ok then calls_object (Inc_Strong obj) s2 else s2))
      else if cmd = BR_TRANSACTION then execute_transaction e wait s
      else if cmd = BR_DEAD_BINDER then and_then (execute_dead_binder e s) (\<lambda>s1. Inr (NO_ERROR, s1))
      else if cmd = BR_CLEAR_DEATH_NOTIFICATION_DONE
      then let (proxy, s1) = in_u64 s in and_then (drop_proxy proxy s1) (\<lambda>s2. Inr (NO_ERROR, s2))
      else if cmd = BR_FINISHED then Inr (TIMED_OUT, s)
      else if cmd = BR_NOOP then Inr (NO_ERROR, s)
      else if cmd = BR_SPAWN_LOOPER then Inr (NO_ERROR, spawnPooledThread s)
      else Inr (UNKNOWN_ERROR, s))"

definition executeCommand :: "ipc_env \<Rightarrow> (ipc \<Rightarrow> halt + int \<times> ipc) \<Rightarrow> u32 \<Rightarrow> ipc \<Rightarrow> halt + int \<times> ipc" where
  "executeCommand e wait cmd s = and_then (run_command e wait cmd s) (\<lambda>r. Inr (set_last_error r))"

section \<open>Waiting for a response\<close>

type_synonym waiting = "parcel option \<Rightarrow> int option \<Rightarrow> ipc \<Rightarrow> halt + int \<times> parcel option \<times> int option \<times> ipc"

text \<open>\<open>reply\<close> and \<open>acquire\<close> are the two pointers, \<open>None\<close> for \<open>NULL\<close>.\<close>

definition finish :: "int \<Rightarrow> waiting" where
  "finish err reply acquire s =
     (if err \<noteq> NO_ERROR then Inr (err, map_option (setError err) reply, map_option (\<lambda>_. err) acquire, s\<lparr>mLastError := err\<rparr>)
      else Inr (err, reply, acquire, s))"

text \<open>\<open>BR_REPLY\<close>; \<open>again\<close> continues the loop.\<close>

definition got_reply :: "ipc_env \<Rightarrow> waiting \<Rightarrow> waiting" where
  "got_reply e again reply acquire s = (case in_transaction s of
       (None, s1) \<Rightarrow> finish NOT_ENOUGH_DATA reply acquire s1
     | (Some tr, s1) \<Rightarrow> (case reply of
           None \<Rightarrow> again reply acquire (freeBuffer tr s1)
         | Some p \<Rightarrow>
             if td_flags tr AND TF_STATUS_CODE = 0
             then and_then (refer_to e tr p s1) (\<lambda>(p1, s2). finish NO_ERROR (Some p1) acquire s2)
             else finish (status_in e tr) reply acquire (freeBuffer tr s1)))"

text \<open>\<open>waitForResponse (NULL, NULL)\<close>, as \<open>sendReply\<close> calls it.\<close>

definition nested :: "waiting \<Rightarrow> ipc \<Rightarrow> halt + int \<times> ipc" where
  "nested again s = and_then (again None None s) (\<lambda>(err, _, _, s1). Inr (err, s1))"

definition wait_command :: "ipc_env \<Rightarrow> waiting \<Rightarrow> u32 \<Rightarrow> waiting" where
  "wait_command e again cmd reply acquire s =
     (if cmd = BR_TRANSACTION_COMPLETE
      then if reply = None \<and> acquire = None then finish NO_ERROR reply acquire s else again reply acquire s
      else if cmd = BR_DEAD_REPLY then finish DEAD_OBJECT reply acquire s
      else if cmd = BR_FAILED_REPLY then finish FAILED_TRANSACTION reply acquire s
      else if cmd = BR_ACQUIRE_RESULT
      then let (res, s1) = in_u32 s
           in if acquire = None then again reply acquire s1 else finish NO_ERROR reply (Some (if res \<noteq> 0 then NO_ERROR else INVALID_OPERATION)) s1
      else if cmd = BR_REPLY then got_reply e again reply acquire s
      else and_then (executeCommand e (nested again) cmd s) (\<lambda>(err, s1).
           if err \<noteq> NO_ERROR then finish err reply acquire s1 else again reply acquire s1))"

definition wait_once :: "ipc_env \<Rightarrow> waiting \<Rightarrow> waiting" where
  "wait_once e again reply acquire s =
     and_then (talkWithDriver True s) (\<lambda>(err, s1).
     if err < NO_ERROR then finish err reply acquire s1
     else if in_avail s1 = 0 then again reply acquire s1
     else let (cmd, s2) = in_u32 s1 in wait_command e again cmd reply acquire s2)"

text \<open>One unit of fuel is one round of the loop, here or in a loop inside of it.\<close>

fun waitForResponse :: "ipc_env \<Rightarrow> nat \<Rightarrow> waiting" where
  "waitForResponse e 0 reply acquire s = Inl No_Fuel"
| "waitForResponse e (Suc n) reply acquire s = wait_once e (waitForResponse e n) reply acquire s"

definition transact :: "ipc_env \<Rightarrow> nat \<Rightarrow> u32 \<Rightarrow> u32 \<Rightarrow> parcel \<Rightarrow> parcel option \<Rightarrow> u32 \<Rightarrow> ipc \<Rightarrow> halt + int \<times> parcel option \<times> ipc" where
  "transact e n h code data reply flags s =
     (let flags1 = flags OR TF_ACCEPT_FDS;
          (err, s1) = (if mError data = NO_ERROR then writeTransactionData e C_Transaction flags1 h code data False s else (mError data, s))
      in if err \<noteq> NO_ERROR then Inr (err, map_option (setError err) reply, s1\<lparr>mLastError := err\<rparr>)
         else if flags1 AND TF_ONE_WAY = 0
         then (case reply of
             Some p \<Rightarrow> and_then (waitForResponse e n (Some p) None s1) (\<lambda>(err, r, _, s2). Inr (err, r, s2))
           | None \<Rightarrow> and_then (waitForResponse e n (Some initState) None s1) (\<lambda>(err, r, _, s2).
               and_then (delete_Parcel e (the r) s2) (\<lambda>s3. Inr (err, None, s3))))
         else and_then (waitForResponse e n None None s1) (\<lambda>(err, _, _, s2). Inr (err, reply, s2)))"

section \<open>Looking up a handle\<close>

definition IBinder_PING_TRANSACTION :: u32 where "IBinder_PING_TRANSACTION = 0x5f504e47"

text \<open>
  \<open>ProcessState::getStrongProxyForHandle\<close> as a thread runs it, with \<open>mLock\<close> held throughout; when there is no proxy for handle 0 yet, the
  dummy transaction is made under the lock. \<open>a\<close> is the address of a new proxy.
\<close>

definition lookup_handle :: "ipc_env \<Rightarrow> nat \<Rightarrow> u64 \<Rightarrow> u32 \<Rightarrow> ipc \<Rightarrow> halt + u64 option \<times> ipc" where
  "lookup_handle e n a h s =
     (if mLock_held s then Inl Deadlock
      else case lookupHandleLocked (\<lambda>_. True) h (mProxies s) of
        None \<Rightarrow> Inr (None, s)
      | Some P \<Rightarrow>
          and_then (or_fault (current_proxy h P)) (\<lambda>cur.
          and_then (if cur = None \<and> h = 0
                    then and_then (transact e n 0 IBinder_PING_TRANSACTION initState None 0 (s\<lparr>mProxies := P, mLock_held := True\<rparr>)) (\<lambda>(err, _, s1). Inr (err, s1))
                    else Inr (NO_ERROR, s\<lparr>mProxies := P, mLock_held := True\<rparr>)) (\<lambda>(ping, s1).
          and_then (or_fault (getStrongProxyForHandle (\<lambda>_. True) ping a h (mProxies s1))) (\<lambda>(res, out, P1).
          and_then (perform out (s1\<lparr>mProxies := P1\<rparr>)) (\<lambda>s2. Inr (res, s2\<lparr>mLock_held := False\<rparr>))))))"

section \<open>The thread pool\<close>

definition processPendingDerefs :: "ipc \<Rightarrow> ipc" where
  "processPendingDerefs s =
     (if mInPos s \<ge> length (mIn s)
      then s\<lparr>object_calls := object_calls s @ map Dec_Weak_Of (mPendingWeakDerefs s) @ map Dec_Strong (mPendingStrongDerefs s),
             mPendingWeakDerefs := [], mPendingStrongDerefs := []\<rparr>
      else s)"

definition getAndExecuteCommand :: "ipc_env \<Rightarrow> nat \<Rightarrow> ipc \<Rightarrow> halt + int \<times> ipc" where
  "getAndExecuteCommand e n s =
     and_then (talkWithDriver True s) (\<lambda>(err, s1).
     if err \<ge> NO_ERROR
     then if in_avail s1 < 4 then Inr (err, s1)
          else let (cmd, s2) = in_u32 s1 in
            and_then (executeCommand e (nested (waitForResponse e n)) cmd (s2\<lparr>mExecutingThreadsCount := mExecutingThreadsCount s2 + 1\<rparr>)) (\<lambda>(res, s3).
            Inr (res, s3\<lparr>mExecutingThreadsCount := mExecutingThreadsCount s3 - 1\<rparr>))
     else Inr (err, s1))"

fun pool_loop :: "ipc_env \<Rightarrow> nat \<Rightarrow> bool \<Rightarrow> ipc \<Rightarrow> halt + int \<times> ipc" where
  "pool_loop e 0 isMain s = Inl No_Fuel"
| "pool_loop e (Suc n) isMain s =
     and_then (getAndExecuteCommand e n (processPendingDerefs s)) (\<lambda>(res, s1).
     if res < NO_ERROR \<and> res \<noteq> TIMED_OUT \<and> res \<noteq> - ECONNREFUSED \<and> res \<noteq> - EBADF then Inl Abort
     else if res = TIMED_OUT \<and> \<not> isMain then Inr (res, s1)
     else if res \<noteq> - ECONNREFUSED \<and> res \<noteq> - EBADF then pool_loop e n isMain s1
     else Inr (res, s1))"

definition joinThreadPool :: "ipc_env \<Rightarrow> nat \<Rightarrow> bool \<Rightarrow> ipc \<Rightarrow> halt + int \<times> ipc" where
  "joinThreadPool e n isMain s =
     and_then (pool_loop e n isMain (put_command (if isMain then C_Enter_Looper else C_Register_Looper) s)) (\<lambda>(res, s1).
     and_then (talkWithDriver False (put_command C_Exit_Looper s1)) (\<lambda>(_, s2). Inr (res, s2)))"

definition setupPolling :: "ipc \<Rightarrow> int \<times> int option \<times> ipc" where
  "setupPolling s = (if mDriverFD s \<le> 0 then (- EBADF, None, s) else (0, Some (mDriverFD s), put_command C_Enter_Looper s))"

fun polled_loop :: "ipc_env \<Rightarrow> nat \<Rightarrow> ipc \<Rightarrow> halt + int \<times> ipc" where
  "polled_loop e 0 s = Inl No_Fuel"
| "polled_loop e (Suc n) s = and_then (getAndExecuteCommand e n s) (\<lambda>(res, s1).
     if mInPos s1 < length (mIn s1) then polled_loop e n s1 else Inr (res, s1))"

definition handlePolledCommands :: "ipc_env \<Rightarrow> nat \<Rightarrow> ipc \<Rightarrow> halt + int \<times> ipc" where
  "handlePolledCommands e n s =
     and_then (polled_loop e n s) (\<lambda>(res, s1). and_then (flushCommands (processPendingDerefs s1)) (\<lambda>s2. Inr (res, s2)))"

definition stopProcess :: "ipc \<Rightarrow> halt + ipc" where
  "stopProcess s = and_then (flushCommands s) (\<lambda>s1. Inr (s1\<lparr>mDriverFD := - 1\<rparr>))"

section \<open>Threads\<close>

text \<open>A new \<open>IPCThreadState\<close> in the process of \<open>s\<close>; \<open>last_error\<close> is what the memory of \<open>mLastError\<close>, which the constructor leaves alone, contains.\<close>

definition IPCThreadState :: "ipc_env \<Rightarrow> int \<Rightarrow> ipc \<Rightarrow> ipc" where
  "IPCThreadState e last_error s = clearCaller e (s\<lparr>mIn := [], mInPos := 0, mOut := [], mLastError := last_error, mStrictModePolicy := 0,
     mLastTransactionBinderFlags := 0, mPendingStrongDerefs := [], mPendingWeakDerefs := []\<rparr>)"

definition clearLastError :: "ipc \<Rightarrow> int \<times> ipc" where
  "clearLastError s = (mLastError s, s\<lparr>mLastError := NO_ERROR\<rparr>)"

definition blockUntilThreadAvailable :: "nat \<Rightarrow> ipc \<Rightarrow> halt + ipc" where
  "blockUntilThreadAvailable mMaxThreads s = (if mExecutingThreadsCount s \<ge> mMaxThreads then Inl Waits else Inr s)"

text \<open>When a thread ends, it sends what is left; the answer is whether it tells the driver with \<open>BINDER_THREAD_EXIT\<close>.\<close>

definition threadDestructor :: "ipc \<Rightarrow> halt + bool \<times> ipc" where
  "threadDestructor s = and_then (flushCommands s) (\<lambda>s1. Inr (0 < mDriverFD s1, s1))"

end
