(* ===== verification/Ipc_Inv.thy ===== *)
theory Ipc_Inv
  imports Ipc
begin

text \<open>
  How much input a thread has before it: the bytes that it has not read and the answers that are still to come. Every round of its loops uses some of it
  up, which bounds them; and the lemmas on parcels that tie \<open>mIn\<close> and \<open>mOut\<close> to the code of parcels.
\<close>

unbundle bit_operations_syntax

section \<open>Input\<close>

definition to_come :: "drv_answer list \<Rightarrow> nat" where
  "to_come as = (\<Sum>a\<leftarrow>as. length (a_read a) + 1)"

lemma to_come_simps [simp]: "to_come [] = 0" "to_come (a # as) = length (a_read a) + 1 + to_come as"
  by (simp_all add: to_come_def)

definition input :: "ipc \<Rightarrow> nat" where
  "input s = in_avail s + to_come (answers s)"

lemma in_avail_simps [simp]:
  "in_avail (put_command c s) = in_avail s" "in_avail (calls_object oc s) = in_avail s" "answers (put_command c s) = answers s"
  "answers (calls_object oc s) = answers s"
  by (simp_all add: in_avail_def put_command_def calls_object_def)

lemma input_simps [simp]: "input (put_command c s) = input s" "input (calls_object oc s) = input s"
  by (simp_all add: input_def)

lemma input_fields [simp]:
  "input (s\<lparr>mLastError := x1\<rparr>) = input s" "input (s\<lparr>mProxies := x2\<rparr>) = input s" "input (s\<lparr>world_of := x3\<rparr>) = input s"
  "input (s\<lparr>mPendingStrongDerefs := x4\<rparr>) = input s" "input (s\<lparr>mPendingWeakDerefs := x5\<rparr>) = input s"
  "input (s\<lparr>mExecutingThreadsCount := x6\<rparr>) = input s" "input (as_caller tr s) = input s" "input (as_before t s) = input s"
  "input (spawnPooledThread s) = input s" "input (freeBuffer tr s) = input s"
  by (simp_all add: input_def in_avail_def as_caller_def as_before_def spawnPooledThread_def freeBuffer_def put_command_def)

lemma input_fold [simp]: "input (fold put_command cs s) = input s"
  by (induction cs arbitrary: s) simp_all

text \<open>\<open>ends m g r\<close>: \<open>r\<close> has not run out of fuel, and leaves at most \<open>m\<close> of the input.\<close>

definition ends :: "nat \<Rightarrow> ('a \<Rightarrow> ipc) \<Rightarrow> halt + 'a \<Rightarrow> bool" where
  "ends m g r \<longleftrightarrow> (case r of Inl h \<Rightarrow> h \<noteq> No_Fuel | Inr x \<Rightarrow> input (g x) \<le> m)"

lemma ends_simps [simp]: "ends m g (Inl h) \<longleftrightarrow> h \<noteq> No_Fuel" "ends m g (Inr x) \<longleftrightarrow> input (g x) \<le> m"
  by (simp_all add: ends_def)

lemma ends_then:
  assumes "ends m g r" and "\<And>x. r = Inr x \<Longrightarrow> input (g x) \<le> m \<Longrightarrow> ends m g' (f x)"
  shows "ends m g' (and_then r f)"
  using assms by (cases r) auto

lemma ends_mono: "ends m g r \<Longrightarrow> m \<le> m' \<Longrightarrow> ends m' g r"
  by (cases r) auto

lemma ends_fault: "(\<And>x. r = Some x \<Longrightarrow> input (g x) \<le> m) \<Longrightarrow> ends m g (or_fault r)"
  by (cases r) auto

lemma ioctl_to_come: "ioctl_write_read as = Some (err, a, rest) \<Longrightarrow> to_come rest + length (a_read a) < to_come as"
  by (induction as) (auto simp: Let_def split: if_splits)

lemma get_u32_iff: "(get_u32 bs off = None) = (length bs < off + 4)"
  and get_u64_iff: "(get_u64 bs off = None) = (length bs < off + 8)"
  by (auto simp: get_u32_def get_u64_def get_range_def)

lemma in_u32_cases:
  assumes "in_u32 s = (w, s1)"
  obtains (less) "in_avail s < 4" "w = 0" "s1 = s" | (there) "4 \<le> in_avail s" "input s1 + 4 = input s" "s1 = s\<lparr>mInPos := mInPos s + 4\<rparr>"
proof (cases "get_u32 (mIn s) (mInPos s)")
  case None
  then have "length (mIn s) < mInPos s + 4" using get_u32_iff by blast
  then have "in_avail s < 4" by (simp add: in_avail_def)
  moreover have "w = 0" "s1 = s" using assms None by (simp_all add: in_u32_def)
  ultimately show ?thesis by (rule less)
next
  case (Some v)
  then have "mInPos s + 4 \<le> length (mIn s)" by (metis get_u32_iff not_less option.distinct(1))
  moreover have "s1 = s\<lparr>mInPos := mInPos s + 4\<rparr>" using assms Some by (simp add: in_u32_def)
  ultimately show ?thesis by (intro there) (auto simp: in_avail_def input_def)
qed

lemma in_u64_input: "in_u64 s = (w, s1) \<Longrightarrow> input s1 \<le> input s"
  by (auto simp: in_u64_def input_def in_avail_def split: option.splits)

lemma in_u32_input: "in_u32 s = (w, s1) \<Longrightarrow> input s1 \<le> input s"
  by (erule in_u32_cases) auto

lemma in_transaction_input: "in_transaction s = (tr, s1) \<Longrightarrow> input s1 \<le> input s"
  by (auto simp: in_transaction_def input_def in_avail_def split: option.splits)

lemma talk_input: "ends (input s) snd (talkWithDriver d s)"
  by (auto simp: talkWithDriver_def Let_def input_def in_avail_def dest!: ioctl_to_come split: option.splits)

text \<open>A thread with unread input does not ask for more; otherwise it uses up an answer.\<close>

lemma talk_receives:
  assumes "talkWithDriver True s = Inr (err, s1)" and "NO_ERROR \<le> err"
  shows "0 < in_avail s \<and> s1 = s \<or> in_avail s = 0 \<and> input s1 < input s"
proof (cases "mInPos s < length (mIn s)")
  case True
  then show ?thesis using assms by (auto simp: talkWithDriver_def in_avail_def split: if_splits)
next
  case False
  then show ?thesis using assms
    by (auto simp: talkWithDriver_def Let_def input_def in_avail_def dest!: ioctl_to_come split: option.splits if_splits)
qed

lemma flush_input: "ends (input s) (\<lambda>x. x) (flushCommands s)"
  unfolding flushCommands_def by (auto intro!: ends_then [OF talk_input])

lemma perform_input: "ends (input s) (\<lambda>x. x) (perform out s)"
proof (induction out s rule: perform.induct)
  case (3 out s)
  show ?case unfolding perform.simps
    by (rule ends_then [OF flush_input]) (use 3 in \<open>auto intro: ends_mono\<close>)
qed auto

lemma delete_Parcel_input: "ends (input s) (\<lambda>x. x) (delete_Parcel e p s)"
  unfolding delete_Parcel_def by (cases "freeDataNoInit (libc_of e) p (world_of s)") (auto split: prod.splits)

lemma refer_to_input: "ends (input s) snd (refer_to e tr p s)"
  unfolding refer_to_def by (cases "ipcSetDataReference (libc_of e) (fst (received e tr)) (snd (received e tr)) (td_buffer tr) p (world_of s)")
    (auto split: prod.splits)

section \<open>Objects that come back\<close>

text \<open>The code behind local objects returns or does not, but it makes up no input, and whatever bound it has on its own loops is large enough.\<close>

definition returns :: "ipc_env \<Rightarrow> bool" where
  "returns e \<longleftrightarrow> (\<forall>obj code p flags s. ends (input s) (snd \<circ> snd) (local_transact e obj code p flags s))
     \<and> (\<forall>r proxy s. ends (input s) (\<lambda>x. x) (binder_died e r proxy s))"

lemma transact_target_input: "returns e \<Longrightarrow> ends (input s) (snd \<circ> snd) (transact_target e tr p s)"
proof -
  assume e: "returns e"
  have run: "ends (input s) (snd \<circ> snd) (local_transact e obj code p flags s)" for obj code p flags s using e by (simp add: returns_def)
  have "ends (input s) (snd \<circ> snd) (and_then (local_transact e obj code p flags (calls_object c1 (calls_object c2 s)))
      (\<lambda>(err, reply, s1). Inr (err, reply, calls_object c3 s1)))" for obj code flags c1 c2 c3
    by (rule ends_then [where g = "snd \<circ> snd"]) (use run [of "calls_object c1 (calls_object c2 s)" obj code p flags] in \<open>auto split: prod.splits\<close>)
  moreover have "ends (input s) (snd \<circ> snd) (local_transact e None code p flags (calls_object c s))" for code flags c
    using run [of "calls_object c s"] by simp
  ultimately show ?thesis unfolding transact_target_def by auto
qed

lemma report_deaths_input: "returns e \<Longrightarrow> ends (input s) (\<lambda>x. x) (report_deaths e proxy obs s)"
proof (induction obs arbitrary: s)
  case (Cons ob obs)
  have "ends (input s) (\<lambda>x. x) (and_then (binder_died e r proxy (calls_object (Died r proxy) s)) (report_deaths e proxy obs))" for r
  proof (rule ends_then [where g = "\<lambda>x. x"])
    show "ends (input s) (\<lambda>x. x) (binder_died e r proxy (calls_object (Died r proxy) s))" using Cons.prems by (metis returns_def input_simps(2))
    show "ends (input s) (\<lambda>x. x) (report_deaths e proxy obs x)" if "input x \<le> input s" for x
      by (rule ends_mono [OF Cons.IH [OF Cons.prems]]) (use that in simp)
  qed
  then show ?case using Cons by (auto split: option.split)
qed auto

lemma dead_binder_input:
  assumes "returns e"
  shows "ends (input s) (\<lambda>x. x) (execute_dead_binder e s)"
proof -
  obtain proxy s1 where s1: "in_u64 s = (proxy, s1)" by fastforce
  have le: "input s1 \<le> input s" by (rule in_u64_input [OF s1])
  show ?thesis
  proof (cases "bps (mProxies s1) proxy")
    case None
    then show ?thesis by (simp add: execute_dead_binder_def s1)
  next
    case (Some b)
    obtain obs out b1 where ob: "sendObituary proxy b = (obs, out, b1)" by (metis prod_cases3)
    have "ends (input s1) (\<lambda>x. x) (and_then (perform out (s1\<lparr>mProxies := put_bp proxy b1 (mProxies s1)\<rparr>)) (\<lambda>s2.
        and_then (report_deaths e proxy obs s2) (\<lambda>s3. Inr (put_command (C_Dead_Done proxy) s3))))"
    proof (rule ends_then [where g = "\<lambda>x. x"])
      show "ends (input s1) (\<lambda>x. x) (perform out (s1\<lparr>mProxies := put_bp proxy b1 (mProxies s1)\<rparr>))"
        using perform_input [of "s1\<lparr>mProxies := put_bp proxy b1 (mProxies s1)\<rparr>" out] by simp
      show "ends (input s1) (\<lambda>x. x) (and_then (report_deaths e proxy obs x) (\<lambda>s3. Inr (put_command (C_Dead_Done proxy) s3)))" if "input x \<le> input s1" for x
        using that by (intro ends_then [where g = "\<lambda>x. x"] ends_mono [OF report_deaths_input [OF assms]]) auto
    qed
    then show ?thesis using le by (auto simp: execute_dead_binder_def s1 Some ob intro: ends_mono)
  qed
qed

lemma drop_proxy_input: "ends (input s) (\<lambda>x. x) (drop_proxy proxy s)"
proof -
  have "ends (input s) (\<lambda>x. x) (perform out (s\<lparr>mProxies := P\<rparr>))" for out P using perform_input [of "s\<lparr>mProxies := P\<rparr>" out] by simp
  then have del: "ends (input s) (\<lambda>x. x) (and_then (or_fault (delete_BpBinder (\<lambda>_. True) proxy P)) (\<lambda>(out, P1). perform out (s\<lparr>mProxies := P1\<rparr>)))" for P
    by (cases "delete_BpBinder (\<lambda>_. True) proxy P") (auto split: prod.split)
  show ?thesis
  proof (cases "drop_weak proxy (mProxies s)")
    case (Some r)
    then show ?thesis using del [of "snd r"] by (simp add: drop_proxy_def case_prod_beta)
  qed (simp add: drop_proxy_def)
qed

section \<open>Commands and waiting\<close>

lemma and_then_cong: "(\<And>x. r = Inr x \<Longrightarrow> f x = g x) \<Longrightarrow> and_then r f = and_then r g"
  by (cases r) auto

text \<open>What a nested wait has to keep: it ends, for states with at most as much input.\<close>

lemma reply_ends:
  assumes "\<And>t. input t \<le> input s \<Longrightarrow> ends (input t) snd (wait t)"
  shows "ends (input s) snd (sendReply e wait reply flags s)"
proof -
  obtain err s1 where w: "writeTransactionData e C_Reply flags (- 1) 0 reply True s = (err, s1)" by fastforce
  then have "input s1 = input s" by (auto simp: writeTransactionData_def split: if_splits)
  then show ?thesis using assms [of s1] by (simp add: sendReply_def w)
qed

lemma reply_cong:
  assumes "\<And>t. input t \<le> input s \<Longrightarrow> wait t = wait' t"
  shows "sendReply e wait reply flags s = sendReply e wait' reply flags s"
proof -
  obtain err s1 where w: "writeTransactionData e C_Reply flags (- 1) 0 reply True s = (err, s1)" by fastforce
  then have "input s1 = input s" by (auto simp: writeTransactionData_def split: if_splits)
  then show ?thesis using assms [of s1] by (simp add: sendReply_def w)
qed

lemma transaction_ends:
  assumes "returns e" and "\<And>t. input t \<le> input s \<Longrightarrow> ends (input t) snd (wait t)"
  shows "ends (input s) snd (execute_transaction e wait s)"
proof -
  obtain tr s1 where s1: "in_transaction s = (tr, s1)" by fastforce
  note le = in_transaction_input [OF s1]
  show ?thesis
  proof (cases tr)
    case None
    then show ?thesis using le by (simp add: execute_transaction_def s1)
  next
    case (Some t)
    have rest: "ends (input s) snd (and_then (delete_Parcel e r x) (\<lambda>s5. and_then (delete_Parcel e p s5) (\<lambda>s6. Inr (NO_ERROR, s6))))"
      if "input x \<le> input s" for r p x
      by (rule ends_then [OF ends_mono [OF delete_Parcel_input that]]) (rule ends_then [OF ends_mono [OF delete_Parcel_input]]; simp)
    have reply: "ends (input s) (\<lambda>x. x) (if td_flags t AND TF_ONE_WAY = 0 then and_then (sendReply e wait r 0 x) (\<lambda>(_, s4). Inr s4) else Inr x)"
      if "input x \<le> input s" for r x
    proof -
      have "ends (input s) snd (sendReply e wait r 0 x)" by (rule ends_mono [OF reply_ends]) (use that assms(2) in auto)
      then show ?thesis using that by (auto intro!: ends_then [where g = snd])
    qed
    show ?thesis unfolding execute_transaction_def s1 Some
      by (auto split del: if_split intro!: ends_then [OF ends_mono [OF refer_to_input le]] ends_then [OF ends_mono [OF transact_target_input [OF assms(1)]]]
          ends_then [OF reply] rest)
  qed
qed

lemma transaction_cong:
  assumes "returns e" and "\<And>t. input t \<le> input s \<Longrightarrow> wait t = wait' t"
  shows "execute_transaction e wait s = execute_transaction e wait' s"
proof -
  obtain tr s1 where s1: "in_transaction s = (tr, s1)" by fastforce
  note le = in_transaction_input [OF s1]
  have same: "\<forall>r. sendReply e wait r 0 s3 = sendReply e wait' r 0 s3"
    if "refer_to e t initState s1 = Inr (p, s2)" "transact_target e t p (as_caller t s2) = Inr (err, r', s3)" for t p s2 err r' s3
  proof (intro allI reply_cong)
    have "input s2 \<le> input s1" using refer_to_input [of s1 e t initState] that(1) by simp
    moreover have "input s3 \<le> input s2" using transact_target_input [OF assms(1), of "as_caller t s2" t p] that(2) by simp
    ultimately show "wait x = wait' x" if "input x \<le> input s3" for x using that le assms(2) by simp
  qed
  show ?thesis unfolding execute_transaction_def s1
    by (auto split: option.split intro!: and_then_cong split del: if_split) (drule (1) same, simp)
qed

lemma run_zero: "run_command e wait 0 s = Inr (UNKNOWN_ERROR, s)"
  by (simp add: run_command_def br_codes BR_ATTEMPT_ACQUIRE_def BR_FINISHED_def ioc_def)

lemma two_pointers: "in_u64 s = (a, s1) \<Longrightarrow> in_u64 s1 = (b, s2) \<Longrightarrow> input s2 \<le> input s"
  using in_u64_input [of s] in_u64_input [of s1] by fastforce

lemma execute_ends:
  assumes "returns e" and "\<And>t. input t \<le> input s \<Longrightarrow> ends (input t) snd (wait t)"
  shows "ends (input s) snd (executeCommand e wait cmd s)"
proof -
  have dead: "ends (input s) snd (and_then (execute_dead_binder e s) (\<lambda>s1. Inr (NO_ERROR, s1)))"
    by (rule ends_then [OF dead_binder_input [OF assms(1)]]) simp
  have drop: "ends (input s) snd (and_then (drop_proxy proxy s1) (\<lambda>s2. Inr (NO_ERROR, s2)))" if "in_u64 s = (proxy, s1)" for proxy s1
    by (rule ends_then [OF ends_mono [OF drop_proxy_input in_u64_input [OF that]]]) simp
  obtain p1 s1 p2 s2 r s3 where read: "in_u64 s = (p1, s1)" "in_u64 s1 = (p2, s2)" "in_u32 s = (r, s3)" by (metis surj_pair)
  have "input s2 \<le> input s" "input s3 \<le> input s" using two_pointers [OF read(1,2)] in_u32_input [OF read(3)] .
  moreover have "ends (input s) snd (execute_transaction e wait s)" by (rule transaction_ends [OF assms])
  ultimately have "ends (input s) snd (run_command e wait cmd s)"
    using dead drop [OF read(1)] by (auto simp: run_command_def read Let_def)
  then show ?thesis unfolding executeCommand_def by (rule ends_then) (simp add: set_last_error_def)
qed

lemma execute_cong:
  assumes "returns e" and "\<And>t. input t \<le> input s \<Longrightarrow> wait t = wait' t"
  shows "executeCommand e wait cmd s = executeCommand e wait' cmd s"
  using transaction_cong [OF assms] unfolding executeCommand_def run_command_def by auto

abbreviation state_of :: "int \<times> parcel option \<times> int option \<times> ipc \<Rightarrow> ipc" where
  "state_of r \<equiv> snd (snd (snd r))"

lemma finish_ends: "input s \<le> m \<Longrightarrow> ends m state_of (finish err reply acquire s)"
  by (simp add: finish_def)

text \<open>Reading the code of a command leaves less, or there was no whole one.\<close>

lemma command_read:
  assumes "talkWithDriver True s = Inr (err, s1)" and "NO_ERROR \<le> err" and "in_u32 s1 = (cmd, s2)"
  shows "input s2 < input s \<or> cmd = 0 \<and> s2 = s1 \<and> input s1 \<le> input s"
  using talk_receives [OF assms(1,2)] by (cases rule: in_u32_cases [OF assms(3)]) auto

text \<open>Fewer than one unit of fuel for each unit of input is never missed.\<close>

lemma nested_ends:
  assumes "ends (input t) state_of (again None None t)"
  shows "ends (input t) snd (nested again t)"
  unfolding nested_def by (rule ends_then [OF assms]) auto

lemma got_reply_ends:
  assumes "\<And>r a t. input t \<le> input s \<Longrightarrow> ends (input t) state_of (again r a t)"
  shows "ends (input s) state_of (got_reply e again reply acquire s)"
proof -
  obtain tr s1 where s1: "in_transaction s = (tr, s1)" by fastforce
  note le = in_transaction_input [OF s1]
  have "ends (input s) state_of (and_then (refer_to e t p s1) (\<lambda>(p1, s2). finish NO_ERROR (Some p1) acquire s2))" for t p
    by (rule ends_then [OF ends_mono [OF refer_to_input]]) (use le in \<open>auto intro: finish_ends\<close>)
  moreover have "ends (input s) state_of (again r a (freeBuffer t s1))" for r a t
    by (rule ends_mono [OF assms]) (use le in simp_all)
  ultimately show ?thesis using le by (auto simp: got_reply_def s1 intro!: finish_ends split: option.split)
qed

lemma wait_command_ends:
  assumes "returns e" and again: "\<And>r a t. input t \<le> input s \<Longrightarrow> ends (input t) state_of (again r a t)"
  shows "ends (input s) state_of (wait_command e again cmd reply acquire s)"
proof -
  obtain res s1 where s1: "in_u32 s = (res, s1)" by fastforce
  note le = in_u32_input [OF s1]
  have run: "ends (input s) snd (executeCommand e (nested again) cmd s)"
    by (rule execute_ends [OF assms(1)]) (rule nested_ends, rule again)
  have on: "ends (input s) state_of (again r a t)" if "input t \<le> input s" for r a t
    by (rule ends_mono [OF again [OF that] that])
  have "ends (input s) state_of (and_then (executeCommand e (nested again) cmd s) (\<lambda>(err, s1).
      if err \<noteq> NO_ERROR then finish err reply acquire s1 else again reply acquire s1))"
    by (rule ends_then [OF run]) (auto intro!: finish_ends on)
  moreover have "ends (input s) state_of (got_reply e again reply acquire s)" by (rule got_reply_ends [OF again])
  ultimately show ?thesis using le by (auto simp: wait_command_def s1 intro!: finish_ends on)
qed

lemma wait_once_ends:
  assumes "returns e" and again: "\<And>r a t. input t < input s \<Longrightarrow> ends (input t) state_of (again r a t)"
  shows "ends (input s) state_of (wait_once e again reply acquire s)"
proof (cases "talkWithDriver True s")
  case (Inl h)
  then show ?thesis using talk_input [of s True] by (simp add: wait_once_def)
next
  case (Inr r)
  obtain err s1 where r: "r = (err, s1)" by fastforce
  have talk: "talkWithDriver True s = Inr (err, s1)" "input s1 \<le> input s" using Inr talk_input [of s True] by (simp_all add: r)
  obtain cmd s2 where cmd: "in_u32 s1 = (cmd, s2)" by fastforce
  have on: "ends (input s) state_of (again r a t)" if "input t < input s" for r a t
    by (rule ends_mono [OF again [OF that]]) (use that in simp)
  have whole: "ends (input s) state_of (wait_command e again cmd reply acquire s2)" if "NO_ERROR \<le> err"
    using command_read [OF talk(1) that cmd]
  proof (elim disjE conjE)
    assume less: "input s2 < input s"
    show ?thesis by (rule ends_mono [OF wait_command_ends [OF assms(1) again]]) (use less in simp_all)
  next
    assume "cmd = 0" "s2 = s1"
    then have "wait_command e again cmd reply acquire s2 = finish UNKNOWN_ERROR reply acquire (s1\<lparr>mLastError := UNKNOWN_ERROR\<rparr>)"
      by (simp add: wait_command_def executeCommand_def run_zero set_last_error_def br_codes BR_ACQUIRE_RESULT_def ioc_def)
    then show ?thesis using talk(2) by (simp add: finish_def)
  qed
  have none: "ends (input s) state_of (again reply acquire s1)" if "NO_ERROR \<le> err" "in_avail s1 = 0"
    using talk_receives [OF talk(1) that(1)] that(2) by (auto intro: on)
  show ?thesis using whole none talk by (auto simp: wait_once_def cmd intro!: finish_ends)
qed

text \<open>A round depends on what the following ones do with less input only.\<close>

lemma got_reply_cong:
  assumes "\<And>r a t. input t \<le> input s \<Longrightarrow> again r a t = again' r a t"
  shows "got_reply e again reply acquire s = got_reply e again' reply acquire s"
proof -
  obtain tr s1 where s1: "in_transaction s = (tr, s1)" by fastforce
  have "again r a (freeBuffer t s1) = again' r a (freeBuffer t s1)" for r a t
    by (rule assms) (use in_transaction_input [OF s1] in simp)
  then show ?thesis by (auto simp: got_reply_def s1 split: option.split)
qed

lemma wait_command_cong:
  assumes "returns e" and eq: "\<And>r a t. input t \<le> input s \<Longrightarrow> again r a t = again' r a t"
    and again: "\<And>r a t. input t \<le> input s \<Longrightarrow> ends (input t) state_of (again r a t)"
  shows "wait_command e again cmd reply acquire s = wait_command e again' cmd reply acquire s"
proof -
  obtain res s1 where s1: "in_u32 s = (res, s1)" by fastforce
  have run: "executeCommand e (nested again) cmd s = executeCommand e (nested again') cmd s"
    by (rule execute_cong [OF assms(1)]) (simp add: nested_def eq)
  have small: "ends (input s) snd (executeCommand e (nested again) cmd s)"
    by (rule execute_ends [OF assms(1)]) (rule nested_ends, rule again)
  have "and_then (executeCommand e (nested again) cmd s) (\<lambda>(err, s1). if err \<noteq> NO_ERROR then finish err reply acquire s1 else again reply acquire s1)
      = and_then (executeCommand e (nested again) cmd s) (\<lambda>(err, s1). if err \<noteq> NO_ERROR then finish err reply acquire s1 else again' reply acquire s1)"
    by (rule and_then_cong) (use small eq in auto)
  moreover have "got_reply e again r a s = got_reply e again' r a s" for r a by (rule got_reply_cong [OF eq])
  ultimately show ?thesis using eq in_u32_input [OF s1] by (auto simp: wait_command_def s1 run)
qed

lemma wait_once_cong:
  assumes "returns e" and eq: "\<And>r a t. input t < input s \<Longrightarrow> again r a t = again' r a t"
    and again: "\<And>r a t. input t < input s \<Longrightarrow> ends (input t) state_of (again r a t)"
  shows "wait_once e again reply acquire s = wait_once e again' reply acquire s"
proof (cases "talkWithDriver True s")
  case (Inl h)
  then show ?thesis by (simp add: wait_once_def)
next
  case (Inr r)
  obtain err s1 where r: "r = (err, s1)" by fastforce
  have talk: "talkWithDriver True s = Inr (err, s1)" using Inr by (simp add: r)
  obtain cmd s2 where cmd: "in_u32 s1 = (cmd, s2)" by fastforce
  have whole: "wait_command e again cmd reply acquire s2 = wait_command e again' cmd reply acquire s2" if "NO_ERROR \<le> err"
    using command_read [OF talk that cmd]
  proof (elim disjE conjE)
    assume less: "input s2 < input s"
    show ?thesis by (rule wait_command_cong [OF assms(1)]) (use less eq again in auto)
  next
    assume "cmd = 0" "s2 = s1"
    then show ?thesis
      by (simp add: wait_command_def executeCommand_def run_zero set_last_error_def br_codes BR_ACQUIRE_RESULT_def ioc_def)
  qed
  have none: "again reply acquire s1 = again' reply acquire s1" if "NO_ERROR \<le> err" "in_avail s1 = 0"
    using talk_receives [OF talk that(1)] that(2) by (auto intro: eq)
  show ?thesis using whole none talk by (auto simp: wait_once_def cmd)
qed

lemma wait_ends: "returns e \<Longrightarrow> input s < n \<Longrightarrow> ends (input s) state_of (waitForResponse e n reply acquire s)"
proof (induction n arbitrary: reply acquire s)
  case (Suc n)
  show ?case unfolding waitForResponse.simps by (rule wait_once_ends [OF Suc.prems(1)]) (use Suc in auto)
qed simp

lemma wait_fuel: "returns e \<Longrightarrow> input s < n \<Longrightarrow> waitForResponse e (n + k) reply acquire s = waitForResponse e n reply acquire s"
proof (induction n arbitrary: reply acquire s)
  case (Suc n)
  have "wait_once e (waitForResponse e (n + k)) reply acquire s = wait_once e (waitForResponse e n) reply acquire s"
    by (rule wait_once_cong [OF Suc.prems(1)]) (use Suc wait_ends [OF Suc.prems(1)] in auto)
  then show ?case by simp
qed simp

end
