(* ===== verification/Ipc_Props.thy ===== *)
theory Ipc_Props
  imports Ipc_Inv Binder_Wire
begin

text \<open>Properties of a client's thread: that its waits end, whose identity it has, the order of its references, and what a call returns.\<close>

unbundle bit_operations_syntax

section \<open>Calls end\<close>

text \<open>A call is a command, a wait, and perhaps a reply that nobody wants.\<close>

lemma transact_cases:
  fixes e h code data flags
  defines "c \<equiv> C_Transaction (transaction_of e (flags OR TF_ACCEPT_FDS) h code data)"
  shows "transact e n h code data reply flags s =
    (if mError data \<noteq> NO_ERROR then Inr (mError data, map_option (setError (mError data)) reply, s\<lparr>mLastError := mError data\<rparr>)
     else if (flags OR TF_ACCEPT_FDS) AND TF_ONE_WAY \<noteq> 0
     then and_then (waitForResponse e n None None (put_command c s)) (\<lambda>(err, _, _, s2). Inr (err, reply, s2))
     else case reply of
       Some p \<Rightarrow> and_then (waitForResponse e n (Some p) None (put_command c s)) (\<lambda>(err, r, _, s2). Inr (err, r, s2))
     | None \<Rightarrow> and_then (waitForResponse e n (Some initState) None (put_command c s)) (\<lambda>(err, r, _, s2).
         and_then (delete_Parcel e (the r) s2) (\<lambda>s3. Inr (err, None, s3))))"
  by (auto simp: transact_def c_def writeTransactionData_def Let_def split: option.split)

text \<open>
  C18. A call to another process does not go on for ever by itself: with one unit of fuel more than there are bytes and answers before the thread, \<open>transact\<close>
  comes back or halts because the driver has nothing to answer, a lock is held, or an object it calls does not come back, and more fuel makes no difference. This holds however
  incoming calls, replies and other commands are nested, for objects that make up no input of their own.
\<close>

theorem transact_ends:
  assumes "returns e" and "input s < n"
  shows "transact e n h code data reply flags s \<noteq> Inl No_Fuel
    \<and> transact e (n + k) h code data reply flags s = transact e n h code data reply flags s
    \<and> (\<forall>err r s'. transact e n h code data reply flags s = Inr (err, r, s') \<longrightarrow> input s' \<le> input s)"
proof -
  define c where "c = C_Transaction (transaction_of e (flags OR TF_ACCEPT_FDS) h code data)"
  have fuel: "waitForResponse e (n + k) r a (put_command c s) = waitForResponse e n r a (put_command c s)" for r a
    using wait_fuel [OF assms(1), of "put_command c s" n k r a] assms(2) by simp
  have wait: "ends (input s) state_of (waitForResponse e n r a (put_command c s))" for r a
    using wait_ends [OF assms(1), of "put_command c s" n r a] assms(2) by simp
  have "ends (input s) (snd \<circ> snd) (transact e n h code data reply flags s)"
    unfolding transact_cases c_def [symmetric]
    by (auto split: option.split intro!: ends_then [OF wait] ends_then [OF ends_mono [OF delete_Parcel_input]])
  moreover have "transact e (n + k) h code data reply flags s = transact e n h code data reply flags s"
    unfolding transact_cases c_def [symmetric] fuel ..
  ultimately show ?thesis by (cases "transact e n h code data reply flags s") auto
qed

section \<open>The identity of the caller\<close>

definition identity :: "ipc \<Rightarrow> u32 \<times> u32 \<times> u32 \<times> u32" where
  "identity s = (mCallingPid s, mCallingUid s, mStrictModePolicy s, mLastTransactionBinderFlags s)"

lemma identity_simps [simp]:
  "identity (put_command c s) = identity s" "identity (calls_object oc s) = identity s" "identity (s\<lparr>world_of := w\<rparr>) = identity s"
  "identity (as_before s t) = identity s" "identity (s\<lparr>mInPos := n\<rparr>) = identity s" "identity (s\<lparr>mLastError := err\<rparr>) = identity s"
  by (simp_all add: identity_def put_command_def calls_object_def as_before_def)

lemma identity_fold [simp]: "identity (fold put_command cs s) = identity s"
  by (induction cs arbitrary: s) simp_all

lemma delete_identity: "delete_Parcel e p s = Inr t \<Longrightarrow> identity t = identity s"
  by (auto simp: delete_Parcel_def and_then_Inr)

lemma refer_identity: "refer_to e tr p s = Inr (p1, t) \<Longrightarrow> identity t = identity s"
  by (auto simp: refer_to_def and_then_Inr)

text \<open>The same objects, which give up at once when they do not see the sender of \<open>tr\<close> as their caller.\<close>

definition guarded :: "binder_transaction_data \<Rightarrow> ipc_env \<Rightarrow> ipc_env" where
  "guarded tr e = e\<lparr>local_transact := (\<lambda>obj code p flags s.
     if mCallingPid s = td_sender_pid tr \<and> mCallingUid s = td_sender_euid tr \<and> mLastTransactionBinderFlags s = td_flags tr
     then local_transact e obj code p flags s else Inl Abort)\<rparr>"

lemma guarded_call: "transact_target (guarded tr e) tr p (as_caller tr s) = transact_target e tr p (as_caller tr s)"
  by (simp add: transact_target_def guarded_def as_caller_def calls_object_def)

lemma guarded_rest:
  "refer_to (guarded tr e) = refer_to e" "delete_Parcel (guarded tr e) = delete_Parcel e" "sendReply (guarded tr e) = sendReply e"
  by (intro ext, simp add: refer_to_def delete_Parcel_def sendReply_def writeTransactionData_def transaction_of_def guarded_def)+

lemma transaction_guarded: "in_transaction s = (Some tr, s1) \<Longrightarrow> execute_transaction (guarded tr e) wait s = execute_transaction e wait s"
  unfolding execute_transaction_def guarded_rest by (simp add: guarded_call)

text \<open>
  C19. While an incoming call is executed, its object sees the pid, the uid and the flags of the sender (objects that check them and give up otherwise
  would make no difference), and when the call is over the thread has the identity, the policy and the flags that it had before, whatever the object
  did with them and whatever other calls came in meanwhile.
\<close>

theorem calling_identity_restored:
  assumes "in_transaction s = (Some tr, s1)" and "executeCommand e wait BR_TRANSACTION s = Inr (err, s')"
  shows "identity s' = identity s \<and> executeCommand (guarded tr e) wait BR_TRANSACTION s = Inr (err, s')"
proof
  have run: "run_command x wait BR_TRANSACTION s = execute_transaction x wait s" for x
    by (simp add: run_command_def br_codes BR_ATTEMPT_ACQUIRE_def ioc_def)
  have "identity s1 = identity s" using assms(1) by (auto simp: in_transaction_def split: option.splits)
  moreover obtain t where "execute_transaction e wait s = Inr t" "s' = snd (set_last_error t)"
    using assms(2) by (auto simp: executeCommand_def run and_then_Inr)
  moreover have "identity (snd (set_last_error t)) = identity (snd t)" for t by (simp add: set_last_error_def)
  ultimately show "identity s' = identity s"
    using assms(1) by (auto simp: execute_transaction_def and_then_Inr dest!: delete_identity refer_identity)
  show "executeCommand (guarded tr e) wait BR_TRANSACTION s = Inr (err, s')"
    using assms(2) transaction_guarded [OF assms(1)] by (simp add: executeCommand_def run)
qed

text \<open>
  Clearing the identity of the caller and restoring it with the token gives back the pid and the uid, also when other calls have changed them in between, as
  long as the pid is not negative; meanwhile the thread has the identity of its own process.
\<close>

theorem identity_token_roundtrip:
  assumes "clearCallingIdentity e s = (token, s1)" and "0 \<le> sint (mCallingPid s)"
  shows "mCallingPid (restoreCallingIdentity token t) = mCallingPid s \<and> mCallingUid (restoreCallingIdentity token t) = mCallingUid s
    \<and> mCallingPid s1 = getpid e \<and> mCallingUid s1 = getuid e"
proof -
  have token: "token = push_bit 32 (ucast (mCallingUid s)) OR scast (mCallingPid s)" and s1: "s1 = clearCaller e s"
    using assms(1) by (auto simp: clearCallingIdentity_def)
  have top: "\<not> bit (mCallingPid s) 31" using assms(2) bit_last_iff [of "mCallingPid s"] by simp
  have "ucast token = mCallingPid s" unfolding token
    by (rule bit_word_eqI) (auto simp: bit_simps)
  moreover have "ucast (drop_bit 32 token) = mCallingUid s" unfolding token
    by (rule bit_word_eqI) (use top in \<open>auto simp: bit_simps\<close>)
  ultimately show ?thesis by (simp add: restoreCallingIdentity_def s1 clearCaller_def)
qed

section \<open>References of local objects\<close>

text \<open>The commands with which the driver takes and gives back references: the address of the \<open>weakref_type\<close>, then that of the object.\<close>

datatype ref_return = R_Acquire u64 u64 | R_Release u64 u64 | R_Increfs u64 u64 | R_Decrefs u64 u64

fun ref_bytes :: "ref_return \<Rightarrow> byte list" where
  "ref_bytes (R_Acquire r obj) = u32_bytes BR_ACQUIRE @ u64_bytes r @ u64_bytes obj"
| "ref_bytes (R_Release r obj) = u32_bytes BR_RELEASE @ u64_bytes r @ u64_bytes obj"
| "ref_bytes (R_Increfs r obj) = u32_bytes BR_INCREFS @ u64_bytes r @ u64_bytes obj"
| "ref_bytes (R_Decrefs r obj) = u32_bytes BR_DECREFS @ u64_bytes r @ u64_bytes obj"

fun done_at_once :: "ref_return \<Rightarrow> command list \<times> object_call list" where
  "done_at_once (R_Acquire r obj) = ([C_Acquire_Done r obj], [Inc_Strong obj])"
| "done_at_once (R_Increfs r obj) = ([C_Increfs_Done r obj], [Inc_Weak_Of r])"
| "done_at_once _ = ([], [])"

fun strong_later :: "ref_return \<Rightarrow> u64 list" where
  "strong_later (R_Release r obj) = [obj]"
| "strong_later _ = []"

fun weak_later :: "ref_return \<Rightarrow> u64 list" where
  "weak_later (R_Decrefs r obj) = [r]"
| "weak_later _ = []"

definition after_ref :: "ref_return \<Rightarrow> ipc \<Rightarrow> ipc" where
  "after_ref c s = s\<lparr>mInPos := mInPos s + 20, mOut := mOut s @ concat (map command_bytes (fst (done_at_once c))),
     object_calls := object_calls s @ snd (done_at_once c), mPendingStrongDerefs := mPendingStrongDerefs s @ strong_later c,
     mPendingWeakDerefs := mPendingWeakDerefs s @ weak_later c\<rparr>"

lemma get_mid:
  "get_u32 (pre @ u32_bytes w @ post) (length pre) = Some w" "get_u64 (pre @ u64_bytes v @ post) (length pre) = Some v"
  by (simp_all add: get_u32_def get_u64_def get_range_def)

lemma in_u32_at: "mIn s = pre @ u32_bytes w @ post \<Longrightarrow> mInPos s = length pre \<Longrightarrow> in_u32 s = (w, s\<lparr>mInPos := mInPos s + 4\<rparr>)"
  by (simp add: in_u32_def get_mid)

lemma in_u64_at: "mIn s = pre @ u64_bytes w @ post \<Longrightarrow> mInPos s = length pre \<Longrightarrow> in_u64 s = (w, s\<lparr>mInPos := mInPos s + 8\<rparr>)"
  by (simp add: in_u64_def get_mid)

lemma unread_talk: "mInPos s < length (mIn s) \<Longrightarrow> 0 < mDriverFD s \<Longrightarrow> talkWithDriver True s = Inr (NO_ERROR, s)"
  by (simp add: talkWithDriver_def)

lemma read_two:
  assumes "mIn s = pre @ u32_bytes cmd @ u64_bytes r @ u64_bytes obj @ post" and "mInPos s = length pre"
  shows "in_u32 s = (cmd, s\<lparr>mInPos := mInPos s + 4\<rparr>)"
    and "mInPos s1 = mInPos s + 4 \<Longrightarrow> mIn s1 = mIn s \<Longrightarrow> in_u64 s1 = (r, s1\<lparr>mInPos := mInPos s1 + 8\<rparr>)"
    and "mInPos s2 = mInPos s + 12 \<Longrightarrow> mIn s2 = mIn s \<Longrightarrow> in_u64 s2 = (obj, s2\<lparr>mInPos := mInPos s2 + 8\<rparr>)"
proof -
  show "in_u32 s = (cmd, s\<lparr>mInPos := mInPos s + 4\<rparr>)" using in_u32_at [of s pre cmd] assms by simp
  show "in_u64 s1 = (r, s1\<lparr>mInPos := mInPos s1 + 8\<rparr>)" if "mInPos s1 = mInPos s + 4" "mIn s1 = mIn s"
    by (rule in_u64_at [of s1 "pre @ u32_bytes cmd" r "u64_bytes obj @ post"]) (use that assms in simp_all)
  show "in_u64 s2 = (obj, s2\<lparr>mInPos := mInPos s2 + 8\<rparr>)" if "mInPos s2 = mInPos s + 12" "mIn s2 = mIn s"
    by (rule in_u64_at [of s2 "pre @ u32_bytes cmd @ u64_bytes r" obj post]) (use that assms in simp_all)
qed

lemma code_neqs:
  "BR_ACQUIRE \<noteq> BR_ERROR" "BR_ACQUIRE \<noteq> BR_OK" "BR_RELEASE \<noteq> BR_ERROR" "BR_RELEASE \<noteq> BR_OK" "BR_RELEASE \<noteq> BR_ACQUIRE"
  "BR_INCREFS \<noteq> BR_ERROR" "BR_INCREFS \<noteq> BR_OK" "BR_INCREFS \<noteq> BR_ACQUIRE" "BR_INCREFS \<noteq> BR_RELEASE"
  "BR_DECREFS \<noteq> BR_ERROR" "BR_DECREFS \<noteq> BR_OK" "BR_DECREFS \<noteq> BR_ACQUIRE" "BR_DECREFS \<noteq> BR_RELEASE" "BR_DECREFS \<noteq> BR_INCREFS"
  by (simp_all add: br_codes ioc_def)

lemma ref_command:
  assumes "mIn s = pre @ ref_bytes c @ post" and "mInPos s = length pre" and "0 < mDriverFD s"
  shows "getAndExecuteCommand e n s = Inr (NO_ERROR, after_ref c s)"
proof -
  have talk: "talkWithDriver True s = Inr (NO_ERROR, s)" and room: "\<not> in_avail s < 4"
    using assms by (cases c; simp add: unread_talk in_avail_def)+
  have "getAndExecuteCommand e n s = Inr (NO_ERROR, after_ref c s)"
    if c: "ref_bytes c = u32_bytes cmd @ u64_bytes r @ u64_bytes obj" and run: "\<And>s s1 s2. in_u64 s = (r, s1) \<Longrightarrow> in_u64 s1 = (obj, s2) \<Longrightarrow>
      run_command e (nested (waitForResponse e n)) cmd s = Inr (NO_ERROR, s2\<lparr>mOut := mOut s2 @ concat (map command_bytes (fst (done_at_once c))),
        object_calls := object_calls s2 @ snd (done_at_once c), mPendingStrongDerefs := mPendingStrongDerefs s2 @ strong_later c,
        mPendingWeakDerefs := mPendingWeakDerefs s2 @ weak_later c\<rparr>)" for cmd r obj
  proof -
    have input: "mIn s = pre @ u32_bytes cmd @ u64_bytes r @ u64_bytes obj @ post" using assms(1) c by simp
    define s1 where "s1 = s\<lparr>mInPos := mInPos s + 4, mExecutingThreadsCount := mExecutingThreadsCount s + 1\<rparr>"
    define s2 where "s2 = s1\<lparr>mInPos := mInPos s1 + 8\<rparr>"
    define s3 where "s3 = s2\<lparr>mInPos := mInPos s2 + 8\<rparr>"
    have read: "in_u64 s1 = (r, s2)" "in_u64 s2 = (obj, s3)"
      using read_two(2) [OF input assms(2), of s1] read_two(3) [OF input assms(2), of s2] by (simp_all add: s1_def s2_def s3_def)
    have start: "in_u32 s = (cmd, s\<lparr>mInPos := mInPos s + 4\<rparr>)" by (rule read_two(1) [OF input assms(2)])
    have "getAndExecuteCommand e n s = and_then (executeCommand e (nested (waitForResponse e n)) cmd s1) (\<lambda>(res, s3).
        Inr (res, s3\<lparr>mExecutingThreadsCount := mExecutingThreadsCount s3 - 1\<rparr>))"
      unfolding getAndExecuteCommand_def talk by (simp add: room start s1_def)
    also have "\<dots> = Inr (NO_ERROR, after_ref c s)"
      unfolding executeCommand_def run [OF read] by (cases s) (simp add: set_last_error_def after_ref_def s1_def s2_def s3_def)
    finally show ?thesis .
  qed
  note step = this
  show ?thesis
  proof (cases c)
    case (R_Acquire r obj)
    then show ?thesis by (intro step [of BR_ACQUIRE r obj]) (simp_all add: run_command_def code_neqs put_command_def calls_object_def)
  next
    case (R_Release r obj)
    then show ?thesis by (intro step [of BR_RELEASE r obj]) (simp_all add: run_command_def code_neqs put_command_def calls_object_def)
  next
    case (R_Increfs r obj)
    then show ?thesis by (intro step [of BR_INCREFS r obj]) (simp_all add: run_command_def code_neqs put_command_def calls_object_def)
  next
    case (R_Decrefs r obj)
    then show ?thesis by (intro step [of BR_DECREFS r obj]) (simp_all add: run_command_def code_neqs put_command_def calls_object_def)
  qed
qed

lemma after_ref_fields [simp]:
  "mIn (after_ref c s) = mIn s" "mInPos (after_ref c s) = mInPos s + 20" "mDriverFD (after_ref c s) = mDriverFD s"
  by (simp_all add: after_ref_def)

lemma ref_bytes_length [simp]: "length (ref_bytes c) = 20"
  by (cases c) simp_all

lemma ref_batch:
  "mIn s = pre @ concat (map ref_bytes cs) \<Longrightarrow> mInPos s = length pre \<Longrightarrow> 0 < mDriverFD s \<Longrightarrow> cs \<noteq> [] \<Longrightarrow> length cs \<le> n \<Longrightarrow>
    polled_loop e n s = Inr (NO_ERROR, fold after_ref cs s)"
proof (induction cs arbitrary: s pre n)
  case (Cons c cs)
  obtain m where m: "n = Suc m" "length cs \<le> m" using Cons.prems(5) by (cases n) auto
  have run: "getAndExecuteCommand e m s = Inr (NO_ERROR, after_ref c s)"
    by (rule ref_command [of s pre c "concat (map ref_bytes cs)"]) (use Cons.prems in simp_all)
  show ?case
  proof (cases cs)
    case Nil
    then show ?thesis using run Cons.prems(1,2) m by simp
  next
    case (Cons d ds)
    then have "polled_loop e m (after_ref c s) = Inr (NO_ERROR, fold after_ref cs (after_ref c s))"
      using Cons.prems m by (intro Cons.IH [of _ "pre @ ref_bytes c"]) simp_all
    then show ?thesis using run Cons Cons.prems(1,2) m by simp
  qed
qed simp

lemma batch_fields:
  "object_calls (fold after_ref cs s) = object_calls s @ concat (map (snd \<circ> done_at_once) cs)"
  "mOut (fold after_ref cs s) = mOut s @ concat (map command_bytes (concat (map (fst \<circ> done_at_once) cs)))"
  "mPendingStrongDerefs (fold after_ref cs s) = mPendingStrongDerefs s @ concat (map strong_later cs)"
  "mPendingWeakDerefs (fold after_ref cs s) = mPendingWeakDerefs s @ concat (map weak_later cs)"
  "mIn (fold after_ref cs s) = mIn s" "mInPos (fold after_ref cs s) = mInPos s + 20 * length cs"
  by (induction cs arbitrary: s) (simp_all add: after_ref_def)

definition strong_net :: "u64 \<Rightarrow> object_call list \<Rightarrow> int" where
  "strong_net obj cs = int (count_list cs (Inc_Strong obj)) - int (count_list cs (Dec_Strong obj))"

lemma count_list_take: "count_list (take i xs) x \<le> count_list xs x"
proof -
  have "count_list xs x = count_list (take i xs) x + count_list (drop i xs) x" by (metis append_take_drop_id count_list_append)
  then show ?thesis by simp
qed

lemma ups_then_downs:
  assumes "Dec_Strong obj \<notin> set ups" and "Inc_Strong obj \<notin> set downs"
  shows "min 0 (strong_net obj (ups @ downs)) \<le> strong_net obj (take i (ups @ downs))"
proof -
  have none: "count_list (take i ups) (Dec_Strong obj) = 0" "count_list (take j downs) (Inc_Strong obj) = 0"
      "count_list ups (Dec_Strong obj) = 0" "count_list downs (Inc_Strong obj) = 0" for i j
    using assms by (auto simp: count_list_0_iff dest: in_set_takeD)
  show ?thesis
  proof (cases "i \<le> length ups")
    case True
    then show ?thesis using none by (simp add: strong_net_def)
  next
    case False
    then show ?thesis using none count_list_take [of "i - length ups" downs "Dec_Strong obj"] by (simp add: strong_net_def)
  qed
qed

lemma no_downs: "Dec_Strong obj \<notin> set (concat (map (snd \<circ> done_at_once) cs))"
proof -
  have "Dec_Strong obj \<notin> set (snd (done_at_once c))" for c by (cases c) simp_all
  then show ?thesis by auto
qed

text \<open>
  C20. When the driver sends commands that take and give back references to local objects, in whatever order, a thread that executes all of them and then its pending
  derefs takes every reference at once and acknowledges it, in order, and gives up references only when nothing is left to read, weak ones before strong ones. So the
  strong references of an object that the driver still has in the end, or that others hold, are never all gone in between.
\<close>

theorem references_taken_before_dropped:
  assumes "mIn s = pre @ concat (map ref_bytes cs)" and "mInPos s = length pre" and "0 < mDriverFD s" and "cs \<noteq> []" and "length cs \<le> n"
    and "mPendingStrongDerefs s = []" and "mPendingWeakDerefs s = []"
  shows "\<exists>s1 calls. polled_loop e n s = Inr (NO_ERROR, s1)
    \<and> calls = concat (map (snd \<circ> done_at_once) cs) @ map Dec_Weak_Of (concat (map weak_later cs)) @ map Dec_Strong (concat (map strong_later cs))
    \<and> object_calls (processPendingDerefs s1) = object_calls s @ calls
    \<and> mOut (processPendingDerefs s1) = mOut s @ concat (map command_bytes (concat (map (fst \<circ> done_at_once) cs)))
    \<and> mPendingStrongDerefs (processPendingDerefs s1) = [] \<and> mPendingWeakDerefs (processPendingDerefs s1) = []
    \<and> (\<forall>obj i. min 0 (strong_net obj calls) \<le> strong_net obj (take i calls))"
proof (intro exI conjI allI)
  let ?s = "fold after_ref cs s"
  let ?downs = "map Dec_Weak_Of (concat (map weak_later cs)) @ map Dec_Strong (concat (map strong_later cs))"
  show "polled_loop e n s = Inr (NO_ERROR, ?s)" by (rule ref_batch [OF assms(1-5)])
  have "length (concat (map ref_bytes cs)) = 20 * length cs" by (induction cs) simp_all
  then have "mInPos ?s \<ge> length (mIn ?s)" using assms(1,2) by (simp add: batch_fields)
  then show "object_calls (processPendingDerefs ?s) = object_calls s @ concat (map (snd \<circ> done_at_once) cs) @ ?downs"
    "mOut (processPendingDerefs ?s) = mOut s @ concat (map command_bytes (concat (map (fst \<circ> done_at_once) cs)))"
    "mPendingStrongDerefs (processPendingDerefs ?s) = []" "mPendingWeakDerefs (processPendingDerefs ?s) = []"
    using assms(6,7) by (simp_all add: processPendingDerefs_def batch_fields)
  show "min 0 (strong_net obj (concat (map (snd \<circ> done_at_once) cs) @ ?downs)) \<le> strong_net obj (take i (concat (map (snd \<circ> done_at_once) cs) @ ?downs))" for obj i
    by (rule ups_then_downs) (use no_downs in auto)
qed simp

section \<open>Witnesses\<close>

text \<open>A thread of process 7, with an object at 64 that answers every call with \<open>NO_ERROR\<close> and an empty reply, after it has become its own caller.\<close>

abbreviation some_libc :: libc where
  "some_libc \<equiv> \<lparr>can_malloc = (\<lambda>_ _. True), junk = (\<lambda>_ _. 0), junk64 = (\<lambda>_ _. 0), moves = (\<lambda>_. False), dup_fd = (\<lambda>_ _. - 1),
     ashmem_get_size_region = (\<lambda>_. 0), ashmem_create_region = (\<lambda>_ _. - 1), ashmem_set_prot_region = (\<lambda>_ _. - 1), mmap_fd = (\<lambda>_ _ _. - 1)\<rparr>"

definition some_env :: ipc_env where
  "some_env = \<lparr>libc_of = some_libc, getpid = 7, getuid = 1000, received = (\<lambda>_. ([], [])), status_in = (\<lambda>_. 0), data_at = (\<lambda>_. 0),
     objects_at = (\<lambda>_. 0), status_at = 0, alive = (\<lambda>_ _. True), promotes_to = (\<lambda>_. True),
     local_transact = (\<lambda>obj code p flags s. Inr (NO_ERROR, initState, s\<lparr>mCallingPid := 7, mCallingUid := 1000\<rparr>)), binder_died = (\<lambda>_ _ s. Inr s)\<rparr>"

abbreviation no_world :: world where
  "no_world \<equiv> \<lparr>calls = 0, parcel_events = [], gParcelGlobalAllocSize = 0, gParcelGlobalAllocCount = 0\<rparr>"

definition some_thread :: ipc where
  "some_thread = \<lparr>mIn = [], mInPos = 0, mOut = [], mLastError = 0, mCallingPid = 7, mCallingUid = 1000, mStrictModePolicy = 0,
     mLastTransactionBinderFlags = 0, mPendingStrongDerefs = [], mPendingWeakDerefs = [], mDriverFD = 3, mExecutingThreadsCount = 0,
     mThreadPoolStarted = True, mThreadPoolSeq = 1, mLock_held = False, mProxies = no_proxies, world_of = no_world, answers = [], accepted = [],
     object_calls = [], spawned = 0\<rparr>"

lemma some_returns: "returns some_env"
  by (simp add: returns_def some_env_def input_def in_avail_def)

theorem transact_ends_witness:
  "returns some_env \<and> input some_thread < 1 \<and> transact some_env 1 0 1 initState None 0 some_thread \<noteq> Inl No_Fuel"
proof -
  have "input some_thread < 1" by (simp add: some_thread_def input_def in_avail_def)
  then show ?thesis using transact_ends [OF some_returns, of some_thread 1 0 1 initState None 0] some_returns by simp
qed

definition a_call :: binder_transaction_data where
  "a_call = \<lparr>td_target = 64, td_cookie = 64, td_code = 1, td_flags = TF_ONE_WAY, td_sender_pid = 9, td_sender_euid = 2000, td_data_size = 0,
     td_offsets_size = 0, td_buffer = 4096, td_offsets = 4096\<rparr>"

definition called_thread :: ipc where
  "called_thread = some_thread\<lparr>mIn := transaction_data_bytes a_call\<rparr>"

theorem calling_identity_restored_witness:
  "\<exists>err s'. executeCommand some_env (\<lambda>s. Inl Waits) BR_TRANSACTION called_thread = Inr (err, s') \<and> identity s' = identity called_thread"
proof -
  have "get_range (transaction_data_bytes a_call) 0 64 = Some (transaction_data_bytes a_call)"
    by (simp add: get_range_def transaction_data_bytes_def)
  then have tr: "in_transaction called_thread = (Some a_call, called_thread\<lparr>mInPos := 64\<rparr>)"
    by (simp add: in_transaction_def called_thread_def some_thread_def transaction_data_encode)
  have run: "run_command some_env (\<lambda>s. Inl Waits) BR_TRANSACTION called_thread = execute_transaction some_env (\<lambda>s. Inl Waits) called_thread"
    by (simp add: run_command_def br_codes BR_ATTEMPT_ACQUIRE_def ioc_def)
  have "\<exists>r. execute_transaction some_env (\<lambda>s. Inl Waits) called_thread = Inr r"
    unfolding execute_transaction_def tr
    by (simp add: refer_to_def ipcSetDataReference_def some_env_def initState_def freeDataNoInit_def releaseObjects_def free_buf_def
        scanForFds_def called_thread_def some_thread_def transact_target_def a_call_def delete_Parcel_def call_owner_def closeFileDescriptors_def calls_object_def
        as_caller_def as_before_def emit_def)
  then obtain r where "executeCommand some_env (\<lambda>s. Inl Waits) BR_TRANSACTION called_thread = Inr (set_last_error r)"
    by (auto simp: executeCommand_def run)
  moreover obtain err s' where "set_last_error r = (err, s')" by fastforce
  ultimately have "executeCommand some_env (\<lambda>s. Inl Waits) BR_TRANSACTION called_thread = Inr (err, s')" by simp
  then show ?thesis using calling_identity_restored [OF tr] by blast
qed

theorem identity_token_roundtrip_witness:
  "mCallingPid (restoreCallingIdentity (fst (clearCallingIdentity some_env called_thread)) some_thread) = 7"
  using identity_token_roundtrip [of some_env called_thread "fst (clearCallingIdentity some_env called_thread)"
      "snd (clearCallingIdentity some_env called_thread)" some_thread]
  by (simp add: called_thread_def some_thread_def)

definition batch_thread :: ipc where
  "batch_thread = some_thread\<lparr>mIn := concat (map ref_bytes [R_Release 32 64, R_Acquire 32 64])\<rparr>"

theorem references_taken_before_dropped_witness:
  "\<exists>s1. polled_loop some_env 2 batch_thread = Inr (NO_ERROR, s1) \<and> object_calls (processPendingDerefs s1) = [Inc_Strong 64, Dec_Strong 64]"
  using references_taken_before_dropped [of batch_thread "[]" "[R_Release 32 64, R_Acquire 32 64]" 2 some_env]
  by (simp add: batch_thread_def some_thread_def) blast

end
