(* ===== verification/Ipc_Calls.thy ===== *)
theory Ipc_Calls
  imports Ipc_Props
begin

text \<open>Whole calls: what a call returns for what the driver says of it, and two ways in which calls go wrong.\<close>

unbundle bit_operations_syntax

section \<open>The outcome of a call\<close>

datatype outcome = Replied binder_transaction_data | Dead_Reply | Failed_Reply

fun outcome_bytes :: "outcome \<Rightarrow> byte list" where
  "outcome_bytes (Replied tr) = u32_bytes BR_REPLY @ transaction_data_bytes tr"
| "outcome_bytes Dead_Reply = u32_bytes BR_DEAD_REPLY"
| "outcome_bytes Failed_Reply = u32_bytes BR_FAILED_REPLY"

text \<open>Codes that may come before the outcome and mean nothing to a thread that waits for a reply.\<close>

definition quiet :: "u32 list \<Rightarrow> bool" where
  "quiet pre \<longleftrightarrow> set pre \<subseteq> {BR_NOOP, BR_OK, BR_TRANSACTION_COMPLETE}"

lemma wait_codes:
  "BR_NOOP \<noteq> BR_TRANSACTION_COMPLETE" "BR_NOOP \<noteq> BR_DEAD_REPLY" "BR_NOOP \<noteq> BR_FAILED_REPLY" "BR_NOOP \<noteq> BR_ACQUIRE_RESULT" "BR_NOOP \<noteq> BR_REPLY"
  "BR_OK \<noteq> BR_TRANSACTION_COMPLETE" "BR_OK \<noteq> BR_DEAD_REPLY" "BR_OK \<noteq> BR_FAILED_REPLY" "BR_OK \<noteq> BR_ACQUIRE_RESULT" "BR_OK \<noteq> BR_REPLY"
  "BR_DEAD_REPLY \<noteq> BR_TRANSACTION_COMPLETE" "BR_FAILED_REPLY \<noteq> BR_TRANSACTION_COMPLETE" "BR_FAILED_REPLY \<noteq> BR_DEAD_REPLY"
  "BR_REPLY \<noteq> BR_TRANSACTION_COMPLETE" "BR_REPLY \<noteq> BR_DEAD_REPLY" "BR_REPLY \<noteq> BR_FAILED_REPLY" "BR_REPLY \<noteq> BR_ACQUIRE_RESULT"
  by (simp_all add: br_codes BR_ACQUIRE_RESULT_def ioc_def)

lemma run_noop: "run_command e wait BR_NOOP s = Inr (NO_ERROR, s)"
  and run_ok: "run_command e wait BR_OK s = Inr (NO_ERROR, s)"
  by (simp_all add: run_command_def br_codes BR_ATTEMPT_ACQUIRE_def BR_FINISHED_def ioc_def)

lemma wait_unread:
  assumes "mIn s = pre @ u32_bytes cmd @ post" and "mInPos s = length pre" and "0 < mDriverFD s"
  shows "waitForResponse e (Suc n) reply acquire s = wait_command e (waitForResponse e n) cmd reply acquire (s\<lparr>mInPos := mInPos s + 4\<rparr>)"
proof -
  have "talkWithDriver True s = Inr (NO_ERROR, s)" using assms by (intro unread_talk) simp_all
  moreover have "in_avail s \<noteq> 0" using assms by (simp add: in_avail_def)
  ultimately show ?thesis using in_u32_at [OF assms(1,2)] by (simp add: wait_once_def)
qed

lemma wait_quiet:
  "quiet qs \<Longrightarrow> mIn s = pre @ concat (map u32_bytes qs) @ post \<Longrightarrow> mInPos s = length pre \<Longrightarrow> 0 < mDriverFD s \<Longrightarrow>
    waitForResponse e (length qs + n) (Some p) None s = waitForResponse e n (Some p) None (s\<lparr>mInPos := mInPos s + 4 * length qs\<rparr>)"
proof (induction qs arbitrary: s pre)
  case (Cons q qs)
  have q: "q = BR_NOOP \<or> q = BR_OK \<or> q = BR_TRANSACTION_COMPLETE" and qs: "quiet qs" using Cons.prems(1) by (auto simp: quiet_def)
  have "waitForResponse e (Suc (length qs + n)) (Some p) None s
      = wait_command e (waitForResponse e (length qs + n)) q (Some p) None (s\<lparr>mInPos := mInPos s + 4\<rparr>)"
    by (rule wait_unread [of s pre q "concat (map u32_bytes qs) @ post"]) (use Cons.prems in simp_all)
  also have "\<dots> = waitForResponse e (length qs + n) (Some p) None (s\<lparr>mInPos := mInPos s + 4\<rparr>)"
    using q by (elim disjE) (simp_all add: wait_command_def wait_codes executeCommand_def run_noop run_ok set_last_error_def)
  also have "\<dots> = waitForResponse e n (Some p) None ((s\<lparr>mInPos := mInPos s + 4\<rparr>)\<lparr>mInPos := mInPos (s\<lparr>mInPos := mInPos s + 4\<rparr>) + 4 * length qs\<rparr>)"
    by (rule Cons.IH [OF qs, of _ "pre @ u32_bytes q"]) (use Cons.prems in simp_all)
  finally show ?case by (simp add: add.assoc)
next
  case Nil
  have "s\<lparr>mInPos := mInPos s\<rparr> = s" by simp
  then show ?case by (simp del: Nil.prems)
qed

lemma in_transaction_at:
  assumes "mIn s = pre @ transaction_data_bytes tr @ post" and "mInPos s = length pre"
  shows "in_transaction s = (Some tr, s\<lparr>mInPos := mInPos s + 64\<rparr>)"
proof -
  have "length (transaction_data_bytes tr) = 64" by (simp add: transaction_data_bytes_def)
  then have "get_range (mIn s) (mInPos s) 64 = Some (transaction_data_bytes tr)" using assms by (simp add: get_range_def)
  then show ?thesis by (simp add: in_transaction_def transaction_data_encode)
qed

text \<open>What the caller gets for an outcome, in the state \<open>s\<close> after it has been read.\<close>

fun result_of :: "ipc_env \<Rightarrow> parcel \<Rightarrow> ipc \<Rightarrow> outcome \<Rightarrow> halt + int \<times> parcel option \<times> ipc" where
  "result_of e p s Dead_Reply = Inr (DEAD_OBJECT, Some (setError DEAD_OBJECT p), s\<lparr>mLastError := DEAD_OBJECT\<rparr>)"
| "result_of e p s Failed_Reply = Inr (FAILED_TRANSACTION, Some (setError FAILED_TRANSACTION p), s\<lparr>mLastError := FAILED_TRANSACTION\<rparr>)"
| "result_of e p s (Replied tr) =
     (if td_flags tr AND TF_STATUS_CODE = 0 then and_then (refer_to e tr p s) (\<lambda>(p1, s1). Inr (NO_ERROR, Some p1, s1))
      else if status_in e tr = NO_ERROR then Inr (NO_ERROR, Some p, freeBuffer tr s)
      else Inr (status_in e tr, Some (setError (status_in e tr) p), (freeBuffer tr s)\<lparr>mLastError := status_in e tr\<rparr>))"

lemma wait_outcome:
  assumes "mIn s = pre @ outcome_bytes out" and "mInPos s = length pre" and "0 < mDriverFD s"
  shows "and_then (waitForResponse e (Suc n) (Some p) None s) (\<lambda>(err, r, _, s2). Inr (err, r, s2))
    = result_of e p (s\<lparr>mInPos := length (mIn s)\<rparr>) out"
proof (cases out)
  case (Replied tr)
  have w: "waitForResponse e (Suc n) (Some p) None s = wait_command e (waitForResponse e n) BR_REPLY (Some p) None (s\<lparr>mInPos := mInPos s + 4\<rparr>)"
    by (rule wait_unread [of s pre BR_REPLY "transaction_data_bytes tr"]) (use assms Replied in simp_all)
  have len: "length (transaction_data_bytes tr) = 64" by (simp add: transaction_data_bytes_def)
  have "in_transaction (s\<lparr>mInPos := mInPos s + 4\<rparr>) = (Some tr, (s\<lparr>mInPos := mInPos s + 4\<rparr>)\<lparr>mInPos := mInPos (s\<lparr>mInPos := mInPos s + 4\<rparr>) + 64\<rparr>)"
    by (rule in_transaction_at [of _ "pre @ u32_bytes BR_REPLY" tr "[]"]) (use assms Replied in simp_all)
  then have "in_transaction (s\<lparr>mInPos := mInPos s + 4\<rparr>) = (Some tr, s\<lparr>mInPos := length (mIn s)\<rparr>)"
    using assms Replied len by (simp add: numeral_eq_Suc)
  then show ?thesis unfolding w Replied
    by (cases "refer_to e tr p (s\<lparr>mInPos := length (mIn s)\<rparr>)") (auto simp: wait_command_def wait_codes got_reply_def finish_def)
next
  case Dead_Reply
  have w: "waitForResponse e (Suc n) (Some p) None s = wait_command e (waitForResponse e n) BR_DEAD_REPLY (Some p) None (s\<lparr>mInPos := mInPos s + 4\<rparr>)"
    by (rule wait_unread [of s pre _ "[]"]) (use assms Dead_Reply in simp_all)
  show ?thesis unfolding w using assms Dead_Reply by (simp add: wait_command_def wait_codes finish_def)
next
  case Failed_Reply
  have w: "waitForResponse e (Suc n) (Some p) None s = wait_command e (waitForResponse e n) BR_FAILED_REPLY (Some p) None (s\<lparr>mInPos := mInPos s + 4\<rparr>)"
    by (rule wait_unread [of s pre _ "[]"]) (use assms Failed_Reply in simp_all)
  show ?thesis unfolding w using assms Failed_Reply by (simp add: wait_command_def wait_codes finish_def)
qed

text \<open>A thread that has read everything, and a driver that takes all commands and has something to say.\<close>

definition takes_all :: "drv_answer \<Rightarrow> ipc \<Rightarrow> bool" where
  "takes_all a s \<longleftrightarrow> a_err a = NO_ERROR \<and> \<not> a_closed a \<and> a_written a = length (mOut s) \<and> a_read a \<noteq> []"

lemma talk_all:
  assumes "length (mIn s) \<le> mInPos s" and "0 < mDriverFD s" and "answers s = a # rest" and "takes_all a s"
  shows "talkWithDriver True s = Inr (NO_ERROR, s\<lparr>answers := rest, accepted := accepted s @ mOut s, mOut := [], mIn := a_read a, mInPos := 0\<rparr>)"
  using assms by (cases s) (auto simp: talkWithDriver_def takes_all_def)

lemma wait_after_talk:
  assumes "talkWithDriver True s = Inr (NO_ERROR, s1)" and "mInPos s1 = 0" and "mIn s1 \<noteq> []" and "0 < mDriverFD s1"
  shows "waitForResponse e (Suc n) reply acquire s = waitForResponse e (Suc n) reply acquire s1"
proof -
  have "talkWithDriver True s1 = Inr (NO_ERROR, s1)" using assms(2-4) by (intro unread_talk) simp_all
  then show ?thesis using assms(1) by (simp add: wait_once_def)
qed

lemma u32_bytes_pos [simp]: "u32_bytes w \<noteq> []"
  by (simp add: le_bytes_def)

lemma outcome_bytes_pos: "outcome_bytes out \<noteq> []"
  by (cases out) (simp_all add: le_bytes_def)

text \<open>
  C21. A call from a thread that has nothing left to read, when the driver takes its commands and answers with an outcome, perhaps after \<open>BR_NOOP\<close>, \<open>BR_OK\<close> and \<open>BR_TRANSACTION_COMPLETE\<close>. The driver has got everything that
  was waiting and then the transaction, the outgoing buffer is empty and the input is used up. A reply becomes the contents of the reply parcel; a status code and a dead or
  failed reply become the result, the error of the reply parcel and \<open>mLastError\<close>.
\<close>

theorem call_returns:
  assumes "mError data = NO_ERROR" and "(flags OR TF_ACCEPT_FDS) AND TF_ONE_WAY = 0" and "length (mIn s) \<le> mInPos s" and "0 < mDriverFD s"
    and "answers s = a # rest" and "takes_all a (put_command (C_Transaction (transaction_of e (flags OR TF_ACCEPT_FDS) h code data)) s)"
    and "a_read a = concat (map u32_bytes qs) @ outcome_bytes out" and "quiet qs"
  shows "transact e (length qs + Suc n) h code data (Some p) flags s
    = result_of e p (s\<lparr>mIn := a_read a, mOut := [], answers := rest, accepted := accepted s @ mOut s @ u32_bytes BC_TRANSACTION
          @ transaction_data_bytes (transaction_of e (flags OR TF_ACCEPT_FDS) h code data), mInPos := length (a_read a)\<rparr>) out"
proof -
  define c where "c = C_Transaction (transaction_of e (flags OR TF_ACCEPT_FDS) h code data)"
  define s1 where "s1 = s\<lparr>mIn := a_read a, mInPos := 0, mOut := [], answers := rest, accepted := accepted s @ mOut s @ command_bytes c\<rparr>"
  have talk: "talkWithDriver True (put_command c s) = Inr (NO_ERROR, s1)"
    using talk_all [of "put_command c s" a rest] assms(3-6) by (simp add: c_def put_command_def s1_def)
  have s1: "mIn s1 = concat (map u32_bytes qs) @ outcome_bytes out" "mInPos s1 = 0" "0 < mDriverFD s1" using assms(4,7) by (simp_all add: s1_def)
  have "transact e (length qs + Suc n) h code data (Some p) flags s
      = and_then (waitForResponse e (length qs + Suc n) (Some p) None (put_command c s)) (\<lambda>(err, r, _, s2). Inr (err, r, s2))"
    using assms(1,2) by (simp add: transact_cases c_def)
  also have "waitForResponse e (length qs + Suc n) (Some p) None (put_command c s) = waitForResponse e (length qs + Suc n) (Some p) None s1"
    using wait_after_talk [OF talk s1(2) _ s1(3), of e "length qs + n"] s1(1) outcome_bytes_pos by simp
  also have "\<dots> = waitForResponse e (Suc n) (Some p) None (s1\<lparr>mInPos := mInPos s1 + 4 * length qs\<rparr>)"
    by (rule wait_quiet [OF assms(8), of s1 "[]"]) (use s1 in simp_all)
  also have "and_then \<dots> (\<lambda>(err, r, _, s2). Inr (err, r, s2))
      = result_of e p ((s1\<lparr>mInPos := mInPos s1 + 4 * length qs\<rparr>)\<lparr>mInPos := length (mIn (s1\<lparr>mInPos := mInPos s1 + 4 * length qs\<rparr>))\<rparr>) out"
  proof (rule wait_outcome [of _ "concat (map u32_bytes qs)"])
    have "length (concat (map u32_bytes qs)) = 4 * length qs" by (induction qs) simp_all
    then show "mInPos (s1\<lparr>mInPos := mInPos s1 + 4 * length qs\<rparr>) = length (concat (map u32_bytes qs))" using s1(2) by simp
  qed (use s1 in simp_all)
  finally show ?thesis by (simp add: s1_def c_def)
qed

text \<open>A call to handle 1 whose target is dead.\<close>

definition dead_answer :: drv_answer where
  "dead_answer = \<lparr>a_err = 0, a_written = 68, a_read = u32_bytes BR_NOOP @ u32_bytes BR_DEAD_REPLY, a_closed = False\<rparr>"

lemma command_68 [simp]: "length (transaction_data_bytes tr) = 64"
  by (simp add: transaction_data_bytes_def)

theorem call_returns_witness:
  "\<exists>s'. transact some_env 2 1 5 initState (Some initState) 0 (some_thread\<lparr>answers := [dead_answer]\<rparr>)
    = Inr (DEAD_OBJECT, Some (setError DEAD_OBJECT initState), s') \<and> mOut s' = []"
  using call_returns [of initState 0 "some_thread\<lparr>answers := [dead_answer]\<rparr>" dead_answer "[]" some_env 1 5 "[BR_NOOP]" Dead_Reply 0 initState]
  by (simp add: initState_def some_thread_def takes_all_def dead_answer_def put_command_def quiet_def numeral_2_eq_2)

section \<open>Commands that are sent twice\<close>

text \<open>
  C22. When the driver stops at a transaction that fails, it takes the commands up to there and leaves the rest. \<open>talkWithDriver\<close> then calls \<open>Parcel::remove\<close>, which does
  nothing, so that the commands already executed stay in \<open>mOut\<close>. A thread that had an unread \<open>BR_INCREFS\<close> when it made the call has the acknowledgement behind the
  transaction: it is told that the call has failed, and sends the transaction again with its next commands.
\<close>

theorem failed_call_sent_again:
  assumes "mError data = NO_ERROR" and "(flags OR TF_ACCEPT_FDS) AND TF_ONE_WAY = 0" and "0 < mDriverFD s" and "mOut s = []"
    and "mIn s = u32_bytes BR_INCREFS @ u64_bytes r @ u64_bytes obj" and "mInPos s = 0"
    and "answers s = [\<lparr>a_err = 0, a_written = 68, a_read = u32_bytes BR_FAILED_REPLY, a_closed = False\<rparr>,
           \<lparr>a_err = 0, a_written = 88, a_read = [], a_closed = False\<rparr>]"
  shows "\<exists>s1 s2. transact e (n + 3) h code data (Some p) flags s = Inr (FAILED_TRANSACTION, Some (setError FAILED_TRANSACTION p), s1)
    \<and> flushCommands s1 = Inr s2 \<and> accepted s2 = accepted s
         @ command_bytes (C_Transaction (transaction_of e (flags OR TF_ACCEPT_FDS) h code data))
         @ command_bytes (C_Transaction (transaction_of e (flags OR TF_ACCEPT_FDS) h code data)) @ command_bytes (C_Increfs_Done r obj)"
proof -
  define c where "c = C_Transaction (transaction_of e (flags OR TF_ACCEPT_FDS) h code data)"
  have len: "length (command_bytes c) = 68" by (simp add: c_def)
  define s1 where "s1 = put_command c s"
  define s2 where "s2 = put_command (C_Increfs_Done r obj) (calls_object (Inc_Weak_Of r) (s1\<lparr>mInPos := 20\<rparr>))"
  define s3 where "s3 = s2\<lparr>answers := tl (answers s2), accepted := accepted s @ command_bytes c, mIn := u32_bytes BR_FAILED_REPLY, mInPos := 0\<rparr>"
  have s1: "mIn s1 = [] @ u32_bytes BR_INCREFS @ u64_bytes r @ u64_bytes obj" "mInPos s1 = length []" "0 < mDriverFD s1"
    using assms by (simp_all add: s1_def put_command_def)
  have rest: "in_u64 (s1\<lparr>mInPos := 4\<rparr>) = (r, s1\<lparr>mInPos := 12\<rparr>)" "in_u64 (s1\<lparr>mInPos := 12\<rparr>) = (obj, s1\<lparr>mInPos := 20\<rparr>)"
    using read_two(2,3) [of s1 "[]" BR_INCREFS r obj "[]"] s1 by simp_all
  have "waitForResponse e (n + 3) (Some p) None s1 = wait_command e (waitForResponse e (n + 2)) BR_INCREFS (Some p) None (s1\<lparr>mInPos := 4\<rparr>)"
    using wait_unread [OF s1, of e "n + 2" "Some p" None] s1(2) by (simp add: eval_nat_numeral)
  also have "\<dots> = waitForResponse e (n + 2) (Some p) None s2"
    using rest by (simp add: wait_command_def executeCommand_def run_command_def code_neqs set_last_error_def s2_def
        br_codes BR_ACQUIRE_RESULT_def ioc_def)
  also have "\<dots> = waitForResponse e (n + 2) (Some p) None s3"
  proof -
    have "talkWithDriver True s2 = Inr (NO_ERROR, s3)"
      using assms(3-7) len
      by (simp add: talkWithDriver_def s1_def s2_def s3_def put_command_def calls_object_def le_bytes_def)
    then show ?thesis using wait_after_talk [of s2 s3 e "n + 1" "Some p" None] assms(3)
      by (simp add: s3_def s2_def s1_def put_command_def calls_object_def le_bytes_def)
  qed
  also have "\<dots> = finish FAILED_TRANSACTION (Some p) None (s3\<lparr>mInPos := 4\<rparr>)"
    using wait_unread [of s3 "[]" BR_FAILED_REPLY "[]" e "n + 1" "Some p" None] assms(3)
    by (simp add: s3_def s2_def s1_def put_command_def calls_object_def wait_command_def wait_codes)
  finally have call: "transact e (n + 3) h code data (Some p) flags s
      = Inr (FAILED_TRANSACTION, Some (setError FAILED_TRANSACTION p), s3\<lparr>mInPos := 4, mLastError := FAILED_TRANSACTION\<rparr>)"
    using assms(1,2) by (simp add: transact_cases c_def s1_def finish_def)
  have "\<exists>s4. flushCommands (s3\<lparr>mInPos := 4, mLastError := FAILED_TRANSACTION\<rparr>) = Inr s4
      \<and> accepted s4 = accepted s @ command_bytes c @ command_bytes c @ command_bytes (C_Increfs_Done r obj)"
    using assms(3,4,7) len
    by (simp add: flushCommands_def talkWithDriver_def s1_def s2_def s3_def put_command_def calls_object_def)
  then show ?thesis using call by (auto simp: c_def)
qed

definition failing_thread :: ipc where
  "failing_thread = some_thread\<lparr>mIn := u32_bytes BR_INCREFS @ u64_bytes 32 @ u64_bytes 64,
     answers := [\<lparr>a_err = 0, a_written = 68, a_read = u32_bytes BR_FAILED_REPLY, a_closed = False\<rparr>,
       \<lparr>a_err = 0, a_written = 88, a_read = [], a_closed = False\<rparr>]\<rparr>"

theorem failed_call_sent_again_witness:
  "\<exists>s1 s2. transact some_env 3 1 5 initState (Some initState) 0 failing_thread = Inr (FAILED_TRANSACTION, Some (setError FAILED_TRANSACTION initState), s1)
    \<and> flushCommands s1 = Inr s2 \<and> accepted s2 = command_bytes (C_Transaction (transaction_of some_env TF_ACCEPT_FDS 1 5 initState))
         @ command_bytes (C_Transaction (transaction_of some_env TF_ACCEPT_FDS 1 5 initState)) @ command_bytes (C_Increfs_Done 32 64)"
  using failed_call_sent_again [of initState 0 failing_thread 32 64 some_env 0 1 5 initState]
  by (simp add: initState_def failing_thread_def some_thread_def)

section \<open>A lookup that never returns\<close>

text \<open>
  \<open>getStrongProxyForHandle\<close> pings the service manager with the lock of the table held, when the process has no proxy for handle 0. If, while it waits, the driver
  confirms that a death notification is cleared, and this held the last reference to a proxy, the thread deletes the proxy, whose destructor needs the
  lock that the thread itself has: it never returns, and nor does any thread that looks up a handle after that.
\<close>

theorem context_lookup_deadlocks:
  assumes "\<not> mLock_held s" and "lookupHandleLocked (\<lambda>_. True) 0 (mProxies s) = Some P" and "current_proxy 0 P = Some None"
    and "length (mIn s) \<le> mInPos s" and "0 < mDriverFD s" and "answers s = a # rest"
    and "takes_all a (put_command (C_Transaction (transaction_of e TF_ACCEPT_FDS 0 IBinder_PING_TRANSACTION initState)) s)"
    and "a_read a = u32_bytes BR_CLEAR_DEATH_NOTIFICATION_DONE @ u64_bytes x @ more'" and "bps P x = Some b" and "mWeak (counts b) = 1"
  shows "lookup_handle e (Suc n) y 0 s = Inl Deadlock"
proof -
  define c where "c = C_Transaction (transaction_of e TF_ACCEPT_FDS 0 IBinder_PING_TRANSACTION initState)"
  define s1 where "s1 = s\<lparr>mProxies := P, mLock_held := True\<rparr>"
  define s2 where "s2 = (put_command c s1)\<lparr>answers := rest, accepted := accepted s @ mOut s @ command_bytes c, mOut := [], mIn := a_read a, mInPos := 0\<rparr>"
  have talk: "talkWithDriver True (put_command c s1) = Inr (NO_ERROR, s2)"
    using talk_all [of "put_command c s1" a rest] assms(4-7) by (simp add: s1_def s2_def c_def put_command_def takes_all_def)
  have s2: "mIn s2 = [] @ u32_bytes BR_CLEAR_DEATH_NOTIFICATION_DONE @ u64_bytes x @ more'" "mInPos s2 = length []" "0 < mDriverFD s2"
      "mProxies s2 = P" "mLock_held s2"
    using assms(5,8) by (simp_all add: s1_def s2_def put_command_def)
  have x: "in_u64 (s2\<lparr>mInPos := 4\<rparr>) = (x, s2\<lparr>mInPos := 12\<rparr>)"
    using in_u64_at [of "s2\<lparr>mInPos := 4\<rparr>" "u32_bytes BR_CLEAR_DEATH_NOTIFICATION_DONE" x more'] s2 by simp
  have drop: "drop_proxy x (s2\<lparr>mInPos := 12\<rparr>) = Inl Deadlock"
    using assms(9,10) s2(4,5) by (simp add: drop_proxy_def drop_weak_def decWeak_def)
  have "waitForResponse e (Suc n) (Some initState) None (put_command c s1) = waitForResponse e (Suc n) (Some initState) None s2"
    by (rule wait_after_talk [OF talk]) (use s2 in \<open>simp_all add: le_bytes_def\<close>)
  also have "\<dots> = wait_command e (waitForResponse e n) BR_CLEAR_DEATH_NOTIFICATION_DONE (Some initState) None (s2\<lparr>mInPos := 4\<rparr>)"
    using wait_unread [OF s2(1-3), of e n "Some initState" None] s2(2) by simp
  also have "\<dots> = Inl Deadlock"
    using x drop by (simp add: wait_command_def executeCommand_def run_command_def br_codes BR_ACQUIRE_RESULT_def BR_ATTEMPT_ACQUIRE_def ioc_def)
  finally have "transact e (Suc n) 0 IBinder_PING_TRANSACTION initState None 0 s1 = Inl Deadlock"
    by (simp add: transact_cases c_def initState_def)
  then show ?thesis using assms(1-3) by (simp add: lookup_handle_def s1_def)
qed

text \<open>The proxy of handle 1, at 16, is only kept by its request for a death notification, which has been cleared.\<close>

definition cleared_proxies :: proxies where
  "cleared_proxies = \<lparr>mHandleToObject = [\<lparr>e_proxy = None, e_refs = None\<rparr>, \<lparr>e_proxy = Some 16, e_refs = Some 16\<rparr>],
     bps = [16 \<mapsto> (fst (BpBinder 1))\<lparr>counts := incWeak (RefBase OBJECT_LIFETIME_WEAK)\<rparr>]\<rparr>"

definition cleared_answer :: drv_answer where
  "cleared_answer = \<lparr>a_err = 0, a_written = 68, a_read = u32_bytes BR_CLEAR_DEATH_NOTIFICATION_DONE @ u64_bytes 16, a_closed = False\<rparr>"

theorem context_lookup_deadlocks_witness:
  "lookup_handle some_env 1 48 0 (some_thread\<lparr>mProxies := cleared_proxies, answers := [cleared_answer]\<rparr>) = Inl Deadlock"
  using context_lookup_deadlocks [of "some_thread\<lparr>mProxies := cleared_proxies, answers := [cleared_answer]\<rparr>" cleared_proxies cleared_answer "[]" some_env 16 "[]"
      "(fst (BpBinder 1))\<lparr>counts := incWeak (RefBase OBJECT_LIFETIME_WEAK)\<rparr>" 0 48]
  by (simp add: some_thread_def cleared_proxies_def cleared_answer_def lookupHandleLocked_def current_proxy_def takes_all_def put_command_def
      incWeak_def add_weak_def int32_def RefBase_def)

end
