(* ===== verification/Unicode.thy ===== *)
theory Unicode
  imports Bytes
begin

text \<open>
  Conversions between UTF-8, UTF-16 and UTF-32 and the functions on UTF-16 strings (\<open>libs/utils/Unicode.cpp\<close>), with the constructors of \<open>String8\<close> and \<open>String16\<close> that allocate
  what the length functions say and let the conversions write into it. A source is the memory from its first element on; an access behind its end, a store behind
  the end of a destination and an undefined shift are \<open>None\<close>. Whether \<open>char\<close> is signed is the implementation's choice and the argument \<open>sg\<close>.
\<close>

unbundle bit_operations_syntax

section \<open>Memory\<close>

definition elem_at :: "'a list \<Rightarrow> nat \<Rightarrow> 'a option" where
  "elem_at mem i = (if i < length mem then Some (mem ! i) else None)"

definition overwrite :: "'a list \<Rightarrow> 'a list \<Rightarrow> 'a list option" where
  "overwrite dst out = (if length out \<le> length dst then Some (out @ drop (length out) dst) else None)"

definition char32 :: "bool \<Rightarrow> byte \<Rightarrow> u32" where
  "char32 sg b = (if sg then scast b else ucast b)"

section \<open>UTF-32\<close>

definition utf32_codepoint_utf8_length :: "u32 \<Rightarrow> nat" where
  "utf32_codepoint_utf8_length c =
     (if c < 0x80 then 1
      else if c < 0x800 then 2
      else if c < 0x10000 then if c < 0xD800 \<or> c > 0xDFFF then 3 else 0
      else if c \<le> 0x10FFFF then 4
      else 0)"

definition kFirstByteMark :: "nat \<Rightarrow> u32" where
  "kFirstByteMark n = [0, 0, 0xC0, 0xE0, 0xF0] ! n"

text \<open>The cases of the switch fall through: the last byte is written first, \<open>n\<close> counts down from \<open>bytes\<close>.\<close>

fun put_back :: "nat \<Rightarrow> nat \<Rightarrow> u32 \<Rightarrow> byte list" where
  "put_back bytes 0 c = []"
| "put_back bytes (Suc 0) c = [ucast (c OR kFirstByteMark bytes)]"
| "put_back bytes (Suc (Suc n)) c = put_back bytes (Suc n) (drop_bit 6 c) @ [ucast ((c OR 0x80) AND 0xBF)]"

definition utf32_codepoint_to_utf8 :: "u32 \<Rightarrow> nat \<Rightarrow> byte list" where
  "utf32_codepoint_to_utf8 c bytes = put_back bytes bytes c"

fun strlen32 :: "u32 list \<Rightarrow> nat option" where
  "strlen32 [] = None"
| "strlen32 (c # s) = (if c = 0 then Some 0 else map_option Suc (strlen32 s))"

fun strnlen32 :: "u32 list \<Rightarrow> nat \<Rightarrow> nat option" where
  "strnlen32 s 0 = Some 0"
| "strnlen32 [] (Suc n) = None"
| "strnlen32 (c # s) (Suc n) = (if c = 0 then Some 0 else map_option Suc (strnlen32 s n))"

definition utf32_to_utf8_length :: "u32 list \<Rightarrow> int" where
  "utf32_to_utf8_length src = (if src = [] then - 1 else int (sum_list (map utf32_codepoint_utf8_length src)))"

definition utf32_to_utf8 :: "u32 list \<Rightarrow> byte list \<Rightarrow> byte list option" where
  "utf32_to_utf8 src dst =
     (if src = [] then Some dst
      else overwrite dst (concat (map (\<lambda>c. utf32_codepoint_to_utf8 c (utf32_codepoint_utf8_length c)) src) @ [0]))"

lemma halved_less: "x AND w \<noteq> 0 \<Longrightarrow> unat (drop_bit (Suc 0) w) < unat (w :: u32)"
proof -
  assume "x AND w \<noteq> 0"
  then have "w \<noteq> 0" by auto
  then have "unat w \<noteq> 0" using unsigned_eq_0_iff [of w] by blast
  moreover have "unat (drop_bit (Suc 0) w) = unat w div 2" by (simp add: drop_bit_eq_div unat_div)
  ultimately show ?thesis by simp
qed

function at_loop :: "byte list \<Rightarrow> u32 \<Rightarrow> nat \<Rightarrow> u32 \<Rightarrow> u32 \<Rightarrow> u32 \<Rightarrow> (nat \<times> u32 \<times> u32 \<times> u32) option" where
  "at_loop mem first n m ign v =
     (if first AND m \<noteq> 0
      then do { b \<leftarrow> elem_at mem n; at_loop mem first (n + 1) (drop_bit 1 m) (ign OR m) (push_bit 6 v + (ucast b AND 0x3F)) }
      else Some (n, m, ign, v))"
  by pat_completeness auto

termination
  by (relation "measure (\<lambda>(_, _, _, m, _). unat m)") (auto intro!: halved_less)

text \<open>The code point at the start of \<open>mem\<close> and the number of bytes it takes.\<close>

definition utf32_at_internal :: "bool \<Rightarrow> byte list \<Rightarrow> (u32 \<times> nat) option" where
  "utf32_at_internal sg mem = do {
     b \<leftarrow> elem_at mem 0;
     if b AND 0x80 = 0 then Some (char32 sg b, 1)
     else do {
       (n, m, ign, v) \<leftarrow> at_loop mem (char32 sg b) 1 0x40 0xFFFFFF80 (char32 sg b);
       if 6 * (n - 1) < 32 then Some (v AND NOT (push_bit (6 * (n - 1)) (ign OR m)), n) else None } }"

text \<open>The second component is \<open>*next_index\<close>, if it is set.\<close>

definition utf32_from_utf8_at :: "bool \<Rightarrow> byte list \<Rightarrow> nat \<Rightarrow> nat \<Rightarrow> (int \<times> nat option) option" where
  "utf32_from_utf8_at sg src src_len index =
     (if index \<ge> src_len then Some (- 1, None)
      else do {
        (v, n) \<leftarrow> utf32_at_internal sg (drop index src);
        let ret = sint v in Some (ret, if ret \<ge> 0 then Some (index + n) else None) })"

declare at_loop.simps [simp del]

lemma at_loop_forward: "at_loop mem first n m ign v = Some (n', rest) \<Longrightarrow> n \<le> n'"
proof (induction mem first n m ign v rule: at_loop.induct)
  case (1 mem first n m ign v)
  then show ?case using at_loop.simps [of mem first n m ign v] by (fastforce split: if_splits Option.bind_splits)
qed

lemma at_internal_pos: "utf32_at_internal sg mem = Some (v, n) \<Longrightarrow> 0 < n"
  by (auto simp: utf32_at_internal_def split: if_splits Option.bind_splits dest!: at_loop_forward)

function to_utf32_from :: "bool \<Rightarrow> byte list \<Rightarrow> nat \<Rightarrow> nat \<Rightarrow> u32 list option" where
  "to_utf32_from sg src src_len cur =
     (if cur < src_len
      then do { (v, n) \<leftarrow> utf32_at_internal sg (drop cur src); rest \<leftarrow> to_utf32_from sg src src_len (cur + n); Some (v # rest) }
      else Some [])"
  by pat_completeness auto

termination
  by (relation "measure (\<lambda>(_, _, src_len, cur). src_len - cur)") (auto dest: at_internal_pos)

definition utf8_to_utf32 :: "bool \<Rightarrow> byte list \<Rightarrow> nat \<Rightarrow> u32 list \<Rightarrow> u32 list option" where
  "utf8_to_utf32 sg src src_len dst =
     (if src_len = 0 then Some dst else do { out \<leftarrow> to_utf32_from sg src src_len 0; overwrite dst (out @ [0]) })"

text \<open>The number of bytes that a first byte announces.\<close>

function skip_loop :: "u32 \<Rightarrow> nat \<Rightarrow> u32 \<Rightarrow> nat" where
  "skip_loop first n m = (if first AND m \<noteq> 0 then skip_loop first (n + 1) (drop_bit 1 m) else n)"
  by pat_completeness auto

termination
  by (relation "measure (\<lambda>(_, _, m). unat m)") (auto intro!: halved_less)

declare skip_loop.simps [simp del]

lemma skip_loop_forward: "n \<le> skip_loop first n m"
proof (induction first n m rule: skip_loop.induct)
  case (1 first n m)
  then show ?case using skip_loop.simps [of first n m] by (auto split: if_splits)
qed

function utf32_count :: "bool \<Rightarrow> byte list \<Rightarrow> nat \<Rightarrow> nat \<Rightarrow> nat option" where
  "utf32_count sg src src_len cur =
     (if cur < src_len
      then do {
        b \<leftarrow> elem_at src cur;
        n \<leftarrow> utf32_count sg src src_len (cur + (if b AND 0x80 = 0 then 1 else skip_loop (char32 sg b) 1 0x40));
        Some (n + 1) }
      else Some 0)"
  by pat_completeness auto

termination
proof (relation "measure (\<lambda>(_, _, src_len, cur). src_len - cur)")
  fix sg src and src_len cur :: nat and b :: byte
  assume "cur < src_len"
  moreover have "1 \<le> skip_loop (char32 sg b) 1 0x40" by (rule skip_loop_forward)
  ultimately show "((sg, src, src_len, cur + (if b AND 0x80 = 0 then 1 else skip_loop (char32 sg b) 1 0x40)), sg, src, src_len, cur)
      \<in> measure (\<lambda>(_, _, src_len, cur). src_len - cur)" by auto
qed simp

definition utf8_to_utf32_length :: "bool \<Rightarrow> byte list \<Rightarrow> nat \<Rightarrow> nat option" where
  "utf8_to_utf32_length sg src src_len = utf32_count sg src src_len 0"

section \<open>UTF-16\<close>

fun strcmp16 :: "u16 list \<Rightarrow> u16 list \<Rightarrow> int option" where
  "strcmp16 (a # s1) (b # s2) = (let d = uint a - uint b in if d \<noteq> 0 \<or> a = 0 then Some d else strcmp16 s1 s2)"
| "strcmp16 _ _ = None"

fun strncmp16 :: "u16 list \<Rightarrow> u16 list \<Rightarrow> nat \<Rightarrow> int option" where
  "strncmp16 s1 s2 0 = Some 0"
| "strncmp16 (a # s1) (b # s2) (Suc n) =
     (let d = uint a - uint b in if d \<noteq> 0 \<or> a = 0 then Some d else strncmp16 s1 s2 n)"
| "strncmp16 _ _ (Suc n) = None"

fun strlen16 :: "u16 list \<Rightarrow> nat option" where
  "strlen16 [] = None"
| "strlen16 (c # s) = (if c = 0 then Some 0 else map_option Suc (strlen16 s))"

fun strnlen16 :: "u16 list \<Rightarrow> nat \<Rightarrow> nat option" where
  "strnlen16 s 0 = Some 0"
| "strnlen16 [] (Suc n) = None"
| "strnlen16 (c # s) (Suc n) = (if c = 0 then Some 0 else map_option Suc (strnlen16 s n))"

fun strcpy16 :: "u16 list \<Rightarrow> u16 list \<Rightarrow> u16 list option" where
  "strcpy16 (_ # dst) (c # src) = (if c = 0 then Some (c # dst) else map_option ((#) c) (strcpy16 dst src))"
| "strcpy16 _ _ = None"

text \<open>\<open>ch\<close> is a \<open>char\<close>: what is stored is the value of the inner assignment.\<close>

fun strncpy16 :: "bool \<Rightarrow> u16 list \<Rightarrow> u16 list \<Rightarrow> nat \<Rightarrow> u16 list option" where
  "strncpy16 sg (_ # dst) src 0 = Some (0 # dst)"
| "strncpy16 sg (_ # dst) (c # src) (Suc n) =
     (let ch = (ucast c :: byte)
      in map_option ((#) (if sg then scast ch else ucast ch))
           (if ch = 0 then (case dst of [] \<Rightarrow> None | _ # dst1 \<Rightarrow> Some (0 # dst1)) else strncpy16 sg dst src n))"
| "strncpy16 sg _ _ _ = None"

text \<open>The strings with their lengths: the lists.\<close>

fun strzcmp16 :: "u16 list \<Rightarrow> u16 list \<Rightarrow> int" where
  "strzcmp16 [] [] = 0"
| "strzcmp16 [] (b # s2) = 0 - uint b"
| "strzcmp16 (a # s1) [] = uint a - 0"
| "strzcmp16 (a # s1) (b # s2) = (let d = uint a - uint b in if d \<noteq> 0 then d else strzcmp16 s1 s2)"

text \<open>The second string is in network byte order.\<close>

definition ntohs :: "u16 \<Rightarrow> u16" where
  "ntohs x = push_bit 8 x OR drop_bit 8 x"

fun strzcmp16_h_n :: "u16 list \<Rightarrow> u16 list \<Rightarrow> int" where
  "strzcmp16_h_n [] [] = 0"
| "strzcmp16_h_n [] (b # s2) = 0 - uint (ntohs b)"
| "strzcmp16_h_n (a # s1) [] = uint a - 0"
| "strzcmp16_h_n (a # s1) (b # s2) = (let d = uint a - uint (ntohs b) in if d \<noteq> 0 then d else strzcmp16_h_n s1 s2)"

definition high_surrogate :: "u16 \<Rightarrow> bool" where
  "high_surrogate c \<longleftrightarrow> c AND 0xFC00 = 0xD800"

definition low_surrogate :: "u16 \<Rightarrow> bool" where
  "low_surrogate c \<longleftrightarrow> c AND 0xFC00 = 0xDC00"

definition surrogate_pair :: "u16 \<Rightarrow> u16 \<Rightarrow> u32" where
  "surrogate_pair hi lo = (push_bit 10 (ucast hi - 0xD800) OR (ucast lo - 0xDC00)) + 0x10000"

text \<open>The code points that \<open>utf16_to_utf8\<close> finds in a string.\<close>

fun utf16_codepoints :: "u16 list \<Rightarrow> u32 list" where
  "utf16_codepoints [] = []"
| "utf16_codepoints [c] = [ucast c]"
| "utf16_codepoints (c # d # rest) =
     (if high_surrogate c \<and> low_surrogate d then surrogate_pair c d # utf16_codepoints rest else ucast c # utf16_codepoints (d # rest))"

definition utf16_to_utf8 :: "u16 list \<Rightarrow> byte list \<Rightarrow> byte list option" where
  "utf16_to_utf8 src dst =
     (if src = [] then Some dst
      else overwrite dst (concat (map (\<lambda>c. utf32_codepoint_to_utf8 c (utf32_codepoint_utf8_length c)) (utf16_codepoints src)) @ [0]))"

text \<open>\<open>++src\<close> in the condition moves on also when no low surrogate follows.\<close>

fun utf16_count :: "u16 list \<Rightarrow> nat" where
  "utf16_count [] = 0"
| "utf16_count [c] = utf32_codepoint_utf8_length (ucast c)"
| "utf16_count (c # d # rest) =
     (if high_surrogate c
      then if low_surrogate d then 4 + utf16_count rest else utf32_codepoint_utf8_length (ucast d) + utf16_count rest
      else utf32_codepoint_utf8_length (ucast c) + utf16_count (d # rest))"

definition utf16_to_utf8_length :: "u16 list \<Rightarrow> int" where
  "utf16_to_utf8_length src = (if src = [] then - 1 else int (utf16_count src))"

section \<open>UTF-8\<close>

text \<open>\<open>Some None\<close> is the early return of -1.\<close>

function length_loop :: "byte list \<Rightarrow> u32 \<Rightarrow> nat \<Rightarrow> nat \<Rightarrow> u32 \<Rightarrow> u32 \<Rightarrow> u32 \<Rightarrow> (nat \<times> nat \<times> u32 \<times> u32 \<times> u32) option option" where
  "length_loop mem first cur n m ign v =
     (if n < 5 \<and> first AND m \<noteq> 0
      then do {
        b \<leftarrow> elem_at mem cur;
        if b AND 0xC0 \<noteq> 0x80 then Some None
        else length_loop mem first (cur + 1) (n + 1) (drop_bit 1 m) (ign OR m) (push_bit 6 v + (ucast b AND 0x3F)) }
      else Some (Some (cur, n, m, ign, v)))"
  by pat_completeness auto

termination
  by (relation "measure (\<lambda>(_, _, _, n, _). 5 - n)") auto

declare length_loop.simps [simp del]

lemma length_loop_forward: "length_loop mem first cur n m ign v = Some (Some (cur', rest)) \<Longrightarrow> cur \<le> cur'"
proof (induction mem first cur n m ign v rule: length_loop.induct)
  case (1 mem first cur n m ign v)
  then show ?case using length_loop.simps [of mem first cur n m ign v] by (fastforce split: if_splits Option.bind_splits)
qed

function utf8_length_from :: "bool \<Rightarrow> byte list \<Rightarrow> nat \<Rightarrow> nat \<Rightarrow> int option" where
  "utf8_length_from sg mem cur ret = do {
     b \<leftarrow> elem_at mem cur;
     if b = 0 then Some (int ret)
     else if b AND 0x80 = 0 then utf8_length_from sg mem (cur + 1) (ret + 1)
     else if b AND 0x40 = 0 then Some (- 1)
     else do {
       r \<leftarrow> length_loop mem (char32 sg b) (cur + 1) 1 0x40 0x80 0;
       case r of
         None \<Rightarrow> Some (- 1)
       | Some (cur1, n, m, ign, v) \<Rightarrow>
           if n = 5 then Some (- 1)
           else if v OR push_bit (6 * (n - 1)) (NOT (ign OR m) AND char32 sg b) > 0x10FFFF then Some (- 1)
           else utf8_length_from sg mem cur1 (ret + n) } }"
  by pat_completeness auto

termination
  by (relation "measure (\<lambda>(_, mem, cur, _). length mem - cur)") (auto simp: elem_at_def split: if_splits dest!: length_loop_forward)

definition utf8_length :: "bool \<Rightarrow> byte list \<Rightarrow> int option" where
  "utf8_length sg src = utf8_length_from sg src 0 0"

definition utf8_codepoint_len :: "byte \<Rightarrow> nat" where
  "utf8_codepoint_len ch = unat (drop_bit (unat (drop_bit 3 ch AND 0x1e)) (0xe5000000 :: u32) AND 3) + 1"

definition utf8_shift_and_mask :: "u32 \<Rightarrow> byte \<Rightarrow> u32" where
  "utf8_shift_and_mask cp b = push_bit 6 cp OR (0x3F AND ucast b)"

definition utf8_to_utf32_codepoint :: "byte list \<Rightarrow> nat \<Rightarrow> u32 option" where
  "utf8_to_utf32_codepoint src len =
     (if len = 1 then map_option ucast (elem_at src 0)
      else if len = 2 then do { b0 \<leftarrow> elem_at src 0; b1 \<leftarrow> elem_at src 1; Some (utf8_shift_and_mask (ucast b0 AND 0x1f) b1) }
      else if len = 3
      then do { b0 \<leftarrow> elem_at src 0; b1 \<leftarrow> elem_at src 1; b2 \<leftarrow> elem_at src 2;
                Some (utf8_shift_and_mask (utf8_shift_and_mask (ucast b0 AND 0x0f) b1) b2) }
      else if len = 4
      then do { b0 \<leftarrow> elem_at src 0; b1 \<leftarrow> elem_at src 1; b2 \<leftarrow> elem_at src 2; b3 \<leftarrow> elem_at src 3;
                Some (utf8_shift_and_mask (utf8_shift_and_mask (utf8_shift_and_mask (ucast b0 AND 0x07) b1) b2) b3) }
      else Some 0xffff)"

text \<open>The end of the loop and \<open>u16measuredLen\<close>.\<close>

function utf16_measure :: "byte list \<Rightarrow> nat \<Rightarrow> nat \<Rightarrow> (nat \<times> nat) option" where
  "utf16_measure src u8len cur =
     (if cur < u8len
      then do {
        ch \<leftarrow> elem_at src cur;
        cp \<leftarrow> utf8_to_utf32_codepoint (drop cur src) (utf8_codepoint_len ch);
        (last, n) \<leftarrow> utf16_measure src u8len (cur + utf8_codepoint_len ch);
        Some (last, n + (if cp > 0xFFFF then 2 else 1)) }
      else Some (cur, 0))"
  by pat_completeness auto

termination
  by (relation "measure (\<lambda>(_, u8len, cur). u8len - cur)") (auto simp: utf8_codepoint_len_def)

definition utf8_to_utf16_length :: "byte list \<Rightarrow> nat \<Rightarrow> int option" where
  "utf8_to_utf16_length src u8len = do { (last, n) \<leftarrow> utf16_measure src u8len 0; Some (if last \<noteq> u8len then - 1 else int n) }"

definition utf16_units :: "u32 \<Rightarrow> u16 list" where
  "utf16_units cp =
     (if cp \<le> 0xFFFF then [ucast cp]
      else [ucast (drop_bit 10 (cp - 0x10000) + 0xD800), ucast (((cp - 0x10000) AND 0x3FF) + 0xDC00)])"

function to_utf16_from :: "byte list \<Rightarrow> nat \<Rightarrow> nat \<Rightarrow> u16 list option" where
  "to_utf16_from src u8len cur =
     (if cur < u8len
      then do {
        ch \<leftarrow> elem_at src cur;
        cp \<leftarrow> utf8_to_utf32_codepoint (drop cur src) (utf8_codepoint_len ch);
        rest \<leftarrow> to_utf16_from src u8len (cur + utf8_codepoint_len ch);
        Some (utf16_units cp @ rest) }
      else Some [])"
  by pat_completeness auto

termination
  by (relation "measure (\<lambda>(_, u8len, cur). u8len - cur)") (auto simp: utf8_codepoint_len_def)

definition utf8_to_utf16_no_null_terminator :: "byte list \<Rightarrow> nat \<Rightarrow> u16 list \<Rightarrow> (nat \<times> u16 list) option" where
  "utf8_to_utf16_no_null_terminator src u8len dst = do {
     out \<leftarrow> to_utf16_from src u8len 0; dst1 \<leftarrow> overwrite dst out; Some (length out, dst1) }"

definition utf8_to_utf16 :: "byte list \<Rightarrow> nat \<Rightarrow> u16 list \<Rightarrow> u16 list option" where
  "utf8_to_utf16 src u8len dst = do {
     (last, dst1) \<leftarrow> utf8_to_utf16_no_null_terminator src u8len dst;
     if last < length dst1 then Some (dst1[last := 0]) else None }"

text \<open>The returned position, and what has been written: one unit more when there is no room for the second half of a pair.\<close>

function to_utf16_n_from :: "byte list \<Rightarrow> nat \<Rightarrow> nat \<Rightarrow> nat \<Rightarrow> (nat \<times> u16 list) option" where
  "to_utf16_n_from src u8len cur room =
     (if cur < u8len \<and> 0 < room
      then do {
        ch \<leftarrow> elem_at src cur;
        cp \<leftarrow> utf8_to_utf32_codepoint (drop cur src) (utf8_codepoint_len ch);
        if room < length (utf16_units cp) then Some (0, [hd (utf16_units cp)])
        else do {
          (n, rest) \<leftarrow> to_utf16_n_from src u8len (cur + utf8_codepoint_len ch) (room - length (utf16_units cp));
          Some (length (utf16_units cp) + n, utf16_units cp @ rest) } }
      else Some (0, []))"
  by pat_completeness auto

termination
  by (relation "measure (\<lambda>(_, u8len, cur, _). u8len - cur)") (auto simp: utf8_codepoint_len_def)

definition utf8_to_utf16_n :: "byte list \<Rightarrow> nat \<Rightarrow> u16 list \<Rightarrow> nat \<Rightarrow> (nat \<times> u16 list) option" where
  "utf8_to_utf16_n src srcLen dst dstLen = do {
     (n, out) \<leftarrow> to_utf16_n_from src srcLen 0 dstLen; dst1 \<leftarrow> overwrite dst out; Some (n, dst1) }"

section \<open>Strings\<close>

text \<open>
  What the constructors of \<open>String8\<close> and \<open>String16\<close> leave in the buffer of a new string. \<open>can_alloc\<close>: whether there is memory; \<open>fill\<close>: what it contains at first.
\<close>

definition string8_from_utf16 :: "(nat \<Rightarrow> bool) \<Rightarrow> (nat \<Rightarrow> byte) \<Rightarrow> u16 list \<Rightarrow> byte list option" where
  "string8_from_utf16 can_alloc fill str =
     (if str = [] \<or> utf16_to_utf8_length str < 0 then Some [0]
      else let n = nat (utf16_to_utf8_length str) + 1
           in if can_alloc n then utf16_to_utf8 str (map fill [0..<n]) else Some [0])"

definition string8_from_utf32 :: "(nat \<Rightarrow> bool) \<Rightarrow> (nat \<Rightarrow> byte) \<Rightarrow> u32 list \<Rightarrow> byte list option" where
  "string8_from_utf32 can_alloc fill str =
     (if str = [] \<or> utf32_to_utf8_length str < 0 then Some [0]
      else let n = nat (utf32_to_utf8_length str) + 1
           in if can_alloc n then utf32_to_utf8 str (map fill [0..<n]) else Some [0])"

definition string16_from_utf8 :: "(nat \<Rightarrow> bool) \<Rightarrow> (nat \<Rightarrow> u16) \<Rightarrow> byte list \<Rightarrow> nat \<Rightarrow> u16 list option" where
  "string16_from_utf8 can_alloc fill str len =
     (if len = 0 then Some [0]
      else do {
        n \<leftarrow> utf8_to_utf16_length str len;
        if n < 0 then Some [0]
        else if can_alloc (2 * (nat n + 1)) then utf8_to_utf16 str len (map fill [0..<nat n + 1]) else Some [0] })"

end
