(* ===== verification/Unicode_Props.thy ===== *)
theory Unicode_Props
  imports Unicode
begin

text \<open>Properties of the conversions: round trips, room for what is written, comparison, and where they go wrong.\<close>

unbundle bit_operations_syntax

section \<open>One code point\<close>

definition valid_codepoint :: "u32 \<Rightarrow> bool" where
  "valid_codepoint c \<longleftrightarrow> c \<le> 0x10FFFF \<and> (c < 0xD800 \<or> 0xDFFF < c)"

abbreviation encode :: "u32 \<Rightarrow> byte list" where
  "encode c \<equiv> utf32_codepoint_to_utf8 c (utf32_codepoint_utf8_length c)"

lemma below_power_bit: "w < 2 ^ n \<Longrightarrow> bit (w :: u32) i \<Longrightarrow> i < n"
proof (rule ccontr)
  assume "w < 2 ^ n" "bit w i" "\<not> i < n"
  moreover have "w = take_bit n w" using \<open>w < 2 ^ n\<close> by (metis less_mask_eq take_bit_eq_mask and.commute take_bit_eq_self_iff_drop_bit_eq_0)
  ultimately show False by (metis bit_take_bit_iff)
qed

lemma bytes_cases:
  fixes i :: nat
  shows "i < 8 \<Longrightarrow> i = 0 \<or> i = 1 \<or> i = 2 \<or> i = 3 \<or> i = 4 \<or> i = 5 \<or> i = 6 \<or> i = 7"
  by linarith

lemma len_bits:
  "utf8_codepoint_len ch = (if bit ch 7 \<and> bit ch 6 then if bit ch 5 then if bit ch 4 then 4 else 3 else 2 else 1)"
proof -
  have "drop_bit 3 ch AND 0x1e = (if bit ch 4 then 2 else 0) OR (if bit ch 5 then 4 else 0) OR (if bit ch 6 then 8 else 0) OR (if bit ch 7 then 16 else 0)"
    by (rule bit_word_eqI) (auto simp: bit_simps dest!: bytes_cases)
  then show ?thesis by (auto simp: utf8_codepoint_len_def)
qed


lemma encode_1: "c < 0x80 \<Longrightarrow> encode c = [ucast c]"
  by (simp add: utf32_codepoint_to_utf8_def utf32_codepoint_utf8_length_def kFirstByteMark_def)

lemma encode_2: "0x80 \<le> c \<Longrightarrow> c < 0x800 \<Longrightarrow> encode c = [ucast (drop_bit 6 c OR 0xC0), ucast ((c OR 0x80) AND 0xBF)]"
  by (simp add: utf32_codepoint_to_utf8_def utf32_codepoint_utf8_length_def kFirstByteMark_def eval_nat_numeral)

lemma encode_3:
  assumes "0x800 \<le> c" "c < 0x10000" "c < 0xD800 \<or> 0xDFFF < c"
  shows "encode c = [ucast (drop_bit 12 c OR 0xE0), ucast ((drop_bit 6 c OR 0x80) AND 0xBF), ucast ((c OR 0x80) AND 0xBF)]"
proof -
  have "\<not> c < 0x80" using assms(1) by (simp add: word_less_nat_alt word_le_nat_alt)
  then show ?thesis using assms
    by (simp add: utf32_codepoint_to_utf8_def utf32_codepoint_utf8_length_def kFirstByteMark_def eval_nat_numeral)
qed

lemma encode_4:
  assumes "0x10000 \<le> c" "c \<le> 0x10FFFF"
  shows "encode c = [ucast (drop_bit 18 c OR 0xF0), ucast ((drop_bit 12 c OR 0x80) AND 0xBF), ucast ((drop_bit 6 c OR 0x80) AND 0xBF), ucast ((c OR 0x80) AND 0xBF)]"
proof -
  have "\<not> c < 0x80" "\<not> c < 0x800" "\<not> c < 0x10000" using assms(1) by (simp_all add: word_less_nat_alt word_le_nat_alt)
  then show ?thesis using assms
    by (simp add: utf32_codepoint_to_utf8_def utf32_codepoint_utf8_length_def kFirstByteMark_def eval_nat_numeral)
qed

lemma valid_cases [consumes 1, case_names one two three four]:
  assumes "valid_codepoint c"
  obtains "c < 0x80" | "0x80 \<le> c" "c < 0x800" | "0x800 \<le> c" "c < 0x10000" "c < 0xD800 \<or> 0xDFFF < c" | "0x10000 \<le> c" "c \<le> 0x10FFFF"
  using assms unfolding valid_codepoint_def by force

lemma small_bits:
  "c < 0x80 \<Longrightarrow> bit (c :: u32) i \<Longrightarrow> i < 7" "c < 0x800 \<Longrightarrow> bit c i \<Longrightarrow> i < 11" "c < 0x10000 \<Longrightarrow> bit c i \<Longrightarrow> i < 16"
  "c \<le> 0x10FFFF \<Longrightarrow> bit c i \<Longrightarrow> i < 21"
proof -
  show "c < 0x80 \<Longrightarrow> bit c i \<Longrightarrow> i < 7" using below_power_bit [of c 7 i] by simp
  show "c < 0x800 \<Longrightarrow> bit c i \<Longrightarrow> i < 11" using below_power_bit [of c 11 i] by simp
  show "c < 0x10000 \<Longrightarrow> bit c i \<Longrightarrow> i < 16" using below_power_bit [of c 16 i] by simp
  show "c \<le> 0x10FFFF \<Longrightarrow> bit c i \<Longrightarrow> i < 21" using below_power_bit [of c 21 i] by (simp add: order_le_less_trans)
qed

text \<open>Six bits of a code point in a byte, and the bits of a first byte.\<close>

lemma tail_bits: "0x3F AND ucast (ucast ((w OR 0x80) AND 0xBF) :: byte) = take_bit 6 (w :: u32)"
proof (rule bit_word_eqI)
  fix i :: nat
  show "bit (0x3F AND ucast (ucast ((w OR 0x80) AND 0xBF) :: byte) :: u32) i = bit (take_bit 6 w) i"
    by (cases "i < 8") (auto simp: bit_simps dest!: bytes_cases)
qed

lemma first_bits:
  "ucast (ucast (w OR 0xC0) :: byte) AND 0x1f = take_bit 5 (w :: u32)" "ucast (ucast (w OR 0xE0) :: byte) AND 0x0f = take_bit 4 w"
  "ucast (ucast (w OR 0xF0) :: byte) AND 0x07 = take_bit 3 w"
proof -
  show "ucast (ucast (w OR 0xC0) :: byte) AND 0x1f = take_bit 5 w"
  proof (rule bit_word_eqI)
    fix i :: nat
    show "bit (ucast (ucast (w OR 0xC0) :: byte) AND 0x1f :: u32) i = bit (take_bit 5 w) i"
      by (cases "i < 8") (auto simp: bit_simps dest!: bytes_cases)
  qed
  show "ucast (ucast (w OR 0xE0) :: byte) AND 0x0f = take_bit 4 w"
  proof (rule bit_word_eqI)
    fix i :: nat
    show "bit (ucast (ucast (w OR 0xE0) :: byte) AND 0x0f :: u32) i = bit (take_bit 4 w) i"
      by (cases "i < 8") (auto simp: bit_simps dest!: bytes_cases)
  qed
  show "ucast (ucast (w OR 0xF0) :: byte) AND 0x07 = take_bit 3 w"
  proof (rule bit_word_eqI)
    fix i :: nat
    show "bit (ucast (ucast (w OR 0xF0) :: byte) AND 0x07 :: u32) i = bit (take_bit 3 w) i"
      by (cases "i < 8") (auto simp: bit_simps dest!: bytes_cases)
  qed
qed

lemma split_join: "push_bit n (drop_bit n w) OR take_bit n w = (w :: u32)"
  by (rule bit_word_eqI) (auto simp: bit_simps)

lemma split_join_shift: "push_bit 6 (drop_bit (n + 6) w) OR take_bit 6 (drop_bit n w) = drop_bit n (w :: u32)"
  using split_join [of 6 "drop_bit n w"] by (simp add: drop_bit_drop_bit add.commute)

lemma top_part:
  "c < 0x800 \<Longrightarrow> take_bit 5 (drop_bit 6 c) = drop_bit 6 (c :: u32)" "c < 0x10000 \<Longrightarrow> take_bit 4 (drop_bit 12 c) = drop_bit 12 c"
  "c \<le> 0x10FFFF \<Longrightarrow> take_bit 3 (drop_bit 18 c) = drop_bit 18 c"
proof -
  show "c < 0x800 \<Longrightarrow> take_bit 5 (drop_bit 6 c) = drop_bit 6 c" using small_bits(2) [of c] by (intro bit_word_eqI) (force simp: bit_simps)
  show "c < 0x10000 \<Longrightarrow> take_bit 4 (drop_bit 12 c) = drop_bit 12 c" using small_bits(3) [of c] by (intro bit_word_eqI) (force simp: bit_simps)
  show "c \<le> 0x10FFFF \<Longrightarrow> take_bit 3 (drop_bit 18 c) = drop_bit 18 c" using small_bits(4) [of c] by (intro bit_word_eqI) (force simp: bit_simps)
qed

lemma codepoint_roundtrip:
  assumes "valid_codepoint c"
  shows "utf8_to_utf32_codepoint (encode c @ rest) (utf32_codepoint_utf8_length c) = Some c"
  using assms
proof (cases rule: valid_cases)
  case one
  then have "ucast (ucast c :: byte) = c" using small_bits(1) [OF one] by (intro bit_word_eqI) (fastforce simp: bit_simps)
  then show ?thesis using one encode_1 [OF one] by (simp add: utf8_to_utf32_codepoint_def utf32_codepoint_utf8_length_def elem_at_def)
next
  case two
  then have "utf32_codepoint_utf8_length c = 2" by (simp add: utf32_codepoint_utf8_length_def)
  then show ?thesis using encode_2 [OF two] split_join [of 6 c]
    by (simp add: utf8_to_utf32_codepoint_def elem_at_def utf8_shift_and_mask_def tail_bits first_bits top_part(1) [OF two(2)] del: push_bit_and push_bit_or push_bit_push_bit)
next
  case three
  then have "utf32_codepoint_utf8_length c = 3" by (auto simp: utf32_codepoint_utf8_length_def word_less_nat_alt word_le_nat_alt)
  then show ?thesis using encode_3 [OF three] split_join [of 6 c] split_join_shift [of 6 c]
    by (simp add: utf8_to_utf32_codepoint_def elem_at_def utf8_shift_and_mask_def tail_bits first_bits top_part(2) [OF three(2)] del: push_bit_and push_bit_or push_bit_push_bit)
next
  case four
  then have "utf32_codepoint_utf8_length c = 4" by (auto simp: utf32_codepoint_utf8_length_def word_less_nat_alt word_le_nat_alt)
  then show ?thesis using encode_4 [OF four] split_join [of 6 c] split_join_shift [of 6 c] split_join_shift [of 12 c]
    by (simp add: utf8_to_utf32_codepoint_def elem_at_def utf8_shift_and_mask_def tail_bits first_bits top_part(3) [OF four(2)] del: push_bit_and push_bit_or push_bit_push_bit)
qed

lemma encode_length [simp]: "length (utf32_codepoint_to_utf8 c n) = n"
proof -
  have "length (put_back b n x) = n" for b n x by (induction b n x rule: put_back.induct) simp_all
  then show ?thesis by (simp add: utf32_codepoint_to_utf8_def)
qed

lemma encode_first:
  assumes "valid_codepoint c"
  shows "\<exists>b bs. encode c = b # bs \<and> utf8_codepoint_len b = utf32_codepoint_utf8_length c"
  using assms
proof (cases rule: valid_cases)
  case one
  then have "\<not> bit c 7" using small_bits(1) [OF one, of 7] by auto
  then show ?thesis using one encode_1 [OF one] by (simp add: len_bits bit_simps utf32_codepoint_utf8_length_def)
next
  case two
  then have "\<not> bit c 11" using small_bits(2) [of c 11] by auto
  then show ?thesis using encode_2 [OF two] two by (simp add: len_bits bit_simps utf32_codepoint_utf8_length_def)
next
  case three
  then have "\<not> bit c 16" "\<not> c < 0x80" using small_bits(3) [of c 16] by (auto simp: word_less_nat_alt word_le_nat_alt)
  then show ?thesis using encode_3 [OF three] three by (auto simp: len_bits bit_simps utf32_codepoint_utf8_length_def)
next
  case four
  then have "\<not> c < 0x80" "\<not> c < 0x800" "\<not> c < 0x10000" by (auto simp: word_less_nat_alt word_le_nat_alt)
  then show ?thesis using encode_4 [OF four] four by (simp add: len_bits bit_simps utf32_codepoint_utf8_length_def)
qed

text \<open>Reading one encoded code point in the middle of a buffer.\<close>

lemma read_codepoint:
  assumes "valid_codepoint c"
  shows "\<exists>ch. elem_at (pre @ encode c @ post) (length pre) = Some ch \<and> utf8_codepoint_len ch = utf32_codepoint_utf8_length c
    \<and> utf8_to_utf32_codepoint (drop (length pre) (pre @ encode c @ post)) (utf8_codepoint_len ch) = Some c"
proof -
  obtain b bs where b: "encode c = b # bs" "utf8_codepoint_len b = utf32_codepoint_utf8_length c" using encode_first [OF assms] by blast
  have "elem_at (pre @ encode c @ post) (length pre) = Some b" using b by (simp add: elem_at_def)
  then show ?thesis using b codepoint_roundtrip [OF assms, of post] by simp
qed

lemma valid_length_pos: "valid_codepoint c \<Longrightarrow> 0 < utf32_codepoint_utf8_length c"
  by (auto simp: valid_codepoint_def utf32_codepoint_utf8_length_def)

declare to_utf16_from.simps [simp del] utf16_measure.simps [simp del] to_utf32_from.simps [simp del]

lemma decode_stream:
  assumes "\<forall>c\<in>set cs. valid_codepoint c" and "u8len = length pre + length (concat (map encode cs))"
  shows "to_utf16_from (pre @ concat (map encode cs) @ post) u8len (length pre) = Some (concat (map utf16_units cs))
    \<and> utf16_measure (pre @ concat (map encode cs) @ post) u8len (length pre) = Some (u8len, length (concat (map utf16_units cs)))"
  using assms
proof (induction cs arbitrary: pre)
  case Nil
  then show ?case by (simp add: to_utf16_from.simps utf16_measure.simps)
next
  case (Cons c cs)
  define mem where "mem = pre @ concat (map encode (c # cs)) @ post"
  have c: "valid_codepoint c" using Cons.prems(1) by simp
  obtain ch where ch: "elem_at mem (length pre) = Some ch" "utf8_codepoint_len ch = utf32_codepoint_utf8_length c"
      "utf8_to_utf32_codepoint (drop (length pre) mem) (utf8_codepoint_len ch) = Some c"
    using read_codepoint [OF c, of pre "concat (map encode cs) @ post"] by (auto simp: mem_def)
  have IH: "to_utf16_from mem u8len (length pre + utf32_codepoint_utf8_length c) = Some (concat (map utf16_units cs))"
      "utf16_measure mem u8len (length pre + utf32_codepoint_utf8_length c) = Some (u8len, length (concat (map utf16_units cs)))"
    using Cons.IH [of "pre @ encode c"] Cons.prems by (simp_all add: mem_def)
  have more: "length pre < u8len" using Cons.prems(2) valid_length_pos [OF c] by simp
  have "to_utf16_from mem u8len (length pre) = Some (concat (map utf16_units (c # cs)))"
    by (subst to_utf16_from.simps) (use ch IH more in simp)
  moreover have "utf16_measure mem u8len (length pre) = Some (u8len, length (concat (map utf16_units (c # cs))))"
    by (subst utf16_measure.simps) (use ch IH more in \<open>auto simp: utf16_units_def not_le\<close>)
  ultimately show ?case by (simp add: mem_def)
qed

section \<open>Surrogates\<close>

fun well_formed16 :: "u16 list \<Rightarrow> bool" where
  "well_formed16 [] \<longleftrightarrow> True"
| "well_formed16 [c] \<longleftrightarrow> \<not> high_surrogate c \<and> \<not> low_surrogate c"
| "well_formed16 (c # d # rest) \<longleftrightarrow>
     (if high_surrogate c then low_surrogate d \<and> well_formed16 rest else \<not> low_surrogate c \<and> well_formed16 (d # rest))"

lemma surrogate_low_bits:
  "high_surrogate c \<Longrightarrow> ucast c = 0xD800 + take_bit 10 (ucast c :: u32)" "low_surrogate c \<Longrightarrow> ucast c = 0xDC00 + take_bit 10 (ucast c :: u32)"
proof -
  have u: "(ucast c :: u32) = ucast (c AND 0xFC00) + take_bit 10 (ucast c)"
  proof -
    have m: "(0xFC00 :: u16) = NOT (mask 10)" by (simp add: mask_eq_exp_minus_1)
    have "(ucast (c AND 0xFC00) :: u32) + take_bit 10 (ucast c) = ucast (c AND 0xFC00) OR take_bit 10 (ucast c)"
      unfolding m by (rule disjunctive_add) (auto simp: bit_simps)
    also have "\<dots> = ucast c" unfolding m by (rule bit_word_eqI) (auto simp: bit_simps dest: bit_imp_le_length)
    finally show ?thesis by simp
  qed
  show "high_surrogate c \<Longrightarrow> ucast c = 0xD800 + take_bit 10 (ucast c :: u32)" using u by (simp add: high_surrogate_def)
  show "low_surrogate c \<Longrightarrow> ucast c = 0xDC00 + take_bit 10 (ucast c :: u32)" using u by (simp add: low_surrogate_def)
qed

lemma pair_parts:
  assumes "high_surrogate hi" and "low_surrogate lo"
  defines "a \<equiv> take_bit 10 (ucast hi :: u32)" and "b \<equiv> take_bit 10 (ucast lo :: u32)"
  shows "surrogate_pair hi lo = (push_bit 10 a OR b) + 0x10000" and "drop_bit 10 (push_bit 10 a OR b) = a" and "(push_bit 10 a OR b) AND 0x3FF = b"
    and "push_bit 10 a OR b < 0x100000"
proof -
  have "(ucast hi :: u32) - 0xD800 = a" "(ucast lo :: u32) - 0xDC00 = b"
    using surrogate_low_bits(1) [OF assms(1)] surrogate_low_bits(2) [OF assms(2)] unfolding a_def b_def by (metis add_diff_cancel_left')+
  then show "surrogate_pair hi lo = (push_bit 10 a OR b) + 0x10000" by (simp only: surrogate_pair_def)
  show "drop_bit 10 (push_bit 10 a OR b) = a" by (rule bit_word_eqI) (auto simp: a_def b_def bit_simps)
  have m: "(0x3FF :: u32) = mask 10" by (simp add: mask_eq_exp_minus_1)
  show "(push_bit 10 a OR b) AND 0x3FF = b" unfolding m by (rule bit_word_eqI) (auto simp: a_def b_def bit_simps)
  have "take_bit 20 (push_bit 10 a OR b) = push_bit 10 a OR b" by (rule bit_word_eqI) (auto simp: a_def b_def bit_simps)
  then have "unat (push_bit 10 a OR b) = take_bit 20 (unat (push_bit 10 a OR b))" by (metis unsigned_take_bit_eq)
  then have "unat (push_bit 10 a OR b) < 2 ^ 20" by (metis take_bit_nat_less_exp)
  then show "push_bit 10 a OR b < 0x100000" by (simp add: word_less_nat_alt)
qed

lemma pair_units:
  assumes "high_surrogate hi" and "low_surrogate lo"
  shows "utf16_units (surrogate_pair hi lo) = [hi, lo]" and "valid_codepoint (surrogate_pair hi lo)" and "utf32_codepoint_utf8_length (surrogate_pair hi lo) = 4"
proof -
  note parts = pair_parts [OF assms]
  define w where "w = push_bit 10 (take_bit 10 (ucast hi :: u32)) OR take_bit 10 (ucast lo)"
  have w: "surrogate_pair hi lo = w + 0x10000" "w < 0x100000" using parts(1,4) by (simp_all add: w_def)
  have n: "unat (w + 0x10000) = unat w + 0x10000" "unat w < 0x100000"
    using w(2) by (simp_all add: word_less_nat_alt unat_word_ariths)
  have big: "0x10000 \<le> surrogate_pair hi lo" "surrogate_pair hi lo \<le> 0x10FFFF" "\<not> surrogate_pair hi lo \<le> 0xFFFF"
    using n by (simp_all add: w(1) word_le_nat_alt)
  have "(ucast (drop_bit 10 w + 0xD800) :: u16) = ucast (ucast hi :: u32)" "(ucast ((w AND 0x3FF) + 0xDC00) :: u16) = ucast (ucast lo :: u32)"
    using parts(2,3) surrogate_low_bits(1) [OF assms(1)] surrogate_low_bits(2) [OF assms(2)] by (simp_all add: w_def add.commute)
  moreover have "ucast (ucast x :: u32) = x" for x :: u16 by (rule bit_word_eqI) (auto simp: bit_simps)
  ultimately show "utf16_units (surrogate_pair hi lo) = [hi, lo]" using big(3) by (simp add: utf16_units_def w(1))
  show "valid_codepoint (surrogate_pair hi lo)" "utf32_codepoint_utf8_length (surrogate_pair hi lo) = 4"
    using big(1,2) by (auto simp: valid_codepoint_def utf32_codepoint_utf8_length_def word_le_nat_alt word_less_nat_alt)
qed

lemma surrogate_iff: "high_surrogate c \<longleftrightarrow> unat c div 1024 = 54" "low_surrogate c \<longleftrightarrow> unat c div 1024 = 55"
proof -
  have m: "(0xFC00 :: u16) = NOT (mask 10)" by (simp add: mask_eq_exp_minus_1)
  have top: "c AND 0xFC00 = push_bit 10 (drop_bit 10 c)" unfolding m by (rule bit_word_eqI) (auto simp: bit_simps)
  have back': "drop_bit 10 (c AND 0xFC00) = drop_bit 10 c" unfolding m by (rule bit_word_eqI) (auto simp: bit_simps dest: bit_imp_le_length)
  have n: "unat (drop_bit 10 c) = unat c div 1024" by (simp add: drop_bit_eq_div unat_div)
  have "c AND 0xFC00 = 0xD800 \<longleftrightarrow> drop_bit 10 c = 54"
  proof
    assume "c AND 0xFC00 = 0xD800"
    then show "drop_bit 10 c = 54" using back' by simp
  qed (simp add: top)
  moreover have "drop_bit 10 c = 54 \<longleftrightarrow> unat (drop_bit 10 c) = 54" by (simp add: word_unat_eq_iff)
  ultimately show "high_surrogate c \<longleftrightarrow> unat c div 1024 = 54" unfolding high_surrogate_def n by blast
  have "c AND 0xFC00 = 0xDC00 \<longleftrightarrow> drop_bit 10 c = 55"
  proof
    assume "c AND 0xFC00 = 0xDC00"
    then show "drop_bit 10 c = 55" using back' by simp
  qed (simp add: top)
  moreover have "drop_bit 10 c = 55 \<longleftrightarrow> unat (drop_bit 10 c) = 55" by (simp add: word_unat_eq_iff)
  ultimately show "low_surrogate c \<longleftrightarrow> unat c div 1024 = 55" unfolding low_surrogate_def n by blast
qed

lemma unit_less: "unat (c :: u16) < 65536"
proof -
  have "unat c < 2 ^ LENGTH(16)" by (rule unsigned_less)
  then show ?thesis by simp
qed

lemma unat_unit: "unat (ucast (c :: u16) :: u32) = unat c"
proof -
  have "unat c < 2 ^ 32" using unit_less [of c] by simp
  then show ?thesis by (simp add: unsigned_ucast_eq take_bit_nat_eq_self)
qed

lemma single_unit:
  assumes "\<not> high_surrogate c" and "\<not> low_surrogate c"
  shows "valid_codepoint (ucast c)" and "utf16_units (ucast c) = [c]"
proof -
  have small: "unat c < 65536" using unit_less [of c] by simp
  have "unat c < 55296 \<or> 57343 < unat c" using assms unfolding surrogate_iff by linarith
  then show "valid_codepoint (ucast c)" using small by (auto simp: valid_codepoint_def word_le_nat_alt word_less_nat_alt unat_unit)
  have "(ucast c :: u32) \<le> 0xFFFF" using small by (simp add: word_le_nat_alt unat_unit)
  moreover have "ucast (ucast c :: u32) = c" by (rule bit_word_eqI) (auto simp: bit_simps)
  ultimately show "utf16_units (ucast c) = [c]" by (simp add: utf16_units_def)
qed

lemma surrogate_no_bytes: "high_surrogate c \<or> low_surrogate c \<Longrightarrow> utf32_codepoint_utf8_length (ucast c) = 0"
proof -
  assume "high_surrogate c \<or> low_surrogate c"
  then have "55296 \<le> unat c" "unat c \<le> 57343" unfolding surrogate_iff by linarith+
  then show ?thesis by (simp add: utf32_codepoint_utf8_length_def word_less_nat_alt word_le_nat_alt unat_unit)
qed

lemma not_both: "\<not> (high_surrogate c \<and> low_surrogate c)"
  by (simp add: surrogate_iff)

section \<open>Strings\<close>

lemma well_formed_codepoints:
  "well_formed16 str \<Longrightarrow> (\<forall>c\<in>set (utf16_codepoints str). valid_codepoint c) \<and> concat (map utf16_units (utf16_codepoints str)) = str
    \<and> utf16_count str = length (concat (map encode (utf16_codepoints str)))"
proof (induction str rule: well_formed16.induct)
  case (3 c d rest)
  then show ?case by (cases "high_surrogate c") (auto simp: single_unit pair_units length_concat)
qed (auto simp: single_unit length_concat)

lemma well_formed_append:
  "well_formed16 str \<Longrightarrow> utf16_codepoints (str @ rest) = utf16_codepoints str @ utf16_codepoints rest \<and> utf16_count (str @ rest) = utf16_count str + utf16_count rest"
proof (induction str rule: well_formed16.induct)
  case (2 c)
  then show ?case by (cases rest) auto
qed auto

lemma overwrite_exact: "length out = length dst \<Longrightarrow> overwrite dst out = Some out"
  by (simp add: overwrite_def)

text \<open>The bytes of a string of valid code points are read back, and nothing outside is touched.\<close>

lemma string16_of_bytes:
  assumes "\<forall>c\<in>set cs. valid_codepoint c" and "cs \<noteq> []" and "\<And>n. can_alloc n"
  shows "string16_from_utf8 can_alloc fill (concat (map encode cs) @ post) (length (concat (map encode cs))) = Some (concat (map utf16_units cs) @ [0])"
proof -
  define u8 where "u8 = concat (map encode cs)"
  define u16 where "u16 = concat (map utf16_units cs)"
  have "to_utf16_from (u8 @ post) (length u8) 0 = Some u16" "utf16_measure (u8 @ post) (length u8) 0 = Some (length u8, length u16)"
    using decode_stream [OF assms(1), of "length u8" "[]" post] by (simp_all add: u8_def u16_def)
  moreover have "length u8 \<noteq> 0" using assms(1,2) valid_length_pos by (cases cs) (auto simp: u8_def)
  moreover have "overwrite (map fill [0..<length u16 + 1]) u16 = Some (u16 @ [fill (length u16)])" by (simp add: overwrite_def)
  ultimately show ?thesis unfolding u8_def [symmetric] u16_def [symmetric]
    by (simp add: string16_from_utf8_def utf8_to_utf16_length_def utf8_to_utf16_def utf8_to_utf16_no_null_terminator_def assms(3))
qed

text \<open>
  C29. UTF-16 to UTF-8 and back: a string whose surrogates are all paired becomes a \<open>String8\<close> of the length that \<open>utf16_to_utf8_length\<close> says, with its terminator, and the
  \<open>String16\<close> made of it is the string again.
\<close>

theorem utf16_utf8_roundtrip:
  assumes "well_formed16 str" and "str \<noteq> []" and "\<And>n. can_alloc n"
  shows "\<exists>u8. string8_from_utf16 can_alloc fill str = Some (u8 @ [0]) \<and> int (length u8) = utf16_to_utf8_length str
    \<and> string16_from_utf8 can_alloc fill16 (u8 @ [0]) (length u8) = Some (str @ [0])"
proof -
  define cs where "cs = utf16_codepoints str"
  have cs: "\<forall>c\<in>set cs. valid_codepoint c" "concat (map utf16_units cs) = str" "utf16_count str = length (concat (map encode cs))"
    using well_formed_codepoints [OF assms(1)] by (simp_all add: cs_def)
  then have "cs \<noteq> []" using assms(2) by auto
  have "string8_from_utf16 can_alloc fill str = Some (concat (map encode cs) @ [0])"
    unfolding string8_from_utf16_def utf16_to_utf8_def cs_def [symmetric]
    by (simp add: assms(2,3) utf16_to_utf8_length_def cs(3) overwrite_def)
  moreover have "int (length (concat (map encode cs))) = utf16_to_utf8_length str" using cs(3) assms(2) by (simp add: utf16_to_utf8_length_def)
  moreover have "string16_from_utf8 can_alloc fill16 (concat (map encode cs) @ [0]) (length (concat (map encode cs))) = Some (str @ [0])"
    using string16_of_bytes [OF cs(1) \<open>cs \<noteq> []\<close> assms(3), where fill = fill16 and post = "[0]"] cs(2) by simp
  ultimately show ?thesis by blast
qed

theorem utf16_utf8_roundtrip_witness:
  "\<exists>u8. string8_from_utf16 (\<lambda>_. True) (\<lambda>_. 0) [0x48, 0xD83D, 0xDE00] = Some (u8 @ [0])
    \<and> string16_from_utf8 (\<lambda>_. True) (\<lambda>_. 0) (u8 @ [0]) (length u8) = Some [0x48, 0xD83D, 0xDE00, 0]"
  using utf16_utf8_roundtrip [of "[0x48, 0xD83D, 0xDE00]" "\<lambda>_. True" "\<lambda>_. 0" "\<lambda>_. 0"]
  by (auto simp: high_surrogate_def low_surrogate_def)

text \<open>
  C32. A high surrogate that is not followed by a low one makes \<open>utf16_to_utf8_length\<close> skip the unit behind it. When that one starts a pair, the pair is
  not counted: the constructor of \<open>String8\<close> allocates four bytes too few, and \<open>utf16_to_utf8\<close> writes behind the end of the buffer.
\<close>

theorem unpaired_surrogate_overflows:
  assumes "well_formed16 pre" and "well_formed16 post" and "high_surrogate c" and "high_surrogate d" and "low_surrogate e" and "\<And>n. can_alloc n"
  shows "utf16_to_utf8_length (pre @ [c, d, e] @ post) + 4 = int (length (concat (map encode (utf16_codepoints (pre @ [c, d, e] @ post)))))
    \<and> string8_from_utf16 can_alloc fill (pre @ [c, d, e] @ post) = None"
proof -
  define str where "str = pre @ [c, d, e] @ post"
  have not_low: "\<not> low_surrogate c" "\<not> low_surrogate d" "\<not> high_surrogate e" using assms(3-5) not_both by blast+
  have tail: "utf16_count (e # post) = utf16_count post"
    using not_low(3) surrogate_no_bytes [of e] assms(5) by (cases post) auto
  have "utf16_codepoints str = utf16_codepoints pre @ ucast c # surrogate_pair d e # utf16_codepoints post"
    "utf16_count str = utf16_count pre + utf16_count post"
    using well_formed_append [OF assms(1), of "[c, d, e] @ post"] not_low assms(3-5) tail
      surrogate_no_bytes [of c] surrogate_no_bytes [of d] by (simp_all add: str_def)
  then have len: "length (concat (map encode (utf16_codepoints str))) = utf16_count str + 4"
    using well_formed_codepoints [OF assms(1)] well_formed_codepoints [OF assms(2)] surrogate_no_bytes [of c] assms(3-5)
    by (simp add: pair_units)
  have "str \<noteq> []" by (simp add: str_def)
  then have "string8_from_utf16 can_alloc fill str = None"
    using len assms(6) by (simp add: string8_from_utf16_def utf16_to_utf8_def overwrite_def utf16_to_utf8_length_def)
  then show ?thesis unfolding str_def [symmetric] using len \<open>str \<noteq> []\<close> by (simp add: utf16_to_utf8_length_def)
qed

theorem unpaired_surrogate_overflows_witness:
  "utf16_to_utf8_length [0xD800, 0xD800, 0xDC00] = 0 \<and> string8_from_utf16 (\<lambda>_. True) (\<lambda>_. 0) [0xD800, 0xD800, 0xDC00] = None"
  using unpaired_surrogate_overflows [of "[]" "[]" "0xD800" "0xD800" "0xDC00" "\<lambda>_. True" "\<lambda>_. 0"]
  by (simp add: high_surrogate_def low_surrogate_def utf16_to_utf8_length_def utf32_codepoint_utf8_length_def)

section \<open>UTF-32\<close>

lemma char32_low: "char32 sg b AND 0x1f = ucast b AND 0x1f" "char32 sg b AND 0x0f = ucast b AND 0x0f" "char32 sg b AND 0x07 = ucast b AND 0x07"
proof -
  have "char32 sg b AND mask n = ucast b AND mask n" if "n \<le> 8" for n
    using that by (intro bit_word_eqI) (auto simp: char32_def bit_simps)
  from this [of 5] this [of 4] this [of 3]
  show "char32 sg b AND 0x1f = ucast b AND 0x1f" "char32 sg b AND 0x0f = ucast b AND 0x0f" "char32 sg b AND 0x07 = ucast b AND 0x07"
    by (simp_all add: mask_eq_exp_minus_1)
qed

lemma char32_test:
  "char32 sg b AND 0x40 \<noteq> 0 \<longleftrightarrow> bit b 6" "char32 sg b AND 0x20 \<noteq> 0 \<longleftrightarrow> bit b 5" "char32 sg b AND 0x10 \<noteq> 0 \<longleftrightarrow> bit b 4" "char32 sg b AND 0x08 \<noteq> 0 \<longleftrightarrow> bit b 3"
proof -
  have test: "char32 sg b AND 2 ^ n \<noteq> 0 \<longleftrightarrow> bit b n" if "n < 8" for n
    using that by (auto simp: and_exp_eq_0_iff_not_bit char32_def bit_simps)
  show "char32 sg b AND 0x40 \<noteq> 0 \<longleftrightarrow> bit b 6" using test [of 6] by simp
  show "char32 sg b AND 0x20 \<noteq> 0 \<longleftrightarrow> bit b 5" using test [of 5] by simp
  show "char32 sg b AND 0x10 \<noteq> 0 \<longleftrightarrow> bit b 4" using test [of 4] by simp
  show "char32 sg b AND 0x08 \<noteq> 0 \<longleftrightarrow> bit b 3" using test [of 3] by simp
qed

lemma add_six: "push_bit 6 v + take_bit 6 w = push_bit 6 v OR take_bit 6 (w :: u32)"
  by (rule disjunctive_add) (auto simp: bit_simps)

lemma drop_marks: "(push_bit n a OR take_bit n w) AND NOT (push_bit n m) = push_bit n (a AND NOT m) OR take_bit n (w :: u32)"
  by (rule bit_word_eqI) (auto simp: bit_simps)

lemma not_marks: "NOT (0xFFFFFFE0 :: u32) = 0x1f" "NOT (0xFFFFFFF0 :: u32) = 0x0f" "NOT (0xFFFFFFF8 :: u32) = 0x07"
  by (simp_all add: not_eq_complement)

lemma take_more: "push_bit 6 (push_bit n a OR take_bit n (drop_bit 6 w)) OR take_bit 6 w = push_bit (n + 6) a OR take_bit (n + 6) (w :: u32)"
  by (rule bit_word_eqI) (auto simp: bit_simps add.commute [of 6])

lemma tail_bits_right: "ucast (ucast ((w OR 0x80) AND 0xBF) :: byte) AND 0x3F = take_bit 6 (w :: u32)"
  using tail_bits [of w] by (simp add: and.commute)

lemma byte_bits: "b AND 0x80 = 0 \<longleftrightarrow> \<not> bit (b :: byte) 7"
  using and_exp_eq_0_iff_not_bit [of b 7] by simp

lemma char32_ascii: "\<not> bit b 7 \<Longrightarrow> char32 sg b = ucast b"
proof (rule bit_word_eqI)
  fix n :: nat
  assume "\<not> bit b 7"
  then show "bit (char32 sg b) n = bit (ucast b :: u32) n" if "n < LENGTH(32)"
    using that bit_imp_le_length [of b n] by (cases "n < 7"; cases "n = 7") (auto simp: char32_def bit_simps)
qed

lemma halves: "drop_bit 1 0x40 = (0x20 :: u32)" "drop_bit 1 0x20 = (0x10 :: u32)" "drop_bit 1 0x10 = (0x08 :: u32)"
  by (simp_all add: drop_bit_eq_div)

lemma loop_step:
  assumes "n < length mem"
  shows "bit b 6 \<Longrightarrow> at_loop mem (char32 sg b) n 0x40 ign v = at_loop mem (char32 sg b) (n + 1) 0x20 (ign OR 0x40) (push_bit 6 v + (ucast (mem ! n) AND 0x3F))"
    and "bit b 5 \<Longrightarrow> at_loop mem (char32 sg b) n 0x20 ign v = at_loop mem (char32 sg b) (n + 1) 0x10 (ign OR 0x20) (push_bit 6 v + (ucast (mem ! n) AND 0x3F))"
    and "bit b 4 \<Longrightarrow> at_loop mem (char32 sg b) n 0x10 ign v = at_loop mem (char32 sg b) (n + 1) 0x08 (ign OR 0x10) (push_bit 6 v + (ucast (mem ! n) AND 0x3F))"
  using assms char32_test [of sg b] halves by (subst at_loop.simps, simp add: elem_at_def)+

lemma loop_ends:
  "\<not> bit b 5 \<Longrightarrow> at_loop mem (char32 sg b) n 0x20 ign v = Some (n, 0x20, ign, v)"
  "\<not> bit b 4 \<Longrightarrow> at_loop mem (char32 sg b) n 0x10 ign v = Some (n, 0x10, ign, v)"
  "\<not> bit b 3 \<Longrightarrow> at_loop mem (char32 sg b) n 0x08 ign v = Some (n, 0x08, ign, v)"
  using char32_test [of sg b] by (subst at_loop.simps, simp)+

lemma at_internal_encoded:
  assumes "valid_codepoint c"
  shows "utf32_at_internal sg (encode c @ rest) = Some (c, utf32_codepoint_utf8_length c)"
  using assms
proof (cases rule: valid_cases)
  case one
  then have "\<not> bit c 7" using small_bits(1) [OF one, of 7] by auto
  moreover have "ucast (ucast c :: byte) = c" using small_bits(1) [OF one] by (intro bit_word_eqI) (fastforce simp: bit_simps)
  then have "char32 sg (ucast c) = c" using char32_ascii [of "ucast c" sg] \<open>\<not> bit c 7\<close> by (simp add: bit_simps)
  ultimately show ?thesis using one encode_1 [OF one]
    by (simp add: utf32_at_internal_def elem_at_def byte_bits bit_simps utf32_codepoint_utf8_length_def)
next
  case two
  define b where "b = (ucast (drop_bit 6 c OR 0xC0) :: byte)"
  have b: "bit b 7" "bit b 6" "\<not> bit b 5" using small_bits(2) [OF two(2), of 11] by (auto simp: b_def bit_simps)
  have low: "char32 sg b AND 0x1f = drop_bit 6 c" unfolding char32_low b_def first_bits by (rule top_part(1) [OF two(2)])
  have "at_loop (encode c @ rest) (char32 sg b) 1 0x40 0xFFFFFF80 (char32 sg b) = Some (2, 0x20, 0xFFFFFFC0, push_bit 6 (char32 sg b) OR take_bit 6 c)"
    using b encode_2 [OF two] by (simp add: loop_step loop_ends tail_bits_right add_six b_def [symmetric] del: One_nat_def)
  moreover have "(push_bit 6 (char32 sg b) OR take_bit 6 c) AND NOT (push_bit 6 0xFFFFFFE0) = c"
    by (simp only: drop_marks not_marks low split_join)
  ultimately show ?thesis using b encode_2 [OF two] two
    by (simp add: utf32_at_internal_def elem_at_def byte_bits b_def [symmetric] utf32_codepoint_utf8_length_def)
next
  case three
  define b where "b = (ucast (drop_bit 12 c OR 0xE0) :: byte)"
  have b: "bit b 7" "bit b 6" "bit b 5" "\<not> bit b 4" using small_bits(3) [OF three(2), of 16] by (auto simp: b_def bit_simps)
  have low: "char32 sg b AND 0x0f = drop_bit 12 c" unfolding char32_low b_def first_bits by (rule top_part(2) [OF three(2)])
  have "at_loop (encode c @ rest) (char32 sg b) 1 0x40 0xFFFFFF80 (char32 sg b) = Some (3, 0x10, 0xFFFFFFE0, push_bit 12 (char32 sg b) OR take_bit 12 c)"
    using b encode_3 [OF three] take_more [of 6 "char32 sg b" c]
    by (simp add: loop_step loop_ends tail_bits_right add_six b_def [symmetric] del: One_nat_def push_bit_or)
  moreover have "(push_bit 12 (char32 sg b) OR take_bit 12 c) AND NOT (push_bit 12 0xFFFFFFF0) = c"
    by (simp only: drop_marks not_marks low split_join)
  ultimately show ?thesis using b encode_3 [OF three] three
    by (auto simp: utf32_at_internal_def elem_at_def byte_bits b_def [symmetric] utf32_codepoint_utf8_length_def word_le_nat_alt word_less_nat_alt)
next
  case four
  define b where "b = (ucast (drop_bit 18 c OR 0xF0) :: byte)"
  have b: "bit b 7" "bit b 6" "bit b 5" "bit b 4" "\<not> bit b 3" using small_bits(4) [OF four(2), of 21] by (auto simp: b_def bit_simps)
  have low: "char32 sg b AND 0x07 = drop_bit 18 c" unfolding char32_low b_def first_bits by (rule top_part(3) [OF four(2)])
  have "at_loop (encode c @ rest) (char32 sg b) 1 0x40 0xFFFFFF80 (char32 sg b) = Some (4, 0x08, 0xFFFFFFF0, push_bit 18 (char32 sg b) OR take_bit 18 c)"
    using b encode_4 [OF four] take_more [of 12 "char32 sg b" c] take_more [of 6 "char32 sg b" "drop_bit 6 c"]
    by (simp add: loop_step loop_ends tail_bits_right add_six b_def [symmetric] del: One_nat_def push_bit_or)
  moreover have "(push_bit 18 (char32 sg b) OR take_bit 18 c) AND NOT (push_bit 18 0xFFFFFFF8) = c"
    by (simp only: drop_marks not_marks low split_join)
  ultimately show ?thesis using b encode_4 [OF four] four
    by (auto simp: utf32_at_internal_def elem_at_def byte_bits b_def [symmetric] utf32_codepoint_utf8_length_def word_le_nat_alt word_less_nat_alt)
qed

lemma at_loop_skip: "at_loop mem first n m ign v = Some (n', rest) \<Longrightarrow> skip_loop first n m = n'"
proof (induction mem first n m ign v rule: at_loop.induct)
  case (1 mem first n m ign v)
  then show ?case using at_loop.simps [of mem first n m ign v] skip_loop.simps [of first n m]
    by (fastforce split: if_splits Option.bind_splits)
qed

text \<open>The number of bytes that \<open>utf8_to_utf32_length\<close> skips is the one that \<open>utf32_at_internal\<close> reads.\<close>

lemma at_internal_skip:
  "utf32_at_internal sg (drop cur mem) = Some (v, n) \<Longrightarrow>
    \<exists>b. elem_at mem cur = Some b \<and> n = (if b AND 0x80 = 0 then 1 else skip_loop (char32 sg b) 1 0x40)"
  by (auto simp: utf32_at_internal_def elem_at_def split: if_splits Option.bind_splits dest!: at_loop_skip)

declare utf32_count.simps [simp del]

lemma decode_stream32:
  assumes "\<forall>c\<in>set cs. valid_codepoint c" and "u8len = length pre + length (concat (map encode cs))"
  shows "to_utf32_from sg (pre @ concat (map encode cs) @ post) u8len (length pre) = Some cs
    \<and> utf32_count sg (pre @ concat (map encode cs) @ post) u8len (length pre) = Some (length cs)"
  using assms
proof (induction cs arbitrary: pre)
  case Nil
  then show ?case by (simp add: to_utf32_from.simps utf32_count.simps)
next
  case (Cons c cs)
  define mem where "mem = pre @ concat (map encode (c # cs)) @ post"
  have c: "valid_codepoint c" using Cons.prems(1) by simp
  have at: "utf32_at_internal sg (drop (length pre) mem) = Some (c, utf32_codepoint_utf8_length c)"
    using at_internal_encoded [OF c] by (simp add: mem_def)
  obtain b where b: "elem_at mem (length pre) = Some b"
      "utf32_codepoint_utf8_length c = (if b AND 0x80 = 0 then 1 else skip_loop (char32 sg b) 1 0x40)"
    using at_internal_skip [OF at] by blast
  have IH: "to_utf32_from sg mem u8len (length pre + utf32_codepoint_utf8_length c) = Some cs"
      "utf32_count sg mem u8len (length pre + utf32_codepoint_utf8_length c) = Some (length cs)"
    using Cons.IH [of "pre @ encode c"] Cons.prems by (simp_all add: mem_def)
  have more: "length pre < u8len" using Cons.prems(2) valid_length_pos [OF c] by simp
  have "to_utf32_from sg mem u8len (length pre) = Some (c # cs)" by (subst to_utf32_from.simps) (use at IH more in simp)
  moreover have "utf32_count sg mem u8len (length pre) = Some (length (c # cs))"
    by (subst utf32_count.simps) (use b(1) IH more b(2) [symmetric] in simp)
  ultimately show ?case by (simp add: mem_def)
qed

lemma length_encoded: "length (concat (map encode cs)) = sum_list (map utf32_codepoint_utf8_length cs)"
  by (simp add: length_concat o_def)

text \<open>
  UTF-32: a \<open>String8\<close> always has room for what is written into it, also when code points are invalid and left out; valid code points are read back from it, and
  \<open>utf8_to_utf32_length\<close> says how many there are.
\<close>

theorem utf32_utf8_roundtrip:
  assumes "str \<noteq> []" and "\<And>n. can_alloc n"
  shows "\<exists>u8. string8_from_utf32 can_alloc fill str = Some (u8 @ [0]) \<and> int (length u8) = utf32_to_utf8_length str
    \<and> ((\<forall>c\<in>set str. valid_codepoint c) \<longrightarrow> utf8_to_utf32_length sg (u8 @ [0]) (length u8) = Some (length str)
         \<and> (length dst = length str + 1 \<longrightarrow> utf8_to_utf32 sg (u8 @ [0]) (length u8) dst = Some (str @ [0])))"
proof (intro exI conjI impI)
  let ?u8 = "concat (map encode str)"
  show "string8_from_utf32 can_alloc fill str = Some (?u8 @ [0])"
    using assms by (simp add: string8_from_utf32_def utf32_to_utf8_length_def utf32_to_utf8_def overwrite_def length_encoded del: length_concat)
  show "int (length ?u8) = utf32_to_utf8_length str" using assms(1) by (simp add: utf32_to_utf8_length_def length_encoded)
  assume valid: "\<forall>c\<in>set str. valid_codepoint c"
  note read = decode_stream32 [OF valid, of "length ?u8" "[]" sg "[0]"]
  show "utf8_to_utf32_length sg (?u8 @ [0]) (length ?u8) = Some (length str)" using read by (simp add: utf8_to_utf32_length_def)
  assume "length dst = length str + 1"
  moreover have "length ?u8 \<noteq> 0" using valid assms(1) valid_length_pos by (cases str) auto
  ultimately show "utf8_to_utf32 sg (?u8 @ [0]) (length ?u8) dst = Some (str @ [0])" unfolding utf8_to_utf32_def using read by (auto simp: overwrite_def)
qed

theorem utf32_utf8_roundtrip_witness:
  "\<exists>u8. string8_from_utf32 (\<lambda>_. True) (\<lambda>_. 0) [0x20AC, 0x1F600] = Some (u8 @ [0]) \<and> utf8_to_utf32_length True (u8 @ [0]) (length u8) = Some 2"
  using utf32_utf8_roundtrip [of "[0x20AC, 0x1F600]" "\<lambda>_. True" "\<lambda>_. 0" True "[0, 0, 0]"] by (auto simp: valid_codepoint_def)

section \<open>Bounded conversion\<close>

lemma units_length: "length (utf16_units cp) = 1 \<or> length (utf16_units cp) = 2"
  by (simp add: utf16_units_def)

lemma codepoint_len_bounds: "0 < utf8_codepoint_len ch \<and> utf8_codepoint_len ch \<le> 4"
  by (simp add: len_bits)

lemma codepoint_readable: "n \<le> 4 \<Longrightarrow> 4 \<le> length mem \<Longrightarrow> \<exists>cp. utf8_to_utf32_codepoint mem n = Some cp"
  by (auto simp: utf8_to_utf32_codepoint_def elem_at_def)

declare to_utf16_n_from.simps [simp del]

lemma next_codepoint:
  assumes "cur < u8len" and "u8len + 3 \<le> length src"
  obtains ch cp where "elem_at src cur = Some ch" and "utf8_to_utf32_codepoint (drop cur src) (utf8_codepoint_len ch) = Some cp"
proof -
  obtain ch where ch: "elem_at src cur = Some ch" using assms by (simp add: elem_at_def)
  moreover obtain cp where "utf8_to_utf32_codepoint (drop cur src) (utf8_codepoint_len ch) = Some cp"
    using codepoint_readable [of "utf8_codepoint_len ch" "drop cur src"] codepoint_len_bounds [of ch] assms by force
  ultimately show thesis by (rule that)
qed

lemma to_utf16_total: "u8len + 3 \<le> length src \<Longrightarrow> \<exists>out. to_utf16_from src u8len cur = Some out"
proof (induction src u8len cur rule: to_utf16_from.induct)
  case (1 src u8len cur)
  show ?case
  proof (cases "cur < u8len")
    case True
    then obtain ch cp where "elem_at src cur = Some ch" "utf8_to_utf32_codepoint (drop cur src) (utf8_codepoint_len ch) = Some cp"
      using 1(2) by (rule next_codepoint)
    moreover from this obtain out where "to_utf16_from src u8len (cur + utf8_codepoint_len ch) = Some out" using 1(1) [OF True] 1(2) by blast
    ultimately show ?thesis using True by (subst to_utf16_from.simps) simp
  qed (simp add: to_utf16_from.simps)
qed

lemma to_utf16_n_bounded:
  "u8len + 3 \<le> length src \<Longrightarrow> \<exists>n out full. to_utf16_n_from src u8len cur room = Some (n, out) \<and> n \<le> length out \<and> length out \<le> room
    \<and> to_utf16_from src u8len cur = Some full \<and> take n full = take n out \<and> n \<le> length full \<and> (length full \<le> room \<longrightarrow> n = length full)"
proof (induction src u8len cur room rule: to_utf16_n_from.induct)
  case (1 src u8len cur room)
  obtain full where full: "to_utf16_from src u8len cur = Some full" using to_utf16_total [OF 1(2)] by blast
  show ?case
  proof (cases "cur < u8len \<and> 0 < room")
    case False
    then show ?thesis using full by (auto simp: to_utf16_n_from.simps) (simp add: to_utf16_from.simps)
  next
    case True
    then have cur: "cur < u8len" by simp
    obtain ch cp where ch: "elem_at src cur = Some ch" and cp: "utf8_to_utf32_codepoint (drop cur src) (utf8_codepoint_len ch) = Some cp"
      using cur 1(2) by (rule next_codepoint)
    obtain full1 where full1: "to_utf16_from src u8len (cur + utf8_codepoint_len ch) = Some full1" "full = utf16_units cp @ full1"
      using full ch cp cur by (subst (asm) to_utf16_from.simps) (auto split: Option.bind_splits)
    show ?thesis
    proof (cases "room < length (utf16_units cp)")
      case short: True
      then have "to_utf16_n_from src u8len cur room = Some (0, [hd (utf16_units cp)])" using True ch cp by (subst to_utf16_n_from.simps) simp
      then show ?thesis using full full1(2) short True by auto
    next
      case room: False
      obtain n out where rest: "to_utf16_n_from src u8len (cur + utf8_codepoint_len ch) (room - length (utf16_units cp)) = Some (n, out)" "n \<le> length out"
          "length out \<le> room - length (utf16_units cp)" "take n full1 = take n out" "n \<le> length full1"
          "length full1 \<le> room - length (utf16_units cp) \<longrightarrow> n = length full1"
        using 1(1) [OF True ch cp room 1(2)] full1(1) by auto
      have "to_utf16_n_from src u8len cur room = Some (length (utf16_units cp) + n, utf16_units cp @ out)"
        using True ch cp room rest(1) by (subst to_utf16_n_from.simps) simp
      then show ?thesis using full full1(2) rest room by auto
    qed
  qed
qed

text \<open>
  For any bytes that are followed by three readable ones, \<open>utf8_to_utf16_n\<close> returns, writes only into the \<open>dstLen\<close> units it is given, and what it says to have written is the
  start of the whole conversion, all of it when there is room.
\<close>

theorem utf8_to_utf16_n_bounded:
  assumes "srcLen + 3 \<le> length src" and "dstLen \<le> length dst"
  shows "\<exists>n dst1 full. utf8_to_utf16_n src srcLen dst dstLen = Some (n, dst1) \<and> n \<le> dstLen \<and> drop dstLen dst1 = drop dstLen dst
    \<and> to_utf16_from src srcLen 0 = Some full \<and> take n dst1 = take n full \<and> n \<le> length full \<and> (length full \<le> dstLen \<longrightarrow> n = length full)"
proof -
  obtain n out full where run: "to_utf16_n_from src srcLen 0 dstLen = Some (n, out)" "n \<le> length out" "length out \<le> dstLen"
      "to_utf16_from src srcLen 0 = Some full" "take n full = take n out" "n \<le> length full" "length full \<le> dstLen \<longrightarrow> n = length full"
    using to_utf16_n_bounded [OF assms(1)] by blast
  have "overwrite dst out = Some (out @ drop (length out) dst)" using run(3) assms(2) by (simp add: overwrite_def)
  then show ?thesis using run by (auto simp: utf8_to_utf16_n_def)
qed

theorem utf8_to_utf16_n_bounded_witness:
  "\<exists>n dst1. utf8_to_utf16_n [0x41, 0xF0, 0x9F, 0x98, 0x80, 0, 0, 0] 5 [7, 7, 7] 2 = Some (n, dst1) \<and> n \<le> 2 \<and> drop 2 dst1 = [7]"
  using utf8_to_utf16_n_bounded [of 5 "[0x41, 0xF0, 0x9F, 0x98, 0x80, 0, 0, 0]" 2 "[7, 7, 7]"] by auto

section \<open>Comparison\<close>

text \<open>
  On strings without NUL, \<open>strzcmp16\<close> is the lexicographic order by units: zero for equal strings only, negative when the first is smaller, and exchanging
  the arguments negates the result.
\<close>

theorem strzcmp16_lexicographic:
  assumes "0 \<notin> set s1" and "0 \<notin> set s2"
  shows "(strzcmp16 s1 s2 = 0 \<longleftrightarrow> s1 = s2) \<and> (strzcmp16 s1 s2 < 0 \<longleftrightarrow> (s1, s2) \<in> lexord {(x, y). x < y}) \<and> strzcmp16 s2 s1 = - strzcmp16 s1 s2"
  using assms
proof (induction s1 s2 rule: strzcmp16.induct)
  case (2 b s2)
  then have "0 < uint b" by (auto simp: order_less_le unsigned_eq_0_iff)
  then show ?case by simp
next
  case (3 a s1)
  then have "0 < uint a" by (auto simp: order_less_le unsigned_eq_0_iff)
  then show ?case by simp
next
  case (4 a s1 b s2)
  show ?case
  proof (cases "a = b")
    case True
    then show ?thesis using 4 by (auto simp: word_less_def)
  next
    case False
    then have "uint a \<noteq> uint b" by (simp add: word_uint_eq_iff)
    then show ?thesis using False by (auto simp: word_less_def)
  qed
qed simp

theorem strzcmp16_lexicographic_witness: "strzcmp16 [0x61, 0x62] [0x61] = - strzcmp16 [0x61] [0x61, 0x62] \<and> strzcmp16 [0x61] [0x61, 0x62] < 0"
  using strzcmp16_lexicographic [of "[0x61]" "[0x61, 0x62]"] by (simp add: lexord_def)

section \<open>Where the functions go wrong\<close>

text \<open>Strings that differ in a NUL at the end compare as equal.\<close>

lemma strzcmp16_embedded_nul: "strzcmp16 (str @ [0]) str = 0"
  by (induction str) simp_all

text \<open>Where \<open>char\<close> is signed, \<open>utf8_length\<close> rejects a character of two bytes that it accepts elsewhere.\<close>

lemma utf8_length_rejects: "utf8_length True [0xC3, 0xA9, 0] = Some (- 1)" "utf8_length False [0xC3, 0xA9, 0] = Some 2"
  by code_simp+

text \<open>\<open>strncpy16\<close> keeps the low byte of a unit only, and stops at a unit whose low byte is zero.\<close>

lemma strncpy16_truncates: "strncpy16 True [7, 7, 7] [0x0100, 0x61, 0] 2 = Some [0, 0, 7]" "strncpy16 False [7, 7, 7] [0x0141, 0x61, 0] 2 = Some [0x41, 0x61, 0]"
  by code_simp+

text \<open>A sequence that is cut off by the terminator is read behind it.\<close>

lemma truncated_utf8_read_past: "string16_from_utf8 (\<lambda>_. True) (\<lambda>_. 0) [0xF0, 0] 1 = None"
  by code_simp

text \<open>The comparison with a string in network byte order is the comparison with the string in host order.\<close>

lemma strzcmp16_h_n_host: "strzcmp16_h_n s1 s2 = strzcmp16 s1 (map ntohs s2)"
  by (induction s1 s2 rule: strzcmp16_h_n.induct) (simp_all add: Let_def)

lemma ntohs_involution: "ntohs (ntohs x) = x"
  unfolding ntohs_def by (rule bit_word_eqI) (auto simp: bit_simps)

end
