(* ===== verification/Hashtable.thy ===== *)
theory Hashtable
  imports Prelude "HOL-Library.Monad_Syntax"
begin

text \<open>
  The hash table with open addressing of \<open>libs/utils/BasicHashtable.cpp\<close>, over the shared buffers of \<open>libs/utils/SharedBuffer.cpp\<close>: tables share an array
  of buckets until one of them is changed. \<open>None\<close> is an access through NULL, to memory that is not there or to an entry that has not been constructed, or a
  loop that does not end. \<open>LOG_ALWAYS_FATAL_IF\<close> does nothing in this build (\<open>cutils/log.h\<close>).
\<close>

unbundle bit_operations_syntax

section \<open>Shared buffers\<close>

text \<open>Buffers by address, each with its reference count and its contents; a freed one is \<open>None\<close>. Memory does not run out.\<close>

record 'a shared =
  mRefs :: nat
  contents :: "'a list"

type_synonym 'a shared_heap = "'a shared option list"

definition sb_at :: "'a shared_heap \<Rightarrow> nat \<Rightarrow> 'a shared option" where
  "sb_at H a = (if a < length H then H ! a else None)"

definition sb_alloc :: "'a list \<Rightarrow> 'a shared_heap \<Rightarrow> nat \<times> 'a shared_heap" where
  "sb_alloc xs H = (length H, H @ [Some \<lparr>mRefs = 1, contents = xs\<rparr>])"

definition sb_put :: "nat \<Rightarrow> 'a list \<Rightarrow> 'a shared_heap \<Rightarrow> 'a shared_heap option" where
  "sb_put a xs H = do { sb \<leftarrow> sb_at H a; Some (H[a := Some (sb\<lparr>contents := xs\<rparr>)]) }"

definition onlyOwner :: "nat \<Rightarrow> 'a shared_heap \<Rightarrow> bool option" where
  "onlyOwner a H = do { sb \<leftarrow> sb_at H a; Some (mRefs sb = 1) }"

definition acquire :: "nat \<Rightarrow> 'a shared_heap \<Rightarrow> 'a shared_heap option" where
  "acquire a H = do { sb \<leftarrow> sb_at H a; Some (H[a := Some (sb\<lparr>mRefs := mRefs sb + 1\<rparr>)]) }"

text \<open>The previous count; the storage is kept, as with \<open>eKeepStorage\<close>.\<close>

definition release :: "nat \<Rightarrow> 'a shared_heap \<Rightarrow> (nat \<times> 'a shared_heap) option" where
  "release a H = do { sb \<leftarrow> sb_at H a; Some (mRefs sb, H[a := Some (sb\<lparr>mRefs := mRefs sb - 1\<rparr>)]) }"

definition dealloc :: "nat \<Rightarrow> 'a shared_heap \<Rightarrow> 'a shared_heap option" where
  "dealloc a H = do { sb \<leftarrow> sb_at H a; Some (if mRefs sb \<noteq> 0 then H else H[a := None]) }"

section \<open>Floating point\<close>

text \<open>
  A positive \<open>float\<close> is the fraction of its value. \<open>to_float p q\<close> is \<open>p / q\<close> rounded to 24 significant bits, to the nearest, ties to even; exponents are not bounded.
\<close>

type_synonym float32 = "nat \<times> nat"

definition round_even :: "nat \<Rightarrow> nat \<Rightarrow> nat" where
  "round_even p q = (let d = p div q; r = p mod q in if 2 * r < q \<or> (2 * r = q \<and> even d) then d else d + 1)"

function exp_up :: "nat \<Rightarrow> nat \<Rightarrow> nat" where
  "exp_up p q = (if q = 0 \<or> p < q * 2 ^ 24 then 0 else Suc (exp_up p (2 * q)))"
  by pat_completeness auto

termination
  by (relation "measure (\<lambda>(p, q). p - q)") auto

function exp_down :: "nat \<Rightarrow> nat \<Rightarrow> nat" where
  "exp_down p q = (if p = 0 \<or> q * 2 ^ 23 \<le> p then 0 else Suc (exp_down (2 * p) q))"
  by pat_completeness auto

termination
  by (relation "measure (\<lambda>(p, q). q * 2 ^ 23 - p)") auto

definition to_float :: "nat \<Rightarrow> nat \<Rightarrow> float32" where
  "to_float p q =
     (if p < q * 2 ^ 24 then (round_even (p * 2 ^ exp_down p q) q, 2 ^ exp_down p q)
      else (round_even p (q * 2 ^ exp_up p q) * 2 ^ exp_up p q, 1))"

definition float_times :: "float32 \<Rightarrow> float32 \<Rightarrow> float32" where
  "float_times x y = to_float (fst x * fst y) (snd x * snd y)"

definition float_over :: "float32 \<Rightarrow> float32 \<Rightarrow> float32" where
  "float_over x y = to_float (fst x * snd y) (snd x * fst y)"

definition ceilf :: "float32 \<Rightarrow> nat" where
  "ceilf x = (fst x + snd x - 1) div snd x"

section \<open>Capacity\<close>

definition PRIMES :: "nat list" where
  "PRIMES = [5, 11, 23, 47, 97, 197, 397, 797, 1597, 3203, 6421, 12853, 25717, 51437, 102877, 205759, 411527, 823117, 1646237, 3292489, 6584983,
     13169977, 26339969, 52679969, 105359939, 210719881, 421439783, 842879579, 1685759167, 0]"

text \<open>The test of the index comes after the access, so that a count above the last prime reads behind the array.\<close>

fun next_prime :: "nat \<Rightarrow> nat list \<Rightarrow> nat option" where
  "next_prime count [] = None"
| "next_prime count (p # ps) = (if count > p then next_prime count ps else Some p)"

definition determineCapacity :: "nat \<Rightarrow> float32 \<Rightarrow> (nat \<times> nat) option" where
  "determineCapacity minimumCapacity loadFactor = do {
     let x = to_float (ceilf (float_over (to_float minimumCapacity 1) loadFactor) + 1) 1;
     let count = fst x div snd x;
     n \<leftarrow> next_prime count PRIMES;
     Some (n, ceilf (float_times (to_float (n - 1) 1) loadFactor)) }"

section \<open>Buckets\<close>

record 'e bucket =
  cookie :: u32
  entry :: "'e option"

abbreviation COLLISION :: u32 where "COLLISION \<equiv> 0x80000000"
abbreviation PRESENT :: u32 where "PRESENT \<equiv> 0x40000000"
abbreviation HASH_MASK :: u32 where "HASH_MASK \<equiv> 0x3fffffff"

definition present :: "'e bucket \<Rightarrow> bool" where
  "present b \<longleftrightarrow> cookie b AND PRESENT \<noteq> 0"

definition collided :: "'e bucket \<Rightarrow> bool" where
  "collided b \<longleftrightarrow> cookie b AND COLLISION \<noteq> 0"

definition trimHash :: "u32 \<Rightarrow> u32" where
  "trimHash h = (h AND HASH_MASK) XOR drop_bit 30 h"

definition chainStart :: "u32 \<Rightarrow> nat \<Rightarrow> nat" where
  "chainStart h count = unat h mod count"

definition chainIncrement :: "u32 \<Rightarrow> nat \<Rightarrow> nat" where
  "chainIncrement h count = unat (drop_bit 7 h OR push_bit 25 h) mod (count - 1) + 1"

definition chainSeek :: "nat \<Rightarrow> nat \<Rightarrow> nat \<Rightarrow> nat" where
  "chainSeek index increment count = (index + increment) mod count"

definition bucketAt :: "'e bucket list \<Rightarrow> nat \<Rightarrow> 'e bucket option" where
  "bucketAt bs i = (if i < length bs then Some (bs ! i) else None)"

definition empty_buckets :: "nat \<Rightarrow> 'e bucket list" where
  "empty_buckets count = replicate count \<lparr>cookie = 0, entry = None\<rparr>"

text \<open>The loops \<open>do ... while (bucket->cookie & PRESENT)\<close> of \<open>add\<close> and \<open>rehash\<close>.\<close>

partial_function (option) seek :: "nat \<Rightarrow> nat \<Rightarrow> 'e bucket list \<Rightarrow> nat \<Rightarrow> (nat \<times> 'e bucket list) option" where
  "seek inc count bs i = do {
     b \<leftarrow> bucketAt bs i;
     if present b then seek inc count (bs[i := b\<lparr>cookie := cookie b OR COLLISION\<rparr>]) (chainSeek i inc count) else Some (i, bs) }"

partial_function (option) find_loop :: "('e \<Rightarrow> 'k) \<Rightarrow> 'k \<Rightarrow> u32 \<Rightarrow> nat \<Rightarrow> nat \<Rightarrow> 'e bucket list \<Rightarrow> nat \<Rightarrow> int option" where
  "find_loop getKey key hash inc count bs index = do {
     let i = chainSeek index inc count;
     b \<leftarrow> bucketAt bs i;
     found \<leftarrow> (if present b \<and> cookie b AND HASH_MASK = hash then do { e \<leftarrow> entry b; Some (getKey e = key) } else Some False);
     if found then Some (int i) else if \<not> collided b then Some (- 1) else find_loop getKey key hash inc count bs i }"

declare seek.simps [code] find_loop.simps [code]

fun rehash_into :: "nat \<Rightarrow> 'e bucket list \<Rightarrow> 'e bucket list \<Rightarrow> 'e bucket list option" where
  "rehash_into count [] new = Some new"
| "rehash_into count (b # bs) new =
     (if present b
      then do {
        let hash = cookie b AND HASH_MASK;
        (i, new1) \<leftarrow> seek (chainIncrement hash count) count new (chainStart hash count);
        rehash_into count bs (new1[i := \<lparr>cookie = PRESENT OR hash, entry = entry b\<rparr>]) }
      else rehash_into count bs new)"

section \<open>Tables\<close>

record hashtable =
  mCapacity :: nat
  mLoadFactor :: float32
  mSize :: nat
  mFilledBuckets :: nat
  mBucketCount :: nat
  mBuckets :: "nat option"

definition BasicHashtable :: "nat \<Rightarrow> float32 \<Rightarrow> hashtable option" where
  "BasicHashtable minimumInitialCapacity loadFactor = do {
     (count, capacity) \<leftarrow> determineCapacity minimumInitialCapacity loadFactor;
     Some \<lparr>mCapacity = capacity, mLoadFactor = loadFactor, mSize = 0, mFilledBuckets = 0, mBucketCount = count, mBuckets = None\<rparr> }"

definition copy_table :: "hashtable \<Rightarrow> 'e bucket shared_heap \<Rightarrow> (hashtable \<times> 'e bucket shared_heap) option" where
  "copy_table t H = do { H1 \<leftarrow> (case mBuckets t of None \<Rightarrow> Some H | Some a \<Rightarrow> acquire a H); Some (t, H1) }"

text \<open>Destroying the entries ends their lifetime; the memory goes away right after.\<close>

definition releaseBuckets :: "nat \<Rightarrow> 'e bucket shared_heap \<Rightarrow> 'e bucket shared_heap option" where
  "releaseBuckets a H = do { (prev, H1) \<leftarrow> release a H; if prev = 1 then dealloc a H1 else Some H1 }"

definition dispose :: "hashtable \<Rightarrow> 'e bucket shared_heap \<Rightarrow> 'e bucket shared_heap option" where
  "dispose t H = (case mBuckets t of None \<Rightarrow> Some H | Some a \<Rightarrow> releaseBuckets a H)"

definition copyBuckets :: "'e bucket list \<Rightarrow> 'e bucket list" where
  "copyBuckets bs = map (\<lambda>b. \<lparr>cookie = cookie b, entry = (if present b then entry b else None)\<rparr>) bs"

definition clone :: "hashtable \<Rightarrow> 'e bucket shared_heap \<Rightarrow> (hashtable \<times> 'e bucket shared_heap) option" where
  "clone t H = (case mBuckets t of
       None \<Rightarrow> Some (t, H)
     | Some a \<Rightarrow> do {
         sb \<leftarrow> sb_at H a;
         let (a1, H1) = sb_alloc (copyBuckets (contents sb)) H;
         H2 \<leftarrow> releaseBuckets a H1;
         Some (t\<lparr>mBuckets := Some a1\<rparr>, H2) })"

definition edit :: "hashtable \<Rightarrow> 'e bucket shared_heap \<Rightarrow> (hashtable \<times> 'e bucket shared_heap) option" where
  "edit t H = (case mBuckets t of
       None \<Rightarrow> Some (t, H)
     | Some a \<Rightarrow> do { only \<leftarrow> onlyOwner a H; if only then Some (t, H) else clone t H })"

text \<open>\<open>other\<close> is read after the buckets of this table have been released: it is the same object in a self-assignment.\<close>

definition setTo :: "hashtable \<Rightarrow> hashtable \<Rightarrow> 'e bucket shared_heap \<Rightarrow> (hashtable \<times> 'e bucket shared_heap) option" where
  "setTo t other H = do { H1 \<leftarrow> dispose t H; copy_table other H1 }"

definition clear :: "hashtable \<Rightarrow> 'e bucket shared_heap \<Rightarrow> (hashtable \<times> 'e bucket shared_heap) option" where
  "clear t H = (case mBuckets t of
       None \<Rightarrow> Some (t, H)
     | Some a \<Rightarrow>
         if mFilledBuckets t = 0 then Some (t\<lparr>mSize := 0\<rparr>, H)
         else do {
           only \<leftarrow> onlyOwner a H;
           if only then do { H1 \<leftarrow> sb_put a (empty_buckets (mBucketCount t)) H; Some (t\<lparr>mSize := 0, mFilledBuckets := 0\<rparr>, H1) }
           else do { H1 \<leftarrow> releaseBuckets a H; Some (t\<lparr>mSize := 0, mFilledBuckets := 0, mBuckets := None\<rparr>, H1) } })"

definition next_entry :: "int \<Rightarrow> hashtable \<Rightarrow> 'e bucket shared_heap \<Rightarrow> int option" where
  "next_entry index t H =
     (if mSize t = 0 \<or> index < - 1 then Some (- 1)
      else do {
        a \<leftarrow> mBuckets t;
        sb \<leftarrow> sb_at H a;
        Some (case filter (\<lambda>i. present (contents sb ! i)) [nat (index + 1)..<mBucketCount t] of [] \<Rightarrow> - 1 | i # _ \<Rightarrow> int i) })"

definition find_entry :: "('e \<Rightarrow> 'k) \<Rightarrow> int \<Rightarrow> u32 \<Rightarrow> 'k \<Rightarrow> hashtable \<Rightarrow> 'e bucket shared_heap \<Rightarrow> int option" where
  "find_entry getKey index hash key t H =
     (if mSize t = 0 then Some (- 1)
      else do {
        a \<leftarrow> mBuckets t;
        sb \<leftarrow> sb_at H a;
        let bs = contents sb;
        let h = trimHash hash;
        let inc = chainIncrement h (mBucketCount t);
        if index \<ge> 0 then find_loop getKey key h inc (mBucketCount t) bs (nat index)
        else do {
          let start = chainStart h (mBucketCount t);
          b \<leftarrow> bucketAt bs start;
          found \<leftarrow> (if present b then do { e \<leftarrow> entry b; Some (getKey e = key) } else Some False);
          if found then Some (int start)
          else if \<not> present b \<and> \<not> collided b then Some (- 1)
          else find_loop getKey key h inc (mBucketCount t) bs start } })"

definition rehash :: "nat \<Rightarrow> float32 \<Rightarrow> hashtable \<Rightarrow> 'e bucket shared_heap \<Rightarrow> (hashtable \<times> 'e bucket shared_heap) option" where
  "rehash minimumCapacity loadFactor t H = do {
     (count, capacity) \<leftarrow> determineCapacity (max minimumCapacity (mSize t)) loadFactor;
     if count = mBucketCount t \<and> capacity = mCapacity t then Some (t\<lparr>mLoadFactor := loadFactor\<rparr>, H)
     else do {
       (t1, H1) \<leftarrow> (case mBuckets t of
           None \<Rightarrow> Some (t, H)
         | Some a \<Rightarrow> do {
             sb \<leftarrow> sb_at H a;
             (new, H1) \<leftarrow> (if mSize t = 0 then Some (None, H)
               else do {
                 bs \<leftarrow> rehash_into count (contents sb) (empty_buckets count);
                 let (a1, H1) = sb_alloc bs H;
                 Some (Some a1, H1) });
             H2 \<leftarrow> releaseBuckets a H1;
             Some (t\<lparr>mBuckets := new, mFilledBuckets := mSize t\<rparr>, H2) });
       Some (t1\<lparr>mBucketCount := count, mCapacity := capacity, mLoadFactor := loadFactor\<rparr>, H1) } }"

partial_function (option) add_loop :: "u32 \<Rightarrow> 'e \<Rightarrow> hashtable \<Rightarrow> 'e bucket shared_heap \<Rightarrow> (nat \<times> hashtable \<times> 'e bucket shared_heap) option" where
  "add_loop h e t H = do {
     a \<leftarrow> mBuckets t;
     sb \<leftarrow> sb_at H a;
     (i, bs) \<leftarrow> seek (chainIncrement h (mBucketCount t)) (mBucketCount t) (contents sb) (chainStart h (mBucketCount t));
     b \<leftarrow> bucketAt bs i;
     if \<not> collided b \<and> mFilledBuckets t \<ge> mCapacity t
     then do {
       H1 \<leftarrow> sb_put a bs H;
       (t1, H2) \<leftarrow> rehash (mCapacity t * 2) (mLoadFactor t) t H1;
       add_loop h e t1 H2 }
     else do {
       H1 \<leftarrow> sb_put a (bs[i := \<lparr>cookie = (cookie b AND COLLISION) OR PRESENT OR h, entry = Some e\<rparr>]) H;
       Some (i, t\<lparr>mSize := mSize t + 1, mFilledBuckets := (if collided b then mFilledBuckets t else mFilledBuckets t + 1)\<rparr>, H1) } }"

declare add_loop.simps [code]

definition add :: "u32 \<Rightarrow> 'e \<Rightarrow> hashtable \<Rightarrow> 'e bucket shared_heap \<Rightarrow> (nat \<times> hashtable \<times> 'e bucket shared_heap) option" where
  "add hash e t H = do {
     (t1, H1) \<leftarrow> (case mBuckets t of
         None \<Rightarrow> let (a, H1) = sb_alloc (empty_buckets (mBucketCount t)) H in Some (t\<lparr>mBuckets := Some a\<rparr>, H1)
       | Some _ \<Rightarrow> edit t H);
     add_loop (trimHash hash) e t1 H1 }"

definition removeAt :: "nat \<Rightarrow> hashtable \<Rightarrow> 'e bucket shared_heap \<Rightarrow> (hashtable \<times> 'e bucket shared_heap) option" where
  "removeAt index t H = do {
     (t1, H1) \<leftarrow> edit t H;
     a \<leftarrow> mBuckets t1;
     sb \<leftarrow> sb_at H1 a;
     b \<leftarrow> bucketAt (contents sb) index;
     let b1 = \<lparr>cookie = cookie b AND NOT PRESENT, entry = None\<rparr>;
     H2 \<leftarrow> sb_put a ((contents sb)[index := b1]) H1;
     Some (t1\<lparr>mSize := mSize t1 - 1, mFilledBuckets := (if collided b1 then mFilledBuckets t1 else mFilledBuckets t1 - 1)\<rparr>, H2) }"

definition entryAt :: "nat \<Rightarrow> hashtable \<Rightarrow> 'e bucket shared_heap \<Rightarrow> 'e option" where
  "entryAt index t H = do { a \<leftarrow> mBuckets t; sb \<leftarrow> sb_at H a; b \<leftarrow> bucketAt (contents sb) index; entry b }"

definition hasMoreRoom :: "hashtable \<Rightarrow> bool" where
  "hasMoreRoom t \<longleftrightarrow> mCapacity t > mFilledBuckets t"

end
