(* ===== verification/Hashtable_Primes.thy ===== *)
theory Hashtable_Primes
  imports Hashtable
begin

text \<open>
  The bucket counts of the hash table are prime, so that the chain of a hash code visits every bucket. Each number comes with a primitive root and the factors of
  its predecessor, after Lucas and Pratt.
\<close>

definition is_prime :: "nat \<Rightarrow> bool" where
  "is_prime n \<longleftrightarrow> 1 < n \<and> (\<forall>d. 0 < d \<and> d < n \<longrightarrow> coprime d n)"

definition square :: "nat \<Rightarrow> nat \<Rightarrow> nat" where
  "square x n = x * x mod n"

fun powmod :: "nat \<Rightarrow> nat \<Rightarrow> nat \<Rightarrow> nat" where
  "powmod a e n = (if e = 0 then 1 mod n else if even e then square (powmod a (e div 2) n) n else a * square (powmod a (e div 2) n) n mod n)"

declare powmod.simps [simp del]

lemma powmod_eq: "powmod a e n = a ^ e mod n"
proof (induction a e n rule: powmod.induct)
  case (1 a e n)
  show ?case
  proof (cases "e = 0")
    case False
    define k where "k = e div 2"
    have "powmod a k n = a ^ k mod n" using 1 False by (cases "even e") (simp_all add: k_def)
    then have sq: "square (powmod a k n) n = a ^ (k + k) mod n" by (simp add: square_def power_add mod_simps)
    show ?thesis
    proof (cases "even e")
      case True
      then have "e = k + k" by (auto simp: k_def)
      then show ?thesis using True False sq powmod.simps [of a e n] by (simp add: k_def)
    next
      case odd: False
      then have "e = Suc (k + k)" by (auto simp: k_def elim!: oddE)
      then have "a ^ e mod n = a * (a ^ (k + k) mod n) mod n" by (simp add: mod_simps)
      then show ?thesis using odd False sq powmod.simps [of a e n] by (simp add: k_def)
    qed
  qed (simp add: powmod.simps)
qed

lemma powmod_run:
  "powmod a 0 n = 1 mod n" "powmod a (Suc 0) n = a * square (1 mod n) n mod n"
  "powmod a (numeral (num.Bit0 k)) n = square (powmod a (numeral k) n) n"
  "powmod a (numeral (num.Bit1 k)) n = a * square (powmod a (numeral k) n) n mod n"
  "square (numeral v) n = numeral v * numeral v mod n" "square (Suc 0) n = Suc 0 mod n" "square 0 n = 0 mod n"
  by (subst powmod.simps, simp add: powmod.simps [of _ 0])+ (simp_all add: square_def)

lemma prime_divides: "is_prime q \<Longrightarrow> \<not> coprime q c \<Longrightarrow> q dvd c"
proof -
  assume q: "is_prime q" and c: "\<not> coprime q c"
  have "gcd q c dvd q" "gcd q c \<noteq> 1" "gcd q c \<noteq> 0" using c q by (auto simp: is_prime_def coprime_iff_gcd_eq_1)
  moreover have "\<not> (0 < gcd q c \<and> gcd q c < q)"
  proof
    assume "0 < gcd q c \<and> gcd q c < q"
    then have "coprime (gcd q c) q" using q by (simp add: is_prime_def)
    then show False using \<open>gcd q c dvd q\<close> \<open>gcd q c \<noteq> 1\<close> by (metis coprime_common_divisor_nat dvd_refl)
  qed
  ultimately have "gcd q c = q" using q by (metis dvd_imp_le gr0I is_prime_def less_imp_not_less linorder_neqE_nat not_less not_one_less_zero)
  then show "q dvd c" by (metis gcd_dvd2)
qed

text \<open>Among the factors of \<open>m\<close>, all prime, one divides what is left of \<open>m\<close> beside a proper divisor.\<close>

lemma some_factor: "\<forall>q\<in>set qs. is_prime q \<Longrightarrow> c dvd prod_list qs \<Longrightarrow> c \<noteq> 1 \<Longrightarrow> \<exists>q\<in>set qs. q dvd c"
proof (rule ccontr)
  assume p: "\<forall>q\<in>set qs. is_prime q" and c: "c dvd prod_list qs" "c \<noteq> 1" and "\<not> (\<exists>q\<in>set qs. q dvd c)"
  then have "\<forall>q\<in>set qs. coprime q c" using prime_divides by blast
  then have "coprime (prod_list qs) c" by (induction qs) auto
  then show False using c by (metis coprime_common_divisor_nat dvd_refl)
qed

lemma pow_one: "1 < n \<Longrightarrow> b mod n = 1 \<Longrightarrow> b ^ x mod n = (1 :: nat)"
  using power_mod [of b n x] by simp

lemma lucas:
  assumes "1 < n" and "prod_list qs = n - 1" and "\<forall>q\<in>set qs. is_prime q" and "a ^ (n - 1) mod n = 1" and "\<forall>q\<in>set qs. a ^ ((n - 1) div q) mod n \<noteq> 1"
  shows "is_prime n"
proof -
  define m where "m = n - 1"
  have m: "0 < m" using assms(1) by (simp add: m_def)
  have unit: "coprime a n"
  proof -
    have "coprime (a ^ m mod n) n" using assms(4) by (simp add: m_def)
    then have "coprime (a ^ m) n" using coprime_mod_left_iff [of n "a ^ m"] assms(1) by linarith
    then show ?thesis using m by (simp add: coprime_power_left_iff)
  qed
  have order: "a ^ k mod n \<noteq> 1" if k: "0 < k" "k < m" for k
  proof
    assume one: "a ^ k mod n = 1"
    define g where "g = gcd k m"
    obtain x y where xy: "k * x = m * y + g" using bezout_nat [of k m] k by (auto simp: g_def)
    have ones: "a ^ (k * x) mod n = 1" "a ^ (m * y) mod n = 1"
      using pow_one [OF assms(1) one] pow_one [OF assms(1,4)] by (simp_all add: power_mult m_def)
    then have "a ^ g mod n = 1" unfolding xy power_add by (metis mod_mult_left_eq mult_1)
    have "g dvd m" "g \<le> k" "g \<noteq> 0" using k by (simp_all add: g_def gcd_le1_nat)
    then obtain c where c: "m = g * c" by blast
    have "c \<noteq> 1" using c k \<open>g \<le> k\<close> by auto
    moreover have "c dvd prod_list qs" unfolding assms(2) m_def [symmetric] c by simp
    ultimately obtain q where q: "q \<in> set qs" "q dvd c" using some_factor [OF assms(3)] by blast
    then obtain d where "c = q * d" by blast
    moreover have "0 < q" using q(1) assms(3) by (auto simp: is_prime_def)
    ultimately have "m div q = g * d" using c by simp
    then have "a ^ (m div q) mod n = 1" using pow_one [OF assms(1) \<open>a ^ g mod n = 1\<close>] by (simp add: power_mult)
    then show False using assms(5) q(1) by (simp add: m_def)
  qed
  have inj: "inj_on (\<lambda>i. a ^ i mod n) {..<m}"
  proof -
    have "a ^ i mod n \<noteq> a ^ j mod n" if "i < j" "j < m" for i j
    proof
      assume eq: "a ^ i mod n = a ^ j mod n"
      have "0 < a" using unit assms(1) by (cases a) auto
      have j: "a ^ j = a ^ i * a ^ (j - i)" using that by (simp add: power_add [symmetric])
      have "a ^ i \<le> a ^ j" using \<open>0 < a\<close> that by (simp add: power_increasing)
      then have "n dvd a ^ j - a ^ i" using eq mod_eq_dvd_iff_nat [of "a ^ i" "a ^ j" n] by metis
      moreover have "a ^ j - a ^ i = a ^ i * (a ^ (j - i) - 1)" unfolding j by (simp add: diff_mult_distrib2)
      ultimately have "n dvd a ^ i * (a ^ (j - i) - 1)" by metis
      then have "n dvd a ^ (j - i) - 1" using unit by (simp add: coprime_dvd_mult_right_iff coprime_commute)
      moreover have "1 \<le> a ^ (j - i)" using \<open>0 < a\<close> by simp
      ultimately have "a ^ (j - i) mod n = 1" using mod_eq_dvd_iff_nat [of 1 "a ^ (j - i)" n] assms(1) by simp
      then show False using order [of "j - i"] that by (simp add: less_imp_diff_less)
    qed
    then show ?thesis by (intro inj_onI) (metis lessThan_iff linorder_neqE_nat)
  qed
  have units: "(\<lambda>i. a ^ i mod n) ` {..<m} \<subseteq> {d. 0 < d \<and> d < n \<and> coprime d n}"
  proof
    fix d assume "d \<in> (\<lambda>i. a ^ i mod n) ` {..<m}"
    then obtain i where d: "d = a ^ i mod n" by blast
    have "coprime (a ^ i) n" using unit by simp
    then have "coprime d n" using coprime_mod_left_iff [of n "a ^ i"] assms(1) unfolding d by linarith
    moreover have "d \<noteq> 0"
    proof
      assume "d = 0"
      then show False using \<open>coprime d n\<close> assms(1) by simp
    qed
    moreover have "d < n" using d assms(1) by simp
    ultimately show "d \<in> {d. 0 < d \<and> d < n \<and> coprime d n}" by simp
  qed
  then have sub: "(\<lambda>i. a ^ i mod n) ` {..<m} \<subseteq> {1..<n}" by auto
  have "card ((\<lambda>i. a ^ i mod n) ` {..<m}) = card {1..<n}" using card_image [OF inj] by (simp add: m_def)
  then have "(\<lambda>i. a ^ i mod n) ` {..<m} = {1..<n}" by (rule card_subset_eq [OF finite_atLeastLessThan sub])
  then have "{1..<n} \<subseteq> {d. 0 < d \<and> d < n \<and> coprime d n}" using units by blast
  then show ?thesis using assms(1) by (auto simp: is_prime_def subset_iff)
qed

lemma lucas_run:
  assumes "1 < n" and "prod_list qs = n - 1" and "list_all is_prime (remdups qs)" and "powmod a (n - 1) n = 1"
    and "list_all (\<lambda>q. powmod a ((n - 1) div q) n \<noteq> 1) (remdups qs)"
  shows "is_prime n"
  by (rule lucas [of n qs a]) (use assms in \<open>auto simp: list_all_iff powmod_eq\<close>)

section \<open>The table\<close>

named_theorems prime_table \<open>numbers that are prime\<close>

lemma prime_2 [prime_table]: "is_prime 2"
proof -
  have "d = 1" if "0 < d" "d < 2" for d :: nat using that by linarith
  then show ?thesis by (auto simp: is_prime_def)
qed

lemma prime_3 [prime_table]: "is_prime 3"
  by (rule lucas_run [of 3 "[2]" 2]) (simp_all add: prime_table powmod_run)

lemma prime_5 [prime_table]: "is_prime 5"
  by (rule lucas_run [of 5 "[2, 2]" 2]) (simp_all add: prime_table powmod_run)

lemma prime_7 [prime_table]: "is_prime 7"
  by (rule lucas_run [of 7 "[2, 3]" 3]) (simp_all add: prime_table powmod_run)

lemma prime_11 [prime_table]: "is_prime 11"
  by (rule lucas_run [of 11 "[2, 5]" 2]) (simp_all add: prime_table powmod_run)

lemma prime_13 [prime_table]: "is_prime 13"
  by (rule lucas_run [of 13 "[2, 2, 3]" 2]) (simp_all add: prime_table powmod_run)

lemma prime_17 [prime_table]: "is_prime 17"
  by (rule lucas_run [of 17 "[2, 2, 2, 2]" 3]) (simp_all add: prime_table powmod_run)

lemma prime_19 [prime_table]: "is_prime 19"
  by (rule lucas_run [of 19 "[2, 3, 3]" 2]) (simp_all add: prime_table powmod_run)

lemma prime_23 [prime_table]: "is_prime 23"
  by (rule lucas_run [of 23 "[2, 11]" 5]) (simp_all add: prime_table powmod_run)

lemma prime_31 [prime_table]: "is_prime 31"
  by (rule lucas_run [of 31 "[2, 3, 5]" 3]) (simp_all add: prime_table powmod_run)

lemma prime_41 [prime_table]: "is_prime 41"
  by (rule lucas_run [of 41 "[2, 2, 2, 5]" 6]) (simp_all add: prime_table powmod_run)

lemma prime_43 [prime_table]: "is_prime 43"
  by (rule lucas_run [of 43 "[2, 3, 7]" 3]) (simp_all add: prime_table powmod_run)

lemma prime_47 [prime_table]: "is_prime 47"
  by (rule lucas_run [of 47 "[2, 23]" 5]) (simp_all add: prime_table powmod_run)

lemma prime_53 [prime_table]: "is_prime 53"
  by (rule lucas_run [of 53 "[2, 2, 13]" 2]) (simp_all add: prime_table powmod_run)

lemma prime_61 [prime_table]: "is_prime 61"
  by (rule lucas_run [of 61 "[2, 2, 3, 5]" 2]) (simp_all add: prime_table powmod_run)

lemma prime_67 [prime_table]: "is_prime 67"
  by (rule lucas_run [of 67 "[2, 3, 11]" 2]) (simp_all add: prime_table powmod_run)

lemma prime_71 [prime_table]: "is_prime 71"
  by (rule lucas_run [of 71 "[2, 5, 7]" 7]) (simp_all add: prime_table powmod_run)

lemma prime_83 [prime_table]: "is_prime 83"
  by (rule lucas_run [of 83 "[2, 41]" 2]) (simp_all add: prime_table powmod_run)

lemma prime_89 [prime_table]: "is_prime 89"
  by (rule lucas_run [of 89 "[2, 2, 2, 11]" 3]) (simp_all add: prime_table powmod_run)

lemma prime_97 [prime_table]: "is_prime 97"
  by (rule lucas_run [of 97 "[2, 2, 2, 2, 2, 3]" 5]) (simp_all add: prime_table powmod_run)

lemma prime_103 [prime_table]: "is_prime 103"
  by (rule lucas_run [of 103 "[2, 3, 17]" 5]) (simp_all add: prime_table powmod_run)

lemma prime_107 [prime_table]: "is_prime 107"
  by (rule lucas_run [of 107 "[2, 53]" 2]) (simp_all add: prime_table powmod_run)

lemma prime_127 [prime_table]: "is_prime 127"
  by (rule lucas_run [of 127 "[2, 3, 3, 7]" 3]) (simp_all add: prime_table powmod_run)

lemma prime_139 [prime_table]: "is_prime 139"
  by (rule lucas_run [of 139 "[2, 3, 23]" 2]) (simp_all add: prime_table powmod_run)

lemma prime_163 [prime_table]: "is_prime 163"
  by (rule lucas_run [of 163 "[2, 3, 3, 3, 3]" 2]) (simp_all add: prime_table powmod_run)

lemma prime_167 [prime_table]: "is_prime 167"
  by (rule lucas_run [of 167 "[2, 83]" 5]) (simp_all add: prime_table powmod_run)

lemma prime_197 [prime_table]: "is_prime 197"
  by (rule lucas_run [of 197 "[2, 2, 7, 7]" 2]) (simp_all add: prime_table powmod_run)

lemma prime_199 [prime_table]: "is_prime 199"
  by (rule lucas_run [of 199 "[2, 3, 3, 11]" 3]) (simp_all add: prime_table powmod_run)

lemma prime_239 [prime_table]: "is_prime 239"
  by (rule lucas_run [of 239 "[2, 7, 17]" 7]) (simp_all add: prime_table powmod_run)

lemma prime_307 [prime_table]: "is_prime 307"
  by (rule lucas_run [of 307 "[2, 3, 3, 17]" 5]) (simp_all add: prime_table powmod_run)

lemma prime_313 [prime_table]: "is_prime 313"
  by (rule lucas_run [of 313 "[2, 2, 2, 3, 13]" 10]) (simp_all add: prime_table powmod_run)

lemma prime_389 [prime_table]: "is_prime 389"
  by (rule lucas_run [of 389 "[2, 2, 97]" 2]) (simp_all add: prime_table powmod_run)

lemma prime_397 [prime_table]: "is_prime 397"
  by (rule lucas_run [of 397 "[2, 2, 3, 3, 11]" 5]) (simp_all add: prime_table powmod_run)

lemma prime_617 [prime_table]: "is_prime 617"
  by (rule lucas_run [of 617 "[2, 2, 2, 7, 11]" 3]) (simp_all add: prime_table powmod_run)

lemma prime_643 [prime_table]: "is_prime 643"
  by (rule lucas_run [of 643 "[2, 3, 107]" 11]) (simp_all add: prime_table powmod_run)

lemma prime_797 [prime_table]: "is_prime 797"
  by (rule lucas_run [of 797 "[2, 2, 199]" 2]) (simp_all add: prime_table powmod_run)

lemma prime_1229 [prime_table]: "is_prime 1229"
  by (rule lucas_run [of 1229 "[2, 2, 307]" 2]) (simp_all add: prime_table powmod_run)

lemma prime_1453 [prime_table]: "is_prime 1453"
  by (rule lucas_run [of 1453 "[2, 2, 3, 11, 11]" 2]) (simp_all add: prime_table powmod_run)

lemma prime_1597 [prime_table]: "is_prime 1597"
  by (rule lucas_run [of 1597 "[2, 2, 3, 7, 19]" 11]) (simp_all add: prime_table powmod_run)

lemma prime_1601 [prime_table]: "is_prime 1601"
  by (rule lucas_run [of 1601 "[2, 2, 2, 2, 2, 2, 5, 5]" 3]) (simp_all add: prime_table powmod_run)

lemma prime_2143 [prime_table]: "is_prime 2143"
  by (rule lucas_run [of 2143 "[2, 3, 3, 7, 17]" 3]) (simp_all add: prime_table powmod_run)

lemma prime_3203 [prime_table]: "is_prime 3203"
  by (rule lucas_run [of 3203 "[2, 1601]" 2]) (simp_all add: prime_table powmod_run)

lemma prime_5081 [prime_table]: "is_prime 5081"
  by (rule lucas_run [of 5081 "[2, 2, 2, 5, 127]" 3]) (simp_all add: prime_table powmod_run)

lemma prime_6421 [prime_table]: "is_prime 6421"
  by (rule lucas_run [of 6421 "[2, 2, 3, 5, 107]" 6]) (simp_all add: prime_table powmod_run)

lemma prime_8573 [prime_table]: "is_prime 8573"
  by (rule lucas_run [of 8573 "[2, 2, 2143]" 2]) (simp_all add: prime_table powmod_run)

lemma prime_12853 [prime_table]: "is_prime 12853"
  by (rule lucas_run [of 12853 "[2, 2, 3, 3, 3, 7, 17]" 5]) (simp_all add: prime_table powmod_run)

lemma prime_21661 [prime_table]: "is_prime 21661"
  by (rule lucas_run [of 21661 "[2, 2, 3, 5, 19, 19]" 2]) (simp_all add: prime_table powmod_run)

lemma prime_22073 [prime_table]: "is_prime 22073"
  by (rule lucas_run [of 22073 "[2, 2, 2, 31, 89]" 3]) (simp_all add: prime_table powmod_run)

lemma prime_25717 [prime_table]: "is_prime 25717"
  by (rule lucas_run [of 25717 "[2, 2, 3, 2143]" 2]) (simp_all add: prime_table powmod_run)

lemma prime_51437 [prime_table]: "is_prime 51437"
  by (rule lucas_run [of 51437 "[2, 2, 7, 11, 167]" 2]) (simp_all add: prime_table powmod_run)

lemma prime_59341 [prime_table]: "is_prime 59341"
  by (rule lucas_run [of 59341 "[2, 2, 3, 5, 23, 43]" 14]) (simp_all add: prime_table powmod_run)

lemma prime_102877 [prime_table]: "is_prime 102877"
  by (rule lucas_run [of 102877 "[2, 2, 3, 8573]" 2]) (simp_all add: prime_table powmod_run)

lemma prime_102881 [prime_table]: "is_prime 102881"
  by (rule lucas_run [of 102881 "[2, 2, 2, 2, 2, 5, 643]" 3]) (simp_all add: prime_table powmod_run)

lemma prime_205759 [prime_table]: "is_prime 205759"
  by (rule lucas_run [of 205759 "[2, 3, 3, 7, 23, 71]" 11]) (simp_all add: prime_table powmod_run)

lemma prime_205763 [prime_table]: "is_prime 205763"
  by (rule lucas_run [of 205763 "[2, 102881]" 2]) (simp_all add: prime_table powmod_run)

lemma prime_411527 [prime_table]: "is_prime 411527"
  by (rule lucas_run [of 411527 "[2, 205763]" 5]) (simp_all add: prime_table powmod_run)

lemma prime_548749 [prime_table]: "is_prime 548749"
  by (rule lucas_run [of 548749 "[2, 2, 3, 3, 3, 5081]" 2]) (simp_all add: prime_table powmod_run)

lemma prime_823117 [prime_table]: "is_prime 823117"
  by (rule lucas_run [of 823117 "[2, 2, 3, 7, 41, 239]" 5]) (simp_all add: prime_table powmod_run)

lemma prime_1029157 [prime_table]: "is_prime 1029157"
  by (rule lucas_run [of 1029157 "[2, 2, 3, 139, 617]" 2]) (simp_all add: prime_table powmod_run)

lemma prime_1646237 [prime_table]: "is_prime 1646237"
  by (rule lucas_run [of 1646237 "[2, 2, 19, 21661]" 3]) (simp_all add: prime_table powmod_run)

lemma prime_3292489 [prime_table]: "is_prime 3292489"
  by (rule lucas_run [of 3292489 "[2, 2, 2, 3, 3, 3, 3, 5081]" 13]) (simp_all add: prime_table powmod_run)

lemma prime_6584983 [prime_table]: "is_prime 6584983"
  by (rule lucas_run [of 6584983 "[2, 3, 19, 47, 1229]" 3]) (simp_all add: prime_table powmod_run)

lemma prime_13169977 [prime_table]: "is_prime 13169977"
  by (rule lucas_run [of 13169977 "[2, 2, 2, 3, 548749]" 10]) (simp_all add: prime_table powmod_run)

lemma prime_26339969 [prime_table]: "is_prime 26339969"
  by (rule lucas_run [of 26339969 "[2, 2, 2, 2, 2, 2, 2, 23, 23, 389]" 3]) (simp_all add: prime_table powmod_run)

lemma prime_52679969 [prime_table]: "is_prime 52679969"
  by (rule lucas_run [of 52679969 "[2, 2, 2, 2, 2, 11, 103, 1453]" 6]) (simp_all add: prime_table powmod_run)

lemma prime_105359939 [prime_table]: "is_prime 105359939"
  by (rule lucas_run [of 105359939 "[2, 52679969]" 2]) (simp_all add: prime_table powmod_run)

lemma prime_210719881 [prime_table]: "is_prime 210719881"
  by (rule lucas_run [of 210719881 "[2, 2, 2, 3, 3, 3, 3, 3, 5, 7, 19, 163]" 13]) (simp_all add: prime_table powmod_run)

lemma prime_421439783 [prime_table]: "is_prime 421439783"
  by (rule lucas_run [of 421439783 "[2, 53, 67, 59341]" 5]) (simp_all add: prime_table powmod_run)

lemma prime_842879579 [prime_table]: "is_prime 842879579"
  by (rule lucas_run [of 842879579 "[2, 61, 313, 22073]" 2]) (simp_all add: prime_table powmod_run)

lemma prime_1685759167 [prime_table]: "is_prime 1685759167"
  by (rule lucas_run [of 1685759167 "[2, 3, 3, 7, 13, 1029157]" 6]) (simp_all add: prime_table powmod_run)

lemma PRIMES_prime: "n \<in> set PRIMES \<Longrightarrow> n \<noteq> 0 \<Longrightarrow> is_prime n"
  by (auto simp: PRIMES_def prime_table)

end
