(* ===== verification/Hashtable_Capacity.thy ===== *)
theory Hashtable_Capacity
  imports Hashtable_Primes Complex_Main
begin

text \<open>The capacity of a table in spite of rounding: below the number of buckets, and larger after growing.\<close>

section \<open>Rounding\<close>

lemma round_even_le: "0 < q \<Longrightarrow> p \<le> M * q \<Longrightarrow> round_even p q \<le> M"
proof -
  assume q: "0 < q" and p: "p \<le> M * q"
  then have "p div q \<le> M" by (metis div_le_mono div_mult_self_is_m)
  moreover have "p mod q = 0" if "p div q = M"
  proof -
    have "p = M * q + p mod q" using that div_mult_mod_eq [of p q] by metis
    then show ?thesis using p by linarith
  qed
  ultimately show ?thesis using q by (cases "p div q = M") (auto simp: round_even_def Let_def)
qed

lemma round_even_ge: "p div q \<le> round_even p q"
  by (simp add: round_even_def Let_def)

declare exp_up.simps [simp del] exp_down.simps [simp del]

lemma exp_up_range: "0 < q \<Longrightarrow> q * 2 ^ 24 \<le> p \<Longrightarrow> p < q * 2 ^ exp_up p q * 2 ^ 24 \<and> q * 2 ^ exp_up p q * 2 ^ 23 \<le> p"
proof (induction p q rule: exp_up.induct)
  case (1 p q)
  have step: "exp_up p q = Suc (exp_up p (2 * q))" using 1(2,3) by (simp add: exp_up.simps [of p q])
  show ?case
  proof (cases "2 * q * 2 ^ 24 \<le> p")
    case True
    then show ?thesis using 1(1) 1(2,3) step by (simp add: mult.assoc mult.left_commute)
  next
    case False
    then have "exp_up p (2 * q) = 0" by (simp add: exp_up.simps [of p "2 * q"])
    then show ?thesis using step False 1(3) by simp
  qed
qed

lemma exp_down_range: "0 < p \<Longrightarrow> p < q * 2 ^ 24 \<Longrightarrow> p * 2 ^ exp_down p q < q * 2 ^ 24 \<and> q * 2 ^ 23 \<le> p * 2 ^ exp_down p q"
proof (induction p q rule: exp_down.induct)
  case (1 p q)
  show ?case
  proof (cases "q * 2 ^ 23 \<le> p")
    case True
    then show ?thesis using 1(3) by (simp add: exp_down.simps [of p q])
  next
    case False
    then have "exp_down p q = Suc (exp_down (2 * p) q)" using 1(2) by (simp add: exp_down.simps [of p q])
    then show ?thesis using 1(1) 1(2) False by (simp add: mult.assoc mult.left_commute)
  qed
qed

text \<open>The quotient before rounding has at least 24 bits, so that rounding loses less than a sixteenth.\<close>

lemma round_even_near: "0 < q \<Longrightarrow> q * 2 ^ 23 \<le> p \<Longrightarrow> 15 * p \<le> 16 * (round_even p q * q)"
proof -
  assume q: "0 < q" and p: "q * 2 ^ 23 \<le> p"
  have "p = p div q * q + p mod q" by simp
  moreover have "p mod q < q" using q by simp
  moreover have "p div q * q \<le> round_even p q * q" using round_even_ge [of p q] by (rule mult_right_mono) simp
  moreover have "16 * q \<le> p" using p by simp
  ultimately show ?thesis by linarith
qed

lemma to_float_den: "0 < snd (to_float p q)"
  by (simp add: to_float_def)

lemma to_float_near: "0 < q \<Longrightarrow> 15 * (p * snd (to_float p q)) \<le> 16 * (fst (to_float p q) * q)"
proof -
  assume q: "0 < q"
  show ?thesis
  proof (cases "p < q * 2 ^ 24")
    case small: True
    show ?thesis
    proof (cases "p = 0")
      case False
      have "q * 2 ^ 23 \<le> p * 2 ^ exp_down p q" using exp_down_range [of p q] False small by simp
      then show ?thesis using round_even_near [OF q, of "p * 2 ^ exp_down p q"] small by (simp add: to_float_def)
    qed (simp add: to_float_def)
  next
    case False
    have "q * 2 ^ exp_up p q * 2 ^ 23 \<le> p" using exp_up_range [OF q, of p] False by simp
    then show ?thesis using round_even_near [of "q * 2 ^ exp_up p q" p] q False by (simp add: to_float_def mult.assoc mult.commute mult.left_commute)
  qed
qed

text \<open>A number with at most 24 bits, perhaps shifted, is not passed.\<close>

lemma to_float_le:
  assumes "0 < q" and "p \<le> m * 2 ^ f * q" and "m \<le> 2 ^ 24"
  shows "fst (to_float p q) \<le> m * 2 ^ f * snd (to_float p q)"
proof (cases "p < q * 2 ^ 24")
  case True
  have "round_even (p * 2 ^ exp_down p q) q \<le> m * 2 ^ f * 2 ^ exp_down p q"
    by (rule round_even_le [OF assms(1)]) (use assms(2) in simp)
  then show ?thesis using True by (simp add: to_float_def)
next
  case False
  define e where "e = exp_up p q"
  have e: "p < q * 2 ^ e * 2 ^ 24" "q * 2 ^ e * 2 ^ 23 \<le> p" using exp_up_range [OF assms(1), of p] False by (simp_all add: e_def)
  have "q * 2 ^ (e + 23) \<le> q * (m * 2 ^ f)"
    using order_trans [OF e(2) assms(2)] by (simp only: power_add mult.assoc mult.commute mult.left_commute)
  then have big: "2 ^ (e + 23) \<le> m * 2 ^ f" using assms(1) by (metis mult_le_cancel1)
  have "2 ^ e dvd m * 2 ^ f"
  proof (cases "m = 2 ^ 24")
    case True
    then have "2 ^ (e + 23) \<le> (2 :: nat) ^ (24 + f)" using big by (simp add: power_add)
    then have "e + 23 \<le> 24 + f" by simp
    then have "2 ^ e dvd (2 :: nat) ^ (24 + f)" by (simp add: le_imp_power_dvd)
    then show ?thesis using True by (simp add: power_add)
  next
    case False
    then have "m * 2 ^ f < 2 ^ 24 * 2 ^ f" using assms(3) by simp
    then have "2 ^ (e + 23) < (2 :: nat) ^ (24 + f)" using order_le_less_trans [OF big] by (simp only: power_add)
    then have "e + 23 < 24 + f" by (simp only: power_strict_increasing_iff one_less_numeral_iff semiring_norm(76))
    then show ?thesis by (simp add: le_imp_power_dvd dvd_mult)
  qed
  then obtain c where c: "m * 2 ^ f = 2 ^ e * c" by blast
  have "round_even p (q * 2 ^ e) \<le> c"
  proof (rule round_even_le)
    show "p \<le> c * (q * 2 ^ e)" using assms(2) unfolding c by (simp add: mult.assoc mult.commute mult.left_commute)
  qed (use assms(1) in simp)
  then show ?thesis using False by (simp add: to_float_def e_def [symmetric] c mult.commute)
qed

section \<open>Capacity\<close>

lemma ceilf_le: "fst x \<le> N * snd x \<Longrightarrow> 0 < snd x \<Longrightarrow> ceilf x \<le> N"
proof -
  assume "fst x \<le> N * snd x" "0 < snd x"
  then have "fst x + snd x - 1 < Suc N * snd x" by simp
  then have "(fst x + snd x - 1) div snd x < Suc N" by (rule less_mult_imp_div_less)
  then show ?thesis by (simp add: ceilf_def)
qed

lemma ceilf_ge: "0 < snd x \<Longrightarrow> fst x \<le> ceilf x * snd x"
proof -
  assume s: "0 < snd x"
  have "fst x + snd x - 1 = ceilf x * snd x + (fst x + snd x - 1) mod snd x" by (simp add: ceilf_def)
  moreover have "(fst x + snd x - 1) mod snd x < snd x" using s by simp
  ultimately show ?thesis by linarith
qed

lemma to_float_nat: "p < 2 ^ 24 \<Longrightarrow> fst (to_float p 1) = p * snd (to_float p 1)"
  by (simp add: to_float_def round_even_def)

lemma to_float_big: "2 ^ 24 \<le> p \<Longrightarrow> snd (to_float p 1) = 1"
  by (simp add: to_float_def)

text \<open>A natural number as a float: at most 24 bits, shifted.\<close>

lemma to_float_bits: "\<exists>m f. m \<le> 2 ^ 24 \<and> fst (to_float p 1) = m * 2 ^ f * snd (to_float p 1)"
proof (cases "p < 2 ^ 24")
  case True
  then have "p \<le> 2 ^ 24 \<and> fst (to_float p 1) = p * 2 ^ 0 * snd (to_float p 1)" using to_float_nat by simp
  then show ?thesis by blast
next
  case False
  define e where "e = exp_up p 1"
  have "p < 2 ^ e * 2 ^ 24" using exp_up_range [of 1 p] False by (simp add: e_def)
  then have "round_even p (2 ^ e) \<le> 2 ^ 24" by (intro round_even_le) (simp_all add: mult.commute)
  then show ?thesis using False by (intro exI [of _ "round_even p (2 ^ e)"] exI [of _ e]) (simp add: to_float_def e_def)
qed

lemma to_float_primes: "n \<in> set PRIMES \<Longrightarrow> n \<noteq> 0 \<Longrightarrow> fst (to_float (n - 1) 1) \<le> (n - 1) * snd (to_float (n - 1) 1)"
proof -
  assume n: "n \<in> set PRIMES" "n \<noteq> 0"
  show ?thesis
  proof (cases "n \<le> 13169977")
    case True
    then show ?thesis using to_float_nat [of "n - 1"] by simp
  next
    case False
    then have "n \<in> {26339969, 52679969, 105359939, 210719881, 421439783, 842879579, 1685759167}" using n by (auto simp: PRIMES_def)
    then show ?thesis by (elim insertE) (simp_all add: to_float_def exp_up.simps round_even_def)
  qed
qed

definition load_ok :: "float32 \<Rightarrow> bool" where
  "load_ok lf \<longleftrightarrow> 0 < fst lf \<and> fst lf \<le> snd lf"

lemma capacity_less:
  assumes "n \<in> set PRIMES" and "n \<noteq> 0" and "load_ok lf"
  shows "ceilf (float_times (to_float (n - 1) 1) lf) < n"
proof -
  define x where "x = to_float (n - 1) 1"
  obtain m f where mf: "m \<le> 2 ^ 24" "fst x = m * 2 ^ f * snd x" using to_float_bits [of "n - 1"] unfolding x_def by blast
  have den: "0 < snd x" "0 < snd lf" using to_float_den assms(3) by (auto simp: x_def load_ok_def)
  have "m * 2 ^ f * snd x \<le> (n - 1) * snd x" using to_float_primes [OF assms(1,2)] mf(2) by (simp add: x_def)
  then have le: "m * 2 ^ f \<le> n - 1" using den(1) by simp
  have "fst (to_float (fst x * fst lf) (snd x * snd lf)) \<le> m * 2 ^ f * snd (to_float (fst x * fst lf) (snd x * snd lf))"
  proof (rule to_float_le)
    show "fst x * fst lf \<le> m * 2 ^ f * (snd x * snd lf)" using assms(3) unfolding mf(2) by (simp add: load_ok_def mult.assoc)
  qed (use den mf in simp_all)
  then have "ceilf (float_times x lf) \<le> m * 2 ^ f" unfolding float_times_def by (rule ceilf_le) (rule to_float_den)
  then show ?thesis using le assms(2) by (simp add: x_def)
qed

definition fval :: "float32 \<Rightarrow> real" where
  "fval x = real (fst x) / real (snd x)"

lemma fval_near: "0 < q \<Longrightarrow> 15 / 16 * (real p / real q) \<le> fval (to_float p q)"
proof -
  assume q: "0 < q"
  have "real (15 * (p * snd (to_float p q))) \<le> real (16 * (fst (to_float p q) * q))" using to_float_near [OF q] by (simp only: of_nat_le_iff)
  then show ?thesis using q to_float_den [of p q] by (simp add: fval_def field_simps)
qed

lemma fval_ceilf: "0 < snd x \<Longrightarrow> fval x \<le> real (ceilf x)"
proof -
  assume s: "0 < snd x"
  have "real (fst x) \<le> real (ceilf x * snd x)" using ceilf_ge [OF s] by (simp only: of_nat_le_iff)
  then show ?thesis using s by (simp add: fval_def field_simps)
qed

lemma count_near: "15 * real (c + 1) \<le> 16 * real (fst (to_float (c + 1) 1) div snd (to_float (c + 1) 1))"
proof -
  define x where "x = to_float (c + 1) 1"
  have "fst x = (fst x div snd x) * snd x"
  proof (cases "c + 1 < 2 ^ 24")
    case True
    then show ?thesis using to_float_nat [of "c + 1"] by (simp add: x_def)
  next
    case False
    then show ?thesis using to_float_big [of "c + 1"] by (simp add: x_def)
  qed
  then have "fval x = real (fst x div snd x)"
    using to_float_den [of "c + 1" 1] unfolding x_def [symmetric] fval_def by (metis nonzero_mult_div_cancel_right not_gr_zero of_nat_0_eq_iff of_nat_mult)
  then show ?thesis using fval_near [of 1 "c + 1"] by (simp add: x_def)
qed

lemma next_prime_ge: "next_prime count ps = Some n \<Longrightarrow> n \<in> set ps \<and> count \<le> n"
  by (induction ps) (auto split: if_splits)

lemma capacity_near:
  assumes "determineCapacity m lf = Some (n, capacity)" and "load_ok lf"
  shows "759375 * real m \<le> 1048576 * real capacity + 57600"
proof -
  define L where "L = real (fst lf) / real (snd lf)"
  have L: "0 < L" "L \<le> 1" using assms(2) by (auto simp: L_def load_ok_def)
  define x where "x = to_float m 1"
  define y where "y = to_float (n - 1) 1"
  define c where "c = ceilf (float_over x lf)"
  have n: "fst (to_float (c + 1) 1) div snd (to_float (c + 1) 1) \<le> n" "capacity = ceilf (float_times y lf)"
    using assms(1) by (auto simp: determineCapacity_def Let_def c_def x_def y_def split: Option.bind_splits if_splits dest!: next_prime_ge)
  have "15 / 16 * real m \<le> fval x" using fval_near [of 1 m] by (simp add: x_def)
  moreover have "15 / 16 * (fval x / L) \<le> real c"
    using fval_near [of "snd x * fst lf" "fst x * snd lf"] fval_ceilf [of "float_over x lf"] to_float_den assms(2)
    by (simp add: c_def float_over_def L_def fval_def load_ok_def x_def)
  then have "15 / 16 * fval x \<le> real c * L" using L(1) by (simp add: field_simps)
  moreover have "15 * real (c + 1) \<le> 16 * real n" using count_near [of c] n(1) by linarith
  then have "15 * real (c + 1) * L \<le> 16 * real n * L" using L(1) by (intro mult_right_mono) simp_all
  then have "15 * (real c * L) + 15 * L \<le> 16 * (real n * L)" by (simp add: field_simps)
  moreover have "15 / 16 * (real n - 1) \<le> fval y" using fval_near [of 1 "n - 1"] by (simp add: y_def)
  then have "15 / 16 * (real n - 1) * L \<le> fval y * L" using L(1) by (intro mult_right_mono) simp_all
  then have "15 / 16 * (real n * L) - 15 / 16 * L \<le> fval y * L" by (simp add: field_simps)
  moreover have "15 / 16 * (fval y * L) \<le> real capacity"
    using fval_near [of "snd y * snd lf" "fst y * fst lf"] fval_ceilf [of "float_times y lf"] to_float_den assms(2)
    by (simp add: n(2) float_times_def L_def fval_def load_ok_def y_def)
  ultimately show ?thesis using L(2) by linarith
qed

lemma determine_prime:
  assumes "determineCapacity m lf = Some (n, capacity)"
  shows "n \<in> set PRIMES \<and> 5 \<le> n \<and> capacity = ceilf (float_times (to_float (n - 1) 1) lf)"
proof -
  obtain count where count: "next_prime count PRIMES = Some n" "capacity = ceilf (float_times (to_float (n - 1) 1) lf)"
    using assms by (auto simp: determineCapacity_def Let_def split: Option.bind_splits if_splits)
  then have "n \<in> set PRIMES" "count \<le> n" using next_prime_ge by blast+
  moreover have "n \<noteq> 0" using count(1) \<open>count \<le> n\<close> by (auto simp: PRIMES_def split: if_splits)
  ultimately show ?thesis using count(2) by (auto simp: PRIMES_def)
qed

text \<open>What \<open>determineCapacity\<close> gives: a prime number of buckets, one of which stays free.\<close>

lemma determine_ok:
  assumes "determineCapacity m lf = Some (n, capacity)" and "load_ok lf"
  shows "is_prime n \<and> 5 \<le> n \<and> 0 < capacity \<and> capacity < n"
proof -
  note n = determine_prime [OF assms(1)]
  have "capacity < n" using capacity_less [of n lf] n assms(2) by auto
  moreover have "is_prime n" using PRIMES_prime n by auto
  moreover have "0 < capacity"
  proof -
    define y where "y = to_float (n - 1) 1"
    have "0 < fval y" using fval_near [of 1 "n - 1"] n by (simp add: y_def)
    then have "0 < fst y" by (auto simp: fval_def intro: gr0I)
    have "0 < real (fst y * fst lf) / real (snd y * snd lf)"
      using \<open>0 < fst y\<close> assms(2) to_float_den [of "n - 1" 1] by (simp add: load_ok_def y_def)
    moreover have "15 / 16 * (real (fst y * fst lf) / real (snd y * snd lf)) \<le> fval (float_times y lf)"
      using fval_near [of "snd y * snd lf" "fst y * fst lf"] assms(2) to_float_den [of "n - 1" 1] by (simp add: float_times_def load_ok_def y_def)
    ultimately have "0 < fval (float_times y lf)" by linarith
    then have "0 < real capacity" using fval_ceilf [of "float_times y lf"] n to_float_den by (simp add: y_def float_times_def)
    then show ?thesis by simp
  qed
  ultimately show ?thesis using n by simp
qed

lemma capacity_grows:
  assumes "determineCapacity (max (c * 2) s) lf = Some (n, capacity)" and "load_ok lf" and "0 < c"
  shows "c < capacity"
proof -
  have "759375 * (2 * real c) \<le> 759375 * real (max (c * 2) s)" by simp
  then have "759375 * (2 * real c) \<le> 1048576 * real capacity + 57600" using capacity_near [OF assms(1,2)] by linarith
  moreover have "1 \<le> real c" using assms(3) by simp
  ultimately have "real c < real capacity" by linarith
  then show ?thesis by simp
qed

end
