(* ===== verification/Hashtable_Chain.thy ===== *)
theory Hashtable_Chain
  imports Hashtable_Capacity "HOL-Library.Multiset"
begin

text \<open>
  Arrays of buckets: the chain of a hash code, the invariant that every bucket before an entry on its chain has the collision flag, and what seeking, finding and placing do to the
  entries.
\<close>

unbundle bit_operations_syntax

section \<open>Cookies\<close>

definition hash_in :: "'e bucket \<Rightarrow> u32" where
  "hash_in b = cookie b AND HASH_MASK"

definition trimmed :: "u32 \<Rightarrow> bool" where
  "trimmed h \<longleftrightarrow> h AND HASH_MASK = h"

definition mark :: "'e bucket \<Rightarrow> 'e bucket" where
  "mark b = b\<lparr>cookie := cookie b OR COLLISION\<rparr>"

lemma flag_bits: "present b \<longleftrightarrow> bit (cookie b) 30" "collided b \<longleftrightarrow> bit (cookie b) 31"
  using and_exp_eq_0_iff_not_bit [of "cookie b" 30] and_exp_eq_0_iff_not_bit [of "cookie b" 31] by (simp_all add: present_def collided_def)

lemma mask_bits: "(HASH_MASK :: u32) = mask 30"
  by (simp add: mask_eq_exp_minus_1)

lemma flag_positions [simp]: "bit (COLLISION :: u32) n \<longleftrightarrow> n = 31" "bit (PRESENT :: u32) n \<longleftrightarrow> n = 30"
proof -
  have "bit (2 ^ 31 :: u32) n \<longleftrightarrow> n = 31" "bit (2 ^ 30 :: u32) n \<longleftrightarrow> n = 30" by (auto simp only: bit_exp_iff possible_bit_word) simp_all
  then show "bit (COLLISION :: u32) n \<longleftrightarrow> n = 31" "bit (PRESENT :: u32) n \<longleftrightarrow> n = 30" by simp_all
qed

lemma flag_positions_int [simp]: "bit (0x80000000 :: int) n \<longleftrightarrow> n = 31" "bit (0x40000000 :: int) n \<longleftrightarrow> n = 30"
proof -
  have "bit (2 ^ 31 :: int) n \<longleftrightarrow> n = 31" "bit (2 ^ 30 :: int) n \<longleftrightarrow> n = 30" by (auto simp only: bit_exp_iff possible_bit_int)
  then show "bit (0x80000000 :: int) n \<longleftrightarrow> n = 31" "bit (0x40000000 :: int) n \<longleftrightarrow> n = 30" by simp_all
qed

lemma trimmed_bits: "trimmed h \<longleftrightarrow> (\<forall>i. bit h i \<longrightarrow> i < 30)"
proof
  assume "trimmed h"
  then have "bit h i \<longleftrightarrow> bit (h AND mask 30) i" for i by (simp add: trimmed_def mask_bits)
  then show "\<forall>i. bit h i \<longrightarrow> i < 30" by (metis bit_and_iff bit_mask_iff)
next
  assume "\<forall>i. bit h i \<longrightarrow> i < 30"
  then show "trimmed h" unfolding trimmed_def mask_bits by (intro bit_word_eqI) (auto simp: bit_simps)
qed

lemma trimmed_trimHash [simp]: "trimmed (trimHash h)"
  unfolding trimmed_bits trimHash_def mask_bits by (auto simp: bit_simps dest: bit_imp_le_length)

lemma trimmed_hash_in [simp]: "trimmed (hash_in b)"
  unfolding trimmed_def hash_in_def by (simp add: and.assoc)

lemma mark_simps [simp]:
  "present (mark b) = present b" "collided (mark b)" "hash_in (mark b) = hash_in b" "entry (mark b) = entry b" "mark (mark b) = mark b"
proof -
  show "present (mark b) = present b" "collided (mark b)" unfolding flag_bits mark_def mask_bits by (auto simp: bit_simps)
  show "hash_in (mark b) = hash_in b" unfolding hash_in_def mark_def mask_bits by (intro bit_word_eqI) (auto simp: bit_simps)
qed (simp_all add: mark_def or.assoc)

lemma placed_simps:
  fixes b :: "'e bucket" and x :: "'e option"
  assumes "trimmed h"
  defines "b' \<equiv> \<lparr>cookie = (cookie b AND COLLISION) OR PRESENT OR h, entry = x\<rparr>"
  shows "present b'" and "collided b' = collided b" and "hash_in b' = h"
proof -
  have h: "\<not> bit h 30" "\<not> bit h 31" using assms(1) unfolding trimmed_bits by auto
  show "present b'" "collided b' = collided b" unfolding flag_bits b'_def mask_bits using h by (auto simp: bit_simps)
  show "hash_in b' = h" using assms(1) unfolding hash_in_def b'_def mask_bits trimmed_bits by (intro bit_word_eqI) (auto simp: bit_simps)
qed

lemma rehashed_simps:
  fixes x :: "'e option"
  assumes "trimmed h"
  defines "b' \<equiv> \<lparr>cookie = PRESENT OR h, entry = x\<rparr>"
  shows "present b'" and "\<not> collided b'" and "hash_in b' = h"
  using placed_simps [OF assms(1), of "\<lparr>cookie = 0, entry = x\<rparr>" x] by (simp_all add: b'_def collided_def)

lemma removed_simps:
  fixes b :: "'e bucket" and x :: "'e option"
  defines "b' \<equiv> \<lparr>cookie = cookie b AND NOT PRESENT, entry = x\<rparr>"
  shows "\<not> present b'" and "collided b' = collided b"
  unfolding flag_bits b'_def mask_bits by (auto simp: bit_simps)

lemma empty_bucket [simp]: "\<not> present \<lparr>cookie = 0, entry = x\<rparr>" "\<not> collided \<lparr>cookie = 0, entry = x\<rparr>"
  by (simp_all add: present_def collided_def)

section \<open>Chains\<close>

definition chain :: "u32 \<Rightarrow> nat \<Rightarrow> nat \<Rightarrow> nat" where
  "chain h n k = (chainStart h n + k * chainIncrement h n) mod n"

lemma chain_0: "chain h n 0 = chainStart h n"
  by (simp add: chain_def chainStart_def)

lemma chain_Suc: "chain h n (Suc k) = chainSeek (chain h n k) (chainIncrement h n) n"
  by (simp add: chain_def chainSeek_def mod_simps add.commute add.left_commute)

lemma chain_less: "0 < n \<Longrightarrow> chain h n k < n"
  by (simp add: chain_def)

lemma increment_range: "5 \<le> n \<Longrightarrow> 0 < chainIncrement h n \<and> chainIncrement h n < n"
proof -
  assume "5 \<le> n"
  then have "unat (drop_bit 7 h OR push_bit 25 h) mod (n - 1) < n - 1" by simp
  then show ?thesis by (simp add: chainIncrement_def)
qed

lemma chain_inj:
  assumes "is_prime n" and "5 \<le> n"
  shows "inj_on (chain h n) {..<n}"
proof -
  define c where "c = chainIncrement h n"
  have c: "coprime c n" using assms increment_range [OF assms(2), of h] by (simp add: is_prime_def c_def)
  have "chain h n i \<noteq> chain h n j" if "i < j" "j < n" for i j
  proof
    assume eq: "chain h n i = chain h n j"
    have "chainStart h n + i * c \<le> chainStart h n + j * c" using that by simp
    then have "n dvd (chainStart h n + j * c) - (chainStart h n + i * c)"
      using eq mod_eq_dvd_iff_nat [of "chainStart h n + i * c" "chainStart h n + j * c" n] by (simp add: chain_def c_def)
    then have "n dvd (j - i) * c" by (simp add: diff_mult_distrib)
    then have "n dvd j - i" using c by (simp add: coprime_dvd_mult_left_iff coprime_commute)
    then show False using that by (simp add: nat_dvd_not_less)
  qed
  then show ?thesis by (intro inj_onI) (metis lessThan_iff linorder_neqE_nat)
qed

lemma chain_onto:
  assumes "is_prime n" and "5 \<le> n" and "i < n"
  obtains k where "k < n" and "chain h n k = i"
proof -
  have "chain h n ` {..<n} \<subseteq> {..<n}" using chain_less assms(2) by auto
  moreover have "card (chain h n ` {..<n}) = card {..<n}" using card_image [OF chain_inj [OF assms(1,2)]] by simp
  ultimately have "chain h n ` {..<n} = {..<n}" by (intro card_subset_eq) simp_all
  then show thesis using assms(3) that by (metis imageE lessThan_iff)
qed

section \<open>Arrays\<close>

text \<open>\<open>hashf\<close> gives the hash code of an entry, that of its key.\<close>

definition linked_at :: "nat \<Rightarrow> 'e bucket list \<Rightarrow> nat \<Rightarrow> bool" where
  "linked_at n bs i \<longleftrightarrow> (\<exists>k<n. chain (hash_in (bs ! i)) n k = i \<and> (\<forall>j<k. collided (bs ! chain (hash_in (bs ! i)) n j)))"

definition array_ok :: "('e \<Rightarrow> u32) \<Rightarrow> nat \<Rightarrow> 'e bucket list \<Rightarrow> bool" where
  "array_ok hashf n bs \<longleftrightarrow> length bs = n \<and> is_prime n \<and> 5 \<le> n
    \<and> (\<forall>i<n. present (bs ! i) \<longrightarrow> linked_at n bs i \<and> (\<exists>e. entry (bs ! i) = Some e \<and> hash_in (bs ! i) = trimHash (hashf e)))"

definition in_use :: "'e bucket \<Rightarrow> bool" where
  "in_use b \<longleftrightarrow> present b \<or> collided b"

definition filled :: "'e bucket list \<Rightarrow> nat" where
  "filled bs = length (filter in_use bs)"

definition entries :: "'e bucket list \<Rightarrow> 'e multiset" where
  "entries bs = mset (map (the \<circ> entry) (filter present bs))"

lemma in_use_mark [simp]: "present b \<Longrightarrow> in_use (mark b) = in_use b"
  by (simp add: in_use_def)

lemma filled_less: "filled bs < length bs \<Longrightarrow> \<exists>i<length bs. \<not> in_use (bs ! i)"
  unfolding filled_def using length_filter_less [of _ bs] by (metis filter_id_conv in_set_conv_nth less_irrefl)

lemma free_on_chain:
  assumes "array_ok hashf n bs" and "filled bs < n"
  obtains k where "k < n" and "\<not> in_use (bs ! chain h n k)"
proof -
  obtain i where "i < n" "\<not> in_use (bs ! i)" using filled_less [of bs] assms by (auto simp: array_ok_def)
  then show thesis using chain_onto [of n i h] assms(1) that by (metis array_ok_def)
qed

subsection \<open>Seeking\<close>

definition mark_all :: "nat set \<Rightarrow> 'e bucket list \<Rightarrow> 'e bucket list" where
  "mark_all S bs = map (\<lambda>i. if i \<in> S then mark (bs ! i) else bs ! i) [0..<length bs]"

lemma mark_all_length [simp]: "length (mark_all S bs) = length bs"
  by (simp add: mark_all_def)

lemma mark_all_nth: "i < length bs \<Longrightarrow> mark_all S bs ! i = (if i \<in> S then mark (bs ! i) else bs ! i)"
  by (simp add: mark_all_def)

lemma mark_all_empty [simp]: "mark_all {} bs = bs"
  by (simp add: mark_all_def map_nth)

lemma mark_all_step: "i < length bs \<Longrightarrow> mark_all S (bs[i := mark (bs ! i)]) = mark_all (insert i S) bs"
  by (rule nth_equalityI) (auto simp: mark_all_nth nth_list_update)

lemma seek_chain:
  assumes "length bs = n" and "0 < n" and "k \<le> m" and "\<forall>j. k \<le> j \<and> j < m \<longrightarrow> present (bs ! chain h n j)" and "\<not> present (bs ! chain h n m)"
  shows "seek (chainIncrement h n) n bs (chain h n k) = Some (chain h n m, mark_all (chain h n ` {k..<m}) bs)"
  using assms
proof (induction "m - k" arbitrary: k bs)
  case 0
  then have "k = m" by simp
  then show ?case using 0 chain_less [of n h m] by (subst seek.simps) (simp add: bucketAt_def)
next
  case (Suc d)
  define i where "i = chain h n k"
  have k: "k < m" using Suc(2) by simp
  have i: "i < length bs" "present (bs ! i)" using Suc.prems chain_less [of n h k] k by (simp_all add: i_def)
  have "seek (chainIncrement h n) n bs i = seek (chainIncrement h n) n (bs[i := mark (bs ! i)]) (chain h n (Suc k))"
    using i by (subst seek.simps) (simp add: bucketAt_def mark_def chain_Suc i_def)
  also have "\<dots> = Some (chain h n m, mark_all (chain h n ` {Suc k..<m}) (bs[i := mark (bs ! i)]))"
  proof (rule Suc.hyps(1))
    have same: "present (bs[i := mark (bs ! i)] ! j) = present (bs ! j)" for j by (cases "j = i") (use i in simp_all)
    show "\<forall>j. Suc k \<le> j \<and> j < m \<longrightarrow> present (bs[i := mark (bs ! i)] ! chain h n j)" using Suc.prems(4) unfolding same by simp
    show "\<not> present (bs[i := mark (bs ! i)] ! chain h n m)" using Suc.prems(5) unfolding same .
  qed (use Suc k in simp_all)
  also have "mark_all (chain h n ` {Suc k..<m}) (bs[i := mark (bs ! i)]) = mark_all (chain h n ` {k..<m}) bs"
  proof -
    have "{k..<m} = insert k {Suc k..<m}" using k by auto
    then show ?thesis unfolding mark_all_step [OF i(1)] by (simp add: i_def)
  qed
  finally show ?case by (simp add: i_def)
qed

text \<open>The first bucket of a chain without an entry.\<close>

lemma seek_first:
  assumes "array_ok hashf n bs" and "filled bs < n"
  obtains m where "m < n" and "seek (chainIncrement h n) n bs (chainStart h n) = Some (chain h n m, mark_all (chain h n ` {..<m}) bs)"
    and "\<not> present (bs ! chain h n m)" and "\<forall>j<m. present (bs ! chain h n j)"
proof -
  obtain k where k: "k < n" "\<not> in_use (bs ! chain h n k)" using free_on_chain [OF assms] .
  define m where "m = (LEAST m. \<not> present (bs ! chain h n m))"
  have free: "\<not> present (bs ! chain h n k)" using k(2) by (simp add: in_use_def)
  have m: "\<not> present (bs ! chain h n m)" "m \<le> k"
    unfolding m_def using LeastI [of "\<lambda>m. \<not> present (bs ! chain h n m)", OF free] Least_le [of "\<lambda>m. \<not> present (bs ! chain h n m)", OF free] by simp_all
  have before: "present (bs ! chain h n j)" if "j < m" for j using that not_less_Least unfolding m_def by blast
  have "seek (chainIncrement h n) n bs (chain h n 0) = Some (chain h n m, mark_all (chain h n ` {0..<m}) bs)"
    using assms(1) m(1) before by (intro seek_chain) (auto simp: array_ok_def)
  then show thesis using that [of m] m before k(1) by (simp add: chain_0 lessThan_atLeast0)
qed

subsection \<open>Placing\<close>

lemma mark_all_parts:
  assumes "\<forall>i\<in>S. i < length bs \<longrightarrow> present (bs ! i)"
  shows "filled (mark_all S bs) = filled bs" and "entries (mark_all S bs) = entries bs"
    and "length (filter present (mark_all S bs)) = length (filter present bs)"
proof -
  let ?f = "\<lambda>i. if i \<in> S then mark (bs ! i) else bs ! i"
  have bs: "bs = map ((!) bs) [0..<length bs]" by (simp add: map_nth)
  have use: "filter (in_use \<circ> ?f) [0..<length bs] = filter (in_use \<circ> (!) bs) [0..<length bs]"
    by (rule filter_cong) (use assms in auto)
  show "filled (mark_all S bs) = filled bs" unfolding filled_def mark_all_def filter_map use length_map
    by (subst (2) bs) (simp only: filter_map length_map)
  have pres: "filter (present \<circ> ?f) [0..<length bs] = filter (present \<circ> (!) bs) [0..<length bs]" by (rule filter_cong) auto
  have ent: "the \<circ> entry \<circ> ?f = the \<circ> entry \<circ> (!) bs" by auto
  show "entries (mark_all S bs) = entries bs" unfolding entries_def mark_all_def filter_map pres map_map ent
    by (subst (4) bs) (simp only: filter_map map_map o_assoc)
  show "length (filter present (mark_all S bs)) = length (filter present bs)" unfolding mark_all_def filter_map pres length_map
    by (subst (2) bs) (simp only: filter_map length_map)
qed

lemma update_parts:
  assumes "i < length bs"
  shows "filled (bs[i := b]) + of_bool (in_use (bs ! i)) = filled bs + of_bool (in_use b)"
    and "entries (bs[i := b]) + (if present (bs ! i) then {#the (entry (bs ! i))#} else {#}) = entries bs + (if present b then {#the (entry b)#} else {#})"
    and "length (filter present (bs[i := b])) + of_bool (present (bs ! i)) = length (filter present bs) + of_bool (present b)"
proof -
  have bs: "bs = take i bs @ bs ! i # drop (Suc i) bs" using assms by (rule id_take_nth_drop)
  have upd: "bs[i := b] = take i bs @ b # drop (Suc i) bs" using assms by (rule upd_conv_take_nth_drop)
  show "filled (bs[i := b]) + of_bool (in_use (bs ! i)) = filled bs + of_bool (in_use b)" unfolding upd by (subst (4) bs) (simp add: filled_def)
  show "entries (bs[i := b]) + (if present (bs ! i) then {#the (entry (bs ! i))#} else {#}) = entries bs + (if present b then {#the (entry b)#} else {#})"
    unfolding upd by (subst (5) bs) (simp add: entries_def)
  show "length (filter present (bs[i := b])) + of_bool (present (bs ! i)) = length (filter present bs) + of_bool (present b)"
    unfolding upd by (subst (4) bs) simp
qed

text \<open>Flags only grow when buckets are marked, so that entries stay linked.\<close>

lemma linked_mono:
  assumes "linked_at n bs i" and "hash_in (bs' ! i) = hash_in (bs ! i)" and "0 < n" and "\<And>j. j < n \<Longrightarrow> collided (bs ! j) \<Longrightarrow> collided (bs' ! j)"
  shows "linked_at n bs' i"
  using assms unfolding linked_at_def by (metis chain_less)

lemma place_ok:
  assumes ok: "array_ok hashf n bs" and m: "m < n" "\<not> present (bs ! chain h n m)" "\<forall>j<m. present (bs ! chain h n j)"
    and b: "present b" "hash_in b = h" "entry b = Some e" "h = trimHash (hashf e)" and keeps: "collided (bs ! chain h n m) \<longrightarrow> collided b"
  defines "bs' \<equiv> (mark_all (chain h n ` {..<m}) bs)[chain h n m := b]"
  shows "array_ok hashf n bs'" and "entries bs' = entries bs + {#e#}" and "length (filter present bs') = length (filter present bs) + 1"
    and "filled bs' = filled bs + (if collided (bs ! chain h n m) then 0 else 1)"
proof -
  let ?S = "chain h n ` {..<m}" and ?i = "chain h n m"
  have n: "length bs = n" "is_prime n" "5 \<le> n" using ok by (auto simp: array_ok_def)
  have i: "?i < length bs" using chain_less [of n h m] n by simp
  have notin: "?i \<notin> ?S" using chain_inj [OF n(2,3), of h] m(1) by (auto dest!: inj_onD)
  have nth: "bs' ! j = (if j = ?i then b else if j \<in> ?S then mark (bs ! j) else bs ! j)" if "j < n" for j
    using that i n(1) by (auto simp: bs'_def nth_list_update mark_all_nth)
  have grow: "collided (bs' ! j)" if "j < n" "collided (bs ! j)" for j using that keeps by (auto simp: nth)
  have "linked_at n bs' j \<and> (\<exists>x. entry (bs' ! j) = Some x \<and> hash_in (bs' ! j) = trimHash (hashf x))" if j: "j < n" "present (bs' ! j)" for j
  proof (cases "j = ?i")
    case True
    have "collided (bs' ! chain h n l)" if "l < m" for l
    proof -
      have member: "chain h n l \<in> ?S" using that by blast
      then have "chain h n l \<noteq> ?i" using notin by metis
      then show ?thesis using member chain_less [of n h l] n by (simp add: nth)
    qed
    then have "linked_at n bs' j" unfolding linked_at_def using True b(2) m(1) nth [OF j(1)] by auto
    then show ?thesis using True b nth [OF j(1)] by simp
  next
    case False
    then have "present (bs ! j)" and same: "hash_in (bs' ! j) = hash_in (bs ! j)" "entry (bs' ! j) = entry (bs ! j)"
      using j nth [OF j(1)] by (auto split: if_splits)
    then have "linked_at n bs j \<and> (\<exists>x. entry (bs ! j) = Some x \<and> hash_in (bs ! j) = trimHash (hashf x))" using ok j(1) by (simp add: array_ok_def)
    then show ?thesis using linked_mono [of n bs j bs'] same grow n(3) by auto
  qed
  then show "array_ok hashf n bs'" using n by (simp add: array_ok_def bs'_def)
  have pres: "\<forall>j\<in>?S. j < length bs \<longrightarrow> present (bs ! j)" using m(3) by auto
  note marks = mark_all_parts [OF pres]
  have old: "mark_all ?S bs ! ?i = bs ! ?i" using i notin by (simp add: mark_all_nth)
  have len: "?i < length (mark_all ?S bs)" using i by simp
  note upd = update_parts [OF len, of b, folded bs'_def, unfolded old marks]
  show "entries bs' = entries bs + {#e#}" using upd(2) m(2) b by simp
  show "length (filter present bs') = length (filter present bs) + 1" using upd(3) m(2) b(1) by simp
  show "filled bs' = filled bs + (if collided (bs ! chain h n m) then 0 else 1)" using upd(1) m(2) b(1) by (cases "collided (bs ! ?i)") (simp_all add: in_use_def)
qed

subsection \<open>Finding\<close>

definition hit :: "('e \<Rightarrow> 'k) \<Rightarrow> 'k \<Rightarrow> u32 \<Rightarrow> 'e bucket \<Rightarrow> bool" where
  "hit getKey key h b \<longleftrightarrow> present b \<and> hash_in b = h \<and> (\<exists>e. entry b = Some e \<and> getKey e = key)"

lemma hit_linked:
  assumes "array_ok hashf n bs" and "m < n" and "hit getKey key h (bs ! chain h n m)" and "j < m"
  shows "collided (bs ! chain h n j)"
proof -
  have n: "is_prime n" "5 \<le> n" "chain h n m < n" using assms(1,2) chain_less [of n h m] by (auto simp: array_ok_def)
  have "linked_at n bs (chain h n m)" "hash_in (bs ! chain h n m) = h" using assms(1,3) n(3) by (auto simp: array_ok_def hit_def)
  then obtain k where k: "k < n" "chain h n k = chain h n m" "\<forall>j<k. collided (bs ! chain h n j)" by (auto simp: linked_at_def)
  then have "k = m" using chain_inj [OF n(1,2), of h] assms(2) by (auto dest: inj_onD)
  then show ?thesis using k(3) assms(4) by simp
qed

lemma find_loop_spec:
  assumes ok: "array_ok hashf n bs"
  shows "k < p \<Longrightarrow> p < n \<Longrightarrow> \<not> collided (bs ! chain h n p) \<Longrightarrow>
    \<exists>r. find_loop getKey key h (chainIncrement h n) n bs (chain h n k) = Some r
      \<and> (if \<exists>m. k < m \<and> m < n \<and> hit getKey key h (bs ! chain h n m)
         then \<exists>m. k < m \<and> m < n \<and> hit getKey key h (bs ! chain h n m) \<and> r = int (chain h n m) \<and> (\<forall>j. k < j \<and> j < m \<longrightarrow> \<not> hit getKey key h (bs ! chain h n j))
         else r = - 1)"
proof (induction "p - k" arbitrary: k)
  case (Suc d)
  define b where "b = bs ! chain h n (Suc k)"
  have n: "length bs = n" "5 \<le> n" and i: "chain h n (Suc k) < n" using ok chain_less [of n h "Suc k"] by (auto simp: array_ok_def)
  have full: "\<exists>e. entry b = Some e" if "present b" using that ok i by (auto simp: array_ok_def b_def)
  have step: "find_loop getKey key h (chainIncrement h n) n bs (chain h n k)
      = (if hit getKey key h b then Some (int (chain h n (Suc k))) else if \<not> collided b then Some (- 1)
         else find_loop getKey key h (chainIncrement h n) n bs (chain h n (Suc k)))"
    using i n full by (subst find_loop.simps) (auto simp: chain_Suc [symmetric] bucketAt_def b_def [symmetric] hit_def hash_in_def)
  consider "hit getKey key h b" | "\<not> hit getKey key h b" "\<not> collided b" | "\<not> hit getKey key h b" "collided b" by blast
  then show ?case
  proof cases
    case 1
    then show ?thesis unfolding step using Suc.prems by (auto simp: b_def intro!: exI [of _ "Suc k"])
  next
    case 2
    have "\<not> hit getKey key h (bs ! chain h n m)" if "k < m" "m < n" for m
    proof
      assume hit: "hit getKey key h (bs ! chain h n m)"
      then have "m \<noteq> Suc k" using 2(1) by (auto simp: b_def)
      then show False using hit_linked [OF ok that(2) hit, of "Suc k"] that(1) 2(2) by (simp add: b_def)
    qed
    then show ?thesis unfolding step using 2 by auto
  next
    case 3
    then have "Suc k \<noteq> p" using Suc.prems by (auto simp: b_def)
    then have "Suc k < p" using Suc.prems by simp
    then obtain r where r: "find_loop getKey key h (chainIncrement h n) n bs (chain h n (Suc k)) = Some r"
        "if \<exists>m. Suc k < m \<and> m < n \<and> hit getKey key h (bs ! chain h n m)
         then \<exists>m. Suc k < m \<and> m < n \<and> hit getKey key h (bs ! chain h n m) \<and> r = int (chain h n m) \<and> (\<forall>j. Suc k < j \<and> j < m \<longrightarrow> \<not> hit getKey key h (bs ! chain h n j))
         else r = - 1"
      using Suc.hyps(1) [of "Suc k"] Suc.hyps(2) Suc.prems by fastforce
    have same: "k < m \<and> m < n \<and> hit getKey key h (bs ! chain h n m) \<longleftrightarrow> Suc k < m \<and> m < n \<and> hit getKey key h (bs ! chain h n m)" for m
      using 3(1) by (cases "m = Suc k") (auto simp: b_def)
    have before: "(\<forall>j. k < j \<and> j < m \<longrightarrow> \<not> hit getKey key h (bs ! chain h n j)) \<longleftrightarrow> (\<forall>j. Suc k < j \<and> j < m \<longrightarrow> \<not> hit getKey key h (bs ! chain h n j))" for m
      using 3(1) by (metis Suc_lessD Suc_lessI b_def)
    show ?thesis unfolding step using 3 r same before by (auto split: if_splits)
  qed
qed simp

subsection \<open>Rehashing\<close>

text \<open>An array from which nothing has been removed: only buckets with entries have flags.\<close>

definition tight :: "'e bucket list \<Rightarrow> bool" where
  "tight bs \<longleftrightarrow> (\<forall>b\<in>set bs. collided b \<longrightarrow> present b)"

lemma tight_filled: "tight bs \<Longrightarrow> filled bs = length (filter present bs)"
proof -
  assume "tight bs"
  then have "filter in_use bs = filter present bs" by (intro filter_cong) (auto simp: tight_def in_use_def)
  then show ?thesis by (simp add: filled_def)
qed

lemma empty_array: "is_prime n \<Longrightarrow> 5 \<le> n \<Longrightarrow> array_ok hashf n (empty_buckets n) \<and> tight (empty_buckets n) \<and> entries (empty_buckets n :: 'e bucket list) = {#}
    \<and> filled (empty_buckets n :: 'e bucket list) = 0"
  by (auto simp: array_ok_def tight_def entries_def filled_def empty_buckets_def in_use_def)

definition carries :: "('e \<Rightarrow> u32) \<Rightarrow> 'e bucket list \<Rightarrow> bool" where
  "carries hashf bs \<longleftrightarrow> (\<forall>b\<in>set bs. present b \<longrightarrow> (\<exists>e. entry b = Some e \<and> hash_in b = trimHash (hashf e)))"

lemma array_carries: "array_ok hashf n bs \<Longrightarrow> carries hashf bs"
  by (auto simp: array_ok_def carries_def in_set_conv_nth)

lemma rehash_into_ok:
  "carries hashf bs \<Longrightarrow> array_ok hashf n new \<Longrightarrow> tight new \<Longrightarrow> filled new + length (filter present bs) < n \<Longrightarrow>
    \<exists>new1. rehash_into n bs new = Some new1 \<and> array_ok hashf n new1 \<and> tight new1 \<and> entries new1 = entries new + entries bs
      \<and> length (filter present new1) = length (filter present new) + length (filter present bs)"
proof (induction bs arbitrary: new)
  case Nil
  then show ?case by (simp add: entries_def)
next
  case (Cons b bs)
  show ?case
  proof (cases "present b")
    case False
    then show ?thesis using Cons by (auto simp: carries_def entries_def)
  next
    case True
    define h where "h = hash_in b"
    obtain e where e: "entry b = Some e" "h = trimHash (hashf e)" using Cons.prems(1) True by (auto simp: carries_def h_def)
    obtain m where m: "m < n" "seek (chainIncrement h n) n new (chainStart h n) = Some (chain h n m, mark_all (chain h n ` {..<m}) new)"
        "\<not> present (new ! chain h n m)" "\<forall>j<m. present (new ! chain h n j)"
      using seek_first [OF Cons.prems(2)] Cons.prems(4) True by (metis add_lessD1)
    define b' where "b' = \<lparr>cookie = PRESENT OR h, entry = entry b\<rparr>"
    have b': "present b'" "\<not> collided b'" "hash_in b' = h" "entry b' = Some e"
      using rehashed_simps [of h "entry b"] e by (simp_all add: b'_def h_def)
    have i: "chain h n m < length new" using Cons.prems(2) chain_less [of n h m] by (auto simp: array_ok_def)
    have free: "\<not> collided (new ! chain h n m)" using Cons.prems(3) m(3) i by (auto simp: tight_def)
    define new1 where "new1 = (mark_all (chain h n ` {..<m}) new)[chain h n m := b']"
    note placed = place_ok [OF Cons.prems(2) m(1,3,4) b'(1,3,4) e(2), folded new1_def]
    have "array_ok hashf n new1" "entries new1 = entries new + {#e#}" "length (filter present new1) = length (filter present new) + 1" "filled new1 = filled new + 1"
      using placed free by simp_all
    moreover have "tight new1"
    proof -
      have "collided x \<longrightarrow> present x" if "x \<in> set (mark_all (chain h n ` {..<m}) new)" for x
        using that Cons.prems(3) m(4) by (auto simp: mark_all_def tight_def split: if_splits)
      then show ?thesis using b' set_update_subset_insert [of "mark_all (chain h n ` {..<m}) new" "chain h n m" b'] by (auto simp: tight_def new1_def)
    qed
    ultimately obtain new2 where "rehash_into n bs new1 = Some new2" "array_ok hashf n new2" "tight new2" "entries new2 = entries new1 + entries bs"
        "length (filter present new2) = length (filter present new1) + length (filter present bs)"
      using Cons.IH [of new1] Cons.prems(1,4) True by (auto simp: carries_def)
    moreover have "rehash_into n (b # bs) new = rehash_into n bs new1"
      using True m(2) by (simp add: h_def [symmetric] hash_in_def [symmetric] new1_def b'_def)
    ultimately show ?thesis using \<open>entries new1 = entries new + {#e#}\<close> \<open>length (filter present new1) = length (filter present new) + 1\<close> True e(1)
      by (simp add: entries_def)
  qed
qed

end
