(* ===== verification/Hashtable_Share.thy ===== *)
theory Hashtable_Share
  imports Hashtable_Chain
begin

text \<open>
  Tables over shared buffers. Every operation moves one reference from the buffer that its table had to the one it has afterwards, and changes the contents of no buffer but one that it then
  has for itself.
\<close>

unbundle bit_operations_syntax

section \<open>References\<close>

definition refs_of :: "'a shared_heap \<Rightarrow> nat \<Rightarrow> nat" where
  "refs_of H a = (case sb_at H a of None \<Rightarrow> 0 | Some sb \<Rightarrow> mRefs sb)"

definition clean :: "'a shared_heap \<Rightarrow> bool" where
  "clean H \<longleftrightarrow> (\<forall>a sb. sb_at H a = Some sb \<longrightarrow> 0 < mRefs sb)"

definition moved :: "nat option \<Rightarrow> nat option \<Rightarrow> 'a shared_heap \<Rightarrow> 'a shared_heap \<Rightarrow> bool" where
  "moved from to H H' \<longleftrightarrow> clean H' \<and> (\<forall>a. refs_of H' a + of_bool (from = Some a) = refs_of H a + of_bool (to = Some a))
    \<and> (\<forall>a sb'. sb_at H' a = Some sb' \<longrightarrow> (\<exists>sb. sb_at H a = Some sb \<and> contents sb' = contents sb) \<or> (to = Some a \<and> mRefs sb' = 1))"

lemma moved_refl: "clean H \<Longrightarrow> moved x x H H"
  by (auto simp: moved_def)

lemma sb_at_update: "a < length H \<Longrightarrow> sb_at (H[a := x]) b = (if b = a then x else sb_at H b)"
  by (auto simp: sb_at_def)

lemma sb_at_alloc: "sb_at (H @ [x]) b = (if b = length H then x else sb_at H b)"
  by (auto simp: sb_at_def nth_append)

lemma sb_at_less: "sb_at H a = Some sb \<Longrightarrow> a < length H"
  by (auto simp: sb_at_def split: if_splits)

lemma refs_live: "clean H \<Longrightarrow> sb_at H a = Some sb \<longleftrightarrow> 0 < refs_of H a \<and> sb_at H a = Some sb"
  by (auto simp: refs_of_def clean_def)

lemma moved_alloc: "clean H \<Longrightarrow> moved None (Some (fst (sb_alloc xs H))) H (snd (sb_alloc xs H))"
proof -
  assume "clean H"
  moreover have "sb_at H (length H) = None" by (simp add: sb_at_def)
  ultimately show ?thesis by (auto simp: moved_def sb_alloc_def sb_at_alloc refs_of_def clean_def)
qed

lemma acquire_moved:
  assumes "clean H" and "0 < refs_of H a"
  shows "\<exists>H'. acquire a H = Some H' \<and> moved None (Some a) H H'"
proof -
  obtain sb where sb: "sb_at H a = Some sb" using assms(2) by (auto simp: refs_of_def split: option.splits)
  then have "acquire a H = Some (H[a := Some (sb\<lparr>mRefs := mRefs sb + 1\<rparr>)])" by (simp add: acquire_def)
  moreover have "moved None (Some a) H (H[a := Some (sb\<lparr>mRefs := mRefs sb + 1\<rparr>)])"
    using sb assms(1) sb_at_less [OF sb] by (auto simp: moved_def clean_def refs_of_def sb_at_update)
  ultimately show ?thesis by blast
qed

lemma release_moved:
  assumes "clean H" and "0 < refs_of H a"
  shows "\<exists>H'. releaseBuckets a H = Some H' \<and> moved (Some a) None H H'"
proof -
  obtain sb where sb: "sb_at H a = Some sb" using assms(2) by (auto simp: refs_of_def split: option.splits)
  have a: "a < length H" using sb_at_less [OF sb] .
  define H' where "H' = (if mRefs sb = 1 then H[a := None] else H[a := Some (sb\<lparr>mRefs := mRefs sb - 1\<rparr>)])"
  have "releaseBuckets a H = Some H'" using sb a by (simp add: releaseBuckets_def release_def dealloc_def H'_def sb_at_update)
  moreover have "moved (Some a) None H H'"
  proof -
    have "0 < mRefs sb" using assms sb by (auto simp: clean_def)
    then show ?thesis using sb assms(1) a by (cases "mRefs sb = 1") (auto simp: moved_def clean_def refs_of_def sb_at_update H'_def intro: Suc_lessI)
  qed
  ultimately show ?thesis by blast
qed

lemma put_moved:
  assumes "clean H" and "refs_of H a = 1"
  shows "\<exists>H' sb. sb_put a xs H = Some H' \<and> moved (Some a) (Some a) H H' \<and> sb_at H' a = Some sb \<and> contents sb = xs \<and> mRefs sb = 1"
proof -
  obtain sb where sb: "sb_at H a = Some sb" "mRefs sb = 1" using assms(2) by (auto simp: refs_of_def split: option.splits)
  have a: "a < length H" using sb_at_less [OF sb(1)] .
  have "sb_put a xs H = Some (H[a := Some (sb\<lparr>contents := xs\<rparr>)])" using sb by (simp add: sb_put_def)
  moreover have "moved (Some a) (Some a) H (H[a := Some (sb\<lparr>contents := xs\<rparr>)])"
    using sb assms(1) a by (auto simp: moved_def clean_def refs_of_def sb_at_update)
  ultimately show ?thesis using a sb by (auto simp: sb_at_update)
qed

lemma moved_trans:
  assumes "moved x y H H1" and "moved y z H1 H2"
  shows "moved x z H H2"
  unfolding moved_def
proof (intro conjI allI impI)
  show "clean H2" using assms(2) by (simp add: moved_def)
  fix a
  have r1: "refs_of H1 a + of_bool (x = Some a) = refs_of H a + of_bool (y = Some a)" using assms(1) by (simp add: moved_def)
  have r2: "refs_of H2 a + of_bool (y = Some a) = refs_of H1 a + of_bool (z = Some a)" using assms(2) by (simp add: moved_def)
  show "refs_of H2 a + of_bool (x = Some a) = refs_of H a + of_bool (z = Some a)" using r1 r2 by linarith
  fix sb assume sb: "sb_at H2 a = Some sb"
  show "(\<exists>sb0. sb_at H a = Some sb0 \<and> contents sb = contents sb0) \<or> (z = Some a \<and> mRefs sb = 1)"
  proof (cases "z = Some a \<and> mRefs sb = 1")
    case False
    then obtain sb1 where sb1: "sb_at H1 a = Some sb1" "contents sb = contents sb1" using assms(2) sb unfolding moved_def by blast
    have "\<not> (y = Some a \<and> mRefs sb1 = 1)"
    proof
      assume y: "y = Some a \<and> mRefs sb1 = 1"
      then have "refs_of H2 a = of_bool (z = Some a)" using r2 sb1(1) by (simp add: refs_of_def)
      moreover have "refs_of H2 a = mRefs sb" "0 < mRefs sb" using sb assms(2) by (auto simp: refs_of_def moved_def clean_def)
      ultimately show False using False by (simp split: if_splits)
    qed
    then show ?thesis using assms(1) sb1 unfolding moved_def by metis
  qed simp
qed

text \<open>A new reference is taken before the old one is given back.\<close>

lemma moved_swap:
  assumes "moved None (Some y) H H1" and "moved (Some x) None H1 H2" and "x \<noteq> y"
  shows "moved (Some x) (Some y) H H2"
  unfolding moved_def
proof (intro conjI allI impI)
  show "clean H2" using assms(2) by (simp add: moved_def)
  fix a
  have r1: "refs_of H1 a = refs_of H a + of_bool (y = a)" using assms(1) by (simp add: moved_def)
  have r2: "refs_of H2 a + of_bool (x = a) = refs_of H1 a" using assms(2) by (simp add: moved_def)
  show "refs_of H2 a + of_bool (Some x = Some a) = refs_of H a + of_bool (Some y = Some a)" using r1 r2 by simp
  fix sb assume sb: "sb_at H2 a = Some sb"
  obtain sb1 where sb1: "sb_at H1 a = Some sb1" "contents sb = contents sb1" using assms(2) sb by (fastforce simp: moved_def)
  show "(\<exists>sb0. sb_at H a = Some sb0 \<and> contents sb = contents sb0) \<or> (Some y = Some a \<and> mRefs sb = 1)"
  proof (cases "Some y = Some a \<and> mRefs sb1 = 1")
    case True
    then have "refs_of H2 a = 1" using r2 assms(3) sb1(1) by (auto simp: refs_of_def)
    then show ?thesis using True sb by (simp add: refs_of_def)
  next
    case False
    then show ?thesis using assms(1) sb1 by (fastforce simp: moved_def)
  qed
qed

lemma moved_clean: "moved x y H H' \<Longrightarrow> clean H'"
  by (simp add: moved_def)

section \<open>Tables\<close>

definition table_ok :: "('e \<Rightarrow> u32) \<Rightarrow> hashtable \<Rightarrow> 'e bucket shared_heap \<Rightarrow> bool" where
  "table_ok hashf t H \<longleftrightarrow> load_ok (mLoadFactor t) \<and> is_prime (mBucketCount t) \<and> 5 \<le> mBucketCount t \<and> 0 < mCapacity t \<and> mCapacity t < mBucketCount t
    \<and> mFilledBuckets t \<le> mCapacity t
    \<and> (case mBuckets t of
         None \<Rightarrow> mSize t = 0 \<and> mFilledBuckets t = 0
       | Some a \<Rightarrow> \<exists>sb. sb_at H a = Some sb \<and> array_ok hashf (mBucketCount t) (contents sb) \<and> mFilledBuckets t = filled (contents sb)
           \<and> mSize t = length (filter present (contents sb)))"

definition stored :: "hashtable \<Rightarrow> 'e bucket shared_heap \<Rightarrow> 'e multiset" where
  "stored t H = (case mBuckets t of None \<Rightarrow> {#} | Some a \<Rightarrow> (case sb_at H a of None \<Rightarrow> {#} | Some sb \<Rightarrow> entries (contents sb)))"

text \<open>What an operation does with its table and the heap, seen from outside.\<close>

definition changes :: "('e \<Rightarrow> u32) \<Rightarrow> hashtable \<Rightarrow> 'e bucket shared_heap \<Rightarrow> hashtable \<Rightarrow> 'e bucket shared_heap \<Rightarrow> 'e multiset \<Rightarrow> bool" where
  "changes hashf t H t' H' M \<longleftrightarrow> moved (mBuckets t) (mBuckets t') H H' \<and> table_ok hashf t' H' \<and> stored t' H' = M"

lemma size_stored: "table_ok hashf t H \<Longrightarrow> mSize t = size (stored t H)"
  by (auto simp: table_ok_def stored_def entries_def simp del: mset_map mset_filter split: option.splits)

end
