(* ===== verification/Hashtable_Ops.thy ===== *)
theory Hashtable_Ops
  imports Hashtable_Share
begin

text \<open>The operations of a table, one lemma each: they return, keep the invariant, and what they do to the entries.\<close>

unbundle bit_operations_syntax

section \<open>Copies\<close>

lemma own_buffer:
  assumes "table_ok hashf t H" and "clean H" and "mBuckets t = Some a"
  shows "0 < refs_of H a" and "\<exists>sb. sb_at H a = Some sb \<and> refs_of H a = mRefs sb \<and> stored t H = entries (contents sb)"
  using assms by (auto simp: table_ok_def refs_of_def clean_def stored_def)

lemma same_contents:
  assumes "table_ok hashf t H" and "\<And>a sb. mBuckets t = Some a \<Longrightarrow> sb_at H a = Some sb \<Longrightarrow> \<exists>sb'. sb_at H' a = Some sb' \<and> contents sb' = contents sb"
  shows "table_ok hashf t H' \<and> stored t H' = stored t H"
proof (cases "mBuckets t")
  case None
  then show ?thesis using assms(1) by (simp add: table_ok_def stored_def)
next
  case (Some a)
  then obtain sb where sb: "sb_at H a = Some sb" using assms(1) by (auto simp: table_ok_def)
  then obtain sb' where "sb_at H' a = Some sb'" "contents sb' = contents sb" using assms(2) Some by blast
  then show ?thesis using assms(1) Some sb by (auto simp: table_ok_def stored_def)
qed

text \<open>A table whose buffer is not the one that changes keeps its entries, as long as it is counted.\<close>

lemma moved_other:
  assumes "table_ok hashf t H" and "moved x y H H'" and "\<And>a. mBuckets t = Some a \<Longrightarrow> 0 < refs_of H' a \<and> (y = Some a \<longrightarrow> 1 < refs_of H' a)"
  shows "table_ok hashf t H' \<and> stored t H' = stored t H"
proof (rule same_contents [OF assms(1)])
  fix a sb assume a: "mBuckets t = Some a" and sb: "sb_at H a = Some sb"
  obtain sb' where sb': "sb_at H' a = Some sb'" "refs_of H' a = mRefs sb'" using assms(3) [OF a] by (auto simp: refs_of_def split: option.splits)
  have "\<not> (y = Some a \<and> mRefs sb' = 1)" using assms(3) [OF a] sb'(2) by auto
  then obtain sb0 where "sb_at H a = Some sb0" "contents sb' = contents sb0" using assms(2) sb'(1) unfolding moved_def by blast
  then show "\<exists>sb'. sb_at H' a = Some sb' \<and> contents sb' = contents sb" using sb sb'(1) by auto
qed

lemma copy_ok:
  assumes "table_ok hashf t H" and "clean H"
  shows "\<exists>H'. copy_table t H = Some (t, H') \<and> moved None (mBuckets t) H H' \<and> table_ok hashf t H' \<and> stored t H' = stored t H"
proof (cases "mBuckets t")
  case None
  then show ?thesis using assms moved_refl by (auto simp: copy_table_def table_ok_def stored_def)
next
  case (Some a)
  obtain H' where H': "acquire a H = Some H'" "moved None (Some a) H H'" using acquire_moved [OF assms(2) own_buffer(1) [OF assms Some]] by blast
  have "refs_of H' a = refs_of H a + 1" using H'(2) by (simp add: moved_def)
  then have "table_ok hashf t H' \<and> stored t H' = stored t H"
    using own_buffer(1) [OF assms Some] Some by (intro moved_other [OF assms(1) H'(2)]) simp
  then show ?thesis using H' Some by (simp add: copy_table_def)
qed

lemma dispose_ok:
  assumes "table_ok hashf t H" and "clean H"
  shows "\<exists>H'. dispose t H = Some H' \<and> moved (mBuckets t) None H H'"
proof (cases "mBuckets t")
  case None
  then show ?thesis using moved_refl [OF assms(2)] by (simp add: dispose_def)
next
  case (Some a)
  then show ?thesis using release_moved [OF assms(2) own_buffer(1) [OF assms Some]] by (simp add: dispose_def)
qed

lemma copyBuckets_nth: "i < length bs \<Longrightarrow> present (copyBuckets bs ! i) = present (bs ! i) \<and> collided (copyBuckets bs ! i) = collided (bs ! i)
    \<and> hash_in (copyBuckets bs ! i) = hash_in (bs ! i) \<and> (present (bs ! i) \<longrightarrow> entry (copyBuckets bs ! i) = entry (bs ! i))"
  by (simp add: copyBuckets_def present_def collided_def hash_in_def)

lemma copyBuckets_ok:
  assumes "array_ok hashf n bs"
  shows "array_ok hashf n (copyBuckets bs)" and "entries (copyBuckets bs) = entries bs" and "filled (copyBuckets bs) = filled bs"
    and "length (filter present (copyBuckets bs)) = length (filter present bs)"
proof -
  have len: "length bs = n" "5 \<le> n" "length (copyBuckets bs) = n" using assms by (auto simp: array_ok_def copyBuckets_def)
  have "linked_at n (copyBuckets bs) i" if "i < n" "linked_at n bs i" for i
    using linked_mono [OF that(2), of "copyBuckets bs"] copyBuckets_nth [of _ bs] len that(1) by auto
  then show "array_ok hashf n (copyBuckets bs)" using assms copyBuckets_nth [of _ bs] len by (auto simp: array_ok_def)
  let ?f = "\<lambda>b. \<lparr>cookie = cookie b, entry = (if present b then entry b else None)\<rparr>"
  have flags: "present (?f b) = present b" "in_use (?f b) = in_use b" for b :: "'a bucket" by (simp_all add: present_def in_use_def collided_def)
  show "filled (copyBuckets bs) = filled bs" by (simp add: filled_def copyBuckets_def filter_map o_def flags)
  show "length (filter present (copyBuckets bs)) = length (filter present bs)" by (simp add: copyBuckets_def filter_map o_def flags)
  have "map (the \<circ> entry) (filter present (copyBuckets bs)) = map (the \<circ> entry) (filter present bs)"
    by (auto simp: copyBuckets_def filter_map o_def flags)
  then show "entries (copyBuckets bs) = entries bs" by (simp only: entries_def)
qed

text \<open>After \<open>edit\<close> a table has its buffer for itself.\<close>

lemma edit_ok:
  assumes "table_ok hashf t H" and "clean H"
  shows "\<exists>x H'. edit t H = Some (t\<lparr>mBuckets := x\<rparr>, H') \<and> changes hashf t H (t\<lparr>mBuckets := x\<rparr>) H' (stored t H)
    \<and> (x = None \<longleftrightarrow> mBuckets t = None) \<and> (\<forall>a. x = Some a \<longrightarrow> refs_of H' a = 1)
    \<and> (\<forall>a sb i. mBuckets t = Some a \<and> sb_at H a = Some sb \<and> i < mBucketCount t \<and> present (contents sb ! i) \<longrightarrow>
         (\<exists>a' sb'. x = Some a' \<and> sb_at H' a' = Some sb' \<and> present (contents sb' ! i) \<and> entry (contents sb' ! i) = entry (contents sb ! i)))"
proof (cases "mBuckets t")
  case None
  then have same: "t\<lparr>mBuckets := None\<rparr> = t" by simp
  have "edit t H = Some (t\<lparr>mBuckets := None\<rparr>, H)" unfolding same using None by (simp add: edit_def)
  moreover have "changes hashf t H (t\<lparr>mBuckets := None\<rparr>) H (stored t H)" unfolding same using assms moved_refl by (simp add: changes_def)
  ultimately show ?thesis using None by (intro exI [of _ None] exI [of _ H]) simp
next
  case (Some a)
  obtain sb where sb: "sb_at H a = Some sb" "refs_of H a = mRefs sb" "stored t H = entries (contents sb)" using own_buffer(2) [OF assms Some] by blast
  have t: "array_ok hashf (mBucketCount t) (contents sb)" "mFilledBuckets t = filled (contents sb)" "mSize t = length (filter present (contents sb))"
    using assms(1) Some sb(1) by (auto simp: table_ok_def)
  show ?thesis
  proof (cases "mRefs sb = 1")
    case True
    have same: "t\<lparr>mBuckets := Some a\<rparr> = t" using Some by simp
    have "edit t H = Some (t\<lparr>mBuckets := Some a\<rparr>, H)" using Some sb True same by (simp add: edit_def onlyOwner_def)
    moreover have "changes hashf t H (t\<lparr>mBuckets := Some a\<rparr>) H (stored t H)" using assms moved_refl same by (simp add: changes_def)
    ultimately show ?thesis using Some sb True by (intro exI [of _ "Some a"] exI [of _ H]) simp
  next
    case False
    define a1 where "a1 = fst (sb_alloc (copyBuckets (contents sb)) H)"
    define H1 where "H1 = snd (sb_alloc (copyBuckets (contents sb)) H)"
    have alloc: "moved None (Some a1) H H1" using moved_alloc [OF assms(2)] by (simp add: a1_def H1_def)
    have ne: "a \<noteq> a1" using sb_at_less [OF sb(1)] by (simp add: a1_def sb_alloc_def)
    have new: "sb_at H1 a1 = Some \<lparr>mRefs = 1, contents = copyBuckets (contents sb)\<rparr>" by (simp add: H1_def a1_def sb_alloc_def sb_at_alloc)
    have "0 < refs_of H1 a" using alloc ne own_buffer(1) [OF assms Some] by (simp add: moved_def)
    then obtain H2 where H2: "releaseBuckets a H1 = Some H2" "moved (Some a) None H1 H2" using release_moved [OF moved_clean [OF alloc]] by blast
    have mv: "moved (Some a) (Some a1) H H2" by (rule moved_swap [OF alloc H2(2) ne])
    have "refs_of H2 a1 + of_bool (Some a = Some a1) = refs_of H1 a1 + of_bool (None = Some a1)" using H2(2) by (simp only: moved_def)
    then have r2: "refs_of H2 a1 = 1" using new ne by (simp add: refs_of_def)
    then obtain sb2 where "sb_at H2 a1 = Some sb2" by (auto simp: refs_of_def split: option.splits)
    moreover have "contents sb2 = copyBuckets (contents sb)" if "sb_at H2 a1 = Some sb2" for sb2 using H2(2) new that by (fastforce simp: moved_def)
    ultimately obtain sb2 where sb2: "sb_at H2 a1 = Some sb2" "contents sb2 = copyBuckets (contents sb)" by blast
    have ok: "table_ok hashf (t\<lparr>mBuckets := Some a1\<rparr>) H2" "stored (t\<lparr>mBuckets := Some a1\<rparr>) H2 = stored t H"
      using assms(1) t copyBuckets_ok [OF t(1)] sb2 sb(3) by (auto simp: table_ok_def stored_def)
    have "edit t H = Some (t\<lparr>mBuckets := Some a1\<rparr>, H2)"
      using Some sb False H2(1) by (simp add: edit_def onlyOwner_def clone_def a1_def H1_def Let_def split_beta)
    moreover have "present (copyBuckets (contents sb) ! i) \<and> entry (copyBuckets (contents sb) ! i) = entry (contents sb ! i)"
      if "i < mBucketCount t" "present (contents sb ! i)" for i
      using copyBuckets_nth [of i "contents sb"] that t(1) by (simp add: array_ok_def)
    ultimately show ?thesis using mv ok r2 Some sb2 sb(1) by (intro exI [of _ "Some a1"] exI [of _ H2]) (auto simp: changes_def)
  qed
qed

section \<open>Emptying and removing\<close>

lemma new_table_ok:
  assumes "BasicHashtable m lf = Some t" and "load_ok lf"
  shows "table_ok hashf t H \<and> stored t H = {#} \<and> mBuckets t = None"
proof -
  obtain count capacity where d: "determineCapacity m lf = Some (count, capacity)"
      "t = \<lparr>mCapacity = capacity, mLoadFactor = lf, mSize = 0, mFilledBuckets = 0, mBucketCount = count, mBuckets = None\<rparr>"
    using assms(1) by (auto simp: BasicHashtable_def split: Option.bind_splits)
  then show ?thesis using determine_ok [OF d(1) assms(2)] assms(2) by (simp add: table_ok_def stored_def)
qed

text \<open>Writing the contents of a buffer that a table has for itself.\<close>

lemma write_ok:
  assumes "clean H" and "mBuckets t = Some a" and "refs_of H a = 1" and "array_ok hashf (mBucketCount t) bs" and "table_ok hashf t H"
    and "sz = length (filter present bs)" and "full = filled bs" and "full \<le> mCapacity t"
  shows "\<exists>H'. sb_put a bs H = Some H' \<and> changes hashf t H (t\<lparr>mSize := sz, mFilledBuckets := full\<rparr>) H' (entries bs)
    \<and> (\<exists>sb. sb_at H' a = Some sb \<and> contents sb = bs \<and> mRefs sb = 1)"
proof -
  obtain H' sb where "sb_put a bs H = Some H'" "moved (Some a) (Some a) H H'" "sb_at H' a = Some sb" "contents sb = bs" "mRefs sb = 1"
    using put_moved [OF assms(1,3)] by blast
  then show ?thesis using assms by (auto simp: changes_def table_ok_def stored_def)
qed

lemma clear_ok:
  assumes "table_ok hashf t H" and "clean H"
  shows "\<exists>t' H'. clear t H = Some (t', H') \<and> changes hashf t H t' H' {#}"
proof (cases "mBuckets t")
  case None
  then show ?thesis using assms moved_refl [OF assms(2)] by (auto simp: clear_def changes_def stored_def)
next
  case (Some a)
  obtain sb where sb: "sb_at H a = Some sb" "refs_of H a = mRefs sb" using own_buffer(2) [OF assms Some] by blast
  have t: "is_prime (mBucketCount t)" "5 \<le> mBucketCount t" "mFilledBuckets t = filled (contents sb)" "mSize t = length (filter present (contents sb))"
    using assms(1) Some sb(1) by (auto simp: table_ok_def)
  consider "mFilledBuckets t = 0" | "mFilledBuckets t \<noteq> 0" "mRefs sb = 1" | "mFilledBuckets t \<noteq> 0" "mRefs sb \<noteq> 1" by blast
  then show ?thesis
  proof cases
    case 1
    then have none: "filter present (contents sb) = []" using t(3) by (auto simp: filled_def filter_empty_conv in_use_def)
    then have same: "t\<lparr>mSize := 0\<rparr> = t" using t(4) by simp
    have "clear t H = Some (t\<lparr>mSize := 0\<rparr>, H)" using Some 1 by (simp add: clear_def)
    moreover have "changes hashf t H (t\<lparr>mSize := 0\<rparr>) H {#}" unfolding same using assms moved_refl Some sb none by (simp add: changes_def stored_def entries_def)
    ultimately show ?thesis by blast
  next
    case 2
    define bs where "bs = (empty_buckets (mBucketCount t) :: 'a bucket list)"
    have bs: "array_ok hashf (mBucketCount t) bs" "entries bs = {#}" "0 = filled bs" "0 = length (filter present bs)"
      using empty_array [OF t(1,2), of hashf] by (auto simp: bs_def empty_buckets_def)
    have "refs_of H a = 1" using sb 2 by simp
    then obtain H' where "sb_put a bs H = Some H'" "changes hashf t H (t\<lparr>mSize := 0, mFilledBuckets := 0\<rparr>) H' (entries bs)"
      using write_ok [OF assms(2) Some _ bs(1) assms(1) bs(4,3)] by auto
    then show ?thesis using Some 2 sb bs(2) by (simp add: clear_def onlyOwner_def bs_def)
  next
    case 3
    obtain H' where "releaseBuckets a H = Some H'" "moved (Some a) None H H'" using release_moved [OF assms(2) own_buffer(1) [OF assms Some]] by blast
    then show ?thesis using Some 3 sb assms(1) by (auto simp: clear_def onlyOwner_def changes_def table_ok_def stored_def)
  qed
qed

lemma removed_ok:
  assumes "array_ok hashf n bs" and "i < n" and "present (bs ! i)"
  defines "b' \<equiv> \<lparr>cookie = cookie (bs ! i) AND NOT PRESENT, entry = None\<rparr>"
  shows "array_ok hashf n (bs[i := b'])" and "entries (bs[i := b']) = entries bs - {#the (entry (bs ! i))#}"
    and "length (filter present (bs[i := b'])) = length (filter present bs) - 1"
    and "filled (bs[i := b']) = (if collided b' then filled bs else filled bs - 1)"
proof -
  have b': "\<not> present b'" "collided b' = collided (bs ! i)" using removed_simps [of "bs ! i" None] by (simp_all add: b'_def)
  have n: "length bs = n" "5 \<le> n" using assms(1) by (auto simp: array_ok_def)
  have grow: "collided (bs ! j) \<Longrightarrow> collided (bs[i := b'] ! j)" if "j < n" for j using b'(2) that n by (cases "j = i") simp_all
  have "linked_at n (bs[i := b']) j \<and> (\<exists>e. entry (bs[i := b'] ! j) = Some e \<and> hash_in (bs[i := b'] ! j) = trimHash (hashf e))"
    if "j < n" "present (bs[i := b'] ! j)" for j
  proof -
    have "j \<noteq> i" using that b'(1) assms(2) n by auto
    then have "linked_at n bs j \<and> (\<exists>e. entry (bs ! j) = Some e \<and> hash_in (bs ! j) = trimHash (hashf e))" using assms(1) that by (simp add: array_ok_def)
    then show ?thesis using linked_mono [of n bs j "bs[i := b']"] grow n \<open>j \<noteq> i\<close> by auto
  qed
  then show "array_ok hashf n (bs[i := b'])" using assms(1) by (simp add: array_ok_def)
  have i: "i < length bs" using assms(2) n by simp
  have "entries (bs[i := b']) + {#the (entry (bs ! i))#} = entries bs" using update_parts(2) [OF i, of b'] b'(1) assms(3) by simp
  then show "entries (bs[i := b']) = entries bs - {#the (entry (bs ! i))#}" by (simp flip: \<open>entries (bs[i := b']) + {#the (entry (bs ! i))#} = entries bs\<close>)
  show "length (filter present (bs[i := b'])) = length (filter present bs) - 1" using update_parts(3) [OF i, of b'] b'(1) assms(3) by simp
  show "filled (bs[i := b']) = (if collided b' then filled bs else filled bs - 1)"
    using update_parts(1) [OF i, of b'] b' assms(3) by (cases "collided (bs ! i)") (simp_all add: in_use_def)
qed

lemma removeAt_ok:
  assumes "table_ok hashf t H" and "clean H" and "entryAt i t H = Some e" and "mBuckets t = Some a" and "sb_at H a = Some sb" and "present (contents sb ! i)"
  shows "\<exists>t' H'. removeAt i t H = Some (t', H') \<and> changes hashf t H t' H' (stored t H - {#e#})"
proof -
  have i: "i < mBucketCount t" "entry (contents sb ! i) = Some e"
    using assms(1,3-5) by (auto simp: entryAt_def bucketAt_def table_ok_def array_ok_def split: if_splits)
  obtain x H1 where edit: "edit t H = Some (t\<lparr>mBuckets := x\<rparr>, H1)" "changes hashf t H (t\<lparr>mBuckets := x\<rparr>) H1 (stored t H)"
      "\<forall>a. x = Some a \<longrightarrow> refs_of H1 a = 1"
      and keeps: "\<exists>a' sb'. x = Some a' \<and> sb_at H1 a' = Some sb' \<and> present (contents sb' ! i) \<and> entry (contents sb' ! i) = entry (contents sb ! i)"
    using edit_ok [OF assms(1,2)] assms(4-6) i(1) by metis
  obtain a1 sb1 where a1: "x = Some a1" "sb_at H1 a1 = Some sb1" "present (contents sb1 ! i)" "entry (contents sb1 ! i) = Some e" using keeps i(2) by auto
  define t1 where "t1 = t\<lparr>mBuckets := Some a1\<rparr>"
  have ok1: "table_ok hashf t1 H1" "clean H1" "mBuckets t1 = Some a1" "refs_of H1 a1 = 1" "mBucketCount t1 = mBucketCount t" "mCapacity t1 = mCapacity t"
    using edit(2,3) a1(1) moved_clean by (auto simp: changes_def t1_def)
  have arr: "array_ok hashf (mBucketCount t1) (contents sb1)" "mFilledBuckets t1 = filled (contents sb1)" "mSize t1 = length (filter present (contents sb1))"
      "mFilledBuckets t1 \<le> mCapacity t1" "stored t1 H1 = entries (contents sb1)"
    using ok1(1,3) a1(2) by (auto simp: table_ok_def stored_def)
  have i1: "i < mBucketCount t1" using i(1) ok1(5) by simp
  define b' where "b' = (\<lparr>cookie = cookie (contents sb1 ! i) AND NOT PRESENT, entry = None\<rparr> :: 'a bucket)"
  note rem = removed_ok [OF arr(1) i1 a1(3), folded b'_def]
  have cap: "(if collided b' then mFilledBuckets t1 else mFilledBuckets t1 - 1) \<le> mCapacity t1" using arr(4) by (cases "collided b'") simp_all
  have sizes: "mSize t1 - 1 = length (filter present ((contents sb1)[i := b']))"
      "(if collided b' then mFilledBuckets t1 else mFilledBuckets t1 - 1) = filled ((contents sb1)[i := b'])"
    using rem arr by simp_all
  obtain H2 where H2: "sb_put a1 ((contents sb1)[i := b']) H1 = Some H2"
      "changes hashf t1 H1 (t1\<lparr>mSize := mSize t1 - 1, mFilledBuckets := (if collided b' then mFilledBuckets t1 else mFilledBuckets t1 - 1)\<rparr>) H2
         (entries ((contents sb1)[i := b']))"
    using write_ok [OF ok1(2,3,4) rem(1) ok1(1) sizes cap] by blast
  have "removeAt i t H = Some (t1\<lparr>mSize := mSize t1 - 1, mFilledBuckets := (if collided b' then mFilledBuckets t1 else mFilledBuckets t1 - 1)\<rparr>, H2)"
    using edit(1) a1 i1 arr(1) H2(1) by (simp add: removeAt_def t1_def bucketAt_def array_ok_def b'_def Let_def)
  moreover have "moved (mBuckets t) (Some a1) H H2"
    using moved_trans [of "mBuckets t" "Some a1" H H1 "Some a1" H2] edit(2) H2(2) a1(1) ok1(3) by (simp add: changes_def)
  moreover have "stored t H = entries (contents sb1)" using edit(2) a1(1) arr(5) by (simp add: changes_def t1_def)
  ultimately show ?thesis using H2(2) rem(2) a1(4) ok1(3) by (auto simp: changes_def)
qed

end
