(* ===== verification/Hashtable_Grow.thy ===== *)
theory Hashtable_Grow
  imports Hashtable_Ops
begin

text \<open>Rehashing and adding. An array is rebuilt without the flags of removed entries; adding seeks a free bucket, in a larger array when the load factor asks for it.\<close>

unbundle bit_operations_syntax

section \<open>Rehashing\<close>

lemma table_buffer:
  assumes "table_ok hashf t H" and "mBuckets t = Some a"
  obtains sb where "sb_at H a = Some sb" and "array_ok hashf (mBucketCount t) (contents sb)" and "mFilledBuckets t = filled (contents sb)"
    and "mSize t = length (filter present (contents sb))" and "stored t H = entries (contents sb)"
  using assms by (auto simp: table_ok_def stored_def)

lemma size_le_filled: "table_ok hashf t H \<Longrightarrow> mSize t \<le> mFilledBuckets t"
proof (cases "mBuckets t")
  case (Some a)
  have "length (filter present bs) \<le> filled bs" for bs :: "'e bucket list"
    by (induction bs) (auto simp: filled_def in_use_def)
  moreover assume "table_ok hashf t H"
  ultimately show ?thesis using Some by (auto simp: table_ok_def)
qed (simp add: table_ok_def)

lemma rehashed_array:
  assumes "table_ok hashf t H" and "mBuckets t = Some a" and "sb_at H a = Some sb" and "is_prime cnt" and "5 \<le> cnt" and "mSize t < cnt"
  obtains bs where "rehash_into cnt (contents sb) (empty_buckets cnt) = Some bs" and "array_ok hashf cnt bs" and "filled bs = mSize t"
    and "length (filter present bs) = mSize t" and "entries bs = entries (contents sb)"
proof -
  have arr: "array_ok hashf (mBucketCount t) (contents sb)" "mSize t = length (filter present (contents sb))"
    using assms(1-3) by (auto simp: table_ok_def)
  define new where "new = (empty_buckets cnt :: 'a bucket list)"
  have new: "array_ok hashf cnt new" "entries new = {#}" "filled new = 0" using empty_array [OF assms(4,5), of hashf] by (auto simp: new_def)
  have new2: "tight new" "length (filter present new) = 0" by (auto simp: new_def empty_buckets_def tight_def)
  have room: "filled new + length (filter present (contents sb)) < cnt" using new(3) arr(2) assms(6) by simp
  obtain bs where bs: "rehash_into cnt (contents sb) new = Some bs" "array_ok hashf cnt bs" "tight bs" "entries bs = entries new + entries (contents sb)"
      "length (filter present bs) = length (filter present new) + length (filter present (contents sb))"
    using rehash_into_ok [OF array_carries [OF arr(1)] new(1) new2(1) room] by blast
  show thesis by (rule that [OF bs(1) [unfolded new_def] bs(2)]) (use bs new new2 arr tight_filled [OF bs(3)] in simp_all)
qed

lemma rehash_ok:
  assumes "table_ok hashf t H" and "clean H" and "determineCapacity (max m (mSize t)) lf = Some (cnt, capacity)" and "mSize t \<le> capacity" and lf: "load_ok lf"
  shows "\<exists>t' H'. rehash m lf t H = Some (t', H') \<and> changes hashf t H t' H' (stored t H) \<and> mBucketCount t' = cnt \<and> mCapacity t' = capacity \<and> mLoadFactor t' = lf
    \<and> (\<not> (cnt = mBucketCount t \<and> capacity = mCapacity t) \<longrightarrow>
         mFilledBuckets t' = mSize t \<and> (mSize t = 0 \<longrightarrow> mBuckets t' = None) \<and> (mSize t \<noteq> 0 \<longrightarrow> (\<exists>a. mBuckets t' = Some a \<and> refs_of H' a = 1)))"
proof -
  note d = assms(3)
  have cc: "is_prime cnt" "5 \<le> cnt" "0 < capacity" "capacity < cnt" using determine_ok [OF d lf] by simp_all
  consider (same) "cnt = mBucketCount t \<and> capacity = mCapacity t" | (none) "\<not> (cnt = mBucketCount t \<and> capacity = mCapacity t)" "mBuckets t = None"
    | (buckets) a where "\<not> (cnt = mBucketCount t \<and> capacity = mCapacity t)" "mBuckets t = Some a" by blast
  then show ?thesis
  proof cases
    case same
    then show ?thesis using assms(1) lf d moved_refl [OF assms(2)] by (cases "mBuckets t") (simp_all add: rehash_def changes_def table_ok_def stored_def)
  next
    case none
    then show ?thesis using assms(1) lf cc d moved_refl [OF assms(2)] by (auto simp: rehash_def changes_def table_ok_def stored_def)
  next
    case buckets
    obtain sb where sb: "sb_at H a = Some sb" "mSize t = length (filter present (contents sb))" "stored t H = entries (contents sb)"
      using table_buffer [OF assms(1) buckets(2)] by metis
    show ?thesis
    proof (cases "mSize t = 0")
      case True
      obtain H2 where H2: "releaseBuckets a H = Some H2" "moved (Some a) None H H2"
        using release_moved [OF assms(2) own_buffer(1) [OF assms(1,2) buckets(2)]] by blast
      have "entries (contents sb) = {#}" using sb(2) True by (simp add: entries_def filter_empty_conv)
      then show ?thesis using buckets d True sb H2 lf cc by (simp add: rehash_def changes_def table_ok_def stored_def)
    next
      case False
      have room: "mSize t < cnt" using assms(4) cc(4) by simp
      obtain bs where bs: "rehash_into cnt (contents sb) (empty_buckets cnt) = Some bs" "array_ok hashf cnt bs" "filled bs = mSize t"
          "length (filter present bs) = mSize t" "entries bs = entries (contents sb)"
        by (rule rehashed_array [OF assms(1) buckets(2) sb(1) cc(1,2) room])
      define a1 where "a1 = fst (sb_alloc bs H)"
      define H1 where "H1 = snd (sb_alloc bs H)"
      have alloc: "moved None (Some a1) H H1" using moved_alloc [OF assms(2)] by (simp add: a1_def H1_def)
      have ne: "a \<noteq> a1" using sb_at_less [OF sb(1)] by (simp add: a1_def sb_alloc_def)
      have new: "sb_at H1 a1 = Some \<lparr>mRefs = 1, contents = bs\<rparr>" by (simp add: H1_def a1_def sb_alloc_def sb_at_alloc)
      have "0 < refs_of H1 a" using alloc ne own_buffer(1) [OF assms(1,2) buckets(2)] by (simp add: moved_def)
      then obtain H2 where H2: "releaseBuckets a H1 = Some H2" "moved (Some a) None H1 H2" using release_moved [OF moved_clean [OF alloc]] by blast
      have mv: "moved (Some a) (Some a1) H H2" by (rule moved_swap [OF alloc H2(2) ne])
      have "refs_of H2 a1 + of_bool (Some a = Some a1) = refs_of H1 a1 + of_bool (None = Some a1)" using H2(2) by (simp only: moved_def)
      then have r2: "refs_of H2 a1 = 1" using new ne by (simp add: refs_of_def)
      then obtain sb2 where sb2: "sb_at H2 a1 = Some sb2" by (auto simp: refs_of_def split: option.splits)
      have c2: "contents sb2 = bs" using H2(2) new sb2 by (fastforce simp: moved_def)
      define t' where "t' = t\<lparr>mBuckets := Some a1, mFilledBuckets := mSize t, mBucketCount := cnt, mCapacity := capacity, mLoadFactor := lf\<rparr>"
      have "rehash m lf t H = Some (t', H2)"
        using buckets d False sb(1) bs(1) H2(1) by (auto simp: rehash_def Let_def split_beta a1_def H1_def t'_def)
      moreover have "changes hashf t H t' H2 (stored t H)"
        using mv bs sb(3) sb2 c2 lf cc assms(4) buckets(2) by (simp add: changes_def t'_def table_ok_def stored_def)
      ultimately show ?thesis using False r2 by (simp add: t'_def)
    qed
  qed
qed

section \<open>Adding\<close>

lemma marks_ok:
  assumes "array_ok hashf n bs" and "\<forall>i\<in>S. i < n \<longrightarrow> present (bs ! i)"
  shows "array_ok hashf n (mark_all S bs)" and "filled (mark_all S bs) = filled bs" and "entries (mark_all S bs) = entries bs"
    and "length (filter present (mark_all S bs)) = length (filter present bs)"
proof -
  have n: "length bs = n" "5 \<le> n" using assms(1) by (auto simp: array_ok_def)
  have nth: "present (mark_all S bs ! i) = present (bs ! i) \<and> hash_in (mark_all S bs ! i) = hash_in (bs ! i) \<and> entry (mark_all S bs ! i) = entry (bs ! i)
      \<and> (collided (bs ! i) \<longrightarrow> collided (mark_all S bs ! i))" if "i < n" for i using that n by (simp add: mark_all_nth)
  have "linked_at n (mark_all S bs) i" if "i < n" "linked_at n bs i" for i using linked_mono [OF that(2), of "mark_all S bs"] nth that(1) n by auto
  then show "array_ok hashf n (mark_all S bs)" using assms(1) nth by (auto simp: array_ok_def)
  show "filled (mark_all S bs) = filled bs" "entries (mark_all S bs) = entries bs" "length (filter present (mark_all S bs)) = length (filter present bs)"
    using mark_all_parts [of S bs] assms(2) n by auto
qed

text \<open>The free bucket that \<open>add\<close> finds, and the array with the flags it sets on the way.\<close>

lemma seek_table:
  assumes "table_ok hashf t H" and "mBuckets t = Some a" and "sb_at H a = Some sb"
  obtains m where "m < mBucketCount t"
    and "seek (chainIncrement h (mBucketCount t)) (mBucketCount t) (contents sb) (chainStart h (mBucketCount t))
      = Some (chain h (mBucketCount t) m, mark_all (chain h (mBucketCount t) ` {..<m}) (contents sb))"
    and "\<not> present (contents sb ! chain h (mBucketCount t) m)" and "\<forall>j<m. present (contents sb ! chain h (mBucketCount t) j)"
    and "bucketAt (mark_all (chain h (mBucketCount t) ` {..<m}) (contents sb)) (chain h (mBucketCount t) m) = Some (contents sb ! chain h (mBucketCount t) m)"
proof -
  let ?n = "mBucketCount t"
  have ok: "array_ok hashf ?n (contents sb)" "filled (contents sb) < ?n" using assms by (auto simp: table_ok_def)
  obtain m where m: "m < ?n" "seek (chainIncrement h ?n) ?n (contents sb) (chainStart h ?n) = Some (chain h ?n m, mark_all (chain h ?n ` {..<m}) (contents sb))"
      "\<not> present (contents sb ! chain h ?n m)" "\<forall>j<m. present (contents sb ! chain h ?n j)" by (rule seek_first [OF ok])
  have "chain h ?n m \<notin> chain h ?n ` {..<m}" using m(3,4) by auto
  moreover have "chain h ?n m < length (contents sb)" using ok(1) chain_less [of ?n h m] by (auto simp: array_ok_def)
  ultimately show thesis using that [OF m] by (simp add: bucketAt_def mark_all_nth)
qed

lemma add_loop_place:
  assumes "table_ok hashf t H" and "clean H" and "mBuckets t = Some a" and "refs_of H a = 1"
    and "sb_at H a = Some sb" and "m < n" and "n = mBucketCount t" and "h = trimHash (hashf e)"
    and "seek (chainIncrement h n) n (contents sb) (chainStart h n) = Some (chain h n m, mark_all (chain h n ` {..<m}) (contents sb))"
    and "\<not> present (contents sb ! chain h n m)" and "\<forall>j<m. present (contents sb ! chain h n j)"
    and "bucketAt (mark_all (chain h n ` {..<m}) (contents sb)) (chain h n m) = Some (contents sb ! chain h n m)"
    and room: "collided (contents sb ! chain h n m) \<or> mFilledBuckets t < mCapacity t"
  shows "\<exists>i t' H'. add_loop h e t H = Some (i, t', H') \<and> changes hashf t H t' H' (stored t H + {#e#}) \<and> entryAt i t' H' = Some e"
proof -
  define b where "b = contents sb ! chain h n m"
  define b' where "b' = \<lparr>cookie = (cookie b AND COLLISION) OR PRESENT OR h, entry = Some e\<rparr>"
  define full where "full = (if collided b then mFilledBuckets t else mFilledBuckets t + 1)"
  have arr: "array_ok hashf n (contents sb)" "mFilledBuckets t = filled (contents sb)" "mSize t = length (filter present (contents sb))"
      "stored t H = entries (contents sb)" "mFilledBuckets t \<le> mCapacity t"
    using assms(1,3,5,7) by (auto simp: table_ok_def stored_def)
  have "trimmed h" using assms(8) by simp
  then have b': "present b'" "collided b' = collided b" "hash_in b' = h" "entry b' = Some e"
    using placed_simps [of h b "Some e"] by (simp_all add: b'_def)
  have keeps: "collided (contents sb ! chain h n m) \<longrightarrow> collided b'" using b'(2) by (simp add: b_def)
  define bs where "bs = (mark_all (chain h n ` {..<m}) (contents sb))[chain h n m := b']"
  note placed = place_ok [OF arr(1) assms(6,10,11) b'(1,3,4) assms(8) keeps, folded bs_def]
  have sizes: "mSize t + 1 = length (filter present bs)" "full = filled bs" "full \<le> mCapacity t"
    using placed(3,4) arr room by (auto simp: full_def b_def)
  obtain H' sb' where H': "sb_put a bs H = Some H'" "changes hashf t H (t\<lparr>mSize := mSize t + 1, mFilledBuckets := full\<rparr>) H' (entries bs)"
      "sb_at H' a = Some sb'" "contents sb' = bs"
    using write_ok [OF assms(2-4) placed(1) [unfolded assms(7)] assms(1) sizes] by blast
  have "add_loop h e t H = Some (chain h n m, t\<lparr>mSize := mSize t + 1, mFilledBuckets := full\<rparr>, H')"
    using assms(3,5,7,9,12) H'(1) room by (subst add_loop.simps) (auto simp: b_def b'_def bs_def full_def)
  moreover have "chain h n m < length bs" using arr(1) chain_less [of n h m] by (auto simp: bs_def array_ok_def)
  then have "entryAt (chain h n m) (t\<lparr>mSize := mSize t + 1, mFilledBuckets := full\<rparr>) H' = Some e"
    using H'(3,4) assms(3) b'(4) by (simp add: entryAt_def bucketAt_def) (simp add: bs_def)
  ultimately show ?thesis using H'(2) placed(2) arr(4) by auto
qed

lemma add_loop_room:
  assumes "table_ok hashf t H" and "clean H" and "mBuckets t = Some a" and "refs_of H a = 1" and "mFilledBuckets t < mCapacity t"
  shows "\<exists>i t' H'. add_loop (trimHash (hashf e)) e t H = Some (i, t', H') \<and> changes hashf t H t' H' (stored t H + {#e#}) \<and> entryAt i t' H' = Some e"
proof -
  obtain sb where sb: "sb_at H a = Some sb" using table_buffer [OF assms(1,3)] by metis
  show ?thesis by (rule seek_table [OF assms(1,3) sb, of "trimHash (hashf e)"]) (rule add_loop_place [OF assms(1-4) sb _ refl refl], use assms(5) in auto)
qed

lemma add_loop_ok:
  assumes "table_ok hashf t H" and "clean H" and "mBuckets t = Some a" and "refs_of H a = 1"
    and grow: "mCapacity t \<le> mFilledBuckets t \<Longrightarrow> mSize t \<noteq> 0 \<and> determineCapacity (max (mCapacity t * 2) (mSize t)) (mLoadFactor t) \<noteq> None"
  shows "\<exists>i t' H'. add_loop (trimHash (hashf e)) e t H = Some (i, t', H') \<and> changes hashf t H t' H' (stored t H + {#e#}) \<and> entryAt i t' H' = Some e"
proof -
  let ?n = "mBucketCount t"
  define h where "h = trimHash (hashf e)"
  obtain sb where sb: "sb_at H a = Some sb" "array_ok hashf ?n (contents sb)" "mFilledBuckets t = filled (contents sb)"
      "mSize t = length (filter present (contents sb))" "stored t H = entries (contents sb)" by (rule table_buffer [OF assms(1,3)])
  obtain m where m: "m < ?n" "seek (chainIncrement h ?n) ?n (contents sb) (chainStart h ?n) = Some (chain h ?n m, mark_all (chain h ?n ` {..<m}) (contents sb))"
      "\<not> present (contents sb ! chain h ?n m)" "\<forall>j<m. present (contents sb ! chain h ?n j)"
      "bucketAt (mark_all (chain h ?n ` {..<m}) (contents sb)) (chain h ?n m) = Some (contents sb ! chain h ?n m)"
    by (rule seek_table [OF assms(1,3) sb(1)])
  show ?thesis
  proof (cases "collided (contents sb ! chain h ?n m) \<or> mFilledBuckets t < mCapacity t")
    case True
    then show ?thesis using add_loop_place [OF assms(1-4) sb(1) m(1) refl h_def m(2-5)] h_def by simp
  next
    case False
    define S where "S = chain h ?n ` {..<m}"
    have S: "\<forall>i\<in>S. i < ?n \<longrightarrow> present (contents sb ! i)" using m(4) by (auto simp: S_def)
    note marks = marks_ok [OF sb(2) S]
    have sizes: "mSize t = length (filter present (mark_all S (contents sb)))" "mFilledBuckets t = filled (mark_all S (contents sb))" "mFilledBuckets t \<le> mCapacity t"
      using marks sb assms(1) by (auto simp: table_ok_def)
    obtain H1 where H1: "sb_put a (mark_all S (contents sb)) H = Some H1" "changes hashf t H (t\<lparr>mSize := mSize t, mFilledBuckets := mFilledBuckets t\<rparr>) H1 (stored t H)"
      using write_ok [OF assms(2-4) marks(1) assms(1) sizes] marks(3) sb(5) by auto
    have same: "t\<lparr>mSize := mSize t, mFilledBuckets := mFilledBuckets t\<rparr> = t" by simp
    have t1: "table_ok hashf t H1" "clean H1" "stored t H1 = stored t H" using H1(2) moved_clean unfolding same by (auto simp: changes_def)
    obtain cnt cap where d: "mSize t \<noteq> 0" "determineCapacity (max (mCapacity t * 2) (mSize t)) (mLoadFactor t) = Some (cnt, cap)" using grow False by fastforce
    have grows: "mCapacity t < cap" using capacity_grows [OF d(2)] assms(1) by (simp add: table_ok_def)
    have le: "mSize t \<le> mCapacity t" using size_le_filled [OF assms(1)] assms(1) by (auto simp: table_ok_def)
    obtain t2 H2 a2 where r: "rehash (mCapacity t * 2) (mLoadFactor t) t H1 = Some (t2, H2)" "changes hashf t H1 t2 H2 (stored t H)"
        "mCapacity t2 = cap" "mFilledBuckets t2 = mSize t" "mBuckets t2 = Some a2" "refs_of H2 a2 = 1"
      using rehash_ok [OF t1(1,2) d(2)] grows le d(1) t1(1,3) by (fastforce simp: table_ok_def)
    have t2: "table_ok hashf t2 H2" "clean H2" "mFilledBuckets t2 < mCapacity t2" "stored t2 H2 = stored t H"
      using r grows le moved_clean by (auto simp: changes_def)
    obtain i t' H' where fin: "add_loop h e t2 H2 = Some (i, t', H')" "changes hashf t2 H2 t' H' (stored t2 H2 + {#e#})" "entryAt i t' H' = Some e"
      using add_loop_room [OF t2(1,2) r(5,6) t2(3)] h_def by blast
    have "add_loop h e t H = Some (i, t', H')"
      using assms(3) sb(1) m(2,5) False H1(1) r(1) fin(1) by (subst add_loop.simps) (auto simp: S_def)
    moreover have "moved (mBuckets t) (mBuckets t') H H'"
      using moved_trans [OF moved_trans [of "mBuckets t" "mBuckets t" H H1 "mBuckets t2" H2]] H1(2) r(2) fin(2) by (auto simp: changes_def)
    ultimately show ?thesis using fin(2,3) t2(4) by (auto simp: changes_def h_def)
  qed
qed

text \<open>The condition under which \<open>add\<close> does not run into the empty array, nor past the last prime.\<close>

definition can_add :: "hashtable \<Rightarrow> bool" where
  "can_add t \<longleftrightarrow> (mCapacity t \<le> mFilledBuckets t \<longrightarrow> mSize t \<noteq> 0 \<and> determineCapacity (max (mCapacity t * 2) (mSize t)) (mLoadFactor t) \<noteq> None)"

lemma add_ok:
  assumes "table_ok hashf t H" and "clean H" and "can_add t"
  shows "\<exists>i t' H'. add (hashf e) e t H = Some (i, t', H') \<and> changes hashf t H t' H' (stored t H + {#e#}) \<and> entryAt i t' H' = Some e"
proof -
  obtain x H1 where start: "(case mBuckets t of None \<Rightarrow> let (a, H1) = sb_alloc (empty_buckets (mBucketCount t)) H in Some (t\<lparr>mBuckets := Some a\<rparr>, H1) | Some _ \<Rightarrow> edit t H)
      = Some (t\<lparr>mBuckets := Some x\<rparr>, H1)" "changes hashf t H (t\<lparr>mBuckets := Some x\<rparr>) H1 (stored t H)" "refs_of H1 x = 1"
  proof (cases "mBuckets t")
    case None
    define a where "a = fst (sb_alloc (empty_buckets (mBucketCount t) :: 'a bucket list) H)"
    define H1 where "H1 = snd (sb_alloc (empty_buckets (mBucketCount t)) H)"
    have new: "sb_at H1 a = Some \<lparr>mRefs = 1, contents = empty_buckets (mBucketCount t)\<rparr>" by (simp add: H1_def a_def sb_alloc_def sb_at_alloc)
    have t: "is_prime (mBucketCount t)" "5 \<le> mBucketCount t" using assms(1) by (auto simp: table_ok_def)
    have "changes hashf t H (t\<lparr>mBuckets := Some a\<rparr>) H1 (stored t H)"
      using moved_alloc [OF assms(2), of "empty_buckets (mBucketCount t)"] assms(1) None new empty_array [OF t, of hashf]
      by (auto simp: changes_def table_ok_def stored_def a_def H1_def empty_buckets_def)
    moreover have "refs_of H1 a = 1" using new by (simp add: refs_of_def)
    ultimately show thesis using that [of a H1] None by (simp add: a_def H1_def split_beta Let_def)
  next
    case (Some a)
    then show thesis using edit_ok [OF assms(1,2)] that by fastforce
  qed
  define t1 where "t1 = t\<lparr>mBuckets := Some x\<rparr>"
  have t1: "table_ok hashf t1 H1" "clean H1" "mBuckets t1 = Some x" "stored t1 H1 = stored t H" using start(2) moved_clean by (auto simp: changes_def t1_def)
  have grow: "mCapacity t1 \<le> mFilledBuckets t1 \<Longrightarrow> mSize t1 \<noteq> 0 \<and> determineCapacity (max (mCapacity t1 * 2) (mSize t1)) (mLoadFactor t1) \<noteq> None"
    using assms(3) by (simp add: can_add_def t1_def)
  obtain i t' H' where fin: "add_loop (trimHash (hashf e)) e t1 H1 = Some (i, t', H')" "changes hashf t1 H1 t' H' (stored t1 H1 + {#e#})" "entryAt i t' H' = Some e"
    using add_loop_ok [OF t1(1-3) start(3) grow] by blast
  have "add (hashf e) e t H = Some (i, t', H')" unfolding add_def start(1) using fin(1) by (simp add: t1_def)
  moreover have "moved (mBuckets t) (mBuckets t') H H'"
    using moved_trans [of "mBuckets t" "mBuckets t1" H H1] start(2) fin(2) by (auto simp: changes_def t1_def)
  ultimately show ?thesis using fin(2,3) t1(4) by (auto simp: changes_def)
qed

end
