(* ===== verification/Hashtable_Find.thy ===== *)
theory Hashtable_Find
  imports Hashtable_Grow
begin

text \<open>Finding an entry by its key, and walking over the entries.\<close>

unbundle bit_operations_syntax

section \<open>Hits\<close>

text \<open>The hash code of an entry is that of its key, so an entry with the key is a hit on the chain of the key.\<close>

lemma hit_stored:
  assumes "array_ok (hashf \<circ> getKey) n bs"
  shows "(\<exists>e. e \<in># entries bs \<and> getKey e = k) \<longleftrightarrow> (\<exists>m<n. hit getKey k (trimHash (hashf k)) (bs ! chain (trimHash (hashf k)) n m))"
proof
  have n: "length bs = n" "is_prime n" "5 \<le> n" using assms by (auto simp: array_ok_def)
  assume "\<exists>e. e \<in># entries bs \<and> getKey e = k"
  then obtain b where b: "b \<in> set bs" "present b" "getKey (the (entry b)) = k" by (auto simp: entries_def)
  then obtain i where i: "i < n" "bs ! i = b" using n(1) by (auto simp: in_set_conv_nth)
  then have "hit getKey k (trimHash (hashf k)) (bs ! i)" using assms b by (auto simp: array_ok_def hit_def)
  then show "\<exists>m<n. hit getKey k (trimHash (hashf k)) (bs ! chain (trimHash (hashf k)) n m)"
    using chain_onto [OF n(2,3) i(1), of "trimHash (hashf k)"] by metis
next
  assume "\<exists>m<n. hit getKey k (trimHash (hashf k)) (bs ! chain (trimHash (hashf k)) n m)"
  then obtain m where "hit getKey k (trimHash (hashf k)) (bs ! chain (trimHash (hashf k)) n m)" by blast
  then obtain i e where "i < n" "present (bs ! i)" "entry (bs ! i) = Some e" "getKey e = k"
    using assms chain_less [of n "trimHash (hashf k)" m] by (auto simp: array_ok_def hit_def)
  then have "e \<in># entries bs \<and> getKey e = k" using assms by (force simp: entries_def array_ok_def in_set_conv_nth)
  then show "\<exists>e. e \<in># entries bs \<and> getKey e = k" by blast
qed

lemma find_first:
  fixes k :: "'k"
  assumes "table_ok (hashf \<circ> getKey) t H" and "mBuckets t = Some a" and "sb_at H a = Some sb" and "mSize t \<noteq> 0"
  defines "h \<equiv> trimHash (hashf k)"
  shows "\<exists>r. find_entry getKey (- 1) (hashf k) k t H = Some r
    \<and> (if \<exists>m<mBucketCount t. hit getKey k h (contents sb ! chain h (mBucketCount t) m)
       then \<exists>m<mBucketCount t. hit getKey k h (contents sb ! chain h (mBucketCount t) m) \<and> r = int (chain h (mBucketCount t) m)
       else r = - 1)"
proof -
  define n where "n = mBucketCount t"
  define bs where "bs = contents sb"
  define b where "b = bs ! chain h n 0"
  have ok: "array_ok (hashf \<circ> getKey) n bs" "filled bs < n" using assms(1-3) by (auto simp: table_ok_def n_def bs_def)
  have n: "length bs = n" "5 \<le> n" and i: "chain h n 0 < n" using ok(1) chain_less [of n h 0] by (auto simp: array_ok_def)
  have full: "\<exists>e. entry b = Some e \<and> hash_in b = trimHash (hashf (getKey e))" if "present b" using that ok(1) i by (auto simp: array_ok_def b_def)
  obtain p where p: "p < n" "\<not> in_use (bs ! chain h n p)" by (rule free_on_chain [OF ok])
  have start: "chainStart h n = chain h n 0" and at: "bucketAt bs (chain h n 0) = Some b" using i n by (simp_all add: chain_0 bucketAt_def b_def)
  have step: "find_entry getKey (- 1) (hashf k) k t H
      = (if hit getKey k h b then Some (int (chain h n 0)) else if \<not> in_use b then Some (- 1) else find_loop getKey k h (chainIncrement h n) n bs (chain h n 0))"
  proof (cases "present b")
    case True
    obtain e where e: "entry b = Some e" "hash_in b = trimHash (hashf (getKey e))" using full [OF True] by blast
    have "hit getKey k h b \<longleftrightarrow> getKey e = k" using True e by (auto simp: hit_def h_def)
    then show ?thesis using assms(2-4) at True e(1)
      by (simp add: find_entry_def h_def [symmetric] n_def [symmetric] bs_def [symmetric] start in_use_def Let_def)
  next
    case False
    then show ?thesis using assms(2-4) at by (simp add: find_entry_def h_def [symmetric] n_def [symmetric] bs_def [symmetric] start hit_def in_use_def Let_def)
  qed
  consider "hit getKey k h b" | "\<not> hit getKey k h b" "\<not> in_use b" | "\<not> hit getKey k h b" "in_use b" by blast
  then have "\<exists>r. find_entry getKey (- 1) (hashf k) k t H = Some r \<and> (if \<exists>m<n. hit getKey k h (bs ! chain h n m)
       then \<exists>m<n. hit getKey k h (bs ! chain h n m) \<and> r = int (chain h n m) else r = - 1)"
  proof cases
    case 1
    then show ?thesis unfolding step using n(2) by (auto simp: b_def intro!: exI [of _ 0])
  next
    case 2
    have "\<not> hit getKey k h (bs ! chain h n m)" if "m < n" for m
      using hit_linked [OF ok(1) that, of getKey k h 0] 2 by (cases m) (auto simp: b_def in_use_def)
    then show ?thesis unfolding step using 2 by auto
  next
    case 3
    have "0 < p" using p(2) 3(2) by (cases p) (auto simp: b_def)
    then obtain r where r: "find_loop getKey k h (chainIncrement h n) n bs (chain h n 0) = Some r"
        "if \<exists>m. 0 < m \<and> m < n \<and> hit getKey k h (bs ! chain h n m)
         then \<exists>m. 0 < m \<and> m < n \<and> hit getKey k h (bs ! chain h n m) \<and> r = int (chain h n m) \<and> (\<forall>j. 0 < j \<and> j < m \<longrightarrow> \<not> hit getKey k h (bs ! chain h n j))
         else r = - 1"
      using find_loop_spec [OF ok(1), of 0 p h getKey k] p by (auto simp: in_use_def)
    have pos: "0 < m \<and> m < n \<and> hit getKey k h (bs ! chain h n m) \<longleftrightarrow> m < n \<and> hit getKey k h (bs ! chain h n m)" for m
      using 3(1) by (cases m) (auto simp: b_def)
    show ?thesis unfolding step using 3 r pos by (auto split: if_splits)
  qed
  then show ?thesis by (simp only: n_def bs_def)
qed

section \<open>Entries of a table\<close>

definition present_at :: "nat \<Rightarrow> hashtable \<Rightarrow> 'e bucket shared_heap \<Rightarrow> bool" where
  "present_at i t H \<longleftrightarrow> (case mBuckets t of None \<Rightarrow> False
     | Some a \<Rightarrow> (case sb_at H a of None \<Rightarrow> False | Some sb \<Rightarrow> i < length (contents sb) \<and> present (contents sb ! i)))"

lemma find_ok:
  assumes "table_ok (hashf \<circ> getKey) t H"
  shows "\<exists>r. find_entry getKey (- 1) (hashf k) k t H = Some r
    \<and> (if \<exists>e. e \<in># stored t H \<and> getKey e = k
       then \<exists>i e. r = int i \<and> present_at i t H \<and> entryAt i t H = Some e \<and> e \<in># stored t H \<and> getKey e = k
       else r = - 1)"
proof (cases "mSize t = 0")
  case True
  then have "stored t H = {#}" using size_stored [OF assms] by simp
  then show ?thesis using True by (simp add: find_entry_def)
next
  case False
  then obtain a where a: "mBuckets t = Some a" using assms by (cases "mBuckets t") (auto simp: table_ok_def)
  obtain sb where sb: "sb_at H a = Some sb" "array_ok (hashf \<circ> getKey) (mBucketCount t) (contents sb)" "stored t H = entries (contents sb)"
    using table_buffer [OF assms a] by metis
  define h where "h = trimHash (hashf k)"
  define n where "n = mBucketCount t"
  have len: "length (contents sb) = n" "5 \<le> n" using sb(2) by (auto simp: array_ok_def n_def)
  have there: "\<exists>e. present_at (chain h n m) t H \<and> entryAt (chain h n m) t H = Some e \<and> e \<in># stored t H \<and> getKey e = k" if hit: "hit getKey k h (contents sb ! chain h n m)" for m
  proof -
    have i: "chain h n m < length (contents sb)" using len chain_less [of n h m] by simp
    obtain e where e: "entry (contents sb ! chain h n m) = Some e" "getKey e = k" "present (contents sb ! chain h n m)" using hit by (auto simp: hit_def)
    have "contents sb ! chain h n m \<in> set (filter present (contents sb))" using i e(3) by simp
    then have "e \<in> set (map (the \<circ> entry) (filter present (contents sb)))" using e(1) by force
    then have "e \<in># stored t H" unfolding sb(3) entries_def set_mset_mset .
    then show ?thesis using i e a sb(1) by (auto simp: present_at_def entryAt_def bucketAt_def)
  qed
  show ?thesis using find_first [OF assms a sb(1) False, of k] hit_stored [OF sb(2), of k] there unfolding sb(3) h_def [symmetric] n_def [symmetric]
    by (auto split: if_splits)
qed

text \<open>\<open>next\<close> gives the entries in the order of the array.\<close>

lemma first_from: "(case filter P [i..<n] of [] \<Rightarrow> - 1 | j # _ \<Rightarrow> int j) = (r :: int) \<Longrightarrow>
    (if \<exists>j. i \<le> j \<and> j < n \<and> P j then \<exists>j. r = int j \<and> i \<le> j \<and> j < n \<and> P j \<and> (\<forall>l. i \<le> l \<and> l < j \<longrightarrow> \<not> P l) else r = - 1)"
proof (induction "n - i" arbitrary: i)
  case (Suc d)
  then have "[i..<n] = i # [Suc i..<n]" "i < n" by (auto intro: upt_conv_Cons)
  show ?case
  proof (cases "P i")
    case True
    then show ?thesis using Suc.prems \<open>[i..<n] = i # [Suc i..<n]\<close> \<open>i < n\<close> by auto
  next
    case False
    then have "(case filter P [Suc i..<n] of [] \<Rightarrow> - 1 | j # _ \<Rightarrow> int j) = r" using Suc.prems \<open>[i..<n] = i # [Suc i..<n]\<close> by simp
    then have ih: "if \<exists>j. Suc i \<le> j \<and> j < n \<and> P j then \<exists>j. r = int j \<and> Suc i \<le> j \<and> j < n \<and> P j \<and> (\<forall>l. Suc i \<le> l \<and> l < j \<longrightarrow> \<not> P l) else r = - 1"
      using Suc.hyps by (intro Suc.hyps(1)) simp_all
    have same: "i \<le> j \<and> j < n \<and> P j \<longleftrightarrow> Suc i \<le> j \<and> j < n \<and> P j" for j using False by (metis Suc_leI le_eq_less_or_eq Suc_leD)
    have before: "(\<forall>l. i \<le> l \<and> l < j \<longrightarrow> \<not> P l) \<longleftrightarrow> (\<forall>l. Suc i \<le> l \<and> l < j \<longrightarrow> \<not> P l)" for j using False by (metis Suc_leI le_eq_less_or_eq Suc_leD)
    show ?thesis using ih unfolding same before by (auto split: if_splits dest: Suc_leD)
  qed
qed auto

lemma next_ok:
  assumes "table_ok hashf t H" and "- 1 \<le> index"
  shows "\<exists>r. next_entry index t H = Some r
    \<and> (if \<exists>j. index < int j \<and> present_at j t H then \<exists>j. r = int j \<and> index < int j \<and> present_at j t H \<and> (\<forall>l. index < int l \<and> l < j \<longrightarrow> \<not> present_at l t H)
       else r = - 1)"
proof (cases "mSize t = 0")
  case True
  have "\<not> present_at j t H" for j
    using True assms(1) by (auto simp: present_at_def table_ok_def filter_empty_conv split: option.splits)
  then show ?thesis using True by (simp add: next_entry_def)
next
  case False
  then obtain a where a: "mBuckets t = Some a" using assms by (cases "mBuckets t") (auto simp: table_ok_def)
  obtain sb where sb: "sb_at H a = Some sb" "array_ok hashf (mBucketCount t) (contents sb)" using table_buffer [OF assms(1) a] by metis
  have at: "present_at j t H \<longleftrightarrow> j < mBucketCount t \<and> present (contents sb ! j)" for j using a sb by (auto simp: present_at_def array_ok_def)
  have after: "nat (index + 1) \<le> j \<longleftrightarrow> index < int j" for j using assms(2) by auto
  define r :: int where "r = (case filter (\<lambda>i. present (contents sb ! i)) [nat (index + 1)..<mBucketCount t] of [] \<Rightarrow> - 1 | i # _ \<Rightarrow> int i)"
  have "next_entry index t H = Some r" using False assms(2) a sb(1) by (simp add: next_entry_def r_def)
  then show ?thesis using first_from [OF r_def [symmetric]] unfolding at after by (intro exI [of _ r]) (auto split: if_splits)
qed

end
