(* ===== verification/Hashtable_Props.thy ===== *)
theory Hashtable_Props
  imports Hashtable_Find "HOL-Library.Code_Target_Nat"
begin

text \<open>
  Several tables over one heap of shared buffers, as clients use them: whatever sequence of constructions, copies, assignments, insertions and removals they run, every table holds the
  multiset of entries it would hold if nothing were shared.
\<close>

unbundle bit_operations_syntax

section \<open>Sequences of operations\<close>

text \<open>Operations one after the other, those that may be run, and what a specification makes of them.\<close>

fun exec_all :: "('o \<Rightarrow> 's \<Rightarrow> 's option) \<Rightarrow> 'o list \<Rightarrow> 's \<Rightarrow> 's option" where
  "exec_all exec [] s = Some s"
| "exec_all exec (x # xs) s = do { s1 \<leftarrow> exec x s; exec_all exec xs s1 }"

fun allowed_all :: "('o \<Rightarrow> 's \<Rightarrow> 's option) \<Rightarrow> ('o \<Rightarrow> 's \<Rightarrow> bool) \<Rightarrow> 'o list \<Rightarrow> 's \<Rightarrow> bool" where
  "allowed_all exec allowed [] s \<longleftrightarrow> True"
| "allowed_all exec allowed (x # xs) s \<longleftrightarrow> allowed x s \<and> (case exec x s of None \<Rightarrow> True | Some s1 \<Rightarrow> allowed_all exec allowed xs s1)"

inductive spec_all :: "('o \<Rightarrow> 'a \<Rightarrow> 'a \<Rightarrow> bool) \<Rightarrow> 'o list \<Rightarrow> 'a \<Rightarrow> 'a \<Rightarrow> bool" for spec where
  "spec_all spec [] a a"
| "spec x a b \<Longrightarrow> spec_all spec xs b c \<Longrightarrow> spec_all spec (x # xs) a c"

lemma exec_all_append: "exec_all exec (xs @ ys) s = (exec_all exec xs s \<bind> exec_all exec ys)"
  by (induction xs arbitrary: s) (auto split: Option.bind_splits)

lemma allowed_all_prefix: "allowed_all exec allowed (xs @ ys) s \<Longrightarrow> allowed_all exec allowed xs s"
  by (induction xs arbitrary: s) (auto split: option.splits)

text \<open>A provider whose operations succeed where they are allowed and do what the specification says, step by step.\<close>

locale simulated_ops =
  fixes exec :: "'o \<Rightarrow> 's \<Rightarrow> 's option" and allowed :: "'o \<Rightarrow> 's \<Rightarrow> bool" and inv :: "'s \<Rightarrow> bool" and view :: "'s \<Rightarrow> 'a" and spec :: "'o \<Rightarrow> 'a \<Rightarrow> 'a \<Rightarrow> bool"
  assumes step_law: "inv s \<Longrightarrow> allowed x s \<Longrightarrow> \<exists>s'. exec x s = Some s' \<and> inv s' \<and> spec x (view s) (view s')"
begin

lemma runs: "inv s \<Longrightarrow> allowed_all exec allowed xs s \<Longrightarrow> \<exists>s'. exec_all exec xs s = Some s' \<and> inv s' \<and> spec_all spec xs (view s) (view s')"
proof (induction xs arbitrary: s)
  case (Cons x xs)
  obtain s1 where s1: "exec x s = Some s1" "inv s1" "spec x (view s) (view s1)" using step_law Cons.prems by fastforce
  then obtain s2 where "exec_all exec xs s1 = Some s2" "inv s2" "spec_all spec xs (view s1) (view s2)" using Cons.IH [OF s1(2)] Cons.prems(2) by auto
  then show ?case using s1 spec_all.intros(2) by fastforce
qed (auto intro: spec_all.intros)

lemma reached: "inv s \<Longrightarrow> allowed_all exec allowed xs s \<Longrightarrow> exec_all exec xs s = Some s' \<Longrightarrow> inv s'"
  using runs by fastforce

end

section \<open>Systems of tables\<close>

type_synonym 'e tables = "(nat \<rightharpoonup> hashtable) \<times> 'e bucket shared_heap"

datatype ('e, 'k) table_op =
    NewTable nat nat float32
  | CopyTable nat nat
  | AssignTable nat nat
  | DestroyTable nat
  | ClearTable nat
  | AddEntry nat 'e
  | RemoveKey nat 'k
  | RehashTable nat nat float32

text \<open>A client removes by key: the index that \<open>find\<close> gives is handed to \<open>removeAt\<close>.\<close>

fun exec_op :: "('e \<Rightarrow> 'k) \<Rightarrow> ('k \<Rightarrow> u32) \<Rightarrow> ('e, 'k) table_op \<Rightarrow> 'e tables \<Rightarrow> 'e tables option" where
  "exec_op getKey hashf (NewTable n m lf) (T, H) = do { t \<leftarrow> BasicHashtable m lf; Some (T(n \<mapsto> t), H) }"
| "exec_op getKey hashf (CopyTable n k) (T, H) = do { other \<leftarrow> T k; (t, H1) \<leftarrow> copy_table other H; Some (T(n \<mapsto> t), H1) }"
| "exec_op getKey hashf (AssignTable n k) (T, H) = do { t \<leftarrow> T n; other \<leftarrow> T k; (t1, H1) \<leftarrow> setTo t other H; Some (T(n \<mapsto> t1), H1) }"
| "exec_op getKey hashf (DestroyTable n) (T, H) = do { t \<leftarrow> T n; H1 \<leftarrow> dispose t H; Some (T(n := None), H1) }"
| "exec_op getKey hashf (ClearTable n) (T, H) = do { t \<leftarrow> T n; (t1, H1) \<leftarrow> clear t H; Some (T(n \<mapsto> t1), H1) }"
| "exec_op getKey hashf (AddEntry n e) (T, H) = do { t \<leftarrow> T n; (_, t1, H1) \<leftarrow> add (hashf (getKey e)) e t H; Some (T(n \<mapsto> t1), H1) }"
| "exec_op getKey hashf (RemoveKey n k) (T, H) = do {
     t \<leftarrow> T n;
     i \<leftarrow> find_entry getKey (- 1) (hashf k) k t H;
     if i < 0 then Some (T, H) else do { (t1, H1) \<leftarrow> removeAt (nat i) t H; Some (T(n \<mapsto> t1), H1) } }"
| "exec_op getKey hashf (RehashTable n m lf) (T, H) = do { t \<leftarrow> T n; (t1, H1) \<leftarrow> rehash m lf t H; Some (T(n \<mapsto> t1), H1) }"

abbreviation exec_ops :: "('e \<Rightarrow> 'k) \<Rightarrow> ('k \<Rightarrow> u32) \<Rightarrow> ('e, 'k) table_op list \<Rightarrow> 'e tables \<Rightarrow> 'e tables option" where
  "exec_ops getKey hashf \<equiv> exec_all (exec_op getKey hashf)"

text \<open>
  What clients have to respect: tables exist or do not, a table is not assigned to itself, load factors are at most 1, sizes are within the table of primes, and nothing is added to a table without entries whose
  buckets are all taken by removed ones.
\<close>

fun permitted :: "('e, 'k) table_op \<Rightarrow> 'e tables \<Rightarrow> bool" where
  "permitted (NewTable n m lf) (T, H) \<longleftrightarrow> T n = None \<and> load_ok lf \<and> determineCapacity m lf \<noteq> None"
| "permitted (CopyTable n k) (T, H) \<longleftrightarrow> T n = None \<and> T k \<noteq> None"
| "permitted (AssignTable n k) (T, H) \<longleftrightarrow> n \<noteq> k \<and> T n \<noteq> None \<and> T k \<noteq> None"
| "permitted (DestroyTable n) (T, H) \<longleftrightarrow> T n \<noteq> None"
| "permitted (ClearTable n) (T, H) \<longleftrightarrow> T n \<noteq> None"
| "permitted (AddEntry n e) (T, H) \<longleftrightarrow> (case T n of None \<Rightarrow> False | Some t \<Rightarrow> can_add t)"
| "permitted (RemoveKey n k) (T, H) \<longleftrightarrow> T n \<noteq> None"
| "permitted (RehashTable n m lf) (T, H) \<longleftrightarrow>
     load_ok lf \<and> (case T n of None \<Rightarrow> False | Some t \<Rightarrow> (case determineCapacity (max m (mSize t)) lf of None \<Rightarrow> False | Some (_, capacity) \<Rightarrow> mSize t \<le> capacity))"

abbreviation all_permitted :: "('e \<Rightarrow> 'k) \<Rightarrow> ('k \<Rightarrow> u32) \<Rightarrow> ('e, 'k) table_op list \<Rightarrow> 'e tables \<Rightarrow> bool" where
  "all_permitted getKey hashf \<equiv> allowed_all (exec_op getKey hashf) permitted"

text \<open>The specification: tables are multisets, and a copy is a value.\<close>

inductive bag_step :: "('e \<Rightarrow> 'k) \<Rightarrow> ('e, 'k) table_op \<Rightarrow> (nat \<rightharpoonup> 'e multiset) \<Rightarrow> (nat \<rightharpoonup> 'e multiset) \<Rightarrow> bool" for getKey where
  "bag_step getKey (NewTable n m lf) A (A(n \<mapsto> {#}))"
| "A k = Some M \<Longrightarrow> bag_step getKey (CopyTable n k) A (A(n \<mapsto> M))"
| "A k = Some M \<Longrightarrow> bag_step getKey (AssignTable n k) A (A(n \<mapsto> M))"
| "bag_step getKey (DestroyTable n) A (A(n := None))"
| "bag_step getKey (ClearTable n) A (A(n \<mapsto> {#}))"
| "A n = Some M \<Longrightarrow> bag_step getKey (AddEntry n e) A (A(n \<mapsto> M + {#e#}))"
| "A n = Some M \<Longrightarrow> e \<in># M \<Longrightarrow> getKey e = k \<Longrightarrow> bag_step getKey (RemoveKey n k) A (A(n \<mapsto> M - {#e#}))"
| "A n = Some M \<Longrightarrow> \<forall>e. e \<in># M \<longrightarrow> getKey e \<noteq> k \<Longrightarrow> bag_step getKey (RemoveKey n k) A A"
| "bag_step getKey (RehashTable n m lf) A A"

abbreviation bag_steps :: "('e \<Rightarrow> 'k) \<Rightarrow> ('e, 'k) table_op list \<Rightarrow> (nat \<rightharpoonup> 'e multiset) \<Rightarrow> (nat \<rightharpoonup> 'e multiset) \<Rightarrow> bool" where
  "bag_steps getKey \<equiv> spec_all (bag_step getKey)"

fun holds :: "'e tables \<Rightarrow> nat \<Rightarrow> 'e multiset option" where
  "holds (T, H) n = map_option (\<lambda>t. stored t H) (T n)"

section \<open>The invariant\<close>

definition owners :: "(nat \<rightharpoonup> hashtable) \<Rightarrow> nat \<Rightarrow> nat set" where
  "owners T a = {n. \<exists>t. T n = Some t \<and> mBuckets t = Some a}"

definition tables_ok :: "('e \<Rightarrow> u32) \<Rightarrow> 'e tables \<Rightarrow> bool" where
  "tables_ok hashf S \<longleftrightarrow> (case S of (T, H) \<Rightarrow> clean H \<and> finite (dom T) \<and> (\<forall>n t. T n = Some t \<longrightarrow> table_ok hashf t H) \<and> (\<forall>a. refs_of H a = card (owners T a)))"

lemma owners_finite: "finite (dom T) \<Longrightarrow> finite (owners T a)"
  by (rule finite_subset [of _ "dom T"]) (auto simp: owners_def)

lemma owners_update:
  assumes "finite (dom T)"
  shows "card (owners (T(n := x)) a) + of_bool ((T n \<bind> mBuckets) = Some a) = card (owners T a) + of_bool ((x \<bind> mBuckets) = Some a)"
proof -
  have rest: "owners T a - {n} = owners (T(n := x)) a - {n}" by (auto simp: owners_def)
  have mem: "n \<in> owners T a \<longleftrightarrow> (T n \<bind> mBuckets) = Some a" "n \<in> owners (T(n := x)) a \<longleftrightarrow> (x \<bind> mBuckets) = Some a"
    by (auto simp: owners_def split: Option.bind_splits)
  have total: "card X = card (X - {n}) + of_bool (n \<in> X)" if "finite X" for X :: "nat set"
    using that card_Suc_Diff1 [of X n] by (cases "n \<in> X") simp_all
  have "finite (owners T a)" "finite (owners (T(n := x)) a)" using assms by (simp_all add: owners_finite)
  then show ?thesis using total [of "owners T a"] total [of "owners (T(n := x)) a"] rest mem by simp
qed

text \<open>An operation on one table: the others keep what they hold.\<close>

lemma tables_step:
  assumes ok: "tables_ok hashf (T, H)" and mv: "moved (T n \<bind> mBuckets) (x \<bind> mBuckets) H H'" and new: "\<And>t. x = Some t \<Longrightarrow> table_ok hashf t H'"
  shows "tables_ok hashf (T(n := x), H')" and "k \<noteq> n \<Longrightarrow> holds (T(n := x), H') k = holds (T, H) k"
proof -
  have fin: "finite (dom T)" using ok by (simp add: tables_ok_def)
  have refs: "refs_of H' a = card (owners (T(n := x)) a)" for a
  proof -
    have "refs_of H' a + of_bool ((T n \<bind> mBuckets) = Some a) = refs_of H a + of_bool ((x \<bind> mBuckets) = Some a)" using mv by (simp add: moved_def)
    then show ?thesis using owners_update [OF fin, of n x a] ok by (simp add: tables_ok_def)
  qed
  have other: "table_ok hashf t H' \<and> stored t H' = stored t H" if t: "T k = Some t" "k \<noteq> n" for k t
  proof (rule moved_other [OF _ mv])
    show "table_ok hashf t H" using ok t by (simp add: tables_ok_def)
    fix a assume a: "mBuckets t = Some a"
    have k: "k \<in> owners (T(n := x)) a" using t a by (simp add: owners_def)
    have fin': "finite (owners (T(n := x)) a)" using fin by (simp add: owners_finite)
    have "card {k} \<le> card (owners (T(n := x)) a)" using k fin' by (intro card_mono) auto
    moreover have "card {k, n} \<le> card (owners (T(n := x)) a)" if "(x \<bind> mBuckets) = Some a"
      using k fin' that by (intro card_mono) (auto simp: owners_def split: Option.bind_splits)
    ultimately show "0 < refs_of H' a \<and> ((x \<bind> mBuckets) = Some a \<longrightarrow> 1 < refs_of H' a)" using t(2) unfolding refs by auto
  qed
  show "tables_ok hashf (T(n := x), H')" using refs other new fin mv by (auto simp: tables_ok_def moved_clean split: if_splits)
  show "k \<noteq> n \<Longrightarrow> holds (T(n := x), H') k = holds (T, H) k" using other [of k] by (cases "T k") auto
qed

lemma table_changes:
  assumes "tables_ok hashf (T, H)" and "T n = Some t" and "changes hashf t H t' H' M"
  shows "tables_ok hashf (T(n \<mapsto> t'), H')" and "holds (T(n \<mapsto> t'), H') = (holds (T, H))(n \<mapsto> M)"
proof -
  have mv: "moved (T n \<bind> mBuckets) (Some t' \<bind> mBuckets) H H'" and new: "\<And>u. Some t' = Some u \<Longrightarrow> table_ok hashf u H'"
    using assms(2,3) by (auto simp: changes_def)
  show "tables_ok hashf (T(n \<mapsto> t'), H')" by (rule tables_step(1) [OF assms(1) mv new])
  show "holds (T(n \<mapsto> t'), H') = (holds (T, H))(n \<mapsto> M)"
    using tables_step(2) [OF assms(1) mv new] assms(3) by (auto simp: fun_eq_iff changes_def)
qed

lemma live_table: "tables_ok hashf (T, H) \<Longrightarrow> T n = Some t \<Longrightarrow> table_ok hashf t H \<and> clean H"
  by (simp add: tables_ok_def)

section \<open>Refinement\<close>

lemma holds_update:
  assumes "tables_ok hashf (T, H)" and "moved (T n \<bind> mBuckets) (x \<bind> mBuckets) H H'" and "\<And>t. x = Some t \<Longrightarrow> table_ok hashf t H'"
  shows "holds (T(n := x), H') = (holds (T, H))(n := map_option (\<lambda>t. stored t H') x)"
  using tables_step(2) [OF assms] by (auto simp: fun_eq_iff)

lemma new_refines:
  assumes "tables_ok hashf (T, H)" and "T n = None" and "load_ok lf" and "determineCapacity m lf \<noteq> None"
  shows "\<exists>t. BasicHashtable m lf = Some t \<and> tables_ok hashf (T(n \<mapsto> t), H) \<and> holds (T(n \<mapsto> t), H) = (holds (T, H))(n \<mapsto> {#})"
proof -
  obtain t where t: "BasicHashtable m lf = Some t" using assms(4) by (auto simp: BasicHashtable_def)
  have "clean H" using assms(1) by (simp add: tables_ok_def)
  then have mv: "moved (T n \<bind> mBuckets) (Some t \<bind> mBuckets) H H" using new_table_ok [OF t assms(3), of hashf H] assms(2) moved_refl by simp
  show ?thesis using t tables_step(1) [OF assms(1) mv] holds_update [OF assms(1) mv] new_table_ok [OF t assms(3), of hashf H] by auto
qed

lemma destroy_refines:
  assumes "tables_ok hashf (T, H)" and "T n = Some t"
  shows "\<exists>H'. dispose t H = Some H' \<and> tables_ok hashf (T(n := None), H') \<and> holds (T(n := None), H') = (holds (T, H))(n := None)"
proof -
  obtain H' where H': "dispose t H = Some H'" "moved (mBuckets t) None H H'" using dispose_ok [of hashf t H] live_table [OF assms] by blast
  then have mv: "moved (T n \<bind> mBuckets) (None \<bind> mBuckets) H H'" using assms(2) by simp
  show ?thesis using H'(1) tables_step(1) [OF assms(1) mv] holds_update [OF assms(1) mv] by auto
qed

lemma copy_refines:
  assumes "tables_ok hashf (T, H)" and "T n = None" and "T k = Some u"
  shows "\<exists>H'. copy_table u H = Some (u, H') \<and> tables_ok hashf (T(n \<mapsto> u), H') \<and> holds (T(n \<mapsto> u), H') = (holds (T, H))(n \<mapsto> stored u H)"
proof -
  obtain H' where H': "copy_table u H = Some (u, H')" "moved None (mBuckets u) H H'" "table_ok hashf u H'" "stored u H' = stored u H"
    using copy_ok [of hashf u H] live_table [OF assms(1,3)] by blast
  then have mv: "moved (T n \<bind> mBuckets) (Some u \<bind> mBuckets) H H'" using assms(2) by simp
  show ?thesis using H' tables_step(1) [OF assms(1) mv] holds_update [OF assms(1) mv] by auto
qed

lemma assign_refines:
  assumes "tables_ok hashf (T, H)" and "T n = Some t" and "T k = Some u" and "n \<noteq> k"
  shows "\<exists>H'. setTo t u H = Some (u, H') \<and> tables_ok hashf (T(n \<mapsto> u), H') \<and> holds (T(n \<mapsto> u), H') = (holds (T, H))(n \<mapsto> stored u H)"
proof -
  obtain H1 where H1: "dispose t H = Some H1" "tables_ok hashf (T(n := None), H1)" "holds (T(n := None), H1) = (holds (T, H))(n := None)"
    using destroy_refines [OF assms(1,2)] by blast
  have "holds (T(n := None), H1) k = holds (T, H) k" unfolding H1(3) using assms(4) by simp
  then have same: "stored u H1 = stored u H" using assms(3,4) by simp
  have none: "(T(n := None)) n = None" and u: "(T(n := None)) k = Some u" using assms(3,4) by simp_all
  obtain H' where "copy_table u H1 = Some (u, H')" "tables_ok hashf (T(n \<mapsto> u), H')" "holds (T(n \<mapsto> u), H') = (holds (T, H))(n \<mapsto> stored u H)"
    using copy_refines [OF H1(2) none u] unfolding fun_upd_upd H1(3) same by blast
  then show ?thesis using H1(1) by (simp add: setTo_def)
qed

lemma present_entry:
  assumes "table_ok hashf t H" and "present_at i t H"
  obtains a sb where "mBuckets t = Some a" and "sb_at H a = Some sb" and "present (contents sb ! i)"
  using assms that by (auto simp: present_at_def split: option.splits)

lemma remove_refines:
  assumes "tables_ok (hashf \<circ> getKey) (T, H)" and "T n = Some t"
  shows "\<exists>S. exec_op getKey hashf (RemoveKey n k) (T, H) = Some S \<and> tables_ok (hashf \<circ> getKey) S \<and> bag_step getKey (RemoveKey n k) (holds (T, H)) (holds S)"
proof -
  note t = live_table [OF assms]
  obtain r where r: "find_entry getKey (- 1) (hashf k) k t H = Some r"
      "if \<exists>e. e \<in># stored t H \<and> getKey e = k
       then \<exists>i e. r = int i \<and> present_at i t H \<and> entryAt i t H = Some e \<and> e \<in># stored t H \<and> getKey e = k else r = - 1"
    using find_ok [of hashf getKey t H k] t by blast
  have held: "holds (T, H) n = Some (stored t H)" using assms(2) by simp
  show ?thesis
  proof (cases "\<exists>e. e \<in># stored t H \<and> getKey e = k")
    case False
    then have "exec_op getKey hashf (RemoveKey n k) (T, H) = Some (T, H)" using assms(2) r by simp
    moreover have "bag_step getKey (RemoveKey n k) (holds (T, H)) (holds (T, H))" using False by (intro bag_step.intros(8) [of "holds (T, H)" n "stored t H"] held) blast
    ultimately show ?thesis using assms(1) by blast
  next
    case True
    then obtain i e where i: "r = int i" "present_at i t H" "entryAt i t H = Some e" "e \<in># stored t H" "getKey e = k" using r(2) by auto
    obtain t' H' where rem: "removeAt i t H = Some (t', H')" "changes (hashf \<circ> getKey) t H t' H' (stored t H - {#e#})"
      using removeAt_ok [of "hashf \<circ> getKey" t H i e] t i(2,3) present_entry [of "hashf \<circ> getKey" t H i] by metis
    have "exec_op getKey hashf (RemoveKey n k) (T, H) = Some (T(n \<mapsto> t'), H')" using assms(2) r(1) i(1) rem(1) by simp
    then show ?thesis using table_changes [OF assms rem(2)] bag_step.intros(7) [of "holds (T, H)" n "stored t H" e getKey k, OF held i(4,5)] by auto
  qed
qed

lemma exec_refines:
  assumes "tables_ok (hashf \<circ> getKey) S" and "permitted x S"
  shows "\<exists>S'. exec_op getKey hashf x S = Some S' \<and> tables_ok (hashf \<circ> getKey) S' \<and> bag_step getKey x (holds S) (holds S')"
proof -
  obtain T H where S: "S = (T, H)" by (cases S)
  note ok = assms(1) [unfolded S]
  show ?thesis
  proof (cases x)
    case (NewTable n m lf)
    then show ?thesis using new_refines [OF ok, of n lf m] assms(2) S bag_step.intros(1) by fastforce
  next
    case (CopyTable n k)
    then obtain u where u: "T n = None" "T k = Some u" using assms(2) S by auto
    then have "holds (T, H) k = Some (stored u H)" by simp
    then show ?thesis using copy_refines [OF ok u] u CopyTable S bag_step.intros(2) [of "holds (T, H)" k] by fastforce
  next
    case (AssignTable n k)
    then obtain t u where u: "T n = Some t" "T k = Some u" "n \<noteq> k" using assms(2) S by auto
    then have "holds (T, H) k = Some (stored u H)" by simp
    then show ?thesis using assign_refines [OF ok u] u AssignTable S bag_step.intros(3) [of "holds (T, H)" k] by fastforce
  next
    case (DestroyTable n)
    then obtain t where "T n = Some t" using assms(2) S by auto
    then show ?thesis using destroy_refines [OF ok, of n t] DestroyTable S bag_step.intros(4) by fastforce
  next
    case (ClearTable n)
    then obtain t where t: "T n = Some t" using assms(2) S by auto
    obtain t' H' where c: "clear t H = Some (t', H')" "changes (hashf \<circ> getKey) t H t' H' {#}" using clear_ok [of "hashf \<circ> getKey" t H] live_table [OF ok t] by blast
    then show ?thesis using table_changes [OF ok t c(2)] t ClearTable S bag_step.intros(5) by auto
  next
    case (AddEntry n e)
    then obtain t where t: "T n = Some t" "can_add t" using assms(2) S by (auto split: option.splits)
    obtain i t' H' where c: "add (hashf (getKey e)) e t H = Some (i, t', H')" "changes (hashf \<circ> getKey) t H t' H' (stored t H + {#e#})"
      using add_ok [of "hashf \<circ> getKey" t H e] live_table [OF ok t(1)] t(2) by auto
    have "bag_step getKey x (holds (T, H)) ((holds (T, H))(n \<mapsto> stored t H + {#e#}))" unfolding AddEntry using t(1) by (intro bag_step.intros(6)) simp
    then show ?thesis using table_changes [OF ok t(1) c(2)] t c(1) AddEntry S by auto
  next
    case (RemoveKey n k)
    then obtain t where t: "T n = Some t" using assms(2) S by auto
    show ?thesis unfolding S RemoveKey by (rule remove_refines [OF ok t])
  next
    case (RehashTable n m lf)
    then obtain t cnt capacity where t: "T n = Some t" "determineCapacity (max m (mSize t)) lf = Some (cnt, capacity)" "mSize t \<le> capacity" "load_ok lf"
      using assms(2) S by (auto split: option.splits)
    obtain t' H' where c: "rehash m lf t H = Some (t', H')" "changes (hashf \<circ> getKey) t H t' H' (stored t H)"
      using rehash_ok [OF _ _ t(2-4), of "hashf \<circ> getKey" H] live_table [OF ok t(1)] by blast
    have "(holds (T, H))(n \<mapsto> stored t H) = holds (T, H)" using t(1) by (auto simp: fun_eq_iff)
    then have "holds (T(n \<mapsto> t'), H') = holds (T, H)" using table_changes(2) [OF ok t(1) c(2)] by simp
    then show ?thesis using table_changes(1) [OF ok t(1) c(2)] t(1) c(1) RehashTable S bag_step.intros(9) [of getKey n m lf] by auto
  qed
qed

lemma no_tables: "tables_ok hashf (Map.empty, [])" "holds (Map.empty, []) = Map.empty"
  by (auto simp: tables_ok_def clean_def sb_at_def refs_of_def owners_def fun_eq_iff)

interpretation tables: simulated_ops "exec_op getKey hashf" permitted "tables_ok (hashf \<circ> getKey)" holds "bag_step getKey" for getKey hashf
  by unfold_locales (rule exec_refines)

lemma add_to_ghosts:
  assumes "tables_ok (hashf \<circ> getKey) (T, H)" and "T n = Some t" and "mBuckets t = Some a" and "sb_at H a = Some sb" and "mSize t = 0" and "mCapacity t \<le> mFilledBuckets t"
    and "onlyOwner a H = Some True" and "\<not> collided (contents sb ! chainStart (trimHash (hashf (getKey e))) (mBucketCount t))"
  shows "exec_op getKey hashf (AddEntry n e) (T, H) = None"
proof -
  define n' where "n' = mBucketCount t"
  define h where "h = trimHash (hashf (getKey e))"
  note ok = live_table [OF assms(1,2)]
  have arr: "array_ok (hashf \<circ> getKey) n' (contents sb)" "mSize t = length (filter present (contents sb))" using ok assms(3,4) by (auto simp: table_ok_def n'_def)
  have i: "chainStart h n' < length (contents sb)" using arr(1) by (auto simp: array_ok_def chainStart_def)
  have none: "\<not> present (contents sb ! chainStart h n')" using arr(2) assms(5) i by (auto simp: filter_empty_conv)
  have seek: "seek (chainIncrement h n') n' (contents sb) (chainStart h n') = Some (chainStart h n', contents sb)"
    using i none by (subst seek.simps) (simp add: bucketAt_def)
  have at: "bucketAt (contents sb) (chainStart h n') = Some (contents sb ! chainStart h n')" using i by (simp add: bucketAt_def)
  have put: "sb_put a (contents sb) H = Some H" using assms(4) sb_at_less [OF assms(4)] by (simp add: sb_put_def sb_at_def) (metis list_update_id)
  have re: "rehash (mCapacity t * 2) (mLoadFactor t) t H = None \<or> (\<exists>t' H'. rehash (mCapacity t * 2) (mLoadFactor t) t H = Some (t', H') \<and> mBuckets t' = None)"
  proof (cases "determineCapacity (max (mCapacity t * 2) (mSize t)) (mLoadFactor t)")
    case None
    then show ?thesis by (simp add: rehash_def)
  next
    case (Some r)
    then obtain cnt capacity where d: "determineCapacity (max (mCapacity t * 2) (mSize t)) (mLoadFactor t) = Some (cnt, capacity)" by (cases r) simp
    have "mCapacity t < capacity" using capacity_grows [OF d] ok by (simp add: table_ok_def)
    then show ?thesis using rehash_ok [OF _ _ d, of "hashf \<circ> getKey" H] ok assms(5) by (fastforce simp: table_ok_def)
  qed
  have "add_loop h e t H = None"
    using re seek at put assms(3,4,6,8) by (subst add_loop.simps) (auto simp: n'_def h_def add_loop.simps)
  moreover have "edit t H = Some (t, H)" using assms(3,7) by (simp add: edit_def)
  ultimately show ?thesis using assms(2,3) by (simp add: add_def h_def)
qed

text \<open>
  A run on a table with the default load factor: three entries on one chain, one of them replaced, all removed. Every bucket that had an entry keeps its collision flag.
\<close>

definition filling :: "(u32, u32) table_op list" where
  "filling = [NewTable 0 0 (3, 4), AddEntry 0 0, AddEntry 0 5, AddEntry 0 10, RemoveKey 0 0, AddEntry 0 257]"

definition draining :: "(u32, u32) table_op list" where
  "draining = [RemoveKey 0 5, RemoveKey 0 10, RemoveKey 0 257]"

definition filled_table :: hashtable where
  "filled_table = \<lparr>mCapacity = 3, mLoadFactor = (3, 4), mSize = 3, mFilledBuckets = 3, mBucketCount = 5, mBuckets = Some 0\<rparr>"

definition drained_buckets :: "u32 bucket list" where
  "drained_buckets = map (\<lambda>c. \<lparr>cookie = COLLISION OR c, entry = None\<rparr>) [257, 5, 10] @ empty_buckets 2"

lemma drain_permitted: "all_permitted id id (filling @ draining) (Map.empty, [])"
  by code_simp

lemma fill_permitted: "all_permitted id id filling (Map.empty, [])"
  by (rule allowed_all_prefix [OF drain_permitted])

lemma drain_run: "case exec_ops id id (filling @ draining) (Map.empty, []) of None \<Rightarrow> False
    | Some (T, H) \<Rightarrow> T 0 = Some (filled_table\<lparr>mSize := 0\<rparr>) \<and> H = [Some \<lparr>mRefs = 1, contents = drained_buckets\<rparr>]"
  by code_simp

section \<open>Properties\<close>

text \<open>
  C28. Starting without tables, every sequence of operations that clients may run is carried out without a fault, and in the end each table holds the multiset of entries that the
  same operations give on independent multisets: tables that share an array of buckets after a copy or an assignment never see each other's changes, growing and rehashing lose nothing, and
  removing by key takes away one entry with that key or none when there is none.
\<close>

theorem hashtables_refine_multisets:
  assumes "all_permitted getKey hashf xs (Map.empty, [])"
  shows "\<exists>S. exec_ops getKey hashf xs (Map.empty, []) = Some S \<and> bag_steps getKey xs Map.empty (holds S)"
proof -
  obtain S where "exec_ops getKey hashf xs (Map.empty, []) = Some S" "bag_steps getKey xs (holds (Map.empty, [])) (holds S)"
    using tables.runs [OF no_tables(1) assms] by blast
  then show ?thesis unfolding no_tables(2) by blast
qed

theorem hashtables_refine_multisets_witness: "\<exists>S. exec_ops id id filling (Map.empty, []) = Some S \<and> bag_steps id filling Map.empty (holds S)"
  by (rule hashtables_refine_multisets [OF fill_permitted])

text \<open>
  After any such sequence, \<open>find\<close> on any table returns: the index of an entry with the key when the table holds one, whatever was removed from its chain, and -1 otherwise.
\<close>

theorem hashtable_find_complete:
  assumes "all_permitted getKey hashf xs (Map.empty, [])" and "exec_ops getKey hashf xs (Map.empty, []) = Some (T, H)" and "T n = Some t"
  shows "\<exists>r. find_entry getKey (- 1) (hashf k) k t H = Some r
    \<and> (if \<exists>e. e \<in># stored t H \<and> getKey e = k then \<exists>i e. r = int i \<and> entryAt i t H = Some e \<and> e \<in># stored t H \<and> getKey e = k else r = - 1)"
proof -
  have "tables_ok (hashf \<circ> getKey) (T, H)" by (rule tables.reached [OF no_tables(1) assms(1,2)])
  then have "table_ok (hashf \<circ> getKey) t H" using assms(3) by (simp add: tables_ok_def)
  then show ?thesis using find_ok [of hashf getKey t H k] by (auto split: if_splits)
qed

text \<open>
  C30. The prime number of buckets that \<open>determineCapacity\<close> gives leaves a bucket free when the table is filled to its capacity, in spite of the rounding of floating point, so that the loops
  over a chain end; and it gives room for more when a full table asks for twice its capacity.
\<close>

theorem capacity_leaves_room:
  assumes "determineCapacity m lf = Some (n, capacity)" and lf: "0 < fst lf" "fst lf \<le> snd lf"
  shows "is_prime n \<and> 0 < capacity \<and> capacity < n \<and> (\<forall>c. 0 < c \<and> m = c * 2 \<longrightarrow> c < capacity)"
proof -
  have lf: "load_ok lf" using lf by (simp add: load_ok_def)
  have "c < capacity" if "0 < c" "m = c * 2" for c using capacity_grows [of c 0 lf n capacity] assms(1) lf that by simp
  then show ?thesis using determine_ok [OF assms(1) lf] by blast
qed

theorem capacity_leaves_room_witness: "determineCapacity 6 (3, 4) = Some (11, 8) \<and> is_prime 11 \<and> 3 < (8 :: nat) \<and> 8 < (11 :: nat)"
proof -
  have d: "determineCapacity 6 (3, 4) = Some (11, 8)" by code_simp
  then show ?thesis using capacity_leaves_room [OF d] by simp
qed

text \<open>
  C31. Adding to a table that holds no entries, but whose buckets are filled up to its capacity by removed ones, goes through a NULL pointer: \<open>rehash\<close> gives an empty table no
  array, and \<open>add\<close> looks for its bucket there.
\<close>

theorem empty_rehash_faults:
  assumes "all_permitted getKey hashf xs (Map.empty, [])" and "exec_ops getKey hashf xs (Map.empty, []) = Some (T, H)"
    and "T n = Some t" and "mBuckets t = Some a" and "sb_at H a = Some sb" and "mSize t = 0" and "mCapacity t \<le> mFilledBuckets t"
    and "mRefs sb = 1" and "\<not> collided (contents sb ! chainStart (trimHash (hashf (getKey e))) (mBucketCount t))"
  shows "exec_ops getKey hashf (xs @ [AddEntry n e]) (Map.empty, []) = None"
proof -
  have "tables_ok (hashf \<circ> getKey) (T, H)" by (rule tables.reached [OF no_tables(1) assms(1,2)])
  moreover have "onlyOwner a H = Some True" using assms(5,8) by (simp add: onlyOwner_def)
  ultimately have "exec_op getKey hashf (AddEntry n e) (T, H) = None" using add_to_ghosts [of hashf getKey T H n t a sb e] assms(3-7,9) by blast
  then show ?thesis unfolding exec_all_append assms(2) by simp
qed

theorem empty_rehash_faults_witness: "exec_ops id id (filling @ draining @ [AddEntry 0 3]) (Map.empty, []) = None"
proof -
  obtain T H where run: "exec_ops id id (filling @ draining) (Map.empty, []) = Some (T, H)" "T 0 = Some (filled_table\<lparr>mSize := 0\<rparr>)"
      "H = [Some \<lparr>mRefs = 1, contents = drained_buckets\<rparr>]"
    using drain_run by (auto split: option.splits)
  have at: "sb_at H 0 = Some \<lparr>mRefs = 1, contents = drained_buckets\<rparr>" unfolding run(3) by (simp add: sb_at_def)
  have "chainStart (trimHash 3) 5 = 3" by (simp add: chainStart_def trimHash_def)
  then have "\<not> collided (drained_buckets ! chainStart (trimHash (id (id 3))) (mBucketCount (filled_table\<lparr>mSize := 0\<rparr>)))"
    by (simp add: filled_table_def drained_buckets_def empty_buckets_def)
  then show ?thesis using empty_rehash_faults [OF drain_permitted run(1,2) _ at, of 3] by (simp add: filled_table_def)
qed

text \<open>Two more faults: assigning a table to itself frees its array before it is counted again, and a request beyond the last prime reads behind the table of primes.\<close>

lemma self_assignment_faults:
  assumes "mBuckets t = Some a" and "sb_at H a = Some sb" and "mRefs sb = 1"
  shows "setTo t t H = None"
proof -
  have "releaseBuckets a H = Some (H[a := None])"
    using assms sb_at_less [OF assms(2)] by (simp add: releaseBuckets_def release_def dealloc_def sb_at_update)
  then show ?thesis using assms sb_at_less [OF assms(2)] by (simp add: setTo_def dispose_def copy_table_def acquire_def sb_at_update)
qed

lemma behind_primes: "1685759167 < n \<Longrightarrow> next_prime n PRIMES = None"
  by (simp add: PRIMES_def)

end
